(* ===== verification/Prelude.thy ===== *)
theory Prelude
  imports Main "HOL-Library.Word" "HOL-Library.AList"
begin

text \<open>
  The vocabulary shared by every component of the development: Go's byte slices and big-endian
  integers (package \<open>encoding/binary\<close>), Go maps, buffered channels used with a non-blocking
  \<open>select\<close>, and the generic lemmas about them. The interfaces two or more components rely on are
  locales here: \<open>codec\<close> (a decoder that inverts an encoder), \<open>id_table\<close> (a table of
  live objects by key) and \<open>bounded_queue\<close> (a FIFO with a non-blocking offer).
\<close>

unbundle bit_operations_syntax

named_theorems wire_simps \<open>lengths, slices and inverses of wire encodings\<close>
named_theorems table_simps \<open>lookups after updates of Go maps\<close>

section \<open>Go data\<close>

type_synonym byte = "8 word"
type_synonym u16 = "16 word"
type_synonym u32 = "32 word"
type_synonym u64 = "64 word"
type_synonym bytes = "byte list"

text \<open>A duration or a point in time, in nanoseconds (Go's \<open>time.Duration\<close>, and
  \<open>time.Time\<close> read on one clock).\<close>

type_synonym duration = int
type_synonym time = int

abbreviation Second :: duration where "Second \<equiv> 1000000000"
abbreviation Millisecond :: duration where "Millisecond \<equiv> 1000000"

text \<open>The slice expression \<open>data[i:j]\<close>.\<close>

definition slice :: "nat \<Rightarrow> nat \<Rightarrow> 'a list \<Rightarrow> 'a list" where
  "slice i j xs = take (j - i) (drop i xs)"

lemma slice_length [wire_simps]: "j \<le> length xs \<Longrightarrow> length (slice i j xs) = j - i"
  by (simp add: slice_def)

lemma slice_append_left [wire_simps]:
  "length xs \<le> i \<Longrightarrow> slice i j (xs @ ys) = slice (i - length xs) (j - length xs) ys"
  by (simp add: slice_def diff_diff_eq2)

lemma slice_append_right: "j \<le> length xs \<Longrightarrow> slice i j (xs @ ys) = slice i j xs"
  by (cases "i \<le> j") (simp_all add: slice_def)

lemma slice_all: "length xs = n \<Longrightarrow> slice 0 n xs = xs"
  by (simp add: slice_def)

lemma slice_prefix: "length xs = n \<Longrightarrow> slice 0 n (xs @ ys) = xs"
  by (simp add: slice_def)

section \<open>Big-endian integers\<close>

text \<open>\<open>BigEndian.PutUint16/32/64\<close> and \<open>BigEndian.Uint16/32/64\<close>: the number of bytes is a
  parameter, the word size comes from the type.\<close>

primrec be_put :: "nat \<Rightarrow> 'a::len word \<Rightarrow> bytes" where
  "be_put 0 x = []"
| "be_put (Suc n) x = be_put n (drop_bit 8 x) @ [ucast x]"

definition be_get :: "bytes \<Rightarrow> 'a::len word" where
  "be_get bs = foldl (\<lambda>acc b. push_bit 8 acc OR ucast b) 0 bs"

lemma be_put_length [simp, wire_simps]: "length (be_put n x) = n"
  by (induction n arbitrary: x) simp_all

lemma be_get_snoc: "be_get (bs @ [b]) = push_bit 8 (be_get bs) OR ucast b"
  by (simp add: be_get_def)

lemma be_get_Nil [simp]: "be_get [] = 0"
  by (simp add: be_get_def)

lemma be_get_put_take: "be_get (be_put n x) = take_bit (8 * n) (x :: 'a::len word)"
proof (induction n arbitrary: x)
  case 0
  then show ?case by simp
next
  case (Suc n)
  have "be_get (be_put (Suc n) x) = push_bit 8 (take_bit (8 * n) (drop_bit 8 x)) OR ucast (ucast x :: byte)"
    by (simp add: be_get_snoc Suc)
  also have "\<dots> = take_bit (8 * Suc n) x"
    by (rule bit_word_eqI) (auto simp: bit_simps)
  finally show ?case .
qed

lemma be_get_put [simp, wire_simps]:
  "LENGTH('a) \<le> 8 * n \<Longrightarrow> be_get (be_put n x) = (x :: 'a::len word)"
  by (simp add: be_get_put_take take_bit_word_eq_self)

lemma be_put_take: "8 * n \<le> k \<Longrightarrow> be_put n (take_bit k x) = be_put n (x :: 'a::len word)"
proof (induction n arbitrary: k x)
  case 0
  then show ?case by simp
next
  case (Suc n)
  have "drop_bit 8 (take_bit k x) = take_bit (k - 8) (drop_bit 8 x)"
    using Suc.prems by (intro bit_word_eqI) (auto simp: bit_simps)
  moreover have "ucast (take_bit k x) = (ucast x :: byte)"
    using Suc.prems by (intro bit_word_eqI) (auto simp: bit_simps)
  ultimately show ?case using Suc by simp
qed

lemma be_put_get:
  "8 * length bs \<le> LENGTH('a) \<Longrightarrow> be_put (length bs) (be_get bs :: 'a::len word) = bs"
proof (induction bs rule: rev_induct)
  case Nil
  then show ?case by simp
next
  case (snoc b bs)
  let ?v = "be_get bs :: 'a word"
  have hi: "drop_bit 8 (push_bit 8 ?v OR ucast b) = take_bit (LENGTH('a) - 8) ?v"
    using snoc.prems by (intro bit_word_eqI) (auto simp: bit_simps dest: bit_imp_le_length)
  have lo: "ucast (push_bit 8 ?v OR ucast b) = b"
    using snoc.prems by (intro bit_word_eqI) (auto simp: bit_simps)
  show ?case
    using snoc.IH snoc.prems
    by (simp add: be_get_snoc be_put_take hi lo del: drop_bit_or unsigned_or_eq)
qed

section \<open>Interfaces: encoders and decoders\<close>

text \<open>A decoder inverts an encoder on the values the encoder accepts. The decoders of the
  protocol return their error on the left.\<close>

locale codec =
  fixes enc :: "'a \<Rightarrow> bytes" and dec :: "bytes \<Rightarrow> 'e + 'a" and valid :: "'a \<Rightarrow> bool"
  assumes dec_enc: "valid x \<Longrightarrow> dec (enc x) = Inr x"
begin

lemma enc_inj: "valid x \<Longrightarrow> valid y \<Longrightarrow> enc x = enc y \<Longrightarrow> x = y"
  by (metis Inr_inject dec_enc)

lemma enc_inj_on: "inj_on enc {x. valid x}"
  by (rule inj_onI) (auto intro: enc_inj)

lemma dec_all: "\<forall>x\<in>set xs. valid x \<Longrightarrow> map (dec \<circ> enc) xs = map Inr xs"
  by (induction xs) (simp_all add: dec_enc)

end

section \<open>Go maps\<close>

text \<open>
  A Go map is an association list: \<open>map_of\<close> is the index expression, \<open>AList.update\<close> an
  assignment, \<open>AList.delete\<close> the builtin \<open>delete\<close>, \<open>length\<close> the builtin \<open>len\<close>. Iteration
  visits the list in order; Go leaves the order open, and the theorems hold for every list.
\<close>

type_synonym ('k, 'v) gomap = "('k \<times> 'v) list"

abbreviation gm_put :: "'k \<Rightarrow> 'v \<Rightarrow> ('k, 'v) gomap \<Rightarrow> ('k, 'v) gomap" where
  "gm_put \<equiv> AList.update"

abbreviation gm_del :: "'k \<Rightarrow> ('k, 'v) gomap \<Rightarrow> ('k, 'v) gomap" where
  "gm_del \<equiv> AList.delete"

text \<open>An index expression whose missing value is the zero value \<open>d\<close>.\<close>

definition gm_at :: "'v \<Rightarrow> ('k, 'v) gomap \<Rightarrow> 'k \<Rightarrow> 'v" where
  "gm_at d m k = (case map_of m k of None \<Rightarrow> d | Some v \<Rightarrow> v)"

abbreviation gm_ok :: "('k, 'v) gomap \<Rightarrow> bool" where
  "gm_ok m \<equiv> distinct (map fst m)"

lemma map_of_gm_put [simp, table_simps]: "map_of (gm_put k v m) k' = (if k' = k then Some v else map_of m k')"
  by (simp add: update_conv')

lemma map_of_gm_del [simp, table_simps]: "map_of (gm_del k m) k' = (if k' = k then None else map_of m k')"
  by (simp add: delete_conv')

lemma gm_at_put [simp, table_simps]: "gm_at d (gm_put k v m) k' = (if k' = k then v else gm_at d m k')"
  by (simp add: gm_at_def)

lemma gm_at_del [simp, table_simps]: "gm_at d (gm_del k m) k' = (if k' = k then d else gm_at d m k')"
  by (simp add: gm_at_def)

lemma gm_at_Nil [simp]: "gm_at d [] k = d"
  by (simp add: gm_at_def)

lemma gm_ok_put [simp]: "gm_ok m \<Longrightarrow> gm_ok (gm_put k v m)"
  by (rule distinct_update)

lemma gm_ok_del [simp]: "gm_ok m \<Longrightarrow> gm_ok (gm_del k m)"
  by (rule distinct_delete)

lemma set_gm_put: "kv \<in> set (gm_put k v m) \<Longrightarrow> kv = (k, v) \<or> kv \<in> set m"
  by (induction m) (auto split: if_splits)

lemma length_gm_put: "length (gm_put k v m) = (if map_of m k = None then Suc (length m) else length m)"
  by (induction m) auto

lemma length_gm_put_le: "length (gm_put k v m) \<le> Suc (length m)"
  by (simp add: length_gm_put)

lemma length_gm_del_le: "length (gm_del k m) \<le> length m"
  by (simp add: AList.delete_eq)

lemma gm_del_absent: "map_of m k = None \<Longrightarrow> gm_del k m = m"
  by (induction m) auto

lemma length_gm_del:
  "gm_ok m \<Longrightarrow> length (gm_del k m) = (if map_of m k = None then length m else length m - 1)"
proof (induction m)
  case Nil
  then show ?case by simp
next
  case (Cons p m)
  obtain a b where p: "p = (a, b)" by force
  have "map_of m a = None"
    using Cons.prems by (simp add: p map_of_eq_None_iff)
  moreover have "map_of m k \<noteq> None \<Longrightarrow> 0 < length m"
    by (cases m) simp_all
  ultimately show ?case
    using Cons p by (auto simp: gm_del_absent)
qed

lemma map_of_map_snd: "map_of (map (\<lambda>(k, v). (k, f k v)) m) k = map_option (f k) (map_of m k)"
  by (induction m) auto

subsection \<open>The table interface\<close>

text \<open>
  What the tables of live objects (sessions by client, exchanges by request, bridges by stream,
  transfers by id) rely on. A client registers under a fresh key, looks it up until it is
  removed, and removal of one key leaves the others alone.
\<close>

locale id_table =
  fixes get :: "'t \<Rightarrow> 'k \<Rightarrow> 'v option"
    and put :: "'k \<Rightarrow> 'v \<Rightarrow> 't \<Rightarrow> 't"
    and del :: "'k \<Rightarrow> 't \<Rightarrow> 't"
    and len :: "'t \<Rightarrow> nat"
    and wf :: "'t \<Rightarrow> bool"
  assumes get_put: "get (put k v t) k' = (if k' = k then Some v else get t k')"
    and get_del: "get (del k t) k' = (if k' = k then None else get t k')"
    and len_put: "wf t \<Longrightarrow> len (put k v t) = (if get t k = None then Suc (len t) else len t)"
    and len_del: "wf t \<Longrightarrow> len (del k t) = (if get t k = None then len t else len t - 1)"
    and wf_put: "wf t \<Longrightarrow> wf (put k v t)"
    and wf_del: "wf t \<Longrightarrow> wf (del k t)"
begin

lemma get_after_remove: "get (del k (put k v t)) k' = (if k' = k then None else get t k')"
  by (simp add: get_put get_del)

lemma len_add_remove: "wf t \<Longrightarrow> get t k = None \<Longrightarrow> len (del k (put k v t)) = len t"
  by (simp add: len_put len_del get_put wf_put)

lemma len_replace: "wf t \<Longrightarrow> get t k = Some w \<Longrightarrow> len (put k v t) = len t"
  by (simp add: len_put)

lemma get_fold_del: "get (fold del ks t) k = (if k \<in> set ks then None else get t k)"
  by (induction ks arbitrary: t) (auto simp: get_del)

lemma wf_fold_del: "wf t \<Longrightarrow> wf (fold del ks t)"
  by (induction ks arbitrary: t) (simp_all add: wf_del)

end

interpretation gm: id_table map_of AList.update AList.delete length "\<lambda>m. distinct (map fst m)"
  by unfold_locales (simp_all add: length_gm_put length_gm_del)

section \<open>Buffered channels\<close>

text \<open>
  A buffered channel as the program uses it from one goroutine: a non-blocking send
  (\<open>select { case ch <- v: default: }\<close>) and a receive of what is queued. \<open>ch_closed\<close> records
  \<open>close(ch)\<close>; a send on a closed channel panics in Go, and every sender of the program checks
  the matching flag first.
\<close>

record 'a chan =
  ch_buf :: "'a list"
  ch_cap :: nat
  ch_closed :: bool

definition make_chan :: "nat \<Rightarrow> 'a chan" where
  "make_chan n = \<lparr>ch_buf = [], ch_cap = n, ch_closed = False\<rparr>"

definition chan_full :: "'a chan \<Rightarrow> bool" where
  "chan_full c \<longleftrightarrow> ch_cap c \<le> length (ch_buf c)"

definition chan_push :: "'a \<Rightarrow> 'a chan \<Rightarrow> 'a chan" where
  "chan_push v c = c\<lparr>ch_buf := ch_buf c @ [v]\<rparr>"

definition chan_offer :: "'a \<Rightarrow> 'a chan \<Rightarrow> 'a chan option" where
  "chan_offer v c = (if chan_full c then None else Some (chan_push v c))"

definition chan_take :: "'a chan \<Rightarrow> ('a \<times> 'a chan) option" where
  "chan_take c = (case ch_buf c of [] \<Rightarrow> None | v # vs \<Rightarrow> Some (v, c\<lparr>ch_buf := vs\<rparr>))"

definition chan_close :: "'a chan \<Rightarrow> 'a chan" where
  "chan_close c = c\<lparr>ch_closed := True\<rparr>"

definition chan_ok :: "'a chan \<Rightarrow> bool" where
  "chan_ok c \<longleftrightarrow> length (ch_buf c) \<le> ch_cap c"

lemma make_chan_ok [simp]: "chan_ok (make_chan n)"
  by (simp add: chan_ok_def make_chan_def)

lemma chan_take_None: "chan_take c = None \<longleftrightarrow> ch_buf c = []"
  by (simp add: chan_take_def split: list.split)

subsection \<open>The bounded queue interface\<close>

text \<open>
  The contract of a FIFO with a non-blocking offer: an offer is refused exactly when the queue
  holds its capacity, and a take returns the oldest element. \<open>run\<close> performs a sequence of
  offers (\<open>Inl\<close>) and takes (\<open>Inr\<close>) and records what was accepted and what came out.
\<close>

locale bounded_queue =
  fixes contents :: "'q \<Rightarrow> 'a list" and capacity :: "'q \<Rightarrow> nat"
    and offer :: "'a \<Rightarrow> 'q \<Rightarrow> 'q option" and take_q :: "'q \<Rightarrow> ('a \<times> 'q) option"
  assumes offer_None: "offer v q = None \<longleftrightarrow> capacity q \<le> length (contents q)"
    and offer_Some: "offer v q = Some q' \<Longrightarrow> contents q' = contents q @ [v] \<and> capacity q' = capacity q"
    and take_None: "take_q q = None \<longleftrightarrow> contents q = []"
    and take_Some: "take_q q = Some (v, q') \<Longrightarrow> contents q = v # contents q' \<and> capacity q' = capacity q"
begin

fun run :: "'q \<Rightarrow> ('a + unit) list \<Rightarrow> 'a list \<times> 'a list \<times> 'q" where
  "run q [] = ([], [], q)"
| "run q (Inl v # es) =
     (case offer v q of
        None \<Rightarrow> run q es
      | Some q' \<Rightarrow> (case run q' es of (acc, out, r) \<Rightarrow> (v # acc, out, r)))"
| "run q (Inr u # es) =
     (case take_q q of
        None \<Rightarrow> run q es
      | Some (v, q') \<Rightarrow> (case run q' es of (acc, out, r) \<Rightarrow> (acc, v # out, r)))"

lemma run_fifo: "run q es = (acc, out, r) \<Longrightarrow> contents q @ acc = out @ contents r"
proof (induction es arbitrary: q acc out r)
  case Nil
  then show ?case by simp
next
  case (Cons e es)
  show ?case
  proof (cases e)
    case (Inl v)
    show ?thesis
    proof (cases "offer v q")
      case None
      with Cons Inl show ?thesis by simp
    next
      case (Some q')
      with Cons.prems Inl obtain acc' where "run q' es = (acc', out, r)" and "acc = v # acc'"
        by (auto split: prod.splits)
      with Cons.IH [of q'] offer_Some [OF Some] show ?thesis by simp
    qed
  next
    case (Inr u)
    show ?thesis
    proof (cases "take_q q")
      case None
      with Cons Inr show ?thesis by simp
    next
      case (Some p)
      then obtain v q' where p: "take_q q = Some (v, q')" by (cases p) auto
      with Cons.prems Inr obtain out' where "run q' es = (acc, out', r)" and "out = v # out'"
        by (auto split: prod.splits)
      with Cons.IH [of q'] take_Some [OF p] show ?thesis by simp
    qed
  qed
qed

lemma step_bounded:
  assumes "length (contents q) \<le> capacity q"
  shows "offer v q = Some q' \<Longrightarrow> length (contents q') \<le> capacity q' \<and> capacity q' = capacity q"
    and "take_q q = Some (w, q'') \<Longrightarrow> length (contents q'') \<le> capacity q'' \<and> capacity q'' = capacity q"
  using assms offer_Some [of v q q'] offer_None [of v q] take_Some [of q w q''] by auto

lemma run_bounded:
  "run q es = (acc, out, r) \<Longrightarrow> length (contents q) \<le> capacity q \<Longrightarrow>
   length (contents r) \<le> capacity r \<and> capacity r = capacity q"
proof (induction es arbitrary: q acc out r)
  case Nil
  then show ?case by simp
next
  case (Cons e es)
  have "\<exists>q' acc' out'. run q' es = (acc', out', r) \<and> length (contents q') \<le> capacity q'
      \<and> capacity q' = capacity q"
  proof (cases e)
    case (Inl v)
    with Cons.prems show ?thesis
      by (cases "offer v q") (auto split: prod.splits dest: step_bounded(1) [OF Cons.prems(2)])
  next
    case (Inr u)
    with Cons.prems show ?thesis
      by (cases "take_q q") (auto split: prod.splits dest: step_bounded(2) [OF Cons.prems(2)])
  qed
  then show ?case using Cons.IH by metis
qed

end

interpretation chan: bounded_queue ch_buf ch_cap chan_offer chan_take
  by unfold_locales
    (auto simp: chan_offer_def chan_full_def chan_push_def chan_take_def split: if_splits list.splits)

lemma chan_offer_SomeE:
  assumes "chan_offer v c = Some c'"
  obtains "\<not> chan_full c" and "c' = chan_push v c"
  using assms by (auto simp: chan_offer_def split: if_splits)

lemma chan_offer_ok: "chan_offer v c = Some c' \<Longrightarrow> chan_ok c \<Longrightarrow> chan_ok c'"
  by (auto simp: chan_offer_def chan_full_def chan_push_def chan_ok_def split: if_splits)

lemma chan_take_ok: "chan_take c = Some (v, c') \<Longrightarrow> chan_ok c \<Longrightarrow> chan_ok c'"
  by (auto simp: chan_take_def chan_ok_def split: list.splits)

section \<open>Loops and searches\<close>

text \<open>What a field holds after a loop that only overwrites, only fills in, leaves alone or appends.\<close>

lemma fold_last:
  assumes "\<And>x m. get (f x m) = (if P x then Some x else get m)"
  shows "get (fold f xs m) = (case List.find P (rev xs) of Some x \<Rightarrow> Some x | None \<Rightarrow> get m)"
  using assms by (induction xs rule: rev_induct) auto

lemma fold_first:
  assumes "\<And>x m. get (f x m) = (case get m of Some y \<Rightarrow> Some y | None \<Rightarrow> if P x then Some x else None)"
  shows "get (fold f xs m) = (case get m of Some y \<Rightarrow> Some y | None \<Rightarrow> List.find P xs)"
proof (induction xs arbitrary: m)
  case (Cons x xs)
  show ?case by (simp add: Cons assms split: option.split)
qed (simp split: option.split)

lemma fold_same: "(\<And>x m. g (f x m) = g m) \<Longrightarrow> g (fold f xs m) = g m"
  by (induction xs arbitrary: m) auto

lemma fold_filed:
  assumes "\<And>x m. get (f x m) = get m @ (if P x then [x] else [])"
  shows "get (fold f xs m) = get m @ filter P xs"
proof (induction xs arbitrary: m)
  case (Cons x xs)
  show ?case by (simp add: Cons assms)
qed simp

text \<open>Members of a search result, of a filtered list and of a filtered or shortened table.\<close>

lemma find_some_in: "find P xs = Some x \<Longrightarrow> x \<in> set xs \<and> P x"
  by (induction xs) (auto split: if_splits)

lemma map_filter_mem: "x \<in> set (List.map_filter f xs) \<Longrightarrow> \<exists>e\<in>set xs. f e = Some x"
  by (auto simp: List.map_filter_def)

lemma map_of_filter_gm:
  "gm_ok m \<Longrightarrow> map_of (filter (\<lambda>(k, b). P b) m) k = (case map_of m k of None \<Rightarrow> None | Some b \<Rightarrow> if P b then Some b else None)"
proof (induction m)
  case (Cons x m)
  obtain k' b where x: "x = (k', b)" by force
  have "map_of m k' = None" using Cons.prems by (simp add: x map_of_eq_None_iff)
  with Cons show ?case by (auto simp: x split: option.split)
qed simp

lemma set_gm_del: "set (gm_del a t) = {kv \<in> set t. fst kv \<noteq> a}"
  by (auto simp: AList.delete_eq)

end
