(* ===== verification/Netip.thy ===== *)
theory Netip
  imports Prelude
begin

text \<open>
  The part of Go's \<open>net/netip\<close> the network components use: an address is invalid (the zero
  value), IPv4 or IPv6 with a zone; a prefix is an address with a number of bits. Textual forms
  are in \<open>Netip_Text\<close>.
\<close>

datatype addr = NoAddr | IP4 u32 | IP6 "128 word" string

definition addr_is_valid :: "addr \<Rightarrow> bool" where
  "addr_is_valid a \<longleftrightarrow> a \<noteq> NoAddr"

fun is4 :: "addr \<Rightarrow> bool" where
  "is4 (IP4 _) = True"
| "is4 _ = False"

fun is6 :: "addr \<Rightarrow> bool" where
  "is6 (IP6 _ _) = True"
| "is6 _ = False"

text \<open>An IPv4-mapped IPv6 address: \<open>::ffff:a.b.c.d\<close>.\<close>

fun is4in6 :: "addr \<Rightarrow> bool" where
  "is4in6 (IP6 w _) = (drop_bit 32 w = 0xffff)"
| "is4in6 _ = False"

fun unmap :: "addr \<Rightarrow> addr" where
  "unmap (IP6 w z) = (if drop_bit 32 w = 0xffff then IP4 (ucast w) else IP6 w z)"
| "unmap a = a"

text \<open>\<open>As4\<close> of an IPv4 address, as its big-endian value; \<open>As4\<close> of anything the callers do not
  exclude before panics in Go, and the callers test \<open>Is4\<close> first.\<close>

fun as4 :: "addr \<Rightarrow> u32" where
  "as4 (IP4 w) = w"
| "as4 (IP6 w _) = ucast w"
| "as4 NoAddr = 0"

fun bit_len :: "addr \<Rightarrow> nat" where
  "bit_len NoAddr = 0"
| "bit_len (IP4 _) = 32"
| "bit_len (IP6 _ _) = 128"

text \<open>Prefixes. \<open>NoPrefix\<close> is the invalid prefix; the number of bits of the others is within the
  address length (\<open>prefix_ok\<close>), which \<open>ParsePrefix\<close> and \<open>PrefixFrom\<close> check.\<close>

datatype prefix = NoPrefix | Pfx4 u32 nat | Pfx6 "128 word" nat

fun prefix_ok :: "prefix \<Rightarrow> bool" where
  "prefix_ok NoPrefix = False"
| "prefix_ok (Pfx4 _ n) = (n \<le> 32)"
| "prefix_ok (Pfx6 _ n) = (n \<le> 128)"

definition mask_to :: "nat \<Rightarrow> 'a::len word \<Rightarrow> 'a word" where
  "mask_to n w = push_bit (LENGTH('a) - n) (drop_bit (LENGTH('a) - n) w)"

fun masked :: "prefix \<Rightarrow> prefix" where
  "masked NoPrefix = NoPrefix"
| "masked (Pfx4 w n) = Pfx4 (mask_to n w) n"
| "masked (Pfx6 w n) = Pfx6 (mask_to n w) n"

fun prefix_addr :: "prefix \<Rightarrow> addr" where
  "prefix_addr NoPrefix = NoAddr"
| "prefix_addr (Pfx4 w _) = IP4 w"
| "prefix_addr (Pfx6 w _) = IP6 w []"

fun prefix_bits :: "prefix \<Rightarrow> nat" where
  "prefix_bits NoPrefix = 0"
| "prefix_bits (Pfx4 _ n) = n"
| "prefix_bits (Pfx6 _ n) = n"

text \<open>\<open>PrefixFrom(a, a.BitLen())\<close>: the prefix holding one address.\<close>

fun host_prefix :: "addr \<Rightarrow> prefix" where
  "host_prefix NoAddr = NoPrefix"
| "host_prefix (IP4 w) = Pfx4 w 32"
| "host_prefix (IP6 w _) = Pfx6 w 128"

fun prefix_contains :: "prefix \<Rightarrow> addr \<Rightarrow> bool" where
  "prefix_contains (Pfx4 p n) (IP4 a) = (n \<le> 32 \<and> drop_bit (32 - n) (a XOR p) = 0)"
| "prefix_contains (Pfx6 p n) (IP6 a z) = (n \<le> 128 \<and> z = [] \<and> drop_bit (128 - n) (a XOR p) = 0)"
| "prefix_contains _ _ = False"

text \<open>\<open>Addr.Prefix(bits)\<close>: the network of an address, an error when the bits exceed its length.\<close>

fun addr_prefix :: "addr \<Rightarrow> nat \<Rightarrow> prefix option" where
  "addr_prefix NoAddr _ = None"
| "addr_prefix (IP4 w) n = (if n \<le> 32 then Some (Pfx4 (mask_to n w) n) else None)"
| "addr_prefix (IP6 w _) n = (if n \<le> 128 then Some (Pfx6 (mask_to n w) n) else None)"

section \<open>Facts\<close>

lemma xor_zero_iff: "a XOR b = 0 \<longleftrightarrow> a = (b :: 'a::len word)"
proof
  assume "a XOR b = 0"
  then have "bit a i = bit b i" for i
    by (metis bit_0_eq bit_xor_iff bot_apply bot_bool_def)
  then show "a = b" by (simp add: bit_eq_iff)
qed simp

lemma drop_xor_zero: "drop_bit n (a XOR b) = 0 \<longleftrightarrow> drop_bit n a = drop_bit n (b :: 'a::len word)"
  by (simp add: xor_zero_iff)

lemma mask_to_eq_iff:
  fixes a b :: "'a::len word"
  shows "n \<le> LENGTH('a) \<Longrightarrow>
    mask_to n a = mask_to n b \<longleftrightarrow> drop_bit (LENGTH('a) - n) a = drop_bit (LENGTH('a) - n) b"
proof
  assume "mask_to n a = mask_to n b"
  then have *: "drop_bit (LENGTH('a) - n) (mask_to n a) = drop_bit (LENGTH('a) - n) (mask_to n b)"
    by simp
  have "drop_bit (LENGTH('a) - n) (mask_to n w) = drop_bit (LENGTH('a) - n) w" for w :: "'a word"
    unfolding mask_to_def by (rule bit_word_eqI) (auto simp: bit_simps dest: bit_imp_le_length)
  with * show "drop_bit (LENGTH('a) - n) a = drop_bit (LENGTH('a) - n) b" by simp
qed (simp add: mask_to_def)

lemma contains4_iff: "n \<le> 32 \<Longrightarrow> prefix_contains (Pfx4 p n) (IP4 a) \<longleftrightarrow> mask_to n a = mask_to n p"
  by (simp add: xor_zero_iff mask_to_eq_iff)

lemma contains6_iff: "n \<le> 128 \<Longrightarrow> prefix_contains (Pfx6 p n) (IP6 a []) \<longleftrightarrow> mask_to n a = mask_to n p"
  by (simp add: xor_zero_iff mask_to_eq_iff)

lemma mask_to_mask_to [simp]: "mask_to n (mask_to n w) = mask_to n w"
  unfolding mask_to_def by (rule bit_word_eqI) (auto simp: bit_simps dest: bit_imp_le_length)

lemma contains_masked: "prefix_ok p \<Longrightarrow> prefix_contains (masked p) a = prefix_contains p a"
proof (cases p; cases a)
  fix w n v
  assume "prefix_ok p" "p = Pfx4 w n" "a = IP4 v"
  then show ?thesis by (simp del: prefix_contains.simps add: contains4_iff)
next
  fix w n v z
  assume *: "prefix_ok p" "p = Pfx6 w n" "a = IP6 v z"
  then show ?thesis
    by (cases "z = []") (simp_all del: prefix_contains.simps(2) add: contains6_iff, simp)
qed auto

lemma contains_host: "prefix_contains (host_prefix (IP4 a)) (IP4 b) \<longleftrightarrow> a = b"
  by (auto simp: xor_zero_iff)

lemma unmap_not_4in6: "\<not> is4in6 (unmap a)"
  by (cases a) auto

lemma unmap_idem [simp]: "unmap (unmap a) = unmap a"
  by (cases a) auto

end
