(* ===== verification/Wg_Packet.thy ===== *)
theory Wg_Packet
  imports Netip
begin

text \<open>
  IPv4 packets as the packet filter and the virtual DNS of the agent read and build them
  (\<open>client/wgnet/packet.go\<close>): the parser, the Internet checksum, and the builders of IP, UDP and TCP
  packets. The builders leave \<open>lead\<close> zero bytes in front of the packet for the tun device.
\<close>

definition protoICMP :: byte where "protoICMP = 1"
definition protoTCP :: byte where "protoTCP = 6"
definition protoUDP :: byte where "protoUDP = 17"
definition icmpEchoReply :: byte where "icmpEchoReply = 0"
definition icmpDestUnreach :: byte where "icmpDestUnreach = 3"
definition icmpEchoRequest :: byte where "icmpEchoRequest = 8"
definition icmpTimeExceed :: byte where "icmpTimeExceed = 11"
definition icmpParamProb :: byte where "icmpParamProb = 12"

lemmas proto_consts = protoICMP_def protoTCP_def protoUDP_def
lemmas icmp_consts = icmpEchoReply_def icmpDestUnreach_def icmpEchoRequest_def icmpTimeExceed_def icmpParamProb_def

record pkt_info =
  pk_proto :: byte
  pk_src :: addr
  pk_dst :: addr
  pk_sport :: u16
  pk_dport :: u16
  pk_hdr :: nat
  pk_total :: nat
  pk_frag :: bool
  pk_flags :: byte
  pk_seq :: u32
  pk_ack :: u32
  pk_itype :: byte
  pk_icode :: byte
  pk_iid :: u16
  pk_payload :: bytes
  pk_l4 :: bytes

definition empty_pkt :: pkt_info where
  "empty_pkt = \<lparr>pk_proto = 0, pk_src = NoAddr, pk_dst = NoAddr, pk_sport = 0, pk_dport = 0, pk_hdr = 0,
     pk_total = 0, pk_frag = False, pk_flags = 0, pk_seq = 0, pk_ack = 0, pk_itype = 0, pk_icode = 0,
     pk_iid = 0, pk_payload = [], pk_l4 = []\<rparr>"

definition parse_l4 :: "pkt_info \<Rightarrow> bytes \<Rightarrow> pkt_info option" where
  "parse_l4 p l4 =
     (if pk_proto p = protoTCP then
        (if length l4 < 20 then None
         else let doff = unat (drop_bit 4 (l4 ! 12)) * 4 in
           if doff < 20 \<or> doff > length l4 then None
           else Some (p\<lparr>pk_sport := be_get (slice 0 2 l4), pk_dport := be_get (slice 2 4 l4),
                        pk_seq := be_get (slice 4 8 l4), pk_ack := be_get (slice 8 12 l4),
                        pk_flags := l4 ! 13, pk_payload := drop doff l4\<rparr>))
      else if pk_proto p = protoUDP then
        (if length l4 < 8 then None
         else let ul = unat (be_get (slice 4 6 l4) :: u16) in
           if ul < 8 \<or> ul > length l4 then None
           else Some (p\<lparr>pk_sport := be_get (slice 0 2 l4), pk_dport := be_get (slice 2 4 l4),
                        pk_payload := slice 8 ul l4\<rparr>))
      else if pk_proto p = protoICMP then
        (if length l4 < 8 then None
         else
           let q = p\<lparr>pk_itype := l4 ! 0, pk_icode := l4 ! 1\<rparr> in
           Some (if pk_itype q = icmpEchoRequest \<or> pk_itype q = icmpEchoReply
                 then q\<lparr>pk_iid := be_get (slice 4 6 l4)\<rparr> else q))
      else Some p)"

definition parse_ipv4_packet :: "bytes \<Rightarrow> pkt_info option" where
  "parse_ipv4_packet b0 =
     (if length b0 < 20 \<or> drop_bit 4 (b0 ! 0) \<noteq> 4 then None
      else
        let ihl = unat (b0 ! 0 AND 0x0f) * 4 in
        if ihl < 20 \<or> length b0 < ihl then None
        else
          let tot = unat (be_get (slice 2 4 b0) :: u16) in
          if tot < ihl \<or> tot > length b0 then None
          else
            let b = take tot b0;
                p = empty_pkt\<lparr>pk_hdr := ihl, pk_total := tot, pk_proto := b ! 9,
                      pk_src := IP4 (be_get (slice 12 16 b)), pk_dst := IP4 (be_get (slice 16 20 b))\<rparr>;
                fo = be_get (slice 6 8 b) :: u16 in
            if fo AND 0x3fff \<noteq> 0 then Some (p\<lparr>pk_frag := True\<rparr>)
            else parse_l4 (p\<lparr>pk_l4 := drop ihl b\<rparr>) (drop ihl b))"

section \<open>The Internet checksum\<close>

text \<open>The sum of the 16-bit words, an odd last byte padded, in 32-bit arithmetic.\<close>

fun sum16 :: "u32 \<Rightarrow> bytes \<Rightarrow> u32" where
  "sum16 acc (a # b # bs) = sum16 (acc + ucast (be_get [a, b] :: u16)) bs"
| "sum16 acc [a] = acc + push_bit 8 (ucast a)"
| "sum16 acc [] = acc"

lemma u16mask: "(0xffff :: u32) = mask 16" by (simp add: mask_eq_exp_minus_1)

lemma low16: "unat (s AND 0xffff :: u32) = unat s mod 65536"
  unfolding u16mask take_bit_eq_mask [symmetric] unsigned_take_bit_eq
  unfolding take_bit_eq_mod by simp

lemma unat_ucast16: "unat (ucast x :: u16) = unat x mod 65536" for x :: u32
  by (simp add: unsigned_ucast_eq take_bit_eq_mod)

lemma unat_ucast32: "unat (ucast x :: u32) = unat x" for x :: u16
  by (simp add: unsigned_ucast_eq take_bit_nat_eq_self order.strict_trans [OF unsigned_less])

lemma unat_not16: "unat (NOT x) = 65535 - unat x" for x :: u16
proof -
  have le: "x \<le> - 1" by (rule word_order.extremum)
  have "NOT x = - 1 - x" by (simp add: not_eq_complement)
  then have "unat (NOT x) = unat (- 1 :: u16) - unat x"
    using unat_sub [OF le] by simp
  moreover have "unat (- 1 :: u16) = 65535" by (simp add: unsigned_minus_1_eq_mask mask_eq_exp_minus_1)
  ultimately show ?thesis by simp
qed

lemma high16: "unat (drop_bit 16 s :: u32) = unat s div 65536"
  by (simp add: drop_bit_eq_div unat_div_distrib)

lemma fold_step_unat: "unat ((s AND 0xffff) + drop_bit 16 s :: u32) = unat s mod 65536 + unat s div 65536"
proof -
  have "unat s < 2 ^ 32" using unsigned_less [of s] by simp
  then have "unat s div 65536 < 65536" by (simp add: less_mult_imp_div_less)
  moreover have "unat s mod 65536 < 65536" by simp
  ultimately have "unat s mod 65536 + unat s div 65536 < 2 ^ 32" by simp
  then show ?thesis by (simp add: unat_word_ariths(1) low16 high16)
qed

text \<open>The folding loop; each turn makes the sum smaller.\<close>

function fold16 :: "u32 \<Rightarrow> u32" where
  "fold16 s = (if drop_bit 16 s \<noteq> 0 then fold16 ((s AND 0xffff) + drop_bit 16 s) else s)"
  by auto
termination
proof (relation "measure unat")
  fix s :: u32
  assume "drop_bit 16 s \<noteq> 0"
  then have "0 < unat s div 65536"
    using high16 [of s] by (metis neq0_conv unsigned_0 unsigned_word_eqI)
  moreover have "unat s = 65536 * (unat s div 65536) + unat s mod 65536" by simp
  ultimately have "unat s mod 65536 + unat s div 65536 < unat s" by linarith
  then show "((s AND 0xffff) + drop_bit 16 s, s) \<in> measure unat"
    by (simp only: in_measure fold_step_unat)
qed simp

declare fold16.simps [simp del]

definition csum16 :: "u32 \<Rightarrow> bytes \<Rightarrow> u16" where
  "csum16 init b = NOT (ucast (fold16 (sum16 init b)))"

definition pseudo_sum :: "u32 \<Rightarrow> u32 \<Rightarrow> byte \<Rightarrow> nat \<Rightarrow> u32" where
  "pseudo_sum src dst proto l = sum16 (sum16 0 (be_put 4 src)) (be_put 4 dst) + ucast proto + of_nat l"

section \<open>Builders\<close>

definition ipv4_header :: "u32 \<Rightarrow> u32 \<Rightarrow> byte \<Rightarrow> nat \<Rightarrow> u16 \<Rightarrow> bytes" where
  "ipv4_header src dst proto tot ck =
     [0x45, 0] @ be_put 2 (of_nat tot :: u16) @ [0, 0, 0x40, 0, 64, proto] @ be_put 2 ck
     @ be_put 4 src @ be_put 4 dst"

definition build_ipv4 :: "nat \<Rightarrow> u32 \<Rightarrow> u32 \<Rightarrow> byte \<Rightarrow> bytes \<Rightarrow> bytes" where
  "build_ipv4 lead src dst proto l4 =
     (let tot = 20 + length l4; h0 = ipv4_header src dst proto tot 0 in
      replicate lead 0 @ ipv4_header src dst proto tot (csum16 0 h0) @ l4)"

definition build_udp :: "nat \<Rightarrow> u32 \<Rightarrow> u32 \<Rightarrow> u16 \<Rightarrow> u16 \<Rightarrow> bytes \<Rightarrow> bytes" where
  "build_udp lead src dst sport dport payload =
     build_ipv4 lead src dst protoUDP
       (be_put 2 sport @ be_put 2 dport @ be_put 2 (of_nat (8 + length payload) :: u16) @ [0, 0] @ payload)"

definition tcp_segment :: "u16 \<Rightarrow> u16 \<Rightarrow> u32 \<Rightarrow> u32 \<Rightarrow> byte \<Rightarrow> u16 \<Rightarrow> bytes \<Rightarrow> bytes" where
  "tcp_segment sport dport sq ak flags ck payload =
     be_put 2 sport @ be_put 2 dport @ be_put 4 sq @ be_put 4 ak @ [0x50, flags] @ be_put 2 (8192 :: u16)
     @ be_put 2 ck @ [0, 0] @ payload"

definition build_tcp :: "nat \<Rightarrow> u32 \<Rightarrow> u32 \<Rightarrow> u16 \<Rightarrow> u16 \<Rightarrow> u32 \<Rightarrow> u32 \<Rightarrow> byte \<Rightarrow> bytes \<Rightarrow> bytes" where
  "build_tcp lead src dst sport dport sq ak flags payload =
     (let l0 = tcp_segment sport dport sq ak flags 0 payload;
          ck = csum16 (pseudo_sum src dst protoTCP (length l0)) l0 in
      build_ipv4 lead src dst protoTCP (tcp_segment sport dport sq ak flags ck payload))"

section \<open>Checksums verify\<close>

lemma mod_ones: "(m + 65536 * d) mod 65535 = (m + d) mod 65535" for m d :: nat
proof -
  have "m + 65536 * d = (m + d) + 65535 * d" by simp
  then show ?thesis by (simp only: mod_mult_self2)
qed

lemma mod_cancel: "(a + b) mod 65535 = (0 + b) mod 65535 \<Longrightarrow> a mod 65535 = 0" for a b :: nat
  using mod_eq_dvd_iff_nat [of b "a + b" 65535] by (simp add: mod_eq_0_iff_dvd)

lemma div_mod_zero: "n = 0 \<longleftrightarrow> n mod 65536 + n div 65536 = 0" for n :: nat
  using mod_mult_div_eq [of n 65536] by (metis add_is_0 mult_0_right div_0 mod_0)

lemma fold16_spec:
  "unat (fold16 s) < 65536 \<and> unat (fold16 s) mod 65535 = unat s mod 65535 \<and> (unat (fold16 s) = 0 \<longleftrightarrow> unat s = 0)"
proof (induction s rule: fold16.induct)
  case (1 s)
  show ?case
  proof (cases "drop_bit 16 s \<noteq> 0")
    case True
    let ?t = "(s AND 0xffff) + drop_bit 16 s"
    have t: "unat ?t = unat s mod 65536 + unat s div 65536" by (rule fold_step_unat)
    have m: "unat s mod 65535 = unat ?t mod 65535"
      unfolding t using mod_ones [of "unat s mod 65536" "unat s div 65536"] by (simp only: mod_mult_div_eq)
    have z: "unat ?t = 0 \<longleftrightarrow> unat s = 0"
      unfolding t using div_mod_zero by (rule sym)
    have "fold16 s = fold16 ?t" using True by (subst fold16.simps) (simp only: if_True not_False_eq_True)
    then show ?thesis using 1 [OF True] m z by (simp only:)
  next
    case False
    then have "unat s div 65536 = 0" using high16 [of s] by simp
    then have "unat s < 65536" by (simp only: div_eq_0_iff) simp
    moreover have "fold16 s = s" using False by (subst fold16.simps) simp
    ultimately show ?thesis by simp
  qed
qed

lemma csum16_verifies:
  assumes "unat s + 65535 < 2 ^ 32"
  shows "NOT (ucast (fold16 (s + ucast (NOT (ucast (fold16 s) :: u16)))) :: u16) = 0"
proof -
  let ?f = "unat (fold16 s)"
  let ?c = "NOT (ucast (fold16 s) :: u16)"
  have f: "?f < 65536" "?f mod 65535 = unat s mod 65535" "?f = 0 \<longleftrightarrow> unat s = 0"
    using fold16_spec [of s] by auto
  let ?s = "s + ucast ?c"
  have c: "unat (ucast ?c :: u32) = 65535 - ?f"
    using f(1) by (simp only: unat_ucast32 unat_not16 unat_ucast16 mod_less)
  have s: "unat ?s = unat s + (65535 - ?f)"
    unfolding unat_word_ariths(1) c using assms f(1) by simp
  have "unat s + (65535 - ?f) + ?f = unat s + 65535" using f(1) by linarith
  then have "(unat ?s + ?f) mod 65535 = (0 + ?f) mod 65535" using f(2) by (simp add: s)
  then have zero: "unat ?s mod 65535 = 0" by (rule mod_cancel)
  have pos: "unat ?s \<noteq> 0" using f(1,3) by (auto simp: s)
  have g: "unat (fold16 ?s) < 65536" "unat (fold16 ?s) mod 65535 = 0" "unat (fold16 ?s) \<noteq> 0"
    using fold16_spec [of ?s] zero pos by auto
  have "unat (fold16 ?s) = 65535"
  proof (rule ccontr)
    assume "unat (fold16 ?s) \<noteq> 65535"
    with g(1) have "unat (fold16 ?s) < 65535" by linarith
    with g(2,3) show False by simp
  qed
  then have "unat (NOT (ucast (fold16 ?s) :: u16)) = 0" by (simp only: unat_not16 unat_ucast16) simp
  then show ?thesis by (simp only: unat_eq_0)
qed

lemma sum16_add: "sum16 (a + b) xs = sum16 a xs + b"
  by (induction a xs arbitrary: b rule: sum16.induct) (simp_all add: add.assoc add.commute add.left_commute)

lemma sum16_append: "even (length xs) \<Longrightarrow> sum16 a (xs @ ys) = sum16 (sum16 a xs) ys"
  by (induction a xs rule: sum16.induct) simp_all

lemma be_put2: "be_put 2 w = [ucast (drop_bit 8 w), ucast w]"
  by (simp add: numeral_2_eq_2)

lemma sum16_be2: "sum16 a (be_put 2 w) = a + ucast w" for w :: u16
proof -
  have "be_get [ucast (drop_bit 8 w), ucast w] = w" using be_get_put [of 2 w] by (simp add: be_put2)
  then show ?thesis by (simp add: be_put2)
qed

lemma u16_le: "unat w \<le> 65535" for w :: u16
proof -
  have "unat w < 65536" using unsigned_less [of w, where 'a = nat] by simp
  then show ?thesis by linarith
qed

lemma byte_le: "unat (ucast b :: u32) \<le> 255" for b :: byte
proof -
  have "unat b < 256" using unsigned_less [of b, where 'a = nat] by simp
  moreover have "unat (ucast b :: u32) = unat b"
    by (simp add: unsigned_ucast_eq take_bit_nat_eq_self order.strict_trans [OF unsigned_less])
  ultimately show ?thesis by linarith
qed

lemma unat_sum16_le: "unat (sum16 a xs) \<le> unat a + 65535 * length xs"
proof (induction a xs rule: sum16.induct)
  case (1 acc a b bs)
  have "unat (acc + ucast (be_get [a, b] :: u16)) \<le> unat acc + unat (ucast (be_get [a, b] :: u16) :: u32)"
    by (simp add: unat_word_ariths(1))
  also have "\<dots> \<le> unat acc + 65535"
    using u16_le by (simp only: unat_ucast32 add_le_cancel_left)
  finally show ?case using 1 by simp
next
  case (2 acc a)
  have "push_bit 8 (ucast a :: u32) = ucast a * 256" by (simp add: push_bit_eq_mult)
  moreover have "unat (ucast a :: u32) \<le> 255" by (rule byte_le)
  ultimately have "unat (push_bit 8 (ucast a :: u32)) \<le> 65535"
    by (simp add: unat_word_ariths(2))
  moreover have "unat (acc + push_bit 8 (ucast a)) \<le> unat acc + unat (push_bit 8 (ucast a :: u32))"
    by (simp add: unat_word_ariths(1))
  ultimately show ?case by simp
qed simp

text \<open>Storing the complement of the folded sum in a zeroed 16-bit field at an even offset makes the
  receiver's sum of the whole verify: this is what both the header and the TCP checksum rely on.\<close>

lemma stored_csum_verifies:
  assumes "even (length xs)" and "unat a + 65535 * (length xs + 2 + length ys) + 65535 < 2 ^ 32"
  shows "csum16 a (xs @ be_put 2 (csum16 a (xs @ be_put 2 (0 :: u16) @ ys)) @ ys) = 0"
proof -
  have field: "sum16 a (xs @ be_put 2 w @ ys) = sum16 a (xs @ be_put 2 (0 :: u16) @ ys) + ucast w" for w :: u16
    using assms(1) by (simp add: sum16_append sum16_be2 sum16_add)
  let ?s = "sum16 a (xs @ be_put 2 (0 :: u16) @ ys)"
  have "unat ?s + 65535 < 2 ^ 32"
    using unat_sum16_le [of a "xs @ be_put 2 (0 :: u16) @ ys"] assms(2) by simp
  from csum16_verifies [OF this] show ?thesis
    by (simp only: csum16_def field [of "NOT (ucast (fold16 ?s))"])
qed

section \<open>What the builders promise\<close>

lemma be_put_zero16: "[0, 0] = be_put 2 (0 :: u16)"
  by (simp add: be_put2)

lemma ipv4_header_split:
  "ipv4_header src dst proto tot ck =
     ([0x45, 0] @ be_put 2 (of_nat tot :: u16) @ [0, 0, 0x40, 0, 64, proto]) @ be_put 2 ck
     @ be_put 4 src @ be_put 4 dst"
  by (simp add: ipv4_header_def)

lemma ipv4_header_length [simp]: "length (ipv4_header src dst proto tot ck) = 20"
  by (simp add: ipv4_header_def)

lemma header_verifies: "csum16 0 (take 20 (drop lead (build_ipv4 lead src dst proto l4))) = 0"
proof -
  let ?xs = "[0x45, 0] @ be_put 2 (of_nat (20 + length l4) :: u16) @ [0, 0, 0x40, 0, 64, proto]"
  let ?ys = "be_put 4 src @ be_put 4 dst"
  have "csum16 0 (?xs @ be_put 2 (csum16 0 (?xs @ be_put 2 (0 :: u16) @ ?ys)) @ ?ys) = 0"
    by (rule stored_csum_verifies) simp_all
  then show ?thesis by (simp add: build_ipv4_def Let_def ipv4_header_def)
qed

lemma tcp_segment_split:
  "tcp_segment sport dport sq ak flags ck payload =
     (be_put 2 sport @ be_put 2 dport @ be_put 4 sq @ be_put 4 ak @ [0x50, flags] @ be_put 2 (8192 :: u16))
     @ be_put 2 ck @ [0, 0] @ payload"
  by (simp add: tcp_segment_def)

lemma tcp_segment_length [simp]: "length (tcp_segment sport dport sq ak flags ck payload) = 20 + length payload"
  by (simp add: tcp_segment_def)

lemma unat_pseudo_sum_le: "unat (pseudo_sum src dst proto l) \<le> 524280 + 255 + l"
proof -
  let ?b = "sum16 (sum16 0 (be_put 4 src)) (be_put 4 dst)"
  have b: "unat ?b \<le> 524280"
    using unat_sum16_le [of 0 "be_put 4 src"] unat_sum16_le [of "sum16 0 (be_put 4 src)" "be_put 4 dst"]
    by simp
  have p: "unat (ucast proto :: u32) \<le> 255"
    by (rule byte_le)
  have l: "unat (of_nat l :: u32) \<le> l"
    by (simp add: unsigned_of_nat take_bit_eq_mod)
  have "unat (?b + ucast proto + of_nat l) \<le> unat (?b + ucast proto) + unat (of_nat l :: u32)"
    by (simp add: unat_word_ariths(1))
  also have "\<dots> \<le> unat ?b + unat (ucast proto :: u32) + unat (of_nat l :: u32)"
    by (simp add: unat_word_ariths(1))
  finally show ?thesis unfolding pseudo_sum_def using b p l by linarith
qed

lemma tcp_verifies:
  assumes "length payload \<le> 65495"
  shows "csum16 (pseudo_sum src dst protoTCP (20 + length payload))
           (drop 20 (drop lead (build_tcp lead src dst sport dport sq ak flags payload))) = 0"
proof -
  let ?p = "pseudo_sum src dst protoTCP (20 + length payload)"
  let ?xs = "be_put 2 sport @ be_put 2 dport @ be_put 4 sq @ be_put 4 ak @ [0x50, flags] @ be_put 2 (8192 :: u16)"
  have "csum16 ?p (?xs @ be_put 2 (csum16 ?p (?xs @ be_put 2 (0 :: u16) @ [0, 0] @ payload)) @ [0, 0] @ payload) = 0"
    by (rule stored_csum_verifies)
      (use unat_pseudo_sum_le [of src dst protoTCP "20 + length payload"] assms in simp_all)
  then show ?thesis
    by (simp add: build_tcp_def build_ipv4_def Let_def tcp_segment_split)
qed

text \<open>Every byte of a header at its place.\<close>

lemma be_put4: "be_put 4 w = [ucast (drop_bit 24 w), ucast (drop_bit 16 w), ucast (drop_bit 8 w), ucast w]"
  by (simp add: numeral_eq_Suc)

lemma build_ipv4_parts:
  assumes "b = drop lead (build_ipv4 lead src dst proto l4)"
  shows "length b = 20 + length l4" and "b ! 0 = 0x45" and "slice 2 4 b = be_put 2 (of_nat (20 + length l4) :: u16)"
    and "slice 6 8 b = [0x40, 0]" and "b ! 9 = proto" and "slice 12 16 b = be_put 4 src"
    and "slice 16 20 b = be_put 4 dst" and "drop 20 b = l4"
  unfolding assms build_ipv4_def Let_def
  by (simp_all add: ipv4_header_def be_put2 be_put4 slice_def)

lemma parse_built:
  assumes "20 + length l4 \<le> 65535"
  shows "parse_ipv4_packet (drop lead (build_ipv4 lead src dst proto l4)) =
    parse_l4 (empty_pkt\<lparr>pk_hdr := 20, pk_total := 20 + length l4, pk_proto := proto,
      pk_src := IP4 src, pk_dst := IP4 dst, pk_l4 := l4\<rparr>) l4"
proof -
  define b where "b = drop lead (build_ipv4 lead src dst proto l4)"
  note p = build_ipv4_parts [OF b_def]
  have t: "unat (be_get (slice 2 4 b) :: u16) = 20 + length l4"
    using assms by (simp add: p(3) unsigned_of_nat take_bit_nat_eq_self del: of_nat_add)
  have fo: "(be_get (slice 6 8 b) :: u16) AND 0x3fff = 0" unfolding p(4) by (simp add: be_get_def)
  have ihl: "unat (b ! 0 AND 0x0f) * 4 = 20" "drop_bit 4 (b ! 0) = 4" unfolding p(2) by simp_all
  have tk: "take (20 + length l4) b = b" by (simp add: p(1))
  show ?thesis
    unfolding b_def [symmetric] parse_ipv4_packet_def ihl t Let_def tk fo
    by (simp add: p)
qed

lemma build_udp_eq: "build_udp lead src dst sport dport payload = build_ipv4 lead src dst protoUDP
    (be_put 2 sport @ be_put 2 dport @ be_put 2 (of_nat (8 + length payload) :: u16) @ [0, 0] @ payload)"
  by (simp add: build_udp_def)

lemma parse_built_udp:
  assumes "length payload \<le> 65507"
  shows "parse_ipv4_packet (drop lead (build_udp lead src dst sport dport payload)) =
    Some (empty_pkt\<lparr>pk_hdr := 20, pk_total := 28 + length payload, pk_proto := protoUDP,
      pk_src := IP4 src, pk_dst := IP4 dst,
      pk_l4 := drop 20 (drop lead (build_udp lead src dst sport dport payload)),
      pk_sport := sport, pk_dport := dport, pk_payload := payload\<rparr>)"
proof -
  let ?l4 = "be_put 2 sport @ be_put 2 dport @ be_put 2 (of_nat (8 + length payload) :: u16) @ [0, 0] @ payload"
  have d: "drop 20 (drop lead (build_ipv4 lead src dst protoUDP ?l4)) = ?l4"
    by (rule build_ipv4_parts(8) [OF refl])
  have u: "unat (of_nat (8 + length payload) :: u16) = 8 + length payload"
    using assms by (simp add: unsigned_of_nat take_bit_nat_eq_self del: of_nat_add)
  have "20 + length ?l4 \<le> 65535" using assms by simp
  from parse_built [OF this] show ?thesis
    unfolding build_udp_eq d
    using u by (simp add: parse_l4_def proto_consts wire_simps slice_prefix slice_def)
qed

lemma parse_built_tcp:
  assumes "length payload \<le> 65495"
  shows "parse_ipv4_packet (drop lead (build_tcp lead src dst sport dport sq ak flags payload)) =
    Some (empty_pkt\<lparr>pk_hdr := 20, pk_total := 40 + length payload, pk_proto := protoTCP,
      pk_src := IP4 src, pk_dst := IP4 dst,
      pk_l4 := drop 20 (drop lead (build_tcp lead src dst sport dport sq ak flags payload)),
      pk_sport := sport, pk_dport := dport, pk_seq := sq, pk_ack := ak, pk_flags := flags,
      pk_payload := payload\<rparr>)"
proof -
  obtain ck where b: "build_tcp lead src dst sport dport sq ak flags payload =
      build_ipv4 lead src dst protoTCP (tcp_segment sport dport sq ak flags ck payload)"
    by (simp add: build_tcp_def Let_def)
  let ?l4 = "tcp_segment sport dport sq ak flags ck payload"
  have d: "drop 20 (drop lead (build_ipv4 lead src dst protoTCP ?l4)) = ?l4"
    by (rule build_ipv4_parts(8) [OF refl])
  have f: "?l4 ! 12 = 0x50" "?l4 ! 13 = flags" "drop 20 ?l4 = payload"
    "slice 0 2 ?l4 = be_put 2 sport" "slice 2 4 ?l4 = be_put 2 dport"
    "slice 4 8 ?l4 = be_put 4 sq" "slice 8 12 ?l4 = be_put 4 ak"
    by (simp_all add: tcp_segment_def slice_def nth_append)
  have "20 + length ?l4 \<le> 65535" using assms by simp
  from parse_built [OF this] show ?thesis
    unfolding b d by (simp add: parse_l4_def proto_consts f)
qed

section \<open>Properties\<close>

text \<open>A packet the agent builds is read back by its own parser with every field it was built
  from, whatever gap the tun device asks for: addresses, ports, sequence numbers, flags and payload,
  for UDP and for TCP, up to the largest payload an IPv4 packet holds.\<close>

lemma built_packets_parse:
  assumes "length payload \<le> 65495"
  shows "\<exists>p q. parse_ipv4_packet (drop lead (build_udp lead src dst sport dport payload)) = Some p
      \<and> parse_ipv4_packet (drop lead (build_tcp lead src dst sport dport sq ak flags payload)) = Some q
      \<and> pk_proto p = protoUDP \<and> pk_proto q = protoTCP
      \<and> (\<forall>r. r = p \<or> r = q \<longrightarrow> pk_src r = IP4 src \<and> pk_dst r = IP4 dst \<and> pk_sport r = sport
            \<and> pk_dport r = dport \<and> pk_payload r = payload \<and> \<not> pk_frag r)
      \<and> pk_seq q = sq \<and> pk_ack q = ak \<and> pk_flags q = flags"
  using parse_built_udp [of payload lead src dst sport dport]
    parse_built_tcp [OF assms, of lead src dst sport dport sq ak flags] assms
  by (auto simp: empty_pkt_def)

lemma built_packets_parse_witness:
  "\<exists>p. parse_ipv4_packet (drop 4 (build_tcp 4 1 2 1000 80 7 8 2 [104, 105])) = Some p \<and> pk_payload p = [104, 105]"
  using built_packets_parse [of "[104, 105]" 4 1 2 1000 80 7 8 2] by auto

text \<open>The checksums the agent writes verify at the receiver: the Internet checksum of the header
  of every packet it builds is zero, and so is the checksum of a TCP segment over its pseudo header.\<close>

lemma built_checksums_verify:
  assumes "length payload \<le> 65495"
  shows "csum16 0 (take 20 (drop lead (build_ipv4 lead src dst proto l4))) = 0
    \<and> csum16 (pseudo_sum src dst protoTCP (20 + length payload))
        (drop 20 (drop lead (build_tcp lead src dst sport dport sq ak flags payload))) = 0"
  using header_verifies tcp_verifies [OF assms] by blast

lemma built_checksums_verify_witness:
  "csum16 (pseudo_sum 1 2 protoTCP 21) (drop 20 (drop 0 (build_tcp 0 1 2 1000 80 7 8 2 [104]))) = 0"
  using built_checksums_verify [of "[104]" 0 1 2 protoTCP "[]" 1000 80 7 8 2] by simp

end
