(* ===== verification/Go_Strings.thy ===== *)
theory Go_Strings
  imports Prelude
begin

text \<open>
  The functions of Go's packages \<open>strings\<close>, \<open>strconv\<close> and \<open>path\<close> the program uses, on ASCII text:
  a Go string is the list of its bytes, and the Unicode cases of \<open>TrimSpace\<close> and \<open>ToLower\<close> do not
  occur in the host names, addresses and paths they are applied to here.
\<close>

definition code_of :: "char \<Rightarrow> nat" where
  "code_of c = of_char c"

definition is_digit :: "char \<Rightarrow> bool" where
  "is_digit c \<longleftrightarrow> 48 \<le> code_of c \<and> code_of c \<le> 57"

definition digit_val :: "char \<Rightarrow> nat" where
  "digit_val c = code_of c - 48"

definition is_space :: "char \<Rightarrow> bool" where
  "is_space c \<longleftrightarrow> code_of c = 32 \<or> (9 \<le> code_of c \<and> code_of c \<le> 13)"

definition lower_char :: "char \<Rightarrow> char" where
  "lower_char c = (if 65 \<le> code_of c \<and> code_of c \<le> 90 then char_of (code_of c + 32) else c)"

text \<open>The character classes on the bits of a character, for evaluation.\<close>

lemma lower_char_code [code]:
  "lower_char (Char b0 b1 b2 b3 b4 b5 b6 b7) =
     (if \<not> b7 \<and> b6 \<and> \<not> b5 \<and> (b0 \<or> b1 \<or> b2 \<or> b3 \<or> b4) \<and> \<not> (b4 \<and> b3 \<and> (b2 \<or> b1 \<and> b0))
      then Char b0 b1 b2 b3 b4 True b6 b7 else Char b0 b1 b2 b3 b4 b5 b6 b7)"
  by (cases b0; cases b1; cases b2; cases b3; cases b4; cases b5; cases b6; cases b7; simp add: lower_char_def code_of_def char_of_def bit_iff_odd)

lemma is_space_code [code]:
  "is_space (Char b0 b1 b2 b3 b4 b5 b6 b7) \<longleftrightarrow>
     \<not> b7 \<and> \<not> b6 \<and> \<not> b4 \<and>
     (b5 \<and> \<not> b3 \<and> \<not> b2 \<and> \<not> b1 \<and> \<not> b0 \<or> \<not> b5 \<and> b3 \<and> ((b0 \<or> b1) \<and> \<not> b2 \<or> b2 \<and> \<not> b1))"
  by (cases b0; cases b1; cases b2; cases b3; cases b4; cases b5; cases b6; cases b7; simp add: is_space_def code_of_def)

definition to_lower :: "string \<Rightarrow> string" where
  "to_lower s = map lower_char s"

definition trim_left :: "(char \<Rightarrow> bool) \<Rightarrow> string \<Rightarrow> string" where
  "trim_left p s = dropWhile p s"

definition trim_right :: "(char \<Rightarrow> bool) \<Rightarrow> string \<Rightarrow> string" where
  "trim_right p s = rev (dropWhile p (rev s))"

definition trim_space :: "string \<Rightarrow> string" where
  "trim_space s = trim_right is_space (trim_left is_space s)"

fun has_prefix :: "string \<Rightarrow> string \<Rightarrow> bool" where
  "has_prefix s [] = True"
| "has_prefix [] (p # ps) = False"
| "has_prefix (c # s) (p # ps) = (c = p \<and> has_prefix s ps)"

definition has_suffix :: "string \<Rightarrow> string \<Rightarrow> bool" where
  "has_suffix s t = has_prefix (rev s) (rev t)"

definition trim_suffix :: "string \<Rightarrow> string \<Rightarrow> string" where
  "trim_suffix s t = (if has_suffix s t then take (length s - length t) s else s)"

definition trim_prefix :: "string \<Rightarrow> string \<Rightarrow> string" where
  "trim_prefix s t = (if has_prefix s t then drop (length t) s else s)"

text \<open>\<open>strings.Cut\<close> at a one-byte separator: what is before, what is after, whether it occurs.\<close>

fun cut_at :: "char \<Rightarrow> string \<Rightarrow> string \<times> string \<times> bool" where
  "cut_at c [] = ([], [], False)"
| "cut_at c (x # xs) =
     (if x = c then ([], xs, True) else case cut_at c xs of (a, b, ok) \<Rightarrow> (x # a, b, ok))"

text \<open>\<open>strings.Split\<close> at a one-byte separator.\<close>

fun split_at :: "char \<Rightarrow> string \<Rightarrow> string list" where
  "split_at c [] = [[]]"
| "split_at c (x # xs) =
     (if x = c then [] # split_at c xs
      else case split_at c xs of [] \<Rightarrow> [[x]] | y # ys \<Rightarrow> (x # y) # ys)"

fun contains_sub :: "string \<Rightarrow> string \<Rightarrow> bool" where
  "contains_sub [] t = (t = [])"
| "contains_sub (c # s) t = (has_prefix (c # s) t \<or> contains_sub s t)"

text \<open>\<open>strings.LastIndexByte\<close> as a split: the text before and after the last occurrence.\<close>

definition cut_last :: "char \<Rightarrow> string \<Rightarrow> (string \<times> string) option" where
  "cut_last c s =
     (case cut_at c (rev s) of (a, b, ok) \<Rightarrow> if ok then Some (rev b, rev a) else None)"

definition digits_val :: "string \<Rightarrow> nat" where
  "digits_val s = foldl (\<lambda>acc c. acc * 10 + digit_val c) 0 s"

text \<open>\<open>strconv.Atoi\<close>: an optional sign, then digits, within 64 bits.\<close>

definition atoi :: "string \<Rightarrow> int option" where
  "atoi s =
     (let neg = (case s of [] \<Rightarrow> False | c # _ \<Rightarrow> c = CHR ''-'');
          ds = (case s of [] \<Rightarrow> [] | c # cs \<Rightarrow> if c = CHR ''-'' \<or> c = CHR ''+'' then cs else s) in
      if ds = [] \<or> \<not> list_all is_digit ds then None
      else let v = int (digits_val ds) in
        if neg then (if v \<le> 2 ^ 63 then Some (- v) else None)
        else (if v < 2 ^ 63 then Some v else None))"

definition digit_char :: "nat \<Rightarrow> char" where
  "digit_char d = char_of (48 + d)"

fun itoa_nat :: "nat \<Rightarrow> string" where
  "itoa_nat n = (if n < 10 then [digit_char n] else itoa_nat (n div 10) @ [digit_char (n mod 10)])"

declare itoa_nat.simps [simp del]

definition itoa :: "int \<Rightarrow> string" where
  "itoa i = (if i < 0 then CHR ''-'' # itoa_nat (nat (- i)) else itoa_nat (nat i))"

section \<open>Facts\<close>

lemma has_prefix_iff: "has_prefix s t \<longleftrightarrow> (\<exists>r. s = t @ r)"
  by (induction s t rule: has_prefix.induct) auto

lemma has_prefix_append [simp]: "has_prefix (t @ r) t"
  by (simp add: has_prefix_iff)

lemma has_suffix_iff: "has_suffix s t \<longleftrightarrow> (\<exists>r. s = r @ t)"
proof -
  have "has_suffix s t \<longleftrightarrow> (\<exists>r. rev s = rev t @ r)" by (simp add: has_suffix_def has_prefix_iff)
  also have "\<dots> \<longleftrightarrow> (\<exists>r. s = rev r @ t)" by (metis rev_append rev_rev_ident)
  also have "\<dots> \<longleftrightarrow> (\<exists>r. s = r @ t)" by (metis rev_rev_ident)
  finally show ?thesis .
qed

lemma cut_at_found: "cut_at c s = (a, b, True) \<Longrightarrow> s = a @ c # b \<and> c \<notin> set a"
  by (induction s arbitrary: a) (auto split: if_splits prod.splits)

lemma cut_at_none: "cut_at c s = (a, b, False) \<Longrightarrow> a = s \<and> c \<notin> set s"
  by (induction s arbitrary: a) (auto split: if_splits prod.splits)

lemma split_at_not_Nil [simp]: "split_at c s \<noteq> []"
  by (induction s) (auto split: list.split)

lemma split_at_append: "split_at c (a @ c # b) = split_at c a @ split_at c b"
proof (induction a)
  case (Cons x a)
  obtain y ys where "split_at c a = y # ys" using split_at_not_Nil by (metis neq_Nil_conv)
  with Cons show ?case by simp
qed simp

lemma split_at_none: "c \<notin> set s \<Longrightarrow> split_at c s = [s]"
  by (induction s) auto

lemma split_at_parts: "s \<in> set (split_at c p) \<Longrightarrow> c \<notin> set s \<and> set s \<subseteq> set p"
proof (induction p arbitrary: s)
  case (Cons x p)
  obtain y ys where sp: "split_at c p = y # ys" using split_at_not_Nil by (metis neq_Nil_conv)
  show ?case
  proof (cases "x = c")
    case True
    with Cons show ?thesis by auto
  next
    case False
    with Cons.prems sp have "s = x # y \<or> s \<in> set ys" by simp
    with False Cons.IH sp show ?thesis by (metis insert_subset list.set_intros(1,2) list.simps(15) set_ConsD subset_insertI2)
  qed
qed simp

lemma lower_char_idem [simp]: "lower_char (lower_char c) = lower_char c"
proof (cases "65 \<le> code_of c \<and> code_of c \<le> 90")
  case True
  then have "code_of (char_of (code_of c + 32 :: nat)) = code_of c + 32"
    by (simp add: code_of_def)
  with True show ?thesis by (simp add: lower_char_def)
next
  case False
  then have "lower_char c = c" by (simp only: lower_char_def if_False)
  then show ?thesis by simp
qed

lemma to_lower_idem [simp]: "to_lower (to_lower s) = to_lower s"
  by (simp add: to_lower_def)

lemma to_lower_append [simp]: "to_lower (s @ t) = to_lower s @ to_lower t"
  by (simp add: to_lower_def)

end
