(* ===== verification/Netip_Text.thy ===== *)
theory Netip_Text
  imports Netip Go_Strings
begin

text \<open>
  The textual forms of \<open>net/netip\<close>: \<open>ParseAddr\<close> (strict dotted IPv4; IPv6 with \<open>::\<close>, an embedded
  IPv4 tail and a zone), \<open>ParsePrefix\<close>, and \<open>Addr.String\<close> for IPv4 and IPv6.
\<close>

section \<open>IPv4\<close>

text \<open>One pass over the characters, with the state of \<open>parseIPv4Fields\<close>: value and digit count of the
  current field, the finished fields (latest first).\<close>

fun ipv4_fields :: "nat \<Rightarrow> nat \<Rightarrow> nat list \<Rightarrow> string \<Rightarrow> nat list option" where
  "ipv4_fields val dl fs [] =
     (if length fs < 3 then None else Some (rev (val # fs)))"
| "ipv4_fields val dl fs (c # cs) =
     (if is_digit c then
        (if dl = 1 \<and> val = 0 then None
         else let v = val * 10 + digit_val c in
           if v > 255 then None else ipv4_fields v (Suc dl) fs cs)
      else if c = CHR ''.'' then
        (if dl = 0 \<or> cs = [] \<or> length fs = 3 then None else ipv4_fields 0 0 (val # fs) cs)
      else None)"

definition octets_word :: "nat list \<Rightarrow> u32" where
  "octets_word fs = foldl (\<lambda>acc d. push_bit 8 acc OR of_nat d) 0 fs"

definition parse_ipv4 :: "string \<Rightarrow> u32 option" where
  "parse_ipv4 s = map_option octets_word (ipv4_fields 0 0 [] s)"

section \<open>IPv6\<close>

definition hex_val :: "char \<Rightarrow> nat option" where
  "hex_val c =
     (if is_digit c then Some (digit_val c)
      else if 97 \<le> code_of c \<and> code_of c \<le> 102 then Some (code_of c - 87)
      else if 65 \<le> code_of c \<and> code_of c \<le> 70 then Some (code_of c - 55)
      else None)"

text \<open>The hex digits at the front of the text: their number, their value and the rest. More than four
  digits, or no digit, is an error.\<close>

fun hex_group :: "nat \<Rightarrow> nat \<Rightarrow> string \<Rightarrow> (nat \<times> nat \<times> string) option" where
  "hex_group off acc [] = (if off = 0 then None else Some (off, acc, []))"
| "hex_group off acc (c # cs) =
     (case hex_val c of
        None \<Rightarrow> if off = 0 then None else Some (off, acc, c # cs)
      | Some d \<Rightarrow> if off > 3 then None else hex_group (Suc off) (acc * 16 + d) cs)"

text \<open>The loop over the groups. \<open>gs\<close> are the 16-bit groups so far (latest first), \<open>ell\<close> the number of
  groups before \<open>::\<close>, \<open>n\<close> bounds the turns (eight groups at most).\<close>

fun ipv6_groups :: "nat \<Rightarrow> nat list \<Rightarrow> nat option \<Rightarrow> string \<Rightarrow> (nat list \<times> nat option \<times> string) option" where
  "ipv6_groups 0 gs ell s = Some (gs, ell, s)"
| "ipv6_groups (Suc n) gs ell s =
     (if length gs \<ge> 8 then Some (gs, ell, s)
      else case hex_group 0 0 s of
        None \<Rightarrow> None
      | Some (off, acc, rest) \<Rightarrow>
          (case rest of
             [] \<Rightarrow> Some (acc # gs, ell, [])
           | c # rest' \<Rightarrow>
               if c = CHR ''.'' then
                 (if ell = None \<and> length gs \<noteq> 6 then None
                  else if length gs + 2 > 8 then None
                  else case ipv4_fields 0 0 [] s of
                      Some [a, b, d, e] \<Rightarrow> Some ((d * 256 + e) # (a * 256 + b) # gs, ell, [])
                    | _ \<Rightarrow> None)
               else if c \<noteq> CHR '':'' then None
               else (case rest' of
                       [] \<Rightarrow> None
                     | c2 # rest'' \<Rightarrow>
                         if c2 = CHR '':'' then
                           (if ell \<noteq> None then None
                            else if rest'' = [] then Some (acc # gs, Some (Suc (length gs)), [])
                            else ipv6_groups n (acc # gs) (Some (Suc (length gs))) rest'')
                         else ipv6_groups n (acc # gs) ell rest')))"

definition groups_word :: "nat list \<Rightarrow> 128 word" where
  "groups_word gs = foldl (\<lambda>acc g. push_bit 16 acc OR of_nat g) 0 gs"

definition expand_groups :: "nat list \<Rightarrow> nat option \<Rightarrow> nat list option" where
  "expand_groups gs ell =
     (if length gs < 8 then
        (case ell of
           None \<Rightarrow> None
         | Some e \<Rightarrow> Some (take e gs @ replicate (8 - length gs) 0 @ drop e gs))
      else if ell \<noteq> None then None else Some gs)"

definition parse_ipv6 :: "string \<Rightarrow> addr option" where
  "parse_ipv6 s0 =
     (case cut_at (CHR ''%'') s0 of
        (s, zone, has_zone) \<Rightarrow>
          if has_zone \<and> zone = [] then None
          else
            let (ell, s1) = (if has_prefix s ''::'' then (Some 0, drop 2 s) else (None, s)) in
            if ell = Some 0 \<and> s1 = [] then Some (IP6 0 zone)
            else case ipv6_groups 8 [] ell s1 of
                None \<Rightarrow> None
              | Some (gs, ell', rest) \<Rightarrow>
                  if rest \<noteq> [] then None
                  else map_option (\<lambda>g. IP6 (groups_word g) zone) (expand_groups (rev gs) ell'))"

fun first_of :: "char list \<Rightarrow> string \<Rightarrow> char option" where
  "first_of cs [] = None"
| "first_of cs (x # xs) = (if x \<in> set cs then Some x else first_of cs xs)"

definition parse_addr :: "string \<Rightarrow> addr option" where
  "parse_addr s =
     (case first_of [CHR ''.'', CHR '':'', CHR ''%''] s of
        None \<Rightarrow> None
      | Some c \<Rightarrow>
          if c = CHR ''.'' then map_option IP4 (parse_ipv4 s)
          else if c = CHR '':'' then parse_ipv6 s
          else None)"

section \<open>Prefixes\<close>

definition parse_prefix :: "string \<Rightarrow> prefix option" where
  "parse_prefix s =
     (case cut_last (CHR ''/'') s of
        None \<Rightarrow> None
      | Some (a, bits) \<Rightarrow>
          (case parse_addr a of
             None \<Rightarrow> None
           | Some ip \<Rightarrow>
               if length bits > 1 \<and> \<not> (49 \<le> code_of (hd bits) \<and> code_of (hd bits) \<le> 57) then None
               else case atoi bits of
                   None \<Rightarrow> None
                 | Some n \<Rightarrow>
                     (case ip of
                        IP4 w \<Rightarrow> if n < 0 \<or> n > 32 then None else Some (Pfx4 w (nat n))
                      | IP6 w z \<Rightarrow> if z \<noteq> [] \<or> n < 0 \<or> n > 128 then None else Some (Pfx6 w (nat n))
                      | NoAddr \<Rightarrow> None)))"

section \<open>Printing\<close>

definition octet :: "nat \<Rightarrow> u32 \<Rightarrow> nat" where
  "octet i w = unat (drop_bit (24 - 8 * i) w AND 255)"

definition ipv4_string :: "u32 \<Rightarrow> string" where
  "ipv4_string w = itoa_nat (octet 0 w) @ ''.'' @ itoa_nat (octet 1 w) @ ''.''
     @ itoa_nat (octet 2 w) @ ''.'' @ itoa_nat (octet 3 w)"

definition hex_char :: "nat \<Rightarrow> char" where
  "hex_char d = (if d < 10 then char_of (48 + d) else char_of (87 + d))"

definition hex_string :: "nat \<Rightarrow> string" where
  "hex_string g =
     (let ds = [g div 4096 mod 16, g div 256 mod 16, g div 16 mod 16, g mod 16];
          ds' = dropWhile (\<lambda>d. d = 0) ds in
      if ds' = [] then [hex_char 0] else map hex_char ds')"

definition group :: "nat \<Rightarrow> 128 word \<Rightarrow> nat" where
  "group i w = unat (drop_bit (112 - 16 * i) w AND 0xffff)"

text \<open>The first longest run of at least two zero groups, as (start, end).\<close>

fun zero_run :: "nat list \<Rightarrow> nat" where
  "zero_run [] = 0"
| "zero_run (g # gs) = (if g = 0 then Suc (zero_run gs) else 0)"

fun best_run :: "nat \<Rightarrow> nat \<times> nat \<Rightarrow> nat list \<Rightarrow> nat \<times> nat" where
  "best_run i best [] = best"
| "best_run i best (g # gs) =
     (let l = zero_run (g # gs) in
      best_run (Suc i) (if l \<ge> 2 \<and> l > snd best - fst best then (i, i + l) else best) gs)"

fun join_colon :: "string list \<Rightarrow> string" where
  "join_colon [] = []"
| "join_colon [s] = s"
| "join_colon (s # ss) = s @ CHR '':'' # join_colon ss"

definition ipv6_string :: "128 word \<Rightarrow> string" where
  "ipv6_string w =
     (let gs = map (\<lambda>i. group i w) [0..<8]; (a, b) = best_run 0 (0, 0) gs in
      if b = 0 then join_colon (map hex_string gs)
      else join_colon (map hex_string (take a gs)) @ ''::'' @ join_colon (map hex_string (drop b gs)))"

fun addr_string :: "addr \<Rightarrow> string" where
  "addr_string NoAddr = ''invalid IP''"
| "addr_string (IP4 w) = ipv4_string w"
| "addr_string (IP6 w z) =
     (if drop_bit 32 w = 0xffff then ''::ffff:'' @ ipv4_string (ucast w) else ipv6_string w)
     @ (if z = [] then [] else CHR ''%'' # z)"

definition prefix_string :: "prefix \<Rightarrow> string" where
  "prefix_string p =
     (if \<not> prefix_ok p then ''invalid Prefix'' else addr_string (prefix_addr p) @ CHR ''/'' # itoa_nat (prefix_bits p))"

section \<open>Checks\<close>

lemma parse_addr_examples:
  "parse_addr ''10.0.0.1'' = Some (IP4 0x0a000001)" "parse_addr ''1.2.3.04'' = None" "parse_addr ''1.2.3.256'' = None"
  by (simp_all add: parse_addr_def parse_ipv4_def is_digit_def code_of_def digit_val_def octets_word_def)

lemma parse_addr_ipv6_example: "parse_addr ''::1'' = Some (IP6 1 [])"
  by (simp add: parse_addr_def parse_ipv6_def is_digit_def code_of_def digit_val_def hex_val_def
      groups_word_def expand_groups_def numeral_eq_Suc)

lemma octets_word_bound: "ipv4_fields v dl fs s = Some r \<Longrightarrow> v \<le> 255 \<Longrightarrow> length fs \<le> 3 \<Longrightarrow> list_all (\<lambda>x. x \<le> 255) fs \<Longrightarrow>
   length r = 4 \<and> list_all (\<lambda>x. x \<le> 255) r"
  by (induction v dl fs s rule: ipv4_fields.induct) (auto simp: Let_def split: if_splits)

lemma parse_prefix_ok: "parse_prefix s = Some p \<Longrightarrow> prefix_ok p"
  by (auto simp: parse_prefix_def split: option.splits prod.splits if_splits addr.splits)

section \<open>IPv4 text round trip\<close>

lemma digit_char_props: "d < 10 \<Longrightarrow> is_digit (digit_char d)" "d < 10 \<Longrightarrow> digit_val (digit_char d) = d"
  by (simp_all add: is_digit_def digit_val_def digit_char_def code_of_def)

lemma itoa_small:
  "v < 10 \<Longrightarrow> itoa_nat v = [digit_char v]"
  "10 \<le> v \<Longrightarrow> v < 100 \<Longrightarrow> itoa_nat v = [digit_char (v div 10), digit_char (v mod 10)]"
  "100 \<le> v \<Longrightarrow> v < 1000 \<Longrightarrow> itoa_nat v = [digit_char (v div 100), digit_char (v div 10 mod 10), digit_char (v mod 10)]"
proof -
  have t: "v div 10 div 10 = v div 100" by (simp add: div_mult2_eq [symmetric])
  show "v < 10 \<Longrightarrow> itoa_nat v = [digit_char v]" by (simp add: itoa_nat.simps [of v])
  show "itoa_nat v = [digit_char (v div 10), digit_char (v mod 10)]" if "10 \<le> v" "v < 100"
  proof -
    from that have "v div 10 < 10" by (simp add: less_mult_imp_div_less)
    with that show ?thesis by (simp add: itoa_nat.simps [of v] itoa_nat.simps [of "v div 10"])
  qed
  show "itoa_nat v = [digit_char (v div 100), digit_char (v div 10 mod 10), digit_char (v mod 10)]" if "100 \<le> v" "v < 1000"
  proof -
    from that have "v div 100 < 10" "\<not> v div 10 < 10" by (simp_all add: less_mult_imp_div_less)
    with that t show ?thesis
      by (simp add: itoa_nat.simps [of v] itoa_nat.simps [of "v div 10"] itoa_nat.simps [of "v div 100"])
  qed
qed

lemma ipv4_field_itoa:
  assumes "v \<le> 255"
  shows "ipv4_fields 0 0 fs (itoa_nat v @ cs) = ipv4_fields v (length (itoa_nat v)) fs cs"
proof -
  consider "v < 10" | "10 \<le> v" "v < 100" | "100 \<le> v" "v < 1000" using assms by linarith
  then show ?thesis
  proof cases
    case 2
    then have "v div 10 < 10" "0 < v div 10" by (simp_all add: less_mult_imp_div_less div_greater_zero_iff)
    with 2 show ?thesis by (simp add: itoa_small digit_char_props Let_def)
  next
    case 3
    then have b: "v div 100 < 10" "0 < v div 100" "v div 10 \<le> 255" by (simp_all add: less_mult_imp_div_less div_greater_zero_iff)
    have "v div 10 div 10 = v div 100" by (simp add: div_mult2_eq [symmetric])
    then have "v div 10 = v div 100 * 10 + v div 10 mod 10" by (metis div_mult_mod_eq)
    note b this
    with 3 assms show ?thesis by (simp add: itoa_small digit_char_props div_mult_mod_eq)
  qed (use assms in \<open>simp_all add: itoa_small digit_char_props\<close>)
qed

lemma ipv4_fields_dot: "0 < dl \<Longrightarrow> cs \<noteq> [] \<Longrightarrow> length fs < 3 \<Longrightarrow> ipv4_fields v dl fs (CHR ''.'' # cs) = ipv4_fields 0 0 (v # fs) cs"
  by (simp add: is_digit_def code_of_def)

lemma itoa_nat_not_Nil [simp]: "itoa_nat v \<noteq> []"
  by (simp add: itoa_nat.simps [of v])

lemma octet_le: "octet i w \<le> 255"
proof -
  have "drop_bit (24 - 8 * i) w AND 255 \<le> 255" by (rule word_and_le1)
  then have "unat (drop_bit (24 - 8 * i) w AND 255) \<le> unat (255 :: u32)" by (simp only: word_le_nat_alt)
  then show ?thesis by (simp add: octet_def)
qed

lemma octets_word_octets: "octets_word [octet 0 w, octet 1 w, octet 2 w, octet 3 w] = w"
proof -
  have m: "(255 :: u32) = mask 8" by (simp add: mask_eq_exp_minus_1)
  have bits: "octets_word [octet 0 w, octet 1 w, octet 2 w, octet 3 w] =
      push_bit 24 (drop_bit 24 w AND mask 8) OR push_bit 16 (drop_bit 16 w AND mask 8)
      OR push_bit 8 (drop_bit 8 w AND mask 8) OR (w AND mask 8)"
    by (simp add: octets_word_def octet_def m ac_simps del: push_bit_of_nat)
  show ?thesis
    unfolding bits
  proof (rule bit_word_eqI)
    fix n assume n: "n < LENGTH(32)"
    consider "n < 8" | "8 \<le> n" "n < 16" | "16 \<le> n" "n < 24" | "24 \<le> n" by linarith
    then show "bit (push_bit 24 (drop_bit 24 w AND mask 8) OR push_bit 16 (drop_bit 16 w AND mask 8)
      OR push_bit 8 (drop_bit 8 w AND mask 8) OR (w AND mask 8)) n = bit w n"
      using n by cases (simp_all add: bit_simps, linarith+)
  qed
qed

lemma parse_ipv4_string: "parse_ipv4 (ipv4_string w) = Some w"
proof -
  have "ipv4_fields 0 0 [] (ipv4_string w) = Some [octet 0 w, octet 1 w, octet 2 w, octet 3 w]"
    using ipv4_field_itoa [OF octet_le [of 3 w], of "[octet 2 w, octet 1 w, octet 0 w]" "[]"]
    by (simp add: ipv4_string_def ipv4_field_itoa octet_le ipv4_fields_dot del: ipv4_fields.simps(2))
  then show ?thesis by (simp add: parse_ipv4_def octets_word_octets del: One_nat_def)
qed

lemma first_of_append: "first_of cs (a @ b) = (case first_of cs a of None \<Rightarrow> first_of cs b | Some c \<Rightarrow> Some c)"
  by (induction a) simp_all

lemma first_of_none: "first_of cs a = None \<longleftrightarrow> set a \<inter> set cs = {}"
  by (induction a) auto

lemma itoa_nat_digits: "c \<in> set (itoa_nat v) \<Longrightarrow> is_digit c"
  by (induction v rule: itoa_nat.induct) (subst (asm) (2) itoa_nat.simps, auto split: if_splits simp: digit_char_props)

lemma parse_addr_string4 [simp]: "parse_addr (ipv4_string w) = Some (IP4 w)"
proof -
  have "set (itoa_nat v) \<inter> set [CHR ''.'', CHR '':'', CHR ''%''] = {}" for v
    by (auto dest!: itoa_nat_digits simp: is_digit_def code_of_def)
  then have "first_of [CHR ''.'', CHR '':'', CHR ''%''] (ipv4_string w) = Some (CHR ''.'')"
    by (simp add: ipv4_string_def first_of_append first_of_none [THEN iffD2])
  then show ?thesis by (simp add: parse_addr_def parse_ipv4_string)
qed

end
