(* ===== verification/Wg_Acl.thy ===== *)
theory Wg_Acl
  imports Wg_Packet Netip_Text
begin

text \<open>
  Access rules and connection tracking of the packet filter (\<open>client/wgnet/acl.go\<close>). \<open>compile_acl\<close>
  compiles the rules the server sends, \<open>rule_match\<close> tests a packet against one. The connection
  table keeps the code's two structures: the linked list of entries, newest first (\<open>ct_ll\<close>, whose
  elements have an identity), and the map from flow keys to list elements (\<open>ct_m\<close>); \<open>ct_flows\<close>
  is the flow list both stand for, and the operations refine an LRU cache on it.
\<close>

section \<open>Rules\<close>

record net_acl_rule =
  nr_id :: string
  nr_src :: "string list"
  nr_proto :: string
  nr_ports :: string

record acl_rule =
  ar_id :: string
  ar_src :: "prefix list"
  ar_proto :: byte
  ar_lo :: u16
  ar_hi :: u16
  ar_ports :: bool

definition parse_port_range :: "string \<Rightarrow> (u16 \<times> u16) option" where
  "parse_port_range s =
     (case cut_at (CHR ''-'') s of
        (a, b, is_range) \<Rightarrow>
          (case atoi (trim_space a) of
             None \<Rightarrow> None
           | Some l \<Rightarrow>
               if l < 1 \<or> l > 65535 then None
               else if \<not> is_range then Some (of_int l, of_int l)
               else (case atoi (trim_space b) of
                       None \<Rightarrow> None
                     | Some h \<Rightarrow> if h < l \<or> h > 65535 then None else Some (of_int l, of_int h))))"

fun rule_proto :: "string \<Rightarrow> byte option" where
  "rule_proto s =
     (let p = to_lower s in
      if p = ''tcp'' then Some protoTCP
      else if p = ''udp'' then Some protoUDP
      else if p = ''icmp'' then Some protoICMP
      else if p = ''any'' \<or> p = '''' then Some 0
      else None)"

text \<open>One source of a rule: an IPv4 prefix, or an IPv4 address as a prefix of 32 bits.\<close>

definition rule_source :: "string \<Rightarrow> prefix list" where
  "rule_source s =
     (case parse_prefix s of
        Some pf \<Rightarrow>
          if is4 (prefix_addr pf) then [masked pf]
          else (case parse_addr s of Some (IP4 w) \<Rightarrow> [Pfx4 w 32] | _ \<Rightarrow> [])
      | None \<Rightarrow> (case parse_addr s of Some (IP4 w) \<Rightarrow> [Pfx4 w 32] | _ \<Rightarrow> []))"

definition compile_rule :: "net_acl_rule \<Rightarrow> acl_rule option" where
  "compile_rule r =
     (case rule_proto (nr_proto r) of
        None \<Rightarrow> None
      | Some pr \<Rightarrow>
          let p = trim_space (nr_ports r); src = concat (map rule_source (nr_src r)) in
          if p = [] then
            (if src = [] then None
             else Some \<lparr>ar_id = nr_id r, ar_src = src, ar_proto = pr, ar_lo = 0, ar_hi = 0, ar_ports = False\<rparr>)
          else (case parse_port_range p of
                  None \<Rightarrow> None
                | Some (lo, hi) \<Rightarrow>
                    if pr = protoICMP then None
                    else if src = [] then None
                    else Some \<lparr>ar_id = nr_id r, ar_src = src, ar_proto = pr, ar_lo = lo, ar_hi = hi, ar_ports = True\<rparr>))"

definition compile_acl :: "net_acl_rule list \<Rightarrow> acl_rule list" where
  "compile_acl rs = List.map_filter compile_rule rs"

definition rule_match :: "acl_rule \<Rightarrow> pkt_info \<Rightarrow> bool" where
  "rule_match r p =
     (if \<not> list_ex (\<lambda>pf. prefix_contains pf (pk_src p)) (ar_src r) then False
      else if ar_proto r \<noteq> 0 \<and> ar_proto r \<noteq> pk_proto p then False
      else if pk_proto p = protoTCP \<or> pk_proto p = protoUDP then
        \<not> (ar_ports r \<and> (pk_dport p < ar_lo r \<or> pk_dport p > ar_hi r))
      else if pk_proto p = protoICMP then \<not> ar_ports r \<and> pk_itype p = icmpEchoRequest
      else False)"

section \<open>Connection tracking\<close>

definition ctTCPTimeout :: duration where "ctTCPTimeout = 300 * Second"
definition ctUDPTimeout :: duration where "ctUDPTimeout = 30 * Second"
definition ctICMPTimeout :: duration where "ctICMPTimeout = 10 * Second"
definition ctMaxEntries :: nat where "ctMaxEntries = 8192"

record ct_key =
  ck_proto :: byte
  ck_local :: addr
  ck_remote :: addr
  ck_lport :: u16
  ck_rport :: u16

record ct_entry =
  ce_key :: ct_key
  ce_expires :: time

text \<open>\<open>ct_next\<close> numbers the list elements the code allocates.\<close>

record conntrack =
  ct_max :: nat
  ct_next :: nat
  ct_ll :: "(nat \<times> ct_entry) list"
  ct_m :: "(ct_key, nat) gomap"

definition new_conntrack :: "int \<Rightarrow> conntrack" where
  "new_conntrack mx = \<lparr>ct_max = (if mx \<le> 0 then ctMaxEntries else nat mx), ct_next = 0, ct_ll = [], ct_m = []\<rparr>"

definition ct_timeout :: "byte \<Rightarrow> duration" where
  "ct_timeout proto =
     (if proto = protoTCP then ctTCPTimeout else if proto = protoUDP then ctUDPTimeout else ctICMPTimeout)"

definition remove_elem :: "nat \<Rightarrow> (nat \<times> ct_entry) list \<Rightarrow> (nat \<times> ct_entry) list" where
  "remove_elem el ll = filter (\<lambda>x. fst x \<noteq> el) ll"

text \<open>Sets the expiry of an element and moves it to the front.\<close>

definition refresh :: "nat \<Rightarrow> time \<Rightarrow> (nat \<times> ct_entry) list \<Rightarrow> (nat \<times> ct_entry) list" where
  "refresh el ex ll =
     (case map_of ll el of
        None \<Rightarrow> ll
      | Some v \<Rightarrow> (el, v\<lparr>ce_expires := ex\<rparr>) # remove_elem el ll)"

text \<open>The eviction loop: while the list is longer than the maximum, its back goes.\<close>

function evict :: "conntrack \<Rightarrow> conntrack" where
  "evict c =
     (if ct_max c < length (ct_ll c) then
        (let back = last (ct_ll c) in
         evict (c\<lparr>ct_m := gm_del (ce_key (snd back)) (ct_m c), ct_ll := butlast (ct_ll c)\<rparr>))
      else c)"
  by auto
termination by (relation "measure (\<lambda>c. length (ct_ll c))") auto

declare evict.simps [simp del]

definition track :: "time \<Rightarrow> ct_key \<Rightarrow> conntrack \<Rightarrow> conntrack" where
  "track now k c =
     (let ex = now + ct_timeout (ck_proto k) in
      case map_of (ct_m c) k of
        Some el \<Rightarrow> c\<lparr>ct_ll := refresh el ex (ct_ll c)\<rparr>
      | None \<Rightarrow>
          evict (c\<lparr>ct_next := Suc (ct_next c),
                   ct_ll := (ct_next c, \<lparr>ce_key = k, ce_expires = ex\<rparr>) # ct_ll c,
                   ct_m := gm_put k (ct_next c) (ct_m c)\<rparr>))"

definition seen :: "time \<Rightarrow> ct_key \<Rightarrow> conntrack \<Rightarrow> bool \<times> conntrack" where
  "seen now k c =
     (case map_of (ct_m c) k of
        None \<Rightarrow> (False, c)
      | Some el \<Rightarrow>
          (case map_of (ct_ll c) el of
             None \<Rightarrow> (False, c)
           | Some e \<Rightarrow>
               if now > ce_expires e then
                 (False, c\<lparr>ct_m := gm_del k (ct_m c), ct_ll := remove_elem el (ct_ll c)\<rparr>)
               else (True, c\<lparr>ct_ll := refresh el (now + ct_timeout (ck_proto k)) (ct_ll c)\<rparr>)))"

definition ct_size :: "conntrack \<Rightarrow> nat" where
  "ct_size c = length (ct_ll c)"

section \<open>The list and the map agree\<close>

text \<open>The map holds exactly the flows of the list, each flow once.\<close>

definition ct_agree :: "conntrack \<Rightarrow> bool" where
  "ct_agree c \<longleftrightarrow> distinct (map fst (ct_ll c)) \<and> (\<forall>x\<in>set (ct_ll c). fst x < ct_next c)
     \<and> (\<forall>k el. map_of (ct_m c) k = Some el \<longleftrightarrow> (\<exists>ex. (el, \<lparr>ce_key = k, ce_expires = ex\<rparr>) \<in> set (ct_ll c)))"

definition ct_ok :: "conntrack \<Rightarrow> bool" where
  "ct_ok c \<longleftrightarrow> ct_agree c \<and> length (ct_ll c) \<le> ct_max c"

text \<open>The abstraction: the flows and their expiry, newest first.\<close>

definition ct_flows :: "conntrack \<Rightarrow> (ct_key \<times> time) list" where
  "ct_flows c = map (\<lambda>x. (ce_key (snd x), ce_expires (snd x))) (ct_ll c)"

definition lru_put :: "nat \<Rightarrow> ct_key \<Rightarrow> time \<Rightarrow> (ct_key \<times> time) list \<Rightarrow> (ct_key \<times> time) list" where
  "lru_put mx k ex xs = take mx ((k, ex) # filter (\<lambda>x. fst x \<noteq> k) xs)"

lemma entry_eta: "\<lparr>ce_key = ce_key e, ce_expires = ce_expires e\<rparr> = e" for e :: ct_entry
  by simp

lemma ct_agree_elem:
  assumes "ct_agree c" and "(el, e) \<in> set (ct_ll c)"
  shows "map_of (ct_m c) (ce_key e) = Some el" and "map_of (ct_ll c) el = Some e"
  using assms by (auto simp: ct_agree_def) (metis entry_eta)

lemma ct_agree_key:
  assumes "ct_agree c" and "map_of (ct_m c) k = Some el"
  obtains ex where "(el, \<lparr>ce_key = k, ce_expires = ex\<rparr>) \<in> set (ct_ll c)"
    and "map_of (ct_ll c) el = Some \<lparr>ce_key = k, ce_expires = ex\<rparr>"
proof -
  from assms obtain ex where *: "(el, \<lparr>ce_key = k, ce_expires = ex\<rparr>) \<in> set (ct_ll c)"
    by (auto simp: ct_agree_def)
  from that [OF * ct_agree_elem(2) [OF assms(1) *]] show ?thesis .
qed

text \<open>Removing the element of a flow is removing the flow.\<close>

lemma same_elem_same_key:
  assumes "ct_agree c" and "map_of (ct_m c) k = Some el" and "x \<in> set (ct_ll c)"
  shows "fst x = el \<longleftrightarrow> ce_key (snd x) = k"
proof (cases x)
  case (Pair el' e)
  with assms show ?thesis
    using ct_agree_elem [OF assms(1), of el' e] ct_agree_key [OF assms(1,2)]
    by (metis (no_types, lifting) fst_conv option.inject ct_entry.select_convs(1) snd_conv)
qed

lemma flows_remove:
  assumes "ct_agree c" and "map_of (ct_m c) k = Some el"
  shows "map (\<lambda>x. (ce_key (snd x), ce_expires (snd x))) (remove_elem el (ct_ll c))
    = filter (\<lambda>x. fst x \<noteq> k) (ct_flows c)"
proof -
  have "filter (\<lambda>x. fst x \<noteq> el) (ct_ll c) = filter (\<lambda>x. ce_key (snd x) \<noteq> k) (ct_ll c)"
    using same_elem_same_key [OF assms] by (intro filter_cong) auto
  then show ?thesis by (simp add: remove_elem_def ct_flows_def filter_map comp_def)
qed

lemma flows_absent:
  assumes "ct_agree c" and "map_of (ct_m c) k = None"
  shows "filter (\<lambda>x. fst x \<noteq> k) (ct_flows c) = ct_flows c"
proof -
  have "ce_key (snd x) \<noteq> k" if "x \<in> set (ct_ll c)" for x
    using ct_agree_elem(1) [OF assms(1), of "fst x" "snd x"] that assms(2) by auto
  then show ?thesis by (auto simp: ct_flows_def filter_id_conv)
qed

section \<open>Every operation keeps the agreement\<close>

lemma agree_replace_entry:
  assumes "ct_agree c" and "map_of (ct_m c) k = Some el" and "map_of (ct_ll c) el = Some e"
  shows "ct_agree (c\<lparr>ct_ll := refresh el ex (ct_ll c)\<rparr>)"
proof -
  have e: "(el, e) \<in> set (ct_ll c)" using assms(3) by (rule map_of_SomeD)
  have d: "distinct (map fst (ct_ll c))" using assms(1) by (simp add: ct_agree_def)
  have k: "ce_key e = k" using same_elem_same_key [OF assms(1,2) e] by simp
  have mem: "(a, x) \<in> set (refresh el ex (ct_ll c)) \<longleftrightarrow>
      (a = el \<and> x = e\<lparr>ce_expires := ex\<rparr>) \<or> (a \<noteq> el \<and> (a, x) \<in> set (ct_ll c))" for a x
    by (auto simp: refresh_def assms(3) remove_elem_def)
  have "distinct (map fst (refresh el ex (ct_ll c)))"
    using d by (auto simp: refresh_def assms(3) remove_elem_def distinct_map_filter)
  moreover have "\<forall>x\<in>set (refresh el ex (ct_ll c)). fst x < ct_next c"
    using assms(1) e by (fastforce simp: ct_agree_def mem)
  moreover have "(\<exists>y. (b, \<lparr>ce_key = q, ce_expires = y\<rparr>) \<in> set (refresh el ex (ct_ll c))) \<longleftrightarrow>
      (\<exists>y. (b, \<lparr>ce_key = q, ce_expires = y\<rparr>) \<in> set (ct_ll c))" for b q
  proof (cases "b = el")
    case True
    have "(\<exists>y. (el, \<lparr>ce_key = q, ce_expires = y\<rparr>) \<in> set (ct_ll c)) \<longleftrightarrow> q = k"
    proof
      assume "\<exists>y. (el, \<lparr>ce_key = q, ce_expires = y\<rparr>) \<in> set (ct_ll c)"
      then show "q = k" using ct_agree_elem(2) [OF assms(1)] assms(3) k by fastforce
    next
      assume "q = k"
      then show "\<exists>y. (el, \<lparr>ce_key = q, ce_expires = y\<rparr>) \<in> set (ct_ll c)"
        using e k entry_eta [of e] by metis
    qed
    moreover have "(\<exists>y. (el, \<lparr>ce_key = q, ce_expires = y\<rparr>) \<in> set (refresh el ex (ct_ll c))) \<longleftrightarrow> q = k"
      unfolding mem using k by (metis ct_entry.ext_inject ct_entry.surjective ct_entry.update_convs(2) old.unit.exhaust)
    ultimately show ?thesis using True by simp
  qed (simp add: mem)
  ultimately show ?thesis using assms(1) by (simp add: ct_agree_def)
qed

lemma agree_remove:
  assumes "ct_agree c" and "map_of (ct_m c) k = Some el"
  shows "ct_agree (c\<lparr>ct_m := gm_del k (ct_m c), ct_ll := remove_elem el (ct_ll c)\<rparr>)"
proof -
  have mem: "(b, \<lparr>ce_key = q, ce_expires = y\<rparr>) \<in> set (remove_elem el (ct_ll c)) \<longleftrightarrow>
      q \<noteq> k \<and> (b, \<lparr>ce_key = q, ce_expires = y\<rparr>) \<in> set (ct_ll c)" for b q y
    using same_elem_same_key [OF assms] by (fastforce simp: remove_elem_def)
  have "distinct (map fst (remove_elem el (ct_ll c)))"
    using assms(1) by (simp add: ct_agree_def remove_elem_def distinct_map_filter)
  moreover have "\<forall>x\<in>set (remove_elem el (ct_ll c)). fst x < ct_next c"
    using assms(1) by (auto simp: ct_agree_def remove_elem_def)
  ultimately show ?thesis using assms(1) by (simp add: ct_agree_def mem)
qed

lemma remove_last:
  assumes "distinct (map fst ll)" and "ll \<noteq> []"
  shows "remove_elem (fst (last ll)) ll = butlast ll"
proof -
  obtain xs x where ll: "ll = xs @ [x]" using assms(2) by (metis append_butlast_last_id)
  then have "\<forall>y\<in>set xs. fst y \<noteq> fst x" using assms(1) by (auto simp: image_iff)
  then show ?thesis by (simp add: ll remove_elem_def filter_id_conv)
qed

lemma evict_spec:
  "ct_agree c \<Longrightarrow> ct_agree (evict c) \<and> ct_flows (evict c) = take (ct_max c) (ct_flows c) \<and> ct_max (evict c) = ct_max c"
proof (induction c rule: evict.induct)
  case (1 c)
  show ?case
  proof (cases "ct_max c < length (ct_ll c)")
    case True
    let ?b = "last (ct_ll c)"
    let ?c = "c\<lparr>ct_m := gm_del (ce_key (snd ?b)) (ct_m c), ct_ll := butlast (ct_ll c)\<rparr>"
    have ne: "ct_ll c \<noteq> []" using True by auto
    have d: "distinct (map fst (ct_ll c))" using 1(2) by (simp add: ct_agree_def)
    have m: "map_of (ct_m c) (ce_key (snd ?b)) = Some (fst ?b)"
      using ct_agree_elem(1) [OF 1(2), of "fst ?b" "snd ?b"] last_in_set [OF ne] by simp
    have "ct_agree ?c" using agree_remove [OF 1(2) m] by (simp add: remove_last [OF d ne])
    with 1(1) [OF True refl] have IH: "ct_agree (evict ?c)"
      "ct_flows (evict ?c) = take (ct_max c) (ct_flows ?c)" "ct_max (evict ?c) = ct_max c"
      by simp_all
    have "evict c = evict ?c" using True by (subst evict.simps) (simp add: Let_def)
    moreover have "take (ct_max c) (ct_flows ?c) = take (ct_max c) (ct_flows c)"
      using True by (simp add: ct_flows_def map_butlast take_butlast)
    ultimately show ?thesis using IH by simp
  next
    case False
    then have "evict c = c" by (subst evict.simps) simp
    with 1(2) False show ?thesis by (simp add: ct_flows_def)
  qed
qed

lemma agree_push:
  assumes "ct_agree c" and "map_of (ct_m c) k = None"
  shows "ct_agree (c\<lparr>ct_next := Suc (ct_next c),
     ct_ll := (ct_next c, \<lparr>ce_key = k, ce_expires = ex\<rparr>) # ct_ll c, ct_m := gm_put k (ct_next c) (ct_m c)\<rparr>)"
  (is "ct_agree ?c")
proof -
  have lt: "\<forall>x\<in>set (ct_ll c). fst x < ct_next c" using assms(1) by (simp add: ct_agree_def)
  have "distinct (map fst (ct_ll ?c))" using assms(1) lt by (fastforce simp: ct_agree_def)
  moreover have "\<forall>x\<in>set (ct_ll ?c). fst x < ct_next ?c" using lt by auto
  moreover have "map_of (ct_m ?c) q = Some b \<longleftrightarrow> (\<exists>y. (b, \<lparr>ce_key = q, ce_expires = y\<rparr>) \<in> set (ct_ll ?c))" for q b
  proof (cases "q = k")
    case True
    have "(b, \<lparr>ce_key = k, ce_expires = y\<rparr>) \<notin> set (ct_ll c)" for y
      using ct_agree_elem(1) [OF assms(1), of b "\<lparr>ce_key = k, ce_expires = y\<rparr>"] assms(2) by auto
    with True show ?thesis by auto
  next
    case False
    then show ?thesis using assms(1) by (simp add: ct_agree_def)
  qed
  ultimately show ?thesis by (simp add: ct_agree_def)
qed

lemma flows_refresh:
  assumes "ct_agree c" and "map_of (ct_m c) k = Some el"
  shows "ct_flows (c\<lparr>ct_ll := refresh el ex (ct_ll c)\<rparr>) = (k, ex) # filter (\<lambda>x. fst x \<noteq> k) (ct_flows c)"
proof -
  obtain y where "map_of (ct_ll c) el = Some \<lparr>ce_key = k, ce_expires = y\<rparr>"
    using ct_agree_key [OF assms] by metis
  then show ?thesis
    using flows_remove [OF assms] by (simp add: refresh_def ct_flows_def)
qed

lemma flows_key:
  assumes "ct_agree c"
  shows "map_of (ct_m c) k = None \<longleftrightarrow> k \<notin> fst ` set (ct_flows c)"
proof
  assume n: "map_of (ct_m c) k = None"
  show "k \<notin> fst ` set (ct_flows c)"
  proof
    assume "k \<in> fst ` set (ct_flows c)"
    then obtain x where "x \<in> set (ct_ll c)" "ce_key (snd x) = k" by (auto simp: ct_flows_def)
    with ct_agree_elem(1) [OF assms, of "fst x" "snd x"] n show False by simp
  qed
next
  assume n: "k \<notin> fst ` set (ct_flows c)"
  show "map_of (ct_m c) k = None"
  proof (rule ccontr)
    assume "map_of (ct_m c) k \<noteq> None"
    then obtain el where "map_of (ct_m c) k = Some el" by blast
    from ct_agree_key [OF assms this] obtain ex where
      m: "(el, \<lparr>ce_key = k, ce_expires = ex\<rparr>) \<in> set (ct_ll c)" by blast
    have "(k, ex) \<in> set (ct_flows c)"
      unfolding ct_flows_def set_map by (rule image_eqI [OF _ m]) simp
    with n show False by force
  qed
qed

lemma length_filter_key:
  assumes "x \<in> set xs" and "fst x = k"
  shows "Suc (length (filter (\<lambda>x. fst x \<noteq> k) xs)) \<le> length xs"
proof -
  obtain as bs where "xs = as @ x # bs" using assms(1) by (meson split_list)
  with assms(2) show ?thesis by (simp add: add_mono length_filter_le)
qed

lemma track_refines:
  assumes "ct_ok c"
  shows "ct_ok (track now k c)"
    and "ct_flows (track now k c) = lru_put (ct_max c) k (now + ct_timeout (ck_proto k)) (ct_flows c)"
    and "ct_max (track now k c) = ct_max c"
proof -
  have ag: "ct_agree c" and len: "length (ct_ll c) \<le> ct_max c" using assms by (simp_all add: ct_ok_def)
  let ?ex = "now + ct_timeout (ck_proto k)"
  have "ct_agree (track now k c) \<and> ct_flows (track now k c) = lru_put (ct_max c) k ?ex (ct_flows c)
    \<and> ct_max (track now k c) = ct_max c"
  proof (cases "map_of (ct_m c) k")
    case (Some el)
    obtain y where y: "map_of (ct_ll c) el = Some \<lparr>ce_key = k, ce_expires = y\<rparr>"
      using ct_agree_key [OF ag Some] by metis
    obtain x where "x \<in> set (ct_flows c)" "fst x = k" using flows_key [OF ag, of k] Some by auto
    then have "Suc (length (filter (\<lambda>x. fst x \<noteq> k) (ct_flows c))) \<le> length (ct_flows c)"
      by (rule length_filter_key)
    then have "Suc (length (filter (\<lambda>x. fst x \<noteq> k) (ct_flows c))) \<le> ct_max c"
      using len by (simp add: ct_flows_def)
    with agree_replace_entry [OF ag Some y] flows_refresh [OF ag Some] show ?thesis
      by (simp add: track_def Some Let_def lru_put_def)
  next
    case None
    from evict_spec [OF agree_push [OF ag None, of ?ex]] flows_absent [OF ag None] show ?thesis
      by (simp add: track_def None Let_def lru_put_def ct_flows_def)
  qed
  moreover from this have "length (ct_flows (track now k c)) \<le> ct_max c" by (simp add: lru_put_def)
  then have "length (ct_ll (track now k c)) \<le> ct_max c" by (simp add: ct_flows_def)
  ultimately show "ct_ok (track now k c)"
    and "ct_flows (track now k c) = lru_put (ct_max c) k ?ex (ct_flows c)"
    and "ct_max (track now k c) = ct_max c"
    by (simp_all add: ct_ok_def)
qed

text \<open>What \<open>seen\<close> does to the flows.\<close>

definition lru_seen :: "time \<Rightarrow> ct_key \<Rightarrow> (ct_key \<times> time) list \<Rightarrow> bool \<times> (ct_key \<times> time) list" where
  "lru_seen now k xs =
     (case map_of xs k of
        None \<Rightarrow> (False, xs)
      | Some ex \<Rightarrow>
          if now > ex then (False, filter (\<lambda>x. fst x \<noteq> k) xs)
          else (True, (k, now + ct_timeout (ck_proto k)) # filter (\<lambda>x. fst x \<noteq> k) xs))"

lemma flows_distinct:
  assumes "ct_agree c"
  shows "distinct (map fst (ct_flows c))"
proof -
  have "inj_on (\<lambda>x. ce_key (snd x)) (set (ct_ll c))"
  proof (rule inj_onI)
    fix x y
    assume x: "x \<in> set (ct_ll c)" and y: "y \<in> set (ct_ll c)" and e: "ce_key (snd x) = ce_key (snd y)"
    have "map_of (ct_m c) (ce_key (snd x)) = Some (fst x)"
      using ct_agree_elem(1) [OF assms, of "fst x" "snd x"] x by simp
    moreover have "map_of (ct_m c) (ce_key (snd y)) = Some (fst y)"
      using ct_agree_elem(1) [OF assms, of "fst y" "snd y"] y by simp
    ultimately have "fst x = fst y" using e by simp
    moreover have "distinct (map fst (ct_ll c))" using assms by (simp add: ct_agree_def)
    ultimately show "x = y" using x y by (metis eq_key_imp_eq_value prod.collapse)
  qed
  moreover have "distinct (ct_ll c)" using assms by (simp add: ct_agree_def distinct_map)
  ultimately have "distinct (map (\<lambda>x. ce_key (snd x)) (ct_ll c))" by (simp add: distinct_map)
  then show ?thesis by (simp add: ct_flows_def comp_def)
qed

lemma seen_refines:
  assumes "ct_ok c"
  shows "ct_ok (snd (seen now k c))" (is ?A)
    and "(fst (seen now k c), ct_flows (snd (seen now k c))) = lru_seen now k (ct_flows c)" (is ?B)
    and "ct_max (snd (seen now k c)) = ct_max c" (is ?C)
proof -
  have ag: "ct_agree c" and len: "length (ct_ll c) \<le> ct_max c" using assms by (simp_all add: ct_ok_def)
  have "?A \<and> ?B \<and> ?C"
  proof (cases "map_of (ct_m c) k")
    case None
    then have "map_of (ct_flows c) k = None" using flows_key [OF ag] by (simp add: map_of_eq_None_iff)
    with None assms show ?thesis by (simp add: seen_def lru_seen_def)
  next
    case (Some el)
    obtain y where y: "(el, \<lparr>ce_key = k, ce_expires = y\<rparr>) \<in> set (ct_ll c)"
        "map_of (ct_ll c) el = Some \<lparr>ce_key = k, ce_expires = y\<rparr>"
      using ct_agree_key [OF ag Some] by metis
    have "(k, y) \<in> set (ct_flows c)"
      unfolding ct_flows_def set_map by (rule image_eqI [OF _ y(1)]) simp
    then have mk: "map_of (ct_flows c) k = Some y" using flows_distinct [OF ag] by simp
    have rl: "length (remove_elem el (ct_ll c)) \<le> length (ct_ll c)" by (simp add: remove_elem_def)
    have "Suc (length (remove_elem el (ct_ll c))) \<le> length (ct_ll c)"
      using length_filter_key [OF y(1), of el] by (simp add: remove_elem_def)
    then have fl: "length (refresh el ex (ct_ll c)) \<le> ct_max c" for ex
      using len by (simp add: refresh_def y(2))
    show ?thesis
    proof (cases "now > y")
      case True
      with agree_remove [OF ag Some] flows_remove [OF ag Some] rl len show ?thesis
        by (simp add: seen_def Some y(2) lru_seen_def mk ct_ok_def) (simp add: ct_flows_def)
    next
      case False
      with agree_replace_entry [OF ag Some y(2)] flows_refresh [OF ag Some] fl show ?thesis
        by (simp add: seen_def Some y(2) lru_seen_def mk ct_ok_def)
    qed
  qed
  then show ?A ?B ?C by blast+
qed

lemma new_conntrack_ok [simp]: "ct_ok (new_conntrack mx)" and new_conntrack_flows [simp]: "ct_flows (new_conntrack mx) = []"
  by (simp_all add: ct_ok_def ct_agree_def ct_flows_def new_conntrack_def)

section \<open>Property\<close>

text \<open>A sequence of table operations: \<open>Inl\<close> is \<open>track\<close>, \<open>Inr\<close> is \<open>seen\<close>, whose answers are collected;
  once on the code's list and map, once on the flow list of an LRU cache.\<close>

fun ct_run :: "(time \<times> ct_key + time \<times> ct_key) list \<Rightarrow> conntrack \<Rightarrow> bool list \<times> conntrack" where
  "ct_run [] c = ([], c)"
| "ct_run (Inl (now, k) # es) c = ct_run es (track now k c)"
| "ct_run (Inr (now, k) # es) c =
     (case seen now k c of (b, c1) \<Rightarrow> case ct_run es c1 of (bs, c2) \<Rightarrow> (b # bs, c2))"

fun lru_run :: "nat \<Rightarrow> (time \<times> ct_key + time \<times> ct_key) list \<Rightarrow> (ct_key \<times> time) list \<Rightarrow> bool list \<times> (ct_key \<times> time) list" where
  "lru_run mx [] xs = ([], xs)"
| "lru_run mx (Inl (now, k) # es) xs = lru_run mx es (lru_put mx k (now + ct_timeout (ck_proto k)) xs)"
| "lru_run mx (Inr (now, k) # es) xs =
     (case lru_seen now k xs of (b, x1) \<Rightarrow> case lru_run mx es x1 of (bs, x2) \<Rightarrow> (b # bs, x2))"

lemma ct_run_refines:
  "ct_ok c \<Longrightarrow> ct_ok (snd (ct_run es c)) \<and> ct_max (snd (ct_run es c)) = ct_max c
     \<and> (fst (ct_run es c), ct_flows (snd (ct_run es c))) = lru_run (ct_max c) es (ct_flows c)"
proof (induction es c rule: ct_run.induct)
  case (1 c)
  then show ?case by simp
next
  case (2 now k es c)
  from 2(1) [OF track_refines(1) [OF 2(2)]] track_refines(2,3) [OF 2(2)] show ?case by simp
next
  case (3 now k es c)
  obtain b c1 where s: "seen now k c = (b, c1)" by force
  from seen_refines [OF 3(2), of now k] s
  have c1: "ct_ok c1" "lru_seen now k (ct_flows c) = (b, ct_flows c1)" "ct_max c1 = ct_max c" by simp_all
  from 3(1) [OF s [symmetric] c1(1)] c1(2,3) show ?case
    by (auto simp: s split: prod.split)
qed

text \<open>C30: The connection table is a least-recently-used cache: whatever sequence of new flows and
  lookups it sees, the linked list and the map of the code give the answers of an LRU list with
  per-protocol expiry, hold the same flows in the same order, agree with each other, and never exceed
  the maximum (8192 by default).\<close>

theorem conntrack_is_lru:
  "let c = snd (ct_run es (new_conntrack 0)) in
   (fst (ct_run es (new_conntrack 0)), ct_flows c) = lru_run 8192 es []
   \<and> ct_size c \<le> 8192 \<and> ct_agree c"
  using ct_run_refines [OF new_conntrack_ok, of es 0]
  by (simp add: Let_def ct_ok_def ct_size_def) (simp add: new_conntrack_def ctMaxEntries_def)

end
