(* ===== verification/Net_State.thy ===== *)
theory Net_State
  imports Wg_Acl
begin

text \<open>
  The network map of \<open>shared/protocol/wgnet.go\<close>: the messages the server sends a node
  (\<open>net_map\<close>) and the state the client applies them to (\<open>net_apply\<close>, the method \<open>Apply\<close>).
\<close>

record net_peer =
  np_node_id :: string
  np_wg_pub :: string
  np_ip :: string
  np_name :: string
  np_kind :: string
  np_online :: bool
  np_disco_pub :: string
  np_tun :: bool

record net_share_in =
  si_id :: string
  si_name :: string
  si_owner_name :: string
  si_owner_ip :: string
  si_port :: int
  si_proto :: string
  si_expires_unix :: int

record net_share_out =
  so_id :: string
  so_name :: string
  so_port :: int
  so_proto :: string
  so_allow :: "string list"
  so_expires_unix :: int

record net_dns_record =
  dr_name :: string
  dr_ip :: string

record net_dns =
  nd_resolver :: string
  nd_zone :: string
  nd_suffix :: string
  nd_records :: "net_dns_record list"

record net_map =
  nm_epoch :: int
  nm_full :: bool
  nm_self :: net_peer
  nm_mtu :: int
  nm_peers :: "net_peer list"
  nm_removed_peers :: "string list"
  nm_shares_in :: "net_share_in list"
  nm_removed_in :: "string list"
  nm_shares_out :: "net_share_out list"
  nm_removed_out :: "string list"
  nm_acl_set :: bool
  nm_acl :: "net_acl_rule list"
  nm_dns :: "net_dns option"

record net_state =
  ns_self :: net_peer
  ns_mtu :: int
  ns_epoch :: int
  ns_peers :: "(string, net_peer) gomap"
  ns_shares_in :: "(string, net_share_in) gomap"
  ns_shares_out :: "(string, net_share_out) gomap"
  ns_acl :: "net_acl_rule list"
  ns_dns :: "net_dns option"

definition zero_peer :: net_peer where
  "zero_peer = \<lparr>np_node_id = [], np_wg_pub = [], np_ip = [], np_name = [], np_kind = [], np_online = False,
     np_disco_pub = [], np_tun = False\<rparr>"

definition new_net_state :: net_state where
  "new_net_state = \<lparr>ns_self = zero_peer, ns_mtu = 0, ns_epoch = 0, ns_peers = [], ns_shares_in = [],
     ns_shares_out = [], ns_acl = [], ns_dns = None\<rparr>"

text \<open>The table part of a message: deletions first, then upserts, on an emptied table when the
  message is a full map.\<close>

definition apply_table ::
  "bool \<Rightarrow> string list \<Rightarrow> ('v \<Rightarrow> string) \<Rightarrow> 'v list \<Rightarrow> (string, 'v) gomap \<Rightarrow> (string, 'v) gomap" where
  "apply_table full removed key upserts m =
     fold (\<lambda>x. gm_put (key x) x) upserts (fold gm_del removed (if full then [] else m))"

definition net_apply :: "net_map \<Rightarrow> net_state \<Rightarrow> net_state" where
  "net_apply m s =
     s\<lparr>ns_epoch := nm_epoch m,
       ns_self := nm_self m,
       ns_mtu := (if nm_mtu m > 0 then nm_mtu m else ns_mtu s),
       ns_acl := (if nm_acl_set m then nm_acl m else if nm_full m then [] else ns_acl s),
       ns_dns := (case nm_dns m of Some d \<Rightarrow> Some d | None \<Rightarrow> if nm_full m then None else ns_dns s),
       ns_peers := apply_table (nm_full m) (nm_removed_peers m) np_wg_pub (nm_peers m) (ns_peers s),
       ns_shares_in := apply_table (nm_full m) (nm_removed_in m) si_id (nm_shares_in m) (ns_shares_in s),
       ns_shares_out := apply_table (nm_full m) (nm_removed_out m) so_id (nm_shares_out m) (ns_shares_out s)\<rparr>"

section \<open>Lookups after a message\<close>

lemma map_of_fold_put:
  "map_of (fold (\<lambda>x. gm_put (key x) x) xs m) = map_of m ++ map_of (rev (map (\<lambda>x. (key x, x)) xs))"
proof (induction xs arbitrary: m)
  case (Cons x xs)
  show ?case by (rule ext) (simp add: Cons.IH map_add_def split: option.split)
qed simp

lemma gm_ok_fold_put: "gm_ok m \<Longrightarrow> gm_ok (fold (\<lambda>x. gm_put (key x) x) xs m)"
  by (induction xs arbitrary: m) (simp_all add: distinct_update)

lemma apply_table_lookup:
  assumes "distinct (map key ups)"
  shows "map_of (apply_table full removed key ups m) k =
    (case find (\<lambda>x. key x = k) ups of
       Some x \<Rightarrow> Some x
     | None \<Rightarrow> if k \<in> set removed \<or> full then None else map_of m k)"
proof -
  let ?l = "map (\<lambda>x. (key x, x)) ups"
  have "distinct (map fst ?l)" using assms by (simp add: comp_def)
  then have "map_of (rev ?l) = map_of ?l" by (subst map_of_inject_set) (simp_all add: rev_map [symmetric] comp_def)
  moreover have "map_of ?l k = find (\<lambda>x. key x = k) ups" by (induction ups) auto
  ultimately show ?thesis
    by (auto simp: apply_table_def map_of_fold_put map_add_def gm.get_fold_del split: option.split)
qed

lemma apply_table_ok: "gm_ok m \<Longrightarrow> gm_ok (apply_table full removed key ups m)"
  by (simp add: apply_table_def gm_ok_fold_put gm.wf_fold_del)

section \<open>Deltas\<close>

text \<open>
  One table of a delta, as \<open>recomputeLocked\<close> (\<open>server/netctl/manager.go\<close>) builds it from the desired
  table and the signatures of what was sent last: the entries that are new or changed (all of them
  before the first full map), and the keys that are gone. A signature is the JSON text of an entry,
  which is never empty, so a key that was never sent differs from every signature.
\<close>

definition delta_upserts ::
  "('v \<Rightarrow> 's) \<Rightarrow> bool \<Rightarrow> (string, 's) gomap \<Rightarrow> (string, 'v) gomap \<Rightarrow> 'v list" where
  "delta_upserts sg sent_full sent d =
     map snd (filter (\<lambda>(k, v). map_of sent k \<noteq> Some (sg v) \<or> \<not> sent_full) d)"

definition delta_removed :: "(string, 's) gomap \<Rightarrow> (string, 'v) gomap \<Rightarrow> string list" where
  "delta_removed sent d = filter (\<lambda>k. map_of d k = None) (map fst sent)"

definition signatures :: "('v \<Rightarrow> 's) \<Rightarrow> (string, 'v) gomap \<Rightarrow> (string, 's) gomap" where
  "signatures sg d = map (\<lambda>(k, v). (k, sg v)) d"

text \<open>A table whose entries carry their own key.\<close>

definition keyed :: "('v \<Rightarrow> string) \<Rightarrow> (string, 'v) gomap \<Rightarrow> bool" where
  "keyed key d \<longleftrightarrow> gm_ok d \<and> (\<forall>(k, v)\<in>set d. key v = k)"

text \<open>What the client holds is what the signatures say was sent.\<close>

definition in_sync :: "('v \<Rightarrow> 's) \<Rightarrow> (string, 's) gomap \<Rightarrow> (string, 'v) gomap \<Rightarrow> bool" where
  "in_sync sg sent m \<longleftrightarrow> (\<forall>k. map_of sent k = map_option sg (map_of m k))"

lemma map_of_signatures: "map_of (signatures sg d) k = map_option sg (map_of d k)"
  by (induction d) (auto simp: signatures_def)

lemma keyed_key: "keyed key d \<Longrightarrow> map_of d k = Some v \<Longrightarrow> key v = k"
  by (auto simp: keyed_def dest!: map_of_SomeD)

lemma delta_upserts_distinct: "keyed key d \<Longrightarrow> distinct (map key (delta_upserts sg sf sent d))"
proof -
  assume k: "keyed key d"
  then have "map key (delta_upserts sg sf sent d) =
      map fst (filter (\<lambda>(k, v). map_of sent k \<noteq> Some (sg v) \<or> \<not> sf) d)"
    by (auto simp: delta_upserts_def keyed_def)
  with k show ?thesis by (simp add: keyed_def distinct_map_filter)
qed

lemma find_delta:
  assumes "keyed key d"
  shows "find (\<lambda>x. key x = k) (delta_upserts sg sf sent d) =
    (case map_of d k of
       Some v \<Rightarrow> if map_of sent k \<noteq> Some (sg v) \<or> \<not> sf then Some v else None
     | None \<Rightarrow> None)"
  using assms
proof (induction d)
  case (Cons x d)
  obtain a v where x: "x = (a, v)" by force
  have k: "keyed key d" "key v = a" "a = k \<Longrightarrow> map_of d k = None"
    using Cons.prems by (auto simp: keyed_def x map_of_eq_None_iff)
  show ?case using Cons.IH [OF k(1)] k(2,3) by (auto simp: delta_upserts_def x split: option.splits)
qed (simp add: delta_upserts_def)

text \<open>The delta takes a client that holds what was sent last to the desired table; a full message
  takes any client there.\<close>

lemma delta_correct:
  assumes "inj sg" and "keyed key d" and "sent_full \<Longrightarrow> in_sync sg sent m"
  shows "map_of (apply_table (\<not> sent_full) (delta_removed sent d) key (delta_upserts sg sent_full sent d) m) k = map_of d k"
proof (cases sent_full)
  case False
  then show ?thesis
    using assms(2) by (simp add: apply_table_lookup delta_upserts_distinct find_delta split: option.split)
next
  case True
  then have s: "map_of sent k = map_option sg (map_of m k)" using assms(3) by (simp add: in_sync_def)
  show ?thesis
  proof (cases "map_of d k")
    case (Some v)
    then have "k \<notin> set (delta_removed sent d)" by (simp add: delta_removed_def)
    with Some True s show ?thesis
      using assms(1,2) by (auto simp: apply_table_lookup delta_upserts_distinct find_delta inj_eq split: option.splits)
  next
    case None
    have "k \<in> set (delta_removed sent d) \<longleftrightarrow> map_of sent k \<noteq> None"
      using None by (auto simp: delta_removed_def map_of_eq_None_iff)
    with None True s show ?thesis
      using assms(2) by (auto simp: apply_table_lookup delta_upserts_distinct find_delta)
  qed
qed

lemma delta_in_sync:
  assumes "inj sg" and "keyed key d" and "sent_full \<Longrightarrow> in_sync sg sent m"
  shows "in_sync sg (signatures sg d)
    (apply_table (\<not> sent_full) (delta_removed sent d) key (delta_upserts sg sent_full sent d) m)"
  using delta_correct [OF assms] by (simp add: in_sync_def map_of_signatures)

lemma delta_nothing:
  assumes "inj sg" and "in_sync sg sent m" and "keyed key d"
    and "delta_upserts sg True sent d = []" and "delta_removed sent d = []"
  shows "map_of m k = map_of d k"
  using delta_correct [OF assms(1,3), of True sent m k] assms(2,4,5) by (simp add: apply_table_def)

end
