(* ===== verification/Allocator.thy ===== *)
theory Allocator
  imports Prelude
begin

text \<open>
  The interface of the address allocators: the port pool of the raw tunnels and the address pools of
  the overlay networks. An allocation gives an address of the pool that is not in use, or fails
  because every address is in use. The client, here \<open>grab\<close>, allocates one address after another and
  marks each as used.
\<close>

locale allocator =
  fixes slots :: "'s \<Rightarrow> 'a set" and alloc :: "('a \<Rightarrow> bool) \<Rightarrow> 's \<Rightarrow> ('a \<times> 's) option" and wf :: "'s \<Rightarrow> bool"
  assumes alloc_sound: "wf s \<Longrightarrow> alloc u s = Some (a, s') \<Longrightarrow> a \<in> slots s \<and> \<not> u a \<and> wf s' \<and> slots s' = slots s"
    and alloc_complete: "wf s \<Longrightarrow> alloc u s = None \<Longrightarrow> a \<in> slots s \<Longrightarrow> u a"
    and slots_finite: "wf s \<Longrightarrow> finite (slots s)"
begin

lemma alloc_fails_iff: "wf s \<Longrightarrow> alloc u s = None \<longleftrightarrow> (\<forall>a\<in>slots s. u a)"
  using alloc_sound [of s u] alloc_complete [of s u] by (cases "alloc u s") auto

fun grab :: "nat \<Rightarrow> ('a \<Rightarrow> bool) \<Rightarrow> 's \<Rightarrow> 'a list \<times> 's" where
  "grab 0 u s = ([], s)"
| "grab (Suc n) u s =
     (case alloc u s of
        None \<Rightarrow> ([], s)
      | Some (a, s') \<Rightarrow> (case grab n (\<lambda>x. u x \<or> x = a) s' of (as, s'') \<Rightarrow> (a # as, s'')))"

lemma grab_sound:
  "wf s \<Longrightarrow> grab n u s = (as, s') \<Longrightarrow>
     distinct as \<and> set as \<subseteq> {a \<in> slots s. \<not> u a} \<and> wf s' \<and> slots s' = slots s"
proof (induction n arbitrary: u s as)
  case (Suc n)
  show ?case
  proof (cases "alloc u s")
    case None
    with Suc.prems show ?thesis by simp
  next
    case (Some p)
    obtain a t where p: "p = (a, t)" by force
    note a = alloc_sound [OF Suc.prems(1) Some [unfolded p]]
    from Suc.prems(2) obtain bs where "grab n (\<lambda>x. u x \<or> x = a) t = (bs, s')" and as: "as = a # bs"
      by (auto simp: Some p split: prod.splits)
    from Suc.IH [OF _ this(1)] a as show ?thesis by auto
  qed
qed simp

lemma grab_length:
  "wf s \<Longrightarrow> grab n u s = (as, s') \<Longrightarrow> length as = min n (card {a \<in> slots s. \<not> u a})"
proof (induction n arbitrary: u s as)
  case (Suc n)
  let ?free = "{a \<in> slots s. \<not> u a}"
  have fin: "finite ?free" using slots_finite [OF Suc.prems(1)] by simp
  show ?case
  proof (cases "alloc u s")
    case None
    then have "?free = {}" using alloc_fails_iff [OF Suc.prems(1)] by auto
    with None Suc.prems show ?thesis by (simp only: card.empty) simp
  next
    case (Some p)
    obtain a t where p: "p = (a, t)" by force
    note a = alloc_sound [OF Suc.prems(1) Some [unfolded p]]
    from Suc.prems(2) obtain bs where bs: "grab n (\<lambda>x. u x \<or> x = a) t = (bs, s')" and as: "as = a # bs"
      by (auto simp: Some p split: prod.splits)
    have "{x \<in> slots t. \<not> (u x \<or> x = a)} = ?free - {a}" using a by auto
    moreover have "a \<in> ?free" using a by simp
    ultimately have "card {x \<in> slots t. \<not> (u x \<or> x = a)} = card ?free - 1" "0 < card ?free"
      using fin by (auto simp: card_gt_0_iff)
    with Suc.IH [OF _ bs] a as show ?thesis by simp
  qed
qed simp

end

end
