(* ===== verification/Net_Alloc.thy ===== *)
theory Net_Alloc
  imports Allocator Netip_Text
begin

text \<open>
  Address allocation of the overlay network of a tenant (\<open>server/netctl/ipam.go\<close>) and the validation
  of its address range (\<open>ValidateNetworkCIDR\<close> in \<open>server/netctl/tun.go\<close>). The first /24 block and
  the last address of the pool are reserved.
\<close>

record ip_alloc =
  ia_pool :: prefix
  ia_next :: u32

definition DefaultPool :: prefix where "DefaultPool = Pfx4 0x64400000 10"

definition pool_base :: "prefix \<Rightarrow> u32" where
  "pool_base p = as4 (prefix_addr (masked p))"

definition new_alloc :: "prefix \<Rightarrow> ip_alloc" where
  "new_alloc pool = \<lparr>ia_pool = pool, ia_next = pool_base pool + 256\<rparr>"

text \<open>The loop: at most \<open>n\<close> addresses, wrapping from \<open>last\<close> to \<open>first\<close>.\<close>

fun alloc_scan :: "(addr \<Rightarrow> bool) \<Rightarrow> u32 \<Rightarrow> u32 \<Rightarrow> nat \<Rightarrow> u32 \<Rightarrow> u32 option" where
  "alloc_scan used first lst 0 cur = None"
| "alloc_scan used first lst (Suc n) cur =
     (if \<not> used (IP4 cur) then Some cur
      else alloc_scan used first lst n (if cur + 1 > lst then first else cur + 1))"

definition first_addr :: "ip_alloc \<Rightarrow> u32" where
  "first_addr a = pool_base (ia_pool a) + 256"

definition last_addr :: "ip_alloc \<Rightarrow> u32" where
  "last_addr a = pool_base (ia_pool a) + push_bit (32 - prefix_bits (ia_pool a)) 1 - 2"

definition ip_allocate :: "(addr \<Rightarrow> bool) \<Rightarrow> ip_alloc \<Rightarrow> (addr \<times> ip_alloc) option" where
  "ip_allocate used a =
     (let first = first_addr a; lst = last_addr a in
      if lst < first then None
      else
        let cur = (if ia_next a < first \<or> ia_next a > lst then first else ia_next a) in
        case alloc_scan used first lst (unat (lst - first + 1)) cur of
          None \<Rightarrow> None
        | Some w \<Rightarrow> Some (IP4 w, a\<lparr>ia_next := w + 1\<rparr>))"

definition pool_contains :: "ip_alloc \<Rightarrow> addr \<Rightarrow> bool" where
  "pool_contains a ip = prefix_contains (ia_pool a) ip"

definition resolver_ip :: "prefix \<Rightarrow> addr" where
  "resolver_ip pool = IP4 (pool_base pool + 1)"

text \<open>The ranges a tenant may choose: 100.64.0.0/10, 10.0.0.0/8, 172.16.0.0/12, 192.168.0.0/16.\<close>

definition private_blocks :: "prefix list" where
  "private_blocks = [Pfx4 0x64400000 10, Pfx4 0x0a000000 8, Pfx4 0xac100000 12, Pfx4 0xc0a80000 16]"

definition validate_network_cidr :: "prefix \<Rightarrow> bool" where
  "validate_network_cidr p =
     (if p = NoPrefix \<or> \<not> is4 (prefix_addr p) then False
      else if prefix_bits p < 10 \<or> prefix_bits p > 24 then False
      else list_ex (\<lambda>b. prefix_contains b (prefix_addr (masked p)) \<and> prefix_bits (masked p) \<ge> prefix_bits b) private_blocks)"

section \<open>The scan visits every address\<close>

lemma unat_next: "cur < lst \<Longrightarrow> unat (cur + 1) = Suc (unat cur)" for cur lst :: u32
proof -
  assume "cur < lst"
  then have "unat cur < unat lst" by (simp add: word_less_nat_alt)
  moreover have "unat lst < 2 ^ 32" using unsigned_less [of lst, where 'a = nat] by simp
  ultimately show ?thesis by (simp add: unat_word_ariths(1))
qed

lemma next_le: "cur < lst \<Longrightarrow> cur < cur + 1 \<and> cur + 1 \<le> lst" for cur lst :: u32
  using unat_next [of cur lst] by (simp add: word_less_nat_alt word_le_nat_alt)

lemma scan_sound:
  assumes "alloc_scan used first lst n cur = Some w" and "first \<le> cur" "cur \<le> lst" "lst < - 1"
  shows "first \<le> w \<and> w \<le> lst \<and> \<not> used (IP4 w)"
  using assms
proof (induction n arbitrary: cur)
  case (Suc n)
  show ?case
  proof (cases "used (IP4 cur)")
    case True
    let ?c = "if cur + 1 > lst then first else cur + 1"
    have "first \<le> lst" using Suc.prems(2,3) by (rule order_trans)
    moreover have "first \<le> ?c"
    proof (cases "cur + 1 > lst")
      case False
      have "cur < cur + 1" using next_le [of cur "- 1"] Suc.prems(3,4) by simp
      with Suc.prems(2) False show ?thesis by simp
    qed simp
    moreover have "?c \<le> lst" using \<open>first \<le> lst\<close> by auto
    ultimately show ?thesis using Suc.IH [of ?c] Suc.prems(1,4) True by simp
  qed (use Suc.prems in simp)
qed simp

lemma scan_next:
  assumes "alloc_scan used first lst (Suc n) cur = None" and "cur < lst"
  shows "alloc_scan used first lst n (cur + 1) = None"
  using assms(1) next_le [OF assms(2)] by (simp add: not_less split: if_splits)

text \<open>From \<open>cur\<close> to the last address, then from the first one on.\<close>

lemma scan_prefix:
  assumes "alloc_scan used first lst n cur = None" and "cur \<le> lst" "lst < - 1" and "n \<le> unat lst - unat cur + 1"
    and "cur \<le> w" "unat w < unat cur + n"
  shows "used (IP4 w)"
  using assms
proof (induction n arbitrary: cur)
  case (Suc n)
  have u: "used (IP4 cur)" using Suc.prems(1) by (simp split: if_splits)
  show ?case
  proof (cases "w = cur")
    case False
    then have lt: "cur < w" using Suc.prems(5) by simp
    then have "unat cur < unat w" by (simp add: word_less_nat_alt)
    with Suc.prems(4,6) have "unat cur < unat lst" by linarith
    then have cl: "cur < lst" by (simp add: word_less_nat_alt)
    then have nx: "unat (cur + 1) = Suc (unat cur)" by (rule unat_next)
    have le: "cur + 1 \<le> lst" using cl nx by (simp add: word_le_nat_alt word_less_nat_alt)
    have "alloc_scan used first lst n (cur + 1) = None" using Suc.prems(1) u le by (simp add: not_less split: if_splits)
    moreover have "n \<le> unat lst - unat (cur + 1) + 1" using Suc.prems(4) nx \<open>unat cur < unat lst\<close> by simp
    moreover have "cur + 1 \<le> w" using lt nx by (simp add: word_le_nat_alt word_less_nat_alt)
    moreover have "unat w < unat (cur + 1) + n" using Suc.prems(6) nx by simp
    ultimately show ?thesis using Suc.IH [OF _ le Suc.prems(3)] by blast
  qed (use u in simp)
qed (simp add: word_le_nat_alt)

lemma scan_wrap:
  assumes "alloc_scan used first lst (unat lst - unat cur + 1 + k) cur = None" and "cur \<le> lst" "lst < - 1"
  shows "alloc_scan used first lst k first = None"
  using assms
proof (induction "unat lst - unat cur" arbitrary: cur)
  case 0
  then have "cur = lst" by (simp add: word_le_nat_alt word_unat_eq_iff)
  have "lst < lst + 1" using 0(4) using next_le [OF 0(4)] by simp
  then show ?case using 0(2) by (simp add: \<open>cur = lst\<close> split: if_splits)
next
  case (Suc d)
  then have cl: "cur < lst" by (simp add: word_less_nat_alt)
  then have nx: "unat (cur + 1) = Suc (unat cur)" by (rule unat_next)
  have le: "cur + 1 \<le> lst" using cl nx by (simp add: word_le_nat_alt word_less_nat_alt)
  have "unat lst - unat cur + 1 + k = Suc (unat lst - unat (cur + 1) + 1 + k)" using Suc(2) nx by simp
  then have "alloc_scan used first lst (Suc (unat lst - unat (cur + 1) + 1 + k)) cur = None"
    using Suc(3) by (simp only:)
  then have "alloc_scan used first lst (unat lst - unat (cur + 1) + 1 + k) (cur + 1) = None"
    using cl by (rule scan_next)
  moreover have "d = unat lst - unat (cur + 1)" using Suc(2) nx by simp
  ultimately show ?case using Suc(1) [OF _ _ le Suc(5)] by blast
qed

lemma scan_complete:
  assumes "alloc_scan used first lst (unat (lst - first + 1)) cur = None"
    and "first \<le> cur" "cur \<le> lst" "lst < - 1" and "first \<le> w" "w \<le> lst"
  shows "used (IP4 w)"
proof -
  have ord: "unat first \<le> unat cur" "unat cur \<le> unat lst" "unat first \<le> unat w" "unat w \<le> unat lst"
    using assms(2,3,5,6) by (simp_all add: word_le_nat_alt)
  have "unat (lst - first) = unat lst - unat first" using assms(2,3) by (intro unat_sub) simp
  moreover have "unat lst < 2 ^ 32 - 1"
    using assms(4) by (simp add: word_less_nat_alt unsigned_minus_1_eq_mask mask_eq_exp_minus_1)
  ultimately have n: "unat (lst - first + 1) = unat lst - unat first + 1"
    by (simp add: unat_word_ariths(1))
  show ?thesis
  proof (cases "cur \<le> w")
    case True
    have "unat w < unat cur + (unat lst - unat cur + 1)" using ord by simp
    moreover have "alloc_scan used first lst (unat lst - unat cur + 1) cur = None"
    proof -
      have mono: "alloc_scan used first lst (a + b) c = None \<Longrightarrow> alloc_scan used first lst a c = None" for a b c
        by (induction a arbitrary: c) (auto split: if_splits)
      have "unat (lst - first + 1) = (unat lst - unat cur + 1) + (unat cur - unat first)" using n ord by simp
      with assms(1) mono show ?thesis by metis
    qed
    ultimately show ?thesis using scan_prefix [OF _ assms(3,4) order_refl True] by blast
  next
    case False
    then have "unat w < unat cur" by (simp add: word_le_nat_alt)
    have "unat (lst - first + 1) = unat lst - unat cur + 1 + (unat cur - unat first)" using n ord by simp
    with assms(1) scan_wrap [OF _ assms(3,4)] have f: "alloc_scan used first lst (unat cur - unat first) first = None" by metis
    have "first \<le> lst" using assms(2,3) by simp
    from scan_prefix [OF f this assms(4) _ assms(5)] ord \<open>unat w < unat cur\<close> show ?thesis by simp
  qed
qed

section \<open>Allocation\<close>

text \<open>A pool with an IPv4 range that leaves room behind its reserved block: /10 to /23.\<close>

definition alloc_ok :: "ip_alloc \<Rightarrow> bool" where
  "alloc_ok a \<longleftrightarrow> (\<exists>w n. ia_pool a = Pfx4 w n \<and> 8 \<le> n \<and> n \<le> 23)"

definition usable :: "ip_alloc \<Rightarrow> addr set" where
  "usable a = IP4 ` {first_addr a..last_addr a}"

lemma unat_drop32: "unat (drop_bit k x) = unat x div 2 ^ k" for x :: u32
proof -
  have "unat x < 2 ^ 32" using unsigned_less [of x, where 'a = nat] by simp
  then have "take_bit 32 (unat x) = unat x" by (rule take_bit_nat_eq_self)
  then show ?thesis by (simp only: unsigned_drop_bit_eq) (simp add: drop_bit_eq_div)
qed

lemma unat_pow32: "k < 32 \<Longrightarrow> unat (2 ^ k :: u32) = 2 ^ k"
proof -
  assume k: "k < 32"
  have "(2 ^ k :: u32) = of_nat (2 ^ k)" by simp
  then show ?thesis using k by (simp only: unsigned_of_nat) (simp add: take_bit_nat_eq_self)
qed

lemma unat_push32: "unat (push_bit k x) = (unat x * 2 ^ k) mod 2 ^ 32" for x :: u32
  by (simp only: unsigned_push_bit_eq) (simp add: take_bit_eq_mod push_bit_eq_mult)

lemma mask_to_nat: "n \<le> 32 \<Longrightarrow> unat (mask_to n w) + 2 ^ (32 - n) \<le> 2 ^ 32" for w :: u32
proof -
  assume n: "n \<le> 32"
  let ?q = "unat (drop_bit (32 - n) w)"
  have "unat w < 2 ^ 32" using unsigned_less [of w, where 'a = nat] by simp
  then have "unat w < 2 ^ n * 2 ^ (32 - n)" using n by (simp flip: power_add)
  moreover have q: "?q = unat w div 2 ^ (32 - n)"  by (rule unat_drop32)
  ultimately have "?q < 2 ^ n" by (simp add: less_mult_imp_div_less)
  then have "Suc ?q \<le> 2 ^ n" by simp
  then have "Suc ?q * 2 ^ (32 - n) \<le> 2 ^ n * 2 ^ (32 - n)" by (rule mult_le_mono1)
  then have b: "?q * 2 ^ (32 - n) + 2 ^ (32 - n) \<le> 2 ^ 32" using n by (simp flip: power_add)
  have len: "LENGTH(32) = 32" by simp
  have "unat (mask_to n w) = (?q * 2 ^ (32 - n)) mod 2 ^ 32"
    unfolding mask_to_def len by (rule unat_push32)
  also have "\<dots> = ?q * 2 ^ (32 - n)"
  proof (rule mod_less)
    have "0 < (2::nat) ^ (32 - n)" by simp
    with b show "?q * 2 ^ (32 - n) < 2 ^ 32" by linarith
  qed
  finally show ?thesis using b by (simp only:)
qed

lemma pool_bounds:
  assumes "ia_pool a = Pfx4 w n" "8 \<le> n" "n \<le> 24" "unat (mask_to n w) + 256 < 2 ^ 32"
  shows "unat (first_addr a) = unat (mask_to n w) + 256"
    and "unat (last_addr a) = unat (mask_to n w) + 2 ^ (32 - n) - 2" and "last_addr a < - 1"
proof -
  let ?b = "unat (mask_to n w)"
  have le: "?b + 2 ^ (32 - n) \<le> 2 ^ 32" using mask_to_nat [of n w] assms(3) by simp
  have "(2::nat) ^ 8 \<le> 2 ^ (32 - n)" using assms(3) by (intro power_increasing) simp_all
  then have p: "256 \<le> (2::nat) ^ (32 - n)" by simp
  have base: "pool_base (ia_pool a) = mask_to n w" by (simp add: pool_base_def assms(1))
  have sz: "unat (push_bit (32 - n) 1 :: u32) = 2 ^ (32 - n)"
    using assms(2) by (simp add: unat_pow32)
  show "unat (first_addr a) = ?b + 256"
    using assms(4) unfolding first_addr_def base by (simp add: unat_word_ariths(1))
  have s2: "unat (push_bit (32 - n) 1 - 2 :: u32) = 2 ^ (32 - n) - 2"
    using sz p by (subst unat_sub) (simp_all add: word_le_nat_alt)
  have "last_addr a = mask_to n w + (push_bit (32 - n) 1 - 2)"
    unfolding last_addr_def base by (simp add: assms(1))
  then show l: "unat (last_addr a) = ?b + 2 ^ (32 - n) - 2"
    using le p s2 by (simp add: unat_word_ariths(1))
  show "last_addr a < - 1"
    using le p l by (simp add: word_less_nat_alt unsigned_minus_1_eq_mask mask_eq_exp_minus_1)
qed

lemma wide_pool_base: "n \<le> 23 \<Longrightarrow> unat (mask_to n w) + 256 < 2 ^ 32" for w :: u32
proof -
  assume n: "n \<le> 23"
  have "(2::nat) ^ 9 \<le> 2 ^ (32 - n)" using n by (intro power_increasing) simp_all
  with mask_to_nat [of n w] n show ?thesis by simp
qed

lemma alloc_ok_bounds: "alloc_ok a \<Longrightarrow> first_addr a \<le> last_addr a \<and> last_addr a < - 1"
proof -
  assume "alloc_ok a"
  then obtain w n where n: "ia_pool a = Pfx4 w n" "8 \<le> n" "n \<le> 23" by (auto simp: alloc_ok_def)
  have n24: "n \<le> 24" using n(3) by simp
  have "(2::nat) ^ 9 \<le> 2 ^ (32 - n)" using n(3) by (intro power_increasing) simp_all
  with pool_bounds [OF n(1,2) n24 wide_pool_base [OF n(3)]] show ?thesis by (simp add: word_le_nat_alt)
qed

lemma allocate_bounds:
  assumes "ip_allocate used a = Some (ip, a')" and "last_addr a < - 1"
  shows "\<exists>w. ip = IP4 w \<and> first_addr a \<le> w \<and> w \<le> last_addr a \<and> \<not> used ip \<and> ia_pool a' = ia_pool a"
proof -
  let ?c = "if ia_next a < first_addr a \<or> ia_next a > last_addr a then first_addr a else ia_next a"
  have fl: "first_addr a \<le> last_addr a" using assms(1) by (auto simp: ip_allocate_def Let_def split: if_splits)
  then have c: "first_addr a \<le> ?c" "?c \<le> last_addr a" by (auto simp: not_less)
  obtain w where w: "alloc_scan used (first_addr a) (last_addr a) (unat (last_addr a - first_addr a + 1)) ?c = Some w"
    "ip = IP4 w" "a' = a\<lparr>ia_next := w + 1\<rparr>"
    using assms(1) fl by (auto simp: ip_allocate_def Let_def not_less split: if_splits option.splits)
  from scan_sound [OF w(1) c assms(2)] w(2,3) show ?thesis by simp
qed

lemma allocate_complete:
  assumes "ip_allocate used a = None" and "last_addr a < - 1" and "first_addr a \<le> w" "w \<le> last_addr a"
  shows "used (IP4 w)"
proof -
  let ?c = "if ia_next a < first_addr a \<or> ia_next a > last_addr a then first_addr a else ia_next a"
  have fl: "first_addr a \<le> last_addr a" using assms(3,4) by simp
  then have c: "first_addr a \<le> ?c" "?c \<le> last_addr a" by (auto simp: not_less)
  have "alloc_scan used (first_addr a) (last_addr a) (unat (last_addr a - first_addr a + 1)) ?c = None"
    using assms(1) fl by (auto simp: ip_allocate_def Let_def not_less split: if_splits option.splits)
  from scan_complete [OF this c assms(2-4)] show ?thesis .
qed

lemma alloc_same_pool: "ia_pool a' = ia_pool a \<Longrightarrow> usable a' = usable a \<and> alloc_ok a' = alloc_ok a"
  by (simp add: usable_def first_addr_def last_addr_def alloc_ok_def)

interpretation ipam: allocator usable ip_allocate alloc_ok
proof
  fix s :: ip_alloc and u a s'
  assume "alloc_ok s" and "ip_allocate u s = Some (a, s')"
  with allocate_bounds [of u s a s'] alloc_ok_bounds [of s]
  obtain w where "a = IP4 w" "first_addr s \<le> w" "w \<le> last_addr s" "\<not> u a" "ia_pool s' = ia_pool s" by blast
  with alloc_same_pool [of s' s] \<open>alloc_ok s\<close> show "a \<in> usable s \<and> \<not> u a \<and> alloc_ok s' \<and> usable s' = usable s"
    by (auto simp: usable_def)
next
  fix s :: ip_alloc and u a
  assume s: "alloc_ok s" "ip_allocate u s = None" and "a \<in> usable s"
  then obtain w where w: "a = IP4 w" "first_addr s \<le> w" "w \<le> last_addr s" by (auto simp: usable_def)
  have "last_addr s < - 1" using alloc_ok_bounds [OF s(1)] by blast
  from allocate_complete [OF s(2) this w(2,3)] show "u a" by (simp only: w(1))
qed (simp add: usable_def)

lemma same_prefix:
  fixes v w :: u32
  assumes "n \<le> 32" and "unat (mask_to n w) \<le> unat v" "unat v < unat (mask_to n w) + 2 ^ (32 - n)"
  shows "mask_to n v = mask_to n w"
proof -
  let ?k = "2 ^ (32 - n) :: nat"
  have dr: "unat (drop_bit (32 - n) x) = unat x div ?k" for x :: u32
    by (rule unat_drop32)
  have "drop_bit (32 - n) (mask_to n w) = drop_bit (32 - n) w"
    using assms(1) unfolding mask_to_def by (intro bit_word_eqI) (auto simp: bit_simps dest: bit_imp_le_length)
  then have mw: "unat (mask_to n w) div ?k = unat w div ?k" by (metis dr)
  have "?k dvd unat (mask_to n w)"
  proof -
    have "take_bit (32 - n) (mask_to n w) = 0"
      unfolding mask_to_def by (intro bit_word_eqI) (auto simp: bit_simps)
    then have "take_bit (32 - n) (unat (mask_to n w)) = 0" by (metis unsigned_take_bit_eq unsigned_0)
    then show ?thesis by (simp add: take_bit_eq_mod mod_eq_0_iff_dvd)
  qed
  then obtain q where q: "unat (mask_to n w) = ?k * q" by (elim dvdE)
  have "unat v div ?k = q"
  proof (rule div_nat_eqI)
    show "?k * q \<le> unat v" using assms(2) q by simp
    show "unat v < ?k * Suc q" using assms(3) q by (simp add: add.commute)
  qed
  moreover have "unat w div ?k = q" using mw q by simp
  ultimately have "drop_bit (32 - n) v = drop_bit (32 - n) w" by (metis dr word_unat_eq_iff)
  then show ?thesis by (simp add: mask_to_def)
qed

section \<open>Properties\<close>

text \<open>What the addresses of a pool are for, in plain numbers: the first 256 (with the resolver) and the last one are
  reserved. A /24 range has no others.\<close>

definition pool_range :: "prefix \<Rightarrow> addr set" where
  "pool_range pool = {IP4 v | v. unat (pool_base pool) + 256 \<le> unat v \<and> unat v + 2 \<le> unat (pool_base pool) + 2 ^ (32 - prefix_bits pool)}"

lemma usable_range:
  assumes "pool = Pfx4 w k" "8 \<le> k" "k \<le> 23"
  shows "usable (new_alloc pool) = pool_range pool"
proof -
  have ip: "ia_pool (new_alloc pool) = Pfx4 w k" by (simp add: new_alloc_def assms(1))
  have base: "pool_base pool = mask_to k w" by (simp add: pool_base_def assms(1))
  have "k \<le> 24" using assms(3) by simp
  note b = pool_bounds [OF ip assms(2) this wide_pool_base [OF assms(3)]]
  have "(2::nat) ^ 9 \<le> 2 ^ (32 - k)" using assms(3) by (intro power_increasing) simp_all
  then have p: "(512::nat) \<le> 2 ^ (32 - k)" by simp
  have r: "v \<in> {first_addr (new_alloc pool)..last_addr (new_alloc pool)} \<longleftrightarrow>
      unat (pool_base pool) + 256 \<le> unat v \<and> unat v + 2 \<le> unat (pool_base pool) + 2 ^ (32 - prefix_bits pool)" for v
    unfolding atLeastAtMost_iff word_le_nat_alt b(1,2) base using p by (auto simp: assms(1))
  show ?thesis unfolding usable_def pool_range_def using r by blast
qed

lemma range_inside:
  assumes "pool = Pfx4 w k" "k \<le> 24" and x: "x \<in> pool_range pool"
  shows "prefix_contains pool x \<and> x \<noteq> resolver_ip pool"
proof -
  have base: "pool_base pool = mask_to k w" by (simp add: pool_base_def assms(1))
  obtain v where v: "x = IP4 v" "unat (mask_to k w) + 256 \<le> unat v" "unat v + 2 \<le> unat (mask_to k w) + 2 ^ (32 - k)"
    using x unfolding pool_range_def base by (auto simp: assms(1))
  have "mask_to k v = mask_to k w" using v assms(2) by (intro same_prefix) simp_all
  then have "prefix_contains pool x" unfolding assms(1) v(1) using assms(2) contains4_iff by simp
  moreover have "unat (mask_to k w + 1) \<le> unat (mask_to k w) + 1" by (simp add: unat_word_ariths(1))
  then have "v \<noteq> mask_to k w + 1" using v(2) by auto
  ultimately show ?thesis by (simp add: v(1) resolver_ip_def base)
qed

lemma unat_ffffff00: "unat (0xffffff00 :: u32) = 4294967040" by simp

text \<open>The validation also accepts /24 ranges, which the allocator cannot serve: the reserved first
  block is the whole range, so no node of a tenant that chose one ever gets an address, with no
  address in use.\<close>

lemma slash24_network_is_useless:
  assumes "validate_network_cidr pool" and "prefix_bits pool = 24"
  shows "ip_allocate used (new_alloc pool) = None"
proof -
  obtain w where pool: "pool = Pfx4 w 24" using assms by (cases pool) (auto simp: validate_network_cidr_def)
  have ip: "ia_pool (new_alloc pool) = Pfx4 w 24" by (simp add: new_alloc_def pool)
  have "mask_to 24 w \<noteq> 0xffffff00"
  proof
    assume "mask_to 24 w = 0xffffff00"
    with assms(1) show False by (simp add: pool validate_network_cidr_def private_blocks_def)
  qed
  then have "unat (mask_to 24 w) \<noteq> 4294967040" by (metis unat_ffffff00 word_unat_eq_iff)
  then have "unat (mask_to 24 w) + 256 < 2 ^ 32" using mask_to_nat [of 24 w] by simp
  from pool_bounds [OF ip _ _ this] have "last_addr (new_alloc pool) < first_addr (new_alloc pool)"
    by (simp add: word_less_nat_alt)
  then show ?thesis by (simp add: ip_allocate_def Let_def)
qed

lemma range24_empty: "prefix_bits pool = 24 \<Longrightarrow> pool_range pool = {}"
  by (auto simp: pool_range_def)

text \<open>C28: Addresses of an overlay network. For every range the validation accepts, allocating \<open>n\<close> addresses from a fresh allocator
  while the addresses \<open>used\<close> are taken gives different free addresses, each inside the usable part of the range: behind its first 256
  addresses and before the last one, so never the resolver. It gives fewer than \<open>n\<close> only when all usable addresses are taken then.
  (In a /24 range there is none.)\<close>

theorem allocation_correct:
  assumes "validate_network_cidr pool" and "ipam.grab n used (new_alloc pool) = (ips, a')"
  shows "distinct ips \<and> set ips \<subseteq> {ip \<in> pool_range pool. \<not> used ip} \<and> length ips = min n (card {ip \<in> pool_range pool. \<not> used ip})
    \<and> (\<forall>ip\<in>pool_range pool. prefix_contains pool ip \<and> ip \<noteq> resolver_ip pool)"
proof -
  obtain w k where pool: "pool = Pfx4 w k" using assms(1) by (cases pool) (auto simp: validate_network_cidr_def)
  have k: "8 \<le> k" "k \<le> 24" using assms(1) pool by (auto simp: validate_network_cidr_def split: if_splits)
  have inside: "\<forall>ip\<in>pool_range pool. prefix_contains pool ip \<and> ip \<noteq> resolver_ip pool" using range_inside [OF pool k(2)] by blast
  show ?thesis
  proof (cases "k = 24")
    case True
    then have b: "prefix_bits pool = 24" by (simp add: pool)
    then have "ips = []" using assms slash24_network_is_useless by (cases n) auto
    then show ?thesis using range24_empty [OF b] by simp
  next
    case False
    with k(2) have k23: "k \<le> 23" by simp
    have ok: "alloc_ok (new_alloc pool)" using k23 k by (simp add: alloc_ok_def new_alloc_def pool)
    show ?thesis
      using ipam.grab_sound [OF ok assms(2)] ipam.grab_length [OF ok assms(2)] inside unfolding usable_range [OF pool k(1) k23] by blast
  qed
qed

lemma sample_net: "validate_network_cidr (Pfx4 0x0a000000 16)"
  by (simp add: validate_network_cidr_def private_blocks_def mask_to_def)

lemma allocation_correct_witness:
  "\<exists>ips a'. ipam.grab 1 (\<lambda>ip. False) (new_alloc (Pfx4 0x0a000000 16)) = (ips, a') \<and> distinct ips
     \<and> set ips \<subseteq> pool_range (Pfx4 0x0a000000 16)"
proof -
  obtain ips a' where g: "ipam.grab 1 (\<lambda>ip. False) (new_alloc (Pfx4 0x0a000000 16)) = (ips, a')" by force
  from allocation_correct [OF sample_net g] g show ?thesis by auto
qed

lemma slash24_network_is_useless_witness:
  "validate_network_cidr (Pfx4 0xc0a80100 24) \<and> ip_allocate (\<lambda>ip. False) (new_alloc (Pfx4 0xc0a80100 24)) = None"
proof -
  have v: "validate_network_cidr (Pfx4 0xc0a80100 24)"
    by (simp add: validate_network_cidr_def private_blocks_def mask_to_def)
  from slash24_network_is_useless [OF v] v show ?thesis by simp
qed

end
