(* ===== verification/Net_Types.thy ===== *)
theory Net_Types
  imports Net_State Net_Alloc
begin

text \<open>
  The types of the network manager (\<open>server/netctl/types.go\<close>), node and share names, the open
  visibility rules (\<open>visibility.go\<close>) and the bounded queue of messages to a node (\<open>outbox.go\<close>).
\<close>

section \<open>Grantees, subjects, shares\<close>

record grantee =
  gr_type :: string
  gr_id :: string

record subject =
  su_kind :: string
  su_client :: string
  su_user :: string
  su_role :: string
  su_tags :: "(string, string) gomap"

record share =
  sh_id :: string
  sh_tenant :: string
  sh_owner :: string
  sh_name :: string
  sh_proto :: string
  sh_port :: int
  sh_grantees :: "grantee list"
  sh_expires :: "time option"
  sh_created_by :: string
  sh_created_at :: time
  sh_ephemeral :: bool

record node_rec =
  nr_node :: string
  nr_tenant :: string
  nr_kind :: string
  nr_client :: string
  nr_name :: string
  nr_ip :: addr
  nr_wg_pub :: string
  nr_created :: time
  nr_last_seen :: time

definition KindDevice :: string where "KindDevice = ''device''"
definition KindSession :: string where "KindSession = ''session''"

datatype net_err =
    ErrInvalid string
  | ErrConflict string
  | ErrNotFound string
  | ErrOther string

definition share_active :: "time \<Rightarrow> share \<Rightarrow> bool" where
  "share_active now s = (case sh_expires s of None \<Rightarrow> True | Some e \<Rightarrow> now < e)"

section \<open>Open visibility\<close>

definition open_matches :: "grantee \<Rightarrow> subject \<Rightarrow> bool" where
  "open_matches g sub =
     (if gr_type g = ''user'' then su_user sub \<noteq> [] \<and> su_user sub = gr_id g
      else if gr_type g = ''device'' then su_client sub \<noteq> [] \<and> su_client sub = gr_id g
      else if gr_type g = ''group'' then
        (if gr_id g = ''everyone'' then True
         else if has_prefix (gr_id g) ''role:'' then su_role sub \<noteq> [] \<and> su_role sub = drop 5 (gr_id g)
         else False)
      else False)"

text \<open>\<open>ValidateGrantee\<close>; \<open>user_role\<close> and \<open>device_name\<close> are the directory (\<open>None\<close> when there is none),
  each of which may fail.\<close>

record directory =
  di_user_role :: "string \<Rightarrow> net_err + string"
  di_device_name :: "string \<Rightarrow> net_err + string option"

definition validate_grantee :: "directory option \<Rightarrow> grantee \<Rightarrow> net_err option" where
  "validate_grantee dir g =
     (if gr_id g = [] \<or> length (gr_id g) > 128 then Some (ErrInvalid ''invalid_grantee'')
      else if gr_type g = ''user'' then
        (case dir of
           None \<Rightarrow> None
         | Some d \<Rightarrow>
             (case di_user_role d (gr_id g) of
                Inl e \<Rightarrow> Some e
              | Inr role \<Rightarrow> if role = [] then Some (ErrInvalid ''grantee_not_member'') else None))
      else if gr_type g = ''device'' then
        (case dir of
           None \<Rightarrow> None
         | Some d \<Rightarrow>
             (case di_device_name d (gr_id g) of
                Inl e \<Rightarrow> Some e
              | Inr None \<Rightarrow> Some (ErrInvalid ''grantee_not_found'')
              | Inr (Some _) \<Rightarrow> None))
      else if gr_type g = ''group'' then
        (if gr_id g = ''everyone'' then None
         else if has_prefix (gr_id g) ''role:'' \<and> drop 5 (gr_id g) \<in> {''owner'', ''admin'', ''member''} then None
         else Some (ErrInvalid ''invalid_group''))
      else Some (ErrInvalid ''invalid_grantee''))"

section \<open>Names\<close>

definition is_lower_alnum :: "char \<Rightarrow> bool" where
  "is_lower_alnum c \<longleftrightarrow> (97 \<le> code_of c \<and> code_of c \<le> 122) \<or> is_digit c"

abbreviation dash :: char where "dash \<equiv> CHR ''-''"

text \<open>The loop that replaces \<open>--\<close> by \<open>-\<close> until none is left.\<close>

fun squeeze :: "string \<Rightarrow> string" where
  "squeeze (a # b # s) = (if a = dash \<and> b = dash then squeeze (b # s) else a # squeeze (b # s))"
| "squeeze s = s"

definition trim_dash :: "string \<Rightarrow> string" where
  "trim_dash s = trim_right (\<lambda>c. c = dash) (trim_left (\<lambda>c. c = dash) s)"

definition sanitize_name :: "string \<Rightarrow> string \<Rightarrow> string" where
  "sanitize_name s fallback =
     (let out = trim_dash (squeeze (map (\<lambda>c. if is_lower_alnum c then c else dash) (to_lower s)));
          out' = (if length out > 40 then trim_dash (take 40 out) else out) in
      if out' = [] then fallback else out')"

text \<open>\<open>uniqueName\<close>: the base, or the base with the first number from 2 on that no node has. The
  names in use are finitely many, so the search ends within one more step than there are names.\<close>

fun name_search :: "string list \<Rightarrow> string \<Rightarrow> nat \<Rightarrow> nat \<Rightarrow> string option" where
  "name_search taken base i 0 = None"
| "name_search taken base i (Suc n) =
     (let cand = base @ dash # itoa_nat i in
      if cand \<notin> set taken then Some cand else name_search taken base (Suc i) n)"

definition unique_name :: "string list \<Rightarrow> string \<Rightarrow> string option" where
  "unique_name taken base = (if base \<notin> set taken then Some base else name_search taken base 2 (Suc (length taken)))"

text \<open>The pattern of share names: \<open>^[a-z0-9]([a-z0-9-]{0,40}[a-z0-9])?$\<close>.\<close>

definition valid_share_name :: "string \<Rightarrow> bool" where
  "valid_share_name s \<longleftrightarrow> s \<noteq> [] \<and> length s \<le> 42 \<and> list_all (\<lambda>c. is_lower_alnum c \<or> c = dash) s
     \<and> is_lower_alnum (hd s) \<and> is_lower_alnum (last s)"

section \<open>The outbox\<close>

record 'm outbox =
  ob_ctrl :: "'m chan"
  ob_data :: "bytes chan"
  ob_done :: bool
  ob_dropped :: int

definition new_outbox :: "'m outbox" where
  "new_outbox = \<lparr>ob_ctrl = make_chan 64, ob_data = make_chan 256, ob_done = False, ob_dropped = 0\<rparr>"

definition ob_close :: "'m outbox \<Rightarrow> 'm outbox" where
  "ob_close q = q\<lparr>ob_done := True\<rparr>"

definition ob_send_ctrl :: "'m \<Rightarrow> 'm outbox \<Rightarrow> bool \<times> 'm outbox" where
  "ob_send_ctrl m q =
     (if ob_done q then (False, q)
      else case chan_offer m (ob_ctrl q) of
          Some c \<Rightarrow> (True, q\<lparr>ob_ctrl := c\<rparr>)
        | None \<Rightarrow> (False, ob_close q))"

definition ob_send_data :: "bytes \<Rightarrow> 'm outbox \<Rightarrow> bool \<times> 'm outbox" where
  "ob_send_data b q =
     (if ob_done q then (False, q)
      else case chan_offer b (ob_data q) of
          Some c \<Rightarrow> (True, q\<lparr>ob_data := c\<rparr>)
        | None \<Rightarrow> (False, q\<lparr>ob_dropped := ob_dropped q + 1\<rparr>))"

text \<open>One turn of \<open>Pump\<close> and what it writes: a control message first if there is one; otherwise
  \<open>select\<close> takes any ready case, and \<open>pick\<close> says which when both the end of the outbox and a data
  frame are ready.\<close>

datatype 'm pump_out = PumpCtrl 'm | PumpData bytes | PumpEnd | PumpIdle

definition pump_step :: "bool \<Rightarrow> 'm outbox \<Rightarrow> 'm pump_out \<times> 'm outbox" where
  "pump_step pick q =
     (case chan_take (ob_ctrl q) of
        Some (m, c) \<Rightarrow> (PumpCtrl m, q\<lparr>ob_ctrl := c\<rparr>)
      | None \<Rightarrow>
          (case chan_take (ob_data q) of
             Some (b, c) \<Rightarrow> if ob_done q \<and> pick then (PumpEnd, q) else (PumpData b, q\<lparr>ob_data := c\<rparr>)
           | None \<Rightarrow> if ob_done q then (PumpEnd, q) else (PumpIdle, q)))"

end
