(* ===== verification/Net_Desired.thy ===== *)
theory Net_Desired
  imports Net_Types "HOL-Library.Char_ord" "HOL-Library.List_Lexorder"
begin

text \<open>
  What a node of the overlay network should see, and the message that takes it there:
  \<open>desiredLocked\<close> and \<open>recomputeLocked\<close> of \<open>server/netctl/manager.go\<close>, and the part of
  \<open>server/netctl/tun.go\<close> that derives peers, access rules and names of nodes in Mod B.

  Nodes are shared by the tables of a tenant and by their connections, so a node is a reference into
  a heap. The signature of an entry in the Go code is its JSON text, which determines the entry; here
  an entry is its own signature.
\<close>

type_synonym node_ref = nat
type_synonym ob_ref = nat

text \<open>What a node reported about its path to a peer (\<open>pathStat\<close> of \<open>punch.go\<close>).\<close>

record path_stat =
  ps_path :: string
  ps_rtt :: int
  ps_at :: time

record node =
  n_rec :: node_rec
  n_sub :: subject
  n_ob :: "ob_ref option"
  n_expires :: "time option"
  n_vis :: "u32 list option"
  n_sent_full :: bool
  n_sent_peer :: "(string, net_peer) gomap"
  n_sent_in :: "(string, net_share_in) gomap"
  n_sent_out :: "(string, net_share_out) gomap"
  n_sent_acl :: "net_acl_rule list option"
  n_sent_dns :: "(string \<times> net_dns_record list) option"
  n_tun :: bool
  n_last_alog :: "time option"
  n_relayed :: int
  n_denied :: int
  n_disco :: string
  n_punch :: bool
  n_endpoints :: "string list"
  n_ep_at :: "time option"
  n_paths :: "(string, path_stat) gomap"
  n_punch_req_at :: "(string, time) gomap"

type_synonym node_heap = "(node_ref, node) gomap"

record tun_rule =
  tr_id :: string
  tr_tenant :: string
  tr_name :: string
  tr_src :: grantee
  tr_dst :: string
  tr_proto :: string
  tr_ports :: string
  tr_created_by :: string
  tr_created_at :: time
  tr_origin :: string
  tr_src_devices :: "string list"
  tr_dst_devices :: "string list"
  tr_resource :: string
  tr_dns_only :: bool

record tenant =
  tn_id :: string
  tn_alloc :: ip_alloc
  tn_nodes :: "(string, node_ref) gomap"
  tn_by_ip :: "(addr, node_ref) gomap"
  tn_by_client :: "(string, node_ref) gomap"
  tn_shares :: "(string, share) gomap"
  tn_rules :: "(string, tun_rule) gomap"
  tn_slug :: string
  tn_epoch :: int

text \<open>What the manager is configured with: the visibility rules and the hooks (\<open>gate\<close> is true and
  \<open>extra_rules\<close> empty when no hook is set), and its constants.\<close>

record net_env =
  ev_matches :: "grantee \<Rightarrow> subject \<Rightarrow> bool"
  ev_gate :: "string \<Rightarrow> string \<Rightarrow> subject \<Rightarrow> bool"
  ev_extra_rules :: "string \<Rightarrow> string list \<Rightarrow> tun_rule list"
  ev_enrich :: "string \<Rightarrow> subject \<Rightarrow> subject"
  ev_mtu :: int
  ev_pool :: prefix
  ev_punch :: bool
  ev_stun :: "string list"
  ev_stun_port :: int
  ev_tun :: bool
  ev_alog :: bool

definition TunZone :: string where "TunZone = ''zorven.internal''"

definition tenant_nodes :: "node_heap \<Rightarrow> tenant \<Rightarrow> (node_ref \<times> node) list" where
  "tenant_nodes h t = List.map_filter (\<lambda>(k, r). map_option (Pair r) (map_of h r)) (tn_nodes t)"

definition as_peer :: "node \<Rightarrow> net_peer" where
  "as_peer n =
     \<lparr>np_node_id = nr_node (n_rec n), np_wg_pub = nr_wg_pub (n_rec n), np_ip = addr_string (nr_ip (n_rec n)),
      np_name = nr_name (n_rec n), np_kind = nr_kind (n_rec n), np_online = n_ob n \<noteq> None,
      np_disco_pub = n_disco n, np_tun = n_tun n\<rparr>"

abbreviation node_pub :: "node \<Rightarrow> string" where "node_pub n \<equiv> nr_wg_pub (n_rec n)"
abbreviation node_ip :: "node \<Rightarrow> addr" where "node_ip n \<equiv> nr_ip (n_rec n)"

definition share_matches :: "net_env \<Rightarrow> share \<Rightarrow> subject \<Rightarrow> bool" where
  "share_matches E s sub = list_ex (\<lambda>g. ev_matches E g sub) (sh_grantees s)"

text \<open>\<open>m.matches(s, sub) && m.gateOK(t.id, s, sub)\<close>: may this subject use the share.\<close>

definition may_use :: "net_env \<Rightarrow> string \<Rightarrow> share \<Rightarrow> subject \<Rightarrow> bool" where
  "may_use E tid s sub \<longleftrightarrow> share_matches E s sub \<and> ev_gate E tid (sh_owner s) sub"

section \<open>The desired map\<close>

record desired_map =
  de_peers :: "(string, net_peer) gomap"
  de_in :: "(string, net_share_in) gomap"
  de_out :: "(string, net_share_out) gomap"

definition share_expiry :: "share \<Rightarrow> int" where
  "share_expiry s = (case sh_expires s of None \<Rightarrow> 0 | Some e \<Rightarrow> e div Second)"

definition put_peers :: "node list \<Rightarrow> (string, net_peer) gomap \<Rightarrow> (string, net_peer) gomap" where
  "put_peers ns m = fold (\<lambda>y. gm_put (node_pub y) (as_peer y)) ns m"

text \<open>The nodes that may use a share of node \<open>xr\<close>.\<close>

definition share_users :: "net_env \<Rightarrow> node_heap \<Rightarrow> tenant \<Rightarrow> node_ref \<Rightarrow> share \<Rightarrow> node list" where
  "share_users E h t xr s = map snd (filter (\<lambda>(r, y). r \<noteq> xr \<and> may_use E (tn_id t) s (n_sub y)) (tenant_nodes h t))"

definition desired_step ::
  "net_env \<Rightarrow> node_heap \<Rightarrow> tenant \<Rightarrow> time \<Rightarrow> node_ref \<Rightarrow> node \<Rightarrow> share \<Rightarrow> desired_map \<Rightarrow> desired_map" where
  "desired_step E h t now xr x s d =
     (if \<not> share_active now s then d
      else case map_of (tn_by_client t) (sh_owner s) of
          None \<Rightarrow> d
        | Some orf \<Rightarrow>
            (case map_of h orf of
               None \<Rightarrow> d
             | Some ow \<Rightarrow>
                 if orf = xr then
                   (let ys = share_users E h t xr s in
                    d\<lparr>de_peers := put_peers ys (de_peers d),
                      de_out := gm_put (sh_id s)
                        \<lparr>so_id = sh_id s, so_name = sh_name s, so_port = sh_port s, so_proto = sh_proto s,
                         so_allow = sort (map (\<lambda>y. addr_string (node_ip y)) ys), so_expires_unix = share_expiry s\<rparr>
                        (de_out d)\<rparr>)
                 else if may_use E (tn_id t) s (n_sub x) then
                   d\<lparr>de_peers := put_peers [ow] (de_peers d),
                     de_in := gm_put (sh_id s)
                       \<lparr>si_id = sh_id s, si_name = sh_name s, si_owner_name = nr_name (n_rec ow),
                        si_owner_ip = addr_string (node_ip ow), si_port = sh_port s, si_proto = sh_proto s,
                        si_expires_unix = share_expiry s\<rparr>
                       (de_in d)\<rparr>
                 else d))"

definition desired :: "net_env \<Rightarrow> node_heap \<Rightarrow> tenant \<Rightarrow> time \<Rightarrow> node_ref \<Rightarrow> node \<Rightarrow> desired_map" where
  "desired E h t now xr x =
     fold (desired_step E h t now xr x) (map snd (tn_shares t)) \<lparr>de_peers = [], de_in = [], de_out = []\<rparr>"

section \<open>Mod B\<close>

definition dst_matches :: "tun_rule \<Rightarrow> node \<Rightarrow> bool" where
  "dst_matches r y =
     (if tr_origin r \<noteq> [] then nr_client (n_rec y) \<in> set (tr_dst_devices r)
      else tr_dst r = ''*'' \<or> tr_dst r = nr_client (n_rec y))"

definition src_matches :: "net_env \<Rightarrow> tun_rule \<Rightarrow> node \<Rightarrow> bool" where
  "src_matches E r y =
     (if tr_origin r \<noteq> [] then nr_kind (n_rec y) = KindDevice \<and> nr_client (n_rec y) \<in> set (tr_src_devices r)
      else ev_matches E (tr_src r) (n_sub y))"

definition tun_online :: "node \<Rightarrow> bool" where
  "tun_online y \<longleftrightarrow> n_tun y \<and> n_ob y \<noteq> None"

definition tun_clients :: "node_heap \<Rightarrow> tenant \<Rightarrow> string list" where
  "tun_clients h t = sort (map (\<lambda>(r, y). nr_client (n_rec y))
     (filter (\<lambda>(r, y). tun_online y \<and> nr_kind (n_rec y) = KindDevice) (tenant_nodes h t)))"

definition tun_rules :: "net_env \<Rightarrow> node_heap \<Rightarrow> tenant \<Rightarrow> tun_rule list" where
  "tun_rules E h t = sort_key tr_id
     (map snd (tn_rules t)
      @ map (\<lambda>r. r\<lparr>tr_tenant := tn_id t\<rparr>) (filter (\<lambda>r. tr_origin r \<noteq> []) (ev_extra_rules E (tn_id t) (tun_clients h t))))"

text \<open>The other Mod B nodes that are online.\<close>

definition tun_others :: "node_heap \<Rightarrow> tenant \<Rightarrow> node_ref \<Rightarrow> node list" where
  "tun_others h t xr = map snd (filter (\<lambda>(r, y). r \<noteq> xr \<and> tun_online y) (tenant_nodes h t))"

definition put_record :: "tun_rule \<Rightarrow> node \<Rightarrow> (string, string) gomap \<Rightarrow> (string, string) gomap" where
  "put_record r y recs = (if tr_resource r \<noteq> [] then gm_put (tr_resource r) (addr_string (node_ip y)) recs else recs)"

text \<open>One other node \<open>y\<close> under one rule: peers and name records of \<open>x\<close>.\<close>

definition tun_peer_step ::
  "net_env \<Rightarrow> tun_rule \<Rightarrow> node \<Rightarrow> node \<Rightarrow> (string, net_peer) gomap \<times> (string, string) gomap
   \<Rightarrow> (string, net_peer) gomap \<times> (string, string) gomap" where
  "tun_peer_step E r x y pr =
     (case pr of (peers, recs) \<Rightarrow>
        if tr_dns_only r then
          (peers, if dst_matches r y \<and> src_matches E r x then put_record r y recs else recs)
        else
          let peers1 = (if dst_matches r x \<and> src_matches E r y then put_peers [y] peers else peers) in
          if dst_matches r y \<and> src_matches E r x then (put_peers [y] peers1, put_record r y recs) else (peers1, recs))"

definition rule_acl :: "net_env \<Rightarrow> tun_rule \<Rightarrow> node \<Rightarrow> node list \<Rightarrow> net_acl_rule list" where
  "rule_acl E r x others =
     (let src = map (\<lambda>y. addr_string (node_ip y)) (filter (src_matches E r) others) in
      if dst_matches r x \<and> \<not> tr_dns_only r \<and> src \<noteq> []
      then [\<lparr>nr_id = tr_id r, nr_src = sort src, nr_proto = tr_proto r, nr_ports = tr_ports r\<rparr>] else [])"

definition share_acl :: "net_share_out \<Rightarrow> net_acl_rule list" where
  "share_acl so =
     (if so_allow so = [] then []
      else [\<lparr>nr_id = ''share:'' @ so_id so, nr_src = so_allow so, nr_proto = so_proto so, nr_ports = itoa (so_port so)\<rparr>])"

definition tun_desired ::
  "net_env \<Rightarrow> node_heap \<Rightarrow> tenant \<Rightarrow> tun_rule list \<Rightarrow> node_ref \<Rightarrow> node \<Rightarrow> (string, net_peer) gomap
   \<Rightarrow> (string, net_share_out) gomap
   \<Rightarrow> (string, net_peer) gomap \<times> net_acl_rule list \<times> net_dns_record list" where
  "tun_desired E h t rules xr x peers outs =
     (let others = tun_others h t xr;
          pr = fold (\<lambda>r. fold (tun_peer_step E r x) others) rules (peers, []);
          acl = sort_key nr_id (concat (map (\<lambda>r. rule_acl E r x others) rules) @ concat (map (\<lambda>(k, so). share_acl so) outs));
          recs = sort_key dr_name (map (\<lambda>(n, ip). \<lparr>dr_name = n, dr_ip = ip\<rparr>) (snd pr)) in
      (fst pr, acl, recs))"

definition tun_dns :: "tenant \<Rightarrow> string \<Rightarrow> net_dns_record list \<Rightarrow> net_dns" where
  "tun_dns t suffix recs =
     \<lparr>nd_resolver = addr_string (resolver_ip (ia_pool (tn_alloc t))), nd_zone = TunZone, nd_suffix = suffix, nd_records = recs\<rparr>"

section \<open>The message to one node\<close>

text \<open>What a node should have: the tables, and the rules and names of Mod B.\<close>

record goal_map =
  go_peers :: "(string, net_peer) gomap"
  go_in :: "(string, net_share_in) gomap"
  go_out :: "(string, net_share_out) gomap"
  go_acl :: "net_acl_rule list"
  go_recs :: "net_dns_record list"

definition node_goal :: "net_env \<Rightarrow> node_heap \<Rightarrow> tenant \<Rightarrow> tun_rule list \<Rightarrow> time \<Rightarrow> node_ref \<Rightarrow> node \<Rightarrow> goal_map" where
  "node_goal E h t rules now xr x =
     (let d = desired E h t now xr x in
      case (if n_tun x then tun_desired E h t rules xr x (de_peers d) (de_out d) else (de_peers d, [], [])) of
        (peers, acl, recs) \<Rightarrow>
          \<lparr>go_peers = peers, go_in = de_in d, go_out = de_out d, go_acl = acl, go_recs = recs\<rparr>)"

definition vis_set :: "(string, net_peer) gomap \<Rightarrow> u32 list" where
  "vis_set peers = List.map_filter (\<lambda>(k, p). map_option as4 (parse_addr (np_ip p))) peers"

definition new_acl :: "node \<Rightarrow> goal_map \<Rightarrow> net_acl_rule list option" where
  "new_acl x g = (if n_tun x then Some (go_acl g) else None)"

definition new_dns :: "tenant \<Rightarrow> node \<Rightarrow> goal_map \<Rightarrow> (string \<times> net_dns_record list) option" where
  "new_dns t x g = (if n_tun x then Some (tn_slug t, go_recs g) else None)"

definition acl_changed :: "node \<Rightarrow> goal_map \<Rightarrow> bool" where
  "acl_changed x g \<longleftrightarrow> new_acl x g \<noteq> n_sent_acl x \<or> (\<not> n_sent_full x \<and> new_acl x g \<noteq> None)"

definition dns_changed :: "tenant \<Rightarrow> node \<Rightarrow> goal_map \<Rightarrow> bool" where
  "dns_changed t x g \<longleftrightarrow> n_tun x \<and> (new_dns t x g \<noteq> n_sent_dns x \<or> \<not> n_sent_full x)"

definition build_map :: "net_env \<Rightarrow> tenant \<Rightarrow> node \<Rightarrow> goal_map \<Rightarrow> net_map" where
  "build_map E t x g =
     \<lparr>nm_epoch = tn_epoch t, nm_full = \<not> n_sent_full x, nm_self = as_peer x, nm_mtu = ev_mtu E,
      nm_peers = delta_upserts id (n_sent_full x) (n_sent_peer x) (go_peers g),
      nm_removed_peers = delta_removed (n_sent_peer x) (go_peers g),
      nm_shares_in = delta_upserts id (n_sent_full x) (n_sent_in x) (go_in g),
      nm_removed_in = delta_removed (n_sent_in x) (go_in g),
      nm_shares_out = delta_upserts id (n_sent_full x) (n_sent_out x) (go_out g),
      nm_removed_out = delta_removed (n_sent_out x) (go_out g),
      nm_acl_set = acl_changed x g, nm_acl = (if acl_changed x g then go_acl g else []),
      nm_dns = (if dns_changed t x g then Some (tun_dns t (tn_slug t) (go_recs g)) else None)\<rparr>"

definition map_changed :: "tenant \<Rightarrow> node \<Rightarrow> goal_map \<Rightarrow> net_map \<Rightarrow> bool" where
  "map_changed t x g m \<longleftrightarrow> nm_full m \<or> nm_peers m \<noteq> [] \<or> nm_removed_peers m \<noteq> [] \<or> nm_shares_in m \<noteq> []
     \<or> nm_removed_in m \<noteq> [] \<or> nm_shares_out m \<noteq> [] \<or> nm_removed_out m \<noteq> [] \<or> nm_acl_set m \<or> nm_dns m \<noteq> None"

definition mark_sent :: "tenant \<Rightarrow> goal_map \<Rightarrow> node \<Rightarrow> node" where
  "mark_sent t g x =
     x\<lparr>n_sent_full := True, n_sent_peer := signatures id (go_peers g), n_sent_in := signatures id (go_in g),
       n_sent_out := signatures id (go_out g), n_sent_acl := new_acl x g, n_sent_dns := new_dns t x g\<rparr>"

text \<open>One online node of \<open>recomputeLocked\<close>: its visibility set, the message if anything changed, and
  what it remembers as sent when the queue takes the message (\<open>ok\<close>).\<close>

definition node_push :: "net_env \<Rightarrow> tenant \<Rightarrow> goal_map \<Rightarrow> bool \<Rightarrow> node \<Rightarrow> net_map option \<times> node" where
  "node_push E t g ok x =
     (let x1 = x\<lparr>n_vis := Some (vis_set (go_peers g))\<rparr>; m = build_map E t x1 g in
      if \<not> map_changed t x1 g m then (None, x1)
      else (Some m, if ok then mark_sent t g x1 else x1))"

end
