(* ===== verification/Net_Visibility.thy ===== *)
theory Net_Visibility
  imports Net_Desired
begin

text \<open>
  Who sees whom in the overlay network. \<open>linked\<close> states, without tables and iteration, when two
  nodes of a tenant may reach each other: through an active share one owns and the other may use, or
  through a rule of Mod B. The peers of the map the server computes (\<open>node_goal\<close>) are exactly the
  linked nodes, and the visibility set of a node holds exactly their addresses.
\<close>

section \<open>Well-formed tenants\<close>

definition node_refs :: "tenant \<Rightarrow> node_ref set" where
  "node_refs t = snd ` set (tn_nodes t)"

text \<open>The tables of a tenant agree with the nodes they refer to.\<close>

definition tenant_ok :: "node_heap \<Rightarrow> tenant \<Rightarrow> bool" where
  "tenant_ok h t \<longleftrightarrow>
     gm_ok (tn_nodes t) \<and> gm_ok (tn_by_ip t) \<and> gm_ok (tn_by_client t)
   \<and> (\<forall>(k, r)\<in>set (tn_nodes t). \<exists>n. map_of h r = Some n \<and> nr_node (n_rec n) = k \<and> is4 (node_ip n))
   \<and> (\<forall>ip r. map_of (tn_by_ip t) ip = Some r \<longrightarrow> r \<in> node_refs t \<and> (\<forall>n. map_of h r = Some n \<longrightarrow> node_ip n = ip))
   \<and> (\<forall>c r. map_of (tn_by_client t) c = Some r \<longrightarrow> r \<in> node_refs t
        \<and> (\<forall>n. map_of h r = Some n \<longrightarrow> nr_kind (n_rec n) = KindDevice \<and> nr_client (n_rec n) = c))"

lemma tenant_nodes_iff: "(r, n) \<in> set (tenant_nodes h t) \<longleftrightarrow> r \<in> node_refs t \<and> map_of h r = Some n"
  by (force simp: tenant_nodes_def node_refs_def List.map_filter_def image_iff)

lemma tenant_okE:
  assumes "tenant_ok h t" and "r \<in> node_refs t"
  obtains n where "map_of h r = Some n" "(r, n) \<in> set (tenant_nodes h t)" "is4 (node_ip n)"
    "map_of (tn_nodes t) (nr_node (n_rec n)) = Some r"
proof -
  obtain k where k: "(k, r) \<in> set (tn_nodes t)" using assms(2) by (auto simp: node_refs_def)
  then obtain n where n: "map_of h r = Some n" "nr_node (n_rec n) = k" "is4 (node_ip n)"
    using assms(1) unfolding tenant_ok_def by blast
  have "map_of (tn_nodes t) (nr_node (n_rec n)) = Some r"
    using k n assms(1) by (auto simp: tenant_ok_def)
  with n assms(2) that show thesis by (simp add: tenant_nodes_iff)
qed

lemma node_refs_lookup: "tenant_ok h t \<Longrightarrow> map_of (tn_by_client t) c = Some r \<Longrightarrow> r \<in> node_refs t"
  by (simp add: tenant_ok_def)

section \<open>The relation\<close>

definition linked_by_share :: "net_env \<Rightarrow> tenant \<Rightarrow> time \<Rightarrow> node_ref \<times> node \<Rightarrow> node_ref \<times> node \<Rightarrow> bool" where
  "linked_by_share E t now a b \<longleftrightarrow> (\<exists>s\<in>snd ` set (tn_shares t). share_active now s \<and>
     (map_of (tn_by_client t) (sh_owner s) = Some (fst a) \<and> may_use E (tn_id t) s (n_sub (snd b))
      \<or> map_of (tn_by_client t) (sh_owner s) = Some (fst b) \<and> may_use E (tn_id t) s (n_sub (snd a))))"

definition linked_by_rule :: "net_env \<Rightarrow> tun_rule list \<Rightarrow> node \<Rightarrow> node \<Rightarrow> bool" where
  "linked_by_rule E rules x y \<longleftrightarrow> n_tun x \<and> n_tun y \<and> n_ob y \<noteq> None \<and>
     (\<exists>r\<in>set rules. \<not> tr_dns_only r \<and> (dst_matches r x \<and> src_matches E r y \<or> dst_matches r y \<and> src_matches E r x))"

definition linked :: "net_env \<Rightarrow> tenant \<Rightarrow> tun_rule list \<Rightarrow> time \<Rightarrow> node_ref \<times> node \<Rightarrow> node_ref \<times> node \<Rightarrow> bool" where
  "linked E t rules now a b \<longleftrightarrow> fst a \<noteq> fst b \<and> (linked_by_share E t now a b \<or> linked_by_rule E rules (snd a) (snd b))"

lemma linked_sym: "n_ob (snd a) \<noteq> None \<Longrightarrow> n_ob (snd b) \<noteq> None \<Longrightarrow> linked E t rules now a b = linked E t rules now b a"
  by (auto simp: linked_def linked_by_share_def linked_by_rule_def)

section \<open>The peers as one sequence of insertions\<close>

lemma put_peers_append: "put_peers (xs @ ys) m = put_peers ys (put_peers xs m)"
  by (simp add: put_peers_def)

lemma put_peers_Nil [simp]: "put_peers [] m = m"
  by (simp add: put_peers_def)

lemma fold_put_peers: "fold (\<lambda>x. put_peers (f x)) xs m = put_peers (concat (map f xs)) m"
  by (induction xs arbitrary: m) (simp_all add: put_peers_append)

lemma fold_keeps: "P d \<Longrightarrow> (\<And>x d. P d \<Longrightarrow> P (f x d)) \<Longrightarrow> P (fold f xs d)"
  by (induction xs arbitrary: d) simp_all

lemma fold_field:
  "(\<And>x d. g (f x d) = p x (g d)) \<Longrightarrow> g (fold f xs d) = fold p xs (g d)"
  by (induction xs arbitrary: d) simp_all

definition only_if :: "bool \<Rightarrow> 'a list \<Rightarrow> 'a list" where
  "only_if b xs = (if b then xs else [])"

lemma set_only_if [simp]: "x \<in> set (only_if b xs) \<longleftrightarrow> b \<and> x \<in> set xs"
  by (simp add: only_if_def)

lemma put_only_if [simp]: "put_peers (only_if b ys) m = (if b then put_peers ys m else m)"
  by (simp add: only_if_def)

definition share_peers :: "net_env \<Rightarrow> node_heap \<Rightarrow> tenant \<Rightarrow> time \<Rightarrow> node_ref \<Rightarrow> node \<Rightarrow> share \<Rightarrow> node list" where
  "share_peers E h t now xr x s =
     (if \<not> share_active now s then []
      else case map_of (tn_by_client t) (sh_owner s) of
          None \<Rightarrow> []
        | Some orf \<Rightarrow>
            (case map_of h orf of
               None \<Rightarrow> []
             | Some ow \<Rightarrow>
                 if orf = xr then share_users E h t xr s
                 else only_if (may_use E (tn_id t) s (n_sub x)) [ow]))"

definition rule_peers :: "net_env \<Rightarrow> node \<Rightarrow> node list \<Rightarrow> tun_rule \<Rightarrow> node list" where
  "rule_peers E x others r = concat (map (\<lambda>y.
     only_if (\<not> tr_dns_only r) (only_if (dst_matches r x \<and> src_matches E r y) [y]
        @ only_if (dst_matches r y \<and> src_matches E r x) [y])) others)"

lemma desired_step_peers:
  "de_peers (desired_step E h t now xr x s d) = put_peers (share_peers E h t now xr x s) (de_peers d)"
  by (simp add: desired_step_def share_peers_def Let_def split: option.split)

lemma tun_step_peers:
  "fst (tun_peer_step E r x y pr) = put_peers
     (only_if (\<not> tr_dns_only r) (only_if (dst_matches r x \<and> src_matches E r y) [y]
        @ only_if (dst_matches r y \<and> src_matches E r x) [y])) (fst pr)"
  by (cases pr) (auto simp: tun_peer_step_def Let_def put_peers_append)

text \<open>All the nodes the map of \<open>x\<close> is built from.\<close>

definition goal_nodes :: "net_env \<Rightarrow> node_heap \<Rightarrow> tenant \<Rightarrow> tun_rule list \<Rightarrow> time \<Rightarrow> node_ref \<Rightarrow> node \<Rightarrow> node list" where
  "goal_nodes E h t rules now xr x =
     concat (map (share_peers E h t now xr x) (map snd (tn_shares t)))
     @ only_if (n_tun x) (concat (map (rule_peers E x (tun_others h t xr)) rules))"

lemma go_peers_put: "go_peers (node_goal E h t rules now xr x) = put_peers (goal_nodes E h t rules now xr x) []"
proof -
  have de: "de_peers (desired E h t now xr x) = put_peers (concat (map (share_peers E h t now xr x) (map snd (tn_shares t)))) []"
    unfolding desired_def
    by (simp add: fold_field [where g = de_peers and f = "desired_step E h t now xr x"
        and p = "\<lambda>s. put_peers (share_peers E h t now xr x s)"] desired_step_peers fold_put_peers)
  have inner: "fst (fold (tun_peer_step E r x) others pr) = put_peers (rule_peers E x others r) (fst pr)" for r others pr
    unfolding rule_peers_def fold_put_peers [symmetric]
    by (rule fold_field) (rule tun_step_peers)
  have tun: "fst (fold (\<lambda>r. fold (tun_peer_step E r x) others) rules pr)
      = put_peers (concat (map (rule_peers E x others) rules)) (fst pr)" for others pr
    unfolding fold_put_peers [symmetric]
    by (rule fold_field) (rule inner)
  show ?thesis
    by (simp add: node_goal_def Let_def tun_desired_def tun de goal_nodes_def put_peers_append)
qed

section \<open>The nodes of the map are the linked nodes\<close>

lemma share_users_iff: "y \<in> set (share_users E h t xr s) \<longleftrightarrow>
    (\<exists>ry. (ry, y) \<in> set (tenant_nodes h t) \<and> ry \<noteq> xr \<and> may_use E (tn_id t) s (n_sub y))"
  unfolding share_users_def by (force simp: image_iff)

lemma share_peers_iff:
  assumes "tenant_ok h t"
  shows "y \<in> set (share_peers E h t now xr x s) \<longleftrightarrow> share_active now s \<and> (\<exists>ry. (ry, y) \<in> set (tenant_nodes h t) \<and> ry \<noteq> xr \<and>
     (map_of (tn_by_client t) (sh_owner s) = Some xr \<and> may_use E (tn_id t) s (n_sub y)
      \<or> map_of (tn_by_client t) (sh_owner s) = Some ry \<and> may_use E (tn_id t) s (n_sub x)))"
proof (cases "map_of (tn_by_client t) (sh_owner s)")
  case (Some orf)
  with assms have "orf \<in> node_refs t" by (rule node_refs_lookup)
  then obtain ow where ow: "map_of h orf = Some ow" "(orf, ow) \<in> set (tenant_nodes h t)"
    using tenant_okE [OF assms] by metis
  have u: "(orf, z) \<in> set (tenant_nodes h t) \<longleftrightarrow> z = ow" for z using ow by (auto simp: tenant_nodes_iff)
  show ?thesis
  proof (cases "orf = xr")
    case True
    with Some ow show ?thesis by (auto simp: share_peers_def share_users_iff)
  next
    case False
    with Some ow u show ?thesis by (auto simp: share_peers_def)
  qed
qed (simp add: share_peers_def)

lemma rule_peers_iff: "y \<in> set (rule_peers E x others r) \<longleftrightarrow> y \<in> set others \<and> \<not> tr_dns_only r \<and>
    (dst_matches r x \<and> src_matches E r y \<or> dst_matches r y \<and> src_matches E r x)"
  unfolding rule_peers_def by (induction others) auto

lemma tun_others_iff: "y \<in> set (tun_others h t xr) \<longleftrightarrow> (\<exists>ry. (ry, y) \<in> set (tenant_nodes h t) \<and> ry \<noteq> xr \<and> n_tun y \<and> n_ob y \<noteq> None)"
  by (force simp: tun_others_def tun_online_def image_iff)

lemma goal_nodes_iff:
  assumes "tenant_ok h t"
  shows "y \<in> set (goal_nodes E h t rules now xr x) \<longleftrightarrow>
    (\<exists>ry. (ry, y) \<in> set (tenant_nodes h t) \<and> linked E t rules now (xr, x) (ry, y))"
proof -
  have "y \<in> set (goal_nodes E h t rules now xr x) \<longleftrightarrow>
      (\<exists>s\<in>snd ` set (tn_shares t). y \<in> set (share_peers E h t now xr x s))
      \<or> n_tun x \<and> (\<exists>r\<in>set rules. y \<in> set (rule_peers E x (tun_others h t xr) r))"
    by (auto simp: goal_nodes_def)
  also have "\<dots> \<longleftrightarrow> (\<exists>ry. (ry, y) \<in> set (tenant_nodes h t) \<and> linked E t rules now (xr, x) (ry, y))"
    unfolding share_peers_iff [OF assms] rule_peers_iff tun_others_iff linked_def linked_by_share_def linked_by_rule_def fst_conv snd_conv
    by blast
  finally show ?thesis .
qed

section \<open>Lookups\<close>

lemma put_peers_dom: "dom (map_of (put_peers ys m)) = node_pub ` set ys \<union> dom (map_of m)"
  by (induction ys arbitrary: m) (auto simp: put_peers_def split: if_splits)

lemma put_peers_entry:
  "map_of (put_peers ys m) k = Some p \<Longrightarrow> (\<exists>y\<in>set ys. node_pub y = k \<and> p = as_peer y) \<or> map_of m k = Some p"
proof (induction ys arbitrary: m)
  case (Cons y ys)
  then have "map_of (put_peers ys (gm_put (node_pub y) (as_peer y) m)) k = Some p" by (simp add: put_peers_def)
  from Cons.IH [OF this] show ?case by (auto split: if_splits)
qed simp

definition pubs_distinct :: "node_heap \<Rightarrow> tenant \<Rightarrow> bool" where
  "pubs_distinct h t \<longleftrightarrow> (\<forall>(r, n)\<in>set (tenant_nodes h t). \<forall>(r', n')\<in>set (tenant_nodes h t). node_pub n = node_pub n' \<longrightarrow> r = r')"

lemma pubs_distinctD:
  "pubs_distinct h t \<Longrightarrow> (r, n) \<in> set (tenant_nodes h t) \<Longrightarrow> (r', n') \<in> set (tenant_nodes h t) \<Longrightarrow>
   node_pub n = node_pub n' \<Longrightarrow> r = r'"
  by (auto simp: pubs_distinct_def)

lemma goal_peer_linked:
  assumes "tenant_ok h t" and "map_of (go_peers (node_goal E h t rules now xr x)) k = Some p"
  obtains ry y where "(ry, y) \<in> set (tenant_nodes h t)" "linked E t rules now (xr, x) (ry, y)" "k = node_pub y" "p = as_peer y"
  using put_peers_entry [of "goal_nodes E h t rules now xr x" "[]" k p] assms(2) goal_nodes_iff [OF assms(1)] that
  by (auto simp: go_peers_put)

lemma linked_goal_peer:
  assumes "tenant_ok h t" and "pubs_distinct h t"
    and y: "(ry, y) \<in> set (tenant_nodes h t)" and l: "linked E t rules now (xr, x) (ry, y)"
  shows "map_of (go_peers (node_goal E h t rules now xr x)) (node_pub y) = Some (as_peer y)"
proof -
  have "y \<in> set (goal_nodes E h t rules now xr x)" using y l goal_nodes_iff [OF assms(1)] by blast
  then have "node_pub y \<in> dom (map_of (go_peers (node_goal E h t rules now xr x)))"
    by (simp add: go_peers_put put_peers_dom)
  then obtain p where p: "map_of (go_peers (node_goal E h t rules now xr x)) (node_pub y) = Some p" by blast
  from goal_peer_linked [OF assms(1) p]
  obtain rz z where z: "(rz, z) \<in> set (tenant_nodes h t)" "node_pub y = node_pub z" "p = as_peer z" by metis
  have "rz = ry" by (rule pubs_distinctD [OF assms(2) z(1) y z(2) [symmetric]])
  then have "z = y" using y z(1) by (simp add: tenant_nodes_iff)
  with p z(3) show ?thesis by simp
qed

section \<open>The visibility set\<close>

lemma as_peer_ip: "is4 (node_ip y) \<Longrightarrow> parse_addr (np_ip (as_peer y)) = Some (node_ip y)"
  by (cases "node_ip y") (simp_all add: as_peer_def)

lemma gm_ok_goal: "gm_ok (go_peers (node_goal E h t rules now xr x))"
  unfolding go_peers_put put_peers_def by (rule fold_keeps [where P = gm_ok]) simp_all

lemma vis_set_sound:
  assumes "tenant_ok h t" and "w \<in> set (vis_set (go_peers (node_goal E h t rules now xr x)))"
  obtains ry y where "(ry, y) \<in> set (tenant_nodes h t)" "linked E t rules now (xr, x) (ry, y)" "node_ip y = IP4 w"
proof -
  let ?g = "go_peers (node_goal E h t rules now xr x)"
  obtain k p a where e: "(k, p) \<in> set ?g" "parse_addr (np_ip p) = Some a" "as4 a = w"
    using assms(2) by (auto simp: vis_set_def List.map_filter_def)
  have "map_of ?g k = Some p" using gm_ok_goal [of E h t rules now xr x] e(1) by simp
  from goal_peer_linked [OF assms(1) this] obtain ry y where y: "(ry, y) \<in> set (tenant_nodes h t)"
    "linked E t rules now (xr, x) (ry, y)" "p = as_peer y" by blast
  then have i: "is4 (node_ip y)" using tenant_okE [OF assms(1)] by (metis tenant_nodes_iff option.inject)
  with e y as_peer_ip [OF i] have "as4 (node_ip y) = w" by simp
  then have "node_ip y = IP4 w" using i by (cases "node_ip y") simp_all
  with y that show thesis by blast
qed

lemma vis_set_complete:
  assumes "tenant_ok h t" and "pubs_distinct h t"
    and y: "(ry, y) \<in> set (tenant_nodes h t)" and l: "linked E t rules now (xr, x) (ry, y)"
  shows "as4 (node_ip y) \<in> set (vis_set (go_peers (node_goal E h t rules now xr x)))"
proof -
  have "is4 (node_ip y)" using tenant_okE [OF assms(1)] y by (metis tenant_nodes_iff option.inject)
  then have "parse_addr (np_ip (as_peer y)) = Some (node_ip y)" by (rule as_peer_ip)
  moreover have "(node_pub y, as_peer y) \<in> set (go_peers (node_goal E h t rules now xr x))"
    using linked_goal_peer [OF assms] by (rule map_of_SomeD)
  ultimately show ?thesis by (force simp: vis_set_def List.map_filter_def image_iff)
qed

lemma vis_set_iff:
  assumes "tenant_ok h t" and "pubs_distinct h t"
  shows "w \<in> set (vis_set (go_peers (node_goal E h t rules now xr x))) \<longleftrightarrow>
    (\<exists>rz z. (rz, z) \<in> set (tenant_nodes h t) \<and> linked E t rules now (xr, x) (rz, z) \<and> node_ip z = IP4 w)"
  (is "?l \<longleftrightarrow> ?r")
proof
  assume ?l
  from vis_set_sound [OF assms(1) this] show ?r by metis
next
  assume ?r
  then obtain rz z where "(rz, z) \<in> set (tenant_nodes h t)" "linked E t rules now (xr, x) (rz, z)" and i: "node_ip z = IP4 w" by metis
  from vis_set_complete [OF assms this(1,2)] show ?l by (simp add: i)
qed

lemma goal_has_linked:
  assumes "tenant_ok h t" and "pubs_distinct h t" and b: "(rb, b) \<in> set (tenant_nodes h t)"
  shows "(node_pub b, as_peer b) \<in> set (go_peers (node_goal E h t rules now ra a)) \<longleftrightarrow> linked E t rules now (ra, a) (rb, b)"
proof
  assume "(node_pub b, as_peer b) \<in> set (go_peers (node_goal E h t rules now ra a))"
  then have "map_of (go_peers (node_goal E h t rules now ra a)) (node_pub b) = Some (as_peer b)"
    using gm_ok_goal [of E h t rules now ra a] by simp
  from goal_peer_linked [OF assms(1) this] obtain rc c where c: "(rc, c) \<in> set (tenant_nodes h t)"
    "linked E t rules now (ra, a) (rc, c)" "node_pub b = node_pub c" by metis
  have r: "rb = rc" by (rule pubs_distinctD [OF assms(2) b c(1,3)])
  then have "b = c" using b c(1) by (simp add: tenant_nodes_iff)
  with r c(2) show "linked E t rules now (ra, a) (rb, b)" by simp
next
  assume "linked E t rules now (ra, a) (rb, b)"
  then show "(node_pub b, as_peer b) \<in> set (go_peers (node_goal E h t rules now ra a))"
    by (rule map_of_SomeD [OF linked_goal_peer [OF assms]])
qed

section \<open>Property\<close>

text \<open>C13: Visibility is exactly what shares and rules grant, and mutual. In a well-formed tenant whose
  nodes have different keys, the map of an online node lists another online node, with its current
  data, if and only if an active share or a rule of Mod B links the two; the other node's map then
  lists it too; and the addresses the relay lets the node reach are those of the linked nodes.\<close>

theorem peers_are_linked:
  assumes "tenant_ok h t" and "pubs_distinct h t"
    and x: "(rx, x) \<in> set (tenant_nodes h t)" and y: "(ry, y) \<in> set (tenant_nodes h t)"
    and "n_ob x \<noteq> None" and "n_ob y \<noteq> None"
  shows "((node_pub y, as_peer y) \<in> set (go_peers (node_goal E h t rules now rx x)) \<longleftrightarrow> linked E t rules now (rx, x) (ry, y))
    \<and> ((node_pub y, as_peer y) \<in> set (go_peers (node_goal E h t rules now rx x)) \<longleftrightarrow>
       (node_pub x, as_peer x) \<in> set (go_peers (node_goal E h t rules now ry y)))
    \<and> (w \<in> set (vis_set (go_peers (node_goal E h t rules now rx x))) \<longleftrightarrow>
       (\<exists>rz z. (rz, z) \<in> set (tenant_nodes h t) \<and> linked E t rules now (rx, x) (rz, z) \<and> node_ip z = IP4 w))"
proof (intro conjI)
  note one = goal_has_linked [OF assms(1,2)]
  show "(node_pub y, as_peer y) \<in> set (go_peers (node_goal E h t rules now rx x)) \<longleftrightarrow> linked E t rules now (rx, x) (ry, y)"
    by (rule one [OF y])
  show "(node_pub y, as_peer y) \<in> set (go_peers (node_goal E h t rules now rx x)) \<longleftrightarrow>
      (node_pub x, as_peer x) \<in> set (go_peers (node_goal E h t rules now ry y))"
    unfolding one [OF x] one [OF y] by (rule linked_sym) (simp_all add: assms(5,6))
  show "w \<in> set (vis_set (go_peers (node_goal E h t rules now rx x))) \<longleftrightarrow>
      (\<exists>rz z. (rz, z) \<in> set (tenant_nodes h t) \<and> linked E t rules now (rx, x) (rz, z) \<and> node_ip z = IP4 w)"
    by (rule vis_set_iff [OF assms(1,2)])
qed

text \<open>A tenant with two devices: the owner of a share open to everyone, and a guest in Mod B.\<close>

definition sample_node :: "string \<Rightarrow> string \<Rightarrow> u32 \<Rightarrow> node" where
  "sample_node client pub ip =
     \<lparr>n_rec = \<lparr>nr_node = ''nod_'' @ client, nr_tenant = ''t1'', nr_kind = KindDevice, nr_client = client, nr_name = client,
        nr_ip = IP4 ip, nr_wg_pub = pub, nr_created = 0, nr_last_seen = 0\<rparr>,
      n_sub = \<lparr>su_kind = KindDevice, su_client = client, su_user = [], su_role = [], su_tags = []\<rparr>,
      n_ob = Some 0, n_expires = None, n_vis = None, n_sent_full = True, n_sent_peer = [], n_sent_in = [], n_sent_out = [],
      n_sent_acl = None, n_sent_dns = None, n_tun = False, n_last_alog = None, n_relayed = 0, n_denied = 0,
      n_disco = [], n_punch = False, n_endpoints = [], n_ep_at = None, n_paths = [], n_punch_req_at = []\<rparr>"

definition sample_share :: share where
  "sample_share = \<lparr>sh_id = ''shr_1'', sh_tenant = ''t1'', sh_owner = ''nas'', sh_name = ''files'', sh_proto = ''tcp'', sh_port = 445,
     sh_grantees = [\<lparr>gr_type = ''group'', gr_id = ''everyone''\<rparr>], sh_expires = None, sh_created_by = [], sh_created_at = 0,
     sh_ephemeral = False\<rparr>"

definition sample_tenant :: tenant where
  "sample_tenant = \<lparr>tn_id = ''t1'', tn_alloc = new_alloc DefaultPool, tn_nodes = [(''nod_nas'', 0), (''nod_guest'', 1)],
     tn_by_ip = [(IP4 0x64400100, 0), (IP4 0x64400101, 1)], tn_by_client = [(''nas'', 0), (''guest'', 1)],
     tn_shares = [(''shr_1'', sample_share)], tn_rules = [], tn_slug = ''acme'', tn_epoch = 1\<rparr>"

definition sample_heap :: node_heap where
  "sample_heap = [(0, sample_node ''nas'' ''K1'' 0x64400100), (1, sample_node ''guest'' ''K2'' 0x64400101)]"

definition sample_env :: net_env where
  "sample_env = \<lparr>ev_matches = open_matches, ev_gate = (\<lambda>_ _ _. True), ev_extra_rules = (\<lambda>_ _. []), ev_enrich = (\<lambda>_ s. s),
     ev_mtu = 1380, ev_pool = DefaultPool, ev_punch = False, ev_stun = [], ev_stun_port = 0, ev_tun = True, ev_alog = True\<rparr>"

theorem peers_are_linked_witness:
  "let nas = sample_node ''nas'' ''K1'' 0x64400100; guest = sample_node ''guest'' ''K2'' 0x64400101 in
   (''K2'', as_peer guest) \<in> set (go_peers (node_goal sample_env sample_heap sample_tenant [] 0 0 nas))
   \<and> (''K1'', as_peer nas) \<in> set (go_peers (node_goal sample_env sample_heap sample_tenant [] 0 1 guest))"
proof -
  let ?nas = "sample_node ''nas'' ''K1'' 0x64400100" and ?guest = "sample_node ''guest'' ''K2'' 0x64400101"
  have ok: "tenant_ok sample_heap sample_tenant"
    by (auto simp: tenant_ok_def node_refs_def sample_heap_def sample_tenant_def sample_node_def split: if_splits)
  have nodes: "set (tenant_nodes sample_heap sample_tenant) = {(0, ?nas), (1, ?guest)}"
    by (simp add: tenant_nodes_def sample_heap_def sample_tenant_def List.map_filter_def)
  have pubs: "pubs_distinct sample_heap sample_tenant"
    unfolding pubs_distinct_def nodes by (simp add: sample_node_def)
  have l: "linked sample_env sample_tenant [] 0 (0, ?nas) (1, ?guest)"
    by (simp add: linked_def linked_by_share_def sample_tenant_def sample_share_def sample_env_def share_active_def may_use_def
        share_matches_def open_matches_def)
  have n: "(0, ?nas) \<in> set (tenant_nodes sample_heap sample_tenant)" "(1, ?guest) \<in> set (tenant_nodes sample_heap sample_tenant)"
    "n_ob ?nas \<noteq> None" "n_ob ?guest \<noteq> None" "node_pub ?nas = ''K1''" "node_pub ?guest = ''K2''"
    by (simp_all add: nodes) (simp_all add: sample_node_def)
  show ?thesis
    using peers_are_linked [OF ok pubs n(1-4), of sample_env "[]" 0 0] l unfolding Let_def n(5,6) by blast
qed

end
