(* ===== verification/Frame_Codec.thy ===== *)
theory Frame_Codec
  imports Netip
begin

text \<open>
  The binary frames of the tunnel connection (\<open>shared/protocol/frame.go\<close>) and the identifiers
  under which encrypted WireGuard packets travel (\<open>shared/protocol/wgnet.go\<close>). A frame is a
  14-byte header and a payload; the decoder accepts nine frame types and reads one flag bit.
\<close>

definition HeaderSize :: nat where "HeaderSize = 14"

definition FrameRequestBody :: byte where "FrameRequestBody = 1"
definition FrameResponseBody :: byte where "FrameResponseBody = 2"
definition FrameWSData :: byte where "FrameWSData = 3"
definition FrameStreamData :: byte where "FrameStreamData = 4"
definition FrameDatagram :: byte where "FrameDatagram = 5"
definition FrameScreen :: byte where "FrameScreen = 6"
definition FrameFile :: byte where "FrameFile = 7"
definition FrameWG :: byte where "FrameWG = 8"
definition FrameVideo :: byte where "FrameVideo = 9"

definition FlagEOF :: byte where "FlagEOF = 1"
definition FlagKeyframe :: byte where "FlagKeyframe = 2"
definition FlagFirst :: byte where "FlagFirst = 4"
definition FlagLayerShift :: nat where "FlagLayerShift = 3"
definition FlagLayerMask :: byte where "FlagLayerMask = push_bit 3 3"

lemmas frame_consts =
  HeaderSize_def FrameRequestBody_def FrameResponseBody_def FrameWSData_def FrameStreamData_def
  FrameDatagram_def FrameScreen_def FrameFile_def FrameWG_def FrameVideo_def

lemmas flag_consts =
  FlagEOF_def FlagKeyframe_def FlagFirst_def FlagLayerShift_def FlagLayerMask_def

datatype frame_error = ErrShortFrame nat | ErrUnknownFrame byte

record body_frame =
  bf_type :: byte
  bf_req :: u64
  bf_seq :: u32
  bf_eof :: bool
  bf_payload :: bytes

definition known_frame :: "byte \<Rightarrow> bool" where
  "known_frame ft \<longleftrightarrow>
     ft = FrameRequestBody \<or> ft = FrameResponseBody \<or> ft = FrameWSData \<or>
     ft = FrameStreamData \<or> ft = FrameDatagram \<or> ft = FrameScreen \<or>
     ft = FrameFile \<or> ft = FrameWG \<or> ft = FrameVideo"

definition encode_frame :: "body_frame \<Rightarrow> bytes" where
  "encode_frame f =
     bf_type f # be_put 8 (bf_req f) @ be_put 4 (bf_seq f)
     @ (if bf_eof f then 0 OR FlagEOF else 0) # bf_payload f"

definition decode_frame :: "bytes \<Rightarrow> frame_error + body_frame" where
  "decode_frame data =
     (if length data < HeaderSize then Inl (ErrShortFrame (length data))
      else let ft = data ! 0 in
        if \<not> known_frame ft then Inl (ErrUnknownFrame ft)
        else Inr \<lparr>bf_type = ft,
                  bf_req = be_get (slice 1 9 data),
                  bf_seq = be_get (slice 9 13 data),
                  bf_eof = (data ! 13 AND FlagEOF \<noteq> 0),
                  bf_payload = drop HeaderSize data\<rparr>)"

section \<open>The header layout\<close>

text \<open>What every reader of a frame header extracts from bytes laid out as a frame: shared by the
  body frames, the screen messages and the video messages.\<close>

definition header :: "byte \<Rightarrow> u64 \<Rightarrow> u32 \<Rightarrow> byte \<Rightarrow> bytes" where
  "header ft rid sq fl = ft # be_put 8 rid @ be_put 4 sq @ [fl]"

lemma header_length [wire_simps]: "length (header ft rid sq fl) = 14"
  by (simp add: header_def)

lemma header_nth0 [wire_simps]: "(header ft rid sq fl @ r) ! 0 = ft"
  by (simp add: header_def)

lemma header_req [wire_simps]: "slice 1 9 (header ft rid sq fl @ r) = be_put 8 rid"
  by (simp add: header_def slice_def)

lemma header_req' [wire_simps]: "slice (Suc 0) 9 (header ft rid sq fl @ r) = be_put 8 rid"
  using header_req by simp

lemma header_seq [wire_simps]: "slice 9 13 (header ft rid sq fl @ r) = be_put 4 sq"
  by (simp add: header_def slice_def)

lemma header_flags [wire_simps]: "(header ft rid sq fl @ r) ! 13 = fl"
  by (simp add: header_def nth_append)

lemma header_drop [wire_simps]: "drop 14 (header ft rid sq fl @ r) = r"
  by (simp add: header_def)

lemma encode_frame_header:
  "encode_frame f = header (bf_type f) (bf_req f) (bf_seq f) (if bf_eof f then FlagEOF else 0) @ bf_payload f"
  by (simp add: encode_frame_def header_def)

lemma encode_frame_length: "length (encode_frame f) = HeaderSize + length (bf_payload f)"
  by (simp add: encode_frame_header wire_simps HeaderSize_def)

text \<open>Any 14 bytes are a header.\<close>

lemma header_split:
  assumes "14 \<le> length data"
  shows "data = header (data ! 0) (be_get (slice 1 9 data)) (be_get (slice 9 13 data)) (data ! 13) @ drop 14 data"
proof -
  have "be_put 8 (be_get (slice 1 9 data) :: u64) = slice 1 9 data"
    using be_put_get [of "slice 1 9 data", where 'a = 64] assms by (simp add: slice_def)
  moreover have "be_put 4 (be_get (slice 9 13 data) :: u32) = slice 9 13 data"
    using be_put_get [of "slice 9 13 data", where 'a = 32] assms by (simp add: slice_def)
  moreover have "data = data ! 0 # slice 1 9 data @ slice 9 13 data @ [data ! 13] @ drop 14 data"
  proof (rule nth_equalityI)
    show "length data = length (data ! 0 # slice 1 9 data @ slice 9 13 data @ [data ! 13] @ drop 14 data)"
      using assms by (simp add: slice_def)
    show "data ! i = (data ! 0 # slice 1 9 data @ slice 9 13 data @ [data ! 13] @ drop 14 data) ! i"
      if "i < length data" for i
    proof -
      have "i = 0 \<or> 1 \<le> i \<and> i < 9 \<or> 9 \<le> i \<and> i < 13 \<or> i = 13 \<or> 14 \<le> i" by linarith
      then show ?thesis
        using assms that by (auto simp: slice_def nth_append nth_Cons')
    qed
  qed
  ultimately show ?thesis by (simp add: header_def)
qed

section \<open>Frames\<close>

lemma eof_bit: "(if b then FlagEOF else 0) AND FlagEOF \<noteq> 0 \<longleftrightarrow> b"
  by (simp add: FlagEOF_def)

lemma decode_encode_frame: "known_frame (bf_type f) \<Longrightarrow> decode_frame (encode_frame f) = Inr f"
  by (cases f) (simp add: decode_frame_def encode_frame_header wire_simps HeaderSize_def eof_bit)

interpretation frame: codec encode_frame decode_frame "\<lambda>f. known_frame (bf_type f)"
  by unfold_locales (rule decode_encode_frame)

lemma decode_frame_InrE:
  assumes "decode_frame data = Inr f"
  obtains "14 \<le> length data" and "known_frame (data ! 0)" and "bf_type f = data ! 0"
    and "bf_req f = be_get (slice 1 9 data)" and "bf_seq f = be_get (slice 9 13 data)"
    and "bf_eof f = (data ! 13 AND FlagEOF \<noteq> 0)" and "bf_payload f = drop 14 data"
  using assms by (auto simp: decode_frame_def Let_def HeaderSize_def split: if_splits)

text \<open>C7: a frame the agent or the server encodes is decoded to the same frame, for every frame
  type the protocol knows, and two different frames never share an encoding.\<close>

theorem frame_roundtrip:
  assumes "known_frame (bf_type f)" and "known_frame (bf_type g)"
  shows "decode_frame (encode_frame f) = Inr f \<and> (encode_frame f = encode_frame g \<longrightarrow> f = g)"
  using frame.enc_inj [OF assms] frame.dec_enc [OF assms(1)] by simp

definition sample_frame :: body_frame where
  "sample_frame = \<lparr>bf_type = 2, bf_req = 7, bf_seq = 3, bf_eof = True, bf_payload = [1, 2, 3]\<rparr>"

theorem frame_roundtrip_witness:
  "decode_frame (encode_frame sample_frame) = Inr sample_frame"
  using frame_roundtrip [of sample_frame sample_frame]
  by (simp add: sample_frame_def known_frame_def frame_consts)

lemma decode_frame_accepts:
  "(\<exists>f. decode_frame data = Inr f) \<longleftrightarrow> HeaderSize \<le> length data \<and> known_frame (data ! 0)"
  by (auto simp: decode_frame_def Let_def)

lemma decode_frame_reencode:
  assumes dec: "decode_frame data = Inr f"
  shows "encode_frame f = data[13 := data ! 13 AND FlagEOF]"
proof -
  have low: "(if w AND FlagEOF \<noteq> 0 then FlagEOF else 0) = w AND FlagEOF" for w
    by (cases "odd w") (simp_all add: FlagEOF_def and_one_eq odd_iff_mod_2_eq_one)
  from dec show "encode_frame f = data[13 := data ! 13 AND FlagEOF]"
  proof (rule decode_frame_InrE)
    assume len: "14 \<le> length data" and fields: "bf_type f = data ! 0"
      "bf_req f = be_get (slice 1 9 data)" "bf_seq f = be_get (slice 9 13 data)"
      "bf_eof f = (data ! 13 AND FlagEOF \<noteq> 0)" "bf_payload f = drop 14 data"
    let ?h = "header (data ! 0) (be_get (slice 1 9 data)) (be_get (slice 9 13 data))"
    have "data[13 := v] = ?h v @ drop 14 data" for v
    proof -
      have "(?h w @ r)[13 := v] = ?h v @ r" for w r
        by (simp add: header_def list_update_append)
      then show ?thesis using header_split [OF len] by metis
    qed
    then show ?thesis using fields low by (simp add: encode_frame_header)
  qed
qed

text \<open>The decoder accepts exactly the byte strings of at least 14 bytes whose first byte is a
  known frame type, and what it returns re-encodes to the same bytes except for the seven flag
  bits it ignores.\<close>

lemma decode_frame_complete:
  "((\<exists>f. decode_frame data = Inr f) \<longleftrightarrow> HeaderSize \<le> length data \<and> known_frame (data ! 0)) \<and>
   (\<forall>f. decode_frame data = Inr f \<longrightarrow> encode_frame f = data[13 := data ! 13 AND FlagEOF])"
  by (simp add: decode_frame_accepts decode_frame_reencode)

theorem decode_frame_complete_witness:
  "encode_frame (sample_frame\<lparr>bf_payload := [9]\<rparr>) =
   (encode_frame (sample_frame\<lparr>bf_payload := [9]\<rparr>))[13 := 0x2f AND FlagEOF]"
proof -
  let ?d = "(encode_frame (sample_frame\<lparr>bf_payload := [9]\<rparr>))[13 := 0x2f]"
  have "decode_frame ?d = Inr (sample_frame\<lparr>bf_payload := [9]\<rparr>)"
    by code_simp
  with decode_frame_complete [of ?d]
  have "encode_frame (sample_frame\<lparr>bf_payload := [9]\<rparr>) = ?d[13 := ?d ! 13 AND FlagEOF]" by blast
  then show ?thesis by (simp add: encode_frame_length HeaderSize_def)
qed

section \<open>Relay identifiers\<close>

text \<open>\<open>IPToRelayID\<close> and \<open>RelayIDToIP\<close>: the IPv4 address of the peer as the frame's request id.\<close>

definition ip_to_relay_id :: "addr \<Rightarrow> u64" where
  "ip_to_relay_id a = (if \<not> is4 a then 0 else ucast (be_get (be_put 4 (as4 a)) :: u32))"

definition relay_id_to_ip :: "u64 \<Rightarrow> addr" where
  "relay_id_to_ip rid = IP4 (be_get (be_put 4 (ucast rid :: u32)))"

lemma ucast_u64_u32: "ucast (ucast (x :: u32) :: u64) = x"
  by (rule bit_word_eqI) (auto simp: bit_simps)

lemma relay_id_inverse: "is4 a \<Longrightarrow> relay_id_to_ip (ip_to_relay_id a) = a"
  by (cases a) (simp_all add: relay_id_to_ip_def ip_to_relay_id_def ucast_u64_u32)

lemma relay_id_low_bits: "relay_id_to_ip rid = IP4 (ucast rid)"
  by (simp add: relay_id_to_ip_def)

end
