(* ===== verification/Net_Manager.thy ===== *)
theory Net_Manager
  imports Net_Visibility Frame_Codec
begin

text \<open>
  The network manager: the operations of \<open>server/netctl/manager.go\<close> and \<open>tun.go\<close> on the state of all
  tenants. A method under \<open>m.mu\<close> is one step. The store is a set of replies: what it holds when a
  tenant is loaded, and whether each write succeeds. Random identifiers, the clock and the verdict of
  the bandwidth limiter are arguments. Audit records and the \<open>Prepare\<close> hook have no effect here.
\<close>

section \<open>State\<close>

record registered =
  rd_node :: string
  rd_ip :: string
  rd_name :: string
  rd_mtu :: int
  rd_kind :: string
  rd_punch :: bool
  rd_stun :: "string list"
  rd_stun_port :: int
  rd_tun :: bool
  rd_pool :: string
  rd_alog :: bool

text \<open>\<open>NetPunch\<close>: probe the peer now, at these addresses.\<close>

record punch_msg =
  pn_pub :: string
  pn_disco :: string
  pn_endpoints :: "string list"
  pn_nonce :: string

datatype ctrl_msg =
    CRegistered registered
  | CNetMap net_map
  | CPunch punch_msg
  | CNetError net_err
  | CShareResult string "net_err + string"

text \<open>\<open>mg_last\<close> has no counterpart in the code and no operation reads it: it records, for each tenant, what
  its last recomputation started from, so that theorems can speak of it.\<close>

record snapshot =
  sn_env :: net_env
  sn_now :: time
  sn_heap :: node_heap
  sn_tenant :: tenant

record manager =
  mg_tenants :: "(string, tenant) gomap"
  mg_pubs :: "(string, string) gomap"
  mg_heap :: node_heap
  mg_obs :: "(ob_ref, ctrl_msg outbox) gomap"
  mg_last :: "(string, snapshot) gomap"

definition new_manager :: manager where
  "new_manager = \<lparr>mg_tenants = [], mg_pubs = [], mg_heap = [], mg_obs = [], mg_last = []\<rparr>"

record identity =
  id_tenant :: string
  id_kind :: string
  id_client :: string
  id_client_name :: string
  id_user :: string
  id_role :: string
  id_punch :: bool
  id_tun :: bool
  id_alog :: bool

record conn =
  cn_id :: identity
  cn_ob :: ob_ref
  cn_node :: "node_ref option"
  cn_seq :: u32

record loaded =
  ld_network :: "prefix option"
  ld_rules :: "tun_rule list"
  ld_nodes :: "node_rec list"
  ld_shares :: "net_err + share list"

text \<open>\<open>so_load\<close>: what the store returns for a tenant (\<open>Inl\<close> when one of the first reads fails; the
  shares are read last and may fail on their own); the other fields are the errors of the writes.\<close>

record store =
  so_load :: "string \<Rightarrow> net_err + loaded"
  so_put_node :: "net_err option"
  so_put_share :: "net_err option"
  so_delete_share :: "net_err option"
  so_put_rule :: "net_err option"
  so_delete_rule :: "net_err option"
  so_put_network :: "net_err option"

definition Hour :: duration where "Hour = 3600 * Second"
definition SessionNodeTTL :: duration where "SessionNodeTTL = 12 * Hour"

section \<open>Nodes, tenants and outboxes\<close>

definition set_tenant :: "tenant \<Rightarrow> manager \<Rightarrow> manager" where
  "set_tenant t m = m\<lparr>mg_tenants := gm_put (tn_id t) t (mg_tenants m)\<rparr>"

definition set_node :: "node_ref \<Rightarrow> node \<Rightarrow> manager \<Rightarrow> manager" where
  "set_node r n m = m\<lparr>mg_heap := gm_put r n (mg_heap m)\<rparr>"

definition close_ob :: "ob_ref \<Rightarrow> manager \<Rightarrow> manager" where
  "close_ob q m =
     (case map_of (mg_obs m) q of None \<Rightarrow> m | Some b \<Rightarrow> m\<lparr>mg_obs := gm_put q (ob_close b) (mg_obs m)\<rparr>)"

definition close_opt :: "ob_ref option \<Rightarrow> manager \<Rightarrow> manager" where
  "close_opt q m = (case q of None \<Rightarrow> m | Some q \<Rightarrow> close_ob q m)"

definition send_ctrl :: "ob_ref \<Rightarrow> ctrl_msg \<Rightarrow> manager \<Rightarrow> bool \<times> manager" where
  "send_ctrl q msg m =
     (case map_of (mg_obs m) q of
        None \<Rightarrow> (False, m)
      | Some b \<Rightarrow> (case ob_send_ctrl msg b of (ok, b') \<Rightarrow> (ok, m\<lparr>mg_obs := gm_put q b' (mg_obs m)\<rparr>)))"

definition new_node :: "node_rec \<Rightarrow> subject \<Rightarrow> time option \<Rightarrow> node" where
  "new_node rec sub ex =
     \<lparr>n_rec = rec, n_sub = sub, n_ob = None, n_expires = ex, n_vis = None, n_sent_full = False, n_sent_peer = [],
      n_sent_in = [], n_sent_out = [], n_sent_acl = None, n_sent_dns = None, n_tun = False, n_last_alog = None,
      n_relayed = 0, n_denied = 0, n_disco = [], n_punch = False, n_endpoints = [], n_ep_at = None, n_paths = [], n_punch_req_at = []\<rparr>"

definition device_subject :: "string \<Rightarrow> subject" where
  "device_subject c = \<lparr>su_kind = KindDevice, su_client = c, su_user = [], su_role = [], su_tags = []\<rparr>"

text \<open>A new node gets the next free reference of the heap.\<close>

definition new_ref :: "manager \<Rightarrow> node_ref" where
  "new_ref m = length (mg_heap m)"

text \<open>The tables of a tenant with one more node; \<open>dev\<close>: also the table of devices.\<close>

definition with_node :: "bool \<Rightarrow> node_ref \<Rightarrow> node \<Rightarrow> tenant \<Rightarrow> tenant" where
  "with_node dev r n t =
     t\<lparr>tn_nodes := gm_put (nr_node (n_rec n)) r (tn_nodes t), tn_by_ip := gm_put (node_ip n) r (tn_by_ip t),
       tn_by_client := (if dev then gm_put (nr_client (n_rec n)) r (tn_by_client t) else tn_by_client t)\<rparr>"

definition load_device :: "node_rec \<Rightarrow> tenant \<times> manager \<Rightarrow> tenant \<times> manager" where
  "load_device rec tm =
     (case tm of (t, m) \<Rightarrow>
        if nr_kind rec \<noteq> KindDevice \<or> \<not> pool_contains (tn_alloc t) (nr_ip rec) then (t, m)
        else
          let r = new_ref m;
              n = new_node rec (device_subject (nr_client rec)) None in
          (with_node True r n t, (set_node r n m)\<lparr>mg_pubs := gm_put (nr_wg_pub rec) (tn_id t) (mg_pubs m)\<rparr>))"

definition empty_tenant :: "string \<Rightarrow> prefix \<Rightarrow> tenant" where
  "empty_tenant tid pool =
     \<lparr>tn_id = tid, tn_alloc = new_alloc pool, tn_nodes = [], tn_by_ip = [], tn_by_client = [], tn_shares = [], tn_rules = [],
      tn_slug = [], tn_epoch = 0\<rparr>"

definition table_of :: "('v \<Rightarrow> string) \<Rightarrow> 'v list \<Rightarrow> (string, 'v) gomap" where
  "table_of key vs = fold (\<lambda>v. gm_put (key v) v) vs []"

text \<open>\<open>tenantLocked\<close>: the tenant in memory, or loaded from the store.\<close>

definition tenant_locked :: "net_env \<Rightarrow> store \<Rightarrow> string \<Rightarrow> manager \<Rightarrow> (net_err + tenant) \<times> manager" where
  "tenant_locked E sto tid m =
     (case map_of (mg_tenants m) tid of
        Some t \<Rightarrow> (Inr t, m)
      | None \<Rightarrow>
          (case so_load sto tid of
             Inl e \<Rightarrow> (Inl e, m)
           | Inr l \<Rightarrow>
               let pool = (case ld_network l of Some p \<Rightarrow> if validate_network_cidr p then p else ev_pool E | None \<Rightarrow> ev_pool E);
                   t0 = (empty_tenant tid pool)\<lparr>tn_rules := table_of tr_id (ld_rules l)\<rparr> in
               case fold load_device (ld_nodes l) (t0, m) of (t1, m1) \<Rightarrow>
                 (case ld_shares l of
                    Inl e \<Rightarrow> (Inl e, m1)
                  | Inr shares \<Rightarrow>
                      let t = t1\<lparr>tn_shares := table_of sh_id shares\<rparr> in (Inr t, set_tenant t m1))))"

section \<open>Recomputing the maps\<close>

definition push_map :: "net_env \<Rightarrow> tun_rule list \<Rightarrow> time \<Rightarrow> string \<Rightarrow> node_ref \<Rightarrow> manager \<Rightarrow> manager" where
  "push_map E rules now tid r m =
     (case (map_of (mg_tenants m) tid, map_of (mg_heap m) r) of
        (Some t, Some x) \<Rightarrow>
          (case n_ob x of
             None \<Rightarrow> m
           | Some q \<Rightarrow>
               let g = node_goal E (mg_heap m) t rules now r x in
               case fst (node_push E t g False x) of
                 None \<Rightarrow> set_node r (snd (node_push E t g False x)) m
               | Some nm \<Rightarrow>
                   (case send_ctrl q (CNetMap nm) m of
                      (ok, m1) \<Rightarrow> set_node r (snd (node_push E t g ok x)) m1))
      | _ \<Rightarrow> m)"

text \<open>\<open>recomputeLocked\<close>.\<close>

definition recompute :: "net_env \<Rightarrow> time \<Rightarrow> string \<Rightarrow> manager \<Rightarrow> manager" where
  "recompute E now tid m =
     (case map_of (mg_tenants m) tid of
        None \<Rightarrow> m
      | Some t \<Rightarrow>
          let t1 = t\<lparr>tn_epoch := tn_epoch t + 1\<rparr>; m1 = set_tenant t1 m in
          fold (push_map E (tun_rules E (mg_heap m) t1) now tid) (map snd (tn_nodes t1))
            (m1\<lparr>mg_last := gm_put tid \<lparr>sn_env = E, sn_now = now, sn_heap = mg_heap m, sn_tenant = t1\<rparr> (mg_last m)\<rparr>))"

section \<open>Registration\<close>

record register_msg =
  rm_pub :: string
  rm_name :: string
  rm_disco :: string

text \<open>\<open>validKey32\<close>: the canonical base64 text of 32 bytes: 43 digits, of which the last has two zero bits,
  and one padding character.\<close>

definition b64_val :: "char \<Rightarrow> nat option" where
  "b64_val c =
     (let n = code_of c in
      if 65 \<le> n \<and> n \<le> 90 then Some (n - 65)
      else if 97 \<le> n \<and> n \<le> 122 then Some (n - 71)
      else if 48 \<le> n \<and> n \<le> 57 then Some (n + 4)
      else if c = CHR ''+'' then Some 62
      else if c = CHR ''/'' then Some 63
      else None)"

definition valid_key32 :: "string \<Rightarrow> bool" where
  "valid_key32 s \<longleftrightarrow> length s = 44 \<and> list_all (\<lambda>c. b64_val c \<noteq> None) (take 43 s) \<and> s ! 43 = CHR ''=''
     \<and> (case b64_val (s ! 42) of Some v \<Rightarrow> v mod 4 = 0 | None \<Rightarrow> False)"

definition node_names :: "node_heap \<Rightarrow> tenant \<Rightarrow> string list" where
  "node_names h t = map (\<lambda>(r, n). nr_name (n_rec n)) (tenant_nodes h t)"

definition pick_name :: "node_heap \<Rightarrow> tenant \<Rightarrow> string \<Rightarrow> string" where
  "pick_name h t base = (case unique_name (node_names h t) base of Some s \<Rightarrow> s | None \<Rightarrow> base)"

definition ip_used :: "tenant \<Rightarrow> addr \<Rightarrow> bool" where
  "ip_used t a \<longleftrightarrow> map_of (tn_by_ip t) a \<noteq> None"

definition key_conflict :: "conn \<Rightarrow> string \<Rightarrow> tenant \<Rightarrow> manager \<Rightarrow> bool" where
  "key_conflict c pub t m =
     (case map_of (mg_pubs m) pub of
        None \<Rightarrow> False
      | Some own \<Rightarrow>
          own \<noteq> id_tenant (cn_id c) \<or> id_kind (cn_id c) \<noteq> KindDevice
          \<or> (case map_of (tn_by_client t) (id_client (cn_id c)) of
               None \<Rightarrow> True
             | Some r \<Rightarrow> (case map_of (mg_heap m) r of None \<Rightarrow> True | Some n \<Rightarrow> node_pub n \<noteq> pub)))"

text \<open>A new node, with the allocator that gave its address.\<close>

definition add_node :: "bool \<Rightarrow> ip_alloc \<Rightarrow> node \<Rightarrow> tenant \<Rightarrow> manager \<Rightarrow> node_ref \<times> manager" where
  "add_node dev a n t m =
     (let r = new_ref m in
      (r, (set_tenant ((with_node dev r n t)\<lparr>tn_alloc := a\<rparr>) (set_node r n m))\<lparr>mg_pubs := gm_put (node_pub n) (tn_id t) (mg_pubs m)\<rparr>))"

text \<open>A device that is known changes its key, and its old connection is closed.\<close>

definition rekey :: "ob_ref \<Rightarrow> string \<Rightarrow> string \<Rightarrow> node_ref \<Rightarrow> node \<Rightarrow> manager \<Rightarrow> manager" where
  "rekey q tid pub r n m =
     (let m1 = (if n_ob n \<noteq> None \<and> n_ob n \<noteq> Some q then close_opt (n_ob n) m else m) in
      if node_pub n = pub then m1
      else (set_node r (n\<lparr>n_rec := (n_rec n)\<lparr>nr_wg_pub := pub\<rparr>\<rparr>) m1)
             \<lparr>mg_pubs := gm_put pub tid (gm_del (node_pub n) (mg_pubs m1))\<rparr>)"

text \<open>The node of a device: the known one or a new one, then written to the store.\<close>

definition register_device :: "store \<Rightarrow> time \<Rightarrow> string \<Rightarrow> string \<Rightarrow> conn \<Rightarrow> tenant \<Rightarrow> manager \<Rightarrow> (net_err + node_ref) \<times> manager" where
  "register_device sto now rnd pub c t m =
     (let client = id_client (cn_id c);
          stored = (\<lambda>r m1. case map_of (mg_heap m1) r of
              None \<Rightarrow> (Inr r, m1)
            | Some n \<Rightarrow>
                let m2 = set_node r (n\<lparr>n_rec := (n_rec n)\<lparr>nr_last_seen := now\<rparr>, n_sub := device_subject client\<rparr>) m1 in
                (case so_put_node sto of Some e \<Rightarrow> (Inl e, m2) | None \<Rightarrow> (Inr r, m2))) in
      if client = [] then (Inl (ErrInvalid ''no_client''), m)
      else case map_of (tn_by_client t) client of
          Some r \<Rightarrow>
            (case map_of (mg_heap m) r of
               None \<Rightarrow> (Inr r, m)
             | Some n \<Rightarrow> stored r (rekey (cn_ob c) (tn_id t) pub r n m))
        | None \<Rightarrow>
            (case ip_allocate (ip_used t) (tn_alloc t) of
               None \<Rightarrow> (Inl (ErrConflict ''pool_exhausted''), m)
             | Some (ip, a) \<Rightarrow>
                 let rec = \<lparr>nr_node = ''nod_'' @ rnd, nr_tenant = tn_id t, nr_kind = KindDevice, nr_client = client,
                            nr_name = pick_name (mg_heap m) t (sanitize_name (id_client_name (cn_id c)) ''device''),
                            nr_ip = ip, nr_wg_pub = pub, nr_created = now, nr_last_seen = 0\<rparr> in
                 case add_node True a (new_node rec (device_subject client) None) t m of
                   (r, m1) \<Rightarrow> stored r m1))"

definition register_session ::
  "time \<Rightarrow> string \<Rightarrow> string \<Rightarrow> register_msg \<Rightarrow> conn \<Rightarrow> tenant \<Rightarrow> manager \<Rightarrow> (net_err + node_ref) \<times> manager" where
  "register_session now rnd rnd2 reg c t m =
     (case ip_allocate (ip_used t) (tn_alloc t) of
        None \<Rightarrow> (Inl (ErrConflict ''pool_exhausted''), m)
      | Some (ip, a) \<Rightarrow>
          let rec = \<lparr>nr_node = ''nod_'' @ rnd, nr_tenant = tn_id t, nr_kind = KindSession, nr_client = [],
                     nr_name = pick_name (mg_heap m) t (sanitize_name (rm_name reg) ''s'' @ ''-'' @ rnd2),
                     nr_ip = ip, nr_wg_pub = rm_pub reg, nr_created = now, nr_last_seen = now\<rparr>;
              sub = \<lparr>su_kind = KindSession, su_client = [], su_user = id_user (cn_id c), su_role = id_role (cn_id c), su_tags = []\<rparr> in
          case add_node False a (new_node rec sub (Some (now + SessionNodeTTL))) t m of (r, m1) \<Rightarrow> (Inr r, m1))"

definition registered_msg :: "net_env \<Rightarrow> identity \<Rightarrow> tenant \<Rightarrow> node \<Rightarrow> registered" where
  "registered_msg E i t n =
     (let tun = (ev_tun E \<and> id_tun i \<and> nr_kind (n_rec n) = KindDevice) in
      \<lparr>rd_node = nr_node (n_rec n), rd_ip = addr_string (node_ip n), rd_name = nr_name (n_rec n), rd_mtu = ev_mtu E,
       rd_kind = nr_kind (n_rec n), rd_punch = n_punch n, rd_stun = (if n_punch n then ev_stun E else []),
       rd_stun_port = (if n_punch n then ev_stun_port E else 0), rd_tun = tun,
       rd_pool = (if tun then prefix_string (ia_pool (tn_alloc t)) else []), rd_alog = (tun \<and> ev_alog E \<and> id_alog i)\<rparr>)"

text \<open>The node starts a new session on the connection.\<close>

definition attach_node :: "net_env \<Rightarrow> register_msg \<Rightarrow> conn \<Rightarrow> node \<Rightarrow> node" where
  "attach_node E reg c n =
     (let p = (ev_punch E \<and> id_punch (cn_id c) \<and> valid_key32 (rm_disco reg)) in
      n\<lparr>n_sub := ev_enrich E (id_tenant (cn_id c)) (n_sub n), n_ob := Some (cn_ob c), n_sent_full := False,
        n_disco := (if p then rm_disco reg else []), n_punch := p, n_endpoints := [], n_paths := [], n_punch_req_at := [], n_tun := False, n_sent_acl := None, n_sent_dns := None,
        n_last_alog := None\<rparr>)"

text \<open>The switch over the kind of the connection.\<close>

definition choose_node ::
  "store \<Rightarrow> time \<Rightarrow> string \<Rightarrow> string \<Rightarrow> register_msg \<Rightarrow> conn \<Rightarrow> tenant \<Rightarrow> manager \<Rightarrow> (net_err + node_ref) \<times> manager" where
  "choose_node sto now rnd rnd2 reg c t m =
     (if id_kind (cn_id c) = KindDevice then register_device sto now rnd (rm_pub reg) c t m
      else if id_kind (cn_id c) = KindSession then register_session now rnd rnd2 reg c t m
      else (Inl (ErrInvalid ''bad_kind''), m))"

text \<open>The node is attached and the answer is put into the outbox.\<close>

definition greeted :: "net_env \<Rightarrow> register_msg \<Rightarrow> conn \<Rightarrow> node_ref \<Rightarrow> node \<Rightarrow> tenant \<Rightarrow> manager \<Rightarrow> manager" where
  "greeted E reg c r n t m =
     (let n1 = attach_node E reg c n in
      snd (send_ctrl (cn_ob c) (CRegistered (registered_msg E (cn_id c) t n1)) (set_node r n1 m)))"

definition register ::
  "net_env \<Rightarrow> store \<Rightarrow> time \<Rightarrow> string \<Rightarrow> string \<Rightarrow> register_msg \<Rightarrow> conn \<Rightarrow> manager \<Rightarrow> net_err option \<times> conn \<times> manager" where
  "register E sto now rnd rnd2 reg c m =
     (if \<not> valid_key32 (rm_pub reg) then (Some (ErrInvalid ''invalid_key''), c, m)
      else case tenant_locked E sto (id_tenant (cn_id c)) m of
          (Inl e, m1) \<Rightarrow> (Some e, c, m1)
        | (Inr t, m1) \<Rightarrow>
            if key_conflict c (rm_pub reg) t m1 then (Some (ErrConflict ''key_in_use''), c, m1)
            else
              (case choose_node sto now rnd rnd2 reg c t m1 of
                 (Inl e, m2) \<Rightarrow> (Some e, c, m2)
               | (Inr r, m2) \<Rightarrow>
                   (case (map_of (mg_heap m2) r, map_of (mg_tenants m2) (tn_id t)) of
                      (Some n, Some t2) \<Rightarrow>
                        (None, c\<lparr>cn_node := Some r\<rparr>, recompute E now (tn_id t) (greeted E reg c r n t2 m2))
                    | _ \<Rightarrow> (None, c, m2))))"

section \<open>Removal and the end of a connection\<close>

definition remove_node :: "tenant \<Rightarrow> node_ref \<Rightarrow> manager \<Rightarrow> manager" where
  "remove_node t r m =
     (case map_of (mg_heap m) r of
        None \<Rightarrow> m
      | Some n \<Rightarrow>
          let t' = t\<lparr>tn_nodes := gm_del (nr_node (n_rec n)) (tn_nodes t), tn_by_ip := gm_del (node_ip n) (tn_by_ip t),
                     tn_by_client := (if nr_kind (n_rec n) = KindDevice then gm_del (nr_client (n_rec n)) (tn_by_client t)
                       else tn_by_client t)\<rparr> in
          close_opt (n_ob n) ((set_tenant t' m)\<lparr>mg_pubs := gm_del (node_pub n) (mg_pubs m)\<rparr>))"

definition drop_ephemeral :: "string \<Rightarrow> tenant \<Rightarrow> tenant" where
  "drop_ephemeral client t = t\<lparr>tn_shares := filter (\<lambda>(k, s). \<not> (sh_ephemeral s \<and> sh_owner s = client)) (tn_shares t)\<rparr>"

definition close_conn :: "net_env \<Rightarrow> time \<Rightarrow> conn \<Rightarrow> manager \<Rightarrow> manager" where
  "close_conn E now c m0 =
     (let m = close_ob (cn_ob c) m0; tid = id_tenant (cn_id c) in
      case cn_node c of
        None \<Rightarrow> m
      | Some r \<Rightarrow>
          (case (map_of (mg_tenants m) tid, map_of (mg_heap m) r) of
             (Some t, Some n) \<Rightarrow>
               if n_ob n \<noteq> Some (cn_ob c) then m
               else
                 let m1 = set_node r (n\<lparr>n_ob := None, n_tun := False, n_vis := None, n_endpoints := [], n_paths := []\<rparr>) m;
                     m2 = (if nr_kind (n_rec n) = KindSession then remove_node t r m1
                           else if nr_kind (n_rec n) = KindDevice then set_tenant (drop_ephemeral (nr_client (n_rec n)) t) m1
                           else m1) in
                 recompute E now tid m2
           | _ \<Rightarrow> m))"

section \<open>Relay\<close>

definition relay_frame :: "node \<Rightarrow> u32 \<Rightarrow> bytes \<Rightarrow> body_frame" where
  "relay_frame n sq p = \<lparr>bf_type = FrameWG, bf_req = ip_to_relay_id (node_ip n), bf_seq = sq, bf_eof = False, bf_payload = p\<rparr>"

definition count_denied :: "node_ref \<Rightarrow> node \<Rightarrow> manager \<Rightarrow> manager" where
  "count_denied r n m = set_node r (n\<lparr>n_denied := n_denied n + 1\<rparr>) m"

text \<open>\<open>Relay\<close>; \<open>allow\<close> is the verdict of the tenant's bandwidth limiter. The first component is the outbox
  the frame was put into and the frame.\<close>

definition relay :: "bool \<Rightarrow> u64 \<Rightarrow> bytes \<Rightarrow> conn \<Rightarrow> manager \<Rightarrow> (ob_ref \<times> bytes) option \<times> conn \<times> manager" where
  "relay allow dst p c m =
     (case cn_node c of
        None \<Rightarrow> (None, c, m)
      | Some r \<Rightarrow>
          (case map_of (mg_heap m) r of
             None \<Rightarrow> (None, c, m)
           | Some n \<Rightarrow>
               if p = [] then (None, c, m)
               else if (case n_vis n of None \<Rightarrow> True | Some v \<Rightarrow> (ucast dst :: u32) \<notin> set v) then (None, c, count_denied r n m)
               else
                 (case map_of (mg_tenants m) (id_tenant (cn_id c)) of
                    None \<Rightarrow> (None, c, m)
                  | Some t \<Rightarrow>
                      (case map_of (tn_by_ip t) (relay_id_to_ip dst) of
                         None \<Rightarrow> (None, c, m)
                       | Some d \<Rightarrow>
                           (case Option.bind (map_of (mg_heap m) d) n_ob of
                              None \<Rightarrow> (None, c, m)
                            | Some q \<Rightarrow>
                                if \<not> allow then (None, c, count_denied r n m)
                                else
                                  let sq = cn_seq c + 1; b = encode_frame (relay_frame n sq p); c' = c\<lparr>cn_seq := sq\<rparr> in
                                  (case map_of (mg_obs m) q of
                                     None \<Rightarrow> (None, c', m)
                                   | Some ob \<Rightarrow>
                                       (case ob_send_data b ob of
                                          (ok, ob') \<Rightarrow>
                                            let m1 = m\<lparr>mg_obs := gm_put q ob' (mg_obs m)\<rparr> in
                                            if ok then (Some (q, b), c', set_node r (n\<lparr>n_relayed := n_relayed n + int (length p)\<rparr>) m1)
                                            else (None, c', m1))))))))"

section \<open>Mode, resynchronisation, revocation, sweep\<close>

text \<open>\<open>handleMode\<close>; \<open>slug\<close> is the short name the directory returns, already sanitized.\<close>

definition handle_mode :: "net_env \<Rightarrow> time \<Rightarrow> string \<Rightarrow> bool \<Rightarrow> conn \<Rightarrow> manager \<Rightarrow> manager" where
  "handle_mode E now slug tun c m =
     (case cn_node c of
        None \<Rightarrow> m
      | Some r \<Rightarrow>
          (case (map_of (mg_heap m) r, map_of (mg_tenants m) (id_tenant (cn_id c))) of
             (Some n, Some t) \<Rightarrow>
               if \<not> id_tun (cn_id c) \<or> nr_kind (n_rec n) \<noteq> KindDevice \<or> n_ob n \<noteq> Some (cn_ob c) \<or> n_tun n = tun then m
               else
                 let m1 = set_node r (n\<lparr>n_tun := tun\<rparr>) m;
                     m2 = (if tun \<and> tn_slug t = [] then set_tenant (t\<lparr>tn_slug := slug\<rparr>) m1 else m1) in
                 recompute E now (tn_id t) m2
           | _ \<Rightarrow> m))"

definition handle_resync :: "net_env \<Rightarrow> time \<Rightarrow> conn \<Rightarrow> manager \<Rightarrow> manager" where
  "handle_resync E now c m =
     (case cn_node c of
        None \<Rightarrow> m
      | Some r \<Rightarrow>
          (case map_of (mg_heap m) r of
             None \<Rightarrow> m
           | Some n \<Rightarrow> recompute E now (id_tenant (cn_id c)) (set_node r (n\<lparr>n_sent_full := False\<rparr>) m)))"

definition revoke_node :: "net_env \<Rightarrow> store \<Rightarrow> time \<Rightarrow> string \<Rightarrow> string \<Rightarrow> manager \<Rightarrow> net_err option \<times> manager" where
  "revoke_node E sto now tid nid m =
     (case tenant_locked E sto tid m of
        (Inl e, m1) \<Rightarrow> (Some e, m1)
      | (Inr t, m1) \<Rightarrow>
          (case map_of (tn_nodes t) nid of
             None \<Rightarrow> (Some (ErrNotFound ''node_not_found''), m1)
           | Some r \<Rightarrow> (None, recompute E now tid (remove_node t r m1))))"

definition drop_expired :: "time \<Rightarrow> tenant \<Rightarrow> tenant" where
  "drop_expired now t = t\<lparr>tn_shares := filter (\<lambda>(k, s). share_active now s) (tn_shares t)\<rparr>"

datatype session_fate = KeepSession | NewRole string | DropSession

text \<open>What \<open>Sweep\<close> does with a session node: its lifetime, then (when roles are checked) its user's role.\<close>

definition session_fate :: "time \<Rightarrow> bool \<Rightarrow> directory option \<Rightarrow> node \<Rightarrow> session_fate" where
  "session_fate now roles dir n =
     (if (case n_expires n of None \<Rightarrow> False | Some e \<Rightarrow> e < now) then DropSession
      else if \<not> roles \<or> su_user (n_sub n) = [] then KeepSession
      else case dir of
          None \<Rightarrow> KeepSession
        | Some d \<Rightarrow>
            (case di_user_role d (su_user (n_sub n)) of
               Inl e \<Rightarrow> KeepSession
             | Inr role \<Rightarrow>
                 if role = [] then DropSession
                 else if role \<noteq> su_role (n_sub n) then NewRole role
                 else KeepSession))"

definition sweep_node :: "time \<Rightarrow> bool \<Rightarrow> directory option \<Rightarrow> string \<Rightarrow> node_ref \<Rightarrow> bool \<times> manager \<Rightarrow> bool \<times> manager" where
  "sweep_node now roles dir tid r cm =
     (case cm of (changed, m) \<Rightarrow>
        (case (map_of (mg_tenants m) tid, map_of (mg_heap m) r) of
           (Some t, Some n) \<Rightarrow>
             if nr_kind (n_rec n) \<noteq> KindSession then (changed, m)
             else (case session_fate now roles dir n of
                 KeepSession \<Rightarrow> (changed, m)
               | NewRole role \<Rightarrow> (True, set_node r (n\<lparr>n_sub := (n_sub n)\<lparr>su_role := role\<rparr>\<rparr>) m)
               | DropSession \<Rightarrow> (True, remove_node t r m))
         | _ \<Rightarrow> (changed, m)))"

definition sweep_tenant :: "net_env \<Rightarrow> time \<Rightarrow> bool \<Rightarrow> (string \<Rightarrow> directory option) \<Rightarrow> string \<Rightarrow> manager \<Rightarrow> manager" where
  "sweep_tenant E now roles dirs tid m =
     (case map_of (mg_tenants m) tid of
        None \<Rightarrow> m
      | Some t \<Rightarrow>
          let m1 = set_tenant (drop_expired now t) m;
              ch = list_ex (\<lambda>(k, s). \<not> share_active now s) (tn_shares t) in
          case fold (sweep_node now roles (dirs tid) tid) (map snd (tn_nodes t)) (ch, m1) of
            (changed, m2) \<Rightarrow> if changed then recompute E now tid m2 else m2)"

definition sweep :: "net_env \<Rightarrow> time \<Rightarrow> bool \<Rightarrow> (string \<Rightarrow> directory option) \<Rightarrow> manager \<Rightarrow> manager" where
  "sweep E now roles dirs m = fold (sweep_tenant E now roles dirs) (map fst (mg_tenants m)) m"

section \<open>Shares\<close>

definition maxSharesPerTenant :: nat where "maxSharesPerTenant = 500"
definition maxGrantees :: nat where "maxGrantees = 50"
definition MaxTunRules :: nat where "MaxTunRules = 500"

record share_input =
  in_name :: string
  in_owner :: string
  in_port :: int
  in_proto :: string
  in_grantees :: "grantee list"
  in_expires :: "time option"
  in_ephemeral :: bool

definition norm_text :: "string \<Rightarrow> string" where
  "norm_text s = to_lower (trim_space s)"

definition equal_fold :: "string \<Rightarrow> string \<Rightarrow> bool" where
  "equal_fold a b \<longleftrightarrow> to_lower a = to_lower b"

text \<open>The loop of \<open>validateGrantees\<close>; \<open>resolve\<close> is there when the directory resolves readable names.\<close>

fun check_grantees ::
  "directory option \<Rightarrow> (grantee \<Rightarrow> net_err + grantee) option \<Rightarrow> grantee list \<Rightarrow> grantee list \<Rightarrow> net_err + grantee list" where
  "check_grantees dir resolve out [] = Inr out"
| "check_grantees dir resolve out (g # gs) =
     (let g1 = \<lparr>gr_type = norm_text (gr_type g), gr_id = trim_space (gr_id g)\<rparr> in
      case (case resolve of Some f \<Rightarrow> if gr_type g1 \<noteq> ''group'' then f g1 else Inr g1 | None \<Rightarrow> Inr g1) of
        Inl e \<Rightarrow> Inl e
      | Inr g2 \<Rightarrow>
          if g2 \<in> set out then check_grantees dir resolve out gs
          else (case validate_grantee dir g2 of
              Some e \<Rightarrow> Inl e
            | None \<Rightarrow> check_grantees dir resolve (out @ [g2]) gs))"

definition validate_grantees ::
  "directory option \<Rightarrow> (grantee \<Rightarrow> net_err + grantee) option \<Rightarrow> grantee list \<Rightarrow> net_err + grantee list" where
  "validate_grantees dir resolve gs =
     (if gs = [] then Inl (ErrInvalid ''no_grantees'')
      else if length gs > maxGrantees then Inl (ErrInvalid ''too_many_grantees'')
      else check_grantees dir resolve [] gs)"

definition active_shares :: "time \<Rightarrow> tenant \<Rightarrow> share list" where
  "active_shares now t = filter (share_active now) (map snd (tn_shares t))"

text \<open>The checks of \<open>CreateShare\<close> that need no state, in their order: protocol, port, device, grantees, name,
  expiry. The result is the protocol, the grantees and the name.\<close>

definition check_share ::
  "directory option \<Rightarrow> (grantee \<Rightarrow> net_err + grantee) option \<Rightarrow> time \<Rightarrow> share_input \<Rightarrow> net_err + (string \<times> grantee list \<times> string)" where
  "check_share dir resolve now i =
     (let proto0 = norm_text (in_proto i); proto = (if proto0 = [] then ''tcp'' else proto0) in
      if proto \<noteq> ''tcp'' \<and> proto \<noteq> ''udp'' then Inl (ErrInvalid ''invalid_proto'')
      else if in_port i < 1 \<or> in_port i > 65535 then Inl (ErrInvalid ''invalid_port'')
      else if in_owner i = [] then Inl (ErrInvalid ''no_device'')
      else
        case (case dir of
                None \<Rightarrow> Inr ''device''
              | Some d \<Rightarrow>
                  (case di_device_name d (in_owner i) of
                     Inl e \<Rightarrow> Inl e
                   | Inr None \<Rightarrow> Inl (ErrInvalid ''device_not_found'')
                   | Inr (Some nm) \<Rightarrow> Inr nm)) of
          Inl e \<Rightarrow> Inl e
        | Inr dev \<Rightarrow>
            (case validate_grantees dir resolve (in_grantees i) of
               Inl e \<Rightarrow> Inl e
             | Inr gs \<Rightarrow>
                 let name0 = norm_text (in_name i);
                     name = (if name0 = [] then sanitize_name (sanitize_name dev ''device'' @ ''-'' @ itoa (in_port i)) ''share'' else name0) in
                 if \<not> valid_share_name name then Inl (ErrInvalid ''invalid_name'')
                 else if (case in_expires i of None \<Rightarrow> False | Some e \<Rightarrow> \<not> now < e) then Inl (ErrInvalid ''invalid_expiry'')
                 else Inr (proto, gs, name)))"

text \<open>\<open>CreateShare\<close>; \<open>allow\<close> is the quota hook, called with the number of active shares.\<close>

definition create_share ::
  "net_env \<Rightarrow> store \<Rightarrow> directory option \<Rightarrow> (grantee \<Rightarrow> net_err + grantee) option \<Rightarrow> (int \<Rightarrow> net_err option) \<Rightarrow> time \<Rightarrow> string
   \<Rightarrow> string \<Rightarrow> share_input \<Rightarrow> string \<Rightarrow> manager \<Rightarrow> (net_err + share) \<times> manager" where
  "create_share E sto dir resolve allow now rnd tid i actor m =
     (case check_share dir resolve now i of
        Inl e \<Rightarrow> (Inl e, m)
      | Inr (proto, gs, name) \<Rightarrow>
          (case tenant_locked E sto tid m of
             (Inl e, m1) \<Rightarrow> (Inl e, m1)
           | (Inr t, m1) \<Rightarrow>
               let act = active_shares now t in
               if list_ex (\<lambda>s. sh_owner s = in_owner i \<and> sh_proto s = proto \<and> sh_port s = in_port i) act
               then (Inl (ErrConflict ''port_shared''), m1)
               else if list_ex (\<lambda>s. equal_fold (sh_name s) name) act then (Inl (ErrConflict ''name_taken''), m1)
               else if length act \<ge> maxSharesPerTenant then (Inl (ErrConflict ''too_many_shares''), m1)
               else (case allow (int (length act)) of
                   Some e \<Rightarrow> (Inl e, m1)
                 | None \<Rightarrow>
                     let s = \<lparr>sh_id = ''shr_'' @ rnd, sh_tenant = tid, sh_owner = in_owner i, sh_name = name, sh_proto = proto,
                              sh_port = in_port i, sh_grantees = gs, sh_expires = in_expires i, sh_created_by = actor,
                              sh_created_at = now, sh_ephemeral = in_ephemeral i\<rparr> in
                     (case so_put_share sto of
                        Some e \<Rightarrow> (Inl e, m1)
                      | None \<Rightarrow>
                          (Inr s, recompute E now tid (set_tenant (t\<lparr>tn_shares := gm_put (sh_id s) s (tn_shares t)\<rparr>) m1))))))"

text \<open>A patch: \<open>None\<close> leaves a field; the expiry can be set or removed.\<close>

record share_patch =
  pa_name :: "string option"
  pa_grantees :: "grantee list option"
  pa_expires :: "time option option"

definition patch_share :: "time \<Rightarrow> tenant \<Rightarrow> string \<Rightarrow> share_patch \<Rightarrow> grantee list \<Rightarrow> share \<Rightarrow> net_err + share" where
  "patch_share now t sid p gs cur =
     (case (case pa_name p of
              None \<Rightarrow> Inr cur
            | Some nm0 \<Rightarrow>
                let nm = norm_text nm0 in
                if \<not> valid_share_name nm then Inl (ErrInvalid ''invalid_name'')
                else if list_ex (\<lambda>(k, s). sh_id s \<noteq> sid \<and> equal_fold (sh_name s) nm) (tn_shares t)
                then Inl (ErrConflict ''name_taken'')
                else Inr (cur\<lparr>sh_name := nm\<rparr>)) of
        Inl e \<Rightarrow> Inl e
      | Inr s1 \<Rightarrow>
          let s2 = (if pa_grantees p = None then s1 else s1\<lparr>sh_grantees := gs\<rparr>) in
          (case pa_expires p of
             None \<Rightarrow> Inr s2
           | Some x \<Rightarrow>
               if (case x of None \<Rightarrow> False | Some e \<Rightarrow> \<not> now < e) then Inl (ErrInvalid ''invalid_expiry'')
               else Inr (s2\<lparr>sh_expires := x\<rparr>)))"

definition update_share ::
  "net_env \<Rightarrow> store \<Rightarrow> directory option \<Rightarrow> (grantee \<Rightarrow> net_err + grantee) option \<Rightarrow> time \<Rightarrow> string \<Rightarrow> string \<Rightarrow> share_patch
   \<Rightarrow> manager \<Rightarrow> (net_err + share) \<times> manager" where
  "update_share E sto dir resolve now tid sid p m =
     (case (case pa_grantees p of None \<Rightarrow> Inr [] | Some gs \<Rightarrow> validate_grantees dir resolve gs) of
        Inl e \<Rightarrow> (Inl e, m)
      | Inr gs \<Rightarrow>
          (case tenant_locked E sto tid m of
             (Inl e, m1) \<Rightarrow> (Inl e, m1)
           | (Inr t, m1) \<Rightarrow>
               (case map_of (tn_shares t) sid of
                  None \<Rightarrow> (Inl (ErrNotFound ''share_not_found''), m1)
                | Some cur \<Rightarrow>
                    (case patch_share now t sid p gs cur of
                       Inl e \<Rightarrow> (Inl e, m1)
                     | Inr s \<Rightarrow>
                         (case so_put_share sto of
                            Some e \<Rightarrow> (Inl e, m1)
                          | None \<Rightarrow> (Inr s, recompute E now tid (set_tenant (t\<lparr>tn_shares := gm_put sid s (tn_shares t)\<rparr>) m1)))))))"

definition delete_share :: "net_env \<Rightarrow> store \<Rightarrow> time \<Rightarrow> string \<Rightarrow> string \<Rightarrow> manager \<Rightarrow> net_err option \<times> manager" where
  "delete_share E sto now tid sid m =
     (case tenant_locked E sto tid m of
        (Inl e, m1) \<Rightarrow> (Some e, m1)
      | (Inr t, m1) \<Rightarrow>
          (case map_of (tn_shares t) sid of
             None \<Rightarrow> (Some (ErrNotFound ''share_not_found''), m1)
           | Some s \<Rightarrow>
               (case so_delete_share sto of
                  Some e \<Rightarrow> (Some e, m1)
                | None \<Rightarrow> (None, recompute E now tid (set_tenant (t\<lparr>tn_shares := gm_del sid (tn_shares t)\<rparr>) m1)))))"

definition get_share :: "net_env \<Rightarrow> store \<Rightarrow> string \<Rightarrow> string \<Rightarrow> manager \<Rightarrow> (net_err + share) \<times> manager" where
  "get_share E sto tid sid m =
     (case tenant_locked E sto tid m of
        (Inl e, m1) \<Rightarrow> (Inl e, m1)
      | (Inr t, m1) \<Rightarrow>
          (case map_of (tn_shares t) sid of None \<Rightarrow> (Inl (ErrNotFound ''share_not_found''), m1) | Some s \<Rightarrow> (Inr s, m1)))"

text \<open>The requests of a device over its connection (\<open>deviceShareCreate\<close>, \<open>deviceShareDelete\<close>).\<close>

record share_create_msg =
  sc_req :: string
  sc_name :: string
  sc_port :: int
  sc_proto :: string
  sc_to :: "grantee list"
  sc_expires_sec :: int
  sc_ephemeral :: bool

definition device_share_create ::
  "net_env \<Rightarrow> store \<Rightarrow> directory option \<Rightarrow> (grantee \<Rightarrow> net_err + grantee) option \<Rightarrow> (int \<Rightarrow> net_err option) \<Rightarrow> time \<Rightarrow> string
   \<Rightarrow> share_create_msg \<Rightarrow> conn \<Rightarrow> manager \<Rightarrow> manager" where
  "device_share_create E sto dir resolve allow now rnd req c m =
     (if id_kind (cn_id c) \<noteq> KindDevice \<or> cn_node c = None then
        snd (send_ctrl (cn_ob c) (CShareResult (sc_req req) (Inl (ErrInvalid ''not_device''))) m)
      else
        let i = \<lparr>in_name = sc_name req, in_owner = id_client (cn_id c), in_port = sc_port req, in_proto = sc_proto req,
                 in_grantees = sc_to req,
                 in_expires = (if sc_expires_sec req > 0 then Some (now + sc_expires_sec req * Second) else None),
                 in_ephemeral = sc_ephemeral req\<rparr> in
        case create_share E sto dir resolve allow now rnd (id_tenant (cn_id c)) i (''device:'' @ id_client (cn_id c)) m of
          (Inl e, m1) \<Rightarrow> snd (send_ctrl (cn_ob c) (CShareResult (sc_req req) (Inl e)) m1)
        | (Inr s, m1) \<Rightarrow> snd (send_ctrl (cn_ob c) (CShareResult (sc_req req) (Inr (sh_id s))) m1))"

definition device_share_delete :: "net_env \<Rightarrow> store \<Rightarrow> time \<Rightarrow> string \<Rightarrow> string \<Rightarrow> conn \<Rightarrow> manager \<Rightarrow> manager" where
  "device_share_delete E sto now req sid c m =
     (case get_share E sto (id_tenant (cn_id c)) sid m of
        (Inl e, m1) \<Rightarrow> snd (send_ctrl (cn_ob c) (CShareResult req (Inl e)) m1)
      | (Inr s, m1) \<Rightarrow>
          if id_kind (cn_id c) \<noteq> KindDevice \<or> sh_owner s \<noteq> id_client (cn_id c)
          then snd (send_ctrl (cn_ob c) (CShareResult req (Inl (ErrNotFound ''share_not_found''))) m1)
          else (case delete_share E sto now (id_tenant (cn_id c)) sid m1 of
              (Some e, m2) \<Rightarrow> snd (send_ctrl (cn_ob c) (CShareResult req (Inl e)) m2)
            | (None, m2) \<Rightarrow> snd (send_ctrl (cn_ob c) (CShareResult req (Inr sid)) m2)))"

section \<open>Rules and the network of a tenant\<close>

record rule_input =
  ri_name :: string
  ri_src :: grantee
  ri_dst :: string
  ri_proto :: string
  ri_ports :: string

text \<open>\<open>ParsePorts\<close>: the empty text is every port.\<close>

definition parse_ports :: "string \<Rightarrow> (nat \<times> nat) option" where
  "parse_ports s0 =
     (let s = trim_space s0 in
      if s = [] then Some (0, 0)
      else case cut_at dash s of
          (a, b, is_range) \<Rightarrow>
            (case atoi (trim_space a) of
               None \<Rightarrow> None
             | Some l \<Rightarrow>
                 if l < 1 \<or> l > 65535 then None
                 else if \<not> is_range then Some (nat l, nat l)
                 else (case atoi (trim_space b) of
                     None \<Rightarrow> None
                   | Some hi \<Rightarrow> if hi < l \<or> hi > 65535 then None else Some (nat l, nat hi))))"

definition norm_proto :: "string \<Rightarrow> string" where
  "norm_proto p = (if norm_text p = [] then ''any'' else norm_text p)"

definition validate_tun_rule :: "rule_input \<Rightarrow> net_err + rule_input" where
  "validate_tun_rule i =
     (let proto = norm_proto (ri_proto i); ports = trim_space (ri_ports i); dst0 = trim_space (ri_dst i) in
      if proto \<notin> {''tcp'', ''udp'', ''icmp'', ''any''} then Inl (ErrInvalid ''invalid_proto'')
      else if parse_ports ports = None then Inl (ErrInvalid ''invalid_ports'')
      else if ports \<noteq> [] \<and> proto = ''icmp'' then Inl (ErrInvalid ''invalid_ports'')
      else if gr_type (ri_src i) = ''device'' \<and> (gr_id (ri_src i) = [] \<or> length (gr_id (ri_src i)) > 128)
      then Inl (ErrInvalid ''invalid_grantee'')
      else if gr_type (ri_src i) = ''group'' \<and> gr_id (ri_src i) \<noteq> ''everyone'' then Inl (ErrInvalid ''invalid_group'')
      else if gr_type (ri_src i) \<noteq> ''device'' \<and> gr_type (ri_src i) \<noteq> ''group'' then Inl (ErrInvalid ''invalid_grantee'')
      else Inr (i\<lparr>ri_proto := proto, ri_ports := ports, ri_dst := (if dst0 = [] then ''*'' else dst0),
                  ri_name := take 80 (ri_name i)\<rparr>))"

definition device_missing :: "directory option \<Rightarrow> string \<Rightarrow> string \<Rightarrow> net_err option" where
  "device_missing dir code c =
     (case dir of
        None \<Rightarrow> None
      | Some d \<Rightarrow>
          (case di_device_name d c of Inl e \<Rightarrow> Some e | Inr None \<Rightarrow> Some (ErrInvalid code) | Inr (Some _) \<Rightarrow> None))"

definition create_tun_rule ::
  "net_env \<Rightarrow> store \<Rightarrow> directory option \<Rightarrow> time \<Rightarrow> string \<Rightarrow> string \<Rightarrow> rule_input \<Rightarrow> string \<Rightarrow> manager
   \<Rightarrow> (net_err + tun_rule) \<times> manager" where
  "create_tun_rule E sto dir now rnd tid i0 actor m =
     (case validate_tun_rule i0 of
        Inl e \<Rightarrow> (Inl e, m)
      | Inr i \<Rightarrow>
          (case (if gr_type (ri_src i) = ''device'' then device_missing dir ''grantee_not_found'' (gr_id (ri_src i)) else None) of
             Some e \<Rightarrow> (Inl e, m)
           | None \<Rightarrow>
               (case (if ri_dst i \<noteq> ''*'' then device_missing dir ''device_not_found'' (ri_dst i) else None) of
                  Some e \<Rightarrow> (Inl e, m)
                | None \<Rightarrow>
                    (case tenant_locked E sto tid m of
                       (Inl e, m1) \<Rightarrow> (Inl e, m1)
                     | (Inr t, m1) \<Rightarrow>
                         if length (tn_rules t) \<ge> MaxTunRules then (Inl (ErrConflict ''too_many_rules''), m1)
                         else
                           let r = \<lparr>tr_id = ''tr_'' @ rnd, tr_tenant = tid, tr_name = ri_name i, tr_src = ri_src i, tr_dst = ri_dst i,
                                    tr_proto = ri_proto i, tr_ports = ri_ports i, tr_created_by = actor, tr_created_at = now,
                                    tr_origin = [], tr_src_devices = [], tr_dst_devices = [], tr_resource = [], tr_dns_only = False\<rparr> in
                           (case so_put_rule sto of
                              Some e \<Rightarrow> (Inl e, m1)
                            | None \<Rightarrow>
                                (Inr r, recompute E now tid (set_tenant (t\<lparr>tn_rules := gm_put (tr_id r) r (tn_rules t)\<rparr>) m1)))))))"

definition delete_tun_rule :: "net_env \<Rightarrow> store \<Rightarrow> time \<Rightarrow> string \<Rightarrow> string \<Rightarrow> manager \<Rightarrow> net_err option \<times> manager" where
  "delete_tun_rule E sto now tid rid m =
     (case tenant_locked E sto tid m of
        (Inl e, m1) \<Rightarrow> (Some e, m1)
      | (Inr t, m1) \<Rightarrow>
          if map_of (tn_rules t) rid = None then (Some (ErrNotFound ''rule_not_found''), m1)
          else (case so_delete_rule sto of
              Some e \<Rightarrow> (Some e, m1)
            | None \<Rightarrow> (None, recompute E now tid (set_tenant (t\<lparr>tn_rules := gm_del rid (tn_rules t)\<rparr>) m1))))"

definition set_network :: "net_env \<Rightarrow> store \<Rightarrow> string \<Rightarrow> prefix \<Rightarrow> manager \<Rightarrow> net_err option \<times> manager" where
  "set_network E sto tid cidr0 m =
     (if \<not> validate_network_cidr cidr0 then (Some (ErrInvalid ''invalid_cidr''), m)
      else
        let cidr = masked cidr0 in
        case tenant_locked E sto tid m of
          (Inl e, m1) \<Rightarrow> (Some e, m1)
        | (Inr t, m1) \<Rightarrow>
            if ia_pool (tn_alloc t) = cidr then (None, m1)
            else if tn_nodes t \<noteq> [] then (Some (ErrConflict ''network_in_use''), m1)
            else (case so_put_network sto of
                Some e \<Rightarrow> (Some e, m1)
              | None \<Rightarrow> (None, set_tenant (t\<lparr>tn_alloc := new_alloc cidr\<rparr>) m1)))"

end
