(* ===== verification/Net_Safety.thy ===== *)
theory Net_Safety
  imports Net_Manager
begin

text \<open>
  Invariants of the network manager and what they give: the tables of every tenant agree with its
  nodes, and the relay delivers a packet only to a node the sender was linked with at the last
  recomputation of the tenant.
\<close>

section \<open>Invariants\<close>

text \<open>A tenant whose tables are exact for its nodes; a node without a connection sees nobody.\<close>

definition tenant_inv :: "node_heap \<Rightarrow> tenant \<Rightarrow> bool" where
  "tenant_inv h t \<longleftrightarrow> tenant_ok h t \<and>
     (\<forall>r n. (r, n) \<in> set (tenant_nodes h t) \<longrightarrow> nr_tenant (n_rec n) = tn_id t
        \<and> map_of (tn_by_ip t) (node_ip n) = Some r
        \<and> (nr_kind (n_rec n) = KindDevice \<longrightarrow> map_of (tn_by_client t) (nr_client (n_rec n)) = Some r)
        \<and> (n_ob n = None \<longrightarrow> n_vis n = None))"

text \<open>At a snapshot, node \<open>r\<close> was linked with a node of address \<open>w\<close>.\<close>

definition visible_in :: "snapshot \<Rightarrow> node_ref \<Rightarrow> u32 \<Rightarrow> bool" where
  "visible_in S r w \<longleftrightarrow> (\<exists>x d y. (r, x) \<in> set (tenant_nodes (sn_heap S) (sn_tenant S))
     \<and> (d, y) \<in> set (tenant_nodes (sn_heap S) (sn_tenant S)) \<and> node_ip y = IP4 w
     \<and> linked (sn_env S) (sn_tenant S) (tun_rules (sn_env S) (sn_heap S) (sn_tenant S)) (sn_now S) (r, x) (d, y))"

definition snapshot_ok :: "snapshot \<Rightarrow> bool" where
  "snapshot_ok S \<longleftrightarrow> tenant_ok (sn_heap S) (sn_tenant S) \<and>
     (\<forall>r n. (r, n) \<in> set (tenant_nodes (sn_heap S) (sn_tenant S)) \<longrightarrow> map_of (tn_by_ip (sn_tenant S)) (node_ip n) = Some r)"

text \<open>What a node sees and which nodes are online is what the last recomputation knew.\<close>

definition seen_inv :: "(string, snapshot) gomap \<Rightarrow> node_heap \<Rightarrow> tenant \<Rightarrow> bool" where
  "seen_inv sn h t \<longleftrightarrow> (\<forall>r n. (r, n) \<in> set (tenant_nodes h t) \<longrightarrow>
     (\<forall>v. n_vis n = Some v \<longrightarrow> (\<exists>S. map_of sn (tn_id t) = Some S \<and> (\<forall>w\<in>set v. visible_in S r w)))
   \<and> (n_ob n \<noteq> None \<longrightarrow> (\<exists>S x. map_of sn (tn_id t) = Some S \<and> (r, x) \<in> set (tenant_nodes (sn_heap S) (sn_tenant S))
        \<and> node_ip x = node_ip n)))"

definition struct_inv :: "manager \<Rightarrow> bool" where
  "struct_inv m \<longleftrightarrow> gm_ok (mg_heap m) \<and> gm_ok (mg_tenants m)
     \<and> (\<forall>r. map_of (mg_heap m) r \<noteq> None \<longleftrightarrow> r < length (mg_heap m))
     \<and> (\<forall>tid t. map_of (mg_tenants m) tid = Some t \<longrightarrow> tn_id t = tid \<and> tenant_inv (mg_heap m) t)
     \<and> (\<forall>tid S. map_of (mg_last m) tid = Some S \<longrightarrow> snapshot_ok S)"

definition inv_except :: "string \<Rightarrow> manager \<Rightarrow> bool" where
  "inv_except x m \<longleftrightarrow> struct_inv m
     \<and> (\<forall>tid t. map_of (mg_tenants m) tid = Some t \<and> tid \<noteq> x \<longrightarrow> seen_inv (mg_last m) (mg_heap m) t)"

definition mgr_inv :: "manager \<Rightarrow> bool" where
  "mgr_inv m \<longleftrightarrow> struct_inv m \<and> (\<forall>tid t. map_of (mg_tenants m) tid = Some t \<longrightarrow> seen_inv (mg_last m) (mg_heap m) t)"

lemma mgr_inv_except: "mgr_inv m \<Longrightarrow> inv_except x m"
  unfolding mgr_inv_def inv_except_def by blast

lemma mgr_inv_iff: "mgr_inv m \<longleftrightarrow> (\<forall>x. inv_except x m)"
  by (auto simp: mgr_inv_def inv_except_def)

lemma new_manager_inv: "mgr_inv new_manager"
  by (simp add: mgr_inv_def struct_inv_def new_manager_def)

section \<open>Two views of a heap\<close>

text \<open>Fields of a node that other nodes' maps and the tables depend on.\<close>

definition same_view :: "node \<Rightarrow> node \<Rightarrow> bool" where
  "same_view n n' \<longleftrightarrow> n_rec n' = n_rec n \<and> n_sub n' = n_sub n \<and> n_ob n' = n_ob n \<and> n_tun n' = n_tun n
     \<and> n_endpoints n' = n_endpoints n"

lemma same_view_refl [simp]: "same_view n n"
  by (simp add: same_view_def)

lemma same_view_trans: "same_view a b \<Longrightarrow> same_view b c \<Longrightarrow> same_view a c"
  by (simp add: same_view_def)

definition heap_view :: "node_heap \<Rightarrow> node_heap \<Rightarrow> bool" where
  "heap_view h h' \<longleftrightarrow> (\<forall>r. rel_option same_view (map_of h r) (map_of h' r))"

lemma heap_view_refl [simp]: "heap_view h h"
  by (simp add: heap_view_def option.rel_refl)

lemma heap_viewD: "heap_view h h' \<Longrightarrow> map_of h' r = Some n' \<Longrightarrow> \<exists>n. map_of h r = Some n \<and> same_view n n'"
  unfolding heap_view_def by (metis option_rel_Some2)

lemma heap_view_trans: "heap_view h h' \<Longrightarrow> heap_view h' h'' \<Longrightarrow> heap_view h h''"
proof -
  assume a: "heap_view h h'" "heap_view h' h''"
  have "rel_option same_view (map_of h r) (map_of h'' r)" for r
    using a [unfolded heap_view_def, rule_format, of r]
    by (cases "map_of h r"; cases "map_of h' r"; cases "map_of h'' r") (auto dest: same_view_trans)
  then show ?thesis by (simp add: heap_view_def)
qed

lemma heap_view_put: "heap_view h h' \<Longrightarrow> map_of h' r = Some n \<Longrightarrow> same_view n n' \<Longrightarrow> heap_view h (gm_put r n' h')"
  unfolding heap_view_def by (simp add: option_rel_Some2) (metis option_rel_Some2 same_view_trans)

lemma linked_view: "same_view x x' \<Longrightarrow> same_view y y' \<Longrightarrow>
    linked E t rules now (r, x') (d, y') = linked E t rules now (r, x) (d, y)"
  by (simp add: linked_def linked_by_share_def linked_by_rule_def same_view_def dst_matches_def src_matches_def)

lemma heap_view_nodes:
  "heap_view h h' \<Longrightarrow> (r, n') \<in> set (tenant_nodes h' t) \<Longrightarrow> \<exists>n. (r, n) \<in> set (tenant_nodes h t) \<and> same_view n n'"
  by (auto simp: tenant_nodes_iff dest!: heap_viewD)

lemma heap_view_none: "heap_view h h' \<Longrightarrow> map_of h' r = None \<longleftrightarrow> map_of h r = None"
  unfolding heap_view_def by (metis option.rel_distinct(1,2) not_None_eq)

lemma heap_viewD2: "heap_view h h' \<Longrightarrow> map_of h r = Some n \<Longrightarrow> \<exists>n'. map_of h' r = Some n' \<and> same_view n n'"
  unfolding heap_view_def by (metis option_rel_Some1)

lemma tenant_ok_view: "heap_view h h' \<Longrightarrow> tenant_ok h t \<Longrightarrow> tenant_ok h' t"
  unfolding tenant_ok_def
  by (intro conjI; (elim conjE)?; assumption?)
    (fastforce dest: heap_viewD heap_viewD2 simp: same_view_def)+

section \<open>Recomputation\<close>

lemma send_ctrl_frame:
  "mg_tenants (snd (send_ctrl q msg m)) = mg_tenants m" "mg_pubs (snd (send_ctrl q msg m)) = mg_pubs m"
  "mg_heap (snd (send_ctrl q msg m)) = mg_heap m" "mg_last (snd (send_ctrl q msg m)) = mg_last m"
  by (simp_all add: send_ctrl_def split: option.split prod.split)

lemma node_push_view: "same_view x (snd (node_push E t g ok x)) \<and> n_vis (snd (node_push E t g ok x)) = Some (vis_set (go_peers g))"
  by (simp add: node_push_def Let_def mark_sent_def same_view_def)

lemma push_map_cases:
  obtains "push_map E rules now tid r m = m" "map_of (mg_tenants m) tid = None \<or> Option.bind (map_of (mg_heap m) r) n_ob = None"
  | t x nx where "map_of (mg_tenants m) tid = Some t" "map_of (mg_heap m) r = Some x" "n_ob x \<noteq> None" "same_view x nx"
    "n_vis nx = Some (vis_set (go_peers (node_goal E (mg_heap m) t rules now r x)))"
    "mg_heap (push_map E rules now tid r m) = gm_put r nx (mg_heap m)"
    "mg_tenants (push_map E rules now tid r m) = mg_tenants m" "mg_last (push_map E rules now tid r m) = mg_last m"
proof (cases "map_of (mg_tenants m) tid")
  case None
  then have "push_map E rules now tid r m = m" by (simp add: push_map_def)
  with that(1) None show thesis by blast
next
  case (Some t)
  show thesis
  proof (cases "Option.bind (map_of (mg_heap m) r) n_ob")
    case None
    then have "push_map E rules now tid r m = m"
      using Some by (cases "map_of (mg_heap m) r") (auto simp: push_map_def)
    with that(1) None show thesis by blast
  next
    case (Some q)
    then obtain x where x: "map_of (mg_heap m) r = Some x" "n_ob x = Some q" by (auto simp: Option.bind_eq_Some_conv)
    let ?g = "node_goal E (mg_heap m) t rules now r x"
    obtain ok nm where "mg_heap (push_map E rules now tid r m) = gm_put r (snd (node_push E t ?g ok x)) (mg_heap m)"
      "mg_tenants (push_map E rules now tid r m) = mg_tenants m" "mg_last (push_map E rules now tid r m) = mg_last m"
    proof (cases "fst (node_push E t ?g False x)")
      case None
      then show ?thesis
        using \<open>map_of (mg_tenants m) tid = Some t\<close> x that [of False] by (simp add: push_map_def set_node_def)
    next
      case (Some msg)
      obtain ok m1 where s: "send_ctrl q (CNetMap msg) m = (ok, m1)" by (cases "send_ctrl q (CNetMap msg) m")
      then show ?thesis
        using \<open>map_of (mg_tenants m) tid = Some t\<close> x Some that [of ok] send_ctrl_frame [of q "CNetMap msg" m]
        by (simp add: push_map_def set_node_def)
    qed
    with that(2) [OF \<open>map_of (mg_tenants m) tid = Some t\<close> x(1)] x(2) node_push_view [of x E t ?g ok] show thesis by auto
  qed
qed

text \<open>One turn of the loop: tables and views stay, and the node it visits sees what the map it computes says.\<close>

lemma push_map_step:
  "mg_tenants (push_map E rules now tid r m) = mg_tenants m \<and> mg_last (push_map E rules now tid r m) = mg_last m
   \<and> heap_view (mg_heap m) (mg_heap (push_map E rules now tid r m))
   \<and> (\<forall>r'. r' \<noteq> r \<longrightarrow> map_of (mg_heap (push_map E rules now tid r m)) r' = map_of (mg_heap m) r')
   \<and> length (mg_heap (push_map E rules now tid r m)) = length (mg_heap m)
   \<and> (gm_ok (mg_heap m) \<longrightarrow> gm_ok (mg_heap (push_map E rules now tid r m)))"
  by (rule push_map_cases [of E rules now tid r m])
    (auto simp: heap_view_put [OF heap_view_refl] length_gm_put)

lemma push_map_vis:
  assumes "map_of (mg_tenants m) tid = Some t" and "map_of (mg_heap (push_map E rules now tid r m)) r = Some n" and "n_ob n \<noteq> None"
  shows "\<exists>x. map_of (mg_heap m) r = Some x \<and> same_view x n \<and>
    n_vis n = Some (vis_set (go_peers (node_goal E (mg_heap m) t rules now r x)))"
  by (rule push_map_cases [of E rules now tid r m]) (use assms in auto)

lemma push_fold:
  fixes m :: manager and E :: net_env and rules :: "tun_rule list" and now :: time and rs :: "node_ref list"
  assumes "map_of (mg_tenants m) tid = Some t" and "gm_ok (mg_heap m)"
  defines "m' \<equiv> fold (push_map E rules now tid) rs m"
  shows "mg_tenants m' = mg_tenants m \<and> mg_last m' = mg_last m \<and> heap_view (mg_heap m) (mg_heap m')
    \<and> length (mg_heap m') = length (mg_heap m) \<and> gm_ok (mg_heap m')
    \<and> (\<forall>r'. r' \<notin> set rs \<longrightarrow> map_of (mg_heap m') r' = map_of (mg_heap m) r')
    \<and> (\<forall>r\<in>set rs. \<forall>n. map_of (mg_heap m') r = Some n \<and> n_ob n \<noteq> None \<longrightarrow>
         (\<exists>h x. heap_view (mg_heap m) h \<and> map_of h r = Some x \<and> n_vis n = Some (vis_set (go_peers (node_goal E h t rules now r x)))))"
  unfolding m'_def using assms(1,2)
proof (induction rs arbitrary: m)
  case (Cons r rs)
  let ?p = "push_map E rules now tid r m" and ?f = "fold (push_map E rules now tid) rs"
  note st = push_map_step [of E rules now tid r m]
  have hv: "heap_view (mg_heap m) (mg_heap ?p)" using st by blast
  from st Cons.prems have "map_of (mg_tenants ?p) tid = Some t" "gm_ok (mg_heap ?p)" by simp_all
  note ih = Cons.IH [OF this]
  have view: "heap_view (mg_heap m) (mg_heap (?f ?p))" using hv ih heap_view_trans by blast
  have vis: "\<exists>h x. heap_view (mg_heap m) h \<and> map_of h r' = Some x \<and> n_vis n = Some (vis_set (go_peers (node_goal E h t rules now r' x)))"
    if r': "r' \<in> set (r # rs)" and n: "map_of (mg_heap (?f ?p)) r' = Some n" "n_ob n \<noteq> None" for r' n
  proof (cases "r' \<in> set rs")
    case True
    then obtain h x where "heap_view (mg_heap ?p) h" "map_of h r' = Some x"
      "n_vis n = Some (vis_set (go_peers (node_goal E h t rules now r' x)))" using ih n by blast
    with hv heap_view_trans show ?thesis by blast
  next
    case False
    with r' ih n have "r' = r" "map_of (mg_heap ?p) r = Some n" by auto
    with push_map_vis [OF Cons.prems(1), of E rules now r n] n(2) show ?thesis using heap_view_refl by blast
  qed
  show ?case using ih st view vis by simp
qed simp

definition recompute_start :: "net_env \<Rightarrow> time \<Rightarrow> string \<Rightarrow> tenant \<Rightarrow> manager \<Rightarrow> manager" where
  "recompute_start E now tid t m =
     (set_tenant t m)\<lparr>mg_last := gm_put tid \<lparr>sn_env = E, sn_now = now, sn_heap = mg_heap m, sn_tenant = t\<rparr> (mg_last m)\<rparr>"

lemma tenant_ok_epoch [simp]: "tenant_ok h (t\<lparr>tn_epoch := n\<rparr>) = tenant_ok h t" "node_refs (t\<lparr>tn_epoch := n\<rparr>) = node_refs t"
  "tenant_nodes h (t\<lparr>tn_epoch := n\<rparr>) = tenant_nodes h t"
  by (simp_all add: tenant_ok_def node_refs_def tenant_nodes_def)

lemma tenant_inv_epoch [simp]: "tenant_inv h (t\<lparr>tn_epoch := n\<rparr>) = tenant_inv h t"
  by (simp add: tenant_inv_def)

lemma tenant_inv_view:
  assumes "heap_view h h'" and "tenant_inv h t"
    and "\<And>r n n'. map_of h r = Some n \<Longrightarrow> map_of h' r = Some n' \<Longrightarrow> n_ob n = None \<Longrightarrow> n_vis n' = n_vis n"
  shows "tenant_inv h' t"
proof -
  have "nr_tenant (n_rec n') = tn_id t \<and> map_of (tn_by_ip t) (node_ip n') = Some r
      \<and> (nr_kind (n_rec n') = KindDevice \<longrightarrow> map_of (tn_by_client t) (nr_client (n_rec n')) = Some r)
      \<and> (n_ob n' = None \<longrightarrow> n_vis n' = None)" if r: "(r, n') \<in> set (tenant_nodes h' t)" for r n'
  proof -
    obtain n where n: "(r, n) \<in> set (tenant_nodes h t)" "same_view n n'" using heap_view_nodes [OF assms(1) r] by blast
    then have "n_ob n = None \<Longrightarrow> n_vis n' = n_vis n" using assms(3) r by (auto simp: tenant_nodes_iff)
    with n assms(2) show ?thesis by (auto simp: tenant_inv_def same_view_def)
  qed
  with assms(2) tenant_ok_view [OF assms(1)] show ?thesis by (simp add: tenant_inv_def)
qed

text \<open>Whatever an operation did to one tenant, a recomputation restores the invariant.\<close>

lemma offline_unchanged:
  assumes "map_of (mg_tenants m) tid = Some t" and "gm_ok (mg_heap m)"
    and "map_of (mg_heap m) r = Some n" "map_of (mg_heap (fold (push_map E rules now tid) rs m)) r = Some n'" "n_ob n = None"
  shows "n' = n"
  using assms
proof (induction rs arbitrary: m)
  case (Cons q rs)
  let ?p = "push_map E rules now tid q m"
  have "map_of (mg_heap ?p) r = Some n"
    by (rule push_map_cases [of E rules now tid q m]) (use Cons.prems(1,3,5) in auto)
  moreover have "map_of (mg_tenants ?p) tid = Some t" "gm_ok (mg_heap ?p)"
    using push_map_step [of E rules now tid q m] Cons.prems by simp_all
  ultimately show ?case using Cons.IH [of ?p] Cons.prems by simp
qed simp

lemma recompute_unfold:
  "map_of (mg_tenants m) tid = Some t \<Longrightarrow> tn_id t = tid \<Longrightarrow> recompute E now tid m =
     (let t1 = t\<lparr>tn_epoch := tn_epoch t + 1\<rparr> in
      fold (push_map E (tun_rules E (mg_heap m) t1) now tid) (map snd (tn_nodes t1)) (recompute_start E now tid t1 m))"
  by (simp add: recompute_def recompute_start_def Let_def)

lemma map_filter_same: "\<forall>x\<in>set xs. f x = g x \<Longrightarrow> List.map_filter f xs = List.map_filter g xs"
  by (induction xs) (simp_all add: List.map_filter_simps split: option.split)

lemma tenant_nodes_cong: "(\<And>r. r \<in> node_refs t \<Longrightarrow> map_of h' r = map_of h r) \<Longrightarrow> tenant_nodes h' t = tenant_nodes h t"
  unfolding tenant_nodes_def by (rule map_filter_same) (force simp: node_refs_def)

lemma tenant_invD:
  assumes "tenant_inv h t" and "(r, n) \<in> set (tenant_nodes h t)"
  shows "nr_tenant (n_rec n) = tn_id t" "map_of (tn_by_ip t) (node_ip n) = Some r"
    "nr_kind (n_rec n) = KindDevice \<Longrightarrow> map_of (tn_by_client t) (nr_client (n_rec n)) = Some r"
    "n_ob n = None \<Longrightarrow> n_vis n = None"
  using assms by (simp_all add: tenant_inv_def)

lemma struct_heap: "struct_inv m \<Longrightarrow> map_of (mg_heap m) r \<noteq> None \<longleftrightarrow> r < length (mg_heap m)"
  unfolding struct_inv_def by blast

lemma struct_tenant:
  assumes "struct_inv m" and "map_of (mg_tenants m) tid = Some t"
  shows "tn_id t = tid" "tenant_inv (mg_heap m) t"
  using assms by (simp_all add: struct_inv_def)

lemma other_tenant_node:
  assumes "struct_inv m" and "map_of (mg_tenants m) tid = Some t" and "map_of (mg_tenants m) tid' = Some t'" and "tid \<noteq> tid'"
    and "r \<in> node_refs t"
  shows "r \<notin> node_refs t'"
proof
  assume r': "r \<in> node_refs t'"
  note t = struct_tenant [OF assms(1,2)] struct_tenant [OF assms(1,3)]
  have "tenant_ok (mg_heap m) t" using t(2) by (simp add: tenant_inv_def)
  then obtain n where n: "(r, n) \<in> set (tenant_nodes (mg_heap m) t)" using assms(5) by (rule tenant_okE)
  with r' have n': "(r, n) \<in> set (tenant_nodes (mg_heap m) t')" by (simp add: tenant_nodes_iff)
  have "tid = tid'" using t(1,3) tenant_invD(1) [OF t(2) n] tenant_invD(1) [OF t(4) n'] by simp
  with assms(4) show False ..
qed

lemma recompute_restores:
  assumes i: "inv_except tid m" and tid: "map_of (mg_tenants m) tid \<noteq> None"
  shows "mgr_inv (recompute E now tid m)"
proof -
  obtain t where t: "map_of (mg_tenants m) tid = Some t" using tid by blast
  have s: "struct_inv m" using i by (simp add: inv_except_def)
  have ti: "tn_id t = tid" "tenant_inv (mg_heap m) t" "gm_ok (mg_heap m)"
    using struct_tenant [OF s t] s by (simp_all add: struct_inv_def)
  define t1 where "t1 = t\<lparr>tn_epoch := tn_epoch t + 1\<rparr>"
  let ?rules = "tun_rules E (mg_heap m) t1" and ?start = "recompute_start E now tid t1 m" and ?rs = "map snd (tn_nodes t1)"
  let ?m = "fold (push_map E ?rules now tid) ?rs ?start"
  let ?S = "\<lparr>sn_env = E, sn_now = now, sn_heap = mg_heap m, sn_tenant = t1\<rparr>"
  have m: "recompute E now tid m = ?m" using recompute_unfold [OF t ti(1)] by (simp add: t1_def Let_def)
  have t1: "tn_id t1 = tid" "tenant_inv (mg_heap m) t1" "tenant_ok (mg_heap m) t1" "node_refs t1 = node_refs t" "set ?rs = node_refs t"
    using ti by (simp_all add: t1_def tenant_inv_def node_refs_def)
  have m0: "mg_tenants ?start = gm_put tid t1 (mg_tenants m)" "mg_last ?start = gm_put tid ?S (mg_last m)" "mg_heap ?start = mg_heap m"
    using t1(1) by (simp_all add: recompute_start_def set_tenant_def)
  have "map_of (mg_tenants ?start) tid = Some t1" "gm_ok (mg_heap ?start)" using m0 ti by simp_all
  note pf = push_fold [OF this, of E ?rules now ?rs] and off = offline_unchanged [OF this, of _ _ E ?rules now ?rs]
  have f: "mg_tenants ?m = gm_put tid t1 (mg_tenants m)" "mg_last ?m = gm_put tid ?S (mg_last m)"
    "heap_view (mg_heap m) (mg_heap ?m)" "length (mg_heap ?m) = length (mg_heap m)" "gm_ok (mg_heap ?m)"
    using pf unfolding m0 by blast+
  have out: "map_of (mg_heap ?m) r = map_of (mg_heap m) r" if "r \<notin> node_refs t" for r
    using pf that t1(5) unfolding m0 by blast
  have ten: "tenant_inv (mg_heap ?m) t'" if "tenant_inv (mg_heap m) t'" for t'
    by (rule tenant_inv_view [OF f(3) that]) (use off m0 in force)
  have snap: "snapshot_ok ?S" using t1(2,3) by (simp add: snapshot_ok_def tenant_inv_def)
  have struct: "struct_inv ?m"
    unfolding struct_inv_def
  proof (intro conjI allI impI)
    show "gm_ok (mg_heap ?m)" "gm_ok (mg_tenants ?m)" using s f by (simp_all add: struct_inv_def)
    show "map_of (mg_heap ?m) r \<noteq> None \<longleftrightarrow> r < length (mg_heap ?m)" for r
      using struct_heap [OF s, of r] heap_view_none [OF f(3), of r] f(4) by (simp only:)
    fix tid' t' assume "map_of (mg_tenants ?m) tid' = Some t'"
    then have "t' = t1 \<and> tid' = tid \<or> map_of (mg_tenants m) tid' = Some t'" by (simp add: f(1) split: if_splits)
    then have "tn_id t' = tid' \<and> tenant_inv (mg_heap m) t'" using struct_tenant [OF s, of tid' t'] t1(1,2) by blast
    then show "tn_id t' = tid'" "tenant_inv (mg_heap ?m) t'" using ten by simp_all
  next
    fix tid' S assume "map_of (mg_last ?m) tid' = Some S"
    then show "snapshot_ok S" using s snap by (simp add: f(2) struct_inv_def split: if_splits)
  qed
  have seen: "seen_inv (mg_last ?m) (mg_heap ?m) t1"
    unfolding seen_inv_def
  proof (intro allI impI conjI)
    fix r n assume r: "(r, n) \<in> set (tenant_nodes (mg_heap ?m) t1)"
    have n: "map_of (mg_heap ?m) r = Some n" "r \<in> set ?rs" using r t1 by (simp_all only: tenant_nodes_iff)
    obtain x where x: "(r, x) \<in> set (tenant_nodes (mg_heap m) t1)" "same_view x n" using heap_view_nodes [OF f(3) r] by blast
    have last: "map_of (mg_last ?m) (tn_id t1) = Some ?S" by (simp add: f(2) t1(1))
    {
      fix v assume v: "n_vis n = Some v"
      have "n_ob n \<noteq> None"
        using tenant_invD(4) [OF ten [OF t1(2)] r] v by fastforce
      then obtain h y where y: "heap_view (mg_heap m) h" "map_of h r = Some y"
        "v = vis_set (go_peers (node_goal E h t1 ?rules now r y))"
        using pf n v unfolding m0 by fastforce
      have "visible_in ?S r w" if w: "w \<in> set v" for w
      proof -
        from vis_set_sound [OF tenant_ok_view [OF y(1) t1(3)] w [unfolded y(3)]] obtain d z where
          d: "(d, z) \<in> set (tenant_nodes h t1)" "linked E t1 ?rules now (r, y) (d, z)" "node_ip z = IP4 w" by blast
        obtain z0 where z0: "(d, z0) \<in> set (tenant_nodes (mg_heap m) t1)" "same_view z0 z"
          using heap_view_nodes [OF y(1) d(1)] by blast
        have "same_view x y" using heap_viewD [OF y(1,2)] x(1) by (auto simp: tenant_nodes_iff)
        then have "linked E t1 ?rules now (r, x) (d, z0)" using d(2) linked_view z0(2) by blast
        with x(1) z0 d(3) show ?thesis unfolding visible_in_def by (force simp: same_view_def)
      qed
      with last show "\<exists>S. map_of (mg_last ?m) (tn_id t1) = Some S \<and> (\<forall>w\<in>set v. visible_in S r w)" by blast
    }
    show "\<exists>S x. map_of (mg_last ?m) (tn_id t1) = Some S \<and> (r, x) \<in> set (tenant_nodes (sn_heap S) (sn_tenant S)) \<and> node_ip x = node_ip n"
      using last x by (auto simp: same_view_def)
  qed
  have others: "seen_inv (mg_last ?m) (mg_heap ?m) t'" if t': "map_of (mg_tenants m) tid' = Some t'" "tid' \<noteq> tid" for tid' t'
  proof -
    have "seen_inv (mg_last m) (mg_heap m) t'" using i t' by (simp add: inv_except_def)
    moreover have "tenant_nodes (mg_heap ?m) t' = tenant_nodes (mg_heap m) t'"
      by (rule tenant_nodes_cong) (use out other_tenant_node [OF s t'(1) t t'(2)] in blast)
    moreover have "tn_id t' = tid'" using s t'(1) by (simp add: struct_inv_def)
    ultimately show ?thesis using t'(2) by (simp add: seen_inv_def f(2))
  qed
  show ?thesis
    unfolding m mgr_inv_def
    using struct seen others by (auto simp: f(1) split: if_splits)
qed

end
