(* ===== verification/Net_Ops.thy ===== *)
theory Net_Ops
  imports Net_Safety
begin

text \<open>
  Every operation of the network manager keeps its invariant (\<open>mgr_inv\<close>): the changes of one node or
  one tenant, loading, registration, removal, and the operations built from them.
\<close>

section \<open>Changing one node\<close>

text \<open>The part of a node the tables refer to stays, and a node without a connection sees nobody.\<close>

definition node_alike :: "node \<Rightarrow> node \<Rightarrow> bool" where
  "node_alike n n' \<longleftrightarrow> nr_node (n_rec n') = nr_node (n_rec n) \<and> nr_tenant (n_rec n') = nr_tenant (n_rec n)
     \<and> nr_kind (n_rec n') = nr_kind (n_rec n) \<and> nr_client (n_rec n') = nr_client (n_rec n) \<and> node_ip n' = node_ip n
     \<and> (n_ob n' = None \<longrightarrow> n_vis n' = None \<or> n_ob n = None \<and> n_vis n' = n_vis n)"

text \<open>Nothing becomes visible and nobody comes online.\<close>

definition node_quiet :: "node \<Rightarrow> node \<Rightarrow> bool" where
  "node_quiet n n' \<longleftrightarrow> (n_vis n' = n_vis n \<or> n_vis n' = None) \<and> (n_ob n = None \<longrightarrow> n_ob n' = None)"

lemma tenant_nodes_put:
  "(q, x) \<in> set (tenant_nodes (gm_put r n' h) t) \<longleftrightarrow> (if q = r then q \<in> node_refs t \<and> x = n' else (q, x) \<in> set (tenant_nodes h t))"
  by (auto simp: tenant_nodes_iff)

lemma tenant_ok_put:
  assumes "tenant_ok h t" and "map_of h r = Some n" and "node_alike n n'"
  shows "tenant_ok (gm_put r n' h) t"
  using assms by (auto simp: tenant_ok_def node_alike_def)

lemma tenant_inv_put:
  assumes "tenant_inv h t" and "map_of h r = Some n" and "node_alike n n'"
  shows "tenant_inv (gm_put r n' h) t"
proof -
  have "nr_tenant (n_rec x) = tn_id t \<and> map_of (tn_by_ip t) (node_ip x) = Some q
      \<and> (nr_kind (n_rec x) = KindDevice \<longrightarrow> map_of (tn_by_client t) (nr_client (n_rec x)) = Some q)
      \<and> (n_ob x = None \<longrightarrow> n_vis x = None)" if q: "(q, x) \<in> set (tenant_nodes (gm_put r n' h) t)" for q x
  proof (cases "q = r")
    case True
    with q have "(r, n) \<in> set (tenant_nodes h t)" "x = n'" using assms(2) by (simp_all add: tenant_nodes_iff)
    with tenant_invD [OF assms(1), of r n] assms(3) True show ?thesis by (auto simp: node_alike_def)
  next
    case False
    with q tenant_invD [OF assms(1), of q x] show ?thesis by (simp add: tenant_nodes_put)
  qed
  then show ?thesis
    using tenant_ok_put [OF _ assms(2,3)] assms(1) by (simp add: tenant_inv_def)
qed

lemma set_node_simps [simp]:
  "mg_tenants (set_node r n m) = mg_tenants m" "mg_last (set_node r n m) = mg_last m" "mg_heap (set_node r n m) = gm_put r n (mg_heap m)"
  "mg_pubs (set_node r n m) = mg_pubs m" "mg_obs (set_node r n m) = mg_obs m"
  by (simp_all add: set_node_def)

lemma set_node_struct:
  assumes s: "struct_inv m" and n: "map_of (mg_heap m) r = Some n" and "node_alike n n'"
  shows "struct_inv (set_node r n' m)"
proof -
  have "r < length (mg_heap m)" using struct_heap [OF s, of r] n by simp
  moreover have "length (gm_put r n' (mg_heap m)) = length (mg_heap m)" using n by (simp add: length_gm_put)
  ultimately show ?thesis
    using s tenant_inv_put [OF _ n assms(3)] unfolding struct_inv_def by auto
qed

lemma seen_inv_cong: "tenant_nodes h' t = tenant_nodes h t \<Longrightarrow> seen_inv sn h' t = seen_inv sn h t"
  by (simp add: seen_inv_def)

lemma set_node_other:
  assumes s: "struct_inv m" and "map_of (mg_heap m) r = Some n" and "map_of (mg_tenants m) tid = Some t" and "tid \<noteq> nr_tenant (n_rec n)"
  shows "tenant_nodes (gm_put r n' (mg_heap m)) t = tenant_nodes (mg_heap m) t"
proof (rule tenant_nodes_cong)
  fix q assume "q \<in> node_refs t"
  with struct_tenant [OF s assms(3)] tenant_invD(1) [of "mg_heap m" t r n] assms(2,4)
  show "map_of (gm_put r n' (mg_heap m)) q = map_of (mg_heap m) q" by (auto simp: tenant_nodes_iff)
qed

lemma set_node_except:
  assumes i: "inv_except tid m" and n: "map_of (mg_heap m) r = Some n" and "node_alike n n'" and "nr_tenant (n_rec n) = tid"
  shows "inv_except tid (set_node r n' m)"
proof -
  have s: "struct_inv m" using i by (simp add: inv_except_def)
  have "seen_inv (mg_last m) (gm_put r n' (mg_heap m)) t" if t: "map_of (mg_tenants m) tid' = Some t" "tid' \<noteq> tid" for tid' t
    using i t seen_inv_cong [OF set_node_other [OF s n t(1), of n']] assms(4) by (simp add: inv_except_def)
  then show ?thesis
    using set_node_struct [OF s n assms(3)] unfolding inv_except_def set_node_simps by blast
qed

lemma seen_inv_put:
  assumes "seen_inv sn h t" and n: "map_of h r = Some n" and "node_alike n n'" and "node_quiet n n'"
  shows "seen_inv sn (gm_put r n' h) t"
proof -
  have "(\<forall>v. n_vis x = Some v \<longrightarrow> (\<exists>S. map_of sn (tn_id t) = Some S \<and> (\<forall>w\<in>set v. visible_in S q w)))
      \<and> (n_ob x \<noteq> None \<longrightarrow> (\<exists>S y. map_of sn (tn_id t) = Some S \<and> (q, y) \<in> set (tenant_nodes (sn_heap S) (sn_tenant S)) \<and> node_ip y = node_ip x))"
    if q: "(q, x) \<in> set (tenant_nodes (gm_put r n' h) t)" for q x
  proof (cases "q = r")
    case True
    with q n have r: "(r, n) \<in> set (tenant_nodes h t)" "x = n'" by (simp_all add: tenant_nodes_iff)
    note at = assms(1) [unfolded seen_inv_def, rule_format, OF r(1)]
    show ?thesis
    proof (intro conjI allI impI)
      fix v assume "n_vis x = Some v"
      then have "n_vis n = Some v" using assms(4) r(2) by (auto simp: node_quiet_def)
      with at True show "\<exists>S. map_of sn (tn_id t) = Some S \<and> (\<forall>w\<in>set v. visible_in S q w)" by blast
    next
      assume "n_ob x \<noteq> None"
      then have "n_ob n \<noteq> None" "node_ip x = node_ip n" using assms(3,4) r(2) by (auto simp: node_alike_def node_quiet_def)
      with at True show "\<exists>S y. map_of sn (tn_id t) = Some S \<and> (q, y) \<in> set (tenant_nodes (sn_heap S) (sn_tenant S)) \<and> node_ip y = node_ip x"
        by metis
    qed
  next
    case False
    with q assms(1) show ?thesis unfolding seen_inv_def by (simp add: tenant_nodes_put)
  qed
  then show ?thesis unfolding seen_inv_def by blast
qed

lemma set_node_quiet:
  assumes i: "mgr_inv m" and n: "map_of (mg_heap m) r = Some n" and "node_alike n n'" and "node_quiet n n'"
  shows "mgr_inv (set_node r n' m)"
  using i set_node_struct [OF _ n assms(3)] seen_inv_put [OF _ n assms(3,4)] unfolding mgr_inv_def by simp

section \<open>Fields without invariant\<close>

lemma inv_fields [simp]:
  "mgr_inv (m\<lparr>mg_pubs := p\<rparr>) = mgr_inv m" "mgr_inv (m\<lparr>mg_obs := q\<rparr>) = mgr_inv m"
  "inv_except x (m\<lparr>mg_pubs := p\<rparr>) = inv_except x m" "inv_except x (m\<lparr>mg_obs := q\<rparr>) = inv_except x m"
  "struct_inv (m\<lparr>mg_pubs := p\<rparr>) = struct_inv m" "struct_inv (m\<lparr>mg_obs := q\<rparr>) = struct_inv m"
  by (simp_all add: mgr_inv_def inv_except_def struct_inv_def)

lemma close_ob_inv [simp]:
  "mgr_inv (close_ob q m) = mgr_inv m" "inv_except x (close_ob q m) = inv_except x m"
  "mgr_inv (close_opt o' m) = mgr_inv m" "inv_except x (close_opt o' m) = inv_except x m"
  by (simp_all add: close_ob_def close_opt_def split: option.split)

lemma close_ob_simps [simp]:
  "mg_tenants (close_ob q m) = mg_tenants m" "mg_heap (close_ob q m) = mg_heap m" "mg_last (close_ob q m) = mg_last m"
  "mg_tenants (close_opt o' m) = mg_tenants m" "mg_heap (close_opt o' m) = mg_heap m" "mg_last (close_opt o' m) = mg_last m"
  by (simp_all add: close_ob_def close_opt_def split: option.split)

lemma send_ctrl_inv [simp]:
  "mgr_inv (snd (send_ctrl q msg m)) = mgr_inv m" "inv_except x (snd (send_ctrl q msg m)) = inv_except x m"
  by (simp_all add: send_ctrl_def split: option.split prod.split)

section \<open>Changing one tenant\<close>

lemma set_tenant_simps [simp]:
  "mg_tenants (set_tenant t m) = gm_put (tn_id t) t (mg_tenants m)" "mg_heap (set_tenant t m) = mg_heap m"
  "mg_last (set_tenant t m) = mg_last m"
  by (simp_all add: set_tenant_def)

lemma set_tenant_struct: "struct_inv m \<Longrightarrow> tenant_inv (mg_heap m) t \<Longrightarrow> struct_inv (set_tenant t m)"
  unfolding struct_inv_def by auto

lemma set_tenant_except: "inv_except tid m \<Longrightarrow> tn_id t = tid \<Longrightarrow> tenant_inv (mg_heap m) t \<Longrightarrow> inv_except tid (set_tenant t m)"
  unfolding inv_except_def using set_tenant_struct by auto

lemma set_tenant_inv:
  "mgr_inv m \<Longrightarrow> tenant_inv (mg_heap m) t \<Longrightarrow> seen_inv (mg_last m) (mg_heap m) t \<Longrightarrow> mgr_inv (set_tenant t m)"
  unfolding mgr_inv_def using set_tenant_struct by auto

text \<open>A tenant with the same nodes and tables of nodes.\<close>

definition same_tables :: "tenant \<Rightarrow> tenant \<Rightarrow> bool" where
  "same_tables t t' \<longleftrightarrow> tn_id t' = tn_id t \<and> tn_nodes t' = tn_nodes t \<and> tn_by_ip t' = tn_by_ip t \<and> tn_by_client t' = tn_by_client t"

lemma same_tables_inv:
  assumes "same_tables t t'"
  shows "tenant_inv h t' = tenant_inv h t" and "seen_inv sn h t' = seen_inv sn h t"
  using assms by (simp_all add: same_tables_def tenant_inv_def seen_inv_def tenant_ok_def node_refs_def tenant_nodes_def)

lemma set_same_tables:
  assumes "mgr_inv m" and t: "map_of (mg_tenants m) tid = Some t" and "same_tables t t'"
  shows "mgr_inv (set_tenant t' m)"
proof (rule set_tenant_inv [OF assms(1)])
  have s: "struct_inv m" using assms(1) by (simp add: mgr_inv_def)
  show "tenant_inv (mg_heap m) t'" using struct_tenant(2) [OF s t] same_tables_inv(1) [OF assms(3)] by simp
  show "seen_inv (mg_last m) (mg_heap m) t'"
    using assms(1) t same_tables_inv(2) [OF assms(3)] by (simp add: mgr_inv_def)
qed

text \<open>The shape of most administrative operations: change a tenant, then recompute.\<close>

lemma change_and_recompute:
  assumes "mgr_inv m" and t: "map_of (mg_tenants m) tid = Some t" and "same_tables t t'"
  shows "mgr_inv (recompute E now tid (set_tenant t' m))"
proof (rule recompute_restores)
  have "tn_id t = tid" using struct_tenant(1) [OF _ t] assms(1) by (simp add: mgr_inv_def)
  then show "map_of (mg_tenants (set_tenant t' m)) tid \<noteq> None" using assms(3) by (simp add: same_tables_def)
qed (rule mgr_inv_except [OF set_same_tables [OF assms]])

lemma recompute_inv: "mgr_inv m \<Longrightarrow> mgr_inv (recompute E now tid m)"
  by (cases "map_of (mg_tenants m) tid", simp add: recompute_def)
    (rule recompute_restores [OF mgr_inv_except], simp_all)

section \<open>New nodes\<close>

lemma set_gm_put_new: "map_of m k = None \<Longrightarrow> set (gm_put k v m) = insert (k, v) (set m)"
  by (induction m) (auto split: if_splits)

lemma new_ref_free: "struct_inv m \<Longrightarrow> map_of (mg_heap m) (new_ref m) = None"
  using struct_heap [of m "new_ref m"] by (simp add: new_ref_def)

lemma ref_not_new: "struct_inv m \<Longrightarrow> tenant_ok (mg_heap m) t \<Longrightarrow> r \<in> node_refs t \<Longrightarrow> r \<noteq> new_ref m"
  using new_ref_free tenant_okE by (metis option.distinct(1))

text \<open>An unused reference does not matter to any tenant.\<close>

lemma tenant_ok_extend:
  assumes "tenant_ok h t" and "r \<notin> node_refs t"
  shows "tenant_ok (gm_put r n h) t" and "tenant_nodes (gm_put r n h) t = tenant_nodes h t"
proof -
  have "q \<noteq> r" if "(k, q) \<in> set (tn_nodes t)" for k q using that assms(2) by (force simp: node_refs_def)
  with assms show "tenant_ok (gm_put r n h) t" unfolding tenant_ok_def by (auto simp: node_refs_def)
  show "tenant_nodes (gm_put r n h) t = tenant_nodes h t" by (rule tenant_nodes_cong) (use assms(2) in auto)
qed

lemma tenant_inv_extend: "tenant_inv h t \<Longrightarrow> r \<notin> node_refs t \<Longrightarrow> tenant_inv (gm_put r n h) t"
  using tenant_ok_extend [of h t r n] by (simp add: tenant_inv_def)

lemma extend_inv:
  assumes "mgr_inv m"
  shows "mgr_inv (set_node (new_ref m) n m)"
proof -
  have s: "struct_inv m" using assms by (simp add: mgr_inv_def)
  have free: "new_ref m \<notin> node_refs t" if "tenant_inv (mg_heap m) t" for t
    using ref_not_new [OF s] that by (auto simp: tenant_inv_def)
  have heap: "map_of (gm_put (new_ref m) n (mg_heap m)) r \<noteq> None \<longleftrightarrow> r < length (gm_put (new_ref m) n (mg_heap m))" for r
    using struct_heap [OF s, of r] new_ref_free [OF s] by (auto simp: length_gm_put new_ref_def)
  have "struct_inv (set_node (new_ref m) n m)"
    unfolding struct_inv_def set_node_simps
  proof (intro conjI allI impI)
    show "gm_ok (gm_put (new_ref m) n (mg_heap m))" "gm_ok (mg_tenants m)" using s by (simp_all add: struct_inv_def)
    show "map_of (gm_put (new_ref m) n (mg_heap m)) r \<noteq> None \<longleftrightarrow> r < length (gm_put (new_ref m) n (mg_heap m))" for r by (rule heap)
    show "tn_id t = tid" "tenant_inv (gm_put (new_ref m) n (mg_heap m)) t" if "map_of (mg_tenants m) tid = Some t" for tid t
      using struct_tenant [OF s that] tenant_inv_extend [OF _ free] by simp_all
    show "snapshot_ok S" if "map_of (mg_last m) tid = Some S" for tid S using s that by (simp add: struct_inv_def)
  qed
  moreover have "seen_inv (mg_last m) (gm_put (new_ref m) n (mg_heap m)) t" if "map_of (mg_tenants m) tid = Some t" for tid t
  proof -
    have "tenant_inv (mg_heap m) t" by (rule struct_tenant(2) [OF s that])
    then have same: "tenant_nodes (gm_put (new_ref m) n (mg_heap m)) t = tenant_nodes (mg_heap m) t"
      using tenant_ok_extend(2) [OF _ free] by (simp add: tenant_inv_def)
    have "seen_inv (mg_last m) (mg_heap m) t" using assms that by (simp add: mgr_inv_def)
    then show ?thesis unfolding seen_inv_cong [OF same] .
  qed
  ultimately show ?thesis by (simp add: mgr_inv_def)
qed

text \<open>A new offline node that fits the tables of a tenant.\<close>

definition node_fits :: "bool \<Rightarrow> node \<Rightarrow> tenant \<Rightarrow> bool" where
  "node_fits dev n t \<longleftrightarrow> map_of (tn_nodes t) (nr_node (n_rec n)) = None \<and> map_of (tn_by_ip t) (node_ip n) = None
     \<and> is4 (node_ip n) \<and> nr_tenant (n_rec n) = tn_id t \<and> n_ob n = None \<and> n_vis n = None
     \<and> (nr_kind (n_rec n) = KindDevice \<longleftrightarrow> dev) \<and> (dev \<longrightarrow> map_of (tn_by_client t) (nr_client (n_rec n)) = None)"

lemma with_node_refs:
  assumes "gm_ok (tn_nodes t)" and "map_of (tn_nodes t) (nr_node (n_rec n)) = None"
  shows "node_refs (with_node dev r n t) = insert r (node_refs t)"
proof -
  have "set (gm_put (nr_node (n_rec n)) r (tn_nodes t)) = insert (nr_node (n_rec n), r) (set (tn_nodes t))"
    using assms(2) by (simp add: set_gm_put_new)
  then show ?thesis by (simp add: node_refs_def with_node_def)
qed

lemma tenant_inv_with:
  assumes inv: "tenant_inv h t" and f: "node_fits dev n t" and r: "map_of h r = None"
  shows "tenant_inv (gm_put r n h) (with_node dev r n t)"
    and "(q, x) \<in> set (tenant_nodes (gm_put r n h) (with_node dev r n t)) \<longleftrightarrow> (q, x) \<in> set (tenant_nodes h t) \<or> q = r \<and> x = n"
proof -
  have ok: "tenant_ok h t" using inv by (simp add: tenant_inv_def)
  have rt: "r \<notin> node_refs t" using r tenant_okE [OF ok] by (metis option.distinct(1))
  have gm: "gm_ok (tn_nodes t)" using ok by (simp add: tenant_ok_def)
  have refs: "node_refs (with_node dev r n t) = insert r (node_refs t)"
    using f by (intro with_node_refs [OF gm]) (simp add: node_fits_def)
  show nodes: "(q, x) \<in> set (tenant_nodes (gm_put r n h) (with_node dev r n t)) \<longleftrightarrow> (q, x) \<in> set (tenant_nodes h t) \<or> q = r \<and> x = n" for q x
    using rt by (auto simp: tenant_nodes_iff refs)
  have old: "map_of (gm_put r n h) q = map_of h q" if "q \<in> node_refs t" for q using that rt by auto
  have "tenant_ok (gm_put r n h) (with_node dev r n t)"
    unfolding tenant_ok_def
  proof (intro conjI allI impI ballI)
    show "gm_ok (tn_nodes (with_node dev r n t))" "gm_ok (tn_by_ip (with_node dev r n t))" "gm_ok (tn_by_client (with_node dev r n t))"
      using ok by (simp_all add: tenant_ok_def with_node_def)
  next
    fix kq assume "kq \<in> set (tn_nodes (with_node dev r n t))"
    then have "kq = (nr_node (n_rec n), r) \<or> kq \<in> set (tn_nodes t)" by (auto simp: with_node_def dest: set_gm_put)
    then show "case kq of (k, q) \<Rightarrow> \<exists>x. map_of (gm_put r n h) q = Some x \<and> nr_node (n_rec x) = k \<and> is4 (node_ip x)"
    proof
      assume "kq = (nr_node (n_rec n), r)" then show ?thesis using f by (simp add: node_fits_def)
    next
      assume k: "kq \<in> set (tn_nodes t)"
      then have "snd kq \<in> node_refs t" by (simp add: node_refs_def)
      with k ok old show ?thesis unfolding tenant_ok_def by fastforce
    qed
  next
    fix ip q assume "map_of (tn_by_ip (with_node dev r n t)) ip = Some q"
    then have "ip = node_ip n \<and> q = r \<or> map_of (tn_by_ip t) ip = Some q" by (auto simp: with_node_def split: if_splits)
    then show "q \<in> node_refs (with_node dev r n t)" "\<And>x. map_of (gm_put r n h) q = Some x \<Longrightarrow> node_ip x = ip"
      using ok old rt unfolding tenant_ok_def refs by auto
  next
    fix c q assume "map_of (tn_by_client (with_node dev r n t)) c = Some q"
    then have "dev \<and> c = nr_client (n_rec n) \<and> q = r \<or> map_of (tn_by_client t) c = Some q"
      by (auto simp: with_node_def split: if_splits)
    then show "q \<in> node_refs (with_node dev r n t)" "\<And>x. map_of (gm_put r n h) q = Some x \<Longrightarrow> nr_kind (n_rec x) = KindDevice"
        "\<And>x. map_of (gm_put r n h) q = Some x \<Longrightarrow> nr_client (n_rec x) = c"
      using ok old rt f unfolding tenant_ok_def refs node_fits_def by auto
  qed
  moreover have "nr_tenant (n_rec x) = tn_id t \<and> map_of (tn_by_ip (with_node dev r n t)) (node_ip x) = Some q
      \<and> (nr_kind (n_rec x) = KindDevice \<longrightarrow> map_of (tn_by_client (with_node dev r n t)) (nr_client (n_rec x)) = Some q)
      \<and> (n_ob x = None \<longrightarrow> n_vis x = None)"
    if "(q, x) \<in> set (tenant_nodes h t) \<or> q = r \<and> x = n" for q x
    using that
  proof
    assume q: "(q, x) \<in> set (tenant_nodes h t)"
    note d = tenant_invD [OF inv q]
    have "node_ip x \<noteq> node_ip n" using d(2) f by (auto simp: node_fits_def)
    moreover have "nr_kind (n_rec x) = KindDevice \<and> dev \<Longrightarrow> nr_client (n_rec x) \<noteq> nr_client (n_rec n)"
      using d(3) f by (auto simp: node_fits_def)
    ultimately show ?thesis using d by (auto simp: with_node_def)
  next
    assume "q = r \<and> x = n" then show ?thesis using f by (auto simp: node_fits_def with_node_def)
  qed
  ultimately show "tenant_inv (gm_put r n h) (with_node dev r n t)"
    unfolding tenant_inv_def nodes by (simp add: with_node_def)
qed

lemma seen_inv_with:
  assumes "seen_inv sn h t" and "tenant_inv h t" and "node_fits dev n t" and "map_of h r = None"
  shows "seen_inv sn (gm_put r n h) (with_node dev r n t)"
proof -
  have "tn_id (with_node dev r n t) = tn_id t" by (simp add: with_node_def)
  with assms(1,3) show ?thesis
    unfolding seen_inv_def tenant_inv_with(2) [OF assms(2-4)] by (auto simp: node_fits_def)
qed

lemma add_node_inv:
  assumes i: "mgr_inv m" and t: "map_of (mg_tenants m) (tn_id t) = Some t" and f: "node_fits dev n t"
  shows "mgr_inv (snd (add_node dev a n t m))" and "fst (add_node dev a n t m) = new_ref m"
    and "map_of (mg_heap (snd (add_node dev a n t m))) (new_ref m) = Some n"
    and "map_of (mg_tenants (snd (add_node dev a n t m))) (tn_id t) \<noteq> None"
proof -
  have s: "struct_inv m" and se: "seen_inv (mg_last m) (mg_heap m) t" using i t by (simp_all add: mgr_inv_def)
  let ?r = "new_ref m" and ?m1 = "set_node (new_ref m) n m"
  let ?t = "(with_node dev ?r n t)\<lparr>tn_alloc := a\<rparr>"
  have add: "add_node dev a n t m = (?r, (set_tenant ?t ?m1)\<lparr>mg_pubs := gm_put (node_pub n) (tn_id t) (mg_pubs m)\<rparr>)"
    by (simp add: add_node_def Let_def)
  have same: "same_tables (with_node dev ?r n t) ?t" by (simp add: same_tables_def)
  note ti = struct_tenant(2) [OF s t]
  have "mgr_inv (set_tenant ?t ?m1)"
    by (rule set_tenant_inv [OF extend_inv [OF i]])
      (simp_all add: same_tables_inv [OF same] tenant_inv_with(1) [OF ti f new_ref_free [OF s]] seen_inv_with [OF se ti f new_ref_free [OF s]])
  then show "mgr_inv (snd (add_node dev a n t m))" by (simp add: add)
  show "fst (add_node dev a n t m) = new_ref m" "map_of (mg_heap (snd (add_node dev a n t m))) (new_ref m) = Some n"
    "map_of (mg_tenants (snd (add_node dev a n t m))) (tn_id t) \<noteq> None"
    by (simp_all add: add with_node_def)
qed

section \<open>Removal\<close>

definition without_node :: "node \<Rightarrow> tenant \<Rightarrow> tenant" where
  "without_node n t =
     t\<lparr>tn_nodes := gm_del (nr_node (n_rec n)) (tn_nodes t), tn_by_ip := gm_del (node_ip n) (tn_by_ip t),
       tn_by_client := (if nr_kind (n_rec n) = KindDevice then gm_del (nr_client (n_rec n)) (tn_by_client t) else tn_by_client t)\<rparr>"

lemma tenant_inv_without:
  assumes inv: "tenant_inv h t" and r: "(r, n) \<in> set (tenant_nodes h t)"
  shows "tenant_inv h (without_node n t)"
    and "(q, x) \<in> set (tenant_nodes h (without_node n t)) \<longleftrightarrow> (q, x) \<in> set (tenant_nodes h t) \<and> q \<noteq> r"
proof -
  have ok: "tenant_ok h t" using inv by (simp add: tenant_inv_def)
  have rn: "map_of h r = Some n" "r \<in> node_refs t" using r by (simp_all add: tenant_nodes_iff)
  have gm: "gm_ok (tn_nodes t)" using ok by (simp add: tenant_ok_def)
  have key: "nr_node (n_rec x) = k \<and> map_of h q = Some x" if "(k, q) \<in> set (tn_nodes t)" "map_of h q = Some x" for k q x
    using ok that unfolding tenant_ok_def by fastforce
  have self: "map_of (tn_nodes t) (nr_node (n_rec n)) = Some r"
    by (rule tenant_okE [OF ok rn(2)]) (use rn in simp)
  have refs: "q \<in> node_refs (without_node n t) \<longleftrightarrow> q \<in> node_refs t \<and> q \<noteq> r" for q
  proof -
    have "q \<in> node_refs (without_node n t) \<longleftrightarrow> (\<exists>k. k \<noteq> nr_node (n_rec n) \<and> (k, q) \<in> set (tn_nodes t))"
      unfolding node_refs_def without_node_def by (auto simp: AList.delete_eq image_iff) metis
    also have "\<dots> \<longleftrightarrow> q \<in> node_refs t \<and> q \<noteq> r"
    proof
      assume "\<exists>k. k \<noteq> nr_node (n_rec n) \<and> (k, q) \<in> set (tn_nodes t)"
      then obtain k where k: "k \<noteq> nr_node (n_rec n)" "(k, q) \<in> set (tn_nodes t)" by blast
      then have "q \<noteq> r" using key [OF k(2), of n] rn(1) by auto
      with k show "q \<in> node_refs t \<and> q \<noteq> r" by (force simp: node_refs_def)
    next
      assume q: "q \<in> node_refs t \<and> q \<noteq> r"
      then obtain k where k: "(k, q) \<in> set (tn_nodes t)" by (auto simp: node_refs_def)
      with gm have "map_of (tn_nodes t) k = Some q" by simp
      with self q have "k \<noteq> nr_node (n_rec n)" by auto
      with k show "\<exists>k. k \<noteq> nr_node (n_rec n) \<and> (k, q) \<in> set (tn_nodes t)" by blast
    qed
    finally show ?thesis .
  qed
  show nodes: "(q, x) \<in> set (tenant_nodes h (without_node n t)) \<longleftrightarrow> (q, x) \<in> set (tenant_nodes h t) \<and> q \<noteq> r" for q x
    by (auto simp: tenant_nodes_iff refs)
  note d = tenant_invD [OF inv]
  have "tenant_ok h (without_node n t)"
    unfolding tenant_ok_def
  proof (intro conjI allI impI ballI)
    show "gm_ok (tn_nodes (without_node n t))" "gm_ok (tn_by_ip (without_node n t))" "gm_ok (tn_by_client (without_node n t))"
      using ok by (simp_all add: tenant_ok_def without_node_def)
  next
    fix kq assume "kq \<in> set (tn_nodes (without_node n t))"
    then have "kq \<in> set (tn_nodes t)" by (auto simp: without_node_def AList.delete_eq)
    then show "case kq of (k, q) \<Rightarrow> \<exists>x. map_of h q = Some x \<and> nr_node (n_rec x) = k \<and> is4 (node_ip x)"
      using ok unfolding tenant_ok_def by blast
  next
    fix ip q assume "map_of (tn_by_ip (without_node n t)) ip = Some q"
    then have ip: "ip \<noteq> node_ip n" "map_of (tn_by_ip t) ip = Some q" by (auto simp: without_node_def split: if_splits)
    then show "q \<in> node_refs (without_node n t)" using ok rn(1) unfolding refs tenant_ok_def by auto
    show "node_ip x = ip" if "map_of h q = Some x" for x using ok ip(2) that unfolding tenant_ok_def by blast
  next
    fix c q assume c: "map_of (tn_by_client (without_node n t)) c = Some q"
    then have old: "map_of (tn_by_client t) c = Some q" by (auto simp: without_node_def split: if_splits)
    show "nr_kind (n_rec x) = KindDevice" "nr_client (n_rec x) = c" if "map_of h q = Some x" for x
      using ok old that unfolding tenant_ok_def by blast+
    have "q \<noteq> r"
    proof
      assume "q = r"
      with ok old rn(1) have "nr_kind (n_rec n) = KindDevice" "nr_client (n_rec n) = c" unfolding tenant_ok_def by blast+
      with c show False by (simp add: without_node_def)
    qed
    with ok old show "q \<in> node_refs (without_node n t)" unfolding refs tenant_ok_def by blast
  qed
  moreover have "nr_tenant (n_rec x) = tn_id t \<and> map_of (tn_by_ip (without_node n t)) (node_ip x) = Some q
      \<and> (nr_kind (n_rec x) = KindDevice \<longrightarrow> map_of (tn_by_client (without_node n t)) (nr_client (n_rec x)) = Some q)
      \<and> (n_ob x = None \<longrightarrow> n_vis x = None)"
    if q: "(q, x) \<in> set (tenant_nodes h t)" "q \<noteq> r" for q x
  proof -
    have "node_ip x \<noteq> node_ip n" using d(2) [OF q(1)] d(2) [OF r] q(2) by auto
    moreover have "nr_kind (n_rec x) = KindDevice \<and> nr_kind (n_rec n) = KindDevice \<Longrightarrow> nr_client (n_rec x) \<noteq> nr_client (n_rec n)"
      using d(3) [OF q(1)] d(3) [OF r] q(2) by auto
    ultimately show ?thesis using d [OF q(1)] by (auto simp: without_node_def)
  qed
  moreover have "tn_id (without_node n t) = tn_id t" by (simp add: without_node_def)
  ultimately show "tenant_inv h (without_node n t)"
    unfolding tenant_inv_def nodes by metis
qed

lemma remove_node_def2:
  "map_of (mg_heap m) r = Some n \<Longrightarrow>
   remove_node t r m = close_opt (n_ob n) ((set_tenant (without_node n t) m)\<lparr>mg_pubs := gm_del (node_pub n) (mg_pubs m)\<rparr>)"
  by (simp add: remove_node_def without_node_def Let_def)

lemma seen_inv_without:
  assumes "seen_inv sn h t" and "tenant_inv h t" and "(r, n) \<in> set (tenant_nodes h t)"
  shows "seen_inv sn h (without_node n t)"
proof -
  have "tn_id (without_node n t) = tn_id t" by (simp add: without_node_def)
  with assms(1) show ?thesis unfolding seen_inv_def tenant_inv_without(2) [OF assms(2,3)] by metis
qed

lemma remove_node_inv:
  assumes t: "map_of (mg_tenants m) tid = Some t" and r: "(r, n) \<in> set (tenant_nodes (mg_heap m) t)"
  shows "mgr_inv m \<Longrightarrow> mgr_inv (remove_node t r m)"
    and "inv_except tid m \<Longrightarrow> inv_except tid (remove_node t r m)"
    and "struct_inv m \<Longrightarrow> mg_tenants (remove_node t r m) = gm_put tid (without_node n t) (mg_tenants m)"
    and "mg_heap (remove_node t r m) = mg_heap m"
proof -
  have rm: "remove_node t r m = close_opt (n_ob n) ((set_tenant (without_node n t) m)\<lparr>mg_pubs := gm_del (node_pub n) (mg_pubs m)\<rparr>)"
    using r by (intro remove_node_def2) (simp add: tenant_nodes_iff)
  have id: "tn_id (without_node n t) = tn_id t" by (simp add: without_node_def)
  show "mg_heap (remove_node t r m) = mg_heap m" by (simp add: rm)
  show "struct_inv m \<Longrightarrow> mg_tenants (remove_node t r m) = gm_put tid (without_node n t) (mg_tenants m)"
    using struct_tenant(1) [OF _ t] by (simp add: rm id)
  show "inv_except tid (remove_node t r m)" if i: "inv_except tid m"
  proof -
    have s: "struct_inv m" using i by (simp add: inv_except_def)
    note st = struct_tenant [OF s t]
    show ?thesis
      unfolding rm using set_tenant_except [OF i, of "without_node n t"] st(1) tenant_inv_without(1) [OF st(2) r] by (simp add: id)
  qed
  show "mgr_inv (remove_node t r m)" if i: "mgr_inv m"
  proof -
    have s: "struct_inv m" and se: "seen_inv (mg_last m) (mg_heap m) t" using i t by (simp_all add: mgr_inv_def)
    note st = struct_tenant [OF s t]
    show ?thesis
      unfolding rm using set_tenant_inv [OF i tenant_inv_without(1) [OF st(2) r] seen_inv_without [OF se st(2) r]] by simp
  qed
qed

section \<open>Loading\<close>

text \<open>What the database guarantees of the node records of a tenant (primary key, and the unique indexes
  over address and client).\<close>

definition records_ok :: "string \<Rightarrow> node_rec list \<Rightarrow> bool" where
  "records_ok tid rs \<longleftrightarrow> distinct (map nr_node rs) \<and> distinct (map nr_ip rs)
     \<and> distinct (map nr_client (filter (\<lambda>r. nr_kind r = KindDevice) rs)) \<and> (\<forall>r\<in>set rs. nr_tenant r = tid)"

definition store_ok :: "store \<Rightarrow> bool" where
  "store_ok sto \<longleftrightarrow> (\<forall>tid l. so_load sto tid = Inr l \<longrightarrow> records_ok tid (ld_nodes l))"

definition pool4 :: "prefix \<Rightarrow> bool" where
  "pool4 p \<longleftrightarrow> (case p of Pfx4 _ _ \<Rightarrow> True | _ \<Rightarrow> False)"

lemma pool4_contains: "pool4 p \<Longrightarrow> prefix_contains p a \<Longrightarrow> is4 a"
  by (cases p; cases a) (simp_all add: pool4_def)

lemma validate_pool4: "validate_network_cidr p \<Longrightarrow> pool4 p"
  by (cases p) (simp_all add: validate_network_cidr_def pool4_def)

definition rec_fresh :: "node_rec \<Rightarrow> tenant \<Rightarrow> bool" where
  "rec_fresh r t \<longleftrightarrow> map_of (tn_nodes t) (nr_node r) = None \<and> map_of (tn_by_ip t) (nr_ip r) = None
     \<and> (nr_kind r = KindDevice \<longrightarrow> map_of (tn_by_client t) (nr_client r) = None)"

lemma rec_fresh_step:
  assumes ok: "records_ok tid (r # rs)" and "x \<in> set rs" and "nr_kind r = KindDevice" and f: "rec_fresh x t" and "n_rec n = r"
  shows "rec_fresh x (with_node True q n t)"
proof -
  have "nr_node x \<noteq> nr_node r" "nr_ip x \<noteq> nr_ip r"
    using ok imageI [OF assms(2), of nr_node] imageI [OF assms(2), of nr_ip] unfolding records_ok_def by auto
  moreover have "nr_client x \<noteq> nr_client r" if "nr_kind x = KindDevice"
  proof -
    have "x \<in> set (filter (\<lambda>r. nr_kind r = KindDevice) rs)" using assms(2) that by simp
    then have "nr_client x \<in> nr_client ` set (filter (\<lambda>r. nr_kind r = KindDevice) rs)" by (rule imageI)
    with ok assms(3) show ?thesis unfolding records_ok_def by auto
  qed
  ultimately show ?thesis using f assms(5) by (simp add: rec_fresh_def with_node_def)
qed

lemma load_fold:
  assumes "mgr_inv m" and "map_of (mg_tenants m) (tn_id t) = None" and "pool4 (ia_pool (tn_alloc t))"
    and "tenant_inv (mg_heap m) t" and "seen_inv sn (mg_heap m) t"
    and "records_ok (tn_id t) rs" and "\<forall>r\<in>set rs. rec_fresh r t"
    and "fold load_device rs (t, m) = (t', m')"
  shows "mgr_inv m' \<and> mg_tenants m' = mg_tenants m \<and> mg_last m' = mg_last m \<and> tn_id t' = tn_id t
    \<and> tenant_inv (mg_heap m') t' \<and> seen_inv sn (mg_heap m') t'"
  using assms
proof (induction rs arbitrary: t m)
  case (Cons r rs)
  have ro: "records_ok (tn_id t) rs" using Cons.prems(6) by (auto simp: records_ok_def split: if_splits)
  show ?case
  proof (cases "nr_kind r \<noteq> KindDevice \<or> \<not> pool_contains (tn_alloc t) (nr_ip r)")
    case True
    then have "load_device r (t, m) = (t, m)" by (simp add: load_device_def)
    with Cons.IH [OF Cons.prems(1-5) ro] Cons.prems(7,8) show ?thesis by simp
  next
    case False
    let ?q = "new_ref m" and ?n = "new_node r (device_subject (nr_client r)) None"
    let ?m = "(set_node ?q ?n m)\<lparr>mg_pubs := gm_put (nr_wg_pub r) (tn_id t) (mg_pubs m)\<rparr>" and ?t = "with_node True ?q ?n t"
    have ld: "load_device r (t, m) = (?t, ?m)" using False by (simp add: load_device_def Let_def)
    have s: "struct_inv m" using Cons.prems(1) by (simp add: mgr_inv_def)
    have f: "node_fits True ?n t"
      using Cons.prems(3,6,7) False pool4_contains
      by (auto simp: node_fits_def new_node_def rec_fresh_def records_ok_def pool_contains_def)
    have "mgr_inv ?m" using extend_inv [OF Cons.prems(1), of ?n] by simp
    moreover have "map_of (mg_tenants ?m) (tn_id ?t) = None" "pool4 (ia_pool (tn_alloc ?t))" "records_ok (tn_id ?t) rs"
      using Cons.prems(2,3) ro by (simp_all add: with_node_def)
    moreover have "tenant_inv (mg_heap ?m) ?t" "seen_inv sn (mg_heap ?m) ?t"
      using tenant_inv_with(1) [OF Cons.prems(4) f new_ref_free [OF s]]
        seen_inv_with [OF Cons.prems(5,4) f new_ref_free [OF s]] by simp_all
    moreover have "\<forall>x\<in>set rs. rec_fresh x ?t"
      using rec_fresh_step [OF Cons.prems(6)] Cons.prems(7) False by (simp add: new_node_def)
    ultimately have "mgr_inv m' \<and> mg_tenants m' = mg_tenants ?m \<and> mg_last m' = mg_last ?m \<and> tn_id t' = tn_id ?t
        \<and> tenant_inv (mg_heap m') t' \<and> seen_inv sn (mg_heap m') t'"
      using Cons.IH [of ?m ?t] Cons.prems(8) ld by simp
    then show ?thesis by (simp add: with_node_def)
  qed
qed simp

lemma tenant_inv_empty: "tenant_inv h (empty_tenant tid pool)" "seen_inv sn h (empty_tenant tid pool)"
  by (simp_all add: tenant_inv_def seen_inv_def tenant_ok_def empty_tenant_def tenant_nodes_def List.map_filter_simps)

text \<open>Loading a tenant keeps the invariant, and so do failures.\<close>

lemma tenant_locked_inv:
  assumes i: "mgr_inv m" and "store_ok sto" and "pool4 (ev_pool E)" and l: "tenant_locked E sto tid m = (res, m')"
  shows "mgr_inv m' \<and> (\<forall>t. res = Inr t \<longrightarrow> map_of (mg_tenants m') tid = Some t \<and> tn_id t = tid)"
proof (cases "map_of (mg_tenants m) tid")
  case (Some t)
  then have "res = Inr t" "m' = m" using l by (simp_all add: tenant_locked_def)
  moreover have "struct_inv m" using i by (simp add: mgr_inv_def)
  ultimately show ?thesis using i Some struct_tenant(1) by blast
next
  case None
  show ?thesis
  proof (cases "so_load sto tid")
    case (Inl e)
    with None l i show ?thesis by (auto simp: tenant_locked_def)
  next
    case (Inr d)
    let ?pool = "case ld_network d of Some p \<Rightarrow> if validate_network_cidr p then p else ev_pool E | None \<Rightarrow> ev_pool E"
    let ?t0 = "(empty_tenant tid ?pool)\<lparr>tn_rules := table_of tr_id (ld_rules d)\<rparr>"
    obtain t1 m1 where f: "fold load_device (ld_nodes d) (?t0, m) = (t1, m1)" by (cases "fold load_device (ld_nodes d) (?t0, m)")
    have same: "same_tables (empty_tenant tid ?pool) ?t0" by (simp add: same_tables_def)
    have p4: "pool4 (ia_pool (tn_alloc ?t0))"
      using assms(3) validate_pool4 by (auto simp: empty_tenant_def new_alloc_def split: option.split)
    have id: "tn_id ?t0 = tid" by (simp add: empty_tenant_def)
    have "\<forall>r\<in>set (ld_nodes d). rec_fresh r ?t0" by (simp add: rec_fresh_def empty_tenant_def)
    moreover have "records_ok (tn_id ?t0) (ld_nodes d)" using assms(2) Inr by (simp add: id store_ok_def)
    ultimately have L: "mgr_inv m1" "mg_tenants m1 = mg_tenants m" "tn_id t1 = tid" "tenant_inv (mg_heap m1) t1"
        "seen_inv (mg_last m1) (mg_heap m1) t1"
      using load_fold [OF i _ p4 _ _ _ _ f, of "mg_last m"] None id tenant_inv_empty same_tables_inv [OF same] by auto
    show ?thesis
    proof (cases "ld_shares d")
      case (Inl e)
      with None Inr f l have "res = Inl e" "m' = m1" by (simp_all add: tenant_locked_def)
      with L(1) show ?thesis by simp
    next
      case (Inr ss)
      let ?t = "t1\<lparr>tn_shares := table_of sh_id ss\<rparr>"
      have r: "res = Inr ?t" "m' = set_tenant ?t m1"
        using None \<open>so_load sto tid = Inr d\<close> Inr f l by (simp_all add: tenant_locked_def Let_def)
      have "same_tables t1 ?t" by (simp add: same_tables_def)
      then have "mgr_inv (set_tenant ?t m1)" using L set_tenant_inv [OF L(1), of ?t] same_tables_inv by simp
      with r L(3) show ?thesis by simp
    qed
  qed
qed
section \<open>Registration\<close>

lemma scan_free: "alloc_scan used first lst k cur = Some w \<Longrightarrow> \<not> used (IP4 w)"
  by (induction used first lst k cur rule: alloc_scan.induct) (simp_all split: if_splits)

lemma allocate_free: "ip_allocate used a = Some (ip, a') \<Longrightarrow> is4 ip \<and> \<not> used ip"
  by (auto simp: ip_allocate_def Let_def split: if_splits option.splits dest: scan_free)

lemma new_node_simps [simp]:
  "n_rec (new_node rec sub ex) = rec" "n_ob (new_node rec sub ex) = None" "n_vis (new_node rec sub ex) = None"
  by (simp_all add: new_node_def)

text \<open>The identifier of a new node is new in its tenant.\<close>

definition fresh_id :: "string \<Rightarrow> tenant \<Rightarrow> bool" where
  "fresh_id rnd t \<longleftrightarrow> map_of (tn_nodes t) (''nod_'' @ rnd) = None"

text \<open>What the choice of a node for a connection leaves behind.\<close>

definition node_chosen :: "string \<Rightarrow> (net_err + node_ref) \<times> manager \<Rightarrow> bool" where
  "node_chosen tid rm \<longleftrightarrow> mgr_inv (snd rm) \<and> map_of (mg_tenants (snd rm)) tid \<noteq> None
     \<and> (\<forall>r. fst rm = Inr r \<longrightarrow> (\<exists>n. map_of (mg_heap (snd rm)) r = Some n \<and> nr_tenant (n_rec n) = tid))"

lemma client_node:
  assumes "struct_inv m" and "map_of (mg_tenants m) tid = Some t" and "map_of (tn_by_client t) c = Some r"
  shows "\<exists>n. map_of (mg_heap m) r = Some n \<and> nr_tenant (n_rec n) = tid \<and> (r, n) \<in> set (tenant_nodes (mg_heap m) t)"
proof -
  note ti = struct_tenant [OF assms(1,2)]
  then have ok: "tenant_ok (mg_heap m) t" by (simp add: tenant_inv_def)
  from node_refs_lookup [OF ok assms(3)] obtain n where "(r, n) \<in> set (tenant_nodes (mg_heap m) t)"
    using tenant_okE [OF ok] by metis
  with tenant_invD(1) [OF ti(2) this] ti(1) show ?thesis by (auto simp: tenant_nodes_iff)
qed

lemma rekey_inv:
  assumes "mgr_inv m" and n: "map_of (mg_heap m) r = Some n"
  shows "mgr_inv (rekey q tid pub r n m) \<and> mg_tenants (rekey q tid pub r n m) = mg_tenants m
    \<and> (\<exists>n'. map_of (mg_heap (rekey q tid pub r n m)) r = Some n' \<and> nr_tenant (n_rec n') = nr_tenant (n_rec n))"
proof -
  let ?m1 = "if n_ob n \<noteq> None \<and> n_ob n \<noteq> Some q then close_opt (n_ob n) m else m"
  let ?n = "n\<lparr>n_rec := (n_rec n)\<lparr>nr_wg_pub := pub\<rparr>\<rparr>"
  have m1: "mgr_inv ?m1" "mg_heap ?m1 = mg_heap m" "mg_tenants ?m1 = mg_tenants m" using assms(1) by simp_all
  have "mgr_inv (set_node r ?n ?m1)"
  proof (rule set_node_quiet [OF m1(1)])
    show "map_of (mg_heap ?m1) r = Some n" using n by simp
    show "node_alike n ?n" "node_quiet n ?n" by (simp_all add: node_alike_def node_quiet_def)
  qed
  with m1 n show ?thesis unfolding rekey_def Let_def by simp
qed

lemma stored_inv:
  assumes "mgr_inv m" and n: "map_of (mg_heap m) r = Some n"
  shows "mgr_inv (set_node r (n\<lparr>n_rec := (n_rec n)\<lparr>nr_last_seen := now\<rparr>, n_sub := s\<rparr>) m)"
  by (rule set_node_quiet [OF assms(1) n]) (simp_all add: node_alike_def node_quiet_def)

lemma register_device_inv:
  assumes i: "mgr_inv m" and t: "map_of (mg_tenants m) (tn_id t) = Some t" and "fresh_id rnd t"
  shows "node_chosen (tn_id t) (register_device sto now rnd pub c t m)"
proof (cases "map_of (tn_by_client t) (id_client (cn_id c))")
  case None
  show ?thesis
  proof (cases "ip_allocate (ip_used t) (tn_alloc t)")
    case a: (Some p)
    obtain ip a where p: "p = (ip, a)" by force
    let ?rec = "\<lparr>nr_node = ''nod_'' @ rnd, nr_tenant = tn_id t, nr_kind = KindDevice, nr_client = id_client (cn_id c),
        nr_name = pick_name (mg_heap m) t (sanitize_name (id_client_name (cn_id c)) ''device''),
        nr_ip = ip, nr_wg_pub = pub, nr_created = now, nr_last_seen = 0\<rparr>"
    let ?n = "new_node ?rec (device_subject (id_client (cn_id c))) None"
    have "node_fits True ?n t"
      using allocate_free [OF a [unfolded p]] assms(3) None by (simp add: node_fits_def fresh_id_def ip_used_def)
    note ad = add_node_inv [OF i t this, of a]
    obtain r m1 where m1: "add_node True a ?n t m = (r, m1)" by (cases "add_node True a ?n t m")
    with ad have ad: "mgr_inv m1" "map_of (mg_heap m1) r = Some ?n" "map_of (mg_tenants m1) (tn_id t) \<noteq> None" by auto
    have "mgr_inv (set_node r (?n\<lparr>n_rec := ?rec\<lparr>nr_last_seen := now\<rparr>, n_sub := device_subject (id_client (cn_id c))\<rparr>) m1)"
      using stored_inv [OF ad(1,2)] by simp
    with ad a p None m1 i t show ?thesis
      by (auto simp: register_device_def node_chosen_def Let_def split: option.split)
  qed (use None i t in \<open>simp add: register_device_def node_chosen_def Let_def\<close>)
next
  case (Some r)
  have s: "struct_inv m" using i by (simp add: mgr_inv_def)
  obtain n where n: "map_of (mg_heap m) r = Some n" "nr_tenant (n_rec n) = tn_id t" "(r, n) \<in> set (tenant_nodes (mg_heap m) t)"
    using client_node [OF s t Some] by blast
  from rekey_inv [OF i n(1), of "cn_ob c" "tn_id t" pub] obtain n' where
    k: "mgr_inv (rekey (cn_ob c) (tn_id t) pub r n m)" "map_of (mg_heap (rekey (cn_ob c) (tn_id t) pub r n m)) r = Some n'"
      "nr_tenant (n_rec n') = tn_id t"
      "mg_tenants (rekey (cn_ob c) (tn_id t) pub r n m) = mg_tenants m" using n(2) by auto
  note st = stored_inv [OF k(1,2), where now = now and s = "device_subject (id_client (cn_id c))"]
  show ?thesis
    using Some n(1) k st t i
    by (auto simp: register_device_def node_chosen_def Let_def split: option.split)
qed

lemma register_session_inv:
  assumes i: "mgr_inv m" and t: "map_of (mg_tenants m) (tn_id t) = Some t" and "fresh_id rnd t"
  shows "node_chosen (tn_id t) (register_session now rnd rnd2 reg c t m)"
proof (cases "ip_allocate (ip_used t) (tn_alloc t)")
  case a: (Some p)
  obtain ip a where p: "p = (ip, a)" by force
  have kinds: "KindSession \<noteq> KindDevice" by (simp add: KindSession_def KindDevice_def)
  let ?rec = "\<lparr>nr_node = ''nod_'' @ rnd, nr_tenant = tn_id t, nr_kind = KindSession, nr_client = [],
      nr_name = pick_name (mg_heap m) t (sanitize_name (rm_name reg) ''s'' @ ''-'' @ rnd2),
      nr_ip = ip, nr_wg_pub = rm_pub reg, nr_created = now, nr_last_seen = now\<rparr>"
  let ?n = "new_node ?rec \<lparr>su_kind = KindSession, su_client = [], su_user = id_user (cn_id c), su_role = id_role (cn_id c), su_tags = []\<rparr>
      (Some (now + SessionNodeTTL))"
  have "node_fits False ?n t"
    using allocate_free [OF a [unfolded p]] assms(3) kinds by (simp add: node_fits_def fresh_id_def ip_used_def)
  note ad = add_node_inv [OF i t this, of a]
  obtain r m1 where m1: "add_node False a ?n t m = (r, m1)" by (cases "add_node False a ?n t m")
  with ad a p show ?thesis by (auto simp: register_session_def node_chosen_def Let_def)
qed (use i t in \<open>simp add: register_session_def node_chosen_def\<close>)
text \<open>A node that is attached to a connection is announced by the recomputation that follows.\<close>

lemma update_and_recompute:
  assumes i: "mgr_inv m" and n: "map_of (mg_heap m) r = Some n" and a: "node_alike n n'" and "nr_tenant (n_rec n) = tid"
    and t: "map_of (mg_tenants m) tid \<noteq> None" and m': "mg_tenants m' = mg_tenants (set_node r n' m)" "inv_except tid m' = inv_except tid (set_node r n' m)"
  shows "mgr_inv (recompute E now tid m')"
proof (rule recompute_restores)
  show "inv_except tid m'" using set_node_except [OF mgr_inv_except [OF i] n a assms(4)] m'(2) by simp
  show "map_of (mg_tenants m') tid \<noteq> None" using t m'(1) by simp
qed

text \<open>The node of a connection belongs to the tenant of the connection.\<close>

definition conn_ok :: "manager \<Rightarrow> conn \<Rightarrow> bool" where
  "conn_ok m c \<longleftrightarrow> (\<forall>r. cn_node c = Some r \<longrightarrow> (\<exists>n. map_of (mg_heap m) r = Some n \<and> nr_tenant (n_rec n) = id_tenant (cn_id c)))"

lemma attach_alike: "node_alike n (attach_node E reg c n)"
  by (simp add: attach_node_def Let_def node_alike_def)

lemma choose_node_inv:
  assumes "mgr_inv m" and "map_of (mg_tenants m) (tn_id t) = Some t" and "fresh_id rnd t"
  shows "node_chosen (tn_id t) (choose_node sto now rnd rnd2 reg c t m)"
  using register_device_inv [OF assms] register_session_inv [OF assms] assms by (simp add: choose_node_def node_chosen_def)

text \<open>A registration ends before the tenant is loaded, after that, after a node was chosen, or attaches it.\<close>

lemma register_shape:
  assumes "register E sto now rnd rnd2 reg c m = (res, c', m')"
  obtains "c' = c" "m' = m"
  | lt m1 where "tenant_locked E sto (id_tenant (cn_id c)) m = (lt, m1)" "c' = c" "m' = m1"
  | t m1 rr m2 where "tenant_locked E sto (id_tenant (cn_id c)) m = (Inr t, m1)"
      "choose_node sto now rnd rnd2 reg c t m1 = (rr, m2)" "c' = c" "m' = m2"
  | t m1 r m2 n t2 where "tenant_locked E sto (id_tenant (cn_id c)) m = (Inr t, m1)"
      "choose_node sto now rnd rnd2 reg c t m1 = (Inr r, m2)" "map_of (mg_heap m2) r = Some n" "map_of (mg_tenants m2) (tn_id t) = Some t2"
      "c' = c\<lparr>cn_node := Some r\<rparr>" "m' = recompute E now (tn_id t) (greeted E reg c r n t2 m2)"
proof (cases "valid_key32 (rm_pub reg)")
  case False
  with assms that(1) show thesis by (simp add: register_def)
next
  case valid: True
  obtain lt m1 where l: "tenant_locked E sto (id_tenant (cn_id c)) m = (lt, m1)" by (meson surj_pair)
  show thesis
  proof (cases lt)
    case (Inl e)
    from assms have "c' = c" "m' = m1" by (simp_all add: register_def valid l Inl)
    with l that(2) show thesis by blast
  next
    case t: (Inr t)
    show thesis
    proof (cases "key_conflict c (rm_pub reg) t m1")
      case True
      from assms have "c' = c" "m' = m1" by (simp_all add: register_def valid l t True)
      with l that(2) show thesis by blast
    next
      case False
      obtain rr m2 where c2: "choose_node sto now rnd rnd2 reg c t m1 = (rr, m2)" by (meson surj_pair)
      show thesis
      proof (cases "\<exists>r n t2. rr = Inr r \<and> map_of (mg_heap m2) r = Some n \<and> map_of (mg_tenants m2) (tn_id t) = Some t2")
        case True
        then obtain r n t2 where at: "rr = Inr r" "map_of (mg_heap m2) r = Some n" "map_of (mg_tenants m2) (tn_id t) = Some t2" by blast
        from assms have "c' = c\<lparr>cn_node := Some r\<rparr>" "m' = recompute E now (tn_id t) (greeted E reg c r n t2 m2)"
          by (simp_all add: register_def valid l t False c2 at)
        with that(4) l t c2 at show thesis by blast
      next
        case stop: False
        from assms have "c' = c" "m' = m2"
          using stop by (auto simp: register_def valid l t False c2 split: sum.splits option.splits)
        with that(3) l t c2 show thesis by blast
      qed
    qed
  qed
qed

lemma register_inv:
  assumes i: "mgr_inv m" and sto: "store_ok sto" and E: "pool4 (ev_pool E)"
    and fresh: "\<And>t m1. tenant_locked E sto (id_tenant (cn_id c)) m = (Inr t, m1) \<Longrightarrow> fresh_id rnd t"
    and reg: "register E sto now rnd rnd2 reg c m = (res, c', m')"
  shows "mgr_inv m'"
  using reg
proof (cases rule: register_shape)
  case (2 lt m1)
  with tenant_locked_inv [OF i sto E 2(1)] show ?thesis by simp
next
  case (3 t m1 rr m2)
  with tenant_locked_inv [OF i sto E 3(1)] have "node_chosen (tn_id t) (rr, m2)"
    using choose_node_inv [of m1 t] fresh [OF 3(1)] by (metis 3(2))
  with 3 show ?thesis by (simp add: node_chosen_def)
next
  case (4 t m1 r m2 n t2)
  with tenant_locked_inv [OF i sto E 4(1)] have "node_chosen (tn_id t) (Inr r, m2)"
    using choose_node_inv [of m1 t] fresh [OF 4(1)] by (metis 4(2))
  with 4(3) have m2: "mgr_inv m2" "nr_tenant (n_rec n) = tn_id t" "map_of (mg_tenants m2) (tn_id t) \<noteq> None"
    by (simp_all add: node_chosen_def)
  show ?thesis
    unfolding 4(6) using update_and_recompute [OF m2(1) 4(3) attach_alike m2(2,3)] by (simp add: greeted_def Let_def send_ctrl_frame)
qed (use i in simp)

section \<open>The end of a connection\<close>

text \<open>A session node leaves the tables only once: when its connection ends while it is still there.\<close>

definition close_fits :: "conn \<Rightarrow> manager \<Rightarrow> bool" where
  "close_fits c m \<longleftrightarrow> (\<forall>r n t. cn_node c = Some r \<and> map_of (mg_heap m) r = Some n \<and> n_ob n = Some (cn_ob c)
     \<and> nr_kind (n_rec n) = KindSession \<and> map_of (mg_tenants m) (id_tenant (cn_id c)) = Some t \<longrightarrow> r \<in> node_refs t)"

lemma close_conn_inv:
  assumes i: "mgr_inv m" and c: "conn_ok m c" and f: "close_fits c m"
  shows "mgr_inv (close_conn E now c m)"
proof -
  let ?m = "close_ob (cn_ob c) m" and ?tid = "id_tenant (cn_id c)"
  have i': "mgr_inv ?m" using i by simp
  then have s': "struct_inv ?m" by (simp add: mgr_inv_def)
  consider (out) "close_conn E now c m = ?m"
    | (node) r t n where "cn_node c = Some r" "map_of (mg_tenants ?m) ?tid = Some t" "map_of (mg_heap ?m) r = Some n" "n_ob n = Some (cn_ob c)"
    by (cases "cn_node c"; cases "map_of (mg_tenants m) ?tid"; cases "Option.bind (cn_node c) (map_of (mg_heap m))";
        cases "Option.bind (Option.bind (cn_node c) (map_of (mg_heap m))) n_ob = Some (cn_ob c)") (auto simp: close_conn_def)
  then show ?thesis
  proof cases
    case out
    with i' show ?thesis by simp
  next
    case node
    let ?n = "n\<lparr>n_ob := None, n_tun := False, n_vis := None, n_endpoints := [], n_paths := []\<rparr>"
    let ?m1 = "set_node r ?n ?m"
    have i1: "mgr_inv ?m1"
      by (rule set_node_quiet [OF i' node(3)]) (simp_all add: node_alike_def node_quiet_def)
    then have s1: "struct_inv ?m1" by (simp add: mgr_inv_def)
    have t1: "map_of (mg_tenants ?m1) ?tid = Some t" using node(2) by simp
    let ?m2 = "if nr_kind (n_rec n) = KindSession then remove_node t r ?m1
      else if nr_kind (n_rec n) = KindDevice then set_tenant (drop_ephemeral (nr_client (n_rec n)) t) ?m1 else ?m1"
    have "mgr_inv ?m2"
    proof (cases "nr_kind (n_rec n) = KindSession")
      case True
      have "r \<in> node_refs t" using f node True unfolding close_fits_def by simp
      then have "(r, ?n) \<in> set (tenant_nodes (mg_heap ?m1) t)" by (simp add: tenant_nodes_iff)
      with remove_node_inv(1) [OF t1 this i1] True show ?thesis by simp
    next
      case False
      have "same_tables t (drop_ephemeral (nr_client (n_rec n)) t)" by (simp add: same_tables_def drop_ephemeral_def)
      with set_same_tables [OF i1 t1 this] i1 False show ?thesis by simp
    qed
    moreover have "close_conn E now c m = recompute E now ?tid ?m2"
      using node by (simp add: close_conn_def Let_def)
    ultimately show ?thesis by (simp add: recompute_inv del: if_split)
  qed
qed

section \<open>Relay, mode, resynchronisation\<close>

lemma count_denied_inv:
  assumes "mgr_inv m" and n: "map_of (mg_heap m) r = Some n"
  shows "mgr_inv (count_denied r n m)"
  unfolding count_denied_def
  by (rule set_node_quiet [OF assms(1) n]) (simp_all add: node_alike_def node_quiet_def)
lemma relay_inv: "mgr_inv m \<Longrightarrow> mgr_inv (snd (snd (relay allow dst p c m)))"
proof -
  assume i: "mgr_inv m"
  have "mgr_inv (set_node r (n\<lparr>n_relayed := x\<rparr>) (m\<lparr>mg_obs := q\<rparr>))" if "map_of (mg_heap m) r = Some n" for r n x q
    by (rule set_node_quiet [where n = n]) (use i that in \<open>simp_all add: node_alike_def node_quiet_def\<close>)
  with i count_denied_inv [OF i] show ?thesis
    by (auto simp: relay_def Let_def split: option.split prod.split)
qed

lemma handle_mode_inv:
  assumes i: "mgr_inv m"
  shows "mgr_inv (handle_mode E now slug tun c m)"
proof -
  have step: "mgr_inv (set_node r (n\<lparr>n_tun := tun\<rparr>) m)" if "map_of (mg_heap m) r = Some n" for r n
    by (rule set_node_quiet [OF i that]) (simp_all add: node_alike_def node_quiet_def)
  have "mgr_inv (set_tenant (t\<lparr>tn_slug := slug\<rparr>) (set_node r (n\<lparr>n_tun := tun\<rparr>) m))"
    if "map_of (mg_heap m) r = Some n" "map_of (mg_tenants m) (id_tenant (cn_id c)) = Some t" for r n t
    using set_same_tables [OF step [OF that(1)], of _ t "t\<lparr>tn_slug := slug\<rparr>"] that(2) by (simp add: same_tables_def)
  with step i show ?thesis by (auto simp: handle_mode_def Let_def recompute_inv split: option.split)
qed

lemma handle_resync_inv:
  assumes i: "mgr_inv m"
  shows "mgr_inv (handle_resync E now c m)"
proof -
  have "mgr_inv (set_node r (n\<lparr>n_sent_full := False\<rparr>) m)" if "map_of (mg_heap m) r = Some n" for r n
    by (rule set_node_quiet [OF i that]) (simp_all add: node_alike_def node_quiet_def)
  with i show ?thesis by (auto simp: handle_resync_def recompute_inv split: option.split)
qed

section \<open>Revocation and sweep\<close>

lemma node_at_id:
  assumes "struct_inv m" and "map_of (mg_tenants m) tid = Some t" and "(k, r) \<in> set (tn_nodes t)"
  shows "\<exists>n. (r, n) \<in> set (tenant_nodes (mg_heap m) t)"
proof -
  have "tenant_ok (mg_heap m) t" using struct_tenant(2) [OF assms(1,2)] by (simp add: tenant_inv_def)
  moreover have "r \<in> node_refs t" using assms(3) by (force simp: node_refs_def)
  ultimately show ?thesis by (metis tenant_okE)
qed

lemma revoke_node_inv:
  assumes i: "mgr_inv m" and sto: "store_ok sto" and E: "pool4 (ev_pool E)" and r: "revoke_node E sto now tid nid m = (res, m')"
  shows "mgr_inv m'"
proof -
  obtain lt m1 where l: "tenant_locked E sto tid m = (lt, m1)" by (cases "tenant_locked E sto tid m")
  note tl = tenant_locked_inv [OF i sto E l]
  show ?thesis
  proof (cases lt)
    case (Inl e)
    with r l tl show ?thesis by (simp add: revoke_node_def)
  next
    case (Inr t)
    then have t: "map_of (mg_tenants m1) tid = Some t" and m1: "mgr_inv m1" using tl by simp_all
    show ?thesis
    proof (cases "map_of (tn_nodes t) nid")
      case (Some q)
      obtain n where "(q, n) \<in> set (tenant_nodes (mg_heap m1) t)"
        using node_at_id [OF _ t map_of_SomeD [OF Some]] m1 by (auto simp: mgr_inv_def)
      from remove_node_inv(1) [OF t this m1] r l Inr Some show ?thesis
        by (auto simp: revoke_node_def recompute_inv)
    qed (use r l Inr m1 in \<open>simp add: revoke_node_def\<close>)
  qed
qed

lemma tenant_refs_distinct:
  assumes "tenant_ok h t"
  shows "distinct (map snd (tn_nodes t))"
proof -
  have g: "distinct (map fst (tn_nodes t))" using assms by (simp add: tenant_ok_def)
  have at: "\<exists>n. map_of h r = Some n \<and> nr_node (n_rec n) = k" if "(k, r) \<in> set (tn_nodes t)" for k r
    using assms that unfolding tenant_ok_def by blast
  have "k = k'" if "(k, r) \<in> set (tn_nodes t)" "(k', r) \<in> set (tn_nodes t)" for k k' r
    using at [OF that(1)] at [OF that(2)] by auto
  then have "inj_on snd (set (tn_nodes t))" by (auto simp: inj_on_def)
  moreover have "distinct (tn_nodes t)" using g by (simp add: distinct_map)
  ultimately show ?thesis by (simp add: distinct_map)
qed
text \<open>The sweep of the session nodes of a tenant: what is still to be visited is still in the tables.\<close>

lemma sweep_node_inv:
  assumes i: "mgr_inv m" and t: "map_of (mg_tenants m) tid = Some t" and r: "r \<in> node_refs t"
    and sw: "sweep_node now roles dir tid r (ch, m) = (ch', m')"
  shows "mgr_inv m' \<and> (\<exists>t'. map_of (mg_tenants m') tid = Some t' \<and> (\<forall>q\<in>node_refs t. q \<noteq> r \<longrightarrow> q \<in> node_refs t'))"
proof -
  have s: "struct_inv m" using i by (simp add: mgr_inv_def)
  note ti = struct_tenant [OF s t]
  have "tenant_ok (mg_heap m) t" using ti by (simp add: tenant_inv_def)
  from tenant_okE [OF this r] obtain n where n: "(r, n) \<in> set (tenant_nodes (mg_heap m) t)" by metis
  then have h: "map_of (mg_heap m) r = Some n" by (simp add: tenant_nodes_iff)
  note rm = remove_node_inv [OF t n]
  have keep: "q \<in> node_refs (without_node n t)" if q: "q \<in> node_refs t" "q \<noteq> r" for q
  proof -
    obtain x where "(q, x) \<in> set (tenant_nodes (mg_heap m) t)" using tenant_okE [OF \<open>tenant_ok (mg_heap m) t\<close> q(1)] by metis
    then have "(q, x) \<in> set (tenant_nodes (mg_heap m) (without_node n t))"
      using tenant_inv_without(2) [OF ti(2) n] q(2) by simp
    then show ?thesis by (simp add: tenant_nodes_iff)
  qed
  have role: "mgr_inv (set_node r (n\<lparr>n_sub := x\<rparr>) m)" for x
    by (rule set_node_quiet [OF i h]) (simp_all add: node_alike_def node_quiet_def)
  show ?thesis
  proof (cases "nr_kind (n_rec n) \<noteq> KindSession")
    case True
    with sw t h i show ?thesis by (auto simp: sweep_node_def)
  next
    case False
    show ?thesis
    proof (cases "session_fate now roles dir n")
      case KeepSession
      with False sw t h i show ?thesis by (auto simp: sweep_node_def)
    next
      case (NewRole x)
      with False sw t h role show ?thesis by (auto simp: sweep_node_def)
    next
      case DropSession
      then have "m' = remove_node t r m" using False sw t h by (simp add: sweep_node_def)
      with rm(1) [OF i] rm(3) [OF s] keep show ?thesis by simp
    qed
  qed
qed

lemma sweep_nodes_inv:
  assumes "mgr_inv m" and "map_of (mg_tenants m) tid = Some t" and "set rs \<subseteq> node_refs t" and "distinct rs"
    and "fold (sweep_node now roles dir tid) rs (ch, m) = (ch', m')"
  shows "mgr_inv m'"
  using assms
proof (induction rs arbitrary: ch m t)
  case (Cons r rs)
  obtain ch1 m1 where st: "sweep_node now roles dir tid r (ch, m) = (ch1, m1)" by (cases "sweep_node now roles dir tid r (ch, m)")
  from sweep_node_inv [OF Cons.prems(1,2) _ st] Cons.prems(3) obtain t1 where
    t1: "mgr_inv m1" "map_of (mg_tenants m1) tid = Some t1" "\<forall>q\<in>node_refs t. q \<noteq> r \<longrightarrow> q \<in> node_refs t1" by auto
  have "set rs \<subseteq> node_refs t1" using Cons.prems(3,4) t1(3) by auto
  with Cons.IH [OF t1(1,2) this] Cons.prems(4,5) st show ?case by simp
qed simp

lemma sweep_tenant_inv: "mgr_inv m \<Longrightarrow> mgr_inv (sweep_tenant E now roles dirs tid m)"
proof (cases "map_of (mg_tenants m) tid")
  case (Some t)
  assume i: "mgr_inv m"
  then have s: "struct_inv m" by (simp add: mgr_inv_def)
  have same: "same_tables t (drop_expired now t)" by (simp add: same_tables_def drop_expired_def)
  let ?m1 = "set_tenant (drop_expired now t) m"
  note i1 = set_same_tables [OF i Some same]
  have id: "tn_id t = tid" and ok: "tenant_ok (mg_heap m) t" using struct_tenant [OF s Some] by (simp_all add: tenant_inv_def)
  have t1: "map_of (mg_tenants ?m1) tid = Some (drop_expired now t)" using id by (simp add: drop_expired_def)
  obtain ch m2 where f: "fold (sweep_node now roles (dirs tid) tid) (map snd (tn_nodes t))
      (list_ex (\<lambda>(k, s). \<not> share_active now s) (tn_shares t), ?m1) = (ch, m2)" by force
  have "set (map snd (tn_nodes t)) \<subseteq> node_refs (drop_expired now t)" by (simp add: node_refs_def drop_expired_def)
  from sweep_nodes_inv [OF i1 t1 this tenant_refs_distinct [OF ok] f] f Some show ?thesis
    by (simp add: sweep_tenant_def recompute_inv Let_def)
qed (simp add: sweep_tenant_def)

lemma sweep_inv: "mgr_inv m \<Longrightarrow> mgr_inv (sweep E now roles dirs m)"
  unfolding sweep_def by (rule fold_keeps) (simp_all add: sweep_tenant_inv)
section \<open>Shares, rules and the network of a tenant\<close>

text \<open>An operation that changes what hangs on a loaded tenant, and recomputes.\<close>

lemma loaded_change_inv:
  assumes "mgr_inv m1 \<and> (\<forall>t. lt = Inr t \<longrightarrow> map_of (mg_tenants m1) tid = Some t \<and> tn_id t = tid)" and "lt = Inr t" and "same_tables t t'"
  shows "mgr_inv (recompute E now tid (set_tenant t' m1))" and "mgr_inv (set_tenant t' m1)"
  using change_and_recompute [OF _ _ assms(3), of m1 tid] set_same_tables [OF _ _ assms(3), of m1 tid] assms(1,2) by simp_all

lemma same_tables_updates [simp]:
  "same_tables t (t\<lparr>tn_shares := s\<rparr>)" "same_tables t (t\<lparr>tn_rules := r\<rparr>)" "same_tables t (t\<lparr>tn_alloc := a\<rparr>)"
  by (simp_all add: same_tables_def)

lemma create_share_inv:
  assumes i: "mgr_inv m" and sto: "store_ok sto" and E: "pool4 (ev_pool E)"
  shows "mgr_inv (snd (create_share E sto dir resolve allow now rnd tid inp actor m))"
proof (cases "check_share dir resolve now inp")
  case (Inr p)
  obtain lt m1 where l: "tenant_locked E sto tid m = (lt, m1)" by (cases "tenant_locked E sto tid m")
  note tl = tenant_locked_inv [OF i sto E l]
  show ?thesis
    using Inr l tl loaded_change_inv(1) [OF tl, where E = E and now = now]
    by (auto simp: create_share_def Let_def split: prod.split sum.split option.split)
qed (use i in \<open>simp add: create_share_def\<close>)

lemma update_share_inv:
  assumes i: "mgr_inv m" and sto: "store_ok sto" and E: "pool4 (ev_pool E)"
  shows "mgr_inv (snd (update_share E sto dir resolve now tid sid p m))"
proof -
  obtain lt m1 where l: "tenant_locked E sto tid m = (lt, m1)" by (cases "tenant_locked E sto tid m")
  note tl = tenant_locked_inv [OF i sto E l]
  show ?thesis
    using i l tl loaded_change_inv(1) [OF tl, where E = E and now = now]
    by (auto simp: update_share_def split: prod.split sum.split option.split)
qed

lemma delete_share_inv:
  assumes i: "mgr_inv m" and sto: "store_ok sto" and E: "pool4 (ev_pool E)"
  shows "mgr_inv (snd (delete_share E sto now tid sid m))"
proof -
  obtain lt m1 where l: "tenant_locked E sto tid m = (lt, m1)" by (cases "tenant_locked E sto tid m")
  note tl = tenant_locked_inv [OF i sto E l]
  show ?thesis
    using l tl loaded_change_inv(1) [OF tl, where E = E and now = now]
    by (auto simp: delete_share_def split: prod.split sum.split option.split)
qed

lemma get_share_inv:
  assumes i: "mgr_inv m" and sto: "store_ok sto" and E: "pool4 (ev_pool E)"
  shows "mgr_inv (snd (get_share E sto tid sid m))"
proof -
  obtain lt m1 where l: "tenant_locked E sto tid m = (lt, m1)" by (cases "tenant_locked E sto tid m")
  show ?thesis
    using l tenant_locked_inv [OF i sto E l] by (auto simp: get_share_def split: prod.split sum.split option.split)
qed

lemma device_share_create_inv:
  assumes i: "mgr_inv m" and sto: "store_ok sto" and E: "pool4 (ev_pool E)"
  shows "mgr_inv (device_share_create E sto dir resolve allow now rnd req c m)"
  using i by (auto simp: device_share_create_def Let_def split: prod.split sum.split)
    (metis create_share_inv [OF i sto E] snd_conv)+

lemma device_share_delete_inv:
  assumes i: "mgr_inv m" and sto: "store_ok sto" and E: "pool4 (ev_pool E)"
  shows "mgr_inv (device_share_delete E sto now req sid c m)"
proof -
  obtain g m1 where g: "get_share E sto (id_tenant (cn_id c)) sid m = (g, m1)" by force
  then have m1: "mgr_inv m1" using get_share_inv [OF i sto E, of "id_tenant (cn_id c)" sid] by simp
  have "mgr_inv (snd (delete_share E sto now (id_tenant (cn_id c)) sid m1))" by (rule delete_share_inv [OF m1 sto E])
  with g m1 show ?thesis by (auto simp: device_share_delete_def split: prod.split sum.split option.split)
qed

lemma create_tun_rule_inv:
  assumes i: "mgr_inv m" and sto: "store_ok sto" and E: "pool4 (ev_pool E)"
  shows "mgr_inv (snd (create_tun_rule E sto dir now rnd tid inp actor m))"
proof -
  obtain lt m1 where l: "tenant_locked E sto tid m = (lt, m1)" by (cases "tenant_locked E sto tid m")
  note tl = tenant_locked_inv [OF i sto E l]
  show ?thesis
    using i l tl loaded_change_inv(1) [OF tl, where E = E and now = now]
    by (simp add: create_tun_rule_def Let_def split: prod.split sum.split option.split)
qed

lemma delete_tun_rule_inv:
  assumes i: "mgr_inv m" and sto: "store_ok sto" and E: "pool4 (ev_pool E)"
  shows "mgr_inv (snd (delete_tun_rule E sto now tid rid m))"
proof -
  obtain lt m1 where l: "tenant_locked E sto tid m = (lt, m1)" by (cases "tenant_locked E sto tid m")
  note tl = tenant_locked_inv [OF i sto E l]
  show ?thesis
    using l tl loaded_change_inv(1) [OF tl, where E = E and now = now]
    by (simp add: delete_tun_rule_def split: prod.split sum.split option.split)
qed

lemma set_network_inv:
  assumes i: "mgr_inv m" and sto: "store_ok sto" and E: "pool4 (ev_pool E)"
  shows "mgr_inv (snd (set_network E sto tid cidr m))"
proof -
  obtain lt m1 where l: "tenant_locked E sto tid m = (lt, m1)" by (cases "tenant_locked E sto tid m")
  note tl = tenant_locked_inv [OF i sto E l]
  show ?thesis
    using i l tl loaded_change_inv(2) [OF tl]
    by (simp add: set_network_def Let_def split: prod.split sum.split option.split)
qed

end
