(* ===== verification/Net_Endpoints.thy ===== *)
theory Net_Endpoints
  imports Netip_Text "HOL-Library.Char_ord" "HOL-Library.List_Lexorder"
begin

text \<open>
  The UDP addresses a node reports as candidates for a direct path (\<open>cleanEndpoints\<close> of
  \<open>server/netctl/punch.go\<close>), with the address classes and the textual form of \<open>net/netip.AddrPort\<close>
  it rests on.
\<close>

section \<open>Address classes\<close>

fun is_unspecified :: "addr \<Rightarrow> bool" where
  "is_unspecified (IP4 w) = (w = 0)"
| "is_unspecified (IP6 w z) = (w = 0 \<and> z = [])"
| "is_unspecified NoAddr = False"

fun is_loopback :: "addr \<Rightarrow> bool" where
  "is_loopback (IP4 w) = (drop_bit 24 w = 127)"
| "is_loopback (IP6 w _) = (w = 1)"
| "is_loopback NoAddr = False"

fun is_multicast :: "addr \<Rightarrow> bool" where
  "is_multicast (IP4 w) = (drop_bit 28 w = 0xe)"
| "is_multicast (IP6 w _) = (drop_bit 120 w = 0xff)"
| "is_multicast NoAddr = False"

fun is_link_local_unicast :: "addr \<Rightarrow> bool" where
  "is_link_local_unicast (IP4 w) = (drop_bit 16 w = 0xa9fe)"
| "is_link_local_unicast (IP6 w _) = (drop_bit 112 w AND 0xffc0 = 0xfe80)"
| "is_link_local_unicast NoAddr = False"

fun is_link_local_multicast :: "addr \<Rightarrow> bool" where
  "is_link_local_multicast (IP4 w) = (drop_bit 8 w = 0xe00000)"
| "is_link_local_multicast (IP6 w _) = (drop_bit 112 w AND 0xff0f = 0xff02)"
| "is_link_local_multicast NoAddr = False"

section \<open>Addresses with a port\<close>

type_synonym addr_port = "addr \<times> nat"

text \<open>\<open>strconv.ParseUint(s, 10, 16)\<close>.\<close>

definition parse_port :: "string \<Rightarrow> nat option" where
  "parse_port s =
     (if s = [] \<or> \<not> list_all is_digit s then None
      else if digits_val s > 65535 then None else Some (digits_val s))"

text \<open>\<open>ParseAddrPort\<close>: the text is cut at the last colon, and exactly the IPv6 addresses stand in brackets.\<close>

definition parse_addr_port :: "string \<Rightarrow> addr_port option" where
  "parse_addr_port s =
     (case cut_last (CHR '':'') s of
        None \<Rightarrow> None
      | Some (ip, port) \<Rightarrow>
          if ip = [] \<or> port = [] then None
          else if hd ip = CHR ''['' \<and> (length ip < 2 \<or> last ip \<noteq> CHR '']'') then None
          else
            let v6 = (hd ip = CHR ''['') in
            (case (parse_port port, parse_addr (if v6 then butlast (tl ip) else ip)) of
               (Some p, Some a) \<Rightarrow> if v6 \<and> is4 a \<or> \<not> v6 \<and> is6 a then None else Some (a, p)
             | _ \<Rightarrow> None))"

fun addr_port_string :: "addr_port \<Rightarrow> string" where
  "addr_port_string (NoAddr, p) = ''invalid AddrPort''"
| "addr_port_string (IP4 w, p) = addr_string (IP4 w) @ CHR '':'' # itoa_nat p"
| "addr_port_string (IP6 w z, p) = CHR ''['' # addr_string (IP6 w z) @ '']:'' @ itoa_nat p"

section \<open>Candidates\<close>

definition MaxNetEndpoints :: nat where "MaxNetEndpoints = 16"

text \<open>The checks of the loop body: what a reported text stands for, if it is accepted.\<close>

definition usable_endpoint :: "bool \<Rightarrow> addr_port \<Rightarrow> bool" where
  "usable_endpoint loopback ap \<longleftrightarrow> (case ap of (a, p) \<Rightarrow>
     p \<noteq> 0 \<and> \<not> (is_unspecified a \<or> is_multicast a \<or> is_link_local_unicast a \<or> is_link_local_multicast a)
     \<and> (is_loopback a \<longrightarrow> loopback))"

definition endpoint_of :: "bool \<Rightarrow> string \<Rightarrow> addr_port option" where
  "endpoint_of loopback s =
     (case parse_addr_port s of
        None \<Rightarrow> None
      | Some (a, p) \<Rightarrow> if usable_endpoint loopback (unmap a, p) then Some (unmap a, p) else None)"

fun clean_loop :: "bool \<Rightarrow> addr_port list \<Rightarrow> string list \<Rightarrow> addr_port list" where
  "clean_loop loopback acc [] = acc"
| "clean_loop loopback acc (s # ss) =
     (case endpoint_of loopback s of
        None \<Rightarrow> clean_loop loopback acc ss
      | Some ap \<Rightarrow>
          if ap \<in> set acc then clean_loop loopback acc ss
          else if length acc + 1 \<ge> MaxNetEndpoints then acc @ [ap]
          else clean_loop loopback (acc @ [ap]) ss)"

definition clean_endpoints :: "bool \<Rightarrow> string list \<Rightarrow> string list" where
  "clean_endpoints loopback ss = sort (map addr_port_string (clean_loop loopback [] ss))"

section \<open>What a cleaned list is\<close>

text \<open>The texts of at most \<open>MaxNetEndpoints\<close> different usable addresses, in order.\<close>

definition endpoints_ok :: "bool \<Rightarrow> string list \<Rightarrow> bool" where
  "endpoints_ok loopback eps \<longleftrightarrow> (\<exists>aps. distinct aps \<and> length aps \<le> MaxNetEndpoints
     \<and> (\<forall>ap\<in>set aps. usable_endpoint loopback ap) \<and> eps = sort (map addr_port_string aps))"

lemma endpoints_ok_Nil [simp]: "endpoints_ok lb []"
  by (auto simp: endpoints_ok_def intro: exI [of _ "[]"])

lemma endpoints_ok_length: "endpoints_ok lb eps \<Longrightarrow> length eps \<le> MaxNetEndpoints \<and> sorted eps"
  by (auto simp: endpoints_ok_def)

lemma endpoint_of_usable: "endpoint_of lb s = Some ap \<Longrightarrow> usable_endpoint lb ap"
  by (auto simp: endpoint_of_def split: option.splits if_splits)

lemma clean_loop_ok:
  "distinct acc \<Longrightarrow> length acc < MaxNetEndpoints \<Longrightarrow> \<forall>ap\<in>set acc. usable_endpoint lb ap \<Longrightarrow>
   distinct (clean_loop lb acc ss) \<and> length (clean_loop lb acc ss) \<le> MaxNetEndpoints
   \<and> (\<forall>ap\<in>set (clean_loop lb acc ss). usable_endpoint lb ap)"
  by (induction lb acc ss rule: clean_loop.induct) (auto simp: endpoint_of_usable split: option.split)

lemma clean_endpoints_ok: "endpoints_ok lb (clean_endpoints lb ss)"
  unfolding endpoints_ok_def clean_endpoints_def
  by (rule exI [of _ "clean_loop lb [] ss"]) (use clean_loop_ok [of "[]" lb ss] in \<open>simp add: MaxNetEndpoints_def\<close>)

text \<open>Nothing acceptable is left out before the list is full, and an IPv4 candidate is read back by the receiver.\<close>

lemma clean_loop_keeps: "set acc \<subseteq> set (clean_loop lb acc ss)"
  by (induction lb acc ss rule: clean_loop.induct) (auto split: option.split)

lemma clean_loop_complete:
  "length (clean_loop lb acc ss) < MaxNetEndpoints \<Longrightarrow> s \<in> set ss \<Longrightarrow> endpoint_of lb s = Some ap \<Longrightarrow>
   ap \<in> set (clean_loop lb acc ss)"
proof (induction lb acc ss rule: clean_loop.induct)
  case (2 lb acc s' ss)
  show ?case
  proof (cases "s = s'")
    case True
    with 2 clean_loop_keeps [of "acc @ [ap]" lb ss] clean_loop_keeps [of acc lb ss] show ?thesis by (auto split: if_splits)
  next
    case False
    with 2 show ?thesis by (auto split: option.splits if_splits)
  qed
qed simp

text \<open>For evaluation: the number is computed as an integer.\<close>

lemma digits_val_int: "int (digits_val s) = foldl (\<lambda>acc c. acc * 10 + int (digit_val c)) 0 s"
proof -
  have "int (foldl (\<lambda>acc c. acc * 10 + digit_val c) n s) = foldl (\<lambda>acc c. acc * 10 + int (digit_val c)) (int n) s" for n
    by (induction s arbitrary: n) simp_all
  from this [of 0] show ?thesis by (simp add: digits_val_def)
qed

lemma parse_port_code [code]:
  "parse_port s =
     (if s = [] \<or> \<not> list_all is_digit s then None
      else let n = foldl (\<lambda>acc c. acc * 10 + int (digit_val c)) 0 s in if n > 65535 then None else Some (nat n))"
proof -
  have "(\<not> digits_val s \<le> 65535) = (\<not> int (digits_val s) \<le> 65535)" by simp
  then show ?thesis by (simp add: parse_port_def Let_def not_le [symmetric] digits_val_int [symmetric])
qed

section \<open>Round trip\<close>

lemma digits_val_append: "digits_val (a @ [c]) = digits_val a * 10 + digit_val c"
  by (simp add: digits_val_def)

lemma digit_val_char: "d < 10 \<Longrightarrow> digit_val (digit_char d) = d"
  by (simp add: digit_val_def digit_char_def code_of_def)

lemma digits_val_itoa: "digits_val (itoa_nat n) = n"
proof (induction n rule: itoa_nat.induct)
  case (1 n)
  then show ?case
    by (cases "n < 10") (simp_all add: itoa_nat.simps [of n] digits_val_append digit_val_char, simp add: digits_val_def digit_val_char)
qed

lemma parse_port_itoa: "n \<le> 65535 \<Longrightarrow> parse_port (itoa_nat n) = Some n"
  by (simp add: parse_port_def digits_val_itoa list_all_iff itoa_nat_digits)

lemma cut_at_append: "c \<notin> set a \<Longrightarrow> cut_at c (a @ c # b) = (a, b, True)"
  by (induction a) auto

lemma cut_last_append: "c \<notin> set b \<Longrightarrow> cut_last c (a @ c # b) = Some (a, b)"
  using cut_at_append [of c "rev b" "rev a"] by (simp add: cut_last_def)

lemma ipv4_string_head: "ipv4_string w \<noteq> [] \<and> hd (ipv4_string w) \<noteq> CHR ''[''"
proof -
  have "is_digit (hd (itoa_nat v))" for v using itoa_nat_digits [of "hd (itoa_nat v)" v] by simp
  moreover have "\<not> is_digit (CHR ''['')" by (simp add: is_digit_def code_of_def)
  ultimately show ?thesis by (auto simp: ipv4_string_def) (metis)
qed

lemma parse_addr_port_string4:
  assumes "p \<le> 65535"
  shows "parse_addr_port (addr_port_string (IP4 w, p)) = Some (IP4 w, p)"
proof -
  have "\<not> is_digit (CHR '':'')" by (simp add: is_digit_def code_of_def)
  then have "CHR '':'' \<notin> set (itoa_nat p)" using itoa_nat_digits by blast
  then show ?thesis
    using assms ipv4_string_head [of w] by (simp add: parse_addr_port_def cut_last_append parse_port_itoa)
qed

text \<open>A receiver of an IPv4 candidate accepts it again, as the same address.\<close>

lemma endpoint_of_string4:
  "usable_endpoint lb (IP4 w, p) \<Longrightarrow> p \<le> 65535 \<Longrightarrow> endpoint_of lb (addr_port_string (IP4 w, p)) = Some (IP4 w, p)"
  unfolding endpoint_of_def parse_addr_port_string4 [of p w] by (simp del: addr_port_string.simps)

end
