(* ===== verification/Net_Punch.thy ===== *)
theory Net_Punch
  imports Net_Ops Net_Endpoints
begin

text \<open>
  Coordination of direct paths (\<open>server/netctl/punch.go\<close>): a node reports its UDP addresses, and the
  server passes them to the nodes it sees and that see it; the reported state of the paths is shown to the
  administrator with the nodes and shares (\<open>Nodes\<close> and \<open>Shares\<close> of \<open>manager.go\<close>).
\<close>

definition punchReqMin :: duration where "punchReqMin = 3 * Second"
definition endpointsMin :: duration where "endpointsMin = 500 * Millisecond"
definition maxPathReports :: nat where "maxPathReports = 256"
definition PathDirect :: string where "PathDirect = ''direct''"
definition PathRelay :: string where "PathRelay = ''relay''"

section \<open>Who is told about whom\<close>

definition sees :: "node \<Rightarrow> node \<Rightarrow> bool" where
  "sees a b \<longleftrightarrow> (case n_vis a of None \<Rightarrow> False | Some v \<Rightarrow> as4 (node_ip b) \<in> set v)"

text \<open>\<open>punchable\<close>; the comparison of the pointers is the comparison of the references \<open>r\<close> and \<open>d\<close>.\<close>

definition punchable :: "node_ref \<times> node \<Rightarrow> node_ref \<times> node \<Rightarrow> bool" where
  "punchable ra db \<longleftrightarrow> (case (ra, db) of ((r, a), (d, b)) \<Rightarrow>
     r \<noteq> d \<and> n_ob a \<noteq> None \<and> n_ob b \<noteq> None \<and> n_punch a \<and> n_punch b \<and> sees a b \<and> sees b a)"

definition punch_about :: "node \<Rightarrow> string \<Rightarrow> punch_msg" where
  "punch_about y nonce = \<lparr>pn_pub = node_pub y, pn_disco = n_disco y, pn_endpoints = n_endpoints y, pn_nonce = nonce\<rparr>"

definition send_punch :: "node \<Rightarrow> node \<Rightarrow> string \<Rightarrow> manager \<Rightarrow> manager" where
  "send_punch to about nonce m =
     (case n_ob to of
        None \<Rightarrow> m
      | Some q \<Rightarrow> if n_endpoints about = [] then m else snd (send_ctrl q (CPunch (punch_about about nonce)) m))"

definition punch_pair :: "string \<Rightarrow> node_ref \<Rightarrow> node_ref \<Rightarrow> manager \<Rightarrow> manager" where
  "punch_pair nonce r d m =
     (case (map_of (mg_heap m) r, map_of (mg_heap m) d) of
        (Some a, Some b) \<Rightarrow>
          if punchable (r, a) (d, b) then send_punch b a nonce (send_punch a b nonce m) else m
      | _ \<Rightarrow> m)"

section \<open>The handlers\<close>

text \<open>\<open>handleEndpoints\<close>; \<open>nonces\<close> are the random texts, one for each peer.\<close>

definition too_soon :: "duration \<Rightarrow> time \<Rightarrow> time option \<Rightarrow> bool" where
  "too_soon d now lst \<longleftrightarrow> (case lst of None \<Rightarrow> False | Some l \<Rightarrow> now - l < d)"

definition handle_endpoints ::
  "bool \<Rightarrow> time \<Rightarrow> (node_ref \<Rightarrow> string) \<Rightarrow> string list \<Rightarrow> conn \<Rightarrow> manager \<Rightarrow> manager" where
  "handle_endpoints loopback now nonces reported c m =
     (case cn_node c of
        None \<Rightarrow> m
      | Some r \<Rightarrow>
          (case map_of (mg_heap m) r of
             None \<Rightarrow> m
           | Some n \<Rightarrow>
               let eps = clean_endpoints loopback reported in
               if \<not> n_punch n \<or> n_ob n \<noteq> Some (cn_ob c) then m
               else
                 let limited = too_soon endpointsMin now (n_ep_at n); n1 = n\<lparr>n_ep_at := Some now\<rparr> in
                 if eps = n_endpoints n then set_node r n1 m
                 else
                   let n2 = n1\<lparr>n_endpoints := eps\<rparr>; m2 = set_node r n2 m in
                   if limited then count_denied r n2 m2
                   else (case map_of (mg_tenants m2) (id_tenant (cn_id c)) of
                           None \<Rightarrow> m2
                         | Some t \<Rightarrow> fold (\<lambda>d. punch_pair (nonces d) r d) (map snd (tn_nodes t)) m2)))"

text \<open>\<open>handlePunchReq\<close>. The first node with the key is the peer.\<close>

definition peer_with_key :: "string \<Rightarrow> node_heap \<Rightarrow> tenant \<Rightarrow> node_ref option" where
  "peer_with_key pub h t = map_option fst (find (\<lambda>(d, y). node_pub y = pub) (tenant_nodes h t))"

definition handle_punch_req :: "time \<Rightarrow> string \<Rightarrow> string \<Rightarrow> conn \<Rightarrow> manager \<Rightarrow> manager" where
  "handle_punch_req now nonce pub c m =
     (case cn_node c of
        None \<Rightarrow> m
      | Some r \<Rightarrow>
          if pub = [] then m
          else
            (case (map_of (mg_tenants m) (id_tenant (cn_id c)), map_of (mg_heap m) r) of
               (Some t, Some n) \<Rightarrow>
                 if \<not> n_punch n \<or> n_ob n \<noteq> Some (cn_ob c) then m
                 else
                   (case peer_with_key pub (mg_heap m) t of
                      None \<Rightarrow> m
                    | Some d \<Rightarrow>
                        if too_soon punchReqMin now (map_of (n_punch_req_at n) pub) then count_denied r n m
                        else
                          let at = (if length (n_punch_req_at n) > 512 then [] else n_punch_req_at n) in
                          punch_pair nonce r d (set_node r (n\<lparr>n_punch_req_at := gm_put pub now at\<rparr>) m))
             | _ \<Rightarrow> m))"

text \<open>\<open>handleStatus\<close>. A report is a key, a path and a round-trip time.\<close>

fun path_reports :: "time \<Rightarrow> (string, path_stat) gomap \<Rightarrow> (string \<times> string \<times> int) list \<Rightarrow> (string, path_stat) gomap" where
  "path_reports now acc [] = acc"
| "path_reports now acc ((pub, path, rtt) # ps) =
     (if length acc \<ge> maxPathReports then acc
      else if path \<noteq> PathDirect \<and> path \<noteq> PathRelay then path_reports now acc ps
      else
        let rtt' = (if rtt < 0 \<or> rtt > 60000 then 0 else rtt) in
        path_reports now (gm_put pub \<lparr>ps_path = path, ps_rtt = rtt', ps_at = now\<rparr> acc) ps)"

definition handle_status :: "time \<Rightarrow> (string \<times> string \<times> int) list \<Rightarrow> conn \<Rightarrow> manager \<Rightarrow> manager" where
  "handle_status now reports c m =
     (case cn_node c of
        None \<Rightarrow> m
      | Some r \<Rightarrow>
          (case map_of (mg_heap m) r of
             None \<Rightarrow> m
           | Some n \<Rightarrow>
               if n_ob n = Some (cn_ob c) then set_node r (n\<lparr>n_paths := path_reports now [] reports\<rparr>) m else m))"

section \<open>What is sent\<close>

text \<open>The control messages that wait in an outbox, and what an operation adds to them: in a full outbox a
  message is lost, and the outbox is closed.\<close>

definition ctrl_queue :: "manager \<Rightarrow> ob_ref \<Rightarrow> ctrl_msg list" where
  "ctrl_queue m q = (case map_of (mg_obs m) q of None \<Rightarrow> [] | Some b \<Rightarrow> ch_buf (ob_ctrl b))"

definition sends_only :: "(ob_ref \<Rightarrow> ctrl_msg \<Rightarrow> bool) \<Rightarrow> manager \<Rightarrow> manager \<Rightarrow> bool" where
  "sends_only P m m' \<longleftrightarrow> (\<forall>q. \<exists>new. ctrl_queue m' q = ctrl_queue m q @ new \<and> (\<forall>x\<in>set new. P q x))"

lemma sends_only_refl [simp]: "sends_only P m m"
  by (simp add: sends_only_def)

lemma sends_only_same: "mg_obs m' = mg_obs m \<Longrightarrow> sends_only P m m'"
  by (simp add: sends_only_def ctrl_queue_def)

lemma sends_only_trans: "sends_only P m m' \<Longrightarrow> sends_only P m' m'' \<Longrightarrow> sends_only P m m''"
  unfolding sends_only_def by (metis append.assoc in_set_conv_decomp_last Un_iff set_append)

lemma sends_only_mono: "sends_only P m m' \<Longrightarrow> (\<And>q x. P q x \<Longrightarrow> Q q x) \<Longrightarrow> sends_only Q m m'"
  unfolding sends_only_def by meson

lemma send_ctrl_sends: "P q msg \<Longrightarrow> sends_only P m (snd (send_ctrl q msg m))"
  by (auto simp: sends_only_def ctrl_queue_def send_ctrl_def ob_send_ctrl_def chan_offer_def chan_push_def ob_close_def
      split: option.split prod.split if_splits)
section \<open>The effect of the handlers\<close>

text \<open>An offer: the addresses of one of two punchable nodes go to the other.\<close>

definition punch_offer :: "node_heap \<Rightarrow> tenant \<Rightarrow> node_ref \<Rightarrow> ob_ref \<Rightarrow> ctrl_msg \<Rightarrow> bool" where
  "punch_offer h t r q msg \<longleftrightarrow> (\<exists>n d y to about nonce. map_of h r = Some n \<and> (d, y) \<in> set (tenant_nodes h t)
     \<and> punchable (r, n) (d, y) \<and> (to = n \<and> about = y \<or> to = y \<and> about = n)
     \<and> n_ob to = Some q \<and> n_endpoints about \<noteq> [] \<and> msg = CPunch (punch_about about nonce))"

lemma punch_offerI:
  "map_of h r = Some n \<Longrightarrow> (d, y) \<in> set (tenant_nodes h t) \<Longrightarrow> punchable (r, n) (d, y) \<Longrightarrow>
   to = n \<and> about = y \<or> to = y \<and> about = n \<Longrightarrow> n_ob to = Some q \<Longrightarrow> n_endpoints about \<noteq> [] \<Longrightarrow>
   punch_offer h t r q (CPunch (punch_about about nonce))"
  unfolding punch_offer_def by blast

lemma send_punch_heap [simp]:
  "mg_heap (send_punch x y nonce m) = mg_heap m" "mg_tenants (send_punch x y nonce m) = mg_tenants m"
  by (simp_all add: send_punch_def send_ctrl_frame split: option.split)

lemma punch_pair_heap [simp]:
  "mg_heap (punch_pair nonce r d m) = mg_heap m" "mg_tenants (punch_pair nonce r d m) = mg_tenants m"
  by (simp_all add: punch_pair_def split: option.split)

lemma send_punch_inv: "mgr_inv m \<Longrightarrow> mgr_inv (send_punch x y nonce m)"
  by (simp add: send_punch_def split: option.split)

lemma punch_pair_inv: "mgr_inv m \<Longrightarrow> mgr_inv (punch_pair nonce r d m)"
  by (simp add: punch_pair_def send_punch_inv split: option.split)

lemma send_punch_sends:
  "(\<And>q. n_ob x = Some q \<Longrightarrow> n_endpoints y \<noteq> [] \<Longrightarrow> P q (CPunch (punch_about y nonce))) \<Longrightarrow> sends_only P m (send_punch x y nonce m)"
  by (simp add: send_punch_def send_ctrl_sends split: option.split)

lemma punch_pair_sends:
  assumes "d \<in> node_refs t"
  shows "sends_only (punch_offer (mg_heap m) t r) m (punch_pair nonce r d m)"
proof (cases "\<exists>a b. map_of (mg_heap m) r = Some a \<and> map_of (mg_heap m) d = Some b \<and> punchable (r, a) (d, b)")
  case True
  then obtain a b where ab: "map_of (mg_heap m) r = Some a" "map_of (mg_heap m) d = Some b" "punchable (r, a) (d, b)" by blast
  then have "(d, b) \<in> set (tenant_nodes (mg_heap m) t)" using assms by (simp add: tenant_nodes_iff)
  with ab have "sends_only (punch_offer (mg_heap m) t r) m (send_punch a b nonce m)"
    "sends_only (punch_offer (mg_heap m) t r) (send_punch a b nonce m) (send_punch b a nonce (send_punch a b nonce m))"
    by (intro send_punch_sends punch_offerI [of _ r a d b t]; blast)+
  from sends_only_trans [OF this] show ?thesis using ab by (simp add: punch_pair_def)
qed (auto simp: punch_pair_def split: option.split)

lemma punch_fold:
  assumes "set ds \<subseteq> node_refs t"
  shows "sends_only (punch_offer (mg_heap m) t r) m (fold (\<lambda>d. punch_pair (nonces d) r d) ds m)
    \<and> mg_heap (fold (\<lambda>d. punch_pair (nonces d) r d) ds m) = mg_heap m"
  using assms
proof (induction ds arbitrary: m)
  case (Cons d ds)
  have "sends_only (punch_offer (mg_heap m) t r) m (punch_pair (nonces d) r d m)"
    using Cons.prems by (intro punch_pair_sends) simp
  with Cons.IH [of "punch_pair (nonces d) r d m"] Cons.prems show ?case by (auto intro: sends_only_trans)
qed simp

lemma punch_fold_inv: "mgr_inv m \<Longrightarrow> mgr_inv (fold (\<lambda>d. punch_pair (nonces d) r d) ds m)"
  by (rule fold_keeps [of mgr_inv]) (simp_all add: punch_pair_inv)

text \<open>What the handlers change at the caller's node: nothing that the tables or the maps depend on.\<close>

definition punch_fields :: "node \<Rightarrow> node \<Rightarrow> bool" where
  "punch_fields n n' \<longleftrightarrow> n_rec n' = n_rec n \<and> n_sub n' = n_sub n \<and> n_ob n' = n_ob n \<and> n_vis n' = n_vis n \<and> n_tun n' = n_tun n
     \<and> n_punch n' = n_punch n \<and> n_disco n' = n_disco n"

lemma punch_fields_inv:
  "mgr_inv m \<Longrightarrow> map_of (mg_heap m) r = Some n \<Longrightarrow> punch_fields n n' \<Longrightarrow> mgr_inv (set_node r n' m)"
  by (rule set_node_quiet) (auto simp: punch_fields_def node_alike_def node_quiet_def)
text \<open>The common shape: fields of the caller's node are set, and then some nodes of its tenant are paired with it.\<close>

definition punch_effect :: "bool \<Rightarrow> conn \<Rightarrow> manager \<Rightarrow> manager \<Rightarrow> bool" where
  "punch_effect loopback c m m' \<longleftrightarrow> m' = m \<or> (\<exists>r n n' t ds nonces. cn_node c = Some r \<and> map_of (mg_heap m) r = Some n
     \<and> punch_fields n n' \<and> (n_endpoints n' = n_endpoints n \<or> endpoints_ok loopback (n_endpoints n'))
     \<and> set ds \<subseteq> node_refs t \<and> (ds = [] \<or> map_of (mg_tenants m) (id_tenant (cn_id c)) = Some t)
     \<and> m' = fold (\<lambda>d. punch_pair (nonces d) r d) ds (set_node r n' m))"

lemma punch_effectI:
  assumes "cn_node c = Some r" and "map_of (mg_heap m) r = Some n" and "punch_fields n n'"
    and "n_endpoints n' = n_endpoints n \<or> endpoints_ok lb (n_endpoints n')" and "set ds \<subseteq> node_refs t"
    and "map_of (mg_tenants m) (id_tenant (cn_id c)) = Some t"
    and "m' = fold (\<lambda>d. punch_pair (nonces d) r d) ds (set_node r n' m)"
  shows "punch_effect lb c m m'"
  unfolding punch_effect_def using assms by blast

lemma punch_effect_set:
  assumes "cn_node c = Some r" and "map_of (mg_heap m) r = Some n" and "punch_fields n n'"
    and "n_endpoints n' = n_endpoints n \<or> endpoints_ok lb (n_endpoints n')"
  shows "punch_effect lb c m (set_node r n' m)"
  unfolding punch_effect_def
  by (intro disjI2 exI [of _ r] exI [of _ n] exI [of _ n'] exI [of _ undefined] exI [of _ "[]"]) (use assms in simp)

lemma count_denied_set [simp]: "count_denied r n2 (set_node r n1 m) = set_node r (n2\<lparr>n_denied := n_denied n2 + 1\<rparr>) m"
  by (simp add: count_denied_def set_node_def)

lemma handle_endpoints_effect: "punch_effect lb c m (handle_endpoints lb now nonces eps c m)"
proof (cases "cn_node c")
  case (Some r)
  note c = this
  show ?thesis
  proof (cases "map_of (mg_heap m) r")
    case (Some n)
    let ?n1 = "n\<lparr>n_ep_at := Some now\<rparr>" and ?eps = "clean_endpoints lb eps"
    let ?n2 = "?n1\<lparr>n_endpoints := ?eps\<rparr>"
    have f: "punch_fields n ?n1" "punch_fields n ?n2" "punch_fields n (?n2\<lparr>n_denied := n_denied n + 1\<rparr>)"
      by (simp_all add: punch_fields_def)
    have ok: "endpoints_ok lb ?eps" by (rule clean_endpoints_ok)
    show ?thesis
    proof (cases "map_of (mg_tenants m) (id_tenant (cn_id c))")
      case None
      then show ?thesis
        using c Some f ok by (auto simp: handle_endpoints_def Let_def punch_effect_def [where m' = m] intro!: punch_effect_set [OF c Some])
    next
      case (Some t)
      note t = this and n = \<open>map_of (mg_heap m) r = Some n\<close>
      have "punch_effect lb c m (fold (\<lambda>d. punch_pair (nonces d) r d) (map snd (tn_nodes t)) (set_node r ?n2 m))"
        by (rule punch_effectI [OF c n f(2) _ _ t]) (simp_all add: ok node_refs_def)
      with c n t f ok show ?thesis
        by (auto simp: handle_endpoints_def Let_def punch_effect_def [where m' = m] intro!: punch_effect_set [OF c n])
    qed
  qed (simp add: handle_endpoints_def c punch_effect_def)
qed (simp add: handle_endpoints_def punch_effect_def)

lemma peer_with_key_ref: "peer_with_key pub h t = Some d \<Longrightarrow> d \<in> node_refs t"
  unfolding peer_with_key_def using find_some_in tenant_nodes_iff by fastforce

lemma handle_punch_req_effect: "punch_effect lb c m (handle_punch_req now nonce pub c m)"
proof (cases "\<exists>r t n d. cn_node c = Some r \<and> pub \<noteq> [] \<and> map_of (mg_tenants m) (id_tenant (cn_id c)) = Some t
    \<and> map_of (mg_heap m) r = Some n \<and> peer_with_key pub (mg_heap m) t = Some d")
  case True
  then obtain r t n d where w: "cn_node c = Some r" "pub \<noteq> []" "map_of (mg_tenants m) (id_tenant (cn_id c)) = Some t"
    "map_of (mg_heap m) r = Some n" "peer_with_key pub (mg_heap m) t = Some d" by blast
  have f: "punch_fields n (n\<lparr>n_punch_req_at := at\<rparr>)" "punch_fields n (n\<lparr>n_denied := n_denied n + 1\<rparr>)" for at
    by (simp_all add: punch_fields_def)
  have "punch_effect lb c m (punch_pair nonce r d (set_node r (n\<lparr>n_punch_req_at := at\<rparr>) m))" for at
    by (rule punch_effectI [OF w(1,4) f(1) _ _ w(3), where ds = "[d]" and nonces = "\<lambda>_. nonce"]) (simp_all add: peer_with_key_ref [OF w(5)])
  moreover have "punch_effect lb c m (count_denied r n m)"
    unfolding count_denied_def by (rule punch_effect_set [OF w(1,4) f(2)]) simp
  moreover have "punch_effect lb c m m" by (simp add: punch_effect_def)
  ultimately show ?thesis using w by (simp add: handle_punch_req_def Let_def)
qed (auto simp: handle_punch_req_def punch_effect_def split: option.split)

lemma handle_status_effect: "punch_effect lb c m (handle_status now reports c m)"
proof (cases "\<exists>r n. cn_node c = Some r \<and> map_of (mg_heap m) r = Some n")
  case True
  then obtain r n where w: "cn_node c = Some r" "map_of (mg_heap m) r = Some n" by blast
  have "punch_effect lb c m (set_node r (n\<lparr>n_paths := path_reports now [] reports\<rparr>) m)"
    by (rule punch_effect_set [OF w]) (simp_all add: punch_fields_def)
  moreover have "punch_effect lb c m m" by (simp add: punch_effect_def)
  ultimately show ?thesis using w by (simp add: handle_status_def)
qed (auto simp: handle_status_def punch_effect_def split: option.split)

lemma punch_effect_inv: "punch_effect lb c m m' \<Longrightarrow> mgr_inv m \<Longrightarrow> mgr_inv m'"
  by (auto simp: punch_effect_def intro!: punch_fold_inv punch_fields_inv)

lemma punch_effect_sends:
  assumes "punch_effect lb c m m'"
  shows "m' = m \<or> (\<exists>r n n'. cn_node c = Some r \<and> map_of (mg_heap m) r = Some n \<and> punch_fields n n' \<and> mg_heap m' = gm_put r n' (mg_heap m)
    \<and> sends_only (\<lambda>q x. \<exists>t. map_of (mg_tenants m) (id_tenant (cn_id c)) = Some t \<and> punch_offer (mg_heap m') t r q x) m m')"
proof (cases "m' = m")
  case False
  with assms obtain r n n' t ds nonces where e: "cn_node c = Some r" "map_of (mg_heap m) r = Some n" "punch_fields n n'"
    "set ds \<subseteq> node_refs t" "ds = [] \<or> map_of (mg_tenants m) (id_tenant (cn_id c)) = Some t"
    "m' = fold (\<lambda>d. punch_pair (nonces d) r d) ds (set_node r n' m)"
    unfolding punch_effect_def by blast
  note f = punch_fold [OF e(4), of "set_node r n' m" r nonces, folded e(6)]
  then have h: "mg_heap m' = gm_put r n' (mg_heap m)" by simp
  have s: "sends_only P m (set_node r n' m)" for P by (simp add: sends_only_same)
  have "sends_only (\<lambda>q x. \<exists>t. map_of (mg_tenants m) (id_tenant (cn_id c)) = Some t \<and> punch_offer (mg_heap m') t r q x) (set_node r n' m) m'"
  proof (cases "ds = []")
    case False
    with e(5) f show ?thesis by (auto elim: sends_only_mono)
  qed (simp add: e(6))
  with e h sends_only_trans [OF s] show ?thesis by blast
qed simp
lemma punch_pair_tables [simp]: "mg_tenants (fold (\<lambda>d. punch_pair (nonces d) r d) ds m) = mg_tenants m"
  by (induction ds arbitrary: m) simp_all

lemma punch_effect_tables: "punch_effect lb c m m' \<Longrightarrow> mg_tenants m' = mg_tenants m"
  by (auto simp: punch_effect_def)

end
