(* ===== verification/Access_Log.thy ===== *)
theory Access_Log
  imports Wg_Packet Netip_Text "HOL-Library.Char_ord" "HOL-Library.List_Lexorder" "HOL-Library.Product_Lexorder"
begin

text \<open>
  The access summary of a Mod B node (\<open>client/wgnet/alog.go\<close>): inbound packets are counted by
  source, protocol, port, decision and rule in a table of at most \<open>alogMaxKeys\<close> keys, which a
  periodic drain empties into a message of at most \<open>MaxAccessLogEntries\<close> entries. The lemmas
  account for every packet: it is counted in its key, or in \<open>truncated\<close>.
\<close>

definition alogMaxKeys :: nat where "alogMaxKeys = 512"
definition MaxAccessLogEntries :: nat where "MaxAccessLogEntries = 200"
definition tcpFIN :: byte where "tcpFIN = 0x01"
definition tcpSYN :: byte where "tcpSYN = 0x02"
definition tcpRST :: byte where "tcpRST = 0x04"
definition tcpPSH :: byte where "tcpPSH = 0x08"
definition tcpACK :: byte where "tcpACK = 0x10"

lemmas tcp_flag_consts = tcpFIN_def tcpSYN_def tcpRST_def tcpPSH_def tcpACK_def

record alog_key =
  al_src :: addr
  al_proto :: byte
  al_port :: u16
  al_allow :: bool
  al_rule :: string

record alog_val =
  al_flows :: int
  al_packets :: int
  al_bytes :: int

record access_agg =
  aa_on :: bool
  aa_m :: "(alog_key, alog_val) gomap"
  aa_truncated :: int

definition new_access_agg :: access_agg where
  "new_access_agg = \<lparr>aa_on = False, aa_m = [], aa_truncated = 0\<rparr>"

definition alog_key_of :: "pkt_info \<Rightarrow> bool \<Rightarrow> string \<Rightarrow> alog_key" where
  "alog_key_of p allow rule =
     \<lparr>al_src = pk_src p, al_proto = pk_proto p,
      al_port = (if pk_proto p = protoTCP \<or> pk_proto p = protoUDP then pk_dport p else 0),
      al_allow = allow, al_rule = rule\<rparr>"

definition new_flow :: "pkt_info \<Rightarrow> bool" where
  "new_flow p =
     (if pk_proto p = protoTCP then pk_flags p AND tcpSYN \<noteq> 0 \<and> pk_flags p AND tcpACK = 0
      else if pk_proto p = protoUDP then False
      else if pk_proto p = protoICMP then pk_itype p = icmpEchoRequest
      else False)"

definition alog_bump :: "pkt_info \<Rightarrow> nat \<Rightarrow> alog_val \<Rightarrow> alog_val" where
  "alog_bump p sz v =
     v\<lparr>al_flows := al_flows v + (if new_flow p then 1 else 0), al_packets := al_packets v + 1,
       al_bytes := al_bytes v + int sz\<rparr>"

definition record_access :: "pkt_info \<Rightarrow> nat \<Rightarrow> bool \<Rightarrow> string \<Rightarrow> access_agg \<Rightarrow> access_agg" where
  "record_access p sz allow rule a =
     (if \<not> aa_on a then a
      else
        let k = alog_key_of p allow rule in
        case map_of (aa_m a) k of
          None \<Rightarrow>
            if length (aa_m a) \<ge> alogMaxKeys then a\<lparr>aa_truncated := aa_truncated a + 1\<rparr>
            else
              let v = \<lparr>al_flows = (if pk_proto p = protoUDP then 1 else 0), al_packets = 0, al_bytes = 0\<rparr> in
              a\<lparr>aa_m := gm_put k (alog_bump p sz v) (aa_m a)\<rparr>
        | Some v \<Rightarrow> a\<lparr>aa_m := gm_put k (alog_bump p sz v) (aa_m a)\<rparr>)"

definition proto_name :: "byte \<Rightarrow> string" where
  "proto_name p =
     (if p = protoTCP then ''tcp'' else if p = protoUDP then ''udp'' else if p = protoICMP then ''icmp'' else ''other'')"

record net_access_entry =
  ne_src_ip :: string
  ne_proto :: string
  ne_port :: int
  ne_decision :: string
  ne_rule :: string
  ne_flows :: int
  ne_packets :: int
  ne_bytes :: int

definition access_entry :: "alog_key \<times> alog_val \<Rightarrow> net_access_entry" where
  "access_entry kv = (case kv of (k, v) \<Rightarrow>
     \<lparr>ne_src_ip = addr_string (al_src k), ne_proto = proto_name (al_proto k), ne_port = uint (al_port k),
      ne_decision = (if al_allow k then ''allow'' else ''deny''), ne_rule = al_rule k,
      ne_flows = al_flows v, ne_packets = al_packets v, ne_bytes = al_bytes v\<rparr>)"

text \<open>The order of the drained entries: most packets first, then source and protocol.
  \<open>sort.Slice\<close> leaves the order of equal entries open; the list order of the table decides here.\<close>

definition drain_order :: "net_access_entry \<Rightarrow> int \<times> string" where
  "drain_order e = (- ne_packets e, ne_src_ip e @ ne_proto e)"

definition drain :: "access_agg \<Rightarrow> (net_access_entry list \<times> int) \<times> access_agg" where
  "drain a =
     (let entries = sort_key drain_order (map access_entry (aa_m a)) in
      if length entries > MaxAccessLogEntries then
        ((take MaxAccessLogEntries entries, aa_truncated a + int (length entries - MaxAccessLogEntries)),
         a\<lparr>aa_m := [], aa_truncated := 0\<rparr>)
      else ((entries, aa_truncated a), a\<lparr>aa_m := [], aa_truncated := 0\<rparr>))"

definition set_access_log :: "bool \<Rightarrow> access_agg \<Rightarrow> access_agg" where
  "set_access_log on a = a\<lparr>aa_on := on\<rparr>"

section \<open>Accounting\<close>

definition counted :: "access_agg \<Rightarrow> int" where
  "counted a = (\<Sum>kv\<leftarrow>aa_m a. al_packets (snd kv)) + aa_truncated a"

definition agg_ok :: "access_agg \<Rightarrow> bool" where
  "agg_ok a \<longleftrightarrow> gm_ok (aa_m a) \<and> length (aa_m a) \<le> alogMaxKeys \<and> (\<forall>kv\<in>set (aa_m a). 1 \<le> al_packets (snd kv))
     \<and> 0 \<le> aa_truncated a"

lemma new_access_agg_ok [simp]: "agg_ok new_access_agg"
  by (simp add: agg_ok_def new_access_agg_def)

lemma sum_gm_put:
  "gm_ok m \<Longrightarrow> (\<Sum>kv\<leftarrow>gm_put k v m. f (snd kv)) =
     (\<Sum>kv\<leftarrow>m. f (snd kv)) - (case map_of m k of None \<Rightarrow> 0 | Some w \<Rightarrow> f w) + (f v :: int)"
proof (induction m)
  case (Cons x m)
  then show ?case by (cases x) (auto split: option.splits)
qed simp

lemma record_access_ok:
  assumes "agg_ok a"
  shows "agg_ok (record_access p sz allow rule a)"
    and "counted (record_access p sz allow rule a) = counted a + of_bool (aa_on a)"
    and "aa_on (record_access p sz allow rule a) = aa_on a"
proof -
  let ?k = "alog_key_of p allow rule"
  have pos: "1 \<le> al_packets w" if "map_of (aa_m a) ?k = Some w" for w
    using that assms map_of_SomeD by (fastforce simp: agg_ok_def)
  have put: "agg_ok (a\<lparr>aa_m := gm_put ?k v (aa_m a)\<rparr>)"
    if "1 \<le> al_packets v" and "map_of (aa_m a) ?k = None \<Longrightarrow> length (aa_m a) < alogMaxKeys" for v
    using assms that by (auto simp: agg_ok_def length_gm_put dest!: set_gm_put)
  have cnt: "counted (a\<lparr>aa_m := gm_put ?k v (aa_m a)\<rparr>) =
      counted a - (case map_of (aa_m a) ?k of None \<Rightarrow> 0 | Some w \<Rightarrow> al_packets w) + al_packets v" for v
    using assms by (simp add: counted_def sum_gm_put agg_ok_def)
  show "agg_ok (record_access p sz allow rule a)"
  proof (cases "map_of (aa_m a) ?k")
    case None
    let ?v = "alog_bump p sz \<lparr>al_flows = (if pk_proto p = protoUDP then 1 else 0), al_packets = 0, al_bytes = 0\<rparr>"
    have trunc: "agg_ok (a\<lparr>aa_truncated := aa_truncated a + 1\<rparr>)" using assms by (simp add: agg_ok_def)
    have "1 \<le> al_packets ?v" by (simp add: alog_bump_def)
    from put [OF this] trunc assms None show ?thesis
      by (simp add: record_access_def Let_def not_le del: One_nat_def)
  next
    case (Some w)
    then show ?thesis
      using assms pos [OF Some] put [of "alog_bump p sz w"]
      by (simp add: record_access_def Let_def alog_bump_def)
  qed
  show "counted (record_access p sz allow rule a) = counted a + of_bool (aa_on a)"
    by (cases "map_of (aa_m a) ?k") (auto simp: record_access_def Let_def alog_bump_def cnt counted_def [of "a\<lparr>aa_truncated := aa_truncated a + 1\<rparr>"] counted_def [of a])
  show "aa_on (record_access p sz allow rule a) = aa_on a"
    by (simp add: record_access_def Let_def split: option.split)
qed

lemma drain_resets [simp]: "agg_ok a \<Longrightarrow> agg_ok (snd (drain a))" "counted (snd (drain a)) = 0"
  "aa_on (snd (drain a)) = aa_on a"
  by (simp_all add: drain_def Let_def agg_ok_def counted_def)

text \<open>One message: how many entries, which order, what is missing.\<close>

lemma drain_entries:
  assumes "fst (drain a) = (es, tr)"
  shows "length es \<le> MaxAccessLogEntries" and "sorted (map drain_order es)"
    and "int (length es) + (tr - aa_truncated a) = int (length (aa_m a))"
    and "set es \<subseteq> access_entry ` set (aa_m a)"
  using assms by (auto simp: drain_def Let_def sorted_wrt_take take_map [symmetric] dest!: in_set_takeD split: if_splits)

section \<open>Property\<close>

text \<open>The summary of one reporting window: \<open>ps\<close> are the packets recorded since the last drain.\<close>

definition window :: "(pkt_info \<times> nat \<times> bool \<times> string) list \<Rightarrow> access_agg \<Rightarrow> access_agg" where
  "window ps a = fold (\<lambda>(p, sz, allow, rule). record_access p sz allow rule) ps a"

lemma window_ok:
  "agg_ok a \<Longrightarrow> agg_ok (window ps a) \<and> aa_on (window ps a) = aa_on a
     \<and> counted (window ps a) = counted a + (if aa_on a then int (length ps) else 0)"
proof (induction ps arbitrary: a)
  case (Cons x ps)
  obtain p sz allow rule where x: "x = (p, sz, allow, rule)" by (cases x) auto
  let ?a = "record_access p sz allow rule a"
  have "window (x # ps) a = window ps ?a" by (simp add: window_def x)
  with Cons.IH [OF record_access_ok(1) [OF Cons.prems]] record_access_ok(2,3) [OF Cons.prems]
  show ?case by simp
qed (simp add: window_def)

text \<open>The access summary keeps its memory bounded and loses no packet silently: after any
  packets of a window at most 512 keys are held and every recorded packet is in a key's counter or in
  the truncation counter; the drained message has at most 200 entries, the busiest first, each of them
  a key of the table, and the truncation count covers the entries left out; the drain starts the next
  window empty.\<close>

lemma access_summary_accounts:
  "let a = window ps (snd (drain (window before (set_access_log True new_access_agg)))) in
   case fst (drain a) of (es, tr) \<Rightarrow>
     length (aa_m a) \<le> 512
     \<and> (\<Sum>kv\<leftarrow>aa_m a. al_packets (snd kv)) + aa_truncated a = int (length ps)
     \<and> length es \<le> 200 \<and> sorted (map drain_order es) \<and> set es \<subseteq> access_entry ` set (aa_m a)
     \<and> int (length es) + tr = int (length (aa_m a)) + aa_truncated a"
proof -
  let ?s = "set_access_log True new_access_agg"
  have s: "agg_ok ?s" "aa_on ?s" by (simp_all add: set_access_log_def agg_ok_def new_access_agg_def)
  let ?b = "snd (drain (window before ?s))"
  have b: "agg_ok ?b" "counted ?b = 0" "aa_on ?b" using window_ok [OF s(1), of before] s(2) by simp_all
  define a where "a = window ps ?b"
  have a: "agg_ok a" "counted a = int (length ps)" using window_ok [OF b(1), of ps] b by (simp_all add: a_def)
  obtain es tr where d: "fst (drain a) = (es, tr)" by fastforce
  show ?thesis
    using a drain_entries [OF d]
    by (simp add: a_def [symmetric] d agg_ok_def counted_def alogMaxKeys_def MaxAccessLogEntries_def)
qed

end
