(* ===== verification/Access_Intake.thy ===== *)
theory Access_Intake
  imports Net_Punch Access_Log
begin

text \<open>
  The server side of the access summary (\<open>handleAccessLog\<close> and \<open>accessLimiter\<close> of
  \<open>server/netctl/accesslog.go\<close>): the entries a Mod B node reports are checked, completed with names, limited
  in number, and written to the store; the largest refusals go to the audit log.
\<close>

definition Minute :: duration where "Minute = 60 * Second"
definition accessMinInterval :: duration where "accessMinInterval = 10 * Second"
definition accessDenyAudit :: nat where "accessDenyAudit = 5"
definition accessTenantPerMin :: nat where "accessTenantPerMin = 2000"
definition AccessAllow :: string where "AccessAllow = ''allow''"
definition AccessDeny :: string where "AccessDeny = ''deny''"

record access_rec =
  ar_tenant :: string
  ar_at :: time
  ar_src_ip :: string
  ar_src_name :: string
  ar_src_client :: string
  ar_dst_ip :: string
  ar_dst_name :: string
  ar_dst_client :: string
  ar_proto :: string
  ar_port :: int
  ar_decision :: string
  ar_rule :: string
  ar_resource :: string
  ar_flows :: int
  ar_packets :: int
  ar_bytes :: int

section \<open>The limiter\<close>

record access_win =
  aw_start :: time
  aw_n :: nat

type_synonym access_limiter = "(string, access_win) gomap"

definition current_window :: "access_limiter \<Rightarrow> string \<Rightarrow> time \<Rightarrow> access_win" where
  "current_window l tid now =
     (case map_of l tid of
        None \<Rightarrow> \<lparr>aw_start = now, aw_n = 0\<rparr>
      | Some w \<Rightarrow> if now - aw_start w \<ge> Minute then \<lparr>aw_start = now, aw_n = 0\<rparr> else w)"

definition limiter_take :: "string \<Rightarrow> nat \<Rightarrow> time \<Rightarrow> access_limiter \<Rightarrow> nat \<times> access_limiter" where
  "limiter_take tid n now l =
     (let w = current_window l tid now; room = int accessTenantPerMin - int (aw_n w) in
      if room \<le> 0 then (0, gm_put tid w l)
      else let k = (if int n > room then nat room else n) in (k, gm_put tid (w\<lparr>aw_n := aw_n w + k\<rparr>) l))"

section \<open>The handler\<close>

definition rule_resources :: "tun_rule list \<Rightarrow> (string, string) gomap" where
  "rule_resources rs = fold (\<lambda>r. gm_put (tr_id r) (tr_resource r)) (filter (\<lambda>r. tr_resource r \<noteq> [] \<and> \<not> tr_dns_only r) rs) []"

definition known_proto :: "string \<Rightarrow> bool" where
  "known_proto p \<longleftrightarrow> p \<in> {''tcp'', ''udp'', ''icmp'', ''other''}"

text \<open>One turn of the loop over the entries: the record, if the entry is accepted.\<close>

definition intake ::
  "time \<Rightarrow> (string, string) gomap \<Rightarrow> node_heap \<Rightarrow> tenant \<Rightarrow> node \<Rightarrow> net_access_entry \<Rightarrow> access_rec option" where
  "intake now res h t n e =
     (case parse_addr (ne_src_ip e) of
        None \<Rightarrow> None
      | Some src \<Rightarrow>
          let proto = to_lower (ne_proto e); allow = (ne_decision e = AccessAllow) in
          if \<not> is4 src then None
          else if ne_decision e \<noteq> AccessAllow \<and> ne_decision e \<noteq> AccessDeny then None
          else if \<not> known_proto proto then None
          else if ne_port e < 0 \<or> ne_port e > 65535 \<or> ne_flows e < 0 \<or> ne_packets e < 0 \<or> ne_bytes e < 0 then None
          else
            let sn = Option.bind (map_of (tn_by_ip t) src) (map_of h); ruled = (allow \<and> length (ne_rule e) \<le> 128) in
            Some \<lparr>ar_tenant = tn_id t, ar_at = now, ar_src_ip = addr_string src,
              ar_src_name = (case sn of Some y \<Rightarrow> nr_name (n_rec y) | None \<Rightarrow> []),
              ar_src_client = (case sn of Some y \<Rightarrow> nr_client (n_rec y) | None \<Rightarrow> []),
              ar_dst_ip = addr_string (node_ip n), ar_dst_name = nr_name (n_rec n), ar_dst_client = nr_client (n_rec n),
              ar_proto = proto, ar_port = ne_port e, ar_decision = ne_decision e,
              ar_rule = (if ruled then ne_rule e else []),
              ar_resource = (if ruled then (case map_of res (ne_rule e) of Some r \<Rightarrow> r | None \<Rightarrow> []) else []),
              ar_flows = ne_flows e, ar_packets = ne_packets e, ar_bytes = ne_bytes e\<rparr>)"

text \<open>The audit entries about refusals: target and detail.\<close>

definition deny_audit :: "access_rec list \<Rightarrow> (string \<times> string) list" where
  "deny_audit recs = map (\<lambda>r. (ar_dst_name r,
       (if ar_src_name r = [] then ar_src_ip r else ar_src_name r) @ '' '' @ ar_proto r @ '':'' @ itoa_nat (nat (ar_port r))
       @ '' paket='' @ itoa_nat (nat (ar_packets r))))
     (take accessDenyAudit (sort_key (\<lambda>r. - ar_packets r) (filter (\<lambda>r. ar_decision r = AccessDeny) recs)))"

text \<open>What is written to the store, what is audited, and the new limiter and manager.\<close>

definition handle_access_log ::
  "net_env \<Rightarrow> time \<Rightarrow> net_access_entry list \<Rightarrow> conn \<Rightarrow> access_limiter \<Rightarrow> manager
   \<Rightarrow> access_rec list \<times> (string \<times> string) list \<times> access_limiter \<times> manager" where
  "handle_access_log E now entries c l m =
     (if \<not> ev_alog E \<or> \<not> id_alog (cn_id c) then ([], [], l, m)
      else
        (case Option.bind (cn_node c) (\<lambda>r. map_option (Pair r) (map_of (mg_heap m) r)) of
           None \<Rightarrow> ([], [], l, m)
         | Some (r, n) \<Rightarrow>
             if nr_kind (n_rec n) \<noteq> KindDevice then ([], [], l, m)
             else
               (case map_of (mg_tenants m) (id_tenant (cn_id c)) of
                  None \<Rightarrow> ([], [], l, m)
                | Some t \<Rightarrow>
                    if n_ob n \<noteq> Some (cn_ob c) \<or> \<not> n_tun n then ([], [], l, m)
                    else if too_soon accessMinInterval now (n_last_alog n) then ([], [], l, m)
                    else
                      let m1 = set_node r (n\<lparr>n_last_alog := Some now\<rparr>) m;
                          res = rule_resources (tun_rules E (mg_heap m1) t);
                          recs = List.map_filter (intake now res (mg_heap m1) t n) (take MaxAccessLogEntries entries) in
                      if recs = [] then ([], [], l, m1)
                      else (case limiter_take (tn_id t) (length recs) now l of
                              (k, l1) \<Rightarrow> (take k recs, deny_audit (take k recs), l1, m1)))))"

section \<open>The rate of accepted records\<close>

text \<open>A sequence of calls for one tenant, as numbers of records and times.\<close>

fun grants :: "string \<Rightarrow> access_limiter \<Rightarrow> (nat \<times> time) list \<Rightarrow> nat list" where
  "grants tid l [] = []"
| "grants tid l ((n, now) # cs) = (case limiter_take tid n now l of (k, l1) \<Rightarrow> k # grants tid l1 cs)"

definition room_of :: "access_limiter \<Rightarrow> string \<Rightarrow> nat" where
  "room_of l tid = (case map_of l tid of None \<Rightarrow> accessTenantPerMin | Some w \<Rightarrow> accessTenantPerMin - aw_n w)"

lemma limiter_take_other: "tid' \<noteq> tid \<Longrightarrow> map_of (snd (limiter_take tid n now l)) tid' = map_of l tid'"
  by (simp add: limiter_take_def Let_def)

lemma limiter_take_window:
  "limiter_take tid n now l = (k, l1) \<Longrightarrow>
   (\<exists>w. map_of l1 tid = Some w \<and> aw_start w = aw_start (current_window l tid now)
     \<and> aw_n w = aw_n (current_window l tid now) + k \<and> k \<le> accessTenantPerMin - aw_n (current_window l tid now))"
  by (auto simp: limiter_take_def Let_def split: if_splits)

text \<open>Within the running window no more than what is left is granted.\<close>

lemma grants_in_window:
  assumes "map_of l tid = Some w" and "\<forall>(n, now)\<in>set cs. now < aw_start w + Minute"
  shows "sum_list (grants tid l cs) \<le> accessTenantPerMin - aw_n w"
  using assms
proof (induction cs arbitrary: l w)
  case (Cons c cs)
  obtain n now where c: "c = (n, now)" by force
  obtain k l1 where k: "limiter_take tid n now l = (k, l1)" by force
  have cw: "current_window l tid now = w" using Cons.prems c by (simp add: current_window_def)
  from limiter_take_window [OF k, unfolded cw] obtain w1 where w1: "map_of l1 tid = Some w1" "aw_start w1 = aw_start w"
    "aw_n w1 = aw_n w + k" "k \<le> accessTenantPerMin - aw_n w" by blast
  with Cons.IH [OF w1(1)] Cons.prems(2) show ?case by (simp add: c k)
qed simp

text \<open>In less than a minute at most one new window begins.\<close>

lemma grants_in_minute:
  assumes "\<forall>(n, now)\<in>set cs. a \<le> now \<and> now < a + Minute"
  shows "sum_list (grants tid l cs) \<le> room_of l tid + accessTenantPerMin"
  using assms
proof (induction cs arbitrary: l)
  case (Cons c cs)
  obtain n now where c: "c = (n, now)" by force
  obtain k l1 where k: "limiter_take tid n now l = (k, l1)" by force
  let ?w = "current_window l tid now"
  from limiter_take_window [OF k] obtain w1 where w1: "map_of l1 tid = Some w1" "aw_start w1 = aw_start ?w"
    "aw_n w1 = aw_n ?w + k" "k \<le> accessTenantPerMin - aw_n ?w" by blast
  show ?case
  proof (cases "aw_start ?w = now \<and> aw_n ?w = 0")
    case True
    have "\<forall>(n, t)\<in>set cs. t < aw_start w1 + Minute" using Cons.prems True w1(2) by (auto simp: c)
    from grants_in_window [OF w1(1) this] True w1 show ?thesis by (simp add: c k)
  next
    case False
    then have "map_of l tid = Some ?w" by (auto simp: current_window_def split: option.splits if_splits)
    then have "room_of l tid = accessTenantPerMin - aw_n ?w" "room_of l1 tid = accessTenantPerMin - (aw_n ?w + k)"
      using w1 by (simp_all add: room_of_def)
    with Cons.IH [of l1] Cons.prems w1(4) show ?thesis by (simp add: c k)
  qed
qed simp
section \<open>What is written\<close>

lemma handle_access_log_cases:
  assumes "handle_access_log E now entries c l m = (recs, aud, l1, m1)"
  obtains "recs = []" "aud = []" "l1 = l" "m1 = m"
  | r n where "recs = []" "aud = []" "l1 = l" "cn_node c = Some r" "map_of (mg_heap m) r = Some n"
      "m1 = set_node r (n\<lparr>n_last_alog := Some now\<rparr>) m"
  | r n t k all where "cn_node c = Some r" "map_of (mg_heap m) r = Some n" "map_of (mg_tenants m) (id_tenant (cn_id c)) = Some t"
      "n_ob n = Some (cn_ob c)" "n_tun n" "nr_kind (n_rec n) = KindDevice"
      "m1 = set_node r (n\<lparr>n_last_alog := Some now\<rparr>) m"
      "all = List.map_filter (intake now (rule_resources (tun_rules E (mg_heap m1) t)) (mg_heap m1) t n) (take MaxAccessLogEntries entries)"
      "limiter_take (tn_id t) (length all) now l = (k, l1)" "recs = take k all" "aud = deny_audit recs"
proof (cases "ev_alog E \<and> id_alog (cn_id c) \<and> (\<exists>r n t. cn_node c = Some r \<and> map_of (mg_heap m) r = Some n
    \<and> nr_kind (n_rec n) = KindDevice \<and> map_of (mg_tenants m) (id_tenant (cn_id c)) = Some t
    \<and> n_ob n = Some (cn_ob c) \<and> n_tun n \<and> \<not> too_soon accessMinInterval now (n_last_alog n))")
  case False
  then have "handle_access_log E now entries c l m = ([], [], l, m)"
    by (cases "Option.bind (cn_node c) (\<lambda>r. map_option (Pair r) (map_of (mg_heap m) r))"; cases "map_of (mg_tenants m) (id_tenant (cn_id c))")
      (auto simp: handle_access_log_def bind_eq_Some_conv)
  with assms that(1) show thesis by simp
next
  case True
  then obtain r n t where w: "ev_alog E" "id_alog (cn_id c)" "cn_node c = Some r" "map_of (mg_heap m) r = Some n"
    "nr_kind (n_rec n) = KindDevice" "map_of (mg_tenants m) (id_tenant (cn_id c)) = Some t" "n_ob n = Some (cn_ob c)" "n_tun n"
    "\<not> too_soon accessMinInterval now (n_last_alog n)" by blast
  let ?m1 = "set_node r (n\<lparr>n_last_alog := Some now\<rparr>) m"
  let ?all = "List.map_filter (intake now (rule_resources (tun_rules E (mg_heap ?m1) t)) (mg_heap ?m1) t n) (take MaxAccessLogEntries entries)"
  obtain k l2 where k: "limiter_take (tn_id t) (length ?all) now l = (k, l2)" by force
  have h: "handle_access_log E now entries c l m
      = (if ?all = [] then ([], [], l, ?m1) else (take k ?all, deny_audit (take k ?all), l2, ?m1))"
    unfolding handle_access_log_def using w k by (simp add: Let_def)
  show thesis
  proof (cases "?all = []")
    case True
    with h assms w that(2) show thesis by simp
  next
    case False
    with h assms have "recs = take k ?all" "aud = deny_audit recs" "l1 = l2" "m1 = ?m1" by simp_all
    with that(3) [OF w(3,4,6,7,8,5) _ _ _ this(1,2)] k show thesis by simp
  qed
qed

lemma intake_tenant: "intake now res h t n e = Some a \<Longrightarrow> ar_tenant a = tn_id t"
  by (auto simp: intake_def Let_def split: option.splits if_splits)

lemma written_shape:
  assumes "handle_access_log E now entries c l m = (recs, aud, l1, m1)"
  shows "recs = [] \<and> l1 = l \<or> (\<exists>tid n k. limiter_take tid n now l = (k, l1) \<and> length recs \<le> k \<and> (\<forall>a\<in>set recs. ar_tenant a = tid))"
  using assms
proof (cases rule: handle_access_log_cases)
  case (3 r n t k all)
  have "ar_tenant a = tn_id t" if "a \<in> set recs" for a
    using map_filter_mem [of a] intake_tenant that 3(8,10) by (metis in_set_takeD)
  with 3(9,10) show ?thesis by (metis length_take min.cobounded2)
qed simp_all

text \<open>A history of reports: in each the manager may be another one, since other operations run in between.\<close>

type_synonym access_call = "net_env \<times> time \<times> net_access_entry list \<times> conn \<times> manager"

fun written :: "access_call list \<Rightarrow> access_limiter \<Rightarrow> access_rec list" where
  "written [] l = []"
| "written ((E, now, entries, c, m) # cs) l =
     (case handle_access_log E now entries c l m of (recs, aud, l1, m1) \<Rightarrow> recs @ written cs l1)"

abbreviation of_tenant :: "string \<Rightarrow> access_rec list \<Rightarrow> access_rec list" where
  "of_tenant tid recs \<equiv> filter (\<lambda>a. ar_tenant a = tid) recs"

lemma grants_cong: "map_of l1 tid = map_of l2 tid \<Longrightarrow> grants tid l1 cs = grants tid l2 cs"
proof (induction cs arbitrary: l1 l2)
  case (Cons c cs)
  obtain n now where c: "c = (n, now)" by force
  have a: "fst (limiter_take tid n now l1) = fst (limiter_take tid n now l2)"
    and b: "map_of (snd (limiter_take tid n now l1)) tid = map_of (snd (limiter_take tid n now l2)) tid"
    using Cons.prems by (simp_all add: limiter_take_def current_window_def Let_def)
  from a Cons.IH [OF b] show ?case by (simp add: c case_prod_beta)
qed simp

text \<open>The records of a tenant come out of its grants.\<close>

lemma written_grants:
  "\<exists>gs. length (of_tenant tid (written cs l)) \<le> sum_list (grants tid l gs) \<and> snd ` set gs \<subseteq> (\<lambda>(E, now, rest). now) ` set cs"
proof (induction cs arbitrary: l)
  case (Cons x cs)
  obtain E now entries c m where x: "x = (E, now, entries, c, m)" using prod_cases5 by blast
  obtain recs aud l1 m1 where h: "handle_access_log E now entries c l m = (recs, aud, l1, m1)" by (metis prod_cases4)
  have split: "of_tenant tid (written (x # cs) l) = of_tenant tid recs @ of_tenant tid (written cs l1)" by (simp add: x h)
  obtain gs where gs: "length (of_tenant tid (written cs l1)) \<le> sum_list (grants tid l1 gs)"
    "snd ` set gs \<subseteq> (\<lambda>(E, now, rest). now) ` set cs" using Cons.IH by blast
  from written_shape [OF h] show ?case
  proof (elim disjE exE conjE)
    assume "recs = []" "l1 = l"
    with gs split show ?thesis by (intro exI [of _ gs]) auto
  next
    fix tid' n k assume k: "limiter_take tid' n now l = (k, l1)" "length recs \<le> k" "\<forall>a\<in>set recs. ar_tenant a = tid'"
    show ?thesis
    proof (cases "tid' = tid")
      case True
      have "length (of_tenant tid recs) \<le> k" using k(2) length_filter_le order_trans by blast
      then show ?thesis
        using gs split k(1) True by (intro exI [of _ "(n, now) # gs"]) (auto simp: x)
    next
      case False
      then have "of_tenant tid recs = []" using k(3) by (auto simp: filter_empty_conv)
      moreover have "map_of l1 tid = map_of l tid" using limiter_take_other [of tid tid' n now l] False k(1) by simp
      ultimately show ?thesis using gs split grants_cong [of l1 tid l gs] by (intro exI [of _ gs]) (simp add: x subset_insertI2)
    qed
  qed
qed (auto intro: exI [of _ "[]"])
text \<open>C26: whatever the nodes of a tenant report, in any history of reports within less than a minute at most twice
  \<open>accessTenantPerMin\<close> records of the tenant are written, and at most \<open>accessTenantPerMin\<close> while the
  window of the limiter is the one it had at the start.\<close>

theorem access_rate_bounded:
  assumes "\<forall>(E, now, entries, c, m)\<in>set calls. a \<le> now \<and> now < a + Minute"
  shows "length (of_tenant tid (written calls l)) \<le> 2 * accessTenantPerMin
    \<and> (\<forall>w. map_of l tid = Some w \<and> aw_start w = a \<longrightarrow> length (of_tenant tid (written calls l)) \<le> accessTenantPerMin - aw_n w)"
proof -
  obtain gs where gs: "length (of_tenant tid (written calls l)) \<le> sum_list (grants tid l gs)"
    "snd ` set gs \<subseteq> (\<lambda>(E, now, rest). now) ` set calls"
    using written_grants by blast
  have t: "\<forall>(n, now)\<in>set gs. a \<le> now \<and> now < a + Minute"
    using gs(2) assms by (fastforce simp: image_subset_iff)
  have "room_of l tid \<le> accessTenantPerMin" by (auto simp: room_of_def split: option.split)
  with gs(1) grants_in_minute [OF t, of tid l] have "length (of_tenant tid (written calls l)) \<le> 2 * accessTenantPerMin" by simp
  moreover have "sum_list (grants tid l gs) \<le> accessTenantPerMin - aw_n w" if "map_of l tid = Some w" "aw_start w = a" for w
    using t that by (intro grants_in_window) auto
  ultimately show ?thesis using gs(1) order_trans by blast
qed

text \<open>The window is fixed and does not slide: within a second more than the limit can be written.\<close>

lemma window_burst: "grants ''t'' [] [(1, 0), (1999, 59 * Second), (2000, 60 * Second)] = [1, 1999, 2000]"
  by (simp add: limiter_take_def current_window_def Let_def accessTenantPerMin_def Minute_def)

section \<open>Genuine records\<close>

lemma rule_resources_from:
  "map_of (rule_resources rs) i = Some x \<Longrightarrow> \<exists>r\<in>set rs. tr_id r = i \<and> tr_resource r = x \<and> x \<noteq> [] \<and> \<not> tr_dns_only r"
proof -
  have "map_of (fold (\<lambda>r. gm_put (tr_id r) (tr_resource r)) qs acc) i = Some x \<Longrightarrow>
      map_of acc i = Some x \<or> (\<exists>r\<in>set qs. tr_id r = i \<and> tr_resource r = x)" for qs acc
  proof (induction qs arbitrary: acc)
    case (Cons q qs)
    from Cons.prems have "map_of (fold (\<lambda>r. gm_put (tr_id r) (tr_resource r)) qs (gm_put (tr_id q) (tr_resource q) acc)) i = Some x" by simp
    from Cons.IH [OF this] show ?case by (auto split: if_splits)
  qed simp
  from this [of "filter (\<lambda>r. tr_resource r \<noteq> [] \<and> \<not> tr_dns_only r) rs" "[]"]
  show "map_of (rule_resources rs) i = Some x \<Longrightarrow> ?thesis" by (auto simp: rule_resources_def)
qed

text \<open>What an accepted entry becomes.\<close>

definition record_ok :: "net_env \<Rightarrow> time \<Rightarrow> node_heap \<Rightarrow> tenant \<Rightarrow> node \<Rightarrow> access_rec \<Rightarrow> bool" where
  "record_ok E now h t n a \<longleftrightarrow>
     ar_tenant a = tn_id t \<and> ar_at a = now \<and> ar_dst_ip a = addr_string (node_ip n)
   \<and> ar_dst_name a = nr_name (n_rec n) \<and> ar_dst_client a = nr_client (n_rec n)
   \<and> (\<exists>w. ar_src_ip a = ipv4_string w \<and> (case Option.bind (map_of (tn_by_ip t) (IP4 w)) (map_of h) of
        Some y \<Rightarrow> ar_src_name a = nr_name (n_rec y) \<and> ar_src_client a = nr_client (n_rec y)
      | None \<Rightarrow> ar_src_name a = [] \<and> ar_src_client a = []))
   \<and> known_proto (ar_proto a) \<and> ar_port a \<in> {0..65535} \<and> 0 \<le> ar_flows a \<and> 0 \<le> ar_packets a \<and> 0 \<le> ar_bytes a
   \<and> (ar_decision a = AccessAllow \<or> ar_decision a = AccessDeny \<and> ar_rule a = [])
   \<and> length (ar_rule a) \<le> 128
   \<and> (ar_resource a \<noteq> [] \<longrightarrow> ar_decision a = AccessAllow
        \<and> (\<exists>r\<in>set (tun_rules E h t). tr_id r = ar_rule a \<and> tr_resource r = ar_resource a \<and> \<not> tr_dns_only r))"

lemma intake_ok:
  assumes "intake now (rule_resources (tun_rules E h t)) h t n e = Some a"
  shows "record_ok E now h t n a"
proof -
  have d: "AccessAllow \<noteq> AccessDeny" by (simp add: AccessAllow_def AccessDeny_def)
  from assms obtain src where src: "parse_addr (ne_src_ip e) = Some src" "is4 src"
    by (auto simp: intake_def Let_def split: option.splits if_splits)
  then obtain w where w: "src = IP4 w" by (cases src) auto
  show ?thesis
    using assms src w d rule_resources_from [of "tun_rules E h t" "ne_rule e"] unfolding record_ok_def intake_def Let_def
    by (auto simp: exI [of _ w] split: if_splits option.splits)
qed

lemma handle_access_log_inv:
  assumes "mgr_inv m" and "handle_access_log E now entries c l m = (recs, aud, l1, m1)"
  shows "mgr_inv m1"
proof -
  have "mgr_inv (set_node r (n\<lparr>n_last_alog := Some now\<rparr>) m)" if "map_of (mg_heap m) r = Some n" for r n
    by (rule set_node_quiet [OF assms(1) that]) (simp_all add: node_alike_def node_quiet_def)
  with assms(1) show ?thesis by (cases rule: handle_access_log_cases [OF assms(2)]) auto
qed
section \<open>A report\<close>

definition report_conn :: conn where
  "report_conn = \<lparr>cn_id = \<lparr>id_tenant = ''t1'', id_kind = KindDevice, id_client = ''nas'', id_client_name = ''nas'', id_user = [], id_role = [],
     id_punch = False, id_tun = True, id_alog = True\<rparr>, cn_ob = 0, cn_node = Some 0, cn_seq = 0\<rparr>"

definition report_manager :: manager where
  "report_manager = new_manager\<lparr>mg_tenants := [(''t1'', sample_tenant)],
     mg_heap := map (\<lambda>(r, n). (r, n\<lparr>n_tun := True\<rparr>)) sample_heap\<rparr>"

definition report_entries :: "net_access_entry list" where
  "report_entries = [
     \<lparr>ne_src_ip = ''100.64.1.1'', ne_proto = ''TCP'', ne_port = 22, ne_decision = ''deny'', ne_rule = ''r1'', ne_flows = 1, ne_packets = 3, ne_bytes = 180\<rparr>,
     \<lparr>ne_src_ip = ''::1'', ne_proto = ''tcp'', ne_port = 22, ne_decision = ''deny'', ne_rule = [], ne_flows = 1, ne_packets = 1, ne_bytes = 60\<rparr>]"

definition report_call :: access_call where
  "report_call = (sample_env, 0, report_entries, report_conn, report_manager)"

lemma report_written:
  "map (\<lambda>a. (ar_src_ip a, ar_src_name a, ar_proto a, ar_rule a)) (of_tenant ''t1'' (written [report_call] [])) =
     [(''100.64.1.1'', ''guest'', ''tcp'', [])]"
  by code_simp

lemma access_rate_bounded_witness:
  "of_tenant ''t1'' (written [report_call] []) \<noteq> [] \<and> length (of_tenant ''t1'' (written [report_call] [])) \<le> 2 * accessTenantPerMin"
  using access_rate_bounded [of "[report_call]" 0 "''t1''" "[]"] report_written by (auto simp: report_call_def Minute_def)

end
