(* ===== verification/Net_Relay.thy ===== *)
theory Net_Relay
  imports Access_Intake
begin

text \<open>
  The network service as a state machine: the manager and its connections, with one step per handler
  call. The relay of every reachable state is isolated: a packet reaches only a node of the sender's
  tenant, and one that was linked with the sender at the last recomputation as long as the sender is
  still in the tables of its tenant. Two limits belong to this and are shown at their place. The states
  are those of histories without late closes: a session connection ends while its node is in the tables
  (\<open>close_fits\<close>); a close after the node was revoked or swept deletes entries that may belong to another
  node by then. And a node that was revoked or swept keeps the addresses it saw until its connection
  ends, so that it still relays (\<open>revoked_node_relays\<close>).
\<close>

section \<open>Nodes keep their tenant and address\<close>

text \<open>Nodes keep their tenant and their address, and the addresses they offer are only replaced by a cleaned
  list; \<open>endpoints_ok True\<close> holds of every cleaned list.\<close>

lemma usable_loopback: "usable_endpoint lb ap \<Longrightarrow> usable_endpoint True ap"
  by (auto simp: usable_endpoint_def split: prod.splits)

lemma endpoints_ok_any: "endpoints_ok lb eps \<Longrightarrow> endpoints_ok True eps"
  unfolding endpoints_ok_def using usable_loopback by blast

definition heap_keeps :: "node_heap \<Rightarrow> node_heap \<Rightarrow> bool" where
  "heap_keeps h h' \<longleftrightarrow> (\<forall>r n. map_of h r = Some n \<longrightarrow>
     (\<exists>n'. map_of h' r = Some n' \<and> nr_tenant (n_rec n') = nr_tenant (n_rec n) \<and> node_ip n' = node_ip n))
   \<and> (\<forall>r n'. map_of h' r = Some n' \<longrightarrow> endpoints_ok True (n_endpoints n') \<or> (\<exists>n. map_of h r = Some n \<and> n_endpoints n' = n_endpoints n))"

lemma heap_keeps_refl [simp]: "heap_keeps h h"
  by (simp add: heap_keeps_def)

lemma heap_keeps_trans [trans]: "heap_keeps h h' \<Longrightarrow> heap_keeps h' h'' \<Longrightarrow> heap_keeps h h''"
  unfolding heap_keeps_def by (metis (no_types))

lemma heap_keeps_put:
  "map_of h r = Some n \<Longrightarrow> nr_tenant (n_rec n') = nr_tenant (n_rec n) \<Longrightarrow> node_ip n' = node_ip n \<Longrightarrow>
   n_endpoints n' = n_endpoints n \<or> endpoints_ok True (n_endpoints n') \<Longrightarrow> heap_keeps h (gm_put r n' h)"
  by (auto simp: heap_keeps_def)

lemma heap_keeps_new: "map_of h r = None \<Longrightarrow> endpoints_ok True (n_endpoints n) \<Longrightarrow> heap_keeps h (gm_put r n h)"
  by (auto simp: heap_keeps_def)

lemma no_endpoints [simp]: "n_endpoints (new_node rec sub ex) = []" "n_endpoints (attach_node E reg c n) = []"
  by (simp_all add: new_node_def attach_node_def Let_def)

lemma heap_view_keeps: "heap_view h h' \<Longrightarrow> heap_keeps h h'"
  unfolding heap_keeps_def by (auto dest: heap_viewD heap_viewD2 simp: same_view_def)

lemma recompute_keeps: "heap_keeps (mg_heap m) (mg_heap (recompute E now tid m))"
proof (cases "map_of (mg_tenants m) tid")
  case (Some t)
  let ?P = "\<lambda>m'. heap_view (mg_heap m) (mg_heap m')"
  have "?P (fold (push_map E rules now tid) rs m')" if "?P m'" for rules rs m'
    by (rule fold_keeps [of ?P]) (use that heap_view_trans push_map_step in blast)+
  with Some show ?thesis by (simp add: recompute_def Let_def heap_view_keeps)
qed (simp add: recompute_def)

lemma send_ctrl_keeps [simp]: "mg_heap (snd (send_ctrl q msg m)) = mg_heap m"
  by (rule send_ctrl_frame)

definition heap_dense :: "node_heap \<Rightarrow> bool" where
  "heap_dense h \<longleftrightarrow> (\<forall>r. map_of h r \<noteq> None \<longleftrightarrow> r < length h)"

lemma mgr_inv_dense: "mgr_inv m \<Longrightarrow> heap_dense (mg_heap m)"
  unfolding heap_dense_def mgr_inv_def struct_inv_def by blast

lemma heap_dense_new: "heap_dense (mg_heap m) \<Longrightarrow> map_of (mg_heap m) (new_ref m) = None"
  unfolding heap_dense_def new_ref_def by (metis less_irrefl)

lemma heap_dense_put:
  assumes "heap_dense (mg_heap m)"
  shows "heap_dense (gm_put (new_ref m) n (mg_heap m))"
proof -
  have "length (gm_put (new_ref m) n (mg_heap m)) = Suc (length (mg_heap m))"
    using heap_dense_new [OF assms] by (simp add: length_gm_put)
  with assms show ?thesis unfolding heap_dense_def by (auto simp: new_ref_def less_Suc_eq)
qed

lemma load_device_keeps:
  assumes "heap_dense (mg_heap m)" and "load_device rec (t, m) = (t', m')"
  shows "heap_dense (mg_heap m') \<and> heap_keeps (mg_heap m) (mg_heap m')"
  using assms heap_dense_put [OF assms(1)] heap_keeps_new [OF heap_dense_new [OF assms(1)]]
  by (auto simp: load_device_def Let_def split: if_splits)

lemma load_keeps:
  "heap_dense (mg_heap m) \<Longrightarrow> fold load_device rs (t, m) = (t', m') \<Longrightarrow> heap_keeps (mg_heap m) (mg_heap m')"
proof (induction rs arbitrary: t m)
  case (Cons r rs)
  obtain t1 m1 where l: "load_device r (t, m) = (t1, m1)" by force
  from load_device_keeps [OF Cons.prems(1) l] Cons.IH [of m1 t1] Cons.prems(2) l show ?case
    using heap_keeps_trans by auto
qed simp

lemma tenant_locked_keeps:
  assumes "mgr_inv m"
  shows "heap_keeps (mg_heap m) (mg_heap (snd (tenant_locked E sto tid m)))"
  using load_keeps [OF mgr_inv_dense [OF assms]]
  by (auto simp: tenant_locked_def Let_def split: option.split sum.split prod.split)
lemma remove_node_heap [simp]: "mg_heap (remove_node t r m) = mg_heap m"
  by (simp add: remove_node_def Let_def split: option.split)

lemma add_node_keeps:
  "mgr_inv m \<Longrightarrow> n_endpoints n = [] \<Longrightarrow> heap_keeps (mg_heap m) (mg_heap (snd (add_node dev a n t m)))"
  using heap_keeps_new [OF heap_dense_new [OF mgr_inv_dense]] by (simp add: add_node_def Let_def)

lemma rekey_keeps: "map_of (mg_heap m) r = Some n \<Longrightarrow> heap_keeps (mg_heap m) (mg_heap (rekey q tid pub r n m))"
  by (auto simp: rekey_def Let_def intro: heap_keeps_put)

lemma register_device_keeps:
  assumes "mgr_inv m"
  shows "heap_keeps (mg_heap m) (mg_heap (snd (register_device sto now rnd pub c t m)))"
proof -
  have stored: "heap_keeps h (mg_heap (snd (case map_of (mg_heap m1) r of
      None \<Rightarrow> (Inr r, m1)
    | Some n \<Rightarrow> let m2 = set_node r (n\<lparr>n_rec := (n_rec n)\<lparr>nr_last_seen := now\<rparr>, n_sub := s\<rparr>) m1 in
        (case so_put_node sto of Some e \<Rightarrow> (Inl e, m2) | None \<Rightarrow> (Inr r, m2)))))" if "heap_keeps h (mg_heap m1)" for h m1 r s
  proof (cases "map_of (mg_heap m1) r")
    case (Some n)
    have "heap_keeps (mg_heap m1) (gm_put r (n\<lparr>n_rec := (n_rec n)\<lparr>nr_last_seen := now\<rparr>, n_sub := s\<rparr>) (mg_heap m1))"
      by (rule heap_keeps_put [OF Some]) simp_all
    from heap_keeps_trans [OF that this] Some show ?thesis by (simp add: Let_def split: option.split)
  qed (use that in simp)
  show ?thesis
  proof (cases "map_of (tn_by_client t) (id_client (cn_id c))")
    case (Some r)
    then show ?thesis
      using stored [OF rekey_keeps, where r = r]
      by (cases "map_of (mg_heap m) r") (simp_all add: register_device_def Let_def)
  next
    case None
    show ?thesis
    proof (cases "ip_allocate (ip_used t) (tn_alloc t)")
      case (Some p)
      obtain ip a where p: "p = (ip, a)" by force
      let ?rec = "\<lparr>nr_node = ''nod_'' @ rnd, nr_tenant = tn_id t, nr_kind = KindDevice, nr_client = id_client (cn_id c),
          nr_name = pick_name (mg_heap m) t (sanitize_name (id_client_name (cn_id c)) ''device''),
          nr_ip = ip, nr_wg_pub = pub, nr_created = now, nr_last_seen = 0\<rparr>"
      obtain r m1 where ad: "add_node True a (new_node ?rec (device_subject (id_client (cn_id c))) None) t m = (r, m1)" by force
      then have "heap_keeps (mg_heap m) (mg_heap m1)"
        using add_node_keeps [OF assms, of "new_node ?rec (device_subject (id_client (cn_id c))) None" True a t] by simp
      from stored [OF this, of r] show ?thesis
        using None Some p ad by (simp add: register_device_def Let_def)
    qed (use None in \<open>simp add: register_device_def Let_def\<close>)
  qed
qed

lemma register_session_keeps:
  assumes "mgr_inv m"
  shows "heap_keeps (mg_heap m) (mg_heap (snd (register_session now rnd rnd2 reg c t m)))"
proof (cases "ip_allocate (ip_used t) (tn_alloc t)")
  case (Some p)
  obtain ip a where "p = (ip, a)" by force
  with Some add_node_keeps [OF assms] show ?thesis
    by (simp add: register_session_def Let_def case_prod_beta)
qed (simp add: register_session_def)
lemma choose_node_keeps:
  "mgr_inv m \<Longrightarrow> heap_keeps (mg_heap m) (mg_heap (snd (choose_node sto now rnd rnd2 reg c t m)))"
  by (simp add: choose_node_def register_device_keeps register_session_keeps)

lemma register_keeps:
  assumes i: "mgr_inv m" and sto: "store_ok sto" and E: "pool4 (ev_pool E)"
    and reg: "register E sto now rnd rnd2 reg c m = (res, c', m')"
  shows "heap_keeps (mg_heap m) (mg_heap m')"
proof -
  have k1: "heap_keeps (mg_heap m) (mg_heap m1) \<and> mgr_inv m1" if "tenant_locked E sto (id_tenant (cn_id c)) m = (lt, m1)" for lt m1
    using tenant_locked_keeps [OF i, of E sto "id_tenant (cn_id c)"] tenant_locked_inv [OF i sto E that] that by simp
  have k2: "heap_keeps (mg_heap m) (mg_heap m2)"
    if "tenant_locked E sto (id_tenant (cn_id c)) m = (Inr t, m1)" "choose_node sto now rnd rnd2 reg c t m1 = (rr, m2)" for t m1 rr m2
    using k1 [OF that(1)] choose_node_keeps [of m1 sto now rnd rnd2 reg c t] that(2) heap_keeps_trans by auto
  show ?thesis
    using reg
  proof (cases rule: register_shape)
    case (4 t m1 r m2 n t2)
    have "heap_keeps (mg_heap m2) (mg_heap (greeted E reg c r n t2 m2))"
      using 4(3) by (simp add: greeted_def Let_def heap_keeps_put attach_node_def Let_def)
    with k2 [OF 4(1,2)] recompute_keeps show ?thesis unfolding 4(6) by (blast intro: heap_keeps_trans)
  qed (use k1 k2 in auto)
qed

lemma register_id: "cn_id (fst (snd (register E sto now rnd rnd2 reg c m))) = cn_id c"
proof -
  obtain res c' m' where r: "register E sto now rnd rnd2 reg c m = (res, c', m')" by (metis surj_pair)
  then have "cn_id c' = cn_id c" by (cases rule: register_shape) simp_all
  with r show ?thesis by simp
qed

text \<open>The connection after a registration refers to a node of its tenant.\<close>

lemma register_conn:
  assumes i: "mgr_inv m" and sto: "store_ok sto" and E: "pool4 (ev_pool E)"
    and fresh: "\<And>t m1. tenant_locked E sto (id_tenant (cn_id c)) m = (Inr t, m1) \<Longrightarrow> fresh_id rnd t"
    and reg: "register E sto now rnd rnd2 reg c m = (res, c', m')"
  shows "c' = c \<or> cn_id c' = cn_id c \<and> conn_ok m' c'"
  using reg
proof (cases rule: register_shape)
  case (4 t m1 r m2 n t2)
  note tl = tenant_locked_inv [OF i sto E 4(1)]
  then have "node_chosen (tn_id t) (Inr r, m2)" using choose_node_inv [of m1 t] fresh [OF 4(1)] by (metis 4(2))
  with 4(3) tl have tenant: "nr_tenant (n_rec n) = id_tenant (cn_id c)" by (simp add: node_chosen_def)
  have "map_of (mg_heap (greeted E reg c r n t2 m2)) r = Some (attach_node E reg c n)" by (simp add: greeted_def Let_def)
  moreover have "nr_tenant (n_rec (attach_node E reg c n)) = id_tenant (cn_id c)" using tenant by (simp add: attach_node_def Let_def)
  ultimately have "\<exists>x. map_of (mg_heap m') r = Some x \<and> nr_tenant (n_rec x) = id_tenant (cn_id c)"
    using recompute_keeps [of "greeted E reg c r n t2 m2" E now "tn_id t"] unfolding 4(6) heap_keeps_def by metis
  then show ?thesis by (simp add: 4(5) conn_ok_def)
qed simp_all
text \<open>The other operations.\<close>

lemma recompute_keeps_from: "heap_keeps h (mg_heap m) \<Longrightarrow> heap_keeps h (mg_heap (recompute E now tid m))"
  using recompute_keeps heap_keeps_trans by blast

lemma close_conn_keeps: "heap_keeps (mg_heap m) (mg_heap (close_conn E now c m))"
  by (auto simp: close_conn_def Let_def intro!: recompute_keeps_from split: option.split)
    (simp_all add: heap_keeps_put)

lemma relay_keeps: "heap_keeps (mg_heap m) (mg_heap (snd (snd (relay allow dst p c m))))"
  by (auto simp: relay_def Let_def count_denied_def heap_keeps_put split: option.split prod.split)

lemma handle_mode_keeps: "heap_keeps (mg_heap m) (mg_heap (handle_mode E now slug tun c m))"
  by (auto simp: handle_mode_def Let_def intro!: recompute_keeps_from split: option.split) (simp_all add: heap_keeps_put)

lemma handle_resync_keeps: "heap_keeps (mg_heap m) (mg_heap (handle_resync E now c m))"
  by (auto simp: handle_resync_def intro!: recompute_keeps_from split: option.split) (simp_all add: heap_keeps_put)

lemma locked_keeps: "mgr_inv m \<Longrightarrow> tenant_locked E sto tid m = (lt, m1) \<Longrightarrow> heap_keeps (mg_heap m) (mg_heap m1)"
  using tenant_locked_keeps [of m E sto tid] by simp

lemma revoke_node_keeps: "mgr_inv m \<Longrightarrow> heap_keeps (mg_heap m) (mg_heap (snd (revoke_node E sto now tid nid m)))"
  by (auto simp: revoke_node_def dest: locked_keeps intro!: recompute_keeps_from split: prod.split sum.split option.split)

lemma sweep_node_keeps: "heap_keeps (mg_heap (snd cm)) (mg_heap (snd (sweep_node now roles dir tid r cm)))"
  by (auto simp: sweep_node_def heap_keeps_put split: prod.split option.split session_fate.split)

lemma sweep_tenant_keeps: "heap_keeps (mg_heap m) (mg_heap (sweep_tenant E now roles dirs tid m))"
proof -
  let ?P = "\<lambda>cm. heap_keeps (mg_heap m) (mg_heap (snd cm))"
  have "?P (fold (sweep_node now roles dir tid) rs cm)" if "?P cm" for dir rs cm
    using that by (rule fold_keeps [of ?P]) (erule heap_keeps_trans [OF _ sweep_node_keeps])
  then have "heap_keeps (mg_heap m) (mg_heap m2)" if "fold (sweep_node now roles dir tid) rs (ch, set_tenant t m) = (ch', m2)" for dir rs ch ch' t m2
    using that by (metis heap_keeps_refl set_tenant_simps(2) snd_conv)
  then show ?thesis
    by (auto simp: sweep_tenant_def Let_def intro!: recompute_keeps_from split: option.split prod.split)
qed

lemma sweep_keeps: "heap_keeps (mg_heap m) (mg_heap (sweep E now roles dirs m))"
  unfolding sweep_def
  by (rule fold_keeps [of "\<lambda>m'. heap_keeps (mg_heap m) (mg_heap m')"]) (simp, erule heap_keeps_trans [OF _ sweep_tenant_keeps])

lemma create_share_keeps:
  "mgr_inv m \<Longrightarrow> heap_keeps (mg_heap m) (mg_heap (snd (create_share E sto dir resolve allow now rnd tid i actor m)))"
  by (auto simp: create_share_def Let_def dest: locked_keeps intro!: recompute_keeps_from split: prod.split sum.split option.split)

lemma update_share_keeps:
  "mgr_inv m \<Longrightarrow> heap_keeps (mg_heap m) (mg_heap (snd (update_share E sto dir resolve now tid sid p m)))"
  by (auto simp: update_share_def dest: locked_keeps intro!: recompute_keeps_from split: prod.split sum.split option.split)

lemma delete_share_keeps:
  "mgr_inv m \<Longrightarrow> heap_keeps (mg_heap m) (mg_heap (snd (delete_share E sto now tid sid m)))"
  by (auto simp: delete_share_def dest: locked_keeps intro!: recompute_keeps_from split: prod.split sum.split option.split)

lemma create_tun_rule_keeps:
  "mgr_inv m \<Longrightarrow> heap_keeps (mg_heap m) (mg_heap (snd (create_tun_rule E sto dir now rnd tid i actor m)))"
  by (auto simp: create_tun_rule_def Let_def dest: locked_keeps intro!: recompute_keeps_from split: prod.split sum.split option.split)

lemma delete_tun_rule_keeps:
  "mgr_inv m \<Longrightarrow> heap_keeps (mg_heap m) (mg_heap (snd (delete_tun_rule E sto now tid rid m)))"
  by (auto simp: delete_tun_rule_def dest: locked_keeps intro!: recompute_keeps_from split: prod.split sum.split option.split)

lemma set_network_keeps:
  "mgr_inv m \<Longrightarrow> heap_keeps (mg_heap m) (mg_heap (snd (set_network E sto tid cidr m)))"
  by (auto simp: set_network_def Let_def dest: locked_keeps split: prod.split sum.split option.split)

lemma get_share_keeps: "mgr_inv m \<Longrightarrow> heap_keeps (mg_heap m) (mg_heap (snd (get_share E sto tid sid m)))"
  by (auto simp: get_share_def dest: locked_keeps split: prod.split sum.split option.split)

lemma device_share_create_keeps:
  assumes "mgr_inv m"
  shows "heap_keeps (mg_heap m) (mg_heap (device_share_create E sto dir resolve allow now rnd req c m))"
  by (auto simp: device_share_create_def Let_def split: prod.split sum.split) (metis create_share_keeps [OF assms] snd_conv)+

lemma device_share_delete_keeps:
  assumes i: "mgr_inv m" and sto: "store_ok sto" and E: "pool4 (ev_pool E)"
  shows "heap_keeps (mg_heap m) (mg_heap (device_share_delete E sto now req sid c m))"
proof -
  obtain g m1 where g: "get_share E sto (id_tenant (cn_id c)) sid m = (g, m1)" by force
  have k: "mgr_inv m1" "heap_keeps (mg_heap m) (mg_heap m1)"
    using get_share_inv [OF i sto E, of "id_tenant (cn_id c)" sid] get_share_keeps [OF i, of E sto "id_tenant (cn_id c)" sid] g by simp_all
  have "heap_keeps (mg_heap m) (mg_heap (snd (delete_share E sto now (id_tenant (cn_id c)) sid m1)))"
    using heap_keeps_trans [OF k(2) delete_share_keeps [OF k(1)]] .
  with g k show ?thesis by (auto simp: device_share_delete_def split: prod.split sum.split option.split)
qed
lemma punch_effect_keeps: "punch_effect lb c m m' \<Longrightarrow> heap_keeps (mg_heap m) (mg_heap m')"
  by (auto simp: punch_effect_def punch_fold punch_fields_def endpoints_ok_any intro!: heap_keeps_put)

lemmas handle_punch_keeps = handle_endpoints_effect [THEN punch_effect_keeps] handle_punch_req_effect [THEN punch_effect_keeps]
  handle_status_effect [THEN punch_effect_keeps]

lemma access_keeps: "handle_access_log E now entries c l m = (recs, aud, l1, m1) \<Longrightarrow> heap_keeps (mg_heap m) (mg_heap m1)"
  by (erule handle_access_log_cases) (simp_all add: heap_keeps_put)

lemma tenant_lookup_inv: "mgr_inv m \<Longrightarrow> store_ok sto \<Longrightarrow> pool4 (ev_pool E) \<Longrightarrow> mgr_inv (snd (tenant_locked E sto tid m))"
  by (cases "tenant_locked E sto tid m") (simp add: tenant_locked_inv)

lemmas handle_punch_inv = handle_endpoints_effect [THEN punch_effect_inv] handle_punch_req_effect [THEN punch_effect_inv]
  handle_status_effect [THEN punch_effect_inv]

section \<open>The service as a state machine\<close>

text \<open>\<open>Attach\<close>: a connection starts without a node.\<close>

definition attach_conn :: "identity \<Rightarrow> ob_ref \<Rightarrow> conn" where
  "attach_conn i q = \<lparr>cn_id = i, cn_ob = q, cn_node = None, cn_seq = 0\<rparr>"

type_synonym net_sys = "manager \<times> conn list"

text \<open>
  One step: a handler call of some connection, an administrative call, a sweep, or the pump of an
  outbox. The hooks, clocks, random values and store replies are arbitrary in every step, within what the
  database guarantees. The end of a session connection is a step while its node is in the tables; what
  happens otherwise is shown at the end of this theory.
\<close>

inductive net_step :: "net_sys \<Rightarrow> net_sys \<Rightarrow> bool" where
  attach: "map_of (mg_obs m) q = None \<Longrightarrow>
    net_step (m, cs) (m\<lparr>mg_obs := gm_put q new_outbox (mg_obs m)\<rparr>, cs @ [attach_conn i q])"
| register: "k < length cs \<Longrightarrow> cn_node (cs ! k) = None \<Longrightarrow> store_ok sto \<Longrightarrow> pool4 (ev_pool E) \<Longrightarrow>
    (\<And>t m1. tenant_locked E sto (id_tenant (cn_id (cs ! k))) m = (Inr t, m1) \<Longrightarrow> fresh_id rnd t) \<Longrightarrow>
    Net_Manager.register E sto now rnd rnd2 reg (cs ! k) m = (res, c', m') \<Longrightarrow> net_step (m, cs) (m', cs[k := c'])"
| relay: "k < length cs \<Longrightarrow> Net_Manager.relay allow dst p (cs ! k) m = (res, c', m') \<Longrightarrow> net_step (m, cs) (m', cs[k := c'])"
| mode: "c \<in> set cs \<Longrightarrow> net_step (m, cs) (handle_mode E now slug tun c m, cs)"
| endpoints: "c \<in> set cs \<Longrightarrow> net_step (m, cs) (handle_endpoints lb now nonces eps c m, cs)"
| punch_req: "c \<in> set cs \<Longrightarrow> net_step (m, cs) (handle_punch_req now nonce pub c m, cs)"
| status: "c \<in> set cs \<Longrightarrow> net_step (m, cs) (handle_status now reports c m, cs)"
| access: "c \<in> set cs \<Longrightarrow> handle_access_log E now entries c l m = (recs, aud, l1, m1) \<Longrightarrow> net_step (m, cs) (m1, cs)"
| lookup: "store_ok sto \<Longrightarrow> pool4 (ev_pool E) \<Longrightarrow> net_step (m, cs) (snd (tenant_locked E sto tid m), cs)"
| resync: "c \<in> set cs \<Longrightarrow> net_step (m, cs) (handle_resync E now c m, cs)"
| dev_create: "c \<in> set cs \<Longrightarrow> store_ok sto \<Longrightarrow> pool4 (ev_pool E) \<Longrightarrow>
    net_step (m, cs) (device_share_create E sto dir resolve allow' now rnd req c m, cs)"
| dev_delete: "c \<in> set cs \<Longrightarrow> store_ok sto \<Longrightarrow> pool4 (ev_pool E) \<Longrightarrow>
    net_step (m, cs) (device_share_delete E sto now rq sid c m, cs)"
| close: "k < length cs \<Longrightarrow> close_fits (cs ! k) m \<Longrightarrow> net_step (m, cs) (close_conn E now (cs ! k) m, take k cs @ drop (Suc k) cs)"
| recomp: "net_step (m, cs) (recompute E now tid m, cs)"
| revoke: "store_ok sto \<Longrightarrow> pool4 (ev_pool E) \<Longrightarrow> net_step (m, cs) (snd (revoke_node E sto now tid nid m), cs)"
| sweeping: "net_step (m, cs) (sweep E now roles dirs m, cs)"
| share_create: "store_ok sto \<Longrightarrow> pool4 (ev_pool E) \<Longrightarrow>
    net_step (m, cs) (snd (create_share E sto dir resolve allow' now rnd tid inp actor m), cs)"
| share_update: "store_ok sto \<Longrightarrow> pool4 (ev_pool E) \<Longrightarrow>
    net_step (m, cs) (snd (update_share E sto dir resolve now tid sid pat m), cs)"
| share_delete: "store_ok sto \<Longrightarrow> pool4 (ev_pool E) \<Longrightarrow> net_step (m, cs) (snd (delete_share E sto now tid sid m), cs)"
| rule_create: "store_ok sto \<Longrightarrow> pool4 (ev_pool E) \<Longrightarrow>
    net_step (m, cs) (snd (create_tun_rule E sto dir now rnd tid ri actor m), cs)"
| rule_delete: "store_ok sto \<Longrightarrow> pool4 (ev_pool E) \<Longrightarrow> net_step (m, cs) (snd (delete_tun_rule E sto now tid rid m), cs)"
| network: "store_ok sto \<Longrightarrow> pool4 (ev_pool E) \<Longrightarrow> net_step (m, cs) (snd (set_network E sto tid cidr m), cs)"
| pump: "map_of (mg_obs m) q = Some b \<Longrightarrow> net_step (m, cs) (m\<lparr>mg_obs := gm_put q (snd (pump_step pick b)) (mg_obs m)\<rparr>, cs)"

inductive net_reach :: "net_sys \<Rightarrow> bool" where
  start: "net_reach (new_manager, [])"
| step: "net_reach s \<Longrightarrow> net_step s s' \<Longrightarrow> net_reach s'"

definition heap_clean :: "node_heap \<Rightarrow> bool" where
  "heap_clean h \<longleftrightarrow> (\<forall>r n. map_of h r = Some n \<longrightarrow> endpoints_ok True (n_endpoints n))"

lemma heap_clean_keeps: "heap_clean h \<Longrightarrow> heap_keeps h h' \<Longrightarrow> heap_clean h'"
  unfolding heap_clean_def heap_keeps_def by metis

definition net_ok :: "net_sys \<Rightarrow> bool" where
  "net_ok s \<longleftrightarrow> (case s of (m, cs) \<Rightarrow> mgr_inv m \<and> (\<forall>c\<in>set cs. conn_ok m c) \<and> heap_clean (mg_heap m))"

lemma conn_ok_keeps: "conn_ok m c \<Longrightarrow> heap_keeps (mg_heap m) (mg_heap m') \<Longrightarrow> conn_ok m' c"
  unfolding conn_ok_def heap_keeps_def by metis

lemma net_ok_next:
  assumes "net_ok (m, cs)" and "mgr_inv m'" and "heap_keeps (mg_heap m) (mg_heap m')"
    and "\<And>c. c \<in> set cs' \<Longrightarrow> c \<in> set cs \<or> conn_ok m' c"
  shows "net_ok (m', cs')"
proof -
  have "conn_ok m' c" if "c \<in> set cs'" for c
    using assms(1,3) assms(4) [OF that] conn_ok_keeps [of m c m'] by (auto simp: net_ok_def)
  with assms heap_clean_keeps show ?thesis by (auto simp: net_ok_def)
qed

lemma net_ok_same:
  "net_ok (m, cs) \<Longrightarrow> (mgr_inv m \<Longrightarrow> mgr_inv m') \<Longrightarrow> (mgr_inv m \<Longrightarrow> heap_keeps (mg_heap m) (mg_heap m')) \<Longrightarrow> net_ok (m', cs)"
  by (rule net_ok_next [of m cs]) (simp_all add: net_ok_def)

lemma revoke_inv: "mgr_inv m \<Longrightarrow> store_ok sto \<Longrightarrow> pool4 (ev_pool E) \<Longrightarrow> mgr_inv (snd (revoke_node E sto now tid nid m))"
  by (cases "revoke_node E sto now tid nid m") (simp add: revoke_node_inv)

lemmas keeps_inv = handle_mode_inv handle_punch_inv handle_resync_inv device_share_create_inv device_share_delete_inv recompute_inv revoke_inv
  sweep_inv tenant_lookup_inv create_share_inv update_share_inv delete_share_inv create_tun_rule_inv delete_tun_rule_inv set_network_inv

lemmas keeps_nodes = handle_mode_keeps handle_punch_keeps handle_resync_keeps device_share_create_keeps device_share_delete_keeps recompute_keeps
  revoke_node_keeps sweep_keeps tenant_locked_keeps create_share_keeps update_share_keeps delete_share_keeps create_tun_rule_keeps
  delete_tun_rule_keeps set_network_keeps

lemma relay_conn: "relay allow dst p c m = (res, c', m') \<Longrightarrow> conn_ok m' c' = conn_ok m' c"
  by (auto simp: relay_def conn_ok_def Let_def split: option.splits if_splits prod.splits)

lemma net_step_ok: "net_step s s' \<Longrightarrow> net_ok s \<Longrightarrow> net_ok s'"
proof (induction rule: net_step.induct)
  case (attach m q cs i)
  show ?case
    by (rule net_ok_next [OF attach(2)]) (use attach(2) in \<open>auto simp: net_ok_def conn_ok_def attach_conn_def\<close>)
next
  case (register k cs sto E m rnd now rnd2 reg res c' m')
  have i: "mgr_inv m" and c: "cs ! k \<in> set cs" using register by (simp_all add: net_ok_def)
  show ?case
  proof (rule net_ok_next [OF register(7)])
    show "mgr_inv m'" by (rule register_inv [OF i register(3,4,5,6)])
    show "heap_keeps (mg_heap m) (mg_heap m')" by (rule register_keeps [OF i register(3,4,6)])
    fix x assume "x \<in> set (cs[k := c'])"
    with set_update_subset_insert have "x = c' \<or> x \<in> set cs" by fastforce
    with register_conn [OF i register(3,4,5,6)] c show "x \<in> set cs \<or> conn_ok m' x" by auto
  qed
next
  case (relay k cs allow dst p m res c' m')
  have i: "mgr_inv m" and c: "conn_ok m (cs ! k)" using relay by (simp_all add: net_ok_def)
  have k: "heap_keeps (mg_heap m) (mg_heap m')" using relay_keeps [of m allow dst p "cs ! k"] relay(2) by simp
  show ?case
  proof (rule net_ok_next [OF relay(3) _ k])
    show "mgr_inv m'" using relay_inv [OF i, of allow dst p "cs ! k"] relay(2) by simp
    fix x assume "x \<in> set (cs[k := c'])"
    with set_update_subset_insert have "x = c' \<or> x \<in> set cs" by fastforce
    with relay_conn [OF relay(2)] conn_ok_keeps [OF c k] show "x \<in> set cs \<or> conn_ok m' x" by auto
  qed
next
  case (close k cs m E now)
  have "mgr_inv m" "conn_ok m (cs ! k)" using close by (simp_all add: net_ok_def)
  from close_conn_inv [OF this close(2)] close_conn_keeps show ?case
    by (rule net_ok_next [OF close(3)]) (auto dest: in_set_takeD in_set_dropD)
next
  case (access c cs E now entries l m recs aud l1 m1)
  show ?case by (rule net_ok_same [OF access(3)]) (use handle_access_log_inv access_keeps access(2) in blast)+
next
  case (pump m q b cs pick)
  then show ?case by (auto simp: net_ok_def conn_ok_def)
qed (erule net_ok_same; simp add: keeps_inv keeps_nodes)+
lemma net_reach_ok: "net_reach s \<Longrightarrow> net_ok s"
proof (induction rule: net_reach.induct)
  case start
  show ?case using new_manager_inv by (simp add: net_ok_def heap_clean_def) (simp add: new_manager_def)
qed (rule net_step_ok)

text \<open>A registration in a reachable state leads to a reachable state.\<close>

lemma reach_register:
  assumes "net_reach (m, cs)" and "k < length cs" and "cn_node (cs ! k) = None" and "store_ok sto" and "pool4 (ev_pool E)"
    and "case fst (tenant_locked E sto (id_tenant (cn_id (cs ! k))) m) of Inl _ \<Rightarrow> True | Inr t \<Rightarrow> fresh_id rnd t"
    and "Net_Manager.register E sto now rnd rnd2 reg (cs ! k) m = (res, c', m')"
  shows "net_reach (m', cs[k := c'])"
  by (rule net_reach.step [OF assms(1) net_step.register [OF assms(2-5) _ assms(7)]]) (use assms(6) in \<open>auto split: sum.splits\<close>)

section \<open>Isolation of the relay\<close>

text \<open>What a relay that delivered has seen.\<close>

lemma relay_delivered:
  assumes "relay allow dst p c m = (Some (q, b), c', m')"
  obtains r n v t d y where "cn_node c = Some r" "map_of (mg_heap m) r = Some n" "n_vis n = Some v" "ucast dst \<in> set v"
    "map_of (mg_tenants m) (id_tenant (cn_id c)) = Some t" "map_of (tn_by_ip t) (IP4 (ucast dst)) = Some d"
    "map_of (mg_heap m) d = Some y" "n_ob y = Some q" "b = encode_frame (relay_frame n (cn_seq c + 1) p)" "p \<noteq> []"
  using assms
  by (auto simp: relay_def Let_def relay_id_low_bits bind_eq_Some_conv split: option.splits if_splits prod.splits)

lemma seen_link:
  assumes "seen_inv sn h t" and snap: "\<forall>S. map_of sn (tn_id t) = Some S \<longrightarrow> snapshot_ok S"
    and r: "(r, n) \<in> set (tenant_nodes h t)" "n_vis n = Some v" "w \<in> set v"
    and d: "(d, y) \<in> set (tenant_nodes h t)" "n_ob y \<noteq> None" "node_ip y = IP4 w"
  shows "\<exists>S x z. map_of sn (tn_id t) = Some S \<and> (r, x) \<in> set (tenant_nodes (sn_heap S) (sn_tenant S))
    \<and> (d, z) \<in> set (tenant_nodes (sn_heap S) (sn_tenant S)) \<and> node_ip z = IP4 w
    \<and> linked (sn_env S) (sn_tenant S) (tun_rules (sn_env S) (sn_heap S) (sn_tenant S)) (sn_now S) (r, x) (d, z)"
proof -
  obtain S where S: "map_of sn (tn_id t) = Some S" "visible_in S r w"
    using assms(1) r unfolding seen_inv_def by metis
  then obtain x e z where x: "(r, x) \<in> set (tenant_nodes (sn_heap S) (sn_tenant S))" "(e, z) \<in> set (tenant_nodes (sn_heap S) (sn_tenant S))"
    "node_ip z = IP4 w" "linked (sn_env S) (sn_tenant S) (tun_rules (sn_env S) (sn_heap S) (sn_tenant S)) (sn_now S) (r, x) (e, z)"
    unfolding visible_in_def by blast
  obtain z' where z': "(d, z') \<in> set (tenant_nodes (sn_heap S) (sn_tenant S))" "node_ip z' = IP4 w"
    using assms(1) d S(1) unfolding seen_inv_def by (metis option.inject)
  have "snapshot_ok S" using snap S(1) by blast
  then have "map_of (tn_by_ip (sn_tenant S)) (IP4 w) = Some e" "map_of (tn_by_ip (sn_tenant S)) (IP4 w) = Some d"
    unfolding snapshot_ok_def using x(2,3) z' by metis+
  then have "e = d" by simp
  with S(1) x show ?thesis by blast
qed

text \<open>C1: in every state that a history without late closes reaches (\<open>close\<close> steps of \<open>net_step\<close> happen while a
  session node is still in the tables of its tenant), when the relay of a connection delivers a packet into an
  outbox, it is the outbox of the node with the destination address in the tenant of the sender, and the frame
  is the payload unchanged under the address of the sender. If moreover the sender is still in the tables of the
  tenant, the last recomputation of the tenant found sender and receiver linked by an active share or a rule;
  for a sender that was revoked or swept and is still connected no link is promised, and there need not be one
  (\<open>revoked_node_relays\<close>).\<close>

theorem relay_isolation:
  assumes "net_reach (m, cs)" and "c \<in> set cs" and "relay allow dst p c m = (Some (q, b), c', m')"
  shows "\<exists>r n t d y. cn_node c = Some r \<and> map_of (mg_heap m) r = Some n \<and> nr_tenant (n_rec n) = id_tenant (cn_id c)
    \<and> map_of (mg_tenants m) (id_tenant (cn_id c)) = Some t \<and> (d, y) \<in> set (tenant_nodes (mg_heap m) t)
    \<and> nr_tenant (n_rec y) = id_tenant (cn_id c) \<and> node_ip y = IP4 (ucast dst) \<and> n_ob y = Some q
    \<and> b = encode_frame \<lparr>bf_type = FrameWG, bf_req = ip_to_relay_id (node_ip n), bf_seq = cn_seq c + 1, bf_eof = False, bf_payload = p\<rparr>
    \<and> (r \<in> node_refs t \<longrightarrow>
        (\<exists>S x z. map_of (mg_last m) (id_tenant (cn_id c)) = Some S
          \<and> (r, x) \<in> set (tenant_nodes (sn_heap S) (sn_tenant S)) \<and> (d, z) \<in> set (tenant_nodes (sn_heap S) (sn_tenant S))
          \<and> node_ip z = node_ip y
          \<and> linked (sn_env S) (sn_tenant S) (tun_rules (sn_env S) (sn_heap S) (sn_tenant S)) (sn_now S) (r, x) (d, z)))"
proof -
  have i: "mgr_inv m" and c: "conn_ok m c" using net_reach_ok [OF assms(1)] assms(2) by (simp_all add: net_ok_def)
  from assms(3) obtain r n v t d y where rd: "cn_node c = Some r" "map_of (mg_heap m) r = Some n" "n_vis n = Some v" "ucast dst \<in> set v"
    "map_of (mg_tenants m) (id_tenant (cn_id c)) = Some t" "map_of (tn_by_ip t) (IP4 (ucast dst)) = Some d"
    "map_of (mg_heap m) d = Some y" "n_ob y = Some q" "b = encode_frame (relay_frame n (cn_seq c + 1) p)"
    by (rule relay_delivered)
  have s: "struct_inv m" and se: "seen_inv (mg_last m) (mg_heap m) t" using i rd(5) by (simp_all add: mgr_inv_def)
  note ti = struct_tenant [OF s rd(5)]
  have ok: "tenant_ok (mg_heap m) t" using ti(2) by (simp add: tenant_inv_def)
  have d: "(d, y) \<in> set (tenant_nodes (mg_heap m) t)" "node_ip y = IP4 (ucast dst)"
    using ok rd(6,7) unfolding tenant_ok_def tenant_nodes_iff by blast+
  have snap: "\<forall>S. map_of (mg_last m) (tn_id t) = Some S \<longrightarrow> snapshot_ok S" using s unfolding struct_inv_def by blast
  have "nr_tenant (n_rec n) = id_tenant (cn_id c)" using c rd(1,2) by (auto simp: conn_ok_def)
  moreover have "nr_tenant (n_rec y) = id_tenant (cn_id c)" using tenant_invD(1) [OF ti(2) d(1)] ti(1) by simp
  moreover have "\<exists>S x z. map_of (mg_last m) (tn_id t) = Some S \<and> (r, x) \<in> set (tenant_nodes (sn_heap S) (sn_tenant S))
      \<and> (d, z) \<in> set (tenant_nodes (sn_heap S) (sn_tenant S)) \<and> node_ip z = IP4 (ucast dst)
      \<and> linked (sn_env S) (sn_tenant S) (tun_rules (sn_env S) (sn_heap S) (sn_tenant S)) (sn_now S) (r, x) (d, z)"
    if "r \<in> node_refs t"
    by (rule seen_link [OF se snap _ rd(3,4) d(1) _ d(2)]) (use that rd(2,8) in \<open>simp_all add: tenant_nodes_iff\<close>)
  ultimately show ?thesis
    by (intro exI [of _ r] exI [of _ n] exI [of _ t] exI [of _ d] exI [of _ y]) (use rd d ti(1) in \<open>simp add: relay_frame_def\<close>)
qed
text \<open>For evaluation: the first candidate is tried before the search starts.\<close>

lemma ip_allocate_try [code]:
  "ip_allocate used a =
     (let first = first_addr a; lst = last_addr a in
      if lst < first then None
      else
        let cur = (if ia_next a < first \<or> ia_next a > lst then first else ia_next a) in
        if lst - first + 1 \<noteq> 0 \<and> \<not> used (IP4 cur) then Some (IP4 cur, a\<lparr>ia_next := cur + 1\<rparr>)
        else case alloc_scan used first lst (unat (lst - first + 1)) cur of
          None \<Rightarrow> None
        | Some w \<Rightarrow> Some (IP4 w, a\<lparr>ia_next := w + 1\<rparr>))"
proof -
  have "alloc_scan used first lst (unat (lst - first + 1)) cur = Some cur" if "lst - first + 1 \<noteq> 0" "\<not> used (IP4 cur)" for first lst cur
    using that by (cases "unat (lst - first + 1)") (auto simp: unat_eq_0)
  then show ?thesis by (simp add: ip_allocate_def Let_def)
qed

text \<open>Two devices of a tenant connect and register, and the guest sends a packet to the owner of a share.\<close>

definition sample_key :: "string \<Rightarrow> string" where
  "sample_key c = c @ replicate (43 - length c) (CHR ''A'') @ ''=''"

definition sample_store :: store where
  "sample_store =
     \<lparr>so_load = (\<lambda>tid. if tid \<noteq> ''t1'' then Inl (ErrInvalid ''no_tenant'') else
        Inr \<lparr>ld_network = None, ld_rules = [],
             ld_nodes = [n_rec (sample_node ''nas'' (sample_key ''N'') 0x64400100), n_rec (sample_node ''guest'' (sample_key ''G'') 0x64400101)],
             ld_shares = Inr [sample_share]\<rparr>),
      so_put_node = None, so_put_share = None, so_delete_share = None, so_put_rule = None, so_delete_rule = None, so_put_network = None\<rparr>"

definition sample_ident :: "string \<Rightarrow> identity" where
  "sample_ident c = \<lparr>id_tenant = ''t1'', id_kind = KindDevice, id_client = c, id_client_name = c, id_user = [], id_role = [],
     id_punch = False, id_tun = False, id_alog = False\<rparr>"

definition sample_reg :: "string \<Rightarrow> register_msg" where
  "sample_reg c = \<lparr>rm_pub = sample_key c, rm_name = [], rm_disco = []\<rparr>"

definition sample_m1 :: manager where
  "sample_m1 = new_manager\<lparr>mg_obs := [(0, new_outbox), (1, new_outbox)]\<rparr>"

definition sample_m2 :: "net_err option \<times> conn \<times> manager" where
  "sample_m2 = register sample_env sample_store 1 [] [] (sample_reg ''N'') (attach_conn (sample_ident ''nas'') 0) sample_m1"

definition sample_m3 :: "net_err option \<times> conn \<times> manager" where
  "sample_m3 = register sample_env sample_store 2 [] [] (sample_reg ''G'') (attach_conn (sample_ident ''guest'') 1) (snd (snd sample_m2))"

definition sample_out :: "(ob_ref \<times> bytes) option \<times> conn \<times> manager" where
  "sample_out = relay True (ip_to_relay_id (IP4 0x64400100)) [1, 2, 3] (fst (snd sample_m3)) (snd (snd sample_m3))"

lemma sample_delivers: "map_option fst (fst sample_out) = Some 0"
  by code_simp
lemma sample_world: "store_ok sample_store" "pool4 (ev_pool sample_env)"
  by (simp_all add: store_ok_def sample_store_def records_ok_def sample_node_def pool4_def sample_env_def DefaultPool_def)

lemma sample_fresh1: "case fst (tenant_locked sample_env sample_store ''t1'' sample_m1) of Inl _ \<Rightarrow> True | Inr t \<Rightarrow> fresh_id [] t"
  by code_simp

lemma sample_fresh2: "case fst (tenant_locked sample_env sample_store ''t1'' (snd (snd sample_m2))) of Inl _ \<Rightarrow> True | Inr t \<Rightarrow> fresh_id [] t"
  by code_simp

lemma two_conns: "net_reach (sample_m1, [attach_conn i 0, attach_conn j 1])"
proof -
  let ?m0 = "new_manager\<lparr>mg_obs := [(0, new_outbox)]\<rparr>"
  have "net_step (new_manager, []) (?m0, [attach_conn i 0])"
    using net_step.attach [of new_manager 0 "[]"] by (simp add: new_manager_def)
  then have "net_reach (?m0, [attach_conn i 0])" by (rule net_reach.step [OF net_reach.start])
  moreover have "net_step (?m0, [attach_conn i 0]) (sample_m1, [attach_conn i 0, attach_conn j 1])"
    using net_step.attach [of ?m0 1 "[attach_conn i 0]"] by (simp add: sample_m1_def)
  ultimately show ?thesis by (rule net_reach.step)
qed

lemma sample_reach: "net_reach (snd (snd sample_m3), [fst (snd sample_m2), fst (snd sample_m3)])"
proof -
  let ?c = "\<lambda>c q. attach_conn (sample_ident c) q"
  note r1 = two_conns [of "sample_ident ''nas''" "sample_ident ''guest''"]
  have none: "cn_node (?c c q) = None" "id_tenant (cn_id (?c c q)) = ''t1''" for c q
    by (simp_all add: attach_conn_def sample_ident_def)
  obtain e2 c2 m2 where m2: "sample_m2 = (e2, c2, m2)" by (metis surj_pair)
  have reg: "register sample_env sample_store 1 [] [] (sample_reg ''N'') ([?c ''nas'' 0, ?c ''guest'' 1] ! 0) sample_m1 = (e2, c2, m2)"
    using m2 by (simp add: sample_m2_def)
  have "net_step (sample_m1, [?c ''nas'' 0, ?c ''guest'' 1]) (m2, [?c ''nas'' 0, ?c ''guest'' 1][0 := c2])"
    by (rule net_step.register [OF _ _ sample_world _ reg])
      (use none sample_fresh1 in \<open>auto split: sum.splits\<close>)
  with r1 have r2: "net_reach (m2, [c2, ?c ''guest'' 1])" using net_reach.step by fastforce
  obtain e3 c3 m3 where m3: "sample_m3 = (e3, c3, m3)" by (metis surj_pair)
  have reg: "register sample_env sample_store 2 [] [] (sample_reg ''G'') ([c2, ?c ''guest'' 1] ! 1) m2 = (e3, c3, m3)"
    using m3 by (simp add: sample_m3_def m2)
  have "net_step (m2, [c2, ?c ''guest'' 1]) (m3, [c2, ?c ''guest'' 1][1 := c3])"
    by (rule net_step.register [OF _ _ sample_world _ reg])
      (use none sample_fresh2 in \<open>auto simp: m2 split: sum.splits\<close>)
  with r2 have "net_reach (m3, [c2, c3])" using net_reach.step by fastforce
  then show ?thesis by (simp add: m2 m3)
qed

lemma sample_sender_known:
  "case (map_of (mg_tenants (snd (snd sample_m3))) ''t1'', cn_node (fst (snd sample_m3))) of
     (Some t, Some r) \<Rightarrow> r \<in> node_refs t | _ \<Rightarrow> False"
  by code_simp

lemma relay_isolation_witness:
  "\<exists>r d y S x z. map_of (mg_heap (snd (snd sample_m3))) d = Some y \<and> nr_tenant (n_rec y) = ''t1''
     \<and> node_ip y = IP4 (ucast (ip_to_relay_id (IP4 0x64400100))) \<and> n_ob y = Some 0
     \<and> cn_node (fst (snd sample_m3)) = Some r \<and> map_of (mg_last (snd (snd sample_m3))) ''t1'' = Some S
     \<and> linked (sn_env S) (sn_tenant S) (tun_rules (sn_env S) (sn_heap S) (sn_tenant S)) (sn_now S) (r, x) (d, z)"
proof -
  have "\<exists>b. fst sample_out = Some (0, b)" using sample_delivers by (cases "fst sample_out") auto
  then obtain b where "sample_out = (Some (0, b), fst (snd sample_out), snd (snd sample_out))" by (metis prod.collapse)
  note out = this [unfolded sample_out_def]
  have "cn_id (fst (snd sample_m3)) = sample_ident ''guest''"
    unfolding sample_m3_def register_id by (simp add: attach_conn_def)
  then have t1: "id_tenant (cn_id (fst (snd sample_m3))) = ''t1''" by (simp add: sample_ident_def)
  have "fst (snd sample_m3) \<in> set [fst (snd sample_m2), fst (snd sample_m3)]" by simp
  from relay_isolation [OF sample_reach this out] t1 sample_sender_known show ?thesis
    unfolding tenant_nodes_iff by (auto split: option.splits) blast
qed

text \<open>The exception is real: the guest is revoked, and a packet on its open connection is still
  delivered to the owner of the share.\<close>

definition revoked_m :: manager where
  "revoked_m = snd (revoke_node sample_env sample_store 3 ''t1'' ''nod_guest'' (snd (snd sample_m3)))"

lemma revoked_node_relays:
  "map_option fst (fst (relay True (ip_to_relay_id (IP4 0x64400100)) [1, 2, 3] (fst (snd sample_m3)) revoked_m)) = Some 0"
  "(case map_of (mg_tenants revoked_m) ''t1'' of Some t \<Rightarrow> map_of (tn_nodes t) ''nod_guest'' | None \<Rightarrow> None) = None"
  by code_simp+

section \<open>The end of a connection\<close>

lemma recompute_pubs: "mg_pubs (recompute E now tid m) = mg_pubs m"
proof (cases "map_of (mg_tenants m) tid")
  case (Some t)
  have step: "mg_pubs (push_map E rules now tid r x) = mg_pubs x" for rules r x
    by (auto simp: push_map_def Let_def send_ctrl_frame split: option.split prod.split) (metis send_ctrl_frame(2) snd_conv)+
  have "mg_pubs (fold (push_map E rules now tid) rs x) = mg_pubs x" for rules rs x
    by (induction rs arbitrary: x) (simp_all add: step)
  with Some show ?thesis by (simp add: recompute_def Let_def set_tenant_def)
qed (simp add: recompute_def)

lemma recompute_tenant:
  assumes "map_of (mg_tenants m) tid = Some t" and "tn_id t = tid"
  shows "map_of (mg_tenants (recompute E now tid m)) tid = Some (t\<lparr>tn_epoch := tn_epoch t + 1\<rparr>)"
proof -
  have "mg_tenants (fold (push_map E rules now tid) rs x) = mg_tenants x" for rules rs x
    by (induction rs arbitrary: x) (simp_all add: push_map_step)
  with assms show ?thesis by (simp add: recompute_def Let_def)
qed

lemma recompute_offline:
  assumes "struct_inv m" and t: "map_of (mg_tenants m) tid = Some t" and n: "map_of (mg_heap m) r = Some n" "n_ob n = None"
  shows "map_of (mg_heap (recompute E now tid m)) r = Some n"
proof -
  let ?t = "t\<lparr>tn_epoch := tn_epoch t + 1\<rparr>" and ?rules = "tun_rules E (mg_heap m) (t\<lparr>tn_epoch := tn_epoch t + 1\<rparr>)"
  let ?s = "recompute_start E now tid ?t m" and ?rs = "map snd (tn_nodes t)"
  have id: "tn_id t = tid" and gm: "gm_ok (mg_heap m)" using struct_tenant(1) [OF assms(1,2)] assms(1) by (simp_all add: struct_inv_def)
  have m: "recompute E now tid m = fold (push_map E ?rules now tid) ?rs ?s" using recompute_unfold [OF t id] by (simp add: Let_def)
  have s: "map_of (mg_tenants ?s) tid = Some ?t" "gm_ok (mg_heap ?s)" "mg_heap ?s = mg_heap m"
    using id gm by (simp_all add: recompute_start_def)
  have "heap_keeps (mg_heap m) (mg_heap (recompute E now tid m))" by (rule recompute_keeps)
  with n(1) obtain n' where n': "map_of (mg_heap (recompute E now tid m)) r = Some n'" unfolding heap_keeps_def by blast
  from offline_unchanged [OF s(1,2) _ n' [unfolded m] n(2)] n(1) s(3) n' show ?thesis by simp
qed

text \<open>C37: the end of a connection. If another connection has taken the node over, only the outbox is closed.
  Otherwise a device goes offline, sees nobody any more and loses its ephemeral shares, and a session node
  disappears with its address and its key: these entries are deleted whatever they refer to.\<close>

theorem close_releases:
  assumes "net_reach (m, cs)" and "cn_node c = Some r" and "map_of (mg_heap m) r = Some n"
    and "map_of (mg_tenants m) (id_tenant (cn_id c)) = Some t"
  shows "let m' = close_conn E now c m in
    (n_ob n \<noteq> Some (cn_ob c) \<longrightarrow> m' = close_ob (cn_ob c) m)
    \<and> (n_ob n = Some (cn_ob c) \<and> nr_kind (n_rec n) = KindSession \<longrightarrow>
        map_of (mg_pubs m') (node_pub n) = None
        \<and> (\<exists>t'. map_of (mg_tenants m') (id_tenant (cn_id c)) = Some t'
             \<and> map_of (tn_by_ip t') (node_ip n) = None \<and> map_of (tn_nodes t') (nr_node (n_rec n)) = None))
    \<and> (n_ob n = Some (cn_ob c) \<and> nr_kind (n_rec n) = KindDevice \<longrightarrow>
        (\<exists>t' n'. map_of (mg_tenants m') (id_tenant (cn_id c)) = Some t' \<and> map_of (mg_heap m') r = Some n'
          \<and> n_ob n' = None \<and> n_vis n' = None \<and> tn_nodes t' = tn_nodes t \<and> tn_by_ip t' = tn_by_ip t
          \<and> tn_shares t' = filter (\<lambda>(k, s). \<not> (sh_ephemeral s \<and> sh_owner s = nr_client (n_rec n))) (tn_shares t)))"
proof -
  let ?tid = "id_tenant (cn_id c)" and ?m0 = "close_ob (cn_ob c) m" and ?n = "n\<lparr>n_ob := None, n_tun := False, n_vis := None, n_endpoints := [], n_paths := []\<rparr>"
  let ?m1 = "set_node r ?n ?m0"
  have i: "mgr_inv m" using net_reach_ok [OF assms(1)] by (simp add: net_ok_def)
  have i1: "mgr_inv ?m1" by (rule set_node_quiet [of ?m0 r n]) (use i assms(3) in \<open>simp_all add: node_alike_def node_quiet_def\<close>)
  have s1: "struct_inv ?m1" using i1 by (simp add: mgr_inv_def)
  have t1: "map_of (mg_tenants ?m1) ?tid = Some t" "map_of (mg_heap ?m1) r = Some ?n" using assms(4) by simp_all
  have id: "tn_id t = ?tid" by (rule struct_tenant(1) [OF s1 t1(1)])
  have kinds: "KindSession \<noteq> KindDevice" by (simp add: KindSession_def KindDevice_def)
  have other: "close_conn E now c m = ?m0" if "n_ob n \<noteq> Some (cn_ob c)"
    using assms(2-4) that by (simp add: close_conn_def Let_def)
  have sess: "close_conn E now c m = recompute E now ?tid (remove_node t r ?m1)"
    if "n_ob n = Some (cn_ob c)" "nr_kind (n_rec n) = KindSession"
    using assms(2-4) that by (simp add: close_conn_def Let_def)
  have dev: "close_conn E now c m = recompute E now ?tid (set_tenant (drop_ephemeral (nr_client (n_rec n)) t) ?m1)"
    if "n_ob n = Some (cn_ob c)" "nr_kind (n_rec n) = KindDevice"
    using assms(2-4) that kinds by (simp add: close_conn_def Let_def)
  have rm: "remove_node t r ?m1 = (set_tenant (without_node ?n t) ?m1)\<lparr>mg_pubs := gm_del (node_pub n) (mg_pubs ?m1)\<rparr>"
    using remove_node_def2 [OF t1(2), of t] by (simp add: close_opt_def)
  have wid: "tn_id (without_node ?n t) = ?tid" by (simp add: without_node_def id)
  show ?thesis
    unfolding Let_def
  proof (intro conjI impI; (elim conjE)?)
    assume a: "n_ob n = Some (cn_ob c)" "nr_kind (n_rec n) = KindSession"
    show "map_of (mg_pubs (close_conn E now c m)) (node_pub n) = None"
      unfolding sess [OF a] recompute_pubs rm by simp
    have tt: "map_of (mg_tenants (remove_node t r ?m1)) ?tid = Some (without_node ?n t)" unfolding rm by (simp add: wid)
    show "\<exists>t'. map_of (mg_tenants (close_conn E now c m)) ?tid = Some t' \<and> map_of (tn_by_ip t') (node_ip n) = None
        \<and> map_of (tn_nodes t') (nr_node (n_rec n)) = None"
      unfolding sess [OF a] using recompute_tenant [OF tt wid] by (simp add: without_node_def)
  next
    assume a: "n_ob n = Some (cn_ob c)" "nr_kind (n_rec n) = KindDevice"
    let ?t = "drop_ephemeral (nr_client (n_rec n)) t"
    have same: "same_tables t ?t" by (simp add: same_tables_def drop_ephemeral_def)
    have s2: "struct_inv (set_tenant ?t ?m1)" using set_same_tables [OF i1 t1(1) same] by (simp add: mgr_inv_def)
    have t2: "map_of (mg_tenants (set_tenant ?t ?m1)) ?tid = Some ?t" "map_of (mg_heap (set_tenant ?t ?m1)) r = Some ?n"
      using id t1(2) by (simp_all add: drop_ephemeral_def)
    have "tn_id ?t = ?tid" by (simp add: drop_ephemeral_def id)
    note rt = recompute_tenant [OF t2(1) this, of E now] recompute_offline [OF s2 t2(1), of _ _ E now]
    show "\<exists>t' n'. map_of (mg_tenants (close_conn E now c m)) ?tid = Some t' \<and> map_of (mg_heap (close_conn E now c m)) r = Some n'
        \<and> n_ob n' = None \<and> n_vis n' = None \<and> tn_nodes t' = tn_nodes t \<and> tn_by_ip t' = tn_by_ip t
        \<and> tn_shares t' = filter (\<lambda>(k, s). \<not> (sh_ephemeral s \<and> sh_owner s = nr_client (n_rec n))) (tn_shares t)"
      unfolding dev [OF a] using rt(1) rt(2) [OF t2(2)] by (simp add: drop_ephemeral_def)
  qed (use other in simp)
qed


text \<open>A session is revoked and registers again with the same key on a new connection. When the old connection
  ends, the key of the new node is freed, although the node is online.\<close>

definition empty_store :: store where
  "empty_store =
     \<lparr>so_load = (\<lambda>_. Inr \<lparr>ld_network = None, ld_rules = [], ld_nodes = [], ld_shares = Inr []\<rparr>),
      so_put_node = None, so_put_share = None, so_delete_share = None, so_put_rule = None, so_delete_rule = None, so_put_network = None\<rparr>"

definition session_ident :: identity where
  "session_ident = \<lparr>id_tenant = ''t1'', id_kind = KindSession, id_client = [], id_client_name = [], id_user = ''u1'', id_role = ''user'',
     id_punch = False, id_tun = False, id_alog = False\<rparr>"

definition stale_a :: "net_err option \<times> conn \<times> manager" where
  "stale_a = register sample_env empty_store 1 ''a'' ''a'' (sample_reg ''K'') (attach_conn session_ident 0) sample_m1"

definition stale_r :: manager where
  "stale_r = snd (revoke_node sample_env empty_store 2 ''t1'' ''nod_a'' (snd (snd stale_a)))"

definition stale_b :: "net_err option \<times> conn \<times> manager" where
  "stale_b = register sample_env empty_store 3 ''b'' ''b'' (sample_reg ''K'') (attach_conn session_ident 1) stale_r"

definition stale_facts :: "manager \<Rightarrow> conn \<Rightarrow> bool" where
  "stale_facts m c \<longleftrightarrow> cn_node c = Some 0 \<and> id_tenant (cn_id c) = ''t1'' \<and> cn_ob c = 0
     \<and> (case (map_of (mg_heap m) 0, map_of (mg_tenants m) ''t1'') of
          (Some n, Some t) \<Rightarrow> n_ob n = Some 0 \<and> nr_kind (n_rec n) = KindSession \<and> node_pub n = sample_key ''K''
            \<and> map_of (tn_nodes t) ''nod_b'' = Some 1
        | _ \<Rightarrow> False)
     \<and> map_of (mg_pubs m) (sample_key ''K'') = Some ''t1''"

lemma stale_run: "stale_facts (snd (snd stale_b)) (fst (snd stale_a))"
  by code_simp

lemma stale_fresh:
  "case fst (tenant_locked sample_env empty_store ''t1'' sample_m1) of Inl _ \<Rightarrow> True | Inr t \<Rightarrow> fresh_id ''a'' t"
  "case fst (tenant_locked sample_env empty_store ''t1'' stale_r) of Inl _ \<Rightarrow> True | Inr t \<Rightarrow> fresh_id ''b'' t"
  by code_simp+

lemma stale_world: "store_ok empty_store"
  by (simp add: store_ok_def empty_store_def records_ok_def)

lemma stale_reach: "net_reach (snd (snd stale_b), [fst (snd stale_a), fst (snd stale_b)])"
proof -
  let ?c = "attach_conn session_ident"
  have none: "cn_node (?c q) = None" "id_tenant (cn_id (?c q)) = ''t1''" for q
    by (simp_all add: attach_conn_def session_ident_def)
  obtain ea ca ma where a: "stale_a = (ea, ca, ma)" by (metis surj_pair)
  have reg: "register sample_env empty_store 1 ''a'' ''a'' (sample_reg ''K'') ([?c 0, ?c 1] ! 0) sample_m1 = (ea, ca, ma)"
    using a by (simp add: stale_a_def)
  have "net_step (sample_m1, [?c 0, ?c 1]) (ma, [?c 0, ?c 1][0 := ca])"
    by (rule net_step.register [OF _ _ stale_world sample_world(2) _ reg]) (use none stale_fresh(1) in \<open>auto split: sum.splits\<close>)
  with two_conns [of session_ident session_ident] have "net_reach (ma, [ca, ?c 1])" using net_reach.step by fastforce
  moreover have "net_step (ma, [ca, ?c 1]) (stale_r, [ca, ?c 1])"
    using net_step.revoke [OF stale_world sample_world(2), of ma "[ca, ?c 1]" 2 "''t1''" "''nod_a''"] by (simp add: stale_r_def a)
  ultimately have r: "net_reach (stale_r, [ca, ?c 1])" by (rule net_reach.step)
  obtain eb cb mb where b: "stale_b = (eb, cb, mb)" by (metis surj_pair)
  have reg: "register sample_env empty_store 3 ''b'' ''b'' (sample_reg ''K'') ([ca, ?c 1] ! 1) stale_r = (eb, cb, mb)"
    using b by (simp add: stale_b_def)
  have "net_step (stale_r, [ca, ?c 1]) (mb, [ca, ?c 1][1 := cb])"
    by (rule net_step.register [OF _ _ stale_world sample_world(2) _ reg]) (use none stale_fresh(2) in \<open>auto split: sum.splits\<close>)
  with r have "net_reach (mb, [ca, cb])" using net_reach.step by fastforce
  then show ?thesis by (simp add: a b)
qed

lemma close_releases_witness:
  "let m = snd (snd stale_b) in
   (\<exists>t. map_of (mg_tenants m) ''t1'' = Some t \<and> map_of (tn_nodes t) ''nod_b'' = Some 1)
   \<and> map_of (mg_pubs m) (sample_key ''K'') = Some ''t1''
   \<and> map_of (mg_pubs (close_conn sample_env 4 (fst (snd stale_a)) m)) (sample_key ''K'') = None"
proof -
  let ?m = "snd (snd stale_b)" and ?c = "fst (snd stale_a)"
  obtain n t where f: "cn_node ?c = Some 0" "id_tenant (cn_id ?c) = ''t1''" "cn_ob ?c = 0" "map_of (mg_heap ?m) 0 = Some n"
    "map_of (mg_tenants ?m) ''t1'' = Some t" "n_ob n = Some 0" "nr_kind (n_rec n) = KindSession" "node_pub n = sample_key ''K''"
    "map_of (tn_nodes t) ''nod_b'' = Some 1" "map_of (mg_pubs ?m) (sample_key ''K'') = Some ''t1''"
    using stale_run unfolding stale_facts_def by (auto split: option.splits)
  have "map_of (mg_tenants ?m) (id_tenant (cn_id ?c)) = Some t" using f by simp
  from close_releases [OF stale_reach f(1,4) this, of sample_env 4] f show ?thesis by (simp add: Let_def)
qed

end
