(* ===== verification/Access_Records.thy ===== *)
theory Access_Records
  imports Net_Relay
begin

text \<open>
  The records of the access log in the running service: what a report can make the server write
  (\<open>handleAccessLog\<close> of \<open>server/netctl/accesslog.go\<close>), over all histories of the state machine of \<open>Net_Relay\<close>.
\<close>

text \<open>C15: what a node reports is written only as traffic to that node: every record carries the tenant of the connection
  and the name, client and address of its node, which is a device in Mod B with this connection; the source is an
  IPv4 address with the name the tables of the same tenant give it; all counters are valid; a resource is named only
  for allowed traffic under a rule of the tenant for that resource; and one report makes at most 200 records.\<close>

theorem access_records_genuine:
  assumes "net_reach (m, cs)" and "c \<in> set cs" and "handle_access_log E now entries c l m = (recs, aud, l1, m1)" and "recs \<noteq> []"
  shows "\<exists>r n t. cn_node c = Some r \<and> map_of (mg_heap m) r = Some n \<and> nr_tenant (n_rec n) = id_tenant (cn_id c)
    \<and> nr_kind (n_rec n) = KindDevice \<and> n_ob n = Some (cn_ob c) \<and> n_tun n
    \<and> map_of (mg_tenants m) (id_tenant (cn_id c)) = Some t \<and> tn_id t = id_tenant (cn_id c)
    \<and> length recs \<le> MaxAccessLogEntries \<and> length aud \<le> accessDenyAudit
    \<and> (\<forall>a\<in>set recs. record_ok E now (mg_heap m1) t n a)"
proof -
  have i: "struct_inv m" and co: "conn_ok m c"
    using net_reach_ok [OF assms(1)] assms(2) by (simp_all add: net_ok_def mgr_inv_def)
  show ?thesis
    using assms(3)
  proof (cases rule: handle_access_log_cases)
    case (3 r n t k all)
    have ok: "record_ok E now (mg_heap m1) t n a" if "a \<in> set recs" for a
      using map_filter_mem [of a] that 3(8,10) intake_ok by (metis in_set_takeD)
    have "length all \<le> MaxAccessLogEntries"
      unfolding 3(8) List.map_filter_def by (simp add: order_trans [OF length_filter_le])
    then have "length recs \<le> MaxAccessLogEntries" "length aud \<le> accessDenyAudit"
      unfolding 3(10,11) deny_audit_def by simp_all
    moreover have "nr_tenant (n_rec n) = id_tenant (cn_id c)" using co 3(1,2) by (simp add: conn_ok_def)
    ultimately show ?thesis using 3 ok struct_tenant(1) [OF i 3(3)] by blast
  qed (use assms(4) in simp_all)
qed
section \<open>A device in Mod B\<close>

definition mode_ident :: identity where
  "mode_ident = (sample_ident ''nas'')\<lparr>id_tun := True, id_alog := True\<rparr>"

definition mode_m2 :: "net_err option \<times> conn \<times> manager" where
  "mode_m2 = register sample_env sample_store 1 [] [] (sample_reg ''N'') (attach_conn mode_ident 0) sample_m1"

definition mode_m3 :: "conn \<times> manager" where
  "mode_m3 = (case mode_m2 of (_, c, m) \<Rightarrow> (c, handle_mode sample_env 2 ''acme'' True c m))"

definition mode_out :: "access_rec list \<times> (string \<times> string) list \<times> access_limiter \<times> manager" where
  "mode_out = (case mode_m3 of (c, m) \<Rightarrow> handle_access_log sample_env 3 report_entries c [] m)"

lemma mode_written:
  "map (\<lambda>a. (ar_src_name a, ar_dst_name a)) (fst mode_out) = [(''guest'', ''nas'')]"
  by code_simp

lemma mode_fresh: "case fst (tenant_locked sample_env sample_store ''t1'' sample_m1) of Inl _ \<Rightarrow> True | Inr t \<Rightarrow> fresh_id [] t"
  by (rule sample_fresh1)

lemma mode_reach: "net_reach (snd mode_m3, [fst mode_m3, attach_conn mode_ident 1])"
proof -
  have none: "cn_node (attach_conn mode_ident q) = None" "id_tenant (cn_id (attach_conn mode_ident q)) = ''t1''" for q
    by (simp_all add: attach_conn_def mode_ident_def sample_ident_def)
  obtain e c m where m2: "mode_m2 = (e, c, m)" by (metis surj_pair)
  have "net_reach (m, [attach_conn mode_ident 0, attach_conn mode_ident 1][0 := c])"
    by (rule reach_register [OF two_conns _ _ sample_world, where k = 0 and reg = "sample_reg ''N''" and now = 1 and ?rnd2.0 = "[]" and rnd = "[]"])
      (use none mode_fresh m2 in \<open>simp_all add: mode_m2_def\<close>)
  then have "net_reach (m, [c, attach_conn mode_ident 1])" by simp
  then have "net_reach (handle_mode sample_env 2 ''acme'' True c m, [c, attach_conn mode_ident 1])"
    by (rule net_reach.step) (rule net_step.mode, simp)
  then show ?thesis unfolding mode_m3_def m2 by simp
qed

lemma access_records_genuine_witness:
  "\<exists>n t. nr_kind (n_rec n) = KindDevice \<and> tn_id t = ''t1'' \<and> fst mode_out \<noteq> []
     \<and> (\<forall>a\<in>set (fst mode_out). record_ok sample_env 3 (mg_heap (snd (snd (snd mode_out)))) t n a)"
proof -
  have out: "handle_access_log sample_env 3 report_entries (fst mode_m3) [] (snd mode_m3)
      = (fst mode_out, fst (snd mode_out), fst (snd (snd mode_out)), snd (snd (snd mode_out)))"
    unfolding mode_out_def case_prod_beta by simp
  have ne: "fst mode_out \<noteq> []" using mode_written by auto
  have "cn_id (fst mode_m3) = mode_ident"
    unfolding mode_m3_def case_prod_beta mode_m2_def by (simp add: register_id attach_conn_def)
  then have "id_tenant (cn_id (fst mode_m3)) = ''t1''" by (simp add: mode_ident_def sample_ident_def)
  with access_records_genuine [OF mode_reach _ out ne] ne show ?thesis by auto
qed

end
