(* ===== verification/Addr_Text.thy ===== *)
theory Addr_Text
  imports Netip_Text
begin

unbundle bit_operations_syntax

text \<open>
  Printing and parsing addresses are inverse: \<open>parse_addr\<close> reads the text of every address (IPv4,
  IPv6 with its longest run of zero groups written as \<open>::\<close>, the IPv4-mapped form, any zone) back to
  the same address. A text produced from a parsed address is therefore its canonical form: two
  different texts name two different addresses.
\<close>

section \<open>One group\<close>

lemma hex_val_char: "d < 16 \<Longrightarrow> hex_val (hex_char d) = Some d"
  by (auto simp: hex_val_def hex_char_def is_digit_def digit_val_def code_of_def)

lemma hex_group_map:
  "\<forall>d\<in>set ds. d < 16 \<Longrightarrow> off + length ds \<le> 4 \<Longrightarrow> 0 < off + length ds \<Longrightarrow>
   rest = [] \<or> hex_val (hd rest) = None \<Longrightarrow>
   hex_group off acc (map hex_char ds @ rest) = Some (off + length ds, foldl (\<lambda>a d. a * 16 + d) acc ds, rest)"
proof (induction ds arbitrary: off acc)
  case Nil
  then show ?case by (cases rest) (auto split: option.split)
qed (simp add: hex_val_char)

lemma hex_value_zeros: "foldl (\<lambda>a d. a * 16 + d) 0 (dropWhile (\<lambda>d. d = (0::nat)) ds) = foldl (\<lambda>a d. a * 16 + d) 0 ds"
  by (induction ds) auto

lemma hex_digits_value:
  assumes "g < 65536"
  shows "foldl (\<lambda>a d. a * 16 + d) 0 [g div 4096 mod 16, g div 256 mod 16, g div 16 mod 16, g mod 16] = (g::nat)"
proof -
  have "g div 4096 < 16" using assms by (simp add: less_mult_imp_div_less)
  moreover have "g div 4096 = g div 16 div 16 div 16" "g div 256 = g div 16 div 16"
    by (simp_all add: div_mult2_eq [symmetric])
  ultimately show ?thesis by simp
qed

lemma hex_string_digits:
  assumes "g < 65536"
  obtains ds where "hex_string g = map hex_char ds" "ds \<noteq> []" "length ds \<le> 4" "\<forall>d\<in>set ds. d < 16"
    "foldl (\<lambda>a d. a * 16 + d) 0 ds = g"
proof -
  let ?ds = "[g div 4096 mod 16, g div 256 mod 16, g div 16 mod 16, g mod 16]"
  let ?ds' = "dropWhile (\<lambda>d. d = 0) ?ds"
  have v: "foldl (\<lambda>a d. a * 16 + d) 0 ?ds' = g" by (simp only: hex_value_zeros hex_digits_value [OF assms])
  show thesis
  proof (cases "?ds' = []")
    case True
    then have "hex_string g = map hex_char [0]" by (simp only: hex_string_def Let_def simp_thms if_True list.map)
    moreover have "g = 0" using v unfolding True by simp
    ultimately show thesis by (intro that [of "[0]"]) simp_all
  next
    case False
    then have "hex_string g = map hex_char ?ds'" by (simp only: hex_string_def Let_def if_False)
    moreover have "length ?ds' \<le> length ?ds" by (rule length_dropWhile_le)
    then have "length ?ds' \<le> 4" by simp
    moreover have "\<forall>d\<in>set ?ds'. d < 16" by (auto dest!: set_dropWhileD)
    ultimately show thesis using False v by (intro that [of ?ds']) blast+
  qed
qed

lemma hex_group_string:
  assumes "g < 65536" and "rest = [] \<or> hex_val (hd rest) = None"
  obtains off where "hex_group 0 0 (hex_string g @ rest) = Some (off, g, rest)"
proof -
  obtain ds where ds: "hex_string g = map hex_char ds" "ds \<noteq> []" "length ds \<le> 4" "\<forall>d\<in>set ds. d < 16"
    "foldl (\<lambda>a d. a * 16 + d) 0 ds = g"
    using hex_string_digits [OF assms(1)] .
  then have "hex_group 0 0 (hex_string g @ rest) = Some (length ds, g, rest)"
    using hex_group_map [OF ds(4), of 0 rest 0] assms(2) by simp
  then show thesis by (rule that)
qed

lemma hex_char_cases: "d < 16 \<Longrightarrow> hex_char d \<notin> {CHR '':'', CHR ''.'', CHR ''%''}"
  using hex_val_char [of d] by (auto simp: hex_val_def is_digit_def code_of_def)

lemma hex_string_chars: "g < 65536 \<Longrightarrow> c \<in> set (hex_string g) \<Longrightarrow> c \<notin> {CHR '':'', CHR ''.'', CHR ''%''}"
  by (erule hex_string_digits) (use hex_char_cases in auto)

lemma hex_string_Cons:
  assumes "g < 65536"
  obtains c cs where "hex_string g = c # cs" "c \<noteq> CHR '':''" "c \<noteq> CHR ''%''" "c \<noteq> CHR ''.''"
proof -
  obtain c cs where c: "hex_string g = c # cs" using hex_string_digits [OF assms] by (metis list.map_disc_iff neq_Nil_conv)
  then have "c \<notin> {CHR '':'', CHR ''.'', CHR ''%''}" using hex_string_chars [OF assms, of c] by simp
  with c show thesis by (intro that) auto
qed

section \<open>The loop over the groups\<close>

lemma join_colon_Cons: "ss \<noteq> [] \<Longrightarrow> join_colon (s # ss) = s @ CHR '':'' # join_colon ss"
  by (cases ss) simp_all

lemma join_hex_head:
  assumes "gs \<noteq> []" "\<forall>g\<in>set gs. g < 65536"
  obtains c cs where "join_colon (map hex_string gs) = c # cs" "c \<noteq> CHR '':''"
proof -
  obtain g gs' where gs: "gs = g # gs'" using assms(1) by (cases gs) auto
  obtain c cs where c: "hex_string g = c # cs" "c \<noteq> CHR '':''"
    by (rule hex_string_Cons [of g]) (use assms(2) gs in auto)
  show thesis
  proof (cases "gs' = []")
    case True
    with gs c show thesis by (intro that [of c cs]) simp_all
  next
    case False
    with gs c show thesis by (intro that [of c]) (simp_all add: join_colon_Cons)
  qed
qed

lemma hex_val_stop [simp]: "hex_val (CHR '':'') = None" "hex_val (CHR ''.'') = None"
  by (simp_all add: hex_val_def is_digit_def code_of_def)

lemma groups_last:
  assumes "g < 65536" "length acc < 8"
  shows "ipv6_groups (Suc n) acc ell (hex_string g) = Some (g # acc, ell, [])"
proof -
  obtain off where "hex_group 0 0 (hex_string g @ []) = Some (off, g, [])"
    by (rule hex_group_string [OF assms(1), of "[]"]) simp
  then show ?thesis using assms(2) by simp
qed

lemma groups_step:
  assumes "g < 65536" "length acc < 8" "s = c # cs" "c \<noteq> CHR '':''"
  shows "ipv6_groups (Suc n) acc ell (hex_string g @ CHR '':'' # s) = ipv6_groups n (g # acc) ell s"
proof -
  obtain off where "hex_group 0 0 (hex_string g @ CHR '':'' # s) = Some (off, g, CHR '':'' # s)"
    by (rule hex_group_string [OF assms(1), of "CHR '':'' # s"]) simp
  then show ?thesis using assms(2-4) by simp
qed

lemma groups_plain:
  "gs \<noteq> [] \<Longrightarrow> \<forall>g\<in>set gs. g < 65536 \<Longrightarrow> length acc + length gs \<le> 8 \<Longrightarrow> length gs \<le> n \<Longrightarrow>
   ipv6_groups n acc ell (join_colon (map hex_string gs)) = Some (rev gs @ acc, ell, [])"
proof (induction gs arbitrary: acc n)
  case (Cons g gs)
  then obtain m where n: "n = Suc m" by (cases n) auto
  show ?case
  proof (cases "gs = []")
    case True
    with Cons.prems n show ?thesis by (simp add: groups_last del: ipv6_groups.simps)
  next
    case False
    obtain c cs where c: "join_colon (map hex_string gs) = c # cs" "c \<noteq> CHR '':''"
      by (rule join_hex_head [OF False]) (use Cons.prems(2) in auto)
    have "ipv6_groups n acc ell (join_colon (map hex_string (g # gs))) =
        ipv6_groups m (g # acc) ell (join_colon (map hex_string gs))"
      using groups_step [OF _ _ c, of g acc m ell] Cons.prems False n
      by (simp add: join_colon_Cons del: ipv6_groups.simps)
    then show ?thesis using Cons.IH [OF False, of "g # acc" m] Cons.prems n by simp
  qed
qed simp

lemma groups_ellipsis_step:
  assumes "g < 65536" "length acc < 8"
  shows "ipv6_groups (Suc n) acc None (hex_string g @ CHR '':'' # CHR '':'' # s) =
    (if s = [] then Some (g # acc, Some (Suc (length acc)), [])
     else ipv6_groups n (g # acc) (Some (Suc (length acc))) s)"
proof -
  obtain off where "hex_group 0 0 (hex_string g @ CHR '':'' # CHR '':'' # s) = Some (off, g, CHR '':'' # CHR '':'' # s)"
    by (rule hex_group_string [OF assms(1), of "CHR '':'' # CHR '':'' # s"]) simp
  then show ?thesis using assms(2) by simp
qed

lemma groups_ellipsis:
  "gs \<noteq> [] \<Longrightarrow> \<forall>g\<in>set (gs @ hs). g < 65536 \<Longrightarrow> length acc + length gs + length hs \<le> 8 \<Longrightarrow>
   length gs + length hs \<le> n \<Longrightarrow>
   ipv6_groups n acc None (join_colon (map hex_string gs) @ ''::'' @ join_colon (map hex_string hs)) =
     Some (rev hs @ rev gs @ acc, Some (length acc + length gs), [])"
proof (induction gs arbitrary: acc n)
  case (Cons g gs)
  then obtain m where n: "n = Suc m" by (cases n) auto
  show ?case
  proof (cases "gs = []")
    case gs: True
    note step = groups_ellipsis_step [of g acc m "join_colon (map hex_string hs)"]
    show ?thesis
    proof (cases "hs = []")
      case True
      with Cons.prems gs n step show ?thesis by (simp del: ipv6_groups.simps)
    next
      case False
      then obtain c cs where "join_colon (map hex_string hs) = c # cs"
        by (rule join_hex_head [of hs]) (use Cons.prems(2) in auto)
      with False Cons.prems gs n step groups_plain [OF False, of "g # acc" m "Some (Suc (length acc))"]
      show ?thesis by (simp del: ipv6_groups.simps)
    qed
  next
    case False
    obtain c cs where c: "join_colon (map hex_string gs) = c # cs" "c \<noteq> CHR '':''"
      by (rule join_hex_head [OF False]) (use Cons.prems(2) in auto)
    have "ipv6_groups n acc None (join_colon (map hex_string (g # gs)) @ ''::'' @ join_colon (map hex_string hs)) =
        ipv6_groups m (g # acc) None (join_colon (map hex_string gs) @ ''::'' @ join_colon (map hex_string hs))"
      using groups_step [of g acc _ c _ m None] Cons.prems False n c
      by (simp add: join_colon_Cons del: ipv6_groups.simps)
    then show ?thesis using Cons.IH [OF False, of "g # acc" m] Cons.prems n by simp
  qed
qed simp

section \<open>The longest run of zeros\<close>

lemma zero_run_take: "n \<le> zero_run gs \<Longrightarrow> take n gs = replicate n 0"
proof (induction gs arbitrary: n)
  case (Cons g gs)
  then show ?case by (cases n) (auto split: if_splits)
qed simp

lemma zero_run_le: "zero_run gs \<le> length gs"
  by (induction gs) auto

lemma best_run_zeros:
  assumes "best_run i best gs = (a, b)"
  shows "(a, b) = best \<or> (i \<le> a \<and> a + 2 \<le> b \<and> b \<le> i + length gs \<and> take (b - a) (drop (a - i) gs) = replicate (b - a) 0)"
  using assms
proof (induction i best gs rule: best_run.induct)
  case (2 i best g gs)
  let ?l = "zero_run (g # gs)"
  let ?best = "if ?l \<ge> 2 \<and> ?l > snd best - fst best then (i, i + ?l) else best"
  have r: "best_run (Suc i) ?best gs = (a, b)" using 2(2) by (simp only: best_run.simps Let_def)
  show ?case using 2(1) [OF refl r]
  proof
    assume "(a, b) = ?best"
    then show ?thesis using zero_run_le [of "g # gs"] zero_run_take [of ?l "g # gs"]
      by (auto split: if_splits)
  next
    assume h: "Suc i \<le> a \<and> a + 2 \<le> b \<and> b \<le> Suc i + length gs \<and> take (b - a) (drop (a - Suc i) gs) = replicate (b - a) 0"
    then have "drop (a - i) (g # gs) = drop (a - Suc i) gs" by (simp add: drop_Cons')
    with h show ?thesis by auto
  qed
qed simp

lemma run_restored:
  assumes "best_run 0 (0, 0) gs = (a, b)" "b \<noteq> 0"
  shows "take a gs @ replicate (length gs - (length (take a gs) + length (drop b gs))) 0 @ drop b gs = gs"
    and "a + 2 \<le> b" "b \<le> length gs"
proof -
  have h: "a + 2 \<le> b" "b \<le> length gs" "take (b - a) (drop a gs) = replicate (b - a) 0"
    using best_run_zeros [OF assms(1)] assms(2) by auto
  then have l: "length gs - (length (take a gs) + length (drop b gs)) = b - a" by simp
  have "drop b gs = drop (b - a) (drop a gs)" using h(1) by simp
  then have "replicate (b - a) 0 @ drop b gs = drop a gs" using h(3) by (metis append_take_drop_id)
  then show "take a gs @ replicate (length gs - (length (take a gs) + length (drop b gs))) 0 @ drop b gs = gs"
    unfolding l by simp
  show "a + 2 \<le> b" "b \<le> length gs" by (fact h(1), fact h(2))
qed

section \<open>Words and groups\<close>

lemma group_less: "group i w < 65536"
proof -
  have "drop_bit (112 - 16 * i) w AND 0xffff \<le> 0xffff" by (rule word_and_le1)
  then have "unat (drop_bit (112 - 16 * i) w AND 0xffff) \<le> unat (0xffff :: 128 word)" by (simp only: word_le_nat_alt)
  then show ?thesis by (simp add: group_def)
qed

lemma of_nat_group: "of_nat (group i w) = drop_bit (112 - 16 * i) w AND mask 16"
proof -
  have "(0xffff :: 128 word) = mask 16" by (simp add: mask_eq_exp_minus_1)
  then show ?thesis by (simp add: group_def)
qed

lemma groups_word_append: "groups_word (gs @ [g]) = push_bit 16 (groups_word gs) OR of_nat g"
  by (simp add: groups_word_def)

lemma bits_join: "push_bit 16 (drop_bit 16 x) OR (x AND mask 16) = (x :: 128 word)"
  by (rule bit_word_eqI) (auto simp: bit_simps)

lemma groups_word_map: "n \<le> 8 \<Longrightarrow> groups_word (map (\<lambda>i. group i w) [0..<n]) = drop_bit (128 - 16 * n) w"
proof (induction n)
  case 0
  then show ?case by (simp add: groups_word_def)
next
  case (Suc n)
  then have IH: "groups_word (map (\<lambda>i. group i w) [0..<n]) = drop_bit (128 - 16 * n) w" and n: "n < 8" by auto
  have "128 - 16 * n = 16 + (112 - 16 * n)" using n by simp
  then have e: "drop_bit (128 - 16 * n) w = drop_bit 16 (drop_bit (112 - 16 * n) w)" by (simp only: drop_bit_drop_bit)
  have "128 - 16 * Suc n = 112 - 16 * n" by simp
  then show ?case by (simp only: upt_Suc_append map_append list.map groups_word_append IH e of_nat_group bits_join zero_le)
qed

lemma groups_word_groups: "groups_word (map (\<lambda>i. group i w) [0..<8]) = w"
  using groups_word_map [of 8 w] by simp

section \<open>The whole text\<close>

lemma join_hex_chars:
  "\<forall>g\<in>set gs. g < 65536 \<Longrightarrow> c \<in> set (join_colon (map hex_string gs)) \<Longrightarrow> c \<noteq> CHR ''%'' \<and> c \<noteq> CHR ''.''"
proof (induction gs)
  case (Cons g gs)
  have g: "c \<in> set (hex_string g) \<Longrightarrow> c \<noteq> CHR ''%'' \<and> c \<noteq> CHR ''.''"
    using hex_string_chars [of g c] Cons.prems(1) by auto
  show ?case
  proof (cases "gs = []")
    case True
    with Cons.prems g show ?thesis by simp
  next
    case False
    with Cons.prems Cons.IH g show ?thesis by (auto simp: join_colon_Cons)
  qed
qed simp

lemma cut_at_prefix: "c \<notin> set a \<Longrightarrow> cut_at c (a @ b) = (case cut_at c b of (x, y, ok) \<Rightarrow> (a @ x, y, ok))"
  by (induction a) (auto split: prod.splits)

lemma cut_zone: "c \<notin> set a \<Longrightarrow> cut_at c (a @ (if z = [] then [] else c # z)) = (a, z, z \<noteq> [])"
  by (simp add: cut_at_prefix)

lemma parse_groups:
  assumes "ipv6_groups 8 [] None s = Some (rev gs, None, [])" "length gs = 8" "\<not> has_prefix s ''::''"
    and "CHR ''%'' \<notin> set s"
  shows "parse_ipv6 (s @ (if z = [] then [] else CHR ''%'' # z)) = Some (IP6 (groups_word gs) z)"
  using assms unfolding parse_ipv6_def cut_zone [OF assms(4)]
  by (simp add: expand_groups_def del: ipv6_groups.simps has_prefix.simps)

lemma ipv6_round:
  "parse_ipv6 (ipv6_string w @ (if z = [] then [] else CHR ''%'' # z)) = Some (IP6 w z) \<and> CHR '':'' \<in> set (ipv6_string w)
    \<and> (\<forall>c\<in>set (ipv6_string w). c \<noteq> CHR ''%'' \<and> c \<noteq> CHR ''.'')"
proof -
  define gs where "gs = map (\<lambda>i. group i w) [0..<8]"
  have g: "\<forall>g\<in>set gs. g < 65536" "length gs = 8" "groups_word gs = w" "gs \<noteq> []"
    unfolding gs_def by (auto simp: group_less groups_word_groups)
  obtain a b where ab: "best_run 0 (0, 0) gs = (a, b)" by force
  show ?thesis
  proof (cases "b = 0")
    case True
    have s: "ipv6_string w = join_colon (map hex_string gs)"
      using True ab by (simp add: ipv6_string_def gs_def Let_def del: best_run.simps)
    have np: "\<not> has_prefix (ipv6_string w) ''::''"
      unfolding s by (rule join_hex_head [OF g(4,1)]) simp
    have ch: "\<forall>c\<in>set (ipv6_string w). c \<noteq> CHR ''%'' \<and> c \<noteq> CHR ''.''" unfolding s using join_hex_chars [OF g(1)] by blast
    have "parse_ipv6 (ipv6_string w @ (if z = [] then [] else CHR ''%'' # z)) = Some (IP6 (groups_word gs) z)"
      by (rule parse_groups) (use groups_plain [OF g(4,1), of "[]" 8 None] g(2) np ch in \<open>auto simp: s simp del: ipv6_groups.simps\<close>)
    moreover have "CHR '':'' \<in> set (ipv6_string w)"
    proof -
      obtain x y ys where "gs = x # y # ys" using g(2) by (cases gs rule: remdups_adj.cases) auto
      then show ?thesis unfolding s by simp
    qed
    ultimately show ?thesis using g(3) ch by simp
  next
    case False
    note run = run_restored [OF ab False]
    let ?hs = "drop b gs" let ?fs = "take a gs"
    have s: "ipv6_string w = join_colon (map hex_string ?fs) @ ''::'' @ join_colon (map hex_string ?hs)"
      using False ab by (simp add: ipv6_string_def gs_def Let_def del: best_run.simps)
    have fh: "\<forall>g\<in>set (?fs @ ?hs). g < 65536" using g(1) by (auto dest: in_set_takeD in_set_dropD)
    have ch: "\<forall>c\<in>set (ipv6_string w). c \<noteq> CHR ''%'' \<and> c \<noteq> CHR ''.''"
      unfolding s using join_hex_chars [of ?fs] join_hex_chars [of ?hs] fh by auto
    have len: "length ?fs + length ?hs \<le> 6" using run(2,3) g(2) by simp
    have ex: "expand_groups (?fs @ ?hs) (Some (length ?fs)) = Some gs"
      using len run(1) g(2) by (simp add: expand_groups_def)
    have colon: "CHR '':'' \<in> set (ipv6_string w)" by (simp add: s)
    have cut: "cut_at (CHR ''%'') (ipv6_string w @ (if z = [] then [] else CHR ''%'' # z)) = (ipv6_string w, z, z \<noteq> [])"
      by (rule cut_zone) (use ch in blast)
    have "parse_ipv6 (ipv6_string w @ (if z = [] then [] else CHR ''%'' # z)) = Some (IP6 w z)"
    proof (cases "a = 0")
      case True
      have s0: "ipv6_string w = CHR '':'' # CHR '':'' # join_colon (map hex_string ?hs)" using s True by simp
      show ?thesis
      proof (cases "?hs = []")
        case hs: True
        then have "gs = replicate 8 0" using run(1) True g(2) by simp
        then have "w = 0" using g(3) by (simp add: groups_word_def numeral_eq_Suc)
        have "ipv6_string w = ''::''" using s0 hs by simp
        with cut have "cut_at (CHR ''%'') (ipv6_string w @ (if z = [] then [] else CHR ''%'' # z)) = (''::'', z, z \<noteq> [])"
          by (simp only:)
        then show ?thesis unfolding parse_ipv6_def using \<open>w = 0\<close> by simp
      next
        case hs: False
        obtain c cs where "join_colon (map hex_string ?hs) = c # cs"
          by (rule join_hex_head [OF hs]) (use fh in auto)
        moreover have "ipv6_groups 8 [] (Some 0) (join_colon (map hex_string ?hs)) = Some (rev ?hs, Some 0, [])"
          using groups_plain [OF hs, of "[]" 8 "Some 0"] fh len by simp
        ultimately show ?thesis using ex True g(3) unfolding parse_ipv6_def cut by (simp add: s0 del: ipv6_groups.simps)
      qed
    next
      case False
      then have fs: "?fs \<noteq> []" using g(4) by simp
      obtain c cs where c: "join_colon (map hex_string ?fs) = c # cs" "c \<noteq> CHR '':''"
        by (rule join_hex_head [OF fs]) (use fh in auto)
      have np: "has_prefix (ipv6_string w) ''::'' = False" using c by (simp add: s)
      have "ipv6_groups 8 [] None (ipv6_string w) = Some (rev ?hs @ rev ?fs, Some (length ?fs), [])"
        using groups_ellipsis [OF fs fh, of "[]" 8] len unfolding s by simp
      then show ?thesis using ex g(3) np unfolding parse_ipv6_def cut by (simp del: ipv6_groups.simps has_prefix.simps)
    qed
    with colon ch show ?thesis by blast
  qed
qed

section \<open>IPv4-mapped addresses\<close>

lemma hex_val_digit: "is_digit c \<Longrightarrow> hex_val c = Some (digit_val c)"
  by (simp add: hex_val_def)

lemma hex_group_digits:
  "\<forall>c\<in>set cs. is_digit c \<Longrightarrow> off + length cs \<le> 4 \<Longrightarrow> 0 < off + length cs \<Longrightarrow>
   \<exists>v. hex_group off acc (cs @ CHR ''.'' # rest) = Some (off + length cs, v, CHR ''.'' # rest)"
proof (induction cs arbitrary: off acc)
  case (Cons c cs)
  from Cons.IH [of "Suc off" "acc * 16 + digit_val c"] Cons.prems show ?case by (simp add: hex_val_digit)
qed simp

lemma itoa_octet_length: "v \<le> 255 \<Longrightarrow> length (itoa_nat v) \<le> 3"
  using itoa_small [of v] by (cases "v < 10"; cases "v < 100") simp_all

lemma mapped_fields:
  "ipv4_fields 0 0 [] (ipv4_string v) = Some [octet 0 v, octet 1 v, octet 2 v, octet 3 v]"
  using ipv4_field_itoa [OF octet_le [of 3 v], of "[octet 2 v, octet 1 v, octet 0 v]" "[]"]
  by (simp add: ipv4_string_def ipv4_field_itoa octet_le ipv4_fields_dot del: ipv4_fields.simps(2))

lemma mapped_groups:
  "ipv6_groups 8 [] (Some 0) (''ffff:'' @ ipv4_string v) =
     Some ([octet 2 v * 256 + octet 3 v, octet 0 v * 256 + octet 1 v, 65535], Some 0, [])"
proof -
  obtain x rest where r: "hex_group 0 0 (ipv4_string v) = Some (length (itoa_nat (octet 0 v)), x, CHR ''.'' # rest)"
  proof -
    let ?r = "itoa_nat (octet 1 v) @ ''.'' @ itoa_nat (octet 2 v) @ ''.'' @ itoa_nat (octet 3 v)"
    have "\<exists>x. hex_group 0 0 (itoa_nat (octet 0 v) @ CHR ''.'' # ?r) = Some (0 + length (itoa_nat (octet 0 v)), x, CHR ''.'' # ?r)"
      by (rule hex_group_digits) (use itoa_nat_digits itoa_octet_length [OF octet_le [of 0 v]] in auto)
    then show thesis using that by (auto simp: ipv4_string_def)
  qed
  obtain c cs where d: "ipv4_string v = c # cs" "c \<noteq> CHR '':''"
  proof -
    obtain c cs where i: "itoa_nat (octet 0 v) = c # cs" by (metis itoa_nat_not_Nil neq_Nil_conv)
    then have "is_digit c" using itoa_nat_digits [of c "octet 0 v"] by simp
    with i show thesis by (intro that [of c]) (auto simp: ipv4_string_def is_digit_def code_of_def)
  qed
  have f: "hex_group 0 0 (''ffff:'' @ ipv4_string v) = Some (4, 65535, CHR '':'' # ipv4_string v)"
    by (simp add: hex_val_def is_digit_def code_of_def digit_val_def)
  have eight: "8 = Suc (Suc 6)" by simp
  have "ipv6_groups (Suc (Suc 6)) [] (Some 0) (''ffff:'' @ ipv4_string v) = ipv6_groups (Suc 6) [65535] (Some 0) (ipv4_string v)"
    using f d(2) unfolding d(1) by (subst ipv6_groups.simps) (simp del: hex_group.simps ipv6_groups.simps)
  also have "\<dots> = Some ([octet 2 v * 256 + octet 3 v, octet 0 v * 256 + octet 1 v, 65535], Some 0, [])"
    by (subst ipv6_groups.simps) (simp add: r mapped_fields del: ipv6_groups.simps)
  finally show ?thesis by (simp only: eight)
qed

lemma unat_and_mask: "unat (drop_bit k x AND mask n) = unat x div 2 ^ k mod 2 ^ n"
  by (simp only: take_bit_eq_mask [symmetric] unsigned_take_bit_eq unat_drop_bit_eq)
    (simp only: drop_bit_eq_div take_bit_eq_mod)

lemma octet_div: "octet i v = unat v div 2 ^ (24 - 8 * i) mod 2 ^ 8"
proof -
  have "(255 :: u32) = mask 8" by (simp add: mask_eq_exp_minus_1)
  then show ?thesis unfolding octet_def by (simp only: unat_and_mask)
qed

lemma group_div: "group i w = unat w div 2 ^ (112 - 16 * i) mod 2 ^ 16"
proof -
  have "(0xffff :: 128 word) = mask 16" by (simp add: mask_eq_exp_minus_1)
  then show ?thesis unfolding group_def by (simp only: unat_and_mask)
qed

lemma split_byte: "x div 2 ^ 8 mod 2 ^ 8 * 256 + x mod 2 ^ 8 = x mod (2 ^ 16 :: nat)"
  using mod_mult2_eq [of x 256 256] by simp

lemma mapped_word:
  assumes "drop_bit 32 w = (0xffff :: 128 word)"
  shows "groups_word (replicate 5 0 @ [65535, octet 0 (ucast w) * 256 + octet 1 (ucast w), octet 2 (ucast w) * 256 + octet 3 (ucast w)]) = w"
proof -
  let ?v = "ucast w :: u32"
  have v: "unat ?v = unat w mod 2 ^ 32" by (simp add: unsigned_ucast_eq take_bit_eq_mod)
  have "drop_bit 32 (unat w) = unat (0xffff :: 128 word)"
    using arg_cong [OF assms, of unat] by (simp only: unat_drop_bit_eq)
  then have hi: "unat w div 2 ^ 32 = 65535" unfolding drop_bit_eq_div by simp
  then have "unat w div 2 ^ 32 < 2 ^ 16" by simp
  then have small: "unat w < 2 ^ 48" by (simp add: div_less_iff_less_mult)
  have z: "group i w = 0" if "i < 5" for i
  proof -
    have "(2 :: nat) ^ 48 \<le> 2 ^ (112 - 16 * i)" using that by (intro power_increasing) simp_all
    then show ?thesis unfolding group_div using small by (simp add: less_le_trans)
  qed
  have g5: "group 5 w = 65535" unfolding group_div using hi by simp
  have "unat w mod (2 ^ 16 * 2 ^ 16) = 2 ^ 16 * (unat w div 2 ^ 16 mod 2 ^ 16) + unat w mod 2 ^ 16" by (rule mod_mult2_eq)
  then have m: "unat w mod 2 ^ 32 div 2 ^ 16 = unat w div 2 ^ 16 mod 2 ^ 16" "unat w mod 2 ^ 32 mod 2 ^ 16 = unat w mod 2 ^ 16"
    by (simp_all flip: power_add)
  have d: "x div 2 ^ 24 = x div 2 ^ 16 div 2 ^ 8" for x :: nat by (simp add: div_mult2_eq [symmetric])
  have g6: "group 6 w = octet 0 ?v * 256 + octet 1 ?v"
  proof -
    have "octet 0 ?v * 256 + octet 1 ?v = unat w div 2 ^ 16 mod 2 ^ 16 div 2 ^ 8 mod 2 ^ 8 * 256 + unat w div 2 ^ 16 mod 2 ^ 16 mod 2 ^ 8"
      unfolding octet_div v by (simp add: d m del: power_numeral)
    then show ?thesis using split_byte [of "unat w div 2 ^ 16 mod 2 ^ 16"] by (simp add: group_div)
  qed
  have g7: "group 7 w = octet 2 ?v * 256 + octet 3 ?v"
  proof -
    have "octet 2 ?v * 256 + octet 3 ?v = unat w mod 2 ^ 32 div 2 ^ 8 mod 2 ^ 8 * 256 + unat w mod 2 ^ 32 mod 2 ^ 8"
      unfolding octet_div v by simp
    then show ?thesis using split_byte [of "unat w mod 2 ^ 32"] m(2) by (simp add: group_div)
  qed
  have upt: "[0..<8] = [0, 1, 2, 3, 4, 5, 6, 7 :: nat]" by (simp add: upt_rec)
  have zs: "group 0 w = 0" "group 1 w = 0" "group 2 w = 0" "group 3 w = 0" "group 4 w = 0" by (rule z, simp)+
  have "replicate 5 0 = [0, 0, 0, 0, 0 :: nat]" by (simp add: numeral_eq_Suc)
  then have "replicate 5 0 @ [65535, octet 0 ?v * 256 + octet 1 ?v, octet 2 ?v * 256 + octet 3 ?v] = map (\<lambda>i. group i w) [0..<8]"
    by (simp only: upt list.map zs g5 g6 g7 append.simps)
  then show ?thesis by (simp only: groups_word_groups)
qed

lemma parse_mapped:
  assumes "drop_bit 32 w = (0xffff :: 128 word)"
  shows "parse_ipv6 ((''::ffff:'' @ ipv4_string (ucast w)) @ (if z = [] then [] else CHR ''%'' # z)) = Some (IP6 w z)"
proof -
  let ?v = "ucast w :: u32"
  have "c \<noteq> CHR ''%''" if "c \<in> set (itoa_nat n)" for c n
    using itoa_nat_digits [OF that] by (auto simp: is_digit_def code_of_def)
  then have "CHR ''%'' \<notin> set (''::ffff:'' @ ipv4_string ?v)" by (auto simp: ipv4_string_def)
  note cut = cut_zone [OF this]
  have "expand_groups (rev [octet 2 ?v * 256 + octet 3 ?v, octet 0 ?v * 256 + octet 1 ?v, 65535]) (Some 0) =
      Some (replicate 5 0 @ [65535, octet 0 ?v * 256 + octet 1 ?v, octet 2 ?v * 256 + octet 3 ?v])"
    by (simp add: expand_groups_def)
  then show ?thesis
    unfolding parse_ipv6_def cut using mapped_groups [of ?v] mapped_word [OF assms]
    by (simp del: ipv6_groups.simps)
qed

section \<open>Round trip\<close>

lemma first_of_colon:
  assumes "CHR '':'' \<in> set s" "\<forall>c\<in>set s. c \<noteq> CHR ''%'' \<and> c \<noteq> CHR ''.''"
  shows "first_of [CHR ''.'', CHR '':'', CHR ''%''] (s @ r) = Some (CHR '':'')"
  using assms by (induction s) auto

lemma parse_addr_string: "a \<noteq> NoAddr \<Longrightarrow> parse_addr (addr_string a) = Some a"
proof (cases a)
  case (IP6 w z)
  show ?thesis
  proof (cases "drop_bit 32 w = 0xffff")
    case True
    with parse_mapped [OF True, of z] IP6 show ?thesis by (simp add: parse_addr_def)
  next
    case False
    have "first_of [CHR ''.'', CHR '':'', CHR ''%''] (addr_string a) = Some (CHR '':'')"
      using ipv6_round [of w "[]"] first_of_colon [of "ipv6_string w"] False IP6 by auto
    with ipv6_round [of w z] IP6 False show ?thesis by (simp add: parse_addr_def)
  qed
qed simp_all

end
