(* ===== verification/Exchange.thy ===== *)
theory Exchange
  imports Frame_Codec
begin

text \<open>
  One tunnelled HTTP request on the server (\<open>server/tunnel/exchange.go\<close>, type \<open>Exchange\<close>): the
  response head in a one-element channel, the response body as a channel of frames bounded in bytes
  by the flow-control window, and the reader. The channel \<open>done\<close> is the flag \<open>ex_done\<close>; the three
  \<open>sync.Once\<close> fields are flags. A \<open>select\<close> with two ready cases takes either: the argument
  \<open>pick_done\<close> of \<open>write_body\<close> is that choice.
\<close>

definition InitialWindowBytes :: int where "InitialWindowBytes = 2 * 1048576"
definition exchangeBufferMinFrame :: int where "exchangeBufferMinFrame = 1024"

datatype body_error = ErrClientGone | ErrReaderGone | ErrFlowControlViolation | ErrRemote string

record response_head =
  rh_status :: int
  rh_headers :: "(string \<times> string list) list"
  rh_has_body :: bool
  rh_err_code :: string
  rh_err_msg :: string

record exchange =
  ex_id :: u64
  ex_head :: "response_head chan"
  ex_chunks :: "bytes chan"
  ex_done :: bool
  ex_head_once :: bool
  ex_close_once :: bool
  ex_close_err :: "body_error option"
  ex_cur :: bytes
  ex_queued :: int

definition cap_frames :: nat where
  "cap_frames = (let c = nat (InitialWindowBytes div exchangeBufferMinFrame) in if c < 32 then 32 else c)"

definition new_exchange :: "u64 \<Rightarrow> exchange" where
  "new_exchange rid =
     \<lparr>ex_id = rid, ex_head = make_chan 1, ex_chunks = make_chan cap_frames, ex_done = False,
      ex_head_once = False, ex_close_once = False, ex_close_err = None, ex_cur = [], ex_queued = 0\<rparr>"

text \<open>\<open>Read\<close>. The loop receives until it holds a non-empty frame; \<open>next_chunk\<close> is \<open>None\<close> when the
  queued frames run out. Then a closed channel gives the close error or EOF, and an open one blocks.\<close>

fun next_chunk :: "bytes \<Rightarrow> bytes list \<Rightarrow> (bytes \<times> bytes list) option" where
  "next_chunk (b # bs) rest = Some (b # bs, rest)"
| "next_chunk [] [] = None"
| "next_chunk [] (c # rest) = next_chunk c rest"

datatype read_result = ReadBlocks | ReadEOF | ReadError body_error | ReadData bytes

definition exchange_read :: "nat \<Rightarrow> exchange \<Rightarrow> read_result \<times> exchange" where
  "exchange_read n e =
     (case next_chunk (ex_cur e) (ch_buf (ex_chunks e)) of
        None \<Rightarrow>
          (if \<not> ch_closed (ex_chunks e) then ReadBlocks
           else case ex_close_err e of Some x \<Rightarrow> ReadError x | None \<Rightarrow> ReadEOF,
           e\<lparr>ex_cur := [], ex_chunks := (ex_chunks e)\<lparr>ch_buf := []\<rparr>\<rparr>)
      | Some (cur, rest) \<Rightarrow>
          let k = min n (length cur) in
          (ReadData (take k cur),
           e\<lparr>ex_cur := drop k cur, ex_chunks := (ex_chunks e)\<lparr>ch_buf := rest\<rparr>,
             ex_queued := ex_queued e - int k\<rparr>))"

definition deliver_head :: "response_head \<Rightarrow> exchange \<Rightarrow> exchange" where
  "deliver_head h e =
     (if ex_head_once e then e
      else e\<lparr>ex_head_once := True, ex_head := chan_push h (ex_head e)\<rparr>)"

datatype write_result = WriteOk | WriteErr body_error | WritePanic

definition write_body :: "bool \<Rightarrow> bytes \<Rightarrow> exchange \<Rightarrow> write_result \<times> exchange" where
  "write_body pick_done p e =
     (if length p = 0 then (WriteOk, e)
      else if ex_queued e + int (length p) > InitialWindowBytes then (WriteErr ErrFlowControlViolation, e)
      else if ch_closed (ex_chunks e) then
        (if ex_done e \<and> pick_done then (WriteErr ErrReaderGone, e) else (WritePanic, e))
      else if \<not> chan_full (ex_chunks e) \<and> \<not> (ex_done e \<and> pick_done) then
        (WriteOk, e\<lparr>ex_chunks := chan_push p (ex_chunks e), ex_queued := ex_queued e + int (length p)\<rparr>)
      else if ex_done e then (WriteErr ErrReaderGone, e)
      else (WriteErr ErrFlowControlViolation, e))"

definition close_body :: "body_error option \<Rightarrow> exchange \<Rightarrow> exchange" where
  "close_body err e =
     (if ex_close_once e then e
      else e\<lparr>ex_close_once := True, ex_close_err := err, ex_chunks := chan_close (ex_chunks e)\<rparr>)"

definition abandon :: "exchange \<Rightarrow> exchange" where
  "abandon e = e\<lparr>ex_done := True\<rparr>"

definition error_head :: "string \<Rightarrow> string \<Rightarrow> response_head" where
  "error_head code msg = \<lparr>rh_status = 0, rh_headers = [], rh_has_body = False, rh_err_code = code, rh_err_msg = msg\<rparr>"

definition fail_exchange :: "string \<Rightarrow> string \<Rightarrow> body_error \<Rightarrow> exchange \<Rightarrow> exchange" where
  "fail_exchange code msg err e = close_body (Some err) (deliver_head (error_head code msg) e)"

section \<open>The invariant\<close>

text \<open>The bytes still to be read, in order.\<close>

definition unread :: "exchange \<Rightarrow> bytes" where
  "unread e = ex_cur e @ concat (ch_buf (ex_chunks e))"

definition exchange_ok :: "exchange \<Rightarrow> bool" where
  "exchange_ok e \<longleftrightarrow> ex_queued e = int (length (unread e)) \<and> ex_queued e \<le> InitialWindowBytes \<and>
     chan_ok (ex_chunks e) \<and> ch_cap (ex_chunks e) = cap_frames \<and> ch_closed (ex_chunks e) = ex_close_once e \<and>
     length (ch_buf (ex_head e)) \<le> (if ex_head_once e then 1 else 0) \<and> ch_cap (ex_head e) = 1"

lemma cap_frames_eq: "cap_frames = 2048"
  by (simp add: cap_frames_def InitialWindowBytes_def exchangeBufferMinFrame_def)

lemma next_chunk_None: "next_chunk c bs = None \<longleftrightarrow> c @ concat bs = []"
  by (induction c bs rule: next_chunk.induct) auto

lemma next_chunk_Some:
  "next_chunk c bs = Some (c', bs') \<Longrightarrow> c' \<noteq> [] \<and> c @ concat bs = c' @ concat bs' \<and> length bs' \<le> length bs"
  by (induction c bs rule: next_chunk.induct) auto

lemma new_exchange_ok [simp]: "exchange_ok (new_exchange rid)"
  by (simp add: exchange_ok_def new_exchange_def unread_def make_chan_def chan_ok_def InitialWindowBytes_def)

lemma unread_new [simp]: "unread (new_exchange rid) = []"
  by (simp add: unread_def new_exchange_def make_chan_def)

lemma exchange_read_cases:
  obtains (Empty) r where "unread e = []" "exchange_read n e = (r, e\<lparr>ex_cur := [], ex_chunks := (ex_chunks e)\<lparr>ch_buf := []\<rparr>\<rparr>)"
      "r = (if \<not> ch_closed (ex_chunks e) then ReadBlocks
            else case ex_close_err e of Some x \<Rightarrow> ReadError x | None \<Rightarrow> ReadEOF)"
  | (Data) d e' where "exchange_read n e = (ReadData d, e')" "unread e = d @ unread e'"
      "length d \<le> n" "n > 0 \<Longrightarrow> d \<noteq> []" "ex_queued e' = ex_queued e - int (length d)"
      "length (ch_buf (ex_chunks e')) \<le> length (ch_buf (ex_chunks e))"
      "ch_cap (ex_chunks e') = ch_cap (ex_chunks e)" "ch_closed (ex_chunks e') = ch_closed (ex_chunks e)"
      "ex_close_once e' = ex_close_once e" "ex_close_err e' = ex_close_err e"
      "ex_head e' = ex_head e" "ex_head_once e' = ex_head_once e" "ex_done e' = ex_done e" "ex_id e' = ex_id e"
proof (cases "next_chunk (ex_cur e) (ch_buf (ex_chunks e))")
  case None
  then have "unread e = []" by (simp add: next_chunk_None unread_def)
  moreover have "exchange_read n e =
      (if \<not> ch_closed (ex_chunks e) then ReadBlocks
       else case ex_close_err e of Some x \<Rightarrow> ReadError x | None \<Rightarrow> ReadEOF,
       e\<lparr>ex_cur := [], ex_chunks := (ex_chunks e)\<lparr>ch_buf := []\<rparr>\<rparr>)"
    using None by (simp add: exchange_read_def)
  ultimately show thesis by (rule Empty) simp
next
  case (Some p)
  then obtain c rest where p: "next_chunk (ex_cur e) (ch_buf (ex_chunks e)) = Some (c, rest)" by (cases p) auto
  note q = next_chunk_Some [OF p]
  let ?k = "min n (length c)"
  let ?e = "e\<lparr>ex_cur := drop ?k c, ex_chunks := (ex_chunks e)\<lparr>ch_buf := rest\<rparr>, ex_queued := ex_queued e - int ?k\<rparr>"
  have "exchange_read n e = (ReadData (take ?k c), ?e)"
    using p by (simp add: exchange_read_def Let_def)
  moreover have "unread e = take ?k c @ unread ?e"
    using q by (simp add: unread_def)
  ultimately show thesis
    by (rule Data [of "take ?k c" ?e]) (use q in simp_all)
qed

lemma exchange_read_ok:
  assumes "exchange_ok e" "exchange_read n e = (r, e')"
  shows "exchange_ok e'"
proof (rule exchange_read_cases [of e n])
  fix r'
  assume "unread e = []" "exchange_read n e = (r', e\<lparr>ex_cur := [], ex_chunks := (ex_chunks e)\<lparr>ch_buf := []\<rparr>\<rparr>)"
  with assms show ?thesis by (auto simp: exchange_ok_def chan_ok_def unread_def)
next
  fix d e''
  assume "exchange_read n e = (ReadData d, e'')" and u: "unread e = d @ unread e''"
    and q: "ex_queued e'' = ex_queued e - int (length d)"
    "length (ch_buf (ex_chunks e'')) \<le> length (ch_buf (ex_chunks e))"
    "ch_cap (ex_chunks e'') = ch_cap (ex_chunks e)" "ch_closed (ex_chunks e'') = ch_closed (ex_chunks e)"
    "ex_close_once e'' = ex_close_once e" "ex_head e'' = ex_head e" "ex_head_once e'' = ex_head_once e"
  with assms have "e'' = e'" by simp
  with assms(1) q arg_cong [OF u, of length] show ?thesis
    by (simp add: exchange_ok_def chan_ok_def)
qed

lemma deliver_head_ok: "exchange_ok e \<Longrightarrow> exchange_ok (deliver_head h e)"
  by (auto simp: exchange_ok_def deliver_head_def chan_push_def unread_def)

lemma write_body_ok: "exchange_ok e \<Longrightarrow> write_body b p e = (r, e') \<Longrightarrow> exchange_ok e'"
  by (auto simp: exchange_ok_def write_body_def chan_push_def chan_full_def chan_ok_def unread_def
      split: if_splits)

lemma close_body_ok: "exchange_ok e \<Longrightarrow> exchange_ok (close_body err e)"
  by (auto simp: exchange_ok_def close_body_def chan_close_def chan_ok_def unread_def)

lemma abandon_ok: "exchange_ok e \<Longrightarrow> exchange_ok (abandon e)"
  by (simp add: exchange_ok_def abandon_def unread_def)

lemma fail_exchange_ok: "exchange_ok e \<Longrightarrow> exchange_ok (fail_exchange c m err e)"
  by (simp add: fail_exchange_def close_body_ok deliver_head_ok)

lemma unread_simps [simp]:
  "unread (deliver_head h e) = unread e" "unread (close_body err e) = unread e" "unread (abandon e) = unread e"
  by (simp_all add: unread_def deliver_head_def close_body_def abandon_def chan_close_def)

lemma unread_fail [simp]: "unread (fail_exchange c m err e) = unread e"
  by (simp add: fail_exchange_def)

section \<open>Histories\<close>

text \<open>Any interleaving of the producer (the read loop of the session) and the reader.\<close>

datatype exchange_event =
  EvHead response_head | EvTakeHead | EvWrite bool bytes | EvRead nat
| EvClose "body_error option" | EvAbandon | EvFail string string body_error

definition written :: "bool \<Rightarrow> bytes \<Rightarrow> exchange \<Rightarrow> bytes" where
  "written pick p e = (if fst (write_body pick p e) = WriteOk then p else [])"

definition read_bytes :: "nat \<Rightarrow> exchange \<Rightarrow> bytes" where
  "read_bytes n e = (case fst (exchange_read n e) of ReadData d \<Rightarrow> d | _ \<Rightarrow> [])"

fun exchange_step :: "exchange_event \<Rightarrow> exchange \<Rightarrow> exchange" where
  "exchange_step (EvHead h) e = deliver_head h e"
| "exchange_step EvTakeHead e =
     (case chan_take (ex_head e) of None \<Rightarrow> e | Some (h, c) \<Rightarrow> e\<lparr>ex_head := c\<rparr>)"
| "exchange_step (EvWrite pick p) e = snd (write_body pick p e)"
| "exchange_step (EvRead n) e = snd (exchange_read n e)"
| "exchange_step (EvClose err) e = close_body err e"
| "exchange_step EvAbandon e = abandon e"
| "exchange_step (EvFail c m err) e = fail_exchange c m err e"

fun exchange_run :: "exchange_event list \<Rightarrow> exchange \<Rightarrow> bytes \<times> bytes \<times> exchange" where
  "exchange_run [] e = ([], [], e)"
| "exchange_run (ev # evs) e =
     (case exchange_run evs (exchange_step ev e) of
        (acc, out, e') \<Rightarrow>
          ((case ev of EvWrite pick p \<Rightarrow> written pick p e @ acc | _ \<Rightarrow> acc),
           (case ev of EvRead n \<Rightarrow> read_bytes n e @ out | _ \<Rightarrow> out), e'))"

lemma exchange_step_ok: "exchange_ok e \<Longrightarrow> exchange_ok (exchange_step ev e)"
proof (cases ev)
  case (EvWrite pick p)
  assume "exchange_ok e"
  then show ?thesis using EvWrite by (cases "write_body pick p e") (auto dest: write_body_ok)
next
  case (EvRead n)
  assume "exchange_ok e"
  then show ?thesis using EvRead by (cases "exchange_read n e") (auto dest: exchange_read_ok)
next
  case EvTakeHead
  assume "exchange_ok e"
  then show ?thesis using EvTakeHead
    by (auto simp: exchange_ok_def unread_def chan_take_def split: option.splits list.splits if_splits)
qed (simp_all add: deliver_head_ok close_body_ok abandon_ok fail_exchange_ok)

lemma unread_write: "unread (snd (write_body pick p e)) = unread e @ written pick p e"
  by (simp add: written_def write_body_def unread_def chan_push_def)

lemma unread_read: "unread e = read_bytes n e @ unread (snd (exchange_read n e))"
  by (rule exchange_read_cases [of e n])
    (auto simp: read_bytes_def unread_def split: option.splits)

lemma exchange_run_stream:
  "exchange_run evs e = (acc, out, e') \<Longrightarrow> unread e @ acc = out @ unread e'"
proof (induction evs arbitrary: e acc out e')
  case Nil
  then show ?case by simp
next
  case (Cons ev evs)
  obtain acc1 out1 where r: "exchange_run evs (exchange_step ev e) = (acc1, out1, e')"
    using Cons.prems by (auto split: prod.splits)
  note ih = Cons.IH [OF r]
  show ?case
  proof (cases ev)
    case (EvRead n)
    then show ?thesis
      using Cons.prems r ih by (auto simp: unread_read [of e n] split: prod.splits)
  next
    case EvTakeHead
    then have "unread (exchange_step ev e) = unread e"
      by (simp add: unread_def split: option.splits prod.splits)
    then show ?thesis using Cons.prems r ih EvTakeHead by (auto split: prod.splits)
  next
    case (EvWrite pick p)
    then show ?thesis
      using Cons.prems r ih by (auto simp: unread_write split: prod.splits)
  qed (use Cons.prems r ih in \<open>auto split: prod.splits\<close>)
qed

lemma exchange_run_ok: "exchange_run evs e = (acc, out, e') \<Longrightarrow> exchange_ok e \<Longrightarrow> exchange_ok e'"
proof (induction evs arbitrary: e acc out e')
  case (Cons ev evs)
  obtain acc1 out1 where "exchange_run evs (exchange_step ev e) = (acc1, out1, e')"
    using Cons.prems by (auto split: prod.splits)
  then show ?case using Cons.IH exchange_step_ok [OF Cons.prems(2)] by blast
qed simp

text \<open>C10: whatever the interleaving of writes, reads, closes and failures, the bytes the reader has
  got are exactly the first bytes the exchange accepted, in order and without loss or duplication;
  what is buffered is accounted for exactly, never exceeds the window, and never more than one
  response head is queued.\<close>

theorem exchange_stream_integrity:
  "case exchange_run evs (new_exchange rid) of
     (acc, out, e) \<Rightarrow> acc = out @ unread e \<and> ex_queued e = int (length (unread e)) \<and>
       ex_queued e \<le> InitialWindowBytes \<and> length (ch_buf (ex_head e)) \<le> 1"
proof (cases "exchange_run evs (new_exchange rid)")
  case (fields acc out e)
  have "exchange_ok e" using exchange_run_ok [OF fields] by simp
  then show ?thesis
    using exchange_run_stream [OF fields] fields
    by (auto simp: exchange_ok_def split: if_splits)
qed

section \<open>A closed body can be read to its end\<close>

text \<open>The reader's loop: reads of at most \<open>n\<close> bytes until one gives no data. The first argument bounds
  the number of reads.\<close>

fun drain :: "nat \<Rightarrow> nat \<Rightarrow> exchange \<Rightarrow> bytes \<times> read_result" where
  "drain 0 n e = ([], ReadBlocks)"
| "drain (Suc f) n e =
     (case exchange_read n e of
        (ReadData d, e') \<Rightarrow> (case drain f n e' of (ds, r) \<Rightarrow> (d @ ds, r))
      | (r, e') \<Rightarrow> ([], r))"

definition end_of_body :: "body_error option \<Rightarrow> read_result" where
  "end_of_body err = (case err of None \<Rightarrow> ReadEOF | Some x \<Rightarrow> ReadError x)"

lemma drain_closed:
  "ch_closed (ex_chunks e) \<Longrightarrow> 0 < n \<Longrightarrow> length (unread e) < f \<Longrightarrow>
   drain f n e = (unread e, end_of_body (ex_close_err e))"
proof (induction f arbitrary: e)
  case 0
  then show ?case by simp
next
  case (Suc f)
  show ?case
  proof (rule exchange_read_cases [of e n])
    fix r
    assume "unread e = []" "exchange_read n e = (r, e\<lparr>ex_cur := [], ex_chunks := (ex_chunks e)\<lparr>ch_buf := []\<rparr>\<rparr>)"
      "r = (if \<not> ch_closed (ex_chunks e) then ReadBlocks
            else case ex_close_err e of Some x \<Rightarrow> ReadError x | None \<Rightarrow> ReadEOF)"
    then show ?thesis using Suc.prems by (auto simp: end_of_body_def split: option.splits)
  next
    fix d e'
    assume r: "exchange_read n e = (ReadData d, e')" and u: "unread e = d @ unread e'"
      and d: "0 < n \<Longrightarrow> d \<noteq> []" and c: "ch_closed (ex_chunks e') = ch_closed (ex_chunks e)"
      "ex_close_err e' = ex_close_err e"
    have "length (unread e') < f"
      using u d Suc.prems(2,3) by (cases d) auto
    with Suc.IH [of e'] c Suc.prems have "drain f n e' = (unread e', end_of_body (ex_close_err e))" by simp
    with r u show ?thesis by simp
  qed
qed

text \<open>After \<open>fail\<close> a reader that has not seen a head finds one, and the body ends: the request
  cannot hang.\<close>

lemma close_body_closed: "exchange_ok e \<Longrightarrow> ch_closed (ex_chunks (close_body err e))"
  by (auto simp: exchange_ok_def close_body_def chan_close_def)

lemma close_body_err:
  "ex_close_err (close_body err e) = (if ex_close_once e then ex_close_err e else err)"
  by (simp add: close_body_def)

lemma deliver_head_fields [simp]:
  "ex_close_once (deliver_head h e) = ex_close_once e" "ex_close_err (deliver_head h e) = ex_close_err e"
  "ex_done (deliver_head h e) = ex_done e" "ex_id (deliver_head h e) = ex_id e"
  "ex_chunks (deliver_head h e) = ex_chunks e"
  by (simp_all add: deliver_head_def)

lemma close_body_fields [simp]:
  "ex_head (close_body err e) = ex_head e" "ex_head_once (close_body err e) = ex_head_once e"
  "ex_id (close_body err e) = ex_id e" "ex_done (close_body err e) = ex_done e"
  by (simp_all add: close_body_def)

lemma fail_head: "\<not> ex_head_once e \<Longrightarrow> exchange_ok e \<Longrightarrow>
   ch_buf (ex_head (fail_exchange c m err e)) = [error_head c m]"
  by (simp add: fail_exchange_def deliver_head_def chan_push_def exchange_ok_def)

lemma fail_drain:
  assumes "exchange_ok e" "0 < n"
  shows "drain (Suc (length (unread e))) n (fail_exchange c m err e) =
    (unread e, end_of_body (if ex_close_once e then ex_close_err e else Some err))"
  using drain_closed [of "fail_exchange c m err e" n "Suc (length (unread e))"] assms
  by (simp add: fail_exchange_def close_body_closed deliver_head_ok close_body_err)

section \<open>Outcomes of a write\<close>

lemma write_panic_iff:
  "fst (write_body pick p e) = WritePanic \<longleftrightarrow>
   p \<noteq> [] \<and> ex_queued e + int (length p) \<le> InitialWindowBytes \<and> ch_closed (ex_chunks e) \<and> \<not> (ex_done e \<and> pick)"
  by (auto simp: write_body_def)

lemma write_refused_unchanged: "fst (write_body pick p e) \<noteq> WriteOk \<Longrightarrow> snd (write_body pick p e) = e"
  by (auto simp: write_body_def split: if_splits)

lemma write_ok_if_room:
  "p \<noteq> [] \<Longrightarrow> ex_queued e + int (length p) \<le> InitialWindowBytes \<Longrightarrow> \<not> ch_closed (ex_chunks e) \<Longrightarrow>
   \<not> chan_full (ex_chunks e) \<Longrightarrow> \<not> ex_done e \<Longrightarrow>
   write_body pick p e = (WriteOk, e\<lparr>ex_chunks := chan_push p (ex_chunks e), ex_queued := ex_queued e + int (length p)\<rparr>)"
  by (simp add: write_body_def)

end
