(* ===== verification/Session_State.thy ===== *)
theory Session_State
  imports Exchange
begin

text \<open>
  The state of one agent connection (\<open>server/tunnel/session.go\<close>, type \<open>Session\<close>): the tables of
  live exchanges, WebSocket and raw stream bridges, terminal and screen subscribers, the negotiated
  features, the heartbeat counters, and the log of what was written to the connection. Control
  messages are values (their JSON text is not modelled); a write on the connection succeeds or fails
  as the environment decides, which is the argument \<open>ok\<close> of \<open>s_send\<close>. What other packages
  consume (file transfer, network, probes) is recorded in \<open>s_handed\<close> when the session passes it on.
\<close>

type_synonym headers = "(string \<times> string list) list"
type_synonym metrics = bytes

record http_request =
  hq_tunnel :: string
  hq_method :: string
  hq_path :: string
  hq_query :: string
  hq_headers :: headers
  hq_has_body :: bool
  hq_length :: int
  hq_remote :: string

record ws_accept =
  wa_req :: u64
  wa_status :: int
  wa_headers :: headers
  wa_code :: string
  wa_message :: string

record stream_ack =
  sa_req :: u64
  sa_code :: string
  sa_message :: string

record layer_spec =
  ls_id :: int
  ls_max_width :: int
  ls_quality :: int

record screen_open =
  so_session :: string
  so_fps :: int
  so_quality :: int
  so_max_width :: int
  so_display :: int
  so_mode :: string
  so_stream :: u64
  so_layers :: "layer_spec list"

record screen_frame =
  sf_session :: string
  sf_codec :: string
  sf_seq :: u64
  sf_data :: bytes

datatype out_msg =
  OHttpRequest u64 http_request
| OCancel u64 string
| OWindowUpdate u64 int
| OPing time
| OWSOpen u64 string string string headers
| OWSClose u64 string
| OStreamOpen u64 string string string string
| OStreamClose u64 string
| OTermOpen string u16 u16 string
| OTermInput string bytes
| OTermResize string u16 u16
| OTermClose string
| OScreenOpen screen_open
| OScreenInput string bytes
| OScreenClose string
| OKeyframe string
| OSettings string int int int int
| OLayers string "layer_spec list" bool
| OFeedback string int "int list"
| OVideo string string
| OClipboard string string
| OClipboardWatch string bool
| OUpdateAvailable string
| OFrame body_frame

datatype aux_msg = AuxCursor bytes | AuxShape bytes | AuxClipboard string | AuxStats bytes

text \<open>Control messages from the agent, decoded. \<open>InUndecodable\<close> is text that is no message or whose
  body does not decode; the boolean of the screen messages is the result of their own check
  (\<open>Valid\<close>, \<open>ClipboardTextOK\<close>, a decodable body), which the session tests.\<close>

datatype in_msg =
  InUndecodable
| InPong "metrics option"
| InProbeEcho bytes
| InProbeStats bytes
| InIgnored
| InNet bytes
| InBye string
| InWSAccept ws_accept
| InWSClose u64
| InStreamAck stream_ack
| InStreamClose u64
| InHTTPResponse u64 int headers bool
| InHTTPError u64 string string
| InTermOutput string bytes
| InTermExit string int string
| InScreenFrame screen_frame
| InScreenError string string
| InScreenInput string string int string
| InScreenAux string aux_msg bool
| InFile bytes
| InUnknown string

datatype handed = ToFiles bytes | ToFileData body_frame | ToNet bytes | ToNetRelay u64 bytes
  | ToProbe bytes | ToProbeStats bytes | ToDropped string int

record ws_bridge =
  wb_accept :: "ws_accept chan"
  wb_local :: "bytes chan"
  wb_closed :: bool

record raw_bridge =
  rb_tunnel :: string
  rb_proto :: string
  rb_accept :: "stream_ack chan"
  rb_local :: "bytes chan"
  rb_closed :: bool

record screen2_sub =
  s2_session :: string
  s2_ch :: "bytes chan"
  s2_resync :: bool
  s2_last_req :: "time option"

record features =
  ft_flow :: bool
  ft_input_status :: bool
  ft_screen2 :: bool
  ft_layers :: bool
  ft_cursor :: bool
  ft_clipboard :: bool
  ft_stats :: bool
  ft_feedback :: bool
  ft_video :: bool

record session =
  s_id :: string
  s_client :: string
  s_features :: features
  s_next :: u64
  s_pending :: "(u64, exchange) gomap"
  s_credit :: "(u64, int) gomap"
  s_ws :: "(u64, ws_bridge) gomap"
  s_raw :: "(u64, raw_bridge) gomap"
  s_term_subs :: "(string, bytes chan) gomap"
  s_term_exit :: "(string, (int \<times> string) chan) gomap"
  s_scr_subs :: "(string, screen_frame chan) gomap"
  s_scr_err :: "(string, string chan) gomap"
  s_scr_inp :: "(string, (string \<times> int \<times> string) chan) gomap"
  s_scr_aux :: "(string, aux_msg chan) gomap"
  s_scr2 :: "(u64, screen2_sub) gomap"
  s_scr2_ids :: "(string, u64) gomap"
  s_metrics :: "metrics option"
  s_last_seen :: time
  s_missed_pongs :: int
  s_bad_frames :: int
  s_sent :: "out_msg list"
  s_handed :: "handed list"
  s_conn_open :: bool

definition new_session :: "string \<Rightarrow> string \<Rightarrow> features \<Rightarrow> time \<Rightarrow> session" where
  "new_session sid cid fts now =
     \<lparr>s_id = sid, s_client = cid, s_features = fts, s_next = 0, s_pending = [], s_credit = [],
      s_ws = [], s_raw = [], s_term_subs = [], s_term_exit = [], s_scr_subs = [], s_scr_err = [],
      s_scr_inp = [], s_scr_aux = [], s_scr2 = [], s_scr2_ids = [], s_metrics = None,
      s_last_seen = now, s_missed_pongs = 0, s_bad_frames = 0, s_sent = [], s_handed = [],
      s_conn_open = True\<rparr>"

text \<open>\<open>Send\<close> and \<open>SendBinary\<close>: one message on the connection, or an error.\<close>

definition s_send :: "bool \<Rightarrow> out_msg \<Rightarrow> session \<Rightarrow> bool \<times> session" where
  "s_send ok m s = (if ok then (True, s\<lparr>s_sent := s_sent s @ [m]\<rparr>) else (False, s))"

definition send_binary :: "bool \<Rightarrow> body_frame \<Rightarrow> session \<Rightarrow> bool \<times> session" where
  "send_binary ok f s = s_send ok (OFrame f) s"

definition hand_over :: "handed \<Rightarrow> session \<Rightarrow> session" where
  "hand_over h s = s\<lparr>s_handed := s_handed s @ [h]\<rparr>"

text \<open>\<open>nextReqID.Add(1)\<close>: the identifiers of exchanges, bridges and screen streams.\<close>

definition next_req_id :: "session \<Rightarrow> u64 \<times> session" where
  "next_req_id s = (s_next s + 1, s\<lparr>s_next := s_next s + 1\<rparr>)"

text \<open>A subscriber of a session table gets a message by a non-blocking send; a full channel drops it.\<close>

definition offer_or_drop :: "'a \<Rightarrow> 'a chan \<Rightarrow> 'a chan" where
  "offer_or_drop v c = (case chan_offer v c of None \<Rightarrow> c | Some c' \<Rightarrow> c')"

definition notify :: "'k \<Rightarrow> 'a \<Rightarrow> ('k, 'a chan) gomap \<Rightarrow> ('k, 'a chan) gomap" where
  "notify k v m = (case map_of m k of None \<Rightarrow> m | Some c \<Rightarrow> gm_put k (offer_or_drop v c) m)"

lemma s_send_simps [simp]:
  "s_pending (snd (s_send ok m s)) = s_pending s" "s_credit (snd (s_send ok m s)) = s_credit s"
  "s_ws (snd (s_send ok m s)) = s_ws s" "s_raw (snd (s_send ok m s)) = s_raw s"
  "s_next (snd (s_send ok m s)) = s_next s" "s_features (snd (s_send ok m s)) = s_features s"
  "s_scr2 (snd (s_send ok m s)) = s_scr2 s" "s_scr2_ids (snd (s_send ok m s)) = s_scr2_ids s"
  "s_scr_err (snd (s_send ok m s)) = s_scr_err s" "s_scr_subs (snd (s_send ok m s)) = s_scr_subs s"
  "s_scr_inp (snd (s_send ok m s)) = s_scr_inp s" "s_scr_aux (snd (s_send ok m s)) = s_scr_aux s"
  "s_term_subs (snd (s_send ok m s)) = s_term_subs s" "s_term_exit (snd (s_send ok m s)) = s_term_exit s"
  "fst (s_send ok m s) = ok"
  by (simp_all add: s_send_def)

lemma s_sent_send: "s_sent (snd (s_send ok m s)) = s_sent s @ (if ok then [m] else [])"
  by (simp add: s_send_def)

lemma offer_or_drop_ok: "chan_ok c \<Longrightarrow> chan_ok (offer_or_drop v c)"
  by (auto simp: offer_or_drop_def split: option.split intro: chan_offer_ok)

lemma notify_other: "k' \<noteq> k \<Longrightarrow> map_of (notify k v m) k' = map_of m k'"
  by (simp add: notify_def split: option.split)

lemma notify_same: "map_of (notify k v m) k = map_option (offer_or_drop v) (map_of m k)"
  by (simp add: notify_def split: option.split)

end
