(* ===== verification/Session_Exchanges.thy ===== *)
theory Session_Exchanges
  imports Session_State
begin

text \<open>
  The session's register of requests (\<open>server/tunnel/exchange.go\<close>, second half, and the request
  functions of \<open>session.go\<close>): allocation under a limit, the credit returned to the agent as the
  reader drains a body, routing of response heads and body frames, and the release of everything
  when the connection ends.
\<close>

definition MaxPendingExchanges :: nat where "MaxPendingExchanges = 512"
definition windowUpdateThreshold :: int where "windowUpdateThreshold = InitialWindowBytes div 2"
definition MaxBodyBytes :: int where "MaxBodyBytes = 32 * 1048576"
definition BodyChunkSize :: nat where "BodyChunkSize = 64 * 1024"

definition CodeClientOffline :: string where "CodeClientOffline = ''client_offline''"

definition session_new_exchange :: "session \<Rightarrow> (u64 \<times> session) option" where
  "session_new_exchange s =
     (if length (s_pending s) \<ge> MaxPendingExchanges then None
      else case next_req_id s of (rid, s') \<Rightarrow>
        Some (rid, s'\<lparr>s_pending := gm_put rid (new_exchange rid) (s_pending s')\<rparr>))"

definition lookup_exchange :: "u64 \<Rightarrow> session \<Rightarrow> exchange option" where
  "lookup_exchange rid s = map_of (s_pending s) rid"

text \<open>The exchanges are shared pointers: the goroutine that called \<open>SendRequest\<close> keeps its
  exchange after \<open>FinishExchange\<close> dropped it from the table. \<open>finish_exchange\<close> returns it.\<close>

definition finish_exchange :: "u64 \<Rightarrow> session \<Rightarrow> exchange option \<times> session" where
  "finish_exchange rid s =
     (map_option abandon (map_of (s_pending s) rid),
      s\<lparr>s_pending := gm_del rid (s_pending s), s_credit := gm_del rid (s_credit s)\<rparr>)"

definition fail_all_pending :: "session \<Rightarrow> (u64, exchange) gomap \<times> session" where
  "fail_all_pending s =
     (map (\<lambda>(k, e). (k, fail_exchange CodeClientOffline ''istemci baglantisi koptu'' ErrClientGone e)) (s_pending s),
      s\<lparr>s_pending := []\<rparr>)"

definition pending_count :: "session \<Rightarrow> nat" where
  "pending_count s = length (s_pending s)"

definition send_cancel :: "bool \<Rightarrow> u64 \<Rightarrow> string \<Rightarrow> session \<Rightarrow> session" where
  "send_cancel ok rid reason s = snd (s_send ok (OCancel rid reason) s)"

definition send_window_update :: "bool \<Rightarrow> u64 \<Rightarrow> int \<Rightarrow> session \<Rightarrow> session" where
  "send_window_update ok rid n s =
     (if \<not> ft_flow (s_features s) \<or> n \<le> 0 then s
      else
        let acc = gm_at 0 (s_credit s) rid + n in
        if acc < windowUpdateThreshold then s\<lparr>s_credit := gm_put rid acc (s_credit s)\<rparr>
        else snd (s_send ok (OWindowUpdate rid acc) (s\<lparr>s_credit := gm_put rid 0 (s_credit s)\<rparr>)))"

text \<open>A read by the ingress goroutine, with the credit callback \<open>onDrain\<close>.\<close>

definition session_read :: "bool \<Rightarrow> u64 \<Rightarrow> nat \<Rightarrow> session \<Rightarrow> read_result option \<times> session" where
  "session_read ok rid n s =
     (case map_of (s_pending s) rid of
        None \<Rightarrow> (None, s)
      | Some e \<Rightarrow>
          (case exchange_read n e of
             (r, e') \<Rightarrow>
               let s' = s\<lparr>s_pending := gm_put rid e' (s_pending s)\<rparr> in
               (Some r, case r of ReadData d \<Rightarrow> send_window_update ok rid (int (length d)) s' | _ \<Rightarrow> s')))"

definition send_request :: "bool \<Rightarrow> http_request \<Rightarrow> session \<Rightarrow> u64 option \<times> session" where
  "send_request ok req s =
     (case session_new_exchange s of
        None \<Rightarrow> (None, s)
      | Some (rid, s') \<Rightarrow>
          (case s_send ok (OHttpRequest rid req) s' of
             (True, s'') \<Rightarrow> (Some rid, s'')
           | (False, s'') \<Rightarrow> (None, snd (finish_exchange rid s''))))"

text \<open>\<open>StreamRequestBody\<close>: \<open>parts\<close> are the results of the successive reads of the (limited) body, each
  at most \<open>BodyChunkSize\<close> bytes, ended by EOF (\<open>None\<close>) or a read error (\<open>Some msg\<close>); \<open>oks\<close> the outcomes
  of the writes.\<close>

datatype stream_result = StreamDone | StreamTooLarge | StreamSendFailed | StreamReadError string

definition request_frame :: "u64 \<Rightarrow> u32 \<Rightarrow> bool \<Rightarrow> bytes \<Rightarrow> body_frame" where
  "request_frame rid sq eof p =
     \<lparr>bf_type = FrameRequestBody, bf_req = rid, bf_seq = sq, bf_eof = eof, bf_payload = p\<rparr>"

fun stream_request_body ::
  "(nat \<Rightarrow> bool) \<Rightarrow> u64 \<Rightarrow> nat \<Rightarrow> int \<Rightarrow> bytes list \<Rightarrow> string option \<Rightarrow> session \<Rightarrow> stream_result \<times> session" where
  "stream_request_body oks rid sq tot [] err s =
     (case err of
        Some msg \<Rightarrow> (StreamReadError msg, s)
      | None \<Rightarrow>
          (case send_binary (oks sq) (request_frame rid (of_nat sq) True []) s of
             (True, s') \<Rightarrow> (StreamDone, s')
           | (False, s') \<Rightarrow> (StreamSendFailed, s')))"
| "stream_request_body oks rid sq tot (p # parts) err s =
     (if p = [] then stream_request_body oks rid sq tot parts err s
      else
        let tot' = tot + int (length p) in
        if tot' > MaxBodyBytes then (StreamTooLarge, s)
        else case send_binary (oks sq) (request_frame rid (of_nat sq) False p) s of
            (False, s') \<Rightarrow> (StreamSendFailed, s')
          | (True, s') \<Rightarrow> stream_request_body oks rid (Suc sq) tot' parts err s')"

section \<open>Routing from the read loop\<close>

datatype route_result = RouteOk | RoutePanic

definition update_exchange :: "u64 \<Rightarrow> (exchange \<Rightarrow> exchange) \<Rightarrow> session \<Rightarrow> session" where
  "update_exchange rid f s =
     (case map_of (s_pending s) rid of
        None \<Rightarrow> s
      | Some e \<Rightarrow> s\<lparr>s_pending := gm_put rid (f e) (s_pending s)\<rparr>)"

definition route_http_response :: "u64 \<Rightarrow> int \<Rightarrow> headers \<Rightarrow> bool \<Rightarrow> session \<Rightarrow> session" where
  "route_http_response rid status hs has_body s =
     update_exchange rid
       (\<lambda>e. let e' = deliver_head \<lparr>rh_status = status, rh_headers = hs, rh_has_body = has_body,
                                   rh_err_code = [], rh_err_msg = []\<rparr> e in
            if has_body then e' else close_body None e') s"

definition route_http_error :: "u64 \<Rightarrow> string \<Rightarrow> string \<Rightarrow> session \<Rightarrow> session" where
  "route_http_error rid code msg s = update_exchange rid (fail_exchange code msg (ErrRemote msg)) s"

definition route_response_body :: "bool \<Rightarrow> body_frame \<Rightarrow> session \<Rightarrow> route_result \<times> session" where
  "route_response_body pick f s =
     (case map_of (s_pending s) (bf_req f) of
        None \<Rightarrow> (RouteOk, s)
      | Some e \<Rightarrow>
          (if bf_payload f \<noteq> [] then
             (case write_body pick (bf_payload f) e of
                (WritePanic, e') \<Rightarrow> (RoutePanic, s)
              | (WriteErr ErrFlowControlViolation, e') \<Rightarrow>
                  (RouteOk, s\<lparr>s_pending := gm_put (bf_req f)
                     (fail_exchange CodeClientOffline ''akis kontrolu penceresi asildi'' ErrFlowControlViolation e')
                     (s_pending s)\<rparr>)
              | (WriteErr x, e') \<Rightarrow> (RouteOk, s)
              | (WriteOk, e') \<Rightarrow>
                  (RouteOk, s\<lparr>s_pending := gm_put (bf_req f)
                     (if bf_eof f then close_body None e' else e') (s_pending s)\<rparr>))
           else if bf_eof f then (RouteOk, update_exchange (bf_req f) (close_body None) s)
           else (RouteOk, s)))"

section \<open>The invariant of the register\<close>

definition pending_ok :: "session \<Rightarrow> bool" where
  "pending_ok s \<longleftrightarrow> gm_ok (s_pending s) \<and> length (s_pending s) \<le> MaxPendingExchanges \<and>
     (\<forall>rid e. map_of (s_pending s) rid = Some e \<longrightarrow> exchange_ok e)"

lemma pending_ok_send [simp]: "pending_ok (snd (s_send ok m s)) = pending_ok s"
  by (simp add: pending_ok_def)

lemma pending_lookup: "pending_ok s \<Longrightarrow> map_of (s_pending s) rid = Some e \<Longrightarrow> exchange_ok e"
  unfolding pending_ok_def by blast

lemma pending_ok_put:
  "pending_ok s \<Longrightarrow> map_of (s_pending s) rid = Some e \<Longrightarrow> exchange_ok e' \<Longrightarrow>
   pending_ok (s\<lparr>s_pending := gm_put rid e' (s_pending s)\<rparr>)"
  by (simp add: pending_ok_def length_gm_put)

lemma session_new_exchange_ok:
  "pending_ok s \<Longrightarrow> session_new_exchange s = Some (rid, s') \<Longrightarrow> pending_ok s'"
  by (auto simp: session_new_exchange_def next_req_id_def pending_ok_def length_gm_put split: if_splits)

lemma finish_exchange_ok: "pending_ok s \<Longrightarrow> pending_ok (snd (finish_exchange rid s))"
  using length_gm_del_le [of rid "s_pending s"] by (auto simp: finish_exchange_def pending_ok_def)

lemma send_window_update_pending [simp]: "s_pending (send_window_update ok rid n s) = s_pending s"
  by (simp add: send_window_update_def Let_def)

lemma send_window_update_ok: "pending_ok s \<Longrightarrow> pending_ok (send_window_update ok rid n s)"
  by (simp add: pending_ok_def)

lemma session_read_ok: "pending_ok s \<Longrightarrow> pending_ok (snd (session_read ok rid n s))"
proof (cases "map_of (s_pending s) rid")
  case (Some e)
  assume ok: "pending_ok s"
  obtain r e' where r: "exchange_read n e = (r, e')" by force
  have "pending_ok (s\<lparr>s_pending := gm_put rid e' (s_pending s)\<rparr>)"
    using ok Some exchange_read_ok [OF pending_lookup [OF ok Some] r] by (rule pending_ok_put)
  with Some r show ?thesis
    by (auto simp: session_read_def Let_def intro: send_window_update_ok split: read_result.split)
qed (simp add: session_read_def)

lemma update_exchange_ok:
  "pending_ok s \<Longrightarrow> (\<And>e. exchange_ok e \<Longrightarrow> exchange_ok (f e)) \<Longrightarrow> pending_ok (update_exchange rid f s)"
  by (cases "map_of (s_pending s) rid") (auto simp: update_exchange_def intro: pending_ok_put dest: pending_lookup)

lemma route_http_response_ok: "pending_ok s \<Longrightarrow> pending_ok (route_http_response rid st hs hb s)"
  by (auto simp: route_http_response_def Let_def intro!: update_exchange_ok deliver_head_ok close_body_ok)

lemma route_http_error_ok: "pending_ok s \<Longrightarrow> pending_ok (route_http_error rid c m s)"
  by (auto simp: route_http_error_def intro!: update_exchange_ok fail_exchange_ok)

lemma route_response_body_ok:
  assumes "pending_ok s"
  shows "pending_ok (snd (route_response_body pick f s))"
proof (cases "map_of (s_pending s) (bf_req f)")
  case None
  with assms show ?thesis by (simp add: route_response_body_def)
next
  case (Some e)
  with assms have e: "exchange_ok e" by (simp add: pending_ok_def)
  obtain r e' where w: "write_body pick (bf_payload f) e = (r, e')" by force
  note e' = write_body_ok [OF e w]
  show ?thesis
    using assms e e' Some w
    by (cases r) (auto simp: route_response_body_def update_exchange_def split: body_error.split
        intro!: pending_ok_put [OF assms Some] close_body_ok fail_exchange_ok)
qed

section \<open>The end of a connection\<close>

lemma fail_all_entry:
  "map_of (fst (fail_all_pending s)) rid =
   map_option (fail_exchange CodeClientOffline ''istemci baglantisi koptu'' ErrClientGone) (map_of (s_pending s) rid)"
  by (simp add: fail_all_pending_def map_of_map_snd)

text \<open>C27: when the connection is lost no request is left hanging: the table is empty, and each
  exchange that was pending offers a head (the client-offline error if none had arrived) and a body
  that a reader drains in finitely many reads, getting every byte that had been buffered and then the
  end of the body, or the loss of the client.\<close>

theorem connection_loss_releases:
  assumes "pending_ok s" "map_of (s_pending s) rid = Some e" "0 < n"
  shows "s_pending (snd (fail_all_pending s)) = [] \<and>
    (\<exists>e'. map_of (fst (fail_all_pending s)) rid = Some e' \<and>
       (\<not> ex_head_once e \<longrightarrow> ch_buf (ex_head e') = [error_head CodeClientOffline ''istemci baglantisi koptu'']) \<and>
       drain (Suc (length (unread e))) n e' =
         (unread e, if ex_close_once e then end_of_body (ex_close_err e) else ReadError ErrClientGone))"
proof -
  have ok: "exchange_ok e" using pending_lookup assms(1,2) .
  then show ?thesis
    using assms fail_drain [OF ok assms(3)] fail_head [OF _ ok]
    by (simp add: fail_all_entry end_of_body_def) (simp add: fail_all_pending_def)
qed

theorem connection_loss_releases_witness:
  "drain 1 5 (fail_exchange CodeClientOffline ''istemci baglantisi koptu'' ErrClientGone (new_exchange 1)) =
   ([], ReadError ErrClientGone)"
proof -
  let ?fts = "\<lparr>ft_flow = True, ft_input_status = True, ft_screen2 = True, ft_layers = True,
     ft_cursor = True, ft_clipboard = True, ft_stats = True, ft_feedback = True, ft_video = True\<rparr>"
  let ?s = "(new_session ''s1'' ''c1'' ?fts 0)\<lparr>s_pending := [(1, new_exchange 1)]\<rparr>"
  have "pending_ok ?s" "map_of (s_pending ?s) 1 = Some (new_exchange 1)"
    by (auto simp: pending_ok_def MaxPendingExchanges_def split: if_splits)
  moreover have "\<not> ex_close_once (new_exchange 1)" by (simp add: new_exchange_def)
  ultimately show ?thesis
    using connection_loss_releases [of ?s 1 "new_exchange 1" 5] by (simp add: fail_all_entry)
qed

section \<open>Frames after the end of a body\<close>

lemma route_eof:
  "map_of (s_pending s) rid = Some e \<Longrightarrow> bf_req f = rid \<Longrightarrow> bf_payload f = [] \<Longrightarrow> bf_eof f \<Longrightarrow>
   route_response_body pick f s = (RouteOk, s\<lparr>s_pending := gm_put rid (close_body None e) (s_pending s)\<rparr>)"
  by (simp add: route_response_body_def update_exchange_def)

text \<open>C40: a body frame for a request whose body has already ended (a second frame after the one with
  the end flag, while the reader is still there) is sent on a closed channel: the read loop of the
  session panics instead of dropping the frame.\<close>

theorem late_body_frame_panics:
  assumes "map_of (s_pending s) rid = Some e" "exchange_ok e" "\<not> ex_done e"
    and "bf_req f = rid" "bf_eof f" "bf_payload f = []"
    and "bf_req g = rid" "bf_payload g \<noteq> []"
    and "int (length (unread e)) + int (length (bf_payload g)) \<le> InitialWindowBytes"
  shows "fst (route_response_body pick g (snd (route_response_body pick' f s))) = RoutePanic"
proof -
  let ?e = "close_body None e"
  have "ch_closed (ex_chunks ?e)" "ex_queued ?e = int (length (unread e))" "\<not> ex_done ?e"
    using assms(2,3) close_body_closed by (auto simp: exchange_ok_def close_body_def)
  with assms(8,9) have "fst (write_body pick (bf_payload g) ?e) = WritePanic"
    by (simp add: write_panic_iff)
  then obtain e' where "write_body pick (bf_payload g) ?e = (WritePanic, e')"
    by (cases "write_body pick (bf_payload g) ?e") auto
  with assms show ?thesis
    by (simp add: route_eof) (simp add: route_response_body_def)
qed

theorem late_body_frame_panics_witness:
  "\<exists>s f g. bf_type f = FrameResponseBody \<and> bf_type g = FrameResponseBody \<and>
     fst (route_response_body False g (snd (route_response_body False f s))) = RoutePanic"
proof -
  let ?fts = "\<lparr>ft_flow = True, ft_input_status = True, ft_screen2 = True, ft_layers = True,
     ft_cursor = True, ft_clipboard = True, ft_stats = True, ft_feedback = True, ft_video = True\<rparr>"
  let ?s = "(new_session ''s1'' ''c1'' ?fts 0)\<lparr>s_pending := [(1, new_exchange 1)]\<rparr>"
  let ?f = "\<lparr>bf_type = FrameResponseBody, bf_req = 1, bf_seq = 0, bf_eof = True, bf_payload = []\<rparr>"
  let ?g = "\<lparr>bf_type = FrameResponseBody, bf_req = 1, bf_seq = 1, bf_eof = False, bf_payload = [65]\<rparr>"
  have "map_of (s_pending ?s) 1 = Some (new_exchange 1)" "\<not> ex_done (new_exchange 1)"
    by (simp_all add: new_exchange_def)
  from late_body_frame_panics [OF this(1) new_exchange_ok this(2), of ?f ?g]
  show ?thesis by (intro exI [of _ ?s] exI [of _ ?f] exI [of _ ?g]) (simp add: InitialWindowBytes_def)
qed

section \<open>The request body\<close>

lemma stream_request_body_frames:
  "stream_request_body oks rid sq tot parts err s = (r, s') \<Longrightarrow> 0 \<le> tot \<Longrightarrow> tot \<le> MaxBodyBytes \<Longrightarrow>
   \<exists>fs rest. s_sent s' = s_sent s @ map OFrame fs \<and>
     (\<forall>i<length fs. fs ! i = request_frame rid (of_nat (sq + i)) (r = StreamDone \<and> Suc i = length fs) (bf_payload (fs ! i))) \<and>
     tot + int (length (concat (map bf_payload fs))) \<le> MaxBodyBytes \<and>
     concat parts = concat (map bf_payload fs) @ rest \<and>
     (r = StreamDone \<longrightarrow> rest = [] \<and> fs \<noteq> [] \<and> err = None)"
proof (induction oks rid sq tot parts err s arbitrary: r s' rule: stream_request_body.induct)
  case (1 oks rid sq tot err s)
  show ?case
  proof (cases "err = None \<and> oks sq")
    case True
    with 1 show ?thesis
      by (intro exI [of _ "[request_frame rid (of_nat sq) True []]"] exI [of _ "[]"])
        (auto simp: send_binary_def s_send_def request_frame_def)
  next
    case False
    with 1 show ?thesis
      by (intro exI [of _ "[]"]) (auto simp: send_binary_def s_send_def split: option.splits)
  qed
next
  case (2 oks rid sq tot p parts err s)
  let ?t = "tot + int (length p)"
  show ?case
  proof (cases "p = []")
    case True
    with 2 show ?thesis by simp
  next
    case p: False
    show ?thesis
    proof (cases "?t > MaxBodyBytes \<or> \<not> oks sq")
      case True
      with 2(3-) p have "s_sent s' = s_sent s" "r \<noteq> StreamDone"
        by (auto simp: Let_def send_binary_def s_send_def split: if_splits)
      with 2(4,5) show ?thesis
        by (intro exI [of _ "[]"] exI [of _ "concat (p # parts)"]) simp
    next
      case False
      let ?f = "request_frame rid (of_nat sq) False p" and ?s = "s\<lparr>s_sent := s_sent s @ [OFrame (request_frame rid (of_nat sq) False p)]\<rparr>"
      have send: "send_binary (oks sq) ?f s = (True, ?s)" using False by (simp add: send_binary_def s_send_def)
      have r: "stream_request_body oks rid (Suc sq) ?t parts err ?s = (r, s')"
        using 2(3) p False send by (simp add: Let_def)
      obtain fs rest where ih: "s_sent s' = s_sent ?s @ map OFrame fs"
        "\<forall>i<length fs. fs ! i = request_frame rid (of_nat (Suc sq + i)) (r = StreamDone \<and> Suc i = length fs) (bf_payload (fs ! i))"
        "?t + int (length (concat (map bf_payload fs))) \<le> MaxBodyBytes"
        "concat parts = concat (map bf_payload fs) @ rest"
        "r = StreamDone \<longrightarrow> rest = [] \<and> fs \<noteq> [] \<and> err = None"
        using 2(2) [OF p refl _ send [symmetric] refl r] False 2(4) by auto
      have "(?f # fs) ! i = request_frame rid (of_nat (sq + i)) (r = StreamDone \<and> Suc i = length (?f # fs)) (bf_payload ((?f # fs) ! i))"
        if "i < length (?f # fs)" for i
        using that ih(2,5) by (cases i) (auto simp: request_frame_def)
      then show ?thesis
        using ih by (intro exI [of _ "?f # fs"] exI [of _ rest]) (auto simp: request_frame_def)
    qed
  qed
qed

text \<open>Streaming a request body writes frames numbered from 0 without a gap whose payloads are a
  prefix of the body and never exceed the 32 MB limit; only the last frame carries the end flag, and
  only when the whole body was sent without an error.\<close>

lemma request_body_stream:
  "case stream_request_body oks rid 0 0 parts err s of (r, s') \<Rightarrow>
     \<exists>fs rest. s_sent s' = s_sent s @ map OFrame fs \<and>
       (\<forall>i<length fs. fs ! i = request_frame rid (of_nat i) (r = StreamDone \<and> Suc i = length fs) (bf_payload (fs ! i))) \<and>
       int (length (concat (map bf_payload fs))) \<le> MaxBodyBytes \<and>
       concat parts = concat (map bf_payload fs) @ rest \<and>
       (r = StreamDone \<longrightarrow> rest = [] \<and> fs \<noteq> [] \<and> err = None)"
proof (cases "stream_request_body oks rid 0 0 parts err s")
  case (Pair r s')
  have "\<exists>fs rest. s_sent s' = s_sent s @ map OFrame fs \<and>
     (\<forall>i<length fs. fs ! i = request_frame rid (of_nat (0 + i)) (r = StreamDone \<and> Suc i = length fs) (bf_payload (fs ! i))) \<and>
     0 + int (length (concat (map bf_payload fs))) \<le> MaxBodyBytes \<and>
     concat parts = concat (map bf_payload fs) @ rest \<and>
     (r = StreamDone \<longrightarrow> rest = [] \<and> fs \<noteq> [] \<and> err = None)"
    by (rule stream_request_body_frames [OF Pair]) (simp_all add: MaxBodyBytes_def)
  then show ?thesis unfolding Pair by simp
qed

theorem request_body_stream_witness:
  "\<exists>fs. map OFrame fs = [OFrame (request_frame 9 0 False [1, 2]), OFrame (request_frame 9 1 True [])] \<and>
     concat (map bf_payload fs) = [1, 2]"
proof -
  let ?fts = "\<lparr>ft_flow = True, ft_input_status = True, ft_screen2 = True, ft_layers = True,
     ft_cursor = True, ft_clipboard = True, ft_stats = True, ft_feedback = True, ft_video = True\<rparr>"
  let ?s = "new_session ''s1'' ''c1'' ?fts 0"
  have run: "stream_request_body (\<lambda>_. True) 9 0 0 [[1, 2]] None ?s =
      (StreamDone, ?s\<lparr>s_sent := [OFrame (request_frame 9 0 False [1, 2]), OFrame (request_frame 9 1 True [])]\<rparr>)"
    by (simp add: Let_def MaxBodyBytes_def send_binary_def s_send_def new_session_def)
  from request_body_stream [where oks = "\<lambda>_. True" and rid = 9 and parts = "[[1, 2]]" and err = None and s = ?s]
  show ?thesis unfolding run
    apply (auto simp: new_session_def)
    apply (rule exI [of _ "[request_frame 9 0 False [1, 2], request_frame 9 1 True []]"])
    apply (simp add: request_frame_def)
    done
qed

end
