(* ===== verification/Agent_Window.thy ===== *)
theory Agent_Window
  imports Session_Exchanges
begin

text \<open>
  The agent's side of the flow control (\<open>client/agent/flowcontrol.go\<close>): the send credit of each
  request and the channels its senders wait on. A channel is a number; \<open>wt_woken\<close> lists the closed
  ones. \<open>acquire_try\<close> is one turn of the loop of \<open>acquire\<close> under the lock; the loop repeats it
  whenever the channel it waits on is closed. Then \<open>streamResponse\<close> of \<open>client/agent/proxy.go\<close>.
\<close>

record window_table =
  wt_remaining :: "(u64, int) gomap"
  wt_waiters :: "(u64, nat) gomap"
  wt_next :: nat
  wt_woken :: "nat list"

definition new_window_table :: window_table where
  "new_window_table = \<lparr>wt_remaining = [], wt_waiters = [], wt_next = 0, wt_woken = []\<rparr>"

definition window_left :: "window_table \<Rightarrow> u64 \<Rightarrow> int" where
  "window_left w rid = gm_at InitialWindowBytes (wt_remaining w) rid"

datatype acquire_result = Acquired | WaitOn nat

definition acquire_try :: "u64 \<Rightarrow> int \<Rightarrow> window_table \<Rightarrow> acquire_result \<times> window_table" where
  "acquire_try rid n w =
     (let rem = window_left w rid in
      if rem \<ge> n then (Acquired, w\<lparr>wt_remaining := gm_put rid (rem - n) (wt_remaining w)\<rparr>)
      else case map_of (wt_waiters w) rid of
          Some ch \<Rightarrow> (WaitOn ch, w)
        | None \<Rightarrow> (WaitOn (wt_next w),
            w\<lparr>wt_waiters := gm_put rid (wt_next w) (wt_waiters w), wt_next := Suc (wt_next w)\<rparr>))"

definition wake :: "u64 \<Rightarrow> window_table \<Rightarrow> window_table" where
  "wake rid w =
     (case map_of (wt_waiters w) rid of
        None \<Rightarrow> w
      | Some ch \<Rightarrow> w\<lparr>wt_waiters := gm_del rid (wt_waiters w), wt_woken := ch # wt_woken w\<rparr>)"

definition window_add :: "u64 \<Rightarrow> int \<Rightarrow> window_table \<Rightarrow> window_table" where
  "window_add rid n w =
     (if n \<le> 0 then w
      else wake rid (w\<lparr>wt_remaining := gm_put rid (window_left w rid + n) (wt_remaining w)\<rparr>))"

definition window_release :: "u64 \<Rightarrow> window_table \<Rightarrow> window_table" where
  "window_release rid w = wake rid (w\<lparr>wt_remaining := gm_del rid (wt_remaining w)\<rparr>)"

section \<open>Credit\<close>

lemma wake_remaining [simp]: "wt_remaining (wake rid w) = wt_remaining w"
  by (simp add: wake_def split: option.split)

lemma window_left_new [simp]: "window_left new_window_table rid = InitialWindowBytes"
  by (simp add: window_left_def new_window_table_def)

lemma window_left_acquire:
  "acquire_try rid n w = (Acquired, w') \<Longrightarrow>
   n \<le> window_left w rid \<and> window_left w' k = window_left w k - (if k = rid then n else 0)"
  by (auto simp: acquire_try_def Let_def window_left_def split: if_splits option.splits)

lemma window_left_wait: "acquire_try rid n w = (WaitOn ch, w') \<Longrightarrow> window_left w' k = window_left w k"
  by (auto simp: acquire_try_def Let_def window_left_def split: if_splits option.splits)

lemma window_left_add:
  "window_left (window_add rid n w) k = window_left w k + (if k = rid \<and> 0 < n then n else 0)"
  by (auto simp: window_add_def window_left_def)

lemma acquire_waits_iff: "(\<exists>ch. fst (acquire_try rid n w) = WaitOn ch) \<longleftrightarrow> window_left w rid < n"
  by (auto simp: acquire_try_def Let_def split: option.split)

text \<open>A waiter's channel is closed by the credit that follows, so no sender sleeps through a wake-up.\<close>

lemma add_wakes:
  "acquire_try rid n w = (WaitOn ch, w') \<Longrightarrow> 0 < m \<Longrightarrow> ch \<in> set (wt_woken (window_add rid m w'))"
  by (auto simp: acquire_try_def Let_def window_add_def wake_def split: if_splits option.splits)

lemma release_wakes:
  "acquire_try rid n w = (WaitOn ch, w') \<Longrightarrow> ch \<in> set (wt_woken (window_release rid w'))"
  by (auto simp: acquire_try_def Let_def window_release_def wake_def split: if_splits option.splits)

lemma release_clears:
  "map_of (wt_remaining (window_release rid w)) rid = None \<and> map_of (wt_waiters (window_release rid w)) rid = None"
  by (simp add: window_release_def wake_def split: option.split)

text \<open>A credit message that arrives after the release creates an entry again.\<close>

lemma late_credit_leaks:
  "0 < n \<Longrightarrow> map_of (wt_remaining (window_add rid n (window_release rid w))) rid = Some (InitialWindowBytes + n)"
  by (simp add: window_add_def window_left_def window_release_def gm_at_def)

section \<open>The response stream\<close>

text \<open>\<open>streamResponse\<close> up to the credit waits (which \<open>acquire_try\<close> describes): the frames it sends
  for the results \<open>parts\<close> of the successive reads of the local body, ended by EOF or an error. \<open>ok\<close> is
  the outcome of the \<open>k\<close>-th \<open>acquire\<close> and send.\<close>

datatype response_end = RespDone | RespTooLarge | RespSendFailed | RespReadError string

definition response_frame :: "u64 \<Rightarrow> u32 \<Rightarrow> bool \<Rightarrow> bytes \<Rightarrow> body_frame" where
  "response_frame rid sq eof p =
     \<lparr>bf_type = FrameResponseBody, bf_req = rid, bf_seq = sq, bf_eof = eof, bf_payload = p\<rparr>"

fun stream_response ::
  "(nat \<Rightarrow> bool) \<Rightarrow> u64 \<Rightarrow> nat \<Rightarrow> int \<Rightarrow> bytes list \<Rightarrow> string option \<Rightarrow> body_frame list \<times> response_end" where
  "stream_response ok rid sq tot [] err =
     (case err of
        Some msg \<Rightarrow> ([], RespReadError msg)
      | None \<Rightarrow> if ok sq then ([response_frame rid (of_nat sq) True []], RespDone) else ([], RespSendFailed))"
| "stream_response ok rid sq tot (p # parts) err =
     (if p = [] then stream_response ok rid sq tot parts err
      else
        let tot' = tot + int (length p) in
        if tot' > MaxBodyBytes then ([], RespTooLarge)
        else if \<not> ok sq then ([], RespSendFailed)
        else case stream_response ok rid (Suc sq) tot' parts err of
            (fs, r) \<Rightarrow> (response_frame rid (of_nat sq) False p # fs, r))"

definition payload_bytes :: "body_frame list \<Rightarrow> bytes" where
  "payload_bytes fs = concat (map bf_payload fs)"

lemma stream_response_frames:
  "stream_response ok rid sq tot parts err = (fs, r) \<Longrightarrow> 0 \<le> tot \<Longrightarrow> tot \<le> MaxBodyBytes \<Longrightarrow>
   (\<forall>i<length fs. bf_seq (fs ! i) = of_nat (sq + i) \<and> bf_req (fs ! i) = rid) \<and>
   tot + int (length (payload_bytes fs)) \<le> MaxBodyBytes \<and>
   (\<exists>rest. concat parts = payload_bytes fs @ rest \<and> (r = RespDone \<longrightarrow> rest = [])) \<and>
   (r = RespDone \<longrightarrow> fs \<noteq> [] \<and> bf_eof (last fs) \<and> (\<forall>f\<in>set (butlast fs). \<not> bf_eof f)) \<and>
   (r \<noteq> RespDone \<longrightarrow> (\<forall>f\<in>set fs. \<not> bf_eof f))"
proof (induction ok rid sq tot parts err arbitrary: fs r rule: stream_response.induct)
  case (1 ok rid sq tot err)
  then show ?case
    by (auto simp: response_frame_def payload_bytes_def split: option.splits if_splits)
next
  case (2 ok rid sq tot p parts err)
  show ?case
  proof (cases "p = []")
    case True
    with 2 show ?thesis by simp
  next
    case False
    show ?thesis
    proof (cases "tot + int (length p) > MaxBodyBytes \<or> \<not> ok sq")
      case True
      with 2(3-) False show ?thesis by (auto simp: Let_def payload_bytes_def split: if_splits)
    next
      case next_frame: False
      then obtain fs' where r: "stream_response ok rid (Suc sq) (tot + int (length p)) parts err = (fs', r)"
        and fs: "fs = response_frame rid (of_nat sq) False p # fs'"
        using 2(3) False by (auto simp: Let_def split: prod.splits)
      have ih: "(\<forall>i<length fs'. bf_seq (fs' ! i) = of_nat (Suc sq + i) \<and> bf_req (fs' ! i) = rid) \<and>
          tot + int (length p) + int (length (payload_bytes fs')) \<le> MaxBodyBytes \<and>
          (\<exists>rest. concat parts = payload_bytes fs' @ rest \<and> (r = RespDone \<longrightarrow> rest = [])) \<and>
          (r = RespDone \<longrightarrow> fs' \<noteq> [] \<and> bf_eof (last fs') \<and> (\<forall>f\<in>set (butlast fs'). \<not> bf_eof f)) \<and>
          (r \<noteq> RespDone \<longrightarrow> (\<forall>f\<in>set fs'. \<not> bf_eof f))"
        using 2(2) [OF False refl _ _ r] next_frame 2(4) by auto
      then show ?thesis
        unfolding fs
        by (auto simp: payload_bytes_def response_frame_def less_Suc_eq_0_disj)
    qed
  qed
qed

end
