(* ===== verification/Http_Path.thy ===== *)
theory Http_Path
  imports Go_Strings
begin

text \<open>
  Request paths as the ingress compares them with its rules (\<open>canonicalPath\<close>, \<open>policyPathMatches\<close>,
  \<open>normalizePolicyPrefix\<close> in \<open>server/ingress/policy.go\<close>, \<open>pathMatches\<close> in \<open>router.go\<close>): the canonical form does
  not depend on how a path spells its separators and dot segments.
\<close>

section \<open>The canonical path\<close>

abbreviation sep :: char where "sep \<equiv> CHR ''/''"
abbreviation backslash :: char where "backslash \<equiv> CHR 0x5C"

text \<open>The loop of \<open>path.Clean\<close> on the elements of a rooted path: empty elements and dots are skipped, two
  dots take back an element, if there is one.\<close>

fun clean_segs :: "string list \<Rightarrow> string list \<Rightarrow> string list" where
  "clean_segs st [] = rev st"
| "clean_segs st (s # ss) =
     (if s = [] \<or> s = ''.'' then clean_segs st ss
      else if s = ''..'' then clean_segs (tl st) ss
      else clean_segs (s # st) ss)"

fun join_sep :: "string list \<Rightarrow> string" where
  "join_sep [] = []"
| "join_sep [s] = s"
| "join_sep (s # ss) = s @ sep # join_sep ss"

definition path_clean_rooted :: "string \<Rightarrow> string" where
  "path_clean_rooted p = sep # join_sep (clean_segs [] (split_at sep p))"

definition canonical_path :: "string \<Rightarrow> string" where
  "canonical_path p0 =
     (if p0 = [] then [sep]
      else
        let p = map (\<lambda>c. if c = backslash then sep else c) p0;
            c = path_clean_rooted (sep # p) in
        if has_suffix p [sep] \<and> c \<noteq> [sep] then c @ [sep] else c)"

definition policy_path_matches :: "string \<Rightarrow> string \<Rightarrow> bool" where
  "policy_path_matches path prefix \<longleftrightarrow> has_prefix path prefix \<or> has_prefix (canonical_path path) prefix"

definition normalize_policy_prefix :: "string \<Rightarrow> string" where
  "normalize_policy_prefix p0 = (let p = trim_space p0 in if p = [] then [] else canonical_path p)"

text \<open>A rule for \<open>/api\<close> holds for \<open>/api\<close> and what is below it, not for \<open>/apix\<close>.\<close>

definition path_matches :: "string \<Rightarrow> string \<Rightarrow> bool" where
  "path_matches path prefix \<longleftrightarrow>
     (if prefix = [] \<or> prefix = [sep] then True
      else if \<not> has_prefix path prefix then False
      else length path = length prefix \<or> path ! length prefix = sep)"

section \<open>Elements of a path\<close>

definition slashes :: "string \<Rightarrow> string" where
  "slashes p = map (\<lambda>c. if c = backslash then sep else c) p"

definition segs :: "string \<Rightarrow> string list" where
  "segs p = clean_segs [] (split_at sep (slashes p))"

text \<open>An ordinary element of a path.\<close>

definition plain :: "string \<Rightarrow> bool" where
  "plain s \<longleftrightarrow> s \<noteq> [] \<and> s \<noteq> ''.'' \<and> s \<noteq> ''..'' \<and> sep \<notin> set s \<and> backslash \<notin> set s"

lemma slashes_simps [simp]: "slashes [] = []" "slashes (p @ q) = slashes p @ slashes q" "backslash \<notin> set (slashes p)"
  "slashes (slashes p) = slashes p" "slashes p = [] \<longleftrightarrow> p = []"
  by (auto simp: slashes_def)

lemma slashes_id: "backslash \<notin> set p \<Longrightarrow> slashes p = p"
  by (induction p) (auto simp: slashes_def)

lemma split_at_join: "ss \<noteq> [] \<Longrightarrow> \<forall>s\<in>set ss. sep \<notin> set s \<Longrightarrow> split_at sep (join_sep ss) = ss"
  by (induction ss rule: join_sep.induct) (simp_all add: split_at_none split_at_append)

lemma clean_segs_append: "clean_segs st (xs @ ys) = clean_segs (rev (clean_segs st xs)) ys"
  by (induction st xs rule: clean_segs.induct) simp_all

lemma clean_segs_plain:
  "\<forall>s\<in>set st. plain s \<Longrightarrow> \<forall>s\<in>set ss. sep \<notin> set s \<and> backslash \<notin> set s \<Longrightarrow> \<forall>s\<in>set (clean_segs st ss). plain s"
proof (induction st ss rule: clean_segs.induct)
  case (2 st s ss)
  have tl: "\<forall>s\<in>set (tl st). plain s" using 2(4) by (cases st) auto
  have s: "sep \<notin> set s" "backslash \<notin> set s" and ss: "\<forall>s\<in>set ss. sep \<notin> set s \<and> backslash \<notin> set s" using 2(5) by simp_all
  consider "s = [] \<or> s = ''.''" | "s = ''..''" | "s \<noteq> []" "s \<noteq> ''.''" "s \<noteq> ''..''" by blast
  then show ?case
  proof cases
    case 1
    with 2(1) [OF _ 2(4) ss] show ?thesis by auto
  next
    case 2
    with "2.IH"(2) [OF _ _ tl ss] show ?thesis by simp
  next
    case 3
    with s "2.prems"(1) have "\<forall>x\<in>set (s # st). plain x" by (simp add: plain_def)
    with 3 "2.IH"(3) [OF _ _ this ss] show ?thesis by simp
  qed
qed simp

lemma clean_plain: "\<forall>s\<in>set ss. plain s \<Longrightarrow> clean_segs st ss = rev st @ ss"
proof (induction ss arbitrary: st)
  case (Cons s ss)
  from Cons.prems have "s \<noteq> []" "s \<noteq> ''.''" "s \<noteq> ''..''" by (simp_all add: plain_def)
  with Cons.IH [of "s # st"] Cons.prems show ?case by simp
qed simp

lemma segs_plain: "\<forall>s\<in>set (segs p). plain s"
  unfolding segs_def by (rule clean_segs_plain) (simp, use split_at_parts slashes_simps(3) in blast)

lemma segs_append: "segs (a @ sep # b) = clean_segs (rev (segs a)) (split_at sep (slashes b))"
  by (simp add: segs_def split_at_append clean_segs_append slashes_def)

lemma segs_Cons: "segs (sep # p) = segs p"
  by (simp add: segs_def slashes_def)

text \<open>The canonical path in terms of its elements.\<close>

lemma canonical_segs:
  "canonical_path p = sep # join_sep (segs p) @ (if has_suffix (slashes p) [sep] \<and> segs p \<noteq> [] then [sep] else [])"
proof (cases "p = []")
  case True
  then show ?thesis by (simp add: canonical_path_def segs_def has_suffix_def)
next
  case False
  have "path_clean_rooted (sep # slashes p) = sep # join_sep (segs p)"
    by (simp add: path_clean_rooted_def segs_def)
  moreover have "join_sep (segs p) = [] \<longleftrightarrow> segs p = []"
    using segs_plain [of p] by (cases "segs p" rule: join_sep.cases) (auto simp: plain_def)
  ultimately show ?thesis using False by (simp add: canonical_path_def Let_def slashes_def [symmetric])
qed

lemma canonical_cong:
  "segs p = segs q \<Longrightarrow> (segs q \<noteq> [] \<Longrightarrow> has_suffix (slashes p) [sep] = has_suffix (slashes q) [sep]) \<Longrightarrow> canonical_path p = canonical_path q"
  by (auto simp: canonical_segs)

lemma suffix_append: "b \<noteq> [] \<Longrightarrow> has_suffix (a @ b) [sep] = has_suffix b [sep]"
  by (cases b rule: rev_cases) (simp_all add: has_suffix_def)

lemma segs_join:
  assumes "\<forall>s\<in>set ss. plain s"
  shows "segs (join_sep ss) = ss" "segs (join_sep ss @ [sep]) = ss"
proof -
  have "backslash \<notin> set (join_sep ss)" using assms by (induction ss rule: join_sep.induct) (auto simp: plain_def)
  then have sl: "slashes (join_sep ss) = join_sep ss" by (rule slashes_id)
  have split: "ss \<noteq> [] \<Longrightarrow> split_at sep (join_sep ss) = ss" using assms by (intro split_at_join) (auto simp: plain_def)
  show "segs (join_sep ss) = ss"
    using clean_plain [OF assms] by (cases "ss = []") (simp_all add: segs_def sl split)
  then show "segs (join_sep ss @ [sep]) = ss"
    using segs_append [of "join_sep ss" "[]"] by simp
qed

lemma join_no_suffix: "\<forall>s\<in>set ss. plain s \<Longrightarrow> \<not> has_suffix (join_sep ss) [sep]"
proof (induction ss rule: join_sep.induct)
  case (2 s)
  then show ?case by (cases s rule: rev_cases) (auto simp: has_suffix_def plain_def)
next
  case (3 s t ss)
  have "join_sep (t # ss) \<noteq> []" using 3(2) by (cases ss) (auto simp: plain_def)
  then show ?case using 3 suffix_append [of "join_sep (t # ss)" "s @ [sep]"] by simp
qed (simp add: has_suffix_def)

lemma join_not_Nil: "\<forall>s\<in>set ss. plain s \<Longrightarrow> ss \<noteq> [] \<Longrightarrow> join_sep ss \<noteq> []"
  by (cases ss rule: join_sep.cases) (auto simp: plain_def)

lemma join_no_backslash: "\<forall>s\<in>set ss. plain s \<Longrightarrow> backslash \<notin> set (join_sep ss)"
  by (induction ss rule: join_sep.induct) (auto simp: plain_def)

lemma slashes_Cons [simp]: "slashes (sep # p) = sep # slashes p"
  by (simp add: slashes_def)

lemma has_suffix_tail: "has_suffix (a @ sep # b) [sep] \<longleftrightarrow> b = [] \<or> has_suffix b [sep]"
  by (cases b rule: rev_cases) (simp_all add: has_suffix_def)

lemma has_suffix_Cons: "has_suffix (sep # b) [sep] \<longleftrightarrow> b = [] \<or> has_suffix b [sep]"
  using has_suffix_tail [of "[]" b] by simp

text \<open>The canonical path does not depend on the spelling: it starts with a slash, contains no empty element, no dot
  elements and no backslash, is its own canonical form, and is the same for a path in which separators are doubled or
  written as backslashes, or dot elements or an element followed by two dots are inserted.\<close>

lemma path_spelling_irrelevant:
  "canonical_path (canonical_path p) = canonical_path p
   \<and> (\<exists>ss. (\<forall>s\<in>set ss. plain s) \<and> (canonical_path p = sep # join_sep ss \<or> canonical_path p = sep # join_sep ss @ [sep]))
   \<and> canonical_path (a @ sep # sep # b) = canonical_path (a @ sep # b)
   \<and> canonical_path (a @ backslash # b) = canonical_path (a @ sep # b)
   \<and> canonical_path (a @ ''/./'' @ b) = canonical_path (a @ sep # b)
   \<and> (plain x \<longrightarrow> canonical_path (a @ sep # x @ ''/../'' @ b) = canonical_path (a @ sep # b))"
proof (intro conjI impI)
  have pl: "\<forall>s\<in>set (segs p). plain s" by (rule segs_plain)
  show "canonical_path (canonical_path p) = canonical_path p"
  proof (rule canonical_cong)
    show "segs (canonical_path p) = segs p" by (simp add: canonical_segs segs_Cons segs_join [OF pl])
    have sl: "slashes (canonical_path p) = canonical_path p"
      by (rule slashes_id) (simp add: canonical_segs join_no_backslash [OF pl])
    show "has_suffix (slashes (canonical_path p)) [sep] = has_suffix (slashes p) [sep]" if "segs p \<noteq> []"
      unfolding sl using suffix_append [of "join_sep (segs p)" "[sep]"] join_no_suffix [OF pl] join_not_Nil [OF pl that] that
      by (auto simp: canonical_segs has_suffix_iff)
  qed
  show "\<exists>ss. (\<forall>s\<in>set ss. plain s) \<and> (canonical_path p = sep # join_sep ss \<or> canonical_path p = sep # join_sep ss @ [sep])"
    using pl by (intro exI [of _ "segs p"]) (simp add: canonical_segs)
  show "canonical_path (a @ sep # sep # b) = canonical_path (a @ sep # b)"
    by (rule canonical_cong) (simp_all add: segs_append slashes_def has_suffix_tail has_suffix_Cons)
  show "canonical_path (a @ backslash # b) = canonical_path (a @ sep # b)"
    by (rule canonical_cong) (simp_all add: segs_def slashes_def)
  show "canonical_path (a @ ''/./'' @ b) = canonical_path (a @ sep # b)"
    using has_suffix_tail [of "slashes a @ ''/.''" "slashes b"] has_suffix_tail [of "slashes a" "slashes b"]
    by (intro canonical_cong) (simp_all add: segs_append slashes_def)
  assume x: "plain x"
  show "canonical_path (a @ sep # x @ ''/../'' @ b) = canonical_path (a @ sep # b)"
  proof (rule canonical_cong)
    have sl: "slashes (x @ ''/../'' @ b) = x @ sep # ''..'' @ sep # slashes b"
      using x by (simp add: slashes_id plain_def) (simp add: slashes_def)
    have "split_at sep (x @ sep # ''..'' @ sep # slashes b) = x # ''..'' # split_at sep (slashes b)"
      using x by (simp add: split_at_append split_at_none plain_def)
    with sl x show "segs (a @ sep # x @ ''/../'' @ b) = segs (a @ sep # b)"
      by (simp add: segs_append plain_def)
    show "has_suffix (slashes (a @ sep # x @ ''/../'' @ b)) [sep] = has_suffix (slashes (a @ sep # b)) [sep]"
    proof -
      have "slashes (a @ sep # x @ ''/../'' @ b) = (slashes a @ sep # x @ ''/..'') @ sep # slashes b"
        unfolding slashes_simps(2) [of a] slashes_Cons sl by simp
      moreover have "slashes (a @ sep # b) = slashes a @ sep # slashes b" by simp
      ultimately show ?thesis by (simp only: has_suffix_tail)
    qed
  qed
qed


lemma path_spelling_irrelevant_witness:
  "canonical_path ''/x/../admin'' = canonical_path ''/admin'' \<and> policy_path_matches ''/x/../admin'' ''/admin''"
proof -
  have "plain ''x''" by (simp add: plain_def)
  with path_spelling_irrelevant [of "[]" "[]" "''admin''" "''x''"]
  have c: "canonical_path ''/x/../admin'' = canonical_path ''/admin''" by simp
  moreover have "canonical_path ''/admin'' = ''/admin''" by code_simp
  ultimately show ?thesis by (simp add: policy_path_matches_def)
qed

end
