(* ===== verification/Policy_Engine.thy ===== *)
theory Policy_Engine
  imports Http_Path
begin

text \<open>
  The policy engine of the ingress (\<open>server/ingress/policy.go\<close>, \<open>waf.go\<close> and the header rules of \<open>traffic.go\<close>):
  rules with a condition and an action are compiled when the routes are loaded and evaluated for
  every request. Matching of regular expressions, the signature check of webhooks and URL decoding are parameters
  (\<open>policy_env\<close>), as are the verdicts of the rate limiters for the request: each rate-limit rule has
  its own limiter, and a limiter is asked at most once per request.
\<close>

section \<open>Configuration\<close>

record header_rules =
  hd_set :: "(string, string) gomap"
  hd_remove :: "string list"

definition no_headers :: header_rules where
  "no_headers = \<lparr>hd_set = [], hd_remove = []\<rparr>"

record raw_match =
  rm_path_prefix :: string
  rm_methods :: "string list"
  rm_header :: "(string, string) gomap"
  rm_country :: "string list"
  rm_country_not :: "string list"
  rm_unknown :: "bool option"
  rm_continent :: "string list"
  rm_asn :: "nat list"
  rm_isp :: "string list"
  rm_tor_exit :: "bool option"
  rm_hosting :: "bool option"
  rm_reputation :: "string list"

record raw_action =
  ra_type :: string
  ra_status :: int
  ra_message :: string
  ra_location :: string
  ra_request :: header_rules
  ra_response :: header_rules
  ra_key :: string
  ra_requests :: int
  ra_window :: int
  ra_burst :: int
  ra_provider :: string
  ra_secret_ref :: string
  ra_tolerance :: int
  ra_ruleset :: string
  ra_patterns :: "string list"

section \<open>Compiled rules\<close>

record match_cond =
  mc_prefix :: string
  mc_methods :: "string list"
  mc_header :: "(string, string) gomap"
  mc_country :: "string list"
  mc_country_not :: "string list"
  mc_unknown :: bool
  mc_continent :: "string list"
  mc_asn :: "nat list"
  mc_isp :: "string list"
  mc_needs_geo :: bool
  mc_tor_exit :: "bool option"
  mc_hosting :: "bool option"
  mc_reputation :: "string list"
  mc_needs_intel :: bool

text \<open>The parameters of a limiter: requests per window (in seconds) and the size of the bucket. A compiled
  limiter is known by its place in the list of rules.\<close>

record limiter_spec =
  li_requests :: int
  li_window :: int
  li_burst :: int

datatype policy_action =
    ActNoop
  | ActDeny int string
  | ActSetHeader header_rules header_rules
  | ActRedirect string int
  | ActRequireMTLS
  | ActRateLimit limiter_spec string
  | ActVerifyWebhook string string duration
  | ActWAF "string list"
  | ActChallenge

record compiled_rule =
  cu_match :: match_cond
  cu_action :: policy_action

record compiled_policy =
  cp_id :: string
  cp_priority :: int
  cp_rules :: "compiled_rule list"

record policy_env =
  pe_rx_ok :: "string \<Rightarrow> bool"
  pe_rx_match :: "string \<Rightarrow> string \<Rightarrow> bool"
  pe_unescape :: "string \<Rightarrow> string option"
  pe_verify :: "string \<Rightarrow> string \<Rightarrow> bytes \<Rightarrow> (string \<Rightarrow> string) \<Rightarrow> duration \<Rightarrow> bool"

definition upper_char :: "char \<Rightarrow> char" where
  "upper_char c = (if 97 \<le> code_of c \<and> code_of c \<le> 122 then char_of (code_of c - 32) else c)"

lemma upper_char_code [code]:
  "upper_char (Char b0 b1 b2 b3 b4 b5 b6 b7) =
     (if \<not> b7 \<and> b6 \<and> b5 \<and> (b0 \<or> b1 \<or> b2 \<or> b3 \<or> b4) \<and> \<not> (b4 \<and> b3 \<and> (b2 \<or> b1 \<and> b0))
      then Char b0 b1 b2 b3 b4 False b6 b7 else Char b0 b1 b2 b3 b4 b5 b6 b7)"
  by (cases b0; cases b1; cases b2; cases b3; cases b4; cases b5; cases b6; cases b7; simp add: upper_char_def code_of_def char_of_def bit_iff_odd)

definition to_upper :: "string \<Rightarrow> string" where
  "to_upper s = map upper_char s"

definition upper_set :: "string list \<Rightarrow> string list" where
  "upper_set xs = filter (\<lambda>v. v \<noteq> []) (map (\<lambda>v. to_upper (trim_space v)) xs)"

definition compile_match :: "raw_match \<Rightarrow> match_cond" where
  "compile_match m =
     \<lparr>mc_prefix = normalize_policy_prefix (rm_path_prefix m),
      mc_methods = map (\<lambda>x. to_upper (trim_space x)) (rm_methods m),
      mc_header = rm_header m,
      mc_country = upper_set (rm_country m), mc_country_not = upper_set (rm_country_not m),
      mc_unknown = (rm_unknown m = Some True),
      mc_continent = upper_set (rm_continent m), mc_asn = rm_asn m, mc_isp = upper_set (rm_isp m),
      mc_needs_geo = (rm_country m \<noteq> [] \<or> rm_country_not m \<noteq> [] \<or> rm_unknown m = Some True \<or> rm_continent m \<noteq> []
        \<or> rm_isp m \<noteq> [] \<or> rm_asn m \<noteq> []),
      mc_tor_exit = rm_tor_exit m, mc_hosting = rm_hosting m,
      mc_reputation = filter (\<lambda>v. v \<noteq> []) (map (\<lambda>v. to_lower (trim_space v)) (rm_reputation m)),
      mc_needs_intel = (rm_tor_exit m \<noteq> None \<or> rm_hosting m \<noteq> None \<or> rm_reputation m \<noteq> [])\<rparr>"

text \<open>The first reference to a secret in a text: two braces, the word, a name without closing brace.\<close>

fun secret_ref :: "string \<Rightarrow> string option" where
  "secret_ref [] = None"
| "secret_ref (c # s) =
     (let rest = drop 9 (c # s); name = takeWhile (\<lambda>x. x \<noteq> CHR ''}'') rest in
      if has_prefix (c # s) ''{{secret:'' \<and> name \<noteq> [] \<and> has_prefix (drop (length name) rest) ''}}''
      then Some name else secret_ref s)"

definition resolve_secret_ref :: "string \<Rightarrow> (string, string) gomap \<Rightarrow> string option" where
  "resolve_secret_ref v0 secrets =
     (let v = trim_space v0 in
      if v = [] then None
      else case secret_ref v of
          None \<Rightarrow> Some v
        | Some name \<Rightarrow>
            (case map_of secrets (trim_space name) of None \<Rightarrow> None | Some x \<Rightarrow> if x = [] then None else Some x))"

definition webhook_providers :: "string list" where
  "webhook_providers = [''github'', ''stripe'', ''gitlab'', ''shopify'', ''slack'']"

definition fail_closed :: policy_action where
  "fail_closed = ActDeny 503
     (''G'' @ [CHR 0xC3, CHR 0xBC] @ ''venlik politikas'' @ [CHR 0xC4, CHR 0xB1] @ '' yap'' @ [CHR 0xC4, CHR 0xB1] @ ''land''
      @ [CHR 0xC4, CHR 0xB1] @ ''rmas'' @ [CHR 0xC4, CHR 0xB1] @ '' ge'' @ [CHR 0xC3, CHR 0xA7] @ ''ersiz; istek reddedildi.'')"

text \<open>The built-in patterns. In the list a tilde stands for the backslash and a caret for the quote.\<close>

definition owasp_lite :: "string list" where
  "owasp_lite = map (map (\<lambda>c. if c = CHR ''~'' then CHR 0x5C else if c = CHR ''^'' then CHR 0x27 else c))
     [''(?i)union~s+(all~s+)?select'',
      ''(?i)^~s*or~s+^?1^?~s*=~s*^?1'',
      ''(?i)~bor~s+1~s*=~s*1~b'',
      ''(?i);~s*drop~s+table~b'',
      ''(?i)~binformation_schema~b'',
      ''(?i)~b(sleep|benchmark|pg_sleep)~s*~('',
      ''(?i)~bwaitfor~s+delay~b'',
      ''(?i)<~s*script~b'',
      ''(?i)<~s*iframe~b'',
      ''(?i)javascript:'',
      ''(?i)~bon(error|load|click|mouseover)~s*='',
      ''(?i)document~s*~.~s*cookie'',
      ''~.~.[/~~]'',
      ''(?i)/etc/(passwd|shadow)~b'',
      ''(?i)~bwin~.ini~b'',
      ''(?i)[;|&]~s*(cat|wget|curl|nc|bash|sh|powershell)~s'',
      ''~$~(.+~)'',
      ''(?i)~b(sqlmap|nikto|nmap|masscan|acunetix|nessus|dirbuster|wpscan|havij)~b'']"

definition waf_ruleset :: "string \<Rightarrow> string list option" where
  "waf_ruleset name =
     (let n = to_lower (trim_space name) in if n = [] \<or> n = ''owasp-lite'' then Some owasp_lite else None)"

definition compile_waf_patterns :: "policy_env \<Rightarrow> string list \<Rightarrow> string list option" where
  "compile_waf_patterns E pats =
     (let ps = filter (\<lambda>p. p \<noteq> []) (map trim_space pats) in if list_all (pe_rx_ok E) ps then Some ps else None)"

definition compile_action :: "policy_env \<Rightarrow> (string, string) gomap \<Rightarrow> raw_action \<Rightarrow> policy_action" where
  "compile_action E secrets a =
     (let ty = to_lower (trim_space (ra_type a)) in
      if ty = ''deny'' then ActDeny (if ra_status a < 400 \<or> ra_status a > 599 then 403 else ra_status a) (ra_message a)
      else if ty = ''redirect'' then (if trim_space (ra_location a) = [] then ActNoop else ActRedirect (ra_location a) (ra_status a))
      else if ty = ''require_mtls'' then ActRequireMTLS
      else if ty = ''challenge'' then ActChallenge
      else if ty = ''set_header'' then
        (if hd_set (ra_request a) = [] \<and> hd_remove (ra_request a) = [] \<and> hd_set (ra_response a) = [] \<and> hd_remove (ra_response a) = []
         then ActNoop else ActSetHeader (ra_request a) (ra_response a))
      else if ty = ''rate_limit'' then
        (if ra_requests a \<le> 0 then ActNoop
         else
           let key = trim_space (ra_key a) in
           ActRateLimit \<lparr>li_requests = ra_requests a, li_window = (if ra_window a \<le> 0 then 1 else ra_window a),
                         li_burst = (if ra_burst a \<le> 0 then ra_requests a else ra_burst a)\<rparr> (if key = [] then ''ip'' else key))
      else if ty = ''verify_webhook'' then
        (let prov = to_lower (trim_space (ra_provider a)) in
         if prov \<notin> set webhook_providers then fail_closed
         else case resolve_secret_ref (ra_secret_ref a) secrets of
             None \<Rightarrow> fail_closed
           | Some sec \<Rightarrow> if sec = [] then fail_closed
               else ActVerifyWebhook prov sec (if ra_tolerance a \<le> 0 then 300 * Second else ra_tolerance a * Second))
      else if ty = ''waf'' then
        (case waf_ruleset (ra_ruleset a) of
           None \<Rightarrow> fail_closed
         | Some base \<Rightarrow>
             (case compile_waf_patterns E (ra_patterns a) of None \<Rightarrow> fail_closed | Some custom \<Rightarrow> ActWAF (base @ custom)))
      else ActNoop)"

definition compile_policy ::
  "policy_env \<Rightarrow> string \<Rightarrow> int \<Rightarrow> (string, string) gomap \<Rightarrow> (raw_match \<times> raw_action) list \<Rightarrow> compiled_policy option" where
  "compile_policy E pid prio secrets raws =
     (let rules = filter (\<lambda>r. cu_action r \<noteq> ActNoop)
            (map (\<lambda>(m, a). \<lparr>cu_match = compile_match m, cu_action = compile_action E secrets a\<rparr>) raws) in
      if rules = [] then None else Some \<lparr>cp_id = pid, cp_priority = prio, cp_rules = rules\<rparr>)"

section \<open>Evaluation\<close>

text \<open>A request as the rules see it. The body is the one the webhook check reads: empty where there is none or it cannot
  be read.\<close>

record http_req =
  hq_method :: string
  hq_path :: string
  hq_query :: string
  hq_get :: "string \<Rightarrow> string"
  hq_body :: bytes

record ip_info =
  ii_ok :: bool
  ii_country :: string
  ii_continent :: string
  ii_asn :: nat
  ii_isp :: string

record intel_info =
  ti_tor_exit :: bool
  ti_hosting :: bool
  ti_reputation :: "string list"

definition matches_intel :: "match_cond \<Rightarrow> intel_info \<Rightarrow> bool" where
  "matches_intel m intel \<longleftrightarrow>
     \<not> mc_needs_intel m
     \<or> (case mc_tor_exit m of None \<Rightarrow> True | Some b \<Rightarrow> b = ti_tor_exit intel)
       \<and> (case mc_hosting m of None \<Rightarrow> True | Some b \<Rightarrow> b = ti_hosting intel)
       \<and> (mc_reputation m = [] \<or> list_ex (\<lambda>x. x \<in> set (mc_reputation m)) (ti_reputation intel))"

definition cond_matches :: "match_cond \<Rightarrow> http_req \<Rightarrow> ip_info \<Rightarrow> intel_info \<Rightarrow> bool" where
  "cond_matches m q geo intel =
     (if mc_prefix m \<noteq> [] \<and> \<not> policy_path_matches (hq_path q) (mc_prefix m) then False
      else if mc_methods m \<noteq> [] \<and> to_upper (hq_method q) \<notin> set (mc_methods m) then False
      else if \<not> list_all (\<lambda>(k, v). hq_get q k = v) (mc_header m) then False
      else if \<not> mc_needs_geo m then matches_intel m intel
      else if mc_unknown m then (if ii_ok geo \<and> ii_country geo \<noteq> [] then False else matches_intel m intel)
      else if \<not> ii_ok geo then False
      else if mc_country_not m \<noteq> [] \<and> (ii_country geo = [] \<or> ii_country geo \<in> set (mc_country_not m)) then False
      else if mc_country m \<noteq> [] \<and> ii_country geo \<notin> set (mc_country m) then False
      else if mc_continent m \<noteq> [] \<and> ii_continent geo \<notin> set (mc_continent m) then False
      else if mc_asn m \<noteq> [] \<and> ii_asn geo \<notin> set (mc_asn m) then False
      else if mc_isp m \<noteq> [] \<and> to_upper (ii_isp geo) \<notin> set (mc_isp m) then False
      else matches_intel m intel)"

definition rate_limit_key :: "string \<Rightarrow> http_req \<Rightarrow> string \<Rightarrow> string \<Rightarrow> string" where
  "rate_limit_key k q ip tunnel =
     (if k = ''ip'' then ''ip:'' @ ip
      else if k = ''tunnel'' then ''tunnel:'' @ tunnel
      else if has_prefix k ''header:'' then
        (let name = trim_prefix k ''header:'' in ''hdr:'' @ name @ '':'' @ hq_get q name)
      else ''ip:'' @ ip)"

definition wafHardLimit :: nat where "wafHardLimit = 64 * 1024"

definition field_too_long :: "string \<Rightarrow> bool" where
  "field_too_long s \<longleftrightarrow> wafHardLimit < length s"

lemma field_too_long_code [code]: "field_too_long s \<longleftrightarrow> 65536 < int (length s)"
  by (auto simp: field_too_long_def wafHardLimit_def)

definition waf_fields :: "policy_env \<Rightarrow> http_req \<Rightarrow> string list" where
  "waf_fields E q =
     hq_path q # (if hq_query q = [] then []
        else hq_query q # (case pe_unescape E (hq_query q) of None \<Rightarrow> [] | Some d \<Rightarrow> if d = hq_query q then [] else [d]))
     @ filter (\<lambda>v. v \<noteq> []) (map (hq_get q) [''User-Agent'', ''Referer'', ''Cookie''])"

definition waf_scan :: "policy_env \<Rightarrow> http_req \<Rightarrow> string list \<Rightarrow> string option" where
  "waf_scan E q rules =
     (if rules = [] then None
      else if list_ex field_too_long (waf_fields E q) then Some ''oversize-field''
      else List.find (\<lambda>re. list_ex (pe_rx_match E re) (waf_fields E q)) rules)"

definition WebhookMaxBody :: nat where "WebhookMaxBody = 1024 * 1024"

definition body_too_large :: "bytes \<Rightarrow> bool" where
  "body_too_large b \<longleftrightarrow> WebhookMaxBody < length b"

lemma body_too_large_code [code]: "body_too_large b \<longleftrightarrow> 1048576 < int (length b)"
  by (auto simp: body_too_large_def WebhookMaxBody_def)

text \<open>What is known of a request when the rules are evaluated: who sent it, whether its certificate was checked, and
  the verdicts of the limiters (by rule number).\<close>

record request_facts =
  rf_ip :: string
  rf_tunnel :: string
  rf_mtls :: bool
  rf_geo :: ip_info
  rf_intel :: intel_info
  rf_allow :: "nat \<Rightarrow> string \<Rightarrow> bool"

record policy_outcome =
  po_deny_status :: int
  po_deny_message :: string
  po_redirect_loc :: string
  po_redirect_status :: int
  po_rate_limited :: bool
  po_mtls_failed :: bool
  po_webhook_failed :: bool
  po_webhook_status :: int
  po_challenge :: bool
  po_waf_blocked :: bool
  po_waf_rule :: string
  po_request :: "header_rules option"
  po_response :: "header_rules option"

definition no_outcome :: policy_outcome where
  "no_outcome = \<lparr>po_deny_status = 0, po_deny_message = [], po_redirect_loc = [], po_redirect_status = 0, po_rate_limited = False,
     po_mtls_failed = False, po_webhook_failed = False, po_webhook_status = 0, po_challenge = False, po_waf_blocked = False,
     po_waf_rule = [], po_request = None, po_response = None\<rparr>"

definition terminal :: "policy_outcome \<Rightarrow> bool" where
  "terminal o' \<longleftrightarrow> po_deny_status o' > 0 \<or> po_redirect_loc o' \<noteq> [] \<or> po_rate_limited o' \<or> po_mtls_failed o' \<or> po_webhook_failed o'
     \<or> po_waf_blocked o'"

definition merge_rules :: "header_rules \<Rightarrow> header_rules \<Rightarrow> header_rules" where
  "merge_rules acc hr = \<lparr>hd_set = fold (\<lambda>(k, v). gm_put k v) (hd_set hr) (hd_set acc), hd_remove = hd_remove acc @ hd_remove hr\<rparr>"

definition some_rules :: "header_rules \<Rightarrow> header_rules option" where
  "some_rules hr = (if hd_set hr = [] \<and> hd_remove hr = [] then None else Some hr)"

text \<open>The loop over the rules of all policies, numbered from \<open>i\<close>. Besides the outcome it returns the limiters that were
  asked, with the keys they counted.\<close>

fun eval_rules ::
  "policy_env \<Rightarrow> request_facts \<Rightarrow> http_req \<Rightarrow> nat \<Rightarrow> header_rules \<Rightarrow> header_rules \<Rightarrow> policy_outcome \<Rightarrow> (nat \<times> string) list
   \<Rightarrow> compiled_rule list \<Rightarrow> policy_outcome \<times> (nat \<times> string) list" where
  "eval_rules E f q i hreq hresp out asked [] = (out\<lparr>po_request := some_rules hreq, po_response := some_rules hresp\<rparr>, asked)"
| "eval_rules E f q i hreq hresp out asked (r # rs) =
     (if \<not> cond_matches (cu_match r) q (rf_geo f) (rf_intel f) then eval_rules E f q (Suc i) hreq hresp out asked rs
      else case cu_action r of
          ActDeny st msg \<Rightarrow> (out\<lparr>po_deny_status := st, po_deny_message := msg\<rparr>, asked)
        | ActRedirect loc st \<Rightarrow>
            (out\<lparr>po_redirect_loc := loc, po_redirect_status := (if st \<in> {301, 302, 307, 308} then st else 302)\<rparr>, asked)
        | ActChallenge \<Rightarrow> eval_rules E f q (Suc i) hreq hresp (out\<lparr>po_challenge := True\<rparr>) asked rs
        | ActRequireMTLS \<Rightarrow>
            if \<not> rf_mtls f then (out\<lparr>po_mtls_failed := True\<rparr>, asked) else eval_rules E f q (Suc i) hreq hresp out asked rs
        | ActRateLimit li k \<Rightarrow>
            let key = rate_limit_key k q (rf_ip f) (rf_tunnel f); asked' = asked @ [(i, key)] in
            if \<not> rf_allow f i key then (out\<lparr>po_rate_limited := True\<rparr>, asked') else eval_rules E f q (Suc i) hreq hresp out asked' rs
        | ActVerifyWebhook prov sec tol \<Rightarrow>
            if body_too_large (hq_body q) then (out\<lparr>po_webhook_failed := True, po_webhook_status := 413\<rparr>, asked)
            else if \<not> pe_verify E prov sec (hq_body q) (hq_get q) tol
            then (out\<lparr>po_webhook_failed := True, po_webhook_status := 401\<rparr>, asked)
            else eval_rules E f q (Suc i) hreq hresp out asked rs
        | ActWAF rules \<Rightarrow>
            (case waf_scan E q rules of
               Some re \<Rightarrow> (out\<lparr>po_waf_blocked := True, po_waf_rule := re\<rparr>, asked)
             | None \<Rightarrow> eval_rules E f q (Suc i) hreq hresp out asked rs)
        | ActSetHeader a b \<Rightarrow> eval_rules E f q (Suc i) (merge_rules hreq a) (merge_rules hresp b) out asked rs
        | ActNoop \<Rightarrow> eval_rules E f q (Suc i) hreq hresp out asked rs)"

definition evaluate_policy_list ::
  "policy_env \<Rightarrow> request_facts \<Rightarrow> http_req \<Rightarrow> compiled_policy list \<Rightarrow> policy_outcome \<times> (nat \<times> string) list" where
  "evaluate_policy_list E f q ps = eval_rules E f q 0 no_headers no_headers no_outcome [] (concat (map cp_rules ps))"

section \<open>Headers of the traffic rules\<close>

text \<open>\<open>combineHeaderRules\<close>, and the header operations on a request: removals first, then the new values.\<close>

definition combine_header_rules :: "header_rules \<Rightarrow> header_rules \<Rightarrow> header_rules" where
  "combine_header_rules base add =
     \<lparr>hd_set = fold (\<lambda>(k, v). gm_put k v) (hd_set add) (hd_set base), hd_remove = hd_remove base @ hd_remove add\<rparr>"

definition apply_headers :: "header_rules \<Rightarrow> (string, string) gomap \<Rightarrow> (string, string) gomap" where
  "apply_headers hr h = fold (\<lambda>(k, v). gm_put k v) (hd_set hr) (fold gm_del (hd_remove hr) h)"

section \<open>What the rules decide\<close>

definition rule_hit :: "request_facts \<Rightarrow> http_req \<Rightarrow> compiled_rule \<Rightarrow> bool" where
  "rule_hit f q r \<longleftrightarrow> cond_matches (cu_match r) q (rf_geo f) (rf_intel f)"

text \<open>The verdict of a rule that ends the evaluation, for the outcome gathered so far; \<open>None\<close> for a rule that lets the
  request go on.\<close>

definition rule_verdict :: "policy_env \<Rightarrow> request_facts \<Rightarrow> http_req \<Rightarrow> nat \<Rightarrow> compiled_rule \<Rightarrow> (policy_outcome \<Rightarrow> policy_outcome) option" where
  "rule_verdict E f q i r =
     (if \<not> rule_hit f q r then None
      else case cu_action r of
          ActDeny st msg \<Rightarrow> Some (\<lambda>out. out\<lparr>po_deny_status := st, po_deny_message := msg\<rparr>)
        | ActRedirect loc st \<Rightarrow>
            Some (\<lambda>out. out\<lparr>po_redirect_loc := loc, po_redirect_status := (if st \<in> {301, 302, 307, 308} then st else 302)\<rparr>)
        | ActRequireMTLS \<Rightarrow> if rf_mtls f then None else Some (po_mtls_failed_update (\<lambda>_. True))
        | ActRateLimit li k \<Rightarrow>
            if rf_allow f i (rate_limit_key k q (rf_ip f) (rf_tunnel f)) then None else Some (po_rate_limited_update (\<lambda>_. True))
        | ActVerifyWebhook prov sec tol \<Rightarrow>
            if body_too_large (hq_body q) then Some (\<lambda>out. out\<lparr>po_webhook_failed := True, po_webhook_status := 413\<rparr>)
            else if pe_verify E prov sec (hq_body q) (hq_get q) tol then None
            else Some (\<lambda>out. out\<lparr>po_webhook_failed := True, po_webhook_status := 401\<rparr>)
        | ActWAF rules \<Rightarrow> map_option (\<lambda>re out. out\<lparr>po_waf_blocked := True, po_waf_rule := re\<rparr>) (waf_scan E q rules)
        | _ \<Rightarrow> None)"

definition decisive :: "policy_env \<Rightarrow> request_facts \<Rightarrow> http_req \<Rightarrow> nat \<Rightarrow> compiled_rule \<Rightarrow> bool" where
  "decisive E f q i r \<longleftrightarrow> rule_verdict E f q i r \<noteq> None"

definition challenged :: "request_facts \<Rightarrow> http_req \<Rightarrow> compiled_rule list \<Rightarrow> bool" where
  "challenged f q rs \<longleftrightarrow> list_ex (\<lambda>r. rule_hit f q r \<and> cu_action r = ActChallenge) rs"

definition request_rules :: "request_facts \<Rightarrow> http_req \<Rightarrow> header_rules \<Rightarrow> compiled_rule list \<Rightarrow> header_rules" where
  "request_rules f q =
     foldl (\<lambda>acc r. case cu_action r of ActSetHeader a b \<Rightarrow> if rule_hit f q r then merge_rules acc a else acc | _ \<Rightarrow> acc)"

definition response_rules :: "request_facts \<Rightarrow> http_req \<Rightarrow> header_rules \<Rightarrow> compiled_rule list \<Rightarrow> header_rules" where
  "response_rules f q =
     foldl (\<lambda>acc r. case cu_action r of ActSetHeader a b \<Rightarrow> if rule_hit f q r then merge_rules acc b else acc | _ \<Rightarrow> acc)"

fun limiters_asked :: "request_facts \<Rightarrow> http_req \<Rightarrow> nat \<Rightarrow> compiled_rule list \<Rightarrow> (nat \<times> string) list" where
  "limiters_asked f q i [] = []"
| "limiters_asked f q i (r # rs) =
     (case cu_action r of
        ActRateLimit li k \<Rightarrow> if rule_hit f q r then [(i, rate_limit_key k q (rf_ip f) (rf_tunnel f))] else []
      | _ \<Rightarrow> []) @ limiters_asked f q (Suc i) rs"

fun first_decisive :: "policy_env \<Rightarrow> request_facts \<Rightarrow> http_req \<Rightarrow> nat \<Rightarrow> compiled_rule list \<Rightarrow> nat option" where
  "first_decisive E f q i [] = None"
| "first_decisive E f q i (r # rs) = (if decisive E f q i r then Some 0 else map_option Suc (first_decisive E f q (Suc i) rs))"

lemma first_decisive_Some:
  "first_decisive E f q i rs = Some k \<longleftrightarrow>
     k < length rs \<and> decisive E f q (i + k) (rs ! k) \<and> (\<forall>j<k. \<not> decisive E f q (i + j) (rs ! j))"
proof (induction rs arbitrary: i k)
  case (Cons r rs)
  show ?case
    using Cons [of "Suc i" "k - 1"] by (cases k) (auto simp: All_less_Suc2)
qed simp

lemma first_decisive_None:
  "first_decisive E f q i rs = None \<longleftrightarrow> (\<forall>j<length rs. \<not> decisive E f q (i + j) (rs ! j))"
  by (induction rs arbitrary: i) (auto simp: All_less_Suc2)

lemma eval_rules_step:
  "eval_rules E f q i hq hp out asked (r # rs) =
     (case rule_verdict E f q i r of
        Some v \<Rightarrow> (v out, asked @ limiters_asked f q i [r])
      | None \<Rightarrow> eval_rules E f q (Suc i) (request_rules f q hq [r]) (response_rules f q hp [r])
          (if challenged f q [r] then out\<lparr>po_challenge := True\<rparr> else out) (asked @ limiters_asked f q i [r]) rs)"
  by (cases "cu_action r")
     (auto simp: rule_verdict_def rule_hit_def request_rules_def response_rules_def challenged_def Let_def split: option.split)

lemma rules_split:
  "request_rules f q hq (r # rs) = request_rules f q (request_rules f q hq [r]) rs"
  "response_rules f q hq (r # rs) = response_rules f q (response_rules f q hq [r]) rs"
  "limiters_asked f q i (r # rs) = limiters_asked f q i [r] @ limiters_asked f q (Suc i) rs"
  "challenged f q (r # rs) \<longleftrightarrow> challenged f q [r] \<or> challenged f q rs"
  by (simp_all add: request_rules_def response_rules_def challenged_def)

lemma split_take:
  "limiters_asked f q i (r # take (Suc k) rs) = limiters_asked f q i [r] @ limiters_asked f q (Suc i) (take (Suc k) rs)"
  "challenged f q (r # take k rs) \<longleftrightarrow> challenged f q [r] \<or> challenged f q (take k rs)"
  by (rule rules_split)+

lemma eval_rules_first:
  "eval_rules E f q i hq hp out asked rs =
     (case first_decisive E f q i rs of
        Some k \<Rightarrow> (the (rule_verdict E f q (i + k) (rs ! k)) (if challenged f q (take k rs) then out\<lparr>po_challenge := True\<rparr> else out),
                  asked @ limiters_asked f q i (take (Suc k) rs))
      | None \<Rightarrow> ((if challenged f q rs then out\<lparr>po_challenge := True\<rparr> else out)
                   \<lparr>po_request := some_rules (request_rules f q hq rs), po_response := some_rules (response_rules f q hp rs)\<rparr>,
                 asked @ limiters_asked f q i rs))"
proof (induction rs arbitrary: i hq hp out asked)
  case Nil
  show ?case by (simp add: request_rules_def response_rules_def challenged_def)
next
  case (Cons r rs)
  show ?case
  proof (cases "rule_verdict E f q i r")
    case (Some v)
    then have "first_decisive E f q i (r # rs) = Some 0" by (simp add: decisive_def)
    with Some show ?thesis by (simp only: eval_rules_step) (simp add: challenged_def)
  next
    case None
    then have d: "first_decisive E f q i (r # rs) = map_option Suc (first_decisive E f q (Suc i) rs)" by (simp add: decisive_def)
    show ?thesis
      unfolding eval_rules_step d Cons.IH
      by (cases "first_decisive E f q (Suc i) rs")
         (simp_all add: None rules_split(1,2) [of f q _ r rs] rules_split(3) [of f q i r rs] rules_split(4) [of f q r rs] split_take del: limiters_asked.simps)
  qed
qed

section \<open>Compiled rules are sound\<close>

text \<open>A compiled rule does something, its refusals carry an error status and its redirects go somewhere, so that each
  verdict shows in the outcome.\<close>

definition rule_sound :: "compiled_rule \<Rightarrow> bool" where
  "rule_sound r \<longleftrightarrow>
     (case cu_action r of ActDeny st msg \<Rightarrow> 0 < st | ActRedirect loc st \<Rightarrow> loc \<noteq> [] | ActNoop \<Rightarrow> False | _ \<Rightarrow> True)"

lemma trim_space_nonempty: "trim_space s \<noteq> [] \<Longrightarrow> s \<noteq> []"
  by (auto simp: trim_space_def trim_left_def trim_right_def)

lemma compile_action_sound:
  assumes "compile_action E secrets a \<noteq> ActNoop"
  shows "rule_sound \<lparr>cu_match = m, cu_action = compile_action E secrets a\<rparr>"
  using assms
  by (auto simp: compile_action_def rule_sound_def Let_def fail_closed_def trim_space_nonempty split: if_splits option.splits)

lemma compile_policy_rules:
  assumes "compile_policy E pid prio secrets raws = Some p"
  shows "cp_rules p = filter (\<lambda>r. cu_action r \<noteq> ActNoop)
           (map (\<lambda>(m, a). \<lparr>cu_match = compile_match m, cu_action = compile_action E secrets a\<rparr>) raws)"
    and "cp_id p = pid" and "cp_priority p = prio" and "cp_rules p \<noteq> []"
  using assms by (auto simp: compile_policy_def Let_def split: if_splits)

lemma compile_policy_exists:
  assumes "(m, a) \<in> set raws" and "compile_action E secrets a \<noteq> ActNoop"
  shows "\<exists>p. compile_policy E pid prio secrets raws = Some p"
proof -
  let ?rules = "filter (\<lambda>r. cu_action r \<noteq> ActNoop)
      (map (\<lambda>(m, a). \<lparr>cu_match = compile_match m, cu_action = compile_action E secrets a\<rparr>) raws)"
  have "\<lparr>cu_match = compile_match m, cu_action = compile_action E secrets a\<rparr> \<in> set ?rules" using assms by force
  then have "?rules \<noteq> []" by (metis list.set(1) empty_iff)
  then show ?thesis by (simp add: compile_policy_def Let_def)
qed

lemma compile_policy_sound:
  assumes "compile_policy E pid prio secrets raws = Some p"
  shows "list_all rule_sound (cp_rules p)"
  unfolding compile_policy_rules(1) [OF assms]
  by (auto simp: list_all_iff intro!: compile_action_sound)

lemma verdict_terminal:
  assumes "rule_verdict E f q i r = Some v" and "rule_sound r"
  shows "terminal (v out)"
  using assms by (auto simp: rule_verdict_def rule_sound_def terminal_def split: if_splits policy_action.splits)

definition compiled_list :: "policy_env \<Rightarrow> compiled_policy list \<Rightarrow> bool" where
  "compiled_list E ps \<longleftrightarrow> (\<forall>p\<in>set ps. \<exists>pid prio secrets raws. compile_policy E pid prio secrets raws = Some p)"

lemma compiled_list_sound: "compiled_list E ps \<Longrightarrow> r \<in> set (concat (map cp_rules ps)) \<Longrightarrow> rule_sound r"
  by (auto simp: compiled_list_def list_all_iff dest!: bspec compile_policy_sound)

lemma not_terminal_none: "\<not> terminal (no_outcome\<lparr>po_challenge := c, po_request := a, po_response := b\<rparr>)"
  by (simp add: terminal_def no_outcome_def)

lemma challenge_default: "(if c then no_outcome\<lparr>po_challenge := True\<rparr> else no_outcome) = no_outcome\<lparr>po_challenge := c\<rparr>"
  by (simp add: no_outcome_def)

lemma no_challenge: "no_outcome\<lparr>po_challenge := False\<rparr> = no_outcome"
  by (simp add: no_outcome_def)

lemma evaluate_first:
  "evaluate_policy_list E f q ps =
     (let rs = concat (map cp_rules ps) in
      case first_decisive E f q 0 rs of
        Some k \<Rightarrow> (the (rule_verdict E f q k (rs ! k)) (no_outcome\<lparr>po_challenge := challenged f q (take k rs)\<rparr>),
                  limiters_asked f q 0 (take (Suc k) rs))
      | None \<Rightarrow> (no_outcome\<lparr>po_challenge := challenged f q rs, po_request := some_rules (request_rules f q no_headers rs),
                   po_response := some_rules (response_rules f q no_headers rs)\<rparr>,
                 limiters_asked f q 0 rs))"
  by (simp add: evaluate_policy_list_def eval_rules_first challenge_default no_challenge Let_def split: option.split)

lemma evaluate_terminal:
  assumes "compiled_list E ps"
  shows "terminal (fst (evaluate_policy_list E f q ps)) \<longleftrightarrow> first_decisive E f q 0 (concat (map cp_rules ps)) \<noteq> None"
proof (cases "first_decisive E f q 0 (concat (map cp_rules ps))")
  case None
  then show ?thesis by (simp add: evaluate_first not_terminal_none Let_def)
next
  case (Some k)
  let ?rs = "concat (map cp_rules ps)"
  from Some have k: "k < length ?rs" and d: "decisive E f q k (?rs ! k)" by (simp_all add: first_decisive_Some)
  from d obtain v where v: "rule_verdict E f q k (?rs ! k) = Some v" by (auto simp: decisive_def)
  have "rule_sound (?rs ! k)" using compiled_list_sound [OF assms nth_mem [OF k]] .
  with Some v show ?thesis by (simp add: evaluate_first Let_def verdict_terminal [OF v])
qed

text \<open>C5: For the rules of compiled policies, \<open>evaluatePolicyList\<close> is the first-match reading of the rule list. The request is
  ended exactly if some rule is decisive for it (a matching refusal or redirect, a client certificate that is missing, a limiter that
  refuses, a webhook body that is too large or whose signature is wrong, a WAF hit). Then the outcome is the verdict of the first such
  rule alone, marked as challenged if a challenge rule before it matched, and no limiter after it has counted the request. Otherwise
  the outcome carries the header changes of all matching \<open>set_header\<close> rules in the order of the rules, and each limiter of a
  matching rule has counted the request once.\<close>

theorem policy_first_decisive:
  assumes "compiled_list E ps"
  defines "rs \<equiv> concat (map cp_rules ps)"
  shows "(terminal (fst (evaluate_policy_list E f q ps)) \<longleftrightarrow> (\<exists>k<length rs. decisive E f q k (rs ! k)))
    \<and> (\<forall>k<length rs. decisive E f q k (rs ! k) \<longrightarrow> (\<forall>j<k. \<not> decisive E f q j (rs ! j)) \<longrightarrow>
         evaluate_policy_list E f q ps =
           (the (rule_verdict E f q k (rs ! k)) (no_outcome\<lparr>po_challenge := challenged f q (take k rs)\<rparr>),
            limiters_asked f q 0 (take (Suc k) rs)))
    \<and> ((\<forall>k<length rs. \<not> decisive E f q k (rs ! k)) \<longrightarrow>
         evaluate_policy_list E f q ps =
           (no_outcome\<lparr>po_challenge := challenged f q rs, po_request := some_rules (request_rules f q no_headers rs),
              po_response := some_rules (response_rules f q no_headers rs)\<rparr>,
            limiters_asked f q 0 rs))"
proof (intro conjI allI impI)
  show "terminal (fst (evaluate_policy_list E f q ps)) \<longleftrightarrow> (\<exists>k<length rs. decisive E f q k (rs ! k))"
    using first_decisive_None [of E f q 0 rs] by (auto simp: evaluate_terminal [OF assms(1)] rs_def)
next
  fix k assume "k < length rs" "decisive E f q k (rs ! k)" "\<forall>j<k. \<not> decisive E f q j (rs ! j)"
  then have "first_decisive E f q 0 rs = Some k" by (simp add: first_decisive_Some)
  then show "evaluate_policy_list E f q ps =
      (the (rule_verdict E f q k (rs ! k)) (no_outcome\<lparr>po_challenge := challenged f q (take k rs)\<rparr>), limiters_asked f q 0 (take (Suc k) rs))"
    by (simp add: evaluate_first rs_def Let_def)
next
  assume "\<forall>k<length rs. \<not> decisive E f q k (rs ! k)"
  then have "first_decisive E f q 0 rs = None" by (simp add: first_decisive_None)
  then show "evaluate_policy_list E f q ps =
      (no_outcome\<lparr>po_challenge := challenged f q rs, po_request := some_rules (request_rules f q no_headers rs),
         po_response := some_rules (response_rules f q no_headers rs)\<rparr>, limiters_asked f q 0 rs)"
    by (simp add: evaluate_first rs_def Let_def)
qed

lemma policy_first_decisive_witness:
  "let E = \<lparr>pe_rx_ok = (\<lambda>p. True), pe_rx_match = (\<lambda>p s. False), pe_unescape = Some,
            pe_verify = (\<lambda>p s b h t. False)\<rparr>;
       m = \<lparr>rm_path_prefix = [], rm_methods = [], rm_header = [], rm_country = [], rm_country_not = [], rm_unknown = None,
            rm_continent = [], rm_asn = [], rm_isp = [], rm_tor_exit = None, rm_hosting = None, rm_reputation = []\<rparr>;
       a = \<lparr>ra_type = ''Deny'', ra_status = 200, ra_message = ''no'', ra_location = [], ra_request = no_headers, ra_response = no_headers,
            ra_key = [], ra_requests = 3, ra_window = 0, ra_burst = 0, ra_provider = [], ra_secret_ref = [], ra_tolerance = 0,
            ra_ruleset = [], ra_patterns = []\<rparr>;
       ps = [the (compile_policy E ''p1'' 10 [] [(m, a\<lparr>ra_type := ''challenge''\<rparr>), (m, a\<lparr>ra_type := ''rate_limit''\<rparr>),
               (m\<lparr>rm_path_prefix := ''admin''\<rparr>, a), (m, a\<lparr>ra_type := ''require_mtls''\<rparr>)])];
       q = \<lparr>hq_method = ''GET'', hq_path = ''/x/../admin/a'', hq_query = [], hq_get = (\<lambda>k. []), hq_body = []\<rparr>;
       f = \<lparr>rf_ip = ''192.0.2.7'', rf_tunnel = ''t1'', rf_mtls = False, rf_geo = \<lparr>ii_ok = False, ii_country = [], ii_continent = [],
              ii_asn = 0, ii_isp = []\<rparr>, rf_intel = \<lparr>ti_tor_exit = False, ti_hosting = False, ti_reputation = []\<rparr>, rf_allow = (\<lambda>i k. True)\<rparr>
   in terminal (fst (evaluate_policy_list E f q ps))
      \<and> evaluate_policy_list E f q ps =
          (no_outcome\<lparr>po_challenge := True, po_deny_status := 403, po_deny_message := ''no''\<rparr>, [(1, ''ip:192.0.2.7'')])"
proof -
  define E where "E = \<lparr>pe_rx_ok = (\<lambda>p. True), pe_rx_match = (\<lambda>p s. False), pe_unescape = Some,
            pe_verify = (\<lambda>p s b h t. False)\<rparr>"
  define m where "m = \<lparr>rm_path_prefix = [], rm_methods = [], rm_header = [], rm_country = [], rm_country_not = [], rm_unknown = None,
            rm_continent = [], rm_asn = [], rm_isp = [], rm_tor_exit = None, rm_hosting = None, rm_reputation = []\<rparr>"
  define a where "a = \<lparr>ra_type = ''Deny'', ra_status = 200, ra_message = ''no'', ra_location = [], ra_request = no_headers, ra_response = no_headers,
            ra_key = [], ra_requests = 3, ra_window = 0, ra_burst = 0, ra_provider = [], ra_secret_ref = [], ra_tolerance = 0,
            ra_ruleset = [], ra_patterns = []\<rparr>"
  let ?raws = "[(m, a\<lparr>ra_type := ''challenge''\<rparr>), (m, a\<lparr>ra_type := ''rate_limit''\<rparr>),
               (m\<lparr>rm_path_prefix := ''admin''\<rparr>, a), (m, a\<lparr>ra_type := ''require_mtls''\<rparr>)]"
  define q where "q = \<lparr>hq_method = ''GET'', hq_path = ''/x/../admin/a'', hq_query = [], hq_get = (\<lambda>k. []), hq_body = []\<rparr>"
  define f where "f = \<lparr>rf_ip = ''192.0.2.7'', rf_tunnel = ''t1'', rf_mtls = False, rf_geo = \<lparr>ii_ok = False, ii_country = [], ii_continent = [],
              ii_asn = 0, ii_isp = []\<rparr>, rf_intel = \<lparr>ti_tor_exit = False, ti_hosting = False, ti_reputation = []\<rparr>, rf_allow = (\<lambda>i k. True)\<rparr>"
  note D = E_def m_def a_def q_def f_def
  have c: "compile_policy E ''p1'' 10 [] ?raws \<noteq> None"
    unfolding D by code_simp
  have L: "compiled_list E [the (compile_policy E ''p1'' 10 [] ?raws)]"
    using c by (auto simp: compiled_list_def)
  let ?ps = "[the (compile_policy E ''p1'' 10 [] ?raws)]"
  let ?rs = "concat (map cp_rules ?ps)"
  have dec: "2 < length ?rs \<and> decisive E f q 2 (?rs ! 2) \<and> \<not> decisive E f q 0 (?rs ! 0) \<and> \<not> decisive E f q 1 (?rs ! 1)"
    unfolding D by code_simp
  have val: "(the (rule_verdict E f q 2 (?rs ! 2)) (no_outcome\<lparr>po_challenge := challenged f q (take 2 ?rs)\<rparr>),
              limiters_asked f q 0 (take (Suc 2) ?rs)) =
             (no_outcome\<lparr>po_challenge := True, po_deny_status := 403, po_deny_message := ''no''\<rparr>, [(1, ''ip:192.0.2.7'')])"
    unfolding D by code_simp
  have before: "\<forall>j<2. \<not> decisive E f q j (?rs ! j)"
    using dec by (auto simp: less_2_cases_iff)
  note pol = policy_first_decisive [OF L, of f q]
  have "terminal (fst (evaluate_policy_list E f q ?ps))"
    using pol dec by blast
  moreover have "evaluate_policy_list E f q ?ps =
      (no_outcome\<lparr>po_challenge := True, po_deny_status := 403, po_deny_message := ''no''\<rparr>, [(1, ''ip:192.0.2.7'')])"
    using pol dec before unfolding val [symmetric] by blast
  ultimately show ?thesis
    by (simp add: Let_def D)
qed

section \<open>Security rules fail closed\<close>

definition action_type :: "raw_action \<Rightarrow> string" where
  "action_type a = to_lower (trim_space (ra_type a))"

text \<open>What a request has to satisfy to pass a configured rule, read off the raw configuration. A webhook or WAF rule that
  cannot be set up is passed by no request.\<close>

definition passes_rule :: "policy_env \<Rightarrow> request_facts \<Rightarrow> (string, string) gomap \<Rightarrow> http_req \<Rightarrow> raw_action \<Rightarrow> bool" where
  "passes_rule E f secrets q a \<longleftrightarrow>
     action_type a \<noteq> ''deny''
     \<and> (action_type a = ''require_mtls'' \<longrightarrow> rf_mtls f)
     \<and> (action_type a = ''verify_webhook'' \<longrightarrow>
          (\<exists>sec. to_lower (trim_space (ra_provider a)) \<in> set webhook_providers
             \<and> resolve_secret_ref (ra_secret_ref a) secrets = Some sec \<and> \<not> body_too_large (hq_body q)
             \<and> pe_verify E (to_lower (trim_space (ra_provider a))) sec (hq_body q) (hq_get q)
                 (if ra_tolerance a \<le> 0 then 300 * Second else ra_tolerance a * Second)))
     \<and> (action_type a = ''waf'' \<longrightarrow>
          (\<exists>base custom. waf_ruleset (ra_ruleset a) = Some base \<and> compile_waf_patterns E (ra_patterns a) = Some custom
             \<and> waf_scan E q (base @ custom) = None))"

lemma resolved_nonempty: "resolve_secret_ref v secrets = Some sec \<Longrightarrow> sec \<noteq> []"
  by (auto simp: resolve_secret_ref_def Let_def split: if_splits option.splits)

lemma failed_rule_decisive:
  assumes "\<not> passes_rule E f secrets q a" and hit: "rule_hit f q \<lparr>cu_match = m, cu_action = compile_action E secrets a\<rparr>"
  shows "compile_action E secrets a \<noteq> ActNoop" and "decisive E f q i \<lparr>cu_match = m, cu_action = compile_action E secrets a\<rparr>"
proof -
  consider "action_type a = ''deny''" | "action_type a = ''require_mtls''" "\<not> rf_mtls f"
    | "action_type a = ''verify_webhook''" | "action_type a = ''waf''"
    using assms(1) by (auto simp: passes_rule_def)
  then have "compile_action E secrets a \<noteq> ActNoop \<and> decisive E f q i \<lparr>cu_match = m, cu_action = compile_action E secrets a\<rparr>"
  proof cases
    case 1
    then show ?thesis using hit by (simp add: compile_action_def action_type_def Let_def decisive_def rule_verdict_def)
  next
    case 2
    then show ?thesis using hit by (simp add: compile_action_def action_type_def Let_def decisive_def rule_verdict_def)
  next
    case 3
    then show ?thesis using hit assms(1)
      by (auto simp: compile_action_def action_type_def Let_def decisive_def rule_verdict_def fail_closed_def passes_rule_def
          dest: resolved_nonempty split: option.splits if_splits)
  next
    case 4
    then show ?thesis using hit assms(1)
      by (auto simp: compile_action_def action_type_def Let_def decisive_def rule_verdict_def fail_closed_def passes_rule_def
          split: option.splits)
  qed
  then show "compile_action E secrets a \<noteq> ActNoop"
    and "decisive E f q i \<lparr>cu_match = m, cu_action = compile_action E secrets a\<rparr>" by auto
qed

text \<open>A request that the policies of its route do not end has passed every configured rule whose condition matches it,
  wherever the rule stands: no \<open>deny\<close> rule matches it, it showed a client certificate where \<open>require_mtls\<close> asks for one, its
  webhook signature was checked with the configured secret and tolerance, and the WAF found nothing. A webhook or WAF rule whose
  provider, secret, rule set or pattern cannot be resolved is not dropped at compile time: a request it matches is never let
  through.\<close>

lemma security_rules_fail_closed:
  assumes L: "compiled_list E ps" and p: "p \<in> set ps" and c: "compile_policy E pid prio secrets raws = Some p"
    and ma: "(m, a) \<in> set raws" and hit: "cond_matches (compile_match m) q (rf_geo f) (rf_intel f)"
    and pass: "\<not> terminal (fst (evaluate_policy_list E f q ps))"
  shows "passes_rule E f secrets q a"
proof (rule ccontr)
  assume bad: "\<not> passes_rule E f secrets q a"
  let ?r = "\<lparr>cu_match = compile_match m, cu_action = compile_action E secrets a\<rparr>"
  have h: "rule_hit f q ?r" using hit by (simp add: rule_hit_def)
  have "?r \<in> set (cp_rules p)"
    unfolding compile_policy_rules(1) [OF c] using ma failed_rule_decisive(1) [OF bad h] by force
  with p have "?r \<in> set (concat (map cp_rules ps))" by auto
  then obtain k where k: "k < length (concat (map cp_rules ps))" "concat (map cp_rules ps) ! k = ?r"
    unfolding in_set_conv_nth by blast
  have "decisive E f q k (concat (map cp_rules ps) ! k)"
    unfolding k(2) by (rule failed_rule_decisive(2) [OF bad h])
  then have "first_decisive E f q 0 (concat (map cp_rules ps)) \<noteq> None"
    using k(1) first_decisive_None [of E f q 0 "concat (map cp_rules ps)"] by auto
  with pass evaluate_terminal [OF L] show False by simp
qed

end
