(* ===== verification/Load_Balance.thy ===== *)
theory Load_Balance
  imports Go_Strings
begin

text \<open>
  Load balancing between the agents that serve one tunnel (\<open>server/ingress/lb.go\<close>, \<open>backends.go\<close> and the
  schedule of \<open>health.go\<close>): the candidates, the health of each of them from the results of the checks, and
  the order in which they are tried. The exponential average of the latency is computed with floating
  point numbers and is a parameter (\<open>ewma\<close>).
\<close>

section \<open>Configuration and state\<close>

record tunnel_lb =
  lb_strategy :: string
  lb_weights :: "(string, int) gomap"
  lb_health_enabled :: bool
  lb_health_path :: string
  lb_interval_sec :: int
  lb_timeout_sec :: int
  lb_unhealthy_threshold :: int
  lb_healthy_threshold :: int

definition LBWeighted :: string where "LBWeighted = ''weighted''"
definition LBLeastConnections :: string where "LBLeastConnections = ''least_connections''"
definition LBLatency :: string where "LBLatency = ''latency''"
definition LBRoundRobin :: string where "LBRoundRobin = ''round_robin''"

definition default_tunnel_lb :: tunnel_lb where
  "default_tunnel_lb =
     \<lparr>lb_strategy = LBRoundRobin, lb_weights = [], lb_health_enabled = False, lb_health_path = ''/'', lb_interval_sec = 10,
      lb_timeout_sec = 3, lb_unhealthy_threshold = 3, lb_healthy_threshold = 2\<rparr>"

text \<open>The zero value of a health record is healthy.\<close>

record backend_health =
  bh_unhealthy :: bool
  bh_fails :: "32 word"
  bh_oks :: "32 word"
  bh_latency :: int
  bh_last_check :: time
  bh_last_err :: string

definition new_health :: backend_health where
  "new_health = \<lparr>bh_unhealthy = False, bh_fails = 0, bh_oks = 0, bh_latency = 0, bh_last_check = 0, bh_last_err = []\<rparr>"

record lb_state =
  ls_health :: "(string, backend_health) gomap"
  ls_inflight :: "(string, int) gomap"

definition health_key :: "string \<Rightarrow> string \<Rightarrow> string" where
  "health_key tunnel client = tunnel @ ''|'' @ client"

definition health_of :: "lb_state \<Rightarrow> string \<Rightarrow> string \<Rightarrow> backend_health" where
  "health_of s tunnel client = gm_at new_health (ls_health s) (health_key tunnel client)"

definition inflight_of :: "lb_state \<Rightarrow> string \<Rightarrow> int" where
  "inflight_of s client = gm_at 0 (ls_inflight s) client"

definition lb_begin :: "string \<Rightarrow> lb_state \<Rightarrow> lb_state" where
  "lb_begin client s = s\<lparr>ls_inflight := gm_put client (inflight_of s client + 1) (ls_inflight s)\<rparr>"

definition lb_end :: "string \<Rightarrow> lb_state \<Rightarrow> lb_state" where
  "lb_end client s = s\<lparr>ls_inflight := gm_put client (inflight_of s client - 1) (ls_inflight s)\<rparr>"

section \<open>Health\<close>

text \<open>\<open>record\<close> on one health record: the result says whether the verdict changed and whether it is healthy now.\<close>

definition record_health ::
  "(int \<Rightarrow> int \<Rightarrow> int) \<Rightarrow> time \<Rightarrow> bool \<Rightarrow> duration \<Rightarrow> string \<Rightarrow> tunnel_lb \<Rightarrow> backend_health \<Rightarrow> (bool \<times> bool) \<times> backend_health" where
  "record_health ewma now ok latency err cfg h0 =
     (let h = h0\<lparr>bh_last_check := now\<rparr> in
      if ok then
        let n = bh_oks h + 1;
            h1 = h\<lparr>bh_fails := 0, bh_oks := n, bh_latency := (if bh_latency h = 0 then latency else ewma (bh_latency h) latency),
                   bh_last_err := []\<rparr> in
        if bh_unhealthy h \<and> sint n \<ge> max 1 (lb_healthy_threshold cfg) then ((True, True), h1\<lparr>bh_unhealthy := False\<rparr>)
        else ((False, \<not> bh_unhealthy h), h1)
      else
        let n = bh_fails h + 1; h1 = h\<lparr>bh_oks := 0, bh_fails := n, bh_last_err := err\<rparr> in
        if \<not> bh_unhealthy h \<and> sint n \<ge> max 1 (lb_unhealthy_threshold cfg) then ((True, False), h1\<lparr>bh_unhealthy := True\<rparr>)
        else ((False, \<not> bh_unhealthy h), h1))"

definition record_check ::
  "(int \<Rightarrow> int \<Rightarrow> int) \<Rightarrow> time \<Rightarrow> string \<Rightarrow> string \<Rightarrow> bool \<Rightarrow> duration \<Rightarrow> string \<Rightarrow> tunnel_lb \<Rightarrow> lb_state \<Rightarrow> (bool \<times> bool) \<times> lb_state" where
  "record_check ewma now tunnel client ok latency err cfg s =
     (case record_health ewma now ok latency err cfg (health_of s tunnel client) of
        (res, h) \<Rightarrow> (res, s\<lparr>ls_health := gm_put (health_key tunnel client) h (ls_health s)\<rparr>))"

section \<open>The order of the backends\<close>

text \<open>What the choice reads of each candidate.\<close>

record backend_view =
  bv_online :: "string \<Rightarrow> bool"
  bv_healthy :: "string \<Rightarrow> bool"
  bv_latency :: "string \<Rightarrow> duration"
  bv_inflight :: "string \<Rightarrow> int"

definition hub_view :: "(string \<Rightarrow> bool) \<Rightarrow> string \<Rightarrow> lb_state \<Rightarrow> backend_view" where
  "hub_view online tunnel s =
     \<lparr>bv_online = online, bv_healthy = (\<lambda>c. \<not> bh_unhealthy (health_of s tunnel c)),
      bv_latency = (\<lambda>c. bh_latency (health_of s tunnel c)), bv_inflight = inflight_of s\<rparr>"

fun dedup :: "string list \<Rightarrow> string list \<Rightarrow> string list" where
  "dedup seen [] = []"
| "dedup seen (c # cs) = (if c = [] \<or> c \<in> set seen then dedup seen cs else c # dedup (c # seen) cs)"

definition candidate_clients :: "string \<Rightarrow> string list \<Rightarrow> string list" where
  "candidate_clients primary replicas = dedup [] (primary # replicas)"

text \<open>The round-robin rotation: \<open>n\<close> elements from the one the counter points at.\<close>

definition rotation :: "u64 \<Rightarrow> string list \<Rightarrow> string list" where
  "rotation start pool = map (\<lambda>i. pool ! ((unat start mod length pool + i) mod length pool)) [0..<length pool]"

definition order_online :: "string list \<Rightarrow> u64 \<Rightarrow> (string \<Rightarrow> bool) \<Rightarrow> string list" where
  "order_online cands start online = filter online (rotation start cands)"

definition weight_of :: "(string, int) gomap \<Rightarrow> string \<Rightarrow> int" where
  "weight_of ws c = (case map_of ws c of None \<Rightarrow> 1 | Some x \<Rightarrow> if x < 0 then 0 else x)"

fun weighted_pick :: "(string \<Rightarrow> int) \<Rightarrow> int \<Rightarrow> string list \<Rightarrow> string" where
  "weighted_pick w p [] = []"
| "weighted_pick w p (c # cs) = (if p - w c < 0 then c else weighted_pick w (p - w c) cs)"

definition weighted_order :: "string list \<Rightarrow> string list \<Rightarrow> (string, int) gomap \<Rightarrow> u64 \<Rightarrow> string list" where
  "weighted_order pool rot ws start =
     (let w = weight_of ws; total = sum_list (map w pool) in
      if total = 0 then rot
      else
        let chosen = weighted_pick w (uint start mod total) pool in
        chosen # filter (\<lambda>c. c \<noteq> chosen \<and> w c > 0) rot @ filter (\<lambda>c. c \<noteq> chosen \<and> w c = 0) rot)"

definition backend_pool :: "string list \<Rightarrow> tunnel_lb \<Rightarrow> backend_view \<Rightarrow> string list" where
  "backend_pool cands cfg v =
     (let online = filter (bv_online v) cands; healthy = filter (bv_healthy v) online in
      if lb_health_enabled cfg \<and> healthy \<noteq> [] then healthy else online)"

definition latency_rank :: "backend_view \<Rightarrow> string \<Rightarrow> duration" where
  "latency_rank v c = (if bv_latency v c > 0 then bv_latency v c else 2 ^ 62 - 1)"

definition order_backends :: "string list \<Rightarrow> tunnel_lb \<Rightarrow> u64 \<Rightarrow> backend_view \<Rightarrow> string list" where
  "order_backends cands cfg start v =
     (let pool = backend_pool cands cfg v; rot = rotation start pool in
      if filter (bv_online v) cands = [] then []
      else if lb_strategy cfg = LBWeighted then weighted_order pool rot (lb_weights cfg) start
      else if lb_strategy cfg = LBLeastConnections then sort_key (bv_inflight v) rot
      else if lb_strategy cfg = LBLatency then sort_key (latency_rank v) rot
      else rot)"
section \<open>What the order contains\<close>

lemma rotation_rotate: "rotation start pool = rotate (unat start) pool"
proof (cases "pool = []")
  case False
  show ?thesis
    by (rule nth_equalityI) (simp_all add: rotation_def nth_rotate rotate_conv_mod [symmetric] mod_add_left_eq)
qed (simp add: rotation_def)

lemma rotation_simps [simp]:
  "set (rotation start pool) = set pool" "distinct (rotation start pool) = distinct pool" "length (rotation start pool) = length pool"
  "rotation start pool = [] \<longleftrightarrow> pool = []"
  by (simp_all add: rotation_rotate)

lemma dedup_props: "distinct (dedup seen cs) \<and> set (dedup seen cs) = set cs - insert [] (set seen)"
  by (induction seen cs rule: dedup.induct) auto

lemma candidates_distinct [simp]: "distinct (candidate_clients p rs)" "set (candidate_clients p rs) = insert p (set rs) - {[]}"
  using dedup_props [of "[]" "p # rs"] by (simp_all add: candidate_clients_def)

lemma weight_of_nonneg [simp]: "0 \<le> weight_of ws c"
  by (simp add: weight_of_def split: option.split)

lemma weighted_pick_in:
  assumes "0 \<le> p" and "p < sum_list (map w pool)"
  shows "weighted_pick w p pool \<in> set pool \<and> 0 < w (weighted_pick w p pool)"
  using assms
proof (induction pool arbitrary: p)
  case (Cons c cs)
  show ?case
  proof (cases "p - w c < 0")
    case False
    with Cons.prems Cons.IH [of "p - w c"] show ?thesis by simp
  qed (use Cons.prems in simp)
qed simp

lemma sum_weights_nonneg: "0 \<le> sum_list (map (weight_of ws) pool)"
  by (induction pool) simp_all

lemma weighted_order_set:
  assumes "distinct pool"
  shows "set (weighted_order pool (rotation start pool) ws start) = set pool \<and> distinct (weighted_order pool (rotation start pool) ws start)"
proof (cases "sum_list (map (weight_of ws) pool) = 0")
  case False
  let ?total = "sum_list (map (weight_of ws) pool)" and ?w = "weight_of ws"
  have pos: "0 < ?total" using False sum_weights_nonneg [of ws pool] by simp
  let ?chosen = "weighted_pick ?w (uint start mod ?total) pool"
  have "?chosen \<in> set pool" using pos by (intro conjunct1 [OF weighted_pick_in]) simp_all
  moreover have "?w c = 0 \<or> 0 < ?w c" for c using weight_of_nonneg [of ws c] by linarith
  ultimately show ?thesis using False assms by (auto simp: weighted_order_def Let_def)
qed (use assms in \<open>simp add: weighted_order_def\<close>)

lemma backend_pool_set:
  "set (backend_pool cands cfg v) =
     {c \<in> set cands. bv_online v c \<and> (lb_health_enabled cfg \<and> (\<exists>d\<in>set cands. bv_online v d \<and> bv_healthy v d) \<longrightarrow> bv_healthy v c)}"
  by (auto simp: backend_pool_def Let_def filter_empty_conv)

lemma backend_pool_distinct: "distinct cands \<Longrightarrow> distinct (backend_pool cands cfg v)"
  by (simp add: backend_pool_def Let_def)

lemma order_backends_pool:
  assumes "distinct cands"
  shows "set (order_backends cands cfg start v) = set (backend_pool cands cfg v) \<and> distinct (order_backends cands cfg start v)"
proof -
  have "filter (bv_online v) cands = [] \<Longrightarrow> set (backend_pool cands cfg v) = {}"
    unfolding backend_pool_set by (auto simp: filter_empty_conv)
  with backend_pool_distinct [OF assms] weighted_order_set show ?thesis
    by (auto simp: order_backends_def Let_def)
qed

lemma sort_key_least: "x \<in> set xs \<Longrightarrow> f (hd (sort_key f xs)) \<le> f x"
proof -
  assume x: "x \<in> set xs"
  obtain y ys where s: "sort_key f xs = y # ys" using x by (cases "sort_key f xs") (auto dest: arg_cong [of _ _ length])
  have "sorted (map f (y # ys))" using sorted_sort_key [of f xs] by (simp only: s)
  moreover have "x \<in> set (y # ys)" using x by (simp only: s [symmetric] set_sort)
  ultimately show "f (hd (sort_key f xs)) \<le> f x" by (auto simp: s)
qed

text \<open>The order in which the agents of a tunnel are tried contains every agent that may serve, once. These are the
  agents that are online and, with health checks, healthy; if no online agent is healthy, all online agents are used.
  So the list is empty only if nobody is online. With the strategies by connections and by latency no other agent of the list is
  better than the first one.\<close>

lemma backend_order_correct:
  "let cands = candidate_clients primary replicas; out = order_backends cands cfg start v;
       usable = (\<lambda>c. c \<in> set cands \<and> bv_online v c
         \<and> (lb_health_enabled cfg \<and> (\<exists>d\<in>set cands. bv_online v d \<and> bv_healthy v d) \<longrightarrow> bv_healthy v c)) in
   distinct out \<and> (\<forall>c. c \<in> set out \<longleftrightarrow> usable c) \<and> (out = [] \<longleftrightarrow> (\<forall>c\<in>insert primary (set replicas) - {[]}. \<not> bv_online v c))
   \<and> (lb_strategy cfg = LBLeastConnections \<longrightarrow> (\<forall>c\<in>set out. bv_inflight v (hd out) \<le> bv_inflight v c))
   \<and> (lb_strategy cfg = LBLatency \<longrightarrow> (\<forall>c\<in>set out. latency_rank v (hd out) \<le> latency_rank v c))"
proof -
  let ?cands = "candidate_clients primary replicas"
  let ?out = "order_backends ?cands cfg start v"
  have d: "set ?out = set (backend_pool ?cands cfg v)" "distinct ?out" using order_backends_pool [of ?cands cfg start v] by simp_all
  have usable: "c \<in> set ?out \<longleftrightarrow> c \<in> set ?cands \<and> bv_online v c
      \<and> (lb_health_enabled cfg \<and> (\<exists>d\<in>set ?cands. bv_online v d \<and> bv_healthy v d) \<longrightarrow> bv_healthy v c)" for c
    unfolding d(1) backend_pool_set by simp
  have "?out = [] \<longleftrightarrow> (\<forall>c\<in>set ?cands. \<not> bv_online v c)"
  proof
    assume "?out = []"
    then have none: "c \<notin> set ?out" for c by simp
    show "\<forall>c\<in>set ?cands. \<not> bv_online v c"
    proof (rule ccontr)
      assume "\<not> (\<forall>c\<in>set ?cands. \<not> bv_online v c)"
      then obtain c where c: "c \<in> set ?cands" "bv_online v c" by blast
      with none usable show False by metis
    qed
  next
    assume "\<forall>c\<in>set ?cands. \<not> bv_online v c"
    then have "c \<notin> set ?out" for c unfolding usable by blast
    then show "?out = []" by (metis list.set_intros(1) neq_Nil_conv)
  qed
  moreover have "\<forall>c\<in>set ?out. bv_inflight v (hd ?out) \<le> bv_inflight v c" if s: "lb_strategy cfg = LBLeastConnections"
    using s by (auto intro: sort_key_least simp: order_backends_def Let_def LBWeighted_def LBLeastConnections_def)
  moreover have "\<forall>c\<in>set ?out. latency_rank v (hd ?out) \<le> latency_rank v c" if s: "lb_strategy cfg = LBLatency"
    using s by (auto intro: sort_key_least simp: order_backends_def Let_def LBWeighted_def LBLeastConnections_def LBLatency_def)
  ultimately show ?thesis using d(2) usable by (simp add: Let_def)
qed
section \<open>Fair shares\<close>

lemma window_bij:
  fixes n :: int
  assumes "0 < n"
  shows "bij_betw (\<lambda>i. (a + int i) mod n) {i. i < nat n} {p. 0 \<le> p \<and> p < n}"
proof (rule bij_betwI')
  fix x y assume x: "x \<in> {i. i < nat n}" and y: "y \<in> {i. i < nat n}"
  show "((a + int x) mod n = (a + int y) mod n) = (x = y)"
  proof
    assume "(a + int x) mod n = (a + int y) mod n"
    then have "n dvd (a + int x) - (a + int y)" by (simp add: mod_eq_dvd_iff)
    then have "n dvd int x - int y" by simp
    moreover have "\<bar>int x - int y\<bar> < n" using x y by auto
    ultimately show "x = y" using dvd_imp_le_int [of "int x - int y" n] by fastforce
  qed simp
next
  fix x :: nat show "(a + int x) mod n \<in> {p. 0 \<le> p \<and> p < n}" using assms by simp
next
  fix p assume p: "p \<in> {p. 0 \<le> p \<and> p < n}"
  have "(a + (p - a) mod n) mod n = p" using p by (simp add: mod_add_right_eq)
  moreover have "0 \<le> (p - a) mod n" "(p - a) mod n < n" using assms by simp_all
  ultimately show "\<exists>x\<in>{i. i < nat n}. p = (a + int x) mod n" by (intro bexI [of _ "nat ((p - a) mod n)"]) auto
qed

lemma window_count:
  fixes n :: int
  assumes "0 < n"
  shows "card {i. i < nat n \<and> P ((a + int i) mod n)} = card {p. 0 \<le> p \<and> p < n \<and> P p}"
proof -
  let ?f = "\<lambda>i. (a + int i) mod n"
  have "bij_betw ?f {i \<in> {i. i < nat n}. P (?f i)} {p \<in> {p. 0 \<le> p \<and> p < n}. P p}"
    using window_bij [OF assms, of a] unfolding bij_betw_def inj_on_def by (auto simp: image_iff)
  then show ?thesis using bij_betw_same_card by fastforce
qed

lemma start_add:
  fixes start :: u64
  assumes "uint start + int i < 2 ^ 64"
  shows "uint (start + of_nat i) = uint start + int i"
proof -
  have "uint start + int i < 2 ^ 64" "0 \<le> uint start + int i" using assms by simp_all
  then show ?thesis by (simp add: uint_word_ariths uint_nat [symmetric] unsigned_of_nat take_bit_eq_mod mod_add_right_eq of_nat_mod)
qed

text \<open>Over all remainders each candidate is chosen as often as its weight says.\<close>

lemma pick_count:
  assumes "distinct pool" and "\<And>c. 0 \<le> w c" and "c \<in> set pool"
  shows "int (card {p. 0 \<le> p \<and> p < sum_list (map w pool) \<and> weighted_pick w p pool = c}) = w c"
  using assms
proof (induction pool)
  case (Cons d cs)
  let ?S = "\<lambda>xs. {p. 0 \<le> p \<and> p < sum_list (map w xs) \<and> weighted_pick w p xs = c}"
  have sum0: "0 \<le> sum_list (map w cs)" using Cons.prems(2) by (induction cs) simp_all
  have split: "?S (d # cs) = (if c = d then {0..<w d} else {}) \<union> (\<lambda>p. p + w d) ` ?S cs"
  proof (rule set_eqI)
    fix p
    show "p \<in> ?S (d # cs) \<longleftrightarrow> p \<in> (if c = d then {0..<w d} else {}) \<union> (\<lambda>p. p + w d) ` ?S cs"
    proof (cases "p < w d")
      case True
      then show ?thesis using Cons.prems(2) [of d] sum0 by (auto simp: image_iff)
    next
      case False
      then have "p \<in> ?S (d # cs) \<longleftrightarrow> p - w d \<in> ?S cs" using Cons.prems(2) [of d] by auto
      also have "\<dots> \<longleftrightarrow> p \<in> (\<lambda>p. p + w d) ` ?S cs"
      proof
        assume "p - w d \<in> ?S cs"
        then have "(p - w d) + w d \<in> (\<lambda>p. p + w d) ` ?S cs" by (rule imageI)
        then show "p \<in> (\<lambda>p. p + w d) ` ?S cs" by simp
      qed (erule imageE, simp)
      finally show ?thesis using False by auto
    qed
  qed
  show ?case
  proof (cases "c = d")
    case True
    then have empty: "?S cs = {}" using Cons.prems(1) weighted_pick_in [of _ w cs] by auto
    have "?S (d # cs) = {0..<w d}" unfolding split empty by (simp add: True)
    with True Cons.prems(2) [of d] show ?thesis by simp
  next
    case False
    then have "c \<in> set cs" using Cons.prems(3) by simp
    moreover have "card ((\<lambda>p. p + w d) ` ?S cs) = card (?S cs)" by (rule card_image) (simp add: inj_on_def)
    ultimately show ?thesis using Cons False split by simp
  qed
qed simp

text \<open>C36: fairness. While the counter does not wrap around, weighted round robin chooses each agent that may serve
  exactly as often as its weight in as many consecutive requests as the weights add up to, and plain
  round robin chooses each of them exactly once in as many consecutive requests as there are agents.\<close>

theorem backend_choice_fair:
  fixes start :: u64
  assumes "distinct cands"
  shows "let pool = backend_pool cands cfg v; w = weight_of (lb_weights cfg); total = sum_list (map w pool);
      first = (\<lambda>i. hd (order_backends cands cfg (start + of_nat i) v)) in
    (lb_strategy cfg = LBWeighted \<and> uint start + total \<le> 2 ^ 64 \<and> 0 < total \<longrightarrow>
       (\<forall>c\<in>set pool. int (card {i. i < nat total \<and> first i = c}) = w c))
    \<and> (lb_strategy cfg = LBRoundRobin \<and> uint start + int (length pool) \<le> 2 ^ 64 \<longrightarrow>
       (\<forall>c\<in>set pool. card {i. i < length pool \<and> first i = c} = 1))"
proof -
  let ?pool = "backend_pool cands cfg v" and ?w = "weight_of (lb_weights cfg)"
  let ?total = "sum_list (map ?w ?pool)" and ?first = "\<lambda>i. hd (order_backends cands cfg (start + of_nat i) v)"
  have dp: "distinct ?pool" using backend_pool_distinct assms by blast
  have online: "filter (bv_online v) cands \<noteq> []" if "c \<in> set ?pool" for c
    using that unfolding backend_pool_set by (auto simp: filter_empty_conv)
  have "int (card {i. i < nat ?total \<and> ?first i = c}) = ?w c"
    if s: "lb_strategy cfg = LBWeighted" "uint start + ?total \<le> 2 ^ 64" "0 < ?total" and c: "c \<in> set ?pool" for c
  proof -
    have "?first i = weighted_pick ?w ((uint start + int i) mod ?total) ?pool" if "i < nat ?total" for i
    proof -
      have "uint (start + of_nat i) = uint start + int i" by (rule start_add) (use s(2) that in linarith)
      then show ?thesis using s online [OF c] by (simp add: order_backends_def weighted_order_def Let_def)
    qed
    then have "{i. i < nat ?total \<and> ?first i = c} = {i. i < nat ?total \<and> weighted_pick ?w ((uint start + int i) mod ?total) ?pool = c}"
      by auto
    then show ?thesis
      using window_count [OF s(3), of "\<lambda>p. weighted_pick ?w p ?pool = c" "uint start"] pick_count [OF dp _ c, of ?w] by simp
  qed
  moreover have "card {i. i < length ?pool \<and> ?first i = c} = 1"
    if s: "lb_strategy cfg = LBRoundRobin" "uint start + int (length ?pool) \<le> 2 ^ 64" and c: "c \<in> set ?pool" for c
  proof -
    have n: "0 < length ?pool" using c by (cases ?pool) auto
    have first: "?first i = ?pool ! nat ((uint start + int i) mod int (length ?pool))" if i: "i < length ?pool" for i
    proof -
      have "uint (start + of_nat i) = uint start + int i" by (rule start_add) (use s(2) i in linarith)
      then have u: "unat (start + of_nat i) mod length ?pool = nat ((uint start + int i) mod int (length ?pool))"
        by (simp add: unat_eq_nat_uint nat_mod_distrib)
      have "hd (rotation (start + of_nat i) ?pool) = ?pool ! (unat (start + of_nat i) mod length ?pool)"
        using n by (simp add: rotation_def hd_map)
      then show ?thesis
        using s online [OF c] u by (simp add: order_backends_def Let_def LBRoundRobin_def LBWeighted_def LBLeastConnections_def LBLatency_def)
    qed
    obtain k where k: "k < length ?pool" "?pool ! k = c" using c by (auto simp: in_set_conv_nth)
    have "{p. 0 \<le> p \<and> p < int (length ?pool) \<and> ?pool ! nat p = c} = {int k}"
      using k dp by (auto simp: nth_eq_iff_index_eq nat_less_iff)
    then have "card {i. i < nat (int (length ?pool)) \<and> ?pool ! nat ((uint start + int i) mod int (length ?pool)) = c} = 1"
      using window_count [of "int (length ?pool)" "\<lambda>p. ?pool ! nat p = c" "uint start"] n by simp
    moreover have "{i. i < length ?pool \<and> ?first i = c}
        = {i. i < nat (int (length ?pool)) \<and> ?pool ! nat ((uint start + int i) mod int (length ?pool)) = c}"
      using first by auto
    ultimately show ?thesis by simp
  qed
  ultimately show ?thesis unfolding Let_def by blast
qed
section \<open>The verdict of the health checks\<close>

record check_result =
  cr_now :: time
  cr_ok :: bool
  cr_latency :: duration
  cr_err :: string

definition health_run :: "(int \<Rightarrow> int \<Rightarrow> int) \<Rightarrow> tunnel_lb \<Rightarrow> check_result list \<Rightarrow> backend_health" where
  "health_run ewma cfg rs =
     fold (\<lambda>r h. snd (record_health ewma (cr_now r) (cr_ok r) (cr_latency r) (cr_err r) cfg h)) rs new_health"

definition trail :: "('a \<Rightarrow> bool) \<Rightarrow> 'a list \<Rightarrow> nat" where
  "trail P rs = length (takeWhile P (rev rs))"

lemma trail_simps [simp]: "trail P [] = 0" "trail P (rs @ [r]) = (if P r then Suc (trail P rs) else 0)"
  by (simp_all add: trail_def)

lemma trail_le: "trail P rs \<le> length rs"
  using length_takeWhile_le [of P "rev rs"] by (simp add: trail_def)

text \<open>Some run of failures has reached its threshold, and no run of successes since.\<close>

definition declared_down :: "tunnel_lb \<Rightarrow> check_result list \<Rightarrow> bool" where
  "declared_down cfg rs \<longleftrightarrow>
     (\<exists>i\<le>length rs. max 1 (lb_unhealthy_threshold cfg) \<le> int (trail (\<lambda>r. \<not> cr_ok r) (take i rs))
        \<and> (\<forall>j. i \<le> j \<and> j \<le> length rs \<longrightarrow> int (trail cr_ok (take j rs)) < max 1 (lb_healthy_threshold cfg)))"

lemma declared_down_snoc:
  "declared_down cfg (rs @ [r]) \<longleftrightarrow> int (trail cr_ok (rs @ [r])) < max 1 (lb_healthy_threshold cfg)
     \<and> (max 1 (lb_unhealthy_threshold cfg) \<le> int (trail (\<lambda>r. \<not> cr_ok r) (rs @ [r])) \<or> declared_down cfg rs)"
  (is "?L \<longleftrightarrow> ?ok \<and> (?down \<or> _)")
proof
  assume ?L
  then obtain i where i: "i \<le> Suc (length rs)"
    "max 1 (lb_unhealthy_threshold cfg) \<le> int (trail (\<lambda>r. \<not> cr_ok r) (take i (rs @ [r])))"
    "\<And>j. i \<le> j \<Longrightarrow> j \<le> Suc (length rs) \<Longrightarrow> int (trail cr_ok (take j (rs @ [r]))) < max 1 (lb_healthy_threshold cfg)"
    by (auto simp: declared_down_def)
  have ?ok using i(3) [of "Suc (length rs)"] i(1) by simp
  moreover have "?down \<or> declared_down cfg rs"
  proof (cases "i = Suc (length rs)")
    case False
    then have le: "i \<le> length rs" using i(1) by simp
    have "int (trail cr_ok (take j rs)) < max 1 (lb_healthy_threshold cfg)" if "i \<le> j" "j \<le> length rs" for j
      using i(3) [of j] that by simp
    with le i(2) show ?thesis by (auto simp: declared_down_def)
  qed (use i(2) in simp)
  ultimately show "?ok \<and> (?down \<or> declared_down cfg rs)" ..
next
  assume a: "?ok \<and> (?down \<or> declared_down cfg rs)"
  then have ok: ?ok ..
  from a have "?down \<or> declared_down cfg rs" ..
  then show ?L
  proof
    assume ?down
    with ok show ?L unfolding declared_down_def by (intro exI [of _ "Suc (length rs)"]) (auto simp: le_Suc_eq)
  next
    assume "declared_down cfg rs"
    then obtain i where i: "i \<le> length rs" "max 1 (lb_unhealthy_threshold cfg) \<le> int (trail (\<lambda>r. \<not> cr_ok r) (take i rs))"
      "\<And>j. i \<le> j \<Longrightarrow> j \<le> length rs \<Longrightarrow> int (trail cr_ok (take j rs)) < max 1 (lb_healthy_threshold cfg)"
      by (auto simp: declared_down_def)
    have "int (trail cr_ok (take j (rs @ [r]))) < max 1 (lb_healthy_threshold cfg)" if "i \<le> j" "j \<le> Suc (length rs)" for j
      using that i(3) [of j] ok by (cases "j = Suc (length rs)") auto
    with i(1,2) show ?L unfolding declared_down_def by (intro exI [of _ i]) auto
  qed
qed

lemma sint_count: "n < 2 ^ 31 \<Longrightarrow> sint (of_nat n :: 32 word) = int n"
  by (simp add: sint_uint signed_take_bit_int_eq_self unsigned_of_nat take_bit_nat_eq_self)

text \<open>C35: an agent is taken for unhealthy exactly when, in the sequence of its checks, some run of consecutive failures
  has reached the threshold for failures and no run of consecutive successes has reached the threshold for successes since
  (for fewer than \<open>2 ^ 31\<close> checks); and what a check reports is whether the verdict changed and what it is.\<close>

theorem health_verdict:
  "(length rs < 2 ^ 31 \<longrightarrow> bh_unhealthy (health_run ewma cfg rs) = declared_down cfg rs)
   \<and> (record_health ewma now ok latency err cfg h = ((changed, healthy), h') \<longrightarrow>
        changed = (bh_unhealthy h' \<noteq> bh_unhealthy h) \<and> healthy = (\<not> bh_unhealthy h'))"
proof (intro conjI impI)
  assume "length rs < 2 ^ 31"
  then have "bh_unhealthy (health_run ewma cfg rs) = declared_down cfg rs
      \<and> bh_oks (health_run ewma cfg rs) = of_nat (trail cr_ok rs)
      \<and> bh_fails (health_run ewma cfg rs) = of_nat (trail (\<lambda>r. \<not> cr_ok r) rs)"
  proof (induction rs rule: rev_induct)
    case Nil
    show ?case by (simp add: health_run_def new_health_def declared_down_def)
  next
    case (snoc r rs)
    let ?h = "health_run ewma cfg rs"
    have ih: "bh_unhealthy ?h = declared_down cfg rs" "bh_oks ?h = of_nat (trail cr_ok rs)"
      "bh_fails ?h = of_nat (trail (\<lambda>r. \<not> cr_ok r) rs)" using snoc by simp_all
    have run: "health_run ewma cfg (rs @ [r]) = snd (record_health ewma (cr_now r) (cr_ok r) (cr_latency r) (cr_err r) cfg ?h)"
      by (simp add: health_run_def)
    have small: "Suc (trail P rs) < 2 ^ 31" for P using trail_le [of P rs] snoc.prems by simp
    have n: "sint (of_nat (trail P rs) + 1 :: 32 word) = 1 + int (trail P rs)"
      "sint (1 + of_nat (trail P rs) :: 32 word) = 1 + int (trail P rs)" for P
      using sint_count [OF small [of P]] by (simp_all add: add.commute)
    show ?case
      unfolding run declared_down_snoc by (auto simp: record_health_def Let_def ih n)
  qed
  then show "bh_unhealthy (health_run ewma cfg rs) = declared_down cfg rs" ..
qed (auto simp: record_health_def Let_def split: if_splits)


text \<open>Three agents with weights 2, 1 and 0; one is offline and one was declared down.\<close>

definition sample_lb :: tunnel_lb where
  "sample_lb = default_tunnel_lb\<lparr>lb_strategy := LBWeighted, lb_weights := [(''a'', 2)], lb_health_enabled := True\<rparr>"

definition sample_view :: backend_view where
  "sample_view = \<lparr>bv_online = (\<lambda>c. c \<noteq> ''d''), bv_healthy = (\<lambda>c. c \<noteq> ''c''), bv_latency = (\<lambda>c. 5), bv_inflight = (\<lambda>c. 0)\<rparr>"

lemma sample_backends: "backend_pool [''a'', ''b'', ''c'', ''d''] sample_lb sample_view = [''a'', ''b'']"
  by (simp add: backend_pool_def sample_view_def sample_lb_def)

lemma backend_choice_fair_witness:
  "int (card {i. i < 3 \<and> hd (order_backends [''a'', ''b'', ''c'', ''d''] sample_lb (5 + of_nat i) sample_view) = ''a''}) = 2"
proof -
  have "sum_list (map (weight_of (lb_weights sample_lb)) [''a'', ''b'']) = 3" "weight_of (lb_weights sample_lb) ''a'' = 2"
    "lb_strategy sample_lb = LBWeighted"
    by (simp_all add: sample_lb_def weight_of_def)
  then show ?thesis
    using backend_choice_fair [of "[''a'', ''b'', ''c'', ''d'']" sample_lb sample_view 5] unfolding sample_backends Let_def by simp
qed

lemma health_verdict_witness:
  "let bad = \<lparr>cr_now = 1, cr_ok = False, cr_latency = 0, cr_err = ''x''\<rparr>; good = bad\<lparr>cr_ok := True\<rparr> in
   declared_down default_tunnel_lb [good, bad, bad, bad, good]
   \<and> bh_unhealthy (health_run (\<lambda>a b. a) default_tunnel_lb [good, bad, bad, bad, good])"
proof -
  let ?bad = "\<lparr>cr_now = 1, cr_ok = False, cr_latency = 0, cr_err = ''x''\<rparr>"
  let ?rs = "[?bad\<lparr>cr_ok := True\<rparr>, ?bad, ?bad, ?bad, ?bad\<lparr>cr_ok := True\<rparr>]"
  have "bh_unhealthy (health_run (\<lambda>a b. a) default_tunnel_lb ?rs)" by code_simp
  moreover have "length ?rs < 2 ^ 31" by simp
  ultimately show ?thesis using health_verdict [of ?rs "\<lambda>a b. a" default_tunnel_lb] unfolding Let_def by blast
qed

end
