(* ===== verification/Health_Checks.thy ===== *)
theory Health_Checks
  imports Load_Balance
begin

text \<open>
  The schedule of the active health checks (\<open>server/ingress/health.go\<close>): which agents are probed at a
  tick, for how long, and when a reply counts as healthy. The probe itself goes through a tunnel session;
  its result is what \<open>record_check\<close> of \<open>Load_Balance\<close> gets.
\<close>

definition minHealthInterval :: duration where "minHealthInterval = 2 * Second"
definition maxHealthTimeout :: duration where "maxHealthTimeout = 30 * Second"

record lb_entry =
  le_cfg :: tunnel_lb
  le_clients :: "string list"
  le_proto :: string

record health_checker =
  hc_last_run :: "(string, time) gomap"
  hc_in_flight :: "string list"

definition new_checker :: health_checker where
  "new_checker = \<lparr>hc_last_run = [], hc_in_flight = []\<rparr>"

definition check_interval :: "tunnel_lb \<Rightarrow> duration" where
  "check_interval cfg =
     (let d = lb_interval_sec cfg * Second in if d < minHealthInterval then minHealthInterval else d)"

definition check_timeout :: "tunnel_lb \<Rightarrow> duration" where
  "check_timeout cfg =
     (let d = lb_timeout_sec cfg * Second in if d \<le> 0 \<or> d > maxHealthTimeout then 3 * Second else d)"

definition probe_path :: "string \<Rightarrow> string" where
  "probe_path p = (if p = [] \<or> hd p \<noteq> CHR ''/'' then ''/'' @ p else p)"

text \<open>A reply is healthy when the agent reached its service and the status is 2xx or 3xx.\<close>

definition probe_ok :: "string \<Rightarrow> int \<Rightarrow> bool" where
  "probe_ok err_code status \<longleftrightarrow> err_code = [] \<and> 200 \<le> status \<and> status \<le> 399"

text \<open>One agent of a tunnel: skipped when it is offline or its last probe is still running.\<close>

definition tick_client :: "(string \<Rightarrow> bool) \<Rightarrow> string \<Rightarrow> string \<Rightarrow> (string \<times> string) list \<times> health_checker \<Rightarrow> (string \<times> string) list \<times> health_checker" where
  "tick_client online tun client pc =
     (case pc of (probes, c) \<Rightarrow>
        if \<not> online client \<or> health_key tun client \<in> set (hc_in_flight c) then (probes, c)
        else (probes @ [(tun, client)], c\<lparr>hc_in_flight := health_key tun client # hc_in_flight c\<rparr>))"

definition tick_entry ::
  "(string \<Rightarrow> bool) \<Rightarrow> time \<Rightarrow> string \<times> lb_entry \<Rightarrow> (string \<times> string) list \<times> health_checker \<Rightarrow> (string \<times> string) list \<times> health_checker" where
  "tick_entry online now e pc =
     (case (e, pc) of ((tun, en), (probes, c)) \<Rightarrow>
        if \<not> lb_health_enabled (le_cfg en) then (probes, c)
        else if (case map_of (hc_last_run c) tun of None \<Rightarrow> False | Some t \<Rightarrow> now - t < check_interval (le_cfg en)) then (probes, c)
        else fold (tick_client online tun) (le_clients en) (probes, c\<lparr>hc_last_run := gm_put tun now (hc_last_run c)\<rparr>))"

definition health_tick ::
  "(string \<Rightarrow> bool) \<Rightarrow> time \<Rightarrow> (string, lb_entry) gomap \<Rightarrow> health_checker \<Rightarrow> (string \<times> string) list \<times> health_checker" where
  "health_tick online now entries c = fold (tick_entry online now) entries ([], c)"

definition probe_done :: "string \<Rightarrow> string \<Rightarrow> health_checker \<Rightarrow> health_checker" where
  "probe_done tun client c = c\<lparr>hc_in_flight := removeAll (health_key tun client) (hc_in_flight c)\<rparr>"

section \<open>Probes of one agent do not overlap\<close>

definition probes_ok :: "(string \<Rightarrow> bool) \<Rightarrow> string list \<Rightarrow> (string \<times> string) list \<times> health_checker \<Rightarrow> bool" where
  "probes_ok online busy pc \<longleftrightarrow> (case pc of (probes, c) \<Rightarrow>
     distinct (hc_in_flight c) \<and> set (hc_in_flight c) = set busy \<union> (\<lambda>(tun, cl). health_key tun cl) ` set probes
     \<and> distinct (map (\<lambda>(tun, cl). health_key tun cl) probes)
     \<and> (\<forall>(tun, cl)\<in>set probes. online cl \<and> health_key tun cl \<notin> set busy))"

lemma tick_client_ok: "probes_ok online busy pc \<Longrightarrow> probes_ok online busy (tick_client online tun cl pc)"
  by (cases pc) (auto simp: probes_ok_def tick_client_def)

lemma tick_entry_ok: "probes_ok online busy pc \<Longrightarrow> probes_ok online busy (tick_entry online now e pc)"
proof -
  assume a: "probes_ok online busy pc"
  have "probes_ok online busy (fold (tick_client online tun) cls qc)" if "probes_ok online busy qc" for tun cls qc
    using that by (induction cls arbitrary: qc) (simp_all add: tick_client_ok)
  with a show ?thesis by (cases pc; cases e) (auto simp: tick_entry_def probes_ok_def)
qed

text \<open>A tick starts probes only for online agents, and never a second one for an agent whose probe is running.\<close>

lemma tick_probes_ok:
  assumes "distinct (hc_in_flight c)" and "health_tick online now entries c = (probes, c')"
  shows "probes_ok online (hc_in_flight c) (probes, c')"
proof -
  have "probes_ok online (hc_in_flight c) ([], c)" using assms(1) by (simp add: probes_ok_def)
  then have "probes_ok online (hc_in_flight c) (fold (tick_entry online now) entries ([], c))"
    by (induction entries arbitrary: c rule: rev_induct) (simp_all add: tick_entry_ok)
  with assms(2) show ?thesis by (simp add: health_tick_def)
qed

lemma check_bounds: "minHealthInterval \<le> check_interval cfg" "0 < check_timeout cfg \<and> check_timeout cfg \<le> maxHealthTimeout"
  by (simp_all add: check_interval_def check_timeout_def Let_def maxHealthTimeout_def)

end
