(* ===== verification/Host_Router.thy ===== *)
theory Host_Router
  imports Policy_Engine Health_Checks Netip_Text
begin

text \<open>
  The routing table of the ingress (\<open>server/ingress/router.go\<close>, the traffic policies of \<open>traffic.go\<close> and the records of
  \<open>server/store/store.go\<close>): \<open>Reload\<close> builds it from the rows of the database, the lookups find the tunnel, the traffic
  policy and the rules of a request. A parsed traffic policy is an object that the tables share, so it lives in a store and the
  tables hold references. Parsing of JSON and of certificates is a parameter (\<open>reload_env\<close>); the limiters kept across reloads,
  the MCP table and the tunnel security table are not modelled here.
\<close>

section \<open>Records\<close>

record door_route =
  dr_duration :: int
  dr_public_port :: int
  dr_public_ip :: string
  dr_tunnel_host :: string
  dr_proto :: string
  dr_exposure :: string
  dr_disabled :: bool

record host_route =
  hr_fqdn :: string
  hr_tenant :: string
  hr_tunnel :: string
  hr_client :: string
  hr_target :: string
  hr_enabled :: bool
  hr_proto :: string
  hr_exposure :: string
  hr_plan :: string
  hr_frozen :: bool
  hr_path_prefix :: string
  hr_replicas :: "string list"
  hr_access_mode :: string
  hr_access_config :: bytes
  hr_access_enabled :: bool
  hr_door :: "door_route option"
  hr_traffic_config :: bytes
  hr_traffic_enabled :: bool
  hr_mcp_config :: bytes
  hr_mcp_enabled :: bool
  hr_mcp_keys :: bytes
  hr_mtls_enabled :: bool
  hr_mtls_ca :: string
  hr_security :: bytes

record redirect_rule =
  rd_prefix :: string
  rd_location :: string
  rd_status :: int

record traffic_policy =
  tp_request :: header_rules
  tp_response :: header_rules
  tp_redirects :: "redirect_rule list"

type_synonym tp_ref = nat

record path_rule =
  pr_prefix :: string
  pr_route :: host_route
  pr_traffic :: "tp_ref option"

text \<open>A policy as \<open>ListPolicyRoutes\<close> returns it, with its configuration parsed (no rules where the JSON is not valid) and the
  secrets it refers to resolved by the store.\<close>

record policy_route =
  pt_host :: string
  pt_tunnel :: string
  pt_policy :: string
  pt_priority :: int
  pt_rules :: "(raw_match \<times> raw_action) list"
  pt_secrets :: "(string, string) gomap"

record router =
  rt_by_host :: "(string, host_route) gomap"
  rt_wild :: "(string, host_route) gomap"
  rt_traffic :: "(string, tp_ref) gomap"
  rt_paths :: "(string, path_rule list) gomap"
  rt_mtls :: "(string, string) gomap"
  rt_mtls_tunnel :: "(string, string) gomap"
  rt_policies :: "(string, compiled_policy list) gomap"
  rt_tunnel_policies :: "(string, compiled_policy list) gomap"
  rt_lb :: "(string, lb_entry) gomap"
  rt_heap :: "traffic_policy list"

definition new_router :: router where
  "new_router = \<lparr>rt_by_host = [], rt_wild = [], rt_traffic = [], rt_paths = [], rt_mtls = [], rt_mtls_tunnel = [], rt_policies = [],
     rt_tunnel_policies = [], rt_lb = [], rt_heap = []\<rparr>"

record reload_env =
  re_policy :: policy_env
  re_parse_traffic :: "bytes \<Rightarrow> traffic_policy option"
  re_ca_ok :: "string \<Rightarrow> bool"

section \<open>Names of hosts\<close>

definition normalize_host :: "string \<Rightarrow> string" where
  "normalize_host host =
     (if list_ex (\<lambda>c. c \<in> {CHR 0x0D, CHR 0x0A, CHR 0x00}) host then []
      else
        let h = to_lower (trim_space host) in
        if list_ex (\<lambda>c. c \<in> {CHR '' '', CHR 0x09}) h then []
        else
          let bracket = (if has_prefix h ''['' then cut_last (CHR '']'') h else None) in
          case bracket of
            Some (b, a) \<Rightarrow> b @ '']''
          | None \<Rightarrow>
              (let h' = (case cut_last (CHR '':'') h of
                           Some (b, a) \<Rightarrow> if b \<noteq> [] \<and> CHR '':'' \<notin> set a then b else h
                         | None \<Rightarrow> h)
               in trim_suffix h' ''.''))"

definition host_matches_any :: "string \<Rightarrow> string list \<Rightarrow> bool" where
  "host_matches_any host controls \<longleftrightarrow> list_ex (\<lambda>c. normalize_host host = normalize_host c) controls"

definition default_control_hosts :: "string list" where
  "default_control_hosts = [''localhost'', ''127.0.0.1'', ''[::1]'']"

text \<open>\<open>net.ParseIP\<close> accepts what \<open>netip.ParseAddr\<close> accepts, without zones.\<close>

definition is_ip_host :: "string \<Rightarrow> bool" where
  "is_ip_host host \<longleftrightarrow>
     (let raw = trim_prefix (trim_suffix (normalize_host host) '']'') ''['' in CHR ''%'' \<notin> set raw \<and> parse_addr raw \<noteq> None)"

text \<open>An IPv6 address without brackets is cut at its last colon and not recognised.\<close>

lemma bare_ipv6_host: "is_ip_host ''[::1]'' \<and> is_ip_host ''[::1]:8443'' \<and> is_ip_host ''127.0.0.1:80'' \<and> \<not> is_ip_host ''::1''"
  by code_simp

section \<open>Traffic policies\<close>

definition empty_rules :: "header_rules \<Rightarrow> bool" where
  "empty_rules hr \<longleftrightarrow> hd_set hr = [] \<and> hd_remove hr = []"

definition parse_traffic_policy :: "reload_env \<Rightarrow> bytes \<Rightarrow> traffic_policy option" where
  "parse_traffic_policy E raw =
     (if raw = [] then None
      else case re_parse_traffic E raw of
          None \<Rightarrow> None
        | Some p \<Rightarrow> if empty_rules (tp_request p) \<and> empty_rules (tp_response p) \<and> tp_redirects p = [] then None else Some p)"

text \<open>The loop of \<open>matchRedirect\<close>; \<open>None\<close> stands for the best length of -1.\<close>

fun redirect_loop :: "string \<Rightarrow> (nat \<times> string \<times> int) option \<Rightarrow> redirect_rule list \<Rightarrow> (nat \<times> string \<times> int) option" where
  "redirect_loop path best [] = best"
| "redirect_loop path best (rr # rs) =
     (if rd_location rr = [] then redirect_loop path best rs
      else if (rd_prefix rr = [] \<or> has_prefix path (rd_prefix rr))
        \<and> (case best of None \<Rightarrow> True | Some (n, _) \<Rightarrow> n < length (rd_prefix rr))
      then redirect_loop path (Some (length (rd_prefix rr), rd_location rr, rd_status rr)) rs
      else redirect_loop path best rs)"

definition match_redirect :: "traffic_policy option \<Rightarrow> string \<Rightarrow> (string \<times> int) option" where
  "match_redirect p path =
     (case p of
        None \<Rightarrow> None
      | Some t \<Rightarrow>
          (case redirect_loop path None (tp_redirects t) of
             None \<Rightarrow> None
           | Some (_, loc, st) \<Rightarrow> Some (loc, if st \<in> {301, 302, 307, 308} then st else 302)))"

section \<open>Reload\<close>

definition add_tunnel_ca :: "reload_env \<Rightarrow> host_route \<Rightarrow> (string, string) gomap \<Rightarrow> string option \<times> (string, string) gomap" where
  "add_tunnel_ca E rt m =
     (if \<not> hr_mtls_enabled rt \<or> trim_space (hr_mtls_ca rt) = [] then (None, m)
      else case map_of m (hr_tunnel rt) of
          Some pool \<Rightarrow> (Some pool, m)
        | None \<Rightarrow> if \<not> re_ca_ok E (hr_mtls_ca rt) then (None, m) else (Some (hr_mtls_ca rt), gm_put (hr_tunnel rt) (hr_mtls_ca rt) m))"

definition route_traffic :: "reload_env \<Rightarrow> host_route \<Rightarrow> traffic_policy option" where
  "route_traffic E rt = (if hr_traffic_enabled rt then parse_traffic_policy E (hr_traffic_config rt) else None)"

definition file_traffic :: "string \<Rightarrow> traffic_policy option \<Rightarrow> router \<Rightarrow> router" where
  "file_traffic h tp r =
     (case tp of None \<Rightarrow> r
      | Some p \<Rightarrow> r\<lparr>rt_traffic := gm_put h (length (rt_heap r)) (rt_traffic r), rt_heap := rt_heap r @ [p]\<rparr>)"

definition file_ca :: "reload_env \<Rightarrow> host_route \<Rightarrow> router \<Rightarrow> string option \<times> router" where
  "file_ca E rt r = (case add_tunnel_ca E rt (rt_mtls_tunnel r) of (pool, m) \<Rightarrow> (pool, r\<lparr>rt_mtls_tunnel := m\<rparr>))"

definition reload_route :: "reload_env \<Rightarrow> host_route \<Rightarrow> router \<Rightarrow> router" where
  "reload_route E rt r0 =
     (let h = normalize_host (hr_fqdn rt);
          r1 = file_traffic h (route_traffic E rt) r0 in
      case file_ca E rt r1 of (pool, r2) \<Rightarrow>
        (let r3 = (case pool of None \<Rightarrow> r2 | Some p \<Rightarrow> r2\<lparr>rt_mtls := gm_put h p (rt_mtls r2)\<rparr>) in
         if has_prefix h ''*.'' then r3\<lparr>rt_wild := gm_put (CHR ''.'' # drop 2 h) rt (rt_wild r3)\<rparr>
         else r3\<lparr>rt_by_host := gm_put h rt (rt_by_host r3)\<rparr>))"

definition reload_door :: "host_route \<Rightarrow> router \<Rightarrow> router" where
  "reload_door rt r =
     (let h = normalize_host (hr_fqdn rt) in
      if map_of (rt_by_host r) h = None then r\<lparr>rt_by_host := gm_put h rt (rt_by_host r)\<rparr> else r)"

definition reload_path :: "reload_env \<Rightarrow> host_route \<Rightarrow> router \<Rightarrow> router" where
  "reload_path E rt r =
     (if hr_path_prefix rt = [] then r
      else
        let tp = route_traffic E rt;
            r1 = snd (file_ca E rt r);
            h = normalize_host (hr_fqdn rt);
            rule = \<lparr>pr_prefix = hr_path_prefix rt, pr_route = rt, pr_traffic = (if tp = None then None else Some (length (rt_heap r1)))\<rparr> in
        r1\<lparr>rt_heap := rt_heap r1 @ (case tp of None \<Rightarrow> [] | Some p \<Rightarrow> [p]),
           rt_paths := gm_put h (gm_at [] (rt_paths r1) h @ [rule]) (rt_paths r1)\<rparr>)"

definition sort_paths :: "(string, path_rule list) gomap \<Rightarrow> (string, path_rule list) gomap" where
  "sort_paths = map (\<lambda>(h, rules). (h, sort_key (\<lambda>p. - int (length (pr_prefix p))) rules))"

definition sort_policies :: "(string, compiled_policy list) gomap \<Rightarrow> (string, compiled_policy list) gomap" where
  "sort_policies = map (\<lambda>(h, ps). (h, sort_key cp_priority ps))"

text \<open>The tables of policies by host and by tunnel, and the bindings that were already filed under their tunnel.\<close>

type_synonym policy_tables =
  "(string, compiled_policy list) gomap \<times> (string, compiled_policy list) gomap \<times> (string \<times> string) list"

definition reload_policy :: "reload_env \<Rightarrow> policy_route \<Rightarrow> policy_tables \<Rightarrow> policy_tables" where
  "reload_policy E pt tabs =
     (case tabs of (byhost, bytunnel, seen) \<Rightarrow>
        (let h = normalize_host (pt_host pt) in
         case compile_policy (re_policy E) (pt_policy pt) (pt_priority pt) (pt_secrets pt) (pt_rules pt) of
           None \<Rightarrow> tabs
         | Some cp \<Rightarrow>
             (let byhost' = gm_put h (gm_at [] byhost h @ [cp]) byhost in
              if pt_tunnel pt \<noteq> [] \<and> (pt_tunnel pt, pt_policy pt) \<notin> set seen
              then (byhost', gm_put (pt_tunnel pt) (gm_at [] bytunnel (pt_tunnel pt) @ [cp]) bytunnel, (pt_tunnel pt, pt_policy pt) # seen)
              else (byhost', bytunnel, seen))))"

definition build_lb_entries :: "host_route list \<Rightarrow> (string \<times> tunnel_lb) list \<Rightarrow> (string, lb_entry) gomap" where
  "build_lb_entries routes cfgs =
     fold (\<lambda>(t, c) m. case List.find (\<lambda>rt. hr_tunnel rt = t) routes of
             None \<Rightarrow> m
           | Some rt \<Rightarrow> gm_put t \<lparr>le_cfg = c, le_clients = candidate_clients (hr_client rt) (hr_replicas rt), le_proto = hr_proto rt\<rparr> m)
       cfgs []"

text \<open>What the store returns: \<open>None\<close> where the query fails.\<close>

record reload_rows =
  rw_routes :: "host_route list option"
  rw_doors :: "host_route list option"
  rw_paths :: "host_route list option"
  rw_policies :: "policy_route list option"
  rw_lbs :: "(string \<times> tunnel_lb) list option"

definition opt_rows :: "'a list option \<Rightarrow> 'a list" where
  "opt_rows rows = (case rows of None \<Rightarrow> [] | Some xs \<Rightarrow> xs)"

text \<open>The policies of the next snapshot; those of the old router \<open>r\<close> where they cannot be read.\<close>

definition install_policies :: "reload_env \<Rightarrow> policy_route list option \<Rightarrow> router \<Rightarrow> router \<Rightarrow> router" where
  "install_policies E rows r next_r =
     (case rows of
        None \<Rightarrow> next_r\<lparr>rt_policies := rt_policies r, rt_tunnel_policies := rt_tunnel_policies r\<rparr>
      | Some pts \<Rightarrow>
          (case fold (reload_policy E) pts ([], [], []) of (byhost, bytunnel, _) \<Rightarrow>
             next_r\<lparr>rt_policies := sort_policies byhost, rt_tunnel_policies := sort_policies bytunnel\<rparr>))"

text \<open>\<open>Reload\<close>: \<open>None\<close> if the routes cannot be read. Doors and path rules that cannot be read are absent, policies and load
  balancing settings that cannot be read stay as they were.\<close>

definition reload :: "reload_env \<Rightarrow> reload_rows \<Rightarrow> router \<Rightarrow> router option" where
  "reload E rows r =
     (case rw_routes rows of
        None \<Rightarrow> None
      | Some routes \<Rightarrow>
          (let r1 = fold (reload_route E) routes (new_router\<lparr>rt_heap := rt_heap r\<rparr>);
               r2 = fold reload_door (opt_rows (rw_doors rows)) r1;
               r3 = fold (reload_path E) (opt_rows (rw_paths rows)) r2;
               r4 = r3\<lparr>rt_paths := sort_paths (rt_paths r3)\<rparr>;
               r5 = install_policies E (rw_policies rows) r r4
           in Some (r5\<lparr>rt_lb := (case rw_lbs rows of None \<Rightarrow> rt_lb r | Some cfgs \<Rightarrow> build_lb_entries routes cfgs)\<rparr>)))"

section \<open>Lookups\<close>

definition label_rest :: "string \<Rightarrow> string option" where
  "label_rest h = (case cut_at (CHR ''.'') h of (a, b, ok) \<Rightarrow> if ok then Some (CHR ''.'' # b) else None)"

definition lookup :: "router \<Rightarrow> string \<Rightarrow> host_route option" where
  "lookup r host =
     (let h = normalize_host host in
      case map_of (rt_by_host r) h of
        Some rt \<Rightarrow> Some rt
      | None \<Rightarrow> (case label_rest h of None \<Rightarrow> None | Some w \<Rightarrow> map_of (rt_wild r) w))"

definition path_rule_for :: "router \<Rightarrow> string \<Rightarrow> string \<Rightarrow> path_rule option" where
  "path_rule_for r host path =
     List.find (\<lambda>p. path_matches (canonical_path path) (pr_prefix p)) (gm_at [] (rt_paths r) (normalize_host host))"

definition lookup_path :: "router \<Rightarrow> string \<Rightarrow> string \<Rightarrow> host_route option" where
  "lookup_path r host path =
     (case path_rule_for r host path of Some rule \<Rightarrow> Some (pr_route rule) | None \<Rightarrow> lookup r host)"

definition traffic_for :: "router \<Rightarrow> string \<Rightarrow> tp_ref option" where
  "traffic_for r host = map_of (rt_traffic r) (normalize_host host)"

definition traffic_for_route :: "router \<Rightarrow> string \<Rightarrow> host_route \<Rightarrow> string \<Rightarrow> tp_ref option" where
  "traffic_for_route r host rt path =
     (case path_rule_for r host path of
        Some rule \<Rightarrow> if hr_path_prefix rt \<noteq> [] \<and> hr_tunnel (pr_route rule) = hr_tunnel rt then pr_traffic rule else traffic_for r host
      | None \<Rightarrow> traffic_for r host)"

definition mtls_for :: "router \<Rightarrow> string \<Rightarrow> string option" where
  "mtls_for r host = map_of (rt_mtls r) (normalize_host host)"

definition tunnel_ca_pool :: "router \<Rightarrow> string \<Rightarrow> string option" where
  "tunnel_ca_pool r tunnel = map_of (rt_mtls_tunnel r) tunnel"

definition lb_for :: "router \<Rightarrow> string \<Rightarrow> lb_entry option" where
  "lb_for r tunnel = map_of (rt_lb r) tunnel"

text \<open>\<open>policiesForRoute\<close>. A compiled policy is told apart by its identifier, which the store never leaves empty.\<close>

definition policies_for_route :: "router \<Rightarrow> string \<Rightarrow> host_route \<Rightarrow> compiled_policy list" where
  "policies_for_route r host rt =
     (let base = gm_at [] (rt_policies r) (normalize_host host) in
      if hr_path_prefix rt = [] then base
      else
        let extra = gm_at [] (rt_tunnel_policies r) (hr_tunnel rt) in
        if extra = [] then base
        else sort_key cp_priority (base @ filter (\<lambda>cp. cp_id cp \<notin> cp_id ` set base) extra))"

section \<open>What reload files\<close>

abbreviation route_host :: "host_route \<Rightarrow> string" where
  "route_host rt \<equiv> normalize_host (hr_fqdn rt)"

named_theorems reload_simps

lemma file_traffic_fields [reload_simps]:
  "rt_by_host (file_traffic h tp r) = rt_by_host r" "rt_wild (file_traffic h tp r) = rt_wild r"
  "rt_paths (file_traffic h tp r) = rt_paths r" "rt_policies (file_traffic h tp r) = rt_policies r"
  by (simp_all add: file_traffic_def split: option.split)

lemma file_ca_fields [reload_simps]:
  "rt_by_host (snd (file_ca E rt r)) = rt_by_host r" "rt_wild (snd (file_ca E rt r)) = rt_wild r"
  "rt_paths (snd (file_ca E rt r)) = rt_paths r" "rt_policies (snd (file_ca E rt r)) = rt_policies r"
  "rt_traffic (snd (file_ca E rt r)) = rt_traffic r" "rt_heap (snd (file_ca E rt r)) = rt_heap r"
  by (simp_all add: file_ca_def split: prod.split)

lemma install_policies_fields [reload_simps]:
  "rt_by_host (install_policies E rows r q) = rt_by_host q" "rt_wild (install_policies E rows r q) = rt_wild q"
  "rt_paths (install_policies E rows r q) = rt_paths q" "rt_traffic (install_policies E rows r q) = rt_traffic q"
  "rt_heap (install_policies E rows r q) = rt_heap q"
  by (simp_all add: install_policies_def split: option.split prod.split)

lemma reload_route_fields [reload_simps]:
  "rt_by_host (reload_route E rt r) =
     (if has_prefix (route_host rt) ''*.'' then rt_by_host r else gm_put (route_host rt) rt (rt_by_host r))"
  "rt_wild (reload_route E rt r) =
     (if has_prefix (route_host rt) ''*.'' then gm_put (CHR ''.'' # drop 2 (route_host rt)) rt (rt_wild r) else rt_wild r)"
  "rt_paths (reload_route E rt r) = rt_paths r"
  "map_of (rt_traffic (reload_route E rt r)) h =
     (if h = route_host rt \<and> route_traffic E rt \<noteq> None then Some (length (rt_heap r)) else map_of (rt_traffic r) h)"
proof -
  let ?r = "file_traffic (route_host rt) (route_traffic E rt) r"
  obtain pool r2 where c: "file_ca E rt ?r = (pool, r2)" by fastforce
  then have f: "rt_by_host r2 = rt_by_host r" "rt_wild r2 = rt_wild r" "rt_paths r2 = rt_paths r" "rt_traffic r2 = rt_traffic ?r"
    using file_ca_fields [of E rt ?r] by (simp_all add: reload_simps)
  note d = reload_route_def Let_def c prod.case f
  show "rt_by_host (reload_route E rt r) =
     (if has_prefix (route_host rt) ''*.'' then rt_by_host r else gm_put (route_host rt) rt (rt_by_host r))"
    by (cases pool) (simp_all add: d)
  show "rt_wild (reload_route E rt r) =
     (if has_prefix (route_host rt) ''*.'' then gm_put (CHR ''.'' # drop 2 (route_host rt)) rt (rt_wild r) else rt_wild r)"
    by (cases pool) (simp_all add: d)
  show "rt_paths (reload_route E rt r) = rt_paths r"
    by (cases pool) (simp_all add: d)
  have "rt_traffic (reload_route E rt r) = rt_traffic ?r"
    by (cases pool) (simp_all add: d)
  then show "map_of (rt_traffic (reload_route E rt r)) h =
     (if h = route_host rt \<and> route_traffic E rt \<noteq> None then Some (length (rt_heap r)) else map_of (rt_traffic r) h)"
    by (simp add: file_traffic_def split: option.split)
qed

lemma reload_door_fields [reload_simps]:
  "map_of (rt_by_host (reload_door rt r)) h =
     (case map_of (rt_by_host r) h of Some x \<Rightarrow> Some x | None \<Rightarrow> if route_host rt = h then Some rt else None)"
  "rt_wild (reload_door rt r) = rt_wild r" "rt_paths (reload_door rt r) = rt_paths r" "rt_traffic (reload_door rt r) = rt_traffic r"
  by (auto simp: reload_door_def Let_def split: option.split)

lemma reload_path_fields [reload_simps]:
  "rt_by_host (reload_path E rt r) = rt_by_host r" "rt_wild (reload_path E rt r) = rt_wild r"
  "rt_traffic (reload_path E rt r) = rt_traffic r"
  "map pr_route (gm_at [] (rt_paths (reload_path E rt r)) h) =
     map pr_route (gm_at [] (rt_paths r) h) @ (if hr_path_prefix rt \<noteq> [] \<and> route_host rt = h then [rt] else [])"
  by (auto simp: reload_path_def Let_def reload_simps)

lemma reload_path_prefix:
  assumes "\<forall>p\<in>set (gm_at [] (rt_paths r) h). pr_prefix p = hr_path_prefix (pr_route p)"
  shows "\<forall>p\<in>set (gm_at [] (rt_paths (reload_path E rt r)) h). pr_prefix p = hr_path_prefix (pr_route p)"
  using assms by (auto simp: reload_path_def Let_def reload_simps)

lemma by_host_routes:
  "map_of (rt_by_host (fold (reload_route E) routes r)) h =
     (case List.find (\<lambda>rt. route_host rt = h \<and> \<not> has_prefix h ''*.'') (rev routes) of Some x \<Rightarrow> Some x | None \<Rightarrow> map_of (rt_by_host r) h)"
  by (rule fold_last [where get = "\<lambda>r. map_of (rt_by_host r) h"]) (auto simp: reload_simps)

lemma star_name: "has_prefix g ''*.'' \<and> w = CHR ''.'' # drop 2 g \<longleftrightarrow> g = CHR ''*'' # w \<and> has_prefix g ''*.''"
  by (auto simp: has_prefix_iff)

lemma wild_routes:
  assumes "w = CHR ''.'' # b"
  shows "map_of (rt_wild (fold (reload_route E) routes r)) w =
     (case List.find (\<lambda>rt. route_host rt = CHR ''*'' # w) (rev routes) of Some x \<Rightarrow> Some x | None \<Rightarrow> map_of (rt_wild r) w)"
  by (rule fold_last [where get = "\<lambda>r. map_of (rt_wild r) w"]) (use assms in \<open>auto simp: reload_simps has_prefix_iff\<close>)

lemma by_host_doors:
  "map_of (rt_by_host (fold reload_door ds r)) h =
     (case map_of (rt_by_host r) h of Some x \<Rightarrow> Some x | None \<Rightarrow> List.find (\<lambda>rt. route_host rt = h) ds)"
  by (rule fold_first [where get = "\<lambda>r. map_of (rt_by_host r) h"]) (simp add: reload_simps)

lemma kept_by_doors: "rt_wild (fold reload_door ds r) = rt_wild r" "rt_paths (fold reload_door ds r) = rt_paths r"
  "rt_traffic (fold reload_door ds r) = rt_traffic r"
  by (rule fold_same; simp add: reload_simps)+

lemma kept_by_paths: "rt_by_host (fold (reload_path E) ps r) = rt_by_host r" "rt_wild (fold (reload_path E) ps r) = rt_wild r"
  "rt_traffic (fold (reload_path E) ps r) = rt_traffic r"
  by (rule fold_same; simp add: reload_simps)+

lemma kept_by_routes: "rt_paths (fold (reload_route E) ps r) = rt_paths r"
  by (rule fold_same) (simp add: reload_simps)

lemma path_routes:
  "map pr_route (gm_at [] (rt_paths (fold (reload_path E) ps r)) h) =
     map pr_route (gm_at [] (rt_paths r) h) @ filter (\<lambda>rt. hr_path_prefix rt \<noteq> [] \<and> route_host rt = h) ps"
  by (rule fold_filed [where get = "\<lambda>r. map pr_route (gm_at [] (rt_paths r) h)"]) (simp add: reload_simps)

lemma path_routes_prefix:
  "\<forall>p\<in>set (gm_at [] (rt_paths r) h). pr_prefix p = hr_path_prefix (pr_route p) \<Longrightarrow>
   \<forall>p\<in>set (gm_at [] (rt_paths (fold (reload_path E) ps r)) h). pr_prefix p = hr_path_prefix (pr_route p)"
proof (induction ps arbitrary: r)
  case (Cons x ps)
  show ?case using Cons.IH [OF reload_path_prefix [OF Cons.prems]] by simp
qed simp

lemma sort_paths_at: "gm_at [] (sort_paths m) h = sort_key (\<lambda>p. - int (length (pr_prefix p))) (gm_at [] m h)"
  using map_of_map_snd [of "\<lambda>h rules. sort_key (\<lambda>p. - int (length (pr_prefix p))) rules" m h]
  by (simp add: gm_at_def sort_paths_def split: option.split)

lemma sort_policies_at: "gm_at [] (sort_policies m) h = sort_key cp_priority (gm_at [] m h)"
  using map_of_map_snd [of "\<lambda>h ps. sort_key cp_priority ps" m h]
  by (simp add: gm_at_def sort_policies_def split: option.split)

text \<open>The first match of a list sorted by a key is the first of those with the least key.\<close>

lemma find_filter: "List.find P xs = (case filter P xs of [] \<Rightarrow> None | x # _ \<Rightarrow> Some x)"
  by (induction xs) auto

lemma find_map: "List.find P (map f xs) = map_option f (List.find (P \<circ> f) xs)"
  by (induction xs) auto

lemma hd_sort_key:
  assumes "xs \<noteq> []"
  shows "List.find (\<lambda>x. \<forall>y\<in>set xs. f x \<le> f y) xs = Some (hd (sort_key f xs))"
proof -
  obtain z zs where z: "sort_key f xs = z # zs" using assms by (metis list.exhaust length_0_conv length_sort)
  have s: "sorted (map f (z # zs))" using sorted_sort_key [of f xs] z by metis
  have st: "set xs = insert z (set zs)" using z by (metis set_sort list.simps(15))
  have m: "\<forall>y\<in>set xs. f z \<le> f y" using s st by auto
  have "(\<forall>y\<in>set xs. f x \<le> f y) \<longleftrightarrow> f x = f z" if "x \<in> set xs" for x
    using m that st by (metis insertI1 order_antisym)
  then have "filter (\<lambda>x. \<forall>y\<in>set xs. f x \<le> f y) xs = filter (\<lambda>x. f x = f z) xs"
    by (rule filter_cong [OF refl])
  also have "\<dots> = filter (\<lambda>x. f x = f z) (sort_key f xs)" by (rule sort_key_stable [symmetric])
  finally show ?thesis by (simp add: find_filter z)
qed

lemma path_rule_reference:
  assumes "\<forall>p\<in>set rules. pr_prefix p = hr_path_prefix (pr_route p)"
  shows "map_option pr_route (List.find (\<lambda>p. path_matches cp (pr_prefix p)) (sort_key (\<lambda>p. - int (length (pr_prefix p))) rules)) =
    (let ms = filter (\<lambda>rt. path_matches cp (hr_path_prefix rt)) (map pr_route rules) in
     List.find (\<lambda>rt. \<forall>rt'\<in>set ms. length (hr_path_prefix rt') \<le> length (hr_path_prefix rt)) ms)"
proof -
  let ?P = "\<lambda>p. path_matches cp (pr_prefix p)" and ?f = "\<lambda>p. - int (length (pr_prefix p))"
  let ?rs = "filter ?P rules"
  have ms: "filter (\<lambda>rt. path_matches cp (hr_path_prefix rt)) (map pr_route rules) = map pr_route ?rs"
    using assms by (simp add: filter_map o_def cong: filter_cong)
  have pre: "pr_prefix p = hr_path_prefix (pr_route p)" if "p \<in> set ?rs" for p
    using assms that by simp
  have l: "List.find ?P (sort_key ?f rules) = (case sort_key ?f ?rs of [] \<Rightarrow> None | x # _ \<Rightarrow> Some x)"
    by (simp add: find_filter filter_sort)
  show ?thesis
  proof (cases "?rs = []")
    case True
    then show ?thesis unfolding l ms by simp
  next
    case False
    then have "sort_key ?f ?rs \<noteq> []" by (metis length_0_conv length_sort)
    then have "List.find ?P (sort_key ?f rules) = Some (hd (sort_key ?f ?rs))"
      unfolding l by (cases "sort_key ?f ?rs") simp_all
    also have "\<dots> = List.find (\<lambda>x. \<forall>y\<in>set ?rs. ?f x \<le> ?f y) ?rs"
      by (rule hd_sort_key [OF False, symmetric])
    also have "\<dots> = List.find (\<lambda>x. \<forall>y\<in>set ?rs. length (hr_path_prefix (pr_route y)) \<le> length (hr_path_prefix (pr_route x))) ?rs"
      by (rule find_cong [OF refl]) (simp only: pre neg_le_iff_le of_nat_le_iff cong: ball_cong)
    finally have l': "List.find ?P (sort_key ?f rules)
        = List.find (\<lambda>x. \<forall>y\<in>set ?rs. length (hr_path_prefix (pr_route y)) \<le> length (hr_path_prefix (pr_route x))) ?rs" .
    show ?thesis
      unfolding ms Let_def l' find_map o_def set_map ball_simps(9) by (rule refl)
  qed
qed

text \<open>The tables after a reload, by what their entries are made of.\<close>

lemma reload_tables:
  assumes r: "reload E rows r0 = Some r" and routes: "rw_routes rows = Some routes"
  shows "map_of (rt_by_host r) h =
      (case List.find (\<lambda>rt. route_host rt = h \<and> \<not> has_prefix h ''*.'') (rev routes) of
         Some x \<Rightarrow> Some x | None \<Rightarrow> List.find (\<lambda>rt. route_host rt = h) (opt_rows (rw_doors rows)))"
    and "map_of (rt_wild r) (CHR ''.'' # b) = List.find (\<lambda>rt. route_host rt = ''*.'' @ b) (rev routes)"
    and "\<exists>rules. gm_at [] (rt_paths r) h = sort_key (\<lambda>p. - int (length (pr_prefix p))) rules
      \<and> map pr_route rules = filter (\<lambda>rt. hr_path_prefix rt \<noteq> [] \<and> route_host rt = h) (opt_rows (rw_paths rows))
      \<and> (\<forall>p\<in>set rules. pr_prefix p = hr_path_prefix (pr_route p))"
    and "rt_traffic r = rt_traffic (fold (reload_route E) routes (new_router\<lparr>rt_heap := rt_heap r0\<rparr>))"
proof -
  define r1 where "r1 = fold (reload_route E) routes (new_router\<lparr>rt_heap := rt_heap r0\<rparr>)"
  define r3 where "r3 = fold (reload_path E) (opt_rows (rw_paths rows)) (fold reload_door (opt_rows (rw_doors rows)) r1)"
  have f: "rt_by_host r = rt_by_host r3" "rt_wild r = rt_wild r3" "rt_paths r = sort_paths (rt_paths r3)" "rt_traffic r = rt_traffic r3"
  proof -
    let ?lb = "case rw_lbs rows of None \<Rightarrow> rt_lb r0 | Some cfgs \<Rightarrow> build_lb_entries routes cfgs"
    have e: "r = (install_policies E (rw_policies rows) r0 (r3\<lparr>rt_paths := sort_paths (rt_paths r3)\<rparr>))\<lparr>rt_lb := ?lb\<rparr>"
      using r unfolding reload_def routes option.case Let_def r1_def r3_def by (rule option.inject [THEN iffD1, symmetric])
    show "rt_by_host r = rt_by_host r3" "rt_wild r = rt_wild r3" "rt_paths r = sort_paths (rt_paths r3)" "rt_traffic r = rt_traffic r3"
      unfolding e by (simp_all add: install_policies_fields)
  qed
  show "map_of (rt_by_host r) h =
      (case List.find (\<lambda>rt. route_host rt = h \<and> \<not> has_prefix h ''*.'') (rev routes) of
         Some x \<Rightarrow> Some x | None \<Rightarrow> List.find (\<lambda>rt. route_host rt = h) (opt_rows (rw_doors rows)))"
    by (simp add: f r3_def kept_by_paths by_host_doors r1_def by_host_routes new_router_def split: option.split)
  show "map_of (rt_wild r) (CHR ''.'' # b) = List.find (\<lambda>rt. route_host rt = ''*.'' @ b) (rev routes)"
    by (simp add: f r3_def kept_by_paths kept_by_doors r1_def wild_routes [OF refl] new_router_def split: option.split)
  show "rt_traffic r = rt_traffic (fold (reload_route E) routes (new_router\<lparr>rt_heap := rt_heap r0\<rparr>))"
    by (simp add: f r3_def kept_by_paths kept_by_doors r1_def)
  have p: "rt_paths (fold reload_door (opt_rows (rw_doors rows)) r1) = []"
    by (simp add: kept_by_doors r1_def kept_by_routes new_router_def)
  have "map pr_route (gm_at [] (rt_paths r3) h) = filter (\<lambda>rt. hr_path_prefix rt \<noteq> [] \<and> route_host rt = h) (opt_rows (rw_paths rows))"
    unfolding r3_def path_routes by (simp add: p)
  moreover have "\<forall>p\<in>set (gm_at [] (rt_paths r3) h). pr_prefix p = hr_path_prefix (pr_route p)"
    unfolding r3_def by (rule path_routes_prefix) (simp add: p)
  moreover have "gm_at [] (rt_paths r) h = sort_key (\<lambda>p. - int (length (pr_prefix p))) (gm_at [] (rt_paths r3) h)"
    by (simp add: f sort_paths_at)
  ultimately show "\<exists>rules. gm_at [] (rt_paths r) h = sort_key (\<lambda>p. - int (length (pr_prefix p))) rules
      \<and> map pr_route rules = filter (\<lambda>rt. hr_path_prefix rt \<noteq> [] \<and> route_host rt = h) (opt_rows (rw_paths rows))
      \<and> (\<forall>p\<in>set rules. pr_prefix p = hr_path_prefix (pr_route p))"
    by blast
qed

lemma label_rest_Some: "label_rest h = Some w \<Longrightarrow> \<exists>a b. w = CHR ''.'' # b \<and> h = a @ w \<and> CHR ''.'' \<notin> set a"
  using cut_at_found [of "CHR ''.''" h] by (auto simp: label_rest_def split: prod.splits if_splits)

text \<open>C4: After a reload, the tunnel of a request is the one the rows of the database name, whatever order and whatever other rows
  they contain. The host is compared without port, case and final dot, the path in its canonical form. Among the path rules of the
  host whose prefix ends at a segment boundary of the path, the first of the longest wins. Without one, the route of the exact name
  wins over a web door of that name, a door over a wildcard, and a wildcard stands for exactly one label.\<close>

theorem route_lookup_correct:
  fixes host path :: string
  assumes "reload E rows r0 = Some r" and "rw_routes rows = Some routes"
  defines "h \<equiv> normalize_host host"
    and "ms \<equiv> filter (\<lambda>rt. hr_path_prefix rt \<noteq> [] \<and> normalize_host (hr_fqdn rt) = normalize_host host
                       \<and> path_matches (canonical_path path) (hr_path_prefix rt)) (opt_rows (rw_paths rows))"
  shows "lookup_path r host path =
     (if ms \<noteq> [] then List.find (\<lambda>rt. \<forall>rt'\<in>set ms. length (hr_path_prefix rt') \<le> length (hr_path_prefix rt)) ms
      else case List.find (\<lambda>rt. normalize_host (hr_fqdn rt) = h \<and> \<not> has_prefix h ''*.'') (rev routes) of
          Some rt \<Rightarrow> Some rt
        | None \<Rightarrow> (case List.find (\<lambda>rt. normalize_host (hr_fqdn rt) = h) (opt_rows (rw_doors rows)) of
            Some rt \<Rightarrow> Some rt
          | None \<Rightarrow> (case label_rest h of
              None \<Rightarrow> None
            | Some w \<Rightarrow> List.find (\<lambda>rt. normalize_host (hr_fqdn rt) = CHR ''*'' # w) (rev routes))))"
proof -
  note tabs = reload_tables [OF assms(1,2)]
  obtain rules where rules: "gm_at [] (rt_paths r) h = sort_key (\<lambda>p. - int (length (pr_prefix p))) rules"
    "map pr_route rules = filter (\<lambda>rt. hr_path_prefix rt \<noteq> [] \<and> route_host rt = h) (opt_rows (rw_paths rows))"
    "\<forall>p\<in>set rules. pr_prefix p = hr_path_prefix (pr_route p)"
    using tabs(3) [of h] by blast
  have ms: "filter (\<lambda>rt. path_matches (canonical_path path) (hr_path_prefix rt)) (map pr_route rules) = ms"
    unfolding rules(2) ms_def h_def by (simp add: conj_ac)
  let ?best = "List.find (\<lambda>rt. \<forall>rt'\<in>set ms. length (hr_path_prefix rt') \<le> length (hr_path_prefix rt)) ms"
  have p: "map_option pr_route (path_rule_for r host path) = ?best"
    unfolding path_rule_for_def h_def [symmetric] rules(1)
    using path_rule_reference [OF rules(3), of "canonical_path path"] by (simp add: ms Let_def)
  have best: "?best = None \<longleftrightarrow> ms = []"
    using hd_sort_key [of ms "\<lambda>rt. - int (length (hr_path_prefix rt))"] by (cases "ms = []") simp_all
  have w: "(case label_rest h of None \<Rightarrow> None | Some w \<Rightarrow> map_of (rt_wild r) w) =
     (case label_rest h of None \<Rightarrow> None | Some w \<Rightarrow> List.find (\<lambda>rt. route_host rt = CHR ''*'' # w) (rev routes))"
    using tabs(2) by (auto split: option.split dest!: label_rest_Some)
  have l: "lookup_path r host path = (case ?best of Some rt \<Rightarrow> Some rt | None \<Rightarrow> lookup r host)"
    unfolding lookup_path_def p [symmetric] by (simp split: option.split)
  show ?thesis
  proof (cases "ms = []")
    case True
    then show ?thesis
      unfolding l by (simp add: lookup_def Let_def h_def [symmetric] tabs(1) w split: option.split)
  next
    case False
    with best obtain y where "?best = Some y" by blast
    with False show ?thesis unfolding l by simp
  qed
qed

section \<open>Policies of a route\<close>

definition compiled_rows :: "reload_env \<Rightarrow> policy_route list \<Rightarrow> compiled_policy list" where
  "compiled_rows E pts =
     concat (map (\<lambda>pt. case compile_policy (re_policy E) (pt_policy pt) (pt_priority pt) (pt_secrets pt) (pt_rules pt) of
       None \<Rightarrow> [] | Some cp \<Rightarrow> [cp]) pts)"

lemma compiled_rows_simps [simp]:
  "compiled_rows E [] = []" "compiled_rows E (xs @ ys) = compiled_rows E xs @ compiled_rows E ys"
  by (simp_all add: compiled_rows_def)

lemma reload_policy_by_host:
  "gm_at [] (fst (fold (reload_policy E) pts tabs)) h =
     gm_at [] (fst tabs) h @ compiled_rows E (filter (\<lambda>pt. normalize_host (pt_host pt) = h) pts)"
proof (induction pts arbitrary: tabs)
  case (Cons pt pts)
  have "gm_at [] (fst (reload_policy E pt tabs)) h =
      gm_at [] (fst tabs) h @ compiled_rows E (filter (\<lambda>pt. normalize_host (pt_host pt) = h) [pt])"
    by (cases tabs) (simp add: reload_policy_def compiled_rows_def Let_def split: option.split)
  then show ?case by (simp add: Cons compiled_rows_def)
qed simp

text \<open>The rows of a tunnel count once for each of its policies: the same binding comes back for every name of the tunnel.\<close>

definition tunnel_table_ok :: "reload_env \<Rightarrow> policy_route list \<Rightarrow> policy_tables \<Rightarrow> bool" where
  "tunnel_table_ok E pts tabs \<longleftrightarrow>
     (\<forall>pt\<in>set pts. pt_tunnel pt \<noteq> []
        \<and> compile_policy (re_policy E) (pt_policy pt) (pt_priority pt) (pt_secrets pt) (pt_rules pt) \<noteq> None \<longrightarrow>
        (pt_tunnel pt, pt_policy pt) \<in> set (snd (snd tabs)))
   \<and> (\<forall>(t, p)\<in>set (snd (snd tabs)). p \<in> cp_id ` set (gm_at [] (fst (snd tabs)) t))
   \<and> (\<forall>t. \<forall>cp\<in>set (gm_at [] (fst (snd tabs)) t). \<exists>pt\<in>set pts. pt_tunnel pt = t
        \<and> compile_policy (re_policy E) (pt_policy pt) (pt_priority pt) (pt_secrets pt) (pt_rules pt) = Some cp)"

lemma tunnel_table_step:
  assumes "tunnel_table_ok E pts tabs"
  shows "tunnel_table_ok E (pts @ [pt]) (reload_policy E pt tabs)"
proof -
  obtain bh bt seen where t: "tabs = (bh, bt, seen)" by (cases tabs)
  show ?thesis
  proof (cases "compile_policy (re_policy E) (pt_policy pt) (pt_priority pt) (pt_secrets pt) (pt_rules pt)")
    case None
    then have "reload_policy E pt tabs = tabs" by (simp add: reload_policy_def t Let_def)
    with assms None show ?thesis unfolding tunnel_table_ok_def by auto
  next
    case (Some cp)
    have pid: "cp_id cp = pt_policy pt" using compile_policy_rules(2) [OF Some] .
    show ?thesis
    proof (cases "pt_tunnel pt \<noteq> [] \<and> (pt_tunnel pt, pt_policy pt) \<notin> set seen")
      case True
      have e: "snd (reload_policy E pt tabs)
          = (gm_put (pt_tunnel pt) (gm_at [] bt (pt_tunnel pt) @ [cp]) bt, (pt_tunnel pt, pt_policy pt) # seen)"
        using True Some by (simp add: reload_policy_def t Let_def)
      show ?thesis using assms Some pid unfolding tunnel_table_ok_def e by (auto simp: t split: if_splits)
    next
      case False
      then have e: "snd (reload_policy E pt tabs) = (bt, seen)" using Some by (simp add: reload_policy_def t Let_def)
      show ?thesis using assms Some False unfolding tunnel_table_ok_def e by (auto simp: t)
    qed
  qed
qed

lemma tunnel_table: "tunnel_table_ok E pts (fold (reload_policy E) pts ([], [], []))"
proof (induction pts rule: rev_induct)
  case Nil
  show ?case by (simp add: tunnel_table_ok_def)
next
  case (snoc pt pts)
  show ?case using tunnel_table_step [OF snoc.IH, of pt] by simp
qed

lemma tunnel_table_rows:
  "pt \<in> set pts \<Longrightarrow> pt_tunnel pt \<noteq> [] \<Longrightarrow>
     compile_policy (re_policy E) (pt_policy pt) (pt_priority pt) (pt_secrets pt) (pt_rules pt) = Some cp \<Longrightarrow>
     pt_policy pt \<in> cp_id ` set (gm_at [] (fst (snd (fold (reload_policy E) pts ([], [], [])))) (pt_tunnel pt))"
  "cp \<in> set (gm_at [] (fst (snd (fold (reload_policy E) pts ([], [], [])))) t) \<Longrightarrow>
     \<exists>pt\<in>set pts. pt_tunnel pt = t
       \<and> compile_policy (re_policy E) (pt_policy pt) (pt_priority pt) (pt_secrets pt) (pt_rules pt) = Some cp"
  using tunnel_table [of E pts] unfolding tunnel_table_ok_def by blast+

lemma reload_policy_tables:
  assumes r: "reload E rows r0 = Some r" and p: "rw_policies rows = Some pts"
  shows "gm_at [] (rt_policies r) h = sort_key cp_priority (compiled_rows E (filter (\<lambda>pt. normalize_host (pt_host pt) = h) pts))"
    and "gm_at [] (rt_tunnel_policies r) t = sort_key cp_priority (gm_at [] (fst (snd (fold (reload_policy E) pts ([], [], [])))) t)"
proof -
  obtain routes where routes: "rw_routes rows = Some routes" using r by (auto simp: reload_def split: option.splits)
  obtain q where e: "r = (install_policies E (rw_policies rows) r0 q)\<lparr>rt_lb := rt_lb r\<rparr>"
    using r unfolding reload_def routes option.case Let_def by (metis (no_types) option.inject router.select_convs(9) router.surjective router.update_convs(9))
  obtain bh bt seen where tabs: "fold (reload_policy E) pts ([], [], []) = (bh, bt, seen)" by (metis prod_cases3)
  have "rt_policies r = sort_policies bh" "rt_tunnel_policies r = sort_policies bt"
    by (subst e, simp add: install_policies_def p tabs)+
  then show "gm_at [] (rt_policies r) h = sort_key cp_priority (compiled_rows E (filter (\<lambda>pt. normalize_host (pt_host pt) = h) pts))"
    and "gm_at [] (rt_tunnel_policies r) t = sort_key cp_priority (gm_at [] (fst (snd (fold (reload_policy E) pts ([], [], [])))) t)"
    using reload_policy_by_host [of E pts "([], [], [])" h] by (simp_all add: sort_policies_at tabs)
qed

text \<open>Rows of one policy differ only in what it is bound to.\<close>

definition rows_agree :: "policy_route list \<Rightarrow> bool" where
  "rows_agree pts \<longleftrightarrow> (\<forall>a\<in>set pts. \<forall>b\<in>set pts. pt_policy a = pt_policy b \<longrightarrow>
     pt_priority a = pt_priority b \<and> pt_rules a = pt_rules b \<and> pt_secrets a = pt_secrets b)"

definition row_bound :: "policy_route \<Rightarrow> string \<Rightarrow> host_route \<Rightarrow> bool" where
  "row_bound pt host rt \<longleftrightarrow> normalize_host (pt_host pt) = normalize_host host
     \<or> hr_path_prefix rt \<noteq> [] \<and> pt_tunnel pt \<noteq> [] \<and> pt_tunnel pt = hr_tunnel rt"

lemma compiled_row_in:
  "cp \<in> set (compiled_rows E pts) \<longleftrightarrow>
     (\<exists>pt\<in>set pts. compile_policy (re_policy E) (pt_policy pt) (pt_priority pt) (pt_secrets pt) (pt_rules pt) = Some cp)"
  by (force simp: compiled_rows_def split: option.splits)

lemma policies_for_route_set:
  "set (policies_for_route r host rt) =
     (let base = set (gm_at [] (rt_policies r) (normalize_host host)) in
      base \<union> (if hr_path_prefix rt = [] then {}
              else {cp \<in> set (gm_at [] (rt_tunnel_policies r) (hr_tunnel rt)). cp_id cp \<notin> cp_id ` base}))"
  by (auto simp: policies_for_route_def Let_def)

lemma policies_of_rows:
  assumes r: "reload E rows r0 = Some r" and p: "rw_policies rows = Some pts" and cp: "cp \<in> set (policies_for_route r host rt)"
  shows "\<exists>pt\<in>set pts. (normalize_host (pt_host pt) = normalize_host host \<or> hr_path_prefix rt \<noteq> [] \<and> pt_tunnel pt = hr_tunnel rt)
    \<and> compile_policy (re_policy E) (pt_policy pt) (pt_priority pt) (pt_secrets pt) (pt_rules pt) = Some cp"
  using cp tunnel_table [of E pts] unfolding tunnel_table_ok_def
  by (fastforce simp: policies_for_route_set Let_def reload_policy_tables [OF r p] compiled_row_in split: if_splits)

lemma policies_compiled:
  assumes "reload E rows r0 = Some r" and "rw_policies rows = Some pts"
  shows "compiled_list (re_policy E) (policies_for_route r host rt)"
  unfolding compiled_list_def using policies_of_rows [OF assms] by blast

lemma bound_row_applies:
  assumes r: "reload E rows r0 = Some r" and p: "rw_policies rows = Some pts" and ag: "rows_agree pts"
    and pt: "pt \<in> set pts" and b: "row_bound pt host rt"
    and c: "compile_policy (re_policy E) (pt_policy pt) (pt_priority pt) (pt_secrets pt) (pt_rules pt) = Some cp"
  shows "cp \<in> set (policies_for_route r host rt)"
proof -
  have same: "cp' = cp" if "pt' \<in> set pts" "compile_policy (re_policy E) (pt_policy pt') (pt_priority pt') (pt_secrets pt') (pt_rules pt') = Some cp'"
    "cp_id cp' = cp_id cp" for pt' cp'
  proof -
    have "pt_policy pt' = pt_policy pt" using that compile_policy_rules(2) [OF c] compile_policy_rules(2) [OF that(2)] by simp
    with ag that(1) pt have "pt_priority pt' = pt_priority pt" "pt_rules pt' = pt_rules pt" "pt_secrets pt' = pt_secrets pt"
      unfolding rows_agree_def by blast+
    with \<open>pt_policy pt' = pt_policy pt\<close> that(2) c show ?thesis by simp
  qed
  let ?base = "set (gm_at [] (rt_policies r) (normalize_host host))"
  have base: "?base = set (compiled_rows E (filter (\<lambda>pt. normalize_host (pt_host pt) = normalize_host host) pts))"
    by (simp add: reload_policy_tables(1) [OF r p])
  show ?thesis
  proof (cases "normalize_host (pt_host pt) = normalize_host host")
    case True
    with pt c have "cp \<in> ?base" unfolding base compiled_row_in by auto
    then show ?thesis by (simp add: policies_for_route_set Let_def)
  next
    case False
    with b have t: "hr_path_prefix rt \<noteq> []" "pt_tunnel pt \<noteq> []" "pt_tunnel pt = hr_tunnel rt" by (auto simp: row_bound_def)
    let ?tab = "gm_at [] (rt_tunnel_policies r) (hr_tunnel rt)"
    have "pt_policy pt \<in> cp_id ` set ?tab"
      using tunnel_table_rows(1) [OF pt t(2) c] unfolding reload_policy_tables(2) [OF r p] set_sort t(3) .
    then obtain cp' where cp': "cp' \<in> set ?tab" "cp_id cp' = pt_policy pt" by auto
    obtain pt' where pt': "pt' \<in> set pts" "compile_policy (re_policy E) (pt_policy pt') (pt_priority pt') (pt_secrets pt') (pt_rules pt') = Some cp'"
      using tunnel_table_rows(2) cp'(1) unfolding reload_policy_tables(2) [OF r p] set_sort by blast
    have e: "cp' = cp" by (rule same [OF pt']) (simp add: cp'(2) compile_policy_rules(2) [OF c])
    show ?thesis
    proof (cases "cp_id cp \<in> cp_id ` ?base")
      case True
      then obtain d where d: "d \<in> ?base" "cp_id d = cp_id cp" by auto
      then obtain pd where pd: "pd \<in> set pts" "compile_policy (re_policy E) (pt_policy pd) (pt_priority pd) (pt_secrets pd) (pt_rules pd) = Some d"
        unfolding base compiled_row_in by auto
      have "d = cp" by (rule same [OF pd d(2)])
      with d(1) show ?thesis by (simp add: policies_for_route_set Let_def)
    next
      case False
      with cp'(1) e t(1) show ?thesis by (simp add: policies_for_route_set Let_def)
    qed
  qed
qed

text \<open>C3: From the database to the verdict: after a reload that read the policies, a request that is let through has passed every
  rule of every policy bound to its host, and, when a path rule sends it to another tunnel, of every policy bound to that tunnel. No
  matching \<open>deny\<close> rule, missing client certificate, wrong webhook signature or WAF hit is overlooked because of the order or the
  number of the bindings, and a webhook or WAF rule whose provider, secret, rule set or pattern cannot be resolved refuses what it
  matches instead of being dropped.\<close>

theorem bound_rules_enforced:
  assumes r: "reload E rows r0 = Some r" and p: "rw_policies rows = Some pts" and ag: "rows_agree pts"
    and pt: "pt \<in> set pts" and b: "row_bound pt host rt"
    and ma: "(m, a) \<in> set (pt_rules pt)" and hit: "cond_matches (compile_match m) q (rf_geo f) (rf_intel f)"
    and pass: "\<not> terminal (fst (evaluate_policy_list (re_policy E) f q (policies_for_route r host rt)))"
  shows "passes_rule (re_policy E) f (pt_secrets pt) q a"
proof (rule ccontr)
  assume bad: "\<not> passes_rule (re_policy E) f (pt_secrets pt) q a"
  have "compile_action (re_policy E) (pt_secrets pt) a \<noteq> ActNoop"
    by (rule failed_rule_decisive(1) [OF bad, of "compile_match m"]) (simp add: rule_hit_def hit)
  with ma obtain cp where c: "compile_policy (re_policy E) (pt_policy pt) (pt_priority pt) (pt_secrets pt) (pt_rules pt) = Some cp"
    using compile_policy_exists by blast
  from security_rules_fail_closed [OF policies_compiled [OF r p] bound_row_applies [OF r p ag pt b c] c ma hit pass] bad
  show False by contradiction
qed

section \<open>Names below a wildcard\<close>

lemma no_traffic:
  "\<forall>x\<in>set routes. route_host x \<noteq> h \<Longrightarrow> map_of (rt_traffic (fold (reload_route E) routes r)) h = map_of (rt_traffic r) h"
  by (induction routes arbitrary: r) (auto simp: reload_simps)

text \<open>C39: What is configured for a wildcard name is not applied to the hosts it serves. The lookup of the route falls back from the
  exact name to the wildcard, the lookups of the policies and of the traffic rules do not: a host without an exact route gets the
  tunnel of the wildcard, but no policy and no traffic rule, whatever is bound to the wildcard name or to its tunnel.\<close>

theorem wildcard_rules_ignored:
  assumes "reload E rows r0 = Some r" and "rw_routes rows = Some routes" and "rw_policies rows = Some pts"
    and names: "\<forall>pt\<in>set pts. \<exists>x\<in>set routes. normalize_host (hr_fqdn x) = normalize_host (pt_host pt)"
    and wild: "\<forall>x\<in>set routes. normalize_host (hr_fqdn x) \<noteq> normalize_host host"
    and "lookup_path r host path = Some rt" and prefix: "hr_path_prefix rt = []"
  shows "policies_for_route r host rt = [] \<and> traffic_for_route r host rt path = None"
proof
  have "filter (\<lambda>pt. normalize_host (pt_host pt) = normalize_host host) pts = []"
    using names wild by (auto simp: filter_empty_conv)
  then show "policies_for_route r host rt = []"
    by (simp add: policies_for_route_def prefix Let_def reload_policy_tables(1) [OF assms(1,3)])
  have "traffic_for r host = None"
    using no_traffic [OF wild] by (simp add: traffic_for_def reload_tables(4) [OF assms(1,2)] new_router_def)
  then show "traffic_for_route r host rt path = None"
    by (simp add: traffic_for_route_def prefix split: option.split)
qed

section \<open>A sample configuration\<close>

definition sample_route :: host_route where
  "sample_route = \<lparr>hr_fqdn = ''*.Example.com'', hr_tenant = ''ten1'', hr_tunnel = ''wild'', hr_client = ''c1'', hr_target = [],
     hr_enabled = True, hr_proto = ''http'', hr_exposure = ''auto'', hr_plan = ''pro'', hr_frozen = False, hr_path_prefix = [],
     hr_replicas = [], hr_access_mode = [], hr_access_config = [], hr_access_enabled = False, hr_door = None, hr_traffic_config = [1],
     hr_traffic_enabled = True, hr_mcp_config = [], hr_mcp_enabled = False, hr_mcp_keys = [], hr_mtls_enabled = False, hr_mtls_ca = [],
     hr_security = []\<rparr>"

definition sample_match :: raw_match where
  "sample_match = \<lparr>rm_path_prefix = [], rm_methods = [], rm_header = [], rm_country = [], rm_country_not = [], rm_unknown = None,
     rm_continent = [], rm_asn = [], rm_isp = [], rm_tor_exit = None, rm_hosting = None, rm_reputation = []\<rparr>"

definition sample_action :: raw_action where
  "sample_action = \<lparr>ra_type = ''require_mtls'', ra_status = 0, ra_message = [], ra_location = [], ra_request = no_headers,
     ra_response = no_headers, ra_key = [], ra_requests = 0, ra_window = 0, ra_burst = 0, ra_provider = [], ra_secret_ref = [],
     ra_tolerance = 0, ra_ruleset = [], ra_patterns = []\<rparr>"

definition sample_traffic :: traffic_policy where
  "sample_traffic = \<lparr>tp_request = \<lparr>hd_set = [(''X-Via'', ''zorven'')], hd_remove = []\<rparr>, tp_response = no_headers, tp_redirects = []\<rparr>"

definition sample_env :: reload_env where
  "sample_env = \<lparr>re_policy = \<lparr>pe_rx_ok = (\<lambda>p. True), pe_rx_match = (\<lambda>p s. False), pe_unescape = Some,
     pe_verify = (\<lambda>p s b h t. False)\<rparr>, re_parse_traffic = (\<lambda>b. Some sample_traffic), re_ca_ok = (\<lambda>s. True)\<rparr>"

definition sample_policy :: policy_route where
  "sample_policy = \<lparr>pt_host = ''*.example.com'', pt_tunnel = ''wild'', pt_policy = ''p1'', pt_priority = 5,
     pt_rules = [(sample_match, sample_action)], pt_secrets = []\<rparr>"

definition sample_rows :: reload_rows where
  "sample_rows = \<lparr>rw_routes = Some [sample_route, sample_route\<lparr>hr_fqdn := ''api.example.com'', hr_tunnel := ''api''\<rparr>], rw_doors = None,
     rw_paths = Some [sample_route\<lparr>hr_fqdn := ''api.example.com'', hr_tunnel := ''v1'', hr_path_prefix := ''/v1''\<rparr>,
       sample_route\<lparr>hr_fqdn := ''api.example.com'', hr_tunnel := ''admin'', hr_path_prefix := ''/v1/admin''\<rparr>],
     rw_policies = Some [sample_policy, sample_policy\<lparr>pt_policy := ''p2'', pt_tunnel := ''admin'',
       pt_rules := [(sample_match\<lparr>rm_path_prefix := ''v1/admin''\<rparr>, sample_action)]\<rparr>], rw_lbs = Some []\<rparr>"

definition sample_router :: router where
  "sample_router = the (reload sample_env sample_rows new_router)"

definition sample_facts :: request_facts where
  "sample_facts = \<lparr>rf_ip = ''192.0.2.7'', rf_tunnel = ''t1'', rf_mtls = True, rf_geo = \<lparr>ii_ok = False, ii_country = [], ii_continent = [],
     ii_asn = 0, ii_isp = []\<rparr>, rf_intel = \<lparr>ti_tor_exit = False, ti_hosting = False, ti_reputation = []\<rparr>, rf_allow = (\<lambda>i k. True)\<rparr>"

definition sample_req :: http_req where
  "sample_req = \<lparr>hq_method = ''GET'', hq_path = ''/v1//x/../admin/users'', hq_query = [], hq_get = (\<lambda>k. []), hq_body = []\<rparr>"

lemma sample_reload: "reload sample_env sample_rows new_router = Some sample_router"
  by (simp add: sample_router_def reload_def sample_rows_def Let_def)

lemma route_lookup_correct_witness:
  "map_option hr_tunnel (lookup_path sample_router ''API.example.com:8443'' ''/v1//x/../admin/users'') = Some ''admin''
   \<and> map_option hr_tunnel (lookup_path sample_router ''app.example.com.'' ''/v1'') = Some ''wild''"
proof -
  have r: "rw_routes sample_rows = Some [sample_route, sample_route\<lparr>hr_fqdn := ''api.example.com'', hr_tunnel := ''api''\<rparr>]"
    by (simp add: sample_rows_def)
  show ?thesis
    unfolding route_lookup_correct [OF sample_reload r, of "''API.example.com:8443''"]
      route_lookup_correct [OF sample_reload r, of "''app.example.com.''"]
    by code_simp
qed

lemma bound_rules_enforced_witness:
  "let q = sample_req; f = sample_facts; host = ''api.example.com'' in
   \<not> passes_rule (re_policy sample_env) (f\<lparr>rf_mtls := False\<rparr>) [] q sample_action
   \<and> passes_rule (re_policy sample_env) f [] q sample_action"
proof -
  let ?pt = "sample_policy\<lparr>pt_policy := ''p2'', pt_tunnel := ''admin'',
       pt_rules := [(sample_match\<lparr>rm_path_prefix := ''v1/admin''\<rparr>, sample_action)]\<rparr>"
  let ?rt = "sample_route\<lparr>hr_fqdn := ''api.example.com'', hr_tunnel := ''admin'', hr_path_prefix := ''/v1/admin''\<rparr>"
  have p: "rw_policies sample_rows = Some [sample_policy, ?pt]" by (simp add: sample_rows_def)
  have ag: "rows_agree [sample_policy, ?pt]" by (simp add: rows_agree_def sample_policy_def)
  have b: "row_bound ?pt ''api.example.com'' ?rt" by (simp add: row_bound_def sample_policy_def)
  have m: "(sample_match\<lparr>rm_path_prefix := ''v1/admin''\<rparr>, sample_action) \<in> set (pt_rules ?pt)" by simp
  have h: "cond_matches (compile_match (sample_match\<lparr>rm_path_prefix := ''v1/admin''\<rparr>)) sample_req (rf_geo sample_facts) (rf_intel sample_facts)"
    by code_simp
  have n: "\<not> terminal (fst (evaluate_policy_list (re_policy sample_env) sample_facts sample_req
      (policies_for_route sample_router ''api.example.com'' ?rt)))"
    by code_simp
  have "passes_rule (re_policy sample_env) sample_facts (pt_secrets ?pt) sample_req sample_action"
    by (rule bound_rules_enforced [OF sample_reload p ag _ b m h n]) simp
  moreover have "\<not> passes_rule (re_policy sample_env) (sample_facts\<lparr>rf_mtls := False\<rparr>) [] sample_req sample_action"
  proof -
    have "action_type sample_action = ''require_mtls''" by code_simp
    then show ?thesis by (simp add: passes_rule_def)
  qed
  ultimately show ?thesis by (simp add: Let_def sample_policy_def)
qed

lemma wildcard_rules_ignored_witness:
  "(\<exists>rt. lookup_path sample_router ''app.example.com'' ''/'' = Some rt \<and> hr_tunnel rt = ''wild''
     \<and> policies_for_route sample_router ''app.example.com'' rt = [])
   \<and> map cp_id (policies_for_route sample_router ''*.example.com'' sample_route) = [''p1'', ''p2'']"
proof -
  let ?pt = "sample_policy\<lparr>pt_policy := ''p2'', pt_tunnel := ''admin'',
       pt_rules := [(sample_match\<lparr>rm_path_prefix := ''v1/admin''\<rparr>, sample_action)]\<rparr>"
  have r: "rw_routes sample_rows = Some [sample_route, sample_route\<lparr>hr_fqdn := ''api.example.com'', hr_tunnel := ''api''\<rparr>]"
    and p: "rw_policies sample_rows = Some [sample_policy, ?pt]"
    by (simp_all add: sample_rows_def)
  have n: "\<forall>pt\<in>set [sample_policy, ?pt]. \<exists>x\<in>set [sample_route, sample_route\<lparr>hr_fqdn := ''api.example.com'', hr_tunnel := ''api''\<rparr>].
      normalize_host (hr_fqdn x) = normalize_host (pt_host pt)"
    by code_simp
  have w: "\<forall>x\<in>set [sample_route, sample_route\<lparr>hr_fqdn := ''api.example.com'', hr_tunnel := ''api''\<rparr>].
      normalize_host (hr_fqdn x) \<noteq> normalize_host ''app.example.com''"
    by code_simp
  have l: "lookup_path sample_router ''app.example.com'' ''/'' = Some sample_route" by code_simp
  have "hr_path_prefix sample_route = []" by (simp add: sample_route_def)
  from wildcard_rules_ignored [OF sample_reload r p n w l this] l
  have "policies_for_route sample_router ''app.example.com'' sample_route = []" by simp
  moreover have "map cp_id (policies_for_route sample_router ''*.example.com'' sample_route) = [''p1'', ''p2'']" by code_simp
  moreover have "hr_tunnel sample_route = ''wild''" by (simp add: sample_route_def)
  ultimately show ?thesis using l by blast
qed

end
