(* ===== verification/Backend_Choice.thy ===== *)
theory Backend_Choice
  imports Host_Router
begin

text \<open>
  The choice of the agent for a request (\<open>server/ingress/ingress.go\<close>, the part of \<open>ServeHTTP\<close> after the checks, with the
  counters of \<open>backends.go\<close>) over the life of the ingress: requests start and end, health checks report, the routes are
  reloaded, in any order. The number of open requests per agent, which \<open>least_connections\<close> compares, is exact.
\<close>

section \<open>Choosing an agent\<close>

definition rr_next :: "string \<Rightarrow> (string, u64) gomap \<Rightarrow> u64 \<times> (string, u64) gomap" where
  "rr_next k m = (gm_at 0 m k, gm_put k (gm_at 0 m k + 1) m)"

record ingress =
  in_router :: router
  in_lb :: lb_state
  in_rr :: "(string, u64) gomap"

definition backend_order :: "(string \<Rightarrow> bool) \<Rightarrow> router \<Rightarrow> lb_state \<Rightarrow> u64 \<Rightarrow> host_route \<Rightarrow> string list" where
  "backend_order online r s n rt =
     (let cands = candidate_clients (hr_client rt) (hr_replicas rt) in
      case lb_for r (hr_tunnel rt) of
        Some e \<Rightarrow> order_backends cands (le_cfg e) n (hub_view online (hr_tunnel rt) s)
      | None \<Rightarrow> order_online cands n online)"

text \<open>\<open>online\<close> is the hub when the order is computed, \<open>online'\<close> when the session is fetched.\<close>

definition start_request :: "(string \<Rightarrow> bool) \<Rightarrow> (string \<Rightarrow> bool) \<Rightarrow> host_route \<Rightarrow> ingress \<Rightarrow> string option \<times> ingress" where
  "start_request online online' rt g =
     (case rr_next (hr_fqdn rt) (in_rr g) of
        (n, rr) \<Rightarrow>
          (case List.find online' (backend_order online (in_router g) (in_lb g) n rt) of
             None \<Rightarrow> (None, g\<lparr>in_rr := rr\<rparr>)
           | Some c \<Rightarrow> (Some c, g\<lparr>in_rr := rr, in_lb := lb_begin c (in_lb g)\<rparr>)))"

definition end_request :: "string \<Rightarrow> ingress \<Rightarrow> ingress" where
  "end_request c g = g\<lparr>in_lb := lb_end c (in_lb g)\<rparr>"

section \<open>The life of the ingress\<close>

text \<open>A state with the agents of the open requests, one entry for each request.\<close>

inductive lb_step :: "(int \<Rightarrow> int \<Rightarrow> int) \<Rightarrow> ingress \<times> string list \<Rightarrow> ingress \<times> string list \<Rightarrow> bool" for ewma where
  started: "start_request online online' rt g = (Some c, g') \<Longrightarrow> lb_step ewma (g, open) (g', c # open)"
| refused: "start_request online online' rt g = (None, g') \<Longrightarrow> lb_step ewma (g, open) (g', open)"
| ended: "c \<in> set open \<Longrightarrow> lb_step ewma (g, open) (end_request c g, remove1 c open)"
| checked: "record_check ewma now tun c ok latency err cfg (in_lb g) = (res, s) \<Longrightarrow> lb_step ewma (g, open) (g\<lparr>in_lb := s\<rparr>, open)"
| reloaded: "reload E rows (in_router g) = Some r \<Longrightarrow> lb_step ewma (g, open) (g\<lparr>in_router := r\<rparr>, open)"

definition new_ingress :: ingress where
  "new_ingress = \<lparr>in_router = new_router, in_lb = \<lparr>ls_health = [], ls_inflight = []\<rparr>, in_rr = []\<rparr>"

inductive lb_reach :: "(int \<Rightarrow> int \<Rightarrow> int) \<Rightarrow> ingress \<times> string list \<Rightarrow> bool" for ewma where
  initial: "lb_reach ewma (new_ingress, [])"
| step: "lb_reach ewma x \<Longrightarrow> lb_step ewma x y \<Longrightarrow> lb_reach ewma y"

inductive_cases lb_stepE: "lb_step ewma (g, open) y"

lemma inflight_steps [simp]:
  "inflight_of (lb_begin c s) d = inflight_of s d + (if d = c then 1 else 0)"
  "inflight_of (lb_end c s) d = inflight_of s d - (if d = c then 1 else 0)"
  by (simp_all add: inflight_of_def lb_begin_def lb_end_def)

lemma record_check_inflight: "record_check ewma now tun c ok latency err cfg s = (res, s') \<Longrightarrow> ls_inflight s' = ls_inflight s"
  by (auto simp: record_check_def split: prod.splits)

lemma start_request_lb:
  "start_request online online' rt g = (Some c, g') \<Longrightarrow> in_lb g' = lb_begin c (in_lb g)"
  "start_request online online' rt g = (None, g') \<Longrightarrow> in_lb g' = in_lb g"
  by (auto simp: start_request_def split: prod.splits option.splits)

text \<open>The counters count the open requests.\<close>

definition counts_ok :: "ingress \<times> string list \<Rightarrow> bool" where
  "counts_ok x \<longleftrightarrow> (\<forall>c. inflight_of (in_lb (fst x)) c = int (count_list (snd x) c))"

lemma count_remove1: "c \<in> set xs \<Longrightarrow> int (count_list (remove1 c xs) d) = int (count_list xs d) - (if d = c then 1 else 0)"
proof (induction xs)
  case (Cons x xs)
  then show ?case by (cases "x = c") auto
qed simp

lemma lb_step_counts: "lb_step ewma x y \<Longrightarrow> counts_ok x \<Longrightarrow> counts_ok y"
proof (induction rule: lb_step.induct)
  case (started online online' rt g c g' opn)
  then show ?case by (simp add: counts_ok_def start_request_lb(1) [OF started(1)])
next
  case (refused online online' rt g g' opn)
  then show ?case by (simp add: counts_ok_def start_request_lb(2) [OF refused(1)])
next
  case (ended c opn g)
  then show ?case using count_remove1 [OF ended(1)] by (auto simp: counts_ok_def end_request_def simp del: of_nat_diff)
next
  case (checked now tun c ok latency err cfg g res s opn)
  then show ?case by (simp add: counts_ok_def inflight_of_def record_check_inflight [OF checked(1)])
next
  case (reloaded E rows g r opn)
  then show ?case by (simp add: counts_ok_def)
qed

lemma new_ingress_counts: "counts_ok (new_ingress, [])"
  by (simp add: counts_ok_def new_ingress_def inflight_of_def)

lemma lb_reach_counts: "lb_reach ewma x \<Longrightarrow> counts_ok x"
  by (induction rule: lb_reach.induct) (simp_all add: new_ingress_counts lb_step_counts)

section \<open>The chosen agent\<close>

text \<open>The agents that may serve a request: those of the tunnel that are online and, if health checks are on and some of them are
  healthy, healthy.\<close>

definition may_serve :: "(string \<Rightarrow> bool) \<Rightarrow> ingress \<Rightarrow> host_route \<Rightarrow> string \<Rightarrow> bool" where
  "may_serve online g rt c \<longleftrightarrow>
     (let cands = insert (hr_client rt) (set (hr_replicas rt)) - {[]};
          healthy = (\<lambda>d. \<not> bh_unhealthy (health_of (in_lb g) (hr_tunnel rt) d)) in
      c \<in> cands \<and> online c
      \<and> (case lb_for (in_router g) (hr_tunnel rt) of
           None \<Rightarrow> True
         | Some e \<Rightarrow> lb_health_enabled (le_cfg e) \<and> (\<exists>d\<in>cands. online d \<and> healthy d) \<longrightarrow> healthy c))"

lemma backend_order_set: "set (backend_order online (in_router g) (in_lb g) n rt) = {c. may_serve online g rt c}"
proof (cases "lb_for (in_router g) (hr_tunnel rt)")
  case None
  then show ?thesis by (auto simp: backend_order_def order_online_def may_serve_def Let_def)
next
  case (Some e)
  then show ?thesis
    using order_backends_pool [of "candidate_clients (hr_client rt) (hr_replicas rt)" "le_cfg e" n "hub_view online (hr_tunnel rt) (in_lb g)"]
    by (auto simp: backend_order_def may_serve_def Let_def backend_pool_set hub_view_def)
qed

lemma find_hd: "(\<And>x. x \<in> set xs \<Longrightarrow> P x) \<Longrightarrow> List.find P xs = (if xs = [] then None else Some (hd xs))"
  by (cases xs) auto

lemma may_serve_online: "may_serve online g rt c \<Longrightarrow> online c"
  by (simp add: may_serve_def Let_def)

lemma no_may_serve:
  "(\<exists>c. may_serve online g rt c) \<longleftrightarrow> (\<exists>c\<in>insert (hr_client rt) (set (hr_replicas rt)) - {[]}. online c)"
proof
  assume "\<exists>c\<in>insert (hr_client rt) (set (hr_replicas rt)) - {[]}. online c"
  then obtain c where c: "c \<in> insert (hr_client rt) (set (hr_replicas rt)) - {[]}" "online c" by blast
  let ?healthy = "\<lambda>d. \<not> bh_unhealthy (health_of (in_lb g) (hr_tunnel rt) d)"
  show "\<exists>c. may_serve online g rt c"
  proof (cases "\<exists>d\<in>insert (hr_client rt) (set (hr_replicas rt)) - {[]}. online d \<and> ?healthy d")
    case True
    then show ?thesis by (auto simp: may_serve_def Let_def split: option.split)
  next
    case False
    with c show ?thesis by (auto simp: may_serve_def Let_def split: option.split)
  qed
qed (auto simp: may_serve_def Let_def)

text \<open>C6: Whatever requests, health checks and reloads came before, a request is refused for want of an agent only if no agent of
  its tunnel is online, and otherwise goes to an agent that is online, belongs to the tunnel and is not known to be down while a
  healthy one is online. With \<open>least_connections\<close> no other agent that could serve it has fewer requests open at that moment.\<close>

theorem request_reaches_agent:
  assumes "lb_reach ewma (g, opn)" and "start_request online online rt g = (res, g')"
  shows "(res = None \<longleftrightarrow> (\<forall>c\<in>insert (hr_client rt) (set (hr_replicas rt)) - {[]}. \<not> online c))
    \<and> (\<forall>c. res = Some c \<longrightarrow> may_serve online g rt c
         \<and> (\<forall>e. lb_for (in_router g) (hr_tunnel rt) = Some e \<longrightarrow> lb_strategy (le_cfg e) = LBLeastConnections \<longrightarrow>
              (\<forall>d. may_serve online g rt d \<longrightarrow> count_list opn c \<le> count_list opn d)))"
proof -
  let ?n = "fst (rr_next (hr_fqdn rt) (in_rr g))"
  let ?ord = "backend_order online (in_router g) (in_lb g) ?n rt"
  have res: "res = (if ?ord = [] then None else Some (hd ?ord))"
  proof -
    have "List.find online ?ord = (if ?ord = [] then None else Some (hd ?ord))"
      by (rule find_hd) (use backend_order_set [of online g ?n rt] may_serve_online in blast)
    moreover have "res = List.find online ?ord"
      using assms(2) by (auto simp: start_request_def rr_next_def split: option.splits)
    ultimately show ?thesis by simp
  qed
  have none: "?ord = [] \<longleftrightarrow> (\<forall>c. \<not> may_serve online g rt c)"
    using backend_order_set [of online g ?n rt] by (metis empty_iff list.set(1) list.set_intros(1) mem_Collect_eq neq_Nil_conv)
  have counts: "inflight_of (in_lb g) c = int (count_list opn c)" for c
    using lb_reach_counts [OF assms(1)] by (simp add: counts_ok_def)
  have least: "count_list opn (hd ?ord) \<le> count_list opn d"
    if "lb_for (in_router g) (hr_tunnel rt) = Some e" "lb_strategy (le_cfg e) = LBLeastConnections" "may_serve online g rt d" for e d
  proof -
    have "d \<in> set ?ord" using that(3) backend_order_set by blast
    moreover have "?ord = order_backends (candidate_clients (hr_client rt) (hr_replicas rt)) (le_cfg e) ?n (hub_view online (hr_tunnel rt) (in_lb g))"
      using that(1) by (simp add: backend_order_def)
    ultimately have "bv_inflight (hub_view online (hr_tunnel rt) (in_lb g)) (hd ?ord) \<le> bv_inflight (hub_view online (hr_tunnel rt) (in_lb g)) d"
      using backend_order_correct [of "hr_client rt" "hr_replicas rt" "le_cfg e" ?n "hub_view online (hr_tunnel rt) (in_lb g)"] that(2)
      by (simp add: Let_def)
    then show ?thesis by (simp add: hub_view_def counts)
  qed
  have "may_serve online g rt (hd ?ord)" if "?ord \<noteq> []"
    using that backend_order_set [of online g ?n rt] hd_in_set by blast
  then show ?thesis
    using res none no_may_serve [of online g rt] least by auto
qed

lemma request_reaches_agent_witness:
  "let cfg = \<lparr>lb_strategy = LBLeastConnections, lb_weights = [], lb_health_enabled = True, lb_health_path = [], lb_interval_sec = 10,
         lb_timeout_sec = 3, lb_unhealthy_threshold = 1, lb_healthy_threshold = 1\<rparr>;
       rows = sample_rows\<lparr>rw_routes := Some [sample_route\<lparr>hr_replicas := [''c2'', ''c3'']\<rparr>], rw_lbs := Some [(''wild'', cfg)]\<rparr>;
       rt = sample_route\<lparr>hr_replicas := [''c2'', ''c3'']\<rparr>; online = (\<lambda>c. True);
       g1 = new_ingress\<lparr>in_router := the (reload sample_env rows new_router)\<rparr>;
       g2 = g1\<lparr>in_lb := snd (record_check (\<lambda>a b. b) 7 ''wild'' ''c3'' False 0 ''down'' cfg (in_lb g1))\<rparr>;
       g3 = snd (start_request online online rt g2) in
   fst (start_request online online rt g2) = Some ''c1'' \<and> fst (start_request online online rt g3) = Some ''c2''
   \<and> count_list [''c1''] ''c2'' \<le> count_list [''c1''] ''c1''"
proof -
  define cfg where "cfg = \<lparr>lb_strategy = LBLeastConnections, lb_weights = [], lb_health_enabled = True, lb_health_path = [], lb_interval_sec = 10,
         lb_timeout_sec = 3, lb_unhealthy_threshold = 1, lb_healthy_threshold = 1\<rparr>"
  define rows where "rows = sample_rows\<lparr>rw_routes := Some [sample_route\<lparr>hr_replicas := [''c2'', ''c3'']\<rparr>], rw_lbs := Some [(''wild'', cfg)]\<rparr>"
  define rt where "rt = sample_route\<lparr>hr_replicas := [''c2'', ''c3'']\<rparr>"
  define online :: "string \<Rightarrow> bool" where "online = (\<lambda>c. True)"
  define g1 where "g1 = new_ingress\<lparr>in_router := the (reload sample_env rows new_router)\<rparr>"
  define g2 where "g2 = g1\<lparr>in_lb := snd (record_check (\<lambda>a b. b) 7 ''wild'' ''c3'' False 0 ''down'' cfg (in_lb g1))\<rparr>"
  define g3 where "g3 = snd (start_request online online rt g2)"
  note D = cfg_def rows_def rt_def online_def g1_def g2_def g3_def
  have "lb_reach (\<lambda>a b. b) (g1, [])"
    unfolding g1_def by (rule step [OF initial], rule reloaded [of sample_env rows])
      (simp add: reload_def rows_def new_ingress_def Let_def)
  then have r2: "lb_reach (\<lambda>a b. b) (g2, [])"
    unfolding g2_def by (rule step) (rule checked, rule surjective_pairing)
  have s2: "fst (start_request online online rt g2) = Some ''c1''" unfolding D by code_simp
  have r3: "lb_reach (\<lambda>a b. b) (g3, [''c1''])"
    unfolding g3_def by (rule step [OF r2], rule started [of online online rt]) (simp add: s2 prod_eq_iff)
  have s3: "fst (start_request online online rt g3) = Some ''c2''" unfolding D by code_simp
  have e: "lb_for (in_router g3) (hr_tunnel rt) = Some \<lparr>le_cfg = cfg, le_clients = [''c1'', ''c2'', ''c3''], le_proto = ''http''\<rparr>"
    unfolding D by code_simp
  have m: "may_serve online g3 rt ''c1''" unfolding D by code_simp
  have "start_request online online rt g3 = (Some ''c2'', snd (start_request online online rt g3))" by (simp add: s3 prod_eq_iff)
  from request_reaches_agent [OF r3 this] e m have "count_list [''c1''] ''c2'' \<le> count_list [''c1''] ''c1''"
    by (simp add: cfg_def)
  with s2 s3 show ?thesis unfolding Let_def D by blast
qed

end
