(* ===== verification/Bridges.thy ===== *)
theory Bridges
  imports Session_State
begin

text \<open>
  Upgraded WebSocket streams (\<open>server/tunnel/ws.go\<close>) and raw TCP/UDP streams
  (\<open>server/tunnel/rawstream.go\<close>) of a session. The two tables keep the same promise, stated as the
  locale \<open>stream_table\<close> and interpreted on both: the read loop never waits, and a bridge that could
  not take a message is closed, so an open bridge has lost nothing.
\<close>

definition wsFromLocalBuffer :: nat where "wsFromLocalBuffer = 1024"
definition rawFromLocalBuffer :: nat where "rawFromLocalBuffer = 2048"
definition ProtoUDP :: string where "ProtoUDP = ''udp''"

section \<open>WebSocket bridges\<close>

definition get_ws :: "u64 \<Rightarrow> session \<Rightarrow> ws_bridge option" where
  "get_ws rid s = map_of (s_ws s) rid"

definition put_ws :: "u64 \<Rightarrow> ws_bridge \<Rightarrow> session \<Rightarrow> session" where
  "put_ws rid b s = s\<lparr>s_ws := gm_put rid b (s_ws s)\<rparr>"

definition remove_ws :: "u64 \<Rightarrow> session \<Rightarrow> session" where
  "remove_ws rid s = s\<lparr>s_ws := gm_del rid (s_ws s)\<rparr>"

definition new_ws_bridge :: ws_bridge where
  "new_ws_bridge = \<lparr>wb_accept = make_chan 1, wb_local = make_chan wsFromLocalBuffer, wb_closed = False\<rparr>"

definition open_ws :: "bool \<Rightarrow> string \<Rightarrow> string \<Rightarrow> string \<Rightarrow> headers \<Rightarrow> session \<Rightarrow> u64 option \<times> session" where
  "open_ws ok tunnel path query hs s =
     (case next_req_id s of (rid, s1) \<Rightarrow>
        (case s_send ok (OWSOpen rid tunnel path query hs) (put_ws rid new_ws_bridge s1) of
           (True, s2) \<Rightarrow> (Some rid, s2)
         | (False, s2) \<Rightarrow> (None, remove_ws rid s2)))"

definition send_ws_data :: "bool \<Rightarrow> u64 \<Rightarrow> bytes \<Rightarrow> session \<Rightarrow> bool \<times> session" where
  "send_ws_data ok rid data s =
     send_binary ok \<lparr>bf_type = FrameWSData, bf_req = rid, bf_seq = 0, bf_eof = False, bf_payload = data\<rparr> s"

text \<open>The goroutine of the stream keeps a pointer to its bridge; closing the channel before the
  removal is what it sees. \<open>ws_shut\<close> is the bridge at that point.\<close>

definition ws_shut :: "ws_bridge \<Rightarrow> ws_bridge" where
  "ws_shut b = b\<lparr>wb_closed := True\<rparr>"

definition route_ws_close :: "u64 \<Rightarrow> session \<Rightarrow> ws_bridge option \<times> session" where
  "route_ws_close rid s = (map_option ws_shut (get_ws rid s), remove_ws rid s)"

definition close_ws :: "bool \<Rightarrow> u64 \<Rightarrow> string \<Rightarrow> session \<Rightarrow> ws_bridge option \<times> session" where
  "close_ws ok rid reason s = route_ws_close rid (snd (s_send ok (OWSClose rid reason) s))"

definition route_ws_accept :: "ws_accept \<Rightarrow> session \<Rightarrow> session" where
  "route_ws_accept acc s =
     (case get_ws (wa_req acc) s of
        None \<Rightarrow> s
      | Some b \<Rightarrow> put_ws (wa_req acc) (b\<lparr>wb_accept := offer_or_drop acc (wb_accept b)\<rparr>) s)"

text \<open>The three-way \<open>select\<close>: with room and a closed bridge both cases are ready, and \<open>pick\<close> chooses.\<close>

definition route_ws_data :: "bool \<Rightarrow> u64 \<Rightarrow> bytes \<Rightarrow> session \<Rightarrow> session" where
  "route_ws_data pick rid p s =
     (case get_ws rid s of
        None \<Rightarrow> s
      | Some b \<Rightarrow>
          if \<not> chan_full (wb_local b) \<and> \<not> (wb_closed b \<and> pick)
            then put_ws rid (b\<lparr>wb_local := chan_push p (wb_local b)\<rparr>) s
          else if wb_closed b then s
          else put_ws rid (ws_shut b) s)"

definition close_all_ws :: "session \<Rightarrow> (u64, ws_bridge) gomap \<times> session" where
  "close_all_ws s = (map (\<lambda>(k, b). (k, ws_shut b)) (s_ws s), s\<lparr>s_ws := []\<rparr>)"

section \<open>Raw stream bridges\<close>

definition get_raw :: "u64 \<Rightarrow> session \<Rightarrow> raw_bridge option" where
  "get_raw rid s = map_of (s_raw s) rid"

definition put_raw :: "u64 \<Rightarrow> raw_bridge \<Rightarrow> session \<Rightarrow> session" where
  "put_raw rid b s = s\<lparr>s_raw := gm_put rid b (s_raw s)\<rparr>"

definition remove_raw :: "u64 \<Rightarrow> session \<Rightarrow> session" where
  "remove_raw rid s = s\<lparr>s_raw := gm_del rid (s_raw s)\<rparr>"

definition new_raw_bridge :: "string \<Rightarrow> string \<Rightarrow> raw_bridge" where
  "new_raw_bridge tunnel proto =
     \<lparr>rb_tunnel = tunnel, rb_proto = proto, rb_accept = make_chan 1,
      rb_local = make_chan rawFromLocalBuffer, rb_closed = False\<rparr>"

definition open_stream_to :: "bool \<Rightarrow> string \<Rightarrow> string \<Rightarrow> string \<Rightarrow> string \<Rightarrow> session \<Rightarrow> u64 option \<times> session" where
  "open_stream_to ok tunnel proto remote dest s =
     (case next_req_id s of (rid, s1) \<Rightarrow>
        (case s_send ok (OStreamOpen rid tunnel proto remote dest) (put_raw rid (new_raw_bridge tunnel proto) s1) of
           (True, s2) \<Rightarrow> (Some rid, s2)
         | (False, s2) \<Rightarrow> (None, remove_raw rid s2)))"

definition open_stream :: "bool \<Rightarrow> string \<Rightarrow> string \<Rightarrow> string \<Rightarrow> session \<Rightarrow> u64 option \<times> session" where
  "open_stream ok tunnel proto remote s = open_stream_to ok tunnel proto remote [] s"

definition send_stream_data :: "bool \<Rightarrow> u64 \<Rightarrow> string \<Rightarrow> bytes \<Rightarrow> session \<Rightarrow> bool \<times> session" where
  "send_stream_data ok rid proto data s =
     send_binary ok \<lparr>bf_type = (if proto = ProtoUDP then FrameDatagram else FrameStreamData),
       bf_req = rid, bf_seq = 0, bf_eof = False, bf_payload = data\<rparr> s"

definition raw_shut :: "raw_bridge \<Rightarrow> raw_bridge" where
  "raw_shut b = b\<lparr>rb_closed := True\<rparr>"

definition route_stream_close :: "u64 \<Rightarrow> session \<Rightarrow> raw_bridge option \<times> session" where
  "route_stream_close rid s = (map_option raw_shut (get_raw rid s), remove_raw rid s)"

definition close_stream :: "bool \<Rightarrow> u64 \<Rightarrow> string \<Rightarrow> session \<Rightarrow> raw_bridge option \<times> session" where
  "close_stream ok rid reason s = route_stream_close rid (snd (s_send ok (OStreamClose rid reason) s))"

definition route_stream_ack :: "stream_ack \<Rightarrow> session \<Rightarrow> session" where
  "route_stream_ack ack s =
     (case get_raw (sa_req ack) s of
        None \<Rightarrow> s
      | Some b \<Rightarrow> put_raw (sa_req ack) (b\<lparr>rb_accept := offer_or_drop ack (rb_accept b)\<rparr>) s)"

definition route_stream_data :: "bool \<Rightarrow> u64 \<Rightarrow> bytes \<Rightarrow> session \<Rightarrow> session" where
  "route_stream_data pick rid p s =
     (case get_raw rid s of
        None \<Rightarrow> s
      | Some b \<Rightarrow>
          if \<not> chan_full (rb_local b) \<and> \<not> (rb_closed b \<and> pick)
            then put_raw rid (b\<lparr>rb_local := chan_push p (rb_local b)\<rparr>) s
          else if rb_closed b then s
          else
            let s' = (if rb_proto b = ProtoUDP then hand_over (ToDropped (rb_tunnel b) 1) s else s) in
            put_raw rid (raw_shut b) s')"

definition close_all_raw :: "session \<Rightarrow> (u64, raw_bridge) gomap \<times> session" where
  "close_all_raw s = (map (\<lambda>(k, b). (k, raw_shut b)) (s_raw s), s\<lparr>s_raw := []\<rparr>)"

section \<open>The contract of a table of streams\<close>

locale stream_table =
  fixes queue :: "'s \<Rightarrow> u64 \<Rightarrow> bytes list option"
    and shut :: "'s \<Rightarrow> u64 \<Rightarrow> bool"
    and limit :: nat
    and wf :: "'s \<Rightarrow> bool"
    and route :: "bool \<Rightarrow> u64 \<Rightarrow> bytes \<Rightarrow> 's \<Rightarrow> 's"
    and drop_one :: "u64 \<Rightarrow> 's \<Rightarrow> 's"
  assumes route_wf: "wf s \<Longrightarrow> wf (route pick rid p s)"
    and drop_wf: "wf s \<Longrightarrow> wf (drop_one rid s)"
    and route_other: "k \<noteq> rid \<Longrightarrow> queue (route pick rid p s) k = queue s k \<and> shut (route pick rid p s) k = shut s k"
    and route_absent: "queue s rid = None \<Longrightarrow> queue (route pick rid p s) rid = None"
    and route_room: "wf s \<Longrightarrow> queue s rid = Some q \<Longrightarrow> \<not> shut s rid \<Longrightarrow> length q < limit \<Longrightarrow>
          queue (route pick rid p s) rid = Some (q @ [p]) \<and> \<not> shut (route pick rid p s) rid"
    and route_full: "wf s \<Longrightarrow> queue s rid = Some q \<Longrightarrow> \<not> shut s rid \<Longrightarrow> limit \<le> length q \<Longrightarrow>
          queue (route pick rid p s) rid = Some q \<and> shut (route pick rid p s) rid"
    and route_shut: "queue s rid \<noteq> None \<Longrightarrow> shut s rid \<Longrightarrow>
          queue (route pick rid p s) rid \<noteq> None \<and> shut (route pick rid p s) rid"
    and drop_gone: "queue (drop_one rid s) rid = None"
    and drop_other: "k \<noteq> rid \<Longrightarrow> queue (drop_one rid s) k = queue s k \<and> shut (drop_one rid s) k = shut s k"
begin

definition route_all :: "(bool \<times> u64 \<times> bytes) list \<Rightarrow> 's \<Rightarrow> 's" where
  "route_all ms s = fold (\<lambda>(pick, rid, p). route pick rid p) ms s"

definition sent_to :: "u64 \<Rightarrow> (bool \<times> u64 \<times> bytes) list \<Rightarrow> bytes list" where
  "sent_to rid ms = map (snd \<circ> snd) (filter (\<lambda>m. fst (snd m) = rid) ms)"

lemma route_all_simps [simp]:
  "route_all [] s = s" "route_all ((pick, rid, p) # ms) s = route_all ms (route pick rid p s)"
  by (simp_all add: route_all_def)

lemma sent_to_simps [simp]:
  "sent_to rid [] = []" "sent_to rid ((pick, k, p) # ms) = (if k = rid then p # sent_to rid ms else sent_to rid ms)"
  by (simp_all add: sent_to_def)

lemma shut_stays: "queue s rid \<noteq> None \<Longrightarrow> shut s rid \<Longrightarrow> shut (route_all ms s) rid"
proof (induction ms arbitrary: s)
  case (Cons m ms)
  obtain pick k p where m: "m = (pick, k, p)" by (cases m)
  have "queue (route pick k p s) rid \<noteq> None \<and> shut (route pick k p s) rid"
    using Cons.prems route_shut [of s rid pick p] route_other [of rid k pick p s] by (cases "k = rid") auto
  with Cons.IH m show ?case by simp
qed simp

text \<open>An open stream has taken every message, in order.\<close>

lemma open_means_complete:
  "wf s \<Longrightarrow> queue s rid = Some q \<Longrightarrow> \<not> shut s rid \<Longrightarrow> \<not> shut (route_all ms s) rid \<Longrightarrow>
   queue (route_all ms s) rid = Some (q @ sent_to rid ms)"
proof (induction ms arbitrary: s q)
  case Nil
  then show ?case by simp
next
  case (Cons m ms)
  obtain pick k p where m: "m = (pick, k, p)" by (cases m)
  let ?s = "route pick k p s"
  have wf: "wf ?s" using Cons.prems(1) by (rule route_wf)
  have last: "\<not> shut (route_all ms ?s) rid" using Cons.prems(4) m by simp
  show ?case
  proof (cases "k = rid")
    case True
    have "length q < limit"
    proof (rule ccontr)
      assume "\<not> length q < limit"
      with route_full [OF Cons.prems(1-3), of pick p] True have "queue ?s rid \<noteq> None" "shut ?s rid" by auto
      with shut_stays [of ?s rid ms] last show False by simp
    qed
    from route_room [OF Cons.prems(1-3) this, of pick p] True
    have "queue ?s rid = Some (q @ [p])" "\<not> shut ?s rid" by simp_all
    from Cons.IH [OF wf this last] m True show ?thesis by simp
  next
    case False
    with Cons.prems route_other [of rid k pick p s] have "queue ?s rid = Some q" "\<not> shut ?s rid" by simp_all
    from Cons.IH [OF wf this last] m False show ?thesis by simp
  qed
qed

text \<open>It is still open as long as what it was sent fits.\<close>

lemma open_while_room:
  "wf s \<Longrightarrow> queue s rid = Some q \<Longrightarrow> \<not> shut s rid \<Longrightarrow> length q + length (sent_to rid ms) \<le> limit \<Longrightarrow>
   \<not> shut (route_all ms s) rid"
proof (induction ms arbitrary: s q)
  case (Cons m ms)
  obtain pick k p where m: "m = (pick, k, p)" by (cases m)
  let ?s = "route pick k p s"
  have wf: "wf ?s" using Cons.prems(1) by (rule route_wf)
  show ?case
  proof (cases "k = rid")
    case True
    with Cons.prems m route_room [OF Cons.prems(1-3), of pick p] have
      "queue ?s rid = Some (q @ [p])" "\<not> shut ?s rid" by simp_all
    from Cons.IH [OF wf this] Cons.prems(4) m True show ?thesis by simp
  next
    case False
    with Cons.prems route_other [of rid k pick p s] have "queue ?s rid = Some q" "\<not> shut ?s rid" by simp_all
    from Cons.IH [OF wf this] Cons.prems(4) m False show ?thesis by simp
  qed
qed simp

end

section \<open>Both tables keep the contract\<close>

definition ws_ok :: "session \<Rightarrow> bool" where
  "ws_ok s \<longleftrightarrow> (\<forall>(k, b)\<in>set (s_ws s). ch_cap (wb_local b) = wsFromLocalBuffer)"

definition raw_ok :: "session \<Rightarrow> bool" where
  "raw_ok s \<longleftrightarrow> (\<forall>(k, b)\<in>set (s_raw s). ch_cap (rb_local b) = rawFromLocalBuffer)"

lemma set_gm_put_subset: "set (gm_put k v m) \<subseteq> insert (k, v) (set m)"
  by (induction m) (auto split: if_splits)

lemma set_gm_del_subset: "set (gm_del k m) \<subseteq> set m"
  by (auto simp: AList.delete_eq)

lemma ws_cap: "ws_ok s \<Longrightarrow> map_of (s_ws s) rid = Some b \<Longrightarrow> ch_cap (wb_local b) = wsFromLocalBuffer"
  unfolding ws_ok_def by (auto dest!: map_of_SomeD)

lemma raw_cap: "raw_ok s \<Longrightarrow> map_of (s_raw s) rid = Some b \<Longrightarrow> ch_cap (rb_local b) = rawFromLocalBuffer"
  unfolding raw_ok_def by (auto dest!: map_of_SomeD)

lemma ws_ok_put: "ws_ok s \<Longrightarrow> ch_cap (wb_local b) = wsFromLocalBuffer \<Longrightarrow> ws_ok (put_ws rid b s)"
  using set_gm_put_subset [of rid b "s_ws s"] by (auto simp: ws_ok_def put_ws_def)

lemma raw_ok_put: "raw_ok s \<Longrightarrow> ch_cap (rb_local b) = rawFromLocalBuffer \<Longrightarrow> raw_ok (put_raw rid b s)"
  using set_gm_put_subset [of rid b "s_raw s"] by (auto simp: raw_ok_def put_raw_def)

lemma ws_ok_remove: "ws_ok s \<Longrightarrow> ws_ok (remove_ws rid s)"
  using set_gm_del_subset [of rid "s_ws s"] by (auto simp: ws_ok_def remove_ws_def)

lemma raw_ok_remove: "raw_ok s \<Longrightarrow> raw_ok (remove_raw rid s)"
  using set_gm_del_subset [of rid "s_raw s"] by (auto simp: raw_ok_def remove_raw_def)

lemma raw_ok_handed [simp]: "raw_ok (hand_over h s) = raw_ok s" "s_raw (hand_over h s) = s_raw s"
  by (simp_all add: raw_ok_def hand_over_def)

definition ws_queue :: "session \<Rightarrow> u64 \<Rightarrow> bytes list option" where
  "ws_queue s rid = map_option (\<lambda>b. ch_buf (wb_local b)) (get_ws rid s)"

definition ws_is_shut :: "session \<Rightarrow> u64 \<Rightarrow> bool" where
  "ws_is_shut s rid = (case get_ws rid s of None \<Rightarrow> False | Some b \<Rightarrow> wb_closed b)"

definition raw_queue :: "session \<Rightarrow> u64 \<Rightarrow> bytes list option" where
  "raw_queue s rid = map_option (\<lambda>b. ch_buf (rb_local b)) (get_raw rid s)"

definition raw_is_shut :: "session \<Rightarrow> u64 \<Rightarrow> bool" where
  "raw_is_shut s rid = (case get_raw rid s of None \<Rightarrow> False | Some b \<Rightarrow> rb_closed b)"

lemmas ws_defs = ws_queue_def ws_is_shut_def get_ws_def put_ws_def remove_ws_def ws_shut_def
lemmas raw_defs = raw_queue_def raw_is_shut_def get_raw_def put_raw_def remove_raw_def raw_shut_def

lemma route_ws_data_ok: "ws_ok s \<Longrightarrow> ws_ok (route_ws_data pick rid p s)"
  by (auto simp: route_ws_data_def get_ws_def chan_push_def ws_shut_def intro!: ws_ok_put dest: ws_cap split: option.split)

lemma route_stream_data_ok: "raw_ok s \<Longrightarrow> raw_ok (route_stream_data pick rid p s)"
  by (auto simp: route_stream_data_def get_raw_def chan_push_def raw_shut_def Let_def intro!: raw_ok_put dest: raw_cap split: option.split)

interpretation ws: stream_table ws_queue ws_is_shut wsFromLocalBuffer ws_ok route_ws_data remove_ws
proof
  fix s :: session and pick rid p q
  assume "ws_ok s" "ws_queue s rid = Some q" "\<not> ws_is_shut s rid"
  then obtain b where b: "map_of (s_ws s) rid = Some b" "ch_buf (wb_local b) = q" "\<not> wb_closed b"
    "ch_cap (wb_local b) = wsFromLocalBuffer"
    by (auto simp: ws_defs dest: ws_cap split: option.splits)
  show "length q < wsFromLocalBuffer \<Longrightarrow> ws_queue (route_ws_data pick rid p s) rid = Some (q @ [p]) \<and>
      \<not> ws_is_shut (route_ws_data pick rid p s) rid"
    and "wsFromLocalBuffer \<le> length q \<Longrightarrow> ws_queue (route_ws_data pick rid p s) rid = Some q \<and>
      ws_is_shut (route_ws_data pick rid p s) rid"
    using b by (auto simp: ws_defs route_ws_data_def chan_full_def chan_push_def)
qed ((erule route_ws_data_ok ws_ok_remove
    | (auto simp: ws_defs route_ws_data_def split: option.splits if_splits)[1])+)

interpretation raw: stream_table raw_queue raw_is_shut rawFromLocalBuffer raw_ok route_stream_data remove_raw
proof
  fix s :: session and pick rid p q
  assume "raw_ok s" "raw_queue s rid = Some q" "\<not> raw_is_shut s rid"
  then obtain b where b: "map_of (s_raw s) rid = Some b" "ch_buf (rb_local b) = q" "\<not> rb_closed b"
    "ch_cap (rb_local b) = rawFromLocalBuffer"
    by (auto simp: raw_defs dest: raw_cap split: option.splits)
  show "length q < rawFromLocalBuffer \<Longrightarrow> raw_queue (route_stream_data pick rid p s) rid = Some (q @ [p]) \<and>
      \<not> raw_is_shut (route_stream_data pick rid p s) rid"
    and "rawFromLocalBuffer \<le> length q \<Longrightarrow> raw_queue (route_stream_data pick rid p s) rid = Some q \<and>
      raw_is_shut (route_stream_data pick rid p s) rid"
    using b by (auto simp: raw_defs route_stream_data_def chan_full_def chan_push_def Let_def)
qed ((erule route_stream_data_ok raw_ok_remove
    | (auto simp: raw_defs route_stream_data_def Let_def hand_over_def split: option.splits if_splits)[1])+)

text \<open>C34: the read loop routes any sequence of stream messages without waiting, and a raw or
  WebSocket bridge that is still open afterwards holds exactly the messages sent to it, in order: a
  bridge that had to skip one is closed. It stays open as long as its messages fit the buffer.\<close>

theorem streams_lose_nothing_silently:
  assumes "ws_ok s" "ws_queue s rid = Some q" "\<not> ws_is_shut s rid"
    and "raw_ok s" "raw_queue s k = Some r" "\<not> raw_is_shut s k"
  shows "(\<not> ws_is_shut (ws.route_all ms s) rid \<longrightarrow> ws_queue (ws.route_all ms s) rid = Some (q @ ws.sent_to rid ms)) \<and>
    (length q + length (ws.sent_to rid ms) \<le> wsFromLocalBuffer \<longrightarrow> \<not> ws_is_shut (ws.route_all ms s) rid) \<and>
    (\<not> raw_is_shut (raw.route_all ms s) k \<longrightarrow> raw_queue (raw.route_all ms s) k = Some (r @ raw.sent_to k ms)) \<and>
    (length r + length (raw.sent_to k ms) \<le> rawFromLocalBuffer \<longrightarrow> \<not> raw_is_shut (raw.route_all ms s) k)"
  using ws.open_means_complete [OF assms(1-3)] ws.open_while_room [OF assms(1-3)]
    raw.open_means_complete [OF assms(4-6)] raw.open_while_room [OF assms(4-6)] by blast

theorem streams_lose_nothing_silently_witness:
  "\<exists>s. ws_queue (ws.route_all [(False, 1, [65]), (True, 2, [66]), (False, 1, [67])] s) 1 = Some [[65], [67]]"
proof -
  let ?fts = "\<lparr>ft_flow = True, ft_input_status = True, ft_screen2 = True, ft_layers = True,
     ft_cursor = True, ft_clipboard = True, ft_stats = True, ft_feedback = True, ft_video = True\<rparr>"
  let ?s = "(new_session ''s1'' ''c1'' ?fts 0)\<lparr>s_ws := [(1, new_ws_bridge)], s_raw := [(2, new_raw_bridge ''t'' ''tcp'')]\<rparr>"
  let ?ms = "[(False, 1, [65]), (True, 2, [66]), (False, 1, [67])] :: (bool \<times> u64 \<times> bytes) list"
  have "ws_ok ?s" "ws_queue ?s 1 = Some []" "\<not> ws_is_shut ?s 1"
    "raw_ok ?s" "raw_queue ?s 2 = Some []" "\<not> raw_is_shut ?s 2"
    by (simp_all add: ws_ok_def raw_ok_def ws_defs raw_defs new_ws_bridge_def new_raw_bridge_def make_chan_def)
  from streams_lose_nothing_silently [OF this, of ?ms] show ?thesis
    by (intro exI [of _ ?s]) (simp add: wsFromLocalBuffer_def)
qed

section \<open>Opening and closing\<close>

lemma gm_del_put: "gm_del k (gm_put k v m) = gm_del k m"
  by (induction m) auto

lemma open_ws_failed_leaves_table:
  "map_of (s_ws s) (s_next s + 1) = None \<Longrightarrow> open_ws False tunnel path query hs s = (r, s') \<Longrightarrow>
   r = None \<and> s_ws s' = s_ws s"
  by (auto simp: open_ws_def next_req_id_def s_send_def put_ws_def remove_ws_def gm_del_absent
      gm_del_put)

lemma open_ws_ok: "ws_ok s \<Longrightarrow> ws_ok (snd (open_ws ok tunnel path query hs s))"
proof -
  assume "ws_ok s"
  then have "ws_ok (snd (next_req_id s))" by (simp add: next_req_id_def ws_ok_def)
  then have put: "ws_ok (put_ws (s_next s + 1) new_ws_bridge (snd (next_req_id s)))"
    by (rule ws_ok_put) (simp add: new_ws_bridge_def make_chan_def)
  have send: "ws_ok (snd (s_send ok m t)) = ws_ok t" for m t by (simp add: ws_ok_def)
  show ?thesis
    using put by (auto simp: open_ws_def next_req_id_def s_send_def intro: ws_ok_remove) (simp add: ws_ok_def)
qed

end
