(* ===== verification/Stun.thy ===== *)
theory Stun
  imports Net_Endpoints
begin

text \<open>
  The Binding request and response of STUN (\<open>shared/stun/stun.go\<close>), by which a node learns its public UDP
  address, and the responder of the server with its token buckets (\<open>server/netctl/stun.go\<close>).
\<close>

definition StunHeader :: nat where "StunHeader = 20"
definition Cookie :: u32 where "Cookie = 0x2112A442"
definition TypeBindingRequest :: u16 where "TypeBindingRequest = 0x0001"
definition TypeBindingResponse :: u16 where "TypeBindingResponse = 0x0101"
definition attrMappedAddress :: u16 where "attrMappedAddress = 0x0001"
definition attrXorMappedAddress :: u16 where "attrXorMappedAddress = 0x0020"
definition MaxRequestSize :: nat where "MaxRequestSize = 128"

lemmas stun_consts = StunHeader_def TypeBindingRequest_def TypeBindingResponse_def attrMappedAddress_def attrXorMappedAddress_def

text \<open>\<open>TxID\<close> is an array of 12 bytes.\<close>

type_synonym txid = bytes

definition u16_at :: "nat \<Rightarrow> bytes \<Rightarrow> u16" where
  "u16_at i b = be_get (slice i (i + 2) b)"

definition u32_at :: "nat \<Rightarrow> bytes \<Rightarrow> u32" where
  "u32_at i b = be_get (slice i (i + 4) b)"

definition new_binding_request :: "txid \<Rightarrow> bytes" where
  "new_binding_request tx = be_put 2 TypeBindingRequest @ be_put 2 (0 :: u16) @ be_put 4 Cookie @ tx"

definition is_stun :: "bytes \<Rightarrow> bool" where
  "is_stun b \<longleftrightarrow> length b \<ge> StunHeader \<and> b ! 0 AND 0xC0 = 0 \<and> u32_at 4 b = Cookie
     \<and> (let l = unat (u16_at 2 b) in l mod 4 = 0 \<and> length b = StunHeader + l)"

definition tx_of :: "bytes \<Rightarrow> txid" where
  "tx_of b = slice 8 20 b"

definition parse_binding_request :: "bytes \<Rightarrow> txid option" where
  "parse_binding_request b =
     (if length b > MaxRequestSize \<or> \<not> is_stun b \<or> u16_at 0 b \<noteq> TypeBindingRequest then None else Some (tx_of b))"

abbreviation xor_bytes :: "bytes \<Rightarrow> bytes \<Rightarrow> bytes" where
  "xor_bytes a m \<equiv> map2 (XOR) a m"

text \<open>\<open>As16\<close> of the zero address is the zero array.\<close>

fun as16 :: "addr \<Rightarrow> 128 word" where
  "as16 (IP6 w _) = w"
| "as16 (IP4 w) = 0xffff00000000 OR ucast w"
| "as16 NoAddr = 0"

definition xor_port :: "u16 \<Rightarrow> u16" where
  "xor_port p = p XOR ucast (drop_bit 16 Cookie)"

definition mapped_value :: "txid \<Rightarrow> addr_port \<Rightarrow> bytes" where
  "mapped_value tx src =
     (case src of (a, p) \<Rightarrow>
        let xport = be_put 2 (xor_port (of_nat p)) in
        if is4 a then [0, 0x01] @ xport @ xor_bytes (be_put 4 (as4 a)) (be_put 4 Cookie)
        else [0, 0x02] @ xport @ xor_bytes (be_put 16 (as16 a)) (be_put 4 Cookie @ tx))"

definition new_binding_response :: "txid \<Rightarrow> addr_port \<Rightarrow> bytes" where
  "new_binding_response tx src =
     (case src of (a, p) \<Rightarrow>
        let val = mapped_value tx (unmap a, p) in
        be_put 2 TypeBindingResponse @ be_put 2 (of_nat (4 + length val) :: u16) @ be_put 4 Cookie @ tx
        @ be_put 2 attrXorMappedAddress @ be_put 2 (of_nat (length val) :: u16) @ val)"

definition decode_addr :: "bytes \<Rightarrow> txid \<Rightarrow> bool \<Rightarrow> addr_port option" where
  "decode_addr v tx xored =
     (if length v < 4 then None
      else
        let port = (if xored then xor_port (u16_at 2 v) else u16_at 2 v) in
        if v ! 1 = 0x01 then
          (if length v \<noteq> 8 then None
           else Some (IP4 (be_get (if xored then xor_bytes (slice 4 8 v) (be_put 4 Cookie) else slice 4 8 v)), unat port))
        else if v ! 1 = 0x02 then
          (if length v \<noteq> 20 then None
           else Some (IP6 (be_get (if xored then xor_bytes (slice 4 20 v) (be_put 4 Cookie @ tx) else slice 4 20 v)) [], unat port))
        else None)"

text \<open>The loop over the attributes; the rest of the message gets at least four bytes shorter in every turn.\<close>

function stun_attrs :: "txid \<Rightarrow> addr_port option \<Rightarrow> bytes \<Rightarrow> addr_port option" where
  "stun_attrs tx mapped b =
     (if length b < 4 then mapped
      else
        let t = u16_at 0 b; l = unat (u16_at 2 b) in
        if 4 + l > length b then None
        else
          let v = slice 4 (4 + l) b in
          if t = attrXorMappedAddress \<and> decode_addr v tx True \<noteq> None then decode_addr v tx True
          else
            let mapped' = (if t = attrMappedAddress \<and> decode_addr v tx False \<noteq> None then decode_addr v tx False else mapped);
                adv = 4 + (l + 3) div 4 * 4 in
            if adv > length b then mapped' else stun_attrs tx mapped' (drop adv b))"
  by pat_completeness auto
termination by (relation "measure (\<lambda>(_, _, b). length b)") auto

declare stun_attrs.simps [simp del]

definition parse_binding_response :: "bytes \<Rightarrow> txid \<Rightarrow> addr_port option" where
  "parse_binding_response b want =
     (if \<not> is_stun b \<or> u16_at 0 b \<noteq> TypeBindingResponse \<or> tx_of b \<noteq> want then None
      else stun_attrs (tx_of b) None (drop StunHeader b))"

section \<open>Round trips\<close>

lemma xor_bytes_twice: "length a = length m \<Longrightarrow> xor_bytes (xor_bytes a m) m = a"
  by (induction a m rule: list_induct2) (simp_all add: xor.assoc)

lemma xor_port_twice [simp]: "xor_port (xor_port p) = p"
  by (simp add: xor_port_def xor.assoc)

lemma length_xor_bytes [simp]: "length (xor_bytes a m) = min (length a) (length m)"
  by simp

lemma u16_at_put: "u16_at 0 (be_put 2 x @ r) = x"
  by (simp add: u16_at_def slice_prefix)

lemma type_bytes: "be_put 2 TypeBindingResponse = [0x01, 0x01]" "be_put 2 TypeBindingRequest = [0x00, 0x01]"
proof -
  have two: "be_put (Suc (Suc 0)) x = [ucast (drop_bit 8 x), ucast x]" for x :: u16 by simp
  show "be_put 2 TypeBindingResponse = [0x01, 0x01]" "be_put 2 TypeBindingRequest = [0x00, 0x01]"
    unfolding numeral_2_eq_2 two TypeBindingResponse_def TypeBindingRequest_def by simp_all
qed

lemma unat_port: "p \<le> 65535 \<Longrightarrow> unat (of_nat p :: u16) = p"
  by (simp add: unat_of_nat)

lemma slice_app: "length xs = i \<Longrightarrow> j = i + n \<Longrightarrow> slice i j (xs @ ys) = take n ys"
  by (simp add: slice_def)

lemma mapped_value_length: "length tx = 12 \<Longrightarrow> length (mapped_value tx (a, p)) = (if is4 a then 8 else 20)"
  by (simp add: mapped_value_def Let_def)

lemma decode_mapped:
  assumes "length tx = 12" and "p \<le> 65535" and "a = IP4 w \<or> a = IP6 w' []"
  shows "decode_addr (mapped_value tx (a, p)) tx True = Some (a, p)"
proof -
  have "slice 2 4 ([0, k :: byte] @ be_put 2 (x :: u16) @ r) = be_put 2 x" for k x r
    using slice_app [of "[0, k]" 2 4 2 "be_put 2 x @ r"] by simp
  moreover have "slice 4 (4 + length r) ([0, k :: byte] @ be_put 2 (x :: u16) @ r) = r" for k x r
    using slice_app [of "[0, k] @ be_put 2 x" 4 "4 + length r" "length r" r] by simp
  note this [of "xor_bytes (be_put 4 w) (be_put 4 Cookie)"] this [of "xor_bytes (be_put 16 w') (be_put 4 Cookie @ tx)"]
  ultimately show ?thesis
    using assms by (auto simp: decode_addr_def mapped_value_def u16_at_def Let_def unat_port xor_bytes_twice)
qed

lemma response_shape:
  assumes "length tx = 12" and "val = mapped_value tx (unmap a, p)"
  shows "length (new_binding_response tx (a, p)) = 24 + length val"
    and "drop StunHeader (new_binding_response tx (a, p)) = be_put 2 attrXorMappedAddress @ be_put 2 (of_nat (length val) :: u16) @ val"
    and "tx_of (new_binding_response tx (a, p)) = tx" and "u16_at 0 (new_binding_response tx (a, p)) = TypeBindingResponse"
    and "is_stun (new_binding_response tx (a, p))"
proof -
  let ?h = "be_put 2 TypeBindingResponse @ be_put 2 (of_nat (4 + length val) :: u16) @ be_put 4 Cookie"
    and ?r = "be_put 2 attrXorMappedAddress @ be_put 2 (of_nat (length val) :: u16) @ val"
  have e: "new_binding_response tx (a, p) = ?h @ tx @ ?r"
    by (simp add: new_binding_response_def Let_def assms(2))
  show l: "length (new_binding_response tx (a, p)) = 24 + length val" using assms(1) by (simp add: e)
  show "drop StunHeader (new_binding_response tx (a, p)) = ?r" using assms(1) by (simp add: e StunHeader_def)
  show "tx_of (new_binding_response tx (a, p)) = tx" using assms(1) by (simp add: e tx_of_def slice_def)
  show "u16_at 0 (new_binding_response tx (a, p)) = TypeBindingResponse" by (simp add: e u16_at_put)
  have n: "length val = 8 \<or> length val = 20" using mapped_value_length [OF assms(1)] assms(2) by simp
  have "slice 2 4 (?h @ tx @ ?r) = be_put 2 (of_nat (4 + length val) :: u16)" "slice 4 8 (?h @ tx @ ?r) = be_put 4 Cookie"
    by (simp_all add: slice_def)
  then have "u16_at 2 (new_binding_response tx (a, p)) = of_nat (4 + length val)" "u32_at 4 (new_binding_response tx (a, p)) = Cookie"
    by (simp_all add: e u16_at_def u32_at_def)
  moreover have "new_binding_response tx (a, p) ! 0 = 0x01" by (simp add: e type_bytes)
  ultimately show "is_stun (new_binding_response tx (a, p))"
    using l n by (auto simp: is_stun_def StunHeader_def Let_def)
qed
text \<open>The address the server reflects is the address the node reads.\<close>

lemma stun_response_roundtrip:
  assumes "length tx = 12" and "p \<le> 65535" and "unmap a = IP4 w \<or> unmap a = IP6 w' []"
  shows "parse_binding_response (new_binding_response tx (a, p)) tx = Some (unmap a, p)"
proof -
  let ?v = "mapped_value tx (unmap a, p)"
  let ?b = "be_put 2 attrXorMappedAddress @ be_put 2 (of_nat (length ?v) :: u16) @ ?v"
  note sh = response_shape [OF assms(1) refl, of a p]
  have n: "length ?v = 8 \<or> length ?v = 20" using mapped_value_length [OF assms(1)] by simp
  have "slice 2 4 ?b = be_put 2 (of_nat (length ?v) :: u16)" by (simp add: slice_def)
  then have l: "unat (u16_at 2 ?b) = length ?v" using n by (auto simp: u16_at_def)
  have v: "slice 4 (4 + length ?v) ?b = ?v" by (simp add: slice_def)
  have "stun_attrs tx None ?b = decode_addr ?v tx True"
    using decode_mapped [OF assms(1,2), of "unmap a" w w'] assms(3)
    by (subst stun_attrs.simps) (simp add: Let_def l v u16_at_put)
  then show ?thesis
    using sh assms by (simp add: parse_binding_response_def decode_mapped)
qed

lemma stun_request_roundtrip:
  assumes "length tx = 12"
  shows "parse_binding_request (new_binding_request tx) = Some tx"
proof -
  let ?h = "be_put 2 TypeBindingRequest @ be_put 2 (0 :: u16) @ be_put 4 Cookie"
  have e: "new_binding_request tx = ?h @ tx" by (simp add: new_binding_request_def)
  have "slice 2 4 (?h @ tx) = be_put 2 (0 :: u16)" "slice 4 8 (?h @ tx) = be_put 4 Cookie" "slice 8 20 (?h @ tx) = tx"
    using assms by (simp_all add: slice_def)
  moreover have "u16_at 0 (?h @ tx) = TypeBindingRequest" by (simp only: append_assoc u16_at_put)
  ultimately show ?thesis
    using assms by (simp add: parse_binding_request_def e is_stun_def u16_at_put u32_at_def u16_at_def [of 2] tx_of_def type_bytes
        StunHeader_def MaxRequestSize_def Let_def)
qed

section \<open>The responder\<close>

text \<open>
  Token buckets. The code counts tokens in floating point; here a token is \<open>Second\<close> units, so that a refill of
  \<open>rate\<close> tokens per second over a duration in nanoseconds is an integer and exact.
\<close>

record bucket =
  bk_tokens :: int
  bk_at :: "time option"

definition empty_bucket :: bucket where "empty_bucket = \<lparr>bk_tokens = 0, bk_at = None\<rparr>"

definition take_token :: "time \<Rightarrow> int \<Rightarrow> int \<Rightarrow> bucket \<Rightarrow> bool \<times> bucket" where
  "take_token now rate burst b =
     (let full = burst * Second;
          tokens = (case bk_at b of None \<Rightarrow> full | Some a \<Rightarrow> bk_tokens b + (now - a) * rate);
          tokens' = (if tokens > full then full else tokens) in
      if tokens' < Second then (False, \<lparr>bk_tokens = tokens', bk_at = Some now\<rparr>)
      else (True, \<lparr>bk_tokens = tokens' - Second, bk_at = Some now\<rparr>))"

record stun_server =
  st_rate :: int
  st_burst :: int
  st_global_rate :: int
  st_buckets :: "(addr, bucket) gomap"
  st_global :: bucket
  st_last_gc :: "time option"
  st_served :: int
  st_limited :: int
  st_dropped :: int

definition new_stun_server :: stun_server where
  "new_stun_server =
     \<lparr>st_rate = 5, st_burst = 10, st_global_rate = 5000, st_buckets = [], st_global = empty_bucket, st_last_gc = None,
      st_served = 0, st_limited = 0, st_dropped = 0\<rparr>"

definition bucket_idle :: "time \<Rightarrow> bucket \<Rightarrow> bool" where
  "bucket_idle now b \<longleftrightarrow> (case bk_at b of None \<Rightarrow> True | Some a \<Rightarrow> now - a > 120 * Second)"

definition stun_gc :: "time \<Rightarrow> stun_server \<Rightarrow> stun_server" where
  "stun_gc now s =
     (if (case st_last_gc s of None \<Rightarrow> True | Some l \<Rightarrow> now - l > 60 * Second)
      then s\<lparr>st_buckets := filter (\<lambda>(k, b). \<not> bucket_idle now b) (st_buckets s), st_last_gc := Some now\<rparr>
      else s)"

definition limited :: "stun_server \<Rightarrow> bytes option \<times> stun_server" where
  "limited s = (None, s\<lparr>st_limited := st_limited s + 1\<rparr>)"

definition stun_handle :: "time \<Rightarrow> bytes \<Rightarrow> addr_port \<Rightarrow> stun_server \<Rightarrow> bytes option \<times> stun_server" where
  "stun_handle now pkt src s0 =
     (case parse_binding_request pkt of
        None \<Rightarrow> (None, s0\<lparr>st_dropped := st_dropped s0 + 1\<rparr>)
      | Some tx \<Rightarrow>
          let ip = unmap (fst src); s = stun_gc now s0 in
          if map_of (st_buckets s) ip = None \<and> int (length (st_buckets s)) > 100000 then limited s
          else
            (case take_token now (st_rate s) (st_burst s) (case map_of (st_buckets s) ip of None \<Rightarrow> empty_bucket | Some b \<Rightarrow> b) of
               (ok, b) \<Rightarrow>
                 let s1 = s\<lparr>st_buckets := gm_put ip b (st_buckets s)\<rparr> in
                 if \<not> ok then limited s1
                 else if st_global_rate s1 > 0 then
                   (case take_token now (st_global_rate s1) (st_global_rate s1) (st_global s1) of
                      (gok, g) \<Rightarrow>
                        let s2 = s1\<lparr>st_global := g\<rparr> in
                        if \<not> gok then limited s2
                        else (Some (new_binding_response tx src), s2\<lparr>st_served := st_served s2 + 1\<rparr>))
                 else (Some (new_binding_response tx src), s1\<lparr>st_served := st_served s1 + 1\<rparr>)))"

section \<open>The rate of the responder\<close>

text \<open>What a bucket can give at a time.\<close>

definition avail :: "int \<Rightarrow> int \<Rightarrow> bucket \<Rightarrow> time \<Rightarrow> int" where
  "avail rate burst b now =
     (case bk_at b of None \<Rightarrow> burst * Second | Some a \<Rightarrow> min (burst * Second) (bk_tokens b + (now - a) * rate))"

definition bucket_ok :: "int \<Rightarrow> int \<Rightarrow> time \<Rightarrow> bucket \<Rightarrow> bool" where
  "bucket_ok rate burst now b \<longleftrightarrow> (case bk_at b of None \<Rightarrow> True
     | Some a \<Rightarrow> a \<le> now \<and> 0 \<le> bk_tokens b \<and> bk_tokens b \<le> burst * Second)"

lemma take_token_avail:
  assumes "take_token now rate burst b = (ok, b')" and "bucket_ok rate burst now b" and "0 \<le> rate" and "0 \<le> burst"
  shows "bucket_ok rate burst now b' \<and> avail rate burst b' now = avail rate burst b now - (if ok then Second else 0)
    \<and> 0 \<le> avail rate burst b now"
proof -
  have "0 \<le> (now - a) * rate" if "a \<le> now" for a using that assms(3) by simp
  with assms show ?thesis
    by (auto simp: take_token_def avail_def bucket_ok_def Let_def min_def split: option.splits if_splits)
qed

lemma avail_later:
  "t \<le> t' \<Longrightarrow> 0 \<le> rate \<Longrightarrow> avail rate burst b t' \<le> avail rate burst b t + (t' - t) * rate"
proof -
  assume a: "t \<le> t'" "0 \<le> rate"
  have e: "(t' - x) * rate = (t - x) * rate + (t' - t) * rate" for x by (simp add: algebra_simps)
  have "0 \<le> (t' - t) * rate" using a by simp
  then have "min f (x + (t' - s) * rate) \<le> min f (x + (t - s) * rate) + (t' - t) * rate" for f x s
    unfolding e [of s] by (simp add: min_def)
  then show ?thesis using \<open>0 \<le> (t' - t) * rate\<close> by (simp add: avail_def split: option.split)
qed

lemma empty_bucket_ok: "bucket_ok rate burst now empty_bucket"
  by (simp add: bucket_ok_def empty_bucket_def)

lemma bucket_ok_later: "bucket_ok rate burst t b \<Longrightarrow> t \<le> t' \<Longrightarrow> bucket_ok rate burst t' b"
  by (auto simp: bucket_ok_def split: option.splits)

lemma idle_is_full:
  assumes "bucket_idle now b" and "bucket_ok rate burst now b" and "0 \<le> rate" and "burst \<le> 120 * rate"
  shows "avail rate burst b now = burst * Second"
proof (cases "bk_at b")
  case (Some a)
  with assms have "120 * Second * rate \<le> (now - a) * rate" "0 \<le> bk_tokens b"
    by (auto simp: bucket_idle_def bucket_ok_def intro: mult_right_mono)
  moreover have "burst * Second \<le> 120 * Second * rate" using assms(4) by simp
  ultimately show ?thesis using Some by (simp add: avail_def)
qed (simp add: avail_def)
text \<open>A bucket table and the bucket of all replies, over a history of datagrams.\<close>

type_synonym datagram = "time \<times> bytes \<times> addr_port"

fun stun_run :: "stun_server \<Rightarrow> datagram list \<Rightarrow> (addr_port \<times> bytes option) list \<times> stun_server" where
  "stun_run s [] = ([], s)"
| "stun_run s ((now, pkt, src) # es) =
     (case stun_handle now pkt src s of (r, s1) \<Rightarrow> (case stun_run s1 es of (rs, s2) \<Rightarrow> ((src, r) # rs, s2)))"

definition replies_to :: "addr \<Rightarrow> (addr_port \<times> bytes option) list \<Rightarrow> int" where
  "replies_to ip rs = int (length (filter (\<lambda>(src, r). unmap (fst src) = ip \<and> r \<noteq> None) rs))"

definition source_left :: "addr \<Rightarrow> time \<Rightarrow> stun_server \<Rightarrow> int" where
  "source_left ip now s =
     (case map_of (st_buckets s) ip of None \<Rightarrow> st_burst s * Second | Some b \<Rightarrow> avail (st_rate s) (st_burst s) b now)"

definition stun_ok :: "time \<Rightarrow> stun_server \<Rightarrow> bool" where
  "stun_ok now s \<longleftrightarrow> 0 \<le> st_rate s \<and> 0 \<le> st_burst s \<and> st_burst s \<le> 120 * st_rate s
     \<and> (\<forall>ip b. map_of (st_buckets s) ip = Some b \<longrightarrow> bucket_ok (st_rate s) (st_burst s) now b) \<and> gm_ok (st_buckets s)"

lemma stun_ok_later: "stun_ok t s \<Longrightarrow> t \<le> t' \<Longrightarrow> stun_ok t' s"
  unfolding stun_ok_def using bucket_ok_later by blast

lemma source_left_bounds:
  assumes "stun_ok now s"
  shows "source_left ip now s \<le> st_burst s * Second" "0 \<le> source_left ip now s"
proof -
  have p: "0 \<le> st_burst s * Second" using assms by (simp add: stun_ok_def)
  show "source_left ip now s \<le> st_burst s * Second"
    by (simp add: source_left_def avail_def split: option.split)
  have "0 \<le> avail (st_rate s) (st_burst s) b now" if "map_of (st_buckets s) ip = Some b" for b
  proof (cases "bk_at b")
    case (Some a)
    have "bucket_ok (st_rate s) (st_burst s) now b" and r: "0 \<le> st_rate s" using assms that by (simp_all add: stun_ok_def)
    with Some have "0 \<le> bk_tokens b" "0 \<le> (now - a) * st_rate s" by (simp_all add: bucket_ok_def)
    with Some p show ?thesis by (simp add: avail_def)
  qed (simp add: avail_def p)
  with p show "0 \<le> source_left ip now s" by (simp add: source_left_def split: option.split)
qed

lemma source_left_later:
  assumes "t \<le> t'" and "stun_ok t s"
  shows "source_left ip t' s \<le> source_left ip t s + (t' - t) * st_rate s"
proof -
  have "0 \<le> st_rate s" "0 \<le> (t' - t) * st_rate s" using assms by (simp_all add: stun_ok_def)
  then show ?thesis using avail_later [OF assms(1)] by (simp add: source_left_def split: option.split)
qed

lemma stun_gc_params [simp]:
  "st_rate (stun_gc now s) = st_rate s" "st_burst (stun_gc now s) = st_burst s" "st_global_rate (stun_gc now s) = st_global_rate s"
  "st_global (stun_gc now s) = st_global s"
  by (simp_all add: stun_gc_def)

lemma stun_gc_keeps:
  assumes "stun_ok now s"
  shows "stun_ok now (stun_gc now s)" and "source_left ip now (stun_gc now s) = source_left ip now s"
proof -
  have g: "gm_ok (st_buckets s)" using assms by (simp add: stun_ok_def)
  have "gm_ok (filter P (st_buckets s))" for P using g by (simp add: distinct_map_filter)
  then show "stun_ok now (stun_gc now s)"
    using assms by (auto simp: stun_ok_def stun_gc_def map_of_filter_gm [OF g] split: option.splits if_splits)
  have "avail (st_rate s) (st_burst s) b now = st_burst s * Second" if "map_of (st_buckets s) ip = Some b" "bucket_idle now b" for b
    using idle_is_full [OF that(2)] assms that(1) by (simp add: stun_ok_def)
  then show "source_left ip now (stun_gc now s) = source_left ip now s"
    by (auto simp: source_left_def stun_gc_def map_of_filter_gm [OF g] split: option.splits)
qed

lemma source_left_cong:
  "st_buckets s' = st_buckets s \<Longrightarrow> st_rate s' = st_rate s \<Longrightarrow> st_burst s' = st_burst s \<Longrightarrow> source_left ip now s' = source_left ip now s"
  by (simp only: source_left_def)

lemma source_left_put:
  "source_left ip now (s\<lparr>st_buckets := gm_put k b (st_buckets s)\<rparr>)
    = (if ip = k then avail (st_rate s) (st_burst s) b now else source_left ip now s)"
  by (simp add: source_left_def split: option.split)

text \<open>A reply costs its source a token; nothing else changes what the sources have left.\<close>

lemma stun_handle_left:
  assumes "stun_ok now s0" and "stun_handle now pkt src s0 = (r, s')"
  shows "stun_ok now s' \<and> st_rate s' = st_rate s0 \<and> st_burst s' = st_burst s0
    \<and> source_left ip now s' + (if unmap (fst src) = ip \<and> r \<noteq> None then Second else 0) \<le> source_left ip now s0"
proof (cases "parse_binding_request pkt")
  case None
  then have "r = None" "s' = s0\<lparr>st_dropped := st_dropped s0 + 1\<rparr>" using assms(2) by (simp_all add: stun_handle_def)
  moreover from this have "source_left ip now s' = source_left ip now s0" by (intro source_left_cong) simp_all
  ultimately show ?thesis using assms(1) by (simp add: stun_ok_def)
next
  case (Some tx)
  let ?s = "stun_gc now s0" and ?ip = "unmap (fst src)"
  let ?b = "case map_of (st_buckets ?s) ?ip of None \<Rightarrow> empty_bucket | Some b \<Rightarrow> b"
  obtain ok b where tk: "take_token now (st_rate s0) (st_burst s0) ?b = (ok, b)" by force
  obtain gok g where gt: "take_token now (st_global_rate s0) (st_global_rate s0) (st_global s0) = (gok, g)" by force
  note gc = stun_gc_keeps [OF assms(1)]
  have bo: "bucket_ok (st_rate s0) (st_burst s0) now ?b" and nn: "0 \<le> st_rate s0" "0 \<le> st_burst s0"
    using gc(1) empty_bucket_ok by (simp_all add: stun_ok_def split: option.split)
  have left: "avail (st_rate s0) (st_burst s0) ?b now = source_left ?ip now s0"
    unfolding gc(2) [symmetric] by (simp add: source_left_def avail_def empty_bucket_def split: option.split)
  note av = take_token_avail [OF tk bo nn, unfolded left]
  show ?thesis
  proof (cases "map_of (st_buckets ?s) ?ip = None \<and> int (length (st_buckets ?s)) > 100000")
    case True
    then have "(r, s') = limited ?s" using assms(2) Some by (simp add: stun_handle_def Let_def)
    then have "r = None" "s' = ?s\<lparr>st_limited := st_limited ?s + 1\<rparr>" by (simp_all add: limited_def)
    moreover from this have "source_left ip now s' = source_left ip now ?s" by (intro source_left_cong) simp_all
    ultimately show ?thesis using gc by (simp add: stun_ok_def)
  next
    case False
    let ?s1 = "?s\<lparr>st_buckets := gm_put ?ip b (st_buckets ?s)\<rparr>"
    have ok1: "stun_ok now ?s1" using gc(1) av by (auto simp: stun_ok_def)
    have l1: "source_left ip now ?s1 + (if ?ip = ip \<and> ok then Second else 0) \<le> source_left ip now s0"
      using av gc(2) [of ip] by (auto simp: source_left_put)
    have "st_buckets s' = st_buckets ?s1" "st_rate s' = st_rate s0" "st_burst s' = st_burst s0" "r \<noteq> None \<longrightarrow> ok"
      using assms(2) Some False tk gt
      by (auto simp: stun_handle_def Let_def limited_def split: if_splits)
    moreover from this have "source_left ip now s' = source_left ip now ?s1" by (intro source_left_cong) simp_all
    moreover from calculation have "(if ?ip = ip \<and> r \<noteq> None then Second else 0) \<le> (if ?ip = ip \<and> ok then Second else (0 :: int))" by simp
    ultimately have "stun_ok now s'" "source_left ip now s' + (if ?ip = ip \<and> r \<noteq> None then Second else 0) \<le> source_left ip now s0"
      using ok1 l1 unfolding stun_ok_def by (simp_all only: stun_gc_params) simp_all
    then show ?thesis using \<open>st_rate s' = st_rate s0\<close> \<open>st_burst s' = st_burst s0\<close> by blast
  qed
qed
lemma replies_to_Cons:
  "replies_to ip ((src, r) # rs) = (if unmap (fst src) = ip \<and> r \<noteq> None then 1 else 0) + replies_to ip rs"
  by (simp add: replies_to_def)

lemma stun_run_left:
  assumes "stun_ok a s" and "sorted (map fst es)" and "\<forall>e\<in>set es. a \<le> fst e \<and> fst e \<le> z" and "a \<le> z" and "stun_run s es = (rs, s')"
  shows "stun_ok z s' \<and> st_rate s' = st_rate s \<and> st_burst s' = st_burst s
    \<and> replies_to ip rs * Second + source_left ip z s' \<le> source_left ip a s + (z - a) * st_rate s"
  using assms
proof (induction es arbitrary: a s rs)
  case Nil
  then show ?case using source_left_later [OF Nil(4,1)] stun_ok_later [OF Nil(1,4)] by (simp add: replies_to_def)
next
  case (Cons e es)
  obtain now pkt src where e: "e = (now, pkt, src)" by (cases e)
  obtain r s1 where h: "stun_handle now pkt src s = (r, s1)" by force
  obtain rs1 where run: "stun_run s1 es = (rs1, s')" "rs = (src, r) # rs1"
    using Cons.prems(5) by (auto simp: e h split: prod.splits)
  have t: "a \<le> now" "now \<le> z" using Cons.prems(3) by (simp_all add: e)
  note later = stun_ok_later [OF Cons.prems(1) t(1)]
  note hl = stun_handle_left [OF later h, of ip]
  have es: "\<forall>e\<in>set es. now \<le> fst e \<and> fst e \<le> z" using Cons.prems(2,3) by (auto simp: e)
  from hl Cons.IH [of now s1 rs1] Cons.prems(2) es t(2) run(1)
  have ih: "stun_ok z s'" "st_rate s' = st_rate s" "st_burst s' = st_burst s"
    "replies_to ip rs1 * Second + source_left ip z s' \<le> source_left ip now s1 + (z - now) * st_rate s" by simp_all
  have "source_left ip now s \<le> source_left ip a s + (now - a) * st_rate s" by (rule source_left_later [OF t(1) Cons.prems(1)])
  with hl have "source_left ip now s1 + (if unmap (fst src) = ip \<and> r \<noteq> None then Second else 0)
      \<le> source_left ip a s + (now - a) * st_rate s" by linarith
  moreover have "(z - now) * st_rate s + (now - a) * st_rate s = (z - a) * st_rate s" by (simp add: algebra_simps)
  moreover have one: "(if C then 1 else 0) * Second = (if C then Second else (0 :: int))" for C by simp
  ultimately have "replies_to ip rs * Second + source_left ip z s' \<le> source_left ip a s + (z - a) * st_rate s"
    using ih(4) unfolding run(2) replies_to_Cons distrib_right one by linarith
  with ih(1-3) show ?case by simp
qed

text \<open>C25: after any history of datagrams the responder sends one source at most its burst of 10 replies and 5 more for every second
  of the interval, however the requests of other sources interleave and whatever the cleaning of the bucket table removes.\<close>

theorem stun_rate_bounded:
  assumes "stun_run new_stun_server before = (rs0, s)" and "stun_run s during = (rs, s')"
    and "sorted (map fst (before @ during))" and "\<forall>e\<in>set before. fst e \<le> a" and "\<forall>e\<in>set during. a \<le> fst e \<and> fst e \<le> a + d" and "0 \<le> d"
  shows "replies_to ip rs * Second \<le> 10 * Second + 5 * d"
proof -
  define b where "b = (case before of [] \<Rightarrow> a | e # _ \<Rightarrow> min a (fst e))"
  have ok0: "stun_ok b new_stun_server" by (simp add: stun_ok_def new_stun_server_def)
  have "\<forall>e\<in>set before. b \<le> fst e \<and> fst e \<le> a" "b \<le> a"
    using assms(3,4) by (force simp: b_def sorted_append split: list.splits)+
  from stun_run_left [OF ok0 _ this assms(1)] assms(3)
  have s: "stun_ok a s" "st_rate s = 5" "st_burst s = 10" by (simp_all add: sorted_append new_stun_server_def)
  have "sorted (map fst during)" using assms(3) by (simp add: sorted_append)
  from stun_run_left [OF s(1) this assms(5) _ assms(2), of ip] assms(6)
  have l: "stun_ok (a + d) s'" "replies_to ip rs * Second + source_left ip (a + d) s' \<le> source_left ip a s + d * 5"
    using s by simp_all
  from l source_left_bounds(2) [OF l(1), of ip] source_left_bounds(1) [OF s(1), of ip] s show ?thesis by simp
qed
section \<open>A burst of requests\<close>

definition burst_src :: addr_port where
  "burst_src = (IP4 0xCB007109, 5000)"

definition burst_run :: "(addr_port \<times> bytes option) list \<times> stun_server" where
  "burst_run = stun_run new_stun_server (replicate 2 (0, new_binding_request (replicate 12 7), burst_src))"

text \<open>Two requests at the same time are answered.\<close>

lemma burst_answered: "replies_to (IP4 0xCB007109) (fst burst_run) = 2"
  by code_simp

lemma stun_rate_bounded_witness:
  "replies_to (IP4 0xCB007109) (fst burst_run) = 2
   \<and> replies_to (IP4 0xCB007109) (fst burst_run) * Second \<le> 10 * Second + 5 * 0"
proof -
  have "stun_run new_stun_server (replicate 2 (0, new_binding_request (replicate 12 7), burst_src)) = (fst burst_run, snd burst_run)"
    by (simp add: burst_run_def)
  from stun_rate_bounded [OF stun_run.simps(1) this, of 0 0 "IP4 0xCB007109"]
  have "replies_to (IP4 0xCB007109) (fst burst_run) * Second \<le> 10 * Second + 5 * 0" by simp
  with burst_answered show ?thesis by simp
qed

text \<open>A request with attributes is answered too.\<close>

lemma attributes_accepted:
  "parse_binding_request ([0, 1, 0, 4, 0x21, 0x12, 0xA4, 0x42] @ replicate 12 7 @ [0x80, 0x22, 0, 0]) = Some (replicate 12 7)"
  by code_simp

end
