(* ===== verification/Disco.thy ===== *)
theory Disco
  imports Stun
begin

text \<open>
  The sealed probes of direct paths (\<open>client/wgnet/disco.go\<close>): their encoding, the cache of nonces against
  replay, and how a datagram is told apart from STUN and WireGuard packets (\<open>readLoop\<close> of \<open>direct.go\<close>).
  The authenticated encryption (\<open>nacl/box\<close>) is a parameter.
\<close>

record box =
  bx_seal :: "bytes \<Rightarrow> bytes \<Rightarrow> bytes \<Rightarrow> bytes"
  bx_open :: "bytes \<Rightarrow> bytes \<Rightarrow> bytes \<Rightarrow> bytes option"
  bx_precompute :: "bytes \<Rightarrow> bytes \<Rightarrow> bytes"

definition box_overhead :: nat where "box_overhead = 16"

text \<open>What is sealed is opened again under the same key and nonce, and grows by the overhead.\<close>

definition box_ok :: "box \<Rightarrow> bool" where
  "box_ok B \<longleftrightarrow> (\<forall>k n p. bx_open B k n (bx_seal B k n p) = Some p \<and> length (bx_seal B k n p) = length p + box_overhead)"

definition discoMagic :: bytes where "discoMagic = [0x5A, 0x56, 0x64, 0x69, 0x73, 0x63, 1]"
definition discoPing :: byte where "discoPing = 1"
definition discoPong :: byte where "discoPong = 2"
definition discoHdr :: nat where "discoHdr = 7 + 32 + 24"
definition discoPlainMin :: nat where "discoPlainMin = 1 + 8 + 12"
definition discoMaxPacket :: nat where "discoMaxPacket = 512"
definition discoSkew :: duration where "discoSkew = 300 * Second"
definition replayKeep :: duration where "replayKeep = 720 * Second"
definition replayLimit :: nat where "replayLimit = 8192"

lemmas disco_consts = box_overhead_def discoMagic_def discoHdr_def discoPlainMin_def discoMaxPacket_def

record disco_key =
  dk_priv :: bytes
  dk_pub :: bytes

definition shared_key :: "box \<Rightarrow> disco_key \<Rightarrow> bytes \<Rightarrow> bytes" where
  "shared_key B k peer_pub = bx_precompute B peer_pub (dk_priv k)"

text \<open>\<open>dm_seen\<close> is the zero value \<open>(NoAddr, 0)\<close> when there is no address.\<close>

record disco_msg =
  dm_kind :: byte
  dm_ts :: time
  dm_tx :: txid
  dm_seen :: addr_port

section \<open>Encoding\<close>

text \<open>\<open>AddrPort.MarshalBinary\<close> and \<open>UnmarshalBinary\<close>: the address, its zone, and the port in little-endian order.
  The bytes of a zone are its characters.\<close>

definition zone_bytes :: "string \<Rightarrow> bytes" where
  "zone_bytes z = map (\<lambda>c. of_nat (of_char c)) z"

definition bytes_zone :: "bytes \<Rightarrow> string" where
  "bytes_zone b = map char_of (map unat b)"

fun addr_bytes :: "addr \<Rightarrow> bytes" where
  "addr_bytes NoAddr = []"
| "addr_bytes (IP4 w) = be_put 4 w"
| "addr_bytes (IP6 w z) = be_put 16 w @ zone_bytes z"

definition addr_of_bytes :: "bytes \<Rightarrow> addr option" where
  "addr_of_bytes b =
     (if b = [] then Some NoAddr
      else if length b = 4 then Some (IP4 (be_get b))
      else if length b \<ge> 16 then Some (IP6 (be_get (take 16 b)) (bytes_zone (drop 16 b)))
      else None)"

definition addr_port_bytes :: "addr_port \<Rightarrow> bytes" where
  "addr_port_bytes ap = (case ap of (a, p) \<Rightarrow> addr_bytes a @ rev (be_put 2 (of_nat p :: u16)))"

definition addr_port_of_bytes :: "bytes \<Rightarrow> addr_port option" where
  "addr_port_of_bytes b =
     (if length b < 2 then None
      else map_option (\<lambda>a. (a, unat (be_get (rev (drop (length b - 2) b)) :: u16))) (addr_of_bytes (take (length b - 2) b)))"

definition disco_plain :: "disco_msg \<Rightarrow> bytes" where
  "disco_plain m = dm_kind m # be_put 8 (of_int (dm_ts m div Second) :: u64) @ dm_tx m
     @ (if dm_kind m = discoPong \<and> fst (dm_seen m) \<noteq> NoAddr then addr_port_bytes (dm_seen m) else [])"

definition seal_disco :: "box \<Rightarrow> disco_key \<Rightarrow> bytes \<Rightarrow> bytes \<Rightarrow> disco_msg \<Rightarrow> bytes" where
  "seal_disco B self shared nonce m = discoMagic @ dk_pub self @ nonce @ bx_seal B shared nonce (disco_plain m)"

definition is_disco :: "bytes \<Rightarrow> bool" where
  "is_disco p \<longleftrightarrow> discoHdr + box_overhead + discoPlainMin \<le> length p \<and> length p \<le> discoMaxPacket \<and> take 7 p = discoMagic"

definition disco_sender :: "bytes \<Rightarrow> bytes" where
  "disco_sender p = slice 7 39 p"

definition disco_nonce :: "bytes \<Rightarrow> bytes" where
  "disco_nonce p = slice 39 63 p"

definition open_disco :: "box \<Rightarrow> bytes \<Rightarrow> bytes \<Rightarrow> disco_msg option" where
  "open_disco B shared p =
     (case bx_open B shared (disco_nonce p) (drop discoHdr p) of
        None \<Rightarrow> None
      | Some plain \<Rightarrow>
          if length plain < discoPlainMin then None
          else if plain ! 0 \<noteq> discoPing \<and> plain ! 0 \<noteq> discoPong then None
          else
            Some \<lparr>dm_kind = plain ! 0, dm_ts = sint (be_get (slice 1 9 plain) :: u64) * Second, dm_tx = slice 9 21 plain,
              dm_seen = (if length plain > 21 then (case addr_port_of_bytes (drop 21 plain) of Some ap \<Rightarrow> ap | None \<Rightarrow> (NoAddr, 0))
                else (NoAddr, 0))\<rparr>)"

section \<open>The three kinds of datagrams\<close>

datatype datagram_kind = KStun | KDisco | KOther

definition classify :: "bytes \<Rightarrow> datagram_kind" where
  "classify p = (if is_stun p then KStun else if is_disco p then KDisco else KOther)"

text \<open>A WireGuard message starts with its type, 1 to 4, and three zero bytes.\<close>

definition wg_message :: "bytes \<Rightarrow> bool" where
  "wg_message p \<longleftrightarrow> length p \<ge> 4 \<and> p ! 0 \<in> {1, 2, 3, 4} \<and> p ! 1 = 0 \<and> p ! 2 = 0 \<and> p ! 3 = 0"

section \<open>The cache of nonces\<close>

record replay_cache =
  rc_seen :: "(bytes, time) gomap"
  rc_gc :: "time option"

definition new_replay_cache :: replay_cache where
  "new_replay_cache = \<lparr>rc_seen = [], rc_gc = None\<rparr>"

definition replay_clean :: "time \<Rightarrow> replay_cache \<Rightarrow> replay_cache" where
  "replay_clean now r =
     (if (case rc_gc r of None \<Rightarrow> True | Some g \<Rightarrow> now - g > 60 * Second) \<or> int (length (rc_seen r)) > int replayLimit then
        let kept = filter (\<lambda>(n, t). \<not> now - t > replayKeep) (rc_seen r) in
        \<lparr>rc_seen = (if int (length kept) > int replayLimit then [] else kept), rc_gc = Some now\<rparr>
      else r)"

definition replay_check :: "bytes \<Rightarrow> time \<Rightarrow> replay_cache \<Rightarrow> bool \<times> replay_cache" where
  "replay_check n now r0 =
     (let r = replay_clean now r0 in
      if map_of (rc_seen r) n \<noteq> None then (False, r) else (True, r\<lparr>rc_seen := gm_put n now (rc_seen r)\<rparr>))"
section \<open>Round trip\<close>

lemma zone_roundtrip: "bytes_zone (zone_bytes z) = z"
proof -
  have "unat (of_nat (of_char c) :: byte) = of_char c" for c :: char
    using nat_of_char_less_256 [of c] by (simp add: unat_of_nat)
  then show ?thesis by (simp add: bytes_zone_def zone_bytes_def comp_def)
qed

lemma length_addr_bytes: "length (addr_bytes a) = 0 \<longleftrightarrow> a = NoAddr"
  by (cases a) auto

lemma addr_bytes_roundtrip: "addr_of_bytes (addr_bytes a) = Some a"
proof (cases a)
  case (IP6 w z)
  have "length (be_put 16 w @ zone_bytes z) \<noteq> 4" "be_put 16 w @ zone_bytes z \<noteq> []"
    using be_put_length [of 16 w] by (auto simp del: be_put_length)
  then show ?thesis using IP6 by (simp add: addr_of_bytes_def zone_roundtrip)
next
  case (IP4 w)
  have "be_put 4 w \<noteq> []" using be_put_length [of 4 w] by (auto simp del: be_put_length)
  with IP4 show ?thesis by (simp add: addr_of_bytes_def)
qed (simp add: addr_of_bytes_def)

lemma addr_port_bytes_roundtrip: "p \<le> 65535 \<Longrightarrow> addr_port_of_bytes (addr_port_bytes (a, p)) = Some (a, p)"
  by (simp add: addr_port_of_bytes_def addr_port_bytes_def addr_bytes_roundtrip unat_port)

definition sendable :: "disco_msg \<Rightarrow> bool" where
  "sendable m \<longleftrightarrow> dm_kind m \<in> {discoPing, discoPong} \<and> length (dm_tx m) = 12
     \<and> - (2 ^ 63) \<le> dm_ts m div Second \<and> dm_ts m div Second < 2 ^ 63 \<and> snd (dm_seen m) \<le> 65535
     \<and> (dm_kind m = discoPing \<or> fst (dm_seen m) = NoAddr \<longrightarrow> dm_seen m = (NoAddr, 0))"

lemma plain_fields:
  assumes "length (dm_tx m) = 12"
  shows "discoPlainMin \<le> length (disco_plain m)" and "disco_plain m ! 0 = dm_kind m"
    and "slice 1 9 (disco_plain m) = be_put 8 (of_int (dm_ts m div Second) :: u64)" and "slice 9 21 (disco_plain m) = dm_tx m"
    and "drop 21 (disco_plain m) = (if dm_kind m = discoPong \<and> fst (dm_seen m) \<noteq> NoAddr then addr_port_bytes (dm_seen m) else [])"
  using assms by (simp_all add: disco_plain_def slice_def discoPlainMin_def drop_Cons' take_Cons')

lemma open_plain:
  assumes "sendable m"
  shows "(if length (disco_plain m) > 21 then (case addr_port_of_bytes (drop 21 (disco_plain m)) of Some ap \<Rightarrow> ap | None \<Rightarrow> (NoAddr, 0))
    else (NoAddr, 0)) = dm_seen m"
proof -
  have tx: "length (dm_tx m) = 12" using assms by (simp add: sendable_def)
  note pf = plain_fields [OF tx]
  obtain a p where ap: "dm_seen m = (a, p)" by force
  show ?thesis
  proof (cases "dm_kind m = discoPong \<and> a \<noteq> NoAddr")
    case True
    then have "drop 21 (disco_plain m) = addr_port_bytes (a, p)" using pf(5) ap by simp
    moreover have "p \<le> 65535" using assms ap by (simp add: sendable_def)
    moreover from calculation have "length (disco_plain m) > 21"
      by (metis addr_port_bytes_roundtrip drop_all length_greater_0_conv addr_port_of_bytes_def list.size(3) not_le option.distinct(1) zero_less_numeral)
    ultimately show ?thesis using ap by (simp add: addr_port_bytes_roundtrip)
  next
    case False
    with pf(5) ap have "drop 21 (disco_plain m) = []" by auto
    then have "\<not> length (disco_plain m) > 21" by simp
    moreover have "dm_seen m = (NoAddr, 0)"
      using False assms ap by (auto simp: sendable_def discoPing_def discoPong_def)
    ultimately show ?thesis by simp
  qed
qed

lemma seal_shape:
  assumes "length (dk_pub self) = 32" and "length nonce = 24"
  shows "disco_sender (seal_disco B self k nonce m) = dk_pub self" and "disco_nonce (seal_disco B self k nonce m) = nonce"
    and "drop discoHdr (seal_disco B self k nonce m) = bx_seal B k nonce (disco_plain m)"
    and "take 7 (seal_disco B self k nonce m) = discoMagic"
    and "length (seal_disco B self k nonce m) = discoHdr + length (bx_seal B k nonce (disco_plain m))"
  using assms by (simp_all add: seal_disco_def disco_sender_def disco_nonce_def slice_def discoHdr_def discoMagic_def)

lemma sint_of_int64: "- (2 ^ 63) \<le> i \<Longrightarrow> i < 2 ^ 63 \<Longrightarrow> sint (of_int i :: u64) = i"
  by (simp add: sint_sbintrunc' signed_take_bit_int_eq_self)

text \<open>A sealed probe is opened by the holder of the shared key with every field as it was sent, the time stamp cut to
  seconds; and the sender and the nonce are read off the packet.\<close>

lemma disco_roundtrip:
  assumes "box_ok B" and "length (dk_pub self) = 32" and "length nonce = 24" and "sendable m"
    and "length (disco_plain m) \<le> discoMaxPacket - discoHdr - box_overhead"
  shows "is_disco (seal_disco B self k nonce m) \<and> disco_sender (seal_disco B self k nonce m) = dk_pub self
    \<and> disco_nonce (seal_disco B self k nonce m) = nonce
    \<and> open_disco B k (seal_disco B self k nonce m) = Some (m\<lparr>dm_ts := dm_ts m div Second * Second\<rparr>)"
proof -
  have tx: "length (dm_tx m) = 12" and kind: "dm_kind m = discoPing \<or> dm_kind m = discoPong"
    and ts: "- (2 ^ 63) \<le> dm_ts m div Second" "dm_ts m div Second < 2 ^ 63" using assms(4) by (auto simp: sendable_def)
  note pf = plain_fields [OF tx] and sh = seal_shape [OF assms(2,3), of B k m]
  have "length (bx_seal B k nonce (disco_plain m)) = length (disco_plain m) + box_overhead" using assms(1) by (simp add: box_ok_def)
  with sh pf(1) assms(5) have "is_disco (seal_disco B self k nonce m)" by (simp add: is_disco_def disco_consts)
  moreover have "bx_open B k nonce (bx_seal B k nonce (disco_plain m)) = Some (disco_plain m)" using assms(1) by (simp add: box_ok_def)
  moreover have "(sint (be_get (slice 1 9 (disco_plain m)) :: u64)) = dm_ts m div Second"
    unfolding pf(3) using sint_of_int64 [OF ts] by simp
  ultimately show ?thesis
    using sh pf(1,2,4) kind open_plain [OF assms(4)] by (auto simp: open_disco_def)
qed
section \<open>Telling datagrams apart\<close>

lemma request_is_stun: "length tx = 12 \<Longrightarrow> is_stun (new_binding_request tx)"
  using stun_request_roundtrip [of tx] by (auto simp: parse_binding_request_def split: if_splits)

lemma head_not_stun: "p ! 0 AND 0xC0 \<noteq> 0 \<Longrightarrow> \<not> is_stun p"
  by (simp add: is_stun_def)

lemma disco_head:
  assumes "is_disco p"
  shows "p ! 0 = 0x5A"
proof -
  have "take 7 p ! 0 = 0x5A" using assms by (simp add: is_disco_def discoMagic_def)
  moreover have "length p > 0" using assms by (auto simp: is_disco_def discoHdr_def)
  ultimately show ?thesis by simp
qed

lemma disco_not_stun: "is_disco p \<Longrightarrow> \<not> is_stun p"
  by (rule head_not_stun) (simp add: disco_head)

lemma wg_is_other:
  assumes "wg_message p" and "length p \<noteq> 20"
  shows "classify p = KOther"
proof -
  have "p ! 0 \<noteq> 0x5A" "length p \<ge> 4" "p ! 2 = 0" "p ! 3 = 0" using assms(1) by (auto simp: wg_message_def)
  moreover from this have "slice 2 4 p = [0, 0]"
    by (simp add: slice_def list_eq_iff_nth_eq less_Suc_eq numeral_2_eq_2 numeral_3_eq_3 eval_nat_numeral)
  then have "u16_at 2 p = 0" by (simp add: u16_at_def be_get_def)
  then have "\<not> is_stun p" using assms(2) by (simp add: is_stun_def StunHeader_def)
  ultimately show ?thesis using disco_head by (auto simp: classify_def)
qed

text \<open>A datagram of each protocol is recognised as what it is: requests and responses of STUN, sealed probes, and every
  WireGuard message (none of them has 20 bytes; the shortest, an empty data message, has 32).\<close>

lemma datagrams_apart:
  "length tx = 12 \<Longrightarrow> classify (new_binding_request tx) = KStun"
  "length tx = 12 \<Longrightarrow> classify (new_binding_response tx (a, p)) = KStun"
  "is_disco d \<Longrightarrow> classify d = KDisco"
  "wg_message w \<Longrightarrow> length w \<ge> 32 \<Longrightarrow> classify w = KOther"
  using request_is_stun [of tx] response_shape(5) [of tx] disco_not_stun [of d] wg_is_other [of w]
  by (simp_all add: classify_def)

section \<open>Replay\<close>

fun replay_run :: "(bytes \<times> time) list \<Rightarrow> replay_cache \<Rightarrow> replay_cache" where
  "replay_run [] r = r"
| "replay_run ((n, now) # cs) r = replay_run cs (snd (replay_check n now r))"

text \<open>While few nonces are in the cache, a nonce stays in it for \<open>replayKeep\<close>.\<close>

lemma replay_clean_keeps:
  assumes "map_of (rc_seen r) n = Some t" and "gm_ok (rc_seen r)" and "now \<le> t + replayKeep" and "length (rc_seen r) \<le> replayLimit"
  shows "map_of (rc_seen (replay_clean now r)) n = Some t" "gm_ok (rc_seen (replay_clean now r))"
    "length (rc_seen (replay_clean now r)) \<le> length (rc_seen r)"
proof -
  let ?kept = "filter (\<lambda>(n, t). \<not> now - t > replayKeep) (rc_seen r)"
  have l: "length ?kept \<le> length (rc_seen r)" by (rule length_filter_le)
  have s: "rc_seen (replay_clean now r) = ?kept \<or> replay_clean now r = r"
    using order_trans [OF l assms(4)] by (auto simp: replay_clean_def Let_def)
  have "map_of ?kept n = Some t"
    using assms(1-3) map_of_filter_gm [of "rc_seen r" "\<lambda>t. \<not> now - t > replayKeep" n] by simp
  moreover have "gm_ok ?kept" using assms(2) by (simp add: distinct_map_filter)
  ultimately show "map_of (rc_seen (replay_clean now r)) n = Some t" "gm_ok (rc_seen (replay_clean now r))"
    "length (rc_seen (replay_clean now r)) \<le> length (rc_seen r)"
    using s l assms(1,2) by auto
qed

lemma replay_check_keeps:
  assumes "map_of (rc_seen r) n = Some t" and "gm_ok (rc_seen r)" and "now \<le> t + replayKeep" and "length (rc_seen r) \<le> replayLimit"
  shows "map_of (rc_seen (snd (replay_check n' now r))) n = Some t" "gm_ok (rc_seen (snd (replay_check n' now r)))"
    "length (rc_seen (snd (replay_check n' now r))) \<le> Suc (length (rc_seen r))"
    "n' = n \<Longrightarrow> \<not> fst (replay_check n' now r)"
proof -
  note k = replay_clean_keeps [OF assms]
  show "map_of (rc_seen (snd (replay_check n' now r))) n = Some t" "gm_ok (rc_seen (snd (replay_check n' now r)))"
    using k by (cases "map_of (rc_seen (replay_clean now r)) n' = None"; force simp: replay_check_def Let_def)+
  show "length (rc_seen (snd (replay_check n' now r))) \<le> Suc (length (rc_seen r))"
    using k(3) by (auto simp: replay_check_def Let_def length_gm_put)
  show "n' = n \<Longrightarrow> \<not> fst (replay_check n' now r)" using k(1) by (simp add: replay_check_def Let_def)
qed

lemma replay_run_keeps:
  assumes "map_of (rc_seen r) n = Some t" and "gm_ok (rc_seen r)" and "\<forall>c\<in>set cs. snd c \<le> t + replayKeep"
    and "length (rc_seen r) + length cs \<le> replayLimit"
  shows "map_of (rc_seen (replay_run cs r)) n = Some t \<and> gm_ok (rc_seen (replay_run cs r))
    \<and> length (rc_seen (replay_run cs r)) \<le> length (rc_seen r) + length cs"
  using assms
proof (induction cs arbitrary: r)
  case (Cons c cs)
  obtain n' now where c: "c = (n', now)" by force
  have "now \<le> t + replayKeep" "length (rc_seen r) \<le> replayLimit" using Cons.prems by (simp_all add: c)
  note k = replay_check_keeps [OF Cons.prems(1,2) this, of n']
  from Cons.IH [OF k(1,2)] k(3) Cons.prems(3,4) show ?case by (simp add: c)
qed simp

definition fresh :: "time \<Rightarrow> disco_msg \<Rightarrow> bool" where
  "fresh now m \<longleftrightarrow> \<not> (now - dm_ts m > discoSkew \<or> now - dm_ts m < - discoSkew)"

text \<open>C18: a probe that was accepted is not accepted again: its nonce is remembered longer than its time stamp is good, as long as
  no more than \<open>replayLimit\<close> nonces are in the cache.\<close>

theorem disco_no_replay:
  assumes "replay_check (disco_nonce p) t1 r0 = (True, r1)" and "fresh t1 m" and "gm_ok (rc_seen r1)"
    and "\<forall>c\<in>set cs. snd c \<le> t2" and "t1 \<le> t2" and "length (rc_seen r1) + length cs \<le> replayLimit"
  shows "\<not> (fresh t2 m \<and> fst (replay_check (disco_nonce p) t2 (replay_run cs r1)))"
proof
  assume f: "fresh t2 m \<and> fst (replay_check (disco_nonce p) t2 (replay_run cs r1))"
  then have t2: "t2 \<le> t1 + replayKeep" using assms(2) by (auto simp: fresh_def discoSkew_def replayKeep_def)
  have "map_of (rc_seen r1) (disco_nonce p) = Some t1"
    using assms(1) by (auto simp: replay_check_def Let_def split: if_splits)
  moreover have "\<forall>c\<in>set cs. snd c \<le> t1 + replayKeep" using assms(4) t2 by force
  ultimately have run: "map_of (rc_seen (replay_run cs r1)) (disco_nonce p) = Some t1"
    "gm_ok (rc_seen (replay_run cs r1))" "length (rc_seen (replay_run cs r1)) \<le> replayLimit"
    using replay_run_keeps [of r1 "disco_nonce p" t1 cs] assms(3,6) by auto
  from replay_check_keeps(4) [OF run(1,2) t2 run(3)] f show False by simp
qed
section \<open>An instance\<close>

text \<open>A box that adds a tag and hides nothing shows that the hypotheses can hold.\<close>

definition tag_box :: box where
  "tag_box = \<lparr>bx_seal = (\<lambda>k n p. p @ replicate 16 0), bx_open = (\<lambda>k n c. Some (take (length c - 16) c)),
     bx_precompute = (\<lambda>pub priv. map2 (+) pub priv)\<rparr>"

lemma tag_box_ok: "box_ok tag_box"
  by (simp add: box_ok_def tag_box_def box_overhead_def)

definition sample_disco :: disco_key where
  "sample_disco = \<lparr>dk_priv = replicate 32 1, dk_pub = replicate 32 2\<rparr>"

definition sample_pong :: disco_msg where
  "sample_pong = \<lparr>dm_kind = discoPong, dm_ts = 1700000000 * Second + 5, dm_tx = replicate 12 3, dm_seen = (IP4 0xCB007109, 41641)\<rparr>"

lemma sample_sendable: "sendable sample_pong" and sample_plain: "length (disco_plain sample_pong) = 27"
  by (simp_all add: sendable_def sample_pong_def disco_plain_def addr_port_bytes_def discoPong_def discoPing_def)

lemma disco_roundtrip_witness:
  "open_disco tag_box [] (seal_disco tag_box sample_disco [] (replicate 24 9) sample_pong)
     = Some (sample_pong\<lparr>dm_ts := 1700000000 * Second\<rparr>)"
proof -
  have "open_disco tag_box [] (seal_disco tag_box sample_disco [] (replicate 24 9) sample_pong)
     = Some (sample_pong\<lparr>dm_ts := dm_ts sample_pong div Second * Second\<rparr>)"
    using disco_roundtrip [OF tag_box_ok _ _ sample_sendable, of sample_disco "replicate 24 9" "[]"]
    by (simp add: sample_plain sample_disco_def disco_consts)
  then show ?thesis by (simp add: sample_pong_def)
qed

definition sample_probe :: bytes where
  "sample_probe = seal_disco tag_box sample_disco [] (replicate 24 9) sample_pong"

lemma disco_no_replay_witness:
  "fst (replay_check (disco_nonce sample_probe) (1700000100 * Second) new_replay_cache)
   \<and> \<not> (fresh (1700000200 * Second) sample_pong
      \<and> fst (replay_check (disco_nonce sample_probe) (1700000200 * Second)
          (replay_run [(replicate 24 8, 1700000150 * Second)] (snd (replay_check (disco_nonce sample_probe) (1700000100 * Second) new_replay_cache)))))"
proof -
  let ?r = "replay_check (disco_nonce sample_probe) (1700000100 * Second) new_replay_cache"
  have r: "?r = (True, \<lparr>rc_seen = [(disco_nonce sample_probe, 1700000100 * Second)], rc_gc = Some (1700000100 * Second)\<rparr>)"
    by (simp add: replay_check_def replay_clean_def new_replay_cache_def Let_def)
  have f: "fresh (1700000100 * Second) sample_pong" by (simp add: fresh_def sample_pong_def discoSkew_def)
  from disco_no_replay [OF r f, of "[(replicate 24 8, 1700000150 * Second)]" "1700000200 * Second"] show ?thesis
    unfolding r by (simp add: replayLimit_def)
qed

end
