(* ===== verification/Direct_Paths.thy ===== *)
theory Direct_Paths
  imports Disco Frame_Codec
begin

text \<open>
  The choice between relay and direct path on a node (\<open>pathMgr\<close> of \<open>client/wgnet/paths.go\<close>). The objects
  \<open>*peerPath\<close> are shared by three tables, so they live in a heap. A zero \<open>time.Time\<close> is \<open>None\<close>. The
  transaction identifiers and nonces of the pings of one round are given by a function of the peer and the address.
\<close>

definition probeInterval :: duration where "probeInterval = 900 * Millisecond"
definition probeWindow :: duration where "probeWindow = 12 * Second"
definition keepalive :: duration where "keepalive = 25 * Second"
definition directTimeout :: duration where "directTimeout = 30 * Second"
definition pingRetry :: duration where "pingRetry = 3 * Second"
definition retryMin :: duration where "retryMin = 30 * Second"
definition retryMax :: duration where "retryMax = 300 * Second"
definition pendingTTL :: duration where "pendingTTL = 10 * Second"
definition verifiedTTL :: duration where "verifiedTTL = 120 * Second"
definition maxCands :: nat where "maxCands = 2 * MaxNetEndpoints"

type_synonym path_ref = nat

record probe =
  pr_addr :: addr_port
  pr_sent :: time

record peer_path =
  pp_ip :: addr
  pp_wg :: string
  pp_disco_pub :: bytes
  pp_has_disco :: bool
  pp_shared :: bytes
  pp_cands :: "addr_port list"
  pp_probe_until :: "time option"
  pp_next_probe :: "time option"
  pp_retry_at :: "time option"
  pp_retry_wait :: duration
  pp_ask :: bool
  pp_pending :: "(txid, probe) gomap"
  pp_verified :: "(addr_port, time) gomap"
  pp_direct :: addr_port
  pp_direct_ok :: bool
  pp_rtt :: duration
  pp_last_alive :: "time option"
  pp_last_ping :: "time option"

record path_mgr =
  pm_self :: disco_key
  pm_loopback :: bool
  pm_heap :: "(path_ref, peer_path) gomap"
  pm_peers :: "(addr, path_ref) gomap"
  pm_by_disco :: "(bytes, path_ref) gomap"
  pm_by_addr :: "(addr_port, path_ref) gomap"
  pm_replay :: replay_cache

definition new_path_mgr :: "disco_key \<Rightarrow> bool \<Rightarrow> path_mgr" where
  "new_path_mgr self lb = \<lparr>pm_self = self, pm_loopback = lb, pm_heap = [], pm_peers = [], pm_by_disco = [], pm_by_addr = [],
     pm_replay = new_replay_cache\<rparr>"

text \<open>\<open>t.Before(u)\<close> and \<open>t.Sub(u)\<close> with a possibly zero \<open>u\<close>.\<close>

definition before :: "time \<Rightarrow> time option \<Rightarrow> bool" where
  "before now u \<longleftrightarrow> (case u of None \<Rightarrow> False | Some x \<Rightarrow> now < x)"

definition passed :: "time \<Rightarrow> time option \<Rightarrow> duration \<Rightarrow> bool" where
  "passed now u d \<longleftrightarrow> (case u of None \<Rightarrow> True | Some x \<Rightarrow> now - x > d)"

definition passed_eq :: "time \<Rightarrow> time option \<Rightarrow> duration \<Rightarrow> bool" where
  "passed_eq now u d \<longleftrightarrow> (case u of None \<Rightarrow> True | Some x \<Rightarrow> now - x \<ge> d)"

definition set_path :: "path_ref \<Rightarrow> peer_path \<Rightarrow> path_mgr \<Rightarrow> path_mgr" where
  "set_path r p m = m\<lparr>pm_heap := gm_put r p (pm_heap m)\<rparr>"

section \<open>Peers\<close>

definition accept_candidate :: "bool \<Rightarrow> addr_port \<Rightarrow> bool" where
  "accept_candidate lb ap \<longleftrightarrow> fst ap \<noteq> NoAddr \<and> usable_endpoint lb (unmap (fst ap), snd ap)"

text \<open>\<open>delete_if\<close>: delete the entry of a table if it refers to this object.\<close>

definition delete_if :: "path_ref \<Rightarrow> 'k \<Rightarrow> ('k, path_ref) gomap \<Rightarrow> ('k, path_ref) gomap" where
  "delete_if r k t = (if map_of t k = Some r then gm_del k t else t)"

definition drop_path :: "path_ref \<Rightarrow> peer_path \<Rightarrow> path_mgr \<Rightarrow> path_mgr" where
  "drop_path r p m =
     m\<lparr>pm_by_addr := fold (delete_if r) (map fst (pp_verified p)) (pm_by_addr m),
       pm_by_disco := (if pp_has_disco p then delete_if r (pp_disco_pub p) (pm_by_disco m) else pm_by_disco m),
       pm_peers := gm_del (pp_ip p) (pm_peers m)\<rparr>"

definition new_path :: "box \<Rightarrow> disco_key \<Rightarrow> addr \<Rightarrow> string \<Rightarrow> bytes option \<Rightarrow> peer_path" where
  "new_path B self ip wg dp =
     \<lparr>pp_ip = ip, pp_wg = wg, pp_disco_pub = (case dp of None \<Rightarrow> replicate 32 0 | Some k \<Rightarrow> k), pp_has_disco = dp \<noteq> None,
      pp_shared = (case dp of None \<Rightarrow> replicate 32 0 | Some k \<Rightarrow> shared_key B self k),
      pp_cands = [], pp_probe_until = None, pp_next_probe = None, pp_retry_at = None, pp_retry_wait = retryMin, pp_ask = False,
      pp_pending = [], pp_verified = [], pp_direct = (NoAddr, 0), pp_direct_ok = False, pp_rtt = 0, pp_last_alive = None,
      pp_last_ping = None\<rparr>"

definition path_of :: "path_mgr \<Rightarrow> addr \<Rightarrow> (path_ref \<times> peer_path) option" where
  "path_of m ip = Option.bind (map_of (pm_peers m) ip) (\<lambda>r. map_option (Pair r) (map_of (pm_heap m) r))"

text \<open>\<open>setPeer\<close>; \<open>dp\<close> is the result of \<open>decodeDiscoPub\<close>.\<close>

definition set_peer :: "box \<Rightarrow> addr \<Rightarrow> string \<Rightarrow> bytes option \<Rightarrow> path_mgr \<Rightarrow> bool \<times> path_mgr" where
  "set_peer B ip wg dp m0 =
     (let p = new_path B (pm_self m0) ip wg dp in
      case path_of m0 ip of
        Some (r0, p0) \<Rightarrow>
          if pp_wg p0 = wg \<and> pp_has_disco p0 = (dp \<noteq> None) \<and> pp_disco_pub p0 = pp_disco_pub p then (False, m0)
          else
            let m = drop_path r0 p0 m0; r = length (pm_heap m) in
            (dp \<noteq> None, (set_path r p m)\<lparr>pm_peers := gm_put ip r (pm_peers m),
               pm_by_disco := (case dp of None \<Rightarrow> pm_by_disco m | Some k \<Rightarrow> gm_put k r (pm_by_disco m))\<rparr>)
      | None \<Rightarrow>
            let r = length (pm_heap m0) in
            (dp \<noteq> None, (set_path r p m0)\<lparr>pm_peers := gm_put ip r (pm_peers m0),
               pm_by_disco := (case dp of None \<Rightarrow> pm_by_disco m0 | Some k \<Rightarrow> gm_put k r (pm_by_disco m0))\<rparr>))"

definition remove_peer :: "addr \<Rightarrow> path_mgr \<Rightarrow> path_mgr" where
  "remove_peer ip m = (case path_of m ip of None \<Rightarrow> m | Some (r, p) \<Rightarrow> drop_path r p m)"

section \<open>The timer\<close>

type_synonym randoms = "path_ref \<Rightarrow> addr_port \<Rightarrow> txid \<times> bytes"
type_synonym out_pkt = "addr_port \<times> bytes"

text \<open>One ping: the packet, and the probe that waits for its answer.\<close>

definition ping :: "box \<Rightarrow> disco_key \<Rightarrow> time \<Rightarrow> randoms \<Rightarrow> path_ref \<Rightarrow> addr_port \<Rightarrow> peer_path \<times> out_pkt list \<Rightarrow> peer_path \<times> out_pkt list" where
  "ping B self now rnd r to po =
     (case po of (p, out) \<Rightarrow>
        let tx = fst (rnd r to); nonce = snd (rnd r to) in
        (p\<lparr>pp_pending := gm_put tx \<lparr>pr_addr = to, pr_sent = now\<rparr> (pp_pending p)\<rparr>,
         out @ [(to, seal_disco B self (pp_shared p) nonce \<lparr>dm_kind = discoPing, dm_ts = now, dm_tx = tx, dm_seen = (NoAddr, 0)\<rparr>)]))"

text \<open>What expires: probes without answer, and verified addresses that are not the direct one.\<close>

definition stale_addrs :: "time \<Rightarrow> peer_path \<Rightarrow> addr_port list" where
  "stale_addrs now p = map fst (filter (\<lambda>(a, t). now - t > verifiedTTL \<and> a \<noteq> pp_direct p) (pp_verified p))"

definition expire :: "time \<Rightarrow> peer_path \<Rightarrow> peer_path" where
  "expire now p =
     p\<lparr>pp_pending := filter (\<lambda>(tx, pr). \<not> now - pr_sent pr > pendingTTL) (pp_pending p),
       pp_verified := filter (\<lambda>(a, t). \<not> (now - t > verifiedTTL \<and> a \<noteq> pp_direct p)) (pp_verified p)\<rparr>"

definition timed_out :: "time \<Rightarrow> peer_path \<Rightarrow> bool" where
  "timed_out now p \<longleftrightarrow> pp_direct_ok p \<and> passed now (pp_last_alive p) directTimeout"

definition fall_back :: "time \<Rightarrow> peer_path \<Rightarrow> peer_path" where
  "fall_back now p =
     (if timed_out now p then
        p\<lparr>pp_direct_ok := False, pp_rtt := 0, pp_probe_until := Some now, pp_retry_at := None, pp_retry_wait := retryMin, pp_ask := True\<rparr>
      else p)"

definition probe_round :: "box \<Rightarrow> disco_key \<Rightarrow> time \<Rightarrow> randoms \<Rightarrow> path_ref \<Rightarrow> peer_path \<times> out_pkt list \<Rightarrow> peer_path \<times> out_pkt list" where
  "probe_round B self now rnd r po =
     (case po of (p, out) \<Rightarrow>
        if before now (pp_probe_until p) \<and> \<not> before now (pp_next_probe p) then
          (case fold (ping B self now rnd r) (pp_cands p) (p, out) of
             (p1, out1) \<Rightarrow> (p1\<lparr>pp_next_probe := Some (now + probeInterval), pp_last_ping := Some now\<rparr>, out1))
        else (p, out))"

definition keep_alive :: "box \<Rightarrow> disco_key \<Rightarrow> time \<Rightarrow> randoms \<Rightarrow> path_ref \<Rightarrow> peer_path \<times> out_pkt list \<Rightarrow> peer_path \<times> out_pkt list" where
  "keep_alive B self now rnd r po =
     (case po of (p, out) \<Rightarrow>
        if pp_direct_ok p \<and> passed_eq now (pp_last_alive p) keepalive \<and> passed_eq now (pp_last_ping p) pingRetry then
          (case ping B self now rnd r (pp_direct p) (p, out) of (p1, out1) \<Rightarrow> (p1\<lparr>pp_last_ping := Some now\<rparr>, out1))
        else (p, out))"

definition retry :: "time \<Rightarrow> peer_path \<Rightarrow> peer_path" where
  "retry now p =
     (case pp_probe_until p of
        None \<Rightarrow> p
      | Some u \<Rightarrow>
          if pp_direct_ok p \<or> now < u then p
          else
            let at = (case pp_retry_at p of None \<Rightarrow> u + pp_retry_wait p | Some x \<Rightarrow> x) in
            if now < at then p\<lparr>pp_retry_at := Some at\<rparr>
            else p\<lparr>pp_ask := True, pp_probe_until := Some (now + probeWindow), pp_next_probe := Some now, pp_retry_at := None,
                   pp_retry_wait := (if pp_retry_wait p * 2 > retryMax then retryMax else pp_retry_wait p * 2)\<rparr>)"

text \<open>One peer in \<open>step\<close>: the packets, the request to the server, whether the path changed.\<close>

record step_out =
  so_pkts :: "out_pkt list"
  so_reqs :: "string list"
  so_changed :: bool

definition peer_round :: "box \<Rightarrow> disco_key \<Rightarrow> time \<Rightarrow> randoms \<Rightarrow> path_ref \<Rightarrow> peer_path \<Rightarrow> peer_path \<times> out_pkt list" where
  "peer_round B self now rnd r p =
     (case keep_alive B self now rnd r (probe_round B self now rnd r (fall_back now (expire now p), [])) of
        (p1, out) \<Rightarrow> (retry now p1, out))"

definition peer_step :: "box \<Rightarrow> time \<Rightarrow> randoms \<Rightarrow> path_ref \<Rightarrow> step_out \<times> path_mgr \<Rightarrow> step_out \<times> path_mgr" where
  "peer_step B now rnd r om =
     (case om of (o1, m) \<Rightarrow>
        (case map_of (pm_heap m) r of
           None \<Rightarrow> (o1, m)
         | Some p \<Rightarrow>
             if \<not> pp_has_disco p then (o1, m)
             else
               (case peer_round B (pm_self m) now rnd r p of
                  (p1, out) \<Rightarrow>
                    (\<lparr>so_pkts = so_pkts o1 @ out, so_reqs = so_reqs o1 @ (if pp_ask p1 then [pp_wg p1] else []),
                      so_changed = (so_changed o1 \<or> timed_out now p)\<rparr>,
                     (set_path r (p1\<lparr>pp_ask := False\<rparr>) m)
                       \<lparr>pm_by_addr := fold (delete_if r) (stale_addrs now p) (pm_by_addr m)\<rparr>))))"

definition path_step :: "box \<Rightarrow> time \<Rightarrow> randoms \<Rightarrow> path_mgr \<Rightarrow> step_out \<times> path_mgr" where
  "path_step B now rnd m =
     fold (peer_step B now rnd) (map snd (pm_peers m)) (\<lparr>so_pkts = [], so_reqs = [], so_changed = False\<rparr>, m)"

section \<open>Messages\<close>

definition add_cand :: "bool \<Rightarrow> addr_port \<Rightarrow> peer_path \<Rightarrow> peer_path" where
  "add_cand lb ap p =
     (if accept_candidate lb ap \<and> ap \<notin> set (pp_cands p) \<and> length (pp_cands p) < maxCands
      then p\<lparr>pp_cands := pp_cands p @ [ap]\<rparr> else p)"

text \<open>The loop of \<open>punch\<close> over the texts; a full list ends it, and \<open>add_cand\<close> adds nothing to a full list.\<close>

definition punch_cand :: "bool \<Rightarrow> string \<Rightarrow> peer_path \<Rightarrow> peer_path" where
  "punch_cand lb s p = (case parse_addr_port s of None \<Rightarrow> p | Some (a, port) \<Rightarrow> add_cand lb (unmap a, port) p)"

definition path_with_key :: "string \<Rightarrow> path_mgr \<Rightarrow> (path_ref \<times> peer_path) option" where
  "path_with_key wg m =
     find (\<lambda>(r, p). pp_wg p = wg) (List.map_filter (\<lambda>(ip, r). map_option (Pair r) (map_of (pm_heap m) r)) (pm_peers m))"

definition receive_punch :: "box \<Rightarrow> time \<Rightarrow> randoms \<Rightarrow> string \<Rightarrow> string list \<Rightarrow> path_mgr \<Rightarrow> step_out \<times> path_mgr" where
  "receive_punch B now rnd wg eps m =
     (case path_with_key wg m of
        None \<Rightarrow> (\<lparr>so_pkts = [], so_reqs = [], so_changed = False\<rparr>, m)
      | Some (r, p) \<Rightarrow>
          if \<not> pp_has_disco p then (\<lparr>so_pkts = [], so_reqs = [], so_changed = False\<rparr>, m)
          else
            path_step B now rnd
              (set_path r ((fold (punch_cand (pm_loopback m)) eps p)
                 \<lparr>pp_probe_until := Some (now + probeWindow), pp_next_probe := Some now, pp_retry_wait := retryMin, pp_retry_at := None\<rparr>) m))"

text \<open>\<open>verifyLocked\<close>.\<close>

definition oldest_verified :: "(addr_port, time) gomap \<Rightarrow> addr_port" where
  "oldest_verified v = (case fold (\<lambda>(k, t) acc. case acc of None \<Rightarrow> Some (k, t) | Some (k', t') \<Rightarrow> if t < t' then Some (k, t) else acc) v None of
     None \<Rightarrow> (NoAddr, 0) | Some (k, t) \<Rightarrow> k)"

definition take_from_old :: "path_ref \<Rightarrow> addr_port \<Rightarrow> path_mgr \<Rightarrow> path_mgr" where
  "take_from_old r a m =
     (case map_of (pm_by_addr m) a of
        None \<Rightarrow> m
      | Some r' \<Rightarrow>
          if r' = r then m
          else (case map_of (pm_heap m) r' of None \<Rightarrow> m | Some q \<Rightarrow> set_path r' (q\<lparr>pp_verified := gm_del a (pp_verified q)\<rparr>) m))"

definition make_room :: "path_ref \<Rightarrow> path_mgr \<Rightarrow> path_mgr" where
  "make_room r m =
     (case map_of (pm_heap m) r of
        None \<Rightarrow> m
      | Some p \<Rightarrow>
          if length (pp_verified p) \<ge> 16 then
            let x = oldest_verified (pp_verified p) in
            (set_path r (p\<lparr>pp_verified := gm_del x (pp_verified p)\<rparr>) m)\<lparr>pm_by_addr := delete_if r x (pm_by_addr m)\<rparr>
          else m)"

definition verify :: "path_ref \<Rightarrow> addr_port \<Rightarrow> time \<Rightarrow> path_mgr \<Rightarrow> path_mgr" where
  "verify r a now m0 =
     (let m = make_room r (take_from_old r a m0) in
      case map_of (pm_heap m) r of
        None \<Rightarrow> m
      | Some p \<Rightarrow> (set_path r (p\<lparr>pp_verified := gm_put a now (pp_verified p)\<rparr>) m)\<lparr>pm_by_addr := gm_put a r (pm_by_addr m)\<rparr>)"
text \<open>\<open>handleDisco\<close>, once the packet is opened and accepted: what a ping and a pong do. The first component is the reply and
  whether the timer runs at once, and whether the path changed.\<close>

record disco_out =
  do_reply :: "out_pkt list"
  do_ping_now :: bool
  do_changed :: bool

definition on_ping :: "box \<Rightarrow> time \<Rightarrow> bytes \<Rightarrow> path_ref \<Rightarrow> addr_port \<Rightarrow> disco_msg \<Rightarrow> path_mgr \<Rightarrow> disco_out \<times> path_mgr" where
  "on_ping B now nonce r src msg m0 =
     (let m = verify r src now m0 in
      case map_of (pm_heap m) r of
        None \<Rightarrow> (\<lparr>do_reply = [], do_ping_now = False, do_changed = False\<rparr>, m)
      | Some p \<Rightarrow>
          let p1 = add_cand (pm_loopback m) src p;
              again = (\<not> pp_direct_ok p1 \<and> passed now (pp_probe_until p1) 0);
              p2 = (if again then p1\<lparr>pp_probe_until := Some (now + probeWindow), pp_next_probe := Some now\<rparr> else p1) in
          (\<lparr>do_reply = [(src, seal_disco B (pm_self m) (pp_shared p2) nonce
              \<lparr>dm_kind = discoPong, dm_ts = now, dm_tx = dm_tx msg, dm_seen = src\<rparr>)], do_ping_now = again, do_changed = False\<rparr>,
           set_path r p2 m))"

text \<open>The comparison of the round-trip times with the factor 0.75 is exact on durations below 2^51 nanoseconds.\<close>

definition clearly_faster :: "duration \<Rightarrow> duration \<Rightarrow> bool" where
  "clearly_faster rtt old \<longleftrightarrow> 4 * rtt < 3 * old \<and> old - rtt > 2 * Millisecond"

definition on_pong :: "time \<Rightarrow> path_ref \<Rightarrow> addr_port \<Rightarrow> disco_msg \<Rightarrow> path_mgr \<Rightarrow> disco_out \<times> path_mgr" where
  "on_pong now r src msg m0 =
     (case map_of (pm_heap m0) r of
        None \<Rightarrow> (\<lparr>do_reply = [], do_ping_now = False, do_changed = False\<rparr>, m0)
      | Some p0 \<Rightarrow>
          (case map_of (pp_pending p0) (dm_tx msg) of
             None \<Rightarrow> (\<lparr>do_reply = [], do_ping_now = False, do_changed = False\<rparr>, m0)
           | Some pr \<Rightarrow>
               let m = verify r src now (set_path r (p0\<lparr>pp_pending := gm_del (dm_tx msg) (pp_pending p0)\<rparr>) m0);
                   rtt = now - pr_sent pr in
               (case map_of (pm_heap m) r of
                  None \<Rightarrow> (\<lparr>do_reply = [], do_ping_now = False, do_changed = False\<rparr>, m)
                | Some p \<Rightarrow>
                    let chg = (if \<not> pp_direct_ok p then True else if src = pp_direct p then False else clearly_faster rtt (pp_rtt p));
                        p1 = (if \<not> pp_direct_ok p then p\<lparr>pp_direct := src, pp_direct_ok := True, pp_rtt := rtt, pp_last_alive := Some now,
                                pp_retry_wait := retryMin, pp_retry_at := None\<rparr>
                              else if src = pp_direct p then p\<lparr>pp_rtt := rtt, pp_last_alive := Some now\<rparr>
                              else if clearly_faster rtt (pp_rtt p) then p\<lparr>pp_last_alive := Some now, pp_direct := src, pp_rtt := rtt\<rparr>
                              else p\<lparr>pp_last_alive := Some now\<rparr>) in
                    (\<lparr>do_reply = [], do_ping_now = False, do_changed = chg\<rparr>, set_path r p1 m))))"

definition no_disco_out :: disco_out where
  "no_disco_out = \<lparr>do_reply = [], do_ping_now = False, do_changed = False\<rparr>"

text \<open>The packet before that: the sender, the seal, the time stamp and the nonce.\<close>

definition handle_disco ::
  "box \<Rightarrow> time \<Rightarrow> bytes \<Rightarrow> bytes \<Rightarrow> addr_port \<Rightarrow> path_mgr \<Rightarrow> disco_out \<times> path_mgr" where
  "handle_disco B now nonce pkt src0 m =
     (if \<not> is_disco pkt then (no_disco_out, m)
      else
        let src = (unmap (fst src0), snd src0) in
        (case Option.bind (map_of (pm_by_disco m) (disco_sender pkt)) (\<lambda>r. map_option (Pair r) (map_of (pm_heap m) r)) of
           None \<Rightarrow> (no_disco_out, m)
         | Some (r, p) \<Rightarrow>
             (case open_disco B (pp_shared p) pkt of
                None \<Rightarrow> (no_disco_out, m)
              | Some msg \<Rightarrow>
                  if \<not> fresh now msg then (no_disco_out, m)
                  else
                    (case replay_check (disco_nonce pkt) now (pm_replay m) of
                       (ok, rc) \<Rightarrow>
                         let m1 = m\<lparr>pm_replay := rc\<rparr> in
                         if \<not> ok then (no_disco_out, m1)
                         else if dm_kind msg = discoPing then on_ping B now nonce r src msg m1
                         else if dm_kind msg = discoPong then on_pong now r src msg m1
                         else (no_disco_out, m1)))))"

text \<open>The whole handler: the timer runs when the ping asks for it.\<close>

definition receive_disco ::
  "box \<Rightarrow> time \<Rightarrow> bytes \<Rightarrow> randoms \<Rightarrow> bytes \<Rightarrow> addr_port \<Rightarrow> path_mgr \<Rightarrow> out_pkt list \<times> step_out \<times> path_mgr" where
  "receive_disco B now nonce rnd pkt src m =
     (case handle_disco B now nonce pkt src m of
        (d, m1) \<Rightarrow>
          if do_ping_now d then (case path_step B now rnd m1 of (o1, m2) \<Rightarrow> (do_reply d, o1, m2))
          else (do_reply d, \<lparr>so_pkts = [], so_reqs = [], so_changed = do_changed d\<rparr>, m1))"

section \<open>Use of the paths\<close>

definition route :: "time \<Rightarrow> addr \<Rightarrow> path_mgr \<Rightarrow> addr_port option" where
  "route now ip m =
     (case path_of m ip of
        None \<Rightarrow> None
      | Some (r, p) \<Rightarrow> if \<not> pp_direct_ok p \<or> passed now (pp_last_alive p) directTimeout then None else Some (pp_direct p))"

definition lookup_src :: "addr_port \<Rightarrow> path_mgr \<Rightarrow> addr option" where
  "lookup_src src m =
     Option.bind (map_of (pm_by_addr m) (unmap (fst src), snd src)) (\<lambda>r. map_option pp_ip (map_of (pm_heap m) r))"

definition fail_direct :: "time \<Rightarrow> addr \<Rightarrow> path_mgr \<Rightarrow> path_mgr" where
  "fail_direct now ip m =
     (case path_of m ip of
        None \<Rightarrow> m
      | Some (r, p) \<Rightarrow>
          if pp_direct_ok p
          then set_path r (p\<lparr>pp_direct_ok := False, pp_probe_until := Some now, pp_retry_at := None, pp_ask := True\<rparr>) m
          else m)"

text \<open>What a datagram on the socket leads to (\<open>readLoop\<close> of \<open>direct.go\<close>): STUN goes to the waiting query, a probe to
  the handler, anything else to WireGuard if its source is known.\<close>

datatype udp_in = UStun txid | UDisco | UWireguard addr bytes | UDropped

definition receive_udp :: "bytes \<Rightarrow> addr_port \<Rightarrow> path_mgr \<Rightarrow> udp_in" where
  "receive_udp pkt src m =
     (case classify pkt of
        KStun \<Rightarrow> UStun (tx_of pkt)
      | KDisco \<Rightarrow> UDisco
      | KOther \<Rightarrow> (case lookup_src src m of Some ip \<Rightarrow> UWireguard ip pkt | None \<Rightarrow> UDropped))"

text \<open>\<open>Send\<close> of \<open>bind.go\<close> for one packet: the direct path if there is one and the socket takes the packet, and the relay frame
  otherwise. \<open>sent\<close> is the answer of the socket; \<open>None\<close> means the packet is too large for a frame.\<close>

datatype wg_out = ViaDirect addr_port bytes | ViaRelay bytes | TooLarge

definition frameBuf :: nat where "frameBuf = 2048"

definition bind_send :: "time \<Rightarrow> (addr_port \<Rightarrow> bool) \<Rightarrow> addr \<Rightarrow> u32 \<Rightarrow> bytes \<Rightarrow> path_mgr \<Rightarrow> wg_out \<times> u32 \<times> path_mgr" where
  "bind_send now sent ip sq p m =
     (let relay = (\<lambda>m'. if length p + HeaderSize > frameBuf then (TooLarge, sq, m')
           else (ViaRelay (encode_frame \<lparr>bf_type = FrameWG, bf_req = ip_to_relay_id ip, bf_seq = sq + 1, bf_eof = False, bf_payload = p\<rparr>),
             sq + 1, m')) in
      case route now ip m of
        Some a \<Rightarrow> if sent a then (ViaDirect a p, sq, m) else relay (fail_direct now ip m)
      | None \<Rightarrow> relay m)"

end
