(* ===== verification/Dns_Virt.thy ===== *)
theory Dns_Virt
  imports Net_State Access_Log
begin

text \<open>
  The virtual DNS of a Mod B node (\<open>client/wgnet/dnsvirt.go\<close>): the name table made from the network
  map, the answer to one query, and the stateless TCP exchange with its cookie sequence number.
  The DNS message format is the package \<open>dnsmessage\<close>, which is not part of the repository:
  \<open>dns_lib\<close> holds its parser and builder, and SHA-256, as parameters.
\<close>

section \<open>Names\<close>

definition is_dot :: "char \<Rightarrow> bool" where
  "is_dot c \<longleftrightarrow> c = CHR ''.''"

definition trim_dots :: "string \<Rightarrow> string" where
  "trim_dots s = trim_right is_dot (trim_left is_dot s)"

definition dns_label :: "string \<Rightarrow> string" where
  "dns_label s = to_lower (trim_dots s)"

definition dotted :: "string \<Rightarrow> string \<Rightarrow> string" where
  "dotted a b = a @ CHR ''.'' # b"

text \<open>The closure \<open>add\<close>: the names of this node and of each peer.\<close>

definition dns_add :: "string \<Rightarrow> string \<Rightarrow> string \<times> string \<Rightarrow> (string, addr) gomap \<Rightarrow> (string, addr) gomap" where
  "dns_add zone suffix x out =
     (case x of (name0, ip) \<Rightarrow>
        let name = dns_label name0 in
        case parse_addr ip of
          None \<Rightarrow> out
        | Some a \<Rightarrow>
            if name = [] \<or> \<not> is4 a \<or> list_ex (\<lambda>c. c = CHR ''.'' \<or> c = CHR '' '') name then out
            else
              let out1 = gm_put (dotted name zone) a out in
              if suffix \<noteq> [] then gm_put (dotted name (dotted suffix zone)) a out1 else out1)"

definition put_free :: "string \<Rightarrow> addr \<Rightarrow> (string, addr) gomap \<Rightarrow> (string, addr) gomap" where
  "put_free name a out = (if map_of out name = None then gm_put name a out else out)"

definition dns_add_record :: "string \<Rightarrow> string \<Rightarrow> net_dns_record \<Rightarrow> (string, addr) gomap \<Rightarrow> (string, addr) gomap" where
  "dns_add_record zone suffix r out =
     (let name = dns_label (dr_name r) in
      case parse_addr (dr_ip r) of
        None \<Rightarrow> out
      | Some a \<Rightarrow>
          if name = [] \<or> list_ex (\<lambda>c. c = CHR '' '' \<or> c = CHR 0x09) name \<or> \<not> is4 a \<or> length name > 200 then out
          else
            let out1 = put_free (dotted name zone) a out in
            if suffix \<noteq> [] then put_free (dotted name (dotted suffix zone)) a out1 else out1)"

text \<open>The device names of a map: this node first, then its peers.\<close>

definition device_names :: "net_state \<Rightarrow> (string \<times> string) list" where
  "device_names st = (np_name (ns_self st), np_ip (ns_self st))
     # map (\<lambda>(k, p). (np_name p, np_ip p)) (ns_peers st)"

definition dns_names :: "net_state option \<Rightarrow> (string, addr) gomap" where
  "dns_names st0 =
     (case st0 of
        None \<Rightarrow> []
      | Some st \<Rightarrow>
          (case ns_dns st of
             None \<Rightarrow> []
           | Some d \<Rightarrow>
               let zone = dns_label (nd_zone d); suffix = dns_label (nd_suffix d) in
               if zone = [] then []
               else fold (dns_add_record zone suffix) (nd_records d)
                      (fold (dns_add zone suffix) (device_names st) [])))"

section \<open>Answering a query\<close>

datatype dns_class = ClassINET | ClassANY | OtherClass nat
datatype dns_type = TypeA | TypeALL | OtherType nat
datatype rcode = RCodeSuccess | RCodeNameError | RCodeNotImplemented | RCodeRefused

record dns_header =
  dh_id :: u16
  dh_response :: bool
  dh_rd :: bool

record dns_question =
  dq_name :: string
  dq_type :: dns_type
  dq_class :: dns_class

record dns_reply =
  rp_id :: u16
  rp_authoritative :: bool
  rp_rd :: bool
  rp_rcode :: rcode
  rp_question :: dns_question
  rp_answer :: "(u32 \<times> nat) option"

text \<open>The package \<open>dnsmessage\<close> (\<open>Parser.Start\<close>, \<open>Parser.AllQuestions\<close>, the calls on \<open>Builder\<close> up to
  \<open>Finish\<close>, each with its error as \<open>None\<close>) and \<open>sha256.Sum\<close>.\<close>

record dns_lib =
  dl_start :: "bytes \<Rightarrow> dns_header option"
  dl_questions :: "bytes \<Rightarrow> dns_question list option"
  dl_build :: "dns_reply \<Rightarrow> bytes option"
  dl_sha256 :: "bytes \<Rightarrow> bytes"

definition dnsTTL :: nat where "dnsTTL = 30"

record vdns =
  vd_resolver :: addr
  vd_zone :: string
  vd_names :: "(string, addr) gomap"
  vd_secret :: bytes

definition new_vdns :: "bytes \<Rightarrow> addr \<Rightarrow> string \<Rightarrow> vdns" where
  "new_vdns secret resolver zone =
     \<lparr>vd_resolver = resolver, vd_zone = dns_label zone, vd_names = [], vd_secret = secret\<rparr>"

definition set_names :: "(string, addr) gomap \<Rightarrow> vdns \<Rightarrow> vdns" where
  "set_names m d = d\<lparr>vd_names := m\<rparr>"

definition in_zone :: "vdns \<Rightarrow> string \<Rightarrow> bool" where
  "in_zone d name \<longleftrightarrow> name = vd_zone d \<or> has_suffix name (CHR ''.'' # vd_zone d)"

definition dns_decide :: "vdns \<Rightarrow> dns_question \<Rightarrow> rcode \<times> addr option" where
  "dns_decide d q =
     (let name = to_lower (trim_suffix (dq_name q) ''.'') in
      if dq_class q \<noteq> ClassINET \<and> dq_class q \<noteq> ClassANY then (RCodeNotImplemented, None)
      else if \<not> in_zone d name then (RCodeRefused, None)
      else case map_of (vd_names d) name of
          Some a \<Rightarrow> (RCodeSuccess, if dq_type q = TypeA \<or> dq_type q = TypeALL then Some a else None)
        | None \<Rightarrow> (RCodeNameError, None))"

definition answer :: "dns_lib \<Rightarrow> vdns \<Rightarrow> bytes \<Rightarrow> bytes option" where
  "answer L d query =
     (case dl_start L query of
        None \<Rightarrow> None
      | Some h \<Rightarrow>
          if dh_response h then None
          else (case dl_questions L query of
                  Some [q] \<Rightarrow>
                    (case dns_decide d q of
                       (rc, ans) \<Rightarrow>
                         dl_build L \<lparr>rp_id = dh_id h,
                           rp_authoritative = in_zone d (to_lower (trim_suffix (dq_name q) ''.'')),
                           rp_rd = dh_rd h, rp_rcode = rc, rp_question = q,
                           rp_answer = map_option (\<lambda>a. (as4 a, dnsTTL)) ans\<rparr>)
                | _ \<Rightarrow> None))"

section \<open>Packets to the resolver\<close>

definition dns_isn :: "dns_lib \<Rightarrow> vdns \<Rightarrow> pkt_info \<Rightarrow> u32 \<Rightarrow> u32" where
  "dns_isn L d p client_isn =
     be_get (take 4 (dl_sha256 L (vd_secret d @ be_put 4 (as4 (pk_src p))
       @ be_put 2 (pk_sport p) @ be_put 2 (pk_dport p) @ be_put 4 client_isn)))"

definition tcp_reply :: "vdns \<Rightarrow> pkt_info \<Rightarrow> nat \<Rightarrow> u32 \<Rightarrow> u32 \<Rightarrow> byte \<Rightarrow> bytes \<Rightarrow> bytes list" where
  "tcp_reply d p lead sq ak flags payload =
     [build_tcp lead (as4 (vd_resolver d)) (as4 (pk_src p)) 53 (pk_sport p) sq ak flags payload]"

definition handle_tcp :: "dns_lib \<Rightarrow> vdns \<Rightarrow> pkt_info \<Rightarrow> nat \<Rightarrow> bytes list" where
  "handle_tcp L d p lead =
     (if pk_flags p AND tcpRST \<noteq> 0 then []
      else if pk_flags p AND tcpSYN \<noteq> 0 \<and> pk_flags p AND tcpACK = 0 then
        tcp_reply d p lead (dns_isn L d p (pk_seq p)) (pk_seq p + 1) (tcpSYN OR tcpACK) []
      else if length (pk_payload p) \<ge> 2 then
        (let isn = dns_isn L d p (pk_seq p - 1) in
         if pk_ack p \<noteq> isn + 1 then []
         else let n = unat (be_get (slice 0 2 (pk_payload p)) :: u16) in
           if n = 0 \<or> length (pk_payload p) < 2 + n then []
           else (case answer L d (slice 2 (2 + n) (pk_payload p)) of
                   None \<Rightarrow> []
                 | Some resp \<Rightarrow>
                     tcp_reply d p lead (isn + 1) (pk_seq p + of_nat (length (pk_payload p)))
                       (tcpPSH OR tcpACK OR tcpFIN) (be_put 2 (of_nat (length resp) :: u16) @ resp)))
      else if pk_flags p AND tcpFIN \<noteq> 0 then
        tcp_reply d p lead (pk_ack p) (pk_seq p + 1) tcpACK []
      else [])"

definition dns_handle :: "dns_lib \<Rightarrow> vdns \<Rightarrow> pkt_info \<Rightarrow> nat \<Rightarrow> bytes list" where
  "dns_handle L d p lead =
     (if pk_dport p \<noteq> 53 then []
      else if pk_proto p = protoUDP then
        (case answer L d (pk_payload p) of
           Some resp \<Rightarrow> [build_udp lead (as4 (vd_resolver d)) (as4 (pk_src p)) 53 (pk_sport p) resp]
         | None \<Rightarrow> [])
      else if pk_proto p = protoTCP then handle_tcp L d p lead
      else [])"

section \<open>The name table\<close>

lemma put_free_keeps: "map_of out n = Some b \<Longrightarrow> map_of (put_free k a out) n = Some b"
  by (auto simp: put_free_def)

lemma dns_add_record_keeps:
  "map_of out n = Some b \<Longrightarrow> map_of (dns_add_record zone suffix r out) n = Some b"
  by (auto simp: dns_add_record_def Let_def put_free_keeps split: option.split)

lemma dns_records_keep:
  "map_of out n = Some b \<Longrightarrow> map_of (fold (dns_add_record zone suffix) rs out) n = Some b"
  by (induction rs arbitrary: out) (simp_all add: dns_add_record_keeps)

text \<open>What every entry satisfies.\<close>

definition names_ok :: "string \<Rightarrow> (string, addr) gomap \<Rightarrow> bool" where
  "names_ok zone m \<longleftrightarrow> (\<forall>n a. map_of m n = Some a \<longrightarrow> is4 a \<and> has_suffix n (CHR ''.'' # zone) \<and> to_lower n = n)"

lemma lower_label [simp]: "to_lower (dns_label s) = dns_label s"
  by (simp add: dns_label_def)

lemma dotted_suffix: "has_suffix (dotted a b) (CHR ''.'' # b)"
  by (simp add: has_suffix_iff dotted_def)

lemma dotted_dotted_suffix: "has_suffix (dotted a (dotted s b)) (CHR ''.'' # b)"
proof -
  have "dotted a (dotted s b) = (a @ CHR ''.'' # s) @ CHR ''.'' # b" by (simp add: dotted_def)
  then show ?thesis unfolding has_suffix_iff by blast
qed

lemma lower_dotted: "to_lower a = a \<Longrightarrow> to_lower b = b \<Longrightarrow> to_lower (dotted a b) = dotted a b"
  by (simp add: dotted_def to_lower_def lower_char_def code_of_def)

lemmas dotted_simps = dotted_suffix dotted_dotted_suffix lower_dotted

lemma names_ok_put: "names_ok zone m \<Longrightarrow> is4 a \<Longrightarrow> has_suffix n (CHR ''.'' # zone) \<Longrightarrow> to_lower n = n \<Longrightarrow>
    names_ok zone (gm_put n a m)"
  by (simp add: names_ok_def)

lemma names_ok_put_free: "names_ok zone m \<Longrightarrow> is4 a \<Longrightarrow> has_suffix n (CHR ''.'' # zone) \<Longrightarrow> to_lower n = n \<Longrightarrow>
    names_ok zone (put_free n a m)"
  by (simp add: put_free_def names_ok_put)

lemma dns_add_ok:
  assumes "names_ok zone m" and "to_lower zone = zone" and "to_lower suffix = suffix"
  shows "names_ok zone (dns_add zone suffix x m)" and "names_ok zone (dns_add_record zone suffix r m)"
  using assms
  by (auto simp: dns_add_def dns_add_record_def Let_def dotted_simps names_ok_put names_ok_put_free
      split: prod.split option.split)

lemma fold_names_ok:
  assumes "names_ok zone m" and "to_lower zone = zone" and "to_lower suffix = suffix"
  shows "names_ok zone (fold (dns_add zone suffix) xs m)" and "names_ok zone (fold (dns_add_record zone suffix) rs m)"
  using assms by (induction xs arbitrary: m) (simp_all add: dns_add_ok fold_invariant [where Q = "\<lambda>_. True" and P = "names_ok zone"])

lemma dns_names_ok:
  assumes "ns_dns st = Some d"
  shows "names_ok (dns_label (nd_zone d)) (dns_names (Some st))"
proof -
  have "names_ok z []" for z by (simp add: names_ok_def)
  then show ?thesis by (simp add: dns_names_def assms Let_def fold_names_ok)
qed

definition listed_ip :: "net_state \<Rightarrow> net_dns \<Rightarrow> addr \<Rightarrow> bool" where
  "listed_ip st d a \<longleftrightarrow> (\<exists>ip\<in>snd ` set (device_names st) \<union> dr_ip ` set (nd_records d). parse_addr ip = Some a)"

lemma dns_add_origin:
  "map_of (dns_add zone suffix x m) n = Some a \<Longrightarrow> map_of m n = Some a \<or> parse_addr (snd x) = Some a"
  by (auto simp: dns_add_def Let_def split: prod.splits option.splits if_splits)

lemma dns_add_record_origin:
  "map_of (dns_add_record zone suffix r m) n = Some a \<Longrightarrow> map_of m n = Some a \<or> parse_addr (dr_ip r) = Some a"
  by (auto simp: dns_add_record_def put_free_def Let_def split: option.splits if_splits)

lemma fold_dns_add_origin:
  "map_of (fold (dns_add zone suffix) xs m) n = Some a \<Longrightarrow> map_of m n = Some a \<or> (\<exists>x\<in>set xs. parse_addr (snd x) = Some a)"
  by (induction xs arbitrary: m) (use dns_add_origin in fastforce)+

lemma fold_dns_record_origin:
  "map_of (fold (dns_add_record zone suffix) rs m) n = Some a \<Longrightarrow> map_of m n = Some a \<or> (\<exists>r\<in>set rs. parse_addr (dr_ip r) = Some a)"
  by (induction rs arbitrary: m) (use dns_add_record_origin in fastforce)+

section \<open>Properties\<close>

text \<open>The name table of the virtual DNS: every name is lower case and inside the zone, every
  address is the IPv4 address the network map lists for a device or a record, and a record never
  takes a name a device has.\<close>

lemma dns_table_correct:
  assumes "ns_dns st = Some d" and "dns_label (nd_zone d) \<noteq> []"
  shows "(\<forall>n a. map_of (dns_names (Some st)) n = Some a \<longrightarrow>
        is4 a \<and> to_lower n = n \<and> has_suffix n (CHR ''.'' # dns_label (nd_zone d)) \<and> listed_ip st d a)
    \<and> (\<forall>n a. map_of (dns_names (Some (st\<lparr>ns_dns := Some (d\<lparr>nd_records := []\<rparr>)\<rparr>))) n = Some a \<longrightarrow>
        map_of (dns_names (Some st)) n = Some a)"
proof -
  let ?z = "dns_label (nd_zone d)" and ?s = "dns_label (nd_suffix d)"
  let ?dev = "fold (dns_add ?z ?s) (device_names st) []"
  have names: "dns_names (Some st) = fold (dns_add_record ?z ?s) (nd_records d) ?dev"
    and only: "dns_names (Some (st\<lparr>ns_dns := Some (d\<lparr>nd_records := []\<rparr>)\<rparr>)) = ?dev"
    using assms by (simp_all add: dns_names_def Let_def device_names_def)
  have "listed_ip st d a" if "map_of (dns_names (Some st)) n = Some a" for n a
    using fold_dns_record_origin [OF that [unfolded names]] fold_dns_add_origin [of ?z ?s "device_names st" "[]" n a]
    by (auto simp: listed_ip_def)
  then show ?thesis
    using dns_names_ok [OF assms(1)] dns_records_keep [of ?dev] by (auto simp: names_ok_def names only)
qed

definition example_state :: net_state where
  "example_state = new_net_state\<lparr>ns_self := zero_peer\<lparr>np_name := ''Db'', np_ip := ''10.0.0.1''\<rparr>,
     ns_dns := Some \<lparr>nd_resolver = ''10.0.0.9'', nd_zone = ''z.'', nd_suffix = [],
       nd_records = [\<lparr>dr_name = ''db'', dr_ip = ''10.0.0.2''\<rparr>]\<rparr>\<rparr>"

lemma example_label: "dns_label ''z.'' = ''z''" "dns_label [] = []" "dns_label ''Db'' = ''db''"
  by code_simp+

lemma example_names: "map_of (dns_names (Some (example_state\<lparr>ns_dns := Some
    (\<lparr>nd_resolver = ''10.0.0.9'', nd_zone = ''z.'', nd_suffix = [], nd_records = []\<rparr>)\<rparr>))) ''db.z'' = Some (IP4 0x0a000001)"
  by (simp add: dns_names_def example_state_def new_net_state_def zero_peer_def Let_def device_names_def
      dns_add_def example_label parse_addr_examples dotted_def)

lemma dns_table_correct_witness: "map_of (dns_names (Some example_state)) ''db.z'' = Some (IP4 0x0a000001)"
proof -
  have d: "ns_dns example_state = Some \<lparr>nd_resolver = ''10.0.0.9'', nd_zone = ''z.'', nd_suffix = [],
       nd_records = [\<lparr>dr_name = ''db'', dr_ip = ''10.0.0.2''\<rparr>]\<rparr>"
    by (simp add: example_state_def)
  show ?thesis
    using dns_table_correct [OF d] example_names by (simp add: example_label)
qed

text \<open>What an answer of the virtual DNS says: it echoes the identifier and the question, and it
  carries an address only for a name of the zone that is in the table, with the table's address; an
  unknown name of the zone is a name error and a name outside it is refused.\<close>

lemma dns_answer_correct:
  assumes "answer L d query = Some out"
  shows "\<exists>h q r. dl_start L query = Some h \<and> \<not> dh_response h \<and> dl_questions L query = Some [q]
    \<and> dl_build L r = Some out \<and> rp_id r = dh_id h \<and> rp_question r = q
    \<and> (let name = to_lower (trim_suffix (dq_name q) ''.'') in
        (\<forall>w ttl. rp_answer r = Some (w, ttl) \<longrightarrow>
           in_zone d name \<and> rp_rcode r = RCodeSuccess \<and> ttl = 30 \<and> (\<exists>a. map_of (vd_names d) name = Some a \<and> as4 a = w))
      \<and> (dq_class q = ClassINET \<longrightarrow>
           (rp_rcode r = RCodeRefused \<longleftrightarrow> \<not> in_zone d name)
         \<and> (rp_rcode r = RCodeNameError \<longleftrightarrow> in_zone d name \<and> map_of (vd_names d) name = None)
         \<and> (dq_type q = TypeA \<and> rp_rcode r = RCodeSuccess \<longrightarrow> rp_answer r \<noteq> None)))"
proof -
  obtain h where h: "dl_start L query = Some h" "\<not> dh_response h"
    using assms by (auto simp: answer_def split: option.splits if_splits)
  obtain q where q: "dl_questions L query = Some [q]"
    using assms h by (auto simp: answer_def split: option.splits list.splits)
  obtain rc ans where dec: "dns_decide d q = (rc, ans)" by force
  let ?r = "\<lparr>rp_id = dh_id h, rp_authoritative = in_zone d (to_lower (trim_suffix (dq_name q) ''.'')),
    rp_rd = dh_rd h, rp_rcode = rc, rp_question = q, rp_answer = map_option (\<lambda>a. (as4 a, dnsTTL)) ans\<rparr>"
  have "dl_build L ?r = Some out" using assms h by (simp add: answer_def q dec)
  then show ?thesis
    using h q dec by (intro exI [of _ h] exI [of _ q] exI [of _ ?r])
      (auto simp: dns_decide_def Let_def dnsTTL_def split: if_splits option.splits, metis)
qed

definition tiny_dns :: dns_lib where
  "tiny_dns = \<lparr>dl_start = \<lambda>b. if b = [] then None else Some \<lparr>dh_id = 7, dh_response = False, dh_rd = True\<rparr>,
     dl_questions = \<lambda>b. Some [\<lparr>dq_name = ''a.z.'', dq_type = TypeA, dq_class = ClassINET\<rparr>],
     dl_build = \<lambda>r. Some (case rp_answer r of None \<Rightarrow> [0] | Some (w, t) \<Rightarrow> be_put 4 w),
     dl_sha256 = \<lambda>b. take 32 b\<rparr>"

definition tiny_vdns :: vdns where
  "tiny_vdns = set_names [(''a.z'', IP4 5)] (new_vdns [1, 2, 3, 4] (IP4 9) ''z'')"

lemma tiny_answer: "answer tiny_dns tiny_vdns [1] = Some (be_put 4 (5 :: u32))"
  by (simp add: answer_def tiny_dns_def tiny_vdns_def dns_decide_def in_zone_def set_names_def new_vdns_def
      trim_suffix_def has_suffix_def to_lower_def lower_char_def code_of_def dns_label_def trim_dots_def
      trim_left_def trim_right_def is_dot_def Let_def)

lemma dns_answer_correct_witness: "\<exists>r. dl_build tiny_dns r = Some (be_put 4 (5 :: u32)) \<and> rp_id r = 7"
  using dns_answer_correct [OF tiny_answer] by (auto simp: tiny_dns_def)

text \<open>DNS over TCP without state. The reply to a SYN carries a cookie; a later segment of the same
  flow that acknowledges the cookie and holds a length-prefixed query is answered, in one segment with
  the length-prefixed response that ends the connection; a data segment that acknowledges anything
  else is dropped.\<close>

lemma dns_tcp_stateless:
  assumes "pk_flags syn = tcpSYN" and "pk_flags seg AND (tcpRST OR tcpSYN) = 0"
    and "pk_src seg = pk_src syn \<and> pk_sport seg = pk_sport syn \<and> pk_dport seg = pk_dport syn"
    and "pk_seq seg = pk_seq syn + 1"
    and "pk_payload seg = be_put 2 (of_nat (length query) :: u16) @ query" and "query \<noteq> []" and "length query < 65536"
    and "answer L d query = Some resp"
  shows "\<exists>isn. handle_tcp L d syn lead = tcp_reply d syn lead isn (pk_seq syn + 1) (tcpSYN OR tcpACK) []
    \<and> (pk_ack seg = isn + 1 \<longrightarrow> handle_tcp L d seg lead =
         tcp_reply d syn lead (isn + 1) (pk_seq seg + of_nat (2 + length query)) (tcpPSH OR tcpACK OR tcpFIN)
           (be_put 2 (of_nat (length resp) :: u16) @ resp))
    \<and> (pk_ack seg \<noteq> isn + 1 \<longrightarrow> handle_tcp L d seg lead = [])"
proof -
  define isn where "isn = dns_isn L d syn (pk_seq syn)"
  have same: "dns_isn L d seg (pk_seq seg - 1) = isn"
    using assms(3,4) by (simp add: isn_def dns_isn_def)
  have syn: "handle_tcp L d syn lead = tcp_reply d syn lead isn (pk_seq syn + 1) (tcpSYN OR tcpACK) []"
    using assms(1) by (simp add: handle_tcp_def tcp_flag_consts isn_def)
  have "pk_flags seg AND tcpRST = (pk_flags seg AND (tcpRST OR tcpSYN)) AND tcpRST"
    and "pk_flags seg AND tcpSYN = (pk_flags seg AND (tcpRST OR tcpSYN)) AND tcpSYN"
    by (simp_all add: tcp_flag_consts and.assoc)
  then have fl: "pk_flags seg AND tcpRST = 0" "pk_flags seg AND tcpSYN = 0" using assms(2) by simp_all
  have n: "unat (be_get (slice 0 2 (pk_payload seg)) :: u16) = length query"
    using assms(5,7) by (simp add: slice_prefix unsigned_of_nat take_bit_nat_eq_self)
  have q: "slice 2 (2 + length query) (pk_payload seg) = query"
    by (simp add: assms(5) slice_def)
  have len: "length (pk_payload seg) = 2 + length query" by (simp add: assms(5))
  have reply: "tcp_reply d seg = tcp_reply d syn" using assms(3) by (simp add: tcp_reply_def fun_eq_iff)
  have "handle_tcp L d seg lead =
      (if pk_ack seg \<noteq> isn + 1 then [] else tcp_reply d syn lead (isn + 1) (pk_seq seg + of_nat (2 + length query))
         (tcpPSH OR tcpACK OR tcpFIN) (be_put 2 (of_nat (length resp) :: u16) @ resp))"
    unfolding handle_tcp_def fl same Let_def n q assms(8) reply len using assms(6) by simp
  with syn show ?thesis by auto
qed

lemma dns_tcp_stateless_witness:
  "\<exists>isn. handle_tcp tiny_dns tiny_vdns (empty_pkt\<lparr>pk_flags := tcpSYN, pk_seq := 7\<rparr>) 0 =
     tcp_reply tiny_vdns (empty_pkt\<lparr>pk_flags := tcpSYN, pk_seq := 7\<rparr>) 0 isn 8 (tcpSYN OR tcpACK) []"
  using dns_tcp_stateless [of "empty_pkt\<lparr>pk_flags := tcpSYN, pk_seq := 7\<rparr>"
      "empty_pkt\<lparr>pk_flags := tcpACK, pk_seq := 8, pk_payload := [0, 1, 1]\<rparr>" "[1]" tiny_dns tiny_vdns _ 0]
    tiny_answer by (auto simp: empty_pkt_def tcp_flag_consts be_put2)

end
