(* ===== verification/Flow_Control.thy ===== *)
theory Flow_Control
  imports Agent_Window
begin

text \<open>
  The two halves of the credit scheme together: agent window tables (\<open>client/agent/flowcontrol.go\<close>),
  the frames under way, the session's exchanges and its credit accumulator
  (\<open>server/tunnel/session.go\<close>), and the window updates under way. The steps interleave freely; the
  connection is up, so writes succeed. \<open>fs_seen\<close> counts the session's messages the agent has read.
\<close>

record flow_sys =
  fs_agent :: window_table
  fs_wire :: "body_frame list"
  fs_server :: session
  fs_seen :: nat

inductive flow_step :: "flow_sys \<Rightarrow> flow_sys \<Rightarrow> bool" where
  SendFrame: "acquire_try rid (int (length p)) (fs_agent \<sigma>) = (Acquired, w) \<Longrightarrow> p \<noteq> [] \<Longrightarrow>
    flow_step \<sigma> (\<sigma>\<lparr>fs_agent := w, fs_wire := fs_wire \<sigma> @ [response_frame rid sq False p]\<rparr>)"
| Wait: "acquire_try rid n (fs_agent \<sigma>) = (WaitOn ch, w) \<Longrightarrow> flow_step \<sigma> (\<sigma>\<lparr>fs_agent := w\<rparr>)"
| Deliver: "fs_wire \<sigma> = f # fs \<Longrightarrow> route_response_body pick f (fs_server \<sigma>) = (RouteOk, s) \<Longrightarrow>
    flow_step \<sigma> (\<sigma>\<lparr>fs_wire := fs, fs_server := s\<rparr>)"
| Drain: "session_read True rid n (fs_server \<sigma>) = (r, s) \<Longrightarrow> flow_step \<sigma> (\<sigma>\<lparr>fs_server := s\<rparr>)"
| Credit: "fs_seen \<sigma> < length (s_sent (fs_server \<sigma>)) \<Longrightarrow> s_sent (fs_server \<sigma>) ! fs_seen \<sigma> = OWindowUpdate rid n \<Longrightarrow>
    flow_step \<sigma> (\<sigma>\<lparr>fs_agent := window_add rid n (fs_agent \<sigma>), fs_seen := Suc (fs_seen \<sigma>)\<rparr>)"
| OtherMessage: "fs_seen \<sigma> < length (s_sent (fs_server \<sigma>)) \<Longrightarrow>
    (\<And>rid n. s_sent (fs_server \<sigma>) ! fs_seen \<sigma> \<noteq> OWindowUpdate rid n) \<Longrightarrow>
    flow_step \<sigma> (\<sigma>\<lparr>fs_seen := Suc (fs_seen \<sigma>)\<rparr>)"

inductive_cases flow_stepE: "flow_step \<sigma> \<sigma>'"

text \<open>Requests just opened by a session whose agent supports flow control.\<close>

definition flow_init :: "flow_sys \<Rightarrow> bool" where
  "flow_init \<sigma> \<longleftrightarrow> fs_agent \<sigma> = new_window_table \<and> fs_wire \<sigma> = [] \<and> pending_ok (fs_server \<sigma>) \<and>
     ft_flow (s_features (fs_server \<sigma>)) \<and> s_credit (fs_server \<sigma>) = [] \<and>
     fs_seen \<sigma> = length (s_sent (fs_server \<sigma>)) \<and>
     (\<forall>rid e. map_of (s_pending (fs_server \<sigma>)) rid = Some e \<longrightarrow> e = new_exchange rid)"

inductive flow_reach :: "flow_sys \<Rightarrow> flow_sys \<Rightarrow> bool" for \<sigma>\<^sub>0 where
  start: "flow_reach \<sigma>\<^sub>0 \<sigma>\<^sub>0"
| step: "flow_reach \<sigma>\<^sub>0 \<sigma> \<Longrightarrow> flow_step \<sigma> \<sigma>' \<Longrightarrow> flow_reach \<sigma>\<^sub>0 \<sigma>'"

section \<open>Where the window's bytes are\<close>

fun frames_bytes :: "u64 \<Rightarrow> body_frame list \<Rightarrow> int" where
  "frames_bytes rid [] = 0"
| "frames_bytes rid (f # fs) = (if bf_req f = rid then int (length (bf_payload f)) else 0) + frames_bytes rid fs"

fun updates_bytes :: "u64 \<Rightarrow> out_msg list \<Rightarrow> int" where
  "updates_bytes rid [] = 0"
| "updates_bytes rid (OWindowUpdate r n # ms) = (if r = rid then n else 0) + updates_bytes rid ms"
| "updates_bytes rid (m # ms) = updates_bytes rid ms"

lemma frames_bytes_append [simp]: "frames_bytes rid (fs @ gs) = frames_bytes rid fs + frames_bytes rid gs"
  by (induction fs) simp_all

lemma updates_bytes_append [simp]: "updates_bytes rid (ms @ ns) = updates_bytes rid ms + updates_bytes rid ns"
  by (induction rid ms rule: updates_bytes.induct) simp_all

lemma frames_bytes_nonneg: "0 \<le> frames_bytes rid fs"
  by (induction fs) simp_all

lemma updates_bytes_nonneg: "\<forall>r n. OWindowUpdate r n \<in> set ms \<longrightarrow> 0 < n \<Longrightarrow> 0 \<le> updates_bytes rid ms"
  by (induction rid ms rule: updates_bytes.induct) (auto simp: less_imp_le)

definition in_flight_updates :: "flow_sys \<Rightarrow> out_msg list" where
  "in_flight_updates \<sigma> = drop (fs_seen \<sigma>) (s_sent (fs_server \<sigma>))"

text \<open>The conservation law: what the agent may still send, what is on the wire, what the exchange
  buffers, what the session has accumulated and what it has sent back add up to the window.\<close>

definition window_balance :: "flow_sys \<Rightarrow> u64 \<Rightarrow> exchange \<Rightarrow> int" where
  "window_balance \<sigma> rid e =
     window_left (fs_agent \<sigma>) rid + frames_bytes rid (fs_wire \<sigma>) + ex_queued e
     + gm_at 0 (s_credit (fs_server \<sigma>)) rid + updates_bytes rid (in_flight_updates \<sigma>)"

definition flow_inv :: "flow_sys \<Rightarrow> bool" where
  "flow_inv \<sigma> \<longleftrightarrow> pending_ok (fs_server \<sigma>) \<and> ft_flow (s_features (fs_server \<sigma>)) \<and>
     fs_seen \<sigma> \<le> length (s_sent (fs_server \<sigma>)) \<and>
     (\<forall>r n. OWindowUpdate r n \<in> set (in_flight_updates \<sigma>) \<longrightarrow> 0 < n) \<and>
     (\<forall>f\<in>set (fs_wire \<sigma>). bf_payload f \<noteq> [] \<and> \<not> bf_eof f) \<and>
     (\<forall>rid. 0 \<le> window_left (fs_agent \<sigma>) rid) \<and>
     (\<forall>rid. 0 \<le> gm_at 0 (s_credit (fs_server \<sigma>)) rid \<and> gm_at 0 (s_credit (fs_server \<sigma>)) rid < windowUpdateThreshold) \<and>
     (\<forall>rid e. map_of (s_pending (fs_server \<sigma>)) rid = Some e \<longrightarrow> \<not> ex_done e \<and>
        (ex_close_once e \<or> window_balance \<sigma> rid e = InitialWindowBytes))"

lemma flow_init_inv: "flow_init \<sigma> \<Longrightarrow> flow_inv \<sigma>"
  by (auto simp: flow_init_def flow_inv_def in_flight_updates_def window_balance_def new_exchange_def
      windowUpdateThreshold_def InitialWindowBytes_def dest!: spec)

section \<open>Each step keeps the balance\<close>

lemma flow_balanceD:
  "flow_inv \<sigma> \<Longrightarrow> map_of (s_pending (fs_server \<sigma>)) rid = Some e \<Longrightarrow>
   \<not> ex_done e \<and> (ex_close_once e \<or> window_balance \<sigma> rid e = InitialWindowBytes)"
  unfolding flow_inv_def by blast

lemma send_step_inv:
  assumes inv: "flow_inv \<sigma>" and acq: "acquire_try rid (int (length p)) (fs_agent \<sigma>) = (Acquired, w)" and p: "p \<noteq> []"
  shows "flow_inv (\<sigma>\<lparr>fs_agent := w, fs_wire := fs_wire \<sigma> @ [response_frame rid sq False p]\<rparr>)"
proof -
  note a = window_left_acquire [OF acq]
  show ?thesis
    using inv a p
    by (auto simp: flow_inv_def in_flight_updates_def window_balance_def response_frame_def)
qed

lemma wait_step_inv:
  "flow_inv \<sigma> \<Longrightarrow> acquire_try rid n (fs_agent \<sigma>) = (WaitOn ch, w) \<Longrightarrow> flow_inv (\<sigma>\<lparr>fs_agent := w\<rparr>)"
  using window_left_wait [of rid n "fs_agent \<sigma>" ch w]
  by (simp add: flow_inv_def in_flight_updates_def window_balance_def)

lemma credit_step_inv:
  assumes inv: "flow_inv \<sigma>" and seen: "fs_seen \<sigma> < length (s_sent (fs_server \<sigma>))"
    and m: "s_sent (fs_server \<sigma>) ! fs_seen \<sigma> = OWindowUpdate rid n"
  shows "flow_inv (\<sigma>\<lparr>fs_agent := window_add rid n (fs_agent \<sigma>), fs_seen := Suc (fs_seen \<sigma>)\<rparr>)"
proof -
  have split: "in_flight_updates \<sigma> = OWindowUpdate rid n # drop (Suc (fs_seen \<sigma>)) (s_sent (fs_server \<sigma>))"
    using seen m Cons_nth_drop_Suc [of "fs_seen \<sigma>" "s_sent (fs_server \<sigma>)"] by (simp add: in_flight_updates_def)
  let ?\<sigma> = "\<sigma>\<lparr>fs_agent := window_add rid n (fs_agent \<sigma>), fs_seen := Suc (fs_seen \<sigma>)\<rparr>"
  have rest: "in_flight_updates ?\<sigma> = drop (Suc (fs_seen \<sigma>)) (s_sent (fs_server \<sigma>))"
    by (simp add: in_flight_updates_def)
  have n: "0 < n" using inv split by (auto simp: flow_inv_def)
  have bal: "window_balance ?\<sigma> k e = window_balance \<sigma> k e" for k e
    using n by (simp add: window_balance_def window_left_add rest split)
  show ?thesis
    using inv n seen by (auto simp: flow_inv_def bal rest split window_left_add intro: add_nonneg_pos less_imp_le)
qed

lemma other_step_inv:
  assumes inv: "flow_inv \<sigma>" and seen: "fs_seen \<sigma> < length (s_sent (fs_server \<sigma>))"
    and m: "\<And>rid n. s_sent (fs_server \<sigma>) ! fs_seen \<sigma> \<noteq> OWindowUpdate rid n"
  shows "flow_inv (\<sigma>\<lparr>fs_seen := Suc (fs_seen \<sigma>)\<rparr>)"
proof -
  let ?m = "s_sent (fs_server \<sigma>) ! fs_seen \<sigma>"
  have split: "in_flight_updates \<sigma> = ?m # drop (Suc (fs_seen \<sigma>)) (s_sent (fs_server \<sigma>))"
    using seen Cons_nth_drop_Suc [of "fs_seen \<sigma>" "s_sent (fs_server \<sigma>)"] by (simp add: in_flight_updates_def)
  let ?\<sigma> = "\<sigma>\<lparr>fs_seen := Suc (fs_seen \<sigma>)\<rparr>"
  have rest: "in_flight_updates ?\<sigma> = drop (Suc (fs_seen \<sigma>)) (s_sent (fs_server \<sigma>))"
    by (simp add: in_flight_updates_def)
  have "updates_bytes rid (?m # ms) = updates_bytes rid ms" for rid ms
    using m by (cases ?m) auto
  then have bal: "window_balance ?\<sigma> k e = window_balance \<sigma> k e" for k e
    by (simp add: window_balance_def rest split)
  show ?thesis
    using inv seen by (auto simp: flow_inv_def bal rest split)
qed

text \<open>A delivered frame of a conforming agent is accepted when the channel has a free slot; without
  one the exchange is failed and closed.\<close>

lemma deliver_step_inv:
  assumes inv: "flow_inv \<sigma>" and wire: "fs_wire \<sigma> = f # fs"
    and r: "route_response_body pick f (fs_server \<sigma>) = (RouteOk, s)"
  shows "flow_inv (\<sigma>\<lparr>fs_wire := fs, fs_server := s\<rparr>)"
proof -
  let ?\<sigma> = "\<sigma>\<lparr>fs_wire := fs, fs_server := s\<rparr>" and ?rid = "bf_req f"
  have f: "bf_payload f \<noteq> []" "\<not> bf_eof f" using inv wire by (auto simp: flow_inv_def)
  have ok: "pending_ok (fs_server \<sigma>)" using inv by (simp add: flow_inv_def)
  from route_response_body_ok [OF ok, of pick f] r have ok': "pending_ok s" by simp
  have same: "s_credit s = s_credit (fs_server \<sigma>)" "s_sent s = s_sent (fs_server \<sigma>)" "s_features s = s_features (fs_server \<sigma>)"
    using r f by (auto simp: route_response_body_def split: option.splits prod.splits write_result.splits body_error.splits)
  have "\<not> ex_done e \<and> (ex_close_once e \<or> window_balance ?\<sigma> k e = InitialWindowBytes)"
    if lk: "map_of (s_pending s) k = Some e" for k e
  proof (cases "map_of (s_pending (fs_server \<sigma>)) ?rid")
    case None
    then have "s = fs_server \<sigma>" "k \<noteq> ?rid" using r lk by (auto simp: route_response_body_def)
    with flow_balanceD [OF inv, of k e] lk show ?thesis
      by (auto simp: window_balance_def wire in_flight_updates_def)
  next
    case (Some e0)
    from inv Some have e0: "\<not> ex_done e0" "ex_close_once e0 \<or> window_balance \<sigma> ?rid e0 = InitialWindowBytes"
      by (auto simp: flow_inv_def)
    have eok: "exchange_ok e0" by (rule pending_lookup [OF ok Some])
    show ?thesis
    proof (cases "k = ?rid")
      case False
      with r Some f lk have "map_of (s_pending (fs_server \<sigma>)) k = Some e"
        by (auto simp: route_response_body_def split: prod.splits write_result.splits body_error.splits)
      with flow_balanceD [OF inv, of k e] False show ?thesis
        by (auto simp: window_balance_def wire in_flight_updates_def same)
    next
      case True
      obtain wr e1 where w: "write_body pick (bf_payload f) e0 = (wr, e1)" by force
      show ?thesis
      proof (cases wr)
        case WriteOk
        with w have e1: "e1 = e0\<lparr>ex_chunks := chan_push (bf_payload f) (ex_chunks e0),
            ex_queued := ex_queued e0 + int (length (bf_payload f))\<rparr>" and "\<not> ch_closed (ex_chunks e0)"
          using f by (auto simp: write_body_def split: if_splits)
        moreover have "e = e1" using r Some f lk True w WriteOk by (auto simp: route_response_body_def)
        ultimately show ?thesis
          using e0 eok True by (auto simp: exchange_ok_def window_balance_def wire in_flight_updates_def same)
      next
        case (WriteErr x)
        with w e0(1) have "x = ErrFlowControlViolation" "e1 = e0"
          using f by (auto simp: write_body_def split: if_splits)
        then have "e = fail_exchange CodeClientOffline ''akis kontrolu penceresi asildi'' ErrFlowControlViolation e0"
          using r Some f lk True w WriteErr by (auto simp: route_response_body_def)
        then show ?thesis using e0(1) by (simp add: fail_exchange_def close_body_def)
      next
        case WritePanic
        with r Some f w show ?thesis by (simp add: route_response_body_def)
      qed
    qed
  qed
  then show ?thesis
    using inv ok' same wire by (auto simp: flow_inv_def in_flight_updates_def)
qed

lemma exchange_read_queued:
  "exchange_read n e = (r, e') \<Longrightarrow>
   ex_queued e' = ex_queued e - (case r of ReadData d \<Rightarrow> int (length d) | _ \<Rightarrow> 0)
   \<and> ex_done e' = ex_done e \<and> ex_close_once e' = ex_close_once e"
  by (rule exchange_read_cases [of e n]) (auto split: option.splits if_splits)

lemma send_window_update_credit:
  assumes "ft_flow (s_features s)" "0 \<le> n" "\<forall>k. 0 \<le> gm_at 0 (s_credit s) k \<and> gm_at 0 (s_credit s) k < windowUpdateThreshold"
  shows "\<exists>ms. s_sent (send_window_update True rid n s) = s_sent s @ ms
    \<and> (\<forall>r m. OWindowUpdate r m \<in> set ms \<longrightarrow> 0 < m)
    \<and> (\<forall>k. gm_at 0 (s_credit (send_window_update True rid n s)) k + updates_bytes k ms
          = gm_at 0 (s_credit s) k + (if k = rid then n else 0))
    \<and> (\<forall>k. 0 \<le> gm_at 0 (s_credit (send_window_update True rid n s)) k
          \<and> gm_at 0 (s_credit (send_window_update True rid n s)) k < windowUpdateThreshold)
    \<and> ft_flow (s_features (send_window_update True rid n s))"
proof -
  have th: "0 < windowUpdateThreshold" by (simp add: windowUpdateThreshold_def InitialWindowBytes_def)
  let ?acc = "gm_at 0 (s_credit s) rid + n"
  show ?thesis
  proof (cases "n = 0 \<or> ?acc < windowUpdateThreshold")
    case True
    with assms show ?thesis
      by (intro exI [of _ "[]"]) (auto simp: send_window_update_def Let_def)
  next
    case False
    with assms th show ?thesis
      by (intro exI [of _ "[OWindowUpdate rid ?acc]"]) (auto simp: send_window_update_def Let_def s_send_def)
  qed
qed

lemma drain_step_inv:
  assumes inv: "flow_inv \<sigma>" and rd: "session_read True rid n (fs_server \<sigma>) = (r, s)"
  shows "flow_inv (\<sigma>\<lparr>fs_server := s\<rparr>)"
proof (cases "map_of (s_pending (fs_server \<sigma>)) rid")
  case None
  with rd have "s = fs_server \<sigma>" by (simp add: session_read_def)
  with inv show ?thesis by simp
next
  case (Some e0)
  let ?s = "fs_server \<sigma>"
  obtain rr e1 where er: "exchange_read n e0 = (rr, e1)" by force
  note q = exchange_read_queued [OF er]
  let ?d = "case rr of ReadData d \<Rightarrow> int (length d) | _ \<Rightarrow> 0"
  let ?s1 = "?s\<lparr>s_pending := gm_put rid e1 (s_pending ?s)\<rparr>"
  have s: "s = send_window_update True rid ?d ?s1"
    using rd Some er by (auto simp: session_read_def Let_def send_window_update_def split: read_result.splits)
  have d: "0 \<le> ?d" by (simp split: read_result.split)
  have "ft_flow (s_features ?s1)" "\<forall>k. 0 \<le> gm_at 0 (s_credit ?s1) k \<and> gm_at 0 (s_credit ?s1) k < windowUpdateThreshold"
    using inv by (simp_all add: flow_inv_def)
  from send_window_update_credit [OF this(1) d this(2), of rid] obtain ms where
    ms: "s_sent s = s_sent ?s @ ms" "\<forall>r m. OWindowUpdate r m \<in> set ms \<longrightarrow> 0 < m"
      "\<And>k. gm_at 0 (s_credit s) k + updates_bytes k ms = gm_at 0 (s_credit ?s) k + (if k = rid then ?d else 0)"
      "\<forall>k. 0 \<le> gm_at 0 (s_credit s) k \<and> gm_at 0 (s_credit s) k < windowUpdateThreshold" "ft_flow (s_features s)"
    by (auto simp: s)
  have ok: "pending_ok s"
    using session_read_ok [of ?s True rid n] inv rd by (simp add: flow_inv_def)
  have seen: "fs_seen \<sigma> \<le> length (s_sent ?s)" using inv by (simp add: flow_inv_def)
  have fl: "in_flight_updates (\<sigma>\<lparr>fs_server := s\<rparr>) = in_flight_updates \<sigma> @ ms"
    using seen by (simp add: in_flight_updates_def ms(1))
  have "\<not> ex_done e \<and> (ex_close_once e \<or> window_balance (\<sigma>\<lparr>fs_server := s\<rparr>) k e = InitialWindowBytes)"
    if lk: "map_of (s_pending s) k = Some e" for k e
  proof (cases "k = rid")
    case True
    with lk have "e = e1" by (simp add: s)
    with flow_balanceD [OF inv Some] q True ms(3) [of rid] show ?thesis
      by (auto simp: window_balance_def fl)
  next
    case False
    with lk have "map_of (s_pending ?s) k = Some e" by (simp add: s)
    from flow_balanceD [OF inv this] False ms(3) [of k] show ?thesis
      by (auto simp: window_balance_def fl)
  qed
  then show ?thesis
    using inv ms(2,4,5) ok seen by (auto simp: flow_inv_def fl ms(1))
qed

lemma flow_step_inv: "flow_step \<sigma> \<sigma>' \<Longrightarrow> flow_inv \<sigma> \<Longrightarrow> flow_inv \<sigma>'"
  by (induction rule: flow_step.induct)
    (auto intro: send_step_inv wait_step_inv deliver_step_inv drain_step_inv credit_step_inv other_step_inv)

lemma flow_reach_inv: "flow_reach \<sigma>\<^sub>0 \<sigma> \<Longrightarrow> flow_init \<sigma>\<^sub>0 \<Longrightarrow> flow_inv \<sigma>"
  by (induction rule: flow_reach.induct) (auto intro: flow_init_inv flow_step_inv)

section \<open>A conforming agent is not cut off, and never stalls\<close>

lemma full_chunks_bound:
  assumes "exchange_ok e" "\<forall>c\<in>set (ch_buf (ex_chunks e)). 1024 \<le> length c" "chan_full (ex_chunks e)"
  shows "InitialWindowBytes \<le> ex_queued e"
proof -
  have "length cs * 1024 \<le> length (concat cs)" if "\<forall>c\<in>set cs. 1024 \<le> length c" for cs :: "bytes list"
    using that by (induction cs) auto
  from this [OF assms(2)] have "length (ch_buf (ex_chunks e)) * 1024 \<le> length (unread e)"
    by (simp add: unread_def)
  moreover have "2048 \<le> length (ch_buf (ex_chunks e))"
    using assms(1,3) by (simp add: exchange_ok_def chan_full_def cap_frames_eq)
  ultimately show ?thesis using assms(1) by (simp add: exchange_ok_def InitialWindowBytes_def)
qed

lemma balance_fits:
  assumes "flow_inv \<sigma>" "fs_wire \<sigma> = f # fs" "map_of (s_pending (fs_server \<sigma>)) (bf_req f) = Some e" "\<not> ex_close_once e"
  shows "ex_queued e + int (length (bf_payload f)) \<le> InitialWindowBytes"
proof -
  have "window_balance \<sigma> (bf_req f) e = InitialWindowBytes"
    using flow_balanceD [OF assms(1,3)] assms(4) by simp
  moreover have "0 \<le> updates_bytes (bf_req f) (in_flight_updates \<sigma>)"
    using assms(1) by (intro updates_bytes_nonneg) (simp add: flow_inv_def)
  moreover have "0 \<le> window_left (fs_agent \<sigma>) (bf_req f)" "0 \<le> gm_at 0 (s_credit (fs_server \<sigma>)) (bf_req f)"
    using assms(1) by (simp_all add: flow_inv_def)
  ultimately show ?thesis
    using frames_bytes_nonneg [of "bf_req f" fs] by (simp add: window_balance_def assms(2))
qed

text \<open>C8: however sends, deliveries, reads and window updates interleave, a body frame that a
  credit-respecting agent sent fits the byte window of its exchange, and it is accepted as long as
  the frames are at least 1024 bytes long, the size the channel's capacity is computed from.\<close>

theorem flow_control_no_violation:
  assumes "flow_init \<sigma>\<^sub>0" "flow_reach \<sigma>\<^sub>0 \<sigma>" "fs_wire \<sigma> = f # fs"
    and "map_of (s_pending (fs_server \<sigma>)) (bf_req f) = Some e" "\<not> ex_close_once e"
    and "1024 \<le> length (bf_payload f)" "\<forall>c\<in>set (ch_buf (ex_chunks e)). 1024 \<le> length c"
  shows "ex_queued e + int (length (bf_payload f)) \<le> InitialWindowBytes \<and>
    fst (write_body pick (bf_payload f) e) = WriteOk"
proof -
  have inv: "flow_inv \<sigma>" by (rule flow_reach_inv [OF assms(2,1)])
  have ok: "exchange_ok e" using inv pending_lookup [OF _ assms(4)] by (simp add: flow_inv_def)
  note fits = balance_fits [OF inv assms(3,4,5)]
  have "\<not> chan_full (ex_chunks e)"
    using full_chunks_bound [OF ok assms(7)] fits assms(6) by auto
  moreover have "\<not> ex_done e" using flow_balanceD [OF inv assms(4)] by simp
  moreover have "\<not> ch_closed (ex_chunks e)" using ok assms(5) by (simp add: exchange_ok_def)
  moreover have "bf_payload f \<noteq> []" using assms(6) by auto
  ultimately show ?thesis
    using fits by (simp add: write_ok_if_room)
qed

definition sample_features :: features where
  "sample_features = \<lparr>ft_flow = True, ft_input_status = True, ft_screen2 = True, ft_layers = True,
     ft_cursor = True, ft_clipboard = True, ft_stats = True, ft_feedback = True, ft_video = True\<rparr>"

definition sample_session :: session where
  "sample_session = (new_session ''s1'' ''c1'' sample_features 0)\<lparr>s_next := 1, s_pending := [(1, new_exchange 1)]\<rparr>"

definition sample_flow :: flow_sys where
  "sample_flow = \<lparr>fs_agent = new_window_table, fs_wire = [], fs_server = sample_session, fs_seen = 0\<rparr>"

lemma sample_flow_init: "flow_init sample_flow"
  by (auto simp: flow_init_def sample_flow_def sample_session_def new_session_def sample_features_def
      pending_ok_def MaxPendingExchanges_def split: if_splits)

theorem flow_control_no_violation_witness:
  "fst (write_body False (replicate 1024 7) (new_exchange 1)) = WriteOk"
proof -
  let ?p = "replicate 1024 (7 :: byte)"
  obtain w where w: "acquire_try 1 (int (length ?p)) (fs_agent sample_flow) = (Acquired, w)"
    by (simp add: acquire_try_def Let_def sample_flow_def InitialWindowBytes_def)
  let ?\<sigma> = "sample_flow\<lparr>fs_agent := w, fs_wire := fs_wire sample_flow @ [response_frame 1 0 False ?p]\<rparr>"
  have "flow_reach sample_flow ?\<sigma>"
    by (rule flow_reach.step [OF flow_reach.start], rule SendFrame [OF w]) simp
  then show ?thesis
    using flow_control_no_violation [OF sample_flow_init, of ?\<sigma> "response_frame 1 0 False ?p" "[]" "new_exchange 1" False]
    by (simp add: sample_flow_def sample_session_def response_frame_def)
      (simp add: new_exchange_def make_chan_def)
qed

text \<open>C9: a sender is never left waiting with nothing under way: whenever the agent has too little
  credit for a body chunk of an open request, some of the window is on the wire, buffered in the
  exchange or in a window update under way; the credit the session holds back alone cannot block it.\<close>

theorem flow_control_no_stall:
  assumes "flow_init \<sigma>\<^sub>0" "flow_reach \<sigma>\<^sub>0 \<sigma>"
    and "map_of (s_pending (fs_server \<sigma>)) rid = Some e" "\<not> ex_close_once e"
    and "acquire_try rid n (fs_agent \<sigma>) = (WaitOn ch, w)" "n \<le> int BodyChunkSize"
  shows "0 < frames_bytes rid (fs_wire \<sigma>) \<or> unread e \<noteq> [] \<or>
    (\<exists>m. OWindowUpdate rid m \<in> set (in_flight_updates \<sigma>) \<and> 0 < m)"
proof (rule ccontr)
  assume none: "\<not> ?thesis"
  have inv: "flow_inv \<sigma>" by (rule flow_reach_inv [OF assms(2,1)])
  have ok: "exchange_ok e" using inv pending_lookup [OF _ assms(3)] by (simp add: flow_inv_def)
  have "updates_bytes rid ms = 0" if "\<forall>m. OWindowUpdate rid m \<notin> set ms" for ms
    using that by (induction rid ms rule: updates_bytes.induct) auto
  moreover have "\<forall>m. OWindowUpdate rid m \<notin> set (in_flight_updates \<sigma>)"
    using none inv by (auto simp: flow_inv_def)
  moreover have "window_balance \<sigma> rid e = InitialWindowBytes"
    using flow_balanceD [OF inv assms(3)] assms(4) by simp
  moreover have "frames_bytes rid (fs_wire \<sigma>) = 0"
    using none frames_bytes_nonneg [of rid "fs_wire \<sigma>"] by simp
  moreover have "ex_queued e = 0" using none ok by (simp add: exchange_ok_def)
  ultimately have "window_left (fs_agent \<sigma>) rid + gm_at 0 (s_credit (fs_server \<sigma>)) rid = InitialWindowBytes"
    by (simp add: window_balance_def)
  moreover have "gm_at 0 (s_credit (fs_server \<sigma>)) rid < windowUpdateThreshold"
    using inv by (simp add: flow_inv_def)
  moreover have "window_left (fs_agent \<sigma>) rid < n"
    using acquire_waits_iff [of rid n "fs_agent \<sigma>"] assms(5) by auto
  ultimately show False
    using assms(6) by (simp add: windowUpdateThreshold_def InitialWindowBytes_def BodyChunkSize_def)
qed

theorem flow_control_no_stall_witness:
  "0 < frames_bytes 1 [response_frame 1 0 False (replicate 2097152 7)] \<or> unread (new_exchange 1) \<noteq> [] \<or>
   (\<exists>m. OWindowUpdate 1 m \<in> set [] \<and> 0 < m)"
proof -
  let ?p = "replicate 2097152 (7 :: byte)"
  obtain w where w: "acquire_try 1 (int (length ?p)) (fs_agent sample_flow) = (Acquired, w)" "window_left w 1 = 0"
    by (simp add: acquire_try_def Let_def sample_flow_def InitialWindowBytes_def window_left_def
        new_window_table_def gm_at_def)
  let ?\<sigma> = "sample_flow\<lparr>fs_agent := w, fs_wire := fs_wire sample_flow @ [response_frame 1 0 False ?p]\<rparr>"
  have reach: "flow_reach sample_flow ?\<sigma>"
    by (rule flow_reach.step [OF flow_reach.start], rule SendFrame [OF w(1)]) simp
  obtain ch w' where a: "acquire_try 1 1 (fs_agent ?\<sigma>) = (WaitOn ch, w')"
    using w(2) by (cases "map_of (wt_waiters w) 1") (auto simp: acquire_try_def Let_def)
  have "map_of (s_pending (fs_server ?\<sigma>)) 1 = Some (new_exchange 1)" "\<not> ex_close_once (new_exchange 1)"
    by (simp_all add: sample_flow_def sample_session_def new_exchange_def)
  from flow_control_no_stall [OF sample_flow_init reach this a]
  show ?thesis
    by (simp add: BodyChunkSize_def in_flight_updates_def sample_flow_def sample_session_def new_session_def)
qed

section \<open>Small frames\<close>

definition tiny_exchange :: "nat \<Rightarrow> exchange" where
  "tiny_exchange k = (new_exchange 1)\<lparr>ex_chunks := (make_chan cap_frames)\<lparr>ch_buf := replicate k [7]\<rparr>, ex_queued := int k\<rparr>"

lemma write_tiny:
  "k < 2048 \<Longrightarrow> write_body pick [7] (tiny_exchange k) = (WriteOk, tiny_exchange (Suc k))"
  by (simp add: write_body_def tiny_exchange_def chan_full_def chan_push_def cap_frames_eq make_chan_def
      InitialWindowBytes_def new_exchange_def replicate_append_same)

lemma write_tiny_full:
  "write_body pick [7] (tiny_exchange 2048) = (WriteErr ErrFlowControlViolation, tiny_exchange 2048)"
  by (simp add: write_body_def tiny_exchange_def chan_full_def cap_frames_eq make_chan_def
      InitialWindowBytes_def new_exchange_def)

definition tiny_state :: "nat \<Rightarrow> flow_sys \<Rightarrow> bool" where
  "tiny_state k \<sigma> \<longleftrightarrow> fs_wire \<sigma> = [] \<and> window_left (fs_agent \<sigma>) 1 = InitialWindowBytes - int k \<and>
     map_of (s_pending (fs_server \<sigma>)) 1 = Some (tiny_exchange k)"

lemma tiny_send_deliver:
  assumes "tiny_state k \<sigma>" "flow_reach \<sigma>\<^sub>0 \<sigma>" "k \<le> 2048"
    and "write_body True [7] (tiny_exchange k) = (wr, e)" "wr \<noteq> WritePanic"
  shows "\<exists>\<sigma>'. flow_reach \<sigma>\<^sub>0 \<sigma>' \<and> fs_wire \<sigma>' = [] \<and> window_left (fs_agent \<sigma>') 1 = InitialWindowBytes - int (Suc k) \<and>
    fs_server \<sigma>' = snd (route_response_body True (response_frame 1 0 False [7]) (fs_server \<sigma>))"
proof -
  have left: "1 \<le> window_left (fs_agent \<sigma>) 1" using assms(1,3) by (simp add: tiny_state_def InitialWindowBytes_def)
  then obtain w where w: "acquire_try 1 (int (length [7 :: byte])) (fs_agent \<sigma>) = (Acquired, w)"
    by (simp add: acquire_try_def Let_def)
  let ?f = "response_frame 1 0 False [7]"
  let ?\<sigma> = "\<sigma>\<lparr>fs_agent := w, fs_wire := fs_wire \<sigma> @ [?f]\<rparr>"
  have r1: "flow_reach \<sigma>\<^sub>0 ?\<sigma>" by (rule flow_reach.step [OF assms(2)], rule SendFrame [OF w]) simp
  obtain rt s where r: "route_response_body True ?f (fs_server \<sigma>) = (rt, s)" by force
  have "rt = RouteOk"
    using r assms(1,4,5)
    by (auto simp: route_response_body_def response_frame_def tiny_state_def split: write_result.splits body_error.splits)
  with r have d: "flow_step ?\<sigma> (?\<sigma>\<lparr>fs_wire := [], fs_server := s\<rparr>)"
    using assms(1) by (intro Deliver [of _ ?f "[]" True]) (simp_all add: tiny_state_def)
  have "window_left w 1 = InitialWindowBytes - int (Suc k)"
    using window_left_acquire [OF w, of 1] assms(1) by (simp add: tiny_state_def)
  then show ?thesis
    using flow_reach.step [OF r1 d] r by (intro exI [of _ "?\<sigma>\<lparr>fs_wire := [], fs_server := s\<rparr>"]) simp
qed

lemma route_tiny:
  assumes "map_of (s_pending s) 1 = Some (tiny_exchange k)" "k \<le> 2048"
  shows "map_of (s_pending (snd (route_response_body True (response_frame 1 0 False [7]) s))) 1 =
    Some (if k < 2048 then tiny_exchange (Suc k)
          else fail_exchange CodeClientOffline ''akis kontrolu penceresi asildi'' ErrFlowControlViolation (tiny_exchange 2048))"
proof (cases "k < 2048")
  case True
  with assms write_tiny [OF True, of True] show ?thesis
    by (simp add: route_response_body_def response_frame_def)
next
  case False
  with assms have "k = 2048" by simp
  with assms write_tiny_full [of True] show ?thesis
    by (simp add: route_response_body_def response_frame_def)
qed

lemma tiny_reach: "k \<le> 2048 \<Longrightarrow> \<exists>\<sigma>. flow_reach sample_flow \<sigma> \<and> tiny_state k \<sigma>"
proof (induction k)
  case 0
  have "tiny_exchange 0 = new_exchange 1"
    by (simp add: tiny_exchange_def new_exchange_def make_chan_def)
  then have "tiny_state 0 sample_flow"
    by (simp add: tiny_state_def sample_flow_def sample_session_def)
  then show ?case by (blast intro: flow_reach.start)
next
  case (Suc k)
  then obtain \<sigma> where \<sigma>: "flow_reach sample_flow \<sigma>" "tiny_state k \<sigma>" by auto
  have k: "k < 2048" "k \<le> 2048" using Suc.prems by simp_all
  from tiny_send_deliver [OF \<sigma>(2,1) k(2) write_tiny [OF k(1)]] obtain \<sigma>' where
    "flow_reach sample_flow \<sigma>'" "fs_wire \<sigma>' = []" "window_left (fs_agent \<sigma>') 1 = InitialWindowBytes - int (Suc k)"
    "fs_server \<sigma>' = snd (route_response_body True (response_frame 1 0 False [7]) (fs_server \<sigma>))" by auto
  with route_tiny [OF _ k(2), of "fs_server \<sigma>"] \<sigma>(2) k(1) show ?case
    by (auto simp: tiny_state_def)
qed

text \<open>The capacity of the body channel is counted in frames, so an agent that respects its byte
  credit but sends one-byte frames is cut off with a flow-control violation: after 2048 of them the
  next one fails the request although two megabytes of credit remain.\<close>

lemma small_frames_rejected:
  "\<exists>\<sigma> e. flow_init sample_flow \<and> flow_reach sample_flow \<sigma> \<and>
     0 \<le> window_left (fs_agent \<sigma>) 1 \<and> InitialWindowBytes - 2049 = window_left (fs_agent \<sigma>) 1 \<and>
     map_of (s_pending (fs_server \<sigma>)) 1 = Some e \<and> ex_close_err e = Some ErrFlowControlViolation \<and>
     ex_queued e = 2048"
proof -
  obtain \<sigma> where \<sigma>: "flow_reach sample_flow \<sigma>" "tiny_state 2048 \<sigma>" using tiny_reach [of 2048] by auto
  from tiny_send_deliver [OF \<sigma>(2,1) _ write_tiny_full] obtain \<sigma>' where
    s: "flow_reach sample_flow \<sigma>'" "window_left (fs_agent \<sigma>') 1 = InitialWindowBytes - int (Suc 2048)"
    "fs_server \<sigma>' = snd (route_response_body True (response_frame 1 0 False [7]) (fs_server \<sigma>))" by auto
  let ?e = "fail_exchange CodeClientOffline ''akis kontrolu penceresi asildi'' ErrFlowControlViolation (tiny_exchange 2048)"
  have "map_of (s_pending (fs_server \<sigma>')) 1 = Some ?e"
    using route_tiny [of "fs_server \<sigma>" 2048] \<sigma>(2) s(3) by (simp add: tiny_state_def)
  moreover have "ex_close_err ?e = Some ErrFlowControlViolation" "ex_queued ?e = 2048"
    by (simp_all add: fail_exchange_def close_body_err tiny_exchange_def new_exchange_def close_body_def deliver_head_def)
  ultimately show ?thesis
    using s sample_flow_init by (intro exI [of _ \<sigma>'] exI [of _ ?e]) (simp add: InitialWindowBytes_def)
qed

end
