(* ===== verification/Mcp_Config.thy ===== *)
theory Mcp_Config
  imports Go_Strings "HOL-Library.While_Combinator"
begin

text \<open>
  The settings of a tunnel in MCP mode (\<open>server/mcpconf/mcpconf.go\<close>): wildcard patterns, the policy on tools, the checks of
  a configuration, its endpoints. A configuration arrives as the record that \<open>json.Unmarshal\<close> fills; which text gives which
  record is a parameter of \<open>parse_config\<close>.
\<close>

section \<open>Patterns\<close>

text \<open>The loop of \<open>Glob\<close>: positions in pattern and text, the last star, and where its match ends. \<open>None\<close> stands for -1.\<close>

record glob_state =
  gl_px :: nat
  gl_sx :: nat
  gl_star :: "nat option"
  gl_mark :: nat
  gl_failed :: bool

definition glob_step :: "string \<Rightarrow> string \<Rightarrow> glob_state \<Rightarrow> glob_state" where
  "glob_step pat s g =
     (if gl_px g < length pat \<and> (pat ! gl_px g = CHR ''?'' \<or> pat ! gl_px g = s ! gl_sx g) \<and> pat ! gl_px g \<noteq> CHR ''*''
      then g\<lparr>gl_px := gl_px g + 1, gl_sx := gl_sx g + 1\<rparr>
      else if gl_px g < length pat \<and> pat ! gl_px g = CHR ''*''
      then g\<lparr>gl_star := Some (gl_px g), gl_mark := gl_sx g, gl_px := gl_px g + 1\<rparr>
      else (case gl_star g of
              Some st \<Rightarrow> g\<lparr>gl_px := st + 1, gl_mark := gl_mark g + 1, gl_sx := gl_mark g + 1\<rparr>
            | None \<Rightarrow> g\<lparr>gl_failed := True\<rparr>))"

definition glob_loop :: "string \<Rightarrow> string \<Rightarrow> glob_state option" where
  "glob_loop pat s =
     while_option (\<lambda>g. gl_sx g < length s \<and> \<not> gl_failed g) (glob_step pat s)
       \<lparr>gl_px = 0, gl_sx = 0, gl_star = None, gl_mark = 0, gl_failed = False\<rparr>"

definition glob :: "string \<Rightarrow> string \<Rightarrow> bool" where
  "glob pat s =
     (case glob_loop pat s of
        None \<Rightarrow> False
      | Some g \<Rightarrow> \<not> gl_failed g \<and> dropWhile (\<lambda>c. c = CHR ''*'') (drop (gl_px g) pat) = [])"

text \<open>What a pattern means: a star stands for any text, a question mark for any byte.\<close>

fun glob_match :: "string \<Rightarrow> string \<Rightarrow> bool" where
  "glob_match [] s \<longleftrightarrow> s = []"
| "glob_match (c # p) s \<longleftrightarrow>
     (if c = CHR ''*'' then glob_match p s \<or> (case s of [] \<Rightarrow> False | d # t \<Rightarrow> glob_match (c # p) t)
      else (case s of [] \<Rightarrow> False | d # t \<Rightarrow> (c = CHR ''?'' \<or> c = d) \<and> glob_match p t))"

section \<open>Correctness of the loop\<close>

abbreviation fits :: "char \<Rightarrow> char \<Rightarrow> bool" where
  "fits c d \<equiv> c \<noteq> CHR ''*'' \<and> (c = CHR ''?'' \<or> c = d)"

lemma match_star: "glob_match (CHR ''*'' # p) s \<longleftrightarrow> (\<exists>k\<le>length s. glob_match p (drop k s))"
proof (induction s)
  case (Cons d t)
  have "(\<exists>k\<le>length (d # t). glob_match p (drop k (d # t))) \<longleftrightarrow> glob_match p (d # t) \<or> (\<exists>k\<le>length t. glob_match p (drop k t))"
    by (auto simp: drop_Cons' intro: exI [of _ "Suc _"] exI [of _ 0])
  with Cons show ?case by simp
qed simp

lemma match_segment: "list_all2 fits q t \<Longrightarrow> glob_match (q @ p) (t @ s) = glob_match p s"
  by (induction q t rule: list_all2_induct) auto

lemma match_plain:
  "CHR ''*'' \<notin> set q \<Longrightarrow> glob_match (q @ p) s \<Longrightarrow> length q \<le> length s \<and> glob_match p (drop (length q) s)"
proof (induction q arbitrary: s)
  case (Cons c q)
  then show ?case by (cases s) auto
qed simp

lemma fits_plain: "list_all2 fits q t \<Longrightarrow> CHR ''*'' \<notin> set q"
  by (induction q t rule: list_all2_induct) auto

lemma star_absorbs: "glob_match (CHR ''*'' # p) (drop k s) \<Longrightarrow> glob_match (CHR ''*'' # p) s"
proof (induction k arbitrary: s)
  case (Suc k)
  then show ?case by (cases s) auto
qed simp

text \<open>The three facts behind the loop: a new star may start where the text in between first fits; a mismatch moves the last
  star by one; at the end of the text the star ends here.\<close>

lemma next_star:
  assumes "list_all2 fits q t"
  shows "glob_match (CHR ''*'' # q @ CHR ''*'' # r) (t @ s) \<longleftrightarrow> glob_match (CHR ''*'' # r) s"
proof
  assume "glob_match (CHR ''*'' # q @ CHR ''*'' # r) (t @ s)"
  then obtain k where "glob_match (q @ CHR ''*'' # r) (drop k (t @ s))" unfolding match_star by blast
  from match_plain [OF fits_plain [OF assms] this] have "glob_match (CHR ''*'' # r) (drop (length q + k) (t @ s))"
    by (simp only: drop_drop)
  moreover have "drop (length q + k) (t @ s) = drop k s" using list_all2_lengthD [OF assms] by simp
  ultimately show "glob_match (CHR ''*'' # r) s" using star_absorbs by metis
next
  assume "glob_match (CHR ''*'' # r) s"
  then have "glob_match (q @ CHR ''*'' # r) (t @ s)" by (simp add: match_segment [OF assms] del: glob_match.simps)
  then show "glob_match (CHR ''*'' # q @ CHR ''*'' # r) (t @ s)" by simp
qed

lemma star_moves:
  assumes "list_all2 fits q t" and "r = [] \<or> (\<exists>d r'. r = d # r' \<and> d \<noteq> CHR ''*'' \<and> d \<noteq> CHR ''?'' \<and> d \<noteq> c)"
  shows "glob_match (CHR ''*'' # q @ r) (t @ c # s) \<longleftrightarrow> glob_match (CHR ''*'' # q @ r) (tl (t @ c # s))"
proof -
  have "\<not> glob_match (q @ r) (t @ c # s)" using match_segment [OF assms(1), of r "c # s"] assms(2) by auto
  then show ?thesis by (cases "t @ c # s") auto
qed

lemma star_ends:
  assumes "list_all2 fits q t"
  shows "glob_match (CHR ''*'' # q @ r) t \<longleftrightarrow> glob_match r []"
proof
  assume "glob_match (CHR ''*'' # q @ r) t"
  then obtain k where "glob_match (q @ r) (drop k t)" unfolding match_star by blast
  from match_plain [OF fits_plain [OF assms] this] list_all2_lengthD [OF assms] show "glob_match r []" by simp
next
  assume "glob_match r []"
  then have "glob_match (q @ r) (t @ [])" using match_segment [OF assms] by blast
  then show "glob_match (CHR ''*'' # q @ r) t" by simp
qed

lemma match_empty: "glob_match p [] \<longleftrightarrow> dropWhile (\<lambda>c. c = CHR ''*'') p = []"
  by (induction p) auto

definition glob_inv :: "string \<Rightarrow> string \<Rightarrow> glob_state \<Rightarrow> bool" where
  "glob_inv pat s g \<longleftrightarrow> gl_px g \<le> length pat \<and> gl_sx g \<le> length s \<and> gl_mark g \<le> gl_sx g \<and> (gl_failed g \<longrightarrow> \<not> glob_match pat s)
   \<and> (\<not> gl_failed g \<longrightarrow>
       (case gl_star g of
          None \<Rightarrow> glob_match pat s = glob_match (drop (gl_px g) pat) (drop (gl_sx g) s)
        | Some st \<Rightarrow> \<exists>q t. drop st pat = CHR ''*'' # q @ drop (gl_px g) pat \<and> drop (gl_mark g) s = t @ drop (gl_sx g) s \<and> list_all2 fits q t
            \<and> gl_px g = Suc st + length q \<and> glob_match pat s = glob_match (drop st pat) (drop (gl_mark g) s)))"

lemma glob_inv_star:
  "glob_inv pat s g \<Longrightarrow> \<not> gl_failed g \<Longrightarrow> gl_star g = Some st \<Longrightarrow>
    \<exists>q t. drop st pat = CHR ''*'' # q @ drop (gl_px g) pat \<and> drop (gl_mark g) s = t @ drop (gl_sx g) s \<and> list_all2 fits q t
       \<and> gl_px g = Suc st + length q \<and> glob_match pat s = glob_match (drop st pat) (drop (gl_mark g) s)"
  by (simp add: glob_inv_def del: glob_match.simps)

lemma glob_step_inv:
  assumes inv: "glob_inv pat s g" and run: "gl_sx g < length s" "\<not> gl_failed g"
  shows "glob_inv pat s (glob_step pat s g)"
proof -
  let ?p = "drop (gl_px g) pat" and ?s = "drop (gl_sx g) s"
  have s: "?s = s ! gl_sx g # drop (Suc (gl_sx g)) s" using run(1) by (simp add: Cons_nth_drop_Suc)
  have p: "gl_px g < length pat \<Longrightarrow> ?p = pat ! gl_px g # drop (Suc (gl_px g)) pat" by (simp add: Cons_nth_drop_Suc)
  have le: "gl_px g \<le> length pat" "gl_mark g \<le> gl_sx g" using inv by (simp_all add: glob_inv_def)
  consider (same) "gl_px g < length pat" "fits (pat ! gl_px g) (s ! gl_sx g)"
    | (star) "gl_px g < length pat" "pat ! gl_px g = CHR ''*''"
    | (miss) "?p = [] \<or> (\<exists>d r'. ?p = d # r' \<and> d \<noteq> CHR ''*'' \<and> d \<noteq> CHR ''?'' \<and> d \<noteq> s ! gl_sx g)"
        "\<not> (gl_px g < length pat \<and> (pat ! gl_px g = CHR ''?'' \<or> pat ! gl_px g = s ! gl_sx g) \<and> pat ! gl_px g \<noteq> CHR ''*'')"
        "\<not> (gl_px g < length pat \<and> pat ! gl_px g = CHR ''*'')"
    using p by (cases "gl_px g < length pat") auto
  then show ?thesis
  proof cases
    case same
    then have g': "glob_step pat s g = g\<lparr>gl_px := gl_px g + 1, gl_sx := gl_sx g + 1\<rparr>" by (auto simp: glob_step_def)
    show ?thesis
    proof (cases "gl_star g")
      case None
      with inv run p [OF same(1)] s same show ?thesis unfolding g' by (simp add: glob_inv_def)
    next
      case (Some st)
      from glob_inv_star [OF inv run(2) Some] obtain q t where "drop st pat = CHR ''*'' # q @ ?p" "drop (gl_mark g) s = t @ ?s" "list_all2 fits q t"
        "gl_px g = Suc st + length q" "glob_match pat s = glob_match (drop st pat) (drop (gl_mark g) s)" by blast
      with p [OF same(1)] s same(2) have "drop st pat = CHR ''*'' # (q @ [pat ! gl_px g]) @ drop (Suc (gl_px g)) pat"
        "drop (gl_mark g) s = (t @ [s ! gl_sx g]) @ drop (Suc (gl_sx g)) s" "list_all2 fits (q @ [pat ! gl_px g]) (t @ [s ! gl_sx g])"
        "Suc (gl_px g) = Suc st + length (q @ [pat ! gl_px g])" "glob_match pat s = glob_match (drop st pat) (drop (gl_mark g) s)"
        by (simp_all add: list_all2_appendI)
      with Some run same(1) le show ?thesis unfolding g' glob_inv_def
        by (simp del: append_assoc)
    qed
  next
    case star
    then have g': "glob_step pat s g = g\<lparr>gl_star := Some (gl_px g), gl_mark := gl_sx g, gl_px := gl_px g + 1\<rparr>" by (simp add: glob_step_def)
    have m: "glob_match pat s = glob_match ?p ?s"
    proof (cases "gl_star g")
      case None
      with inv run show ?thesis by (simp add: glob_inv_def)
    next
      case (Some st)
      from glob_inv_star [OF inv run(2) Some] obtain q t where q: "drop st pat = CHR ''*'' # q @ ?p" "drop (gl_mark g) s = t @ ?s" "list_all2 fits q t"
        "glob_match pat s = glob_match (drop st pat) (drop (gl_mark g) s)" by blast
      have p': "?p = CHR ''*'' # drop (Suc (gl_px g)) pat" using p [OF star(1)] star(2) by simp
      show ?thesis unfolding q(4) q(1,2) p' by (rule next_star [OF q(3)])
    qed
    have "drop (gl_px g) pat = CHR ''*'' # [] @ drop (Suc (gl_px g)) pat" using p [OF star(1)] star(2) by simp
    with m run star(1) show ?thesis unfolding g' glob_inv_def by fastforce
  next
    case miss
    show ?thesis
    proof (cases "gl_star g")
      case None
      with miss(2,3) have "glob_step pat s g = g\<lparr>gl_failed := True\<rparr>" by (auto simp: glob_step_def)
      moreover have "\<not> glob_match pat s" using None inv run miss(1) s by (auto simp: glob_inv_def)
      ultimately show ?thesis using inv run by (simp add: glob_inv_def)
    next
      case (Some st)
      with miss(2,3) have g': "glob_step pat s g = g\<lparr>gl_px := st + 1, gl_mark := gl_mark g + 1, gl_sx := gl_mark g + 1\<rparr>"
        by (auto simp: glob_step_def)
      from glob_inv_star [OF inv run(2) Some] obtain q t where q: "drop st pat = CHR ''*'' # q @ ?p" "drop (gl_mark g) s = t @ ?s" "list_all2 fits q t"
        "gl_px g = Suc st + length q" "glob_match pat s = glob_match (drop st pat) (drop (gl_mark g) s)" by blast
      have "drop (Suc (gl_mark g)) s = tl (drop (gl_mark g) s)" by (simp add: drop_Suc tl_drop)
      with q star_moves [OF q(3) miss(1), of "drop (Suc (gl_sx g)) s"] s
      have m: "glob_match pat s = glob_match (drop st pat) (drop (Suc (gl_mark g)) s)" by metis
      have "drop st pat = CHR ''*'' # [] @ drop (Suc st) pat" using q(1) by (metis append_Nil drop_Suc list.sel(3) tl_drop)
      with m Some run q(4) le show ?thesis unfolding g' glob_inv_def by fastforce
    qed
  qed
qed

text \<open>The loop ends: the last star moves on, or the positions do.\<close>

definition glob_span :: "string \<Rightarrow> string \<Rightarrow> nat" where
  "glob_span pat s = length s + length pat + 1"

definition glob_room :: "string \<Rightarrow> glob_state \<Rightarrow> nat" where
  "glob_room s g = length s - (case gl_star g of None \<Rightarrow> 0 | Some st \<Rightarrow> gl_mark g)"

lemma glob_room_moves [simp]: "glob_room s (g\<lparr>gl_px := x, gl_sx := y\<rparr>) = glob_room s g"
  by (simp add: glob_room_def split: option.split)

definition glob_left :: "string \<Rightarrow> string \<Rightarrow> glob_state \<Rightarrow> nat" where
  "glob_left pat s g =
     (if gl_failed g then 0
      else Suc (glob_room s g * glob_span pat s + (length s - gl_sx g) + (length pat - gl_px g)))"

lemma glob_step_left:
  assumes inv: "glob_inv pat s g" and run: "gl_sx g < length s" "\<not> gl_failed g"
  shows "glob_left pat s (glob_step pat s g) < glob_left pat s g"
proof -
  have le: "gl_px g \<le> length pat" "gl_mark g \<le> gl_sx g" using inv by (simp_all add: glob_inv_def)
  show ?thesis
  proof (cases "gl_px g < length pat \<and> (pat ! gl_px g = CHR ''?'' \<or> pat ! gl_px g = s ! gl_sx g) \<and> pat ! gl_px g \<noteq> CHR ''*''")
    case True
    then show ?thesis using run by (auto simp: glob_step_def glob_left_def)
  next
    case F: False
    show ?thesis
    proof (cases "gl_px g < length pat \<and> pat ! gl_px g = CHR ''*''")
      case True
      have "(length s - gl_sx g) * glob_span pat s \<le> glob_room s g * glob_span pat s"
        by (rule mult_le_mono1) (use le in \<open>auto simp: glob_room_def split: option.split\<close>)
      moreover have "glob_left pat s (glob_step pat s g) = Suc ((length s - gl_sx g) * glob_span pat s + (length s - gl_sx g) + (length pat - (gl_px g + 1)))"
        using F True run by (simp add: glob_step_def glob_left_def glob_room_def)
      moreover have "glob_left pat s g = Suc (glob_room s g * glob_span pat s + (length s - gl_sx g) + (length pat - gl_px g))"
        using run by (simp add: glob_left_def)
      ultimately show ?thesis using True by linarith
    next
      case False
      then show ?thesis
      proof (cases "gl_star g")
        case (Some st)
        have "length s - gl_mark g = Suc (length s - Suc (gl_mark g))" using le run by simp
        then have "(length s - gl_mark g) * glob_span pat s = glob_span pat s + (length s - Suc (gl_mark g)) * glob_span pat s"
          by (simp only: mult_Suc)
        moreover have "glob_step pat s g = g\<lparr>gl_px := st + 1, gl_mark := gl_mark g + 1, gl_sx := gl_mark g + 1\<rparr>"
          using F False Some by (auto simp: glob_step_def)
        then have "glob_left pat s (glob_step pat s g) =
            Suc ((length s - Suc (gl_mark g)) * glob_span pat s + (length s - Suc (gl_mark g)) + (length pat - Suc st))"
          using run Some by (simp add: glob_left_def glob_room_def)
        moreover have "glob_left pat s g = Suc ((length s - gl_mark g) * glob_span pat s + (length s - gl_sx g) + (length pat - gl_px g))"
          using run Some by (simp add: glob_left_def glob_room_def)
        moreover have "length s + length pat < glob_span pat s" by (simp add: glob_span_def)
        ultimately show ?thesis by linarith
      qed (use F False run in \<open>auto simp: glob_step_def glob_left_def\<close>)
    qed
  qed
qed

lemma glob_loop_ends: "\<exists>g. glob_loop pat s = Some g \<and> glob_inv pat s g \<and> \<not> (gl_sx g < length s \<and> \<not> gl_failed g)"
proof -
  let ?g = "\<lparr>gl_px = 0, gl_sx = 0, gl_star = None, gl_mark = 0, gl_failed = False\<rparr>"
  have init: "glob_inv pat s ?g" by (simp add: glob_inv_def)
  obtain g where g: "glob_loop pat s = Some g"
    using measure_while_option_Some [where P = "glob_inv pat s" and f = "glob_left pat s" and c = "glob_step pat s" and s = ?g
        and b = "\<lambda>g. gl_sx g < length s \<and> \<not> gl_failed g"] init glob_step_inv glob_step_left
    unfolding glob_loop_def by blast
  have "glob_inv pat s g"
    by (rule while_option_rule [where P = "glob_inv pat s", OF _ g [unfolded glob_loop_def] init]) (simp add: glob_step_inv)
  with g while_option_stop [OF g [unfolded glob_loop_def]] show ?thesis by blast
qed

text \<open>The wildcard matcher of the tool policy always ends and decides what its patterns mean: a star stands for any text,
  a question mark for any byte, every other character for itself.\<close>

lemma glob_correct: "glob pat s \<longleftrightarrow> glob_match pat s"
proof -
  obtain g where g: "glob_loop pat s = Some g" "glob_inv pat s g" "\<not> (gl_sx g < length s \<and> \<not> gl_failed g)"
    using glob_loop_ends by blast
  show ?thesis
  proof (cases "gl_failed g")
    case True
    with g show ?thesis by (simp add: glob_def glob_inv_def)
  next
    case False
    with g have e: "gl_sx g = length s" by (simp add: glob_inv_def)
    show ?thesis
    proof (cases "gl_star g")
      case None
      with g False e show ?thesis by (simp add: glob_def glob_inv_def match_empty)
    next
      case (Some st)
      from glob_inv_star [OF g(2) False Some] obtain q t where q: "drop st pat = CHR ''*'' # q @ drop (gl_px g) pat"
        "drop (gl_mark g) s = t @ drop (gl_sx g) s" "list_all2 fits q t"
        "glob_match pat s = glob_match (drop st pat) (drop (gl_mark g) s)" by blast
      moreover have "drop (gl_mark g) s = t" using q(2) e by simp
      ultimately have "glob_match pat s = glob_match (drop (gl_px g) pat) []" using star_ends [OF q(3)] by metis
      with g False show ?thesis by (simp add: glob_def match_empty)
    qed
  qed
qed

section \<open>Settings\<close>

definition AuthOAuth :: string where "AuthOAuth = ''oauth''"
definition AuthAPIKey :: string where "AuthAPIKey = ''apikey''"
definition AuthNone :: string where "AuthNone = ''none''"
definition TransportStreamable :: string where "TransportStreamable = ''streamable''"
definition TransportSSE :: string where "TransportSSE = ''sse''"
definition TransportAuto :: string where "TransportAuto = ''auto''"
definition LogMeta :: string where "LogMeta = ''meta''"
definition LogNone :: string where "LogNone = ''none''"
definition DefaultPath :: string where "DefaultPath = ''/mcp''"
definition DefaultHeadTimeoutSec :: int where "DefaultHeadTimeoutSec = 300"
definition MaxHeadTimeoutSec :: int where "MaxHeadTimeoutSec = 900"
definition DefaultIdleTimeoutSec :: int where "DefaultIdleTimeoutSec = 900"
definition MaxIdleTimeoutSec :: int where "MaxIdleTimeoutSec = 3600"
definition DefaultMaxRequest :: int where "DefaultMaxRequest = 1048576"
definition MaxMaxRequest :: int where "MaxMaxRequest = 8388608"
definition MaxRatePerMin :: int where "MaxRatePerMin = 6000"
definition MaxToolPatterns :: nat where "MaxToolPatterns = 100"
definition MaxToolPatternLen :: nat where "MaxToolPatternLen = 128"
definition MaxAllowedEmails :: nat where "MaxAllowedEmails = 200"
definition DefaultMaxStreams :: int where "DefaultMaxStreams = 20"

lemmas mcp_auth_defs = AuthOAuth_def AuthAPIKey_def AuthNone_def

record mcp_config =
  mf_path :: string
  mf_transport :: string
  mf_auth :: string
  mf_ack_no_auth :: bool
  mf_allow_tools :: "string list"
  mf_deny_tools :: "string list"
  mf_log_level :: string
  mf_max_request :: int
  mf_head_timeout :: int
  mf_idle_timeout :: int
  mf_rate_per_min :: int
  mf_max_streams :: int
  mf_allow_members :: bool
  mf_emails :: "string list"

definition default_config :: mcp_config where
  "default_config =
     \<lparr>mf_path = DefaultPath, mf_transport = TransportAuto, mf_auth = AuthOAuth, mf_ack_no_auth = False, mf_allow_tools = [], mf_deny_tools = [],
      mf_log_level = LogMeta, mf_max_request = DefaultMaxRequest, mf_head_timeout = DefaultHeadTimeoutSec,
      mf_idle_timeout = DefaultIdleTimeoutSec, mf_rate_per_min = 0, mf_max_streams = DefaultMaxStreams, mf_allow_members = True, mf_emails = []\<rparr>"

definition zero_config :: mcp_config where
  "zero_config =
     \<lparr>mf_path = [], mf_transport = [], mf_auth = [], mf_ack_no_auth = False, mf_allow_tools = [], mf_deny_tools = [], mf_log_level = [],
      mf_max_request = 0, mf_head_timeout = 0, mf_idle_timeout = 0, mf_rate_per_min = 0, mf_max_streams = 0, mf_allow_members = False,
      mf_emails = []\<rparr>"

text \<open>\<open>CleanPath\<close>.\<close>

definition bad_mcp_path :: "string \<Rightarrow> bool" where
  "bad_mcp_path p \<longleftrightarrow>
     \<not> has_prefix p ''/'' \<or> length p > 128
   \<or> list_ex (\<lambda>c. c \<in> {CHR ''?'', CHR ''#'', CHR ''%'', CHR 0x5C, CHR '' '', CHR 0x09, CHR 0x0D, CHR 0x0A, CHR 0x00}) p
   \<or> contains_sub p ''//'' \<or> contains_sub p ''/./'' \<or> contains_sub p ''/../'' \<or> has_suffix p ''/..'' \<or> has_suffix p ''/.''
   \<or> list_ex (\<lambda>c. code_of c < 32 \<or> code_of c > 126) p
   \<or> has_prefix p ''/.well-known'' \<or> has_prefix p ''/_zv''"

definition clean_mcp_path :: "string \<Rightarrow> string option" where
  "clean_mcp_path p0 =
     (let p = trim_space p0 in
      if bad_mcp_path p then None
      else Some (if length p > 1 then (let q = trim_right (\<lambda>c. c = CHR ''/'') p in if q = [] then ''/'' else q) else p))"

text \<open>\<open>cleanPatterns\<close>.\<close>

fun patterns_loop :: "string list \<Rightarrow> string list \<Rightarrow> string list option" where
  "patterns_loop out [] = Some out"
| "patterns_loop out (p0 # ps) =
     (let p = trim_space p0 in
      if p = [] \<or> p \<in> set out then patterns_loop out ps
      else if length p > MaxToolPatternLen then None
      else if list_ex (\<lambda>c. code_of c < 33 \<or> code_of c > 126) p then None
      else patterns_loop (out @ [p]) ps)"

definition clean_patterns :: "string list \<Rightarrow> string list option" where
  "clean_patterns ps = (if length ps > MaxToolPatterns then None else patterns_loop [] ps)"

fun emails_loop :: "string list \<Rightarrow> string list \<Rightarrow> string list option" where
  "emails_loop out [] = Some out"
| "emails_loop out (e0 # es) =
     (let e = to_lower (trim_space e0) in
      if e = [] then emails_loop out es
      else if length e > 254 \<or> list_ex (\<lambda>c. c \<in> {CHR '' '', CHR 0x09, CHR 0x0D, CHR 0x0A, CHR 0x00}) e then None
      else emails_loop (out @ [e]) es)"

definition clean_emails :: "string list \<Rightarrow> string list option" where
  "clean_emails es = (if length es > MaxAllowedEmails then None else emails_loop [] es)"

text \<open>\<open>Normalize\<close>; \<open>None\<close> is an error. The checks of the fields in the order of the code: the names, the numbers, the lists.\<close>

definition normalize_names :: "mcp_config \<Rightarrow> mcp_config option" where
  "normalize_names c =
     (case clean_mcp_path (if mf_path c = [] then DefaultPath else mf_path c) of
        None \<Rightarrow> None
      | Some p \<Rightarrow>
          let tr = (if mf_transport c = [] then TransportAuto else mf_transport c);
              au = (if mf_auth c = [] then AuthOAuth else mf_auth c);
              ll = (if mf_log_level c = [] then LogMeta else mf_log_level c) in
          if tr \<notin> {TransportStreamable, TransportSSE, TransportAuto} then None
          else if au \<notin> {AuthOAuth, AuthAPIKey, AuthNone} \<or> au = AuthNone \<and> \<not> mf_ack_no_auth c then None
          else if ll \<notin> {LogMeta, LogNone} then None
          else Some (c\<lparr>mf_path := p, mf_transport := tr, mf_auth := au, mf_log_level := ll\<rparr>))"

definition normalize_numbers :: "mcp_config \<Rightarrow> mcp_config option" where
  "normalize_numbers c =
     (let mr = (if mf_max_request c \<le> 0 then DefaultMaxRequest else mf_max_request c);
          ht = (if mf_head_timeout c \<le> 0 then DefaultHeadTimeoutSec else mf_head_timeout c);
          it = (if mf_idle_timeout c \<le> 0 then DefaultIdleTimeoutSec else mf_idle_timeout c);
          ms = (if mf_max_streams c \<le> 0 then DefaultMaxStreams else mf_max_streams c) in
      if mr > MaxMaxRequest then None
      else if ht > MaxHeadTimeoutSec then None
      else if it > MaxIdleTimeoutSec then None
      else if mf_rate_per_min c < 0 \<or> mf_rate_per_min c > MaxRatePerMin then None
      else if ms > 200 then None
      else Some (c\<lparr>mf_max_request := mr, mf_head_timeout := ht, mf_idle_timeout := it, mf_max_streams := ms\<rparr>))"

definition normalize_lists :: "mcp_config \<Rightarrow> mcp_config option" where
  "normalize_lists c =
     (case clean_patterns (mf_allow_tools c) of
        None \<Rightarrow> None
      | Some al \<Rightarrow>
          (case clean_patterns (mf_deny_tools c) of
             None \<Rightarrow> None
           | Some de \<Rightarrow>
               (case clean_emails (mf_emails c) of
                  None \<Rightarrow> None
                | Some em \<Rightarrow> Some (c\<lparr>mf_allow_tools := al, mf_deny_tools := de, mf_emails := em\<rparr>))))"

definition normalize_config :: "mcp_config \<Rightarrow> mcp_config option" where
  "normalize_config c = Option.bind (Option.bind (normalize_names c) normalize_numbers) normalize_lists"

text \<open>\<open>Parse\<close> and \<open>ParseLenient\<close>; \<open>fill c raw\<close> is the record after \<open>json.Unmarshal(raw, &c)\<close>, \<open>None\<close> an error.\<close>

definition parse_config :: "(mcp_config \<Rightarrow> string \<Rightarrow> mcp_config option) \<Rightarrow> string \<Rightarrow> mcp_config option" where
  "parse_config fill raw =
     (case (if raw \<noteq> [] \<and> raw \<noteq> ''{}'' \<and> raw \<noteq> ''null'' then fill default_config raw else Some default_config) of
        None \<Rightarrow> None
      | Some c \<Rightarrow> normalize_config c)"

definition lenient_config :: "(mcp_config \<Rightarrow> string \<Rightarrow> mcp_config option) \<Rightarrow> string \<Rightarrow> mcp_config" where
  "lenient_config fill raw =
     (case parse_config fill raw of
        Some c \<Rightarrow> c
      | None \<Rightarrow>
          let d = (case fill zero_config raw of
                     None \<Rightarrow> default_config
                   | Some probe \<Rightarrow> default_config\<lparr>mf_allow_tools := mf_allow_tools probe, mf_deny_tools := mf_deny_tools probe,
                       mf_auth := (if mf_auth probe = AuthAPIKey then AuthAPIKey else AuthOAuth), mf_emails := mf_emails probe,
                       mf_allow_members := mf_allow_members probe, mf_rate_per_min := mf_rate_per_min probe\<rparr>) in
          (case normalize_config d of None \<Rightarrow> default_config | Some d' \<Rightarrow> d'))"

section \<open>Policy and endpoints\<close>

definition has_tool_policy :: "mcp_config \<Rightarrow> bool" where
  "has_tool_policy c \<longleftrightarrow> mf_allow_tools c \<noteq> [] \<or> mf_deny_tools c \<noteq> []"

text \<open>The loop over the allowed patterns: \<open>None\<close> is an early refusal, otherwise whether there was a pattern and whether one matched.\<close>

fun allow_loop :: "string \<Rightarrow> bool \<times> bool \<Rightarrow> string list \<Rightarrow> (bool \<times> bool) option" where
  "allow_loop name st [] = Some st"
| "allow_loop name st (p # ps) =
     (if has_prefix p ''!'' then (if glob (drop 1 p) name then None else allow_loop name st ps)
      else allow_loop name (True, snd st \<or> glob p name) ps)"

definition tool_allowed :: "mcp_config \<Rightarrow> string \<Rightarrow> bool" where
  "tool_allowed c name =
     (case allow_loop name (False, False) (mf_allow_tools c) of
        None \<Rightarrow> False
      | Some (any, hit) \<Rightarrow>
          if list_ex (\<lambda>p. glob (trim_prefix p ''!'') name) (mf_deny_tools c) then False
          else \<not> (any \<and> \<not> hit))"

definition is_legacy_endpoint :: "mcp_config \<Rightarrow> string \<Rightarrow> bool" where
  "is_legacy_endpoint c canon \<longleftrightarrow> mf_transport c \<noteq> TransportStreamable \<and> (canon = ''/sse'' \<or> canon = ''/messages'')"

definition is_mcp_path :: "mcp_config \<Rightarrow> string \<Rightarrow> bool" where
  "is_mcp_path c canon \<longleftrightarrow> canon = mf_path c \<or> canon = trim_suffix (mf_path c) ''/'' \<or> is_legacy_endpoint c canon"

definition is_legacy_path :: "mcp_config \<Rightarrow> string \<Rightarrow> bool" where
  "is_legacy_path c canon \<longleftrightarrow> is_legacy_endpoint c canon \<and> canon \<noteq> mf_path c"

definition head_timeout :: "mcp_config \<Rightarrow> duration" where "head_timeout c = mf_head_timeout c * Second"
definition idle_timeout :: "mcp_config \<Rightarrow> duration" where "idle_timeout c = mf_idle_timeout c * Second"

text \<open>The policy without the loop: no refusing pattern matches, and an allowing one does if there is any.\<close>

definition refusals :: "mcp_config \<Rightarrow> string set" where
  "refusals c = {drop 1 p | p. p \<in> set (mf_allow_tools c) \<and> has_prefix p ''!''} \<union> (\<lambda>p. trim_prefix p ''!'') ` set (mf_deny_tools c)"

definition allowances :: "mcp_config \<Rightarrow> string set" where
  "allowances c = {p \<in> set (mf_allow_tools c). \<not> has_prefix p ''!''}"

lemma allow_loop_result:
  "allow_loop name (any, hit) ps =
     (if \<exists>p\<in>set ps. has_prefix p ''!'' \<and> glob (drop 1 p) name then None
      else Some (any \<or> (\<exists>p\<in>set ps. \<not> has_prefix p ''!''), hit \<or> (\<exists>p\<in>set ps. \<not> has_prefix p ''!'' \<and> glob p name)))"
  by (induction ps arbitrary: any hit) auto

lemma tool_allowed_iff:
  "tool_allowed c name \<longleftrightarrow>
     (\<forall>p\<in>refusals c. \<not> glob p name) \<and> (allowances c = {} \<or> (\<exists>p\<in>allowances c. glob p name))"
  by (auto simp: tool_allowed_def allow_loop_result refusals_def allowances_def list_ex_iff)

text \<open>C23: The loop of the wildcard matcher ends for every pattern and name, and the tool policy means what its patterns say: a tool may be called if and only if no refusing
  pattern (of the deny list, or of the allow list with an exclamation mark) describes its name and, where there are allowing
  patterns, one of them does. In a pattern a star stands for any text, a question mark for any byte, everything else for itself.\<close>

theorem tool_policy_correct:
  "(\<forall>p. \<exists>g. glob_loop p name = Some g) \<and>
   (tool_allowed c name \<longleftrightarrow>
     \<not> (\<exists>p\<in>refusals c. glob_match p name) \<and> (allowances c = {} \<or> (\<exists>p\<in>allowances c. glob_match p name)))"
proof
  show "\<forall>p. \<exists>g. glob_loop p name = Some g" using glob_loop_ends by blast
qed (auto simp: tool_allowed_iff glob_correct simp del: glob_match.simps)

lemma no_policy_allows: "\<not> has_tool_policy c \<Longrightarrow> tool_allowed c name"
  by (simp add: tool_allowed_iff has_tool_policy_def refusals_def allowances_def)

section \<open>Checked configurations\<close>

definition config_ok :: "mcp_config \<Rightarrow> bool" where
  "config_ok c \<longleftrightarrow> has_prefix (mf_path c) ''/'' \<and> \<not> has_prefix (mf_path c) ''/.well-known''
   \<and> mf_auth c \<in> {AuthOAuth, AuthAPIKey, AuthNone} \<and> (mf_auth c = AuthNone \<longrightarrow> mf_ack_no_auth c)
   \<and> 0 < mf_max_request c \<and> mf_max_request c \<le> MaxMaxRequest \<and> 0 < mf_head_timeout c \<and> mf_head_timeout c \<le> MaxHeadTimeoutSec
   \<and> 0 < mf_idle_timeout c \<and> mf_idle_timeout c \<le> MaxIdleTimeoutSec \<and> 0 \<le> mf_rate_per_min c \<and> mf_rate_per_min c \<le> MaxRatePerMin
   \<and> 0 < mf_max_streams c \<and> mf_max_streams c \<le> 200"

lemma trim_right_prefix: "\<exists>r. s = trim_right p s @ r"
  unfolding trim_right_def by (metis rev_append rev_rev_ident takeWhile_dropWhile_id)

lemma prefix_kept: "has_prefix (q @ r) [c] \<Longrightarrow> q \<noteq> [] \<Longrightarrow> has_prefix q [c]"
  by (cases q) auto

lemma prefix_longer: "has_prefix q w \<Longrightarrow> has_prefix (q @ r) w"
  by (auto simp: has_prefix_iff)

lemma clean_mcp_path_ok:
  assumes "clean_mcp_path p = Some q"
  shows "has_prefix q ''/'' \<and> \<not> has_prefix q ''/.well-known''"
proof -
  define t where "t = trim_space p"
  define u where "u = trim_right (\<lambda>c. c = CHR ''/'') t"
  have nb: "\<not> bad_mcp_path t" and q: "q = (if length t > 1 then (if u = [] then ''/'' else u) else t)"
    using assms by (simp_all add: clean_mcp_path_def t_def [symmetric] u_def [symmetric] Let_def split: if_split_asm)
  from nb have t: "has_prefix t ''/''" "\<not> has_prefix t ''/.well-known''" unfolding bad_mcp_path_def by blast+
  obtain r where "t = u @ r" unfolding u_def using trim_right_prefix by blast
  with t have u: "u \<noteq> [] \<Longrightarrow> has_prefix u ''/''" "\<not> has_prefix u ''/.well-known''"
    using prefix_kept prefix_longer by blast+
  have "has_prefix ''/'' ''/''" "\<not> has_prefix ''/'' ''/.well-known''" by simp_all
  with t u q show ?thesis by metis
qed

lemma normalize_ok: "normalize_config c = Some c' \<Longrightarrow> config_ok c'"
proof -
  assume "normalize_config c = Some c'"
  then obtain c1 c2 where c1: "normalize_names c = Some c1" and c2: "normalize_numbers c1 = Some c2" and c3: "normalize_lists c2 = Some c'"
    by (auto simp: normalize_config_def bind_eq_Some_conv)
  from c1 obtain p where p: "clean_mcp_path (if mf_path c = [] then DefaultPath else mf_path c) = Some p" "mf_path c1 = p"
    "mf_auth c1 \<in> {AuthOAuth, AuthAPIKey, AuthNone} \<and> (mf_auth c1 = AuthNone \<longrightarrow> mf_ack_no_auth c1)"
    unfolding normalize_names_def Let_def by (auto split: option.splits if_splits)
  from c2 have n: "0 < mf_max_request c2 \<and> mf_max_request c2 \<le> MaxMaxRequest \<and> 0 < mf_head_timeout c2 \<and> mf_head_timeout c2 \<le> MaxHeadTimeoutSec
     \<and> 0 < mf_idle_timeout c2 \<and> mf_idle_timeout c2 \<le> MaxIdleTimeoutSec \<and> 0 \<le> mf_rate_per_min c2 \<and> mf_rate_per_min c2 \<le> MaxRatePerMin
     \<and> 0 < mf_max_streams c2 \<and> mf_max_streams c2 \<le> 200"
    by (auto simp: normalize_numbers_def Let_def DefaultMaxRequest_def DefaultHeadTimeoutSec_def DefaultIdleTimeoutSec_def DefaultMaxStreams_def
        split: if_splits)
  have same: "mf_path c2 = mf_path c1" "mf_auth c2 = mf_auth c1" "mf_ack_no_auth c2 = mf_ack_no_auth c1"
    using c2 by (auto simp: normalize_numbers_def Let_def split: if_splits)
  obtain al de em where "c' = c2\<lparr>mf_allow_tools := al, mf_deny_tools := de, mf_emails := em\<rparr>"
    using c3 by (auto simp: normalize_lists_def split: option.splits)
  with n same p(2,3) clean_mcp_path_ok [OF p(1)] show ?thesis by (simp add: config_ok_def)
qed

lemma default_ok: "config_ok default_config"
  by code_simp

text \<open>Whatever is stored, the configuration the ingress works with is within the limits, and open to all only if that was
  acknowledged.\<close>

lemma lenient_ok: "config_ok (lenient_config fill raw)"
  using normalize_ok default_ok
  by (auto simp: lenient_config_def parse_config_def Let_def split: option.split)

text \<open>Tool policies can be lost when the stored settings are read. A stored configuration with a refusing pattern the checks do
  not accept (here one with a space) is replaced by the default: every tool may be called, and members of the organisation are
  admitted although the settings say no.\<close>

lemma lenient_config_drops_policy:
  assumes "fill default_config raw = Some (default_config\<lparr>mf_deny_tools := [''delete *''], mf_allow_members := False\<rparr>)"
    and "fill zero_config raw = Some (zero_config\<lparr>mf_deny_tools := [''delete *''], mf_allow_members := False\<rparr>)"
    and "raw \<noteq> []" and "raw \<noteq> ''{}''" and "raw \<noteq> ''null''"
  shows "lenient_config fill raw = default_config \<and> tool_allowed (lenient_config fill raw) name \<and> mf_allow_members (lenient_config fill raw)"
proof -
  have 1: "normalize_config (default_config\<lparr>mf_deny_tools := [''delete *''], mf_allow_members := False\<rparr>) = None" by code_simp
  have 2: "default_config\<lparr>mf_allow_tools := [], mf_deny_tools := [''delete *''], mf_auth := AuthOAuth, mf_emails := [],
      mf_allow_members := False, mf_rate_per_min := 0\<rparr> = default_config\<lparr>mf_deny_tools := [''delete *''], mf_allow_members := False\<rparr>" by code_simp
  have 3: "[] \<noteq> AuthAPIKey" by code_simp
  have "lenient_config fill raw = default_config"
    using assms 1 2 3 by (simp add: lenient_config_def parse_config_def zero_config_def)
  moreover have "\<not> has_tool_policy default_config" "mf_allow_members default_config" by code_simp+
  ultimately show ?thesis using no_policy_allows by simp
qed

lemma lenient_config_drops_policy_example:
  "tool_allowed (lenient_config (\<lambda>c raw. Some (c\<lparr>mf_deny_tools := [''delete *''], mf_allow_members := False\<rparr>)) ''x'') ''delete''"
  by (rule conjunct1 [OF conjunct2 [OF lenient_config_drops_policy]]) simp_all

end
