(* ===== verification/Net_Direct.thy ===== *)
theory Net_Direct
  imports Net_Relay
begin

text \<open>
  Direct paths in the running service: whom the server tells the addresses of a node
  (\<open>handleEndpoints\<close> and \<open>handlePunchReq\<close> of \<open>server/netctl/punch.go\<close>), over all histories of the
  state machine of \<open>Net_Relay\<close> (which leave out late closes). The link of the two nodes is promised while
  the caller is in the tables of its tenant: a revoked or swept node keeps the addresses it saw.
\<close>

text \<open>Nodes that see each other have been linked by the last recomputation.\<close>

lemma sees_linked:
  assumes i: "mgr_inv m" and t: "map_of (mg_tenants m) tid = Some t"
    and x: "(r, x) \<in> set (tenant_nodes (mg_heap m) t)" and y: "(d, y) \<in> set (tenant_nodes (mg_heap m) t)"
    and on: "n_ob y \<noteq> None" and s: "sees x y"
  shows "\<exists>S x' y'. map_of (mg_last m) tid = Some S \<and> (r, x') \<in> set (tenant_nodes (sn_heap S) (sn_tenant S))
    \<and> (d, y') \<in> set (tenant_nodes (sn_heap S) (sn_tenant S)) \<and> node_ip y' = node_ip y
    \<and> linked (sn_env S) (sn_tenant S) (tun_rules (sn_env S) (sn_heap S) (sn_tenant S)) (sn_now S) (r, x') (d, y')"
proof -
  have st: "struct_inv m" and se: "seen_inv (mg_last m) (mg_heap m) t" using i t by (simp_all add: mgr_inv_def)
  note ti = struct_tenant [OF st t]
  have snap: "\<forall>S. map_of (mg_last m) (tn_id t) = Some S \<longrightarrow> snapshot_ok S" using st unfolding struct_inv_def by blast
  have d: "d \<in> node_refs t" "map_of (mg_heap m) d = Some y" using y by (simp_all add: tenant_nodes_iff)
  have "tenant_ok (mg_heap m) t" using ti(2) by (simp add: tenant_inv_def)
  from tenant_okE [OF this d(1)] d(2) have "is4 (node_ip y)" by (metis option.inject)
  then obtain w where w: "node_ip y = IP4 w" by (cases "node_ip y") auto
  with s obtain v where v: "n_vis x = Some v" "w \<in> set v" by (auto simp: sees_def split: option.splits)
  from seen_link [OF se snap x v y on w] show ?thesis using ti(1) w by metis
qed

text \<open>
  A rightful message to outbox \<open>q\<close>: it carries exactly the key, the disco key and the stored addresses of the other one of
  the caller's node \<open>r\<close> and a peer \<open>d\<close> of its tenant. Both are online and use direct paths; they see each other, and while
  the caller is in the tables of its tenant the last recomputation found them linked in both directions.
\<close>

definition rightful_offer :: "manager \<Rightarrow> conn \<Rightarrow> ob_ref \<Rightarrow> ctrl_msg \<Rightarrow> bool" where
  "rightful_offer m c q msg \<longleftrightarrow> (\<exists>t r n d y to about nc. msg = CPunch (punch_about about nc) \<and> n_ob to = Some q
      \<and> (to = n \<and> about = y \<or> to = y \<and> about = n)
      \<and> cn_node c = Some r \<and> map_of (mg_heap m) r = Some n \<and> nr_tenant (n_rec n) = id_tenant (cn_id c)
      \<and> map_of (mg_tenants m) (id_tenant (cn_id c)) = Some t \<and> (d, y) \<in> set (tenant_nodes (mg_heap m) t)
      \<and> nr_tenant (n_rec y) = id_tenant (cn_id c) \<and> punchable (r, n) (d, y)
      \<and> endpoints_ok True (n_endpoints about) \<and> n_endpoints about \<noteq> []
      \<and> (r \<in> node_refs t \<longrightarrow> (\<exists>S x z x' z'. map_of (mg_last m) (id_tenant (cn_id c)) = Some S
          \<and> {(r, x), (d, z), (r, x'), (d, z')} \<subseteq> set (tenant_nodes (sn_heap S) (sn_tenant S))
          \<and> linked (sn_env S) (sn_tenant S) (tun_rules (sn_env S) (sn_heap S) (sn_tenant S)) (sn_now S) (r, x) (d, z)
          \<and> linked (sn_env S) (sn_tenant S) (tun_rules (sn_env S) (sn_heap S) (sn_tenant S)) (sn_now S) (d, z') (r, x'))))"

text \<open>C2: in every state that a history without late closes reaches (\<open>close\<close> steps of \<open>net_step\<close> happen while a
  session node is still in the tables of its tenant), the addresses a node reports, and its request to probe a peer,
  lead to messages to itself and to peers in the tables of its own tenant only, each of them about the other one of two
  online nodes of which each has the address of the other in its map. If the caller is still in the tables of its tenant,
  the last recomputation found the two linked by an active share or a rule, in both directions; for a caller that was
  revoked or swept and is still connected no link is promised. What is offered are at most 16 different addresses, none
  of them unspecified, multicast or link-local.\<close>

theorem punch_isolation:
  assumes reach: "net_reach (m, cs)" and c: "c \<in> set cs"
    and m': "m' = handle_endpoints lb now nonces eps c m \<or> m' = handle_punch_req now nonce pub c m"
  shows "sends_only (rightful_offer m' c) m m'"
proof -
  let ?tid = "id_tenant (cn_id c)"
  have "net_step (m, cs) (m', cs)" using m' net_step.endpoints [OF c] net_step.punch_req [OF c] by auto
  then have "net_ok (m', cs)" using net_reach.step [OF reach] net_reach_ok by blast
  with c have i: "mgr_inv m'" and cok: "conn_ok m' c" and clean: "heap_clean (mg_heap m')" by (simp_all add: net_ok_def)
  have eff: "punch_effect lb c m m'" using m' handle_endpoints_effect handle_punch_req_effect by auto
  show ?thesis
  proof (cases "m' = m")
    case False
    with punch_effect_sends [OF eff] obtain r where r: "cn_node c = Some r"
      "sends_only (\<lambda>q x. \<exists>t. map_of (mg_tenants m) ?tid = Some t \<and> punch_offer (mg_heap m') t r q x) m m'"
      by blast
    have tn: "mg_tenants m' = mg_tenants m" by (rule punch_effect_tables [OF eff])
    show ?thesis
    proof (rule sends_only_mono [OF r(2)], elim exE conjE)
      fix q msg t assume t: "map_of (mg_tenants m) ?tid = Some t" and off: "punch_offer (mg_heap m') t r q msg"
      from off obtain n d y to about nc where o: "map_of (mg_heap m') r = Some n" "(d, y) \<in> set (tenant_nodes (mg_heap m') t)"
        "punchable (r, n) (d, y)" "to = n \<and> about = y \<or> to = y \<and> about = n" "n_ob to = Some q" "n_endpoints about \<noteq> []"
        "msg = CPunch (punch_about about nc)"
        unfolding punch_offer_def by blast
      note t' = t [folded tn]
      have st: "struct_inv m'" using i by (simp add: mgr_inv_def)
      note ti = struct_tenant [OF st t']
      have ten: "nr_tenant (n_rec n) = ?tid" "nr_tenant (n_rec y) = ?tid"
        using cok r(1) o(1) tenant_invD(1) [OF ti(2) o(2)] ti(1) by (auto simp: conn_ok_def)
      have "endpoints_ok True (n_endpoints about)" using clean o(1,2,4) by (auto simp: heap_clean_def tenant_nodes_iff)
      moreover have "\<exists>S x z x' z'. map_of (mg_last m') ?tid = Some S
          \<and> {(r, x), (d, z), (r, x'), (d, z')} \<subseteq> set (tenant_nodes (sn_heap S) (sn_tenant S))
          \<and> linked (sn_env S) (sn_tenant S) (tun_rules (sn_env S) (sn_heap S) (sn_tenant S)) (sn_now S) (r, x) (d, z)
          \<and> linked (sn_env S) (sn_tenant S) (tun_rules (sn_env S) (sn_heap S) (sn_tenant S)) (sn_now S) (d, z') (r, x')"
        if "r \<in> node_refs t"
      proof -
        have rn: "(r, n) \<in> set (tenant_nodes (mg_heap m') t)" using that o(1) by (simp add: tenant_nodes_iff)
        have p: "n_ob n \<noteq> None" "n_ob y \<noteq> None" "sees n y" "sees y n" using o(3) by (simp_all add: punchable_def)
        from sees_linked [OF i t' rn o(2) p(2,3)] sees_linked [OF i t' o(2) rn p(1,4)] show ?thesis by fastforce
      qed
      ultimately show "rightful_offer m' c q msg"
        unfolding rightful_offer_def
        using r(1) o t' ten
        by (intro exI [of _ t] exI [of _ r] exI [of _ n] exI [of _ d] exI [of _ y] exI [of _ to] exI [of _ about] exI [of _ nc]) simp
    qed
  qed simp
qed
section \<open>Two devices\<close>

definition punch_env :: net_env where
  "punch_env = sample_env\<lparr>ev_punch := True\<rparr>"

definition punch_ident :: "string \<Rightarrow> identity" where
  "punch_ident c = (sample_ident c)\<lparr>id_punch := True\<rparr>"

definition punch_reg :: "string \<Rightarrow> register_msg" where
  "punch_reg c = (sample_reg c)\<lparr>rm_disco := sample_key ''D''\<rparr>"

definition punch_m2 :: "net_err option \<times> conn \<times> manager" where
  "punch_m2 = register punch_env sample_store 1 [] [] (punch_reg ''N'') (attach_conn (punch_ident ''nas'') 0) sample_m1"

definition punch_m3 :: "net_err option \<times> conn \<times> manager" where
  "punch_m3 = register punch_env sample_store 2 [] [] (punch_reg ''G'') (attach_conn (punch_ident ''guest'') 1) (snd (snd punch_m2))"

definition punch_m4 :: manager where
  "punch_m4 = (case punch_m3 of (_, c, m) \<Rightarrow>
     handle_endpoints False 3 (\<lambda>_. ''n'') [''203.0.113.9:9'', ''127.0.0.1:9'', ''169.254.1.1:9''] c m)"

definition punch_texts :: "ctrl_msg list \<Rightarrow> string list list" where
  "punch_texts xs = List.map_filter (\<lambda>x. case x of CPunch p \<Rightarrow> Some (pn_endpoints p) | _ \<Rightarrow> None) xs"

text \<open>The owner of the share is told the one usable address of the guest.\<close>

lemma punch_sent: "punch_texts (ctrl_queue punch_m4 0) = [[''203.0.113.9:9'']]"
  by code_simp
lemma punch_unsent: "punch_texts (ctrl_queue (snd (snd punch_m3)) 0) = []"
  by code_simp

lemma punch_fresh1: "case fst (tenant_locked punch_env sample_store ''t1'' sample_m1) of Inl _ \<Rightarrow> True | Inr t \<Rightarrow> fresh_id [] t"
  by code_simp

lemma punch_fresh2: "case fst (tenant_locked punch_env sample_store ''t1'' (snd (snd punch_m2))) of Inl _ \<Rightarrow> True | Inr t \<Rightarrow> fresh_id [] t"
  by code_simp

lemma punch_reach: "net_reach (snd (snd punch_m3), [fst (snd punch_m2), fst (snd punch_m3)])"
proof -
  let ?c = "\<lambda>c q. attach_conn (punch_ident c) q"
  have none: "cn_node (?c c q) = None" "id_tenant (cn_id (?c c q)) = ''t1''" for c q
    by (simp_all add: attach_conn_def punch_ident_def sample_ident_def)
  have pool: "pool4 (ev_pool punch_env)" using sample_world(2) by (simp add: punch_env_def)
  obtain e2 c2 m2 where m2: "punch_m2 = (e2, c2, m2)" by (metis surj_pair)
  obtain e3 c3 m3 where m3: "punch_m3 = (e3, c3, m3)" by (metis surj_pair)
  have r2: "net_reach (m2, [?c ''nas'' 0, ?c ''guest'' 1][0 := c2])"
    by (rule reach_register [OF two_conns _ _ sample_world(1) pool, where k = 0 and reg = "punch_reg ''N''" and now = 1 and ?rnd2.0 = "[]" and rnd = "[]"])
      (use none punch_fresh1 m2 in \<open>simp_all add: punch_m2_def\<close>)
  have "net_reach (m3, [c2, ?c ''guest'' 1][1 := c3])"
    by (rule reach_register [OF r2 [unfolded list_update_code] _ _ sample_world(1) pool, where k = 1 and reg = "punch_reg ''G''" and now = 2 and ?rnd2.0 = "[]" and rnd = "[]"])
      (use none punch_fresh2 [unfolded m2 snd_conv] m3 [unfolded punch_m3_def m2 snd_conv] in simp_all)
  then show ?thesis by (simp add: m2 m3)
qed

lemma punch_isolation_witness: "\<exists>msg \<in> set (ctrl_queue punch_m4 0). rightful_offer punch_m4 (fst (snd punch_m3)) 0 msg"
proof -
  have m4: "punch_m4 = handle_endpoints False 3 (\<lambda>_. ''n'') [''203.0.113.9:9'', ''127.0.0.1:9'', ''169.254.1.1:9'']
      (fst (snd punch_m3)) (snd (snd punch_m3))"
    unfolding punch_m4_def case_prod_beta by (rule refl)
  have "fst (snd punch_m3) \<in> set [fst (snd punch_m2), fst (snd punch_m3)]" by simp
  from punch_isolation [OF punch_reach this disjI1 [OF m4]]
  obtain new where new: "ctrl_queue punch_m4 0 = ctrl_queue (snd (snd punch_m3)) 0 @ new"
    "\<forall>x\<in>set new. rightful_offer punch_m4 (fst (snd punch_m3)) 0 x"
    unfolding sends_only_def by metis
  have "punch_texts new \<noteq> []"
    using punch_sent punch_unsent new(1) by (auto simp: punch_texts_def List.map_filter_def)
  then have "new \<noteq> []" by (auto simp: punch_texts_def List.map_filter_def)
  with new show ?thesis by (cases new) auto
qed

end
