(* ===== verification/Net_Info.thy ===== *)
theory Net_Info
  imports Net_Punch
begin

text \<open>
  What the administrator is shown: the nodes of a tenant and its active shares with the nodes connected to them and
  the state of their paths (\<open>Nodes\<close> and \<open>Shares\<close> of \<open>server/netctl/manager.go\<close>, \<open>pathBetween\<close> and
  \<open>SummarizePaths\<close> of \<open>punch.go\<close>).
\<close>

record node_info =
  ni_id :: string
  ni_kind :: string
  ni_client :: string
  ni_user :: string
  ni_name :: string
  ni_ip :: string
  ni_online :: bool
  ni_last_seen :: time
  ni_relayed :: int
  ni_tun :: bool
  ni_path :: string
  ni_rtt :: int

record share_info =
  sf_share :: share
  sf_owner_name :: string
  sf_owner_ip :: string
  sf_owner_online :: bool
  sf_connected :: "node_info list"
  sf_path :: string

definition info :: "node \<Rightarrow> node_info" where
  "info n =
     \<lparr>ni_id = nr_node (n_rec n), ni_kind = nr_kind (n_rec n), ni_client = nr_client (n_rec n), ni_user = su_user (n_sub n),
      ni_name = nr_name (n_rec n), ni_ip = addr_string (node_ip n), ni_online = n_ob n \<noteq> None,
      ni_last_seen = nr_last_seen (n_rec n), ni_relayed = n_relayed n, ni_tun = n_tun n, ni_path = [], ni_rtt = 0\<rparr>"

definition list_nodes :: "net_env \<Rightarrow> store \<Rightarrow> string \<Rightarrow> manager \<Rightarrow> (net_err + node_info list) \<times> manager" where
  "list_nodes E sto tid m =
     (case tenant_locked E sto tid m of
        (Inl e, m1) \<Rightarrow> (Inl e, m1)
      | (Inr t, m1) \<Rightarrow> (Inr (sort_key ni_name (map (\<lambda>(r, n). info n) (tenant_nodes (mg_heap m1) t))), m1))"

definition path_between :: "node \<Rightarrow> node \<Rightarrow> string \<times> int" where
  "path_between ow y =
     (case map_of (n_paths ow) (node_pub y) of
        Some st \<Rightarrow> (ps_path st, ps_rtt st)
      | None \<Rightarrow> (case map_of (n_paths y) (node_pub ow) of Some st \<Rightarrow> (ps_path st, ps_rtt st) | None \<Rightarrow> ([], 0)))"

definition summarize_paths :: "node_info list \<Rightarrow> string" where
  "summarize_paths conn =
     (let d = length (filter (\<lambda>c. ni_path c = PathDirect) conn); r = length (filter (\<lambda>c. ni_path c = PathRelay) conn) in
      if d > 0 \<and> r > 0 then ''mixed'' else if d > 0 then PathDirect else if r > 0 then PathRelay else [])"

text \<open>The node of a connected reader of a share, with its path to the owner if the owner is online.\<close>

definition connected_info :: "(node_ref \<times> node) option \<Rightarrow> node \<Rightarrow> node_info" where
  "connected_info ow y =
     (case ow of
        Some (_, x) \<Rightarrow> if n_ob x \<noteq> None then (info y)\<lparr>ni_path := fst (path_between x y), ni_rtt := snd (path_between x y)\<rparr> else info y
      | None \<Rightarrow> info y)"

definition share_owner :: "node_heap \<Rightarrow> tenant \<Rightarrow> share \<Rightarrow> (node_ref \<times> node) option" where
  "share_owner h t s = Option.bind (map_of (tn_by_client t) (sh_owner s)) (\<lambda>r. map_option (Pair r) (map_of h r))"

definition share_info_of :: "net_env \<Rightarrow> node_heap \<Rightarrow> tenant \<Rightarrow> share \<Rightarrow> share_info" where
  "share_info_of E h t s =
     (let ow = share_owner h t s;
          conn = map (\<lambda>(r, y). connected_info ow y)
            (filter (\<lambda>(r, y). map_option fst ow \<noteq> Some r \<and> n_ob y \<noteq> None \<and> share_matches E s (n_sub y)) (tenant_nodes h t)) in
      \<lparr>sf_share = s,
       sf_owner_name = (case ow of Some (_, x) \<Rightarrow> nr_name (n_rec x) | None \<Rightarrow> []),
       sf_owner_ip = (case ow of Some (_, x) \<Rightarrow> addr_string (node_ip x) | None \<Rightarrow> []),
       sf_owner_online = (case ow of Some (_, x) \<Rightarrow> n_ob x \<noteq> None | None \<Rightarrow> False),
       sf_connected = sort_key ni_name conn, sf_path = summarize_paths conn\<rparr>)"

definition list_shares :: "net_env \<Rightarrow> store \<Rightarrow> time \<Rightarrow> string \<Rightarrow> manager \<Rightarrow> (net_err + share_info list) \<times> manager" where
  "list_shares E sto now tid m =
     (case tenant_locked E sto tid m of
        (Inl e, m1) \<Rightarrow> (Inl e, m1)
      | (Inr t, m1) \<Rightarrow>
          (Inr (sort_key (\<lambda>si. - sh_created_at (sf_share si))
             (map (share_info_of E (mg_heap m1) t) (filter (share_active now) (map snd (tn_shares t))))), m1))"

section \<open>Reports and summaries\<close>

definition stats_ok :: "(string, path_stat) gomap \<Rightarrow> bool" where
  "stats_ok m \<longleftrightarrow> length m \<le> maxPathReports
     \<and> (\<forall>kst\<in>set m. ps_path (snd kst) \<in> {PathDirect, PathRelay} \<and> ps_rtt (snd kst) \<in> {0..60000})"

lemma stats_ok_put:
  assumes "stats_ok m" and "length m < maxPathReports" and "ps_path st \<in> {PathDirect, PathRelay}" and "ps_rtt st \<in> {0..60000}"
  shows "stats_ok (gm_put k st m)"
  unfolding stats_ok_def
proof (intro conjI ballI)
  show "length (gm_put k st m) \<le> maxPathReports" using assms(2) by (simp add: length_gm_put)
  fix x assume "x \<in> set (gm_put k st m)"
  with set_gm_put have "x = (k, st) \<or> x \<in> set m" by fast
  then show "ps_path (snd x) \<in> {PathDirect, PathRelay}" "ps_rtt (snd x) \<in> {0..60000}"
    using assms unfolding stats_ok_def by (auto simp only: snd_conv)
qed

lemma path_reports_ok: "stats_ok acc \<Longrightarrow> stats_ok (path_reports now acc ps)"
proof (induction now acc ps rule: path_reports.induct)
  case (2 now acc pub path rtt ps)
  show ?case
  proof (cases "length acc \<ge> maxPathReports \<or> path \<noteq> PathDirect \<and> path \<noteq> PathRelay")
    case False
    let ?st = "\<lparr>ps_path = path, ps_rtt = (if rtt < 0 \<or> rtt > 60000 then 0 else rtt), ps_at = now\<rparr>"
    have "stats_ok (gm_put pub ?st acc)" by (rule stats_ok_put [OF 2(3)]) (use False in auto)
    with 2(2) False show ?thesis by (auto simp: Let_def)
  qed (use 2 in \<open>auto simp: Let_def\<close>)
qed simp

lemma no_stats_ok [simp]: "stats_ok []"
  by (simp add: stats_ok_def)

lemma summarize_paths_mixed:
  "summarize_paths conn = ''mixed'' \<longleftrightarrow> (\<exists>c\<in>set conn. ni_path c = PathDirect) \<and> (\<exists>c\<in>set conn. ni_path c = PathRelay)"
  by (auto simp: summarize_paths_def Let_def PathDirect_def PathRelay_def filter_empty_conv)

lemma summarize_paths_direct:
  "summarize_paths conn = PathDirect \<longleftrightarrow> (\<exists>c\<in>set conn. ni_path c = PathDirect) \<and> (\<forall>c\<in>set conn. ni_path c \<noteq> PathRelay)"
  by (auto simp: summarize_paths_def Let_def PathDirect_def PathRelay_def filter_empty_conv)

text \<open>The list of a share names every online node that may use it\<dots>\<close>

lemma users_are_listed:
  assumes "share_owner h t s = Some (r, x)" and "y \<in> set (share_users E h t r s)" and "n_ob y \<noteq> None"
  shows "nr_node (n_rec y) \<in> ni_id ` set (sf_connected (share_info_of E h t s))"
proof -
  from assms(2) obtain d where d: "(d, y) \<in> set (tenant_nodes h t)" "d \<noteq> r" "may_use E (tn_id t) s (n_sub y)"
    by (auto simp: share_users_def)
  have "ni_id (connected_info ow y) = nr_node (n_rec y)" for ow
    by (auto simp: connected_info_def info_def split: option.split)
  moreover from d assms(1,3) have "connected_info (Some (r, x)) y \<in> set (sf_connected (share_info_of E h t s))"
    by (force simp: share_info_of_def Let_def may_use_def)
  ultimately show ?thesis by (metis imageI)
qed

text \<open>\<dots> and also nodes that the gate of the organisation keeps away from it.\<close>

lemma listed_despite_gate:
  "let E = sample_env\<lparr>ev_gate := (\<lambda>_ _ _. False)\<rparr> in
   map ni_client (sf_connected (share_info_of E sample_heap sample_tenant sample_share)) = [''guest'']
   \<and> share_users E sample_heap sample_tenant 0 sample_share = []"
  by code_simp

end
