(* ===== verification/Net_Sync.thy ===== *)
theory Net_Sync
  imports Net_Visibility
begin

text \<open>
  The network map a client holds follows what the server computes for it: the messages of
  \<open>node_push\<close> on one side, \<open>net_apply\<close> on the other, over any sequence of changes of the tenant,
  mode switches, resynchronisations and new registrations.
\<close>

section \<open>Tables keyed by their entries\<close>

lemma keyed_Nil [simp]: "keyed key []"
  by (simp add: keyed_def)

lemma keyed_put: "keyed key m \<Longrightarrow> key v = k \<Longrightarrow> keyed key (gm_put k v m)"
  by (auto simp: keyed_def distinct_update dest!: set_gm_put)

lemma keyed_put_peers: "keyed np_wg_pub m \<Longrightarrow> keyed np_wg_pub (put_peers ys m)"
  unfolding put_peers_def by (induction ys arbitrary: m) (simp_all add: keyed_put as_peer_def)

definition desired_keyed :: "desired_map \<Rightarrow> bool" where
  "desired_keyed d \<longleftrightarrow> keyed np_wg_pub (de_peers d) \<and> keyed si_id (de_in d) \<and> keyed so_id (de_out d)"

lemma desired_step_keyed: "desired_keyed d \<Longrightarrow> desired_keyed (desired_step E h t now xr x s d)"
  by (auto simp: desired_step_def desired_keyed_def Let_def keyed_put_peers keyed_put split: option.split)

lemma desired_is_keyed: "desired_keyed (desired E h t now xr x)"
  unfolding desired_def by (rule fold_keeps) (simp_all add: desired_step_keyed, simp add: desired_keyed_def)

lemma tun_step_keyed: "keyed np_wg_pub (fst pr) \<Longrightarrow> keyed np_wg_pub (fst (tun_peer_step E r x y pr))"
  by (auto simp: tun_peer_step_def Let_def keyed_put_peers split: prod.split)

lemma tun_fold_keyed:
  "keyed np_wg_pub (fst pr) \<Longrightarrow> keyed np_wg_pub (fst (fold (\<lambda>r. fold (tun_peer_step E r x) others) rules pr))"
  by (rule fold_keeps [where P = "\<lambda>p. keyed np_wg_pub (fst p)"], assumption)
    (rule fold_keeps [where P = "\<lambda>p. keyed np_wg_pub (fst p)"], simp_all add: tun_step_keyed)

definition goal_keyed :: "goal_map \<Rightarrow> bool" where
  "goal_keyed g \<longleftrightarrow> keyed np_wg_pub (go_peers g) \<and> keyed si_id (go_in g) \<and> keyed so_id (go_out g)"

lemma node_goal_keyed: "goal_keyed (node_goal E h t rules now xr x)"
  using desired_is_keyed [of E h t now xr x]
  by (auto simp: node_goal_def Let_def goal_keyed_def desired_keyed_def tun_desired_def tun_fold_keyed)

section \<open>Server and client in step\<close>

text \<open>What the server remembers as sent is what the client holds, once a full map was sent.
  \<open>rs\<close> is the resolver address of the tenant's network, which is fixed while it has nodes.\<close>

definition client_in_step :: "string \<Rightarrow> node \<Rightarrow> net_state \<Rightarrow> bool" where
  "client_in_step rs x s \<longleftrightarrow> (n_sent_full x \<longrightarrow>
     in_sync id (n_sent_peer x) (ns_peers s) \<and> in_sync id (n_sent_in x) (ns_shares_in s)
   \<and> in_sync id (n_sent_out x) (ns_shares_out s)
   \<and> ns_acl s = (case n_sent_acl x of None \<Rightarrow> [] | Some a \<Rightarrow> a)
   \<and> (\<forall>suffix recs. n_sent_dns x = Some (suffix, recs) \<longrightarrow>
        ns_dns s = Some \<lparr>nd_resolver = rs, nd_zone = TunZone, nd_suffix = suffix, nd_records = recs\<rparr>))"

definition client_has :: "string \<Rightarrow> tenant \<Rightarrow> bool \<Rightarrow> goal_map \<Rightarrow> net_state \<Rightarrow> bool" where
  "client_has rs t tun g s \<longleftrightarrow>
     map_of (ns_peers s) = map_of (go_peers g) \<and> map_of (ns_shares_in s) = map_of (go_in g)
   \<and> map_of (ns_shares_out s) = map_of (go_out g) \<and> ns_acl s = (if tun then go_acl g else [])
   \<and> (tun \<longrightarrow> ns_dns s = Some \<lparr>nd_resolver = rs, nd_zone = TunZone, nd_suffix = tn_slug t, nd_records = go_recs g\<rparr>)"

abbreviation resolver_of :: "tenant \<Rightarrow> string" where
  "resolver_of t \<equiv> addr_string (resolver_ip (ia_pool (tn_alloc t)))"

lemma inj_id': "inj (id :: 'a \<Rightarrow> 'a)" by simp

lemma apply_table_nothing: "apply_table False [] key [] m = m"
  by (simp add: apply_table_def)

lemma node_goal_acl: "\<not> n_tun x \<Longrightarrow> go_acl (node_goal E h t rules now xr x) = []"
  by (simp add: node_goal_def Let_def)

text \<open>The message takes an in-step client to the goal, and what is remembered is in step again.\<close>

lemma push_sent:
  assumes "client_in_step rs x s" and "goal_keyed g" and "resolver_of t = rs" and "\<not> n_tun x \<longrightarrow> go_acl g = []"
    and "m = build_map E t x g"
  shows "client_has rs t (n_tun x) g (net_apply m s)" and "client_in_step rs (mark_sent t g x) (net_apply m s)"
proof -
  let ?s = "net_apply m s"
  have k: "keyed np_wg_pub (go_peers g)" "keyed si_id (go_in g)" "keyed so_id (go_out g)"
    using assms(2) by (simp_all add: goal_keyed_def)
  have sy: "n_sent_full x \<Longrightarrow> in_sync id (n_sent_peer x) (ns_peers s)"
    "n_sent_full x \<Longrightarrow> in_sync id (n_sent_in x) (ns_shares_in s)"
    "n_sent_full x \<Longrightarrow> in_sync id (n_sent_out x) (ns_shares_out s)"
    using assms(1) by (simp_all add: client_in_step_def)
  have tables: "map_of (ns_peers ?s) = map_of (go_peers g)" "map_of (ns_shares_in ?s) = map_of (go_in g)"
    "map_of (ns_shares_out ?s) = map_of (go_out g)"
    using delta_correct [OF inj_id' k(1) sy(1)] delta_correct [OF inj_id' k(2) sy(2)] delta_correct [OF inj_id' k(3) sy(3)]
    by (auto simp: net_apply_def assms(5) build_map_def)
  have insync: "in_sync id (signatures id (go_peers g)) (ns_peers ?s)" "in_sync id (signatures id (go_in g)) (ns_shares_in ?s)"
    "in_sync id (signatures id (go_out g)) (ns_shares_out ?s)"
    using tables by (simp_all add: in_sync_def map_of_signatures)
  have acl: "ns_acl ?s = (if n_tun x then go_acl g else [])"
    using assms(1,4) by (cases "n_sent_full x"; cases "n_sent_acl x")
      (auto simp: net_apply_def assms(5) build_map_def acl_changed_def new_acl_def client_in_step_def)
  have dns: "ns_dns ?s = Some \<lparr>nd_resolver = rs, nd_zone = TunZone, nd_suffix = tn_slug t, nd_records = go_recs g\<rparr>" if "n_tun x"
    using assms(1) that by (cases "n_sent_full x")
      (auto simp: net_apply_def assms(5) build_map_def dns_changed_def new_dns_def client_in_step_def tun_dns_def assms(3) [symmetric])
  show "client_has rs t (n_tun x) g ?s" using tables acl dns by (simp add: client_has_def)
  show "client_in_step rs (mark_sent t g x) ?s"
    using insync acl dns by (auto simp: client_in_step_def mark_sent_def new_acl_def new_dns_def)
qed

lemma push_unchanged:
  assumes "client_in_step rs x s" and "goal_keyed g" and "resolver_of t = rs" and "\<not> n_tun x \<longrightarrow> go_acl g = []"
    and "\<not> map_changed t x g (build_map E t x g)"
  shows "client_has rs t (n_tun x) g s"
proof -
  let ?m = "build_map E t x g"
  have same: "n_sent_full x" "nm_peers ?m = []" "nm_removed_peers ?m = []" "nm_shares_in ?m = []" "nm_removed_in ?m = []"
    "nm_shares_out ?m = []" "nm_removed_out ?m = []" "\<not> nm_acl_set ?m" "nm_dns ?m = None"
    using assms(5) by (auto simp: map_changed_def build_map_def)
  have full: "\<not> nm_full ?m" using same(1) by (simp add: build_map_def)
  have "client_has rs t (n_tun x) g (net_apply ?m s)" by (rule push_sent(1) [OF assms(1-4) refl])
  moreover have "ns_peers (net_apply ?m s) = ns_peers s" "ns_shares_in (net_apply ?m s) = ns_shares_in s"
    "ns_shares_out (net_apply ?m s) = ns_shares_out s" "ns_acl (net_apply ?m s) = ns_acl s" "ns_dns (net_apply ?m s) = ns_dns s"
    using same full by (simp_all add: net_apply_def apply_table_nothing)
  ultimately show ?thesis by (simp add: client_has_def)
qed

section \<open>Runs\<close>

text \<open>What happens to one node and its client: the server recomputes (\<open>True\<close> when the queue takes the
  message, which then reaches the client), the node switches its mode, asks for a new full map, or
  registers again; the other fields of the node may change at any time.\<close>

datatype sync_event =
    Recompute net_env node_heap tenant "tun_rule list" time node_ref bool
  | SwitchMode bool
  | Resync
  | Reregister
  | OtherFields node_rec subject "ob_ref option" string

fun sync_step :: "sync_event \<Rightarrow> node \<times> net_state \<Rightarrow> node \<times> net_state" where
  "sync_step (Recompute E h t rules now xr ok) (x, s) =
     (case node_push E t (node_goal E h t rules now xr x) ok x of
        (None, x') \<Rightarrow> (x', s)
      | (Some m, x') \<Rightarrow> (x', if ok then net_apply m s else s))"
| "sync_step (SwitchMode b) (x, s) = (x\<lparr>n_tun := b\<rparr>, s)"
| "sync_step Resync (x, s) = (x\<lparr>n_sent_full := False\<rparr>, s)"
| "sync_step Reregister (x, s) = (x\<lparr>n_sent_full := False, n_tun := False, n_sent_acl := None, n_sent_dns := None\<rparr>, s)"
| "sync_step (OtherFields rec sub ob disco) (x, s) = (x\<lparr>n_rec := rec, n_sub := sub, n_ob := ob, n_disco := disco\<rparr>, s)"

fun event_pool :: "sync_event \<Rightarrow> string option" where
  "event_pool (Recompute E h t rules now xr ok) = Some (resolver_of t)"
| "event_pool _ = None"

lemma node_push_vis: "client_in_step rs (x\<lparr>n_vis := v\<rparr>) s = client_in_step rs x s"
  by (simp add: client_in_step_def)

lemma recompute_step:
  assumes "client_in_step rs x s" and "resolver_of t = rs"
    and "sync_step (Recompute E h t rules now xr ok) (x, s) = (x', s')"
  shows "client_in_step rs x' s'"
    and "ok \<Longrightarrow> client_has rs t (n_tun x) (node_goal E h t rules now xr x) s'"
proof -
  let ?g = "node_goal E h t rules now xr x"
  let ?x = "x\<lparr>n_vis := Some (vis_set (go_peers ?g))\<rparr>"
  have st: "client_in_step rs ?x s" using assms(1) by (simp add: node_push_vis)
  have acl: "\<not> n_tun ?x \<longrightarrow> go_acl ?g = []" by (simp add: node_goal_acl)
  note sent = push_sent [OF st node_goal_keyed assms(2) acl refl, of E]
  have "client_in_step rs x' s' \<and> (ok \<longrightarrow> client_has rs t (n_tun x) ?g s')"
  proof (cases "map_changed t ?x ?g (build_map E t ?x ?g)")
    case True
    then have "node_push E t ?g ok x = (Some (build_map E t ?x ?g), if ok then mark_sent t ?g ?x else ?x)"
      by (simp add: node_push_def Let_def)
    with assms(3) have "x' = (if ok then mark_sent t ?g ?x else ?x)" "s' = (if ok then net_apply (build_map E t ?x ?g) s else s)"
      by auto
    with sent st show ?thesis by (cases ok) simp_all
  next
    case False
    then have "node_push E t ?g ok x = (None, ?x)" by (simp add: node_push_def Let_def)
    with assms(3) have "x' = ?x" "s' = s" by auto
    with st push_unchanged [OF st node_goal_keyed assms(2) acl False] show ?thesis by simp
  qed
  then show "client_in_step rs x' s'" "ok \<Longrightarrow> client_has rs t (n_tun x) ?g s'" by blast+
qed

lemma sync_step_in_step:
  assumes "client_in_step rs (fst p) (snd p)" and "event_pool e = None \<or> event_pool e = Some rs"
  shows "client_in_step rs (fst (sync_step e p)) (snd (sync_step e p))"
proof (cases "(e, p)" rule: sync_step.cases)
  case (1 E h t rules now xr ok x s)
  with assms recompute_step(1) [of rs x s t E h rules now xr ok] show ?thesis
    by (cases "sync_step e p") simp
qed (use assms in \<open>auto simp: client_in_step_def\<close>)

lemma sync_run_in_step:
  "client_in_step rs (fst p) (snd p) \<Longrightarrow> \<forall>e\<in>set es. event_pool e = None \<or> event_pool e = Some rs \<Longrightarrow>
   client_in_step rs (fst (fold sync_step es p)) (snd (fold sync_step es p))"
  by (induction es arbitrary: p) (simp_all add: sync_step_in_step)

section \<open>Property\<close>

text \<open>C12: The client's network map is what the server computed. From the registration of a node on,
  after any sequence of recomputations (whose messages are deltas, and may fail to be queued), mode
  switches, resynchronisations and re-registrations, a recomputation whose message is queued leaves
  the client with exactly the desired peers, incoming and outgoing shares, with the access rules of
  Mod B or none in Mod A, and in Mod B with the current names.\<close>

theorem client_map_converges:
  assumes "\<forall>e\<in>set es. event_pool e = None \<or> event_pool e = Some (resolver_of t)"
    and "fold sync_step es (x0\<lparr>n_sent_full := False\<rparr>, s0) = (x, s)"
    and "sync_step (Recompute E h t rules now xr True) (x, s) = (x', s')"
  shows "client_has (resolver_of t) t (n_tun x) (node_goal E h t rules now xr x) s'"
proof -
  have "client_in_step (resolver_of t) (x0\<lparr>n_sent_full := False\<rparr>) s0" by (simp add: client_in_step_def)
  then have "client_in_step (resolver_of t) x s"
    using sync_run_in_step [OF _ assms(1), of "(x0\<lparr>n_sent_full := False\<rparr>, s0)"] assms(2) by simp
  from recompute_step(2) [OF this refl assms(3)] show ?thesis by simp
qed

theorem client_map_converges_witness:
  "let x = sample_node ''guest'' ''K2'' 0x64400101\<lparr>n_sent_full := False, n_tun := True\<rparr>;
       g = node_goal sample_env sample_heap sample_tenant [] 0 1 x;
       s = snd (sync_step (Recompute sample_env sample_heap sample_tenant [] 0 1 True) (x, new_net_state)) in
   client_has (resolver_of sample_tenant) sample_tenant True g s
   \<and> map fst (go_peers g) = [''K1''] \<and> map fst (go_in g) = [''shr_1'']"
proof -
  let ?y = "sample_node ''guest'' ''K2'' 0x64400101"
  let ?x = "?y\<lparr>n_sent_full := False, n_tun := True\<rparr>"
  have run: "fold sync_step [SwitchMode True, Resync] (?y\<lparr>n_sent_full := False\<rparr>, new_net_state) = (?x, new_net_state)"
    by (simp add: sample_node_def)
  have tun: "n_tun ?x = True" by simp
  have goal: "map fst (go_peers (node_goal sample_env sample_heap sample_tenant [] 0 1 ?x)) = [''K1'']
    \<and> map fst (go_in (node_goal sample_env sample_heap sample_tenant [] 0 1 ?x)) = [''shr_1'']"
    by code_simp
  show ?thesis
    unfolding Let_def
    using client_map_converges [OF _ run surjective_pairing, of sample_tenant, unfolded tun] goal
    by (simp del: sync_step.simps)
qed

end
