(* ===== verification/OAuth_Scopes.thy ===== *)
theory OAuth_Scopes
  imports Go_Strings "HOL-Library.Char_ord" "HOL-Library.List_Lexorder"
begin

text \<open>
  The scopes of the OAuth server (\<open>server/oauthas/scopes.go\<close>, and the list helpers of \<open>consent.go\<close>): the catalogue,
  the text form, what a scope implies, and the expansion to the scopes of the REST API.
\<close>

section \<open>Text\<close>

text \<open>\<open>strings.Fields\<close> and \<open>strings.Join\<close> with a space.\<close>

function fields_of :: "string \<Rightarrow> string list" where
  "fields_of s =
     (case dropWhile is_space s of
        [] \<Rightarrow> []
      | c # cs \<Rightarrow> (c # takeWhile (\<lambda>x. \<not> is_space x) cs) # fields_of (dropWhile (\<lambda>x. \<not> is_space x) cs))"
  by auto
termination
proof (relation "measure length")
  fix s c :: string and d assume "dropWhile is_space s = d # c"
  then have "Suc (length c) \<le> length s" using length_dropWhile_le [of is_space s] by simp
  then show "(dropWhile (\<lambda>x. \<not> is_space x) c, s) \<in> measure length"
    using length_dropWhile_le [of "\<lambda>x. \<not> is_space x" c] by simp
qed simp

declare fields_of.simps [simp del]

fun join_space :: "string list \<Rightarrow> string" where
  "join_space [] = []"
| "join_space [s] = s"
| "join_space (s # t # ss) = s @ CHR '' '' # join_space (t # ss)"

definition word_ok :: "string \<Rightarrow> bool" where
  "word_ok w \<longleftrightarrow> w \<noteq> [] \<and> (\<forall>c\<in>set w. \<not> is_space c)"

lemma fields_of_Nil [simp]: "fields_of [] = []"
  by (simp add: fields_of.simps)

lemma fields_of_space: "is_space c \<Longrightarrow> fields_of (c # cs) = fields_of cs"
  by (simp add: fields_of.simps [of "c # cs"] fields_of.simps [of cs])

lemma fields_of_Cons:
  "\<not> is_space c \<Longrightarrow> fields_of (c # cs) = (c # takeWhile (\<lambda>x. \<not> is_space x) cs) # fields_of (dropWhile (\<lambda>x. \<not> is_space x) cs)"
  by (simp add: fields_of.simps [of "c # cs"])

lemma space_char: "is_space (CHR '' '')"
  by code_simp

lemma fields_of_word:
  assumes "word_ok w"
  shows "fields_of w = [w]" and "fields_of (w @ CHR '' '' # r) = w # fields_of r"
proof -
  obtain c cs where w: "w = c # cs" "\<not> is_space c" "\<forall>x\<in>set cs. \<not> is_space x"
    using assms by (cases w) (auto simp: word_ok_def)
  then have tw: "takeWhile (\<lambda>x. \<not> is_space x) cs = cs" "dropWhile (\<lambda>x. \<not> is_space x) cs = []"
    by (simp_all add: takeWhile_eq_all_conv dropWhile_eq_Nil_conv)
  show "fields_of w = [w]" unfolding w(1) fields_of_Cons [OF w(2)] tw by simp
  have "takeWhile (\<lambda>x. \<not> is_space x) (cs @ CHR '' '' # r) = cs" "dropWhile (\<lambda>x. \<not> is_space x) (cs @ CHR '' '' # r) = CHR '' '' # r"
    using w(3) space_char by (simp_all add: takeWhile_append2 dropWhile_append2)
  then show "fields_of (w @ CHR '' '' # r) = w # fields_of r"
    using fields_of_Cons [OF w(2), of "cs @ CHR '' '' # r"] w(1) fields_of_space [OF space_char] by simp
qed

lemma fields_of_join: "\<forall>w\<in>set ws. word_ok w \<Longrightarrow> fields_of (join_space ws) = ws"
  by (induction ws rule: join_space.induct) (simp_all add: fields_of_word)

section \<open>The catalogue\<close>

definition ScopeMCPRead :: string where "ScopeMCPRead = ''mcp:read''"
definition ScopeMCPManage :: string where "ScopeMCPManage = ''mcp:manage''"
definition ScopeTunnelAccess :: string where "ScopeTunnelAccess = ''mcp''"
definition ScopeTunnelsDelete :: string where "ScopeTunnelsDelete = ''tunnels:delete''"
definition ScopeHostnamesDelete :: string where "ScopeHostnamesDelete = ''hostnames:delete''"
definition ScopeFull :: string where "ScopeFull = ''full''"

lemmas scope_names = ScopeMCPRead_def ScopeMCPManage_def ScopeTunnelAccess_def ScopeTunnelsDelete_def ScopeHostnamesDelete_def ScopeFull_def

record scope_info =
  si_id :: string
  si_write :: bool
  si_destructive :: bool
  si_full :: bool

definition scope_catalog :: "scope_info list" where
  "scope_catalog =
     map (\<lambda>(i, w, d, f). \<lparr>si_id = i, si_write = w, si_destructive = d, si_full = f\<rparr>)
       [(ScopeMCPRead, False, False, False), (ScopeMCPManage, True, False, False),
        (''clients:read'', False, False, False), (''clients:write'', True, False, False),
        (''tunnels:read'', False, False, False), (''tunnels:write'', True, False, False),
        (ScopeTunnelsDelete, True, True, False),
        (''hostnames:read'', False, False, False), (''hostnames:write'', True, False, False),
        (ScopeHostnamesDelete, True, True, False), (''analytics:read'', False, False, False),
        (ScopeTunnelAccess, False, False, False), (ScopeFull, True, False, True)]"

definition supported_scopes :: "string list" where
  "supported_scopes = map si_id scope_catalog"

definition scope_info_of :: "string \<Rightarrow> scope_info option" where
  "scope_info_of i = find (\<lambda>s. si_id s = i) scope_catalog"

text \<open>The zero value stands for an unknown scope, as in the code.\<close>

definition destructive :: "string \<Rightarrow> bool" where
  "destructive i = (case scope_info_of i of None \<Rightarrow> False | Some s \<Rightarrow> si_destructive s)"

text \<open>\<open>ParseScopes\<close>: the scopes without repetition, and the first unknown one.\<close>

fun parse_loop :: "string list \<Rightarrow> string list \<Rightarrow> string list \<times> string" where
  "parse_loop acc [] = (acc, [])"
| "parse_loop acc (f # fs) =
     (if f \<in> set acc then parse_loop acc fs
      else case scope_info_of f of None \<Rightarrow> ([], f) | Some s \<Rightarrow> parse_loop (acc @ [f]) fs)"

definition parse_scopes :: "string \<Rightarrow> string list \<times> string" where
  "parse_scopes s = parse_loop [] (fields_of s)"

fun unique_loop :: "string list \<Rightarrow> string list \<Rightarrow> string list" where
  "unique_loop acc [] = acc"
| "unique_loop acc (f # fs) = unique_loop (if f \<in> set acc then acc else acc @ [f]) fs"

definition unique_scopes :: "string list \<Rightarrow> string list" where
  "unique_scopes ss = unique_loop [] ss"

definition without_scope :: "string list \<Rightarrow> string \<Rightarrow> string list" where
  "without_scope ss d = filter (\<lambda>s. s \<noteq> d) ss"

definition has_scope :: "string list \<Rightarrow> string \<Rightarrow> bool" where
  "has_scope ss w \<longleftrightarrow> w \<in> set ss"

definition has_full :: "string list \<Rightarrow> bool" where
  "has_full ss \<longleftrightarrow> has_scope ss ScopeFull"

text \<open>What a set of scopes implies.\<close>

definition covers :: "string list \<Rightarrow> string \<Rightarrow> bool" where
  "covers super s \<longleftrightarrow>
     s \<in> set super
   \<or> (if ScopeFull \<in> set super then s \<noteq> ScopeTunnelAccess
      else ScopeMCPManage \<in> set super \<and> s \<in> {ScopeMCPRead, ''tunnels:write'', ''hostnames:write'', ''clients:write''}
         \<or> (ScopeMCPRead \<in> set super \<or> ScopeMCPManage \<in> set super) \<and> has_suffix s '':read'' \<and> s \<noteq> ScopeMCPRead)"

definition subset_of :: "string list \<Rightarrow> string list \<Rightarrow> bool" where
  "subset_of sub super \<longleftrightarrow> list_all (covers super) sub"

text \<open>\<open>APIScopes\<close>, sorted.\<close>

definition api_of :: "string \<Rightarrow> string list" where
  "api_of s =
     (if s = ScopeMCPRead then [''read'']
      else if s = ScopeMCPManage then [''read'', ''tunnels:write'', ''hostnames:write'', ''clients:write'']
      else if s = ScopeFull then [ScopeFull]
      else if s = ScopeTunnelAccess then []
      else if s = ScopeTunnelsDelete then [ScopeTunnelsDelete, ''tunnels:read'']
      else if s = ScopeHostnamesDelete then [ScopeHostnamesDelete, ''hostnames:read'']
      else if scope_info_of s \<noteq> None then [s] else [])"

definition api_scopes :: "string list \<Rightarrow> string list" where
  "api_scopes ss = sort (remdups (concat (map api_of ss)))"

section \<open>Facts\<close>

lemma known_scopes: "scope_info_of i \<noteq> None \<longleftrightarrow> i \<in> set supported_scopes"
  by (auto simp: scope_info_of_def supported_scopes_def find_None_iff)

lemma supported_words: "\<forall>i\<in>set supported_scopes. word_ok i"
  by code_simp

lemma parse_loop_known:
  "\<forall>f\<in>set fs. f \<in> set supported_scopes \<Longrightarrow> parse_loop acc fs = (unique_loop acc fs, [])"
proof (induction fs arbitrary: acc)
  case (Cons f fs)
  then obtain i where "scope_info_of f = Some i" using known_scopes [of f] by auto
  with Cons show ?case by auto
qed simp

lemma set_unique_loop: "set (unique_loop acc fs) = set acc \<union> set fs"
  by (induction fs arbitrary: acc) auto

lemma set_unique_scopes [simp]: "set (unique_scopes ss) = set ss"
  by (simp add: unique_scopes_def set_unique_loop)

text \<open>What is stored as text is read back: the known scopes without repetition.\<close>

lemma parse_join:
  assumes "\<forall>s\<in>set ss. s \<in> set supported_scopes"
  shows "parse_scopes (join_space ss) = (unique_scopes ss, [])"
  using assms supported_words by (simp add: parse_scopes_def fields_of_join parse_loop_known unique_scopes_def)

lemma parse_loop_ok:
  "parse_loop acc fs = (ss, []) \<Longrightarrow> \<forall>s\<in>set acc. s \<in> set supported_scopes \<Longrightarrow> \<forall>s\<in>set ss. s \<in> set supported_scopes"
proof (induction fs arbitrary: acc)
  case (Cons f fs)
  show ?case
  proof (cases "f \<in> set acc")
    case True
    with Cons show ?thesis by simp
  next
    case new: False
    show ?thesis
    proof (cases "scope_info_of f")
      case None
      with Cons.prems new have "ss = []" by simp
      then show ?thesis by simp
    next
      case (Some i)
      then have "f \<in> set supported_scopes" using known_scopes [of f] by simp
      with Cons.IH [of "acc @ [f]"] Cons.prems new Some show ?thesis by simp
    qed
  qed
qed simp

lemma parse_scopes_ok: "parse_scopes s = (ss, []) \<Longrightarrow> \<forall>x\<in>set ss. x \<in> set supported_scopes"
  using parse_loop_ok [of "[]" "fields_of s" ss] by (simp add: parse_scopes_def)

lemma covers_cong: "set super = set super' \<Longrightarrow> covers super s = covers super' s"
  by (simp add: covers_def)

lemma subset_of_refl: "subset_of ss ss"
  by (simp add: subset_of_def covers_def list_all_iff)

lemma covers_full_only: "covers super ScopeFull \<longleftrightarrow> ScopeFull \<in> set super"
  by (auto simp: covers_def scope_names has_suffix_def)

lemma covers_trans:
  assumes "subset_of sub super" and "covers sub s"
  shows "covers super s"
proof -
  have m: "x \<in> set sub \<Longrightarrow> covers super x" for x using assms(1) by (simp add: subset_of_def list_all_iff)
  have r: "has_suffix ScopeMCPRead '':read''" by code_simp
  have d: "ScopeFull \<noteq> ScopeTunnelAccess" "ScopeMCPManage \<noteq> ScopeTunnelAccess" "ScopeMCPRead \<noteq> ScopeTunnelAccess" "ScopeMCPManage \<noteq> ScopeMCPRead"
    "ScopeMCPManage \<noteq> ScopeFull" "ScopeMCPRead \<noteq> ScopeFull" "\<not> has_suffix ScopeTunnelAccess '':read''" "\<not> has_suffix ScopeMCPManage '':read''"
    "ScopeMCPManage \<notin> {ScopeMCPRead, ''tunnels:write'', ''hostnames:write'', ''clients:write''}"
    "ScopeTunnelAccess \<notin> {ScopeMCPRead, ''tunnels:write'', ''hostnames:write'', ''clients:write''}"
    by code_simp+
  have full: "ScopeFull \<in> set sub \<Longrightarrow> ScopeFull \<in> set super" using m [of ScopeFull] by (simp add: covers_full_only)
  have manage: "ScopeMCPManage \<in> set sub \<Longrightarrow> ScopeFull \<in> set super \<or> ScopeMCPManage \<in> set super"
    using m [of ScopeMCPManage] d by (auto simp: covers_def split: if_splits)
  have read: "ScopeMCPRead \<in> set sub \<Longrightarrow> ScopeFull \<in> set super \<or> ScopeMCPManage \<in> set super \<or> ScopeMCPRead \<in> set super"
    using m [of ScopeMCPRead] by (auto simp: covers_def split: if_splits)
  have tunnel: "s = ScopeTunnelAccess \<Longrightarrow> s \<in> set sub" using assms(2) d unfolding covers_def by metis
  show ?thesis
  proof (cases "s \<in> set sub")
    case True
    then show ?thesis by (rule m)
  next
    case False
    then have t: "s \<noteq> ScopeTunnelAccess" using tunnel by blast
    show ?thesis using assms(2) False t full manage read unfolding covers_def by metis
  qed
qed

lemma subset_of_trans: "subset_of a b \<Longrightarrow> subset_of b c \<Longrightarrow> subset_of a c"
  using covers_trans by (auto simp: subset_of_def list_all_iff)

lemma subset_of_full: "subset_of a b \<Longrightarrow> has_full a \<Longrightarrow> has_full b"
  using covers_full_only by (auto simp: subset_of_def has_full_def has_scope_def list_all_iff)

text \<open>Deleting is implied by no scope but itself and full access.\<close>

lemma covers_destructive: "destructive s \<Longrightarrow> covers super s \<Longrightarrow> s \<in> set super \<or> has_full super"
proof -
  have d: "s = ScopeTunnelsDelete \<or> s = ScopeHostnamesDelete" if "destructive s"
    using that unfolding destructive_def scope_info_of_def scope_catalog_def by (auto split: if_splits)
  assume "destructive s" "covers super s"
  with d [OF this(1)] show ?thesis
    by (auto simp: covers_def has_full_def has_scope_def scope_names has_suffix_def split: if_splits)
qed

end
