(* ===== verification/OAuth_Store.thy ===== *)
theory OAuth_Store
  imports OAuth_Scopes
begin

text \<open>
  The records of the OAuth server (\<open>server/oauthas/store.go\<close>) and its store in memory (\<open>memstore.go\<close>). Codes and
  refresh tokens can be used once; the locale \<open>single_use\<close> states that contract, and both tables fulfil it.
\<close>

section \<open>Records\<close>

record client =
  cl_id :: string
  cl_name :: string
  cl_redirects :: "string list"
  cl_grant_types :: "string list"
  cl_ip :: string
  cl_created :: time

record auth_code =
  cd_client :: string
  cd_user :: string
  cd_tenant :: string
  cd_redirect :: string
  cd_scope :: string
  cd_resource :: string
  cd_challenge :: string
  cd_expires :: time
  cd_step_up :: "time option"

record grant =
  gr_id :: string
  gr_user :: string
  gr_tenant :: string
  gr_client :: string
  gr_client_name :: string
  gr_resource :: string
  gr_scope :: string
  gr_created :: time
  gr_last_used :: "time option"
  gr_revoked :: "time option"
  gr_step_up :: "time option"

definition is_full :: "grant \<Rightarrow> bool" where
  "is_full g \<longleftrightarrow> has_full (fst (parse_scopes (gr_scope g)))"

definition active :: "grant \<Rightarrow> bool" where
  "active g \<longleftrightarrow> gr_revoked g = None"

record mem_refresh =
  rf_grant :: string
  rf_expires :: time
  rf_used :: bool

record mem_store =
  ms_clients :: "(string, client) gomap"
  ms_codes :: "(string, auth_code \<times> bool) gomap"
  ms_grants :: "(string, grant) gomap"
  ms_refresh :: "(string, mem_refresh) gomap"

definition new_mem_store :: mem_store where
  "new_mem_store = \<lparr>ms_clients = [], ms_codes = [], ms_grants = [], ms_refresh = []\<rparr>"

text \<open>What taking a record for single use can give: the record, \<open>ErrUsed\<close> with what is known of it, \<open>ErrNotFound\<close>.\<close>

datatype 'a taken = Taken 'a | Reused 'a | Absent

section \<open>Operations\<close>

definition create_client :: "client \<Rightarrow> mem_store \<Rightarrow> mem_store" where
  "create_client c m = m\<lparr>ms_clients := gm_put (cl_id c) c (ms_clients m)\<rparr>"

definition get_client :: "string \<Rightarrow> mem_store \<Rightarrow> client option" where
  "get_client i m = map_of (ms_clients m) i"

definition count_clients :: "mem_store \<Rightarrow> int" where
  "count_clients m = int (length (ms_clients m))"

definition create_code :: "string \<Rightarrow> auth_code \<Rightarrow> mem_store \<Rightarrow> mem_store" where
  "create_code h c m = m\<lparr>ms_codes := gm_put h (c, False) (ms_codes m)\<rparr>"

definition known_of_code :: "auth_code \<Rightarrow> auth_code" where
  "known_of_code c =
     \<lparr>cd_client = cd_client c, cd_user = cd_user c, cd_tenant = cd_tenant c, cd_redirect = [], cd_scope = [], cd_resource = [],
      cd_challenge = [], cd_expires = 0, cd_step_up = None\<rparr>"

definition consume_code :: "string \<Rightarrow> time \<Rightarrow> mem_store \<Rightarrow> auth_code taken \<times> mem_store" where
  "consume_code h now m =
     (case map_of (ms_codes m) h of
        None \<Rightarrow> (Absent, m)
      | Some (c, used) \<Rightarrow>
          if now > cd_expires c then (Absent, m)
          else if used then (Reused (known_of_code c), m)
          else (Taken c, m\<lparr>ms_codes := gm_put h (c, True) (ms_codes m)\<rparr>))"

definition create_grant :: "grant \<Rightarrow> mem_store \<Rightarrow> mem_store" where
  "create_grant g m = m\<lparr>ms_grants := gm_put (gr_id g) g (ms_grants m)\<rparr>"

definition with_name :: "mem_store \<Rightarrow> grant \<Rightarrow> grant" where
  "with_name m g = g\<lparr>gr_client_name := (case map_of (ms_clients m) (gr_client g) of None \<Rightarrow> [] | Some c \<Rightarrow> cl_name c)\<rparr>"

definition get_grant :: "string \<Rightarrow> mem_store \<Rightarrow> grant option" where
  "get_grant i m = map_option (with_name m) (map_of (ms_grants m) i)"

definition touch_grant :: "string \<Rightarrow> time \<Rightarrow> mem_store \<Rightarrow> mem_store" where
  "touch_grant i now m =
     (case map_of (ms_grants m) i of
        None \<Rightarrow> m
      | Some g \<Rightarrow> m\<lparr>ms_grants := gm_put i (g\<lparr>gr_last_used := Some now\<rparr>) (ms_grants m)\<rparr>)"

definition revoke_grant :: "string \<Rightarrow> time \<Rightarrow> mem_store \<Rightarrow> mem_store" where
  "revoke_grant i now m =
     m\<lparr>ms_grants := (case map_of (ms_grants m) i of
          None \<Rightarrow> ms_grants m
        | Some g \<Rightarrow> if gr_revoked g = None then gm_put i (g\<lparr>gr_revoked := Some now\<rparr>) (ms_grants m) else ms_grants m),
       ms_refresh := filter (\<lambda>(h, r). rf_grant r \<noteq> i) (ms_refresh m)\<rparr>"

text \<open>An empty user or tenant selects all.\<close>

definition list_grants :: "string \<Rightarrow> string \<Rightarrow> mem_store \<Rightarrow> grant list" where
  "list_grants user tenant m =
     map (with_name m)
       (filter (\<lambda>g. gr_revoked g = None \<and> (user = [] \<or> gr_user g = user) \<and> (tenant = [] \<or> gr_tenant g = tenant))
          (map snd (ms_grants m)))"

definition save_refresh :: "string \<Rightarrow> mem_refresh \<Rightarrow> mem_store \<Rightarrow> mem_store" where
  "save_refresh h r m = m\<lparr>ms_refresh := gm_put h r (ms_refresh m)\<rparr>"

definition rotate_refresh :: "string \<Rightarrow> time \<Rightarrow> mem_store \<Rightarrow> string taken \<times> mem_store" where
  "rotate_refresh h now m =
     (case map_of (ms_refresh m) h of
        None \<Rightarrow> (Absent, m)
      | Some r \<Rightarrow>
          if now > rf_expires r then (Absent, m)
          else if rf_used r then (Reused (rf_grant r), m)
          else (Taken (rf_grant r), m\<lparr>ms_refresh := gm_put h (r\<lparr>rf_used := True\<rparr>) (ms_refresh m)\<rparr>))"

definition prune :: "time \<Rightarrow> mem_store \<Rightarrow> mem_store" where
  "prune now m =
     m\<lparr>ms_codes := filter (\<lambda>(h, c). \<not> now > cd_expires (fst c) + 600 * Second) (ms_codes m),
       ms_refresh := filter (\<lambda>(h, r). \<not> now > rf_expires r) (ms_refresh m)\<rparr>"

section \<open>Single use\<close>

text \<open>The contract of a table whose records can be taken once: what is spent stays spent, whatever else is put, taken or
  cleaned, until its key is put again.\<close>

locale single_use =
  fixes take_once :: "'k \<Rightarrow> time \<Rightarrow> 's \<Rightarrow> 'v taken \<times> 's"
    and put :: "'k \<Rightarrow> 'w \<Rightarrow> 's \<Rightarrow> 's"
    and spent :: "'k \<Rightarrow> 's \<Rightarrow> bool"
  assumes take_spends: "take_once k t s = (Taken v, s') \<Longrightarrow> spent k s'"
    and spent_not_taken: "spent k s \<Longrightarrow> fst (take_once k t s) \<noteq> Taken v"
    and take_keeps: "spent k s \<Longrightarrow> spent k (snd (take_once k' t s))"
    and put_keeps: "k' \<noteq> k \<Longrightarrow> spent k s \<Longrightarrow> spent k (put k' w s)"
begin

text \<open>A history of uses of the table, and how often a key was taken in it.\<close>

fun uses :: "('k \<times> time + 'k \<times> 'w) list \<Rightarrow> 's \<Rightarrow> ('k \<times> 'v) list \<times> 's" where
  "uses [] s = ([], s)"
| "uses (Inl (k, t) # es) s =
     (case take_once k t s of (r, s1) \<Rightarrow> case uses es s1 of (out, s2) \<Rightarrow>
        ((case r of Taken v \<Rightarrow> [(k, v)] | Reused v \<Rightarrow> [] | Absent \<Rightarrow> []) @ out, s2))"
| "uses (Inr (k, w) # es) s = uses es (put k w s)"

definition times_taken :: "'k \<Rightarrow> ('k \<times> 'v) list \<Rightarrow> nat" where
  "times_taken k out = length (filter (\<lambda>kv. fst kv = k) out)"

lemma spent_never_taken:
  "uses es s = (out, s') \<Longrightarrow> spent k s \<Longrightarrow> \<forall>w. Inr (k, w) \<notin> set es \<Longrightarrow> times_taken k out = 0"
proof (induction es arbitrary: s out)
  case (Cons e es)
  show ?case
  proof (cases e)
    case (Inl kt)
    obtain k' t where kt: "kt = (k', t)" by force
    obtain r s1 where r: "take_once k' t s = (r, s1)" by force
    obtain out1 where u: "uses es s1 = (out1, s')" "out = (case r of Taken v \<Rightarrow> [(k', v)] | Reused v \<Rightarrow> [] | Absent \<Rightarrow> []) @ out1"
      using Cons.prems(1) by (auto simp: Inl kt r split: prod.splits)
    have "spent k s1" using take_keeps [OF Cons.prems(2), of k' t] r by simp
    with Cons.IH [OF u(1)] Cons.prems(3) have "times_taken k out1 = 0" by simp
    moreover have "k' = k \<Longrightarrow> r \<noteq> Taken v" for v using spent_not_taken [OF Cons.prems(2), of t v] r by auto
    ultimately show ?thesis using u(2) by (auto simp: times_taken_def split: taken.splits)
  next
    case (Inr kw)
    with Cons.prems put_keeps [OF _ Cons.prems(2)] Cons.IH show ?thesis by (cases kw) auto
  qed
qed (simp add: times_taken_def)

text \<open>A key that is put at most once before its uses is taken at most once.\<close>

lemma taken_at_most_once:
  "uses es s = (out, s') \<Longrightarrow> \<forall>w. Inr (k, w) \<notin> set es \<Longrightarrow> times_taken k out \<le> 1"
proof (induction es arbitrary: s out)
  case (Cons e es)
  show ?case
  proof (cases e)
    case (Inl kt)
    obtain k' t where kt: "kt = (k', t)" by force
    obtain r s1 where r: "take_once k' t s = (r, s1)" by force
    obtain out1 where u: "uses es s1 = (out1, s')" "out = (case r of Taken v \<Rightarrow> [(k', v)] | Reused v \<Rightarrow> [] | Absent \<Rightarrow> []) @ out1"
      using Cons.prems(1) by (auto simp: Inl kt r split: prod.splits)
    have ih: "times_taken k out1 \<le> 1" using Cons.IH [OF u(1)] Cons.prems(2) by simp
    show ?thesis
    proof (cases "\<exists>v. r = Taken v \<and> k' = k")
      case True
      then have "spent k s1" using take_spends [of k t s] r by auto
      then have "times_taken k out1 = 0" using spent_never_taken [OF u(1)] Cons.prems(2) by simp
      with u(2) True show ?thesis by (auto simp: times_taken_def)
    next
      case False
      with ih u(2) show ?thesis by (auto simp: times_taken_def split: taken.splits)
    qed
  next
    case (Inr kw)
    with Cons show ?thesis by (cases kw) auto
  qed
qed (simp add: times_taken_def)

end

definition code_spent :: "string \<Rightarrow> mem_store \<Rightarrow> bool" where
  "code_spent h m \<longleftrightarrow> (case map_of (ms_codes m) h of None \<Rightarrow> True | Some (c, used) \<Rightarrow> used)"

definition refresh_spent :: "string \<Rightarrow> mem_store \<Rightarrow> bool" where
  "refresh_spent h m \<longleftrightarrow> (case map_of (ms_refresh m) h of None \<Rightarrow> True | Some r \<Rightarrow> rf_used r)"

interpretation codes: single_use consume_code create_code code_spent
  by unfold_locales (auto simp: consume_code_def create_code_def code_spent_def split: option.splits prod.splits if_splits)

interpretation refreshes: single_use rotate_refresh save_refresh refresh_spent
  by unfold_locales (auto simp: rotate_refresh_def save_refresh_def refresh_spent_def split: option.splits if_splits)

end
