(* ===== verification/OAuth_Server.thy ===== *)
theory OAuth_Server
  imports OAuth_Store
begin

text \<open>
  The OAuth server for MCP clients (\<open>server/oauthas/oauthas.go\<close>, \<open>consent.go\<close>, \<open>tunnelres.go\<close>, \<open>jwt.go\<close>): registration,
  authorization requests, consent, the token endpoint, revocation, and the check of access tokens. HTTP is reduced to the
  fields the handlers read and the reply they write; JSON bodies arrive decoded. Hashes, signatures, base64, JSON and
  the parser of URLs are parameters (\<open>oauth_env\<close>); what the panel knows of the user is an argument (\<open>panel_facts\<close>; \<open>pf_orgs\<close> in the order of names). A request reads the
  clock once.
\<close>

section \<open>Resources\<close>

text \<open>\<open>net.SplitHostPort\<close>.\<close>

definition split_host_port :: "string \<Rightarrow> (string \<times> string) option" where
  "split_host_port s =
     (case cut_last (CHR '':'') s of
        None \<Rightarrow> None
      | Some (h, p) \<Rightarrow>
          (case s of
             [] \<Rightarrow> None
           | c # rest \<Rightarrow>
               if c = CHR ''['' then
                 (case cut_at (CHR '']'') rest of
                    (inner, after, found) \<Rightarrow>
                      if found \<and> after = CHR '':'' # p \<and> CHR ''['' \<notin> set inner \<and> CHR ''['' \<notin> set p \<and> CHR '']'' \<notin> set p
                      then Some (inner, p) else None)
               else if CHR '':'' \<in> set h \<or> CHR ''['' \<in> set s \<or> CHR '']'' \<in> set s then None
               else Some (h, p)))"

definition trim_slashes :: "string \<Rightarrow> string" where
  "trim_slashes s = trim_right (\<lambda>c. c = CHR ''/'') s"

text \<open>\<open>CanonicalResource\<close> and \<open>ResourceKey\<close> of \<open>mcpconf.go\<close>.\<close>

definition canonical_resource :: "string \<Rightarrow> string \<Rightarrow> string" where
  "canonical_resource host0 path0 =
     (let host1 = to_lower (trim_space host0);
          host2 = (case split_host_port host1 of Some (h, p) \<Rightarrow> if p = ''443'' \<or> p = ''80'' then h else host1 | None \<Rightarrow> host1);
          path1 = (if path0 = [] then ''/'' else path0) in
      trim_suffix host2 ''.'' @ (if length path1 > 1 then trim_slashes path1 else path1))"

definition resource_key :: "string \<Rightarrow> string option" where
  "resource_key raw =
     (case (if has_prefix raw ''https://'' then Some (drop 8 raw) else if has_prefix raw ''http://'' then Some (drop 7 raw) else None) of
        None \<Rightarrow> None
      | Some rest \<Rightarrow>
          if list_ex (\<lambda>c. c \<in> {CHR ''?'', CHR ''#'', CHR ''@'', CHR 0x5C, CHR '' ''}) rest then None
          else (case cut_at (CHR ''/'') rest of
                  (host, path, found) \<Rightarrow> if host = [] then None else Some (canonical_resource host (CHR ''/'' # path))))"

definition canon_resource_url :: "string \<Rightarrow> string" where
  "canon_resource_url raw0 =
     (let raw = trim_space raw0 in
      case resource_key raw of
        None \<Rightarrow> trim_slashes raw
      | Some key \<Rightarrow> (if has_prefix raw ''http://'' then ''http'' else ''https'') @ ''://'' @ key)"

definition email_listed :: "string list \<Rightarrow> string \<Rightarrow> bool" where
  "email_listed l email0 =
     (let email = to_lower (trim_space email0) in
      email \<noteq> [] \<and>
      list_ex (\<lambda>a0. let a = to_lower (trim_space a0) in
        a = email \<or> (has_prefix a ''*@'' \<and> drop 2 a \<noteq> [] \<and> has_suffix email (CHR ''@'' # drop 2 a))) l)"

section \<open>Environment\<close>

record url =
  u_scheme :: string
  u_host :: string
  u_hostname :: string
  u_path :: string
  u_rawquery :: string
  u_fragment :: string
  u_opaque :: string
  u_user :: bool

record claims =
  c_iss :: string
  c_sub :: string
  c_aud :: string
  c_scope :: string
  c_tid :: string
  c_gid :: string
  c_cid :: string
  c_exp :: int
  c_iat :: int
  c_jti :: string

record jwt_header =
  jh_alg :: string
  jh_typ :: string
  jh_kid :: string

text \<open>\<open>oe_hash\<close> is \<open>hashToken\<close>, \<open>oe_challenge\<close> the base64 form of SHA-256, \<open>oe_sign\<close> and \<open>oe_verify\<close> Ed25519 under the key of
  the server.\<close>

record oauth_env =
  oe_url :: "string \<Rightarrow> url option"
  oe_hash :: "string \<Rightarrow> string"
  oe_challenge :: "string \<Rightarrow> string"
  oe_b64 :: "string \<Rightarrow> string"
  oe_unb64 :: "string \<Rightarrow> string option"
  oe_sign :: "string \<Rightarrow> string"
  oe_verify :: "string \<Rightarrow> string \<Rightarrow> bool"
  oe_header_json :: "jwt_header \<Rightarrow> string"
  oe_header_of :: "string \<Rightarrow> jwt_header option"
  oe_claims_json :: "claims \<Rightarrow> string"
  oe_claims_of :: "string \<Rightarrow> claims option"
  oe_kid :: string
  oe_issuer :: string
  oe_consent_base :: string

record auth_req =
  aq_method :: string
  aq_host :: string
  aq_proto :: string
  aq_tls :: bool
  aq_origin :: string
  aq_ip :: string

text \<open>A form or query: an absent field is the empty text.\<close>

type_synonym form = "string \<Rightarrow> string"

record panel_session =
  ss_user :: string
  ss_email :: string
  ss_auth :: "time option"

record org =
  og_id :: string
  og_name :: string
  og_role :: string

record resource_info =
  ri_tenant :: string
  ri_tunnel :: string
  ri_host :: string
  ri_auth :: string
  ri_allow_members :: bool
  ri_emails :: "string list"

record panel_facts =
  pf_session :: "panel_session option"
  pf_orgs :: "org list option"
  pf_trusted :: bool
  pf_resolve :: "string \<Rightarrow> resource_info option"
  pf_user :: "string \<Rightarrow> string \<Rightarrow> (string \<times> bool) option"

record auth_server =
  as_store :: mem_store
  as_cache :: "(string, grant \<times> time) gomap"

definition new_auth_server :: auth_server where
  "new_auth_server = \<lparr>as_store = new_mem_store, as_cache = []\<rparr>"

definition ResourcePath :: string where "ResourcePath = ''/mcp''"
definition codeTTL :: duration where "codeTTL = 60 * Second"
definition refreshTTL :: duration where "refreshTTL = 30 * 24 * 3600 * Second"
definition AccessTokenTTL :: duration where "AccessTokenTTL = 3600 * Second"
definition FullAccessTTL :: duration where "FullAccessTTL = 1800 * Second"
definition FullRefreshTTL :: duration where "FullRefreshTTL = 7 * 24 * 3600 * Second"
definition FullGrantMaxAge :: duration where "FullGrantMaxAge = 30 * 24 * 3600 * Second"
definition StepUpMaxAge :: duration where "StepUpMaxAge = 300 * Second"
definition grantCacheTTL :: duration where "grantCacheTTL = 30 * Second"
definition maxClients :: int where "maxClients = 20000"
definition maxRedirectURIs :: nat where "maxRedirectURIs = 10"

definition session_fresh :: "time \<Rightarrow> panel_session \<Rightarrow> bool" where
  "session_fresh now s =
     (case ss_auth s of None \<Rightarrow> False | Some a \<Rightarrow> now - a \<ge> - (60 * Second) \<and> now - a \<le> StepUpMaxAge)"

datatype oauth_reply =
    OErr nat string
  | PlainErr nat
  | Registered client
  | Goto string "(string \<times> string) list"
  | CodeIssued string "(string \<times> string) list"
  | Tokens string string int string
  | GrantsListed "grant list"
  | NoContent
  | Done

definition issuer :: "oauth_env \<Rightarrow> auth_req \<Rightarrow> string" where
  "issuer E rq =
     (if oe_issuer E \<noteq> [] then trim_slashes (oe_issuer E)
      else (if aq_tls rq \<or> to_lower (aq_proto rq) = ''https'' then ''https'' else ''http'') @ ''://'' @ aq_host rq)"

definition resource :: "oauth_env \<Rightarrow> auth_req \<Rightarrow> string" where
  "resource E rq = issuer E rq @ ResourcePath"

section \<open>Tokens\<close>

definition signing_input :: "oauth_env \<Rightarrow> string \<Rightarrow> string \<Rightarrow> string" where
  "signing_input E h p = oe_b64 E h @ CHR ''.'' # oe_b64 E p"

definition sign_jwt :: "oauth_env \<Rightarrow> claims \<Rightarrow> string" where
  "sign_jwt E c =
     (let inp = signing_input E (oe_header_json E \<lparr>jh_alg = ''EdDSA'', jh_typ = ''at+jwt'', jh_kid = oe_kid E\<rparr>) (oe_claims_json E c) in
      inp @ CHR ''.'' # oe_b64 E (oe_sign E inp))"

definition parse_jwt :: "oauth_env \<Rightarrow> string \<Rightarrow> claims option" where
  "parse_jwt E tok =
     (case split_at (CHR ''.'') tok of
        [h, p, s] \<Rightarrow>
          (case Option.bind (oe_unb64 E h) (oe_header_of E) of
             None \<Rightarrow> None
           | Some hdr \<Rightarrow>
               if jh_alg hdr \<noteq> ''EdDSA'' \<or> jh_typ hdr \<noteq> ''at+jwt'' \<or> jh_kid hdr \<noteq> oe_kid E then None
               else
                 (case oe_unb64 E s of
                    None \<Rightarrow> None
                  | Some sig \<Rightarrow>
                      if \<not> oe_verify E (h @ CHR ''.'' # p) sig then None
                      else Option.bind (oe_unb64 E p) (oe_claims_of E)))
      | _ \<Rightarrow> None)"

section \<open>Registration\<close>

definition is_loopback_host :: "string \<Rightarrow> bool" where
  "is_loopback_host h \<longleftrightarrow> h = ''localhost'' \<or> h = ''127.0.0.1'' \<or> h = ''::1''"

definition validate_redirect_uri :: "oauth_env \<Rightarrow> string \<Rightarrow> bool" where
  "validate_redirect_uri E raw \<longleftrightarrow>
     length raw \<le> 2000 \<and>
     (case oe_url E raw of
        None \<Rightarrow> False
      | Some u \<Rightarrow>
          u_host u \<noteq> [] \<and> u_opaque u = [] \<and> u_fragment u = [] \<and> CHR ''#'' \<notin> set raw \<and> \<not> u_user u
          \<and> (u_scheme u = ''https'' \<or> u_scheme u = ''http'' \<and> is_loopback_host (u_hostname u)))"

record register_body =
  rb_redirects :: "string list"
  rb_name :: string
  rb_grants :: "string list"
  rb_responses :: "string list"
  rb_method :: string

text \<open>The first \<open>n\<close> runes of a text in UTF-8, as the decoder of JSON gives it: a continuation byte belongs to the rune before.\<close>

fun take_runes :: "nat \<Rightarrow> string \<Rightarrow> string" where
  "take_runes n [] = []"
| "take_runes n (c # cs) =
     (if 128 \<le> code_of c \<and> code_of c < 192 then c # take_runes n cs
      else if n = 0 then [] else c # take_runes (n - 1) cs)"

definition clean_client_name :: "string \<Rightarrow> string" where
  "clean_client_name s =
     trim_space (take_runes 80 (filter (\<lambda>c. \<not> (code_of c < 32 \<or> code_of c = 127 \<or> c = CHR ''<'' \<or> c = CHR ''>'')) (trim_space s)))"

text \<open>\<open>ok_ip\<close> and \<open>ok_all\<close> are the verdicts of the two limiters, \<open>rid\<close> the random identifier.\<close>

definition register_client ::
  "oauth_env \<Rightarrow> auth_req \<Rightarrow> bool \<Rightarrow> bool \<Rightarrow> register_body option \<Rightarrow> time \<Rightarrow> string \<Rightarrow> auth_server \<Rightarrow> oauth_reply \<times> auth_server" where
  "register_client E rq ok_ip ok_all body now rid s =
     (if aq_method rq = ''OPTIONS'' then (NoContent, s)
      else if aq_method rq \<noteq> ''POST'' then (OErr 405 ''invalid_request'', s)
      else if \<not> ok_ip \<or> \<not> ok_all then (OErr 429 ''temporarily_unavailable'', s)
      else case body of
        None \<Rightarrow> (OErr 400 ''invalid_client_metadata'', s)
      | Some b \<Rightarrow>
          if rb_redirects b = [] \<or> length (rb_redirects b) > maxRedirectURIs then (OErr 400 ''invalid_redirect_uri'', s)
          else if \<not> list_all (validate_redirect_uri E) (rb_redirects b) then (OErr 400 ''invalid_redirect_uri'', s)
          else if rb_method b \<noteq> [] \<and> rb_method b \<noteq> ''none'' then (OErr 400 ''invalid_client_metadata'', s)
          else
            let grants = (if rb_grants b = [] then [''authorization_code'', ''refresh_token''] else rb_grants b) in
            if \<not> list_all (\<lambda>g. g = ''authorization_code'' \<or> g = ''refresh_token'') grants then (OErr 400 ''invalid_client_metadata'', s)
            else if \<not> list_all (\<lambda>t. t = ''code'') (rb_responses b) then (OErr 400 ''invalid_client_metadata'', s)
            else if count_clients (as_store s) \<ge> maxClients then (OErr 503 ''temporarily_unavailable'', s)
            else
              let name = clean_client_name (rb_name b);
                  c = \<lparr>cl_id = ''zoc_'' @ rid, cl_name = (if name = [] then ''MCP istemcisi'' else name),
                       cl_redirects = unique_scopes (rb_redirects b), cl_grant_types = grants, cl_ip = aq_ip rq, cl_created = now\<rparr> in
              (Registered c, s\<lparr>as_store := create_client c (as_store s)\<rparr>))"

section \<open>Authorization requests\<close>

record authz_req =
  az_tunnel :: "resource_info option"
  az_client :: client
  az_redirect :: string
  az_state :: string
  az_scopes :: "string list"
  az_resource :: string
  az_challenge :: string

text \<open>An error; the redirect address is known when the error may be sent there.\<close>

datatype authz_err = AuthzErr string "(string \<times> string) option"

definition match_redirect_uri :: "oauth_env \<Rightarrow> string list \<Rightarrow> string \<Rightarrow> bool" where
  "match_redirect_uri E registered got \<longleftrightarrow>
     got \<in> set registered \<or>
     (case oe_url E got of
        None \<Rightarrow> False
      | Some gu \<Rightarrow>
          u_scheme gu = ''http'' \<and> is_loopback_host (u_hostname gu) \<and>
          list_ex (\<lambda>reg. case oe_url E reg of
             None \<Rightarrow> False
           | Some ru \<Rightarrow> u_scheme ru = ''http'' \<and> u_hostname ru = u_hostname gu \<and> u_path ru = u_path gu \<and> u_rawquery ru = u_rawquery gu) registered)"

definition resolve_tunnel :: "oauth_env \<Rightarrow> panel_facts \<Rightarrow> string \<Rightarrow> (resource_info \<times> string) option" where
  "resolve_tunnel E F res =
     (case resource_key res of
        None \<Rightarrow> None
      | Some key \<Rightarrow>
          if has_prefix res ''http://'' \<and> \<not> has_prefix (oe_issuer E) ''http://'' then None
          else (case pf_resolve F key of
                  None \<Rightarrow> None
                | Some info \<Rightarrow> if ri_auth info \<noteq> ''oauth'' \<or> ri_tenant info = [] then None else Some (info, canon_resource_url res)))"

definition user_allowed :: "panel_facts \<Rightarrow> resource_info \<Rightarrow> string \<Rightarrow> bool option" where
  "user_allowed F info user =
     (case pf_user F (ri_tenant info) user of
        None \<Rightarrow> None
      | Some (email, member) \<Rightarrow> Some ((ri_allow_members info \<and> member) \<or> email_listed (ri_emails info) email))"

text \<open>The scopes of a request for the management resource and for a tunnel.\<close>

definition management_scopes :: "string \<Rightarrow> string list option" where
  "management_scopes text =
     (case parse_scopes text of
        (scopes, unknown) \<Rightarrow>
          if unknown \<noteq> [] \<or> has_scope scopes ScopeTunnelAccess then None
          else Some (if scopes = [] then [ScopeMCPRead] else scopes))"

definition tunnel_scopes :: "string \<Rightarrow> string list option" where
  "tunnel_scopes text =
     (case parse_scopes text of
        (scopes0, unknown) \<Rightarrow>
          if unknown \<noteq> [] then None
          else let scopes = (if scopes0 = [] then [ScopeTunnelAccess] else scopes0) in
            if list_all (\<lambda>s. s = ScopeTunnelAccess) scopes then Some scopes else None)"

definition parse_authz :: "oauth_env \<Rightarrow> auth_req \<Rightarrow> panel_facts \<Rightarrow> form \<Rightarrow> mem_store \<Rightarrow> authz_err + authz_req" where
  "parse_authz E rq F v m =
     (if v ''client_id'' = [] then Inl (AuthzErr ''invalid_request'' None)
      else case get_client (v ''client_id'') m of
        None \<Rightarrow> Inl (AuthzErr ''invalid_request'' None)
      | Some c \<Rightarrow>
          let redirect = (if v ''redirect_uri'' = [] \<and> length (cl_redirects c) = 1 then hd (cl_redirects c) else v ''redirect_uri'');
              back = Some (redirect, v ''state'');
              challenge = v ''code_challenge'' in
          if redirect = [] \<or> \<not> match_redirect_uri E (cl_redirects c) redirect then Inl (AuthzErr ''invalid_request'' None)
          else if v ''response_type'' \<noteq> ''code'' then Inl (AuthzErr ''unsupported_response_type'' back)
          else if challenge = [] \<or> v ''code_challenge_method'' \<noteq> ''S256'' then Inl (AuthzErr ''invalid_request'' back)
          else if length challenge < 43 \<or> length challenge > 128 then Inl (AuthzErr ''invalid_request'' back)
          else
            let res = (if v ''resource'' = [] then resource E rq else v ''resource'');
                req = (\<lambda>tun canon scopes. \<lparr>az_tunnel = tun, az_client = c, az_redirect = redirect, az_state = v ''state'', az_scopes = scopes,
                  az_resource = canon, az_challenge = challenge\<rparr>) in
            if trim_slashes res = resource E rq then
              (case management_scopes (v ''scope'') of
                 None \<Rightarrow> Inl (AuthzErr ''invalid_scope'' back)
               | Some scopes \<Rightarrow> Inr (req None (resource E rq) scopes))
            else
              (case resolve_tunnel E F res of
                 None \<Rightarrow> Inl (AuthzErr ''invalid_target'' back)
               | Some (info, canon) \<Rightarrow>
                   (case tunnel_scopes (v ''scope'') of
                      None \<Rightarrow> Inl (AuthzErr ''invalid_scope'' back)
                    | Some scopes \<Rightarrow> Inr (req (Some info) canon scopes))))"

text \<open>\<open>authorize\<close>: a good request goes on to the consent page; parameters are given before URL encoding.\<close>

definition authorize :: "oauth_env \<Rightarrow> auth_req \<Rightarrow> panel_facts \<Rightarrow> form \<Rightarrow> auth_server \<Rightarrow> oauth_reply" where
  "authorize E rq F v s =
     (if aq_method rq \<noteq> ''GET'' then PlainErr 405
      else case parse_authz E rq F v (as_store s) of
        Inl (AuthzErr code None) \<Rightarrow> PlainErr 400
      | Inl (AuthzErr code (Some (redirect, state))) \<Rightarrow>
          Goto redirect ([(''error'', code)] @ (if state = [] then [] else [(''state'', state)]) @ [(''iss'', issuer E rq)])
      | Inr a \<Rightarrow>
          Goto (trim_slashes (oe_consent_base E) @ ''/oauth/consent'')
            ([(''client_id'', cl_id (az_client a)), (''redirect_uri'', az_redirect a), (''response_type'', ''code''),
              (''code_challenge'', az_challenge a), (''code_challenge_method'', ''S256''), (''scope'', join_space (az_scopes a)),
              (''resource'', az_resource a)] @ (if az_state a = [] then [] else [(''state'', az_state a)])))"

section \<open>Consent\<close>

record consent_body =
  cb_client :: string
  cb_redirect :: string
  cb_type :: string
  cb_challenge :: string
  cb_method :: string
  cb_state :: string
  cb_scope :: string
  cb_resource :: string
  cb_decision :: string
  cb_tenant :: string
  cb_scopes :: "string list option"

definition consent_form :: "consent_body \<Rightarrow> form" where
  "consent_form b k =
     (if k = ''client_id'' then cb_client b else if k = ''redirect_uri'' then cb_redirect b
      else if k = ''response_type'' then cb_type b else if k = ''code_challenge'' then cb_challenge b
      else if k = ''code_challenge_method'' then cb_method b else if k = ''scope'' then cb_scope b
      else if k = ''resource'' then cb_resource b else [])"

text \<open>The scopes the user grants: without a list, what was requested except deletion and full access; otherwise the list,
  if it is within the request.\<close>

definition consent_scopes :: "string list \<Rightarrow> string list option \<Rightarrow> string list option" where
  "consent_scopes requested chosen =
     (case chosen of
        None \<Rightarrow> Some (without_scope (filter (\<lambda>s. \<not> destructive s) requested) ScopeFull)
      | Some ss \<Rightarrow>
          if \<not> list_all (\<lambda>s. scope_info_of s \<noteq> None) ss then None
          else if \<not> subset_of (without_scope ss ScopeFull) (without_scope requested ScopeFull) \<and> \<not> has_full requested then None
          else Some ss)"

definition consent_tenant :: "panel_facts \<Rightarrow> panel_session \<Rightarrow> authz_req \<Rightarrow> string \<Rightarrow> oauth_reply + string" where
  "consent_tenant F ss a tenant =
     (case az_tunnel a of
        Some info \<Rightarrow>
          (case user_allowed F info (ss_user ss) of
             Some True \<Rightarrow> Inr (ri_tenant info)
           | _ \<Rightarrow> Inl (OErr 403 ''access_denied''))
      | None \<Rightarrow>
          (case pf_orgs F of
             None \<Rightarrow> Inl (OErr 500 ''server_error'')
           | Some orgs \<Rightarrow> if list_ex (\<lambda>o1. og_id o1 = tenant) orgs then Inr tenant else Inl (OErr 403 ''access_denied'')))"

text \<open>The checks of \<open>consentDecision\<close>, up to the record that is stored under the new code.\<close>

definition consent_check ::
  "oauth_env \<Rightarrow> auth_req \<Rightarrow> panel_facts \<Rightarrow> consent_body option \<Rightarrow> time \<Rightarrow> mem_store \<Rightarrow> oauth_reply + auth_code" where
  "consent_check E rq F body now m =
     (if aq_method rq \<noteq> ''POST'' then Inl (OErr 405 ''invalid_request'')
      else if aq_origin rq = [] \<or> \<not> pf_trusted F then Inl (OErr 403 ''forbidden_origin'')
      else case pf_session F of
        None \<Rightarrow> Inl (OErr 401 ''login_required'')
      | Some ss \<Rightarrow>
          if ss_user ss = [] then Inl (OErr 401 ''login_required'')
          else (case body of
            None \<Rightarrow> Inl (OErr 400 ''invalid_request'')
          | Some b \<Rightarrow>
              (case parse_authz E rq F (consent_form b) m of
                 Inl (AuthzErr code back) \<Rightarrow> Inl (OErr 400 code)
               | Inr a \<Rightarrow>
                   if cb_decision b \<noteq> ''allow'' then
                     Inl (Goto (az_redirect a) ((if cb_state b = [] then [] else [(''state'', cb_state b)])
                       @ [(''error'', ''access_denied''), (''iss'', issuer E rq)]))
                   else
                     (case consent_tenant F ss a (cb_tenant b) of
                        Inl r \<Rightarrow> Inl r
                      | Inr tenant \<Rightarrow>
                          (case consent_scopes (az_scopes a) (cb_scopes b) of
                             None \<Rightarrow> Inl (OErr 400 ''invalid_scope'')
                           | Some granted \<Rightarrow>
                               if has_full granted \<and> az_tunnel a \<noteq> None then Inl (OErr 400 ''invalid_scope'')
                               else if has_full granted \<and> \<not> session_fresh now ss then Inl (OErr 403 ''reauth_required'')
                               else
                                 let granted' = (if has_full granted then unique_scopes granted else granted) in
                                 if granted' = [] then Inl (OErr 400 ''invalid_scope'')
                                 else Inr \<lparr>cd_client = cl_id (az_client a), cd_user = ss_user ss, cd_tenant = tenant,
                                   cd_redirect = az_redirect a, cd_scope = join_space granted', cd_resource = az_resource a,
                                   cd_challenge = az_challenge a, cd_expires = now + codeTTL,
                                   cd_step_up = (if has_full granted then ss_auth ss else None)\<rparr>)))))"

definition consent_decision ::
  "oauth_env \<Rightarrow> auth_req \<Rightarrow> panel_facts \<Rightarrow> consent_body option \<Rightarrow> time \<Rightarrow> string \<Rightarrow> auth_server \<Rightarrow> oauth_reply \<times> auth_server" where
  "consent_decision E rq F body now code s =
     (case consent_check E rq F body now (as_store s) of
        Inl r \<Rightarrow> (r, s)
      | Inr cd \<Rightarrow>
          (CodeIssued (cd_redirect cd)
             ((case body of None \<Rightarrow> [] | Some b \<Rightarrow> if cb_state b = [] then [] else [(''state'', cb_state b)])
              @ [(''code'', code), (''iss'', issuer E rq)]),
           s\<lparr>as_store := create_code (oe_hash E code) cd (as_store s)\<rparr>))"

section \<open>The token endpoint\<close>

record token_randoms =
  rn_grant :: string
  rn_jti :: string
  rn_refresh :: string

definition valid_verifier :: "string \<Rightarrow> bool" where
  "valid_verifier v \<longleftrightarrow> 43 \<le> length v \<and> length v \<le> 128 \<and>
     list_all (\<lambda>c. 97 \<le> code_of c \<and> code_of c \<le> 122 \<or> 65 \<le> code_of c \<and> code_of c \<le> 90 \<or> is_digit c
       \<or> c \<in> {CHR ''-'', CHR ''.'', CHR ''_'', CHR ''~''}) v"

definition access_ttl :: "grant \<Rightarrow> string \<Rightarrow> duration" where
  "access_ttl g scope = (if is_full g \<and> has_full (fst (parse_scopes scope)) then FullAccessTTL else AccessTokenTTL)"

definition token_claims :: "oauth_env \<Rightarrow> auth_req \<Rightarrow> time \<Rightarrow> string \<Rightarrow> grant \<Rightarrow> string \<Rightarrow> claims" where
  "token_claims E rq now jti g scope =
     \<lparr>c_iss = issuer E rq, c_sub = gr_user g, c_aud = gr_resource g, c_scope = scope, c_tid = gr_tenant g, c_gid = gr_id g,
      c_cid = gr_client g, c_exp = (now + access_ttl g scope) div Second, c_iat = now div Second, c_jti = jti\<rparr>"

definition issue ::
  "oauth_env \<Rightarrow> auth_req \<Rightarrow> time \<Rightarrow> token_randoms \<Rightarrow> grant \<Rightarrow> string \<Rightarrow> auth_server \<Rightarrow> oauth_reply \<times> auth_server" where
  "issue E rq now rn g scope s =
     (let refresh = ''zor_rt_'' @ rn_refresh rn;
          ttl = (if is_full g then FullRefreshTTL else refreshTTL) in
      (Tokens (sign_jwt E (token_claims E rq now (rn_jti rn) g scope)) refresh (access_ttl g scope div Second) scope,
       s\<lparr>as_store := touch_grant (gr_id g) now
         (save_refresh (oe_hash E refresh) \<lparr>rf_grant = gr_id g, rf_expires = now + ttl, rf_used = False\<rparr> (as_store s))\<rparr>))"

text \<open>\<open>revokeClientGrants\<close>: the answer to a code that is used again.\<close>

definition revoke_client_grants :: "auth_code \<Rightarrow> time \<Rightarrow> mem_store \<Rightarrow> mem_store" where
  "revoke_client_grants c now m =
     (if cd_client c = [] \<or> cd_user c = [] then m
      else fold (\<lambda>g m'. if gr_client g = cd_client c \<and> active g then revoke_grant (gr_id g) now m' else m')
             (list_grants (cd_user c) [] m) m)"

definition grant_of_code :: "auth_code \<Rightarrow> time \<Rightarrow> string \<Rightarrow> grant" where
  "grant_of_code c now gid =
     \<lparr>gr_id = gid, gr_user = cd_user c, gr_tenant = cd_tenant c, gr_client = cd_client c, gr_client_name = [],
      gr_resource = cd_resource c, gr_scope = cd_scope c, gr_created = now, gr_last_used = None, gr_revoked = None,
      gr_step_up = cd_step_up c\<rparr>"

text \<open>The checks on a code that could be taken.\<close>

definition code_fits :: "oauth_env \<Rightarrow> form \<Rightarrow> auth_code \<Rightarrow> string option" where
  "code_fits E f c =
     (if cd_client c \<noteq> f ''client_id'' \<or> f ''redirect_uri'' \<noteq> cd_redirect c \<or> oe_challenge E (f ''code_verifier'') \<noteq> cd_challenge c
      then Some ''invalid_grant''
      else if f ''resource'' \<noteq> [] \<and> canon_resource_url (f ''resource'') \<noteq> canon_resource_url (cd_resource c) then Some ''invalid_target''
      else None)"

definition token_code ::
  "oauth_env \<Rightarrow> auth_req \<Rightarrow> form \<Rightarrow> time \<Rightarrow> token_randoms \<Rightarrow> auth_server \<Rightarrow> oauth_reply \<times> auth_server" where
  "token_code E rq f now rn s =
     (if f ''code'' = [] \<or> f ''client_id'' = [] then (OErr 400 ''invalid_request'', s)
      else if \<not> valid_verifier (f ''code_verifier'') then (OErr 400 ''invalid_grant'', s)
      else case consume_code (oe_hash E (f ''code'')) now (as_store s) of
        (Reused c, m) \<Rightarrow> (OErr 400 ''invalid_grant'', s\<lparr>as_store := revoke_client_grants c now m\<rparr>)
      | (Absent, m) \<Rightarrow> (OErr 400 ''invalid_grant'', s\<lparr>as_store := m\<rparr>)
      | (Taken c, m) \<Rightarrow>
          (case code_fits E f c of
             Some e \<Rightarrow> (OErr 400 e, s\<lparr>as_store := m\<rparr>)
           | None \<Rightarrow>
               let g = grant_of_code c now (''zog_'' @ rn_grant rn) in
               issue E rq now rn g (gr_scope g) (s\<lparr>as_store := create_grant g m\<rparr>)))"

definition forget :: "string \<Rightarrow> auth_server \<Rightarrow> auth_server" where
  "forget gid s = s\<lparr>as_cache := gm_del gid (as_cache s)\<rparr>"

definition revoke_and_forget :: "string \<Rightarrow> time \<Rightarrow> auth_server \<Rightarrow> auth_server" where
  "revoke_and_forget gid now s = forget gid (s\<lparr>as_store := revoke_grant gid now (as_store s)\<rparr>)"

text \<open>The scope of a refreshed token: the one of the grant, or a narrower one.\<close>

definition refresh_scope :: "grant \<Rightarrow> string \<Rightarrow> string option" where
  "refresh_scope g want =
     (if want = [] then Some (gr_scope g)
      else (case parse_scopes want of
              (ws, unknown) \<Rightarrow>
                if unknown \<noteq> [] \<or> \<not> subset_of ws (fst (parse_scopes (gr_scope g))) then None else Some (join_space ws)))"

definition token_refresh ::
  "oauth_env \<Rightarrow> auth_req \<Rightarrow> form \<Rightarrow> time \<Rightarrow> token_randoms \<Rightarrow> auth_server \<Rightarrow> oauth_reply \<times> auth_server" where
  "token_refresh E rq f now rn s =
     (if f ''refresh_token'' = [] \<or> f ''client_id'' = [] then (OErr 400 ''invalid_request'', s)
      else case rotate_refresh (oe_hash E (f ''refresh_token'')) now (as_store s) of
        (Reused gid, m) \<Rightarrow> (OErr 400 ''invalid_grant'', revoke_and_forget gid now (s\<lparr>as_store := m\<rparr>))
      | (Absent, m) \<Rightarrow> (OErr 400 ''invalid_grant'', s\<lparr>as_store := m\<rparr>)
      | (Taken gid, m) \<Rightarrow>
          let s1 = s\<lparr>as_store := m\<rparr> in
          (case get_grant gid m of
             None \<Rightarrow> (OErr 400 ''invalid_grant'', s1)
           | Some g \<Rightarrow>
               if \<not> active g \<or> gr_client g \<noteq> f ''client_id'' then (OErr 400 ''invalid_grant'', s1)
               else if f ''resource'' \<noteq> [] \<and> canon_resource_url (f ''resource'') \<noteq> canon_resource_url (gr_resource g)
               then (OErr 400 ''invalid_target'', s1)
               else if is_full g \<and> now - gr_created g > FullGrantMaxAge
               then (OErr 400 ''invalid_grant'', revoke_and_forget gid now s1)
               else (case refresh_scope g (f ''scope'') of
                       None \<Rightarrow> (OErr 400 ''invalid_scope'', s1)
                     | Some scope \<Rightarrow> issue E rq now rn g scope s1)))"

text \<open>\<open>ok\<close> is the verdict of the limiter; \<open>form\<close> is \<open>None\<close> when it cannot be parsed.\<close>

definition token ::
  "oauth_env \<Rightarrow> auth_req \<Rightarrow> bool \<Rightarrow> form option \<Rightarrow> time \<Rightarrow> token_randoms \<Rightarrow> auth_server \<Rightarrow> oauth_reply \<times> auth_server" where
  "token E rq ok f now rn s =
     (if aq_method rq = ''OPTIONS'' then (NoContent, s)
      else if aq_method rq \<noteq> ''POST'' then (OErr 405 ''invalid_request'', s)
      else if \<not> ok then (OErr 429 ''temporarily_unavailable'', s)
      else case f of
        None \<Rightarrow> (OErr 400 ''invalid_request'', s)
      | Some v \<Rightarrow>
          if v ''grant_type'' = ''authorization_code'' then token_code E rq v now rn s
          else if v ''grant_type'' = ''refresh_token'' then token_refresh E rq v now rn s
          else (OErr 400 ''unsupported_grant_type'', s))"

section \<open>Revocation\<close>

text \<open>The grant a token belongs to; looking a refresh token up uses it.\<close>

definition grant_of_token :: "oauth_env \<Rightarrow> string \<Rightarrow> time \<Rightarrow> mem_store \<Rightarrow> string \<times> mem_store" where
  "grant_of_token E tok now m =
     (if has_prefix tok ''zor_rt_'' then
        (case rotate_refresh (oe_hash E tok) now m of
           (Taken gid, m1) \<Rightarrow> (gid, m1)
         | (Reused gid, m1) \<Rightarrow> (gid, m1)
         | (Absent, m1) \<Rightarrow> ([], m1))
      else (case parse_jwt E tok of None \<Rightarrow> ([], m) | Some c \<Rightarrow> (c_gid c, m)))"

definition revoke ::
  "oauth_env \<Rightarrow> auth_req \<Rightarrow> bool \<Rightarrow> form option \<Rightarrow> time \<Rightarrow> auth_server \<Rightarrow> oauth_reply \<times> auth_server" where
  "revoke E rq ok f now s =
     (if aq_method rq = ''OPTIONS'' then (NoContent, s)
      else if aq_method rq \<noteq> ''POST'' then (OErr 405 ''invalid_request'', s)
      else if \<not> ok then (OErr 429 ''temporarily_unavailable'', s)
      else case f of
        None \<Rightarrow> (OErr 400 ''invalid_request'', s)
      | Some v \<Rightarrow>
          (case grant_of_token E (v ''token'') now (as_store s) of
             (gid, m) \<Rightarrow>
               let s1 = s\<lparr>as_store := m\<rparr> in
               (case (if gid = [] then None else get_grant gid m) of
                  None \<Rightarrow> (Done, s1)
                | Some g \<Rightarrow> (Done, if v ''client_id'' = [] \<or> gr_client g = v ''client_id'' then revoke_and_forget gid now s1 else s1))))"

definition privileged :: "org list \<Rightarrow> string \<Rightarrow> bool" where
  "privileged orgs tenant \<longleftrightarrow> map_of (rev (map (\<lambda>o1. (og_id o1, og_role o1)) orgs)) tenant \<in> {Some ''owner'', Some ''admin''}"

text \<open>\<open>grants\<close>: the list for the panel, and the deletion of one. \<open>path_id\<close> is what follows \<open>/oauth/grants/\<close> in the path.\<close>

definition grants_panel ::
  "auth_req \<Rightarrow> panel_facts \<Rightarrow> string option \<Rightarrow> string \<Rightarrow> time \<Rightarrow> auth_server \<Rightarrow> oauth_reply \<times> auth_server" where
  "grants_panel rq F path_id tenant now s =
     (case pf_session F of
        None \<Rightarrow> (OErr 401 ''login_required'', s)
      | Some ss \<Rightarrow>
          if ss_user ss = [] then (OErr 401 ''login_required'', s)
          else (case pf_orgs F of
            None \<Rightarrow> (OErr 500 ''server_error'', s)
          | Some orgs \<Rightarrow>
              if aq_method rq = ''GET'' \<and> path_id = None then
                (if tenant \<noteq> [] then
                   (if \<not> privileged orgs tenant then (OErr 403 ''access_denied'', s)
                    else (GrantsListed (sort_key (\<lambda>g. - gr_created g) (list_grants [] tenant (as_store s))), s))
                 else (GrantsListed (sort_key (\<lambda>g. - gr_created g) (list_grants (ss_user ss) [] (as_store s))), s))
              else (case path_id of
                None \<Rightarrow> (OErr 405 ''invalid_request'', s)
              | Some gid \<Rightarrow>
                  if aq_method rq \<noteq> ''DELETE'' \<or> gid = [] then (OErr 405 ''invalid_request'', s)
                  else if aq_origin rq = [] \<or> \<not> pf_trusted F then (OErr 403 ''forbidden_origin'', s)
                  else (case get_grant gid (as_store s) of
                          None \<Rightarrow> (OErr 404 ''not_found'', s)
                        | Some g \<Rightarrow>
                            if gr_user g \<noteq> ss_user ss \<and> \<not> privileged orgs (gr_tenant g) then (OErr 404 ''not_found'', s)
                            else (NoContent, revoke_and_forget gid now s)))))"

definition unlink_one :: "string list \<Rightarrow> time \<Rightarrow> grant \<Rightarrow> int \<times> auth_server \<Rightarrow> int \<times> auth_server" where
  "unlink_one keys now g ns =
     (case resource_key (gr_resource g) of
        None \<Rightarrow> ns
      | Some k \<Rightarrow> if k \<in> set keys then (fst ns + 1, revoke_and_forget (gr_id g) now (snd ns)) else ns)"

definition revoke_by_resource :: "string \<Rightarrow> string list \<Rightarrow> time \<Rightarrow> auth_server \<Rightarrow> int \<times> auth_server" where
  "revoke_by_resource tenant keys now s =
     (if keys = [] then (0, s) else fold (unlink_one keys now) (list_grants [] tenant (as_store s)) (0, s))"

section \<open>Access\<close>

record principal =
  pn_user :: string
  pn_tenant :: string
  pn_grant :: string
  pn_client :: string
  pn_client_name :: string
  pn_scopes :: "string list"
  pn_api :: "string list"
  pn_full :: bool
  pn_step_up :: "time option"

definition grant_cached :: "string \<Rightarrow> time \<Rightarrow> auth_server \<Rightarrow> grant option \<times> auth_server" where
  "grant_cached gid now s =
     (case map_of (as_cache s) gid of
        Some (g, at) \<Rightarrow> if now - at < grantCacheTTL then (Some g, s) else
          (case get_grant gid (as_store s) of
             None \<Rightarrow> (None, s)
           | Some g' \<Rightarrow> (Some g', \<lparr>as_store = touch_grant gid now (as_store s),
               as_cache = gm_put gid (g', now) (if length (as_cache s) > 4096 then [] else as_cache s)\<rparr>))
      | None \<Rightarrow>
          (case get_grant gid (as_store s) of
             None \<Rightarrow> (None, s)
           | Some g' \<Rightarrow> (Some g', \<lparr>as_store = touch_grant gid now (as_store s),
               as_cache = gm_put gid (g', now) (if length (as_cache s) > 4096 then [] else as_cache s)\<rparr>)))"

text \<open>What the claims and the grant must agree on.\<close>

definition grant_backs :: "grant \<Rightarrow> claims \<Rightarrow> bool" where
  "grant_backs g c \<longleftrightarrow> active g \<and> gr_user g = c_sub c \<and> gr_tenant g = c_tid c \<and> gr_resource g = c_aud c"

definition scopes_within :: "claims \<Rightarrow> grant \<Rightarrow> string list option" where
  "scopes_within c g =
     (case parse_scopes (c_scope c) of
        (scopes, unknown) \<Rightarrow> if unknown \<noteq> [] \<or> \<not> subset_of scopes (fst (parse_scopes (gr_scope g))) then None else Some scopes)"

definition claims_live :: "claims \<Rightarrow> time \<Rightarrow> bool" where
  "claims_live c now \<longleftrightarrow> \<not> c_exp c \<le> now div Second - 5 \<and> c_gid c \<noteq> [] \<and> c_sub c \<noteq> [] \<and> c_tid c \<noteq> []"

definition authenticate :: "oauth_env \<Rightarrow> auth_req \<Rightarrow> string \<Rightarrow> time \<Rightarrow> auth_server \<Rightarrow> principal option \<times> auth_server" where
  "authenticate E rq raw now s =
     (case parse_jwt E raw of
        None \<Rightarrow> (None, s)
      | Some c \<Rightarrow>
          if c_iss c \<noteq> issuer E rq \<or> c_aud c \<noteq> resource E rq \<or> \<not> claims_live c now then (None, s)
          else (case grant_cached (c_gid c) now s of
                  (None, s1) \<Rightarrow> (None, s1)
                | (Some g, s1) \<Rightarrow>
                    if \<not> grant_backs g c then (None, s1)
                    else (case scopes_within c g of
                            None \<Rightarrow> (None, s1)
                          | Some scopes \<Rightarrow>
                              (Some \<lparr>pn_user = c_sub c, pn_tenant = c_tid c, pn_grant = c_gid c, pn_client = c_cid c,
                                 pn_client_name = gr_client_name g, pn_scopes = scopes, pn_api = api_scopes scopes,
                                 pn_full = has_full scopes, pn_step_up = gr_step_up g\<rparr>, s1))))"

record resource_claims =
  rc_subject :: string
  rc_tenant :: string
  rc_grant :: string
  rc_client :: string
  rc_client_name :: string
  rc_scope :: string

definition verify_resource :: "oauth_env \<Rightarrow> string \<Rightarrow> string \<Rightarrow> time \<Rightarrow> auth_server \<Rightarrow> resource_claims option \<times> auth_server" where
  "verify_resource E raw key now s =
     (case parse_jwt E raw of
        None \<Rightarrow> (None, s)
      | Some c \<Rightarrow>
          if resource_key (c_aud c) \<noteq> Some key \<or> \<not> claims_live c now then (None, s)
          else if oe_issuer E \<noteq> [] \<and> c_iss c \<noteq> trim_slashes (oe_issuer E) then (None, s)
          else (case grant_cached (c_gid c) now s of
                  (None, s1) \<Rightarrow> (None, s1)
                | (Some g, s1) \<Rightarrow>
                    if \<not> grant_backs g c then (None, s1)
                    else (case scopes_within c g of
                            None \<Rightarrow> (None, s1)
                          | Some scopes \<Rightarrow>
                              if \<not> has_scope scopes ScopeTunnelAccess then (None, s1)
                              else (Some \<lparr>rc_subject = c_sub c, rc_tenant = c_tid c, rc_grant = c_gid c, rc_client = c_cid c,
                                      rc_client_name = gr_client_name g, rc_scope = c_scope c\<rparr>, s1))))"

definition prune_server :: "time \<Rightarrow> auth_server \<Rightarrow> auth_server" where
  "prune_server now s = s\<lparr>as_store := prune now (as_store s)\<rparr>"

end
