(* ===== verification/OAuth_Safety.thy ===== *)
theory OAuth_Safety
  imports OAuth_Server
begin

text \<open>
  What the OAuth server promises over any history of requests: a code gives one grant, to the client and the verifier it
  was meant for, within what the user agreed to; a refresh token is accepted once; access ends with the grant; full
  access rests on a fresh login.
\<close>

section \<open>Histories\<close>

datatype oauth_event =
    ERegister auth_req bool bool "register_body option" time string
  | EConsent auth_req panel_facts "consent_body option" time string
  | EToken auth_req bool "form option" time token_randoms
  | ERevoke auth_req bool "form option" time
  | EPanel auth_req panel_facts "string option" string time
  | EAccess auth_req string time
  | EResource string string time
  | EUnlink string "string list" time
  | EPrune time

datatype oauth_answer =
    AReply oauth_reply
  | APrincipal "principal option"
  | AClaims "resource_claims option"
  | ANothing

fun oauth_apply :: "oauth_env \<Rightarrow> oauth_event \<Rightarrow> auth_server \<Rightarrow> oauth_answer \<times> auth_server" where
  "oauth_apply E (ERegister rq ok1 ok2 b now rid) s = apfst AReply (register_client E rq ok1 ok2 b now rid s)"
| "oauth_apply E (EConsent rq F b now code) s = apfst AReply (consent_decision E rq F b now code s)"
| "oauth_apply E (EToken rq ok f now rn) s = apfst AReply (token E rq ok f now rn s)"
| "oauth_apply E (ERevoke rq ok f now) s = apfst AReply (revoke E rq ok f now s)"
| "oauth_apply E (EPanel rq F i tenant now) s = apfst AReply (grants_panel rq F i tenant now s)"
| "oauth_apply E (EAccess rq raw now) s = apfst APrincipal (authenticate E rq raw now s)"
| "oauth_apply E (EResource raw key now) s = apfst AClaims (verify_resource E raw key now s)"
| "oauth_apply E (EUnlink tenant keys now) s = (ANothing, snd (revoke_by_resource tenant keys now s))"
| "oauth_apply E (EPrune now) s = (ANothing, prune_server now s)"

fun event_time :: "oauth_event \<Rightarrow> time" where
  "event_time (ERegister rq ok1 ok2 b now rid) = now"
| "event_time (EConsent rq F b now code) = now"
| "event_time (EToken rq ok f now rn) = now"
| "event_time (ERevoke rq ok f now) = now"
| "event_time (EPanel rq F i tenant now) = now"
| "event_time (EAccess rq raw now) = now"
| "event_time (EResource raw key now) = now"
| "event_time (EUnlink tenant keys now) = now"
| "event_time (EPrune now) = now"

type_synonym oauth_log = "(oauth_event \<times> oauth_answer) list"

text \<open>The random values drawn so far, as the keys they are stored under.\<close>

definition refresh_key :: "oauth_env \<Rightarrow> token_randoms \<Rightarrow> string" where
  "refresh_key E rn = oe_hash E (''zor_rt_'' @ rn_refresh rn)"

definition code_keys :: "oauth_env \<Rightarrow> oauth_log \<Rightarrow> string set" where
  "code_keys E log = {oe_hash E code | rq F b now code a. (EConsent rq F b now code, a) \<in> set log}"

definition refresh_keys :: "oauth_env \<Rightarrow> oauth_log \<Rightarrow> string set" where
  "refresh_keys E log = {refresh_key E rn | rq ok f now rn a. (EToken rq ok f now rn, a) \<in> set log}"

definition grant_ids :: "oauth_log \<Rightarrow> string set" where
  "grant_ids log = {''zog_'' @ rn_grant rn | rq ok f now rn a. (EToken rq ok f now rn, a) \<in> set log}"

fun draws_fresh :: "oauth_env \<Rightarrow> oauth_log \<Rightarrow> oauth_event \<Rightarrow> bool" where
  "draws_fresh E log (EConsent rq F b now code) = (oe_hash E code \<notin> code_keys E log)"
| "draws_fresh E log (EToken rq ok f now rn) = (refresh_key E rn \<notin> refresh_keys E log \<and> ''zog_'' @ rn_grant rn \<notin> grant_ids log)"
| "draws_fresh E log ev = True"

text \<open>Histories in which random values do not repeat and the clock does not go back.\<close>

inductive oauth_reach :: "oauth_env \<Rightarrow> oauth_log \<Rightarrow> auth_server \<Rightarrow> bool" for E where
  start: "oauth_reach E [] new_auth_server"
| step: "oauth_reach E log s \<Longrightarrow> draws_fresh E log ev \<Longrightarrow> \<forall>e\<in>set log. event_time (fst e) \<le> event_time ev \<Longrightarrow>
    oauth_apply E ev s = (a, s') \<Longrightarrow> oauth_reach E (log @ [(ev, a)]) s'"

inductive_cases oauth_reach_snocE: "oauth_reach E (log @ [(ev, a)]) s'"

section \<open>What the user agreed to\<close>

text \<open>The record under a code says what a signed-in user allowed on the consent page: for an organisation of the user or
  a tunnel open to the user, with no deleting scope and no full access unless chosen explicitly, full access only
  right after a login. The redirect address is the one of the request, or, where the request has none, the only one of the client.\<close>

definition agreed :: "oauth_env \<Rightarrow> auth_req \<Rightarrow> panel_facts \<Rightarrow> consent_body \<Rightarrow> time \<Rightarrow> auth_code \<Rightarrow> bool" where
  "agreed E rq F b now cd \<longleftrightarrow>
     pf_trusted F \<and> cb_decision b = ''allow'' \<and> cd_client cd = cb_client b \<and> cd_challenge cd = cb_challenge b \<and> cd_expires cd = now + codeTTL
   \<and> cd_redirect cd \<noteq> [] \<and> (cb_redirect b \<noteq> [] \<longrightarrow> cd_redirect cd = cb_redirect b)
   \<and> (\<exists>ss. pf_session F = Some ss \<and> ss_user ss \<noteq> [] \<and> cd_user cd = ss_user ss
        \<and> (cd_resource cd = resource E rq \<and> (\<exists>orgs. pf_orgs F = Some orgs \<and> cd_tenant cd \<in> set (map og_id orgs))
           \<or> (\<exists>info res. resolve_tunnel E F res = Some (info, cd_resource cd) \<and> ri_tenant info = cd_tenant cd
                \<and> user_allowed F info (ss_user ss) = Some True))
        \<and> (\<exists>scopes. cd_scope cd = join_space scopes \<and> scopes \<noteq> [] \<and> (\<forall>x\<in>set scopes. x \<in> set supported_scopes)
             \<and> (\<forall>x\<in>set scopes. destructive x \<or> x = ScopeFull \<longrightarrow> (\<exists>chosen. cb_scopes b = Some chosen \<and> x \<in> set chosen))
             \<and> (ScopeFull \<in> set scopes \<longrightarrow> session_fresh now ss \<and> cd_step_up cd = ss_auth ss)))"

lemma get_client_id: "get_client i m = Some c \<Longrightarrow> \<forall>k c. map_of (ms_clients m) k = Some c \<longrightarrow> cl_id c = k \<Longrightarrow> cl_id c = i"
  by (simp add: get_client_def)

definition clients_ok :: "mem_store \<Rightarrow> bool" where
  "clients_ok m \<longleftrightarrow> (\<forall>k c. map_of (ms_clients m) k = Some c \<longrightarrow> cl_id c = k)"

lemma management_scopes_ok:
  "management_scopes t = Some scopes \<Longrightarrow> \<forall>x\<in>set scopes. x \<in> set supported_scopes"
proof -
  have r: "ScopeMCPRead \<in> set supported_scopes" by code_simp
  assume "management_scopes t = Some scopes"
  then obtain ps where "parse_scopes t = (ps, [])" "scopes = (if ps = [] then [ScopeMCPRead] else ps)"
    by (auto simp: management_scopes_def split: prod.splits if_splits)
  with parse_scopes_ok [OF this(1)] r show ?thesis by auto
qed

lemma tunnel_scopes_ok:
  "tunnel_scopes t = Some scopes \<Longrightarrow> \<forall>x\<in>set scopes. x \<in> set supported_scopes"
proof -
  have r: "ScopeTunnelAccess \<in> set supported_scopes" by code_simp
  assume "tunnel_scopes t = Some scopes"
  with r show ?thesis by (auto simp: tunnel_scopes_def Let_def list_all_iff split: prod.splits if_splits)
qed

lemma parse_authz_ok:
  assumes "parse_authz E rq F v m = Inr a" and "clients_ok m"
  shows "cl_id (az_client a) = v ''client_id'' \<and> az_challenge a = v ''code_challenge'' \<and> (\<forall>x\<in>set (az_scopes a). x \<in> set supported_scopes)
    \<and> az_redirect a \<noteq> [] \<and> (v ''redirect_uri'' \<noteq> [] \<longrightarrow> az_redirect a = v ''redirect_uri'')
    \<and> (case az_tunnel a of None \<Rightarrow> az_resource a = resource E rq
       | Some info \<Rightarrow> \<exists>res. resolve_tunnel E F res = Some (info, az_resource a))"
proof -
  from assms(1) obtain c tun canon redirect scopes where c: "get_client (v ''client_id'') m = Some c"
    and a: "a = \<lparr>az_tunnel = tun, az_client = c, az_redirect = redirect, az_state = v ''state'', az_scopes = scopes,
      az_resource = canon, az_challenge = v ''code_challenge''\<rparr>"
    and rd: "redirect \<noteq> []" "v ''redirect_uri'' \<noteq> [] \<longrightarrow> redirect = v ''redirect_uri''"
    and sc: "management_scopes (v ''scope'') = Some scopes \<or> tunnel_scopes (v ''scope'') = Some scopes"
    and tr: "tun = None \<and> canon = resource E rq \<or> (\<exists>info res. tun = Some info \<and> resolve_tunnel E F res = Some (info, canon))"
    by (auto simp: parse_authz_def Let_def split: if_splits option.splits) blast+
  have "cl_id c = v ''client_id''" using c assms(2) by (simp add: clients_ok_def get_client_def)
  with a sc tr rd management_scopes_ok tunnel_scopes_ok show ?thesis by auto
qed

lemma consent_scopes_ok:
  assumes "consent_scopes requested chosen = Some granted" and "\<forall>x\<in>set requested. x \<in> set supported_scopes"
  shows "\<forall>x\<in>set granted. x \<in> set supported_scopes \<and> (destructive x \<or> x = ScopeFull \<longrightarrow> (\<exists>ch. chosen = Some ch \<and> x \<in> set ch))"
  using assms known_scopes
  by (auto simp: consent_scopes_def without_scope_def list_all_iff split: option.splits if_splits)

lemma consent_check_agreed:
  assumes "consent_check E rq F body now m = Inr cd" and "clients_ok m"
  shows "\<exists>b. body = Some b \<and> agreed E rq F b now cd"
proof -
  from assms(1) obtain ss b a tenant granted where
    ss: "pf_session F = Some ss" "ss_user ss \<noteq> []" "pf_trusted F" and b: "body = Some b" "cb_decision b = ''allow''"
    and a: "parse_authz E rq F (consent_form b) m = Inr a"
    and t: "consent_tenant F ss a (cb_tenant b) = Inr tenant"
    and g: "consent_scopes (az_scopes a) (cb_scopes b) = Some granted" "has_full granted \<longrightarrow> session_fresh now ss"
      "(if has_full granted then unique_scopes granted else granted) \<noteq> []"
    and cd: "cd = \<lparr>cd_client = cl_id (az_client a), cd_user = ss_user ss, cd_tenant = tenant,
        cd_redirect = az_redirect a, cd_scope = join_space (if has_full granted then unique_scopes granted else granted),
        cd_resource = az_resource a, cd_challenge = az_challenge a, cd_expires = now + codeTTL,
        cd_step_up = (if has_full granted then ss_auth ss else None)\<rparr>"
    by (auto simp: consent_check_def Let_def split: if_splits option.splits sum.splits authz_err.splits)
  note pa = parse_authz_ok [OF a assms(2)]
  let ?sc = "if has_full granted then unique_scopes granted else granted"
  have set: "set ?sc = set granted" by simp
  have "cl_id (az_client a) = cb_client b" "az_challenge a = cb_challenge b" "az_redirect a \<noteq> []"
    "cb_redirect b \<noteq> [] \<longrightarrow> az_redirect a = cb_redirect b" using pa by (simp_all add: consent_form_def)
  moreover have "az_resource a = resource E rq \<and> (\<exists>orgs. pf_orgs F = Some orgs \<and> tenant \<in> set (map og_id orgs))
      \<or> (\<exists>info res. resolve_tunnel E F res = Some (info, az_resource a) \<and> ri_tenant info = tenant \<and> user_allowed F info (ss_user ss) = Some True)"
    using t pa by (auto simp: consent_tenant_def list_ex_iff image_iff eq_commute split: option.splits bool.splits if_splits)
  moreover have "\<forall>x\<in>set ?sc. x \<in> set supported_scopes"
    "\<forall>x\<in>set ?sc. destructive x \<or> x = ScopeFull \<longrightarrow> (\<exists>chosen. cb_scopes b = Some chosen \<and> x \<in> set chosen)"
    using consent_scopes_ok [OF g(1)] pa unfolding set by blast+
  moreover have "ScopeFull \<in> set ?sc \<longrightarrow> session_fresh now ss \<and> cd_step_up cd = ss_auth ss"
    using g(2) unfolding set cd by (simp add: has_full_def has_scope_def)
  ultimately show ?thesis
    using ss b g(3) unfolding agreed_def cd
    by (intro exI [of _ b] conjI exI [of _ ss] exI [of _ ?sc]) auto
qed

section \<open>Provenance\<close>

text \<open>Lookups stay lookups.\<close>

declare map_of_eq_Some_iff [simp del] Some_eq_map_of_iff [simp del]

text \<open>The record under a code comes from a consent, and the code was sent to the redirect address of the record.\<close>

definition consented :: "oauth_env \<Rightarrow> oauth_log \<Rightarrow> string \<Rightarrow> auth_code \<Rightarrow> bool" where
  "consented E log h cd \<longleftrightarrow> (\<exists>rq F b now code ps. (EConsent rq F (Some b) now code, AReply (CodeIssued (cd_redirect cd) ps)) \<in> set log
     \<and> (''code'', code) \<in> set ps \<and> oe_hash E code = h \<and> agreed E rq F b now cd)"

text \<open>The request that redeems a code shows the client, the address and the verifier the code was made for, in time.\<close>

definition redeemed :: "oauth_env \<Rightarrow> form \<Rightarrow> auth_code \<Rightarrow> time \<Rightarrow> bool" where
  "redeemed E f cd now \<longleftrightarrow> f ''grant_type'' = ''authorization_code'' \<and> f ''client_id'' = cd_client cd \<and> f ''redirect_uri'' = cd_redirect cd
     \<and> valid_verifier (f ''code_verifier'') \<and> oe_challenge E (f ''code_verifier'') = cd_challenge cd \<and> now \<le> cd_expires cd"

text \<open>What of a grant never changes.\<close>

definition core :: "grant \<Rightarrow> grant" where
  "core g = g\<lparr>gr_client_name := [], gr_last_used := None, gr_revoked := None\<rparr>"

lemma core_fields:
  "core g' = core g \<Longrightarrow> gr_id g' = gr_id g \<and> gr_user g' = gr_user g \<and> gr_tenant g' = gr_tenant g \<and> gr_client g' = gr_client g
   \<and> gr_resource g' = gr_resource g \<and> gr_scope g' = gr_scope g \<and> gr_created g' = gr_created g \<and> gr_step_up g' = gr_step_up g"
  by (cases g; cases g') (simp add: core_def)

lemma core_updates [simp]: "core (g\<lparr>gr_client_name := n\<rparr>) = core g" "core (g\<lparr>gr_last_used := l\<rparr>) = core g" "core (g\<lparr>gr_revoked := r\<rparr>) = core g"
  "core (with_name m g) = core g"
  by (cases g; simp add: core_def with_name_def)+

definition granted :: "oauth_env \<Rightarrow> oauth_log \<Rightarrow> grant \<Rightarrow> bool" where
  "granted E log g \<longleftrightarrow> (\<exists>cd rq ok f now rn a. (EToken rq ok (Some f) now rn, a) \<in> set log \<and> consented E log (oe_hash E (f ''code'')) cd
     \<and> redeemed E f cd now \<and> core g = grant_of_code cd now (''zog_'' @ rn_grant rn))"

text \<open>A refresh token was drawn for a token request and is good for seven days at least.\<close>

definition refresh_issued :: "oauth_env \<Rightarrow> oauth_log \<Rightarrow> string \<Rightarrow> mem_refresh \<Rightarrow> bool" where
  "refresh_issued E log k r \<longleftrightarrow>
     (\<exists>rq ok f t rn a. (EToken rq ok f t rn, a) \<in> set log \<and> refresh_key E rn = k \<and> t + FullRefreshTTL \<le> rf_expires r)"

lemma refresh_issued_mono: "refresh_issued E log k r \<Longrightarrow> set log \<subseteq> set log' \<Longrightarrow> refresh_issued E log' k r"
  unfolding refresh_issued_def by blast

lemma refresh_issued_key: "refresh_issued E log k r \<Longrightarrow> k \<in> refresh_keys E log"
  unfolding refresh_issued_def refresh_keys_def by blast

lemma refresh_issued_used [simp]: "refresh_issued E log k (r\<lparr>rf_used := u\<rparr>) = refresh_issued E log k r"
  by (simp add: refresh_issued_def)

definition store_ok :: "oauth_env \<Rightarrow> oauth_log \<Rightarrow> mem_store \<Rightarrow> bool" where
  "store_ok E log m \<longleftrightarrow> clients_ok m \<and> gm_ok (ms_codes m) \<and> gm_ok (ms_refresh m)
   \<and> (\<forall>h cu. map_of (ms_codes m) h = Some cu \<longrightarrow> consented E log h (fst cu))
   \<and> (\<forall>i g. map_of (ms_grants m) i = Some g \<longrightarrow> gr_id g = i \<and> granted E log g)
   \<and> (\<forall>k r. map_of (ms_refresh m) k = Some r \<longrightarrow> refresh_issued E log k r \<and> map_of (ms_grants m) (rf_grant r) \<noteq> None)"

lemma consented_mono: "consented E log h cd \<Longrightarrow> set log \<subseteq> set log' \<Longrightarrow> consented E log' h cd"
  unfolding consented_def by blast

lemma granted_mono: "granted E log g \<Longrightarrow> set log \<subseteq> set log' \<Longrightarrow> granted E log' g"
  unfolding granted_def using consented_mono [of E log _ _ log'] by blast

lemma refresh_keys_mono: "set log \<subseteq> set log' \<Longrightarrow> refresh_keys E log \<subseteq> refresh_keys E log'"
  unfolding refresh_keys_def by blast

lemma store_ok_mono: "store_ok E log m \<Longrightarrow> set log \<subseteq> set log' \<Longrightarrow> store_ok E log' m"
  unfolding store_ok_def using consented_mono [of E log _ _ log'] granted_mono [of E log _ log'] refresh_issued_mono [of E log _ _ log'] by blast

lemma store_okD:
  assumes "store_ok E log m"
  shows "map_of (ms_codes m) h = Some cu \<Longrightarrow> consented E log h (fst cu)"
    and "map_of (ms_grants m) i = Some g \<Longrightarrow> gr_id g = i \<and> granted E log g"
    and "map_of (ms_refresh m) k = Some r \<Longrightarrow> k \<in> refresh_keys E log \<and> refresh_issued E log k r \<and> (\<exists>g. map_of (ms_grants m) (rf_grant r) = Some g)"
    and "clients_ok m" "gm_ok (ms_codes m)" "gm_ok (ms_refresh m)"
  using assms refresh_issued_key [of E log] unfolding store_ok_def by blast+

text \<open>Codes that are known, and grants whose identifiers were drawn.\<close>

lemma consented_key: "consented E log h cd \<Longrightarrow> h \<in> code_keys E log"
  unfolding consented_def code_keys_def by blast

lemma granted_id: "granted E log g \<Longrightarrow> gr_id g \<in> grant_ids log"
proof -
  assume "granted E log g"
  then obtain cd rq ok f now rn a where "(EToken rq ok (Some f) now rn, a) \<in> set log" "core g = grant_of_code cd now (''zog_'' @ rn_grant rn)"
    unfolding granted_def by blast
  moreover from this(2) have "gr_id g = ''zog_'' @ rn_grant rn" by (cases g) (simp add: core_def grant_of_code_def)
  ultimately show ?thesis unfolding grant_ids_def by blast
qed

section \<open>Progress of the store\<close>

text \<open>A refresh token is of no use any more: its grant is revoked, or it is too old.\<close>

definition dead_refresh :: "time \<Rightarrow> mem_refresh \<Rightarrow> mem_store \<Rightarrow> bool" where
  "dead_refresh now r m \<longleftrightarrow> (\<exists>g. map_of (ms_grants m) (rf_grant r) = Some g \<and> gr_revoked g \<noteq> None) \<or> rf_expires r < now"

text \<open>Grants stay, change at most from active to revoked, and what is spent of \<open>H\<close> and \<open>K\<close> stays spent; a used refresh
  token is remembered while it is of any use.\<close>

definition later :: "time \<Rightarrow> string set \<Rightarrow> string set \<Rightarrow> mem_store \<Rightarrow> mem_store \<Rightarrow> bool" where
  "later now H K m m' \<longleftrightarrow>
     (\<forall>i g. map_of (ms_grants m) i = Some g \<longrightarrow> (\<exists>g'. map_of (ms_grants m') i = Some g' \<and> core g' = core g
        \<and> (gr_revoked g' = gr_revoked g \<or> gr_revoked g = None \<and> gr_revoked g' = Some now)))
   \<and> (\<forall>h\<in>H. code_spent h m \<longrightarrow> code_spent h m') \<and> (\<forall>k\<in>K. refresh_spent k m \<longrightarrow> refresh_spent k m')
   \<and> (\<forall>k\<in>K. \<forall>r. map_of (ms_refresh m) k = Some r \<longrightarrow> rf_used r \<longrightarrow> map_of (ms_refresh m') k = Some r \<or> dead_refresh now r m')"

lemma laterD:
  assumes "later now H K m m'"
  shows "map_of (ms_grants m) i = Some g \<Longrightarrow> \<exists>g'. map_of (ms_grants m') i = Some g' \<and> core g' = core g
        \<and> (gr_revoked g' = gr_revoked g \<or> gr_revoked g = None \<and> gr_revoked g' = Some now)"
    and "h \<in> H \<Longrightarrow> code_spent h m \<Longrightarrow> code_spent h m'" and "k \<in> K \<Longrightarrow> refresh_spent k m \<Longrightarrow> refresh_spent k m'"
    and "k \<in> K \<Longrightarrow> map_of (ms_refresh m) k = Some r \<Longrightarrow> rf_used r \<Longrightarrow> map_of (ms_refresh m') k = Some r \<or> dead_refresh now r m'"
  using assms unfolding later_def by blast+

lemma dead_refresh_later:
  assumes "dead_refresh t r m" and "later now H K m m'" and "t \<le> now"
  shows "dead_refresh now r m'"
  using assms(1,3) laterD(1) [OF assms(2), of "rf_grant r"] unfolding dead_refresh_def by fastforce

lemma later_refl [simp]: "later now H K m m"
  by (simp add: later_def)

lemma later_trans: "later now H K m m1 \<Longrightarrow> later now H K m1 m2 \<Longrightarrow> later now H K m m2"
proof -
  assume a: "later now H K m m1" "later now H K m1 m2"
  have "\<exists>g'. map_of (ms_grants m2) i = Some g' \<and> core g' = core g \<and> (gr_revoked g' = gr_revoked g \<or> gr_revoked g = None \<and> gr_revoked g' = Some now)"
    if g: "map_of (ms_grants m) i = Some g" for i g
  proof -
    from a(1) g obtain g1 where g1: "map_of (ms_grants m1) i = Some g1" "core g1 = core g"
      "gr_revoked g1 = gr_revoked g \<or> gr_revoked g = None \<and> gr_revoked g1 = Some now" unfolding later_def by blast
    from a(2) g1(1) obtain g2 where "map_of (ms_grants m2) i = Some g2" "core g2 = core g1"
      "gr_revoked g2 = gr_revoked g1 \<or> gr_revoked g1 = None \<and> gr_revoked g2 = Some now" unfolding later_def by blast
    with g1 show ?thesis by auto
  qed
  moreover have "map_of (ms_refresh m2) k = Some r \<or> dead_refresh now r m2"
    if "k \<in> K" "map_of (ms_refresh m) k = Some r" "rf_used r" for k r
    using laterD(4) [OF a(1) that] laterD(4) [OF a(2) that(1) _ that(3)] dead_refresh_later [OF _ a(2) order_refl] by blast
  ultimately show ?thesis using laterD(2,3) [OF a(1)] laterD(2,3) [OF a(2)] unfolding later_def by blast
qed

definition steps_to :: "oauth_env \<Rightarrow> oauth_log \<Rightarrow> time \<Rightarrow> string set \<Rightarrow> string set \<Rightarrow> mem_store \<Rightarrow> mem_store \<Rightarrow> bool" where
  "steps_to E log now H K m m' \<longleftrightarrow> store_ok E log m' \<and> later now H K m m'"

lemma steps_to_trans: "steps_to E log now H K m m1 \<Longrightarrow> steps_to E log now H K m1 m2 \<Longrightarrow> steps_to E log now H K m m2"
  unfolding steps_to_def using later_trans by blast

lemma steps_to_refl: "store_ok E log m \<Longrightarrow> steps_to E log now H K m m"
  by (simp add: steps_to_def)

lemma create_client_steps: "store_ok E log m \<Longrightarrow> steps_to E log now H K m (create_client c m)"
  by (auto simp: steps_to_def store_ok_def later_def create_client_def clients_ok_def code_spent_def refresh_spent_def)

lemma create_code_steps:
  assumes "store_ok E log m" and "consented E log h cd" and "h \<notin> H"
  shows "steps_to E log now H K m (create_code h cd m)"
proof -
  have "\<forall>k\<in>H. code_spent k m \<longrightarrow> code_spent k (create_code h cd m)" using codes.put_keeps [of h _ m cd] assms(3) by metis
  with assms(1,2) show ?thesis
    by (auto simp: steps_to_def store_ok_def later_def create_code_def clients_ok_def refresh_spent_def split: if_splits)
qed

lemma consume_code_steps: "store_ok E log m \<Longrightarrow> steps_to E log now H K m (snd (consume_code h t m))"
  using codes.take_keeps [of _ m h t, unfolded consume_code_def]
  by (auto simp: steps_to_def store_ok_def later_def consume_code_def clients_ok_def refresh_spent_def split: option.splits if_splits)

lemma rotate_refresh_steps: "store_ok E log m \<Longrightarrow> steps_to E log now H K m (snd (rotate_refresh k t m))"
  using refreshes.take_keeps [of _ m k t, unfolded rotate_refresh_def]
  by (auto simp: steps_to_def store_ok_def later_def rotate_refresh_def clients_ok_def code_spent_def split: option.splits if_splits)

lemma create_grant_steps:
  "store_ok E log m \<Longrightarrow> granted E log g \<Longrightarrow> map_of (ms_grants m) (gr_id g) = None \<Longrightarrow> steps_to E log now H K m (create_grant g m)"
  by (auto simp: steps_to_def store_ok_def later_def create_grant_def clients_ok_def code_spent_def refresh_spent_def)

lemma granted_core: "core g' = core g \<Longrightarrow> granted E log g' = granted E log g"
  by (simp add: granted_def)

text \<open>A grant is replaced by one with the same core.\<close>

lemma change_grant_steps:
  assumes "store_ok E log m" and "map_of (ms_grants m) i = Some g" and "core g' = core g"
    and "gr_revoked g' = gr_revoked g \<or> gr_revoked g = None \<and> gr_revoked g' = Some now"
  shows "steps_to E log now H K m (m\<lparr>ms_grants := gm_put i g' (ms_grants m)\<rparr>)"
  using assms granted_core [OF assms(3)] core_fields [OF assms(3)]
  by (auto simp: steps_to_def store_ok_def later_def clients_ok_def code_spent_def refresh_spent_def)

lemma touch_grant_steps: "store_ok E log m \<Longrightarrow> steps_to E log now H K m (touch_grant i t m)"
  using change_grant_steps [of E log m i] by (auto simp: touch_grant_def steps_to_refl split: option.split)

lemma drop_refresh_steps:
  assumes "store_ok E log m" and "\<And>k r. map_of (ms_refresh m) k = Some r \<Longrightarrow> \<not> P r \<Longrightarrow> dead_refresh now r m"
  shows "steps_to E log now H K m (m\<lparr>ms_refresh := filter (\<lambda>(h, r). P r) (ms_refresh m)\<rparr>)"
proof -
  have k: "map_of (filter (\<lambda>(h, r). P r) (ms_refresh m)) h = Some r \<Longrightarrow> map_of (ms_refresh m) h = Some r" for h r
    using map_of_filter_gm [of "ms_refresh m" P h] store_okD(6) [OF assms(1)] by (auto split: option.splits if_splits)
  have "refresh_spent h m \<Longrightarrow> refresh_spent h (m\<lparr>ms_refresh := filter (\<lambda>(h, r). P r) (ms_refresh m)\<rparr>)" for h
    using k [of h] by (auto simp: refresh_spent_def split: option.splits)
  moreover have "map_of (filter (\<lambda>(h, r). P r) (ms_refresh m)) h = Some r \<or> dead_refresh now r m" if "map_of (ms_refresh m) h = Some r" for h r
    using map_of_filter_gm [of "ms_refresh m" P h] store_okD(6) [OF assms(1)] assms(2) [OF that] that by auto
  ultimately show ?thesis using assms(1)
    by (auto simp: steps_to_def store_ok_def later_def clients_ok_def code_spent_def distinct_map_filter dead_refresh_def dest!: k)
qed

lemma revoke_grant_steps:
  assumes "store_ok E log m"
  shows "steps_to E log now H K m (revoke_grant i now m)"
proof -
  let ?m = "m\<lparr>ms_grants := (case map_of (ms_grants m) i of None \<Rightarrow> ms_grants m
      | Some g \<Rightarrow> if gr_revoked g = None then gm_put i (g\<lparr>gr_revoked := Some now\<rparr>) (ms_grants m) else ms_grants m)\<rparr>"
  have s: "steps_to E log now H K m ?m"
    using change_grant_steps [OF assms, of i] steps_to_refl [OF assms] by (auto split: option.split)
  then have ok: "store_ok E log ?m" by (simp add: steps_to_def)
  have "dead_refresh now r ?m" if "map_of (ms_refresh ?m) k = Some r" "\<not> rf_grant r \<noteq> i" for k r
    using store_okD(3) [OF ok that(1)] that(2) by (auto simp: dead_refresh_def split: option.splits if_splits)
  then have "steps_to E log now H K ?m (?m\<lparr>ms_refresh := filter (\<lambda>(h, r). rf_grant r \<noteq> i) (ms_refresh ?m)\<rparr>)"
    by (rule drop_refresh_steps [OF ok])
  from steps_to_trans [OF s this] show ?thesis by (simp add: revoke_grant_def)
qed

lemma save_refresh_steps:
  assumes "store_ok E log m" and "refresh_issued E log k r" and "map_of (ms_grants m) (rf_grant r) \<noteq> None" and "k \<notin> K"
  shows "steps_to E log now H K m (save_refresh k r m)"
proof -
  have "\<forall>x\<in>K. refresh_spent x m \<longrightarrow> refresh_spent x (save_refresh k r m)" using refreshes.put_keeps [of k _ m r] assms(4) by metis
  with assms show ?thesis
    by (auto simp: steps_to_def store_ok_def later_def save_refresh_def clients_ok_def code_spent_def)
qed

lemma prune_steps:
  assumes "store_ok E log m"
  shows "steps_to E log now H K m (prune now m)"
proof -
  let ?P = "\<lambda>c. \<not> now > cd_expires (fst c) + 600 * Second" and ?m = "m\<lparr>ms_codes := filter (\<lambda>(h, c). \<not> now > cd_expires (fst c) + 600 * Second) (ms_codes m)\<rparr>"
  have k: "map_of (filter (\<lambda>(h, c). ?P c) (ms_codes m)) h = Some c \<Longrightarrow> map_of (ms_codes m) h = Some c" for h c
    using map_of_filter_gm [of "ms_codes m" ?P h] store_okD(5) [OF assms] by (auto split: option.splits if_splits)
  have "code_spent h m \<Longrightarrow> code_spent h ?m" for h
    using k [of h] by (auto simp: code_spent_def split: option.splits)
  then have s: "steps_to E log now H K m ?m" using assms k
    by (auto simp: steps_to_def store_ok_def later_def clients_ok_def refresh_spent_def distinct_map_filter)
  then have "store_ok E log ?m" by (simp add: steps_to_def)
  from steps_to_trans [OF s drop_refresh_steps [OF this, where P = "\<lambda>r. \<not> now > rf_expires r" and now = now]]
  show ?thesis by (simp add: prune_def dead_refresh_def)
qed

lemma revoke_client_grants_steps:
  assumes "store_ok E log m"
  shows "steps_to E log now H K m (revoke_client_grants c now m)"
proof -
  have "steps_to E log now H K m (fold (\<lambda>g m'. if gr_client g = cd_client c \<and> active g then revoke_grant (gr_id g) now m' else m') gs m)" for gs
    using assms
  proof (induction gs arbitrary: m)
    case (Cons g gs)
    let ?m = "if gr_client g = cd_client c \<and> active g then revoke_grant (gr_id g) now m else m"
    have s: "steps_to E log now H K m ?m" using revoke_grant_steps [OF Cons.prems] steps_to_refl [OF Cons.prems] by simp
    then have "store_ok E log ?m" by (simp add: steps_to_def)
    from steps_to_trans [OF s Cons.IH [OF this]] show ?case by simp
  qed (simp add: steps_to_refl)
  then show ?thesis using steps_to_refl [OF assms] by (simp add: revoke_client_grants_def)
qed

end
