(* ===== verification/OAuth_History.thy ===== *)
theory OAuth_History
  imports OAuth_Safety
begin

text \<open>
  The invariant of all histories of the OAuth server: every request keeps the store in order, the cache of grants is at
  most as far behind as it is old, and every token that was issued belongs to a grant that was active then.
\<close>

section \<open>Requests and the store\<close>

lemma steps_to_ok: "steps_to E log now H K m m' \<Longrightarrow> store_ok E log m'"
  by (simp add: steps_to_def)

lemma code_keyI: "(EConsent rq F b now code, a) \<in> set log \<Longrightarrow> oe_hash E code \<in> code_keys E log"
  unfolding code_keys_def by blast

lemma issue_steps:
  assumes "store_ok E log (as_store s)" and "map_of (ms_grants (as_store s)) (gr_id g) \<noteq> None"
    and "(EToken rq0 ok0 f0 now rn, a) \<in> set log" and "refresh_key E rn \<notin> K"
  shows "steps_to E log now H K (as_store s) (as_store (snd (issue E rq now rn g scope s)))"
proof -
  let ?r = "\<lparr>rf_grant = gr_id g, rf_expires = now + (if is_full g then FullRefreshTTL else refreshTTL), rf_used = False\<rparr>"
  have "map_of (ms_grants (as_store s)) (rf_grant ?r) \<noteq> None" using assms(2) by simp
  moreover have "refresh_issued E log (refresh_key E rn) ?r"
    using assms(3) unfolding refresh_issued_def by (fastforce simp: FullRefreshTTL_def refreshTTL_def)
  ultimately have s: "steps_to E log now H K (as_store s) (save_refresh (refresh_key E rn) ?r (as_store s))"
    using save_refresh_steps [OF assms(1) _ _ assms(4)] by blast
  from steps_to_trans [OF s touch_grant_steps [OF steps_to_ok [OF s], of now H K "gr_id g" now]]
  show ?thesis by (simp add: issue_def Let_def refresh_key_def)
qed

lemma consume_codeD:
  assumes "consume_code h now m = (Taken c, m')"
  shows "map_of (ms_codes m) h = Some (c, False)" and "now \<le> cd_expires c" and "ms_grants m' = ms_grants m"
  using assms by (auto simp: consume_code_def split: option.splits if_splits)

lemma token_code_steps:
  assumes ok: "store_ok E log (as_store s)" and fresh: "draws_fresh E log (EToken rq True (Some f) now rn)"
    and gt: "f ''grant_type'' = ''authorization_code''" and t: "token_code E rq f now rn s = (a, s')"
    and log': "log' = log @ [(EToken rq True (Some f) now rn, AReply a)]"
  shows "steps_to E log' now (code_keys E log) (refresh_keys E log) (as_store s) (as_store s')"
proof -
  have sub: "set log \<subseteq> set log'" by (auto simp: log')
  have ok': "store_ok E log' (as_store s)" by (rule store_ok_mono [OF ok sub])
  obtain r m where c: "consume_code (oe_hash E (f ''code'')) now (as_store s) = (r, m)" by force
  have m: "steps_to E log' now (code_keys E log) (refresh_keys E log) (as_store s) m"
    using consume_code_steps [OF ok', of now "code_keys E log" "refresh_keys E log" "oe_hash E (f ''code'')" now] c by simp
  show ?thesis
  proof (cases "\<exists>cd. r = Taken cd \<and> code_fits E f cd = None \<and> f ''code'' \<noteq> [] \<and> f ''client_id'' \<noteq> [] \<and> valid_verifier (f ''code_verifier'')")
    case False
    then have "as_store s' = as_store s \<or> as_store s' = m \<or> (\<exists>c. as_store s' = revoke_client_grants c now m)"
      using t by (auto simp: token_code_def c split: if_splits taken.splits option.splits)
    moreover have "steps_to E log' now (code_keys E log) (refresh_keys E log) m (revoke_client_grants c now m)" for c
      by (rule revoke_client_grants_steps [OF steps_to_ok [OF m]])
    ultimately show ?thesis using m steps_to_refl [OF ok'] steps_to_trans [OF m] by metis
  next
    case True
    then obtain cd where cd: "r = Taken cd" "code_fits E f cd = None" "f ''code'' \<noteq> []" "f ''client_id'' \<noteq> []" "valid_verifier (f ''code_verifier'')"
      by blast
    let ?g = "grant_of_code cd now (''zog_'' @ rn_grant rn)"
    let ?s = "s\<lparr>as_store := create_grant ?g m\<rparr>"
    note cc = consume_codeD [OF c [unfolded cd(1)]]
    have con: "consented E log' (oe_hash E (f ''code'')) cd" using store_okD(1) [OF ok' cc(1)] by simp
    have "redeemed E f cd now" using cd cc(2) gt by (auto simp: redeemed_def code_fits_def split: if_splits)
    moreover have "core ?g = ?g" by (simp add: core_def grant_of_code_def)
    ultimately have g: "granted E log' ?g" using con unfolding granted_def log' by fastforce
    have "gr_id ?g \<notin> grant_ids log" using fresh by (simp add: grant_of_code_def)
    then have "map_of (ms_grants m) (gr_id ?g) = None"
      using store_okD(2) [OF ok] granted_id [of E log] cc(3) by (metis not_Some_eq)
    note s1 = steps_to_trans [OF m create_grant_steps [OF steps_to_ok [OF m] g this]]
    have in_store: "map_of (ms_grants (as_store ?s)) (gr_id ?g) \<noteq> None" by (simp add: create_grant_def)
    have "(EToken rq True (Some f) now rn, AReply a) \<in> set log'" unfolding log' by simp
    with issue_steps [of E log' ?s ?g rq True "Some f" now rn "AReply a" "refresh_keys E log" "code_keys E log" rq "gr_scope ?g"]
      steps_to_ok [OF s1] in_store fresh
    have "steps_to E log' now (code_keys E log) (refresh_keys E log) (create_grant ?g m) (as_store (snd (issue E rq now rn ?g (gr_scope ?g) ?s)))"
      by simp
    from steps_to_trans [OF s1 this] show ?thesis using t cd by (simp add: token_code_def c Let_def)
  qed
qed

lemma get_grantD: "get_grant i m = Some g \<Longrightarrow> \<exists>g0. map_of (ms_grants m) i = Some g0 \<and> g = with_name m g0"
  by (auto simp: get_grant_def)

lemma get_grant_facts:
  assumes "store_ok E log m" and "get_grant i m = Some g"
  shows "gr_id g = i" "\<exists>g0. map_of (ms_grants m) i = Some g0 \<and> core g0 = core g \<and> gr_revoked g0 = gr_revoked g" "granted E log g"
proof -
  obtain g0 where g0: "map_of (ms_grants m) i = Some g0" "g = with_name m g0" using get_grantD [OF assms(2)] by blast
  with store_okD(2) [OF assms(1) g0(1)] show "gr_id g = i" "\<exists>g0. map_of (ms_grants m) i = Some g0 \<and> core g0 = core g \<and> gr_revoked g0 = gr_revoked g"
    "granted E log g" using granted_core [of g g0 E log] by (auto simp: with_name_def)
qed

lemma revoke_and_forget_store [simp]: "as_store (revoke_and_forget gid now s) = revoke_grant gid now (as_store s)"
  by (simp add: revoke_and_forget_def forget_def)

lemma token_refresh_steps:
  assumes ok: "store_ok E log (as_store s)" and fresh: "draws_fresh E log (EToken rq True (Some f) now rn)"
    and t: "token_refresh E rq f now rn s = (a, s')" and log': "log' = log @ [(EToken rq True (Some f) now rn, AReply a)]"
  shows "steps_to E log' now (code_keys E log) (refresh_keys E log) (as_store s) (as_store s')"
proof -
  have ok': "store_ok E log' (as_store s)" by (rule store_ok_mono [OF ok]) (auto simp: log')
  obtain r m where c: "rotate_refresh (oe_hash E (f ''refresh_token'')) now (as_store s) = (r, m)" by force
  have m: "steps_to E log' now (code_keys E log) (refresh_keys E log) (as_store s) m"
    using rotate_refresh_steps [OF ok', of now "code_keys E log" "refresh_keys E log" "oe_hash E (f ''refresh_token'')" now] c by simp
  have rev: "steps_to E log' now (code_keys E log) (refresh_keys E log) (as_store s) (revoke_grant gid now m)" for gid
    by (rule steps_to_trans [OF m revoke_grant_steps [OF steps_to_ok [OF m]]])
  have key: "(EToken rq True (Some f) now rn, AReply a) \<in> set log'" unfolding log' by simp
  have iss: "steps_to E log' now (code_keys E log) (refresh_keys E log) (as_store s) (as_store (snd (issue E rq now rn g scope (s\<lparr>as_store := m\<rparr>))))"
    if g: "get_grant gid m = Some g" for gid g scope
  proof -
    have "map_of (ms_grants m) (gr_id g) \<noteq> None" using get_grant_facts [OF steps_to_ok [OF m] g] by auto
    with issue_steps [of E log' "s\<lparr>as_store := m\<rparr>" g rq True "Some f" now rn "AReply a" "refresh_keys E log" "code_keys E log" rq scope]
      steps_to_ok [OF m] key fresh
    show ?thesis using steps_to_trans [OF m] by simp
  qed
  have s': "s' = snd (token_refresh E rq f now rn s)" using t by simp
  have "as_store s' = as_store s \<or> as_store s' = m \<or> (\<exists>gid. as_store s' = revoke_grant gid now m)
      \<or> (\<exists>gid g scope. get_grant gid m = Some g \<and> as_store s' = as_store (snd (issue E rq now rn g scope (s\<lparr>as_store := m\<rparr>))))"
    unfolding s' by (auto simp: token_refresh_def c Let_def split: taken.split option.split)
  then show ?thesis using steps_to_refl [OF ok'] m rev iss by metis
qed

lemma grant_cached_store: "as_store (snd (grant_cached gid now s)) = as_store s \<or> as_store (snd (grant_cached gid now s)) = touch_grant gid now (as_store s)"
  by (auto simp: grant_cached_def split: option.splits)

lemma grant_cached_steps: "store_ok E log (as_store s) \<Longrightarrow> steps_to E log now H K (as_store s) (as_store (snd (grant_cached gid now s)))"
  using grant_cached_store [of gid now s] touch_grant_steps [of E log "as_store s"] steps_to_refl [of E log "as_store s"] by metis

lemma authenticate_server:
  "snd (authenticate E rq raw now s) = s \<or> (\<exists>gid. snd (authenticate E rq raw now s) = snd (grant_cached gid now s))"
  by (auto simp: authenticate_def split: option.splits prod.splits) (metis snd_conv)+

lemma verify_resource_server:
  "snd (verify_resource E raw key now s) = s \<or> (\<exists>gid. snd (verify_resource E raw key now s) = snd (grant_cached gid now s))"
  by (auto simp: verify_resource_def split: option.splits prod.splits) (metis snd_conv)+

lemma grant_of_token_steps:
  assumes "store_ok E log m"
  shows "steps_to E log now H K m (snd (grant_of_token E tok t m))"
  using rotate_refresh_steps [OF assms, of now H K "oe_hash E tok" t] steps_to_refl [OF assms, of now H K]
  by (auto simp: grant_of_token_def split: taken.splits option.splits prod.splits)

lemma revoke_steps:
  assumes ok: "store_ok E log (as_store s)"
  shows "steps_to E log now H K (as_store s) (as_store (snd (revoke E rq lim f now s)))"
proof (cases "\<exists>v. f = Some v \<and> aq_method rq = ''POST'' \<and> lim")
  case False
  then have "snd (revoke E rq lim f now s) = s" by (auto simp: revoke_def split: option.split)
  then show ?thesis using steps_to_refl [OF ok] by simp
next
  case True
  then obtain v where v: "f = Some v" by blast
  obtain gid m where gm: "grant_of_token E (v ''token'') now (as_store s) = (gid, m)" by force
  have m: "steps_to E log now H K (as_store s) m" using grant_of_token_steps [OF ok, of now H K "v ''token''" now] gm by simp
  have "as_store (snd (revoke E rq lim f now s)) = m \<or> as_store (snd (revoke E rq lim f now s)) = revoke_grant gid now m"
    using True v gm by (auto simp: revoke_def Let_def split: option.split)
  then show ?thesis using m steps_to_trans [OF m revoke_grant_steps [OF steps_to_ok [OF m]]] by metis
qed

lemma grants_panel_steps:
  "store_ok E log (as_store s) \<Longrightarrow> steps_to E log now H K (as_store s) (as_store (snd (grants_panel rq F i tenant now s)))"
proof -
  assume ok: "store_ok E log (as_store s)"
  have "as_store (snd (grants_panel rq F i tenant now s)) = as_store s
      \<or> (\<exists>gid. as_store (snd (grants_panel rq F i tenant now s)) = revoke_grant gid now (as_store s))"
    by (auto simp: grants_panel_def split: option.split)
  then show ?thesis using steps_to_refl [OF ok] revoke_grant_steps [OF ok] by metis
qed

lemma unlink_fold:
  assumes "\<And>s (g :: grant). P s \<Longrightarrow> P (revoke_and_forget (gr_id g) now s)" and "P s"
  shows "P (snd (revoke_by_resource tenant keys now s))"
proof -
  have "P (snd ns) \<Longrightarrow> P (snd (fold (unlink_one keys now) gs ns))" for gs ns
  proof (induction gs arbitrary: ns)
    case (Cons g gs)
    have "P (snd (unlink_one keys now g ns))"
      using Cons.prems assms(1) [OF Cons.prems, of g] by (simp add: unlink_one_def split: option.split)
    from Cons.IH [OF this] show ?case by simp
  qed simp
  with assms(2) show ?thesis by (simp add: revoke_by_resource_def)
qed

lemma revoke_by_resource_steps:
  assumes "store_ok E log (as_store s)"
  shows "steps_to E log now H K (as_store s) (as_store (snd (revoke_by_resource tenant keys now s)))"
  by (rule unlink_fold) (use steps_to_refl [OF assms] steps_to_trans revoke_grant_steps [OF steps_to_ok] in \<open>auto\<close>)

lemma register_client_steps:
  "store_ok E log (as_store s) \<Longrightarrow> steps_to E log now H K (as_store s) (as_store (snd (register_client E rq ok1 ok2 b t rid s)))"
  using create_client_steps [of E log "as_store s"] steps_to_refl [of E log "as_store s"]
  by (auto simp: register_client_def Let_def split: option.split)

lemma consent_steps:
  assumes ok: "store_ok E log (as_store s)" and fresh: "oe_hash E code \<notin> H"
    and ev: "(EConsent rq F body now code, AReply (fst (consent_decision E rq F body now code s))) \<in> set log"
  shows "steps_to E log t H K (as_store s) (as_store (snd (consent_decision E rq F body now code s)))"
proof (cases "consent_check E rq F body now (as_store s)")
  case (Inl r)
  then show ?thesis using steps_to_refl [OF ok] by (simp add: consent_decision_def)
next
  case (Inr cd)
  from consent_check_agreed [OF Inr store_okD(4) [OF ok]] obtain b where b: "body = Some b" "agreed E rq F b now cd" by blast
  have "\<exists>ps. fst (consent_decision E rq F body now code s) = CodeIssued (cd_redirect cd) ps \<and> (''code'', code) \<in> set ps"
    by (simp add: consent_decision_def Inr)
  with ev b have "consented E log (oe_hash E code) cd" unfolding consented_def by metis
  from create_code_steps [OF ok this fresh] show ?thesis by (simp add: consent_decision_def Inr)
qed

text \<open>Every request.\<close>

lemma apply_steps:
  assumes ok: "store_ok E log (as_store s)" and fresh: "draws_fresh E log ev" and ap: "oauth_apply E ev s = (a, s')"
  shows "steps_to E (log @ [(ev, a)]) (event_time ev) (code_keys E log) (refresh_keys E log) (as_store s) (as_store s')"
proof -
  have ok': "store_ok E (log @ [(ev, a)]) (as_store s)" by (rule store_ok_mono [OF ok]) auto
  have s': "s' = snd (oauth_apply E ev s)" using ap by simp
  show ?thesis
  proof (cases ev)
    case (ERegister rq ok1 ok2 b now rid)
    then show ?thesis using register_client_steps [OF ok'] s' by simp
  next
    case (EConsent rq F b now code)
    have "oe_hash E code \<notin> code_keys E log" using fresh EConsent by simp
    moreover have "(EConsent rq F b now code, AReply (fst (consent_decision E rq F b now code s))) \<in> set (log @ [(ev, a)])"
      using ap EConsent by (cases "consent_decision E rq F b now code s") auto
    ultimately show ?thesis using consent_steps [OF ok'] s' EConsent by simp
  next
    case (EToken rq lim f now rn)
    obtain r where t: "token E rq lim f now rn s = (r, s')" "a = AReply r" using ap EToken by (cases "token E rq lim f now rn s") auto
    show ?thesis
    proof (cases "\<exists>v. f = Some v \<and> lim \<and> aq_method rq = ''POST''")
      case False
      with t(1) have "s' = s" by (auto simp: token_def split: if_splits option.splits)
      then show ?thesis using steps_to_refl [OF ok'] by simp
    next
      case True
      then obtain v where v: "f = Some v" "lim" "aq_method rq = ''POST''" by blast
      have fr: "draws_fresh E log (EToken rq True (Some v) now rn)" using fresh EToken by simp
      have log': "log @ [(ev, a)] = log @ [(EToken rq True (Some v) now rn, AReply r)]" using EToken v t(2) by simp
      consider "v ''grant_type'' = ''authorization_code''" "token_code E rq v now rn s = (r, s')"
        | "v ''grant_type'' = ''refresh_token''" "token_refresh E rq v now rn s = (r, s')" | "s' = s"
        using t(1) v by (auto simp: token_def split: if_splits)
      then show ?thesis
      proof cases
        case 1
        from token_code_steps [OF ok fr 1 log'] show ?thesis by (simp add: EToken)
      next
        case 2
        from token_refresh_steps [OF ok fr 2(2) log'] show ?thesis by (simp add: EToken)
      next
        case 3
        then show ?thesis using steps_to_refl [OF ok'] by simp
      qed
    qed
  next
    case (ERevoke rq lim f now)
    then show ?thesis using revoke_steps [OF ok'] s' by simp
  next
    case (EPanel rq F i tenant now)
    then show ?thesis using grants_panel_steps [OF ok'] s' by simp
  next
    case (EAccess rq raw now)
    then show ?thesis using authenticate_server [of E rq raw now s] grant_cached_steps [OF ok'] steps_to_refl [OF ok'] s' by auto
  next
    case (EResource raw key now)
    then show ?thesis using verify_resource_server [of E raw key now s] grant_cached_steps [OF ok'] steps_to_refl [OF ok'] s' by auto
  next
    case (EUnlink tenant keys now)
    then show ?thesis using revoke_by_resource_steps [OF ok'] s' by simp
  next
    case (EPrune now)
    then show ?thesis using prune_steps [OF ok'] s' by (simp add: prune_server_def)
  qed
qed

lemma reach_store_ok: "oauth_reach E log s \<Longrightarrow> store_ok E log (as_store s)"
proof (induction rule: oauth_reach.induct)
  case start
  show ?case by (simp add: store_ok_def clients_ok_def new_auth_server_def new_mem_store_def)
next
  case (step log s ev a s')
  from apply_steps [OF step.IH step.hyps(2) step.hyps(4)] show ?case by (simp add: steps_to_def)
qed

section \<open>The cache\<close>

text \<open>An entry is a copy of the grant as it was at its time: if the copy is active, the grant was not revoked before.\<close>

definition cache_ok :: "time \<Rightarrow> mem_store \<Rightarrow> (string, grant \<times> time) gomap \<Rightarrow> bool" where
  "cache_ok now m c \<longleftrightarrow> (\<forall>i g at. map_of c i = Some (g, at) \<longrightarrow> at \<le> now \<and> (\<exists>g'. map_of (ms_grants m) i = Some g' \<and> core g' = core g
     \<and> (active g \<longrightarrow> (\<forall>t. gr_revoked g' = Some t \<longrightarrow> at \<le> t)) \<and> (\<not> active g \<longrightarrow> \<not> active g')))"

lemma cache_ok_sub: "cache_ok now m c \<Longrightarrow> (\<And>i e. map_of c' i = Some e \<Longrightarrow> map_of c i = Some e) \<Longrightarrow> cache_ok now m c'"
  unfolding cache_ok_def by blast

lemma cache_ok_later:
  assumes "cache_ok t m c" and "later now H K m m'" and "t \<le> now"
  shows "cache_ok now m' c"
  unfolding cache_ok_def
proof (intro allI impI)
  fix i g at assume "map_of c i = Some (g, at)"
  with assms(1) obtain g' where g': "at \<le> t" "map_of (ms_grants m) i = Some g'" "core g' = core g"
    "active g \<longrightarrow> (\<forall>t. gr_revoked g' = Some t \<longrightarrow> at \<le> t)" "\<not> active g \<longrightarrow> \<not> active g'" unfolding cache_ok_def by blast
  with assms(2) obtain g'' where "map_of (ms_grants m') i = Some g''" "core g'' = core g'"
    "gr_revoked g'' = gr_revoked g' \<or> gr_revoked g' = None \<and> gr_revoked g'' = Some now" unfolding later_def by blast
  with g' assms(3) show "at \<le> now \<and> (\<exists>g'. map_of (ms_grants m') i = Some g' \<and> core g' = core g
     \<and> (active g \<longrightarrow> (\<forall>t. gr_revoked g' = Some t \<longrightarrow> at \<le> t)) \<and> (\<not> active g \<longrightarrow> \<not> active g'))"
    by (auto simp: active_def)
qed

lemma cache_ok_put:
  assumes "cache_ok now m c" and "store_ok E log m" and "get_grant i m = Some g"
  shows "cache_ok now m (gm_put i (g, now) c)"
proof -
  from get_grant_facts [OF assms(2,3)] obtain g0 where "map_of (ms_grants m) i = Some g0" "core g0 = core g" "gr_revoked g0 = gr_revoked g"
    by blast
  with assms(1) show ?thesis unfolding cache_ok_def by (auto simp: active_def)
qed

text \<open>The requests only drop entries, except for the two checks of tokens, which may add one.\<close>

definition cache_less :: "auth_server \<Rightarrow> auth_server \<Rightarrow> bool" where
  "cache_less s s' \<longleftrightarrow> (\<forall>i e. map_of (as_cache s') i = Some e \<longrightarrow> map_of (as_cache s) i = Some e)"

lemma cache_less_refl [simp]: "cache_less s s"
  by (simp add: cache_less_def)

lemma cache_less_same: "as_cache s' = as_cache s \<Longrightarrow> cache_less s s'"
  by (simp add: cache_less_def)

lemma cache_less_forget: "cache_less s s0 \<Longrightarrow> cache_less s (revoke_and_forget gid now s0)"
  by (simp add: cache_less_def revoke_and_forget_def forget_def)

lemma cache_less_unlink: "cache_less s (snd (revoke_by_resource tenant keys now s))"
  by (rule unlink_fold) (simp_all add: cache_less_forget)

lemma issue_cache: "as_cache (snd (issue E rq now rn g scope s)) = as_cache s"
  by (simp add: issue_def Let_def)

lemma token_cache: "cache_less s (snd (token E rq ok f now rn s))"
proof -
  have "cache_less s (snd (token_code E rq v now rn s))" for v
    by (simp add: token_code_def Let_def cache_less_same issue_cache split: taken.split option.split prod.split)
  moreover have "cache_less s (snd (token_refresh E rq v now rn s))" for v
    by (simp add: token_refresh_def Let_def cache_less_same cache_less_forget issue_cache split: taken.split option.split prod.split)
  ultimately show ?thesis by (simp add: token_def split: option.split)
qed

lemma revoke_cache: "cache_less s (snd (revoke E rq ok f now s))"
  by (simp add: revoke_def Let_def cache_less_same cache_less_forget split: option.split prod.split)

lemma grants_panel_cache: "cache_less s (snd (grants_panel rq F i tenant now s))"
  by (simp add: grants_panel_def cache_less_forget split: option.split)

lemma register_cache: "cache_less s (snd (register_client E rq ok1 ok2 b t rid s))"
  by (simp add: register_client_def Let_def cache_less_same split: option.split)

lemma consent_cache: "cache_less s (snd (consent_decision E rq F b now code s))"
  by (simp add: consent_decision_def cache_less_same split: sum.split)

lemma other_cache:
  "(case ev of EAccess rq raw now \<Rightarrow> False | EResource raw key now \<Rightarrow> False | _ \<Rightarrow> True) \<Longrightarrow> cache_less s (snd (oauth_apply E ev s))"
  by (cases ev) (simp_all add: register_cache consent_cache token_cache revoke_cache grants_panel_cache cache_less_unlink
    prune_server_def cache_less_same)

lemma grant_cached_ok:
  assumes "cache_ok now (as_store s) (as_cache s)" and "store_ok E log (as_store s)"
  shows "cache_ok now (as_store (snd (grant_cached gid now s))) (as_cache (snd (grant_cached gid now s)))"
proof -
  have empty: "cache_ok now m []" for m by (simp add: cache_ok_def)
  have put: "cache_ok now (touch_grant gid now (as_store s)) (gm_put gid (g, now) (if length (as_cache s) > 4096 then [] else as_cache s))"
    if "get_grant gid (as_store s) = Some g" for g
    by (rule cache_ok_later [OF cache_ok_put [OF _ assms(2) that]])
      (use assms(1) empty touch_grant_steps [OF assms(2), of now "{}" "{}" gid now] in \<open>auto simp: steps_to_def\<close>)
  show ?thesis using assms(1) put by (auto simp: grant_cached_def split: option.split)
qed

lemma apply_cache:
  assumes c: "cache_ok t (as_store s) (as_cache s)" and ok: "store_ok E log (as_store s)" and fresh: "draws_fresh E log ev"
    and t: "t \<le> event_time ev" and ap: "oauth_apply E ev s = (a, s')"
  shows "cache_ok (event_time ev) (as_store s') (as_cache s')"
proof -
  have l: "later (event_time ev) (code_keys E log) (refresh_keys E log) (as_store s) (as_store s')"
    using apply_steps [OF ok fresh ap] by (simp add: steps_to_def)
  have less: "cache_less s s' \<Longrightarrow> ?thesis"
    using cache_ok_later [OF c l t] by (auto simp: cache_less_def intro: cache_ok_sub)
  have s': "s' = snd (oauth_apply E ev s)" using ap by simp
  have now: "cache_ok (event_time ev) (as_store s) (as_cache s)"
    by (rule cache_ok_later [OF c later_refl t])
  show ?thesis
  proof (cases ev)
    case (EAccess rq raw now)
    then show ?thesis using authenticate_server [of E rq raw now s] grant_cached_ok [OF _ ok] now s' by auto
  next
    case (EResource raw key now)
    then show ?thesis using verify_resource_server [of E raw key now s] grant_cached_ok [OF _ ok] now s' by auto
  qed (use less s' other_cache [of ev s E] in simp_all)
qed

lemma reach_times:
  "oauth_reach E log s \<Longrightarrow> cache_ok t (as_store s) (as_cache s) \<Longrightarrow> t \<le> t' \<Longrightarrow> cache_ok t' (as_store s) (as_cache s)"
  by (rule cache_ok_later [OF _ later_refl])

lemma reach_cache_ok:
  "oauth_reach E log s \<Longrightarrow> \<forall>e\<in>set log. event_time (fst e) \<le> now \<Longrightarrow> cache_ok now (as_store s) (as_cache s)"
proof (induction arbitrary: now rule: oauth_reach.induct)
  case start
  show ?case by (simp add: cache_ok_def new_auth_server_def)
next
  case (step log s ev a s')
  have "cache_ok (event_time ev) (as_store s) (as_cache s)" using step.IH step.hyps(3) by blast
  from apply_cache [OF this reach_store_ok [OF step.hyps(1)] step.hyps(2) order_refl step.hyps(4)]
  show ?case by (rule cache_ok_later [OF _ later_refl]) (use step.prems in simp)
qed

section \<open>Tokens\<close>

text \<open>A token belongs to a grant that was active at the time, asks for no more than it, and is not a full one too old.\<close>

definition token_backed :: "oauth_env \<Rightarrow> mem_store \<Rightarrow> auth_req \<Rightarrow> time \<Rightarrow> token_randoms \<Rightarrow> string \<Rightarrow> string \<Rightarrow> bool" where
  "token_backed E m rq t rn tok scope \<longleftrightarrow>
     (\<exists>g g'. tok = sign_jwt E (token_claims E rq t (rn_jti rn) g scope) \<and> map_of (ms_grants m) (gr_id g) = Some g' \<and> core g' = core g
        \<and> (\<forall>t'. gr_revoked g' = Some t' \<longrightarrow> t \<le> t') \<and> subset_of (fst (parse_scopes scope)) (fst (parse_scopes (gr_scope g)))
        \<and> (is_full g \<longrightarrow> t - gr_created g \<le> FullGrantMaxAge))"

definition spends :: "oauth_env \<Rightarrow> form \<Rightarrow> oauth_log \<Rightarrow> mem_store \<Rightarrow> bool" where
  "spends E f log m \<longleftrightarrow>
     (f ''grant_type'' = ''authorization_code'' \<and> oe_hash E (f ''code'') \<in> code_keys E log \<and> code_spent (oe_hash E (f ''code'')) m)
   \<or> (f ''grant_type'' = ''refresh_token'' \<and> oe_hash E (f ''refresh_token'') \<in> refresh_keys E log
        \<and> refresh_spent (oe_hash E (f ''refresh_token'')) m)"

lemma token_backed_later:
  "token_backed E m rq t rn tok scope \<Longrightarrow> later now H K m m' \<Longrightarrow> t \<le> now \<Longrightarrow> token_backed E m' rq t rn tok scope"
proof -
  assume b: "token_backed E m rq t rn tok scope" and l: "later now H K m m'" and t: "t \<le> now"
  from b obtain g g1 where g: "tok = sign_jwt E (token_claims E rq t (rn_jti rn) g scope)" "map_of (ms_grants m) (gr_id g) = Some g1"
      "core g1 = core g" "\<forall>t'. gr_revoked g1 = Some t' \<longrightarrow> t \<le> t'" "subset_of (fst (parse_scopes scope)) (fst (parse_scopes (gr_scope g)))"
      "is_full g \<longrightarrow> t - gr_created g \<le> FullGrantMaxAge"
    unfolding token_backed_def by blast
  from l g(2) obtain g2 where g2: "map_of (ms_grants m') (gr_id g) = Some g2" "core g2 = core g1"
      "gr_revoked g2 = gr_revoked g1 \<or> gr_revoked g1 = None \<and> gr_revoked g2 = Some now"
    unfolding later_def by blast
  from g2(3) g(4) t have "\<forall>t'. gr_revoked g2 = Some t' \<longrightarrow> t \<le> t'" by auto
  with g g2 show ?thesis unfolding token_backed_def by auto
qed

lemma code_keys_mono: "set log \<subseteq> set log' \<Longrightarrow> code_keys E log \<subseteq> code_keys E log'"
  unfolding code_keys_def by blast

lemma spends_later:
  "spends E f log m \<Longrightarrow> later now (code_keys E log) (refresh_keys E log) m m' \<Longrightarrow> set log \<subseteq> set log' \<Longrightarrow> spends E f log' m'"
  unfolding spends_def later_def using code_keys_mono [of log log' E] refresh_keys_mono [of log log' E] by blast

lemma issue_backed:
  assumes "issue E rq now rn g scope s = (Tokens tok r e sc, s')" and "map_of (ms_grants (as_store s)) (gr_id g) = Some g0"
    and "core g0 = core g" and "gr_revoked g0 = None" and "subset_of (fst (parse_scopes scope)) (fst (parse_scopes (gr_scope g)))"
    and "is_full g \<longrightarrow> now - gr_created g \<le> FullGrantMaxAge"
  shows "token_backed E (as_store s') rq now rn tok sc"
  using assms unfolding token_backed_def
  by (intro exI [of _ g] exI [of _ "g0\<lparr>gr_last_used := Some now\<rparr>"])
    (auto simp: issue_def Let_def touch_grant_def save_refresh_def)

lemma issue_keeps_codes: "code_spent h (as_store (snd (issue E rq now rn g scope s))) = code_spent h (as_store s)"
  by (simp add: issue_def Let_def touch_grant_def save_refresh_def code_spent_def split: option.split)

lemma refresh_scope_within:
  assumes "refresh_scope g want = Some sc"
  shows "subset_of (fst (parse_scopes sc)) (fst (parse_scopes (gr_scope g)))"
proof (cases "want = []")
  case True
  with assms show ?thesis by (simp add: refresh_scope_def subset_of_refl)
next
  case False
  then obtain ws where ws: "parse_scopes want = (ws, [])" "subset_of ws (fst (parse_scopes (gr_scope g)))" "sc = join_space ws"
    using assms by (auto simp: refresh_scope_def split: prod.splits if_splits)
  have "set (fst (parse_scopes sc)) = set ws" using parse_join [OF parse_scopes_ok [OF ws(1)]] ws(3) by simp
  with ws(2) show ?thesis by (simp add: subset_of_def list_all_iff)
qed

lemma token_code_grants:
  assumes ok: "store_ok E log (as_store s)" and gt: "f ''grant_type'' = ''authorization_code''"
    and t: "token_code E rq f now rn s = (Tokens tok r e sc, s')"
  shows "spends E f log (as_store s') \<and> \<not> code_spent (oe_hash E (f ''code'')) (as_store s) \<and> token_backed E (as_store s') rq now rn tok sc
    \<and> (\<exists>cd. consented E log (oe_hash E (f ''code'')) cd \<and> redeemed E f cd now)"
proof -
  let ?h = "oe_hash E (f ''code'')"
  obtain cd m where c: "consume_code ?h now (as_store s) = (Taken cd, m)" "code_fits E f cd = None" "valid_verifier (f ''code_verifier'')"
    and i: "issue E rq now rn (grant_of_code cd now (''zog_'' @ rn_grant rn)) (cd_scope cd)
      (s\<lparr>as_store := create_grant (grant_of_code cd now (''zog_'' @ rn_grant rn)) m\<rparr>) = (Tokens tok r e sc, s')"
    using t by (auto simp: token_code_def Let_def grant_of_code_def split: if_splits taken.splits option.splits prod.splits)
  let ?g = "grant_of_code cd now (''zog_'' @ rn_grant rn)"
  note cc = consume_codeD [OF c(1)]
  have con: "consented E log ?h cd" using store_okD(1) [OF ok cc(1)] by simp
  have spent: "code_spent ?h m" using codes.take_spends [OF c(1)] .
  have "as_store s' = as_store (snd (issue E rq now rn ?g (cd_scope cd) (s\<lparr>as_store := create_grant ?g m\<rparr>)))" using i by simp
  then have "code_spent ?h (as_store s')"
    using spent issue_keeps_codes [of ?h E rq now rn ?g "cd_scope cd"] by (simp add: create_grant_def code_spent_def)
  then have "spends E f log (as_store s')" using gt consented_key [OF con] by (simp add: spends_def)
  moreover have "\<not> code_spent ?h (as_store s)" using cc(1) by (simp add: code_spent_def)
  moreover have "token_backed E (as_store s') rq now rn tok sc"
    by (rule issue_backed [OF i, of ?g]) (simp_all add: create_grant_def grant_of_code_def subset_of_refl FullGrantMaxAge_def)
  moreover have "redeemed E f cd now" using c cc(2) gt by (auto simp: redeemed_def code_fits_def split: if_splits)
  ultimately show ?thesis using con by blast
qed

lemma rotate_refreshD:
  assumes "rotate_refresh k now m = (Taken gid, m')"
  shows "\<exists>r. map_of (ms_refresh m) k = Some r \<and> \<not> rf_used r \<and> rf_grant r = gid \<and> now \<le> rf_expires r" and "ms_grants m' = ms_grants m"
  using assms by (auto simp: rotate_refresh_def split: option.splits if_splits)

lemma token_refresh_grants:
  assumes ok: "store_ok E log (as_store s)" and gt: "f ''grant_type'' = ''refresh_token''"
    and fresh: "refresh_key E rn \<notin> refresh_keys E log" and t: "token_refresh E rq f now rn s = (Tokens tok r e sc, s')"
  shows "spends E f log (as_store s') \<and> \<not> refresh_spent (oe_hash E (f ''refresh_token'')) (as_store s)
    \<and> token_backed E (as_store s') rq now rn tok sc"
proof -
  let ?k = "oe_hash E (f ''refresh_token'')"
  obtain gid m g scope where c: "rotate_refresh ?k now (as_store s) = (Taken gid, m)" "get_grant gid m = Some g" "active g"
      "is_full g \<longrightarrow> now - gr_created g \<le> FullGrantMaxAge" "refresh_scope g (f ''scope'') = Some scope"
    and i: "issue E rq now rn g scope (s\<lparr>as_store := m\<rparr>) = (Tokens tok r e sc, s')"
    using t by (auto simp: token_refresh_def Let_def split: if_splits taken.splits option.splits prod.splits)
  note rr = rotate_refreshD [OF c(1)]
  have okm: "store_ok E log m"
    using rotate_refresh_steps [OF ok, of now "{}" "{}" ?k now] c(1) by (simp add: steps_to_def)
  note gg = get_grant_facts [OF okm c(2)]
  have key: "?k \<in> refresh_keys E log" using rr(1) store_okD(3) [OF ok] by blast
  have "refresh_spent ?k m" using refreshes.take_spends [OF c(1)] .
  then have "refresh_spent ?k (as_store (snd (issue E rq now rn g scope (s\<lparr>as_store := m\<rparr>))))"
    using fresh key by (auto simp: issue_def Let_def touch_grant_def save_refresh_def refresh_spent_def refresh_key_def split: option.splits)
  then have "spends E f log (as_store s')" using gt key i by (simp add: spends_def)
  moreover have "\<not> refresh_spent ?k (as_store s)" using rr(1) by (auto simp: refresh_spent_def)
  moreover have "token_backed E (as_store s') rq now rn tok sc"
    using issue_backed [OF i] gg c(3-5) refresh_scope_within [OF c(5)] by (auto simp: active_def)
  ultimately show ?thesis by blast
qed

text \<open>Every token request that was answered with tokens.\<close>

definition tokens_ok :: "oauth_env \<Rightarrow> oauth_log \<Rightarrow> mem_store \<Rightarrow> bool" where
  "tokens_ok E log m \<longleftrightarrow> (\<forall>rq ok f t rn tok r e sc. (EToken rq ok (Some f) t rn, AReply (Tokens tok r e sc)) \<in> set log \<longrightarrow>
     spends E f log m \<and> token_backed E m rq t rn tok sc
     \<and> (f ''grant_type'' = ''authorization_code'' \<longrightarrow> (\<exists>cd. consented E log (oe_hash E (f ''code'')) cd \<and> redeemed E f cd t)))"

lemma token_answer:
  assumes ok: "store_ok E log (as_store s)" and fresh: "draws_fresh E log (EToken rq lim (Some f) now rn)"
    and t: "token E rq lim (Some f) now rn s = (Tokens tok r e sc, s')"
  shows "spends E f log (as_store s') \<and> token_backed E (as_store s') rq now rn tok sc \<and> \<not> spends E f log (as_store s)
     \<and> (f ''grant_type'' = ''authorization_code'' \<longrightarrow> (\<exists>cd. consented E log (oe_hash E (f ''code'')) cd \<and> redeemed E f cd now))"
proof -
  from t consider "f ''grant_type'' = ''authorization_code''" "token_code E rq f now rn s = (Tokens tok r e sc, s')"
    | "f ''grant_type'' = ''refresh_token''" "token_refresh E rq f now rn s = (Tokens tok r e sc, s')"
    by (auto simp: token_def split: if_splits)
  then show ?thesis
  proof cases
    case 1
    from token_code_grants [OF ok 1] 1(1) show ?thesis by (auto simp: spends_def)
  next
    case 2
    from token_refresh_grants [OF ok 2(1) _ 2(2)] fresh 2(1) show ?thesis by (auto simp: spends_def)
  qed
qed

lemma reach_tokens_ok: "oauth_reach E log s \<Longrightarrow> tokens_ok E log (as_store s)"
proof (induction rule: oauth_reach.induct)
  case start
  show ?case by (simp add: tokens_ok_def)
next
  case (step log s ev a s')
  let ?log = "log @ [(ev, a)]"
  have sub: "set log \<subseteq> set ?log" by auto
  note ok = reach_store_ok [OF step.hyps(1)]
  have l: "later (event_time ev) (code_keys E log) (refresh_keys E log) (as_store s) (as_store s')"
    using apply_steps [OF ok step.hyps(2,4)] by (simp add: steps_to_def)
  show ?case
    unfolding tokens_ok_def
  proof (intro allI impI)
    fix rq lim f t rn tok r e sc
    assume in_log: "(EToken rq lim (Some f) t rn, AReply (Tokens tok r e sc)) \<in> set ?log"
    show "spends E f ?log (as_store s') \<and> token_backed E (as_store s') rq t rn tok sc
     \<and> (f ''grant_type'' = ''authorization_code'' \<longrightarrow> (\<exists>cd. consented E ?log (oe_hash E (f ''code'')) cd \<and> redeemed E f cd t))"
    proof (cases "(EToken rq lim (Some f) t rn, AReply (Tokens tok r e sc)) \<in> set log")
      case True
      with step.IH have old: "spends E f log (as_store s)" "token_backed E (as_store s) rq t rn tok sc"
        "f ''grant_type'' = ''authorization_code'' \<longrightarrow> (\<exists>cd. consented E log (oe_hash E (f ''code'')) cd \<and> redeemed E f cd t)"
        unfolding tokens_ok_def by blast+
      have "t \<le> event_time ev" using step.hyps(3) True by force
      with spends_later [OF old(1) l sub] token_backed_later [OF old(2) l] old(3) consented_mono [OF _ sub] show ?thesis by blast
    next
      case False
      with in_log have ev: "ev = EToken rq lim (Some f) t rn" "a = AReply (Tokens tok r e sc)" by auto
      then have "token E rq lim (Some f) t rn s = (Tokens tok r e sc, s')"
        using step.hyps(4) by (cases "token E rq lim (Some f) t rn s") simp
      from token_answer [OF ok _ this] step.hyps(2) ev have new: "spends E f log (as_store s')" "token_backed E (as_store s') rq t rn tok sc"
        "f ''grant_type'' = ''authorization_code'' \<longrightarrow> (\<exists>cd. consented E log (oe_hash E (f ''code'')) cd \<and> redeemed E f cd t)" by simp_all
      with spends_later [OF new(1) later_refl sub] consented_mono [OF _ sub] show ?thesis by blast
    qed
  qed
qed

end
