(* ===== verification/OAuth_Access.thy ===== *)
theory OAuth_Access
  imports OAuth_History
begin

text \<open>
  What a token holder can rely on and is held to: codes and refresh tokens are accepted once, access follows a grant of
  the user that is not revoked, a token of a tunnel opens that tunnel only, full access ends.
\<close>

section \<open>One request in a history\<close>

lemma reach_prefix: "oauth_reach E (pre @ post) s \<Longrightarrow> \<exists>s0. oauth_reach E pre s0"
proof (induction post arbitrary: s rule: rev_induct)
  case (snoc e post)
  obtain ev a where e: "e = (ev, a)" by force
  have "oauth_reach E ((pre @ post) @ [(ev, a)]) s" using snoc.prems e by simp
  then obtain s1 where "oauth_reach E (pre @ post) s1" by (rule oauth_reach_snocE)
  with snoc.IH show ?case by blast
qed auto

lemma reach_middle:
  assumes "oauth_reach E (pre @ (ev, a) # post) s"
  obtains s0 s1 where "oauth_reach E pre s0" "draws_fresh E pre ev" "oauth_apply E ev s0 = (a, s1)"
    "\<forall>e\<in>set pre. event_time (fst e) \<le> event_time ev"
proof -
  have "oauth_reach E ((pre @ [(ev, a)]) @ post) s" using assms by simp
  then obtain s1 where "oauth_reach E (pre @ [(ev, a)]) s1" using reach_prefix by blast
  then show ?thesis by (rule oauth_reach_snocE) (use that in blast)
qed

text \<open>A request that is answered with tokens: what it spends was not spent before.\<close>

lemma token_middle:
  assumes "oauth_reach E (pre @ (EToken rq ok (Some f) t rn, AReply (Tokens tok r e sc)) # post) s"
  obtains s0 where "oauth_reach E pre s0" "\<not> spends E f pre (as_store s0)"
    "f ''grant_type'' = ''authorization_code'' \<longrightarrow> (\<exists>cd. consented E pre (oe_hash E (f ''code'')) cd \<and> redeemed E f cd t)"
proof -
  from reach_middle [OF assms] obtain s0 s1 where s0: "oauth_reach E pre s0" "draws_fresh E pre (EToken rq ok (Some f) t rn)"
    "oauth_apply E (EToken rq ok (Some f) t rn) s0 = (AReply (Tokens tok r e sc), s1)" by metis
  then have "token E rq ok (Some f) t rn s0 = (Tokens tok r e sc, s1)" by (cases "token E rq ok (Some f) t rn s0") simp
  from token_answer [OF reach_store_ok [OF s0(1)] s0(2) this] s0(1) that show ?thesis by blast
qed

text \<open>The requests that get tokens for the same code, or the same refresh token.\<close>

fun same_use :: "oauth_env \<Rightarrow> form \<Rightarrow> oauth_event \<times> oauth_answer \<Rightarrow> bool" where
  "same_use E f (EToken rq ok (Some f') t rn, AReply (Tokens tok r e sc)) \<longleftrightarrow>
     f' ''grant_type'' = f ''grant_type''
     \<and> (if f ''grant_type'' = ''authorization_code'' then oe_hash E (f' ''code'') = oe_hash E (f ''code'')
        else oe_hash E (f' ''refresh_token'') = oe_hash E (f ''refresh_token''))"
| "same_use E f e = False"

lemma same_useE:
  assumes "same_use E f e"
  obtains rq ok f' t rn tok r x sc where "e = (EToken rq ok (Some f') t rn, AReply (Tokens tok r x sc))" "f' ''grant_type'' = f ''grant_type''"
    "f ''grant_type'' = ''authorization_code'' \<longrightarrow> oe_hash E (f' ''code'') = oe_hash E (f ''code'')"
    "f ''grant_type'' = ''refresh_token'' \<longrightarrow> oe_hash E (f' ''refresh_token'') = oe_hash E (f ''refresh_token'')"
  using assms that by (cases "(E, f, e)" rule: same_use.cases) (auto split: if_splits)

lemma same_use_spends:
  assumes "f' ''grant_type'' = f ''grant_type''"
    "f ''grant_type'' = ''authorization_code'' \<longrightarrow> oe_hash E (f' ''code'') = oe_hash E (f ''code'')"
    "f ''grant_type'' = ''refresh_token'' \<longrightarrow> oe_hash E (f' ''refresh_token'') = oe_hash E (f ''refresh_token'')"
  shows "spends E f' log m = spends E f log m"
  using assms unfolding spends_def by auto

lemma used_before:
  assumes "oauth_reach E (pre @ (EToken rq ok (Some f) t rn, AReply (Tokens tok r e sc)) # post) s" and "x \<in> set pre"
  shows "\<not> same_use E f x"
proof
  assume "same_use E f x"
  then obtain rq' ok' f' t' rn' tok' r' x' sc' where x: "x = (EToken rq' ok' (Some f') t' rn', AReply (Tokens tok' r' x' sc'))"
      and same: "f' ''grant_type'' = f ''grant_type''"
        "f ''grant_type'' = ''authorization_code'' \<longrightarrow> oe_hash E (f' ''code'') = oe_hash E (f ''code'')"
        "f ''grant_type'' = ''refresh_token'' \<longrightarrow> oe_hash E (f' ''refresh_token'') = oe_hash E (f ''refresh_token'')"
    by (rule same_useE)
  from token_middle [OF assms(1)] obtain s0 where s0: "oauth_reach E pre s0" "\<not> spends E f pre (as_store s0)" by blast
  have "spends E f' pre (as_store s0)" using reach_tokens_ok [OF s0(1)] assms(2) x unfolding tokens_ok_def by blast
  with same_use_spends [OF same] s0(2) show False by simp
qed

lemma used_once:
  assumes "oauth_reach E (pre @ (EToken rq ok (Some f) t rn, AReply (Tokens tok r e sc)) # post) s" and "x \<in> set pre \<union> set post"
  shows "\<not> same_use E f x"
proof (cases "x \<in> set pre")
  case True
  then show ?thesis by (rule used_before [OF assms(1)])
next
  case False
  with assms(2) obtain mid rest where "post = mid @ x # rest" by (meson UnE split_list)
  then have r: "oauth_reach E ((pre @ (EToken rq ok (Some f) t rn, AReply (Tokens tok r e sc)) # mid) @ x # rest) s" using assms(1) by simp
  show ?thesis
  proof
    assume su: "same_use E f x"
    then obtain rq' ok' f' t' rn' tok' r' x' sc' where x: "x = (EToken rq' ok' (Some f') t' rn', AReply (Tokens tok' r' x' sc'))"
        "f' ''grant_type'' = f ''grant_type''" by (rule same_useE)
    have "same_use E f' (EToken rq ok (Some f) t rn, AReply (Tokens tok r e sc))" using su unfolding x(1) by (auto split: if_splits)
    moreover have "(EToken rq ok (Some f) t rn, AReply (Tokens tok r e sc)) \<in> set (pre @ (EToken rq ok (Some f) t rn, AReply (Tokens tok r e sc)) # mid)"
      by simp
    ultimately show False using used_before [OF r [unfolded x(1)]] by blast
  qed
qed
section \<open>Single use\<close>

text \<open>A refresh token that was accepted: its entry is used, and the new token is for the grant of the entry.\<close>

lemma refresh_accepted:
  assumes ok: "store_ok E log (as_store s)" and fresh: "refresh_key E rn \<notin> refresh_keys E log"
    and t: "token_refresh E rq f now rn s = (Tokens tok x e sc, s')"
  shows "\<exists>r g. map_of (ms_refresh (as_store s)) (oe_hash E (f ''refresh_token'')) = Some r
     \<and> map_of (ms_refresh (as_store s')) (oe_hash E (f ''refresh_token'')) = Some (r\<lparr>rf_used := True\<rparr>)
     \<and> tok = sign_jwt E (token_claims E rq now (rn_jti rn) g sc) \<and> gr_id g = rf_grant r"
proof -
  let ?k = "oe_hash E (f ''refresh_token'')"
  obtain gid m g scope where c: "rotate_refresh ?k now (as_store s) = (Taken gid, m)" "get_grant gid m = Some g"
    and i: "issue E rq now rn g scope (s\<lparr>as_store := m\<rparr>) = (Tokens tok x e sc, s')"
    using t by (auto simp: token_refresh_def Let_def split: if_splits taken.splits option.splits prod.splits)
  obtain r where r: "map_of (ms_refresh (as_store s)) ?k = Some r" "rf_grant r = gid" "map_of (ms_refresh m) ?k = Some (r\<lparr>rf_used := True\<rparr>)"
    using c(1) by (auto simp: rotate_refresh_def split: option.splits if_splits)
  have okm: "store_ok E log m" using rotate_refresh_steps [OF ok, of now "{}" "{}" ?k now] c(1) by (simp add: steps_to_def)
  have "?k \<noteq> refresh_key E rn" using store_okD(3) [OF ok r(1)] fresh by auto
  with r(3) have "map_of (ms_refresh (as_store s')) ?k = Some (r\<lparr>rf_used := True\<rparr>)"
    using i by (auto simp: issue_def Let_def touch_grant_def save_refresh_def refresh_key_def split: option.splits)
  moreover have "tok = sign_jwt E (token_claims E rq now (rn_jti rn) g sc)" using i by (auto simp: issue_def Let_def)
  ultimately show ?thesis using r get_grant_facts(1) [OF okm c(2)] by auto
qed

text \<open>The entry is remembered while the token could be of use.\<close>

lemma used_kept:
  assumes "oauth_reach E pre s0" and "map_of (ms_refresh (as_store s0)) k = Some r" and "rf_used r"
  shows "oauth_reach E (pre @ mid) s \<Longrightarrow> \<forall>e\<in>set (pre @ mid). event_time (fst e) \<le> now \<Longrightarrow>
    (\<And>s1. oauth_reach E pre s1 \<Longrightarrow> s1 = s0) \<Longrightarrow> map_of (ms_refresh (as_store s)) k = Some r \<or> dead_refresh now r (as_store s)"
proof (induction mid arbitrary: s now rule: rev_induct)
  case Nil
  then have "oauth_reach E pre s" by simp
  then show ?case using Nil.prems(3) [of s] assms(2) by simp
next
  case (snoc e mid)
  obtain ev a where e: "e = (ev, a)" by force
  have "oauth_reach E ((pre @ mid) @ [(ev, a)]) s" using snoc.prems(1) e by simp
  then obtain s1 where s1: "oauth_reach E (pre @ mid) s1" "draws_fresh E (pre @ mid) ev" "oauth_apply E ev s1 = (a, s)"
    "\<forall>e\<in>set (pre @ mid). event_time (fst e) \<le> event_time ev" by (rule oauth_reach_snocE)
  note ok = reach_store_ok [OF s1(1)]
  have l: "later (event_time ev) (code_keys E (pre @ mid)) (refresh_keys E (pre @ mid)) (as_store s1) (as_store s)"
    using apply_steps [OF ok s1(2,3)] by (simp add: steps_to_def)
  have now: "event_time ev \<le> now" using snoc.prems(2) e by simp
  have "map_of (ms_refresh (as_store s1)) k = Some r \<or> dead_refresh (event_time ev) r (as_store s1)"
    using snoc.IH [OF s1(1) s1(4) snoc.prems(3)] .
  then have "map_of (ms_refresh (as_store s)) k = Some r \<or> dead_refresh (event_time ev) r (as_store s)"
    using laterD(4) [OF l _ _ assms(3)] store_okD(3) [OF ok] dead_refresh_later [OF _ l order_refl] by blast
  then show ?case using dead_refresh_later [OF _ later_refl now] by blast
qed

text \<open>A history determines the state.\<close>

lemma reach_same: "oauth_reach E log s \<Longrightarrow> oauth_reach E log s1 \<Longrightarrow> s1 = s"
proof (induction log arbitrary: s s1 rule: rev_induct)
  case Nil
  then show ?case by (auto elim: oauth_reach.cases)
next
  case (snoc e log)
  obtain ev a where e: "e = (ev, a)" by force
  from snoc.prems(1) [unfolded e] obtain u where u: "oauth_reach E log u" "oauth_apply E ev u = (a, s)" by (rule oauth_reach_snocE)
  from snoc.prems(2) [unfolded e] obtain v where v: "oauth_reach E log v" "oauth_apply E ev v = (a, s1)" by (rule oauth_reach_snocE)
  from snoc.IH [OF u(1) v(1)] u(2) v(2) show ?case by simp
qed

text \<open>Using a used token revokes its grant.\<close>

lemma reuse_revokes:
  assumes "map_of (ms_refresh (as_store s)) (oe_hash E (f ''refresh_token'')) = Some r" and "rf_used r" and "now \<le> rf_expires r"
    and "f ''refresh_token'' \<noteq> []" and "f ''client_id'' \<noteq> []"
  shows "token_refresh E rq f now rn s = (OErr 400 ''invalid_grant'', revoke_and_forget (rf_grant r) now s)"
  using assms by (simp add: token_refresh_def rotate_refresh_def)

lemma revoked_after: "map_of (ms_grants m) i = Some g \<Longrightarrow> \<exists>g'. map_of (ms_grants (revoke_grant i now m)) i = Some g' \<and> gr_revoked g' \<noteq> None"
  by (cases "gr_revoked g") (simp_all add: revoke_grant_def)

text \<open>A request whose refresh token was used before, while it is in date.\<close>

lemma reuse_kills:
  assumes ok: "store_ok E log (as_store s)"
    and e: "map_of (ms_refresh (as_store s)) (oe_hash E (f ''refresh_token'')) = Some r \<or> dead_refresh now r (as_store s)"
    and r: "rf_used r" "now \<le> rf_expires r" and f: "f ''grant_type'' = ''refresh_token''" "f ''refresh_token'' \<noteq> []" "f ''client_id'' \<noteq> []"
    and rq: "aq_method rq = ''POST''" and fresh: "draws_fresh E log (EToken rq True (Some f) now rn)"
    and t: "token E rq True (Some f) now rn s = (a, s')"
  shows "\<exists>g. map_of (ms_grants (as_store s')) (rf_grant r) = Some g \<and> gr_revoked g \<noteq> None"
proof -
  have t': "token_refresh E rq f now rn s = (a, s')" using t f(1) rq by (simp add: token_def)
  from e show ?thesis
  proof
    assume m: "map_of (ms_refresh (as_store s)) (oe_hash E (f ''refresh_token'')) = Some r"
    from reuse_revokes [OF m r f(2,3), of rq rn] t' have "s' = revoke_and_forget (rf_grant r) now s" by simp
    with store_okD(3) [OF ok m] revoked_after show ?thesis by fastforce
  next
    assume "dead_refresh now r (as_store s)"
    then obtain g where g: "map_of (ms_grants (as_store s)) (rf_grant r) = Some g" "gr_revoked g \<noteq> None"
      using r(2) by (auto simp: dead_refresh_def)
    have "oauth_apply E (EToken rq True (Some f) now rn) s = (AReply a, s')" using t by simp
    then have l: "later now (code_keys E log) (refresh_keys E log) (as_store s) (as_store s')"
      using apply_steps [OF ok fresh] by (fastforce simp: steps_to_def)
    from laterD(1) [OF l g(1)] g(2) show ?thesis by auto
  qed
qed

text \<open>C19: A code is good for one token. Whatever requests arrive in whatever order, a request that gets tokens for a code
  shows the code of an earlier consent of a signed-in user, from the same client, for the redirect address the
  code was sent to (the one the consent asked for), with the verifier of the challenge, within 60 seconds; and no other request of the history gets tokens for that code.\<close>

theorem code_redeemed_once:
  assumes "oauth_reach E (pre @ (EToken rq ok (Some f) t rn, AReply (Tokens tok r e sc)) # post) s"
    and "f ''grant_type'' = ''authorization_code''"
  shows "(\<exists>cd. consented E pre (oe_hash E (f ''code'')) cd \<and> redeemed E f cd t)
    \<and> length (filter (same_use E f) (pre @ (EToken rq ok (Some f) t rn, AReply (Tokens tok r e sc)) # post)) = 1"
proof -
  from token_middle [OF assms(1)] assms(2) have "\<exists>cd. consented E pre (oe_hash E (f ''code'')) cd \<and> redeemed E f cd t" by blast
  moreover have "filter (same_use E f) pre = []" "filter (same_use E f) post = []"
    using used_once [OF assms(1)] by (auto simp: filter_empty_conv)
  ultimately show ?thesis by simp
qed

text \<open>C20: A refresh token is good for one refresh, and using it twice ends the grant. A request that gets tokens for a
  refresh token is the only one of the history that does. A later request with the same refresh token leaves the grant
  of the first one's token revoked, unless more than seven days passed since the refresh token was handed out.\<close>

theorem refresh_used_once:
  assumes "oauth_reach E (pre @ (EToken rq ok (Some f) t rn, AReply (Tokens tok x e sc)) # post) s"
    and "f ''grant_type'' = ''refresh_token''"
  shows "length (filter (same_use E f) (pre @ (EToken rq ok (Some f) t rn, AReply (Tokens tok x e sc)) # post)) = 1
    \<and> (\<exists>g rq0 ok0 f0 t0 rn0 a0. tok = sign_jwt E (token_claims E rq t (rn_jti rn) g sc)
        \<and> (EToken rq0 ok0 f0 t0 rn0, a0) \<in> set pre \<and> refresh_key E rn0 = oe_hash E (f ''refresh_token'')
        \<and> (\<forall>mid rq' f' t' rn' a'. post = mid @ [(EToken rq' True (Some f') t' rn', AReply a')] \<longrightarrow> aq_method rq' = ''POST'' \<longrightarrow>
             f' ''grant_type'' = ''refresh_token'' \<longrightarrow> f' ''refresh_token'' = f ''refresh_token'' \<longrightarrow> f' ''refresh_token'' \<noteq> [] \<longrightarrow>
             f' ''client_id'' \<noteq> [] \<longrightarrow> t' \<le> t0 + FullRefreshTTL \<longrightarrow>
             (\<exists>g'. map_of (ms_grants (as_store s)) (gr_id g) = Some g' \<and> gr_revoked g' \<noteq> None)))"
proof -
  let ?ev = "EToken rq ok (Some f) t rn" and ?a = "AReply (Tokens tok x e sc)" and ?k = "oe_hash E (f ''refresh_token'')"
  have once: "filter (same_use E f) pre = []" "filter (same_use E f) post = []"
    using used_once [OF assms(1)] by (auto simp: filter_empty_conv)
  from reach_middle [OF assms(1)] obtain s0 s1 where s0: "oauth_reach E pre s0" "draws_fresh E pre ?ev" "oauth_apply E ?ev s0 = (?a, s1)"
    "\<forall>e\<in>set pre. event_time (fst e) \<le> event_time ?ev" .
  then have "token E rq ok (Some f) t rn s0 = (Tokens tok x e sc, s1)" by (cases "token E rq ok (Some f) t rn s0") simp
  then have "token_refresh E rq f t rn s0 = (Tokens tok x e sc, s1)" using assms(2) by (auto simp: token_def split: if_splits)
  from refresh_accepted [OF reach_store_ok [OF s0(1)] _ this] s0(2) obtain r g where r: "map_of (ms_refresh (as_store s0)) ?k = Some r"
      "map_of (ms_refresh (as_store s1)) ?k = Some (r\<lparr>rf_used := True\<rparr>)"
      "tok = sign_jwt E (token_claims E rq t (rn_jti rn) g sc)" "gr_id g = rf_grant r" by auto
  from store_okD(3) [OF reach_store_ok [OF s0(1)] r(1)] obtain rq0 ok0 f0 t0 rn0 a0 where
    i: "(EToken rq0 ok0 f0 t0 rn0, a0) \<in> set pre" "refresh_key E rn0 = ?k" "t0 + FullRefreshTTL \<le> rf_expires r"
    unfolding refresh_issued_def by blast
  have s1: "oauth_reach E (pre @ [(?ev, ?a)]) s1" by (rule oauth_reach.step [OF s0(1,2,4,3)])
  have "\<exists>g'. map_of (ms_grants (as_store s)) (gr_id g) = Some g' \<and> gr_revoked g' \<noteq> None"
    if p: "post = mid @ [(EToken rq' True (Some f') t' rn', AReply a')]" "aq_method rq' = ''POST''" "f' ''grant_type'' = ''refresh_token''"
      "f' ''refresh_token'' = f ''refresh_token''" "f' ''refresh_token'' \<noteq> []" "f' ''client_id'' \<noteq> []" "t' \<le> t0 + FullRefreshTTL"
    for mid rq' f' t' rn' a'
  proof -
    have "oauth_reach E (((pre @ [(?ev, ?a)]) @ mid) @ [(EToken rq' True (Some f') t' rn', AReply a')]) s" using assms(1) p(1) by simp
    then obtain s2 where s2: "oauth_reach E ((pre @ [(?ev, ?a)]) @ mid) s2" "draws_fresh E ((pre @ [(?ev, ?a)]) @ mid) (EToken rq' True (Some f') t' rn')"
        "\<forall>e\<in>set ((pre @ [(?ev, ?a)]) @ mid). event_time (fst e) \<le> event_time (EToken rq' True (Some f') t' rn')"
        "oauth_apply E (EToken rq' True (Some f') t' rn') s2 = (AReply a', s)" by (rule oauth_reach_snocE)
    have k: "map_of (ms_refresh (as_store s2)) (oe_hash E (f' ''refresh_token'')) = Some (r\<lparr>rf_used := True\<rparr>)
        \<or> dead_refresh t' (r\<lparr>rf_used := True\<rparr>) (as_store s2)"
      using used_kept [OF s1 r(2) _ s2(1) _ reach_same [OF s1]] s2(3) p(4) by simp
    have "token E rq' True (Some f') t' rn' s2 = (a', s)" using s2(4) by (cases "token E rq' True (Some f') t' rn' s2") simp
    from reuse_kills [OF reach_store_ok [OF s2(1)] k _ _ p(3,5,6,2) s2(2) this] i(3) p(7) r(4) show ?thesis by simp
  qed
  with once i r(3) show ?thesis by (intro conjI exI [of _ g] exI [of _ rq0] exI [of _ ok0] exI [of _ f0] exI [of _ t0] exI [of _ rn0] exI [of _ a0]) (simp, blast+)
qed
section \<open>Access\<close>

text \<open>What the cache answers is at most 30 seconds behind.\<close>

lemma grant_cached_live:
  assumes reach: "oauth_reach E log s" "\<forall>e\<in>set log. event_time (fst e) \<le> now" and c: "grant_cached gid now s = (Some g, s1)" and a: "active g"
  shows "\<exists>g0. map_of (ms_grants (as_store s)) gid = Some g0 \<and> core g0 = core g \<and> granted E log g0
     \<and> (\<forall>t. gr_revoked g0 = Some t \<longrightarrow> now - t < grantCacheTTL)"
proof -
  note ok = reach_store_ok [OF reach(1)]
  consider at where "map_of (as_cache s) gid = Some (g, at)" "now - at < grantCacheTTL" | "get_grant gid (as_store s) = Some g"
    using c by (auto simp: grant_cached_def split: option.splits if_splits)
  then show ?thesis
  proof cases
    case 1
    from reach_cache_ok [OF reach] 1(1) obtain g0 where g0: "map_of (ms_grants (as_store s)) gid = Some g0" "core g0 = core g"
      "active g \<longrightarrow> (\<forall>t. gr_revoked g0 = Some t \<longrightarrow> at \<le> t)" unfolding cache_ok_def by blast
    have "now - t < grantCacheTTL" if "gr_revoked g0 = Some t" for t using g0(3) a that 1(2) by fastforce
    with g0 store_okD(2) [OF ok g0(1)] show ?thesis by blast
  next
    case 2
    from get_grant_facts(2) [OF ok 2] obtain g0 where g0: "map_of (ms_grants (as_store s)) gid = Some g0" "core g0 = core g"
      "gr_revoked g0 = gr_revoked g" by blast
    with store_okD(2) [OF ok g0(1)] a show ?thesis by (auto simp: active_def)
  qed
qed

lemma scopes_withinD:
  assumes "scopes_within c g = Some scopes"
  shows "scopes = fst (parse_scopes (c_scope c))" and "subset_of scopes (fst (parse_scopes (gr_scope g)))"
  using assms by (auto simp: scopes_within_def split: prod.splits if_splits)

lemma authenticateD:
  assumes "authenticate E rq raw now s = (Some p, s')"
  obtains c g s1 where "parse_jwt E raw = Some c" "c_aud c = resource E rq" "claims_live c now" "grant_cached (c_gid c) now s = (Some g, s1)"
    "grant_backs g c" "scopes_within c g = Some (pn_scopes p)" "pn_user p = c_sub c" "pn_tenant p = c_tid c" "pn_grant p = c_gid c"
    "pn_full p = has_full (pn_scopes p)" "pn_step_up p = gr_step_up g" "pn_api p = api_scopes (pn_scopes p)"
  using assms that by (auto simp: authenticate_def split: option.splits prod.splits if_splits)

lemma verify_resourceD:
  assumes "verify_resource E raw key now s = (Some rc, s')"
  obtains c g s1 scopes where "parse_jwt E raw = Some c" "resource_key (c_aud c) = Some key" "claims_live c now"
    "grant_cached (c_gid c) now s = (Some g, s1)" "grant_backs g c" "scopes_within c g = Some scopes" "has_scope scopes ScopeTunnelAccess"
    "rc_subject rc = c_sub c" "rc_tenant rc = c_tid c" "rc_grant rc = c_gid c" "rc_scope rc = c_scope c"
  using assms that by (auto simp: verify_resource_def split: option.splits prod.splits if_splits)

text \<open>C21: A token opens the management interface only under a grant of its user. After any history, whoever is let in
  has a grant in the store for the same user, tenant and resource, that rests on a consent of that user; it is not revoked, or
  less than 30 seconds ago; and the scopes of the token are within those of the grant.\<close>

theorem access_needs_live_grant:
  assumes "oauth_reach E log s" and "\<forall>e\<in>set log. event_time (fst e) \<le> now"
    and "authenticate E rq raw now s = (Some p, s')"
  shows "\<exists>g. map_of (ms_grants (as_store s)) (pn_grant p) = Some g \<and> gr_user g = pn_user p \<and> gr_tenant g = pn_tenant p
    \<and> gr_resource g = resource E rq \<and> (\<forall>t. gr_revoked g = Some t \<longrightarrow> now - t < grantCacheTTL)
    \<and> subset_of (pn_scopes p) (fst (parse_scopes (gr_scope g))) \<and> granted E log g"
proof -
  from authenticateD [OF assms(3)] obtain c g s1 where c: "c_aud c = resource E rq" "grant_cached (c_gid c) now s = (Some g, s1)"
    "grant_backs g c" "scopes_within c g = Some (pn_scopes p)" "pn_user p = c_sub c" "pn_tenant p = c_tid c" "pn_grant p = c_gid c" .
  have "active g" using c(3) by (simp add: grant_backs_def)
  from grant_cached_live [OF assms(1,2) c(2) this] obtain g0 where g0: "map_of (ms_grants (as_store s)) (c_gid c) = Some g0" "core g0 = core g"
    "granted E log g0" "\<forall>t. gr_revoked g0 = Some t \<longrightarrow> now - t < grantCacheTTL" by blast
  with c core_fields [OF g0(2)] scopes_withinD(2) [OF c(4)] show ?thesis by (auto simp: grant_backs_def)
qed

text \<open>Where a grant comes from: the consent of its user, and the request that redeemed the code of this consent.\<close>

lemma granted_consent:
  assumes "granted E log g"
  shows "\<exists>rq F b t code a ss rq' ok' f' t' rn' a'.
        (EConsent rq F (Some b) t code, a) \<in> set log \<and> (EToken rq' ok' (Some f') t' rn', a') \<in> set log
        \<and> oe_hash E (f' ''code'') = oe_hash E code \<and> gr_id g = ''zog_'' @ rn_grant rn' \<and> t' \<le> t + codeTTL
        \<and> pf_session F = Some ss \<and> ss_user ss = gr_user g \<and> cb_decision b = ''allow'' \<and> cb_client b = gr_client g
        \<and> (gr_resource g = resource E rq
           \<or> (\<exists>info res. resolve_tunnel E F res = Some (info, gr_resource g) \<and> ri_tenant info = gr_tenant g
                \<and> user_allowed F info (gr_user g) = Some True))"
proof -
  from assms obtain cd rq' ok' f' t' rn' a' where g: "(EToken rq' ok' (Some f') t' rn', a') \<in> set log"
    "consented E log (oe_hash E (f' ''code'')) cd" "redeemed E f' cd t'" "core g = grant_of_code cd t' (''zog_'' @ rn_grant rn')"
    unfolding granted_def by blast
  have f: "gr_id g = ''zog_'' @ rn_grant rn'" "gr_user g = cd_user cd" "gr_tenant g = cd_tenant cd" "gr_resource g = cd_resource cd"
    "gr_client g = cd_client cd" using g(4) by (cases g; simp add: core_def grant_of_code_def)+
  from g(2) obtain rq F b t code ps where e: "(EConsent rq F (Some b) t code, AReply (CodeIssued (cd_redirect cd) ps)) \<in> set log"
    "oe_hash E code = oe_hash E (f' ''code'')" "agreed E rq F b t cd" unfolding consented_def by blast
  from e(3) obtain ss where s: "cb_decision b = ''allow''" "cd_client cd = cb_client b" "cd_expires cd = t + codeTTL" "pf_session F = Some ss"
    "cd_user cd = ss_user ss" "cd_resource cd = resource E rq \<and> (\<exists>orgs. pf_orgs F = Some orgs \<and> cd_tenant cd \<in> set (map og_id orgs))
           \<or> (\<exists>info res. resolve_tunnel E F res = Some (info, cd_resource cd) \<and> ri_tenant info = cd_tenant cd
                \<and> user_allowed F info (ss_user ss) = Some True)" unfolding agreed_def by blast
  have t: "t' \<le> t + codeTTL" using g(3) s(3) by (simp add: redeemed_def)
  have r: "gr_resource g = resource E rq
           \<or> (\<exists>info res. resolve_tunnel E F res = Some (info, gr_resource g) \<and> ri_tenant info = gr_tenant g
                \<and> user_allowed F info (gr_user g) = Some True)" using s(5,6) f by auto
  show ?thesis
    by (rule exI [of _ rq], rule exI [of _ F], rule exI [of _ b], rule exI [of _ t], rule exI [of _ code], rule exI, rule exI [of _ ss],
        rule exI [of _ rq'], rule exI [of _ ok'], rule exI [of _ f'], rule exI [of _ t'], rule exI [of _ rn'], rule exI [of _ a'],
        intro conjI, rule e(1), rule g(1)) (use e(2) f s(1,2,4,5) t r in simp_all)
qed

text \<open>C22: A token of a tunnel opens that tunnel only. After any history, a token is accepted for a host and path only under a
  grant for exactly this resource, not revoked for 30 seconds or more. The grant was made by redeeming a code that its own
  user got on the consent page; and at that consent the tunnel admitted this user, or the resource is the management
  interface of the server, which no tunnel admits to.\<close>

theorem resource_token_confined:
  assumes "oauth_reach E log s" and "\<forall>e\<in>set log. event_time (fst e) \<le> now"
    and "verify_resource E raw key now s = (Some rc, s')"
  shows "\<exists>g. map_of (ms_grants (as_store s)) (rc_grant rc) = Some g \<and> gr_user g = rc_subject rc \<and> gr_tenant g = rc_tenant rc
    \<and> resource_key (gr_resource g) = Some key \<and> (\<forall>t. gr_revoked g = Some t \<longrightarrow> now - t < grantCacheTTL)
    \<and> covers (fst (parse_scopes (gr_scope g))) ScopeTunnelAccess
    \<and> (\<exists>rq F b t code a ss rq' ok' f' t' rn' a'.
        (EConsent rq F (Some b) t code, a) \<in> set log \<and> (EToken rq' ok' (Some f') t' rn', a') \<in> set log
        \<and> oe_hash E (f' ''code'') = oe_hash E code \<and> gr_id g = ''zog_'' @ rn_grant rn' \<and> t' \<le> t + codeTTL
        \<and> pf_session F = Some ss \<and> ss_user ss = gr_user g \<and> cb_decision b = ''allow'' \<and> cb_client b = gr_client g
        \<and> (gr_resource g = resource E rq
           \<or> (\<exists>info res. resolve_tunnel E F res = Some (info, gr_resource g) \<and> ri_tenant info = gr_tenant g
                \<and> user_allowed F info (gr_user g) = Some True)))"
proof -
  from verify_resourceD [OF assms(3)] obtain c g s1 scopes where c: "resource_key (c_aud c) = Some key"
    "grant_cached (c_gid c) now s = (Some g, s1)" "grant_backs g c" "scopes_within c g = Some scopes" "has_scope scopes ScopeTunnelAccess"
    "rc_subject rc = c_sub c" "rc_tenant rc = c_tid c" "rc_grant rc = c_gid c" .
  have "active g" using c(3) by (simp add: grant_backs_def)
  from grant_cached_live [OF assms(1,2) c(2) this] obtain g0 where g0: "map_of (ms_grants (as_store s)) (c_gid c) = Some g0" "core g0 = core g"
    "granted E log g0" "\<forall>t. gr_revoked g0 = Some t \<longrightarrow> now - t < grantCacheTTL" by blast
  note core = core_fields [OF g0(2)]
  from granted_consent [OF g0(3)] have "\<exists>rq F b t code a ss rq' ok' f' t' rn' a'.
        (EConsent rq F (Some b) t code, a) \<in> set log \<and> (EToken rq' ok' (Some f') t' rn', a') \<in> set log
        \<and> oe_hash E (f' ''code'') = oe_hash E code \<and> gr_id g0 = ''zog_'' @ rn_grant rn' \<and> t' \<le> t + codeTTL
        \<and> pf_session F = Some ss \<and> ss_user ss = gr_user g0 \<and> cb_decision b = ''allow'' \<and> cb_client b = gr_client g0
        \<and> (gr_resource g0 = resource E rq
           \<or> (\<exists>info res. resolve_tunnel E F res = Some (info, gr_resource g0) \<and> ri_tenant info = gr_tenant g0
                \<and> user_allowed F info (gr_user g0) = Some True))" .
  moreover have "covers (fst (parse_scopes (gr_scope g0))) ScopeTunnelAccess"
    using scopes_withinD(2) [OF c(4)] c(5) core by (simp add: subset_of_def list_all_iff has_scope_def)
  ultimately show ?thesis using g0 c core by (auto simp: grant_backs_def)
qed
section \<open>Full access\<close>

text \<open>A grant with full access comes from a consent right after a login, in which full access was chosen.\<close>

lemma granted_full:
  assumes "granted E log g" and "is_full g"
  shows "\<exists>rq F b t code a ss chosen. (EConsent rq F (Some b) t code, a) \<in> set log \<and> pf_session F = Some ss \<and> ss_user ss = gr_user g
    \<and> session_fresh t ss \<and> cb_scopes b = Some chosen \<and> ScopeFull \<in> set chosen \<and> gr_created g \<le> t + codeTTL \<and> gr_step_up g = ss_auth ss"
proof -
  from assms(1) obtain cd f t1 h i where cd: "consented E log h cd" "redeemed E f cd t1" "core g = grant_of_code cd t1 i"
    unfolding granted_def by blast
  have g: "gr_user g = cd_user cd" "gr_scope g = cd_scope cd" "gr_created g = t1" "gr_step_up g = cd_step_up cd"
    using cd(3) by (cases g; simp add: core_def grant_of_code_def)+
  from cd(1) obtain rq F b t code a where e: "(EConsent rq F (Some b) t code, a) \<in> set log" "agreed E rq F b t cd"
    unfolding consented_def by blast
  from e(2) obtain ss scopes where "pf_session F = Some ss" "cd_user cd = ss_user ss" "cd_expires cd = t + codeTTL" "cd_scope cd = join_space scopes"
      "\<forall>x\<in>set scopes. x \<in> set supported_scopes"
      "\<forall>x\<in>set scopes. destructive x \<or> x = ScopeFull \<longrightarrow> (\<exists>chosen. cb_scopes b = Some chosen \<and> x \<in> set chosen)"
      "ScopeFull \<in> set scopes \<longrightarrow> session_fresh t ss \<and> cd_step_up cd = ss_auth ss"
    unfolding agreed_def by (elim conjE exE)
  note ev = e(1) this
  have "ScopeFull \<in> set scopes"
    using assms(2) parse_join [OF ev(6)] g(2) ev(5) by (simp add: is_full_def has_full_def has_scope_def)
  with ev(7,8) obtain chosen where ch: "cb_scopes b = Some chosen" "ScopeFull \<in> set chosen" "session_fresh t ss" "cd_step_up cd = ss_auth ss" by blast
  have "gr_created g \<le> t + codeTTL" using cd(2) g(3) ev(4) by (simp add: redeemed_def)
  moreover have "ss_user ss = gr_user g" "gr_step_up g = ss_auth ss" using ev(3) ch(4) g by simp_all
  ultimately show ?thesis using ev(1,2) ch(1-3) by blast
qed

text \<open>The tokens the server handed out, and what is read from them: reading a token gives the claims that were signed.\<close>

definition issued :: "oauth_log \<Rightarrow> string \<Rightarrow> bool" where
  "issued log tok \<longleftrightarrow> (\<exists>rq ok f t rn r e sc. (EToken rq ok (Some f) t rn, AReply (Tokens tok r e sc)) \<in> set log)"

definition jwt_faithful :: "oauth_env \<Rightarrow> bool" where
  "jwt_faithful E \<longleftrightarrow> (\<forall>c c'. parse_jwt E (sign_jwt E c) = Some c' \<longrightarrow> c' = c)"

lemma claims_live_before: "claims_live c now \<Longrightarrow> now < (c_exp c + 5) * Second"
proof -
  assume "claims_live c now"
  then have "now div Second < c_exp c + 5" by (simp add: claims_live_def)
  then show ?thesis using div_mult_mod_eq [of now Second] by simp
qed

text \<open>Full access ends: 30 days after the grant no new token is given, and the last one lasts 30 minutes.\<close>

definition full_access_end :: "time \<Rightarrow> time" where
  "full_access_end t = t + codeTTL + FullGrantMaxAge + FullAccessTTL + 5 * Second"

text \<open>C24: Full access needs a fresh login and ends. A token the server handed out opens full access only if its user agreed
  to it explicitly, in a session whose login was at most five minutes old, and only until 30 days, 31 minutes and 5 seconds
  after that consent, however often it is refreshed.\<close>

theorem full_access_bounded:
  assumes "oauth_reach E log s" and "\<forall>e\<in>set log. event_time (fst e) \<le> now" and "jwt_faithful E" and "issued log raw"
    and "authenticate E rq raw now s = (Some p, s')" and "pn_full p"
  shows "\<exists>rq F b t code a ss chosen. (EConsent rq F (Some b) t code, a) \<in> set log \<and> pf_session F = Some ss \<and> ss_user ss = pn_user p
    \<and> session_fresh t ss \<and> cb_scopes b = Some chosen \<and> ScopeFull \<in> set chosen \<and> pn_step_up p = ss_auth ss \<and> now < full_access_end t"
proof -
  from authenticateD [OF assms(5)] obtain c g s1 where c: "parse_jwt E raw = Some c" "claims_live c now"
    "grant_cached (c_gid c) now s = (Some g, s1)" "grant_backs g c" "scopes_within c g = Some (pn_scopes p)" "pn_user p = c_sub c"
    "pn_full p = has_full (pn_scopes p)" "pn_step_up p = gr_step_up g" .
  from assms(4) obtain rq1 ok f t1 rn r e sc where i: "(EToken rq1 ok (Some f) t1 rn, AReply (Tokens raw r e sc)) \<in> set log"
    unfolding issued_def by blast
  from reach_tokens_ok [OF assms(1)] i obtain h h' where h: "raw = sign_jwt E (token_claims E rq1 t1 (rn_jti rn) h sc)"
      "map_of (ms_grants (as_store s)) (gr_id h) = Some h'" "core h' = core h" "is_full h \<longrightarrow> t1 - gr_created h \<le> FullGrantMaxAge"
    unfolding tokens_ok_def token_backed_def by blast
  have claims: "c = token_claims E rq1 t1 (rn_jti rn) h sc" using assms(3) c(1) h(1) unfolding jwt_faithful_def by blast
  have "active g" using c(4) by (simp add: grant_backs_def)
  from grant_cached_live [OF assms(1,2) c(3) this] obtain g0 where g0: "map_of (ms_grants (as_store s)) (c_gid c) = Some g0" "core g0 = core g"
    "granted E log g0" by blast
  have "g0 = h'" using g0(1) h(2) claims by (simp add: token_claims_def)
  with g0(2) h(3) have same: "core g0 = core h" "core g = core h" by simp_all
  have full: "has_full (pn_scopes p)" using c(7) assms(6) by simp
  then have "is_full g" using scopes_withinD(2) [OF c(5)] subset_of_full by (auto simp: is_full_def)
  then have isf: "is_full g0" "is_full h" using core_fields [OF g0(2)] core_fields [OF same(2)] by (simp_all add: is_full_def)
  have "c_exp c = (t1 + FullAccessTTL) div Second"
    using isf(2) full scopes_withinD(1) [OF c(5)] claims by (simp add: token_claims_def access_ttl_def)
  then have "now < t1 + FullAccessTTL + 5 * Second"
    using claims_live_before [OF c(2)] by simp
  moreover from granted_full [OF g0(3) isf(1)] obtain rq F b t code a ss chosen where ev: "(EConsent rq F (Some b) t code, a) \<in> set log"
    "pf_session F = Some ss" "ss_user ss = gr_user g0" "session_fresh t ss" "cb_scopes b = Some chosen" "ScopeFull \<in> set chosen"
    "gr_created g0 \<le> t + codeTTL" "gr_step_up g0 = ss_auth ss" by blast
  moreover have "gr_created h = gr_created g0" "gr_user g = gr_user g0" "gr_step_up g = gr_step_up g0"
    using core_fields [OF same(1)] core_fields [OF g0(2)] by simp_all
  ultimately have "now < full_access_end t" "ss_user ss = pn_user p" "pn_step_up p = ss_auth ss"
    using h(4) isf(2) c(4,6,8) by (auto simp add: full_access_end_def grant_backs_def)
  with ev show ?thesis by blast
qed
section \<open>A history\<close>

text \<open>A server with transparent hashes and signatures, and a history: a client registers, a user agrees to full access, the
  client redeems the code, refreshes, and presents the used refresh token again. In a second one the user agrees to the use of a tunnel.\<close>

definition w_claims :: claims where
  "w_claims = \<lparr>c_iss = ''https://z'', c_sub = ''u'', c_aud = ''https://z/mcp'', c_scope = ''mcp:read full'', c_tid = ''t'', c_gid = ''zog_g1'',
     c_cid = ''zoc_c'', c_exp = 1803, c_iat = 3, c_jti = ''j''\<rparr>"

definition w_tunnel_claims :: claims where
  "w_tunnel_claims = w_claims\<lparr>c_aud := ''https://t.z/x'', c_scope := ''mcp'', c_exp := 3603\<rparr>"

definition w_header :: jwt_header where
  "w_header = \<lparr>jh_alg = ''EdDSA'', jh_typ = ''at+jwt'', jh_kid = ''k''\<rparr>"

definition w_env :: oauth_env where
  "w_env = \<lparr>oe_url = (\<lambda>u. if u = ''https://c/cb'' then Some \<lparr>u_scheme = ''https'', u_host = ''c'', u_hostname = ''c'', u_path = ''/cb'',
       u_rawquery = [], u_fragment = [], u_opaque = [], u_user = False\<rparr> else None),
     oe_hash = (\<lambda>x. x), oe_challenge = (\<lambda>x. x), oe_b64 = (\<lambda>x. x), oe_unb64 = Some, oe_sign = (\<lambda>x. ''S''), oe_verify = (\<lambda>m x. x = ''S''),
     oe_header_json = (\<lambda>h. ''H''), oe_header_of = (\<lambda>x. if x = ''H'' then Some w_header else None),
     oe_claims_json = (\<lambda>c. if c = w_claims then ''A'' else if c = w_tunnel_claims then ''B'' else ''C''),
     oe_claims_of = (\<lambda>x. if x = ''A'' then Some w_claims else if x = ''B'' then Some w_tunnel_claims else None),
     oe_kid = ''k'', oe_issuer = ''https://z'', oe_consent_base = ''https://z''\<rparr>"

definition w_rq :: auth_req where
  "w_rq = \<lparr>aq_method = ''POST'', aq_host = ''z'', aq_proto = ''https'', aq_tls = True, aq_origin = ''https://z'', aq_ip = ''1''\<rparr>"

definition w_panel :: panel_facts where
  "w_panel = \<lparr>pf_session = Some \<lparr>ss_user = ''u'', ss_email = ''u@m'', ss_auth = Some 0\<rparr>, pf_orgs = Some [\<lparr>og_id = ''t'', og_name = ''T'', og_role = ''owner''\<rparr>],
     pf_trusted = True,
     pf_resolve = (\<lambda>k. if k = ''t.z/x'' then Some \<lparr>ri_tenant = ''t'', ri_tunnel = ''n'', ri_host = ''t.z'', ri_auth = ''oauth'', ri_allow_members = True,
       ri_emails = []\<rparr> else None),
     pf_user = (\<lambda>t u. Some (''u@m'', True))\<rparr>"

definition w_verifier :: string where
  "w_verifier = replicate 43 (CHR ''v'')"

definition w_body :: consent_body where
  "w_body = \<lparr>cb_client = ''zoc_c'', cb_redirect = ''https://c/cb'', cb_type = ''code'', cb_challenge = w_verifier, cb_method = ''S256'', cb_state = [],
     cb_scope = ''mcp:read full'', cb_resource = [], cb_decision = ''allow'', cb_tenant = ''t'', cb_scopes = Some [''mcp:read'', ''full'']\<rparr>"

definition w_form :: "(string \<times> string) list \<Rightarrow> form" where
  "w_form l k = (case map_of l k of None \<Rightarrow> [] | Some v \<Rightarrow> v)"

definition w_redeem :: form where
  "w_redeem = w_form [(''grant_type'', ''authorization_code''), (''code'', ''c1''), (''client_id'', ''zoc_c''), (''redirect_uri'', ''https://c/cb''),
     (''code_verifier'', w_verifier)]"

definition w_refresh :: form where
  "w_refresh = w_form [(''grant_type'', ''refresh_token''), (''refresh_token'', ''zor_rt_r1''), (''client_id'', ''zoc_c'')]"

definition w_register :: oauth_event where
  "w_register = ERegister w_rq True True (Some \<lparr>rb_redirects = [''https://c/cb''], rb_name = ''c'', rb_grants = [], rb_responses = [], rb_method = []\<rparr>) 0 ''c''"

definition w_consent :: oauth_event where
  "w_consent = EConsent w_rq w_panel (Some w_body) (2 * Second) ''c1''"

definition w_tunnel_consent :: oauth_event where
  "w_tunnel_consent = EConsent w_rq w_panel (Some (w_body\<lparr>cb_scope := ''mcp'', cb_resource := ''https://t.z/x'', cb_scopes := None\<rparr>)) (2 * Second) ''c1''"

text \<open>The log and the state after some events.\<close>

fun w_run :: "oauth_event list \<Rightarrow> auth_server \<Rightarrow> oauth_log \<times> auth_server" where
  "w_run [] s = ([], s)"
| "w_run (ev # evs) s = (case oauth_apply w_env ev s of (a, s1) \<Rightarrow> apfst (Cons (ev, a)) (w_run evs s1))"

definition w_events :: "oauth_event list" where
  "w_events = [w_register, w_consent, EToken w_rq True (Some w_redeem) (3 * Second) \<lparr>rn_grant = ''g1'', rn_jti = ''j'', rn_refresh = ''r1''\<rparr>,
     EToken w_rq True (Some w_refresh) (4 * Second) \<lparr>rn_grant = ''g2'', rn_jti = ''j'', rn_refresh = ''r2''\<rparr>,
     EToken w_rq True (Some w_refresh) (5 * Second) \<lparr>rn_grant = ''g3'', rn_jti = ''j'', rn_refresh = ''r3''\<rparr>]"

definition w_tunnel_events :: "oauth_event list" where
  "w_tunnel_events = [w_register, w_tunnel_consent, EToken w_rq True (Some w_redeem) (3 * Second) \<lparr>rn_grant = ''g1'', rn_jti = ''j'', rn_refresh = ''r1''\<rparr>]"

definition w_log :: "nat \<Rightarrow> oauth_log" where
  "w_log n = fst (w_run (take n w_events) new_auth_server)"

definition w_state :: "nat \<Rightarrow> auth_server" where
  "w_state n = snd (w_run (take n w_events) new_auth_server)"
lemma w_run_events: "map fst (fst (w_run evs s)) = evs"
  by (induction evs arbitrary: s) (simp_all split: prod.split)

lemma w_run_zip: "fst (w_run evs s) = zip evs (map snd (fst (w_run evs s)))"
  using w_run_events [of evs s] zip_map_fst_snd [of "fst (w_run evs s)"] by simp

text \<open>Random values and times, as far as the events show them.\<close>

fun w_fresh :: "oauth_event list \<Rightarrow> oauth_event \<Rightarrow> bool" where
  "w_fresh past (EConsent rq F b now code) =
     list_all (\<lambda>e. case e of EConsent rq' F' b' now' code' \<Rightarrow> code' \<noteq> code | _ \<Rightarrow> True) past"
| "w_fresh past (EToken rq ok f now rn) =
     list_all (\<lambda>e. case e of EToken rq' ok' f' now' rn' \<Rightarrow> rn_refresh rn' \<noteq> rn_refresh rn \<and> rn_grant rn' \<noteq> rn_grant rn | _ \<Rightarrow> True) past"
| "w_fresh past ev = True"

fun w_good :: "oauth_event list \<Rightarrow> oauth_event list \<Rightarrow> bool" where
  "w_good past [] = True"
| "w_good past (ev # evs) \<longleftrightarrow> w_fresh past ev \<and> list_all (\<lambda>e. event_time e \<le> event_time ev) past \<and> w_good (past @ [ev]) evs"

lemma w_fresh_draws: "w_fresh (map fst log) ev \<Longrightarrow> draws_fresh w_env log ev"
proof (cases ev)
  case (EConsent rq F b now code)
  assume "w_fresh (map fst log) ev"
  then show ?thesis using EConsent by (fastforce simp: code_keys_def list_all_iff w_env_def)
next
  case (EToken rq ok f now rn)
  assume "w_fresh (map fst log) ev"
  then show ?thesis using EToken by (fastforce simp: refresh_keys_def grant_ids_def refresh_key_def list_all_iff w_env_def)
qed simp_all

lemma w_run_reach:
  "oauth_reach w_env log s \<Longrightarrow> w_good (map fst log) evs \<Longrightarrow> oauth_reach w_env (log @ fst (w_run evs s)) (snd (w_run evs s))"
proof (induction evs arbitrary: log s)
  case (Cons ev evs)
  obtain a s1 where a: "oauth_apply w_env ev s = (a, s1)" by force
  have "oauth_reach w_env (log @ [(ev, a)]) s1"
    using oauth_reach.step [OF Cons.prems(1) w_fresh_draws _ a] Cons.prems(2) by (simp add: list_all_iff)
  from Cons.IH [OF this] Cons.prems(2) a show ?case by simp
qed simp

lemma w_reach: "w_good [] (take n w_events) \<Longrightarrow> oauth_reach w_env (w_log n) (w_state n)"
  using w_run_reach [OF oauth_reach.start, of "take n w_events"] by (simp add: w_log_def w_state_def)

lemma w_answers:
  "map snd (fst (w_run w_events new_auth_server)) =
     [AReply (Registered \<lparr>cl_id = ''zoc_c'', cl_name = ''c'', cl_redirects = [''https://c/cb''],
        cl_grant_types = [''authorization_code'', ''refresh_token''], cl_ip = ''1'', cl_created = 0\<rparr>),
      AReply (CodeIssued ''https://c/cb'' [(''code'', ''c1''), (''iss'', ''https://z'')]),
      AReply (Tokens ''H.A.S'' ''zor_rt_r1'' 1800 ''mcp:read full''), AReply (Tokens ''H.C.S'' ''zor_rt_r2'' 1800 ''mcp:read full''),
      AReply (OErr 400 ''invalid_grant'')]"
  by code_simp

lemma w_tunnel_answers:
  "map snd (fst (w_run w_tunnel_events new_auth_server)) =
     [AReply (Registered \<lparr>cl_id = ''zoc_c'', cl_name = ''c'', cl_redirects = [''https://c/cb''],
        cl_grant_types = [''authorization_code'', ''refresh_token''], cl_ip = ''1'', cl_created = 0\<rparr>),
      AReply (CodeIssued ''https://c/cb'' [(''code'', ''c1''), (''iss'', ''https://z'')]),
      AReply (Tokens ''H.B.S'' ''zor_rt_r1'' 3600 ''mcp'')]"
  by code_simp
lemma w_log_zip: "w_log n = zip (take n w_events) (take n (map snd (fst (w_run (take n w_events) new_auth_server))))"
  using w_run_zip [of "take n w_events" new_auth_server] w_run_events [of "take n w_events" new_auth_server]
  by (metis (no_types, lifting) length_map length_take min.cobounded2 take_all_iff w_log_def)

lemma w_log_all: "w_log 5 = zip w_events (map snd (fst (w_run w_events new_auth_server)))"
  using w_run_zip [of w_events new_auth_server] by (simp add: w_log_def w_events_def)

lemma w_good_events: "w_good [] (take 3 w_events)" "w_good [] (take 5 w_events)" "w_good [] w_tunnel_events"
  by code_simp+

lemma w_redeemed_split:
  "w_log 5 = take 2 (w_log 5) @ (EToken w_rq True (Some w_redeem) (3 * Second) \<lparr>rn_grant = ''g1'', rn_jti = ''j'', rn_refresh = ''r1''\<rparr>,
     AReply (Tokens ''H.A.S'' ''zor_rt_r1'' 1800 ''mcp:read full'')) # drop 3 (w_log 5)"
  unfolding w_log_all w_answers by (simp add: w_events_def)

lemma w_refreshed_split:
  "w_log 5 = take 3 (w_log 5) @ (EToken w_rq True (Some w_refresh) (4 * Second) \<lparr>rn_grant = ''g2'', rn_jti = ''j'', rn_refresh = ''r2''\<rparr>,
     AReply (Tokens ''H.C.S'' ''zor_rt_r2'' 1800 ''mcp:read full'')) # drop 4 (w_log 5)"
  unfolding w_log_all w_answers by (simp add: w_events_def)

theorem code_redeemed_once_witness:
  "(\<exists>cd. consented w_env (take 2 (w_log 5)) ''c1'' cd \<and> redeemed w_env w_redeem cd (3 * Second))
     \<and> length (filter (same_use w_env w_redeem) (w_log 5)) = 1"
proof -
  have g: "w_redeem ''grant_type'' = ''authorization_code''" "oe_hash w_env (w_redeem ''code'') = ''c1''" by code_simp+
  have "oauth_reach w_env (w_log 5) (w_state 5)" by (rule w_reach) (rule w_good_events)
  then have "oauth_reach w_env (take 2 (w_log 5) @ (EToken w_rq True (Some w_redeem) (3 * Second) \<lparr>rn_grant = ''g1'', rn_jti = ''j'', rn_refresh = ''r1''\<rparr>,
     AReply (Tokens ''H.A.S'' ''zor_rt_r1'' 1800 ''mcp:read full'')) # drop 3 (w_log 5)) (w_state 5)" using w_redeemed_split by metis
  from code_redeemed_once [OF this g(1)] show ?thesis unfolding w_redeemed_split [symmetric] g(2) .
qed

theorem refresh_used_once_witness:
  "length (filter (same_use w_env w_refresh) (w_log 5)) = 1"
proof -
  have g: "w_refresh ''grant_type'' = ''refresh_token''" by code_simp
  have "oauth_reach w_env (w_log 5) (w_state 5)" by (rule w_reach) (rule w_good_events)
  then have "oauth_reach w_env (take 3 (w_log 5) @ (EToken w_rq True (Some w_refresh) (4 * Second) \<lparr>rn_grant = ''g2'', rn_jti = ''j'', rn_refresh = ''r2''\<rparr>,
     AReply (Tokens ''H.C.S'' ''zor_rt_r2'' 1800 ''mcp:read full'')) # drop 4 (w_log 5)) (w_state 5)" using w_refreshed_split by metis
  from refresh_used_once [OF this g] show ?thesis unfolding w_refreshed_split [symmetric] by (rule conjunct1)
qed

lemma w_times: "\<forall>e\<in>set (w_log 3). event_time (fst e) \<le> 5 * Second"
  by (auto simp: w_log_zip w_events_def w_register_def w_consent_def dest!: set_zip_leftD)

lemma w_access: "map_option pn_full (fst (authenticate w_env w_rq ''H.A.S'' (5 * Second) (w_state 3))) = Some True"
  by code_simp

theorem access_needs_live_grant_witness:
  "\<exists>p g. fst (authenticate w_env w_rq ''H.A.S'' (5 * Second) (w_state 3)) = Some p \<and> map_of (ms_grants (as_store (w_state 3))) (pn_grant p) = Some g
     \<and> gr_user g = pn_user p \<and> granted w_env (w_log 3) g"
proof -
  obtain p s' where p: "authenticate w_env w_rq ''H.A.S'' (5 * Second) (w_state 3) = (Some p, s')"
    using w_access by (cases "authenticate w_env w_rq ''H.A.S'' (5 * Second) (w_state 3)") auto
  have "oauth_reach w_env (w_log 3) (w_state 3)" by (rule w_reach) (rule w_good_events)
  from access_needs_live_grant [OF this w_times p] p show ?thesis by auto
qed

lemma w_faithful: "jwt_faithful w_env"
proof -
  have "sign_jwt w_env c = (if c = w_claims then ''H.A.S'' else if c = w_tunnel_claims then ''H.B.S'' else ''H.C.S'')" for c
    by (simp add: sign_jwt_def signing_input_def w_env_def)
  moreover have "parse_jwt w_env ''H.A.S'' = Some w_claims" "parse_jwt w_env ''H.B.S'' = Some w_tunnel_claims" "parse_jwt w_env ''H.C.S'' = None"
    by code_simp+
  ultimately show ?thesis by (simp add: jwt_faithful_def)
qed

lemma w_issued: "issued (w_log 3) ''H.A.S''"
proof -
  have "w_log 3 = take 3 (w_log 5)"
    by (simp add: w_log_def w_events_def split: prod.split)
  then have "(EToken w_rq True (Some w_redeem) (3 * Second) \<lparr>rn_grant = ''g1'', rn_jti = ''j'', rn_refresh = ''r1''\<rparr>,
     AReply (Tokens ''H.A.S'' ''zor_rt_r1'' 1800 ''mcp:read full'')) \<in> set (w_log 3)"
    unfolding w_log_all w_answers by (simp add: w_events_def)
  then show ?thesis unfolding issued_def by blast
qed

theorem full_access_bounded_witness:
  "\<exists>rq F b t code a ss. (EConsent rq F (Some b) t code, a) \<in> set (w_log 3) \<and> pf_session F = Some ss \<and> session_fresh t ss
     \<and> 5 * Second < full_access_end t"
proof -
  obtain p s' where p: "authenticate w_env w_rq ''H.A.S'' (5 * Second) (w_state 3) = (Some p, s')" "pn_full p"
    using w_access by (cases "authenticate w_env w_rq ''H.A.S'' (5 * Second) (w_state 3)") auto
  have "oauth_reach w_env (w_log 3) (w_state 3)" by (rule w_reach) (rule w_good_events)
  from full_access_bounded [OF this w_times w_faithful w_issued p] show ?thesis by blast
qed

theorem resource_token_confined_witness:
  "\<exists>rc g. fst (verify_resource w_env ''H.B.S'' ''t.z/x'' (5 * Second) (snd (w_run w_tunnel_events new_auth_server))) = Some rc
     \<and> map_of (ms_grants (as_store (snd (w_run w_tunnel_events new_auth_server)))) (rc_grant rc) = Some g
     \<and> resource_key (gr_resource g) = Some ''t.z/x''"
proof -
  let ?s = "snd (w_run w_tunnel_events new_auth_server)" and ?log = "fst (w_run w_tunnel_events new_auth_server)"
  have "fst (verify_resource w_env ''H.B.S'' ''t.z/x'' (5 * Second) ?s) \<noteq> None" by code_simp
  then obtain rc s' where rc: "verify_resource w_env ''H.B.S'' ''t.z/x'' (5 * Second) ?s = (Some rc, s')"
    by (cases "verify_resource w_env ''H.B.S'' ''t.z/x'' (5 * Second) ?s") auto
  have r: "oauth_reach w_env ?log ?s" using w_run_reach [OF oauth_reach.start] w_good_events(3) by simp
  have "map event_time (map fst ?log) = [0, 2 * Second, 3 * Second]"
    unfolding w_run_events by (simp add: w_tunnel_events_def w_register_def w_tunnel_consent_def)
  then have "\<forall>t\<in>set (map event_time (map fst ?log)). t \<le> 5 * Second" by simp
  then have "\<forall>e\<in>set ?log. event_time (fst e) \<le> 5 * Second" by simp
  from resource_token_confined [OF r this rc] rc show ?thesis by auto
qed


end
