(* ===== verification/OAuth_Pages.thy ===== *)
theory OAuth_Pages
  imports OAuth_Server
begin

text \<open>
  The remaining answers of the OAuth server: which path goes to which handler (\<open>Match\<close>, \<open>ServeHTTP\<close>), the documents that
  describe the server, the data of the consent page (\<open>consentInfo\<close>), and the identities that are signed for the services
  behind a tunnel (\<open>signUpstream\<close>), which are not access tokens.
\<close>

section \<open>Paths\<close>

definition oauth_match :: "string \<Rightarrow> bool" where
  "oauth_match path \<longleftrightarrow>
     path \<in> {''/.well-known/oauth-authorization-server'', ''/.well-known/openid-configuration'', ''/.well-known/oauth-protected-resource'',
       ''/.well-known/oauth-protected-resource'' @ ResourcePath, ''/.well-known/jwks.json'', ''/oauth/register'', ''/oauth/authorize'',
       ''/oauth/token'', ''/oauth/revoke'', ''/oauth/consent/info'', ''/oauth/consent/decision'', ''/oauth/grants''}
     \<or> has_prefix path ''/oauth/grants/''"

datatype oauth_handler = HMetadata | HResource | HJwks | HRegister | HAuthorize | HToken | HRevoke | HConsentInfo | HConsentDecision | HGrants

text \<open>\<open>ServeHTTP\<close>; \<open>None\<close> is the answer 404.\<close>

definition oauth_handler_of :: "string \<Rightarrow> oauth_handler option" where
  "oauth_handler_of p =
     (if p = ''/.well-known/oauth-authorization-server'' \<or> p = ''/.well-known/openid-configuration'' then Some HMetadata
      else if p = ''/.well-known/oauth-protected-resource'' \<or> p = ''/.well-known/oauth-protected-resource'' @ ResourcePath then Some HResource
      else if p = ''/.well-known/jwks.json'' then Some HJwks
      else if p = ''/oauth/register'' then Some HRegister
      else if p = ''/oauth/authorize'' then Some HAuthorize
      else if p = ''/oauth/token'' then Some HToken
      else if p = ''/oauth/revoke'' then Some HRevoke
      else if p = ''/oauth/consent/info'' then Some HConsentInfo
      else if p = ''/oauth/consent/decision'' then Some HConsentDecision
      else if p = ''/oauth/grants'' \<or> has_prefix p ''/oauth/grants/'' then Some HGrants
      else None)"

text \<open>What is matched has a handler, and nothing else has.\<close>

lemma matched_has_handler: "oauth_match p \<longleftrightarrow> oauth_handler_of p \<noteq> None"
  by (simp add: oauth_match_def oauth_handler_of_def)

text \<open>The consent page itself is left to the panel.\<close>

lemma consent_page_not_matched: "\<not> oauth_match ''/oauth/consent''"
  by code_simp

section \<open>Documents\<close>

definition metadata_url :: "oauth_env \<Rightarrow> auth_req \<Rightarrow> string" where
  "metadata_url E rq = issuer E rq @ ''/.well-known/oauth-protected-resource''"

record server_metadata =
  sm_issuer :: string
  sm_authorization :: string
  sm_token :: string
  sm_registration :: string
  sm_revocation :: string
  sm_jwks :: string
  sm_response_types :: "string list"
  sm_response_modes :: "string list"
  sm_grant_types :: "string list"
  sm_challenge_methods :: "string list"
  sm_auth_methods :: "string list"
  sm_scopes :: "string list"
  sm_resource_indicators :: bool
  sm_iss_parameter :: bool
  sm_documentation :: string

text \<open>Without a document the answer is that to \<open>OPTIONS\<close>.\<close>

definition metadata :: "oauth_env \<Rightarrow> auth_req \<Rightarrow> server_metadata option" where
  "metadata E rq =
     (if aq_method rq = ''OPTIONS'' then None
      else Some (let iss = issuer E rq in
        \<lparr>sm_issuer = iss, sm_authorization = iss @ ''/oauth/authorize'', sm_token = iss @ ''/oauth/token'',
         sm_registration = iss @ ''/oauth/register'', sm_revocation = iss @ ''/oauth/revoke'', sm_jwks = iss @ ''/.well-known/jwks.json'',
         sm_response_types = [''code''], sm_response_modes = [''query''], sm_grant_types = [''authorization_code'', ''refresh_token''],
         sm_challenge_methods = [''S256''], sm_auth_methods = [''none''], sm_scopes = supported_scopes,
         sm_resource_indicators = True, sm_iss_parameter = True,
         sm_documentation = ''https://github.com/tkodcumpeg4/zorven/blob/main/docs/mcp.md''\<rparr>))"

record resource_metadata =
  rm_resource :: string
  rm_servers :: "string list"
  rm_scopes :: "string list"
  rm_methods :: "string list"
  rm_name :: string

definition protected_resource :: "oauth_env \<Rightarrow> auth_req \<Rightarrow> resource_metadata option" where
  "protected_resource E rq =
     (if aq_method rq = ''OPTIONS'' then None
      else Some \<lparr>rm_resource = resource E rq, rm_servers = [issuer E rq], rm_scopes = supported_scopes, rm_methods = [''header''],
        rm_name = ''Zorven MCP''\<rparr>)"

record jwk =
  jk_kty :: string
  jk_crv :: string
  jk_alg :: string
  jk_use :: string
  jk_kid :: string
  jk_x :: string

text \<open>\<open>pub\<close> is the public key.\<close>

definition jwks :: "oauth_env \<Rightarrow> string \<Rightarrow> auth_req \<Rightarrow> jwk list option" where
  "jwks E pub rq =
     (if aq_method rq = ''OPTIONS'' then None
      else Some [\<lparr>jk_kty = ''OKP'', jk_crv = ''Ed25519'', jk_alg = ''EdDSA'', jk_use = ''sig'', jk_kid = oe_kid E, jk_x = oe_b64 E pub\<rparr>])"

section \<open>The consent page\<close>

record consent_view =
  cv_client :: string
  cv_client_name :: string
  cv_redirect_host :: string
  cv_scopes :: "scope_info list"
  cv_resource :: string
  cv_email :: string

datatype consent_kind =
    ForTunnel string bool
  | ForManagement "org list" bool bool

text \<open>\<open>ForTunnel\<close>: host and whether the user may use it. \<open>ForManagement\<close>: organisations, whether full access was
  requested, whether the login is fresh.\<close>

definition shown_scope :: "string \<Rightarrow> scope_info" where
  "shown_scope i = (case scope_info_of i of None \<Rightarrow> \<lparr>si_id = [], si_write = False, si_destructive = False, si_full = False\<rparr> | Some si \<Rightarrow> si)"

definition consent_info ::
  "oauth_env \<Rightarrow> auth_req \<Rightarrow> panel_facts \<Rightarrow> form \<Rightarrow> time \<Rightarrow> mem_store \<Rightarrow> oauth_reply + consent_view \<times> consent_kind" where
  "consent_info E rq F v now m =
     (if aq_method rq \<noteq> ''GET'' then Inl (OErr 405 ''invalid_request'')
      else case pf_session F of
        None \<Rightarrow> Inl (OErr 401 ''login_required'')
      | Some ss \<Rightarrow>
          if ss_user ss = [] then Inl (OErr 401 ''login_required'')
          else (case parse_authz E rq F v m of
            Inl (AuthzErr code back) \<Rightarrow> Inl (OErr 400 code)
          | Inr a \<Rightarrow>
              let view = \<lparr>cv_client = cl_id (az_client a), cv_client_name = cl_name (az_client a),
                    cv_redirect_host = (case oe_url E (az_redirect a) of None \<Rightarrow> [] | Some u \<Rightarrow> u_host u),
                    cv_scopes = map shown_scope (without_scope (az_scopes a) ScopeFull),
                    cv_resource = az_resource a, cv_email = ss_email ss\<rparr> in
              (case az_tunnel a of
                 Some info \<Rightarrow> Inr (view, ForTunnel (ri_host info) (user_allowed F info (ss_user ss) = Some True))
               | None \<Rightarrow>
                   (case pf_orgs F of
                      None \<Rightarrow> Inl (OErr 500 ''server_error'')
                    | Some orgs \<Rightarrow> Inr (view, ForManagement orgs (has_full (az_scopes a)) (session_fresh now ss))))))"

text \<open>The page offers full access apart from the other scopes.\<close>

lemma shown_scope_id: "i \<noteq> ScopeFull \<Longrightarrow> si_id (shown_scope i) \<noteq> ScopeFull"
  by (auto simp: shown_scope_def scope_info_of_def find_Some_iff scope_names split: option.split)

lemma shown_scopes: "\<forall>si\<in>set (map shown_scope (without_scope ss ScopeFull)). si_id si \<noteq> ScopeFull"
  using shown_scope_id by (auto simp: without_scope_def)

lemma consent_info_scopes:
  assumes "consent_info E rq F v now m = Inr (view, kind)"
  shows "\<forall>si\<in>set (cv_scopes view). si_id si \<noteq> ScopeFull"
  using assms shown_scopes
  by (auto simp: consent_info_def Let_def simp del: set_map split: if_splits option.splits sum.splits authz_err.splits)

text \<open>A tunnel shown as not allowed cannot be agreed to.\<close>

lemma shown_as_denied:
  assumes "consent_info E rq F v now m = Inr (view, ForTunnel host False)" and "parse_authz E rq F v m = Inr a"
    and "pf_session F = Some ss"
  shows "consent_tenant F ss a tenant = Inl (OErr 403 ''access_denied'')"
  using assms
  by (auto simp: consent_info_def consent_tenant_def Let_def split: if_splits option.splits bool.splits)

section \<open>Identities for the services behind a tunnel\<close>

record upstream_identity =
  ui_subject :: string
  ui_email :: string
  ui_tenant :: string
  ui_tunnel :: string
  ui_client :: string
  ui_scope :: string
  ui_method :: string

definition UpstreamTokenTTL :: duration where "UpstreamTokenTTL = 60 * Second"
definition UpstreamAudience :: string where "UpstreamAudience = ''zorven-upstream''"

record upstream_claims =
  uc_iss :: string
  uc_aud :: string
  uc_identity :: upstream_identity
  uc_iat :: int
  uc_exp :: int
  uc_jti :: string

text \<open>\<open>json\<close> is the encoding of the claims.\<close>

definition sign_upstream :: "oauth_env \<Rightarrow> (upstream_claims \<Rightarrow> string) \<Rightarrow> string \<Rightarrow> upstream_identity \<Rightarrow> time \<Rightarrow> string \<Rightarrow> string" where
  "sign_upstream E json iss i now jti =
     (let c = \<lparr>uc_iss = iss, uc_aud = UpstreamAudience, uc_identity = i, uc_iat = now div Second, uc_exp = (now + UpstreamTokenTTL) div Second,
            uc_jti = jti\<rparr>;
          inp = signing_input E (oe_header_json E \<lparr>jh_alg = ''EdDSA'', jh_typ = ''upstream+jwt'', jh_kid = oe_kid E\<rparr>) (json c) in
      inp @ CHR ''.'' # oe_b64 E (oe_sign E inp))"

text \<open>\<open>SignUpstream\<close>.\<close>

definition sign_upstream_for :: "oauth_env \<Rightarrow> (upstream_claims \<Rightarrow> string) \<Rightarrow> upstream_identity \<Rightarrow> time \<Rightarrow> string \<Rightarrow> string" where
  "sign_upstream_for E json i now jti = sign_upstream E json (trim_slashes (oe_issuer E)) i now jti"

text \<open>The texts of base64 have no dot; decoding inverts encoding, of texts and of headers.\<close>

definition b64_ok :: "oauth_env \<Rightarrow> bool" where
  "b64_ok E \<longleftrightarrow> (\<forall>x. CHR ''.'' \<notin> set (oe_b64 E x) \<and> oe_unb64 E (oe_b64 E x) = Some x) \<and> (\<forall>h. oe_header_of E (oe_header_json E h) = Some h)"

text \<open>Such an identity is never accepted as an access token.\<close>

lemma upstream_not_access:
  assumes "b64_ok E"
  shows "parse_jwt E (sign_upstream E json iss i now jti) = None"
proof -
  let ?h = "oe_header_json E \<lparr>jh_alg = ''EdDSA'', jh_typ = ''upstream+jwt'', jh_kid = oe_kid E\<rparr>"
  have "split_at (CHR ''.'') (oe_b64 E h @ CHR ''.'' # oe_b64 E p @ CHR ''.'' # oe_b64 E sg) = [oe_b64 E h, oe_b64 E p, oe_b64 E sg]" for h p sg
    using assms by (simp add: split_at_append split_at_none b64_ok_def)
  then show ?thesis
    using assms by (simp add: parse_jwt_def sign_upstream_def signing_input_def Let_def b64_ok_def)
qed

section \<open>Bearer values\<close>

definition looks_like_access_token :: "string \<Rightarrow> bool" where
  "looks_like_access_token tok \<longleftrightarrow>
     length (filter (\<lambda>c. c = CHR ''.'') tok) = 2 \<and> \<not> has_prefix tok ''zrv_'' \<and> \<not> has_prefix tok ''zorven_''"

text \<open>What \<open>PrincipalFrom\<close> accepts of what is in the context.\<close>

definition principal_from :: "principal option \<Rightarrow> principal option" where
  "principal_from p = (case p of None \<Rightarrow> None | Some q \<Rightarrow> if pn_user q \<noteq> [] \<and> pn_tenant q \<noteq> [] then Some q else None)"

text \<open>Whoever is let in has both, so \<open>PrincipalFrom\<close> passes it on; and only texts that look like a token are accepted.\<close>

lemma principal_passes:
  assumes "authenticate E rq raw now s = (Some p, s')"
  shows "principal_from (Some p) = Some p"
  using assms by (auto simp: authenticate_def principal_from_def claims_live_def split: option.splits prod.splits if_splits)

end
