(* ===== verification/Path_Safety.thy ===== *)
theory Path_Safety
  imports Direct_Paths
begin

text \<open>
  Where the knowledge of \<open>pathMgr\<close> comes from: over any history of configuration, timer and datagrams, a source address
  stands for a peer only if a fresh probe sealed with the key of the peer came from it, and a direct path is used only
  after an answer to a ping of this node.
\<close>

section \<open>Histories\<close>

datatype path_event =
    ESetPeer addr string "bytes option"
  | ERemove addr
  | EPunch time randoms string "string list"
  | EStep time randoms
  | EDisco time bytes randoms bytes addr_port
  | EFail time addr

text \<open>The new state and the packets sent.\<close>

fun path_apply :: "box \<Rightarrow> path_event \<Rightarrow> path_mgr \<Rightarrow> out_pkt list \<times> path_mgr" where
  "path_apply B (ESetPeer ip wg dp) m = ([], snd (set_peer B ip wg dp m))"
| "path_apply B (ERemove ip) m = ([], remove_peer ip m)"
| "path_apply B (EPunch now rnd wg eps) m = (case receive_punch B now rnd wg eps m of (o1, m1) \<Rightarrow> (so_pkts o1, m1))"
| "path_apply B (EStep now rnd) m = (case path_step B now rnd m of (o1, m1) \<Rightarrow> (so_pkts o1, m1))"
| "path_apply B (EDisco now nonce rnd pkt src) m =
     (case receive_disco B now nonce rnd pkt src m of (reply, o1, m1) \<Rightarrow> (reply @ so_pkts o1, m1))"
| "path_apply B (EFail now ip) m = ([], fail_direct now ip m)"

fun path_run :: "box \<Rightarrow> path_event list \<Rightarrow> path_mgr \<Rightarrow> out_pkt list \<times> path_mgr" where
  "path_run B [] m = ([], m)"
| "path_run B (e # es) m = (case path_apply B e m of (out, m1) \<Rightarrow> (case path_run B es m1 of (outs, m2) \<Rightarrow> (out @ outs, m2)))"

section \<open>Provenance\<close>

text \<open>A fresh probe from the holder of \<open>dp\<close>, received at time \<open>t\<close>.\<close>

definition opened :: "box \<Rightarrow> disco_key \<Rightarrow> bytes \<Rightarrow> time \<Rightarrow> bytes \<Rightarrow> disco_msg \<Rightarrow> bool" where
  "opened B self dp t pkt msg \<longleftrightarrow>
     is_disco pkt \<and> disco_sender pkt = dp \<and> open_disco B (shared_key B self dp) pkt = Some msg \<and> fresh t msg"

definition heard :: "box \<Rightarrow> disco_key \<Rightarrow> path_event set \<Rightarrow> bytes \<Rightarrow> time \<Rightarrow> addr_port \<Rightarrow> bool" where
  "heard B self evs dp t a \<longleftrightarrow> (\<exists>nonce rnd pkt src msg. EDisco t nonce rnd pkt src \<in> evs \<and> (unmap (fst src), snd src) = a
     \<and> opened B self dp t pkt msg)"

definition pinged :: "box \<Rightarrow> disco_key \<Rightarrow> out_pkt set \<Rightarrow> bytes \<Rightarrow> txid \<Rightarrow> bool" where
  "pinged B self sent dp tx \<longleftrightarrow> (\<exists>to nonce ts. (to, seal_disco B self (shared_key B self dp) nonce
     \<lparr>dm_kind = discoPing, dm_ts = ts, dm_tx = tx, dm_seen = (NoAddr, 0)\<rparr>) \<in> sent)"

text \<open>A pong from \<open>a\<close> that answers a ping this node sent.\<close>

definition answered :: "box \<Rightarrow> disco_key \<Rightarrow> path_event set \<Rightarrow> out_pkt set \<Rightarrow> bytes \<Rightarrow> time \<Rightarrow> addr_port \<Rightarrow> bool" where
  "answered B self evs sent dp t a \<longleftrightarrow> (\<exists>nonce rnd pkt src msg. EDisco t nonce rnd pkt src \<in> evs \<and> (unmap (fst src), snd src) = a
     \<and> opened B self dp t pkt msg \<and> dm_kind msg = discoPong \<and> pinged B self sent dp (dm_tx msg))"

definition path_ok :: "box \<Rightarrow> disco_key \<Rightarrow> path_event set \<Rightarrow> out_pkt set \<Rightarrow> peer_path \<Rightarrow> bool" where
  "path_ok B self evs sent p \<longleftrightarrow>
     (pp_has_disco p \<longrightarrow> pp_shared p = shared_key B self (pp_disco_pub p))
   \<and> (\<forall>at\<in>set (pp_verified p). pp_has_disco p \<and> heard B self evs (pp_disco_pub p) (snd at) (fst at))
   \<and> (\<forall>tp\<in>set (pp_pending p). pp_has_disco p \<and> pinged B self sent (pp_disco_pub p) (fst tp))
   \<and> (pp_direct_ok p \<longrightarrow> pp_has_disco p \<and> (\<exists>t. answered B self evs sent (pp_disco_pub p) t (pp_direct p))
        \<and> (\<exists>t a. pp_last_alive p = Some t \<and> answered B self evs sent (pp_disco_pub p) t a))"

text \<open>What the peer was configured with, and the configuration a history leaves.\<close>

type_synonym peer_config = "addr \<Rightarrow> (string \<times> bytes option) option"

definition config_of :: "peer_path \<Rightarrow> string \<times> bytes option" where
  "config_of p = (pp_wg p, if pp_has_disco p then Some (pp_disco_pub p) else None)"

fun config_apply :: "path_event \<Rightarrow> peer_config \<Rightarrow> peer_config" where
  "config_apply (ESetPeer ip wg dp) c = c(ip := Some (wg, dp))"
| "config_apply (ERemove ip) c = c(ip := None)"
| "config_apply e c = c"

definition configured :: "path_event list \<Rightarrow> peer_config" where
  "configured es = fold config_apply es (\<lambda>ip. None)"

definition verified_at :: "peer_path \<Rightarrow> addr_port set" where
  "verified_at p = fst ` set (pp_verified p)"

definition live :: "path_mgr \<Rightarrow> path_ref \<Rightarrow> peer_path \<Rightarrow> bool" where
  "live m r p \<longleftrightarrow> map_of (pm_heap m) r = Some p \<and> map_of (pm_peers m) (pp_ip p) = Some r"

definition paths_ok :: "box \<Rightarrow> peer_config \<Rightarrow> path_event set \<Rightarrow> out_pkt set \<Rightarrow> path_mgr \<Rightarrow> bool" where
  "paths_ok B c evs sent m \<longleftrightarrow>
     (\<forall>r. map_of (pm_heap m) r \<noteq> None \<longleftrightarrow> r < length (pm_heap m))
   \<and> (\<forall>ip r. map_of (pm_peers m) ip = Some r \<longrightarrow> (\<exists>p. map_of (pm_heap m) r = Some p \<and> pp_ip p = ip \<and> c ip = Some (config_of p)))
   \<and> (\<forall>k r. map_of (pm_by_disco m) k = Some r \<longrightarrow> (\<exists>p. live m r p \<and> pp_has_disco p \<and> pp_disco_pub p = k))
   \<and> (\<forall>a r. map_of (pm_by_addr m) a = Some r \<longrightarrow> (\<exists>p. live m r p \<and> a \<in> verified_at p))
   \<and> (\<forall>r p. map_of (pm_heap m) r = Some p \<longrightarrow> path_ok B (pm_self m) evs sent p)"

lemma heard_mono: "heard B self evs dp t a \<Longrightarrow> evs \<subseteq> evs' \<Longrightarrow> heard B self evs' dp t a"
  unfolding heard_def by blast

lemma pinged_mono: "pinged B self sent dp tx \<Longrightarrow> sent \<subseteq> sent' \<Longrightarrow> pinged B self sent' dp tx"
  unfolding pinged_def by blast

lemma answered_mono: "answered B self evs sent dp t a \<Longrightarrow> evs \<subseteq> evs' \<Longrightarrow> sent \<subseteq> sent' \<Longrightarrow> answered B self evs' sent' dp t a"
  unfolding answered_def using pinged_mono by blast

lemma path_ok_mono: "path_ok B self evs sent p \<Longrightarrow> evs \<subseteq> evs' \<Longrightarrow> sent \<subseteq> sent' \<Longrightarrow> path_ok B self evs' sent' p"
  unfolding path_ok_def by (meson answered_mono heard_mono pinged_mono subsetD)

lemma paths_ok_mono: "paths_ok B c evs sent m \<Longrightarrow> evs \<subseteq> evs' \<Longrightarrow> sent \<subseteq> sent' \<Longrightarrow> paths_ok B c evs' sent' m"
  unfolding paths_ok_def using path_ok_mono by blast

lemma new_path_mgr_ok: "paths_ok B c evs sent (new_path_mgr self lb)"
  by (simp add: paths_ok_def new_path_mgr_def)

section \<open>Changing one object\<close>

text \<open>The object keeps its identity; the table of addresses may lose entries, and gains only entries the object has verified.\<close>

definition same_peer :: "peer_path \<Rightarrow> peer_path \<Rightarrow> bool" where
  "same_peer p p' \<longleftrightarrow> pp_ip p' = pp_ip p \<and> pp_wg p' = pp_wg p \<and> pp_has_disco p' = pp_has_disco p \<and> pp_disco_pub p' = pp_disco_pub p
     \<and> pp_shared p' = pp_shared p"

lemma same_peer_refl [simp]: "same_peer p p"
  by (simp add: same_peer_def)

lemma same_peer_trans: "same_peer p q \<Longrightarrow> same_peer q s \<Longrightarrow> same_peer p s"
  by (simp add: same_peer_def)

lemma same_peer_config: "same_peer p p' \<Longrightarrow> config_of p' = config_of p"
  by (simp add: same_peer_def config_of_def)

lemma paths_okD:
  assumes "paths_ok B c evs sent m"
  shows "map_of (pm_by_addr m) a = Some q \<Longrightarrow> \<exists>p. live m q p \<and> a \<in> verified_at p"
    and "map_of (pm_heap m) r = Some p \<Longrightarrow> path_ok B (pm_self m) evs sent p"
    and "map_of (pm_by_disco m) k = Some q \<Longrightarrow> \<exists>p. live m q p \<and> pp_has_disco p \<and> pp_disco_pub p = k"
    and "map_of (pm_peers m) ip = Some q \<Longrightarrow> \<exists>p. map_of (pm_heap m) q = Some p \<and> pp_ip p = ip \<and> c ip = Some (config_of p)"
    and "(map_of (pm_heap m) r \<noteq> None) = (r < length (pm_heap m))"
  using assms unfolding paths_ok_def by blast+

lemma live_change:
  assumes "live m q s" and "map_of (pm_heap m) r = Some p" and "same_peer p p'"
    and "pm_heap m' = gm_put r p' (pm_heap m)" "pm_peers m' = pm_peers m"
  shows "live m' q (if q = r then p' else s)"
  using assms by (auto simp: live_def same_peer_def)

lemma paths_ok_change:
  assumes ok: "paths_ok B c evs sent m" and p: "map_of (pm_heap m) r = Some p" and same: "same_peer p p'"
    and p': "path_ok B (pm_self m) evs sent p'"
    and m': "pm_heap m' = gm_put r p' (pm_heap m)" "pm_peers m' = pm_peers m" "pm_by_disco m' = pm_by_disco m" "pm_self m' = pm_self m"
    and addr: "\<And>a q. map_of (pm_by_addr m') a = Some q \<Longrightarrow>
      (q \<noteq> r \<and> map_of (pm_by_addr m) a = Some q) \<or> (q = r \<and> a \<in> verified_at p' \<and> live m r p)"
  shows "paths_ok B c evs sent m'"
proof -
  have len: "length (pm_heap m') = length (pm_heap m)" using p by (simp add: m' length_gm_put)
  show ?thesis
    unfolding paths_ok_def len
  proof (intro conjI allI impI)
    fix q show "(map_of (pm_heap m') q \<noteq> None) = (q < length (pm_heap m))"
      using paths_okD(5) [OF ok, of q] p by (cases "q = r") (simp_all add: m')
  next
    fix ip q assume "map_of (pm_peers m') ip = Some q"
    then obtain s where "map_of (pm_heap m) q = Some s" "pp_ip s = ip" "c ip = Some (config_of s)"
      using paths_okD(4) [OF ok, of ip q] by (auto simp: m')
    then show "\<exists>s. map_of (pm_heap m') q = Some s \<and> pp_ip s = ip \<and> c ip = Some (config_of s)"
      using p same same_peer_config [OF same] by (auto simp: m' same_peer_def)
  next
    fix k q assume "map_of (pm_by_disco m') k = Some q"
    then obtain s where s: "live m q s" "pp_has_disco s" "pp_disco_pub s = k" using paths_okD(3) [OF ok, of k q] by (auto simp: m')
    then have "q = r \<Longrightarrow> s = p" using p by (simp add: live_def)
    with s live_change [OF s(1) p same m'(1,2)] same
    show "\<exists>s. live m' q s \<and> pp_has_disco s \<and> pp_disco_pub s = k" by (cases "q = r") (auto simp: same_peer_def)
  next
    fix a q assume "map_of (pm_by_addr m') a = Some q"
    from addr [OF this] show "\<exists>s. live m' q s \<and> a \<in> verified_at s"
    proof
      assume q: "q \<noteq> r \<and> map_of (pm_by_addr m) a = Some q"
      then obtain s where "live m q s" "a \<in> verified_at s" using paths_okD(1) [OF ok] by blast
      with live_change [OF this(1) p same m'(1,2)] q show ?thesis by auto
    next
      assume "q = r \<and> a \<in> verified_at p' \<and> live m r p"
      with live_change [OF _ p same m'(1,2)] show ?thesis by (metis (full_types))
    qed
  next
    fix q s assume "map_of (pm_heap m') q = Some s"
    then show "path_ok B (pm_self m') evs sent s" using paths_okD(2) [OF ok] p' by (auto simp: m' split: if_splits)
  qed
qed

text \<open>The common case: the verified addresses stay.\<close>

lemma paths_ok_set:
  assumes "paths_ok B c evs sent m" and "map_of (pm_heap m) r = Some p" and "same_peer p p'" and "path_ok B (pm_self m) evs sent p'"
    and "verified_at p \<subseteq> verified_at p'"
  shows "paths_ok B c evs sent (set_path r p' m)"
proof (rule paths_ok_change [OF assms(1-4)])
  fix a q assume "map_of (pm_by_addr (set_path r p' m)) a = Some q"
  then have "map_of (pm_by_addr m) a = Some q" by (simp add: set_path_def)
  with paths_okD(1) [OF assms(1) this] assms(2,5)
  show "(q \<noteq> r \<and> map_of (pm_by_addr m) a = Some q) \<or> (q = r \<and> a \<in> verified_at p' \<and> live m r p)" by (auto simp: live_def)
qed (simp_all add: set_path_def)
section \<open>The timer\<close>

lemma path_ok_keep:
  assumes "path_ok B self evs sent p" and "same_peer p p'" and "set (pp_verified p') \<subseteq> set (pp_verified p)"
    and "set (pp_pending p') \<subseteq> set (pp_pending p)"
    and "pp_direct_ok p' \<Longrightarrow> pp_direct_ok p \<and> pp_direct p' = pp_direct p \<and> pp_last_alive p' = pp_last_alive p"
  shows "path_ok B self evs sent p'"
  using assms unfolding path_ok_def same_peer_def by (auto simp: subset_iff)

lemma ping_keeps:
  assumes "ping B self now rnd r to (p, out) = (p', out')"
  shows "same_peer p p' \<and> pp_verified p' = pp_verified p \<and> pp_direct_ok p' = pp_direct_ok p \<and> pp_direct p' = pp_direct p
    \<and> pp_last_alive p' = pp_last_alive p \<and> pp_cands p' = pp_cands p \<and> set out \<subseteq> set out'"
  using assms by (auto simp: ping_def Let_def same_peer_def)

lemma ping_ok:
  assumes "path_ok B self evs (sent \<union> set out) p" and "pp_has_disco p" and "ping B self now rnd r to (p, out) = (p', out')"
  shows "path_ok B self evs (sent \<union> set out') p'"
proof -
  obtain tx nonce where rnd: "rnd r to = (tx, nonce)" by force
  let ?pkt = "(to, seal_disco B self (pp_shared p) nonce \<lparr>dm_kind = discoPing, dm_ts = now, dm_tx = tx, dm_seen = (NoAddr, 0)\<rparr>)"
  have p': "p' = p\<lparr>pp_pending := gm_put tx \<lparr>pr_addr = to, pr_sent = now\<rparr> (pp_pending p)\<rparr>" and out': "out' = out @ [?pkt]"
    using assms(3) by (auto simp: ping_def Let_def rnd)
  have sh: "pp_shared p = shared_key B self (pp_disco_pub p)" using assms(1,2) by (simp add: path_ok_def)
  have "pinged B self (sent \<union> set out') (pp_disco_pub p) tx" unfolding pinged_def out'
    by (intro exI [of _ to] exI [of _ nonce] exI [of _ now]) (simp add: sh)
  moreover have "path_ok B self evs (sent \<union> set out') p" using assms(1) by (rule path_ok_mono) (auto simp: out')
  ultimately show ?thesis
    using assms(2) unfolding path_ok_def p' by (auto dest!: set_gm_put)
qed

lemma pings_ok:
  assumes "path_ok B self evs (sent \<union> set out) p" and "pp_has_disco p" and "fold (ping B self now rnd r) as (p, out) = (p', out')"
  shows "path_ok B self evs (sent \<union> set out') p' \<and> same_peer p p' \<and> pp_verified p' = pp_verified p \<and> pp_cands p' = pp_cands p"
  using assms
proof (induction as arbitrary: p out)
  case (Cons a as)
  obtain p1 out1 where s: "ping B self now rnd r a (p, out) = (p1, out1)" by force
  note k = ping_keeps [OF s]
  have "pp_has_disco p1" using k Cons.prems(2) by (simp add: same_peer_def)
  with Cons.IH [OF ping_ok [OF Cons.prems(1,2) s]] Cons.prems(3) s k show ?case by (auto intro: same_peer_trans)
qed simp

lemma probe_round_ok:
  assumes "path_ok B self evs (sent \<union> set out) p" and "pp_has_disco p" and "probe_round B self now rnd r (p, out) = (p', out')"
  shows "path_ok B self evs (sent \<union> set out') p' \<and> same_peer p p' \<and> pp_verified p' = pp_verified p"
proof (cases "before now (pp_probe_until p) \<and> \<not> before now (pp_next_probe p)")
  case True
  obtain p1 out1 where f: "fold (ping B self now rnd r) (pp_cands p) (p, out) = (p1, out1)" by force
  from assms(3) True f have p': "p' = p1\<lparr>pp_next_probe := Some (now + probeInterval), pp_last_ping := Some now\<rparr>" "out' = out1"
    by (simp_all add: probe_round_def)
  note k = pings_ok [OF assms(1,2) f]
  have "path_ok B self evs (sent \<union> set out1) p'"
    by (rule path_ok_keep [of B self evs _ p1]) (use k p' in \<open>simp_all add: same_peer_def\<close>)
  with k p' show ?thesis by (simp add: same_peer_def)
next
  case False
  with assms have "p' = p" "out' = out" by (auto simp: probe_round_def)
  with assms(1) show ?thesis by simp
qed

lemma keep_alive_ok:
  assumes "path_ok B self evs (sent \<union> set out) p" and "pp_has_disco p" and "keep_alive B self now rnd r (p, out) = (p', out')"
  shows "path_ok B self evs (sent \<union> set out') p' \<and> same_peer p p' \<and> pp_verified p' = pp_verified p"
proof (cases "pp_direct_ok p \<and> passed_eq now (pp_last_alive p) keepalive \<and> passed_eq now (pp_last_ping p) pingRetry")
  case True
  obtain p1 out1 where f: "ping B self now rnd r (pp_direct p) (p, out) = (p1, out1)" by force
  from assms(3) True f have p': "p' = p1\<lparr>pp_last_ping := Some now\<rparr>" "out' = out1" by (simp_all add: keep_alive_def)
  note k = ping_ok [OF assms(1,2) f] ping_keeps [OF f]
  have "path_ok B self evs (sent \<union> set out1) p'"
    by (rule path_ok_keep [of B self evs _ p1]) (use k p' in \<open>simp_all add: same_peer_def\<close>)
  with k p' show ?thesis by (simp add: same_peer_def)
next
  case False
  with assms have "p' = p" "out' = out" by (auto simp: keep_alive_def)
  with assms(1) show ?thesis by simp
qed

lemma expire_ok: "path_ok B self evs sent p \<Longrightarrow> path_ok B self evs sent (fall_back now (expire now p))"
  by (rule path_ok_keep [of B self evs sent p]) (auto simp: fall_back_def expire_def same_peer_def split: if_splits)

lemma expire_same: "same_peer p (fall_back now (expire now p))"
  by (simp add: fall_back_def expire_def same_peer_def)

lemma expire_verified: "set (pp_verified (fall_back now (expire now p))) = {at \<in> set (pp_verified p). \<not> (now - snd at > verifiedTTL \<and> fst at \<noteq> pp_direct p)}"
  by (auto simp: fall_back_def expire_def)

lemma retry_keeps:
  "same_peer p (retry now p) \<and> pp_verified (retry now p) = pp_verified p \<and> pp_pending (retry now p) = pp_pending p
   \<and> pp_direct_ok (retry now p) = pp_direct_ok p \<and> pp_direct (retry now p) = pp_direct p \<and> pp_last_alive (retry now p) = pp_last_alive p"
  by (simp add: retry_def Let_def same_peer_def split: option.split)

lemma peer_round_ok:
  assumes "path_ok B self evs sent p" and "pp_has_disco p" and "peer_round B self now rnd r p = (p', out)"
  shows "path_ok B self evs (sent \<union> set out) p' \<and> same_peer p p' \<and>
    pp_verified p' = pp_verified (fall_back now (expire now p))"
proof -
  let ?p0 = "fall_back now (expire now p)"
  obtain p1 out1 where pr: "probe_round B self now rnd r (?p0, []) = (p1, out1)" by force
  obtain p2 out2 where ka: "keep_alive B self now rnd r (p1, out1) = (p2, out2)" by force
  have p': "p' = retry now p2" "out = out2" using assms(3) pr ka by (simp_all add: peer_round_def)
  have d0: "pp_has_disco ?p0" using expire_same [of p now] assms(2) by (simp add: same_peer_def)
  have "path_ok B self evs (sent \<union> set []) ?p0" using expire_ok [OF assms(1)] by simp
  note k1 = probe_round_ok [OF this d0 pr]
  then have d1: "pp_has_disco p1" using d0 by (simp add: same_peer_def)
  note k2 = keep_alive_ok [OF conjunct1 [OF k1] d1 ka]
  have "path_ok B self evs (sent \<union> set out) p'"
    unfolding p' by (rule path_ok_keep [OF conjunct1 [OF k2]]) (use retry_keeps in auto)
  moreover have "same_peer p p'" unfolding p' using expire_same k1 k2 retry_keeps same_peer_trans by metis
  ultimately show ?thesis using k1 k2 retry_keeps [of p2 now] unfolding p' by simp
qed

lemma fold_delete_if:
  "map_of (fold (delete_if r) ks t) k = (if k \<in> set ks \<and> map_of t k = Some r then None else map_of t k)"
  by (induction ks arbitrary: t) (auto simp: delete_if_def)

lemma peer_step_ok:
  assumes "paths_ok B c evs (sent \<union> set (so_pkts o1)) m" and "peer_step B now rnd r (o1, m) = (o2, m2)"
  shows "paths_ok B c evs (sent \<union> set (so_pkts o2)) m2"
proof (cases "\<exists>p. map_of (pm_heap m) r = Some p \<and> pp_has_disco p")
  case False
  with assms show ?thesis by (auto simp: peer_step_def split: option.splits)
next
  case True
  then obtain p where p: "map_of (pm_heap m) r = Some p" "pp_has_disco p" by blast
  obtain p1 out where rd: "peer_round B (pm_self m) now rnd r p = (p1, out)" by force
  let ?sent = "sent \<union> set (so_pkts o1)"
  have o2: "so_pkts o2 = so_pkts o1 @ out"
    and m2: "m2 = (set_path r (p1\<lparr>pp_ask := False\<rparr>) m)\<lparr>pm_by_addr := fold (delete_if r) (stale_addrs now p) (pm_by_addr m)\<rparr>"
    using assms(2) p rd by (auto simp: peer_step_def)
  note k = peer_round_ok [OF paths_okD(2) [OF assms(1) p(1)] p(2) rd]
  have ok: "paths_ok B c evs (?sent \<union> set out) m" using assms(1) by (rule paths_ok_mono) auto
  have p': "path_ok B (pm_self m) evs (?sent \<union> set out) (p1\<lparr>pp_ask := False\<rparr>)"
    by (rule path_ok_keep [OF conjunct1 [OF k]]) (simp_all add: same_peer_def)
  have same: "same_peer p (p1\<lparr>pp_ask := False\<rparr>)" using k by (simp add: same_peer_def)
  have "paths_ok B c evs (?sent \<union> set out) m2"
  proof (rule paths_ok_change [OF ok p(1) same p'])
    fix a q assume "map_of (pm_by_addr m2) a = Some q"
    then have q: "map_of (pm_by_addr m) a = Some q" "\<not> (q = r \<and> a \<in> set (stale_addrs now p))"
      by (auto simp: m2 fold_delete_if split: if_splits)
    with paths_okD(1) [OF assms(1) q(1)] p(1)
    show "(q \<noteq> r \<and> map_of (pm_by_addr m) a = Some q) \<or> (q = r \<and> a \<in> verified_at (p1\<lparr>pp_ask := False\<rparr>) \<and> live m r p)"
      using k expire_verified [of now p] by (force simp: verified_at_def stale_addrs_def live_def)
  qed (simp_all add: m2 set_path_def)
  then show ?thesis by (simp add: o2 Un_assoc)
qed

lemma path_step_ok:
  assumes "paths_ok B c evs sent m" and "path_step B now rnd m = (o1, m1)"
  shows "paths_ok B c evs (sent \<union> set (so_pkts o1)) m1"
proof -
  have "paths_ok B c evs (sent \<union> set (so_pkts o0)) m0 \<Longrightarrow> fold (peer_step B now rnd) rs (o0, m0) = (o1, m1) \<Longrightarrow>
      paths_ok B c evs (sent \<union> set (so_pkts o1)) m1" for rs o0 m0
  proof (induction rs arbitrary: o0 m0)
    case (Cons r rs)
    obtain o2 m2 where s: "peer_step B now rnd r (o0, m0) = (o2, m2)" by force
    from Cons.IH [OF peer_step_ok [OF Cons.prems(1) s]] Cons.prems(2) s show ?case by simp
  qed simp
  from this [of "\<lparr>so_pkts = [], so_reqs = [], so_changed = False\<rparr>" m] assms show ?thesis by (simp add: path_step_def)
qed

section \<open>Verified addresses\<close>

text \<open>The object of \<open>r\<close> changes at most in its verified addresses.\<close>

definition kept :: "path_ref \<Rightarrow> path_mgr \<Rightarrow> path_mgr \<Rightarrow> bool" where
  "kept r m m' \<longleftrightarrow> pm_self m' = pm_self m \<and> pm_loopback m' = pm_loopback m \<and> pm_peers m' = pm_peers m
     \<and> (\<forall>p. map_of (pm_heap m) r = Some p \<longrightarrow> (\<exists>v. map_of (pm_heap m') r = Some (p\<lparr>pp_verified := v\<rparr>)))"

lemma kept_refl: "kept r m m"
  unfolding kept_def by (metis peer_path.surjective peer_path.update_convs(13))

lemma kept_trans: "kept r m m1 \<Longrightarrow> kept r m1 m2 \<Longrightarrow> kept r m m2"
  by (fastforce simp: kept_def)

lemma kept_live: "kept r m m' \<Longrightarrow> live m r p \<Longrightarrow> \<exists>v. live m' r (p\<lparr>pp_verified := v\<rparr>)"
  by (fastforce simp: kept_def live_def)

text \<open>The invariant with the exception of the entry of one address.\<close>

definition paths_ok_but :: "addr_port \<Rightarrow> box \<Rightarrow> peer_config \<Rightarrow> path_event set \<Rightarrow> out_pkt set \<Rightarrow> path_mgr \<Rightarrow> bool" where
  "paths_ok_but a B c evs sent m \<longleftrightarrow> paths_ok B c evs sent (m\<lparr>pm_by_addr := gm_del a (pm_by_addr m)\<rparr>)"

lemma paths_ok_fewer:
  assumes "paths_ok B c evs sent m" and "\<And>a q. map_of t a = Some q \<Longrightarrow> map_of (pm_by_addr m) a = Some q"
  shows "paths_ok B c evs sent (m\<lparr>pm_by_addr := t\<rparr>)"
  using assms unfolding paths_ok_def live_def by fastforce

lemma take_from_old_ok:
  assumes "paths_ok B c evs sent m"
  shows "paths_ok_but a B c evs sent (take_from_old r a m)" and "kept r m (take_from_old r a m)"
proof -
  have but: "paths_ok B c evs sent (m\<lparr>pm_by_addr := gm_del a (pm_by_addr m)\<rparr>)"
    by (rule paths_ok_fewer [OF assms]) (simp split: if_splits)
  show "paths_ok_but a B c evs sent (take_from_old r a m)"
  proof (cases "take_from_old r a m = m")
    case True
    then show ?thesis using but by (simp add: paths_ok_but_def)
  next
    case False
    then obtain r' q where r': "map_of (pm_heap m) r' = Some q"
      and m': "take_from_old r a m = set_path r' (q\<lparr>pp_verified := gm_del a (pp_verified q)\<rparr>) m"
      by (auto simp: take_from_old_def split: option.splits if_splits)
    have q': "path_ok B (pm_self (m\<lparr>pm_by_addr := gm_del a (pm_by_addr m)\<rparr>)) evs sent (q\<lparr>pp_verified := gm_del a (pp_verified q)\<rparr>)"
      by (rule path_ok_keep [of _ _ _ _ q]) (use paths_okD(2) [OF assms r'] in \<open>auto simp: same_peer_def set_gm_del\<close>)
    show ?thesis unfolding paths_ok_but_def m'
    proof (rule paths_ok_change [OF but _ _ q'])
      fix b s assume "map_of (pm_by_addr (set_path r' (q\<lparr>pp_verified := gm_del a (pp_verified q)\<rparr>) m
        \<lparr>pm_by_addr := gm_del a (pm_by_addr (set_path r' (q\<lparr>pp_verified := gm_del a (pp_verified q)\<rparr>) m))\<rparr>)) b = Some s"
      then have b: "b \<noteq> a" "map_of (pm_by_addr m) b = Some s" by (simp_all add: set_path_def split: if_splits)
      with paths_okD(1) [OF assms b(2)] r' show "(s \<noteq> r' \<and> map_of (pm_by_addr (m\<lparr>pm_by_addr := gm_del a (pm_by_addr m)\<rparr>)) b = Some s)
        \<or> (s = r' \<and> b \<in> verified_at (q\<lparr>pp_verified := gm_del a (pp_verified q)\<rparr>) \<and> live (m\<lparr>pm_by_addr := gm_del a (pm_by_addr m)\<rparr>) r' q)"
        by (auto simp: live_def verified_at_def set_gm_del)
    qed (use r' in \<open>simp_all add: set_path_def same_peer_def\<close>)
  qed
  show "kept r m (take_from_old r a m)"
    using kept_refl [of r m] by (auto simp: take_from_old_def kept_def set_path_def split: option.split)
qed
lemma make_room_ok:
  assumes "paths_ok_but a B c evs sent m" and "live m r p"
  shows "paths_ok_but a B c evs sent (make_room r m)" and "kept r m (make_room r m)"
proof -
  have p: "map_of (pm_heap m) r = Some p" using assms(2) by (simp add: live_def)
  let ?m = "m\<lparr>pm_by_addr := gm_del a (pm_by_addr m)\<rparr>" and ?x = "oldest_verified (pp_verified p)"
  let ?p = "p\<lparr>pp_verified := gm_del ?x (pp_verified p)\<rparr>"
  have ok: "paths_ok B c evs sent ?m" using assms(1) by (simp add: paths_ok_but_def)
  have live: "live ?m r p" using assms(2) by (simp add: live_def)
  have p': "path_ok B (pm_self ?m) evs sent ?p"
    by (rule path_ok_keep [OF paths_okD(2) [OF ok]]) (use p in \<open>auto simp: same_peer_def set_gm_del\<close>)
  show "paths_ok_but a B c evs sent (make_room r m)"
  proof (cases "length (pp_verified p) \<ge> 16")
    case True
    then have m': "make_room r m = (set_path r ?p m)\<lparr>pm_by_addr := delete_if r ?x (pm_by_addr m)\<rparr>"
      using p by (simp add: make_room_def Let_def)
    show ?thesis unfolding paths_ok_but_def
    proof (rule paths_ok_change [OF ok _ _ p'])
      fix b q assume "map_of (pm_by_addr (make_room r m\<lparr>pm_by_addr := gm_del a (pm_by_addr (make_room r m))\<rparr>)) b = Some q"
      then have b: "map_of (pm_by_addr ?m) b = Some q" "\<not> (q = r \<and> b = ?x)"
        by (auto simp: m' delete_if_def split: if_splits)
      with paths_okD(1) [OF ok b(1)] p live
      show "(q \<noteq> r \<and> map_of (pm_by_addr ?m) b = Some q) \<or> (q = r \<and> b \<in> verified_at ?p \<and> live ?m r p)"
        by (auto simp: live_def verified_at_def set_gm_del)
    qed (use p in \<open>simp_all add: m' set_path_def same_peer_def\<close>)
  next
    case False
    then show ?thesis using p assms(1) by (simp add: make_room_def)
  qed
  show "kept r m (make_room r m)"
    using kept_refl [of r m] p by (auto simp: make_room_def kept_def set_path_def Let_def)
qed

lemma verify_ok:
  assumes ok: "paths_ok B c evs sent m" and live: "live m r p"
    and heard: "pp_has_disco p" "heard B (pm_self m) evs (pp_disco_pub p) now a"
  shows "paths_ok B c evs sent (verify r a now m)" and "kept r m (verify r a now m)"
proof -
  let ?m1 = "take_from_old r a m"
  let ?m = "make_room r ?m1"
  note t = take_from_old_ok [OF ok, where a = a and r = r]
  obtain v1 where l1: "live ?m1 r (p\<lparr>pp_verified := v1\<rparr>)" using kept_live [OF t(2) live] by blast
  note k = make_room_ok [OF t(1) l1]
  obtain v where l: "live ?m r (p\<lparr>pp_verified := v\<rparr>)" using kept_live [OF k(2) l1] by auto
  let ?p = "p\<lparr>pp_verified := v\<rparr>" and ?p' = "p\<lparr>pp_verified := gm_put a now v\<rparr>"
  have hp: "map_of (pm_heap ?m) r = Some ?p" using l by (simp add: live_def)
  then have m': "verify r a now m = (set_path r ?p' ?m)\<lparr>pm_by_addr := gm_put a r (pm_by_addr ?m)\<rparr>"
    by (simp add: verify_def Let_def)
  have kept: "kept r m ?m" by (rule kept_trans [OF t(2) k(2)])
  then have self: "pm_self ?m = pm_self m" by (simp add: kept_def)
  let ?mb = "?m\<lparr>pm_by_addr := gm_del a (pm_by_addr ?m)\<rparr>"
  have okb: "paths_ok B c evs sent ?mb" using k(1) by (simp add: paths_ok_but_def)
  have "path_ok B (pm_self ?mb) evs sent ?p" using paths_okD(2) [OF okb] hp by simp
  then have p': "path_ok B (pm_self ?mb) evs sent ?p'"
    using heard by (auto simp: path_ok_def self dest!: set_gm_put)
  show "paths_ok B c evs sent (verify r a now m)"
  proof (rule paths_ok_change [OF okb _ _ p'])
    fix b q assume "map_of (pm_by_addr (verify r a now m)) b = Some q"
    then have b: "b = a \<and> q = r \<or> b \<noteq> a \<and> map_of (pm_by_addr ?m) b = Some q" by (simp add: m' split: if_splits)
    have a': "a \<in> verified_at ?p'"
      by (simp add: verified_at_def dom_map_of_conv_image_fst [symmetric] domIff)
    have sub: "verified_at ?p \<subseteq> verified_at ?p'"
      by (auto simp: verified_at_def dom_map_of_conv_image_fst [symmetric] split: if_splits)
    show "(q \<noteq> r \<and> map_of (pm_by_addr ?mb) b = Some q) \<or> (q = r \<and> b \<in> verified_at ?p' \<and> live ?mb r ?p)"
      using b
    proof
      assume "b = a \<and> q = r"
      with a' l show ?thesis by (simp add: live_def)
    next
      assume b: "b \<noteq> a \<and> map_of (pm_by_addr ?m) b = Some q"
      then have b': "map_of (pm_by_addr ?mb) b = Some q" by simp
      with paths_okD(1) [OF okb b'] hp sub show ?thesis by (auto simp: live_def)
    qed
  qed (use hp in \<open>simp_all add: m' set_path_def same_peer_def\<close>)
  show "kept r m (verify r a now m)"
    using kept hp live by (auto simp: m' kept_def set_path_def live_def)
qed

section \<open>Messages\<close>

lemma add_cand_keeps:
  "same_peer p (add_cand lb ap p) \<and> pp_verified (add_cand lb ap p) = pp_verified p \<and> pp_pending (add_cand lb ap p) = pp_pending p
   \<and> pp_direct_ok (add_cand lb ap p) = pp_direct_ok p \<and> pp_direct (add_cand lb ap p) = pp_direct p
   \<and> pp_last_alive (add_cand lb ap p) = pp_last_alive p"
  by (simp add: add_cand_def same_peer_def)

lemma punch_cands_keep:
  "same_peer p (fold (punch_cand lb) eps p) \<and> pp_verified (fold (punch_cand lb) eps p) = pp_verified p
   \<and> pp_pending (fold (punch_cand lb) eps p) = pp_pending p \<and> pp_direct_ok (fold (punch_cand lb) eps p) = pp_direct_ok p
   \<and> pp_direct (fold (punch_cand lb) eps p) = pp_direct p \<and> pp_last_alive (fold (punch_cand lb) eps p) = pp_last_alive p"
proof (induction eps arbitrary: p)
  case (Cons s eps)
  have "same_peer p (punch_cand lb s p) \<and> pp_verified (punch_cand lb s p) = pp_verified p
   \<and> pp_pending (punch_cand lb s p) = pp_pending p \<and> pp_direct_ok (punch_cand lb s p) = pp_direct_ok p
   \<and> pp_direct (punch_cand lb s p) = pp_direct p \<and> pp_last_alive (punch_cand lb s p) = pp_last_alive p"
    using add_cand_keeps by (simp add: punch_cand_def split: option.split)
  with Cons [of "punch_cand lb s p"] show ?case by (auto intro: same_peer_trans)
qed simp

text \<open>A change of an object that touches none of the fields of the invariant.\<close>

lemma paths_ok_idle:
  assumes ok: "paths_ok B c evs sent m" and p: "map_of (pm_heap m) r = Some p" and same: "same_peer p p'"
    and f: "pp_verified p' = pp_verified p" "pp_pending p' = pp_pending p"
    and d: "pp_direct_ok p' \<Longrightarrow> pp_direct_ok p \<and> pp_direct p' = pp_direct p \<and> pp_last_alive p' = pp_last_alive p"
  shows "paths_ok B c evs sent (set_path r p' m)"
  by (rule paths_ok_set [OF ok p same path_ok_keep [OF paths_okD(2) [OF ok p] same]]) (use f d in \<open>simp_all add: verified_at_def\<close>)

lemma fail_direct_ok: "paths_ok B c evs sent m \<Longrightarrow> paths_ok B c evs sent (fail_direct now ip m)"
  using paths_ok_idle [of B c evs sent m]
  by (auto simp: fail_direct_def path_of_def same_peer_def bind_eq_Some_conv split: option.split)

lemma path_with_key_heap: "path_with_key wg m = Some (r, p) \<Longrightarrow> map_of (pm_heap m) r = Some p"
  by (auto simp: path_with_key_def dest!: find_some_in map_filter_mem)

lemma receive_punch_ok:
  assumes ok: "paths_ok B c evs sent m" and "receive_punch B now rnd wg eps m = (o1, m1)"
  shows "paths_ok B c evs (sent \<union> set (so_pkts o1)) m1"
proof (cases "\<exists>r p. path_with_key wg m = Some (r, p) \<and> pp_has_disco p")
  case False
  with assms show ?thesis by (auto simp: receive_punch_def split: option.splits if_splits)
next
  case True
  then obtain r p where rp: "path_with_key wg m = Some (r, p)" "pp_has_disco p" by blast
  let ?p = "(fold (punch_cand (pm_loopback m)) eps p)
    \<lparr>pp_probe_until := Some (now + probeWindow), pp_next_probe := Some now, pp_retry_wait := retryMin, pp_retry_at := None\<rparr>"
  have "paths_ok B c evs sent (set_path r ?p m)"
    by (rule paths_ok_idle [OF ok path_with_key_heap [OF rp(1)]])
      (use punch_cands_keep [of p "pm_loopback m" eps] in \<open>simp_all add: same_peer_def\<close>)
  then show ?thesis using assms(2) rp by (auto simp: receive_punch_def elim: path_step_ok)
qed

lemma on_ping_ok:
  assumes ok: "paths_ok B c evs sent m" and live: "live m r p" and h: "pp_has_disco p" "heard B (pm_self m) evs (pp_disco_pub p) now src"
  shows "paths_ok B c evs sent (snd (on_ping B now nonce r src msg m))"
proof -
  note v = verify_ok [OF ok live h]
  obtain q where q: "map_of (pm_heap (verify r src now m)) r = Some q" using kept_live [OF v(2) live] by (auto simp: live_def)
  obtain p1 where m1: "snd (on_ping B now nonce r src msg m) = set_path r p1 (verify r src now m)"
    and p1: "same_peer q p1" "pp_verified p1 = pp_verified q" "pp_pending p1 = pp_pending q" "pp_direct_ok p1 = pp_direct_ok q"
      "pp_direct p1 = pp_direct q" "pp_last_alive p1 = pp_last_alive q"
    using q add_cand_keeps [of q "pm_loopback (verify r src now m)" src] by (auto simp: on_ping_def Let_def same_peer_def)
  show ?thesis unfolding m1 by (rule paths_ok_idle [OF v(1) q p1(1)]) (use p1 in simp_all)
qed

lemma on_pong_ok:
  assumes ok: "paths_ok B c evs sent m" and live: "live m r p" and h: "pp_has_disco p"
    and ev: "EDisco now nonce rnd pkt src0 \<in> evs" "(unmap (fst src0), snd src0) = src" "opened B (pm_self m) (pp_disco_pub p) now pkt msg"
    and kind: "dm_kind msg = discoPong"
  shows "paths_ok B c evs sent (snd (on_pong now r src msg m))"
proof (cases "map_of (pp_pending p) (dm_tx msg)")
  case None
  with ok live show ?thesis by (simp add: on_pong_def live_def)
next
  case (Some pr)
  have hp: "map_of (pm_heap m) r = Some p" using live by (simp add: live_def)
  note pok = paths_okD(2) [OF ok hp]
  have "pinged B (pm_self m) sent (pp_disco_pub p) (dm_tx msg)"
    using pok map_of_SomeD [OF Some] by (fastforce simp: path_ok_def)
  then have ans: "answered B (pm_self m) evs sent (pp_disco_pub p) now src" using ev kind unfolding answered_def by blast
  have heard: "heard B (pm_self m) evs (pp_disco_pub p) now src" using ev unfolding heard_def by blast
  let ?p0 = "p\<lparr>pp_pending := gm_del (dm_tx msg) (pp_pending p)\<rparr>"
  let ?m0 = "set_path r ?p0 m"
  have p0: "path_ok B (pm_self m) evs sent ?p0"
    by (rule path_ok_keep [OF pok]) (auto simp: same_peer_def set_gm_del)
  have ok0: "paths_ok B c evs sent ?m0"
    by (rule paths_ok_set [OF ok hp _ p0]) (simp_all add: same_peer_def verified_at_def)
  have live0: "live ?m0 r ?p0" using live by (simp add: live_def set_path_def)
  have v: "paths_ok B c evs sent (verify r src now ?m0)" "kept r ?m0 (verify r src now ?m0)"
    using verify_ok [OF ok0 live0] h heard by (simp_all add: set_path_def)
  obtain w where l: "live (verify r src now ?m0) r (?p0\<lparr>pp_verified := w\<rparr>)" using kept_live [OF v(2) live0] by blast
  let ?p = "?p0\<lparr>pp_verified := w\<rparr>"
  have hp1: "map_of (pm_heap (verify r src now ?m0)) r = Some ?p" using l by (simp add: live_def)
  have self: "pm_self (verify r src now ?m0) = pm_self m" using v(2) by (simp add: kept_def set_path_def)
  note pok1 = paths_okD(2) [OF v(1) hp1]
  obtain p1 where m1: "snd (on_pong now r src msg m) = set_path r p1 (verify r src now ?m0)"
    and p1: "same_peer ?p p1" "pp_verified p1 = w" "pp_pending p1 = pp_pending ?p" "pp_direct_ok p1" "pp_last_alive p1 = Some now"
      "pp_direct p1 = src \<or> pp_direct_ok p \<and> pp_direct p1 = pp_direct p"
    using hp Some hp1 by (auto simp: on_pong_def Let_def same_peer_def)
  have "path_ok B (pm_self (verify r src now ?m0)) evs sent p1"
    using pok1 p1 ans pok h unfolding path_ok_def self same_peer_def
    by (auto simp del: split_paired_Ex split_paired_All)
  then show ?thesis unfolding m1 by (rule paths_ok_set [OF v(1) hp1 p1(1)]) (simp add: verified_at_def p1(2))
qed

section \<open>Peers come and go\<close>

lemma path_of_live:
  assumes "paths_ok B c evs sent m"
  shows "path_of m ip = Some (r, p) \<Longrightarrow> live m r p \<and> pp_ip p = ip \<and> c ip = Some (config_of p)"
    and "path_of m ip = None \<Longrightarrow> map_of (pm_peers m) ip = None"
proof -
  show "path_of m ip = Some (r, p) \<Longrightarrow> live m r p \<and> pp_ip p = ip \<and> c ip = Some (config_of p)"
    using paths_okD(4) [OF assms, of ip] by (fastforce simp: path_of_def live_def bind_eq_Some_conv)
  show "path_of m ip = None \<Longrightarrow> map_of (pm_peers m) ip = None"
    using paths_okD(4) [OF assms, of ip] by (cases "map_of (pm_peers m) ip") (auto simp: path_of_def)
qed

lemma drop_path_ok:
  assumes ok: "paths_ok B c evs sent m" and live: "live m r p" and ip: "pp_ip p = ip"
  shows "paths_ok B (c(ip := x)) evs sent (drop_path r p m) \<and> map_of (pm_peers (drop_path r p m)) ip = None"
proof -
  let ?m = "drop_path r p m"
  have other: "live ?m q s" if "live m q s" "q \<noteq> r" for q s
    using that live ip by (auto simp: live_def drop_path_def)
  have self: "s = p" if "live m r s" for s using that live by (simp add: live_def)
  have "paths_ok B (c(ip := x)) evs sent ?m"
    unfolding paths_ok_def
  proof (intro conjI allI impI)
    fix q show "(map_of (pm_heap ?m) q \<noteq> None) = (q < length (pm_heap ?m))"
      using paths_okD(5) [OF ok, of q] by (simp add: drop_path_def)
  next
    fix ip' q assume "map_of (pm_peers ?m) ip' = Some q"
    then show "\<exists>s. map_of (pm_heap ?m) q = Some s \<and> pp_ip s = ip' \<and> (c(ip := x)) ip' = Some (config_of s)"
      using paths_okD(4) [OF ok, of ip' q] ip by (auto simp: drop_path_def split: if_splits)
  next
    fix k q assume "map_of (pm_by_disco ?m) k = Some q"
    then have q: "map_of (pm_by_disco m) k = Some q" "\<not> (q = r \<and> pp_has_disco p \<and> k = pp_disco_pub p)"
      by (auto simp: drop_path_def delete_if_def split: if_splits)
    from paths_okD(3) [OF ok q(1)] q(2) self other show "\<exists>s. live ?m q s \<and> pp_has_disco s \<and> pp_disco_pub s = k" by blast
  next
    fix a q assume "map_of (pm_by_addr ?m) a = Some q"
    then have q: "map_of (pm_by_addr m) a = Some q" "\<not> (q = r \<and> a \<in> verified_at p)"
      by (auto simp: drop_path_def fold_delete_if verified_at_def split: if_splits)
    from paths_okD(1) [OF ok q(1)] q(2) self other show "\<exists>s. live ?m q s \<and> a \<in> verified_at s" by blast
  next
    fix q s assume "map_of (pm_heap ?m) q = Some s"
    then show "path_ok B (pm_self ?m) evs sent s" using paths_okD(2) [OF ok] by (simp add: drop_path_def)
  qed
  then show ?thesis using ip by (simp add: drop_path_def)
qed

lemma remove_peer_ok:
  assumes "paths_ok B c evs sent m"
  shows "paths_ok B (c(ip := None)) evs sent (remove_peer ip m)"
proof (cases "path_of m ip")
  case None
  with path_of_live(2) [OF assms] have "map_of (pm_peers m) ip = None" .
  then have "paths_ok B (c(ip := None)) evs sent m" using assms unfolding paths_ok_def by auto
  with None show ?thesis by (simp add: remove_peer_def)
next
  case (Some rp)
  then obtain r p where rp: "path_of m ip = Some (r, p)" by force
  with path_of_live(1) [OF assms rp] drop_path_ok [OF assms] show ?thesis by (simp add: remove_peer_def)
qed

lemma new_path_ok: "path_ok B self evs sent (new_path B self ip wg dp)" and new_path_fields [simp]:
  "pp_ip (new_path B self ip wg dp) = ip" "config_of (new_path B self ip wg dp) = (wg, dp)"
  "pp_has_disco (new_path B self ip wg dp) \<longleftrightarrow> dp \<noteq> None" "pp_disco_pub (new_path B self ip wg (Some k)) = k"
  by (auto simp: path_ok_def new_path_def config_of_def)

lemma put_key:
  "map_of (case dp of None \<Rightarrow> t | Some k' \<Rightarrow> gm_put k' r t) k = Some q \<Longrightarrow> (dp = Some k \<and> q = r) \<or> map_of t k = Some q"
  by (cases dp) (auto split: if_split_asm)

lemma add_path_ok:
  assumes ok: "paths_ok B (c(ip := x)) evs sent m" and free: "map_of (pm_peers m) ip = None"
    and m': "m' = (set_path (length (pm_heap m)) (new_path B (pm_self m) ip wg dp) m)\<lparr>pm_peers := gm_put ip (length (pm_heap m)) (pm_peers m),
      pm_by_disco := (case dp of None \<Rightarrow> pm_by_disco m | Some k \<Rightarrow> gm_put k (length (pm_heap m)) (pm_by_disco m))\<rparr>"
  shows "paths_ok B (c(ip := Some (wg, dp))) evs sent m'"
proof -
  let ?r = "length (pm_heap m)" and ?p = "new_path B (pm_self m) ip wg dp"
  have fresh: "map_of (pm_heap m) ?r = None" using paths_okD(5) [OF ok, of ?r] by auto
  have new: "live m' ?r ?p" by (simp add: live_def m' set_path_def)
  have old: "live m' q s" if "live m q s" for q s
    using that free fresh by (auto simp: live_def m' set_path_def)
  show ?thesis
    unfolding paths_ok_def
  proof (intro conjI allI impI)
    fix q show "(map_of (pm_heap m') q \<noteq> None) = (q < length (pm_heap m'))"
      using paths_okD(5) [OF ok, of q] fresh by (auto simp: m' set_path_def length_gm_put)
  next
    fix ip' q assume "map_of (pm_peers m') ip' = Some q"
    then show "\<exists>s. map_of (pm_heap m') q = Some s \<and> pp_ip s = ip' \<and> (c(ip := Some (wg, dp))) ip' = Some (config_of s)"
      using paths_okD(4) [OF ok, of ip' q] fresh by (auto simp: m' set_path_def split: if_splits)
  next
    fix k q assume "map_of (pm_by_disco m') k = Some q"
    then have "map_of (case dp of None \<Rightarrow> pm_by_disco m | Some k \<Rightarrow> gm_put k ?r (pm_by_disco m)) k = Some q"
      by (simp add: m' set_path_def)
    from put_key [OF this] consider "dp = Some k" "q = ?r" | "map_of (pm_by_disco m) k = Some q" by blast
    then show "\<exists>s. live m' q s \<and> pp_has_disco s \<and> pp_disco_pub s = k"
    proof cases
      case 1
      have "pp_has_disco ?p" "pp_disco_pub ?p = k" unfolding 1(1) by simp_all
      with new 1(2) show ?thesis by blast
    next
      case 2
      then show ?thesis using paths_okD(3) [OF ok 2] old by blast
    qed
  next
    fix a q assume "map_of (pm_by_addr m') a = Some q"
    then have "map_of (pm_by_addr m) a = Some q" by (simp add: m' set_path_def)
    from paths_okD(1) [OF ok this] old show "\<exists>s. live m' q s \<and> a \<in> verified_at s" by blast
  next
    fix q s assume "map_of (pm_heap m') q = Some s"
    then show "path_ok B (pm_self m') evs sent s"
      using paths_okD(2) [OF ok] new_path_ok by (auto simp: m' set_path_def split: if_splits)
  qed
qed

lemma set_peer_ok:
  assumes ok: "paths_ok B c evs sent m"
  shows "paths_ok B (c(ip := Some (wg, dp))) evs sent (snd (set_peer B ip wg dp m))"
proof (cases "path_of m ip")
  case None
  from add_path_ok [OF _ path_of_live(2) [OF ok None] refl, where c = c and x = "c ip"] ok None
  show ?thesis by (simp add: set_peer_def Let_def)
next
  case (Some rp)
  then obtain r0 p0 where rp: "path_of m ip = Some (r0, p0)" by force
  note l = path_of_live(1) [OF ok rp]
  let ?p = "new_path B (pm_self m) ip wg dp"
  show ?thesis
  proof (cases "pp_wg p0 = wg \<and> pp_has_disco p0 = (dp \<noteq> None) \<and> pp_disco_pub p0 = pp_disco_pub ?p")
    case True
    then have "config_of p0 = (wg, dp)" by (cases dp) (auto simp: config_of_def new_path_def)
    with l have "c(ip := Some (wg, dp)) = c" by (simp add: fun_upd_idem)
    with True rp ok show ?thesis by (simp add: set_peer_def Let_def)
  next
    case False
    have self: "pm_self (drop_path r0 p0 m) = pm_self m" by (simp add: drop_path_def)
    have d: "paths_ok B (c(ip := None)) evs sent (drop_path r0 p0 m)" "map_of (pm_peers (drop_path r0 p0 m)) ip = None"
      using drop_path_ok [OF ok, of r0 p0 ip] l by simp_all
    from add_path_ok [OF d refl, of wg dp, unfolded self] False rp show ?thesis
      unfolding set_peer_def Let_def by (simp only: rp option.case prod.case if_False snd_conv)
  qed
qed

section \<open>Whole histories\<close>

lemma replay_keeps_ok: "paths_ok B c evs sent (m\<lparr>pm_replay := rc\<rparr>) \<longleftrightarrow> paths_ok B c evs sent m"
  by (simp add: paths_ok_def live_def)

lemma handle_disco_ok:
  assumes ok: "paths_ok B c evs sent m" and ev: "EDisco now nonce rnd pkt src0 \<in> evs"
  shows "paths_ok B c evs sent (snd (handle_disco B now nonce pkt src0 m))"
proof (cases "\<exists>r p msg. is_disco pkt \<and> map_of (pm_by_disco m) (disco_sender pkt) = Some r \<and> map_of (pm_heap m) r = Some p
    \<and> open_disco B (pp_shared p) pkt = Some msg \<and> fresh now msg")
  case False
  then have "snd (handle_disco B now nonce pkt src0 m) = m"
    by (auto simp: handle_disco_def Let_def bind_eq_Some_conv split: option.split)
  with ok show ?thesis by simp
next
  case True
  then obtain r p msg where d: "is_disco pkt" "map_of (pm_by_disco m) (disco_sender pkt) = Some r" "map_of (pm_heap m) r = Some p"
    "open_disco B (pp_shared p) pkt = Some msg" "fresh now msg" by blast
  obtain ok' rc where rc: "replay_check (disco_nonce pkt) now (pm_replay m) = (ok', rc)" by force
  let ?m = "m\<lparr>pm_replay := rc\<rparr>"
  from paths_okD(3) [OF ok d(2)] d(3) have l: "live m r p" "pp_has_disco p" "disco_sender pkt = pp_disco_pub p"
    by (auto simp: live_def)
  have "pp_shared p = shared_key B (pm_self m) (pp_disco_pub p)" using paths_okD(2) [OF ok d(3)] l(2) by (simp add: path_ok_def)
  with d l have o: "opened B (pm_self ?m) (pp_disco_pub p) now pkt msg" by (simp add: opened_def)
  then have h: "heard B (pm_self ?m) evs (pp_disco_pub p) now (unmap (fst src0), snd src0)"
    using ev unfolding heard_def by blast
  have ok1: "paths_ok B c evs sent ?m" using ok by (simp add: replay_keeps_ok)
  have l1: "live ?m r p" using l(1) by (simp add: live_def)
  have "snd (handle_disco B now nonce pkt src0 m) = (if \<not> ok' then ?m
      else if dm_kind msg = discoPing then snd (on_ping B now nonce r (unmap (fst src0), snd src0) msg ?m)
      else if dm_kind msg = discoPong then snd (on_pong now r (unmap (fst src0), snd src0) msg ?m) else ?m)"
    by (simp add: handle_disco_def Let_def d rc)
  then show ?thesis
    using ok1 on_ping_ok [OF ok1 l1 l(2) h] on_pong_ok [OF ok1 l1 l(2) ev refl o] by simp
qed

lemma path_apply_ok:
  assumes "paths_ok B c evs sent m" and "path_apply B e m = (out, m')"
  shows "paths_ok B (config_apply e c) (insert e evs) (sent \<union> set out) m'"
proof -
  have ok: "paths_ok B c (insert e evs) sent m" using assms(1) by (rule paths_ok_mono) auto
  show ?thesis
  proof (cases e)
    case (ESetPeer ip wg dp)
    then show ?thesis using assms(2) set_peer_ok [OF ok, of ip wg dp] by (simp add: fun_upd_def)
  next
    case (ERemove ip)
    then show ?thesis using assms(2) remove_peer_ok [OF ok, of ip] by (simp add: fun_upd_def)
  next
    case (EPunch now rnd wg eps)
    then show ?thesis using assms(2) receive_punch_ok [OF ok, of now rnd wg eps] by (auto split: prod.splits)
  next
    case (EStep now rnd)
    then show ?thesis using assms(2) path_step_ok [OF ok, of now rnd] by (auto split: prod.splits)
  next
    case (EFail now ip)
    then show ?thesis using assms(2) fail_direct_ok [OF ok, of now ip] by auto
  next
    case (EDisco now nonce rnd pkt src)
    obtain d m1 where h: "handle_disco B now nonce pkt src m = (d, m1)" by force
    have "paths_ok B c (insert e evs) (sent \<union> set (do_reply d)) m1"
      using handle_disco_ok [OF ok, of now nonce rnd pkt src] h EDisco by (auto intro: paths_ok_mono)
    then show ?thesis
      using assms(2) path_step_ok [of B c "insert e evs" "sent \<union> set (do_reply d)" m1 now rnd] EDisco h
      by (auto simp: receive_disco_def Un_assoc split: if_splits prod.splits)
  qed
qed

lemma path_run_ok:
  assumes "paths_ok B c evs sent m" and "path_run B es m = (out, m')"
  shows "paths_ok B (fold config_apply es c) (evs \<union> set es) (sent \<union> set out) m'"
  using assms
proof (induction es arbitrary: c evs sent m out)
  case (Cons e es)
  obtain out1 m1 where s: "path_apply B e m = (out1, m1)" by force
  obtain out2 where r: "path_run B es m1 = (out2, m')" "out = out1 @ out2"
    using Cons.prems(2) s by (auto split: prod.splits)
  from Cons.IH [OF path_apply_ok [OF Cons.prems(1) s] r(1)] show ?case by (simp add: r(2) Un_assoc)
qed simp

text \<open>The key of the node never changes.\<close>

lemma set_path_self [simp]: "pm_self (set_path r p m) = pm_self m"
  by (simp add: set_path_def)

lemma peer_step_self: "pm_self (snd (peer_step B now rnd r om)) = pm_self (snd om)"
  by (simp add: peer_step_def split: prod.split option.split)

lemma path_step_self: "pm_self (snd (path_step B now rnd m)) = pm_self m"
  by (simp add: path_step_def fold_same [of "\<lambda>om. pm_self (snd om)", OF peer_step_self])

lemma verify_self: "pm_self (verify r a now m) = pm_self m"
proof -
  have "pm_self (make_room r m') = pm_self m'" for m' by (simp add: make_room_def Let_def split: option.split)
  moreover have "pm_self (take_from_old r a m) = pm_self m" by (simp add: take_from_old_def split: option.split)
  ultimately show ?thesis by (simp add: verify_def Let_def split: option.split)
qed

lemma handle_disco_self: "pm_self (snd (handle_disco B now nonce pkt src m)) = pm_self m"
  by (simp add: handle_disco_def on_ping_def on_pong_def Let_def verify_self split: option.split prod.split)

lemma path_apply_self: "pm_self (snd (path_apply B e m)) = pm_self m"
proof (cases e)
  case (EPunch now rnd wg eps)
  then show ?thesis using path_step_self by (auto simp: receive_punch_def split: option.split prod.split) (metis snd_conv set_path_self)+
next
  case (EStep now rnd)
  then show ?thesis using path_step_self [of B now rnd m] by (cases "path_step B now rnd m") simp
next
  case (EDisco now nonce rnd pkt src)
  then show ?thesis
    using handle_disco_self [of B now nonce pkt src m] path_step_self [of B now rnd "snd (handle_disco B now nonce pkt src m)"]
    by (auto simp: receive_disco_def split: prod.splits)
qed (simp_all add: set_peer_def remove_peer_def fail_direct_def drop_path_def Let_def split: option.split)

lemma path_run_self: "pm_self (snd (path_run B es m)) = pm_self m"
proof (induction es arbitrary: m)
  case (Cons e es)
  from Cons.IH [of "snd (path_apply B e m)"] path_apply_self [of B e m] show ?case by (auto split: prod.splits)
qed simp

text \<open>What holds of the tables of a node after any history from the start.\<close>

lemma history_ok:
  assumes "path_run B es (new_path_mgr self lb) = (out, m)"
  shows "paths_ok B (configured es) (set es) (set out) m" and "pm_self m = self"
proof -
  have "paths_ok B (\<lambda>ip. None) {} {} (new_path_mgr self lb)" by (rule new_path_mgr_ok)
  from path_run_ok [OF this assms] show "paths_ok B (configured es) (set es) (set out) m" by (simp add: configured_def)
  show "pm_self m = self" using path_run_self [of B es "new_path_mgr self lb"] assms by (simp add: new_path_mgr_def)
qed

lemma path_of_history:
  assumes run: "path_run B es (new_path_mgr self lb) = (out, m)" and l: "live m r p"
  shows "path_ok B self (set es) (set out) p" and "configured es (pp_ip p) = Some (config_of p)"
  using paths_okD(2) [OF history_ok(1) [OF run], of r p] paths_okD(4) [OF history_ok(1) [OF run], of "pp_ip p" r] l
  by (auto simp: live_def history_ok(2) [OF run])

text \<open>C17: a node sends packets for a peer directly only to an address from which a sealed pong answered one of its pings, under
  the probe key the peer is configured with at that time, and only within 30 seconds of such an answer.\<close>

theorem direct_path_verified:
  assumes run: "path_run B es (new_path_mgr self lb) = (out, m)" and "route now ip m = Some a"
  shows "\<exists>wg dp t t' b. configured es ip = Some (wg, Some dp) \<and> answered B self (set es) (set out) dp t a
    \<and> answered B self (set es) (set out) dp t' b \<and> now - t' \<le> directTimeout"
proof -
  from assms(2) obtain r p where rp: "path_of m ip = Some (r, p)" "pp_direct_ok p" "\<not> passed now (pp_last_alive p) directTimeout" "a = pp_direct p"
    by (auto simp: route_def split: option.splits if_splits)
  note l = path_of_live(1) [OF history_ok(1) [OF run] rp(1)]
  note h = path_of_history [OF run conjunct1 [OF l]]
  then have "pp_has_disco p" "\<exists>t. answered B self (set es) (set out) (pp_disco_pub p) t a"
    "\<exists>t b. pp_last_alive p = Some t \<and> answered B self (set es) (set out) (pp_disco_pub p) t b"
    using rp(2,4) unfolding path_ok_def by blast+
  moreover from calculation(1) have "configured es ip = Some (pp_wg p, Some (pp_disco_pub p))" using h(2) l by (simp add: config_of_def)
  ultimately show ?thesis using rp(3) by (fastforce simp: passed_def)
qed

text \<open>C16: a datagram of the socket is handed to WireGuard as a packet of a peer only if the peer is configured with a probe key
  and a fresh probe sealed under that key has come from the very address and port the datagram comes from; probes and STUN messages
  are never handed over.\<close>

theorem wg_source_authentic:
  assumes run: "path_run B es (new_path_mgr self lb) = (out, m)" and "receive_udp pkt src m = UWireguard ip pkt'"
  shows "pkt' = pkt \<and> \<not> is_stun pkt \<and> \<not> is_disco pkt
    \<and> (\<exists>wg dp t. configured es ip = Some (wg, Some dp) \<and> heard B self (set es) dp t (unmap (fst src), snd src))"
proof -
  from assms(2) have k: "classify pkt = KOther" "pkt' = pkt" and "lookup_src src m = Some ip"
    by (auto simp: receive_udp_def split: datagram_kind.splits option.splits)
  from this(3) obtain r p where r: "map_of (pm_by_addr m) (unmap (fst src), snd src) = Some r" "map_of (pm_heap m) r = Some p" "pp_ip p = ip"
    by (auto simp: lookup_src_def bind_eq_Some_conv)
  from paths_okD(1) [OF history_ok(1) [OF run] r(1)] r(2) have l: "live m r p" "(unmap (fst src), snd src) \<in> verified_at p"
    by (auto simp: live_def)
  note h = path_of_history [OF run l(1)]
  from l(2) obtain t where "((unmap (fst src), snd src), t) \<in> set (pp_verified p)" by (auto simp: verified_at_def)
  then have "pp_has_disco p" "heard B self (set es) (pp_disco_pub p) t (unmap (fst src), snd src)"
    using h(1) unfolding path_ok_def by fastforce+
  moreover from this(1) have "configured es ip = Some (pp_wg p, Some (pp_disco_pub p))" using h(2) r(3) by (simp add: config_of_def)
  ultimately show ?thesis using k by (auto simp: classify_def split: if_splits)
qed

section \<open>An instance\<close>

text \<open>A node learns the address of its peer from a punch message, pings it and hears the answer.\<close>

definition sample_peer :: disco_key where
  "sample_peer = \<lparr>dk_priv = replicate 32 3, dk_pub = replicate 32 4\<rparr>"

definition sample_addr :: addr_port where
  "sample_addr = (IP4 0x08080808, 41641)"

definition sample_randoms :: randoms where
  "sample_randoms = (\<lambda>r a. (replicate 12 7, replicate 24 9))"

definition sample_reply :: disco_msg where
  "sample_reply = \<lparr>dm_kind = discoPong, dm_ts = 101 * Second, dm_tx = replicate 12 7, dm_seen = (NoAddr, 0)\<rparr>"

definition sample_answer :: bytes where
  "sample_answer = seal_disco tag_box sample_peer [] (replicate 24 5) sample_reply"

definition sample_set :: path_event where
  "sample_set = ESetPeer (IP4 0x0A630002) ''wg'' (Some (dk_pub sample_peer))"

definition sample_call :: path_event where
  "sample_call = EPunch (100 * Second) sample_randoms ''wg'' [addr_port_string sample_addr]"

definition sample_hear :: path_event where
  "sample_hear = EDisco (101 * Second) [] sample_randoms sample_answer sample_addr"

definition punched_history :: "path_event list" where
  "punched_history = [sample_set, sample_call, sample_hear]"

lemma sample_accept: "accept_candidate lb sample_addr" and sample_self: "(unmap (fst sample_addr), snd sample_addr) = sample_addr"
  by (simp_all add: accept_candidate_def sample_addr_def usable_endpoint_def)

lemma sample_punch: "punch_cand lb (addr_port_string sample_addr) p = add_cand lb sample_addr p"
  by (simp add: punch_cand_def sample_addr_def parse_addr_port_string4 del: addr_port_string.simps)

lemma sample_answer_parts: "is_disco sample_answer" "disco_sender sample_answer = dk_pub sample_peer"
  "replay_check (disco_nonce sample_answer) (101 * Second) new_replay_cache
    = (True, \<lparr>rc_seen = [(disco_nonce sample_answer, 101 * Second)], rc_gc = Some (101 * Second)\<rparr>)"
  by code_simp+

lemma sample_answer_opens: "open_disco tag_box k sample_answer = Some sample_reply"
proof -
  have "open_disco tag_box [] sample_answer = Some sample_reply" by code_simp
  then show ?thesis by (simp add: open_disco_def tag_box_def)
qed

lemma sample_fresh: "fresh (101 * Second) sample_reply"
  by (simp add: fresh_def sample_reply_def discoSkew_def)

definition sample_path :: peer_path where
  "sample_path = new_path tag_box sample_disco (IP4 0x0A630002) ''wg'' (Some (dk_pub sample_peer))"

definition sample_probed :: peer_path where
  "sample_probed = sample_path\<lparr>pp_cands := [sample_addr], pp_probe_until := Some (112 * Second),
     pp_next_probe := Some (100 * Second + 900 * Millisecond),
     pp_pending := [(replicate 12 7, \<lparr>pr_addr = sample_addr, pr_sent = 100 * Second\<rparr>)], pp_last_ping := Some (100 * Second)\<rparr>"

definition sample_direct :: peer_path where
  "sample_direct = sample_probed\<lparr>pp_pending := [], pp_verified := [(sample_addr, 101 * Second)], pp_direct := sample_addr,
     pp_direct_ok := True, pp_rtt := Second, pp_last_alive := Some (101 * Second)\<rparr>"

lemmas sample_path_defs = sample_path_def sample_probed_def sample_direct_def new_path_def

definition sample_mgr :: "peer_path \<Rightarrow> (addr_port, path_ref) gomap \<Rightarrow> replay_cache \<Rightarrow> path_mgr" where
  "sample_mgr p t rc = \<lparr>pm_self = sample_disco, pm_loopback = False, pm_heap = [(0, p)], pm_peers = [(IP4 0x0A630002, 0)],
     pm_by_disco = [(dk_pub sample_peer, 0)], pm_by_addr = t, pm_replay = rc\<rparr>"

lemma sample_set_run:
  "snd (path_apply tag_box sample_set (new_path_mgr sample_disco False)) = sample_mgr sample_path [] new_replay_cache"
  by (simp add: sample_set_def set_peer_def path_of_def new_path_mgr_def sample_path_def sample_mgr_def Let_def set_path_def)

lemma sample_call_run:
  "snd (path_apply tag_box sample_call (sample_mgr sample_path [] new_replay_cache)) = sample_mgr sample_probed [] new_replay_cache"
  by (simp add: sample_call_def sample_mgr_def receive_punch_def path_with_key_def List.map_filter_def sample_path_defs sample_punch
      add_cand_def sample_accept set_path_def path_step_def peer_step_def peer_round_def expire_def fall_back_def timed_out_def
      probe_round_def before_def probeWindow_def ping_def keep_alive_def retry_def sample_randoms_def Let_def maxCands_def
      MaxNetEndpoints_def probeInterval_def stale_addrs_def split: prod.split)

lemma sample_hear_run:
  "snd (path_apply tag_box sample_hear (sample_mgr sample_probed [] new_replay_cache))
   = sample_mgr sample_direct [(sample_addr, 0)] \<lparr>rc_seen = [(disco_nonce sample_answer, 101 * Second)], rc_gc = Some (101 * Second)\<rparr>"
proof -
  have kinds: "discoPong \<noteq> discoPing" "dm_kind sample_reply = discoPong" "dm_tx sample_reply = replicate 12 7"
    by (simp_all add: sample_reply_def discoPing_def discoPong_def)
  show ?thesis
    by (simp add: sample_hear_def sample_mgr_def receive_disco_def handle_disco_def sample_answer_parts [simplified] sample_answer_opens
        sample_fresh [simplified]
        kinds sample_self on_pong_def verify_def take_from_old_def make_room_def set_path_def sample_path_defs Let_def)
qed

lemma sample_run:
  "snd (path_run tag_box punched_history (new_path_mgr sample_disco False))
   = sample_mgr sample_direct [(sample_addr, 0)] \<lparr>rc_seen = [(disco_nonce sample_answer, 101 * Second)], rc_gc = Some (101 * Second)\<rparr>"
  using sample_set_run sample_call_run sample_hear_run
  by (simp add: punched_history_def split: prod.splits) (metis snd_conv)

lemma sample_used:
  "route (120 * Second) (IP4 0x0A630002) (sample_mgr sample_direct [(sample_addr, 0)] rc) = Some sample_addr"
  "receive_udp [4, 0, 0, 0] sample_addr (sample_mgr sample_direct [(sample_addr, 0)] rc) = UWireguard (IP4 0x0A630002) [4, 0, 0, 0]"
  by (simp_all add: route_def path_of_def sample_mgr_def sample_path_defs passed_def directTimeout_def receive_udp_def classify_def
      is_stun_def StunHeader_def is_disco_def discoHdr_def lookup_src_def sample_self)

lemma sample_config: "configured punched_history = (\<lambda>ip. None)(IP4 0x0A630002 := Some (''wg'', Some (dk_pub sample_peer)))"
  by (simp add: configured_def punched_history_def sample_set_def sample_call_def sample_hear_def)

lemma direct_path_verified_witness:
  "\<exists>out t. answered tag_box sample_disco (set punched_history) out (dk_pub sample_peer) t sample_addr"
proof -
  obtain out m where run: "path_run tag_box punched_history (new_path_mgr sample_disco False) = (out, m)" by force
  with sample_run have "m = sample_mgr sample_direct [(sample_addr, 0)] \<lparr>rc_seen = [(disco_nonce sample_answer, 101 * Second)], rc_gc = Some (101 * Second)\<rparr>"
    by simp
  then have "route (120 * Second) (IP4 0x0A630002) m = Some sample_addr" by (simp only: sample_used)
  from direct_path_verified [OF run this] show ?thesis unfolding sample_config by (auto simp del: split_paired_Ex)
qed

lemma wg_source_authentic_witness:
  "\<exists>t. heard tag_box sample_disco (set punched_history) (dk_pub sample_peer) t sample_addr"
proof -
  obtain out m where run: "path_run tag_box punched_history (new_path_mgr sample_disco False) = (out, m)" by force
  with sample_run have "m = sample_mgr sample_direct [(sample_addr, 0)] \<lparr>rc_seen = [(disco_nonce sample_answer, 101 * Second)], rc_gc = Some (101 * Second)\<rparr>"
    by simp
  then have "receive_udp [4, 0, 0, 0] sample_addr m = UWireguard (IP4 0x0A630002) [4, 0, 0, 0]" by (simp only: sample_used)
  from wg_source_authentic [OF run this] show ?thesis unfolding sample_config sample_self by auto
qed

end
