(* ===== verification/Port_Pool.thy ===== *)
theory Port_Pool
  imports Allocator Addr_Text
begin

text \<open>
  The pool of public (IP, port) addresses of raw TCP and UDP tunnels (\<open>server/portpool/portpool.go\<close>):
  parsing and validation of the configuration (\<open>parse_pool\<close>), the address a slot listens on, the
  choice of a free address and the occupancy summary.
\<close>

definition DefaultMin :: int where "DefaultMin = 10000"
definition DefaultMax :: int where "DefaultMax = 10099"
definition DefaultQuarantine :: duration where "DefaultQuarantine = 600 * Second"

record slot =
  sl_key :: string
  sl_ip :: string
  sl_host :: string
  sl_wildcard :: bool
  sl_offset :: int

type_synonym pool_addr = "string \<times> int"

record pool_config =
  pc_slots :: "slot list"
  pc_min :: int
  pc_max :: int
  pc_quarantine :: duration

datatype pool_error =
    BadRange | BadHostEntry string | BadHostIP string | DupHost string | BadBindIP string
  | BadOffset string | DupBind string | Overlap string string | HostNotBound string

definition legacy_pool :: "string \<Rightarrow> pool_config" where
  "legacy_pool domain =
     \<lparr>pc_slots = [\<lparr>sl_key = [], sl_ip = [], sl_host = domain, sl_wildcard = True, sl_offset = 0\<rparr>],
      pc_min = DefaultMin, pc_max = DefaultMax, pc_quarantine = DefaultQuarantine\<rparr>"

definition split_list :: "string \<Rightarrow> string list" where
  "split_list s = filter (\<lambda>p. p \<noteq> []) (map trim_space (split_at (CHR '','') s))"

section \<open>Overlap\<close>

fun clash_with :: "int \<Rightarrow> int \<Rightarrow> slot \<Rightarrow> slot list \<Rightarrow> pool_error option" where
  "clash_with mn mx a [] = None"
| "clash_with mn mx a (b # bs) =
     (if \<not> sl_wildcard a \<and> \<not> sl_wildcard b then clash_with mn mx a bs
      else if mn + sl_offset a \<le> mx + sl_offset b \<and> mn + sl_offset b \<le> mx + sl_offset a
      then Some (Overlap (sl_ip a) (sl_ip b))
      else clash_with mn mx a bs)"

fun check_overlap :: "int \<Rightarrow> int \<Rightarrow> slot list \<Rightarrow> pool_error option" where
  "check_overlap mn mx [] = None"
| "check_overlap mn mx (a # bs) =
     (case clash_with mn mx a bs of Some e \<Rightarrow> Some e | None \<Rightarrow> check_overlap mn mx bs)"

section \<open>Parsing\<close>

text \<open>The \<open>HOSTS\<close> list: the host of each IP, in the order given.\<close>

fun parse_hosts :: "string list \<Rightarrow> (string, string) gomap \<Rightarrow> pool_error + (string, string) gomap" where
  "parse_hosts [] m = Inr m"
| "parse_hosts (part # parts) m =
     (case cut_at (CHR ''='') part of
        (h0, ip0, ok) \<Rightarrow>
          let h = to_lower (trim_space h0); ip = trim_space ip0 in
          if \<not> ok \<or> h = [] \<or> ip = [] then Inl (BadHostEntry part)
          else case parse_addr ip of
              None \<Rightarrow> Inl (BadHostIP ip)
            | Some a \<Rightarrow>
                if map_of m (addr_string a) \<noteq> None then Inl (DupHost (addr_string a))
                else parse_hosts parts (m @ [(addr_string a, h)]))"

record bind_entry =
  be_ip :: string
  be_wildcard :: bool
  be_offset :: int

fun parse_binds :: "int \<Rightarrow> string list \<Rightarrow> pool_error + bind_entry list" where
  "parse_binds mx [] = Inr []"
| "parse_binds mx (part # parts) =
     (case cut_at (CHR ''+'') part of
        (ip, off, has_off) \<Rightarrow>
          case parse_addr (trim_space ip) of
            None \<Rightarrow> Inl (BadBindIP ip)
          | Some a \<Rightarrow>
              let e = (if \<not> has_off then Inr \<lparr>be_ip = addr_string a, be_wildcard = False, be_offset = 0\<rparr>
                       else case atoi (trim_space off) of
                           None \<Rightarrow> Inl (BadOffset off)
                         | Some n \<Rightarrow>
                             if n < 0 \<or> mx + n > 65535 then Inl (BadOffset off)
                             else Inr \<lparr>be_ip = addr_string a, be_wildcard = True, be_offset = n\<rparr>) in
              case e of
                Inl err \<Rightarrow> Inl err
              | Inr b \<Rightarrow> (case parse_binds mx parts of Inl err \<Rightarrow> Inl err | Inr bs \<Rightarrow> Inr (b # bs)))"

text \<open>The loop that turns the entries into slots; \<open>first\<close> is \<open>i = 0\<close>.\<close>

fun make_slots :: "(string, string) gomap \<Rightarrow> string \<Rightarrow> bool \<Rightarrow> string list \<Rightarrow> bind_entry list \<Rightarrow> pool_error + slot list" where
  "make_slots hosts domain first seen_ips [] = Inr []"
| "make_slots hosts domain first seen_ips (e # es) =
     (if be_ip e \<in> set seen_ips then Inl (DupBind (be_ip e))
      else
        let host0 = gm_at [] hosts (be_ip e);
            host = (if host0 \<noteq> [] then host0 else if first \<and> domain \<noteq> [] then domain else be_ip e) in
        case make_slots hosts domain False (be_ip e # seen_ips) es of
          Inl err \<Rightarrow> Inl err
        | Inr ss \<Rightarrow> Inr (\<lparr>sl_key = (if first then [] else be_ip e), sl_ip = be_ip e, sl_host = host,
                         sl_wildcard = be_wildcard e, sl_offset = be_offset e\<rparr> # ss))"

definition parse_pool :: "string \<Rightarrow> string \<Rightarrow> int \<Rightarrow> int \<Rightarrow> duration \<Rightarrow> string \<Rightarrow> pool_error + pool_config" where
  "parse_pool bind_ips hosts mn0 mx0 quarantine0 domain =
     (let mn = (if mn0 = 0 then DefaultMin else mn0);
          mx = (if mx0 = 0 then DefaultMax else mx0) in
      if mn < 1024 \<or> mx > 65535 \<or> mn > mx then Inl BadRange
      else
        let q = (if quarantine0 < 0 then DefaultQuarantine else quarantine0) in
        case parse_hosts (split_list hosts) [] of
          Inl e \<Rightarrow> Inl e
        | Inr hm \<Rightarrow>
          (case parse_binds mx (split_list bind_ips) of
             Inl e \<Rightarrow> Inl e
           | Inr bs \<Rightarrow>
               let es = (if bs = [] then map (\<lambda>(ip, h). \<lparr>be_ip = ip, be_wildcard = False, be_offset = 0\<rparr>) hm else bs) in
               if es = [] then Inr ((legacy_pool domain)\<lparr>pc_min := mn, pc_max := mx, pc_quarantine := q\<rparr>)
               else case make_slots hm domain True [] es of
                   Inl e \<Rightarrow> Inl e
                 | Inr ss \<Rightarrow>
                     (case find (\<lambda>(ip, h). ip \<notin> be_ip ` set es) hm of
                        Some (ip, h) \<Rightarrow> Inl (HostNotBound ip)
                      | None \<Rightarrow>
                          (case check_overlap mn mx ss of
                             Some e \<Rightarrow> Inl e
                           | None \<Rightarrow> Inr \<lparr>pc_slots = ss, pc_min = mn, pc_max = mx, pc_quarantine = q\<rparr>))))"

section \<open>Operations\<close>

definition find_slot :: "pool_config \<Rightarrow> string \<Rightarrow> slot option" where
  "find_slot c key = find (\<lambda>s. sl_key s = key) (pc_slots c)"

text \<open>\<open>Host\<close>; a configuration has a first slot (\<open>parse_pool\<close> and \<open>legacy_pool\<close> give one).\<close>

definition pool_host :: "pool_config \<Rightarrow> string \<Rightarrow> string" where
  "pool_host c key = (case find_slot c key of Some s \<Rightarrow> sl_host s | None \<Rightarrow> sl_host (hd (pc_slots c)))"

definition pool_listen :: "pool_config \<Rightarrow> string \<Rightarrow> int \<Rightarrow> (string \<times> int) option" where
  "pool_listen c key port =
     (case find_slot c key of
        None \<Rightarrow> None
      | Some s \<Rightarrow> if sl_wildcard s \<or> sl_ip s = [] then Some ([], port + sl_offset s) else Some (sl_ip s, port))"

definition pool_capacity :: "pool_config \<Rightarrow> int" where
  "pool_capacity c = int (length (pc_slots c)) * (pc_max c - pc_min c + 1)"

fun pick_slots :: "(pool_addr \<Rightarrow> bool) \<Rightarrow> int \<Rightarrow> int \<Rightarrow> slot list \<Rightarrow> pool_addr option" where
  "pick_slots taken mn mx [] = None"
| "pick_slots taken mn mx (s # ss) =
     (case find (\<lambda>p. \<not> taken (sl_key s, p)) [mn..mx] of
        Some p \<Rightarrow> Some (sl_key s, p)
      | None \<Rightarrow> pick_slots taken mn mx ss)"

definition pick :: "pool_addr list \<Rightarrow> pool_addr list \<Rightarrow> pool_addr list \<Rightarrow> pool_config \<Rightarrow> pool_addr option" where
  "pick used quarantined skip c =
     pick_slots (\<lambda>a. a \<in> set used \<or> a \<in> set quarantined \<or> a \<in> set skip) (pc_min c) (pc_max c) (pc_slots c)"

record slot_stats =
  ss_host :: string
  ss_ip :: string
  ss_capacity :: int
  ss_used :: int
  ss_quarantined :: int

record pool_stats =
  ps_capacity :: int
  ps_used :: int
  ps_quarantined :: int
  ps_free :: int
  ps_slots :: "slot_stats list"

definition slot_stats_of :: "pool_addr list \<Rightarrow> pool_addr list \<Rightarrow> pool_config \<Rightarrow> slot \<Rightarrow> slot_stats" where
  "slot_stats_of used quarantined c s =
     \<lparr>ss_host = sl_host s, ss_ip = sl_ip s, ss_capacity = pc_max c - pc_min c + 1,
      ss_used = (\<Sum>p\<leftarrow>[pc_min c..pc_max c]. if (sl_key s, p) \<in> set used then 1 else 0),
      ss_quarantined = (\<Sum>p\<leftarrow>[pc_min c..pc_max c].
        if (sl_key s, p) \<in> set used then 0 else if (sl_key s, p) \<in> set quarantined then 1 else 0)\<rparr>"

definition pool_stats_of :: "pool_addr list \<Rightarrow> pool_addr list \<Rightarrow> pool_config \<Rightarrow> pool_stats" where
  "pool_stats_of used quarantined c =
     (let ss = map (slot_stats_of used quarantined c) (pc_slots c);
          cap = (\<Sum>x\<leftarrow>ss. ss_capacity x); us = (\<Sum>x\<leftarrow>ss. ss_used x); qs = (\<Sum>x\<leftarrow>ss. ss_quarantined x) in
      \<lparr>ps_capacity = cap, ps_used = us, ps_quarantined = qs, ps_free = cap - us - qs, ps_slots = ss\<rparr>)"

section \<open>What a parsed configuration satisfies\<close>

definition slot_ok :: "int \<Rightarrow> slot \<Rightarrow> bool" where
  "slot_ok mx s \<longleftrightarrow> 0 \<le> sl_offset s \<and> mx + sl_offset s \<le> 65535
     \<and> (\<not> sl_wildcard s \<longrightarrow> sl_offset s = 0 \<and> sl_ip s \<noteq> [])"

definition slots_apart :: "int \<Rightarrow> int \<Rightarrow> slot \<Rightarrow> slot \<Rightarrow> bool" where
  "slots_apart mn mx a b \<longleftrightarrow>
     (if sl_wildcard a \<or> sl_wildcard b
      then mx + sl_offset b < mn + sl_offset a \<or> mx + sl_offset a < mn + sl_offset b
      else True)"

definition pool_ok :: "pool_config \<Rightarrow> bool" where
  "pool_ok c \<longleftrightarrow> pc_slots c \<noteq> [] \<and> 1024 \<le> pc_min c \<and> pc_min c \<le> pc_max c \<and> pc_max c \<le> 65535
     \<and> distinct (map sl_key (pc_slots c)) \<and> distinct (map sl_ip (pc_slots c)) \<and> sl_key (hd (pc_slots c)) = []
     \<and> (\<forall>s\<in>set (pc_slots c). slot_ok (pc_max c) s)
     \<and> sorted_wrt (slots_apart (pc_min c) (pc_max c)) (pc_slots c)"

lemma addr_string_not_Nil [simp]: "addr_string a \<noteq> []"
proof (cases a)
  case (IP6 w z)
  have j: "join_colon ss = [] \<Longrightarrow> length ss \<le> 1" for ss by (cases ss rule: join_colon.cases) auto
  obtain x y where b: "best_run 0 (0, 0) (map (\<lambda>i. group i w) [0..<8]) = (x, y)" by force
  have "join_colon (map hex_string (map (\<lambda>i. group i w) [0..<8])) \<noteq> []"
  proof
    assume "join_colon (map hex_string (map (\<lambda>i. group i w) [0..<8])) = []"
    from j [OF this] show False by simp
  qed
  then have "ipv6_string w \<noteq> []"
    unfolding ipv6_string_def Let_def b by (simp del: map_map)
  with IP6 show ?thesis by (simp del: addr_string.simps(1,2))
qed (simp_all add: ipv4_string_def)

lemma clash_with_None: "clash_with mn mx a bs = None \<longleftrightarrow> (\<forall>b\<in>set bs. slots_apart mn mx a b)"
  by (induction bs) (auto simp: slots_apart_def)

lemma check_overlap_None: "check_overlap mn mx ss = None \<longleftrightarrow> sorted_wrt (slots_apart mn mx) ss"
  by (induction ss) (auto simp: clash_with_None [symmetric] split: option.split)

lemma parse_hosts_keys:
  "parse_hosts ps m = Inr r \<Longrightarrow> \<forall>x\<in>set m. fst x \<noteq> [] \<Longrightarrow> \<forall>x\<in>set r. fst x \<noteq> []"
  by (induction ps m rule: parse_hosts.induct) (auto simp: Let_def split: prod.splits if_splits option.splits)

lemma parse_binds_ok:
  "parse_binds mx ps = Inr bs \<Longrightarrow> b \<in> set bs \<Longrightarrow>
     be_ip b \<noteq> [] \<and> 0 \<le> be_offset b \<and> (be_wildcard b \<longrightarrow> mx + be_offset b \<le> 65535) \<and> (\<not> be_wildcard b \<longrightarrow> be_offset b = 0)"
  by (induction ps arbitrary: bs)
    (auto simp: Let_def split: prod.splits if_splits option.splits sum.splits)

lemma make_slots_ips:
  "make_slots hosts domain fi seen_ips es = Inr ss \<Longrightarrow>
     map sl_ip ss = map be_ip es \<and> distinct (map be_ip es) \<and> set (map be_ip es) \<inter> set seen_ips = {}"
  by (induction hosts domain fi seen_ips es arbitrary: ss rule: make_slots.induct)
    (auto simp: Let_def split: if_splits sum.splits)

lemma make_slots_keys:
  "make_slots hosts domain False seen_ips es = Inr ss \<Longrightarrow> map sl_key ss = map be_ip es"
  by (induction hosts domain False seen_ips es arbitrary: ss rule: make_slots.induct)
    (auto simp: Let_def split: if_splits sum.splits)

lemma make_slots_first_keys:
  "make_slots hosts domain True seen_ips (e # es) = Inr ss \<Longrightarrow> map sl_key ss = [] # map be_ip es"
  by (auto simp: Let_def split: if_splits sum.splits dest!: make_slots_keys)

lemma make_slots_slot:
  "make_slots hosts domain fi seen_ips es = Inr ss \<Longrightarrow> s \<in> set ss \<Longrightarrow>
     \<exists>e\<in>set es. sl_ip s = be_ip e \<and> sl_wildcard s = be_wildcard e \<and> sl_offset s = be_offset e"
  by (induction hosts domain fi seen_ips es arbitrary: ss rule: make_slots.induct)
    (fastforce simp: Let_def split: if_splits sum.splits)+

lemma make_slots_ok:
  assumes ms: "make_slots hm domain True [] es = Inr ss" and "es \<noteq> []"
    and ents: "\<forall>e\<in>set es. be_ip e \<noteq> [] \<and> 0 \<le> be_offset e \<and> (be_wildcard e \<longrightarrow> mx + be_offset e \<le> 65535)
      \<and> (\<not> be_wildcard e \<longrightarrow> be_offset e = 0)"
    and "check_overlap mn mx ss = None" and "1024 \<le> mn" "mn \<le> mx" "mx \<le> 65535"
  shows "pool_ok \<lparr>pc_slots = ss, pc_min = mn, pc_max = mx, pc_quarantine = q\<rparr>"
proof -
  obtain e es' where es: "es = e # es'" using assms(2) by (cases es) auto
  note ips = make_slots_ips [OF ms]
  have keys: "map sl_key ss = [] # map be_ip es'" using make_slots_first_keys ms es by blast
  have "ss \<noteq> []" using keys by auto
  moreover have "distinct (map sl_key ss)" using ips ents unfolding keys by (auto simp: es)
  moreover have "sl_key (hd ss) = []" using keys by (cases ss) auto
  moreover have "slot_ok mx s" if "s \<in> set ss" for s
    using make_slots_slot [OF ms that] ents assms(7) by (fastforce simp: slot_ok_def)
  ultimately show ?thesis
    using ips assms(4-7) by (simp add: pool_ok_def check_overlap_None)
qed

lemma parse_pool_ok:
  assumes "parse_pool bind_ips hosts mn0 mx0 q0 domain = Inr c"
  shows "pool_ok c"
proof -
  define mn mx where "mn = (if mn0 = 0 then DefaultMin else mn0)" and "mx = (if mx0 = 0 then DefaultMax else mx0)"
  have range: "1024 \<le> mn" "mn \<le> mx" "mx \<le> 65535"
    using assms by (auto simp: parse_pool_def Let_def mn_def [symmetric] mx_def [symmetric] split: if_splits)
  obtain hm where hm: "parse_hosts (split_list hosts) [] = Inr hm"
    using assms range by (auto simp: parse_pool_def Let_def mn_def [symmetric] mx_def [symmetric] split: if_splits sum.splits)
  obtain bs where bs: "parse_binds mx (split_list bind_ips) = Inr bs"
    using assms range hm by (auto simp: parse_pool_def Let_def mn_def [symmetric] mx_def [symmetric] split: if_splits sum.splits)
  define es where "es = (if bs = [] then map (\<lambda>(ip, h). \<lparr>be_ip = ip, be_wildcard = False, be_offset = 0\<rparr>) hm else bs)"
  have ents: "\<forall>e\<in>set es. be_ip e \<noteq> [] \<and> 0 \<le> be_offset e \<and> (be_wildcard e \<longrightarrow> mx + be_offset e \<le> 65535)
      \<and> (\<not> be_wildcard e \<longrightarrow> be_offset e = 0)"
    using parse_hosts_keys [OF hm] parse_binds_ok [OF bs] by (auto simp: es_def)
  show ?thesis
  proof (cases "es = []")
    case True
    then have "c = (legacy_pool domain)\<lparr>pc_min := mn, pc_max := mx, pc_quarantine := (if q0 < 0 then DefaultQuarantine else q0)\<rparr>"
      using assms range by (simp add: parse_pool_def Let_def mn_def [symmetric] mx_def [symmetric] hm bs es_def [symmetric])
    then show ?thesis using range by (simp add: pool_ok_def legacy_pool_def slot_ok_def)
  next
    case False
    then obtain ss where ss: "make_slots hm domain True [] es = Inr ss" "check_overlap mn mx ss = None"
        and c: "c = \<lparr>pc_slots = ss, pc_min = mn, pc_max = mx, pc_quarantine = (if q0 < 0 then DefaultQuarantine else q0)\<rparr>"
      using assms range
      by (auto simp: parse_pool_def Let_def mn_def [symmetric] mx_def [symmetric] hm bs es_def [symmetric]
          split: sum.splits option.splits if_splits)
    show ?thesis unfolding c by (rule make_slots_ok [OF ss(1) False ents ss(2) range])
  qed
qed

section \<open>Listening addresses do not clash\<close>

definition pool_addrs :: "pool_config \<Rightarrow> pool_addr list" where
  "pool_addrs c = concat (map (\<lambda>s. map (Pair (sl_key s)) [pc_min c..pc_max c]) (pc_slots c))"

lemma set_pool_addrs: "set (pool_addrs c) = {(sl_key s, p) |s p. s \<in> set (pc_slots c) \<and> pc_min c \<le> p \<and> p \<le> pc_max c}"
  by (auto simp: pool_addrs_def)

lemma sorted_wrt_sym_mem:
  assumes "sorted_wrt R xs" and "\<And>x y. R x y \<Longrightarrow> R y x" and "x \<in> set xs" "y \<in> set xs" "x \<noteq> y"
  shows "R x y"
  using assms by (induction xs) auto

lemma slots_apart_sym: "slots_apart mn mx a b \<Longrightarrow> slots_apart mn mx b a"
  by (auto simp: slots_apart_def split: if_splits)

lemma find_slot_mem:
  assumes "pool_ok c" and "s \<in> set (pc_slots c)"
  shows "find_slot c (sl_key s) = Some s"
proof -
  have "distinct (map sl_key xs) \<Longrightarrow> s \<in> set xs \<Longrightarrow> find (\<lambda>x. sl_key x = sl_key s) xs = Some s" for xs
    by (induction xs) auto
  then show ?thesis using assms by (simp add: find_slot_def pool_ok_def)
qed

text \<open>What a listener of the text \<open>host\<close> occupies, as \<open>net.Listen\<close> documents it: the empty host and a
  literal unspecified address (\<open>0.0.0.0\<close>, \<open>::\<close>, \<open>::ffff:0.0.0.0\<close>) listen on all addresses of the
  machine (\<open>None\<close>), an IPv4-mapped address is its IPv4 address, and the zone only names the interface.
  Two listeners clash on one port if one of them occupies all addresses or both the same one.\<close>

fun unspecified :: "addr \<Rightarrow> bool" where
  "unspecified (IP4 w) = (w = 0)"
| "unspecified (IP6 w _) = (w = 0)"
| "unspecified NoAddr = False"

fun drop_zone :: "addr \<Rightarrow> addr" where
  "drop_zone (IP6 w _) = IP6 w []"
| "drop_zone a = a"

definition bind_addr :: "string \<Rightarrow> addr option" where
  "bind_addr host =
     (case parse_addr host of
        None \<Rightarrow> None
      | Some a \<Rightarrow> if unspecified (unmap a) then None else Some (drop_zone (unmap a)))"

definition listen_clash :: "string \<times> int \<Rightarrow> string \<times> int \<Rightarrow> bool" where
  "listen_clash a b \<longleftrightarrow> snd a = snd b
     \<and> (bind_addr (fst a) = None \<or> bind_addr (fst b) = None \<or> bind_addr (fst a) = bind_addr (fst b))"

text \<open>An address that stands for itself alone: not unspecified, not IPv4-mapped, without a zone. The
  slots the overlap check compares by their text only are the ones without an offset.\<close>

fun plain_addr :: "addr \<Rightarrow> bool" where
  "plain_addr (IP4 w) = (w \<noteq> 0)"
| "plain_addr (IP6 w z) = (w \<noteq> 0 \<and> drop_bit 32 w \<noteq> 0xffff \<and> z = [])"
| "plain_addr NoAddr = False"

definition plain_slot :: "pool_config \<Rightarrow> string \<Rightarrow> bool" where
  "plain_slot c key =
     (case find_slot c key of
        None \<Rightarrow> False
      | Some s \<Rightarrow> sl_wildcard s \<or> (case parse_addr (sl_ip s) of None \<Rightarrow> False | Some a \<Rightarrow> plain_addr a))"

lemma bind_addr_plain:
  assumes "plain_addr a"
  shows "bind_addr (addr_string a) = Some a"
proof -
  have "a \<noteq> NoAddr" using assms by auto
  moreover have "\<not> unspecified (unmap a) \<and> drop_zone (unmap a) = a" using assms by (cases a) auto
  ultimately show ?thesis by (simp add: bind_addr_def parse_addr_string)
qed

lemma parse_addr_valid: "parse_addr s \<noteq> Some NoAddr"
  by (auto simp: parse_addr_def parse_ipv6_def Let_def split: option.splits if_splits prod.splits)

text \<open>The address text of a slot of a parsed configuration is the canonical text of an address.\<close>

definition canonical_ip :: "string \<Rightarrow> bool" where
  "canonical_ip ip \<longleftrightarrow> (\<exists>a. a \<noteq> NoAddr \<and> ip = addr_string a)"

lemma canonical_parsed: "parse_addr s = Some a \<Longrightarrow> canonical_ip (addr_string a)"
  using parse_addr_valid [of s] by (auto simp: canonical_ip_def)

lemma parse_hosts_canonical:
  "parse_hosts ps m = Inr r \<Longrightarrow> \<forall>x\<in>set m. canonical_ip (fst x) \<Longrightarrow> \<forall>x\<in>set r. canonical_ip (fst x)"
  by (induction ps m rule: parse_hosts.induct)
    (auto simp: Let_def canonical_parsed split: prod.splits if_splits option.splits)

lemma parse_binds_canonical: "parse_binds mx ps = Inr bs \<Longrightarrow> b \<in> set bs \<Longrightarrow> canonical_ip (be_ip b)"
  by (induction ps arbitrary: bs)
    (auto simp: Let_def canonical_parsed split: prod.splits if_splits option.splits sum.splits)

lemma parse_pool_canonical:
  assumes "parse_pool bind_ips hosts mn0 mx0 q0 domain = Inr c" and "s \<in> set (pc_slots c)"
  shows "sl_wildcard s \<or> canonical_ip (sl_ip s)"
proof -
  define mn mx where "mn = (if mn0 = 0 then DefaultMin else mn0)" and "mx = (if mx0 = 0 then DefaultMax else mx0)"
  note fold = parse_pool_def Let_def mn_def [symmetric] mx_def [symmetric]
  obtain hm where hm: "parse_hosts (split_list hosts) [] = Inr hm"
    using assms(1) by (auto simp: fold split: if_splits sum.splits)
  obtain bs where bs: "parse_binds mx (split_list bind_ips) = Inr bs"
    using assms(1) hm by (auto simp: fold split: if_splits sum.splits)
  define es where "es = (if bs = [] then map (\<lambda>(ip, h). \<lparr>be_ip = ip, be_wildcard = False, be_offset = 0\<rparr>) hm else bs)"
  have can: "\<forall>e\<in>set es. canonical_ip (be_ip e)"
    using parse_hosts_canonical [OF hm] parse_binds_canonical [OF bs] by (auto simp: es_def)
  show ?thesis
  proof (cases "es = []")
    case True
    then have "pc_slots c = pc_slots (legacy_pool domain)"
      using assms(1) by (auto simp: fold hm bs es_def [symmetric] split: if_splits)
    then show ?thesis using assms(2) by (simp add: legacy_pool_def)
  next
    case False
    then obtain ss where ss: "make_slots hm domain True [] es = Inr ss" "pc_slots c = ss"
      using assms(1) by (auto simp: fold hm bs es_def [symmetric] split: sum.splits option.splits if_splits)
    then show ?thesis using make_slots_slot [OF ss(1), of s] assms(2) can by auto
  qed
qed

lemma pool_listen_slot:
  assumes "pool_ok c" and "s \<in> set (pc_slots c)"
  shows "pool_listen c (sl_key s) p = Some (if sl_wildcard s then ([], p + sl_offset s) else (sl_ip s, p))"
proof -
  have "slot_ok (pc_max c) s" using assms by (simp add: pool_ok_def)
  then show ?thesis by (simp add: pool_listen_def find_slot_mem [OF assms] slot_ok_def)
qed

lemma listen_no_clash:
  assumes "pool_ok c" and "(k1, p1) \<in> set (pool_addrs c)" "(k2, p2) \<in> set (pool_addrs c)" "(k1, p1) \<noteq> (k2, p2)"
    and can: "\<And>s. s \<in> set (pc_slots c) \<Longrightarrow> sl_wildcard s \<or> canonical_ip (sl_ip s)"
  shows "\<exists>a b. pool_listen c k1 p1 = Some a \<and> pool_listen c k2 p2 = Some b
    \<and> (listen_clash a b \<longrightarrow> p1 = p2 \<and> k1 \<noteq> k2 \<and> \<not> (plain_slot c k1 \<and> plain_slot c k2))"
proof -
  obtain s where s: "k1 = sl_key s" "s \<in> set (pc_slots c)" "pc_min c \<le> p1" "p1 \<le> pc_max c"
    using assms(2) by (auto simp: set_pool_addrs)
  obtain t where t: "k2 = sl_key t" "t \<in> set (pc_slots c)" "pc_min c \<le> p2" "p2 \<le> pc_max c"
    using assms(3) by (auto simp: set_pool_addrs)
  note ls = pool_listen_slot [OF assms(1) s(2)] pool_listen_slot [OF assms(1) t(2)]
  have ok: "slot_ok (pc_max c) s" "slot_ok (pc_max c) t" using assms(1) s(2) t(2) by (simp_all add: pool_ok_def)
  let ?a = "if sl_wildcard s then ([], p1 + sl_offset s) else (sl_ip s, p1)"
  let ?b = "if sl_wildcard t then ([], p2 + sl_offset t) else (sl_ip t, p2)"
  have nc: "p1 = p2 \<and> k1 \<noteq> k2 \<and> \<not> (plain_slot c k1 \<and> plain_slot c k2)" if clash: "listen_clash ?a ?b"
  proof (cases "s = t")
    case True
    with assms(4) s t have "p1 \<noteq> p2" by simp
    with True clash show ?thesis by (simp add: listen_clash_def split: if_splits)
  next
    case False
    have sw: "sorted_wrt (slots_apart (pc_min c) (pc_max c)) (pc_slots c)"
      and di: "distinct (map sl_ip (pc_slots c))" "distinct (map sl_key (pc_slots c))"
      using assms(1) by (simp_all add: pool_ok_def)
    have ap: "slots_apart (pc_min c) (pc_max c) s t"
      by (rule sorted_wrt_sym_mem [OF sw slots_apart_sym s(2) t(2) False])
    have ne: "sl_ip s \<noteq> sl_ip t" "sl_key s \<noteq> sl_key t"
      using di s(2) t(2) False by (metis distinct_map inj_onD)+
    have off: "\<not> sl_wildcard s \<Longrightarrow> sl_offset s = 0" "\<not> sl_wildcard t \<Longrightarrow> sl_offset t = 0"
      using ok by (simp_all add: slot_ok_def)
    have "p1 + sl_offset s \<noteq> p2 + sl_offset t" if "sl_wildcard s \<or> sl_wildcard t"
      using ap that s(3,4) t(3,4) by (auto simp: slots_apart_def split: if_splits)
    then have w: "\<not> sl_wildcard s" "\<not> sl_wildcard t"
      using clash off by (auto simp: listen_clash_def split: if_splits)
    obtain x y where xy: "x \<noteq> NoAddr" "sl_ip s = addr_string x" "y \<noteq> NoAddr" "sl_ip t = addr_string y"
      using can [OF s(2)] can [OF t(2)] w by (auto simp: canonical_ip_def)
    have "\<not> (plain_addr x \<and> plain_addr y)"
    proof
      assume p: "plain_addr x \<and> plain_addr y"
      have "bind_addr (sl_ip s) = Some x" "bind_addr (sl_ip t) = Some y" "x \<noteq> y"
        using p ne(1) unfolding xy by (blast intro: bind_addr_plain)+
      with clash w show False by (simp add: listen_clash_def)
    qed
    then have "\<not> (plain_slot c k1 \<and> plain_slot c k2)"
      using w unfolding plain_slot_def s(1) t(1) find_slot_mem [OF assms(1) s(2)] find_slot_mem [OF assms(1) t(2)]
      by (simp add: xy(2,4) parse_addr_string [OF xy(1)] parse_addr_string [OF xy(3)] del: addr_string.simps)
    moreover have "p1 = p2" using clash w by (simp add: listen_clash_def)
    ultimately show ?thesis using ne(2) s(1) t(1) by simp
  qed
  show ?thesis unfolding s(1) t(1)
    by (intro exI conjI, rule ls(1), rule ls(2), rule impI) (use nc in \<open>simp add: s(1) t(1)\<close>)
qed

section \<open>Choosing a free address\<close>

lemma pick_slots_find:
  "pick_slots u mn mx ss = find (\<lambda>a. \<not> u a) (concat (map (\<lambda>s. map (Pair (sl_key s)) [mn..mx]) ss))"
proof (induction ss)
  case (Cons s ss)
  have map: "find P (map (Pair k) xs) = map_option (Pair k) (find (\<lambda>p. P (k, p)) xs)" for P k and xs :: "int list"
    by (induction xs) auto
  have app: "find P (xs @ ys) = (case find P xs of None \<Rightarrow> find P ys | Some x \<Rightarrow> Some x)" for P and xs ys :: "pool_addr list"
    by (induction xs) auto
  show ?case by (simp add: Cons app map split: option.split)
qed simp

lemma pick_find:
  "pick used quarantined skip c = find (\<lambda>a. a \<notin> set used \<union> set quarantined \<union> set skip) (pool_addrs c)"
  by (simp add: pick_def pick_slots_find pool_addrs_def)

definition pool_alloc :: "(pool_addr \<Rightarrow> bool) \<Rightarrow> pool_config \<Rightarrow> (pool_addr \<times> pool_config) option" where
  "pool_alloc u c = map_option (\<lambda>a. (a, c)) (pick_slots u (pc_min c) (pc_max c) (pc_slots c))"

interpretation pool: allocator "\<lambda>c. set (pool_addrs c)" pool_alloc "\<lambda>c. True"
  by unfold_locales (auto simp: pool_alloc_def pick_slots_find pool_addrs_def [symmetric] find_Some_iff find_None_iff)

lemma pool_addrs_distinct: "distinct (map sl_key (pc_slots c)) \<Longrightarrow> distinct (pool_addrs c)"
proof -
  assume d: "distinct (map sl_key (pc_slots c))"
  have g: "distinct (map sl_key ss) \<Longrightarrow> distinct xs \<Longrightarrow> distinct (concat (map (\<lambda>s. map (Pair (sl_key s)) xs) ss))" for ss and xs :: "int list"
    by (induction ss) (auto simp: distinct_map inj_on_def)
  show "distinct (pool_addrs c)" unfolding pool_addrs_def by (rule g [OF d distinct_upto])
qed

lemma sum_list_of_bool: "(\<Sum>p\<leftarrow>xs. if P p then 1 else 0 :: int) = int (length (filter P xs))"
  by (induction xs) auto

lemma length_pool_addrs: "pc_min c \<le> pc_max c + 1 \<Longrightarrow> int (length (pool_addrs c)) = pool_capacity c"
  by (simp add: pool_addrs_def length_concat comp_def pool_capacity_def sum_list_triv)

lemma stats_counts:
  "ps_capacity (pool_stats_of used quarantined c) = int (length (pc_slots c)) * (pc_max c - pc_min c + 1)"
  "ps_used (pool_stats_of used quarantined c) = int (length (filter (\<lambda>a. a \<in> set used) (pool_addrs c)))"
  "ps_quarantined (pool_stats_of used quarantined c) =
     int (length (filter (\<lambda>a. a \<notin> set used \<and> a \<in> set quarantined) (pool_addrs c)))"
proof -
  have cat: "int (length (filter P (concat (map (\<lambda>s. map (Pair (sl_key s)) xs) ss)))) =
      (\<Sum>s\<leftarrow>ss. \<Sum>p\<leftarrow>xs. if P (sl_key s, p) then 1 else 0)" for P and xs :: "int list" and ss
    by (induction ss) (simp_all add: sum_list_of_bool filter_map comp_def)
  show "ps_capacity (pool_stats_of used quarantined c) = int (length (pc_slots c)) * (pc_max c - pc_min c + 1)"
    by (simp add: pool_stats_of_def Let_def comp_def slot_stats_of_def sum_list_triv)
  show "ps_used (pool_stats_of used quarantined c) = int (length (filter (\<lambda>a. a \<in> set used) (pool_addrs c)))"
    unfolding pool_addrs_def cat by (simp add: pool_stats_of_def Let_def comp_def slot_stats_of_def)
  have "(if x then 0 else if y then 1 else 0 :: int) = (if \<not> x \<and> y then 1 else 0)" for x y by simp
  then show "ps_quarantined (pool_stats_of used quarantined c) =
     int (length (filter (\<lambda>a. a \<notin> set used \<and> a \<in> set quarantined) (pool_addrs c)))"
    unfolding pool_addrs_def cat by (simp add: pool_stats_of_def Let_def comp_def slot_stats_of_def)
qed

lemma stats_balance: "ps_used (pool_stats_of used quarantined c) + ps_quarantined (pool_stats_of used quarantined c)
    + ps_free (pool_stats_of used quarantined c) = ps_capacity (pool_stats_of used quarantined c)"
  by (simp add: pool_stats_of_def Let_def)

lemma filter_three:
  "length (filter P xs) + length (filter (\<lambda>x. \<not> P x \<and> Q x) xs) + length (filter (\<lambda>x. \<not> P x \<and> \<not> Q x) xs) = length xs"
  by (induction xs) auto

lemma stats_free:
  assumes "pool_ok c"
  shows "ps_free (pool_stats_of used quarantined c) =
    int (card {a \<in> set (pool_addrs c). \<not> (a \<in> set used \<or> a \<in> set quarantined)})"
proof -
  have range: "pc_min c \<le> pc_max c + 1" using assms by (simp add: pool_ok_def)
  have "int (length (pool_addrs c)) = int (length (pc_slots c)) * (pc_max c - pc_min c + 1)"
    using length_pool_addrs [OF range] by (simp add: pool_capacity_def)
  then have "ps_free (pool_stats_of used quarantined c) =
      int (length (filter (\<lambda>a. a \<notin> set used \<and> a \<notin> set quarantined) (pool_addrs c)))"
    using filter_three [of "\<lambda>a. a \<in> set used" "pool_addrs c" "\<lambda>a. a \<in> set quarantined"]
      stats_counts [of used quarantined c]
    by (simp add: pool_stats_of_def Let_def)
  moreover have "distinct (pool_addrs c)" using assms by (intro pool_addrs_distinct) (simp add: pool_ok_def)
  then have "card (set (filter (\<lambda>a. a \<notin> set used \<and> a \<notin> set quarantined) (pool_addrs c))) =
      length (filter (\<lambda>a. a \<notin> set used \<and> a \<notin> set quarantined) (pool_addrs c))"
    by (intro distinct_card) simp
  ultimately show ?thesis by (simp add: set_filter)
qed

section \<open>Properties\<close>

text \<open>C29: Two tunnels never listen on the same socket, as long as the bind addresses stand for
  themselves. In every configuration the parser accepts, each public address of the pool has a listening
  address with an unprivileged port, and the listening addresses of two different public addresses clash
  only on equal public ports of two different slots, one of which is bound without an offset to an
  unspecified (\<open>0.0.0.0\<close>, \<open>::\<close>), IPv4-mapped or zoned address: never within one slot, never between
  plain addresses, and never between a wildcard listener (with an offset) and any other.\<close>

theorem pool_listeners_disjoint:
  assumes "parse_pool bind_ips hosts mn mx q domain = Inr c"
    and "(k1, p1) \<in> set (pool_addrs c)" "(k2, p2) \<in> set (pool_addrs c)" "(k1, p1) \<noteq> (k2, p2)"
  shows "\<exists>a b. pool_listen c k1 p1 = Some a \<and> pool_listen c k2 p2 = Some b
    \<and> 1024 \<le> snd a \<and> snd a \<le> 65535
    \<and> (listen_clash a b \<longrightarrow> p1 = p2 \<and> k1 \<noteq> k2 \<and> \<not> (plain_slot c k1 \<and> plain_slot c k2))"
proof -
  note ok = parse_pool_ok [OF assms(1)]
  obtain a b where ab: "pool_listen c k1 p1 = Some a" "pool_listen c k2 p2 = Some b"
      "listen_clash a b \<longrightarrow> p1 = p2 \<and> k1 \<noteq> k2 \<and> \<not> (plain_slot c k1 \<and> plain_slot c k2)"
    using listen_no_clash [OF ok assms(2-4) parse_pool_canonical [OF assms(1)]] by blast
  obtain s where s: "k1 = sl_key s" "s \<in> set (pc_slots c)" "pc_min c \<le> p1" "p1 \<le> pc_max c"
    using assms(2) by (auto simp: set_pool_addrs)
  have "slot_ok (pc_max c) s" "1024 \<le> pc_min c" "pc_max c \<le> 65535" using ok s(2) by (simp_all add: pool_ok_def)
  then have "1024 \<le> snd a \<and> snd a \<le> 65535"
    using ab(1) pool_listen_slot [OF ok s(2), of p1] s by (auto simp: slot_ok_def split: if_splits)
  with ab show ?thesis by blast
qed

definition sample_config :: pool_config where
  "sample_config = \<lparr>pc_slots = [\<lparr>sl_key = [], sl_ip = ''1.2.3.4'', sl_host = ''z.dev'', sl_wildcard = False, sl_offset = 0\<rparr>,
        \<lparr>sl_key = ''1.2.3.5'', sl_ip = ''1.2.3.5'', sl_host = ''1.2.3.5'', sl_wildcard = True, sl_offset = 10000\<rparr>],
      pc_min = 10000, pc_max = 10099, pc_quarantine = 0\<rparr>"

lemma sample_pool: "parse_pool ''1.2.3.4,1.2.3.5+10000'' '''' 0 0 0 ''z.dev'' = Inr sample_config"
  unfolding sample_config_def by code_simp

lemma sample_addrs: "([], 10000) \<in> set (pool_addrs sample_config)" "(''1.2.3.5'', 10000) \<in> set (pool_addrs sample_config)"
  by (simp_all add: pool_addrs_def sample_config_def)

lemma sample_plain: "plain_slot sample_config []" "plain_slot sample_config ''1.2.3.5''"
  unfolding sample_config_def by code_simp+

lemma pool_listeners_disjoint_witness:
  "\<exists>a b. pool_listen sample_config [] 10000 = Some a \<and> pool_listen sample_config ''1.2.3.5'' 10000 = Some b
    \<and> \<not> listen_clash a b"
  using pool_listeners_disjoint [OF sample_pool sample_addrs] sample_plain by auto

text \<open>The exception is real: the parser accepts an unspecified address beside another one, and the two
  slots then listen on clashing sockets for every port of the pool.\<close>

definition any_config :: pool_config where
  "any_config = \<lparr>pc_slots = [\<lparr>sl_key = [], sl_ip = ''0.0.0.0'', sl_host = ''z.dev'', sl_wildcard = False, sl_offset = 0\<rparr>,
        \<lparr>sl_key = ''1.2.3.4'', sl_ip = ''1.2.3.4'', sl_host = ''1.2.3.4'', sl_wildcard = False, sl_offset = 0\<rparr>],
      pc_min = 10000, pc_max = 10099, pc_quarantine = 0\<rparr>"

lemma unspecified_bind_clashes:
  "parse_pool ''0.0.0.0,1.2.3.4'' '''' 0 0 0 ''z.dev'' = Inr any_config"
  "pool_listen any_config [] p = Some (''0.0.0.0'', p)"
  "pool_listen any_config ''1.2.3.4'' p = Some (''1.2.3.4'', p)"
  "listen_clash (''0.0.0.0'', p) (''1.2.3.4'', p)"
proof -
  show "parse_pool ''0.0.0.0,1.2.3.4'' '''' 0 0 0 ''z.dev'' = Inr any_config"
    unfolding any_config_def by code_simp
  show "pool_listen any_config [] p = Some (''0.0.0.0'', p)"
    "pool_listen any_config ''1.2.3.4'' p = Some (''1.2.3.4'', p)"
    by (simp_all add: pool_listen_def find_slot_def any_config_def)
  have "bind_addr ''0.0.0.0'' = None" by code_simp
  then show "listen_clash (''0.0.0.0'', p) (''1.2.3.4'', p)" by (simp add: listen_clash_def)
qed

text \<open>Choosing an address: the result is an address of the pool that is neither used, nor in
  quarantine, nor skipped, and every address before it (slots in order, ports ascending) is taken; no
  address is returned only if all of them are taken.\<close>

lemma pick_first_free:
  "case pick used quarantined skip c of
     Some a \<Rightarrow> a \<notin> set used \<and> a \<notin> set quarantined \<and> a \<notin> set skip
       \<and> (\<exists>before after. pool_addrs c = before @ a # after
            \<and> set before \<subseteq> set used \<union> set quarantined \<union> set skip)
   | None \<Rightarrow> set (pool_addrs c) \<subseteq> set used \<union> set quarantined \<union> set skip"
proof (cases "pick used quarantined skip c")
  case None
  then have "set (pool_addrs c) \<subseteq> set used \<union> set quarantined \<union> set skip"
    by (auto simp: pick_find find_None_iff)
  with None show ?thesis by simp
next
  case (Some a)
  then obtain i where i: "i < length (pool_addrs c)" "a \<notin> set used \<union> set quarantined \<union> set skip" "a = pool_addrs c ! i"
    "\<forall>j<i. pool_addrs c ! j \<in> set used \<union> set quarantined \<union> set skip"
    by (auto simp: pick_find find_Some_iff)
  have sp: "pool_addrs c = take i (pool_addrs c) @ a # drop (Suc i) (pool_addrs c)"
    unfolding i(3) by (rule id_take_nth_drop [OF i(1)])
  have "set (take i (pool_addrs c)) = (\<lambda>j. pool_addrs c ! j) ` {..<i}"
    using i(1) by (simp add: nth_image [symmetric] lessThan_atLeast0)
  then have sub: "set (take i (pool_addrs c)) \<subseteq> set used \<union> set quarantined \<union> set skip"
    using i(4) by (simp only: image_subset_iff) simp
  have ex: "\<exists>before after. pool_addrs c = before @ a # after \<and> set before \<subseteq> set used \<union> set quarantined \<union> set skip"
    by (intro exI conjI, rule sp, rule sub)
  show ?thesis unfolding Some option.case using i(2) by (intro conjI ex) simp_all
qed

text \<open>The occupancy summary is exact: its parts add up to the capacity of the pool, and the number
  of free addresses it reports is the number of addresses that successive allocations still obtain,
  all of them different.\<close>

lemma pool_stats_exact:
  assumes "parse_pool bind_ips hosts mn mx q domain = Inr c"
  shows "let st = pool_stats_of used quarantined c;
             got = fst (pool.grab n (\<lambda>a. a \<in> set used \<or> a \<in> set quarantined) c) in
    ps_capacity st = pool_capacity c \<and> ps_used st + ps_quarantined st + ps_free st = ps_capacity st
    \<and> int (length got) = min (int n) (ps_free st) \<and> distinct got
    \<and> set got \<subseteq> set (pool_addrs c) - set used - set quarantined"
proof -
  note ok = parse_pool_ok [OF assms]
  obtain got c' where g: "pool.grab n (\<lambda>a. a \<in> set used \<or> a \<in> set quarantined) c = (got, c')" by force
  from pool.grab_sound [OF TrueI g] pool.grab_length [OF TrueI g]
  have "length got = min n (card {a \<in> set (pool_addrs c). \<not> (a \<in> set used \<or> a \<in> set quarantined)})"
    and "distinct got" and "set got \<subseteq> {a \<in> set (pool_addrs c). \<not> (a \<in> set used \<or> a \<in> set quarantined)}"
    by blast+
  then show ?thesis
    using stats_counts(1) [of used quarantined c] stats_balance [of used quarantined c] stats_free [OF ok, of used quarantined]
    by (auto simp: g Let_def pool_capacity_def)
qed

end
