(* ===== verification/Route_Traffic.thy ===== *)
theory Route_Traffic
  imports Host_Router
begin

text \<open>
  The rules of a request, in the order of \<open>Handler.ServeHTTP\<close> (\<open>server/ingress/ingress.go\<close>, from the traffic policy of the
  route to the redirect rules) with \<open>mergePolicyHeaders\<close> of \<open>policy.go\<close>: the traffic policy is looked up, the policies of the
  route are evaluated, and the headers they set are merged into the traffic policy, which is the object the router keeps. A
  request therefore changes the store of traffic policies.
\<close>

definition zero_traffic :: traffic_policy where
  "zero_traffic = \<lparr>tp_request = no_headers, tp_response = no_headers, tp_redirects = []\<rparr>"

definition add_headers :: "policy_outcome \<Rightarrow> traffic_policy \<Rightarrow> traffic_policy" where
  "add_headers out t0 =
     (let t1 = (case po_request out of None \<Rightarrow> t0 | Some hr \<Rightarrow> t0\<lparr>tp_request := combine_header_rules (tp_request t0) hr\<rparr>) in
      case po_response out of None \<Rightarrow> t1 | Some hr \<Rightarrow> t1\<lparr>tp_response := combine_header_rules (tp_response t1) hr\<rparr>)"

definition merge_policy_headers :: "policy_outcome \<Rightarrow> tp_ref option \<Rightarrow> traffic_policy list \<Rightarrow> tp_ref option \<times> traffic_policy list" where
  "merge_policy_headers out tp heap =
     (if po_request out = None \<and> po_response out = None then (tp, heap)
      else case tp of
          None \<Rightarrow> (Some (length heap), heap @ [add_headers out zero_traffic])
        | Some a \<Rightarrow> (Some a, heap[a := add_headers out (heap ! a)]))"

text \<open>How the request goes on: ended by a policy, by the challenge, by a redirect rule, or forwarded with the traffic policy
  that holds at that moment.\<close>

datatype served =
    ByPolicy policy_outcome
  | ByChallenge
  | ByRedirect string int
  | Forwarded "traffic_policy option"

definition serve_rules ::
  "reload_env \<Rightarrow> request_facts \<Rightarrow> http_req \<Rightarrow> bool \<Rightarrow> string \<Rightarrow> host_route \<Rightarrow> router \<Rightarrow> served \<times> router" where
  "serve_rules E f q challenge_ok host rt r =
     (let tp = traffic_for_route r host rt (hq_path q);
          out = fst (evaluate_policy_list (re_policy E) f q (policies_for_route r host rt)) in
      if terminal out then (ByPolicy out, r)
      else if po_challenge out \<and> \<not> challenge_ok then (ByChallenge, r)
      else
        (case merge_policy_headers out tp (rt_heap r) of
           (tp', heap) \<Rightarrow>
             let r' = r\<lparr>rt_heap := heap\<rparr>; t = map_option ((!) heap) tp' in
             (case match_redirect t (hq_path q) of
                Some (loc, st) \<Rightarrow> (ByRedirect loc st, r')
              | None \<Rightarrow> (Forwarded t, r'))))"

section \<open>The store of traffic policies\<close>

text \<open>Every reference of the tables points into the store.\<close>

definition heap_ok :: "router \<Rightarrow> bool" where
  "heap_ok r \<longleftrightarrow> (\<forall>a\<in>snd ` set (rt_traffic r). a < length (rt_heap r))
     \<and> (\<forall>rules\<in>snd ` set (rt_paths r). \<forall>p\<in>set rules. \<forall>a. pr_traffic p = Some a \<longrightarrow> a < length (rt_heap r))"

lemma map_of_snd: "map_of m k = Some v \<Longrightarrow> v \<in> snd ` set m"
  using map_of_SomeD [of m k v] by force

lemma path_rule_in: "path_rule_for r host path = Some p \<Longrightarrow> \<exists>rules\<in>snd ` set (rt_paths r). p \<in> set rules"
proof -
  assume "path_rule_for r host path = Some p"
  then have p: "p \<in> set (gm_at [] (rt_paths r) (normalize_host host))"
    unfolding path_rule_for_def find_Some_iff by (metis nth_mem)
  show ?thesis
  proof (cases "map_of (rt_paths r) (normalize_host host)")
    case None
    with p show ?thesis by (simp add: gm_at_def)
  next
    case (Some rules)
    with p show ?thesis using map_of_snd [OF Some] by (auto simp: gm_at_def)
  qed
qed

lemma traffic_ref_ok:
  assumes "heap_ok r" and "traffic_for_route r host rt path = Some a"
  shows "a < length (rt_heap r)"
  using assms path_rule_in [of r host path]
  by (fastforce simp: traffic_for_route_def traffic_for_def heap_ok_def split: option.splits if_splits dest!: map_of_snd)

lemma merge_keeps_length: "length heap \<le> length (snd (merge_policy_headers out tp heap))"
  by (simp add: merge_policy_headers_def split: option.split)

lemma serve_rules_tables [simp]:
  "rt_traffic (snd (serve_rules E f q c host rt r)) = rt_traffic r" "rt_paths (snd (serve_rules E f q c host rt r)) = rt_paths r"
  "rt_policies (snd (serve_rules E f q c host rt r)) = rt_policies r"
  "rt_tunnel_policies (snd (serve_rules E f q c host rt r)) = rt_tunnel_policies r"
  by (simp_all add: serve_rules_def Let_def split: prod.split option.split)

lemma serve_rules_heap: "length (rt_heap r) \<le> length (rt_heap (snd (serve_rules E f q c host rt r)))"
  using merge_keeps_length [of "rt_heap r" _ "traffic_for_route r host rt (hq_path q)"]
  by (auto simp: serve_rules_def Let_def split: prod.split option.split) (metis snd_conv)+

lemma serve_rules_heap_ok: "heap_ok r \<Longrightarrow> heap_ok (snd (serve_rules E f q c host rt r))"
  using serve_rules_heap [of r E f q c host rt] by (fastforce simp: heap_ok_def)

lemma serve_rules_lookups [simp]:
  "traffic_for_route (snd (serve_rules E f q c host rt r)) h x p = traffic_for_route r h x p"
  "policies_for_route (snd (serve_rules E f q c host rt r)) h x = policies_for_route r h x"
  unfolding traffic_for_route_def traffic_for_def path_rule_for_def policies_for_route_def serve_rules_tables by (rule refl)+

text \<open>The outcome of the policies for a request, and the traffic policy it starts from.\<close>

definition outcome_of :: "reload_env \<Rightarrow> request_facts \<Rightarrow> http_req \<Rightarrow> string \<Rightarrow> host_route \<Rightarrow> router \<Rightarrow> policy_outcome" where
  "outcome_of E f q host rt r = fst (evaluate_policy_list (re_policy E) f q (policies_for_route r host rt))"

definition start_traffic :: "router \<Rightarrow> string \<Rightarrow> host_route \<Rightarrow> string \<Rightarrow> traffic_policy option" where
  "start_traffic r host rt path = map_option ((!) (rt_heap r)) (traffic_for_route r host rt path)"

definition effective_traffic :: "policy_outcome \<Rightarrow> traffic_policy option \<Rightarrow> traffic_policy option" where
  "effective_traffic out t =
     (if po_request out = None \<and> po_response out = None then t
      else Some (add_headers out (case t of None \<Rightarrow> zero_traffic | Some x \<Rightarrow> x)))"

definition goes_on :: "policy_outcome \<Rightarrow> bool \<Rightarrow> bool" where
  "goes_on out c \<longleftrightarrow> \<not> terminal out \<and> (po_challenge out \<longrightarrow> c)"

lemma merge_effective:
  assumes "\<forall>a. tp = Some a \<longrightarrow> a < length heap"
  shows "map_option ((!) (snd (merge_policy_headers out tp heap))) (fst (merge_policy_headers out tp heap))
    = effective_traffic out (map_option ((!) heap) tp)"
  using assms by (auto simp: merge_policy_headers_def effective_traffic_def split: option.split)

lemma serve_rules_result:
  assumes "heap_ok r" and "goes_on (outcome_of E f q host rt r) c"
  shows "fst (serve_rules E f q c host rt r) =
      (let t = effective_traffic (outcome_of E f q host rt r) (start_traffic r host rt (hq_path q)) in
       case match_redirect t (hq_path q) of Some (loc, st) \<Rightarrow> ByRedirect loc st | None \<Rightarrow> Forwarded t)"
    and "rt_heap (snd (serve_rules E f q c host rt r)) =
      snd (merge_policy_headers (outcome_of E f q host rt r) (traffic_for_route r host rt (hq_path q)) (rt_heap r))"
proof -
  let ?m = "merge_policy_headers (outcome_of E f q host rt r) (traffic_for_route r host rt (hq_path q)) (rt_heap r)"
  have e: "map_option ((!) (snd ?m)) (fst ?m) = effective_traffic (outcome_of E f q host rt r) (start_traffic r host rt (hq_path q))"
    unfolding start_traffic_def using traffic_ref_ok [OF assms(1)] by (intro merge_effective) blast
  have g: "\<not> terminal (outcome_of E f q host rt r)" "\<not> (po_challenge (outcome_of E f q host rt r) \<and> \<not> c)"
    using assms(2) by (auto simp: goes_on_def)
  obtain tp' heap where m: "?m = (tp', heap)" by fastforce
  show "fst (serve_rules E f q c host rt r) =
      (let t = effective_traffic (outcome_of E f q host rt r) (start_traffic r host rt (hq_path q)) in
       case match_redirect t (hq_path q) of Some (loc, st) \<Rightarrow> ByRedirect loc st | None \<Rightarrow> Forwarded t)"
    unfolding serve_rules_def outcome_of_def [symmetric] Let_def if_not_P [OF g(1)] if_not_P [OF g(2)] e [symmetric]
    by (simp add: m split: option.split)
  show "rt_heap (snd (serve_rules E f q c host rt r)) = snd ?m"
    unfolding serve_rules_def outcome_of_def [symmetric] Let_def if_not_P [OF g(1)] if_not_P [OF g(2)]
    by (simp add: m split: option.split)
qed

lemma outcome_after [simp]: "outcome_of E f q host rt (snd (serve_rules E f' q' c' host' rt' r)) = outcome_of E f q host rt r"
  by (simp add: outcome_of_def)

text \<open>C38: Headers set by a policy rule for one request stay for the next ones. If the route has a traffic policy, a request that
  passes its policies leaves the headers that they set in it, so that the next request of the route starts from them: its rules,
  redirects included, are those of the traffic policy with the headers of both requests, although no rule set the first ones for
  it. Without a traffic policy the merged headers are private to the request, and the next one starts from nothing.\<close>

theorem policy_headers_persist:
  assumes ok: "heap_ok r" and g1: "goes_on (outcome_of E f1 q1 host rt r) c1" and g2: "goes_on (outcome_of E f2 q2 host rt r) c2"
    and same: "traffic_for_route r host rt (hq_path q2) = traffic_for_route r host rt (hq_path q1)"
  defines "r1 \<equiv> snd (serve_rules E f1 q1 c1 host rt r)"
  shows "fst (serve_rules E f2 q2 c2 host rt r1) =
    (let before = start_traffic r host rt (hq_path q1);
         first = (case before of None \<Rightarrow> None | Some t \<Rightarrow> effective_traffic (outcome_of E f1 q1 host rt r) (Some t));
         t = effective_traffic (outcome_of E f2 q2 host rt r) first in
     case match_redirect t (hq_path q2) of Some (loc, st) \<Rightarrow> ByRedirect loc st | None \<Rightarrow> Forwarded t)"
proof -
  have ok1: "heap_ok r1" unfolding r1_def by (rule serve_rules_heap_ok [OF ok])
  have g: "goes_on (outcome_of E f2 q2 host rt r1) c2" using g2 by (simp add: r1_def)
  let ?o = "outcome_of E f1 q1 host rt r" and ?ref = "traffic_for_route r host rt (hq_path q1)"
  have h: "rt_heap r1 = snd (merge_policy_headers ?o ?ref (rt_heap r))"
    unfolding r1_def by (rule serve_rules_result(2) [OF ok g1])
  have "start_traffic r1 host rt (hq_path q2) =
      (case start_traffic r host rt (hq_path q1) of None \<Rightarrow> None | Some t \<Rightarrow> effective_traffic ?o (Some t))"
  proof (cases ?ref)
    case None
    then show ?thesis by (simp add: start_traffic_def same r1_def)
  next
    case (Some a)
    then have "a < length (rt_heap r)" using traffic_ref_ok [OF ok] by blast
    moreover have "start_traffic r1 host rt (hq_path q2) = Some (rt_heap r1 ! a)"
      by (simp add: start_traffic_def r1_def same Some)
    moreover have "start_traffic r host rt (hq_path q1) = Some (rt_heap r ! a)"
      by (simp add: start_traffic_def Some)
    ultimately show ?thesis
      by (simp only: h) (simp add: Some merge_policy_headers_def effective_traffic_def)
  qed
  then show ?thesis
    using serve_rules_result(1) [OF ok1 g] by (simp add: Let_def r1_def)
qed

section \<open>Reload leaves no dangling reference\<close>

lemma file_traffic_heap_ok: "heap_ok r \<Longrightarrow> heap_ok (file_traffic h tp r)"
  unfolding file_traffic_def heap_ok_def
  by (cases tp) (fastforce dest: set_gm_put)+

lemma heap_ok_cong:
  "heap_ok r \<Longrightarrow> rt_traffic r' = rt_traffic r \<Longrightarrow> rt_paths r' = rt_paths r \<Longrightarrow> rt_heap r' = rt_heap r \<Longrightarrow> heap_ok r'"
  by (simp add: heap_ok_def)

lemma reload_route_heap_ok:
  assumes "heap_ok r"
  shows "heap_ok (reload_route E rt r)"
proof -
  let ?r = "file_traffic (route_host rt) (route_traffic E rt) r"
  obtain pool r2 where c: "file_ca E rt ?r = (pool, r2)" by fastforce
  have "rt_traffic (reload_route E rt r) = rt_traffic ?r" "rt_paths (reload_route E rt r) = rt_paths ?r"
    "rt_heap (reload_route E rt r) = rt_heap ?r"
    using file_ca_fields [of E rt ?r] c by (cases pool; simp add: reload_route_def Let_def)+
  then show ?thesis by (rule heap_ok_cong [OF file_traffic_heap_ok [OF assms]])
qed

lemma reload_door_heap_ok: "heap_ok r \<Longrightarrow> heap_ok (reload_door rt r)"
  by (rule heap_ok_cong, assumption) (simp_all add: reload_door_def Let_def)

lemma gm_at_in: "x \<in> set (gm_at [] m h) \<Longrightarrow> \<exists>rules\<in>snd ` set m. x \<in> set rules"
  by (cases "map_of m h") (auto simp: gm_at_def dest!: map_of_snd)

lemma reload_path_heap_ok:
  assumes "heap_ok r"
  shows "heap_ok (reload_path E rt r)"
proof (cases "hr_path_prefix rt = []")
  case True
  then show ?thesis using assms by (simp add: reload_path_def)
next
  case False
  let ?tp = "route_traffic E rt" and ?h = "route_host rt"
  let ?rule = "\<lparr>pr_prefix = hr_path_prefix rt, pr_route = rt, pr_traffic = (if ?tp = None then None else Some (length (rt_heap r)))\<rparr>"
  have heap: "rt_heap (reload_path E rt r) = rt_heap r @ (case ?tp of None \<Rightarrow> [] | Some p \<Rightarrow> [p])"
    and paths: "rt_paths (reload_path E rt r) = gm_put ?h (gm_at [] (rt_paths r) ?h @ [?rule]) (rt_paths r)"
    using False by (simp_all add: reload_path_def Let_def reload_simps)
  have le: "length (rt_heap r) \<le> length (rt_heap (reload_path E rt r))" by (simp add: heap)
  have new: "a < length (rt_heap (reload_path E rt r))" if "pr_traffic ?rule = Some a" for a
    using that by (auto simp: heap split: if_splits option.split)
  have "a < length (rt_heap (reload_path E rt r))"
    if "rules \<in> snd ` set (rt_paths (reload_path E rt r))" "p \<in> set rules" "pr_traffic p = Some a" for rules p a
  proof -
    from that(1) have "rules = gm_at [] (rt_paths r) ?h @ [?rule] \<or> rules \<in> snd ` set (rt_paths r)"
      unfolding paths by (auto dest!: set_gm_put)
    with that(2) consider "p = ?rule" | "\<exists>rules\<in>snd ` set (rt_paths r). p \<in> set rules"
      using gm_at_in [of p "rt_paths r" ?h] by auto
    then show ?thesis
    proof cases
      case 1
      with that(3) new show ?thesis by blast
    next
      case 2
      with assms that(3) have "a < length (rt_heap r)" by (auto simp: heap_ok_def)
      with le show ?thesis by simp
    qed
  qed
  moreover have "\<forall>a\<in>snd ` set (rt_traffic r). a < length (rt_heap (reload_path E rt r))"
    using assms le unfolding heap_ok_def by (meson order_less_le_trans)
  ultimately show ?thesis by (simp add: heap_ok_def reload_simps)
qed

lemma fold_invariant: "P m \<Longrightarrow> (\<And>x m. P m \<Longrightarrow> P (f x m)) \<Longrightarrow> P (fold f xs m)"
  by (induction xs arbitrary: m) auto

lemma sort_paths_heap_ok: "heap_ok r \<Longrightarrow> heap_ok (r\<lparr>rt_paths := sort_paths (rt_paths r)\<rparr>)"
  by (fastforce simp: heap_ok_def sort_paths_def)

lemma new_router_heap_ok: "heap_ok (new_router\<lparr>rt_heap := heap\<rparr>)"
  by (simp add: heap_ok_def new_router_def)

lemma reload_heap_ok:
  assumes "reload E rows r0 = Some r"
  shows "heap_ok r"
proof -
  obtain routes where routes: "rw_routes rows = Some routes" using assms by (auto simp: reload_def split: option.splits)
  let ?r1 = "fold (reload_route E) routes (new_router\<lparr>rt_heap := rt_heap r0\<rparr>)"
  let ?r3 = "fold (reload_path E) (opt_rows (rw_paths rows)) (fold reload_door (opt_rows (rw_doors rows)) ?r1)"
  have "heap_ok ?r1"
    by (rule fold_invariant) (simp_all add: new_router_heap_ok reload_route_heap_ok)
  then have "heap_ok (fold reload_door (opt_rows (rw_doors rows)) ?r1)" by (rule fold_invariant) (rule reload_door_heap_ok)
  then have "heap_ok ?r3" by (rule fold_invariant) (rule reload_path_heap_ok)
  then have s: "heap_ok (?r3\<lparr>rt_paths := sort_paths (rt_paths ?r3)\<rparr>)" by (rule sort_paths_heap_ok)
  have e: "r = (install_policies E (rw_policies rows) r0 (?r3\<lparr>rt_paths := sort_paths (rt_paths ?r3)\<rparr>))
      \<lparr>rt_lb := (case rw_lbs rows of None \<Rightarrow> rt_lb r0 | Some cfgs \<Rightarrow> build_lb_entries routes cfgs)\<rparr>"
    using assms unfolding reload_def routes option.case Let_def by (rule option.inject [THEN iffD1, symmetric])
  show ?thesis
    unfolding e by (rule heap_ok_cong [OF s]) (simp_all add: install_policies_fields)
qed

lemma policy_headers_persist_witness:
  "let rows = sample_rows\<lparr>rw_paths := None, rw_policies := Some [sample_policy\<lparr>pt_host := ''api.example.com'', pt_rules :=
          [(sample_match\<lparr>rm_path_prefix := ''admin''\<rparr>,
            sample_action\<lparr>ra_type := ''set_header'', ra_request := \<lparr>hd_set = [(''X-Role'', ''admin'')], hd_remove = []\<rparr>\<rparr>)]\<rparr>]\<rparr>;
       r = the (reload sample_env rows new_router); host = ''api.example.com''; rt = the (lookup_path r host ''/'');
       r1 = snd (serve_rules sample_env sample_facts (sample_req\<lparr>hq_path := ''/admin''\<rparr>) True host rt r) in
   fst (serve_rules sample_env sample_facts (sample_req\<lparr>hq_path := ''/''\<rparr>) True host rt r) = Forwarded (Some sample_traffic)
   \<and> fst (serve_rules sample_env sample_facts (sample_req\<lparr>hq_path := ''/''\<rparr>) True host rt r1)
     = Forwarded (Some (sample_traffic\<lparr>tp_request := \<lparr>hd_set = [(''X-Via'', ''zorven''), (''X-Role'', ''admin'')], hd_remove = []\<rparr>\<rparr>))"
proof -
  let ?rows = "sample_rows\<lparr>rw_paths := None, rw_policies := Some [sample_policy\<lparr>pt_host := ''api.example.com'', pt_rules :=
          [(sample_match\<lparr>rm_path_prefix := ''admin''\<rparr>,
            sample_action\<lparr>ra_type := ''set_header'', ra_request := \<lparr>hd_set = [(''X-Role'', ''admin'')], hd_remove = []\<rparr>\<rparr>)]\<rparr>]\<rparr>"
  let ?r = "the (reload sample_env ?rows new_router)"
  let ?rt = "the (lookup_path ?r ''api.example.com'' ''/'')"
  let ?q1 = "sample_req\<lparr>hq_path := ''/admin''\<rparr>" and ?q2 = "sample_req\<lparr>hq_path := ''/''\<rparr>"
  have "reload sample_env ?rows new_router = Some ?r"
    by (simp add: reload_def sample_rows_def Let_def)
  then have ok: "heap_ok ?r" by (rule reload_heap_ok)
  have g1: "goes_on (outcome_of sample_env sample_facts ?q1 ''api.example.com'' ?rt ?r) True" by code_simp
  have g2: "goes_on (outcome_of sample_env sample_facts ?q2 ''api.example.com'' ?rt ?r) True" by code_simp
  have same: "traffic_for_route ?r ''api.example.com'' ?rt (hq_path ?q2) = traffic_for_route ?r ''api.example.com'' ?rt (hq_path ?q1)"
    by code_simp
  have a: "fst (serve_rules sample_env sample_facts ?q2 True ''api.example.com'' ?rt ?r) = Forwarded (Some sample_traffic)"
    by code_simp
  show ?thesis
    unfolding Let_def using a policy_headers_persist [OF ok g1 g2 same] by simp code_simp
qed

end
