(* ===== verification/Screen_Codec.thy ===== *)
theory Screen_Codec
  imports Frame_Codec
begin

text \<open>
  The remote-screen frames (\<open>shared/protocol/screen2.go\<close>): rectangles with their validation, the
  message encoder and the strict decoder, and \<open>PackScreen2Layer\<close>, which splits the rectangles of
  one frame into messages near a target size. Error sentinels are the constructors of
  \<open>screen_error\<close>; the text Go wraps around them is dropped.
\<close>

definition Screen2Version :: byte where "Screen2Version = 1"
definition Screen2HeaderSize :: nat where "Screen2HeaderSize = HeaderSize + 7"
definition Screen2RectHeaderSize :: nat where "Screen2RectHeaderSize = 13"
definition Screen2TargetMessage :: nat where "Screen2TargetMessage = 256 * 1024"
definition Screen2MaxMessage :: nat where "Screen2MaxMessage = 2 * 1048576"
definition Screen2MaxRectPayload :: nat where "Screen2MaxRectPayload = 1048576"
definition Screen2MaxRects :: nat where "Screen2MaxRects = 4096"
definition Screen2EncJPEG :: byte where "Screen2EncJPEG = 1"
definition Screen2EncPNG :: byte where "Screen2EncPNG = 2"
definition Screen2EncSolid :: byte where "Screen2EncSolid = 3"

lemmas screen_consts =
  Screen2Version_def Screen2HeaderSize_def Screen2RectHeaderSize_def Screen2TargetMessage_def
  Screen2MaxMessage_def Screen2MaxRectPayload_def Screen2MaxRects_def HeaderSize_def

datatype screen_error =
  ErrScreen2Short | ErrScreen2Version | ErrScreen2Bounds | ErrScreen2Size | ErrScreen2Enc
| ErrScreen2Frame byte

record rect =
  r_x :: u16
  r_y :: u16
  r_w :: u16
  r_h :: u16
  r_enc :: byte
  r_payload :: bytes

record screen_msg =
  sm_stream :: u64
  sm_seq :: u32
  sm_eof :: bool
  sm_key :: bool
  sm_first :: bool
  sm_layer :: byte
  sm_w :: u16
  sm_h :: u16
  sm_rects :: "rect list"

definition wire_size :: "rect \<Rightarrow> nat" where
  "wire_size r = Screen2RectHeaderSize + length (r_payload r)"

definition validate_rect :: "rect \<Rightarrow> u16 \<Rightarrow> u16 \<Rightarrow> screen_error option" where
  "validate_rect r sw sh =
     (if r_w r = 0 \<or> r_h r = 0 then Some ErrScreen2Bounds
      else if unat (r_x r) + unat (r_w r) > unat sw \<or> unat (r_y r) + unat (r_h r) > unat sh
        then Some ErrScreen2Bounds
      else if length (r_payload r) > Screen2MaxRectPayload then Some ErrScreen2Size
      else if r_enc r = Screen2EncJPEG \<or> r_enc r = Screen2EncPNG
        then (if length (r_payload r) = 0 then Some ErrScreen2Enc else None)
      else if r_enc r = Screen2EncSolid
        then (if length (r_payload r) \<noteq> 4 then Some ErrScreen2Enc else None)
      else Some ErrScreen2Enc)"

text \<open>The validation loop of \<open>Encode\<close>: the first rectangle in error decides.\<close>

fun validate_rects :: "rect list \<Rightarrow> u16 \<Rightarrow> u16 \<Rightarrow> screen_error option" where
  "validate_rects [] sw sh = None"
| "validate_rects (r # rs) sw sh =
     (case validate_rect r sw sh of Some e \<Rightarrow> Some e | None \<Rightarrow> validate_rects rs sw sh)"

definition put_rect :: "rect \<Rightarrow> bytes" where
  "put_rect r = be_put 2 (r_x r) @ be_put 2 (r_y r) @ be_put 2 (r_w r) @ be_put 2 (r_h r)
     @ r_enc r # be_put 4 (of_nat (length (r_payload r)) :: u32) @ r_payload r"

definition screen_flags :: "bool \<Rightarrow> bool \<Rightarrow> bool \<Rightarrow> byte \<Rightarrow> byte" where
  "screen_flags eof key first layer =
     (((if eof then FlagEOF else 0) OR (if key then FlagKeyframe else 0))
       OR (if first then FlagFirst else 0))
     OR (push_bit FlagLayerShift layer AND FlagLayerMask)"

text \<open>The buffer \<open>Encode\<close> fills once the message is accepted.\<close>

definition screen_bytes :: "screen_msg \<Rightarrow> bytes" where
  "screen_bytes m =
     FrameScreen # be_put 8 (sm_stream m) @ be_put 4 (sm_seq m)
     @ screen_flags (sm_eof m) (sm_key m) (sm_first m) (sm_layer m)
     # Screen2Version # be_put 2 (sm_w m) @ be_put 2 (sm_h m)
     @ be_put 2 (of_nat (length (sm_rects m)) :: u16)
     @ concat (map put_rect (sm_rects m))"

definition encode_screen :: "screen_msg \<Rightarrow> screen_error + bytes" where
  "encode_screen m =
     (if sm_w m = 0 \<or> sm_h m = 0 then Inl ErrScreen2Bounds
      else if length (sm_rects m) > Screen2MaxRects then Inl ErrScreen2Size
      else case validate_rects (sm_rects m) (sm_w m) (sm_h m) of
        Some e \<Rightarrow> Inl e
      | None \<Rightarrow>
          (let size = Screen2HeaderSize + sum_list (map wire_size (sm_rects m)) in
           if size > Screen2MaxMessage then Inl ErrScreen2Size
           else Inr (screen_bytes m)))"

text \<open>The rectangle loop of \<open>DecodeScreen2\<close>; \<open>d\<close> is \<open>data[o:]\<close>.\<close>

fun get_rects :: "nat \<Rightarrow> u16 \<Rightarrow> u16 \<Rightarrow> bytes \<Rightarrow> screen_error + rect list" where
  "get_rects 0 sw sh d = (if d = [] then Inr [] else Inl ErrScreen2Size)"
| "get_rects (Suc n) sw sh d =
     (if length d < Screen2RectHeaderSize then Inl ErrScreen2Short
      else
        let l = unat (be_get (slice 9 13 d) :: u32);
            d' = drop Screen2RectHeaderSize d in
        if l > Screen2MaxRectPayload then Inl ErrScreen2Size
        else if l > length d' then Inl ErrScreen2Short
        else
          let r = \<lparr>r_x = be_get (slice 0 2 d), r_y = be_get (slice 2 4 d),
                   r_w = be_get (slice 4 6 d), r_h = be_get (slice 6 8 d),
                   r_enc = d ! 8, r_payload = take l d'\<rparr> in
          case validate_rect r sw sh of
            Some e \<Rightarrow> Inl e
          | None \<Rightarrow>
              (case get_rects n sw sh (drop l d') of
                 Inl e \<Rightarrow> Inl e
               | Inr rs \<Rightarrow> Inr (r # rs)))"

definition decode_screen :: "bytes \<Rightarrow> screen_error + screen_msg" where
  "decode_screen data =
     (if length data < Screen2HeaderSize then Inl ErrScreen2Short
      else if length data > Screen2MaxMessage then Inl ErrScreen2Size
      else if data ! 0 \<noteq> FrameScreen then Inl (ErrScreen2Frame (data ! 0))
      else if data ! 14 \<noteq> Screen2Version then Inl ErrScreen2Version
      else
        let fl = data ! 13; w = be_get (slice 15 17 data); h = be_get (slice 17 19 data);
            n = unat (be_get (slice 19 21 data) :: u16) in
        if w = 0 \<or> h = 0 then Inl ErrScreen2Bounds
        else if n > Screen2MaxRects then Inl ErrScreen2Size
        else if n * Screen2RectHeaderSize > length data - Screen2HeaderSize then Inl ErrScreen2Short
        else case get_rects n w h (drop Screen2HeaderSize data) of
            Inl e \<Rightarrow> Inl e
          | Inr rs \<Rightarrow>
              Inr \<lparr>sm_stream = be_get (slice 1 9 data), sm_seq = be_get (slice 9 13 data),
                   sm_eof = (fl AND FlagEOF \<noteq> 0), sm_key = (fl AND FlagKeyframe \<noteq> 0),
                   sm_first = (fl AND FlagFirst \<noteq> 0),
                   sm_layer = drop_bit FlagLayerShift (fl AND FlagLayerMask),
                   sm_w = w, sm_h = h, sm_rects = rs\<rparr>)"

section \<open>Rectangles\<close>

lemma put_rect_length: "length (put_rect r) = wire_size r"
  by (simp add: put_rect_def wire_size_def Screen2RectHeaderSize_def)

lemma put_rects_length: "length (concat (map put_rect rs)) = sum_list (map wire_size rs)"
  by (induction rs) (simp_all add: put_rect_length)

lemma validate_rects_None:
  "validate_rects rs sw sh = None \<longleftrightarrow> (\<forall>r\<in>set rs. validate_rect r sw sh = None)"
  by (induction rs) (auto split: option.splits)

lemma validate_payload: "validate_rect r sw sh = None \<Longrightarrow> length (r_payload r) \<le> Screen2MaxRectPayload"
  by (auto simp: validate_rect_def split: if_splits)

lemma unat_payload_length:
  "length p \<le> Screen2MaxRectPayload \<Longrightarrow> unat (of_nat (length p) :: u32) = length p"
  by (simp add: unat_of_nat take_bit_eq_mod Screen2MaxRectPayload_def)

lemma put_rect_fields:
  "slice 0 2 (put_rect r @ d) = be_put 2 (r_x r)"
  "slice 2 4 (put_rect r @ d) = be_put 2 (r_y r)"
  "slice 4 6 (put_rect r @ d) = be_put 2 (r_w r)"
  "slice 6 8 (put_rect r @ d) = be_put 2 (r_h r)"
  "(put_rect r @ d) ! 8 = r_enc r"
  "slice 9 13 (put_rect r @ d) = be_put 4 (of_nat (length (r_payload r)) :: u32)"
  "drop 13 (put_rect r @ d) = r_payload r @ d"
  by (simp_all add: put_rect_def slice_def nth_append)

lemma get_rects_put:
  assumes "validate_rect r sw sh = None"
  shows "get_rects (Suc n) sw sh (put_rect r @ d) =
    (case get_rects n sw sh d of Inl e \<Rightarrow> Inl e | Inr rs \<Rightarrow> Inr (r # rs))"
proof -
  have len: "\<not> length (put_rect r @ d) < 13"
    by (simp add: put_rect_length wire_size_def Screen2RectHeaderSize_def)
  have pay: "unat (of_nat (length (r_payload r)) :: u32) = length (r_payload r)"
    and le: "\<not> Screen2MaxRectPayload < length (r_payload r)"
    using validate_payload [OF assms] by (simp_all add: unat_payload_length)
  have d: "drop (length (r_payload r)) (r_payload r @ d) = d"
    and p: "take (length (r_payload r)) (r_payload r @ d) = r_payload r"
    and fits: "\<not> length (r_payload r @ d) < length (r_payload r)" by simp_all
  have eta: "\<lparr>r_x = r_x r, r_y = r_y r, r_w = r_w r, r_h = r_h r, r_enc = r_enc r,
    r_payload = r_payload r\<rparr> = r" by simp
  show ?thesis
    using assms len le
    by (simp add: put_rect_fields pay d p fits eta Screen2RectHeaderSize_def Let_def
        del: drop_append take_append length_append)
qed

lemma get_put_rects:
  "\<forall>r\<in>set rs. validate_rect r sw sh = None \<Longrightarrow>
   get_rects (length rs) sw sh (concat (map put_rect rs)) = Inr rs"
  by (induction rs) (simp_all add: get_rects_put del: get_rects.simps(2))

lemma drop_slice: "i \<le> j \<Longrightarrow> drop i xs = slice i j xs @ drop j xs"
  by (metis append_take_drop_id drop_drop le_add_diff_inverse2 slice_def)

lemma be_put_get_n:
  assumes "length bs = n" and "8 * n \<le> LENGTH('a::len)"
  shows "be_put n (be_get bs :: 'a word) = bs"
  using be_put_get [of bs, where 'a = 'a] assms by simp

lemma rect_split:
  assumes "13 \<le> length d"
  shows "d = be_put 2 (be_get (slice 0 2 d) :: u16) @ be_put 2 (be_get (slice 2 4 d) :: u16)
    @ be_put 2 (be_get (slice 4 6 d) :: u16) @ be_put 2 (be_get (slice 6 8 d) :: u16)
    @ d ! 8 # be_put 4 (be_get (slice 9 13 d) :: u32) @ drop 13 d"
proof -
  have b: "be_put 2 (be_get (slice 0 2 d) :: u16) = slice 0 2 d"
    "be_put 2 (be_get (slice 2 4 d) :: u16) = slice 2 4 d"
    "be_put 2 (be_get (slice 4 6 d) :: u16) = slice 4 6 d"
    "be_put 2 (be_get (slice 6 8 d) :: u16) = slice 6 8 d"
    "be_put 4 (be_get (slice 9 13 d) :: u32) = slice 9 13 d"
    using assms by (simp_all add: be_put_get_n slice_length)
  have "d = slice 0 2 d @ slice 2 4 d @ slice 4 6 d @ slice 6 8 d @ drop 8 d"
    using drop_slice [of 0 2 d] drop_slice [of 2 4 d] drop_slice [of 4 6 d] drop_slice [of 6 8 d]
    by simp
  also have "drop 8 d = d ! 8 # slice 9 13 d @ drop 13 d"
    using assms drop_slice [of 9 13 d] Cons_nth_drop_Suc [of 8 d] by simp
  finally show ?thesis unfolding b .
qed

lemma get_rects_sound:
  "get_rects n sw sh d = Inr rs \<Longrightarrow>
   length rs = n \<and> d = concat (map put_rect rs) \<and> (\<forall>r\<in>set rs. validate_rect r sw sh = None)"
proof (induction n arbitrary: d rs)
  case 0
  then show ?case by (simp split: if_splits)
next
  case (Suc n)
  let ?l = "be_get (slice 9 13 d) :: u32" and ?d = "drop 13 d"
  let ?r = "\<lparr>r_x = be_get (slice 0 2 d), r_y = be_get (slice 2 4 d), r_w = be_get (slice 4 6 d),
             r_h = be_get (slice 6 8 d), r_enc = d ! 8, r_payload = take (unat ?l) ?d\<rparr>"
  from Suc.prems obtain rs' where len: "13 \<le> length d" and l: "unat ?l \<le> length ?d"
    and ok: "validate_rect ?r sw sh = None"
    and rs': "get_rects n sw sh (drop (unat ?l) ?d) = Inr rs'" and rs: "rs = ?r # rs'"
    by (auto simp: Let_def Screen2RectHeaderSize_def split: if_splits option.splits sum.splits)
  have "put_rect ?r @ drop (unat ?l) ?d = d"
    using rect_split [OF len] l by (simp add: put_rect_def del: drop_drop)
  with Suc.IH [OF rs'] rs ok show ?case by simp
qed

section \<open>Messages\<close>

text \<open>The flag byte carries the three flags and two bits of the layer.\<close>

lemma flag_word_bits:
  "bit FlagEOF n \<longleftrightarrow> n = 0" "bit FlagKeyframe n \<longleftrightarrow> n = 1" "bit FlagFirst n \<longleftrightarrow> n = 2"
  "bit FlagLayerMask n \<longleftrightarrow> n = 3 \<or> n = 4"
proof -
  have layer: "FlagLayerMask = push_bit 3 (mask 2)"
    by (simp add: FlagLayerMask_def mask_eq_exp_minus_1)
  show "bit FlagLayerMask n \<longleftrightarrow> n = 3 \<or> n = 4"
    unfolding layer by (auto simp: bit_simps)
  have eof: "FlagEOF = push_bit 0 1" by (simp add: FlagEOF_def)
  show "bit FlagEOF n \<longleftrightarrow> n = 0" unfolding eof by (auto simp: bit_simps)
  have key: "FlagKeyframe = push_bit 1 1" by (simp add: FlagKeyframe_def)
  show "bit FlagKeyframe n \<longleftrightarrow> n = 1" unfolding key by (auto simp: bit_simps)
  have first: "FlagFirst = push_bit 2 1" by (simp add: FlagFirst_def)
  show "bit FlagFirst n \<longleftrightarrow> n = 2" 
    unfolding first by (subst bit_push_bit_iff) (auto simp: bit_1_iff)
qed

lemma screen_flags_bit:
  "bit (screen_flags eof key first layer) n \<longleftrightarrow>
    n = 0 \<and> eof \<or> n = 1 \<and> key \<or> n = 2 \<and> first \<or> (n = 3 \<or> n = 4) \<and> bit layer (n - 3)"
  by (auto simp: screen_flags_def bit_simps flag_word_bits FlagLayerShift_def)

lemma and_single_bit:
  assumes "\<And>n. bit f n \<longleftrightarrow> n = k"
  shows "w AND f \<noteq> 0 \<longleftrightarrow> bit (w :: byte) k"
proof
  assume "w AND f \<noteq> 0"
  then obtain n where "bit (w AND f) n" by (auto simp: bit_eq_iff)
  then show "bit w k" by (auto simp: bit_and_iff assms)
next
  assume "bit w k"
  then have "bit (w AND f) k" by (simp add: bit_and_iff assms)
  then show "w AND f \<noteq> 0" by (metis bit_0_eq bot_apply bot_bool_def)
qed

lemma and_flag_nonzero:
  "w AND FlagEOF \<noteq> 0 \<longleftrightarrow> bit w 0" "w AND FlagKeyframe \<noteq> 0 \<longleftrightarrow> bit w 1" "w AND FlagFirst \<noteq> 0 \<longleftrightarrow> bit w 2"
  by (rule and_single_bit, rule flag_word_bits)+

lemma low_masks: "(3 :: byte) = mask 2" "(31 :: byte) = mask 5"
  by (simp_all add: mask_eq_exp_minus_1)

lemma layer_of_flags:
  "drop_bit FlagLayerShift (screen_flags eof key first layer AND FlagLayerMask) = layer AND 3"
  unfolding low_masks
  by (rule bit_word_eqI) (auto simp: bit_simps screen_flags_bit flag_word_bits FlagLayerShift_def)

lemma flags_of_fields:
  "screen_flags (fl AND FlagEOF \<noteq> 0) (fl AND FlagKeyframe \<noteq> 0) (fl AND FlagFirst \<noteq> 0)
     (drop_bit FlagLayerShift (fl AND FlagLayerMask)) = fl AND 31"
  unfolding low_masks and_flag_nonzero
  by (rule bit_word_eqI)
    (auto simp: bit_simps screen_flags_bit flag_word_bits FlagLayerShift_def less_Suc_eq numeral_eq_Suc)

definition screen_ok :: "screen_msg \<Rightarrow> bool" where
  "screen_ok m \<longleftrightarrow> sm_w m \<noteq> 0 \<and> sm_h m \<noteq> 0 \<and> length (sm_rects m) \<le> Screen2MaxRects \<and>
     (\<forall>r\<in>set (sm_rects m). validate_rect r (sm_w m) (sm_h m) = None) \<and>
     Screen2HeaderSize + sum_list (map wire_size (sm_rects m)) \<le> Screen2MaxMessage"

lemma encode_screen_Inr: "encode_screen m = Inr b \<longleftrightarrow> screen_ok m \<and> b = screen_bytes m"
  by (auto simp: encode_screen_def screen_ok_def Let_def validate_rects_None [symmetric]
      split: option.splits)

lemma screen_bytes_header:
  "screen_bytes m = header FrameScreen (sm_stream m) (sm_seq m)
      (screen_flags (sm_eof m) (sm_key m) (sm_first m) (sm_layer m))
    @ Screen2Version # be_put 2 (sm_w m) @ be_put 2 (sm_h m)
    @ be_put 2 (of_nat (length (sm_rects m)) :: u16) @ concat (map put_rect (sm_rects m))"
  by (simp add: screen_bytes_def header_def)

lemma screen_bytes_length:
  "length (screen_bytes m) = Screen2HeaderSize + sum_list (map wire_size (sm_rects m))"
  by (simp add: screen_bytes_header header_length put_rects_length screen_consts)

lemma header7_fields:
  assumes "d = header ft rid sq fl @ v # be_put 2 (w :: u16) @ be_put 2 (h :: u16) @ be_put 2 (k :: u16) @ r"
  shows "d ! 0 = ft" "slice 1 9 d = be_put 8 rid" "slice 9 13 d = be_put 4 sq" "d ! 13 = fl" "d ! 14 = v"
    "slice 15 17 d = be_put 2 w" "slice 17 19 d = be_put 2 h" "slice 19 21 d = be_put 2 k"
    "drop 21 d = r"
  unfolding assms header_def by (simp_all add: slice_def nth_append)

lemma wire_size_ge: "length rs * Screen2RectHeaderSize \<le> sum_list (map wire_size rs)"
  by (induction rs) (simp_all add: wire_size_def)

lemma unat_rects_length:
  "length rs \<le> Screen2MaxRects \<Longrightarrow> unat (of_nat (length rs) :: u16) = length rs"
  by (simp add: unat_of_nat take_bit_eq_mod Screen2MaxRects_def)

lemma decode_screen_bytes:
  assumes "screen_ok m"
  shows "decode_screen (screen_bytes m) = Inr (m\<lparr>sm_layer := sm_layer m AND 3\<rparr>)"
proof -
  let ?b = "screen_bytes m" and ?rs = "sm_rects m"
  let ?fl = "screen_flags (sm_eof m) (sm_key m) (sm_first m) (sm_layer m)"
  have f: "?b ! 0 = FrameScreen" "slice 1 9 ?b = be_put 8 (sm_stream m)"
    "slice 9 13 ?b = be_put 4 (sm_seq m)" "?b ! 13 = ?fl" "?b ! 14 = Screen2Version"
    "slice 15 17 ?b = be_put 2 (sm_w m)" "slice 17 19 ?b = be_put 2 (sm_h m)"
    "slice 19 21 ?b = be_put 2 (of_nat (length ?rs) :: u16)"
    "drop 21 ?b = concat (map put_rect ?rs)"
    by (rule header7_fields [OF screen_bytes_header])+
  have len: "\<not> length ?b < Screen2HeaderSize" "\<not> Screen2MaxMessage < length ?b"
    "\<not> length ?b - Screen2HeaderSize < length ?rs * Screen2RectHeaderSize"
    using assms wire_size_ge [of ?rs] by (simp_all add: screen_ok_def screen_bytes_length)
  have n: "unat (of_nat (length ?rs) :: u16) = length ?rs" "\<not> Screen2MaxRects < length ?rs"
    using assms by (simp_all add: screen_ok_def unat_rects_length)
  have rects: "get_rects (length ?rs) (sm_w m) (sm_h m) (drop Screen2HeaderSize ?b) = Inr ?rs"
    using assms f(9) get_put_rects [of ?rs "sm_w m" "sm_h m"]
    by (simp add: screen_ok_def screen_consts)
  have bits: "?fl AND FlagEOF \<noteq> 0 \<longleftrightarrow> sm_eof m" "?fl AND FlagKeyframe \<noteq> 0 \<longleftrightarrow> sm_key m"
    "?fl AND FlagFirst \<noteq> 0 \<longleftrightarrow> sm_first m"
    by (simp_all only: and_flag_nonzero screen_flags_bit) simp_all
  have wh: "sm_w m \<noteq> 0" "sm_h m \<noteq> 0" using assms by (simp_all add: screen_ok_def)
  show ?thesis
    unfolding decode_screen_def Let_def f(1-8) layer_of_flags bits
    using len n wh rects by simp
qed

lemma header7_split:
  assumes "21 \<le> length data"
  shows "data = header (data ! 0) (be_get (slice 1 9 data)) (be_get (slice 9 13 data)) (data ! 13)
    @ data ! 14 # be_put 2 (be_get (slice 15 17 data) :: u16) @ be_put 2 (be_get (slice 17 19 data) :: u16)
    @ be_put 2 (be_get (slice 19 21 data) :: u16) @ drop 21 data"
proof -
  have b: "be_put 2 (be_get (slice 15 17 data) :: u16) = slice 15 17 data"
    "be_put 2 (be_get (slice 17 19 data) :: u16) = slice 17 19 data"
    "be_put 2 (be_get (slice 19 21 data) :: u16) = slice 19 21 data"
    using assms by (simp_all add: be_put_get_n slice_length)
  have "drop 14 data = data ! 14 # drop 15 data"
    using assms Cons_nth_drop_Suc [of 14 data] by simp
  also have "drop 15 data = slice 15 17 data @ slice 17 19 data @ slice 19 21 data @ drop 21 data"
    using drop_slice [of 15 17 data] drop_slice [of 17 19 data] drop_slice [of 19 21 data] by simp
  finally show ?thesis
    unfolding b using header_split [of data] assms by simp
qed

lemma header7_update:
  "(header ft rid sq fl @ r)[13 := v] = header ft rid sq v @ r"
  by (simp add: header_def list_update_append)

lemma decode_screen_InrE:
  assumes "decode_screen data = Inr m"
  obtains "21 \<le> length data" "length data \<le> Screen2MaxMessage" "data ! 0 = FrameScreen"
    "data ! 14 = Screen2Version" "sm_w m \<noteq> 0" "sm_h m \<noteq> 0"
    "sm_stream m = be_get (slice 1 9 data)" "sm_seq m = be_get (slice 9 13 data)"
    "sm_w m = be_get (slice 15 17 data)" "sm_h m = be_get (slice 17 19 data)"
    "unat (be_get (slice 19 21 data) :: u16) \<le> Screen2MaxRects"
    "get_rects (unat (be_get (slice 19 21 data) :: u16)) (sm_w m) (sm_h m) (drop 21 data) = Inr (sm_rects m)"
    "screen_flags (sm_eof m) (sm_key m) (sm_first m) (sm_layer m) = data ! 13 AND 31"
  using assms
  by (auto simp: decode_screen_def Let_def screen_consts flags_of_fields split: if_splits sum.splits
      simp del: drop_bit_and)

lemma decode_screen_sound:
  assumes dec: "decode_screen data = Inr m"
  shows "screen_ok m \<and> screen_bytes m = data[13 := data ! 13 AND 31]"
  using dec
proof (rule decode_screen_InrE)
  assume h: "21 \<le> length data" "length data \<le> Screen2MaxMessage" "data ! 0 = FrameScreen"
    "data ! 14 = Screen2Version" "sm_w m \<noteq> 0" "sm_h m \<noteq> 0"
    and f: "sm_stream m = be_get (slice 1 9 data)" "sm_seq m = be_get (slice 9 13 data)"
    "sm_w m = be_get (slice 15 17 data)" "sm_h m = be_get (slice 17 19 data)"
    and n: "unat (be_get (slice 19 21 data) :: u16) \<le> Screen2MaxRects"
    and g: "get_rects (unat (be_get (slice 19 21 data) :: u16)) (sm_w m) (sm_h m) (drop 21 data) = Inr (sm_rects m)"
    and fl: "screen_flags (sm_eof m) (sm_key m) (sm_first m) (sm_layer m) = data ! 13 AND 31"
  from get_rects_sound [OF g] have len: "length (sm_rects m) = unat (be_get (slice 19 21 data) :: u16)"
    and body: "drop 21 data = concat (map put_rect (sm_rects m))"
    and ok: "\<forall>r\<in>set (sm_rects m). validate_rect r (sm_w m) (sm_h m) = None" by auto
  have size: "Screen2HeaderSize + sum_list (map wire_size (sm_rects m)) = length data"
    using h(1) arg_cong [OF body, of length] by (simp add: put_rects_length screen_consts)
  have "data[13 := data ! 13 AND 31] = screen_bytes m"
    by (subst header7_split [OF h(1)], subst header7_update)
      (simp add: screen_bytes_header fl h(3,4) f body len)
  then show ?thesis
    using h n ok size len by (simp add: screen_ok_def)
qed

text \<open>C31: encoding a screen message and decoding it gives the message back, the layer reduced to the
  two bits the flag byte carries; the decoder accepts no byte string the encoder does not produce
  (up to the three unused flag bits), and everything it accepts passes the encoder's checks: no
  rectangle leaves the canvas, the rectangle count and payload sizes are within the limits and no
  byte is left over.\<close>

theorem screen_codec_strict:
  "(\<forall>b. encode_screen m = Inr b \<longrightarrow> decode_screen b = Inr (m\<lparr>sm_layer := sm_layer m AND 3\<rparr>)) \<and>
   (\<forall>b. decode_screen b = Inr m \<longrightarrow> encode_screen m = Inr (b[13 := b ! 13 AND 31]))"
  by (auto simp: encode_screen_Inr decode_screen_bytes dest: decode_screen_sound)

definition sample_rect :: rect where
  "sample_rect = \<lparr>r_x = 2, r_y = 3, r_w = 4, r_h = 5, r_enc = 3, r_payload = [9, 8, 7, 255]\<rparr>"

definition sample_msg :: screen_msg where
  "sample_msg = \<lparr>sm_stream = 77, sm_seq = 4, sm_eof = True, sm_key = False, sm_first = True,
     sm_layer = 2, sm_w = 640, sm_h = 480, sm_rects = [sample_rect]\<rparr>"

theorem screen_codec_strict_witness:
  "decode_screen (screen_bytes sample_msg) = Inr (sample_msg\<lparr>sm_layer := 2\<rparr>)"
proof -
  have "encode_screen sample_msg = Inr (screen_bytes sample_msg)"
    by (simp add: encode_screen_Inr screen_ok_def sample_msg_def sample_rect_def validate_rect_def
        wire_size_def screen_consts Screen2EncJPEG_def Screen2EncPNG_def Screen2EncSolid_def)
  with screen_codec_strict [of sample_msg]
  have "decode_screen (screen_bytes sample_msg) = Inr (sample_msg\<lparr>sm_layer := sm_layer sample_msg AND 3\<rparr>)"
    by blast
  then show ?thesis by (simp add: sample_msg_def)
qed

interpretation screen: codec screen_bytes decode_screen
  "\<lambda>m. screen_ok m \<and> sm_layer m AND 3 = sm_layer m"
  by unfold_locales (simp add: decode_screen_bytes)

end
