(* ===== verification/Screen_Pack.thy ===== *)
theory Screen_Pack
  imports Screen_Codec
begin

text \<open>
  \<open>PackScreen2Layer\<close> (\<open>shared/protocol/screen2.go\<close>): the rectangles of one frame are split into
  messages in order. The state of the loop is the list of finished messages, the current part
  \<open>rects[start:i]\<close> and its wire size.
\<close>

definition part_msg ::
  "u64 \<Rightarrow> u32 \<Rightarrow> bool \<Rightarrow> byte \<Rightarrow> u16 \<Rightarrow> u16 \<Rightarrow> bool \<Rightarrow> bool \<Rightarrow> rect list \<Rightarrow> screen_msg" where
  "part_msg sid sq key layer w h first eof part =
     \<lparr>sm_stream = sid, sm_seq = sq, sm_eof = eof, sm_key = key, sm_first = first,
      sm_layer = layer, sm_w = w, sm_h = h, sm_rects = part\<rparr>"

definition pack_flush ::
  "(bool \<Rightarrow> bool \<Rightarrow> rect list \<Rightarrow> screen_msg) \<Rightarrow> bytes list \<Rightarrow> rect list \<Rightarrow> screen_error + bytes list" where
  "pack_flush msg out part =
     (case encode_screen (msg (length out = 0) False part) of
        Inl e \<Rightarrow> Inl e
      | Inr b \<Rightarrow> Inr (out @ [b]))"

fun pack_loop ::
  "(bool \<Rightarrow> bool \<Rightarrow> rect list \<Rightarrow> screen_msg) \<Rightarrow> nat \<Rightarrow> bytes list \<Rightarrow> rect list \<Rightarrow> nat \<Rightarrow> rect list
   \<Rightarrow> screen_error + bytes list" where
  "pack_loop msg target out part sz [] = pack_flush msg out part"
| "pack_loop msg target out part sz (r # rs) =
     (let n = wire_size r in
      if part \<noteq> [] \<and> (sz + n > target \<or> length part \<ge> Screen2MaxRects)
      then (case pack_flush msg out part of
              Inl e \<Rightarrow> Inl e
            | Inr out' \<Rightarrow> pack_loop msg target out' [r] (Screen2HeaderSize + n) rs)
      else pack_loop msg target out (part @ [r]) (sz + n) rs)"

definition pack_screen ::
  "u64 \<Rightarrow> u32 \<Rightarrow> bool \<Rightarrow> byte \<Rightarrow> u16 \<Rightarrow> u16 \<Rightarrow> rect list \<Rightarrow> int \<Rightarrow> screen_error + bytes list" where
  "pack_screen sid sq key layer w h rects target =
     (let target' = (if target \<le> 0 then Screen2TargetMessage else nat target) in
      case pack_loop (part_msg sid sq key layer w h) target' [] [] Screen2HeaderSize rects of
        Inl e \<Rightarrow> Inl e
      | Inr out \<Rightarrow> Inr (out[length out - 1 :=
                        (out ! (length out - 1))[13 := out ! (length out - 1) ! 13 OR FlagEOF]]))"

section \<open>The loop\<close>

abbreviation part_size :: "rect list \<Rightarrow> nat" where
  "part_size p \<equiv> Screen2HeaderSize + sum_list (map wire_size p)"

text \<open>What a run of the loop adds to the finished messages.\<close>

definition packed ::
  "(bool \<Rightarrow> bool \<Rightarrow> rect list \<Rightarrow> screen_msg) \<Rightarrow> nat \<Rightarrow> nat \<Rightarrow> rect list list \<Rightarrow> bytes list \<Rightarrow> bool" where
  "packed msg target k parts bs \<longleftrightarrow> length bs = length parts \<and>
     (\<forall>i<length parts. encode_screen (msg (k + i = 0) False (parts ! i)) = Inr (bs ! i)) \<and>
     (\<forall>p\<in>set parts. part_size p \<le> target \<or> length p \<le> 1)"

text \<open>A part is closed only when it is full: the first rectangle of the next part would exceed the
  target, or the part has as many rectangles as a message can carry.\<close>

definition part_full :: "nat \<Rightarrow> rect list \<Rightarrow> rect list \<Rightarrow> bool" where
  "part_full target p q \<longleftrightarrow> part_size p + wire_size (hd q) > target \<or> length p \<ge> Screen2MaxRects"

lemma packed_Cons:
  "encode_screen (msg (k = 0) False p) = Inr b \<Longrightarrow> part_size p \<le> target \<or> length p \<le> 1 \<Longrightarrow>
   packed msg target (Suc k) ps bs \<Longrightarrow> packed msg target k (p # ps) (b # bs)"
  by (auto simp: packed_def nth_Cons' less_Suc_eq_0_disj)

lemma pack_flush_Inr:
  "pack_flush msg out part = Inr out' \<longleftrightarrow>
   (\<exists>b. encode_screen (msg (out = []) False part) = Inr b \<and> out' = out @ [b])"
  by (auto simp: pack_flush_def split: sum.splits)

lemma pack_loop_packed:
  "pack_loop msg target out part sz rs = Inr out' \<Longrightarrow>
   sz = part_size part \<Longrightarrow> part_size part \<le> target \<or> length part \<le> 1 \<Longrightarrow>
   \<exists>parts bs. concat parts = part @ rs \<and> parts \<noteq> [] \<and> out' = out @ bs
     \<and> packed msg target (length out) parts bs \<and> ([] \<in> set parts \<longrightarrow> parts = [[]])
     \<and> successively (part_full target) parts"
proof (induction rs arbitrary: out part sz)
  case Nil
  then obtain b where "encode_screen (msg (out = []) False part) = Inr b" "out' = out @ [b]"
    by (auto simp: pack_flush_Inr)
  with Nil.prems show ?case
    by (intro exI [of _ "[part]"] exI [of _ "[b]"]) (simp add: packed_def)
next
  case (Cons r rs)
  let ?n = "wire_size r"
  show ?case
  proof (cases "part \<noteq> [] \<and> (sz + ?n > target \<or> length part \<ge> Screen2MaxRects)")
    case True
    with Cons.prems(1) obtain out1
      where f: "pack_flush msg out part = Inr out1"
        and l: "pack_loop msg target out1 [r] (Screen2HeaderSize + ?n) rs = Inr out'"
      by (auto simp: Let_def split: sum.splits)
    from f obtain b where b: "encode_screen (msg (out = []) False part) = Inr b" "out1 = out @ [b]"
      by (auto simp: pack_flush_Inr)
    from Cons.IH [OF l] obtain parts bs where
      p: "concat parts = r # rs" "out' = out1 @ bs" "packed msg target (length out1) parts bs"
        "[] \<notin> set parts" "successively (part_full target) parts" by auto
    obtain q qs where q: "parts = q # qs" "q \<noteq> []" using p(1,4) by (cases parts) auto
    have "part_full target part q"
      using True Cons.prems(2) p(1) q by (cases q) (auto simp: part_full_def)
    then have full: "successively (part_full target) (part # parts)" using p(5) q by simp
    have "packed msg target (length out) (part # parts) (b # bs)"
      using packed_Cons [of msg "length out" part b target parts bs] Cons.prems(2,3) b p(3) by simp
    then show ?thesis
      using p b True full by (intro exI [of _ "part # parts"] exI [of _ "b # bs"]) auto
  next
    case False
    then have l: "pack_loop msg target out (part @ [r]) (sz + ?n) rs = Inr out'"
      using Cons.prems(1) by (auto simp: Let_def)
    have "part_size (part @ [r]) \<le> target \<or> length (part @ [r]) \<le> 1"
      using False Cons.prems(2) by (cases part) auto
    from Cons.IH [OF l _ this] Cons.prems(2) show ?thesis by simp
  qed
qed

text \<open>Setting the end flag on an encoded message gives the encoding of the message with the flag.\<close>

lemma screen_bytes_set_eof:
  "(screen_bytes m)[13 := screen_bytes m ! 13 OR FlagEOF] = screen_bytes (m\<lparr>sm_eof := True\<rparr>)"
proof -
  have "screen_flags e k f l OR FlagEOF = screen_flags True k f l" for e k f l
    by (rule bit_word_eqI) (auto simp: bit_simps screen_flags_bit flag_word_bits)
  moreover have "screen_bytes m ! 13 = screen_flags (sm_eof m) (sm_key m) (sm_first m) (sm_layer m)"
    by (rule header7_fields [OF screen_bytes_header])
  ultimately show ?thesis
    by (simp add: screen_bytes_header header7_update)
qed

lemma screen_ok_eof [simp]: "screen_ok (m\<lparr>sm_eof := e\<rparr>) = screen_ok m"
  by (simp add: screen_ok_def)

lemma part_msg_eof [simp]:
  "(part_msg sid sq key layer w h first e part)\<lparr>sm_eof := e'\<rparr> = part_msg sid sq key layer w h first e' part"
  by (simp add: part_msg_def)

lemma part_msg_layer:
  "(part_msg sid sq key layer w h first e part)\<lparr>sm_layer := sm_layer (part_msg sid sq key layer w h first e part) AND 3\<rparr>
   = part_msg sid sq key (layer AND 3) w h first e part"
  by (simp add: part_msg_def)

lemma pack_screen_parts:
  assumes "pack_screen sid sq key layer w h rects target = Inr out"
  obtains parts where "concat parts = rects" and "length out = length parts" and "parts \<noteq> []"
    and "\<forall>i<length parts. screen_ok (part_msg sid sq key layer w h (i = 0) (Suc i = length parts) (parts ! i))
      \<and> out ! i = screen_bytes (part_msg sid sq key layer w h (i = 0) (Suc i = length parts) (parts ! i))"
    and "\<forall>p\<in>set parts. part_size p \<le> (if target \<le> 0 then Screen2TargetMessage else nat target) \<or> length p \<le> 1"
    and "[] \<in> set parts \<longrightarrow> parts = [[]]"
    and "successively (part_full (if target \<le> 0 then Screen2TargetMessage else nat target)) parts"
proof -
  let ?t = "if target \<le> 0 then Screen2TargetMessage else nat target"
  let ?m = "part_msg sid sq key layer w h"
  from assms obtain bs where l: "pack_loop ?m ?t [] [] Screen2HeaderSize rects = Inr bs"
    and out: "out = bs[length bs - 1 := (bs ! (length bs - 1))[13 := bs ! (length bs - 1) ! 13 OR FlagEOF]]"
    by (auto simp: pack_screen_def Let_def split: sum.splits)
  from pack_loop_packed [OF l] obtain parts where c: "concat parts = rects" "parts \<noteq> []"
    "packed ?m ?t 0 parts bs" "[] \<in> set parts \<longrightarrow> parts = [[]]"
    "successively (part_full ?t) parts" by auto
  then have len: "length bs = length parts"
    and enc: "\<And>i. i < length parts \<Longrightarrow> screen_ok (?m (i = 0) False (parts ! i))
      \<and> bs ! i = screen_bytes (?m (i = 0) False (parts ! i))"
    and sz: "\<forall>p\<in>set parts. part_size p \<le> ?t \<or> length p \<le> 1"
    by (auto simp: packed_def encode_screen_Inr)
  have nth: "out ! i = (if Suc i = length parts then (bs ! i)[13 := bs ! i ! 13 OR FlagEOF] else bs ! i)"
    if "i < length parts" for i
    using that c(2) len by (auto simp: out nth_list_update)
  have "screen_ok (?m (i = 0) (Suc i = length parts) (parts ! i))
      \<and> out ! i = screen_bytes (?m (i = 0) (Suc i = length parts) (parts ! i))"
    if i: "i < length parts" for i
  proof -
    have "screen_ok (?m (i = 0) e (parts ! i))" for e
      using enc [OF i] screen_ok_eof [of e "?m (i = 0) False (parts ! i)"] by simp
    then show ?thesis
      using enc [OF i] nth [OF i] screen_bytes_set_eof [of "?m (i = 0) False (parts ! i)"] by auto
  qed
  then show thesis
    using that [of parts] c sz len by (simp add: out)
qed

section \<open>Packing succeeds on valid rectangles\<close>

lemma rect_size_bound:
  "validate_rect r w h = None \<Longrightarrow> Screen2HeaderSize + wire_size r \<le> Screen2MaxMessage"
  using validate_payload [of r w h] by (simp add: wire_size_def screen_consts)

lemma encode_part_ok:
  "w \<noteq> 0 \<Longrightarrow> h \<noteq> 0 \<Longrightarrow> \<forall>r\<in>set part. validate_rect r w h = None \<Longrightarrow> part_size part \<le> Screen2MaxMessage \<Longrightarrow>
   length part \<le> Screen2MaxRects \<Longrightarrow>
   \<exists>out'. pack_flush (part_msg sid sq key layer w h) out part = Inr out'"
  by (auto simp: pack_flush_Inr encode_screen_Inr screen_ok_def part_msg_def)

lemma pack_loop_total:
  assumes "w \<noteq> 0" "h \<noteq> 0" "target \<le> Screen2MaxMessage"
  shows "\<forall>r\<in>set (part @ rs). validate_rect r w h = None \<Longrightarrow> sz = part_size part \<Longrightarrow>
    sz \<le> Screen2MaxMessage \<Longrightarrow> length part \<le> Screen2MaxRects \<Longrightarrow>
    \<exists>out'. pack_loop (part_msg sid sq key layer w h) target out part sz rs = Inr out'"
proof (induction rs arbitrary: out part sz)
  case Nil
  then show ?case using assms by (simp add: encode_part_ok)
next
  case (Cons r rs)
  have r: "validate_rect r w h = None" using Cons.prems(1) by simp
  show ?case
  proof (cases "part \<noteq> [] \<and> (sz + wire_size r > target \<or> length part \<ge> Screen2MaxRects)")
    case True
    have "\<exists>out'. pack_flush (part_msg sid sq key layer w h) out part = Inr out'"
      using Cons.prems by (intro encode_part_ok assms) auto
    then obtain out' where "pack_flush (part_msg sid sq key layer w h) out part = Inr out'" ..
    moreover obtain out'' where
      "pack_loop (part_msg sid sq key layer w h) target out' [r] (Screen2HeaderSize + wire_size r) rs = Inr out''"
      using Cons.IH [of "[r]" "Screen2HeaderSize + wire_size r" out'] Cons.prems(1) rect_size_bound [OF r]
      by (auto simp: Screen2MaxRects_def)
    ultimately show ?thesis using True by (simp add: Let_def)
  next
    case False
    have "sz + wire_size r \<le> Screen2MaxMessage" "length (part @ [r]) \<le> Screen2MaxRects"
      using False assms(3) rect_size_bound [OF r] Cons.prems(2)
      by (cases part; simp add: Screen2MaxRects_def)+
    with Cons.IH [of "part @ [r]" "sz + wire_size r" out] Cons.prems(1,2) False show ?thesis
      by (auto simp: Let_def)
  qed
qed

lemma pack_screen_total:
  assumes "w \<noteq> 0" "h \<noteq> 0" "\<forall>r\<in>set rects. validate_rect r w h = None" "target \<le> int Screen2MaxMessage"
  obtains out where "pack_screen sid sq key layer w h rects target = Inr out"
proof -
  let ?t = "if target \<le> 0 then Screen2TargetMessage else nat target"
  have "?t \<le> Screen2MaxMessage"
    using assms(4) by (auto simp: screen_consts)
  then have "\<exists>out. pack_loop (part_msg sid sq key layer w h) ?t [] [] Screen2HeaderSize rects = Inr out"
    using assms by (intro pack_loop_total) (simp_all add: screen_consts)
  then show thesis by (auto simp: pack_screen_def Let_def intro: that)
qed

text \<open>C32: for valid rectangles, packing a frame returns messages that all decode; their rectangles
  in order are the frame's rectangles, exactly the first message is flagged first and exactly the
  last one end-of-frame; a message of two or more rectangles is never larger than the target size
  (a rectangle is not divided, so a message with one may be); and no message is closed early: the
  first rectangle of the next message would have exceeded the target, or the message holds the
  maximal number of rectangles.\<close>

theorem pack_screen_correct:
  assumes "w \<noteq> 0" "h \<noteq> 0" "\<forall>r\<in>set rects. validate_rect r w h = None" "target \<le> int Screen2MaxMessage"
  shows "\<exists>out parts. pack_screen sid sq key layer w h rects target = Inr out \<and>
    concat parts = rects \<and> parts \<noteq> [] \<and> length out = length parts \<and>
    (\<forall>i<length parts. decode_screen (out ! i) =
       Inr (part_msg sid sq key (layer AND 3) w h (i = 0) (Suc i = length parts) (parts ! i))) \<and>
    (\<forall>i<length parts. length (out ! i) = part_size (parts ! i)) \<and>
    (\<forall>i<length parts. length (out ! i) \<le> (if target \<le> 0 then Screen2TargetMessage else nat target) \<or>
       length (parts ! i) = 1 \<or> rects = []) \<and>
    (\<forall>i. Suc i < length parts \<longrightarrow> parts ! Suc i \<noteq> [] \<and>
       (length (out ! i) + wire_size (hd (parts ! Suc i)) > (if target \<le> 0 then Screen2TargetMessage else nat target) \<or>
        length (parts ! i) = Screen2MaxRects))"
proof -
  let ?t = "if target \<le> 0 then Screen2TargetMessage else nat target"
  obtain out where out: "pack_screen sid sq key layer w h rects target = Inr out"
    using pack_screen_total [OF assms] .
  from out show ?thesis
  proof (rule pack_screen_parts)
    fix parts
    assume p: "concat parts = rects" "length out = length parts" "parts \<noteq> []"
      and m: "\<forall>i<length parts. screen_ok (part_msg sid sq key layer w h (i = 0) (Suc i = length parts) (parts ! i))
        \<and> out ! i = screen_bytes (part_msg sid sq key layer w h (i = 0) (Suc i = length parts) (parts ! i))"
      and s: "\<forall>p\<in>set parts. part_size p \<le> ?t \<or> length p \<le> 1"
      and ne: "[] \<in> set parts \<longrightarrow> parts = [[]]"
      and full: "successively (part_full ?t) parts"
    have len: "length (out ! i) = part_size (parts ! i)" "length (parts ! i) \<le> Screen2MaxRects" if "i < length parts" for i
      using m that by (simp_all add: screen_bytes_length part_msg_def screen_ok_def)
    have "length (out ! i) \<le> ?t \<or> length (parts ! i) = 1 \<or> rects = []" if i: "i < length parts" for i
    proof -
      have "parts ! i \<in> set parts" using i by simp
      then have e: "parts ! i = [] \<Longrightarrow> rects = []" and sz: "part_size (parts ! i) \<le> ?t \<or> length (parts ! i) \<le> 1"
        using ne s p(1) by auto
      show ?thesis
      proof (cases "parts ! i = []")
        case False
        then have "length (parts ! i) \<noteq> 0" by simp
        then show ?thesis using sz len(1) [OF i] by linarith
      qed (use e in blast)
    qed
    moreover have "parts ! Suc i \<noteq> [] \<and> (length (out ! i) + wire_size (hd (parts ! Suc i)) > ?t \<or>
        length (parts ! i) = Screen2MaxRects)" if i: "Suc i < length parts" for i
    proof -
      have "part_full ?t (parts ! i) (parts ! Suc i)" using full i by (simp add: successively_conv_nth)
      moreover have "parts ! Suc i \<noteq> []"
      proof
        assume "parts ! Suc i = []"
        then have "parts = [[]]" using ne i nth_mem [of "Suc i" parts] by simp
        then show False using i by simp
      qed
      ultimately show ?thesis using len [of i] i by (auto simp: part_full_def)
    qed
    moreover have "decode_screen (out ! i) =
       Inr (part_msg sid sq key (layer AND 3) w h (i = 0) (Suc i = length parts) (parts ! i))"
      if "i < length parts" for i
      using m that by (simp add: decode_screen_bytes part_msg_layer)
    ultimately show ?thesis using out p len(1) by blast
  qed
qed

text \<open>Three rectangles, with a target that holds two of them.\<close>

lemma sample_split:
  assumes "concat parts = [sample_rect, sample_rect, sample_rect]"
    and "\<forall>i<length parts. part_size (parts ! i) \<le> 60 \<or> length (parts ! i) = 1"
    and "\<forall>i. Suc i < length parts \<longrightarrow> parts ! Suc i \<noteq> [] \<and>
       (part_size (parts ! i) + wire_size (hd (parts ! Suc i)) > 60 \<or> length (parts ! i) = Screen2MaxRects)"
  shows "parts = [[sample_rect, sample_rect], [sample_rect]]"
proof -
  let ?r = sample_rect
  have w: "wire_size ?r = 17" "Screen2HeaderSize = 21" "Screen2MaxRects = 4096"
    by (simp_all add: wire_size_def sample_rect_def screen_consts)
  obtain p ps where ps: "parts = p # ps" using assms(1) by (cases parts) auto
  have c: "p @ concat ps = [?r, ?r, ?r]" using assms(1) ps by simp
  have first: "part_size p \<le> 60 \<or> length p = 1" using assms(2) ps by auto
  have step: "q \<noteq> [] \<and> (part_size p + wire_size (hd q) > 60 \<or> length p = Screen2MaxRects)" if "ps = q # qs" for q qs
    using assms(3) [rule_format, of 0] ps that by simp
  have ne: "\<forall>q\<in>set ps. q \<noteq> []"
    using assms(3) ps by (auto simp: in_set_conv_nth)
  have hd: "hd q = ?r" if "ps = q # qs" for q qs
  proof -
    have "hd q \<in> set (p @ concat ps)" using step [OF that] that by auto
    then show ?thesis unfolding c by simp
  qed
  have size: "part_size p = 21 + 17 * length p"
  proof -
    have "set p \<subseteq> {?r}" using arg_cong [OF c, of set] by auto
    then have "sum_list (map wire_size p) = 17 * length p" by (induction p) (auto simp: w)
    then show ?thesis by (simp add: w)
  qed
  have "length p \<le> 3" using arg_cong [OF c, of length] by simp
  moreover have "length p \<noteq> 3" using first size by auto
  moreover have "ps \<noteq> []" if "length p < 3" using c that by auto
  then have "length p \<ge> 2" if "length p < 3"
    using step hd size w that by (cases ps) force+
  ultimately have l: "length p = 2" by linarith
  then obtain x y where "p = [x, y]" by (auto simp: length_Suc_conv numeral_2_eq_2)
  with c have p: "p = [?r, ?r]" "concat ps = [?r]" by auto
  then obtain q qs where q: "ps = q # qs" by (cases ps) auto
  then have "q = [?r]" "concat qs = []" using p(2) ne by (cases q; auto)+
  moreover have "qs = []" using \<open>concat qs = []\<close> ne q by (cases qs) auto
  ultimately show ?thesis using ps p q by simp
qed

theorem pack_screen_correct_witness:
  "\<exists>out. pack_screen 77 1 True 0 640 480 [sample_rect, sample_rect, sample_rect] 60 = Inr out
    \<and> length out = 2 \<and> length (out ! 0) = 55 \<and> length (out ! 1) = 38
    \<and> decode_screen (out ! 0) = Inr (part_msg 77 1 True 0 640 480 True False [sample_rect, sample_rect])
    \<and> decode_screen (out ! 1) = Inr (part_msg 77 1 True 0 640 480 False True [sample_rect])"
proof -
  let ?r = sample_rect
  have v: "\<forall>r\<in>set [?r, ?r, ?r]. validate_rect r 640 480 = None"
    by (simp add: sample_rect_def validate_rect_def screen_consts Screen2EncJPEG_def
        Screen2EncPNG_def Screen2EncSolid_def)
  obtain out parts where o: "pack_screen 77 1 True 0 640 480 [?r, ?r, ?r] 60 = Inr out"
    and c: "concat parts = [?r, ?r, ?r]" "length out = length parts"
    and d: "\<forall>i<length parts. decode_screen (out ! i) =
       Inr (part_msg 77 1 True 0 640 480 (i = 0) (Suc i = length parts) (parts ! i))"
    and l: "\<forall>i<length parts. length (out ! i) = part_size (parts ! i)"
    and s: "\<forall>i<length parts. length (out ! i) \<le> 60 \<or> length (parts ! i) = 1"
    and f: "\<forall>i. Suc i < length parts \<longrightarrow> parts ! Suc i \<noteq> [] \<and>
       (length (out ! i) + wire_size (hd (parts ! Suc i)) > 60 \<or> length (parts ! i) = Screen2MaxRects)"
    using pack_screen_correct [OF _ _ v, of 60 77 1 True 0] by (auto simp: screen_consts)
  have parts: "parts = [[?r, ?r], [?r]]"
    by (rule sample_split [OF c(1)]) (use l s f in \<open>auto simp: Suc_lessD\<close>)
  have "wire_size ?r = 17" "Screen2HeaderSize = 21" by (simp_all add: wire_size_def sample_rect_def screen_consts)
  then show ?thesis using o c(2) d l unfolding parts
    by (intro exI [of _ out]) (auto simp: less_Suc_eq)
qed

end
