(* ===== verification/Video_Codec.thy ===== *)
theory Video_Codec
  imports Screen_Codec
begin

text \<open>
  The H.264 video frames (\<open>shared/protocol/screen2_video.go\<close>): three kinds of message behind one
  15-byte header. A Go string is its bytes here, as the codec name is copied byte by byte.
\<close>

definition VideoKindConfig :: byte where "VideoKindConfig = 1"
definition VideoKindChunk :: byte where "VideoKindChunk = 2"
definition VideoKindStop :: byte where "VideoKindStop = 3"
definition VideoMaxChunk :: nat where "VideoMaxChunk = 900 * 1024"
definition VideoMaxDesc :: nat where "VideoMaxDesc = 2048"
definition VideoMaxCodec :: nat where "VideoMaxCodec = 32"
definition VideoMaxDim :: nat where "VideoMaxDim = 8192"
definition videoHeaderSize :: nat where "videoHeaderSize = HeaderSize + 1"

lemmas video_consts =
  VideoKindConfig_def VideoKindChunk_def VideoKindStop_def VideoMaxChunk_def VideoMaxDesc_def
  VideoMaxCodec_def VideoMaxDim_def videoHeaderSize_def HeaderSize_def

datatype video_error = ErrVideoShort | ErrVideoKind | ErrVideoSize | ErrVideoFrame

record video_msg =
  vm_stream :: u64
  vm_seq :: u32
  vm_key :: bool
  vm_kind :: byte
  vm_w :: u16
  vm_h :: u16
  vm_codec :: bytes
  vm_desc :: bytes
  vm_ts :: u64
  vm_data :: bytes

definition bad_dims :: "u16 \<Rightarrow> u16 \<Rightarrow> bool" where
  "bad_dims w h \<longleftrightarrow> w = 0 \<or> h = 0 \<or> unat w > VideoMaxDim \<or> unat h > VideoMaxDim"

definition encode_video_body :: "video_msg \<Rightarrow> video_error + bytes" where
  "encode_video_body m =
     (if vm_kind m = VideoKindConfig then
        (if bad_dims (vm_w m) (vm_h m) then Inl ErrVideoSize
         else if length (vm_codec m) = 0 \<or> length (vm_codec m) > VideoMaxCodec
                 \<or> length (vm_desc m) > VideoMaxDesc then Inl ErrVideoSize
         else Inr (be_put 2 (vm_w m) @ be_put 2 (vm_h m)
                @ of_nat (length (vm_codec m)) # vm_codec m @ vm_desc m))
      else if vm_kind m = VideoKindChunk then
        (if length (vm_data m) = 0 \<or> length (vm_data m) > VideoMaxChunk then Inl ErrVideoSize
         else Inr (be_put 8 (vm_ts m) @ vm_data m))
      else if vm_kind m = VideoKindStop then Inr []
      else Inl ErrVideoKind)"

definition encode_video :: "video_msg \<Rightarrow> video_error + bytes" where
  "encode_video m =
     (case encode_video_body m of
        Inl e \<Rightarrow> Inl e
      | Inr body \<Rightarrow>
          Inr (FrameVideo # be_put 8 (vm_stream m) @ be_put 4 (vm_seq m)
            @ (if vm_key m then 0 OR FlagKeyframe else 0) # vm_kind m # body))"

definition decode_video :: "bytes \<Rightarrow> video_error + video_msg" where
  "decode_video b =
     (if length b < videoHeaderSize then Inl ErrVideoShort
      else if b ! 0 \<noteq> FrameVideo then Inl ErrVideoFrame
      else
        let m = \<lparr>vm_stream = be_get (slice 1 9 b), vm_seq = be_get (slice 9 13 b),
                 vm_key = (b ! 13 AND FlagKeyframe \<noteq> 0), vm_kind = b ! 14, vm_w = 0, vm_h = 0,
                 vm_codec = [], vm_desc = [], vm_ts = 0, vm_data = []\<rparr>;
            body = drop videoHeaderSize b in
        if vm_kind m = VideoKindConfig then
          (if length body < 5 then Inl ErrVideoShort
           else let w = be_get (slice 0 2 body); h = be_get (slice 2 4 body);
                    cl = unat (body ! 4) in
             if bad_dims w h then Inl ErrVideoSize
             else if cl = 0 \<or> cl > VideoMaxCodec \<or> length body < 5 + cl then Inl ErrVideoShort
             else if length (drop (5 + cl) body) > VideoMaxDesc then Inl ErrVideoSize
             else Inr (m\<lparr>vm_w := w, vm_h := h, vm_codec := slice 5 (5 + cl) body,
                         vm_desc := drop (5 + cl) body\<rparr>))
        else if vm_kind m = VideoKindChunk then
          (if length body < 9 then Inl ErrVideoShort
           else if length body - 8 > VideoMaxChunk then Inl ErrVideoSize
           else Inr (m\<lparr>vm_ts := be_get (slice 0 8 body), vm_data := drop 8 body\<rparr>))
        else if vm_kind m = VideoKindStop then Inr m
        else Inl ErrVideoKind)"

text \<open>The fields a kind carries on the wire; the others are zero after decoding.\<close>

definition video_fields :: "video_msg \<Rightarrow> video_msg" where
  "video_fields m =
     (let m0 = m\<lparr>vm_w := 0, vm_h := 0, vm_codec := [], vm_desc := [], vm_ts := 0, vm_data := []\<rparr> in
      if vm_kind m = VideoKindConfig
        then m0\<lparr>vm_w := vm_w m, vm_h := vm_h m, vm_codec := vm_codec m, vm_desc := vm_desc m\<rparr>
      else if vm_kind m = VideoKindChunk then m0\<lparr>vm_ts := vm_ts m, vm_data := vm_data m\<rparr>
      else m0)"

section \<open>Round trip\<close>

lemma video_header_fields:
  assumes "d = header ft rid sq fl @ k # r"
  shows "d ! 0 = ft" "slice 1 9 d = be_put 8 rid" "slice 9 13 d = be_put 4 sq" "d ! 13 = fl"
    "d ! 14 = k" "drop 15 d = r" "length d = 15 + length r"
  unfolding assms header_def by (simp_all add: slice_def nth_append)

lemma encode_video_header:
  "encode_video m = Inr b \<longleftrightarrow>
   (\<exists>body. encode_video_body m = Inr body \<and>
      b = header FrameVideo (vm_stream m) (vm_seq m) (if vm_key m then FlagKeyframe else 0) @ vm_kind m # body)"
  by (auto simp: encode_video_def header_def split: sum.splits)

lemma key_bit: "(if k then FlagKeyframe else 0) AND FlagKeyframe \<noteq> 0 \<longleftrightarrow> k"
  by (simp add: FlagKeyframe_def)

lemma config_body_fields:
  assumes "d = be_put 2 (w :: u16) @ be_put 2 (h :: u16) @ c # r"
  shows "slice 0 2 d = be_put 2 w" "slice 2 4 d = be_put 2 h" "d ! 4 = c" "drop 5 d = r"
    "length d = 5 + length r"
  unfolding assms by (simp_all add: slice_def nth_append)

lemma unat_codec_length: "length c \<le> VideoMaxCodec \<Longrightarrow> unat (of_nat (length c) :: byte) = length c"
  by (simp add: unat_of_nat take_bit_eq_mod VideoMaxCodec_def)

lemma decode_encode_video:
  assumes "encode_video m = Inr b"
  shows "decode_video b = Inr (video_fields m)"
proof -
  from assms obtain body where body: "encode_video_body m = Inr body"
    and b: "b = header FrameVideo (vm_stream m) (vm_seq m) (if vm_key m then FlagKeyframe else 0) @ vm_kind m # body"
    by (auto simp: encode_video_header)
  note f = video_header_fields [OF b] video_header_fields(2) [OF b, unfolded One_nat_def]
  let ?m = "m\<lparr>vm_w := 0, vm_h := 0, vm_codec := [], vm_desc := [], vm_ts := 0, vm_data := []\<rparr>"
  have m: "\<lparr>vm_stream = vm_stream m, vm_seq = vm_seq m, vm_key = vm_key m, vm_kind = vm_kind m,
     vm_w = 0, vm_h = 0, vm_codec = [], vm_desc = [], vm_ts = 0, vm_data = []\<rparr> = ?m"
    by simp
  consider (config) "vm_kind m = VideoKindConfig" | (chunk) "vm_kind m = VideoKindChunk"
    | (stop) "vm_kind m = VideoKindStop"
    using body by (auto simp: encode_video_body_def split: if_splits)
  then show ?thesis
  proof cases
    case config
    with body have bd: "\<not> bad_dims (vm_w m) (vm_h m)" and l: "vm_codec m \<noteq> []"
      "length (vm_codec m) \<le> VideoMaxCodec" "length (vm_desc m) \<le> VideoMaxDesc"
      and e: "body = be_put 2 (vm_w m) @ be_put 2 (vm_h m) @ of_nat (length (vm_codec m)) # vm_codec m @ vm_desc m"
      by (auto simp: encode_video_body_def split: if_splits)
    note g = config_body_fields [OF e]
    have s: "slice 5 (5 + length (vm_codec m)) body = vm_codec m" "drop (5 + length (vm_codec m)) body = vm_desc m"
      by (simp_all add: e slice_def)
    show ?thesis
      using config bd l
      by (simp add: decode_video_def Let_def f videoHeaderSize_def HeaderSize_def g s key_bit
          unat_codec_length video_fields_def)
  next
    case chunk
    then have "vm_kind m \<noteq> VideoKindConfig" by (simp add: video_consts)
    with chunk body have "vm_data m \<noteq> []" "length (vm_data m) \<le> VideoMaxChunk"
      "body = be_put 8 (vm_ts m) @ vm_data m"
      by (auto simp: encode_video_body_def split: if_splits)
    moreover from this have "slice 0 8 body = be_put 8 (vm_ts m)" by (simp add: slice_def)
    ultimately show ?thesis
      using chunk \<open>vm_kind m \<noteq> VideoKindConfig\<close>
      by (cases "vm_data m") (simp_all add: decode_video_def Let_def f videoHeaderSize_def HeaderSize_def
          key_bit video_fields_def)
  next
    case stop
    then have "vm_kind m \<noteq> VideoKindConfig" "vm_kind m \<noteq> VideoKindChunk" by (simp_all add: video_consts)
    with stop show ?thesis
      by (simp add: decode_video_def Let_def f videoHeaderSize_def HeaderSize_def key_bit video_fields_def)
  qed
qed

text \<open>What the decoder accepts satisfies the encoder's limits again.\<close>

lemma decode_video_valid:
  assumes "decode_video b = Inr m"
  shows "\<exists>body. encode_video_body m = Inr body \<and> video_fields m = m"
  using assms
  by (cases m) (auto simp: decode_video_def encode_video_body_def video_fields_def Let_def slice_def
      VideoKindConfig_def VideoKindChunk_def VideoKindStop_def videoHeaderSize_def HeaderSize_def
      split: if_splits)

text \<open>A video message the encoder accepts decodes to the same message, with the fields its kind
  does not carry zeroed, and every message the decoder returns could have been sent: the encoder
  accepts it and decoding that encoding returns it unchanged.\<close>

lemma video_roundtrip:
  "(\<forall>b. encode_video m = Inr b \<longrightarrow> decode_video b = Inr (video_fields m)) \<and>
   (\<forall>b. decode_video b = Inr m \<longrightarrow> (\<exists>b'. encode_video m = Inr b' \<and> decode_video b' = Inr m))"
proof (intro conjI allI impI)
  show "encode_video m = Inr b \<Longrightarrow> decode_video b = Inr (video_fields m)" for b
    by (rule decode_encode_video)
next
  fix b
  assume "decode_video b = Inr m"
  then obtain body where "encode_video_body m = Inr body" "video_fields m = m"
    using decode_video_valid by blast
  then show "\<exists>b'. encode_video m = Inr b' \<and> decode_video b' = Inr m"
    using decode_encode_video [of m] by (auto simp: encode_video_header)
qed

definition sample_video :: video_msg where
  "sample_video = \<lparr>vm_stream = 5, vm_seq = 9, vm_key = True, vm_kind = 1, vm_w = 640, vm_h = 480,
     vm_codec = [97, 118, 99, 49], vm_desc = [1, 2], vm_ts = 0, vm_data = []\<rparr>"

lemma video_roundtrip_witness:
  "\<exists>b. encode_video sample_video = Inr b \<and> decode_video b = Inr sample_video"
proof -
  obtain b where b: "encode_video sample_video = Inr b"
    by (simp add: encode_video_header encode_video_body_def sample_video_def bad_dims_def video_consts)
  have "video_fields sample_video = sample_video"
    by (simp add: video_fields_def sample_video_def video_consts)
  with b video_roundtrip [of sample_video] show ?thesis by auto
qed

end
