(* ===== verification/Screen_Stream.thy ===== *)
theory Screen_Stream
  imports Session_State Video_Codec
begin

text \<open>
  The remote-terminal and remote-screen subscriptions of a session
  (\<open>server/tunnel/session.go\<close>, \<open>screen2.go\<close>, \<open>screen2_video.go\<close>, \<open>screen_aux.go\<close>): opening and
  closing, and the routing of binary screen and video messages with the resynchronisation rule: once
  a message had to be dropped, nothing is delivered until the first message of a key frame. The time
  is an argument; the result of \<open>ask_keyframe\<close> is the request the session sends in a goroutine.
\<close>

definition screen2KeyframeRetry :: duration where "screen2KeyframeRetry = Second"

datatype screen2_error = ErrScreen2Unsupported | ErrSendFailed

definition supports_layers :: "session \<Rightarrow> bool" where
  "supports_layers s \<longleftrightarrow> ft_screen2 (s_features s) \<and> ft_layers (s_features s)"

definition supports_feedback :: "session \<Rightarrow> bool" where
  "supports_feedback s \<longleftrightarrow> ft_screen2 (s_features s) \<and> ft_feedback (s_features s)"

definition supports_video :: "session \<Rightarrow> bool" where
  "supports_video s \<longleftrightarrow> ft_screen2 (s_features s) \<and> ft_video (s_features s)"

definition guarded_send :: "bool \<Rightarrow> bool \<Rightarrow> out_msg \<Rightarrow> session \<Rightarrow> screen2_error option \<times> session" where
  "guarded_send supported ok m s =
     (if \<not> supported then (Some ErrScreen2Unsupported, s)
      else case s_send ok m s of
          (True, s') \<Rightarrow> (None, s')
        | (False, s') \<Rightarrow> (Some ErrSendFailed, s'))"

definition screen2_layers :: "bool \<Rightarrow> string \<Rightarrow> layer_spec list \<Rightarrow> bool \<Rightarrow> session \<Rightarrow> screen2_error option \<times> session" where
  "screen2_layers ok sid ls key s = guarded_send (supports_layers s) ok (OLayers sid ls key) s"

definition screen2_feedback :: "bool \<Rightarrow> string \<Rightarrow> int \<Rightarrow> int list \<Rightarrow> session \<Rightarrow> screen2_error option \<times> session" where
  "screen2_feedback ok sid ms ls s = guarded_send (supports_feedback s) ok (OFeedback sid ms ls) s"

definition screen2_keyframe :: "bool \<Rightarrow> string \<Rightarrow> session \<Rightarrow> screen2_error option \<times> session" where
  "screen2_keyframe ok sid s = guarded_send (ft_screen2 (s_features s)) ok (OKeyframe sid) s"

definition screen2_settings :: "bool \<Rightarrow> string \<Rightarrow> int \<Rightarrow> int \<Rightarrow> int \<Rightarrow> int \<Rightarrow> session \<Rightarrow> screen2_error option \<times> session" where
  "screen2_settings ok sid fps q mw disp s =
     guarded_send (ft_screen2 (s_features s)) ok (OSettings sid fps q mw disp) s"

definition Screen2VideoTiles :: string where "Screen2VideoTiles = ''tiles''"

definition valid_video_mode :: "string \<Rightarrow> bool" where
  "valid_video_mode m \<longleftrightarrow> m = ''auto'' \<or> m = Screen2VideoTiles \<or> m = ''video''"

definition screen2_video :: "bool \<Rightarrow> string \<Rightarrow> string \<Rightarrow> session \<Rightarrow> screen2_error option \<times> session" where
  "screen2_video ok sid mode s =
     guarded_send (supports_video s) ok
       (OVideo sid (if valid_video_mode mode then mode else Screen2VideoTiles)) s"

section \<open>Opening and closing\<close>

definition layers_for_open :: "bool \<Rightarrow> layer_spec list \<Rightarrow> layer_spec list" where
  "layers_for_open ok ls = (if \<not> ok then [] else ls)"

definition ScreenModeScreen2 :: string where "ScreenModeScreen2 = ''screen2''"

definition open_screen2 ::
  "bool \<Rightarrow> string \<Rightarrow> int \<Rightarrow> int \<Rightarrow> int \<Rightarrow> int \<Rightarrow> layer_spec list \<Rightarrow> bytes chan \<Rightarrow> string chan \<Rightarrow> session
   \<Rightarrow> (screen2_error + u64) \<times> session" where
  "open_screen2 ok sid fps q mw disp ls frames errs s =
     (if \<not> ft_screen2 (s_features s) then (Inl ErrScreen2Unsupported, s)
      else case next_req_id s of (stream, s1) \<Rightarrow>
        let s2 = s1\<lparr>s_scr2 := gm_put stream \<lparr>s2_session = sid, s2_ch = frames, s2_resync = False, s2_last_req = None\<rparr> (s_scr2 s1),
                    s_scr2_ids := gm_put sid stream (s_scr2_ids s1),
                    s_scr_err := gm_put sid errs (s_scr_err s1)\<rparr> in
        case s_send ok (OScreenOpen \<lparr>so_session = sid, so_fps = fps, so_quality = q, so_max_width = mw,
                          so_display = disp, so_mode = ScreenModeScreen2, so_stream = stream,
                          so_layers = layers_for_open (supports_layers s) ls\<rparr>) s2 of
          (True, s3) \<Rightarrow> (Inr stream, s3)
        | (False, s3) \<Rightarrow>
            (Inl ErrSendFailed,
             s3\<lparr>s_scr2 := gm_del stream (s_scr2 s3), s_scr2_ids := gm_del sid (s_scr2_ids s3),
                s_scr_err := gm_del sid (s_scr_err s3)\<rparr>))"

definition open_screen ::
  "bool \<Rightarrow> string \<Rightarrow> int \<Rightarrow> int \<Rightarrow> int \<Rightarrow> string \<Rightarrow> screen_frame chan \<Rightarrow> string chan \<Rightarrow> session \<Rightarrow> bool \<times> session" where
  "open_screen ok sid fps q mw mode frames errs s =
     s_send ok (OScreenOpen \<lparr>so_session = sid, so_fps = fps, so_quality = q, so_max_width = mw,
                 so_display = 0, so_mode = mode, so_stream = 0, so_layers = []\<rparr>)
       (s\<lparr>s_scr_subs := gm_put sid frames (s_scr_subs s), s_scr_err := gm_put sid errs (s_scr_err s)\<rparr>)"

definition subscribe_screen_input :: "string \<Rightarrow> (string \<times> int \<times> string) chan \<Rightarrow> session \<Rightarrow> bool \<times> session" where
  "subscribe_screen_input sid ch s =
     (ft_input_status (s_features s), s\<lparr>s_scr_inp := gm_put sid ch (s_scr_inp s)\<rparr>)"

definition subscribe_screen_aux :: "string \<Rightarrow> aux_msg chan \<Rightarrow> session \<Rightarrow> bool \<times> bool \<times> session" where
  "subscribe_screen_aux sid ch s =
     (ft_cursor (s_features s), ft_clipboard (s_features s), s\<lparr>s_scr_aux := gm_put sid ch (s_scr_aux s)\<rparr>)"

definition close_screen :: "bool \<Rightarrow> string \<Rightarrow> session \<Rightarrow> session" where
  "close_screen ok sid s =
     (let s1 = s\<lparr>s_scr_subs := gm_del sid (s_scr_subs s), s_scr_err := gm_del sid (s_scr_err s),
                 s_scr_inp := gm_del sid (s_scr_inp s), s_scr_aux := gm_del sid (s_scr_aux s)\<rparr>;
          s2 = (case map_of (s_scr2_ids s1) sid of
                  None \<Rightarrow> s1
                | Some stream \<Rightarrow> s1\<lparr>s_scr2 := gm_del stream (s_scr2 s1), s_scr2_ids := gm_del sid (s_scr2_ids s1)\<rparr>)
      in snd (s_send ok (OScreenClose sid) s2))"

definition open_terminal ::
  "bool \<Rightarrow> string \<Rightarrow> string \<Rightarrow> u16 \<Rightarrow> u16 \<Rightarrow> bytes chan \<Rightarrow> (int \<times> string) chan \<Rightarrow> session \<Rightarrow> bool \<times> session" where
  "open_terminal ok sid shell cols rows out ex s =
     s_send ok (OTermOpen sid cols rows shell)
       (s\<lparr>s_term_subs := gm_put sid out (s_term_subs s), s_term_exit := gm_put sid ex (s_term_exit s)\<rparr>)"

definition terminal_input :: "bool \<Rightarrow> string \<Rightarrow> bytes \<Rightarrow> session \<Rightarrow> bool \<times> session" where
  "terminal_input ok sid data s = s_send ok (OTermInput sid data) s"

definition terminal_resize :: "bool \<Rightarrow> string \<Rightarrow> u16 \<Rightarrow> u16 \<Rightarrow> session \<Rightarrow> bool \<times> session" where
  "terminal_resize ok sid cols rows s = s_send ok (OTermResize sid cols rows) s"

definition close_terminal :: "bool \<Rightarrow> string \<Rightarrow> session \<Rightarrow> session" where
  "close_terminal ok sid s =
     snd (s_send ok (OTermClose sid)
       (s\<lparr>s_term_subs := gm_del sid (s_term_subs s), s_term_exit := gm_del sid (s_term_exit s)\<rparr>))"

definition screen_input :: "bool \<Rightarrow> string \<Rightarrow> bytes \<Rightarrow> session \<Rightarrow> bool \<times> session" where
  "screen_input ok sid ev s = s_send ok (OScreenInput sid ev) s"

definition MaxScreenClipboardSize :: nat where "MaxScreenClipboardSize = 64 * 1024"

text \<open>\<open>ClipboardTextOK\<close>; \<open>utf8\<close> is the result of \<open>utf8.ValidString\<close>.\<close>

definition clipboard_text_ok :: "bool \<Rightarrow> string \<Rightarrow> bool" where
  "clipboard_text_ok utf8 t \<longleftrightarrow> length t \<le> MaxScreenClipboardSize \<and> utf8"

datatype clipboard_result = ClipOk | ClipUnsupported | ClipBadText | ClipSendFailed

definition screen_clipboard_set :: "bool \<Rightarrow> bool \<Rightarrow> string \<Rightarrow> string \<Rightarrow> session \<Rightarrow> clipboard_result \<times> session" where
  "screen_clipboard_set ok utf8 sid t s =
     (if \<not> ft_clipboard (s_features s) then (ClipUnsupported, s)
      else if \<not> clipboard_text_ok utf8 t then (ClipBadText, s)
      else case s_send ok (OClipboard sid t) s of
          (True, s') \<Rightarrow> (ClipOk, s') | (False, s') \<Rightarrow> (ClipSendFailed, s'))"

definition screen_clipboard_watch :: "bool \<Rightarrow> string \<Rightarrow> bool \<Rightarrow> session \<Rightarrow> clipboard_result \<times> session" where
  "screen_clipboard_watch ok sid enable s =
     (if \<not> ft_clipboard (s_features s) then (ClipUnsupported, s)
      else case s_send ok (OClipboardWatch sid enable) s of
          (True, s') \<Rightarrow> (ClipOk, s') | (False, s') \<Rightarrow> (ClipSendFailed, s'))"

section \<open>Routing\<close>

text \<open>\<open>askKeyframe\<close>: at most one request per second; \<open>None\<close> is the zero time.\<close>

definition ask_keyframe :: "time \<Rightarrow> screen2_sub \<Rightarrow> bool \<times> screen2_sub" where
  "ask_keyframe now sub =
     (if (case s2_last_req sub of None \<Rightarrow> True | Some t \<Rightarrow> now - t \<ge> screen2KeyframeRetry)
      then (True, sub\<lparr>s2_last_req := Some now\<rparr>) else (False, sub))"

text \<open>What one screen message does to its subscriber: whether it was delivered, whether a key frame
  is asked for.\<close>

definition screen2_deliver :: "time \<Rightarrow> bool \<Rightarrow> bool \<Rightarrow> bytes \<Rightarrow> screen2_sub \<Rightarrow> bool \<times> bool \<times> screen2_sub" where
  "screen2_deliver now key first data sub =
     (if s2_resync sub \<and> \<not> (key \<and> first)
      then (case ask_keyframe now sub of (ask, sub') \<Rightarrow> (False, ask, sub'))
      else
        let sub1 = sub\<lparr>s2_resync := False\<rparr> in
        case chan_offer data (s2_ch sub1) of
          Some ch \<Rightarrow> (True, False, sub1\<lparr>s2_ch := ch\<rparr>)
        | None \<Rightarrow> (case ask_keyframe now (sub1\<lparr>s2_resync := True\<rparr>) of (ask, sub') \<Rightarrow> (False, ask, sub')))"

definition ask_if :: "bool \<Rightarrow> bool \<Rightarrow> string \<Rightarrow> session \<Rightarrow> session" where
  "ask_if ask ok sid s = (if ask then snd (screen2_keyframe ok sid s) else s)"

definition route_screen2 :: "bool \<Rightarrow> time \<Rightarrow> bytes \<Rightarrow> session \<Rightarrow> session" where
  "route_screen2 ok now data s =
     (if \<not> ft_screen2 (s_features s) then s
      else case decode_screen data of
        Inl e \<Rightarrow> s
      | Inr m \<Rightarrow>
          (case map_of (s_scr2 s) (sm_stream m) of
             None \<Rightarrow> s
           | Some sub \<Rightarrow>
               (case screen2_deliver now (sm_key m) (sm_first m) data sub of
                  (delivered, ask, sub') \<Rightarrow>
                    ask_if ask ok (s2_session sub) (s\<lparr>s_scr2 := gm_put (sm_stream m) sub' (s_scr2 s)\<rparr>))))"

text \<open>What one video message does to its subscriber: a full channel drops it, but unlike a dropped screen
  message it leaves no mark.\<close>

definition screen2_video_deliver :: "time \<Rightarrow> bytes \<Rightarrow> screen2_sub \<Rightarrow> bool \<times> bool \<times> screen2_sub" where
  "screen2_video_deliver now data sub =
     (case chan_offer data (s2_ch sub) of
        Some ch \<Rightarrow> (True, False, sub\<lparr>s2_ch := ch\<rparr>)
      | None \<Rightarrow> (case ask_keyframe now sub of (ask, sub') \<Rightarrow> (False, ask, sub')))"

definition route_screen2_video :: "bool \<Rightarrow> time \<Rightarrow> bytes \<Rightarrow> session \<Rightarrow> session" where
  "route_screen2_video ok now data s =
     (if \<not> ft_screen2 (s_features s) \<or> \<not> ft_video (s_features s) then s
      else case decode_video data of
        Inl e \<Rightarrow> s
      | Inr m \<Rightarrow>
          (case map_of (s_scr2 s) (vm_stream m) of
             None \<Rightarrow> s
           | Some sub \<Rightarrow>
               (case screen2_video_deliver now data sub of
                  (delivered, ask, sub') \<Rightarrow>
                    ask_if ask ok (s2_session sub) (s\<lparr>s_scr2 := gm_put (vm_stream m) sub' (s_scr2 s)\<rparr>))))"

text \<open>\<open>routeScreenAux\<close>; \<open>valid\<close> is the message's own check.\<close>

definition aux_supported :: "features \<Rightarrow> aux_msg \<Rightarrow> bool" where
  "aux_supported f m = (case m of
     AuxCursor _ \<Rightarrow> ft_cursor f | AuxShape _ \<Rightarrow> ft_cursor f
   | AuxStats _ \<Rightarrow> ft_stats f | AuxClipboard _ \<Rightarrow> ft_clipboard f)"

definition route_screen_aux :: "string \<Rightarrow> aux_msg \<Rightarrow> bool \<Rightarrow> session \<Rightarrow> session" where
  "route_screen_aux sid m valid s =
     (if \<not> aux_supported (s_features s) m \<or> \<not> valid then s
      else s\<lparr>s_scr_aux := notify sid m (s_scr_aux s)\<rparr>)"

section \<open>The subscriber sees no gap in the screen messages\<close>

text \<open>A history of one stream: screen messages, as (time, key, first, data), and video messages pushed
  into the same channel, with reads of the subscriber in between. The run gives for each message
  whether it was delivered, what the reader took, and the subscriber at the end.\<close>

datatype screen_event = FrameMsg time bool bool bytes | VideoMsg time bytes | TakeMsg

fun screen2_run :: "screen_event list \<Rightarrow> screen2_sub \<Rightarrow> bool list \<times> bytes list \<times> screen2_sub" where
  "screen2_run [] sub = ([], [], sub)"
| "screen2_run (FrameMsg t k f d # es) sub =
     (case screen2_deliver t k f d sub of
        (ok, ask, sub') \<Rightarrow> (case screen2_run es sub' of (oks, outs, r) \<Rightarrow> (ok # oks, outs, r)))"
| "screen2_run (VideoMsg t d # es) sub =
     (case screen2_video_deliver t d sub of
        (ok, ask, sub') \<Rightarrow> (case screen2_run es sub' of (oks, outs, r) \<Rightarrow> (ok # oks, outs, r)))"
| "screen2_run (TakeMsg # es) sub =
     (case chan_take (s2_ch sub) of
        None \<Rightarrow> screen2_run es sub
      | Some (d, ch) \<Rightarrow>
          (case screen2_run es (sub\<lparr>s2_ch := ch\<rparr>) of (oks, outs, r) \<Rightarrow> (oks, d # outs, r)))"

datatype stream_msg = Tile bool bool bytes | Video bytes

fun msg_data :: "stream_msg \<Rightarrow> bytes" where
  "msg_data (Tile k f d) = d"
| "msg_data (Video d) = d"

fun stream_msgs :: "screen_event list \<Rightarrow> stream_msg list" where
  "stream_msgs [] = []"
| "stream_msgs (FrameMsg t k f d # es) = Tile k f d # stream_msgs es"
| "stream_msgs (VideoMsg t d # es) = Video d # stream_msgs es"
| "stream_msgs (TakeMsg # es) = stream_msgs es"

lemma ask_keyframe_fields:
  "ask_keyframe now sub = (a, sub') \<Longrightarrow> s2_ch sub' = s2_ch sub \<and> s2_resync sub' = s2_resync sub \<and> s2_session sub' = s2_session sub"
  by (auto simp: ask_keyframe_def split: if_splits)

lemma screen2_deliver_cases:
  assumes "screen2_deliver now key first data sub = (ok, ask, sub')"
  shows "(ok \<longrightarrow> \<not> s2_resync sub' \<and> s2_ch sub' = chan_push data (s2_ch sub) \<and> (s2_resync sub \<longrightarrow> key \<and> first)) \<and>
    (\<not> ok \<longrightarrow> s2_resync sub' \<and> s2_ch sub' = s2_ch sub) \<and> s2_session sub' = s2_session sub"
proof (cases "s2_resync sub \<and> \<not> (key \<and> first)")
  case True
  then obtain a s' where "ask_keyframe now sub = (a, s')" "ok = False" "sub' = s'"
    using assms by (auto simp: screen2_deliver_def split: prod.splits)
  with True show ?thesis by (auto dest: ask_keyframe_fields)
next
  case False
  show ?thesis
  proof (cases "chan_offer data (s2_ch sub)")
    case None
    with False assms obtain a where "ask_keyframe now (sub\<lparr>s2_resync := True\<rparr>) = (a, sub')" "ok = False"
      by (auto simp: screen2_deliver_def Let_def split: prod.splits)
    then show ?thesis by (auto dest: ask_keyframe_fields)
  next
    case (Some ch)
    then have "ch = chan_push data (s2_ch sub)" by (rule chan_offer_SomeE) simp
    with Some False assms show ?thesis by (auto simp: screen2_deliver_def Let_def)
  qed
qed

lemma screen2_video_cases:
  assumes "screen2_video_deliver now data sub = (ok, ask, sub')"
  shows "s2_ch sub' = (if ok then chan_push data (s2_ch sub) else s2_ch sub) \<and> s2_resync sub' = s2_resync sub"
proof (cases "chan_offer data (s2_ch sub)")
  case None
  with assms obtain a where "ask_keyframe now sub = (a, sub')" "ok = False"
    by (auto simp: screen2_video_deliver_def split: prod.splits)
  then show ?thesis by (auto dest: ask_keyframe_fields)
next
  case (Some ch)
  then have "ch = chan_push data (s2_ch sub)" by (rule chan_offer_SomeE) simp
  with Some assms show ?thesis by (auto simp: screen2_video_deliver_def)
qed

text \<open>In \<open>oks\<close> a refused screen message (False) is never followed by a delivered screen message that is
  not the first message of a key frame; video messages in between neither wait nor end the wait.\<close>

fun resync_rule :: "bool \<Rightarrow> bool list \<Rightarrow> stream_msg list \<Rightarrow> bool" where
  "resync_rule pending (ok # oks) (Tile k f d # ms) =
     ((ok \<and> pending \<longrightarrow> k \<and> f) \<and> resync_rule (\<not> ok) oks ms)"
| "resync_rule pending (ok # oks) (Video d # ms) = resync_rule pending oks ms"
| "resync_rule _ _ _ = True"

definition delivered :: "bool list \<Rightarrow> stream_msg list \<Rightarrow> bytes list" where
  "delivered oks ms = map (\<lambda>(ok, m). msg_data m) (filter fst (zip oks ms))"

lemma delivered_Cons [simp]:
  "delivered [] [] = []"
  "delivered (ok # oks) (m # ms) = (if ok then [msg_data m] else []) @ delivered oks ms"
  by (simp_all add: delivered_def)

lemma screen2_run_rule:
  "screen2_run es sub = (oks, outs, r) \<Longrightarrow> length oks = length (stream_msgs es) \<and>
   resync_rule (s2_resync sub) oks (stream_msgs es) \<and>
   ch_buf (s2_ch sub) @ delivered oks (stream_msgs es) = outs @ ch_buf (s2_ch r)"
proof (induction es sub arbitrary: oks outs r rule: screen2_run.induct)
  case (1 sub)
  then show ?case by auto
next
  case (2 t k f d es sub)
  obtain ok ask sub' where d: "screen2_deliver t k f d sub = (ok, ask, sub')" by (metis prod_cases3)
  obtain oks' outs' r' where r: "screen2_run es sub' = (oks', outs', r')" by (metis prod_cases3)
  note c = screen2_deliver_cases [OF d]
  from 2(1) [OF d [symmetric] refl r] c d r 2(2) show ?case
    by (cases ok) (auto simp: chan_push_def)
next
  case (3 t d es sub)
  obtain ok ask sub' where d: "screen2_video_deliver t d sub = (ok, ask, sub')" by (metis prod_cases3)
  obtain oks' outs' r' where r: "screen2_run es sub' = (oks', outs', r')" by (metis prod_cases3)
  note c = screen2_video_cases [OF d]
  from 3(1) [OF d [symmetric] refl r] c d r 3(2) show ?case
    by (cases ok) (auto simp: chan_push_def)
next
  case (4 es sub)
  show ?case
  proof (cases "chan_take (s2_ch sub)")
    case None
    with 4 show ?thesis by simp
  next
    case (Some p)
    then obtain d ch where p: "chan_take (s2_ch sub) = Some (d, ch)" by (cases p) auto
    obtain oks' outs' r' where r: "screen2_run es (sub\<lparr>s2_ch := ch\<rparr>) = (oks', outs', r')" by (metis prod_cases3)
    have "ch_buf (s2_ch sub) = d # ch_buf ch"
      using p by (auto simp: chan_take_def split: list.splits)
    with 4(2) [OF p refl r] p r 4(3) show ?thesis by auto
  qed
qed

text \<open>A dropped video message is not remembered: with a channel of one message, the second of three
  video messages is lost and the third is delivered, whatever it is.\<close>

lemma video_gap:
  "fst (screen2_run [VideoMsg 0 a, VideoMsg 0 b, TakeMsg, VideoMsg 0 c]
     \<lparr>s2_session = sid, s2_ch = make_chan 1, s2_resync = False, s2_last_req = None\<rparr>) = [True, False, True]"
  by (simp add: screen2_video_deliver_def ask_keyframe_def make_chan_def chan_offer_def chan_take_def chan_push_def chan_full_def)

text \<open>C33: whatever the screen and video messages of a stream, the speed of its viewer and the channel
  size, the viewer receives in order exactly the messages (of both kinds) that were delivered, and after
  a dropped screen message the next delivered screen message starts a key frame, whatever video messages
  come between: a viewer never decodes screen tiles across a gap. (A dropped video message gives no such
  guarantee, see \<open>video_gap\<close>.)\<close>

theorem screen_stream_no_gap:
  "case screen2_run es \<lparr>s2_session = sid, s2_ch = make_chan n, s2_resync = False, s2_last_req = None\<rparr> of
     (oks, outs, r) \<Rightarrow> resync_rule False oks (stream_msgs es) \<and>
       delivered oks (stream_msgs es) = outs @ ch_buf (s2_ch r) \<and> length oks = length (stream_msgs es)"
proof -
  let ?sub = "\<lparr>s2_session = sid, s2_ch = make_chan n, s2_resync = False, s2_last_req = None\<rparr>"
  obtain oks outs r where run: "screen2_run es ?sub = (oks, outs, r)" by (metis prod_cases3)
  from screen2_run_rule [OF run] show ?thesis unfolding run by (simp add: make_chan_def)
qed

end
