(* ===== verification/Session_Run.thy ===== *)
theory Session_Run
  imports Session_Exchanges Bridges Screen_Stream
begin

text \<open>
  The life of a session (\<open>server/tunnel/session.go\<close>): the dispatch of control messages, the read loop
  with its limit of consecutive bad frames, the heartbeat, and the release of every table when the
  loop ends. \<open>net\<close> tells which network messages the network manager rejects (\<open>server/netctl\<close>).
\<close>

definition maxMissedPongs :: int where "maxMissedPongs = 2"
definition maxConsecutiveBadFrames :: int where "maxConsecutiveBadFrames = 5"

section \<open>Control messages\<close>

definition route_screen_frame :: "screen_frame \<Rightarrow> session \<Rightarrow> session" where
  "route_screen_frame m s =
     (case map_of (s_scr_subs s) (sf_session m) of
        None \<Rightarrow> s
      | Some ch \<Rightarrow>
          (case chan_offer m ch of
             Some ch' \<Rightarrow> s\<lparr>s_scr_subs := gm_put (sf_session m) ch' (s_scr_subs s)\<rparr>
           | None \<Rightarrow>
               if sf_codec m = ''h264''
               then s\<lparr>s_scr_err := notify (sf_session m) ''video akisi yetisemedi (ag yavas); yeniden baglanin veya daha dusuk cozunurluk secin'' (s_scr_err s)\<rparr>
               else s))"

definition handle_control :: "(bytes \<Rightarrow> bool) \<Rightarrow> in_msg \<Rightarrow> session \<Rightarrow> bool \<times> session" where
  "handle_control net m s =
     (case m of
        InUndecodable \<Rightarrow> (False, s)
      | InPong mt \<Rightarrow>
          (True, case mt of None \<Rightarrow> s\<lparr>s_missed_pongs := 0\<rparr>
                 | Some x \<Rightarrow> s\<lparr>s_missed_pongs := 0, s_metrics := Some x\<rparr>)
      | InProbeEcho b \<Rightarrow> (True, hand_over (ToProbe b) s)
      | InIgnored \<Rightarrow> (True, s)
      | InProbeStats b \<Rightarrow> (True, hand_over (ToProbeStats b) s)
      | InNet b \<Rightarrow> (\<not> net b, hand_over (ToNet b) s)
      | InBye reason \<Rightarrow> (True, s\<lparr>s_conn_open := False\<rparr>)
      | InWSAccept acc \<Rightarrow> (True, route_ws_accept acc s)
      | InWSClose rid \<Rightarrow> (True, snd (route_ws_close rid s))
      | InStreamAck ack \<Rightarrow> (True, route_stream_ack ack s)
      | InStreamClose rid \<Rightarrow> (True, snd (route_stream_close rid s))
      | InHTTPResponse rid st hs hb \<Rightarrow> (True, route_http_response rid st hs hb s)
      | InTermOutput sid d \<Rightarrow> (True, s\<lparr>s_term_subs := notify sid d (s_term_subs s)\<rparr>)
      | InTermExit sid c msg \<Rightarrow> (True, s\<lparr>s_term_exit := notify sid (c, msg) (s_term_exit s)\<rparr>)
      | InScreenFrame f \<Rightarrow> (True, route_screen_frame f s)
      | InScreenError sid msg \<Rightarrow> (True, s\<lparr>s_scr_err := notify sid msg (s_scr_err s)\<rparr>)
      | InScreenInput sid st c d \<Rightarrow> (True, s\<lparr>s_scr_inp := notify sid (st, c, d) (s_scr_inp s)\<rparr>)
      | InScreenAux sid a v \<Rightarrow> (True, route_screen_aux sid a v s)
      | InFile b \<Rightarrow> (True, hand_over (ToFiles b) s)
      | InHTTPError rid c msg \<Rightarrow> (True, route_http_error rid c msg s)
      | InUnknown t \<Rightarrow> (True, s))"

section \<open>The read loop\<close>

datatype conn_event = EvText in_msg | EvBinary bytes | EvReadError bool

datatype run_state = Running | StoppedNormal | StoppedError | StoppedBad | Panicked

definition touch :: "time \<Rightarrow> session \<Rightarrow> session" where
  "touch now s = s\<lparr>s_last_seen := now\<rparr>"

definition route_body_frame :: "bool \<Rightarrow> body_frame \<Rightarrow> session \<Rightarrow> route_result \<times> session" where
  "route_body_frame pick f s =
     (if bf_type f = FrameWSData then (RouteOk, route_ws_data pick (bf_req f) (bf_payload f) s)
      else if bf_type f = FrameStreamData \<or> bf_type f = FrameDatagram
        then (RouteOk, route_stream_data pick (bf_req f) (bf_payload f) s)
      else if bf_type f \<noteq> FrameResponseBody then (RouteOk, s)
      else route_response_body pick f s)"

definition bad_frame :: "session \<Rightarrow> run_state \<times> session" where
  "bad_frame s =
     (let s' = s\<lparr>s_bad_frames := s_bad_frames s + 1\<rparr> in
      if s_bad_frames s' \<ge> maxConsecutiveBadFrames then (StoppedBad, s'\<lparr>s_conn_open := False\<rparr>) else (Running, s'))"

definition route_binary :: "bool \<Rightarrow> bool \<Rightarrow> time \<Rightarrow> bytes \<Rightarrow> body_frame \<Rightarrow> session \<Rightarrow> route_result \<times> session" where
  "route_binary ok pick now data f s =
     (if bf_type f = FrameScreen then (RouteOk, route_screen2 ok now data s)
      else if bf_type f = FrameVideo then (RouteOk, route_screen2_video ok now data s)
      else if bf_type f = FrameFile then (RouteOk, hand_over (ToFileData f) s)
      else if bf_type f = FrameWG then (RouteOk, hand_over (ToNetRelay (bf_req f) (bf_payload f)) s)
      else route_body_frame pick f s)"

definition run_step :: "(bytes \<Rightarrow> bool) \<Rightarrow> bool \<Rightarrow> bool \<Rightarrow> time \<Rightarrow> conn_event \<Rightarrow> session \<Rightarrow> run_state \<times> session" where
  "run_step net ok pick now ev s =
     (case ev of
        EvReadError normal \<Rightarrow> (if normal then StoppedNormal else StoppedError, s)
      | EvText m \<Rightarrow>
          (case handle_control net m (touch now s) of
             (False, s') \<Rightarrow> bad_frame s'
           | (True, s') \<Rightarrow> (Running, s'\<lparr>s_bad_frames := 0\<rparr>))
      | EvBinary data \<Rightarrow>
          (case decode_frame data of
             Inl e \<Rightarrow> bad_frame (touch now s)
           | Inr f \<Rightarrow>
               (case route_binary ok pick now data f ((touch now s)\<lparr>s_bad_frames := 0\<rparr>) of
                  (RouteOk, s') \<Rightarrow> (Running, s')
                | (RoutePanic, s') \<Rightarrow> (Panicked, s'))))"

text \<open>The deferred calls, last first.\<close>

definition run_end :: "session \<Rightarrow> session" where
  "run_end s = snd (fail_all_pending (snd (close_all_ws (snd (close_all_raw s)))))"

text \<open>The loop over a sequence of arrivals, each with its time and its environment choices.\<close>

fun run_loop :: "(bytes \<Rightarrow> bool) \<Rightarrow> (bool \<times> bool \<times> time \<times> conn_event) list \<Rightarrow> session \<Rightarrow> run_state \<times> session" where
  "run_loop net [] s = (Running, s)"
| "run_loop net ((ok, pick, now, ev) # evs) s =
     (case run_step net ok pick now ev s of
        (Running, s') \<Rightarrow> run_loop net evs s'
      | (r, s') \<Rightarrow> (r, run_end s'))"

section \<open>The heartbeat\<close>

datatype beat = BeatGoesOn | BeatClosed | BeatSendFailed

definition heartbeat_tick :: "bool \<Rightarrow> time \<Rightarrow> session \<Rightarrow> beat \<times> session" where
  "heartbeat_tick ok now s =
     (let s' = s\<lparr>s_missed_pongs := s_missed_pongs s + 1\<rparr> in
      if s_missed_pongs s' > maxMissedPongs then (BeatClosed, s'\<lparr>s_conn_open := False\<rparr>)
      else case s_send ok (OPing now) s' of
          (True, s'') \<Rightarrow> (BeatGoesOn, s'')
        | (False, s'') \<Rightarrow> (BeatSendFailed, s''))"

section \<open>Counters of consecutive events\<close>

text \<open>Both limits count consecutive events: a counter that a good event resets and that stops
  everything when it reaches \<open>n\<close>.\<close>

fun counts_to :: "nat \<Rightarrow> nat \<Rightarrow> bool list \<Rightarrow> bool" where
  "counts_to n c [] = False"
| "counts_to n c (b # bs) = (if b then (if Suc c \<ge> n then True else counts_to n (Suc c) bs) else counts_to n 0 bs)"

lemma replicate_prefix_mono:
  "bs = replicate k True @ post \<Longrightarrow> j \<le> k \<Longrightarrow> \<exists>post'. bs = replicate j True @ post'"
  by (metis append_assoc le_add_diff_inverse replicate_add)

lemma counts_to_iff:
  "c < n \<Longrightarrow> counts_to n c bs \<longleftrightarrow>
   (\<exists>post. bs = replicate (n - c) True @ post) \<or> (\<exists>pre post. bs = pre @ replicate n True @ post)"
proof (induction bs arbitrary: c)
  case Nil
  then show ?case by auto
next
  case (Cons b bs)
  have sub: "(\<exists>pre post. b # bs = pre @ replicate n True @ post) \<longleftrightarrow>
      (\<exists>post. b # bs = replicate n True @ post) \<or> (\<exists>pre post. bs = pre @ replicate n True @ post)"
    by (metis Cons_eq_append_conv append_Cons append_Nil)
  obtain m where n: "n = Suc m" using Cons.prems by (cases n) auto
  show ?case
  proof (cases b)
    case False
    then have "\<not> (\<exists>post. b # bs = replicate (n - c) True @ post)" "\<not> (\<exists>post. b # bs = replicate n True @ post)"
      using Cons.prems n by (auto simp: Suc_diff_le)
    moreover have "(\<exists>post. bs = replicate n True @ post) \<Longrightarrow> (\<exists>pre post. bs = pre @ replicate n True @ post)"
      by (metis append_Nil)
    ultimately show ?thesis using Cons.IH [of 0] False sub n by auto
  next
    case True
    have pre: "(\<exists>post. b # bs = replicate (Suc k) True @ post) \<longleftrightarrow> (\<exists>post. bs = replicate k True @ post)" for k
      using True by auto
    show ?thesis
    proof (cases "Suc c \<ge> n")
      case True
      with Cons.prems have "n - c = Suc 0" by simp
      with True \<open>b\<close> show ?thesis by simp
    next
      case False
      then have d: "n - c = Suc (n - Suc c)" using Cons.prems by simp
      have "(\<exists>post. bs = replicate m True @ post) \<Longrightarrow> (\<exists>post. bs = replicate (n - Suc c) True @ post)"
        using replicate_prefix_mono [of bs m _ "n - Suc c"] n by auto
      with False \<open>b\<close> Cons.IH [of "Suc c"] sub pre [of "n - Suc c"] pre [of m] n show ?thesis
        unfolding d by auto
    qed
  qed
qed

lemma counts_to_sublist:
  "0 < n \<Longrightarrow> counts_to n 0 bs \<longleftrightarrow> (\<exists>pre post. bs = pre @ replicate n True @ post)"
  by (simp add: counts_to_iff) (metis append_Nil)

section \<open>Bad frames\<close>

definition bad_event :: "(bytes \<Rightarrow> bool) \<Rightarrow> conn_event \<Rightarrow> bool" where
  "bad_event net ev =
     (case ev of
        EvText m \<Rightarrow> (case m of InUndecodable \<Rightarrow> True | InNet b \<Rightarrow> net b | _ \<Rightarrow> False)
      | EvBinary d \<Rightarrow> (case decode_frame d of Inl _ \<Rightarrow> True | Inr _ \<Rightarrow> False)
      | EvReadError _ \<Rightarrow> False)"

lemma handle_control_result: "fst (handle_control net m s) = (\<not> bad_event net (EvText m))"
  by (cases m) (simp_all add: handle_control_def bad_event_def)

lemma bad_frames_kept [simp]:
  "s_bad_frames (snd (s_send ok m s)) = s_bad_frames s"
  "s_bad_frames (hand_over h s) = s_bad_frames s"
  "s_bad_frames (route_ws_accept acc s) = s_bad_frames s"
  "s_bad_frames (snd (route_ws_close rid s)) = s_bad_frames s"
  "s_bad_frames (route_stream_ack ack s) = s_bad_frames s"
  "s_bad_frames (snd (route_stream_close rid s)) = s_bad_frames s"
  "s_bad_frames (route_ws_data pick rid p s) = s_bad_frames s"
  "s_bad_frames (route_stream_data pick rid p s) = s_bad_frames s"
  "s_bad_frames (update_exchange rid f s) = s_bad_frames s"
  "s_bad_frames (route_screen_aux sid a v s) = s_bad_frames s"
  "s_bad_frames (route_screen_frame fr s) = s_bad_frames s"
  by (simp_all add: s_send_def hand_over_def route_ws_accept_def route_ws_close_def route_stream_ack_def
      route_stream_close_def route_ws_data_def route_stream_data_def update_exchange_def
      put_ws_def put_raw_def remove_ws_def remove_raw_def route_screen_aux_def route_screen_frame_def Let_def
      split: option.split)

lemma bad_frames_response [simp]: "s_bad_frames (snd (route_response_body pick f s)) = s_bad_frames s"
  by (auto simp: route_response_body_def split: option.split prod.split write_result.split body_error.split)

lemma bad_frames_ask [simp]: "s_bad_frames (ask_if ask ok sid s) = s_bad_frames s"
  by (simp add: ask_if_def screen2_keyframe_def guarded_send_def s_send_def)

lemma bad_frames_screen2 [simp]:
  "s_bad_frames (route_screen2 ok now data s) = s_bad_frames s"
  "s_bad_frames (route_screen2_video ok now data s) = s_bad_frames s"
  by (simp_all add: route_screen2_def route_screen2_video_def split: sum.split option.split prod.split)

lemma bad_frames_binary [simp]: "s_bad_frames (snd (route_binary ok pick now data f s)) = s_bad_frames s"
  by (simp add: route_binary_def route_body_frame_def)

lemma bad_frames_control [simp]: "s_bad_frames (snd (handle_control net m s)) = s_bad_frames s"
  by (cases m) (simp_all add: handle_control_def route_http_response_def route_http_error_def split: option.split)

lemma touch_bad [simp]: "s_bad_frames (touch now s) = s_bad_frames s"
  by (simp add: touch_def)

text \<open>What one arrival does to the counter.\<close>

lemma run_step_counter:
  assumes "run_step net ok pick now ev s = (r, s')" "\<not> (\<exists>n. ev = EvReadError n)"
  shows "if bad_event net ev then s_bad_frames s' = s_bad_frames s + 1 \<and>
           r = (if s_bad_frames s + 1 \<ge> maxConsecutiveBadFrames then StoppedBad else Running)
         else s_bad_frames s' = 0 \<and> (r = Running \<or> r = Panicked)"
proof (cases ev)
  case (EvText m)
  obtain b t where h: "handle_control net m (touch now s) = (b, t)" by force
  have "b = (\<not> bad_event net ev)" using handle_control_result [of net m "touch now s"] h EvText by simp
  moreover have "s_bad_frames t = s_bad_frames s" using bad_frames_control [of net m "touch now s"] h by simp
  ultimately show ?thesis
    using assms(1) EvText h by (auto simp: run_step_def bad_frame_def Let_def split: bool.splits if_splits)
next
  case (EvBinary data)
  show ?thesis
  proof (cases "decode_frame data")
    case (Inl e)
    then show ?thesis using assms(1) EvBinary
      by (auto simp: run_step_def bad_frame_def Let_def bad_event_def split: if_splits)
  next
    case (Inr f)
    obtain rr t where h: "route_binary ok pick now data f ((touch now s)\<lparr>s_bad_frames := 0\<rparr>) = (rr, t)" by force
    have "s_bad_frames t = 0"
      using bad_frames_binary [of ok pick now data f "(touch now s)\<lparr>s_bad_frames := 0\<rparr>"] h by simp
    with assms(1) EvBinary Inr h show ?thesis
      by (auto simp: run_step_def bad_event_def split: route_result.splits)
  qed
qed (use assms in simp)

lemma run_loop_counter:
  "s_bad_frames s = int c \<Longrightarrow> int c < maxConsecutiveBadFrames \<Longrightarrow>
   (fst (run_loop net evs s) = StoppedBad \<longrightarrow> counts_to 5 c (map (\<lambda>(ok, pick, now, ev). bad_event net ev) evs)) \<and>
   (fst (run_loop net evs s) = Running \<longrightarrow> \<not> counts_to 5 c (map (\<lambda>(ok, pick, now, ev). bad_event net ev) evs))"
proof (induction evs arbitrary: s c)
  case Nil
  then show ?case by simp
next
  case (Cons a evs)
  obtain ok pick now ev where a: "a = (ok, pick, now, ev)" by (cases a)
  obtain r s' where st: "run_step net ok pick now ev s = (r, s')" by force
  show ?case
  proof (cases "\<exists>n. ev = EvReadError n")
    case True
    then have "r = StoppedNormal \<or> r = StoppedError" using st by (auto simp: run_step_def split: if_splits)
    with st a show ?thesis by auto
  next
    case False
    note q = run_step_counter [OF st False]
    show ?thesis
    proof (cases "bad_event net ev")
      case True
      with q Cons.prems have q': "s_bad_frames s' = int (Suc c)"
        "r = (if int (Suc c) \<ge> 5 then StoppedBad else Running)"
        by (auto simp: maxConsecutiveBadFrames_def)
      show ?thesis
      proof (cases "Suc c \<ge> 5")
        case True
        with q' st a \<open>bad_event net ev\<close> show ?thesis by simp
      next
        case False
        with q' Cons.IH [of s' "Suc c"] st a \<open>bad_event net ev\<close> show ?thesis
          by (simp add: maxConsecutiveBadFrames_def)
      qed
    next
      case False
      with q have "s_bad_frames s' = int 0" "r = Running \<or> r = Panicked" by auto
      with Cons.IH [of s' 0] st a False show ?thesis
        by (auto simp: maxConsecutiveBadFrames_def)
    qed
  qed
qed

text \<open>The session is closed for bad frames only after five arrivals in a row that do not decode
  (or that the network manager rejects), and it never survives five in a row; a good frame in
  between starts the count again.\<close>

lemma bad_frame_limit:
  assumes "s_bad_frames s = 0"
  shows "(fst (run_loop net evs s) = StoppedBad \<longrightarrow>
      (\<exists>pre post. map (\<lambda>(ok, pick, now, ev). bad_event net ev) evs = pre @ replicate 5 True @ post)) \<and>
    (fst (run_loop net evs s) = Running \<longrightarrow>
      \<not> (\<exists>pre post. map (\<lambda>(ok, pick, now, ev). bad_event net ev) evs = pre @ replicate 5 True @ post))"
  using run_loop_counter [of s 0 net evs] assms counts_to_sublist [of 5]
  by (simp add: maxConsecutiveBadFrames_def)

definition open_session :: session where
  "open_session = new_session ''s1'' ''c1''
     \<lparr>ft_flow = True, ft_input_status = True, ft_screen2 = True, ft_layers = True, ft_cursor = True,
      ft_clipboard = True, ft_stats = True, ft_feedback = True, ft_video = True\<rparr> 0"

theorem bad_frame_limit_witness:
  "\<exists>pre post. replicate 5 True = pre @ replicate 5 True @ post"
proof -
  let ?evs = "replicate 5 (True, False, 0, EvBinary [])"
  have "fst (run_loop (\<lambda>_. False) ?evs open_session) = StoppedBad"
    by (simp add: numeral_eq_Suc run_step_def decode_frame_def HeaderSize_def bad_frame_def touch_def
        open_session_def new_session_def maxConsecutiveBadFrames_def)
  with bad_frame_limit [of open_session "\<lambda>_. False" ?evs] show ?thesis
    by (simp add: open_session_def new_session_def bad_event_def decode_frame_def HeaderSize_def)
qed

section \<open>The tables\<close>

text \<open>Every live exchange, bridge and screen stream has an identifier of its own: frames are routed
  by it alone. \<open>owners\<close> counts the tables an identifier occurs in. \<open>s_next\<close> is a 64-bit counter; the
  steps that allocate do so below its last value.\<close>

definition owners :: "session \<Rightarrow> u64 \<Rightarrow> nat" where
  "owners s k = of_bool (map_of (s_pending s) k \<noteq> None) + of_bool (map_of (s_ws s) k \<noteq> None)
     + of_bool (map_of (s_raw s) k \<noteq> None) + of_bool (map_of (s_scr2 s) k \<noteq> None)"

definition ids_ok :: "session \<Rightarrow> bool" where
  "ids_ok s \<longleftrightarrow> (\<forall>k. owners s k \<le> 1 \<and> (0 < owners s k \<longrightarrow> k \<le> s_next s))"

lemma ids_ok_shrink:
  "ids_ok s \<Longrightarrow> s_next s' = s_next s \<Longrightarrow> (\<And>k. owners s' k \<le> owners s k) \<Longrightarrow> ids_ok s'"
  unfolding ids_ok_def by (metis le_trans less_le_trans)

lemma ids_ok_alloc:
  assumes "ids_ok s" "s_next s' = s_next s + 1" "s_next s \<noteq> - 1"
    and "\<And>k. owners s' k \<le> owners s k + (if k = s_next s + 1 then 1 else 0)"
  shows "ids_ok s'"
  unfolding ids_ok_def
proof (intro allI conjI impI)
  fix k
  have less: "s_next s < s_next s + 1"
  proof -
    have "1 + s_next s \<noteq> 0" using assms(3) by (simp add: add_eq_0_iff)
    then show ?thesis by (simp add: word_less_nat_alt unatSuc add.commute)
  qed
  then have fresh: "owners s (s_next s + 1) = 0"
    using assms(1) unfolding ids_ok_def by (metis gr0I leD)
  show "owners s' k \<le> 1"
    using assms(1) assms(4) [of k] fresh unfolding ids_ok_def by (cases "k = s_next s + 1") (auto intro: le_trans)
  assume "0 < owners s' k"
  then have "k = s_next s + 1 \<or> 0 < owners s k" using assms(4) [of k] by (auto split: if_splits)
  then show "k \<le> s_next s'"
    using assms(1,2) less unfolding ids_ok_def by (metis le_less_trans less_imp_le order_refl)
qed

lemma owners_put_same:
  "map_of m rid \<noteq> None \<Longrightarrow> (map_of (gm_put rid e m) k \<noteq> None) = (map_of m k \<noteq> None)"
  by auto

text \<open>What routing does to the tables: it keeps the keys or drops some.\<close>

lemmas ws_raw_ops = route_ws_accept_def route_ws_close_def route_stream_ack_def route_stream_close_def
  route_ws_data_def route_stream_data_def put_ws_def put_raw_def remove_ws_def remove_raw_def
  get_ws_def get_raw_def hand_over_def

lemma owners_cong:
  assumes "\<And>k. map_of (s_pending s') k = None \<longleftrightarrow> map_of (s_pending s) k = None"
    and "\<And>k. map_of (s_ws s') k = None \<longleftrightarrow> map_of (s_ws s) k = None"
    and "\<And>k. map_of (s_raw s') k = None \<longleftrightarrow> map_of (s_raw s) k = None"
    and "\<And>k. map_of (s_scr2 s') k = None \<longleftrightarrow> map_of (s_scr2 s) k = None"
  shows "owners s' k = owners s k"
  unfolding owners_def by (simp only: assms not_None_eq [symmetric])

lemma owners_hand_over [simp]: "owners (hand_over h s) k = owners s k"
  by (rule owners_cong) (simp_all add: hand_over_def)

lemma owners_ws_put [simp]: "get_ws rid s \<noteq> None \<Longrightarrow> owners (put_ws rid b s) k = owners s k"
  by (rule owners_cong) (auto simp: put_ws_def get_ws_def)

lemma owners_raw_put [simp]: "get_raw rid s \<noteq> None \<Longrightarrow> owners (put_raw rid b s) k = owners s k"
  by (rule owners_cong) (auto simp: put_raw_def get_raw_def)

lemma owners_remove [simp]:
  "owners (remove_ws rid s) k \<le> owners s k" "owners (remove_raw rid s) k \<le> owners s k"
  by (simp_all add: owners_def remove_ws_def remove_raw_def)

lemma owners_exchange [simp]:
  "map_of (s_pending s) rid \<noteq> None \<Longrightarrow> owners (s\<lparr>s_pending := gm_put rid e (s_pending s)\<rparr>) k = owners s k"
  by (rule owners_cong) auto

lemma owners_scr2_put [simp]:
  "map_of (s_scr2 s) rid \<noteq> None \<Longrightarrow> owners (s\<lparr>s_scr2 := gm_put rid b (s_scr2 s)\<rparr>) k = owners s k"
  by (rule owners_cong) auto

lemma owners_update [simp]: "owners (update_exchange rid f s) k = owners s k"
  by (cases "map_of (s_pending s) rid") (simp_all add: update_exchange_def)

lemma owners_ws_accept [simp]: "owners (route_ws_accept acc s) k = owners s k"
  by (cases "get_ws (wa_req acc) s") (simp_all add: route_ws_accept_def)

lemma owners_ws_data [simp]: "owners (route_ws_data pick rid p s) k = owners s k"
  by (cases "get_ws rid s") (simp_all add: route_ws_data_def)

lemma owners_ack [simp]: "owners (route_stream_ack acc s) k = owners s k"
  by (cases "get_raw (sa_req acc) s") (simp_all add: route_stream_ack_def)

lemma get_raw_hand_over [simp]: "get_raw rid (hand_over h s) = get_raw rid s"
  by (simp add: get_raw_def hand_over_def)

lemma owners_raw_data [simp]: "owners (route_stream_data pick rid p s) k = owners s k"
  by (cases "get_raw rid s") (simp_all add: route_stream_data_def Let_def)

lemma owners_close [simp]:
  "owners (snd (route_ws_close rid s)) k \<le> owners s k" "owners (snd (route_stream_close rid s)) k \<le> owners s k"
  by (simp_all add: route_ws_close_def route_stream_close_def)

lemma owners_other [simp]:
  "owners (s\<lparr>s_scr_aux := a\<rparr>) k = owners s k" "owners (s\<lparr>s_scr_subs := b\<rparr>) k = owners s k"
  "owners (s\<lparr>s_scr_err := c\<rparr>) k = owners s k" "owners (s\<lparr>s_scr_inp := c'\<rparr>) k = owners s k"
  "owners (s\<lparr>s_term_subs := d\<rparr>) k = owners s k" "owners (s\<lparr>s_term_exit := e\<rparr>) k = owners s k"
  "owners (touch now s) k = owners s k" "owners (s\<lparr>s_bad_frames := n\<rparr>) k = owners s k"
  "owners (s\<lparr>s_conn_open := o'\<rparr>) k = owners s k" "owners (s\<lparr>s_missed_pongs := n'\<rparr>) k = owners s k"
  "owners (s\<lparr>s_missed_pongs := n', s_metrics := x\<rparr>) k = owners s k" "owners (s\<lparr>s_credit := cr\<rparr>) k = owners s k"
  by (simp_all add: owners_def touch_def del: not_None_eq)

lemma owners_aux [simp]:
  "owners (route_screen_aux sid a v s) k = owners s k" "owners (route_screen_frame fr s) k = owners s k"
  by (simp_all add: route_screen_aux_def route_screen_frame_def split: option.split)

lemma owners_send [simp]: "owners (snd (s_send ok m s)) k = owners s k"
  by (simp add: owners_def)

lemma owners_response [simp]: "owners (snd (route_response_body pick f s)) k = owners s k"
  by (cases "map_of (s_pending s) (bf_req f)")
    (simp_all add: route_response_body_def split: prod.split write_result.split body_error.split)

lemma owners_ask [simp]: "owners (ask_if ask ok sid s) k = owners s k"
  by (simp add: ask_if_def screen2_keyframe_def guarded_send_def split: bool.split prod.split)
    (metis owners_send snd_conv)

lemma owners_screen2 [simp]:
  "owners (route_screen2 ok now data s) k = owners s k"
  "owners (route_screen2_video ok now data s) k = owners s k"
  by (simp_all add: route_screen2_def route_screen2_video_def split: sum.split option.split prod.split)

lemma owners_binary [simp]: "owners (snd (route_binary ok pick now data f s)) k = owners s k"
  by (simp add: route_binary_def route_body_frame_def)

lemma owners_control: "owners (snd (handle_control net m s)) k \<le> owners s k"
  by (cases m) (simp_all add: handle_control_def route_http_response_def route_http_error_def split: option.split)

lemma next_kept [simp]:
  "s_next (hand_over h s) = s_next s" "s_next (route_ws_accept acc s) = s_next s"
  "s_next (snd (route_ws_close rid s)) = s_next s" "s_next (route_stream_ack ack s) = s_next s"
  "s_next (snd (route_stream_close rid s)) = s_next s" "s_next (route_ws_data pick rid p s) = s_next s"
  "s_next (route_stream_data pick rid p s) = s_next s" "s_next (update_exchange rid f s) = s_next s"
  "s_next (route_screen_aux sid a v s) = s_next s" "s_next (route_screen_frame fr s) = s_next s"
  "s_next (touch now s) = s_next s"
  by (simp_all add: ws_raw_ops update_exchange_def route_screen_aux_def route_screen_frame_def touch_def Let_def
      split: option.split)

lemma next_kept_binary [simp]: "s_next (snd (route_binary ok pick now data f s)) = s_next s"
proof -
  have "s_next (snd (route_response_body pick f s)) = s_next s"
    by (auto simp: route_response_body_def split: option.split prod.split write_result.split body_error.split)
  moreover have "s_next (ask_if a ok sid t) = s_next t" for a sid t
    by (simp add: ask_if_def screen2_keyframe_def guarded_send_def s_send_def)
  ultimately show ?thesis
    by (simp add: route_binary_def route_body_frame_def route_screen2_def route_screen2_video_def
        split: sum.split option.split prod.split)
qed

lemma next_kept_control [simp]: "s_next (snd (handle_control net m s)) = s_next s"
  by (cases m) (simp_all add: handle_control_def route_http_response_def route_http_error_def split: option.split)

section \<open>The invariant of a session\<close>

lemma table_ok_kept [simp]:
  "pending_ok (hand_over h s) = pending_ok s" "ws_ok (hand_over h s) = ws_ok s"
  "pending_ok (touch now s) = pending_ok s" "ws_ok (touch now s) = ws_ok s" "raw_ok (touch now s) = raw_ok s"
  "ws_ok (snd (s_send ok m s)) = ws_ok s" "raw_ok (snd (s_send ok m s)) = raw_ok s"
  by (simp_all add: pending_ok_def ws_ok_def raw_ok_def hand_over_def touch_def)

definition tables_ok :: "session \<Rightarrow> bool" where
  "tables_ok s \<longleftrightarrow> pending_ok s \<and> ws_ok s \<and> raw_ok s"

lemma tables_ok_cong:
  "tables_ok s \<Longrightarrow> s_pending s' = s_pending s \<Longrightarrow> s_ws s' = s_ws s \<Longrightarrow> s_raw s' = s_raw s \<Longrightarrow> tables_ok s'"
  by (simp add: tables_ok_def pending_ok_def ws_ok_def raw_ok_def)

lemma tables_ok_pending:
  "tables_ok s \<Longrightarrow> pending_ok s' \<Longrightarrow> s_ws s' = s_ws s \<Longrightarrow> s_raw s' = s_raw s \<Longrightarrow> tables_ok s'"
  by (simp add: tables_ok_def ws_ok_def raw_ok_def)

lemma tables_ok_ws:
  "tables_ok s \<Longrightarrow> ws_ok s' \<Longrightarrow> s_pending s' = s_pending s \<Longrightarrow> s_raw s' = s_raw s \<Longrightarrow> tables_ok s'"
  by (simp add: tables_ok_def pending_ok_def raw_ok_def)

lemma tables_ok_raw:
  "tables_ok s \<Longrightarrow> raw_ok s' \<Longrightarrow> s_pending s' = s_pending s \<Longrightarrow> s_ws s' = s_ws s \<Longrightarrow> tables_ok s'"
  by (simp add: tables_ok_def pending_ok_def ws_ok_def)

lemma ws_only [simp]:
  "s_pending (route_ws_data pick rid p s) = s_pending s" "s_raw (route_ws_data pick rid p s) = s_raw s"
  "s_pending (put_ws rid b s) = s_pending s" "s_raw (put_ws rid b s) = s_raw s"
  "s_pending (remove_ws rid s) = s_pending s" "s_raw (remove_ws rid s) = s_raw s"
  by (simp_all add: route_ws_data_def put_ws_def remove_ws_def split: option.split)

lemma raw_only [simp]:
  "s_pending (route_stream_data pick rid p s) = s_pending s" "s_ws (route_stream_data pick rid p s) = s_ws s"
  "s_pending (put_raw rid b s) = s_pending s" "s_ws (put_raw rid b s) = s_ws s"
  "s_pending (remove_raw rid s) = s_pending s" "s_ws (remove_raw rid s) = s_ws s"
  by (simp_all add: route_stream_data_def put_raw_def remove_raw_def Let_def hand_over_def split: option.split)

lemma pending_only [simp]:
  "s_ws (update_exchange rid f s) = s_ws s" "s_raw (update_exchange rid f s) = s_raw s"
  "s_ws (snd (route_response_body pick f' s)) = s_ws s" "s_raw (snd (route_response_body pick f' s)) = s_raw s"
  by (simp_all add: update_exchange_def route_response_body_def
      split: option.split prod.split write_result.split body_error.split)

lemma ask_if_tables [simp]:
  "s_pending (ask_if a ok sid s) = s_pending s" "s_ws (ask_if a ok sid s) = s_ws s" "s_raw (ask_if a ok sid s) = s_raw s"
  by (simp_all add: ask_if_def screen2_keyframe_def guarded_send_def s_send_def)

lemma screen2_tables [simp]:
  "s_pending (route_screen2 ok now data s) = s_pending s" "s_ws (route_screen2 ok now data s) = s_ws s"
  "s_raw (route_screen2 ok now data s) = s_raw s" "s_pending (route_screen2_video ok now data s) = s_pending s"
  "s_ws (route_screen2_video ok now data s) = s_ws s" "s_raw (route_screen2_video ok now data s) = s_raw s"
  by (simp_all add: route_screen2_def route_screen2_video_def split: sum.split option.split prod.split)

lemma ws_ok_accept: "ws_ok s \<Longrightarrow> ws_ok (route_ws_accept acc s)"
  by (auto simp: route_ws_accept_def get_ws_def intro!: ws_ok_put dest: ws_cap split: option.split)

lemma raw_ok_ack: "raw_ok s \<Longrightarrow> raw_ok (route_stream_ack acc s)"
  by (auto simp: route_stream_ack_def get_raw_def intro!: raw_ok_put dest: raw_cap split: option.split)

lemma accept_tables [simp]:
  "s_pending (route_ws_accept acc s) = s_pending s" "s_raw (route_ws_accept acc s) = s_raw s"
  "s_pending (route_stream_ack ack s) = s_pending s" "s_ws (route_stream_ack ack s) = s_ws s"
  by (simp_all add: route_ws_accept_def route_stream_ack_def split: option.split)

lemma http_tables [simp]:
  "s_ws (route_http_response rid st hs hb s) = s_ws s" "s_raw (route_http_response rid st hs hb s) = s_raw s"
  "s_ws (route_http_error rid c m s) = s_ws s" "s_raw (route_http_error rid c m s) = s_raw s"
  by (simp_all add: route_http_response_def route_http_error_def)

lemma tables_ok_routing:
  assumes "tables_ok s"
  shows "tables_ok (hand_over h s)" "tables_ok (route_ws_data pick rid p s)"
    "tables_ok (route_stream_data pick rid p s)" "tables_ok (snd (route_response_body pick f s))"
    "tables_ok (route_screen2 ok now data s)" "tables_ok (route_screen2_video ok now data s)"
    "tables_ok (route_ws_accept acc s)" "tables_ok (route_stream_ack ack s)"
    "tables_ok (snd (route_ws_close rid s))" "tables_ok (snd (route_stream_close rid s))"
    "tables_ok (route_http_response rid st hs hb s)" "tables_ok (route_http_error rid c msg s)"
  using assms
  by - (rule tables_ok_cong [OF assms] tables_ok_ws [OF assms] tables_ok_raw [OF assms] tables_ok_pending [OF assms];
      simp add: hand_over_def tables_ok_def route_ws_data_ok route_stream_data_ok route_response_body_ok ws_ok_accept
        raw_ok_ack route_ws_close_def route_stream_close_def ws_ok_remove raw_ok_remove route_http_response_ok
        route_http_error_ok; fail)+

lemma tables_ok_binary: "tables_ok s \<Longrightarrow> tables_ok (snd (route_binary ok pick now data f s))"
  by (simp add: route_binary_def route_body_frame_def tables_ok_routing)

lemma tables_ok_control: "tables_ok s \<Longrightarrow> tables_ok (snd (handle_control net m s))"
  by (cases m) (simp_all add: handle_control_def tables_ok_routing,
      (erule tables_ok_cong; simp add: route_screen_aux_def route_screen_frame_def split: option.split)+)

lemma bad_frame_fields [simp]:
  "tables_ok (snd (bad_frame s)) = tables_ok s" "owners (snd (bad_frame s)) k = owners s k" "s_next (snd (bad_frame s)) = s_next s"
  by (simp_all add: bad_frame_def Let_def tables_ok_def pending_ok_def ws_ok_def raw_ok_def)

lemma tables_ok_simple [simp]:
  "tables_ok (s\<lparr>s_bad_frames := n\<rparr>) = tables_ok s" "tables_ok (touch now s) = tables_ok s"
  by (simp_all add: tables_ok_def pending_ok_def ws_ok_def raw_ok_def touch_def)

definition session_inv :: "session \<Rightarrow> bool" where
  "session_inv s \<longleftrightarrow> tables_ok s \<and> ids_ok s"

lemma session_invI: "session_inv s \<Longrightarrow> tables_ok s' \<Longrightarrow> s_next s' = s_next s \<Longrightarrow> (\<And>k. owners s' k \<le> owners s k) \<Longrightarrow> session_inv s'"
  unfolding session_inv_def using ids_ok_shrink by blast

lemma run_step_inv:
  assumes inv: "session_inv s" and st: "run_step net ok pick now ev s = (r, s')"
  shows "session_inv s'"
proof (cases ev)
  case (EvText m)
  obtain b t where h: "handle_control net m (touch now s) = (b, t)" by force
  have t: "tables_ok t" "s_next t = s_next s" "\<And>k. owners t k \<le> owners s k"
    using tables_ok_control [of "touch now s" net m] next_kept_control [of net m "touch now s"]
      owners_control [of net m "touch now s"] inv h by (simp_all add: session_inv_def)
  have s': "s' = (if b then t\<lparr>s_bad_frames := 0\<rparr> else snd (bad_frame t))"
    using st EvText h by (simp add: run_step_def split: bool.splits)
  show ?thesis
    unfolding s' by (rule session_invI [OF inv]) (simp_all add: t)
next
  case (EvBinary data)
  show ?thesis
  proof (cases "decode_frame data")
    case (Inl e)
    then have s': "s' = snd (bad_frame (touch now s))" using st EvBinary by (simp add: run_step_def)
    show ?thesis unfolding s' using inv by (intro session_invI [OF inv]) (simp_all add: session_inv_def)
  next
    case (Inr f)
    let ?t = "(touch now s)\<lparr>s_bad_frames := 0\<rparr>"
    have s': "s' = snd (route_binary ok pick now data f ?t)"
      using st EvBinary Inr by (auto simp: run_step_def split: prod.splits route_result.splits)
    have "tables_ok ?t" using inv by (simp add: session_inv_def)
    then show ?thesis
      unfolding s' by (intro session_invI [OF inv]) (simp_all add: tables_ok_binary)
  qed
qed (use assms in \<open>simp add: run_step_def\<close>)

text \<open>The operations the ingress and the API call while the loop runs.\<close>

inductive session_step :: "session \<Rightarrow> session \<Rightarrow> bool" where
  Arrive: "run_step net ok pick now ev s = (Running, s') \<Longrightarrow> session_step s s'"
| Request: "s_next s \<noteq> -1 \<Longrightarrow> send_request ok req s = (r, s') \<Longrightarrow> session_step s s'"
| Finish: "session_step s (snd (finish_exchange rid s))"
| Cancel: "session_step s (send_cancel ok rid reason s)"
| Read: "session_read ok rid n s = (r, s') \<Longrightarrow> session_step s s'"
| RequestBody: "stream_request_body oks rid 0 0 parts err s = (r, s') \<Longrightarrow> session_step s s'"
| OpenWS: "s_next s \<noteq> -1 \<Longrightarrow> open_ws ok tn path q hs s = (r, s') \<Longrightarrow> session_step s s'"
| CloseWS: "close_ws ok rid reason s = (b, s') \<Longrightarrow> session_step s s'"
| SendWS: "send_ws_data ok rid d s = (b, s') \<Longrightarrow> session_step s s'"
| OpenStream: "s_next s \<noteq> -1 \<Longrightarrow> open_stream_to ok tn proto ra dest s = (r, s') \<Longrightarrow> session_step s s'"
| CloseStream: "close_stream ok rid reason s = (b, s') \<Longrightarrow> session_step s s'"
| SendStream: "send_stream_data ok rid proto d s = (b, s') \<Longrightarrow> session_step s s'"
| OpenScreen2: "s_next s \<noteq> -1 \<Longrightarrow> open_screen2 ok sid fps q mw disp ls fr er s = (r, s') \<Longrightarrow> session_step s s'"
| OpenScreen: "open_screen ok sid fps q mw mode fr er s = (b, s') \<Longrightarrow> session_step s s'"
| CloseScreen: "session_step s (close_screen ok sid s)"
| OpenTerminal: "open_terminal ok sid sh c rw out ex s = (b, s') \<Longrightarrow> session_step s s'"
| CloseTerminal: "session_step s (close_terminal ok sid s)"
| Beat: "heartbeat_tick ok now s = (BeatGoesOn, s') \<Longrightarrow> session_step s s'"

inductive session_reach :: "session \<Rightarrow> bool" where
  Start: "session_reach (new_session sid cid fts now)"
| Step: "session_reach s \<Longrightarrow> session_step s s' \<Longrightarrow> session_reach s'"

lemma session_inv_new: "session_inv (new_session sid cid fts now)"
  by (simp add: session_inv_def tables_ok_def pending_ok_def ws_ok_def raw_ok_def ids_ok_def owners_def new_session_def)

lemma session_inv_alloc:
  assumes "session_inv s" "s_next s \<noteq> - 1" "tables_ok s'" "s_next s' = s_next s + 1"
    and "\<And>k. owners s' k \<le> owners s k + (if k = s_next s + 1 then 1 else 0)"
  shows "session_inv s'"
  using assms ids_ok_alloc [of s s'] by (simp add: session_inv_def)

lemma session_inv_same:
  "session_inv s \<Longrightarrow> s_pending s' = s_pending s \<Longrightarrow> s_ws s' = s_ws s \<Longrightarrow> s_raw s' = s_raw s \<Longrightarrow> s_scr2 s' = s_scr2 s \<Longrightarrow>
   s_next s' = s_next s \<Longrightarrow> session_inv s'"
  by (rule session_invI [of s]) (simp_all add: session_inv_def tables_ok_def pending_ok_def ws_ok_def raw_ok_def owners_def)

lemma finish_inv: "session_inv s \<Longrightarrow> session_inv (snd (finish_exchange rid s))"
  by (rule session_invI [of s])
    (auto simp: session_inv_def tables_ok_def finish_exchange_ok, simp_all add: finish_exchange_def ws_ok_def raw_ok_def owners_def)

lemma request_inv:
  assumes "session_inv s" "s_next s \<noteq> - 1" "send_request ok req s = (r, s')"
  shows "session_inv s'"
proof (cases "session_new_exchange s")
  case None
  with assms show ?thesis by (simp add: send_request_def)
next
  case (Some p)
  let ?rid = "s_next s + 1"
  let ?s1 = "s\<lparr>s_next := ?rid, s_pending := gm_put ?rid (new_exchange ?rid) (s_pending s)\<rparr>"
  from Some have p: "p = (?rid, ?s1)"
    by (auto simp: session_new_exchange_def next_req_id_def split: if_splits)
  have t1: "pending_ok ?s1" using session_new_exchange_ok [of s ?rid ?s1] Some p assms(1)
    by (simp add: session_inv_def tables_ok_def)
  let ?s2 = "snd (s_send ok (OHttpRequest ?rid req) ?s1)"
  have s': "s' = (if ok then ?s2 else snd (finish_exchange ?rid ?s2))"
    using assms(3) Some p by (auto simp: send_request_def s_send_def split: if_splits)
  have i1: "session_inv ?s1"
    by (rule session_inv_alloc [OF assms(1,2)])
      (use assms(1) t1 in \<open>simp_all add: session_inv_def tables_ok_def ws_ok_def raw_ok_def owners_def\<close>)
  have "session_inv ?s2" by (rule session_inv_same [OF i1]) simp_all
  then show ?thesis unfolding s' by (cases ok) (simp_all only: if_True if_False finish_inv)
qed

lemma read_inv:
  assumes "session_inv s" "session_read ok rid n s = (r, s')"
  shows "session_inv s'"
proof -
  have "pending_ok s'" using session_read_ok [of s ok rid n] assms by (simp add: session_inv_def tables_ok_def)
  moreover have "s_ws s' = s_ws s" "s_raw s' = s_raw s" "s_next s' = s_next s" "owners s' k = owners s k" for k
  proof -
    have w: "s_ws (send_window_update ok i m t) = s_ws t" "s_raw (send_window_update ok i m t) = s_raw t"
      "s_next (send_window_update ok i m t) = s_next t" "owners (send_window_update ok i m t) k = owners t k" for i m t k
      by (simp_all add: send_window_update_def Let_def owners_def del: not_None_eq)
    show "s_ws s' = s_ws s" "s_raw s' = s_raw s" "s_next s' = s_next s" "owners s' k = owners s k"
      using assms(2) by (auto simp: session_read_def Let_def w split: option.splits prod.splits read_result.splits)
  qed
  ultimately show ?thesis
    using assms(1) by (intro session_invI [OF assms(1)]) (auto simp: session_inv_def intro: tables_ok_pending)
qed

lemma body_tables: "stream_request_body oks rid sq tot parts err s = (r, s') \<Longrightarrow>
   s_pending s' = s_pending s \<and> s_ws s' = s_ws s \<and> s_raw s' = s_raw s \<and> s_scr2 s' = s_scr2 s \<and> s_next s' = s_next s"
proof (induction oks rid sq tot parts err s arbitrary: r s' rule: stream_request_body.induct)
  case (1 oks rid sq tot err s)
  then show ?case by (auto simp: send_binary_def s_send_def split: option.splits if_splits)
next
  case (2 oks rid sq tot p parts err s)
  show ?case
  proof (cases "p = []")
    case True
    with 2 show ?thesis by simp
  next
    case False
    show ?thesis
    proof (cases "tot + int (length p) > MaxBodyBytes \<or> \<not> oks sq")
      case True
      with 2(3) False show ?thesis by (auto simp: Let_def send_binary_def s_send_def split: if_splits)
    next
      case ok: False
      let ?s = "s\<lparr>s_sent := s_sent s @ [OFrame (request_frame rid (of_nat sq) False p)]\<rparr>"
      have send: "send_binary (oks sq) (request_frame rid (of_nat sq) False p) s = (True, ?s)"
        using ok by (simp add: send_binary_def s_send_def)
      with 2(3) False ok have "stream_request_body oks rid (Suc sq) (tot + int (length p)) parts err ?s = (r, s')"
        by (simp add: Let_def)
      from 2(2) [OF False refl _ send [symmetric] refl this] ok show ?thesis by simp
    qed
  qed
qed

lemma inv_send: "session_inv s \<Longrightarrow> session_inv (snd (s_send ok m s))"
  by (erule session_inv_same) simp_all

lemma inv_remove_ws: "session_inv s \<Longrightarrow> session_inv (remove_ws rid s)"
  by (rule session_invI [of s]) (simp_all add: session_inv_def tables_ok_ws [of s] tables_ok_def ws_ok_remove,
      simp_all add: remove_ws_def pending_ok_def raw_ok_def)

lemma inv_remove_raw: "session_inv s \<Longrightarrow> session_inv (remove_raw rid s)"
  by (rule session_invI [of s]) (simp_all add: session_inv_def tables_ok_def raw_ok_remove,
      simp_all add: remove_raw_def pending_ok_def ws_ok_def)

lemma owners_put:
  "owners (put_ws rid b s) k \<le> owners s k + (if k = rid then 1 else 0)"
  "owners (put_raw rid c s) k \<le> owners s k + (if k = rid then 1 else 0)"
  by (cases "k = rid"; simp add: owners_def put_ws_def put_raw_def)+

lemma owners_scr2_new: "owners (s\<lparr>s_scr2 := gm_put rid b m\<rparr>) k \<le> owners (s\<lparr>s_scr2 := m\<rparr>) k + (if k = rid then 1 else 0)"
  by (cases "k = rid") (simp_all add: owners_def)

lemma owners_next [simp]: "owners (s\<lparr>s_next := n\<rparr>) k = owners s k"
  by (simp add: owners_def)

lemma inv_alloc_ws:
  assumes "session_inv s" "s_next s \<noteq> - 1"
  shows "session_inv (put_ws (s_next s + 1) new_ws_bridge (s\<lparr>s_next := s_next s + 1\<rparr>))" (is "session_inv ?s'")
proof (rule session_inv_alloc [OF assms])
  have "ws_ok (s\<lparr>s_next := s_next s + 1\<rparr>)" using assms(1) by (simp add: session_inv_def tables_ok_def ws_ok_def)
  then have "ws_ok ?s'" by (rule ws_ok_put) (simp add: new_ws_bridge_def make_chan_def)
  then show "tables_ok ?s'"
    using assms(1) by (simp add: session_inv_def tables_ok_def) (simp add: put_ws_def pending_ok_def raw_ok_def)
  show "s_next ?s' = s_next s + 1" by (simp add: put_ws_def)
  show "owners ?s' k \<le> owners s k + (if k = s_next s + 1 then 1 else 0)" for k
    using owners_put(1) [of "s_next s + 1" new_ws_bridge "s\<lparr>s_next := s_next s + 1\<rparr>" k] by simp
qed

lemma inv_alloc_raw:
  assumes "session_inv s" "s_next s \<noteq> - 1"
  shows "session_inv (put_raw (s_next s + 1) (new_raw_bridge tn proto) (s\<lparr>s_next := s_next s + 1\<rparr>))" (is "session_inv ?s'")
proof (rule session_inv_alloc [OF assms])
  have "raw_ok (s\<lparr>s_next := s_next s + 1\<rparr>)" using assms(1) by (simp add: session_inv_def tables_ok_def raw_ok_def)
  then have "raw_ok ?s'" by (rule raw_ok_put) (simp add: new_raw_bridge_def make_chan_def)
  then show "tables_ok ?s'"
    using assms(1) by (simp add: session_inv_def tables_ok_def) (simp add: put_raw_def pending_ok_def ws_ok_def)
  show "s_next ?s' = s_next s + 1" by (simp add: put_raw_def)
  show "owners ?s' k \<le> owners s k + (if k = s_next s + 1 then 1 else 0)" for k
    using owners_put(2) [of "s_next s + 1" "new_raw_bridge tn proto" "s\<lparr>s_next := s_next s + 1\<rparr>" k] by simp
qed

lemma s_send_eq: "s_send ok m s = (ok, snd (s_send ok m s))"
  by (simp add: s_send_def)

lemma open_ws_inv:
  assumes "session_inv s" "s_next s \<noteq> - 1" "open_ws ok tn path q hs s = (r, s')"
  shows "session_inv s'"
proof -
  let ?s1 = "put_ws (s_next s + 1) new_ws_bridge (s\<lparr>s_next := s_next s + 1\<rparr>)"
  let ?s2 = "snd (s_send ok (OWSOpen (s_next s + 1) tn path q hs) ?s1)"
  have i: "session_inv ?s2" by (rule inv_send [OF inv_alloc_ws [OF assms(1,2)]])
  have "s' = (if ok then ?s2 else remove_ws (s_next s + 1) ?s2)"
    using assms(3) by (auto simp: open_ws_def next_req_id_def s_send_def split: if_splits)
  then show ?thesis using i inv_remove_ws [OF i] by (cases ok) simp_all
qed

lemma open_stream_inv:
  assumes "session_inv s" "s_next s \<noteq> - 1" "open_stream_to ok tn proto ra dest s = (r, s')"
  shows "session_inv s'"
proof -
  let ?s1 = "put_raw (s_next s + 1) (new_raw_bridge tn proto) (s\<lparr>s_next := s_next s + 1\<rparr>)"
  let ?s2 = "snd (s_send ok (OStreamOpen (s_next s + 1) tn proto ra dest) ?s1)"
  have i: "session_inv ?s2" by (rule inv_send [OF inv_alloc_raw [OF assms(1,2)]])
  have "s' = (if ok then ?s2 else remove_raw (s_next s + 1) ?s2)"
    using assms(3) by (auto simp: open_stream_to_def next_req_id_def s_send_def split: if_splits)
  then show ?thesis using i inv_remove_raw [OF i] by (cases ok) simp_all
qed

lemma close_ws_inv: "session_inv s \<Longrightarrow> close_ws ok rid reason s = (b, s') \<Longrightarrow> session_inv s'"
  by (auto simp: close_ws_def route_ws_close_def intro: inv_remove_ws inv_send)

lemma close_stream_inv: "session_inv s \<Longrightarrow> close_stream ok rid reason s = (b, s') \<Longrightarrow> session_inv s'"
  by (auto simp: close_stream_def route_stream_close_def intro: inv_remove_raw inv_send)

text \<open>Changes of the screen table.\<close>

lemma inv_scr2:
  assumes "session_inv s" "s_pending s' = s_pending s" "s_ws s' = s_ws s" "s_raw s' = s_raw s" "s_next s' = s_next s"
    and "\<And>k. map_of (s_scr2 s) k = None \<Longrightarrow> map_of (s_scr2 s') k = None"
  shows "session_inv s'"
proof (rule session_invI [OF assms(1)])
  show "tables_ok s'" using assms(1) assms(2-4) by (auto simp: session_inv_def intro: tables_ok_cong)
  show "owners s' k \<le> owners s k" for k
    using assms(2-4) assms(6) [of k] by (cases "map_of (s_scr2 s) k"; simp add: owners_def)
qed (rule assms(5))

lemma close_screen_inv: "session_inv s \<Longrightarrow> session_inv (close_screen ok sid s)"
  by (rule inv_scr2 [of s]) (simp_all add: close_screen_def Let_def split: option.split)

lemma open_screen2_inv:
  assumes "session_inv s" "s_next s \<noteq> - 1" "open_screen2 ok sid fps q mw disp ls fr er s = (r, s')"
  shows "session_inv s'"
proof (cases "ft_screen2 (s_features s)")
  case False
  with assms show ?thesis by (simp add: open_screen2_def)
next
  case True
  let ?n = "s_next s + 1"
  let ?s2 = "s\<lparr>s_next := ?n, s_scr2 := gm_put ?n \<lparr>s2_session = sid, s2_ch = fr, s2_resync = False, s2_last_req = None\<rparr> (s_scr2 s),
     s_scr2_ids := gm_put sid ?n (s_scr2_ids s), s_scr_err := gm_put sid er (s_scr_err s)\<rparr>"
  have i2: "session_inv ?s2"
  proof (rule session_inv_alloc [OF assms(1,2)])
    show "tables_ok ?s2" using assms(1) by (simp add: session_inv_def tables_ok_def pending_ok_def ws_ok_def raw_ok_def)
    show "owners ?s2 k \<le> owners s k + (if k = s_next s + 1 then 1 else 0)" for k
      by (cases "k = s_next s + 1"; simp add: owners_def)
  qed simp
  let ?m = "OScreenOpen \<lparr>so_session = sid, so_fps = fps, so_quality = q, so_max_width = mw,
                          so_display = disp, so_mode = ScreenModeScreen2, so_stream = ?n,
                          so_layers = layers_for_open (supports_layers s) ls\<rparr>"
  let ?s3 = "snd (s_send ok ?m ?s2)"
  have i3: "session_inv ?s3" by (rule inv_send [OF i2])
  have "s' = ?s3 \<or> s' = ?s3\<lparr>s_scr2 := gm_del ?n (s_scr2 ?s3), s_scr2_ids := gm_del sid (s_scr2_ids ?s3),
                s_scr_err := gm_del sid (s_scr_err ?s3)\<rparr>"
    using assms(3) True by (cases ok) (auto simp: open_screen2_def next_req_id_def Let_def s_send_def)
  then show ?thesis
  proof
    assume "s' = ?s3" with i3 show ?thesis by simp
  next
    assume s': "s' = ?s3\<lparr>s_scr2 := gm_del ?n (s_scr2 ?s3), s_scr2_ids := gm_del sid (s_scr2_ids ?s3),
                s_scr_err := gm_del sid (s_scr_err ?s3)\<rparr>"
    show ?thesis unfolding s' by (rule inv_scr2 [OF i3]) (auto split: if_splits)
  qed
qed

lemma simple_inv:
  "session_inv s \<Longrightarrow> send_ws_data ok rid d s = (b, s') \<Longrightarrow> session_inv s'"
  "session_inv s \<Longrightarrow> send_stream_data ok rid proto d s = (b, s') \<Longrightarrow> session_inv s'"
  "session_inv s \<Longrightarrow> session_inv (send_cancel ok rid reason s)"
  using inv_send [of s] by (auto simp: send_ws_data_def send_stream_data_def send_cancel_def send_binary_def dest!: arg_cong [of _ _ snd])

lemma subscribe_inv:
  "session_inv s \<Longrightarrow> open_screen ok sid fps q mw mode fr er s = (b, s') \<Longrightarrow> session_inv s'"
  "session_inv s \<Longrightarrow> open_terminal ok sid sh c rw out ex s = (b, s') \<Longrightarrow> session_inv s'"
  "session_inv s \<Longrightarrow> session_inv (close_terminal ok sid s)"
  "session_inv s \<Longrightarrow> heartbeat_tick ok now s = (bt, s') \<Longrightarrow> session_inv s'"
proof -
  assume s: "session_inv s"
  show "open_screen ok sid fps q mw mode fr er s = (b, s') \<Longrightarrow> session_inv s'"
    by (rule session_inv_same [OF s]) (auto simp: open_screen_def s_send_def split: if_splits)
  show "open_terminal ok sid sh c rw out ex s = (b, s') \<Longrightarrow> session_inv s'"
    by (rule session_inv_same [OF s]) (auto simp: open_terminal_def s_send_def split: if_splits)
  show "session_inv (close_terminal ok sid s)"
    by (rule session_inv_same [OF s]) (simp_all add: close_terminal_def)
  show "heartbeat_tick ok now s = (bt, s') \<Longrightarrow> session_inv s'"
    by (rule session_inv_same [OF s]) (auto simp: heartbeat_tick_def Let_def s_send_def split: if_splits)
qed

lemma body_inv: "session_inv s \<Longrightarrow> stream_request_body oks rid 0 0 parts err s = (r, s') \<Longrightarrow> session_inv s'"
  using body_tables [of oks rid 0 0 parts err s r s'] by (auto intro: session_inv_same)

lemma session_step_inv: "session_step s s' \<Longrightarrow> session_inv s \<Longrightarrow> session_inv s'"
proof (induction rule: session_step.induct)
  case Arrive
  show ?case by (rule run_step_inv [OF Arrive(2,1)])
next
  case Request
  show ?case by (rule request_inv [OF Request(3,1,2)])
next
  case Finish
  show ?case by (rule finish_inv [OF Finish])
next
  case Cancel
  show ?case by (rule simple_inv(3) [OF Cancel])
next
  case Read
  show ?case by (rule read_inv [OF Read(2,1)])
next
  case RequestBody
  show ?case by (rule body_inv [OF RequestBody(2,1)])
next
  case OpenWS
  show ?case by (rule open_ws_inv [OF OpenWS(3,1,2)])
next
  case CloseWS
  show ?case by (rule close_ws_inv [OF CloseWS(2,1)])
next
  case SendWS
  show ?case by (rule simple_inv(1) [OF SendWS(2,1)])
next
  case OpenStream
  show ?case by (rule open_stream_inv [OF OpenStream(3,1,2)])
next
  case CloseStream
  show ?case by (rule close_stream_inv [OF CloseStream(2,1)])
next
  case SendStream
  show ?case by (rule simple_inv(2) [OF SendStream(2,1)])
next
  case OpenScreen2
  show ?case by (rule open_screen2_inv [OF OpenScreen2(3,1,2)])
next
  case OpenScreen
  show ?case by (rule subscribe_inv(1) [OF OpenScreen(2,1)])
next
  case CloseScreen
  show ?case by (rule close_screen_inv [OF CloseScreen])
next
  case OpenTerminal
  show ?case by (rule subscribe_inv(2) [OF OpenTerminal(2,1)])
next
  case CloseTerminal
  show ?case by (rule subscribe_inv(3) [OF CloseTerminal])
next
  case Beat
  show ?case by (rule subscribe_inv(4) [OF Beat(2,1)])
qed

lemma session_reach_inv: "session_reach s \<Longrightarrow> session_inv s"
  by (induction rule: session_reach.induct) (rule session_inv_new, erule session_step_inv)

text \<open>C14: in every reachable session at most 512 requests are pending, every live request satisfies
  the exchange invariant (its buffer is within the window), and no identifier is used by two live
  objects: a request, a WebSocket bridge, a raw stream and a screen stream never share one.\<close>

theorem session_tables_invariant:
  assumes "session_reach s"
  shows "length (s_pending s) \<le> MaxPendingExchanges \<and>
    (\<forall>rid e. map_of (s_pending s) rid = Some e \<longrightarrow> exchange_ok e \<and> ex_queued e \<le> InitialWindowBytes \<and>
       map_of (s_ws s) rid = None \<and> map_of (s_raw s) rid = None \<and> map_of (s_scr2 s) rid = None) \<and>
    (\<forall>rid b. map_of (s_ws s) rid = Some b \<longrightarrow> map_of (s_raw s) rid = None \<and> map_of (s_scr2 s) rid = None) \<and>
    (\<forall>rid b. map_of (s_raw s) rid = Some b \<longrightarrow> map_of (s_scr2 s) rid = None)"
proof -
  have inv: "session_inv s" using assms by (rule session_reach_inv)
  then have ok: "pending_ok s" by (simp add: session_inv_def tables_ok_def)
  have one: "owners s k \<le> 1" for k using inv by (simp add: session_inv_def ids_ok_def)
  have disj: "map_of (s_pending s) k \<noteq> None \<Longrightarrow> map_of (s_ws s) k = None \<and> map_of (s_raw s) k = None \<and> map_of (s_scr2 s) k = None"
    "map_of (s_ws s) k \<noteq> None \<Longrightarrow> map_of (s_raw s) k = None \<and> map_of (s_scr2 s) k = None"
    "map_of (s_raw s) k \<noteq> None \<Longrightarrow> map_of (s_scr2 s) k = None" for k
    using one [of k] by (auto simp: owners_def split: if_splits)
  have "length (s_pending s) \<le> MaxPendingExchanges" using ok by (simp add: pending_ok_def)
  moreover have "exchange_ok e \<and> ex_queued e \<le> InitialWindowBytes" if "map_of (s_pending s) rid = Some e" for rid e
    using pending_lookup [OF ok that] by (simp add: exchange_ok_def)
  ultimately show ?thesis using disj by (metis option.distinct(1))
qed

theorem session_tables_invariant_witness:
  "length (s_pending (snd (send_request True \<lparr>hq_tunnel = ''t'', hq_method = ''GET'', hq_path = ''/'', hq_query = [],
     hq_headers = [], hq_has_body = False, hq_length = 0, hq_remote = ''1.2.3.4''\<rparr> open_session))) \<le> MaxPendingExchanges"
proof -
  let ?q = "\<lparr>hq_tunnel = ''t'', hq_method = ''GET'', hq_path = ''/'', hq_query = [],
     hq_headers = [], hq_has_body = False, hq_length = 0, hq_remote = ''1.2.3.4''\<rparr>"
  have "session_reach open_session" unfolding open_session_def by (rule session_reach.Start)
  moreover have "session_step open_session (snd (send_request True ?q open_session))"
    by (rule session_step.Request [where r = "fst (send_request True ?q open_session)" and ok = True and req = ?q])
      (simp_all add: open_session_def new_session_def)
  ultimately have "session_reach (snd (send_request True ?q open_session))" by (rule session_reach.Step)
  from session_tables_invariant [OF this] show ?thesis by simp
qed

end
