(* ===== verification/Wg_Filter.thy ===== *)
theory Wg_Filter
  imports Dns_Virt
begin

text \<open>
  The packet filter between the OS tun device and the WireGuard engine (\<open>client/wgnet/filter.go\<close>):
  \<open>filter_outbound\<close> and \<open>filter_inbound\<close> decide one packet, \<open>filter_read\<close> and \<open>filter_write\<close> a batch,
  the setters change the rules. The properties are about whole runs of the filter from its start.
\<close>

definition tunWriteOffset :: nat where "tunWriteOffset = 16"

record wg_filter =
  wf_self :: addr
  wf_ct :: conntrack
  wf_dns :: "vdns option"
  wf_alog :: access_agg
  wf_rules :: "acl_rule list"
  wf_peers :: "addr list"
  wf_deny :: bool
  wf_dropped_in :: int
  wf_dropped_out :: int
  wf_dns_served :: int

text \<open>\<open>NewFilter\<close>; \<open>secret\<close> is what \<open>crypto/rand\<close> gives the virtual DNS.\<close>

definition new_filter :: "bytes \<Rightarrow> addr \<Rightarrow> addr \<Rightarrow> string \<Rightarrow> wg_filter" where
  "new_filter secret self resolver zone =
     \<lparr>wf_self = self, wf_ct = new_conntrack 0,
      wf_dns = (if addr_is_valid resolver then Some (new_vdns secret resolver zone) else None),
      wf_alog = new_access_agg, wf_rules = [], wf_peers = [], wf_deny = False,
      wf_dropped_in = 0, wf_dropped_out = 0, wf_dns_served = 0\<rparr>"

definition set_rules :: "net_acl_rule list \<Rightarrow> wg_filter \<Rightarrow> wg_filter" where
  "set_rules rs f = f\<lparr>wf_rules := compile_acl rs\<rparr>"

definition set_peers :: "addr list \<Rightarrow> wg_filter \<Rightarrow> wg_filter" where
  "set_peers ips f = f\<lparr>wf_peers := ips\<rparr>"

definition set_dns_names :: "(string, addr) gomap \<Rightarrow> wg_filter \<Rightarrow> wg_filter" where
  "set_dns_names m f = f\<lparr>wf_dns := map_option (set_names m) (wf_dns f)\<rparr>"

definition set_deny_inbound :: "bool \<Rightarrow> wg_filter \<Rightarrow> wg_filter" where
  "set_deny_inbound v f = f\<lparr>wf_deny := v\<rparr>"

definition is_peer :: "wg_filter \<Rightarrow> addr \<Rightarrow> bool" where
  "is_peer f a \<longleftrightarrow> a \<in> set (wf_peers f)"

definition drop_out :: "wg_filter \<Rightarrow> wg_filter" where
  "drop_out f = f\<lparr>wf_dropped_out := wf_dropped_out f + 1\<rparr>"

definition drop_in :: "wg_filter \<Rightarrow> wg_filter" where
  "drop_in f = f\<lparr>wf_dropped_in := wf_dropped_in f + 1\<rparr>"

section \<open>Outbound\<close>

text \<open>The flow a packet of this node starts.\<close>

definition flow_of :: "addr \<Rightarrow> pkt_info \<Rightarrow> ct_key option" where
  "flow_of self p =
     (if pk_proto p = protoTCP \<or> pk_proto p = protoUDP then
        (if \<not> pk_frag p
         then Some \<lparr>ck_proto = pk_proto p, ck_local = self, ck_remote = pk_dst p, ck_lport = pk_sport p, ck_rport = pk_dport p\<rparr>
         else None)
      else if pk_proto p = protoICMP then
        (if \<not> pk_frag p \<and> pk_itype p = icmpEchoRequest
         then Some \<lparr>ck_proto = protoICMP, ck_local = self, ck_remote = pk_dst p, ck_lport = pk_iid p, ck_rport = 0\<rparr>
         else None)
      else None)"

definition filter_outbound :: "dns_lib \<Rightarrow> time \<Rightarrow> bytes \<Rightarrow> wg_filter \<Rightarrow> (bool \<times> bytes list) \<times> wg_filter" where
  "filter_outbound L now pkt f =
     (case parse_ipv4_packet pkt of
        None \<Rightarrow> ((False, []), drop_out f)
      | Some p \<Rightarrow>
          let to_peer =
            (if pk_src p \<noteq> wf_self f \<or> \<not> is_peer f (pk_dst p) then ((False, []), drop_out f)
             else case flow_of (wf_self f) p of
                 Some k \<Rightarrow> ((True, []), f\<lparr>wf_ct := track now k (wf_ct f)\<rparr>)
               | None \<Rightarrow> ((True, []), f)) in
          case wf_dns f of
            None \<Rightarrow> to_peer
          | Some d \<Rightarrow>
              if pk_dst p = vd_resolver d \<and> pk_src p = wf_self f then
                ((False, dns_handle L d p tunWriteOffset), f\<lparr>wf_dns_served := wf_dns_served f + 1\<rparr>)
              else to_peer)"

section \<open>Inbound\<close>

text \<open>The packet quoted in an ICMP error.\<close>

definition parse_ipv4_prefix :: "bytes \<Rightarrow> pkt_info option" where
  "parse_ipv4_prefix b =
     (if length b < 28 \<or> drop_bit 4 (b ! 0) \<noteq> 4 then None
      else
        let ihl = unat (b ! 0 AND 0x0f) * 4 in
        if ihl < 20 \<or> length b < ihl + 8 then None
        else
          let p = empty_pkt\<lparr>pk_proto := b ! 9, pk_src := IP4 (be_get (slice 12 16 b)), pk_dst := IP4 (be_get (slice 16 20 b))\<rparr>;
              l4 = drop ihl b in
          Some (if pk_proto p = protoTCP \<or> pk_proto p = protoUDP then
                  p\<lparr>pk_sport := be_get (slice 0 2 l4), pk_dport := be_get (slice 2 4 l4)\<rparr>
                else if pk_proto p = protoICMP then p\<lparr>pk_itype := l4 ! 0, pk_iid := be_get (slice 4 6 l4)\<rparr>
                else p))"

text \<open>The flow an inbound packet would be a return packet of.\<close>

definition reply_key :: "addr \<Rightarrow> pkt_info \<Rightarrow> ct_key option" where
  "reply_key self p =
     (if pk_proto p = protoTCP \<or> pk_proto p = protoUDP then
        Some \<lparr>ck_proto = pk_proto p, ck_local = self, ck_remote = pk_src p, ck_lport = pk_dport p, ck_rport = pk_sport p\<rparr>
      else if pk_proto p = protoICMP then
        (if pk_itype p = icmpEchoReply then
           Some \<lparr>ck_proto = protoICMP, ck_local = self, ck_remote = pk_src p, ck_lport = pk_iid p, ck_rport = 0\<rparr>
         else if pk_itype p = icmpDestUnreach \<or> pk_itype p = icmpTimeExceed \<or> pk_itype p = icmpParamProb then
           (if length (pk_l4 p) < 8 + 20 then None
            else case parse_ipv4_prefix (drop 8 (pk_l4 p)) of
                None \<Rightarrow> None
              | Some q \<Rightarrow>
                  if pk_src q \<noteq> self \<or> pk_dst q \<noteq> pk_src p then None
                  else if pk_proto q = protoTCP \<or> pk_proto q = protoUDP then
                    Some \<lparr>ck_proto = pk_proto q, ck_local = self, ck_remote = pk_dst q, ck_lport = pk_sport q, ck_rport = pk_dport q\<rparr>
                  else if pk_proto q = protoICMP then
                    Some \<lparr>ck_proto = protoICMP, ck_local = self, ck_remote = pk_dst q, ck_lport = pk_iid q, ck_rport = 0\<rparr>
                  else None)
         else None)
      else None)"

definition reply_ok :: "time \<Rightarrow> pkt_info \<Rightarrow> wg_filter \<Rightarrow> bool \<times> wg_filter" where
  "reply_ok now p f =
     (case reply_key (wf_self f) p of
        None \<Rightarrow> (False, f)
      | Some k \<Rightarrow> (case seen now k (wf_ct f) of (b, c) \<Rightarrow> (b, f\<lparr>wf_ct := c\<rparr>)))"

definition log_access :: "pkt_info \<Rightarrow> nat \<Rightarrow> bool \<Rightarrow> string \<Rightarrow> wg_filter \<Rightarrow> wg_filter" where
  "log_access p sz allow rule f = f\<lparr>wf_alog := record_access p sz allow rule (wf_alog f)\<rparr>"

definition filter_inbound :: "time \<Rightarrow> bytes \<Rightarrow> wg_filter \<Rightarrow> bool \<times> wg_filter" where
  "filter_inbound now pkt f =
     (case parse_ipv4_packet pkt of
        None \<Rightarrow> (False, drop_in f)
      | Some p \<Rightarrow>
          if pk_frag p \<or> pk_dst p \<noteq> wf_self f \<or> \<not> is_peer f (pk_src p) then (False, drop_in f)
          else case reply_ok now p f of
              (True, f1) \<Rightarrow> (True, f1)
            | (False, f1) \<Rightarrow>
                (case (if wf_deny f1 then None else find (\<lambda>r. rule_match r p) (wf_rules f1)) of
                   Some r \<Rightarrow> (True, log_access p (length pkt) True (ar_id r) f1)
                 | None \<Rightarrow> (False, drop_in (log_access p (length pkt) False [] f1))))"

section \<open>The tun device\<close>

text \<open>\<open>Read\<close>: the packets of one read of the inner device; the ones that pass, and the replies
  written back. \<open>Write\<close>: the accepted buffers of a batch; a buffer shorter than the offset is
  not a packet. All packets of a batch see one clock reading.\<close>

fun filter_read :: "dns_lib \<Rightarrow> time \<Rightarrow> bytes list \<Rightarrow> wg_filter \<Rightarrow> (bytes list \<times> bytes list) \<times> wg_filter" where
  "filter_read L now [] f = (([], []), f)"
| "filter_read L now (pkt # pkts) f =
     (case filter_outbound L now pkt f of
        ((pass, replies), f1) \<Rightarrow>
          case filter_read L now pkts f1 of
            ((kept, rs), f2) \<Rightarrow> ((if pass then pkt # kept else kept, replies @ rs), f2))"

fun filter_write :: "time \<Rightarrow> nat \<Rightarrow> bytes list \<Rightarrow> wg_filter \<Rightarrow> bytes list \<times> wg_filter" where
  "filter_write now offset [] f = ([], f)"
| "filter_write now offset (b # bs) f =
     (if length b \<ge> offset then
        (case filter_inbound now (drop offset b) f of
           (ok, f1) \<Rightarrow> case filter_write now offset bs f1 of (kept, f2) \<Rightarrow> (if ok then b # kept else kept, f2))
      else filter_write now offset bs f)"

section \<open>Runs\<close>

datatype filter_op =
    OpOut bytes
  | OpIn bytes
  | OpRules "net_acl_rule list"
  | OpPeers "addr list"
  | OpDNSNames "(string, addr) gomap"
  | OpDeny bool
  | OpAccessLog bool
  | OpDrain

fun filter_step :: "dns_lib \<Rightarrow> time \<times> filter_op \<Rightarrow> wg_filter \<Rightarrow> wg_filter" where
  "filter_step L (now, OpOut pkt) f = snd (filter_outbound L now pkt f)"
| "filter_step L (now, OpIn pkt) f = snd (filter_inbound now pkt f)"
| "filter_step L (now, OpRules rs) f = set_rules rs f"
| "filter_step L (now, OpPeers ips) f = set_peers ips f"
| "filter_step L (now, OpDNSNames m) f = set_dns_names m f"
| "filter_step L (now, OpDeny v) f = set_deny_inbound v f"
| "filter_step L (now, OpAccessLog on) f = f\<lparr>wf_alog := set_access_log on (wf_alog f)\<rparr>"
| "filter_step L (now, OpDrain) f = f\<lparr>wf_alog := snd (drain (wf_alog f))\<rparr>"

definition filter_run :: "dns_lib \<Rightarrow> (time \<times> filter_op) list \<Rightarrow> wg_filter \<Rightarrow> wg_filter" where
  "filter_run L es f = fold (filter_step L) es f"

text \<open>The events of a history that started a flow, and those that kept it alive.\<close>

fun starts_flow :: "addr \<Rightarrow> ct_key \<Rightarrow> time \<times> filter_op \<Rightarrow> bool" where
  "starts_flow self k (t, OpOut pkt) =
     (case parse_ipv4_packet pkt of None \<Rightarrow> False | Some p \<Rightarrow> pk_src p = self \<and> flow_of self p = Some k)"
| "starts_flow self k _ = False"

fun uses_flow :: "addr \<Rightarrow> ct_key \<Rightarrow> time \<times> filter_op \<Rightarrow> bool" where
  "uses_flow self k (t, OpIn pkt) =
     (case parse_ipv4_packet pkt of None \<Rightarrow> False | Some p \<Rightarrow> reply_key self p = Some k)"
| "uses_flow self k e = starts_flow self k e"

definition flow_backed :: "addr \<Rightarrow> (time \<times> filter_op) list \<Rightarrow> ct_key \<times> time \<Rightarrow> bool" where
  "flow_backed self es x \<longleftrightarrow>
     (\<exists>e\<in>set es. starts_flow self (fst x) e)
   \<and> (\<exists>e\<in>set es. uses_flow self (fst x) e \<and> snd x = fst e + ct_timeout (ck_proto (fst x)))"

definition filter_inv :: "addr \<Rightarrow> (time \<times> filter_op) list \<Rightarrow> wg_filter \<Rightarrow> bool" where
  "filter_inv self es f \<longleftrightarrow> wf_self f = self \<and> ct_ok (wf_ct f) \<and> ct_max (wf_ct f) = 8192
     \<and> (\<forall>x\<in>set (ct_flows (wf_ct f)). flow_backed self es x)"

lemma starts_uses: "starts_flow self k e \<Longrightarrow> uses_flow self k e"
  by (cases "(self, k, e)" rule: starts_flow.cases) auto

lemma flow_backed_mono: "flow_backed self es x \<Longrightarrow> flow_backed self (es @ [e]) x"
  by (auto simp: flow_backed_def)

lemma lru_put_mem: "x \<in> set (lru_put mx k ex xs) \<Longrightarrow> x = (k, ex) \<or> x \<in> set xs"
  by (auto simp: lru_put_def dest: in_set_takeD)

lemma lru_seen_mem:
  assumes "lru_seen now k xs = (b, ys)" and "x \<in> set ys"
  shows "x \<in> set xs \<or> (\<exists>ex. (k, ex) \<in> set xs \<and> x = (k, now + ct_timeout (ck_proto k)))"
  using assms by (auto simp: lru_seen_def split: option.splits if_splits dest!: map_of_SomeD)

lemma inv_same_ct:
  "filter_inv self es f \<Longrightarrow> wf_self g = wf_self f \<Longrightarrow> wf_ct g = wf_ct f \<Longrightarrow> filter_inv self (es @ [e]) g"
  by (simp add: filter_inv_def flow_backed_mono)

lemma inv_track:
  assumes "filter_inv self es f" and "starts_flow self k e" and "fst e = now"
  shows "filter_inv self (es @ [e]) (f\<lparr>wf_ct := track now k (wf_ct f)\<rparr>)"
proof -
  have ok: "ct_ok (wf_ct f)" using assms(1) by (simp add: filter_inv_def)
  have new: "flow_backed self (es @ [e]) (k, now + ct_timeout (ck_proto k))"
    using assms(2,3) starts_uses [OF assms(2)] by (auto simp: flow_backed_def)
  show ?thesis
    using assms(1) track_refines [OF ok, of now k] new
    by (auto simp: filter_inv_def flow_backed_mono dest!: lru_put_mem)
qed

lemma inv_seen:
  assumes "filter_inv self es f" and "uses_flow self k e" and "fst e = now"
  shows "filter_inv self (es @ [e]) (f\<lparr>wf_ct := snd (seen now k (wf_ct f))\<rparr>)"
proof -
  have ok: "ct_ok (wf_ct f)" using assms(1) by (simp add: filter_inv_def)
  note r = seen_refines [OF ok, of now k]
  have "flow_backed self (es @ [e]) x" if x: "x \<in> set (ct_flows (snd (seen now k (wf_ct f))))" for x
  proof -
    from lru_seen_mem [OF r(2) [symmetric] x] consider "x \<in> set (ct_flows (wf_ct f))"
      | ex where "(k, ex) \<in> set (ct_flows (wf_ct f))" "x = (k, now + ct_timeout (ck_proto k))" by blast
    then show ?thesis
    proof cases
      case 1
      with assms(1) show ?thesis by (simp add: filter_inv_def flow_backed_mono)
    next
      case 2
      with assms have "flow_backed self es (k, ex)" by (simp add: filter_inv_def)
      with 2 assms(2,3) show ?thesis by (auto simp: flow_backed_def)
    qed
  qed
  with assms(1) r(1,3) show ?thesis by (simp add: filter_inv_def)
qed

lemma filter_inv_outbound:
  assumes "filter_inv self es f"
  shows "filter_inv self (es @ [(now, OpOut pkt)]) (snd (filter_outbound L now pkt f))"
proof (cases "parse_ipv4_packet pkt")
  case None
  then show ?thesis by (simp add: filter_outbound_def drop_out_def) (rule inv_same_ct [OF assms]; simp)
next
  case (Some p)
  have self: "wf_self f = self" using assms by (simp add: filter_inv_def)
  have peer: "filter_inv self (es @ [(now, OpOut pkt)]) (f\<lparr>wf_ct := track now k (wf_ct f)\<rparr>)"
    if "pk_src p = self" "flow_of self p = Some k" for k
    by (rule inv_track [OF assms]) (simp_all add: Some that)
  have same: "filter_inv self (es @ [(now, OpOut pkt)]) g" if "wf_self g = wf_self f" "wf_ct g = wf_ct f" for g
    by (rule inv_same_ct [OF assms that])
  show ?thesis
    using peer by (auto simp: filter_outbound_def Some Let_def drop_out_def self same split: option.split)
qed

lemma reply_ok_None: "reply_key (wf_self f) p = None \<Longrightarrow> reply_ok now p f = (False, f)"
  by (simp add: reply_ok_def)

lemma reply_ok_Some:
  "reply_key (wf_self f) p = Some k \<Longrightarrow>
   reply_ok now p f = (fst (seen now k (wf_ct f)), f\<lparr>wf_ct := snd (seen now k (wf_ct f))\<rparr>)"
  by (simp add: reply_ok_def split: prod.split)

lemma filter_inv_inbound:
  assumes "filter_inv self es f"
  shows "filter_inv self (es @ [(now, OpIn pkt)]) (snd (filter_inbound now pkt f))"
proof (cases "parse_ipv4_packet pkt")
  case None
  then show ?thesis by (simp add: filter_inbound_def drop_in_def) (rule inv_same_ct [OF assms]; simp)
next
  case (Some p)
  have self: "wf_self f = self" using assms by (simp add: filter_inv_def)
  obtain b g where r: "reply_ok now p f = (b, g)" by force
  have g: "filter_inv self (es @ [(now, OpIn pkt)]) g"
  proof (cases "reply_key self p")
    case None
    then show ?thesis using r reply_ok_None inv_same_ct [OF assms] by (simp add: self)
  next
    case (Some k)
    have "filter_inv self (es @ [(now, OpIn pkt)]) (f\<lparr>wf_ct := snd (seen now k (wf_ct f))\<rparr>)"
      by (rule inv_seen [OF assms]) (simp_all add: \<open>parse_ipv4_packet pkt = Some p\<close> Some)
    then show ?thesis using r reply_ok_Some [of f p k now] Some by (simp add: self)
  qed
  have same: "filter_inv self (es @ [(now, OpIn pkt)]) h" if "wf_self h = wf_self g" "wf_ct h = wf_ct g" for h
    using g that by (simp add: filter_inv_def)
  have drop: "filter_inv self (es @ [(now, OpIn pkt)]) (drop_in f)"
    by (rule inv_same_ct [OF assms]) (simp_all add: drop_in_def)
  show ?thesis
    using drop g by (auto simp: filter_inbound_def Some r same drop_in_def log_access_def split: bool.split option.split)
qed

lemma filter_inv_step:
  assumes "filter_inv self es f"
  shows "filter_inv self (es @ [e]) (filter_step L e f)"
proof (cases "(L, e, f)" rule: filter_step.cases)
  case (1 L now pkt f')
  with assms filter_inv_outbound show ?thesis by simp
next
  case (2 L now pkt f')
  with assms filter_inv_inbound show ?thesis by simp
qed (auto simp: set_rules_def set_peers_def set_dns_names_def set_deny_inbound_def intro: inv_same_ct [OF assms])

lemma filter_run_inv:
  "filter_inv self es f \<Longrightarrow> filter_inv self (es @ es') (filter_run L es' f)"
proof (induction es' arbitrary: es f)
  case (Cons e es')
  from Cons.IH [OF filter_inv_step [OF Cons.prems]] show ?case by (simp add: filter_run_def)
qed (simp add: filter_run_def)

lemma new_filter_inv: "filter_inv self [] (new_filter secret self resolver zone)"
  by (simp add: filter_inv_def new_filter_def) (simp add: new_conntrack_def ctMaxEntries_def)

lemma filter_run_new: "filter_inv self es (filter_run L es (new_filter secret self resolver zone))"
  using filter_run_inv [OF new_filter_inv, of self es] by simp

text \<open>A packet to a peer passes and leaves its flow tracked; its return packets are accepted until the
  flow expires.\<close>

lemma outbound_tracks:
  assumes "filter_inv self es f" and "filter_outbound L t pkt f = ((True, rs), f1)"
    and "parse_ipv4_packet pkt = Some p" and "flow_of self p = Some k"
  shows "f1 = f\<lparr>wf_ct := track t k (wf_ct f)\<rparr>" and "is_peer f (pk_dst p)"
  using assms by (auto simp: filter_inv_def filter_outbound_def Let_def split: option.splits if_splits)

lemma return_accepted:
  assumes "filter_inv self es f" and "filter_outbound L t pkt f = ((True, rs), f1)"
    and "parse_ipv4_packet pkt = Some p" and "flow_of self p = Some k"
    and "parse_ipv4_packet reply = Some q" and "\<not> pk_frag q" and "pk_dst q = self" and "pk_src q = pk_dst p"
    and "reply_key self q = Some k" and "t' \<le> t + ct_timeout (ck_proto k)"
  shows "fst (filter_inbound t' reply (set_deny_inbound deny (set_rules rules f1)))"
proof -
  note tr = outbound_tracks [OF assms(1-4)]
  have self: "wf_self f = self" and ok: "ct_ok (wf_ct f)" and mx: "ct_max (wf_ct f) = 8192"
    using assms(1) by (simp_all add: filter_inv_def)
  have fl: "map_of (ct_flows (track t k (wf_ct f))) k = Some (t + ct_timeout (ck_proto k))"
    by (simp add: track_refines(2) [OF ok] mx lru_put_def)
  let ?g = "set_deny_inbound deny (set_rules rules f1)"
  have g: "wf_self ?g = self" "wf_ct ?g = track t k (wf_ct f)" "is_peer ?g (pk_src q)"
    using tr self assms(8) by (simp_all add: set_deny_inbound_def set_rules_def is_peer_def)
  have "fst (seen t' k (wf_ct ?g))"
    using seen_refines(2) [OF track_refines(1) [OF ok, of t k], of t' k] fl assms(10)
    unfolding g(2) by (simp add: lru_seen_def)
  then have r: "reply_ok t' q ?g = (True, ?g\<lparr>wf_ct := snd (seen t' k (wf_ct ?g))\<rparr>)"
    using assms(9) by (simp add: reply_ok_Some g(1))
  show ?thesis
    unfolding filter_inbound_def assms(5) using assms(6,7) g(1,3) by (simp add: r)
qed

definition sample_filter :: wg_filter where
  "sample_filter = new_filter [] (IP4 1) NoAddr []"

definition sample_history :: "(time \<times> filter_op) list" where
  "sample_history = [(0, OpPeers [IP4 2]), (1, OpDeny True)]"

definition sample_key :: ct_key where
  "sample_key = \<lparr>ck_proto = protoUDP, ck_local = IP4 1, ck_remote = IP4 2, ck_lport = 10, ck_rport = 20\<rparr>"

lemma sample_out: "parse_ipv4_packet (build_udp 0 1 2 10 20 [7]) = Some p \<Longrightarrow> flow_of (IP4 1) p = Some sample_key"
  and sample_in: "parse_ipv4_packet (build_udp 0 2 1 20 10 [8]) = Some q \<Longrightarrow> reply_key (IP4 1) q = Some sample_key"
  using parse_built_udp [of "[7]" 0 1 2 10 20] parse_built_udp [of "[8]" 0 2 1 20 10]
  by (auto simp: flow_of_def reply_key_def sample_key_def proto_consts empty_pkt_def)

lemma sample_passes:
  "\<exists>f1. filter_outbound L 2 (build_udp 0 1 2 10 20 [7]) (filter_run L sample_history sample_filter) = ((True, []), f1)"
  using parse_built_udp [of "[7]" 0 1 2 10 20]
  by (auto simp: filter_outbound_def filter_run_def sample_history_def sample_filter_def new_filter_def set_peers_def
      set_deny_inbound_def is_peer_def addr_is_valid_def flow_of_def proto_consts empty_pkt_def)

lemma sample_inv: "filter_inv (IP4 1) sample_history (filter_run L sample_history sample_filter)"
  unfolding sample_filter_def by (rule filter_run_new)

lemma udp_timeout: "ct_timeout (ck_proto sample_key) = 30000000000"
  by (simp add: ct_timeout_def sample_key_def proto_consts ctUDPTimeout_def)

section \<open>Properties\<close>

text \<open>C11: What the filter lets in. In every run of the filter, a packet from the tunnel is accepted
  only if it is a well-formed unfragmented IPv4 packet from a known peer to this node, and either it
  matches a rule of the server while inbound connections are allowed, or it is a return packet of a
  flow that an earlier packet of this node started and that was used within the flow's timeout.\<close>

theorem inbound_only_allowed:
  assumes "filter_inbound now pkt (filter_run L es (new_filter secret self resolver zone)) = (True, f')"
  shows "let f = filter_run L es (new_filter secret self resolver zone) in
    \<exists>p. parse_ipv4_packet pkt = Some p \<and> \<not> pk_frag p \<and> pk_dst p = self \<and> is_peer f (pk_src p)
    \<and> ((\<not> wf_deny f \<and> (\<exists>r\<in>set (wf_rules f). rule_match r p))
       \<or> (\<exists>k. reply_key self p = Some k \<and> (\<exists>e\<in>set es. starts_flow self k e)
            \<and> (\<exists>e\<in>set es. uses_flow self k e \<and> now \<le> fst e + ct_timeout (ck_proto k))))"
proof -
  define f where "f = filter_run L es (new_filter secret self resolver zone)"
  note acc = assms [folded f_def]
  have inv: "filter_inv self es f" unfolding f_def by (rule filter_run_new)
  then have self: "wf_self f = self" and ok: "ct_ok (wf_ct f)" by (simp_all add: filter_inv_def)
  obtain p where p: "parse_ipv4_packet pkt = Some p" "\<not> pk_frag p" "pk_dst p = self" "is_peer f (pk_src p)"
    using acc self by (auto simp: filter_inbound_def split: option.splits if_splits)
  obtain b g where r: "reply_ok now p f = (b, g)" by force
  have g: "wf_deny g = wf_deny f" "wf_rules g = wf_rules f"
    using r by (auto simp: reply_ok_def split: option.splits prod.splits)
  have "\<exists>p. parse_ipv4_packet pkt = Some p \<and> \<not> pk_frag p \<and> pk_dst p = self \<and> is_peer f (pk_src p)
    \<and> ((\<not> wf_deny f \<and> (\<exists>r\<in>set (wf_rules f). rule_match r p))
       \<or> (\<exists>k. reply_key self p = Some k \<and> (\<exists>e\<in>set es. starts_flow self k e)
            \<and> (\<exists>e\<in>set es. uses_flow self k e \<and> now \<le> fst e + ct_timeout (ck_proto k))))"
  proof (cases b)
    case True
    obtain k where k: "reply_key self p = Some k"
      using r True self by (auto simp: reply_ok_def split: option.splits)
    have "fst (seen now k (wf_ct f))" using r True k reply_ok_Some [of f p k now] by (simp add: self)
    with seen_refines(2) [OF ok, of now k] obtain ex where "(k, ex) \<in> set (ct_flows (wf_ct f))" "now \<le> ex"
      by (auto simp: lru_seen_def split: option.splits if_splits dest!: map_of_SomeD)
    moreover from this inv have "flow_backed self es (k, ex)" by (simp add: filter_inv_def)
    ultimately show ?thesis using p k by (auto simp: flow_backed_def)
  next
    case False
    then have "\<not> wf_deny f" "\<exists>r\<in>set (wf_rules f). rule_match r p"
      using acc p r self g
      by (auto simp: filter_inbound_def find_Some_iff split: if_splits option.splits bool.splits)
    with p show ?thesis by blast
  qed
  then show ?thesis by (simp only: f_def Let_def)
qed

lemma sample_accepts:
  "fst (filter_inbound 3 (build_udp 0 2 1 20 10 [8]) (filter_run L (sample_history @ [(2, OpOut (build_udp 0 1 2 10 20 [7]))]) sample_filter))"
proof -
  let ?f = "filter_run L sample_history sample_filter"
  obtain f1 where f1: "filter_outbound L 2 (build_udp 0 1 2 10 20 [7]) ?f = ((True, []), f1)"
    using sample_passes by blast
  obtain p q where p: "parse_ipv4_packet (build_udp 0 1 2 10 20 [7]) = Some p" "pk_dst p = IP4 2"
    and q: "parse_ipv4_packet (build_udp 0 2 1 20 10 [8]) = Some q" "\<not> pk_frag q" "pk_dst q = IP4 1" "pk_src q = IP4 2"
    using parse_built_udp [of "[7]" 0 1 2 10 20] parse_built_udp [of "[8]" 0 2 1 20 10] by (auto simp: empty_pkt_def)
  have run: "filter_run L (sample_history @ [(2, OpOut (build_udp 0 1 2 10 20 [7]))]) sample_filter = f1"
    using f1 by (simp add: filter_run_def)
  have "wf_deny f1" "wf_rules f1 = compile_acl []"
    using outbound_tracks(1) [OF sample_inv f1 p(1) sample_out [OF p(1)]]
    by (simp_all add: filter_run_def sample_history_def sample_filter_def new_filter_def set_peers_def
        set_deny_inbound_def compile_acl_def List.map_filter_def)
  then have "set_deny_inbound True (set_rules [] f1) = f1" by (simp add: set_deny_inbound_def set_rules_def)
  then show ?thesis
    using return_accepted [OF sample_inv f1 p(1) sample_out [OF p(1)] q(1-3) _ sample_in [OF q(1)], of 3 True "[]"]
    by (simp add: q(4) p(2) udp_timeout run)
qed

lemma inbound_only_allowed_witness:
  "\<exists>p. parse_ipv4_packet (build_udp 0 2 1 20 10 [8]) = Some p \<and> pk_dst p = IP4 1 \<and> \<not> pk_frag p"
proof -
  let ?es = "sample_history @ [(2, OpOut (build_udp 0 1 2 10 20 [7]))]"
  obtain f' where "filter_inbound 3 (build_udp 0 2 1 20 10 [8]) (filter_run tiny_dns ?es (new_filter [] (IP4 1) NoAddr [])) = (True, f')"
    using sample_accepts [of tiny_dns] unfolding sample_filter_def by (metis prod.collapse)
  from inbound_only_allowed [OF this] show ?thesis by (auto simp: Let_def)
qed

text \<open>Connections this node opens keep working whatever the access rules say. In every reachable
  state of the filter, once an outbound packet of a flow has passed, an unfragmented return packet of
  the flow from that peer is accepted until the flow's timeout, even if the rules are replaced and
  inbound connections are denied in between.\<close>

lemma return_traffic_accepted:
  assumes "filter_outbound L t pkt (filter_run L es (new_filter secret self resolver zone)) = ((True, rs), f1)"
    and "parse_ipv4_packet pkt = Some p" and "flow_of self p = Some k"
    and "parse_ipv4_packet reply = Some q" and "\<not> pk_frag q" and "pk_dst q = self" and "pk_src q = pk_dst p"
    and "reply_key self q = Some k" and "t' \<le> t + ct_timeout (ck_proto k)"
  shows "fst (filter_inbound t' reply (set_deny_inbound deny (set_rules rules f1)))"
  by (rule return_accepted [OF filter_run_new assms])

lemma return_traffic_accepted_witness:
  "\<exists>f1. fst (filter_inbound 3 (build_udp 0 2 1 20 10 [8]) (set_deny_inbound True (set_rules [] f1)))"
proof -
  obtain f1 where f1: "filter_outbound tiny_dns 2 (build_udp 0 1 2 10 20 [7])
      (filter_run tiny_dns sample_history (new_filter [] (IP4 1) NoAddr [])) = ((True, []), f1)"
    using sample_passes [of tiny_dns] unfolding sample_filter_def by blast
  obtain p q where p: "parse_ipv4_packet (build_udp 0 1 2 10 20 [7]) = Some p" "pk_dst p = IP4 2"
    and q: "parse_ipv4_packet (build_udp 0 2 1 20 10 [8]) = Some q" "\<not> pk_frag q" "pk_dst q = IP4 1" "pk_src q = IP4 2"
    using parse_built_udp [of "[7]" 0 1 2 10 20] parse_built_udp [of "[8]" 0 2 1 20 10] by (auto simp: empty_pkt_def)
  have "fst (filter_inbound 3 (build_udp 0 2 1 20 10 [8]) (set_deny_inbound True (set_rules [] f1)))"
    by (rule return_traffic_accepted [OF f1 p(1) sample_out [OF p(1)] q(1-3) _ sample_in [OF q(1)]])
      (simp_all add: q(4) p(2) udp_timeout)
  then show ?thesis by blast
qed

end
