(* ===== verification/Spec2Isabelle.thy ===== *)
theory Spec2Isabelle
  imports Access_Intake Access_Log Access_Records Addr_Text Agent_Window Allocator Backend_Choice
    Bridges Direct_Paths Disco Dns_Virt Exchange Flow_Control Frame_Codec Go_Strings Health_Checks
    Host_Router Http_Path Load_Balance Mcp_Config Net_Alloc Net_Desired Net_Direct Net_Endpoints
    Net_Info Net_Manager Net_Ops Net_Punch Net_Relay Net_Safety Net_State Net_Sync Net_Types
    Net_Visibility Netip Netip_Text OAuth_Access OAuth_History OAuth_Pages OAuth_Safety OAuth_Scopes
    OAuth_Server OAuth_Store Path_Safety Policy_Engine Port_Pool Prelude Route_Traffic Screen_Codec
    Screen_Pack Screen_Stream Session_Exchanges Session_Run Session_State Stun Video_Codec Wg_Acl
    Wg_Filter Wg_Packet
begin

text \<open>
  Verification of Zorven, a self-hosted tunnel service: a server that publishes local services of
  its clients, and agents that connect to it. Everything goes over one WebSocket connection per
  agent, which carries JSON control messages and binary frames. On top of it the program builds
  request/response exchanges with credit-based flow control, WebSocket and raw TCP bridges, screen
  streams, and an overlay network (WireGuard packets relayed by the server) with shares, access
  rules, a packet filter and a virtual DNS on the agents.

  Parts and theories (file names are relative to \<open>src/\<close>):

  Foundations. \<open>Prelude\<close>: bytes, big-endian fields, Go maps as association lists without duplicate
  keys, Go channels (\<open>chan\<close>) as bounded queues with a closed flag, time and durations in
  nanoseconds, and the locales of the interfaces: \<open>codec\<close> (an encoder and a decoder that invert each
  other), \<open>id_table\<close> (a table of objects by identifier), \<open>bounded_queue\<close>. \<open>Go_Strings\<close>, \<open>Netip\<close>,
  \<open>Netip_Text\<close>: what the program uses of the packages strings, strconv and net/netip, with the
  text forms of addresses; \<open>Addr_Text\<close> proves that printing and parsing addresses, IPv6 included, are inverse.

  Wire formats. \<open>Frame_Codec\<close> (shared/protocol/frame.go), \<open>Screen_Codec\<close> and \<open>Screen_Pack\<close>
  (screen2.go), \<open>Video_Codec\<close> (screen2_video.go). Round trips, strictness of the decoders, and that
  packing loses and reorders nothing.

  The tunnel session on the server. \<open>Exchange\<close> (server/tunnel/exchange.go): one request, its body
  channel and byte window. \<open>Session_State\<close>: the record of session.go with its tables, queues and
  counters. \<open>Session_Exchanges\<close>: requests, response heads and bodies, loss of the connection, request
  bodies. \<open>Bridges\<close> (ws.go, rawstream.go), \<open>Screen_Stream\<close> (screen2.go, screen2_video.go,
  screen_aux.go), \<open>Session_Run\<close>: the read loop, the routing of every message, heartbeats and the
  invariant of all reachable sessions. \<open>Agent_Window\<close> (client/agent/flowcontrol.go, proxy.go) is the
  credit table of the agent; \<open>Flow_Control\<close> composes agent, wire and session and proves that credit
  is conserved: an agent never overruns a window and never waits for credit that is not under way.

  The overlay network on an agent. \<open>Wg_Packet\<close> (client/wgnet/packet.go), \<open>Wg_Acl\<close> (acl.go: rules and
  connection tracking, refined by an LRU list), \<open>Access_Log\<close> (alog.go), \<open>Dns_Virt\<close> (dnsvirt.go),
  \<open>Wg_Filter\<close> (filter.go): the packet filter of a node over any history of packets and
  configuration changes.

  The overlay network on the server. \<open>Allocator\<close> is the contract of a routine that hands out
  addresses one at a time; \<open>Net_Alloc\<close> (server/netctl/ipam.go, parts of tun.go) and \<open>Port_Pool\<close>
  (server/portpool/portpool.go) fulfil it; listeners of the port pool do not clash unless a bind address is unspecified,
  IPv4-mapped or zoned, which the parser accepts. \<open>Net_Types\<close> (types.go, visibility.go, outbox.go and the
  names of manager.go), \<open>Net_State\<close> (shared/protocol/wgnet.go: map messages and their application),
  \<open>Net_Desired\<close> (manager.go and tun.go: the map a node should have and the message that takes it
  there), \<open>Net_Sync\<close>: a client that applies the messages holds the map the server computed.
  \<open>Net_Visibility\<close>: the nodes of a map are exactly those linked by an active share or a rule.
  \<open>Net_Manager\<close> (manager.go, tun.go): the manager with all tenants, nodes and outboxes, and every
  operation on it: loading, registration, end of a connection, relay, mode, shares, rules, networks,
  revocation, sweep, recomputation. \<open>Net_Safety\<close> states the invariant of the manager and proves that a
  recomputation restores it, \<open>Net_Ops\<close> that every operation keeps it. The field \<open>mg_last\<close> of the manager is
  a record for the theorems (what the last recomputation started from) that no operation reads.
  \<open>Net_Endpoints\<close> and \<open>Net_Punch\<close> (punch.go): the UDP addresses nodes report and their exchange for direct
  paths. \<open>Net_Info\<close>: the listings of nodes and shares. \<open>Access_Intake\<close> (accesslog.go): the access records, their
  checks and their rate. \<open>Net_Relay\<close>: manager and connections as a state machine with a step for every handler,
  the isolation of the relay in all its states, and the end of a connection. Its histories leave out late closes (a session
  connection that ends after its node was revoked or swept): they break the tables, which is shown there, as is that a revoked
  node keeps relaying to the addresses it saw until its connection ends. \<open>Net_Direct\<close> and
  \<open>Access_Records\<close>: over the same histories, who is told whose addresses, and what a report makes the
  server write.

  Direct paths. \<open>Stun\<close> (shared/stun/stun.go, server/netctl/stun.go): the messages by which a node learns its public
  address, and the responder with its token buckets. \<open>Disco\<close> (client/wgnet/disco.go): sealed probes and the cache of
  nonces. \<open>Direct_Paths\<close> (paths.go, direct.go, bind.go): the path manager of a node, its timer, the messages, and the
  choice between relay and direct path. \<open>Path_Safety\<close>: over any history, which addresses a node believes and why; the
  invariant ties every table of the manager to the probes received and the pings sent.

  The ingress. \<open>Http_Path\<close>: the canonical form of request paths. \<open>Load_Balance\<close> and \<open>Health_Checks\<close>
  (server/ingress/lb.go, backends.go, health.go): candidates, health records, strategies, schedule.
  \<open>Policy_Engine\<close> (policy.go, waf.go): compilation and evaluation of the rules. \<open>Host_Router\<close> (router.go):
  the tables, their reload from the rows of the database, and the lookups. \<open>Route_Traffic\<close> (traffic.go and the
  rule part of \<open>ServeHTTP\<close> in ingress.go): traffic policies as shared objects in a store. \<open>Backend_Choice\<close>:
  the choice of the agent over the life of the ingress.

  The OAuth server for MCP clients. \<open>OAuth_Scopes\<close> (server/oauthas/scopes.go): scopes and what they imply.
  \<open>OAuth_Store\<close> (store.go, memstore.go): records and the store in memory; the locale \<open>single_use\<close> is the contract of codes and
  refresh tokens. \<open>OAuth_Server\<close> (oauthas.go, consent.go, tunnelres.go, jwt.go, parts of mcpconf.go): every request that changes
  the state, and the check of access tokens. \<open>OAuth_Pages\<close>: the remaining answers. \<open>OAuth_Safety\<close>: histories of requests, what the
  user agreed to, and how the store moves on. \<open>OAuth_History\<close>: the invariants of all histories. \<open>OAuth_Access\<close>: single use, live
  grants, confined tokens, the end of full access, and a concrete history.

  MCP mode of tunnels. \<open>Mcp_Config\<close> (server/mcpconf/mcpconf.go): settings with their checks, defaults and the tolerant reading
  of the ingress, the wildcard matcher as a loop with its meaning as a recursive specification, the tool policy, the endpoints.

  Conventions. A Go map is an association list, so an iteration follows its order; theorems hold for
  every list, hence for every iteration order. \<open>select\<close> with several ready cases takes an argument
  that chooses. Bytes are 8-bit words, 32-bit and 64-bit counters are words and wrap around; lengths
  and Go ints are unbounded integers where the code bounds them by smaller limits. A method under a
  mutex is one step. Panics, refusals and errors are values. Loops over data are structural; the
  drain of a body after connection loss uses as many reads as there are unread bytes plus one, and
  the search for a free name one more step than there are names, which is enough.

  Parameters. The DNS message library (\<open>dns_lib\<close>), the choice of ready \<open>select\<close> cases, clocks, and the
  hooks and visibility rules of the network manager (\<open>net_env\<close>); for the ingress, regular expressions,
  webhook signatures, URL decoding and the verdicts of the limiters (\<open>policy_env\<close>, \<open>request_facts\<close>), parsing of JSON
  and certificates (\<open>reload_env\<close>), the authenticated encryption of probes (\<open>box\<close>) and its random values, hashes,
  signatures, JSON, base64 and URL parsing of the OAuth server (\<open>oauth_env\<close>) and what the panel knows of a user (\<open>panel_facts\<close>), and the floating-point average of latencies.

  Not modelled. JSON text, goroutine scheduling below the granularity of a method, TLS, HTTP and
  WebSocket libraries, SQL storage, mail, the web API, the desktop application, platform code of
  screen capture and input, and WireGuard itself.
\<close>

end
